(* ===== verification/PyFloat.thy ===== *)
theory PyFloat
  imports Complex_Main
begin

text \<open>
  Python's two fractional number types, as the code uses them.

  A \<^verbatim>\<open>float\<close> is an IEEE-754 binary64 number: every arithmetic operation computes the exact
  rational result and rounds it to 53 significant binary digits, ties to even
  (\<open>rnd\<close>), and an overflow gives an infinity.  A \<^verbatim>\<open>Decimal\<close> operation of the default
  context rounds to 28 significant decimal digits, ties to even (\<open>drnd\<close>).  Both are instances
  of one executable function \<open>round_sig\<close>, whose monotonicity and exactness on short numbers
  are proved here and are what the components rely on.  The sign of a zero is not kept (no
  comparison of the code sees it) and neither is the exponent range of \<^verbatim>\<open>Decimal\<close>
  (a cost would need a million digits to leave it).
\<close>

section \<open>Rounding to a number of significant digits\<close>

text \<open>Round to the nearest integer, ties to even.\<close>

definition rhe :: "rat \<Rightarrow> int" where
  "rhe x =
     (let f = \<lfloor>x\<rfloor>; d = x - of_int f
      in if d < 1 / 2 then f else if 1 / 2 < d then f + 1 else if even f then f else f + 1)"

lemma rhe_of_int [simp]: "rhe (of_int n) = n"
  by (simp add: rhe_def)

lemma rhe_0 [simp]: "rhe 0 = 0"
  using rhe_of_int [of 0] by simp

lemma rhe_bounds: "\<lfloor>x\<rfloor> \<le> rhe x" "rhe x \<le> \<lfloor>x\<rfloor> + 1"
  by (simp_all add: rhe_def Let_def)

lemma rhe_mono:
  assumes "x \<le> y"
  shows "rhe x \<le> rhe y"
proof (cases "\<lfloor>x\<rfloor> = \<lfloor>y\<rfloor>")
  case True
  with assms show ?thesis by (auto simp: rhe_def Let_def)
next
  case False
  with floor_mono [OF assms] have "\<lfloor>x\<rfloor> + 1 \<le> \<lfloor>y\<rfloor>" by simp
  with rhe_bounds(2) [of x] rhe_bounds(1) [of y] show ?thesis by linarith
qed

lemma rhe_le_of_int: "x \<le> of_int n \<Longrightarrow> rhe x \<le> n"
  using rhe_mono [of x "of_int n"] by simp

lemma rhe_ge_of_int: "of_int n \<le> x \<Longrightarrow> n \<le> rhe x"
  using rhe_mono [of "of_int n" x] by simp

text \<open>The exponent of the leading digit of a positive number in base \<open>b\<close>.\<close>

lemma floor_div_base:
  fixes b r :: rat
  assumes "2 \<le> b" "1 < r"
  shows "nat \<lfloor>r / b\<rfloor> < nat \<lfloor>r\<rfloor>"
proof -
  have "0 < b" using assms by simp
  have "r * 2 \<le> r * b" using assms by (intro mult_left_mono) auto
  with \<open>0 < b\<close> have half: "r / b \<le> r / 2" by (simp add: field_simps)
  have one: "1 \<le> \<lfloor>r\<rfloor>" using assms by linarith
  show ?thesis
  proof (cases "r < 2")
    case True
    with half have "r / b < 1" by linarith
    then have "\<lfloor>r / b\<rfloor> \<le> 0" by linarith
    with one show ?thesis by linarith
  next
    case False
    with half have "r / b \<le> r - 1" by linarith
    then have "\<lfloor>r / b\<rfloor> \<le> \<lfloor>r\<rfloor> - 1" by linarith
    with one show ?thesis by linarith
  qed
qed

function expo_up :: "rat \<Rightarrow> rat \<Rightarrow> int" where
  "expo_up b r = (if 2 \<le> b \<and> b \<le> r then expo_up b (r / b) + 1 else 0)"
  by pat_completeness auto
termination
proof (relation "measure (\<lambda>(b, r). nat \<lfloor>r\<rfloor>)", goal_cases)
  case (2 b r)
  then show ?case using floor_div_base [of b r] by simp
qed simp

function expo_dn :: "rat \<Rightarrow> rat \<Rightarrow> int" where
  "expo_dn b r = (if 2 \<le> b \<and> 0 < r \<and> r < 1 then expo_dn b (b * r) - 1 else 0)"
  by pat_completeness auto
termination
proof (relation "measure (\<lambda>(b, r). nat \<lfloor>1 / r\<rfloor>)", goal_cases)
  case (2 b r)
  then have "nat \<lfloor>(1 / r) / b\<rfloor> < nat \<lfloor>1 / r\<rfloor>"
    by (intro floor_div_base) (auto simp: field_simps)
  then show ?case by (simp add: field_simps)
qed simp

declare expo_up.simps [simp del] expo_dn.simps [simp del]

definition expo :: "rat \<Rightarrow> rat \<Rightarrow> int" where
  "expo b r = (if 1 \<le> r then expo_up b r else expo_dn b r)"

lemma expo_up_spec:
  "2 \<le> b \<Longrightarrow> 1 \<le> r \<Longrightarrow> b powi expo_up b r \<le> r \<and> r < b powi (expo_up b r + 1)"
proof (induction b r rule: expo_up.induct)
  case (1 b r)
  show ?case
  proof (cases "b \<le> r")
    case True
    with "1.prems" have "1 \<le> r / b" by simp
    with "1.IH" "1.prems" True
    have ih: "b powi expo_up b (r / b) \<le> r / b \<and> r / b < b powi (expo_up b (r / b) + 1)"
      by simp
    have "expo_up b r = expo_up b (r / b) + 1"
      using True "1.prems" by (subst expo_up.simps) simp
    moreover have "b powi (expo_up b (r / b) + 1) = b powi expo_up b (r / b) * b"
      and "b powi (expo_up b (r / b) + 1 + 1) = b powi (expo_up b (r / b) + 1) * b"
      using "1.prems" by (simp_all add: power_int_add power2_eq_square)
    ultimately show ?thesis using ih "1.prems" by (simp add: field_simps)
  next
    case False
    with "1.prems" show ?thesis by (subst (1 2) expo_up.simps) simp
  qed
qed

lemma expo_dn_spec:
  "2 \<le> b \<Longrightarrow> 0 < r \<Longrightarrow> r < b \<Longrightarrow> b powi expo_dn b r \<le> r \<and> r < b powi (expo_dn b r + 1)"
proof (induction b r rule: expo_dn.induct)
  case (1 b r)
  show ?case
  proof (cases "r < 1")
    case True
    with "1.prems" have *: "0 < b * r" "b * r < b" by simp_all
    with "1.IH" "1.prems" True
    have ih: "b powi expo_dn b (b * r) \<le> b * r \<and> b * r < b powi (expo_dn b (b * r) + 1)"
      by simp
    have eq: "expo_dn b r = expo_dn b (b * r) - 1"
      using True "1.prems" by (subst expo_dn.simps) simp
    have "b powi (expo_dn b (b * r) - 1) = b powi expo_dn b (b * r) / b"
      using "1.prems" by (subst power_int_diff) simp_all
    moreover have "b powi (expo_dn b (b * r) + 1) = b powi expo_dn b (b * r) * b"
      using "1.prems" by (subst power_int_add) simp_all
    moreover have "b powi (expo_dn b (b * r) - 1 + 1) = b powi expo_dn b (b * r)" by simp
    ultimately show ?thesis using ih "1.prems" unfolding eq
      by (simp add: pos_divide_le_eq mult.commute)
  next
    case False
    with "1.prems" show ?thesis by (subst (1 2) expo_dn.simps) simp
  qed
qed

lemma expo_spec:
  assumes "2 \<le> b" "0 < r"
  shows "b powi expo b r \<le> r" "r < b powi (expo b r + 1)"
  using assms expo_up_spec [of b r] expo_dn_spec [of b r] by (simp_all add: expo_def)

lemma powi_less_imp:
  fixes b :: rat
  assumes "2 \<le> b" "b powi m < b powi n"
  shows "m < n"
proof (rule ccontr)
  assume "\<not> m < n"
  then have "b powi n \<le> b powi m"
    using assms(1) by (intro power_int_increasing) simp_all
  with assms(2) show False by simp
qed

lemma expo_mono:
  assumes "2 \<le> b" "0 < x" "x \<le> y"
  shows "expo b x \<le> expo b y"
proof -
  have "b powi expo b x \<le> x" using expo_spec(1) assms by simp
  also have "x \<le> y" by fact
  also have "y < b powi (expo b y + 1)" using expo_spec(2) assms by simp
  finally have "expo b x < expo b y + 1" by (rule powi_less_imp [OF assms(1)])
  then show ?thesis by simp
qed

definition round_sig :: "rat \<Rightarrow> int \<Rightarrow> int \<Rightarrow> rat \<Rightarrow> rat" where
  "round_sig b p emin r =
     (if r = 0 then 0
      else let u = b powi (max emin (expo b \<bar>r\<bar>) - p + 1) in of_int (rhe (r / u)) * u)"

lemma round_sig_0 [simp]: "round_sig b p emin 0 = 0"
  by (simp add: round_sig_def)

lemma powi_pos_base: "2 \<le> b \<Longrightarrow> 0 < b powi (k::int)" for b :: rat
  by (simp add: zero_less_power_int)

lemma round_sig_nonneg:
  assumes "2 \<le> b" "0 \<le> r"
  shows "0 \<le> round_sig b p emin r"
proof -
  let ?u = "b powi (max emin (expo b \<bar>r\<bar>) - p + 1)"
  have u: "0 < ?u" using assms(1) by (rule powi_pos_base)
  then have "0 \<le> rhe (r / ?u)" using assms(2) by (intro rhe_ge_of_int) simp
  with u show ?thesis by (simp add: round_sig_def Let_def)
qed

lemma round_sig_nonpos:
  assumes "2 \<le> b" "r \<le> 0"
  shows "round_sig b p emin r \<le> 0"
proof -
  let ?u = "b powi (max emin (expo b \<bar>r\<bar>) - p + 1)"
  have u: "0 < ?u" using assms(1) by (rule powi_pos_base)
  then have "rhe (r / ?u) \<le> 0"
    using assms(2) by (intro rhe_le_of_int) (simp add: divide_nonpos_pos)
  with u show ?thesis by (simp add: round_sig_def Let_def mult_nonpos_nonneg)
qed

lemma round_sig_unit_mono:
  assumes "2 \<le> b" "x \<le> y"
  shows "of_int (rhe (x / b powi k)) * b powi k \<le> of_int (rhe (y / b powi k)) * (b powi k :: rat)"
proof -
  have u: "0 < b powi k" using assms(1) by (rule powi_pos_base)
  with assms(2) have "rhe (x / b powi k) \<le> rhe (y / b powi k)"
    by (intro rhe_mono divide_right_mono) simp_all
  with u show ?thesis by (intro mult_right_mono) simp_all
qed

text \<open>A power of the base that is a multiple of the unit is reproduced exactly.\<close>

lemma round_unit_power:
  fixes b :: rat and k j :: int
  assumes b: "b = of_nat B" "2 \<le> B" and "k \<le> j"
  shows "of_int (rhe (b powi j / b powi k)) * b powi k = b powi j"
proof -
  have nz: "b \<noteq> 0" using b by simp
  have "b powi j / b powi k = b powi (j - k)" using nz by (simp add: power_int_diff)
  also have "\<dots> = of_int (int (B ^ nat (j - k)))"
    using assms by (simp add: power_int_def)
  finally have "rhe (b powi j / b powi k) = int (B ^ nat (j - k))" and
    "b powi j / b powi k = of_int (int (B ^ nat (j - k)))" by (simp_all only: rhe_of_int)
  with nz show ?thesis by (metis nonzero_eq_divide_eq power_int_not_zero)
qed

lemma round_sig_mono_pos:
  assumes b: "b = of_nat B" "2 \<le> B" and p: "1 \<le> p" and xy: "0 < x" "x \<le> y"
  shows "round_sig b p emin x \<le> round_sig b p emin y"
proof -
  let ?ex = "max emin (expo b x)" and ?ey = "max emin (expo b y)"
  have b2: "2 \<le> b" using b by simp
  have "?ex \<le> ?ey" using expo_mono [OF b2 xy] by simp
  then consider "?ex = ?ey" | "?ex < ?ey" by linarith
  then show ?thesis
  proof cases
    case 1
    with xy round_sig_unit_mono [OF b2 xy(2)] show ?thesis
      by (simp add: round_sig_def Let_def)
  next
    case 2
    then have ey: "?ey = expo b y" and lt: "expo b x < expo b y" by linarith+
    have lo: "b powi ?ey \<le> y" using expo_spec(1) [OF b2, of y] xy ey by simp
    have "x < b powi (expo b x + 1)" using expo_spec(2) [OF b2 xy(1)] .
    also have "\<dots> \<le> b powi ?ey"
      using lt ey b2 by (intro power_int_increasing) simp_all
    finally have hi: "x \<le> b powi ?ey" by simp
    have unit: "?ex - p + 1 \<le> ?ey" "?ey - p + 1 \<le> ?ey" using 2 p by linarith+
    have "round_sig b p emin x \<le>
        of_int (rhe (b powi ?ey / b powi (?ex - p + 1))) * b powi (?ex - p + 1)"
      using round_sig_unit_mono [OF b2 hi, of "?ex - p + 1"] xy by (simp add: round_sig_def Let_def)
    also have "\<dots> = b powi ?ey" by (rule round_unit_power [OF b unit(1)])
    also have "\<dots> = of_int (rhe (b powi ?ey / b powi (?ey - p + 1))) * b powi (?ey - p + 1)"
      by (rule round_unit_power [OF b unit(2), symmetric])
    also have "\<dots> \<le> round_sig b p emin y"
      using round_sig_unit_mono [OF b2 lo, of "?ey - p + 1"] xy by (simp add: round_sig_def Let_def)
    finally show ?thesis .
  qed
qed

lemma rhe_minus: "rhe (- x) = - rhe x"
proof (cases "x = of_int \<lfloor>x\<rfloor>")
  case True
  then show ?thesis by (metis of_int_minus rhe_of_int)
next
  case False
  then have "of_int \<lfloor>x\<rfloor> < x" using of_int_floor_le [of x] by linarith
  then have f: "\<lfloor>- x\<rfloor> = - \<lfloor>x\<rfloor> - 1" by linarith
  define d where "d = x - of_int \<lfloor>x\<rfloor>"
  have d': "- x - of_int (- \<lfloor>x\<rfloor> - 1) = 1 - d" by (simp add: d_def)
  show ?thesis unfolding rhe_def Let_def f d' d_def [symmetric] by auto
qed

lemma round_sig_minus: "round_sig b p emin (- r) = - round_sig b p emin r"
  by (simp add: round_sig_def Let_def rhe_minus minus_divide_left [symmetric])

theorem round_sig_mono:
  assumes b: "b = of_nat B" "2 \<le> B" and p: "1 \<le> p" and xy: "x \<le> y"
  shows "round_sig b p emin x \<le> round_sig b p emin y"
proof -
  have b2: "2 \<le> b" using b by simp
  consider "0 < x" | "x \<le> 0" "0 \<le> y" | "y < 0" using xy by linarith
  then show ?thesis
  proof cases
    case 1
    then show ?thesis using round_sig_mono_pos [OF b p _ xy] by simp
  next
    case 2
    then show ?thesis
      using round_sig_nonpos [OF b2, of x] round_sig_nonneg [OF b2, of y] by (meson order_trans)
  next
    case 3
    then have "round_sig b p emin (- y) \<le> round_sig b p emin (- x)"
      using round_sig_mono_pos [OF b p, of "- y" "- x"] xy by simp
    then show ?thesis by (simp add: round_sig_minus)
  qed
qed

text \<open>An integer with at most \<open>p\<close> digits is a fixed point.\<close>

lemma round_sig_of_int:
  assumes b: "b = of_nat B" "2 \<le> B" and p: "1 \<le> p" "emin \<le> 0" and m: "\<bar>of_int m\<bar> < b powi p"
  shows "round_sig b p emin (of_int m) = of_int m"
proof (cases "m = 0")
  case False
  have b2: "2 \<le> b" using b by simp
  let ?k = "max emin (expo b \<bar>of_int m\<bar>) - p + 1"
  have "b powi expo b \<bar>of_int m\<bar> \<le> \<bar>of_int m\<bar>"
    using False by (intro expo_spec(1) [OF b2]) simp
  with m have "expo b \<bar>of_int m\<bar> < p"
    using powi_less_imp [OF b2] by (meson le_less_trans)
  with p have k: "?k \<le> 0" by simp
  have "b powi ?k = inverse (of_int (int (B ^ nat (- ?k))))"
    using k b by (simp add: power_int_def power_inverse)
  then have "(of_int m :: rat) / b powi ?k = of_int (m * int (B ^ nat (- ?k)))"
    by (simp add: divide_inverse)
  then have "of_int (rhe (of_int m / b powi ?k)) = (of_int m :: rat) / b powi ?k"
    by (simp only: rhe_of_int)
  moreover have "b powi ?k \<noteq> 0" using b2 by (simp add: power_int_not_zero)
  ultimately show ?thesis by (simp add: round_sig_def Let_def)
qed simp

text \<open>Rounding twice is rounding once: the result of a rounding is representable.\<close>

lemma round_sig_exact:
  assumes b: "b = of_nat B" "2 \<le> B" and y: "y = of_int m * b powi j"
    and j: "max emin (expo b \<bar>y\<bar>) - p + 1 \<le> j"
  shows "round_sig b p emin y = y"
proof (cases "y = 0")
  case False
  let ?k = "max emin (expo b \<bar>y\<bar>) - p + 1"
  have nz: "b \<noteq> 0" using b by simp
  have "y / b powi ?k = of_int m * b powi (j - ?k)" using y nz by (simp add: power_int_diff)
  also have "b powi (j - ?k) = of_int (int (B ^ nat (j - ?k)))"
    using j b by (simp add: power_int_def)
  finally have "y / b powi ?k = of_int (m * int (B ^ nat (j - ?k)))" by simp
  then have "of_int (rhe (y / b powi ?k)) = y / b powi ?k" by (simp only: rhe_of_int)
  with nz False show ?thesis by (simp add: round_sig_def Let_def power_int_not_zero)
qed simp

lemma expo_power:
  assumes "2 \<le> b"
  shows "expo b (b powi j) = j"
proof -
  have "b powi expo b (b powi j) < b powi (j + 1)" "b powi j < b powi (expo b (b powi j) + 1)"
    using expo_spec [OF assms powi_pos_base [OF assms, of j]] assms
    by (auto intro: le_less_trans simp: power_int_strict_increasing)
  then have "expo b (b powi j) < j + 1" "j < expo b (b powi j) + 1"
    by (auto dest: powi_less_imp [OF assms])
  then show ?thesis by simp
qed

theorem round_sig_idem:
  assumes b: "b = of_nat B" "2 \<le> B" and p: "1 \<le> p"
  shows "round_sig b p emin (round_sig b p emin r) = round_sig b p emin r"
proof (cases "r = 0")
  case False
  have b2: "2 \<le> b" using b by simp
  define k where "k = max emin (expo b \<bar>r\<bar>)"
  define m where "m = rhe (r / b powi (k - p + 1))"
  define y where "y = of_int m * b powi (k - p + 1)"
  have y: "round_sig b p emin r = y"
    using False by (simp add: round_sig_def Let_def y_def m_def k_def)
  have u: "0 < b powi (k - p + 1)" using b2 by (rule powi_pos_base)
  have "\<bar>r\<bar> < b powi (expo b \<bar>r\<bar> + 1)" using False by (intro expo_spec(2) [OF b2]) simp
  also have "\<dots> \<le> b powi (k + 1)" using b2 by (intro power_int_increasing) (simp_all add: k_def)
  also have "\<dots> = b powi p * b powi (k - p + 1)" using b2 by (simp flip: power_int_add)
  finally have lt: "\<bar>r\<bar> / b powi (k - p + 1) < b powi p" using u by (simp add: pos_divide_less_eq)
  have bp: "b powi p = of_int (int B ^ nat p)" using b p by (simp add: power_int_def)
  have "\<bar>r / b powi (k - p + 1)\<bar> \<le> of_int (int B ^ nat p)" using lt u bp by simp
  then have "r / b powi (k - p + 1) \<le> of_int (int B ^ nat p)"
    and "of_int (- (int B ^ nat p)) \<le> r / b powi (k - p + 1)"
    unfolding abs_le_iff by linarith+
  then have m: "\<bar>m\<bar> \<le> int B ^ nat p"
    unfolding m_def abs_le_iff using rhe_le_of_int rhe_ge_of_int by (metis minus_le_iff)
  show ?thesis
  proof (cases "\<bar>m\<bar> = int B ^ nat p")
    case True
    have "\<bar>y\<bar> = b powi p * b powi (k - p + 1)"
      using True u bp by (simp add: y_def abs_mult flip: of_int_abs)
    also have "\<dots> = b powi (k + 1)" using b2 by (simp flip: power_int_add)
    finally have ay: "\<bar>y\<bar> = b powi (k + 1)" .
    then have "expo b \<bar>y\<bar> = k + 1" using expo_power [OF b2] by simp
    then have k': "max emin (expo b \<bar>y\<bar>) - p + 1 = k - p + 2" by (simp add: k_def)
    have "y = of_int (sgn m * int B ^ nat (p - 1)) * b powi (k - p + 2)"
    proof -
      have "int B ^ nat p = int B ^ nat (p - 1) * int B"
        using p by (metis Suc_nat_eq_nat_zadd1 diff_add_cancel diff_ge_0_iff_ge mult.commute power_Suc add.commute)
      then have "m = sgn m * int B ^ nat (p - 1) * int B"
        using True by (metis mult.assoc mult.commute abs_mult_sgn)
      then have "of_int m = of_int (sgn m * int B ^ nat (p - 1)) * b"
        using b(1) by (metis of_int_mult of_int_of_nat_eq)
      moreover have "b powi (k - p + 2) = b * b powi (k - p + 1)"
        using b2 by (subst power_int_add_1' [symmetric]) (simp_all add: algebra_simps)
      ultimately show ?thesis by (simp add: y_def mult.assoc)
    qed
    then show ?thesis unfolding y by (rule round_sig_exact [OF b]) (simp only: k')
  next
    case False
    with m have "\<bar>m\<bar> < int B ^ nat p" by simp
    then have "of_int \<bar>m\<bar> < b powi p" using bp by (simp only: of_int_less_iff)
    then have "\<bar>y\<bar> < b powi p * b powi (k - p + 1)" using u by (simp add: y_def abs_mult)
    also have "\<dots> = b powi (k + 1)" using b2 by (simp flip: power_int_add)
    finally have ay: "\<bar>y\<bar> < b powi (k + 1)" .
    have "max emin (expo b \<bar>y\<bar>) \<le> k \<or> y = 0"
    proof (cases "y = 0")
      case False
      then have "b powi expo b \<bar>y\<bar> < b powi (k + 1)"
        using expo_spec(1) [OF b2, of "\<bar>y\<bar>"] ay by simp
      then show ?thesis using powi_less_imp [OF b2] by (fastforce simp: k_def)
    qed simp
    then show ?thesis unfolding y by (elim disjE) (auto intro: round_sig_exact [OF b y_def])
  qed
qed simp

section \<open>binary64 and Decimal rounding\<close>

definition rnd :: "rat \<Rightarrow> rat" where
  "rnd = round_sig 2 53 (-1022)"

definition drnd :: "rat \<Rightarrow> rat" where
  "drnd = round_sig 10 28 (-999999)"

lemma rnd_mono: "x \<le> y \<Longrightarrow> rnd x \<le> rnd y"
  unfolding rnd_def by (rule round_sig_mono [of 2 2]) simp_all

lemma drnd_mono: "x \<le> y \<Longrightarrow> drnd x \<le> drnd y"
  unfolding drnd_def by (rule round_sig_mono [of 10 10]) simp_all

lemma rnd_of_int: "\<bar>m\<bar> < 2 ^ 53 \<Longrightarrow> rnd (of_int m) = of_int m"
  unfolding rnd_def by (rule round_sig_of_int [of 2 2]) (simp_all flip: of_int_abs)

lemma rnd_0 [simp]: "rnd 0 = 0" and drnd_0 [simp]: "drnd 0 = 0"
  by (simp_all add: rnd_def drnd_def)

lemma rnd_1 [simp]: "rnd 1 = 1"
  using rnd_of_int [of 1] by simp

lemma rnd_numeral: "(numeral n :: int) < 2 ^ 53 \<Longrightarrow> rnd (numeral n) = numeral n"
  using rnd_of_int [of "numeral n"] by simp

lemma rnd_nonneg: "0 \<le> x \<Longrightarrow> 0 \<le> rnd x"
  using rnd_mono [of 0 x] by simp

lemma drnd_nonneg: "0 \<le> x \<Longrightarrow> 0 \<le> drnd x"
  using drnd_mono [of 0 x] by simp

lemma rnd_le_1: "x \<le> 1 \<Longrightarrow> rnd x \<le> 1"
  using rnd_mono [of x 1] by simp

lemma rnd_idem [simp]: "rnd (rnd x) = rnd x"
  unfolding rnd_def by (rule round_sig_idem [of 2 2]) simp_all

lemma drnd_idem [simp]: "drnd (drnd x) = drnd x"
  unfolding drnd_def by (rule round_sig_idem [of 10 10]) simp_all

lemma rnd_add_ge: "rnd a = a \<Longrightarrow> 0 \<le> b \<Longrightarrow> a \<le> rnd (a + b)"
  using rnd_mono [of a "a + b"] by simp

lemma drnd_add_ge: "drnd a = a \<Longrightarrow> 0 \<le> b \<Longrightarrow> a \<le> drnd (a + b)"
  using drnd_mono [of a "a + b"] by simp

lemma rnd_minus: "rnd (- x) = - rnd x"
  by (simp add: rnd_def round_sig_minus)

section \<open>Floats with infinities and NaN\<close>

datatype pyfloat = Fin rat | PInf | NInf | NaN

text \<open>The result of an operation whose exact value is \<open>r\<close>: rounded, infinite on overflow.\<close>

definition fl :: "rat \<Rightarrow> pyfloat" where
  "fl r = (let q = rnd r in if 2 ^ 1024 \<le> q then PInf else if q \<le> - (2 ^ 1024) then NInf else Fin q)"

fun isfinite :: "pyfloat \<Rightarrow> bool" where
  "isfinite (Fin _) = True"
| "isfinite _ = False"

fun fadd :: "pyfloat \<Rightarrow> pyfloat \<Rightarrow> pyfloat" where
  "fadd (Fin a) (Fin b) = fl (a + b)"
| "fadd NaN _ = NaN"
| "fadd _ NaN = NaN"
| "fadd PInf NInf = NaN"
| "fadd NInf PInf = NaN"
| "fadd PInf _ = PInf"
| "fadd NInf _ = NInf"
| "fadd _ PInf = PInf"
| "fadd _ NInf = NInf"

fun fabs :: "pyfloat \<Rightarrow> pyfloat" where
  "fabs (Fin a) = Fin \<bar>a\<bar>"
| "fabs NaN = NaN"
| "fabs _ = PInf"

fun fneg :: "pyfloat \<Rightarrow> pyfloat" where
  "fneg (Fin a) = Fin (- a)"
| "fneg PInf = NInf"
| "fneg NInf = PInf"
| "fneg NaN = NaN"

definition fsub :: "pyfloat \<Rightarrow> pyfloat \<Rightarrow> pyfloat" where
  "fsub a b = fadd a (fneg b)"

text \<open>The order: every comparison with NaN is false.\<close>

fun fle :: "pyfloat \<Rightarrow> pyfloat \<Rightarrow> bool" where
  "fle (Fin a) (Fin b) \<longleftrightarrow> a \<le> b"
| "fle NaN _ \<longleftrightarrow> False"
| "fle _ NaN \<longleftrightarrow> False"
| "fle NInf _ \<longleftrightarrow> True"
| "fle _ PInf \<longleftrightarrow> True"
| "fle _ _ \<longleftrightarrow> False"

fun flt :: "pyfloat \<Rightarrow> pyfloat \<Rightarrow> bool" where
  "flt (Fin a) (Fin b) \<longleftrightarrow> a < b"
| "flt NaN _ \<longleftrightarrow> False"
| "flt _ NaN \<longleftrightarrow> False"
| "flt NInf NInf \<longleftrightarrow> False"
| "flt NInf _ \<longleftrightarrow> True"
| "flt PInf _ \<longleftrightarrow> False"
| "flt _ PInf \<longleftrightarrow> True"
| "flt (Fin _) NInf \<longleftrightarrow> False"

text \<open>
  \<^verbatim>\<open>sum\<close> of an iterable of floats since Python 3.12 (the version the project pins): Neumaier's
  compensated summation, started from the integer 0.
\<close>

fun neumaier :: "pyfloat \<Rightarrow> pyfloat \<Rightarrow> pyfloat list \<Rightarrow> pyfloat" where
  "neumaier f c [] = (if c \<noteq> Fin 0 \<and> isfinite c then fadd f c else f)"
| "neumaier f c (x # xs) =
     (let t = fadd f x;
          e = (if fle (fabs x) (fabs f) then fadd (fsub f t) x else fadd (fsub x t) f)
      in neumaier t (fadd c e) xs)"

definition py_fsum :: "pyfloat list \<Rightarrow> pyfloat" where
  "py_fsum xs = neumaier (Fin 0) (Fin 0) xs"

text \<open>Multiplication, and division by a non-zero number (Python raises on zero).\<close>

fun fsgn :: "pyfloat \<Rightarrow> int" where
  "fsgn (Fin a) = (if 0 < a then 1 else if a < 0 then - 1 else 0)"
| "fsgn PInf = 1"
| "fsgn NInf = - 1"
| "fsgn NaN = 0"

definition finf :: "int \<Rightarrow> pyfloat" where
  "finf s = (if 0 < s then PInf else if s < 0 then NInf else NaN)"

fun fmul :: "pyfloat \<Rightarrow> pyfloat \<Rightarrow> pyfloat" where
  "fmul (Fin a) (Fin b) = fl (a * b)"
| "fmul NaN _ = NaN"
| "fmul _ NaN = NaN"
| "fmul a b = finf (fsgn a * fsgn b)"

fun fdiv :: "pyfloat \<Rightarrow> pyfloat \<Rightarrow> pyfloat" where
  "fdiv (Fin a) (Fin b) = fl (a / b)"
| "fdiv NaN _ = NaN"
| "fdiv _ NaN = NaN"
| "fdiv (Fin a) _ = Fin 0"
| "fdiv a (Fin b) = finf (fsgn a * (if b < 0 then - 1 else 1))"
| "fdiv _ _ = NaN"

text \<open>\<^verbatim>\<open>min(a, b)\<close> and \<^verbatim>\<open>max(a, b)\<close>: the first argument unless the second is strictly
  smaller or larger.\<close>

definition fmin :: "pyfloat \<Rightarrow> pyfloat \<Rightarrow> pyfloat" where
  "fmin a b = (if flt b a then b else a)"

definition fmax :: "pyfloat \<Rightarrow> pyfloat \<Rightarrow> pyfloat" where
  "fmax a b = (if flt a b then b else a)"

section \<open>Unit floats\<close>

text \<open>Scores: finite floats between 0 and 1.\<close>

definition unit :: "pyfloat \<Rightarrow> bool" where
  "unit x \<longleftrightarrow> isfinite x \<and> fle (Fin 0) x \<and> fle x (Fin 1)"

lemma unitE: "unit x \<Longrightarrow> (\<And>r. x = Fin r \<Longrightarrow> 0 \<le> r \<Longrightarrow> r \<le> 1 \<Longrightarrow> P) \<Longrightarrow> P"
  by (cases x) (auto simp: unit_def)

lemma unit_Fin [simp]: "unit (Fin r) \<longleftrightarrow> 0 \<le> r \<and> r \<le> 1"
  by (simp add: unit_def)

lemma fl_small: "\<bar>r\<bar> \<le> 2 ^ 53 - 1 \<Longrightarrow> fl r = Fin (rnd r)"
proof -
  assume r: "\<bar>r\<bar> \<le> 2 ^ 53 - 1"
  have "rnd r \<le> rnd (of_int (2 ^ 53 - 1))" "rnd (of_int (- (2 ^ 53 - 1))) \<le> rnd r"
    using r by (intro rnd_mono; simp)+
  then have "rnd r \<le> 2 ^ 53 - 1" "- (2 ^ 53 - 1) \<le> rnd r"
    using rnd_of_int [of "2 ^ 53 - 1"] rnd_of_int [of "- (2 ^ 53 - 1)"] by simp_all
  moreover have "(2 ^ 53 :: rat) \<le> 2 ^ 1024" by simp
  ultimately show ?thesis by (auto simp: fl_def Let_def)
qed

lemma fl_int: "\<bar>m\<bar> < 2 ^ 53 \<Longrightarrow> fl (of_int m) = Fin (of_int m)"
  using fl_small [of "of_int m"] rnd_of_int [of m] by simp

lemma fl_nat: "n < 2 ^ 53 \<Longrightarrow> fl (of_nat n) = Fin (of_nat n)"
  using fl_int [of "int n"] by (simp add: nat_less_numeral_power_cancel_iff)

lemma fle_refl_finite: "isfinite x \<Longrightarrow> fle x x"
  by (cases x) simp_all

lemma fle_not_flt: "isfinite x \<Longrightarrow> isfinite y \<Longrightarrow> fle x y \<longleftrightarrow> \<not> flt y x"
  by (cases x; cases y) auto

text \<open>The numbers a float can hold.\<close>

definition f64 :: "pyfloat \<Rightarrow> bool" where
  "f64 x \<longleftrightarrow> (\<exists>r. x = Fin r \<and> rnd r = r)"

lemma f64_fl: "isfinite (fl r) \<Longrightarrow> f64 (fl r)"
  by (auto simp: f64_def fl_def Let_def split: if_splits)

lemma f64_0_1 [simp]: "f64 (Fin 0)" "f64 (Fin 1)"
  by (simp_all add: f64_def)

lemma fl_unit: "0 \<le> r \<Longrightarrow> r \<le> 1 \<Longrightarrow> fl r = Fin (rnd r) \<and> 0 \<le> rnd r \<and> rnd r \<le> 1"
  by (auto intro!: fl_small rnd_nonneg rnd_le_1)

lemma fl_0 [simp]: "fl 0 = Fin 0" and fl_1 [simp]: "fl 1 = Fin 1"
  by (simp_all add: fl_def)

text \<open>\<^verbatim>\<open>float(min(1.0, max(0.0, value)))\<close>, the clip of the planning modules.\<close>

definition clip01 :: "pyfloat \<Rightarrow> pyfloat" where
  "clip01 v = fmin (Fin 1) (fmax (Fin 0) v)"

lemma clip01_Fin: "clip01 (Fin r) = Fin (min 1 (max 0 r))"
  by (auto simp: clip01_def fmin_def fmax_def)

lemma clip01_unit: "isfinite v \<Longrightarrow> unit (clip01 v)"
  by (cases v) (auto simp: clip01_Fin)

lemma clip01_id: "unit v \<Longrightarrow> clip01 v = v"
  by (auto elim!: unitE simp: clip01_Fin)

lemma clip01_f64: "f64 v \<Longrightarrow> f64 (clip01 v)"
  by (auto simp: f64_def clip01_Fin min_def max_def)

end
