(* ===== verification/Prelude.thy ===== *)
theory Prelude
  imports PyFloat "HOL-Library.AList" "HOL-Library.Sublist"
begin

text \<open>
  What the component theories share: exceptions as values, Python dictionaries in insertion
  order as association lists, order-preserving removal of duplicates, and the collections of
  rewrite rules that carry the proofs.  A function of the source that may raise returns
  \<open>exc + 'a\<close> (or a sum over an exception type of its own component); a \<^verbatim>\<open>raise\<close> is
  \<open>Inl\<close>, so code after it is not run.
\<close>

section \<open>Exceptions\<close>

datatype exc =
    ValueError string | TypeError string | KeyError string | RuntimeError string
  | IndexError | ZeroDivisionError | OverflowError | ArithmeticError | AssertionError

type_synonym 'a res = "exc + 'a"

named_theorems res_simps "equations of the result type"
named_theorems dict_simps "equations of dictionaries in insertion order"

definition rbind :: "'e + 'a \<Rightarrow> ('a \<Rightarrow> 'e + 'b) \<Rightarrow> 'e + 'b" where
  "rbind m f = (case m of Inl e \<Rightarrow> Inl e | Inr x \<Rightarrow> f x)"

definition require :: "bool \<Rightarrow> 'e \<Rightarrow> 'e + unit" where
  "require b e = (if b then Inr () else Inl e)"

lemma rbind_Inl [simp, res_simps]: "rbind (Inl e) f = Inl e"
  and rbind_Inr [simp, res_simps]: "rbind (Inr x) f = f x"
  by (simp_all add: rbind_def)

lemma require_True [simp]: "require True e = Inr ()"
  and require_False [simp]: "require False e = Inl e"
  by (simp_all add: require_def)

lemma rbind_eq_Inr [res_simps]: "rbind m f = Inr y \<longleftrightarrow> (\<exists>x. m = Inr x \<and> f x = Inr y)"
  by (cases m) simp_all

lemma rbind_eq_Inl: "rbind m f = Inl e \<longleftrightarrow> m = Inl e \<or> (\<exists>x. m = Inr x \<and> f x = Inl e)"
  by (cases m) simp_all

lemma require_eq_Inr [res_simps]: "require b e = Inr u \<longleftrightarrow> b"
  by (simp add: require_def)

text \<open>A loop that validates every element and stops at the first failure.\<close>

fun mapM :: "('a \<Rightarrow> 'e + 'b) \<Rightarrow> 'a list \<Rightarrow> 'e + 'b list" where
  "mapM f [] = Inr []"
| "mapM f (x # xs) = rbind (f x) (\<lambda>y. rbind (mapM f xs) (\<lambda>ys. Inr (y # ys)))"

fun foldM :: "('s \<Rightarrow> 'a \<Rightarrow> 'e + 's) \<Rightarrow> 's \<Rightarrow> 'a list \<Rightarrow> 'e + 's" where
  "foldM f s [] = Inr s"
| "foldM f s (x # xs) = rbind (f s x) (\<lambda>s'. foldM f s' xs)"

lemma mapM_Inr_length: "mapM f xs = Inr ys \<Longrightarrow> length ys = length xs"
  by (induction xs arbitrary: ys) (auto simp: res_simps)

lemma mapM_Inr_all: "mapM f xs = Inr ys \<Longrightarrow> list_all2 (\<lambda>x y. f x = Inr y) xs ys"
  by (induction xs arbitrary: ys) (auto simp: res_simps)

lemma foldM_append: "foldM f s (xs @ ys) = rbind (foldM f s xs) (\<lambda>s'. foldM f s' ys)"
  by (induction xs arbitrary: s) (auto simp: rbind_def split: sum.splits)

lemma foldM_invariant:
  assumes "foldM f s xs = Inr t" "P s"
    and "\<And>s x s'. x \<in> set xs \<Longrightarrow> P s \<Longrightarrow> f s x = Inr s' \<Longrightarrow> P s'"
  shows "P t"
  using assms by (induction xs arbitrary: s) (auto simp: res_simps)

section \<open>Order-preserving removal of duplicates\<close>

text \<open>\<^verbatim>\<open>dict.fromkeys(xs)\<close> and the \<^verbatim>\<open>seen\<close>-set loops: the first occurrence stays.\<close>

fun uniq_seen :: "'a list \<Rightarrow> 'a list \<Rightarrow> 'a list" where
  "uniq_seen seen [] = []"
| "uniq_seen seen (x # xs) =
     (if x \<in> set seen then uniq_seen seen xs else x # uniq_seen (x # seen) xs)"

abbreviation fromkeys :: "'a list \<Rightarrow> 'a list" where
  "fromkeys \<equiv> uniq_seen []"

lemma set_uniq_seen: "set (uniq_seen seen xs) = set xs - set seen"
  by (induction xs arbitrary: seen) auto

lemma distinct_uniq_seen: "distinct (uniq_seen seen xs)"
  by (induction xs arbitrary: seen) (auto simp: set_uniq_seen)

lemma subseq_uniq_seen: "subseq (uniq_seen seen xs) xs"
  by (induction xs arbitrary: seen) auto

lemma uniq_seen_id: "distinct xs \<Longrightarrow> set xs \<inter> set seen = {} \<Longrightarrow> uniq_seen seen xs = xs"
  by (induction xs arbitrary: seen) auto

lemma uniq_seen_append:
  "uniq_seen seen (xs @ ys) = uniq_seen seen xs @ uniq_seen (rev xs @ seen) ys"
proof (induction xs arbitrary: seen)
  case (Cons x xs)
  have swap: "uniq_seen (as @ a # bs) ys = uniq_seen (as @ bs) ys" if "a \<in> set bs"
    for as bs and a :: 'a using that
    by (induction ys arbitrary: as) (auto, metis append_Cons)
  show ?case using Cons swap by auto
qed simp

section \<open>Dictionaries in insertion order\<close>

type_synonym ('k, 'v) dict = "('k \<times> 'v) list"

abbreviation dget :: "('k, 'v) dict \<Rightarrow> 'k \<Rightarrow> 'v option" where
  "dget \<equiv> map_of"

abbreviation dput :: "'k \<Rightarrow> 'v \<Rightarrow> ('k, 'v) dict \<Rightarrow> ('k, 'v) dict" where
  "dput \<equiv> AList.update"

abbreviation dkeys :: "('k, 'v) dict \<Rightarrow> 'k list" where
  "dkeys d \<equiv> map fst d"

abbreviation dvalues :: "('k, 'v) dict \<Rightarrow> 'v list" where
  "dvalues d \<equiv> map snd d"

declare map_of_eq_Some_iff [simp del]

lemma dget_dput [simp, dict_simps]: "dget (dput k v d) = (dget d)(k \<mapsto> v)"
  by (simp add: update_conv' fun_eq_iff)

lemma dput_new [dict_simps]: "dget d k = None \<Longrightarrow> dput k v d = d @ [(k, v)]"
  by (induction d) (auto split: if_splits)

lemma dkeys_dput_old [dict_simps]: "dget d k = Some u \<Longrightarrow> dkeys (dput k v d) = dkeys d"
  by (induction d) (auto split: if_splits)

lemma distinct_dkeys_dput: "distinct (dkeys d) \<Longrightarrow> distinct (dkeys (dput k v d))"
  by (rule distinct_update)

lemma dget_in_set: "dget d k = Some v \<Longrightarrow> (k, v) \<in> set d"
  by (rule map_of_SomeD)

lemma dget_iff_set: "distinct (dkeys d) \<Longrightarrow> dget d k = Some v \<longleftrightarrow> (k, v) \<in> set d"
  by (rule map_of_eq_Some_iff)

lemma dput_split:
  assumes "distinct (dkeys d)" "dget d k = Some u"
  obtains xs ys where "d = xs @ (k, u) # ys" "dput k v d = xs @ (k, v) # ys"
    "k \<notin> set (dkeys xs)" "k \<notin> set (dkeys ys)"
proof -
  from assms(2) have "(k, u) \<in> set d" by (rule dget_in_set)
  then obtain xs ys where d: "d = xs @ (k, u) # ys" by (auto simp: in_set_conv_decomp)
  with assms(1) have k: "k \<notin> set (dkeys xs)" "k \<notin> set (dkeys ys)" by auto
  have "dput k v (xs @ (k, u) # ys) = xs @ (k, v) # ys"
    using k(1) by (induction xs) auto
  with d k show thesis by (auto intro: that)
qed

section \<open>Strings\<close>

text \<open>
  A string is a list of code points below 256 (a \<open>char\<close>); \<open>strip_ws\<close> is \<^verbatim>\<open>str.strip()\<close> on
  them, \<open>blank s\<close> is \<^verbatim>\<open>not s.strip()\<close>.
\<close>

definition strip_ws :: "string \<Rightarrow> string" where
  "strip_ws s = (let ws = (\<lambda>c. c \<in> {CHR '' '', CHR 0x09, CHR 0x0A, CHR 0x0B, CHR 0x0C, CHR 0x0D,
                                     CHR 0x1C, CHR 0x1D, CHR 0x1E, CHR 0x1F, CHR 0x85, CHR 0xA0})
                 in rev (dropWhile ws (rev (dropWhile ws s))))"

definition blank :: "string \<Rightarrow> bool" where
  "blank s \<longleftrightarrow> strip_ws s = []"

end
