(* ===== verification/Usage.thy ===== *)
theory Usage
  imports Prelude
begin

text \<open>
  Resource usage and run budgets (\<^verbatim>\<open>src/src/deepresearch/domain/usage.py\<close>): the records with the
  constraints their pydantic fields and validators declare.  \<open>mk_usage\<close> and \<open>mk_run_budget\<close> are
  the validating constructors; every value the program holds went through one of them.
  A cost is a Decimal or None; \<open>decimal\<close> shares the carrier of floats, so that the finiteness
  checks of the code are visible, and only its addition differs (\<open>dadd\<close>, 28 digits).
\<close>

type_synonym decimal = pyfloat

fun dadd :: "decimal \<Rightarrow> decimal \<Rightarrow> decimal" where
  "dadd (Fin a) (Fin b) = Fin (drnd (a + b))"
| "dadd a b = fadd a b"

datatype budget_node = Planner | Ranker | Writer | Judge | Tool

definition budget_nodes :: "budget_node list" where
  "budget_nodes = [Planner, Ranker, Writer, Judge, Tool]"

instantiation budget_node :: enum
begin

definition "enum_budget_node = budget_nodes"
definition "enum_all_budget_node P \<longleftrightarrow> list_all P budget_nodes"
definition "enum_ex_budget_node P \<longleftrightarrow> list_ex P budget_nodes"

instance
proof
  show *: "(UNIV :: budget_node set) = set enum_class.enum"
    by (auto simp: enum_budget_node_def budget_nodes_def intro: budget_node.exhaust)
  show "distinct (enum_class.enum :: budget_node list)"
    by (simp add: enum_budget_node_def budget_nodes_def)
  show "enum_class.enum_all P \<longleftrightarrow> Ball UNIV P" for P :: "budget_node \<Rightarrow> bool"
    unfolding * by (simp add: enum_all_budget_node_def enum_budget_node_def list_all_iff)
  show "enum_class.enum_ex P \<longleftrightarrow> Bex UNIV P" for P :: "budget_node \<Rightarrow> bool"
    unfolding * by (simp add: enum_ex_budget_node_def enum_budget_node_def list_ex_iff)
qed

end

lemma budget_nodes_all [simp]: "n \<in> set budget_nodes"
  by (cases n) (simp_all add: budget_nodes_def)

lemma distinct_budget_nodes [simp]: "distinct budget_nodes"
  by (simp add: budget_nodes_def)

record resource_usage =
  ru_input_tokens :: int
  ru_output_tokens :: int
  ru_reasoning_tokens :: int
  ru_cached_tokens :: int
  ru_total_tokens :: int
  ru_search_calls :: int
  ru_pages :: int
  ru_retries :: int
  ru_wall_seconds :: pyfloat
  ru_cost_usd :: "decimal option"

definition usage_zero :: "bool \<Rightarrow> resource_usage" where
  "usage_zero cost_known =
     \<lparr>ru_input_tokens = 0, ru_output_tokens = 0, ru_reasoning_tokens = 0, ru_cached_tokens = 0,
      ru_total_tokens = 0, ru_search_calls = 0, ru_pages = 0, ru_retries = 0,
      ru_wall_seconds = Fin 0, ru_cost_usd = (if cost_known then Some (Fin 0) else None)\<rparr>"

definition usage_fields_ok :: "resource_usage \<Rightarrow> bool" where
  "usage_fields_ok u \<longleftrightarrow>
     0 \<le> ru_input_tokens u \<and> 0 \<le> ru_output_tokens u \<and> 0 \<le> ru_reasoning_tokens u \<and>
     0 \<le> ru_cached_tokens u \<and> 0 \<le> ru_total_tokens u \<and> 0 \<le> ru_search_calls u \<and>
     0 \<le> ru_pages u \<and> 0 \<le> ru_retries u \<and> fle (Fin 0) (ru_wall_seconds u) \<and>
     (case ru_cost_usd u of None \<Rightarrow> True | Some c \<Rightarrow> isfinite c)"

definition validate_totals :: "resource_usage \<Rightarrow> exc + resource_usage" where
  "validate_totals u =
     (if ru_input_tokens u < ru_cached_tokens u
      then Inl (ValueError ''cached_tokens must not exceed input_tokens'')
      else if ru_total_tokens u \<noteq> ru_input_tokens u + ru_output_tokens u + ru_reasoning_tokens u
      then Inl (ValueError ''total_tokens invariant violated'')
      else Inr u)"

definition mk_usage :: "resource_usage \<Rightarrow> exc + resource_usage" where
  "mk_usage u =
     (if usage_fields_ok u then validate_totals u else Inl (ValueError ''invalid usage field''))"

definition valid_usage :: "resource_usage \<Rightarrow> bool" where
  "valid_usage u \<longleftrightarrow>
     usage_fields_ok u \<and> ru_cached_tokens u \<le> ru_input_tokens u \<and>
     ru_total_tokens u = ru_input_tokens u + ru_output_tokens u + ru_reasoning_tokens u"

lemma mk_usage_Inr: "mk_usage u = Inr v \<longleftrightarrow> v = u \<and> valid_usage u"
  by (auto simp: mk_usage_def validate_totals_def valid_usage_def)

lemma mk_usage_valid: "valid_usage u \<Longrightarrow> mk_usage u = Inr u"
  by (simp add: mk_usage_Inr)

lemma valid_usage_zero [simp]: "valid_usage (usage_zero k)"
  by (simp add: usage_zero_def valid_usage_def usage_fields_ok_def)

record run_budget =
  rb_max_search_calls :: int
  rb_max_pages :: int
  rb_max_total_tokens :: int
  rb_max_wall_time_seconds :: int
  rb_max_cost_usd :: "decimal option"
  rb_max_retries :: int
  rb_used_by_node :: "budget_node \<rightharpoonup> resource_usage"

definition valid_budget :: "run_budget \<Rightarrow> bool" where
  "valid_budget b \<longleftrightarrow>
     0 \<le> rb_max_search_calls b \<and> 0 \<le> rb_max_pages b \<and> 0 \<le> rb_max_total_tokens b \<and>
     0 < rb_max_wall_time_seconds b \<and> 0 \<le> rb_max_retries b \<and>
     (case rb_max_cost_usd b of None \<Rightarrow> True | Some c \<Rightarrow> isfinite c \<and> fle (Fin 0) c) \<and>
     list_all (\<lambda>n. case rb_used_by_node b n of None \<Rightarrow> True | Some u \<Rightarrow> valid_usage u) budget_nodes"

definition mk_run_budget :: "run_budget \<Rightarrow> exc + run_budget" where
  "mk_run_budget b = (if valid_budget b then Inr b else Inl (ValueError ''invalid budget''))"

datatype budget_preset = Low | Medium | High

definition preset :: "budget_preset \<Rightarrow> run_budget" where
  "preset name =
     (let (searches, pages, tokens, seconds, cost) =
        (case name of
           Low \<Rightarrow> (4, 8, 20000, 180, 1 / 4)
         | Medium \<Rightarrow> (8, 12, 40000, 300, 1 / 2)
         | High \<Rightarrow> (12, 20, 70000, 480, 1))
      in \<lparr>rb_max_search_calls = searches, rb_max_pages = pages, rb_max_total_tokens = tokens,
          rb_max_wall_time_seconds = seconds, rb_max_cost_usd = Some (Fin cost),
          rb_max_retries = 2, rb_used_by_node = (\<lambda>_. Some (usage_zero False))\<rparr>)"

lemma valid_preset: "valid_budget (preset p)"
  by (cases p) (simp_all add: preset_def valid_budget_def budget_nodes_def)

end
