(* ===== verification/Budget.thy ===== *)
theory Budget
  imports Usage
begin

text \<open>
  The budget accountant (\<^verbatim>\<open>src/src/deepresearch/runtime/budget.py\<close>).  Work reserves an estimate
  before it starts and later settles it against the actual usage or releases it; a
  reservation is refused when it would take the used plus reserved amount of any dimension over
  its limit.  The accountant is a record passed through its operations; the lock makes each of
  them one step.  The code compares the reservation handed to \<open>settle\<close> and \<open>release\<close> by object
  identity (\<^verbatim>\<open>is\<close>): a reservation carries the identity of its object in \<open>br_oid\<close>, the
  caller of \<open>reserve\<close> supplies the identity of the object it creates, and, the objects being
  frozen, being the same object is being equal with that identity included.  The hash that derives
  reservation ids is a parameter \<open>H\<close>.
\<close>

section \<open>Data\<close>

datatype budget_dimension = SearchCalls | Pages | Tokens | WallSeconds | CostUsd | Retries

record resource_estimate =
  re_search_calls :: int
  re_pages :: int
  re_tokens :: int
  re_wall_seconds :: pyfloat
  re_cost_usd :: "decimal option"
  re_retries :: int

definition valid_estimate :: "resource_estimate \<Rightarrow> bool" where
  "valid_estimate e \<longleftrightarrow>
     0 \<le> re_search_calls e \<and> 0 \<le> re_pages e \<and> 0 \<le> re_tokens e \<and> 0 \<le> re_retries e \<and>
     isfinite (re_wall_seconds e) \<and> fle (Fin 0) (re_wall_seconds e) \<and>
     (case re_cost_usd e of None \<Rightarrow> True | Some c \<Rightarrow> isfinite c \<and> fle (Fin 0) c)"

definition mk_estimate :: "resource_estimate \<Rightarrow> exc + resource_estimate" where
  "mk_estimate e = (if valid_estimate e then Inr e else Inl (ValueError ''invalid estimate''))"

record budget_reservation =
  br_oid :: nat
  br_reservation_id :: string
  br_idempotency_key :: string
  br_node :: budget_node
  br_estimate :: resource_estimate

record budget_snapshot =
  bs_used_search_calls :: int
  bs_used_pages :: int
  bs_used_tokens :: int
  bs_used_wall_seconds :: pyfloat
  bs_used_cost_usd :: "decimal option"
  bs_used_retries :: int
  bs_reserved_search_calls :: int
  bs_reserved_pages :: int
  bs_reserved_tokens :: int
  bs_reserved_wall_seconds :: pyfloat
  bs_reserved_cost_usd :: "decimal option"
  bs_reserved_retries :: int
  bs_exhausted :: "budget_dimension set"
  bs_last_observed_usage :: resource_usage
  bs_used_by_node :: "budget_node \<Rightarrow> resource_usage"

definition nonneg_opt :: "decimal option \<Rightarrow> bool" where
  "nonneg_opt c = (case c of None \<Rightarrow> True | Some d \<Rightarrow> isfinite d \<and> fle (Fin 0) d)"

definition valid_snapshot :: "budget_snapshot \<Rightarrow> bool" where
  "valid_snapshot s \<longleftrightarrow>
     0 \<le> bs_used_search_calls s \<and> 0 \<le> bs_used_pages s \<and> 0 \<le> bs_used_tokens s \<and>
     0 \<le> bs_used_retries s \<and> 0 \<le> bs_reserved_search_calls s \<and> 0 \<le> bs_reserved_pages s \<and>
     0 \<le> bs_reserved_tokens s \<and> 0 \<le> bs_reserved_retries s \<and>
     isfinite (bs_used_wall_seconds s) \<and> fle (Fin 0) (bs_used_wall_seconds s) \<and>
     isfinite (bs_reserved_wall_seconds s) \<and> fle (Fin 0) (bs_reserved_wall_seconds s) \<and>
     nonneg_opt (bs_used_cost_usd s) \<and> nonneg_opt (bs_reserved_cost_usd s)"

definition mk_snapshot :: "budget_snapshot \<Rightarrow> exc + budget_snapshot" where
  "mk_snapshot s = (if valid_snapshot s then Inr s else Inl (ValueError ''invalid snapshot''))"

datatype reservation_status = Active | Settled | Released

record reservation_state =
  rs_reservation :: budget_reservation
  rs_status :: reservation_status
  rs_terminal_snapshot :: "budget_snapshot option"

record accountant =
  ac_budget :: run_budget
  ac_run_scope :: string
  ac_states :: "(string, reservation_state) dict"
  ac_idempotency_index :: "string \<rightharpoonup> string"
  ac_used_by_node :: "budget_node \<Rightarrow> resource_usage"
  ac_last_observed_usage :: resource_usage

definition cost_enabled :: "run_budget \<Rightarrow> bool" where
  "cost_enabled b \<longleftrightarrow> rb_max_cost_usd b \<noteq> None"

datatype budget_error = BudgetError exc | BudgetExceeded "budget_dimension set" budget_snapshot

fun lift_exc :: "exc + 'a \<Rightarrow> budget_error + 'a" where
  "lift_exc (Inl e) = Inl (BudgetError e)"
| "lift_exc (Inr x) = Inr x"

section \<open>Sums over usage and reservations\<close>

definition or_zero :: "decimal option \<Rightarrow> decimal" where
  "or_zero c = (case c of None \<Rightarrow> Fin 0 | Some d \<Rightarrow> d)"

definition add_usage :: "bool \<Rightarrow> resource_usage \<Rightarrow> resource_usage \<Rightarrow> exc + resource_usage" where
  "add_usage ce l r =
     mk_usage
       \<lparr>ru_input_tokens = ru_input_tokens l + ru_input_tokens r,
        ru_output_tokens = ru_output_tokens l + ru_output_tokens r,
        ru_reasoning_tokens = ru_reasoning_tokens l + ru_reasoning_tokens r,
        ru_cached_tokens = ru_cached_tokens l + ru_cached_tokens r,
        ru_total_tokens = ru_total_tokens l + ru_total_tokens r,
        ru_search_calls = ru_search_calls l + ru_search_calls r,
        ru_pages = ru_pages l + ru_pages r,
        ru_retries = ru_retries l + ru_retries r,
        ru_wall_seconds = fadd (ru_wall_seconds l) (ru_wall_seconds r),
        ru_cost_usd =
          (if ce then Some (dadd (or_zero (ru_cost_usd l)) (or_zero (ru_cost_usd r))) else None)\<rparr>"

definition used_totals :: "bool \<Rightarrow> (budget_node \<Rightarrow> resource_usage) \<Rightarrow> exc + resource_usage" where
  "used_totals ce used =
     foldM (\<lambda>total n. add_usage ce total (used n)) (usage_zero ce) budget_nodes"

definition active_estimates ::
    "(string, reservation_state) dict \<Rightarrow> string option \<Rightarrow> resource_estimate list" where
  "active_estimates sts excl =
     map (\<lambda>(i, st). br_estimate (rs_reservation st))
       (filter (\<lambda>(i, st). rs_status st = Active \<and> Some i \<noteq> excl) sts)"

definition reserved_totals ::
    "bool \<Rightarrow> (string, reservation_state) dict \<Rightarrow> string option \<Rightarrow> exc + resource_estimate" where
  "reserved_totals ce sts excl =
     (let active = active_estimates sts excl in
      mk_estimate
        \<lparr>re_search_calls = sum_list (map re_search_calls active),
         re_pages = sum_list (map re_pages active),
         re_tokens = sum_list (map re_tokens active),
         re_wall_seconds = py_fsum (map re_wall_seconds active),
         re_cost_usd =
           (if ce then Some (foldl dadd (Fin 0) (map (\<lambda>e. or_zero (re_cost_usd e)) active)) else None),
         re_retries = sum_list (map re_retries active)\<rparr>)"

definition validate_usage :: "resource_usage \<Rightarrow> bool \<Rightarrow> exc + resource_usage" where
  "validate_usage u require_known_cost =
     (if \<not> isfinite (ru_wall_seconds u) \<or> flt (ru_wall_seconds u) (Fin 0)
      then Inl (ValueError ''wall_seconds must be finite and non-negative'')
      else case ru_cost_usd u of
        None \<Rightarrow> if require_known_cost then Inl (ValueError ''usage must have known cost'')
                else mk_usage u
      | Some c \<Rightarrow> if \<not> isfinite c \<or> flt c (Fin 0)
                  then Inl (ValueError ''cost_usd must be finite and non-negative'')
                  else mk_usage u)"

definition usage_is_zero :: "resource_usage \<Rightarrow> bool" where
  "usage_is_zero u \<longleftrightarrow>
     ru_total_tokens u = 0 \<and> ru_search_calls u = 0 \<and> ru_pages u = 0 \<and> ru_retries u = 0 \<and>
     ru_wall_seconds u = Fin 0"

section \<open>Limits\<close>

definition opt_lt :: "decimal option \<Rightarrow> decimal option \<Rightarrow> bool" where
  "opt_lt a b = (case (a, b) of (Some x, Some y) \<Rightarrow> flt x y | _ \<Rightarrow> False)"

definition opt_add :: "decimal option \<Rightarrow> decimal option \<Rightarrow> decimal option" where
  "opt_add a b = (case (a, b) of (Some x, Some y) \<Rightarrow> Some (dadd x y) | _ \<Rightarrow> None)"

definition offending_dimensions ::
    "run_budget \<Rightarrow> budget_snapshot \<Rightarrow> resource_estimate \<Rightarrow> budget_dimension set" where
  "offending_dimensions b s e = set (map fst (filter snd
     [(SearchCalls, rb_max_search_calls b
         < bs_used_search_calls s + bs_reserved_search_calls s + re_search_calls e),
      (Pages, rb_max_pages b < bs_used_pages s + bs_reserved_pages s + re_pages e),
      (Tokens, rb_max_total_tokens b < bs_used_tokens s + bs_reserved_tokens s + re_tokens e),
      (WallSeconds, flt (Fin (of_int (rb_max_wall_time_seconds b)))
         (fadd (fadd (bs_used_wall_seconds s) (bs_reserved_wall_seconds s)) (re_wall_seconds e))),
      (Retries, rb_max_retries b < bs_used_retries s + bs_reserved_retries s + re_retries e),
      (CostUsd, opt_lt (rb_max_cost_usd b)
         (opt_add (opt_add (bs_used_cost_usd s) (bs_reserved_cost_usd s)) (re_cost_usd e)))]))"

definition exhausted_dimensions ::
    "run_budget \<Rightarrow> resource_usage \<Rightarrow> resource_estimate \<Rightarrow> budget_dimension set" where
  "exhausted_dimensions b u r = set (map fst (filter snd
     [(SearchCalls, rb_max_search_calls b \<le> ru_search_calls u + re_search_calls r),
      (Pages, rb_max_pages b \<le> ru_pages u + re_pages r),
      (Tokens, rb_max_total_tokens b \<le> ru_total_tokens u + re_tokens r),
      (WallSeconds, fle (Fin (of_int (rb_max_wall_time_seconds b)))
         (fadd (ru_wall_seconds u) (re_wall_seconds r))),
      (Retries, rb_max_retries b \<le> ru_retries u + re_retries r),
      (CostUsd, (case (rb_max_cost_usd b, opt_add (ru_cost_usd u) (re_cost_usd r)) of
           (Some m, Some c) \<Rightarrow> fle m c | _ \<Rightarrow> False))]))"

section \<open>Operations\<close>

definition snapshot_of ::
    "run_budget \<Rightarrow> (string, reservation_state) dict \<Rightarrow> (budget_node \<Rightarrow> resource_usage) \<Rightarrow>
     resource_usage \<Rightarrow> string option \<Rightarrow> exc + budget_snapshot" where
  "snapshot_of b sts used observed excl =
     (let ce = cost_enabled b in
      rbind (used_totals ce used) (\<lambda>u.
      rbind (reserved_totals ce sts excl) (\<lambda>r.
      mk_snapshot
        \<lparr>bs_used_search_calls = ru_search_calls u, bs_used_pages = ru_pages u,
         bs_used_tokens = ru_total_tokens u, bs_used_wall_seconds = ru_wall_seconds u,
         bs_used_cost_usd = (if ce then ru_cost_usd u else None), bs_used_retries = ru_retries u,
         bs_reserved_search_calls = re_search_calls r, bs_reserved_pages = re_pages r,
         bs_reserved_tokens = re_tokens r, bs_reserved_wall_seconds = re_wall_seconds r,
         bs_reserved_cost_usd = (if ce then re_cost_usd r else None),
         bs_reserved_retries = re_retries r,
         bs_exhausted = exhausted_dimensions b u r,
         bs_last_observed_usage = observed, bs_used_by_node = used\<rparr>)))"

definition snapshot :: "accountant \<Rightarrow> exc + budget_snapshot" where
  "snapshot a =
     snapshot_of (ac_budget a) (ac_states a) (ac_used_by_node a) (ac_last_observed_usage a) None"

definition seed_usage :: "run_budget \<Rightarrow> budget_node \<Rightarrow> exc + resource_usage" where
  "seed_usage b n =
     rbind (validate_usage
              (case rb_used_by_node b n of None \<Rightarrow> usage_zero (cost_enabled b) | Some u \<Rightarrow> u) False)
       (\<lambda>seeded.
          if cost_enabled b \<and> ru_cost_usd seeded = None
          then if \<not> usage_is_zero seeded then Inl (ValueError ''seeded usage must have known cost'')
               else mk_usage (seeded\<lparr>ru_cost_usd := Some (Fin 0)\<rparr>)
          else Inr seeded)"

definition new_accountant :: "run_budget \<Rightarrow> string \<Rightarrow> exc + accountant" where
  "new_accountant b run_scope =
     (if run_scope = [] then Inl (ValueError ''run_scope must not be empty'')
      else
        rbind (mapM (seed_usage b) budget_nodes) (\<lambda>seeds.
          let used = (\<lambda>n. the (map_of (zip budget_nodes seeds) n));
              zero = usage_zero (cost_enabled b)
          in case snapshot_of b [] used zero None of
               Inl e \<Rightarrow> Inl (ValueError ''aggregate seeded budget usage must be finite and valid'')
             | Inr _ \<Rightarrow> Inr
                 \<lparr>ac_budget = b, ac_run_scope = run_scope, ac_states = [],
                  ac_idempotency_index = Map.empty, ac_used_by_node = used,
                  ac_last_observed_usage = zero\<rparr>))"

definition node_of_name :: "string \<Rightarrow> budget_node option" where
  "node_of_name s =
     map_of [(''Planner'', Planner), (''Ranker'', Ranker), (''Writer'', Writer),
             (''Judge'', Judge), (''Tool'', Tool)] s"

definition reserve ::
    "(string \<Rightarrow> string) \<Rightarrow> nat \<Rightarrow> accountant \<Rightarrow> resource_estimate \<Rightarrow> string \<Rightarrow> string \<Rightarrow>
     budget_error + (budget_reservation \<times> accountant)" where
  "reserve H oid a estimate node key =
     (case node_of_name node of
        None \<Rightarrow> Inl (BudgetError (ValueError ''node must be one of the five canonical budget buckets''))
      | Some budget_node \<Rightarrow>
        if key = [] then Inl (BudgetError (ValueError ''idempotency_key must not be empty''))
        else rbind (lift_exc (mk_estimate estimate)) (\<lambda>est.
        if cost_enabled (ac_budget a) \<and> re_cost_usd est = None
        then Inl (BudgetError (ValueError ''chargeable reservation must have known cost''))
        else case ac_idempotency_index a key of
          Some existing_id \<Rightarrow>
            (case dget (ac_states a) existing_id of
               None \<Rightarrow> Inl (BudgetError (KeyError existing_id))
             | Some st \<Rightarrow>
                 (let existing = rs_reservation st in
                  if br_node existing \<noteq> budget_node \<or> br_estimate existing \<noteq> est
                  then Inl (BudgetError (ValueError ''idempotency_key was reused with different inputs''))
                  else Inr (existing, a)))
        | None \<Rightarrow>
            rbind (lift_exc (snapshot a)) (\<lambda>before.
            let offending = offending_dimensions (ac_budget a) before est in
            if offending \<noteq> {} then Inl (BudgetExceeded offending before)
            else
              let rid = H (ac_run_scope a @ '':'' @ key) in
              if dget (ac_states a) rid \<noteq> None
              then Inl (BudgetError (ValueError ''reservation ID collision''))
              else
                let r = \<lparr>br_oid = oid, br_reservation_id = rid, br_idempotency_key = key,
                         br_node = budget_node, br_estimate = est\<rparr>
                in Inr (r, a\<lparr>ac_states := dput rid
                               \<lparr>rs_reservation = r, rs_status = Active, rs_terminal_snapshot = None\<rparr>
                               (ac_states a),
                             ac_idempotency_index := (ac_idempotency_index a)(key \<mapsto> rid)\<rparr>))))"

definition owned_state :: "accountant \<Rightarrow> budget_reservation \<Rightarrow> exc + reservation_state" where
  "owned_state a r =
     (case dget (ac_states a) (br_reservation_id r) of
        Some st \<Rightarrow> if rs_reservation st = r then Inr st
                   else Inl (ValueError ''reservation belongs to another accountant or is unknown'')
      | None \<Rightarrow> Inl (ValueError ''reservation belongs to another accountant or is unknown''))"

definition settle ::
    "accountant \<Rightarrow> budget_reservation \<Rightarrow> resource_usage \<Rightarrow> bool \<Rightarrow>
     exc + (budget_snapshot \<times> accountant)" where
  "settle a r actual charge =
     rbind (owned_state a r) (\<lambda>st.
     case rs_status st of
       Settled \<Rightarrow>
         (case rs_terminal_snapshot st of
            None \<Rightarrow> Inl (RuntimeError ''settled reservation has no terminal snapshot'')
          | Some t \<Rightarrow> Inr (t, a))
     | Released \<Rightarrow> Inl (ValueError ''cannot settle a released reservation'')
     | Active \<Rightarrow>
         rbind (validate_usage actual (cost_enabled (ac_budget a) \<and> charge)) (\<lambda>act.
         rbind (if charge
                then rbind (add_usage (cost_enabled (ac_budget a)) (ac_used_by_node a (br_node r)) act)
                       (\<lambda>total. Inr ((ac_used_by_node a)(br_node r := total)))
                else Inr (ac_used_by_node a)) (\<lambda>tentative.
         rbind (snapshot_of (ac_budget a) (ac_states a) tentative act (Some (br_reservation_id r)))
           (\<lambda>terminal.
              Inr (terminal,
                a\<lparr>ac_used_by_node := tentative, ac_last_observed_usage := act,
                  ac_states := dput (br_reservation_id r)
                    (st\<lparr>rs_status := Settled, rs_terminal_snapshot := Some terminal\<rparr>)
                    (ac_states a)\<rparr>)))))"

definition release ::
    "accountant \<Rightarrow> budget_reservation \<Rightarrow> exc + (budget_snapshot \<times> accountant)" where
  "release a r =
     rbind (owned_state a r) (\<lambda>st.
     case rs_status st of
       Released \<Rightarrow>
         (case rs_terminal_snapshot st of
            None \<Rightarrow> Inl (RuntimeError ''released reservation has no terminal snapshot'')
          | Some t \<Rightarrow> Inr (t, a))
     | Settled \<Rightarrow> Inl (ValueError ''cannot release a settled reservation'')
     | Active \<Rightarrow>
         rbind (snapshot_of (ac_budget a) (ac_states a) (ac_used_by_node a)
                  (ac_last_observed_usage a) (Some (br_reservation_id r)))
           (\<lambda>terminal.
              Inr (terminal,
                a\<lparr>ac_states := dput (br_reservation_id r)
                    (st\<lparr>rs_status := Released, rs_terminal_snapshot := Some terminal\<rparr>)
                    (ac_states a)\<rparr>)))"

text \<open>
  Restoring an accountant from a checkpointed snapshot.  The checks on exact run-time types hold
  by typing here; the revalidation of every model and the reconciliation checks are kept.
\<close>

definition rewinds :: "resource_usage \<Rightarrow> resource_usage \<Rightarrow> bool" where
  "rewinds restored original \<longleftrightarrow>
     ru_input_tokens restored < ru_input_tokens original \<or>
     ru_output_tokens restored < ru_output_tokens original \<or>
     ru_reasoning_tokens restored < ru_reasoning_tokens original \<or>
     ru_cached_tokens restored < ru_cached_tokens original \<or>
     ru_total_tokens restored < ru_total_tokens original \<or>
     ru_search_calls restored < ru_search_calls original \<or>
     ru_pages restored < ru_pages original \<or>
     ru_retries restored < ru_retries original \<or>
     flt (ru_wall_seconds restored) (ru_wall_seconds original) \<or>
     (case ru_cost_usd original of None \<Rightarrow> False
      | Some c \<Rightarrow> (case ru_cost_usd restored of None \<Rightarrow> True | Some d \<Rightarrow> flt d c))"

definition no_reserved :: "budget_snapshot \<Rightarrow> bool" where
  "no_reserved s \<longleftrightarrow>
     bs_reserved_search_calls s = 0 \<and> bs_reserved_pages s = 0 \<and> bs_reserved_tokens s = 0 \<and>
     bs_reserved_wall_seconds s = Fin 0 \<and> bs_reserved_retries s = 0 \<and>
     bs_reserved_cost_usd s \<in> {None, Some (Fin 0)}"

definition from_snapshot :: "run_budget \<Rightarrow> budget_snapshot \<Rightarrow> string \<Rightarrow> exc + accountant" where
  "from_snapshot budget snap run_scope =
     (if \<not> valid_budget budget \<or> \<not> valid_snapshot snap
         \<or> \<not> list_all (\<lambda>n. valid_usage (bs_used_by_node snap n)) budget_nodes
         \<or> \<not> valid_usage (bs_last_observed_usage snap)
      then Inl (ValueError ''budget snapshot is invalid'')
      else if \<not> no_reserved snap
      then Inl (ValueError ''budget snapshot contains active reserved capacity'')
      else case rbind (new_accountant budget run_scope) snapshot of
        Inl e \<Rightarrow> Inl (ValueError ''budget seed is invalid'')
      | Inr seed \<Rightarrow>
          if list_ex (\<lambda>n. rewinds (bs_used_by_node snap n) (bs_used_by_node seed n)) budget_nodes
          then Inl (ValueError ''budget snapshot rewinds configured seed history'')
          else
            rbind (mk_run_budget (budget\<lparr>rb_used_by_node := (\<lambda>n. Some (bs_used_by_node snap n))\<rparr>))
              (\<lambda>seeded.
            rbind (new_accountant seeded run_scope) (\<lambda>acc.
            rbind (validate_usage (bs_last_observed_usage snap) False) (\<lambda>observed.
            let acc' = acc\<lparr>ac_last_observed_usage := observed\<rparr> in
            rbind (snapshot acc') (\<lambda>s.
            if s \<noteq> snap then Inl (ValueError ''budget snapshot does not reconcile with usage'')
            else Inr acc')))))"

end
