(* ===== verification/Budget_Interface.thy ===== *)
theory Budget_Interface
  imports Prelude
begin

text \<open>
  The interface of a budget: the three operations a client of the accountant calls, and the
  laws it relies on.  \<open>committed d s\<close> is what is used or reserved in dimension \<open>d\<close>,
  \<open>limit d s\<close> its limit, and \<open>covers r u\<close> says that settling the reservation \<open>r\<close> with the
  usage \<open>u\<close> charges at most what was reserved.  A call that raises leaves the state alone, and
  the client goes on: \<open>run_ops\<close> is an arbitrary interleaving of calls.
\<close>

datatype ('q, 'r, 'u) budget_op = OpReserve 'q | OpSettle 'r 'u | OpRelease 'r

definition keep :: "'s \<Rightarrow> 'e + ('z \<times> 's) \<Rightarrow> 's" where
  "keep s m = (case m of Inl _ \<Rightarrow> s | Inr (_, s') \<Rightarrow> s')"

fun apply_op ::
    "('s \<Rightarrow> 'q \<Rightarrow> 'x + ('r \<times> 's)) \<Rightarrow> ('s \<Rightarrow> 'r \<Rightarrow> 'u \<Rightarrow> 'y + ('z \<times> 's)) \<Rightarrow>
     ('s \<Rightarrow> 'r \<Rightarrow> 'y + ('z \<times> 's)) \<Rightarrow> 's \<Rightarrow> ('q, 'r, 'u) budget_op \<Rightarrow> 's" where
  "apply_op res sett rel s (OpReserve q) = keep s (res s q)"
| "apply_op res sett rel s (OpSettle r u) = keep s (sett s r u)"
| "apply_op res sett rel s (OpRelease r) = keep s (rel s r)"

abbreviation run_ops where
  "run_ops res sett rel s ops \<equiv> foldl (apply_op res sett rel) s ops"

fun settles_covered :: "('r \<Rightarrow> 'u \<Rightarrow> bool) \<Rightarrow> ('q, 'r, 'u) budget_op \<Rightarrow> bool" where
  "settles_covered covers (OpSettle r u) = covers r u"
| "settles_covered covers _ = True"

locale budget_ledger =
  fixes reserve_op :: "'s \<Rightarrow> 'q \<Rightarrow> 'x + ('r \<times> 's)"
    and settle_op :: "'s \<Rightarrow> 'r \<Rightarrow> 'u \<Rightarrow> 'y + ('z \<times> 's)"
    and release_op :: "'s \<Rightarrow> 'r \<Rightarrow> 'y + ('z \<times> 's)"
    and inv :: "'s \<Rightarrow> bool"
    and limit :: "'d \<Rightarrow> 's \<Rightarrow> int"
    and committed :: "'d \<Rightarrow> 's \<Rightarrow> int"
    and covers :: "'r \<Rightarrow> 'u \<Rightarrow> bool"
  assumes reserve_keeps: "inv s \<Longrightarrow> reserve_op s q = Inr (r, s') \<Longrightarrow> inv s' \<and> limit d s' = limit d s"
    and reserve_fits: "inv s \<Longrightarrow> committed d s \<le> limit d s \<Longrightarrow> reserve_op s q = Inr (r, s') \<Longrightarrow>
      committed d s' \<le> limit d s"
    and settle_keeps: "inv s \<Longrightarrow> settle_op s r u = Inr (z, s') \<Longrightarrow> inv s' \<and> limit d s' = limit d s"
    and settle_within: "inv s \<Longrightarrow> settle_op s r u = Inr (z, s') \<Longrightarrow> covers r u \<Longrightarrow>
      committed d s' \<le> committed d s"
    and release_keeps: "inv s \<Longrightarrow> release_op s r = Inr (z, s') \<Longrightarrow> inv s' \<and> limit d s' = limit d s"
    and release_frees: "inv s \<Longrightarrow> release_op s r = Inr (z, s') \<Longrightarrow> committed d s' \<le> committed d s"
begin

lemma apply_op_keeps:
  "inv s \<Longrightarrow> inv (apply_op reserve_op settle_op release_op s c) \<and>
     limit d (apply_op reserve_op settle_op release_op s c) = limit d s"
  by (cases c) (auto simp: keep_def split: sum.split
      dest: reserve_keeps settle_keeps release_keeps)

lemma apply_op_bounded:
  assumes "inv s" "committed d s \<le> limit d s" "settles_covered covers c"
  shows "committed d (apply_op reserve_op settle_op release_op s c) \<le> limit d s"
  using assms
  by (cases c) (auto simp: keep_def split: sum.split
      dest: reserve_fits settle_within [where d = d] release_frees [where d = d])

lemma run_ops_inv:
  "inv s \<Longrightarrow> inv (run_ops reserve_op settle_op release_op s cs) \<and>
     limit d (run_ops reserve_op settle_op release_op s cs) = limit d s"
  by (induction cs arbitrary: s) (simp_all add: apply_op_keeps)

theorem run_ops_bounded:
  "inv s \<Longrightarrow> committed d s \<le> limit d s \<Longrightarrow> list_all (settles_covered covers) cs \<Longrightarrow>
     committed d (run_ops reserve_op settle_op release_op s cs) \<le> limit d s"
proof (induction cs arbitrary: s)
  case (Cons c cs)
  let ?t = "apply_op reserve_op settle_op release_op s c"
  from Cons.prems have "inv ?t" "committed d ?t \<le> limit d ?t" "limit d ?t = limit d s"
    using apply_op_keeps apply_op_bounded by auto
  with Cons.IH [of ?t] Cons.prems(3) show ?case by simp
qed simp

end

end
