(* ===== verification/Budget_Correct.thy ===== *)
theory Budget_Correct
  imports Budget Budget_Interface
begin

text \<open>
  Correctness of the budget accountant.  The four integer dimensions are treated uniformly
  (\<open>int_dim\<close>): what is used is the sum over the five nodes, what is reserved the sum over the
  active reservations, and \<open>committed\<close> is their total.  The interface the planner's dispatch
  relies on is the locale \<open>budget_ledger\<close>, interpreted here on the accountant's own
  operations; the invariant \<open>acct_inv\<close>, the admission bound, idempotence of every operation
  and the round trip through a checkpointed snapshot are proved below.
\<close>

section \<open>Amounts per dimension\<close>

datatype int_dim = DSearch | DPages | DTokens | DRetries

fun dim_usage :: "int_dim \<Rightarrow> resource_usage \<Rightarrow> int" where
  "dim_usage DSearch u = ru_search_calls u"
| "dim_usage DPages u = ru_pages u"
| "dim_usage DTokens u = ru_total_tokens u"
| "dim_usage DRetries u = ru_retries u"

fun dim_estimate :: "int_dim \<Rightarrow> resource_estimate \<Rightarrow> int" where
  "dim_estimate DSearch e = re_search_calls e"
| "dim_estimate DPages e = re_pages e"
| "dim_estimate DTokens e = re_tokens e"
| "dim_estimate DRetries e = re_retries e"

fun dim_limit :: "int_dim \<Rightarrow> run_budget \<Rightarrow> int" where
  "dim_limit DSearch b = rb_max_search_calls b"
| "dim_limit DPages b = rb_max_pages b"
| "dim_limit DTokens b = rb_max_total_tokens b"
| "dim_limit DRetries b = rb_max_retries b"

fun dim_used_of :: "int_dim \<Rightarrow> budget_snapshot \<Rightarrow> int" where
  "dim_used_of DSearch s = bs_used_search_calls s"
| "dim_used_of DPages s = bs_used_pages s"
| "dim_used_of DTokens s = bs_used_tokens s"
| "dim_used_of DRetries s = bs_used_retries s"

fun dim_reserved_of :: "int_dim \<Rightarrow> budget_snapshot \<Rightarrow> int" where
  "dim_reserved_of DSearch s = bs_reserved_search_calls s"
| "dim_reserved_of DPages s = bs_reserved_pages s"
| "dim_reserved_of DTokens s = bs_reserved_tokens s"
| "dim_reserved_of DRetries s = bs_reserved_retries s"

definition used_sum :: "int_dim \<Rightarrow> (budget_node \<Rightarrow> resource_usage) \<Rightarrow> int" where
  "used_sum d used = (\<Sum>n\<leftarrow>budget_nodes. dim_usage d (used n))"

definition reserved_sum :: "int_dim \<Rightarrow> (string, reservation_state) dict \<Rightarrow> int" where
  "reserved_sum d sts = (\<Sum>e\<leftarrow>active_estimates sts None. dim_estimate d e)"

definition committed :: "int_dim \<Rightarrow> accountant \<Rightarrow> int" where
  "committed d a = used_sum d (ac_used_by_node a) + reserved_sum d (ac_states a)"

lemma used_sum_upd:
  "used_sum d (used(n := u)) = used_sum d used - dim_usage d (used n) + dim_usage d u"
  by (cases n) (simp_all add: used_sum_def budget_nodes_def)

lemma add_usage_dim:
  assumes "add_usage ce l r = Inr u"
  shows "dim_usage d u = dim_usage d l + dim_usage d r" "valid_usage u"
  using assms by (cases d; auto simp: add_usage_def mk_usage_Inr)+

lemma used_totals_dim:
  assumes "used_totals ce used = Inr u"
  shows "dim_usage d u = used_sum d used"
proof -
  have "dim_usage d t = dim_usage d s + (\<Sum>n\<leftarrow>ns. dim_usage d (used n))"
    if "foldM (\<lambda>total n. add_usage ce total (used n)) s ns = Inr t" for s t ns
    using that by (induction ns arbitrary: s) (auto simp: res_simps add_usage_dim)
  with assms have "dim_usage d u = dim_usage d (usage_zero ce) + used_sum d used"
    by (simp add: used_totals_def used_sum_def)
  then show ?thesis by (cases d) (simp_all add: usage_zero_def)
qed

lemma reserved_totals_dim:
  assumes "reserved_totals ce sts excl = Inr r"
  shows "dim_estimate d r = (\<Sum>e\<leftarrow>active_estimates sts excl. dim_estimate d e)"
  using assms
  by (cases d) (auto simp: reserved_totals_def mk_estimate_def Let_def comp_def split: if_splits
      intro!: arg_cong [where f = sum_list])

lemma snapshot_of_dims:
  assumes "snapshot_of b sts used obs excl = Inr s"
  shows "dim_used_of d s = used_sum d used"
    "dim_reserved_of d s = (\<Sum>e\<leftarrow>active_estimates sts excl. dim_estimate d e)"
    "bs_used_by_node s = used" "bs_last_observed_usage s = obs" "valid_snapshot s"
proof -
  from assms obtain u r where u: "used_totals (cost_enabled b) used = Inr u"
    and r: "reserved_totals (cost_enabled b) sts excl = Inr r"
    and s: "bs_used_search_calls s = ru_search_calls u" "bs_used_pages s = ru_pages u"
      "bs_used_tokens s = ru_total_tokens u" "bs_used_retries s = ru_retries u"
      "bs_reserved_search_calls s = re_search_calls r" "bs_reserved_pages s = re_pages r"
      "bs_reserved_tokens s = re_tokens r" "bs_reserved_retries s = re_retries r"
    and rest: "bs_used_by_node s = used" "bs_last_observed_usage s = obs" "valid_snapshot s"
    by (auto simp: snapshot_of_def Let_def res_simps mk_snapshot_def split: if_splits)
  show "dim_used_of d s = used_sum d used"
    using used_totals_dim [OF u, of d] s by (cases d) simp_all
  show "dim_reserved_of d s = (\<Sum>e\<leftarrow>active_estimates sts excl. dim_estimate d e)"
    using reserved_totals_dim [OF r, of d] s by (cases d) simp_all
  from rest show "bs_used_by_node s = used" "bs_last_observed_usage s = obs" "valid_snapshot s"
    by simp_all
qed

section \<open>How the operations move reservations\<close>

lemma active_estimates_append:
  "active_estimates (xs @ ys) excl = active_estimates xs excl @ active_estimates ys excl"
  by (simp add: active_estimates_def)

lemma reserved_sum_new:
  assumes "dget sts k = None"
  shows "reserved_sum d (dput k \<lparr>rs_reservation = r, rs_status = Active, rs_terminal_snapshot = t\<rparr> sts)
         = reserved_sum d sts + dim_estimate d (br_estimate r)"
  using assms
  by (simp add: reserved_sum_def dput_new active_estimates_append) (simp add: active_estimates_def)

lemma reserved_sum_end:
  assumes "distinct (dkeys sts)" "dget sts k = Some st" "rs_status st = Active" "rs_status st' \<noteq> Active"
  shows "reserved_sum d (dput k st' sts) = reserved_sum d sts - dim_estimate d (br_estimate (rs_reservation st))"
proof -
  obtain xs ys where "sts = xs @ (k, st) # ys" "dput k st' sts = xs @ (k, st') # ys"
    using dput_split [OF assms(1,2)] by metis
  with assms(3,4) show ?thesis
    by (simp add: reserved_sum_def active_estimates_def)
qed

lemma active_exclude_end:
  assumes "distinct (dkeys sts)" "dget sts k = Some st" "rs_status st' \<noteq> Active"
  shows "active_estimates (dput k st' sts) None = active_estimates sts (Some k)"
proof -
  obtain xs ys where d: "sts = xs @ (k, st) # ys" "dput k st' sts = xs @ (k, st') # ys"
    and k: "k \<notin> set (dkeys xs)" "k \<notin> set (dkeys ys)"
    using dput_split [OF assms(1,2)] by metis
  from k have "filter (\<lambda>(i, s). rs_status s = Active \<and> i \<noteq> k) zs
      = filter (\<lambda>(i, s). rs_status s = Active) zs" if "zs = xs \<or> zs = ys" for zs
    using that by (intro filter_cong) force+
  with d assms(3) show ?thesis by (simp add: active_estimates_def)
qed

section \<open>Case analysis of successful operations\<close>

lemma lift_exc_Inr [simp]: "lift_exc m = Inr x \<longleftrightarrow> m = Inr x"
  by (cases m) simp_all

lemma mk_estimate_Inr: "mk_estimate e = Inr e' \<longleftrightarrow> e' = e \<and> valid_estimate e"
  by (auto simp: mk_estimate_def)

lemma reserve_cases:
  assumes "reserve H oid a est node key = Inr (r, a')"
  obtains (old) i st n where "a' = a" "ac_idempotency_index a key = Some i"
      "dget (ac_states a) i = Some st" "rs_reservation st = r" "node_of_name node = Some n"
      "br_node r = n" "br_estimate r = est"
  | (new) s n rid where "ac_idempotency_index a key = None" "snapshot a = Inr s"
      "offending_dimensions (ac_budget a) s est = {}" "valid_estimate est"
      "cost_enabled (ac_budget a) \<longrightarrow> re_cost_usd est \<noteq> None" "node_of_name node = Some n"
      "rid = H (ac_run_scope a @ '':'' @ key)" "dget (ac_states a) rid = None"
      "r = \<lparr>br_oid = oid, br_reservation_id = rid, br_idempotency_key = key, br_node = n, br_estimate = est\<rparr>"
      "a' = a\<lparr>ac_states := dput rid
                \<lparr>rs_reservation = r, rs_status = Active, rs_terminal_snapshot = None\<rparr> (ac_states a),
              ac_idempotency_index := (ac_idempotency_index a)(key \<mapsto> rid)\<rparr>"
proof -
  from assms obtain n where n: "node_of_name node = Some n" and key: "key \<noteq> []"
    and est: "valid_estimate est" and cost: "cost_enabled (ac_budget a) \<longrightarrow> re_cost_usd est \<noteq> None"
    by (auto simp: reserve_def res_simps mk_estimate_Inr split: option.splits if_splits)
  show thesis
  proof (cases "ac_idempotency_index a key")
    case (Some i)
    with assms n key est cost show thesis
      by (auto simp: reserve_def res_simps mk_estimate_Inr Let_def split: option.splits if_splits
          intro!: old)
  next
    case None
    with assms n key est cost show thesis
      by (auto simp: reserve_def res_simps mk_estimate_Inr Let_def split: if_splits intro!: new)
  qed
qed

lemma owned_state_Inr:
  "owned_state a r = Inr st \<longleftrightarrow> dget (ac_states a) (br_reservation_id r) = Some st \<and> rs_reservation st = r"
  by (auto simp: owned_state_def split: option.splits)

definition tentative_used :: "accountant \<Rightarrow> budget_reservation \<Rightarrow> resource_usage \<Rightarrow> bool \<Rightarrow>
    exc + (budget_node \<Rightarrow> resource_usage)" where
  "tentative_used a r act charge =
     (if charge
      then rbind (add_usage (cost_enabled (ac_budget a)) (ac_used_by_node a (br_node r)) act)
             (\<lambda>total. Inr ((ac_used_by_node a)(br_node r := total)))
      else Inr (ac_used_by_node a))"

lemma settle_cases:
  assumes "settle a r actual charge = Inr (s, a')"
  obtains (again) st where "dget (ac_states a) (br_reservation_id r) = Some st" "rs_reservation st = r"
      "rs_status st = Settled" "rs_terminal_snapshot st = Some s" "a' = a"
  | (first) st act used where "dget (ac_states a) (br_reservation_id r) = Some st"
      "rs_reservation st = r" "rs_status st = Active"
      "validate_usage actual (cost_enabled (ac_budget a) \<and> charge) = Inr act"
      "tentative_used a r act charge = Inr used"
      "snapshot_of (ac_budget a) (ac_states a) used act (Some (br_reservation_id r)) = Inr s"
      "a' = a\<lparr>ac_used_by_node := used, ac_last_observed_usage := act,
              ac_states := dput (br_reservation_id r)
                (st\<lparr>rs_status := Settled, rs_terminal_snapshot := Some s\<rparr>) (ac_states a)\<rparr>"
proof -
  from assms obtain st where st: "owned_state a r = Inr st" by (auto simp: settle_def res_simps)
  show thesis
  proof (cases "rs_status st")
    case Active
    with assms st show thesis
      unfolding settle_def tentative_used_def [symmetric]
      by (auto simp: res_simps owned_state_Inr intro!: first)
  qed (use assms st in \<open>auto simp: settle_def owned_state_Inr split: option.splits intro: again\<close>)
qed

lemma release_cases:
  assumes "release a r = Inr (s, a')"
  obtains (again) st where "dget (ac_states a) (br_reservation_id r) = Some st" "rs_reservation st = r"
      "rs_status st = Released" "rs_terminal_snapshot st = Some s" "a' = a"
  | (first) st where "dget (ac_states a) (br_reservation_id r) = Some st"
      "rs_reservation st = r" "rs_status st = Active"
      "snapshot_of (ac_budget a) (ac_states a) (ac_used_by_node a) (ac_last_observed_usage a)
         (Some (br_reservation_id r)) = Inr s"
      "a' = a\<lparr>ac_states := dput (br_reservation_id r)
                (st\<lparr>rs_status := Released, rs_terminal_snapshot := Some s\<rparr>) (ac_states a)\<rparr>"
proof -
  from assms obtain st where st: "owned_state a r = Inr st" by (auto simp: release_def res_simps)
  show thesis
  proof (cases "rs_status st")
    case Active
    with assms st show thesis by (auto simp: release_def res_simps owned_state_Inr intro!: first)
  qed (use assms st in \<open>auto simp: release_def owned_state_Inr split: option.splits intro: again\<close>)
qed

section \<open>The invariant\<close>

definition usage_ok :: "run_budget \<Rightarrow> resource_usage \<Rightarrow> bool" where
  "usage_ok b u \<longleftrightarrow> validate_usage u (cost_enabled b) = Inr u"

definition state_ok :: "run_budget \<Rightarrow> string \<Rightarrow> reservation_state \<Rightarrow> bool" where
  "state_ok b i st \<longleftrightarrow>
     br_reservation_id (rs_reservation st) = i \<and> valid_estimate (br_estimate (rs_reservation st)) \<and>
     (cost_enabled b \<longrightarrow> re_cost_usd (br_estimate (rs_reservation st)) \<noteq> None) \<and>
     (rs_status st = Active \<longleftrightarrow> rs_terminal_snapshot st = None)"

definition acct_inv :: "accountant \<Rightarrow> bool" where
  "acct_inv a \<longleftrightarrow>
     distinct (dkeys (ac_states a)) \<and>
     (\<forall>i st. dget (ac_states a) i = Some st \<longrightarrow>
        state_ok (ac_budget a) i st \<and>
        ac_idempotency_index a (br_idempotency_key (rs_reservation st)) = Some i) \<and>
     (\<forall>k i. ac_idempotency_index a k = Some i \<longrightarrow>
        (\<exists>st. dget (ac_states a) i = Some st \<and> br_idempotency_key (rs_reservation st) = k)) \<and>
     (\<forall>n. usage_ok (ac_budget a) (ac_used_by_node a n)) \<and>
     validate_usage (ac_last_observed_usage a) False = Inr (ac_last_observed_usage a)"

lemma fl_nonneg: "0 \<le> r \<Longrightarrow> fle (Fin 0) (fl r)"
  using rnd_nonneg [of r] by (auto simp: fl_def Let_def intro: order_trans)

lemma fadd_nonneg: "fle (Fin 0) x \<Longrightarrow> fle (Fin 0) y \<Longrightarrow> fle (Fin 0) (fadd x y)"
  by (cases x; cases y) (auto simp: fl_nonneg)

lemma fadd_finite: "isfinite (fadd x y) \<Longrightarrow> isfinite x \<and> isfinite y"
  by (cases x; cases y) auto

lemma dadd_finite: "isfinite c \<Longrightarrow> isfinite d \<Longrightarrow> isfinite (dadd c d)"
  by (cases c; cases d) auto

lemma dadd_nonneg:
  "isfinite c \<Longrightarrow> isfinite d \<Longrightarrow> fle (Fin 0) c \<Longrightarrow> fle (Fin 0) d \<Longrightarrow> fle (Fin 0) (dadd c d)"
  by (cases c; cases d) (auto simp: drnd_nonneg)

lemma not_flt_0: "isfinite x \<Longrightarrow> flt x (Fin 0) \<longleftrightarrow> \<not> fle (Fin 0) x"
  by (cases x) auto

lemma add_usage_wall:
  "add_usage ce l r = Inr u \<Longrightarrow> ru_wall_seconds u = fadd (ru_wall_seconds l) (ru_wall_seconds r)"
  by (auto simp: add_usage_def mk_usage_Inr)

lemma add_usage_cost:
  "add_usage ce l r = Inr u \<Longrightarrow> ru_cost_usd u =
     (if ce then Some (dadd (or_zero (ru_cost_usd l)) (or_zero (ru_cost_usd r))) else None)"
  by (auto simp: add_usage_def mk_usage_Inr)

lemma used_totals_finite:
  assumes "used_totals ce used = Inr u" "isfinite (ru_wall_seconds u)"
  shows "isfinite (ru_wall_seconds (used n))"
proof -
  have "isfinite (ru_wall_seconds s) \<and> (\<forall>n\<in>set ns. isfinite (ru_wall_seconds (used n)))"
    if "foldM (\<lambda>total n. add_usage ce total (used n)) s ns = Inr t" "isfinite (ru_wall_seconds t)"
    for s t ns
    using that by (induction ns arbitrary: s) (fastforce simp: res_simps add_usage_wall dest: fadd_finite)+
  from this [OF assms(1) [unfolded used_totals_def] assms(2)] show ?thesis by simp
qed

lemma snapshot_of_finite:
  assumes "snapshot_of b sts used obs excl = Inr s"
  shows "isfinite (ru_wall_seconds (used n))"
proof -
  from assms obtain u where "used_totals (cost_enabled b) used = Inr u" "isfinite (ru_wall_seconds u)"
    by (auto simp: snapshot_of_def Let_def res_simps mk_snapshot_def valid_snapshot_def split: if_splits)
  then show ?thesis by (rule used_totals_finite)
qed

lemma validate_usage_Inr:
  assumes "validate_usage u k = Inr v"
  shows "v = u" "valid_usage u" "isfinite (ru_wall_seconds u)"
    "k \<Longrightarrow> \<exists>c. ru_cost_usd u = Some c \<and> isfinite c \<and> fle (Fin 0) c"
    "ru_cost_usd u = Some c \<Longrightarrow> isfinite c \<and> fle (Fin 0) c"
  using assms
  by (auto simp: validate_usage_def mk_usage_Inr not_flt_0 split: if_splits option.splits)

lemma validate_usage_iff:
  "validate_usage u k = Inr v \<longleftrightarrow> v = u \<and> valid_usage u \<and> isfinite (ru_wall_seconds u) \<and>
     (k \<longrightarrow> ru_cost_usd u \<noteq> None) \<and> (\<forall>c. ru_cost_usd u = Some c \<longrightarrow> isfinite c \<and> fle (Fin 0) c)"
  by (auto simp: validate_usage_def mk_usage_Inr not_flt_0 valid_usage_def usage_fields_ok_def
      split: option.splits)

lemma validate_usage_zero: "validate_usage (usage_zero k) False = Inr (usage_zero k)"
  unfolding validate_usage_iff by (simp add: valid_usage_zero) (simp add: usage_zero_def)

lemma validate_usage_weaken: "validate_usage u k = Inr v \<Longrightarrow> validate_usage v False = Inr v"
  by (simp add: validate_usage_iff)

lemma add_usage_ok:
  assumes "add_usage (cost_enabled b) l r = Inr u" "usage_ok b l"
    and "cost_enabled b \<longrightarrow> (\<exists>c. ru_cost_usd r = Some c \<and> isfinite c \<and> fle (Fin 0) c)"
    and "isfinite (ru_wall_seconds u)"
  shows "usage_ok b u"
  using assms add_usage_dim(2) [OF assms(1)] add_usage_cost [OF assms(1)]
  by (auto simp: usage_ok_def validate_usage_iff or_zero_def dadd_finite dadd_nonneg split: if_splits)

lemma seed_usage_ok:
  assumes "seed_usage b n = Inr u"
  shows "usage_ok b u"
proof -
  define k where "k = (case rb_used_by_node b n of None \<Rightarrow> usage_zero (cost_enabled b) | Some u \<Rightarrow> u)"
  from assms obtain v where v: "validate_usage k False = Inr v"
    and u: "(if cost_enabled b \<and> ru_cost_usd v = None
             then if \<not> usage_is_zero v then Inl (ValueError ''seeded usage must have known cost'')
                  else mk_usage (v\<lparr>ru_cost_usd := Some (Fin 0)\<rparr>)
             else Inr v) = Inr u"
    unfolding seed_usage_def k_def by (auto simp: res_simps)
  from v u show ?thesis
    by (auto simp: usage_ok_def validate_usage_iff mk_usage_Inr split: if_splits)
qed

lemma new_accountant_cases:
  assumes "new_accountant b scope = Inr a"
  obtains s where "ac_budget a = b" "ac_run_scope a = scope" "ac_states a = []"
    "ac_idempotency_index a = Map.empty" "\<And>n. seed_usage b n = Inr (ac_used_by_node a n)"
    "ac_last_observed_usage a = usage_zero (cost_enabled b)" "scope \<noteq> []"
    "snapshot_of b [] (ac_used_by_node a) (usage_zero (cost_enabled b)) None = Inr s"
proof -
  from assms obtain seeds where seeds: "mapM (seed_usage b) budget_nodes = Inr seeds"
    by (auto simp: new_accountant_def res_simps split: if_splits)
  with assms obtain s where a: "a = \<lparr>ac_budget = b, ac_run_scope = scope, ac_states = [],
        ac_idempotency_index = Map.empty,
        ac_used_by_node = (\<lambda>n. the (map_of (zip budget_nodes seeds) n)),
        ac_last_observed_usage = usage_zero (cost_enabled b)\<rparr>" "scope \<noteq> []"
    and s: "snapshot_of b [] (\<lambda>n. the (map_of (zip budget_nodes seeds) n))
              (usage_zero (cost_enabled b)) None = Inr s"
    by (auto simp: new_accountant_def res_simps Let_def split: if_splits sum.splits)
  have "seed_usage b n = Inr (the (map_of (zip budget_nodes seeds) n))" for n
    using mapM_Inr_all [OF seeds]
    by (cases n) (auto simp: budget_nodes_def list_all2_Cons1)
  with a s show thesis by (intro that) simp_all
qed

lemma new_accountant_inv: "new_accountant b scope = Inr a \<Longrightarrow> acct_inv a"
  by (erule new_accountant_cases) (auto simp: acct_inv_def validate_usage_zero intro: seed_usage_ok)

lemma tentative_used_ok:
  assumes "tentative_used a r act charge = Inr used"
    and "validate_usage actual (cost_enabled (ac_budget a) \<and> charge) = Inr act"
    and "snapshot_of (ac_budget a) sts used obs excl = Inr s"
    and "\<forall>n. usage_ok (ac_budget a) (ac_used_by_node a n)"
  shows "usage_ok (ac_budget a) (used n)"
proof (cases charge)
  case True
  with assms(1) obtain total where
    t: "add_usage (cost_enabled (ac_budget a)) (ac_used_by_node a (br_node r)) act = Inr total"
    and used: "used = (ac_used_by_node a)(br_node r := total)"
    by (auto simp: tentative_used_def res_simps)
  have "usage_ok (ac_budget a) total"
    using validate_usage_Inr [OF assms(2)] True assms(4) snapshot_of_finite [OF assms(3), of "br_node r"] used
    by (intro add_usage_ok [OF t]) auto
  with used assms(4) show ?thesis by simp
qed (use assms in \<open>auto simp: tentative_used_def\<close>)

lemma acct_inv_end:
  assumes "acct_inv a" "dget (ac_states a) i = Some st" "rs_status st = Active"
    and "st' = st\<lparr>rs_status := status, rs_terminal_snapshot := Some s\<rparr>" "status \<noteq> Active"
    and "ac_states a' = dput i st' (ac_states a)" "ac_budget a' = ac_budget a"
    and "ac_idempotency_index a' = ac_idempotency_index a"
    and "\<forall>n. usage_ok (ac_budget a) (ac_used_by_node a' n)"
    and "validate_usage (ac_last_observed_usage a') False = Inr (ac_last_observed_usage a')"
  shows "acct_inv a'"
  using assms unfolding acct_inv_def
  by (auto simp: state_ok_def distinct_update; fastforce)

lemma reserve_inv:
  assumes "acct_inv a" "reserve H oid a est node key = Inr (r, a')"
  shows "acct_inv a'"
  using assms(2)
proof (cases rule: reserve_cases)
  case (new s n rid)
  have fresh: "ac_idempotency_index a k \<noteq> Some rid" for k
    using assms(1) new(8) unfolding acct_inv_def by (metis option.distinct(1))
  with assms(1) new show ?thesis
    by (auto simp: acct_inv_def state_ok_def distinct_update)
qed (use assms in simp)

lemma settle_inv:
  assumes "acct_inv a" "settle a r actual charge = Inr (s, a')"
  shows "acct_inv a'"
  using assms(2)
proof (cases rule: settle_cases)
  case (first st act used)
  have "\<forall>n. usage_ok (ac_budget a) (used n)"
    using tentative_used_ok [OF first(5,4,6)] assms(1) by (simp add: acct_inv_def)
  with first show ?thesis
    by (intro acct_inv_end [OF assms(1) first(1,3) refl, where status = Settled])
      (simp_all add: validate_usage_weaken)
qed (use assms in simp)

lemma release_inv:
  assumes "acct_inv a" "release a r = Inr (s, a')"
  shows "acct_inv a'"
  using assms(2)
proof (cases rule: release_cases)
  case (first st)
  with assms(1) show ?thesis
    by (intro acct_inv_end [OF assms(1) first(1,3) refl, where status = Released])
      (simp_all add: acct_inv_def)
qed (use assms in simp)

section \<open>The accountant is a budget ledger\<close>

lemma offending_empty:
  "offending_dimensions b s e = {} \<Longrightarrow> dim_used_of d s + dim_reserved_of d s + dim_estimate d e \<le> dim_limit d b"
  by (cases d) (auto simp: offending_dimensions_def split: if_splits)

lemma snapshot_committed: "snapshot a = Inr s \<Longrightarrow> dim_used_of d s + dim_reserved_of d s = committed d a"
  by (simp add: snapshot_def snapshot_of_dims committed_def reserved_sum_def)

lemma reserve_budget: "reserve H oid a est node key = Inr (r, a') \<Longrightarrow> ac_budget a' = ac_budget a"
  by (erule reserve_cases) simp_all

lemma settle_budget: "settle a r u c = Inr (s, a') \<Longrightarrow> ac_budget a' = ac_budget a"
  by (erule settle_cases) simp_all

lemma release_budget: "release a r = Inr (s, a') \<Longrightarrow> ac_budget a' = ac_budget a"
  by (erule release_cases) simp_all

lemma reserve_committed:
  assumes "reserve H oid a est node key = Inr (r, a')" "ac_idempotency_index a key = None"
  shows "committed d a' = committed d a + dim_estimate d est" "committed d a' \<le> dim_limit d (ac_budget a)"
proof -
  from assms(1) show eq: "committed d a' = committed d a + dim_estimate d est"
    by (cases rule: reserve_cases) (use assms(2) in \<open>auto simp: committed_def reserved_sum_new\<close>)
  from assms(1) show "committed d a' \<le> dim_limit d (ac_budget a)" unfolding eq
    by (cases rule: reserve_cases)
      (use assms(2) in \<open>auto dest!: offending_empty [where d = d] simp: snapshot_committed\<close>)
qed

lemma settle_committed:
  assumes "settle a r u c = Inr (s, a')" "acct_inv a"
    and "dget (ac_states a) (br_reservation_id r) = Some st" "rs_status st = Active"
  shows "committed d a' =
    committed d a - dim_estimate d (br_estimate r) + (if c then dim_usage d u else 0)"
  using assms(1)
proof (cases rule: settle_cases)
  case (first st' act used)
  have "used_sum d used = used_sum d (ac_used_by_node a) + (if c then dim_usage d u else 0)"
    using first(5) validate_usage_Inr(1) [OF first(4)]
    by (auto simp: tentative_used_def res_simps used_sum_upd add_usage_dim split: if_splits)
  with first assms(2) show ?thesis
    by (simp add: committed_def reserved_sum_end acct_inv_def)
qed (use assms in simp)

lemma release_committed:
  assumes "release a r = Inr (s, a')" "acct_inv a"
    and "dget (ac_states a) (br_reservation_id r) = Some st" "rs_status st = Active"
  shows "committed d a' = committed d a - dim_estimate d (br_estimate r)"
  using assms(1)
proof (cases rule: release_cases)
  case (first st')
  with assms(2) show ?thesis by (simp add: committed_def reserved_sum_end acct_inv_def)
qed (use assms in simp)

lemma valid_estimate_dim: "valid_estimate e \<Longrightarrow> 0 \<le> dim_estimate d e"
  by (cases d) (simp_all add: valid_estimate_def)

lemma owned_estimate_nonneg:
  "acct_inv a \<Longrightarrow> dget (ac_states a) i = Some st \<Longrightarrow> 0 \<le> dim_estimate d (br_estimate (rs_reservation st))"
  by (auto simp: acct_inv_def state_ok_def intro: valid_estimate_dim)

text \<open>A settlement charges within its estimate.\<close>

definition charges_within :: "budget_reservation \<Rightarrow> resource_usage \<times> bool \<Rightarrow> bool" where
  "charges_within r uc \<longleftrightarrow>
     list_all (\<lambda>d. (if snd uc then dim_usage d (fst uc) else 0) \<le> dim_estimate d (br_estimate r))
       [DSearch, DPages, DTokens, DRetries]"

lemma charges_withinD:
  "charges_within r (u, c) \<Longrightarrow> (if c then dim_usage d u else 0) \<le> dim_estimate d (br_estimate r)"
  by (cases d) (auto simp: charges_within_def split: if_splits)

abbreviation reserve_req where
  "reserve_req H a q \<equiv> (case q of (oid, est, node, key) \<Rightarrow> reserve H oid a est node key)"

abbreviation settle_req where
  "settle_req a r u \<equiv> settle a r (fst u) (snd u)"

interpretation acct: budget_ledger "reserve_req H" settle_req release acct_inv
  "\<lambda>d a. dim_limit d (ac_budget a)" committed charges_within
proof (unfold_locales, goal_cases)
  case (1 s q r s' d)
  then show ?case by (auto split: prod.splits intro: reserve_inv dest: reserve_budget)
next
  case (2 s d q r s')
  obtain oid est node key where q: "q = (oid, est, node, key)" by (cases q)
  with 2 have r: "reserve H oid s est node key = Inr (r, s')" by simp
  show ?case
  proof (cases "ac_idempotency_index s key")
    case None
    with r show ?thesis by (rule reserve_committed(2))
  next
    case (Some i)
    with r 2(2) show ?thesis by (auto elim: reserve_cases)
  qed
next
  case (3 s r u z s' d)
  then show ?case by (auto intro: settle_inv dest: settle_budget)
next
  case (4 s r u z s' d)
  from 4(2) show ?case
  proof (cases rule: settle_cases)
    case (first st act used)
    then show ?thesis
      using settle_committed [OF 4(2,1) first(1,3), of d] charges_withinD [of r "fst u" "snd u" d] 4(3)
      by simp
  qed simp
next
  case (5 s r z s' d)
  then show ?case by (auto intro: release_inv dest: release_budget)
next
  case (6 s r z s' d)
  from 6(2) show ?case
  proof (cases rule: release_cases)
    case (first st)
    then show ?thesis
      using release_committed [OF 6(2,1) first(1,3), of d] owned_estimate_nonneg [OF 6(1) first(1), of d]
      by simp
  qed simp
qed

abbreviation acct_run where
  "acct_run H a ops \<equiv> run_ops (reserve_req H) settle_req release a ops"

section \<open>Terminal reservations and the idempotency index never change\<close>

lemma settle_settled:
  assumes "settle a r u c = Inr (s, a')" "acct_inv a"
  obtains st where "dget (ac_states a') (br_reservation_id r) = Some st" "rs_reservation st = r"
    "rs_status st = Settled" "rs_terminal_snapshot st = Some s"
  using assms(1) by (cases rule: settle_cases) (auto intro: that)

lemma release_released:
  assumes "release a r = Inr (s, a')" "acct_inv a"
  obtains st where "dget (ac_states a') (br_reservation_id r) = Some st" "rs_reservation st = r"
    "rs_status st = Released" "rs_terminal_snapshot st = Some s"
  using assms(1) by (cases rule: release_cases) (auto intro: that)

text \<open>A fresh reservation can always be given back.\<close>

lemma fresh_release:
  assumes "reserve sha oid a est node key = Inr (r, a1)" "ac_idempotency_index a key = None"
  shows "\<exists>s b. release a1 r = Inr (s, b)"
proof -
  from assms obtain s where rid: "dget (ac_states a) (br_reservation_id r) = None" "snapshot a = Inr s"
    and a1: "a1 = a\<lparr>ac_states := dput (br_reservation_id r)
        \<lparr>rs_reservation = r, rs_status = Active, rs_terminal_snapshot = None\<rparr> (ac_states a),
      ac_idempotency_index := (ac_idempotency_index a)(key \<mapsto> br_reservation_id r)\<rparr>"
    by (cases rule: reserve_cases) auto
  have "filter (\<lambda>(i, s). rs_status s = Active \<and> i \<noteq> br_reservation_id r) (ac_states a) =
      filter (\<lambda>(i, s). rs_status s = Active) (ac_states a)"
    using rid(1) by (intro filter_cong) (force simp: map_of_eq_None_iff)+
  then have "active_estimates (ac_states a1) (Some (br_reservation_id r)) = active_estimates (ac_states a) None"
    by (simp add: a1 dput_new rid(1) active_estimates_def)
  then have "snapshot_of (ac_budget a1) (ac_states a1) (ac_used_by_node a1) (ac_last_observed_usage a1)
      (Some (br_reservation_id r)) = snapshot a"
    by (simp add: snapshot_def snapshot_of_def reserved_totals_def a1)
  moreover have "owned_state a1 r = Inr \<lparr>rs_reservation = r, rs_status = Active, rs_terminal_snapshot = None\<rparr>"
    by (simp add: owned_state_Inr a1)
  ultimately show ?thesis using rid(2) by (auto simp: release_def)
qed

lemma op_keeps_reservation:
  assumes "dget (ac_states a) i = Some st" and inv: "acct_inv a"
  shows "\<exists>st'. dget (ac_states (apply_op (reserve_req H) settle_req release a c)) i = Some st' \<and>
    rs_reservation st' = rs_reservation st \<and> (rs_status st \<noteq> Active \<longrightarrow> st' = st)"
proof (cases c)
  case (OpReserve q)
  then show ?thesis using assms(1)
    by (auto simp: keep_def split: sum.split prod.splits elim!: reserve_cases)
next
  case (OpSettle r u)
  then show ?thesis using assms(1)
    by (auto simp: keep_def split: sum.split elim!: settle_cases)
next
  case (OpRelease r)
  then show ?thesis using assms(1)
    by (auto simp: keep_def split: sum.split elim!: release_cases)
qed

lemma op_keeps_index:
  assumes "ac_idempotency_index a k = Some i"
  shows "ac_idempotency_index (apply_op (reserve_req H) settle_req release a c) k = Some i"
proof (cases c)
  case (OpReserve q)
  then show ?thesis using assms
    by (auto simp: keep_def split: sum.split prod.splits elim!: reserve_cases)
next
  case (OpSettle r u)
  then show ?thesis using assms
    by (auto simp: keep_def split: sum.split elim!: settle_cases)
next
  case (OpRelease r)
  then show ?thesis using assms
    by (auto simp: keep_def split: sum.split elim!: release_cases)
qed

lemma run_keeps:
  assumes "acct_inv a" "dget (ac_states a) i = Some st"
  shows "\<exists>st'. dget (ac_states (acct_run H a ops)) i = Some st' \<and>
    rs_reservation st' = rs_reservation st \<and> (rs_status st \<noteq> Active \<longrightarrow> st' = st)"
  using assms
proof (induction ops arbitrary: a st)
  case (Cons c ops)
  let ?t = "apply_op (reserve_req H) settle_req release a c"
  obtain st1 where st1: "dget (ac_states ?t) i = Some st1" "rs_reservation st1 = rs_reservation st"
    "rs_status st \<noteq> Active \<longrightarrow> st1 = st"
    using op_keeps_reservation [OF Cons.prems(2,1)] by blast
  have "acct_inv ?t" using acct.apply_op_keeps [OF Cons.prems(1)] by blast
  from Cons.IH [OF this st1(1)] st1(2,3) show ?case by auto
qed simp

lemma run_keeps_index:
  "ac_idempotency_index a k = Some i \<Longrightarrow> ac_idempotency_index (acct_run H a ops) k = Some i"
  by (induction ops arbitrary: a) (simp_all add: op_keeps_index)

lemma op_budget: "ac_budget (apply_op (reserve_req H) settle_req release a c) = ac_budget a"
  by (cases c) (auto simp: keep_def split: sum.split prod.splits
      dest: reserve_budget settle_budget release_budget)

lemma run_budget: "ac_budget (acct_run H a ops) = ac_budget a"
  by (induction ops arbitrary: a) (simp_all add: op_budget)

section \<open>Usage never shrinks, and a settled run survives a checkpoint\<close>

text \<open>The numbers a float or a Decimal of at most 28 digits can hold.\<close>

definition rep_usage :: "resource_usage \<Rightarrow> bool" where
  "rep_usage u \<longleftrightarrow> (\<exists>w. ru_wall_seconds u = Fin w \<and> rnd w = w) \<and>
     (\<forall>c. ru_cost_usd u = Some c \<longrightarrow> (\<exists>d. c = Fin d \<and> drnd d = d))"

lemma rewinds_refl: "\<not> rewinds u u"
  by (cases "ru_wall_seconds u"; cases "ru_cost_usd u"; cases "the (ru_cost_usd u)")
    (auto simp: rewinds_def)

lemma rewinds_trans:
  assumes "\<not> rewinds v u" "\<not> rewinds w v" "rep_usage u" "rep_usage v" "rep_usage w"
  shows "\<not> rewinds w u"
  using assms by (auto simp: rewinds_def rep_usage_def split: option.splits)

lemma fl_Fin: "isfinite (fl r) \<Longrightarrow> fl r = Fin (rnd r)"
  by (auto simp: fl_def Let_def split: if_splits)

lemma add_usage_grows:
  assumes u: "add_usage ce l r = Inr u" "isfinite (ru_wall_seconds u)"
    and l: "rep_usage l" "ce \<longrightarrow> ru_cost_usd l \<noteq> None" "\<not> ce \<longrightarrow> ru_cost_usd l = None"
    and r: "validate_usage r k = Inr r"
  shows "\<not> rewinds u l \<and> rep_usage u"
proof -
  have fields: "ru_input_tokens l \<le> ru_input_tokens u" "ru_output_tokens l \<le> ru_output_tokens u"
    "ru_reasoning_tokens l \<le> ru_reasoning_tokens u" "ru_cached_tokens l \<le> ru_cached_tokens u"
    "ru_total_tokens l \<le> ru_total_tokens u" "ru_search_calls l \<le> ru_search_calls u"
    "ru_pages l \<le> ru_pages u" "ru_retries l \<le> ru_retries u"
    using u(1) r by (auto simp: add_usage_def mk_usage_Inr validate_usage_iff valid_usage_def usage_fields_ok_def)
  obtain w x where w: "ru_wall_seconds l = Fin w" "rnd w = w" and x: "ru_wall_seconds r = Fin x" "0 \<le> x"
    using l(1) r by (cases "ru_wall_seconds r")
      (auto simp: rep_usage_def validate_usage_iff valid_usage_def usage_fields_ok_def)
  have wall: "ru_wall_seconds u = Fin (rnd (w + x))" "w \<le> rnd (w + x)"
    using add_usage_wall [OF u(1)] u(2) w x fl_Fin rnd_add_ge [OF w(2) x(2)] by auto
  have cost: "case ru_cost_usd l of None \<Rightarrow> ru_cost_usd u = None
    | Some c \<Rightarrow> \<exists>d e. c = Fin d \<and> ru_cost_usd u = Some (Fin e) \<and> d \<le> e \<and> drnd e = e"
  proof (cases "ru_cost_usd l")
    case None
    with l(2) add_usage_cost [OF u(1)] show ?thesis by simp
  next
    case (Some c)
    with l(1) obtain d where d: "c = Fin d" "drnd d = d" by (auto simp: rep_usage_def)
    have "\<exists>y. or_zero (ru_cost_usd r) = Fin y \<and> 0 \<le> y"
      using r by (cases "ru_cost_usd r"; cases "the (ru_cost_usd r)")
        (auto simp: or_zero_def validate_usage_iff)
    then obtain y where y: "or_zero (ru_cost_usd r) = Fin y" "0 \<le> y" by blast
    from Some l(3) have ce by auto
    with add_usage_cost [OF u(1)] Some d y have "ru_cost_usd u = Some (Fin (drnd (d + y)))"
      by (simp add: or_zero_def)
    with Some d drnd_add_ge [OF d(2) y(2)] show ?thesis by simp
  qed
  show ?thesis
    using fields wall cost w by (auto simp: rewinds_def rep_usage_def split: option.splits)
qed

text \<open>What holds between the seeds \<open>u0\<close> of an accountant and its usage at any later point.\<close>

definition grown :: "(budget_node \<Rightarrow> resource_usage) \<Rightarrow> accountant \<Rightarrow> bool" where
  "grown u0 a \<longleftrightarrow> (\<forall>n. rep_usage (u0 n) \<and> rep_usage (ac_used_by_node a n) \<and>
     \<not> rewinds (ac_used_by_node a n) (u0 n) \<and>
     (\<not> cost_enabled (ac_budget a) \<longrightarrow> ru_cost_usd (ac_used_by_node a n) = None))"

lemma settle_grown:
  assumes "grown u0 a" "acct_inv a" "settle a r u c = Inr (s, a')"
  shows "grown u0 a'"
  using assms(3)
proof (cases rule: settle_cases)
  case (first st act used)
  show ?thesis
  proof (cases c)
    case True
    with first(5) obtain t where
      t: "add_usage (cost_enabled (ac_budget a)) (ac_used_by_node a (br_node r)) act = Inr t"
      and used: "used = (ac_used_by_node a)(br_node r := t)"
      by (auto simp: tentative_used_def res_simps)
    have "isfinite (ru_wall_seconds t)" using snapshot_of_finite [OF first(6), of "br_node r"] used by simp
    moreover have "ru_cost_usd (ac_used_by_node a (br_node r)) \<noteq> None" if "cost_enabled (ac_budget a)"
      using assms(2) that by (auto simp: acct_inv_def usage_ok_def validate_usage_iff)
    moreover have "validate_usage act False = Inr act" using first(4) by (rule validate_usage_weaken)
    ultimately have g: "\<not> rewinds t (ac_used_by_node a (br_node r)) \<and> rep_usage t"
      using add_usage_grows [OF t] assms(1) by (auto simp: grown_def)
    then have "\<not> rewinds t (u0 (br_node r))"
      using assms(1) rewinds_trans unfolding grown_def by metis
    with g assms(1) first used add_usage_cost [OF t] show ?thesis by (auto simp: grown_def)
  qed (use assms(1) first in \<open>auto simp: grown_def tentative_used_def\<close>)
qed (use assms in simp)

lemma op_grown:
  assumes "grown u0 a" "acct_inv a"
  shows "grown u0 (apply_op (reserve_req H) settle_req release a c)"
proof (cases c)
  case (OpReserve q)
  then show ?thesis using assms
    by (auto simp: keep_def grown_def split: sum.split prod.splits elim!: reserve_cases)
next
  case (OpSettle r u)
  then show ?thesis using assms by (auto simp: keep_def split: sum.split intro: settle_grown)
next
  case (OpRelease r)
  then show ?thesis using assms
    by (auto simp: keep_def grown_def split: sum.split elim!: release_cases)
qed

lemma run_grown: "grown u0 a \<Longrightarrow> acct_inv a \<Longrightarrow> grown u0 (acct_run H a ops)"
proof (induction ops arbitrary: a)
  case (Cons c ops)
  then show ?case using op_grown acct.apply_op_keeps by fastforce
qed simp

lemma snapshot_of_cong:
  assumes "active_estimates sts excl = active_estimates sts' excl'"
  shows "snapshot_of (b\<lparr>rb_used_by_node := f\<rparr>) sts used obs excl = snapshot_of b sts' used obs excl'"
  using assms
  by (simp add: snapshot_of_def reserved_totals_def cost_enabled_def exhausted_dimensions_def)

lemma mk_snapshot_observed:
  "mk_snapshot s = Inr t \<Longrightarrow>
     mk_snapshot (s\<lparr>bs_last_observed_usage := obs\<rparr>) = Inr (t\<lparr>bs_last_observed_usage := obs\<rparr>)"
  by (simp add: mk_snapshot_def valid_snapshot_def split: if_split_asm)

lemma snapshot_of_observed:
  assumes "snapshot_of b sts used obs excl = Inr s"
  shows "snapshot_of b sts used obs' excl = Inr (s\<lparr>bs_last_observed_usage := obs'\<rparr>)"
proof -
  from assms obtain u r where u: "used_totals (cost_enabled b) used = Inr u"
    and r: "reserved_totals (cost_enabled b) sts excl = Inr r"
    by (auto simp: snapshot_of_def Let_def rbind_eq_Inr)
  show ?thesis
    using mk_snapshot_observed [OF assms [unfolded snapshot_of_def Let_def u r rbind_Inr], of obs']
    by (simp add: snapshot_of_def u r)
qed

lemma new_accountant_seeded:
  assumes "\<And>n. usage_ok b (used n)" "scope \<noteq> []"
    and "snapshot_of b [] used obs None = Inr s"
  shows "new_accountant (b\<lparr>rb_used_by_node := (\<lambda>n. Some (used n))\<rparr>) scope = Inr
    \<lparr>ac_budget = b\<lparr>rb_used_by_node := (\<lambda>n. Some (used n))\<rparr>, ac_run_scope = scope, ac_states = [],
     ac_idempotency_index = Map.empty, ac_used_by_node = used,
     ac_last_observed_usage = usage_zero (cost_enabled b)\<rparr>"
proof -
  let ?b = "b\<lparr>rb_used_by_node := (\<lambda>n. Some (used n))\<rparr>"
  have ce: "cost_enabled ?b = cost_enabled b" by (simp add: cost_enabled_def)
  have seed: "seed_usage ?b n = Inr (used n)" for n
  proof -
    have v: "validate_usage (used n) False = Inr (used n)"
      using assms(1) [of n] unfolding usage_ok_def by (rule validate_usage_weaken)
    have "cost_enabled b \<longrightarrow> ru_cost_usd (used n) \<noteq> None"
      using assms(1) [of n] by (simp add: usage_ok_def validate_usage_iff)
    then show ?thesis by (auto simp: seed_usage_def ce v)
  qed
  have "mapM (seed_usage ?b) ns = Inr (map used ns)" for ns
    by (induction ns) (simp_all add: seed)
  moreover have "the (map_of (zip budget_nodes (map used budget_nodes)) n) = used n" for n
    by (simp add: map_of_zip_map)
  moreover have "snapshot_of ?b [] used (usage_zero (cost_enabled b)) None =
      Inr (s\<lparr>bs_last_observed_usage := usage_zero (cost_enabled b)\<rparr>)"
    using snapshot_of_observed [OF assms(3)] by (subst snapshot_of_cong [where sts' = "[]"]) simp_all
  ultimately show ?thesis using assms(2) by (simp add: new_accountant_def Let_def ce)
qed

section \<open>The validators raise ValueError only\<close>

definition only_value :: "exc + 'a \<Rightarrow> bool" where
  "only_value m \<longleftrightarrow> (\<forall>e. m = Inl e \<longrightarrow> (\<exists>s. e = ValueError s))"

lemma only_valueD: "only_value m \<Longrightarrow> m = Inl e \<Longrightarrow> \<exists>s. e = ValueError s"
  by (simp add: only_value_def)

lemma only_value_Inl [simp]: "only_value (Inl (ValueError s))"
  and only_value_Inr [simp]: "only_value (Inr x)"
  by (simp_all add: only_value_def)

lemma only_value_bind: "only_value m \<Longrightarrow> (\<And>x. only_value (f x)) \<Longrightarrow> only_value (rbind m f)"
  by (cases m) (auto simp: only_value_def)

lemma only_value_foldM: "(\<And>s x. only_value (f s x)) \<Longrightarrow> only_value (foldM f s xs)"
  by (induction xs arbitrary: s) (auto intro: only_value_bind)

lemma only_value_mk_usage: "only_value (mk_usage u)"
  by (simp add: mk_usage_def validate_totals_def)

lemma only_value_add: "only_value (add_usage ce l r)"
  by (simp add: add_usage_def only_value_mk_usage)

lemma only_value_validate: "only_value (validate_usage u k)"
  by (simp add: validate_usage_def only_value_mk_usage split: option.split)

lemma only_value_snapshot_of: "only_value (snapshot_of b sts used obs excl)"
  unfolding snapshot_of_def Let_def used_totals_def reserved_totals_def
  by (intro only_value_bind only_value_foldM only_value_add)
    (simp_all add: mk_snapshot_def mk_estimate_def)

lemma only_value_snapshot: "only_value (snapshot a)"
  by (simp add: snapshot_def only_value_snapshot_of)

lemma lift_exc_Inl: "lift_exc m = Inl e \<longleftrightarrow> (\<exists>x. m = Inl x \<and> e = BudgetError x)"
  by (cases m) auto

section \<open>A worked run\<close>

text \<open>
  A run on the low preset, evaluated by the simplifier: a search is reserved, settled and the
  accountant is checkpointed.  The witnesses of the properties below start from it.
\<close>

lemma used_totals_zero: "used_totals True (\<lambda>_. usage_zero True) = Inr (usage_zero True)"
  by (simp add: used_totals_def budget_nodes_def add_usage_def usage_zero_def mk_usage_def
      validate_totals_def usage_fields_ok_def or_zero_def)

definition zero_estimate :: resource_estimate where
  "zero_estimate = \<lparr>re_search_calls = 0, re_pages = 0, re_tokens = 0, re_wall_seconds = Fin 0,
     re_cost_usd = Some (Fin 0), re_retries = 0\<rparr>"

lemma reserved_totals_none:
  "active_estimates sts excl = [] \<Longrightarrow> reserved_totals True sts excl = Inr zero_estimate"
  by (simp add: reserved_totals_def py_fsum_def mk_estimate_def valid_estimate_def zero_estimate_def)

definition demo_accountant :: accountant where
  "demo_accountant = \<lparr>ac_budget = preset Low, ac_run_scope = ''r'', ac_states = [],
     ac_idempotency_index = Map.empty, ac_used_by_node = (\<lambda>_. usage_zero True),
     ac_last_observed_usage = usage_zero True\<rparr>"

definition demo_estimate :: resource_estimate where
  "demo_estimate = zero_estimate\<lparr>re_search_calls := 1, re_tokens := 100\<rparr>"

definition demo_reservation :: budget_reservation where
  "demo_reservation = \<lparr>br_oid = 7, br_reservation_id = ''r:k'', br_idempotency_key = ''k'',
     br_node = Tool, br_estimate = demo_estimate\<rparr>"

definition demo_state :: reservation_state where
  "demo_state = \<lparr>rs_reservation = demo_reservation, rs_status = Active, rs_terminal_snapshot = None\<rparr>"

definition demo_reserved :: accountant where
  "demo_reserved = demo_accountant\<lparr>ac_states := [(''r:k'', demo_state)],
     ac_idempotency_index := [''k'' \<mapsto> ''r:k'']\<rparr>"

definition demo_usage :: resource_usage where
  "demo_usage = (usage_zero True)\<lparr>ru_search_calls := 1\<rparr>"

lemma demo_snapshot:
  "\<exists>s. snapshot_of (preset Low) [] (\<lambda>_. usage_zero True) (usage_zero True) None = Inr s \<and>
     bs_used_search_calls s = 0 \<and> bs_used_pages s = 0 \<and> bs_used_tokens s = 0 \<and>
     bs_used_retries s = 0 \<and> bs_reserved_search_calls s = 0 \<and> bs_reserved_pages s = 0 \<and>
     bs_reserved_tokens s = 0 \<and> bs_reserved_retries s = 0 \<and> bs_used_wall_seconds s = Fin 0 \<and>
     bs_reserved_wall_seconds s = Fin 0 \<and> bs_used_cost_usd s = Some (Fin 0) \<and>
     bs_reserved_cost_usd s = Some (Fin 0)"
proof -
  have ce: "cost_enabled (preset Low)" by (simp add: cost_enabled_def preset_def)
  have r: "reserved_totals True [] None = Inr zero_estimate"
    by (rule reserved_totals_none) (simp add: active_estimates_def)
  show ?thesis
    by (simp add: snapshot_of_def ce used_totals_zero r mk_snapshot_def valid_snapshot_def
        nonneg_opt_def) (simp add: usage_zero_def zero_estimate_def)
qed

lemma demo_new: "new_accountant (preset Low) ''r'' = Inr demo_accountant"
proof -
  have seed: "seed_usage (preset Low) n = Inr (usage_zero True)" for n
    by (simp add: seed_usage_def preset_def cost_enabled_def usage_zero_def validate_usage_def
        mk_usage_def usage_fields_ok_def validate_totals_def usage_is_zero_def)
  have ce: "cost_enabled (preset Low)" by (simp add: cost_enabled_def preset_def)
  have seeds: "mapM (seed_usage (preset Low)) ns = Inr (map (\<lambda>_. usage_zero True) ns)" for ns
    by (induction ns) (simp_all add: seed)
  obtain s where "snapshot_of (preset Low) [] (\<lambda>_. usage_zero True) (usage_zero True) None = Inr s"
    using demo_snapshot by blast
  then show ?thesis
    by (simp add: new_accountant_def seeds Let_def ce map_of_zip_map demo_accountant_def)
qed

lemma demo_reserve:
  "reserve id 7 demo_accountant demo_estimate ''Tool'' ''k'' = Inr (demo_reservation, demo_reserved)"
proof -
  obtain s where s: "snapshot_of (preset Low) [] (\<lambda>_. usage_zero True) (usage_zero True) None = Inr s"
    "bs_used_search_calls s = 0" "bs_used_pages s = 0" "bs_used_tokens s = 0"
    "bs_used_retries s = 0" "bs_reserved_search_calls s = 0" "bs_reserved_pages s = 0"
    "bs_reserved_tokens s = 0" "bs_reserved_retries s = 0" "bs_used_wall_seconds s = Fin 0"
    "bs_reserved_wall_seconds s = Fin 0" "bs_used_cost_usd s = Some (Fin 0)"
    "bs_reserved_cost_usd s = Some (Fin 0)"
    using demo_snapshot by blast
  have off: "offending_dimensions (preset Low) s demo_estimate = {}"
    using s by (simp add: offending_dimensions_def demo_estimate_def zero_estimate_def preset_def
        opt_lt_def opt_add_def)
  show ?thesis
    using s(1) off
    by (simp add: reserve_def node_of_name_def mk_estimate_def valid_estimate_def snapshot_def
        demo_accountant_def demo_reservation_def demo_reserved_def demo_state_def Let_def)
      (simp add: demo_estimate_def zero_estimate_def)
qed

lemma demo_settles:
  assumes "reserve id 7 demo_accountant est ''Tool'' ''k'' = Inr (r, a1)"
  shows "\<exists>s a'. settle a1 r demo_usage True = Inr (s, a') \<and>
     active_estimates (ac_states a') None = [] \<and>
     ac_used_by_node a' = (\<lambda>n. if n = Tool then demo_usage else usage_zero True) \<and>
     (\<exists>t. snapshot a' = Inr t)"
proof -
  let ?used = "(\<lambda>_. usage_zero True)(Tool := demo_usage)"
  let ?st = "\<lparr>rs_reservation = r, rs_status = Active, rs_terminal_snapshot = None\<rparr>"
  have ce: "cost_enabled (preset Low)" by (simp add: cost_enabled_def preset_def)
  have r: "r = \<lparr>br_oid = 7, br_reservation_id = ''r:k'', br_idempotency_key = ''k'', br_node = Tool, br_estimate = est\<rparr>"
    and a1: "a1 = demo_accountant\<lparr>ac_states := [(''r:k'', ?st)], ac_idempotency_index := [''k'' \<mapsto> ''r:k'']\<rparr>"
    using assms by (auto simp: demo_accountant_def node_of_name_def elim!: reserve_cases)
  have own: "owned_state a1 r = Inr ?st"
    by (simp add: owned_state_Inr a1) (simp add: r)
  have val: "validate_usage demo_usage True = Inr demo_usage"
    by (simp add: validate_usage_def demo_usage_def usage_zero_def mk_usage_def usage_fields_ok_def
        validate_totals_def)
  have add: "add_usage True (usage_zero True) demo_usage = Inr demo_usage"
    by (simp add: add_usage_def demo_usage_def usage_zero_def mk_usage_def usage_fields_ok_def
        validate_totals_def or_zero_def)
  have tot: "used_totals True ?used = Inr demo_usage"
    by (simp add: used_totals_def budget_nodes_def add_usage_def usage_zero_def demo_usage_def
        mk_usage_def validate_totals_def usage_fields_ok_def or_zero_def)
  have none: "reserved_totals True sts excl = Inr zero_estimate"
    if "active_estimates sts excl = []" for sts excl
    using that by (rule reserved_totals_none)
  have snap: "\<exists>s. snapshot_of (preset Low) sts ?used obs excl = Inr s"
    if "active_estimates sts excl = []" for sts excl obs
    using that
    by (simp add: snapshot_of_def ce tot none mk_snapshot_def valid_snapshot_def nonneg_opt_def)
      (simp add: usage_zero_def zero_estimate_def demo_usage_def)
  have act: "active_estimates [(''r:k'', ?st)] (Some ''r:k'') = []"
    "\<And>s. active_estimates [(''r:k'', ?st\<lparr>rs_status := Settled, rs_terminal_snapshot := s\<rparr>)] None = []"
    by (simp_all add: active_estimates_def)
  obtain s where s: "snapshot_of (preset Low) [(''r:k'', ?st)] ?used demo_usage (Some ''r:k'') = Inr s"
    using snap [OF act(1)] by blast
  obtain t where t: "snapshot_of (preset Low)
      [(''r:k'', ?st\<lparr>rs_status := Settled, rs_terminal_snapshot := Some s\<rparr>)] ?used demo_usage None = Inr t"
    using snap [OF act(2)] by blast
  have b: "br_reservation_id r = ''r:k''" "br_node r = Tool" by (simp_all add: r)
  show ?thesis
    using s t act
    by (simp add: settle_def own val add ce snapshot_def b)
      (simp add: a1 demo_accountant_def ce val add active_estimates_def fun_eq_iff)
qed

lemma demo_settle:
  "\<exists>s a'. settle demo_reserved demo_reservation demo_usage True = Inr (s, a') \<and>
     active_estimates (ac_states a') None = [] \<and>
     ac_used_by_node a' = (\<lambda>n. if n = Tool then demo_usage else usage_zero True) \<and>
     (\<exists>t. snapshot a' = Inr t)"
  by (rule demo_settles [OF demo_reserve])

section \<open>Properties\<close>



fun dim_name :: "int_dim \<Rightarrow> budget_dimension" where
  "dim_name DSearch = SearchCalls"
| "dim_name DPages = Pages"
| "dim_name DTokens = Tokens"
| "dim_name DRetries = Retries"



text \<open>
  Settling is idempotent and final.  Once a reservation is settled, every later attempt to
  settle it, with any usage, returns the snapshot of the first settlement and changes nothing,
  whatever happened in between; releasing it is an error.  No work is charged twice.
\<close>

theorem settle_once:
  assumes "acct_inv a" "settle a r u c = Inr (s, a1)"
  shows "settle (acct_run H a1 ops) r u' c' = Inr (s, acct_run H a1 ops) \<and>
    (\<exists>m. release (acct_run H a1 ops) r = Inl (ValueError m))"
proof -
  obtain st where st: "dget (ac_states a1) (br_reservation_id r) = Some st" "rs_reservation st = r"
    "rs_status st = Settled" "rs_terminal_snapshot st = Some s"
    using settle_settled [OF assms(2,1)] by metis
  have "acct_inv a1" using assms by (rule settle_inv)
  from run_keeps [OF this st(1), of H ops] st(3)
  have "dget (ac_states (acct_run H a1 ops)) (br_reservation_id r) = Some st" by auto
  with st have own: "owned_state (acct_run H a1 ops) r = Inr st" by (simp add: owned_state_Inr)
  with st show ?thesis by (simp add: settle_def release_def)
qed

theorem settle_once_witness:
  "\<exists>s a1. settle demo_reserved demo_reservation demo_usage True = Inr (s, a1) \<and>
     settle (acct_run id a1 [OpRelease demo_reservation]) demo_reservation (usage_zero True) False =
       Inr (s, acct_run id a1 [OpRelease demo_reservation])"
proof -
  obtain s a1 where s: "settle demo_reserved demo_reservation demo_usage True = Inr (s, a1)"
    using demo_settle by blast
  have "acct_inv demo_reserved"
    using reserve_inv [OF new_accountant_inv [OF demo_new] demo_reserve] .
  from settle_once [OF this s, of id "[OpRelease demo_reservation]"] s show ?thesis by blast
qed

text \<open>
  Reserving is idempotent.  After a successful reservation, the same key with the same node
  and estimate returns the same reservation object and changes nothing, at any later time, even
  after it was settled or released; the same key with another estimate is an error.
\<close>

theorem reserve_once:
  assumes "acct_inv a" "reserve H oid a est node key = Inr (r, a1)"
  shows "reserve H oid' (acct_run H a1 ops) est node key = Inr (r, acct_run H a1 ops) \<and>
    (valid_estimate est' \<and> est' \<noteq> est \<and> re_cost_usd est' \<noteq> None \<longrightarrow>
      (\<exists>m. reserve H oid' (acct_run H a1 ops) est' node key = Inl (BudgetError (ValueError m))))"
proof -
  have inv: "acct_inv a1" using assms by (rule reserve_inv)
  obtain i st n where idx: "ac_idempotency_index a1 key = Some i" "dget (ac_states a1) i = Some st"
    "rs_reservation st = r" "node_of_name node = Some n" "br_node r = n" "br_estimate r = est"
    using assms(2) by (cases rule: reserve_cases) auto
  obtain st' where st': "dget (ac_states (acct_run H a1 ops)) i = Some st'" "rs_reservation st' = r"
    using run_keeps [OF inv idx(2), of H ops] idx(3) by auto
  have k: "ac_idempotency_index (acct_run H a1 ops) key = Some i"
    using idx(1) by (rule run_keeps_index)
  have key: "key \<noteq> []" using assms(2) by (auto simp: reserve_def split: option.splits if_splits)
  have est: "valid_estimate est"
    using inv idx unfolding acct_inv_def state_ok_def by blast
  have cost: "cost_enabled (ac_budget a1) \<longrightarrow> re_cost_usd est \<noteq> None"
    using inv idx unfolding acct_inv_def state_ok_def by blast
  define A where "A = acct_run H a1 ops"
  have "ac_budget A = ac_budget a1" by (simp add: A_def run_budget)
  with key est cost k [folded A_def] st' [folded A_def] idx
  show ?thesis unfolding A_def [symmetric]
    by (auto simp: reserve_def mk_estimate_def)
qed

theorem reserve_once_witness:
  "reserve id 9 (acct_run id demo_reserved [OpSettle demo_reservation (demo_usage, True)])
     demo_estimate ''Tool'' ''k'' =
   Inr (demo_reservation, acct_run id demo_reserved [OpSettle demo_reservation (demo_usage, True)])"
  using reserve_once [OF new_accountant_inv [OF demo_new] demo_reserve] by blast

text \<open>
  A settlement charges exactly the actual usage to the node of its reservation and to no
  other, and frees the reserved amount; an uncharged settlement frees it and charges nothing.
\<close>

theorem settle_charges_exactly:
  assumes "acct_inv a" "settle a r u c = Inr (s, a1)"
    and "dget (ac_states a) (br_reservation_id r) = Some st" "rs_status st = Active"
  shows "dim_usage d (ac_used_by_node a1 n) =
      dim_usage d (ac_used_by_node a n) + (if c \<and> n = br_node r then dim_usage d u else 0) \<and>
    committed d a1 = committed d a - dim_estimate d (br_estimate r) + (if c then dim_usage d u else 0) \<and>
    dim_used_of d s + dim_reserved_of d s = committed d a1"
proof -
  have "dim_usage d (ac_used_by_node a1 n) =
      dim_usage d (ac_used_by_node a n) + (if c \<and> n = br_node r then dim_usage d u else 0)"
    using assms(2)
  proof (cases rule: settle_cases)
    case (first st' act used)
    then show ?thesis
      using validate_usage_Inr(1) [OF first(4)]
      by (auto simp: tentative_used_def res_simps add_usage_dim split: if_splits)
  qed (use assms in simp)
  moreover have "dim_used_of d s + dim_reserved_of d s = committed d a1"
    using assms(2)
  proof (cases rule: settle_cases)
    case (first st' act used)
    with assms(1) active_exclude_end [of "ac_states a" "br_reservation_id r" st'] show ?thesis
      by (simp add: committed_def reserved_sum_def snapshot_of_dims [OF first(6)] acct_inv_def)
  qed (use assms in simp)
  ultimately show ?thesis using settle_committed [OF assms(2,1,3,4)] by blast
qed

theorem settle_charges_exactly_witness:
  "\<exists>s a1. settle demo_reserved demo_reservation demo_usage True = Inr (s, a1) \<and>
     dim_usage DSearch (ac_used_by_node a1 Tool) = 1"
proof -
  obtain s a1 where s: "settle demo_reserved demo_reservation demo_usage True = Inr (s, a1)"
    using demo_settle by blast
  have inv: "acct_inv demo_reserved"
    using reserve_inv [OF new_accountant_inv [OF demo_new] demo_reserve] .
  have st: "dget (ac_states demo_reserved) (br_reservation_id demo_reservation) = Some demo_state"
    "rs_status demo_state = Active"
    by (simp_all add: demo_reserved_def demo_reservation_def demo_state_def)
  from settle_charges_exactly [OF inv s st, of DSearch Tool] s show ?thesis
    by (simp add: demo_reserved_def demo_accountant_def demo_reservation_def demo_usage_def usage_zero_def)
qed

text \<open>
  A checkpoint loses nothing.  Take a run whose reservations have all been settled or
  released: restoring an accountant from its budget and its snapshot succeeds, and the restored
  accountant has the same usage per node, the same snapshot and no reservation.  The seeds must be
  numbers their types can hold (floats, Decimals of at most 28 digits).
\<close>

theorem snapshot_roundtrip:
  assumes b: "valid_budget b" and new: "new_accountant b scope = Inr a0"
    and seeds: "\<forall>n. rep_usage (ac_used_by_node a0 n) \<and>
      (\<not> cost_enabled b \<longrightarrow> ru_cost_usd (ac_used_by_node a0 n) = None)"
    and idle: "active_estimates (ac_states (acct_run H a0 ops)) None = []"
    and snap: "snapshot (acct_run H a0 ops) = Inr s"
  shows "\<exists>a'. from_snapshot b s scope = Inr a' \<and> snapshot a' = Inr s \<and>
    ac_used_by_node a' = ac_used_by_node (acct_run H a0 ops) \<and> ac_states a' = []"
proof -
  let ?a = "acct_run H a0 ops" and ?used = "ac_used_by_node (acct_run H a0 ops)"
  let ?b = "b\<lparr>rb_used_by_node := (\<lambda>n. Some (?used n))\<rparr>"
  obtain s0 where a0: "ac_budget a0 = b" "scope \<noteq> []"
    "snapshot_of b [] (ac_used_by_node a0) (usage_zero (cost_enabled b)) None = Inr s0"
    "ac_states a0 = []" "ac_last_observed_usage a0 = usage_zero (cost_enabled b)"
    using new by (rule new_accountant_cases) blast
  have inv0: "acct_inv a0" using new by (rule new_accountant_inv)
  have inv: "acct_inv ?a" using acct.run_ops_inv [OF inv0] by blast
  have bud: "ac_budget ?a = b" using a0(1) by (simp add: run_budget)
  have "grown (ac_used_by_node a0) ?a"
    using seeds a0(1) rewinds_refl inv0 by (intro run_grown) (simp_all add: grown_def)
  then have grow: "\<not> rewinds (?used n) (ac_used_by_node a0 n)" for n by (simp add: grown_def)
  have ok: "usage_ok b (?used n)" for n using inv bud by (simp add: acct_inv_def)
  then have vu: "valid_usage (?used n)" for n by (simp add: usage_ok_def validate_usage_iff)
  have vb: "valid_budget ?b" using b vu by (simp add: valid_budget_def budget_nodes_def)
  have snap': "snapshot_of b [] ?used (ac_last_observed_usage ?a) None = Inr s"
  proof -
    have "active_estimates (ac_states ?a) None = active_estimates [] None"
      using idle by (simp add: active_estimates_def)
    from snapshot_of_cong [OF this, where b = b and f = "rb_used_by_node b"] snap bud
    show ?thesis by (simp add: snapshot_def)
  qed
  have dims: "bs_used_by_node s = ?used" "bs_last_observed_usage s = ac_last_observed_usage ?a"
    "valid_snapshot s" using snapshot_of_dims [OF snap'] by simp_all
  have none: "no_reserved s"
    using snap' by (auto simp: snapshot_of_def Let_def rbind_eq_Inr reserved_totals_def
        active_estimates_def py_fsum_def mk_estimate_def mk_snapshot_def no_reserved_def split: if_splits)
  have obs: "validate_usage (ac_last_observed_usage ?a) False = Inr (ac_last_observed_usage ?a)"
    using inv by (simp add: acct_inv_def)
  then have obs_valid: "valid_usage (ac_last_observed_usage ?a)" by (simp add: validate_usage_iff)
  have seed: "rbind (new_accountant b scope) snapshot = Inr s0"
    using new a0 by (simp add: snapshot_def)
  have seed_used: "bs_used_by_node s0 = ac_used_by_node a0" using snapshot_of_dims [OF a0(3)] by simp
  have fin: "snapshot_of ?b [] ?used (ac_last_observed_usage ?a) None = Inr s"
    using snap' by (subst snapshot_of_cong [where sts' = "[]"]) simp_all
  show ?thesis
    using b dims vu obs_valid none seed seed_used grow vb obs fin
      new_accountant_seeded [OF ok a0(2) snap']
    by (simp add: from_snapshot_def list_all_iff list_ex_iff mk_run_budget_def Let_def snapshot_def)
qed

theorem snapshot_roundtrip_witness:
  "\<exists>s a'. snapshot (acct_run id demo_accountant
       [OpReserve (7, demo_estimate, ''Tool'', ''k''), OpSettle demo_reservation (demo_usage, True)]) = Inr s \<and>
     from_snapshot (preset Low) s ''r'' = Inr a' \<and>
     ac_used_by_node a' Tool = demo_usage"
proof -
  let ?ops = "[OpReserve (7, demo_estimate, ''Tool'', ''k''), OpSettle demo_reservation (demo_usage, True)]"
  obtain t a1 s where t: "settle demo_reserved demo_reservation demo_usage True = Inr (t, a1)"
    "active_estimates (ac_states a1) None = []"
    "ac_used_by_node a1 = (\<lambda>n. if n = Tool then demo_usage else usage_zero True)" "snapshot a1 = Inr s"
    using demo_settle by blast
  have run: "acct_run id demo_accountant ?ops = a1" using t(1) by (simp add: keep_def demo_reserve)
  have "rep_usage (ac_used_by_node demo_accountant n) \<and> cost_enabled (preset Low)" for n
    by (simp add: rep_usage_def demo_accountant_def usage_zero_def cost_enabled_def preset_def)
  with snapshot_roundtrip [OF valid_preset demo_new, of id ?ops s] t run show ?thesis by auto
qed

text \<open>
  Internal errors cannot happen.  In every state an accountant reaches, \<open>reserve\<close> never
  raises KeyError on its own tables, and \<open>settle\<close> and \<open>release\<close> never find a finished reservation
  without its terminal snapshot (the RuntimeError of the code).
\<close>

theorem no_internal_error:
  assumes "new_accountant b scope = Inr a0" and a: "a = acct_run H a0 ops"
  shows "reserve H oid a est node key \<noteq> Inl (BudgetError (KeyError m)) \<and>
    settle a r u c \<noteq> Inl (RuntimeError m') \<and> release a r \<noteq> Inl (RuntimeError m')"
proof -
  have inv: "acct_inv a"
    using acct.run_ops_inv [OF new_accountant_inv [OF assms(1)]] a by blast
  have idx: "\<exists>st. dget (ac_states a) i = Some st" if "ac_idempotency_index a k = Some i" for k i
    using inv that unfolding acct_inv_def by blast
  have ok: "rs_status st = Active \<longleftrightarrow> rs_terminal_snapshot st = None" if "owned_state a r = Inr st" for st
    using inv that unfolding acct_inv_def state_ok_def owned_state_Inr by blast
  have res: "reserve H oid a est node key \<noteq> Inl (BudgetError (KeyError m))"
  proof
    assume "reserve H oid a est node key = Inl (BudgetError (KeyError m))"
    then show False
      using idx [of key] only_valueD [OF only_value_snapshot, of a "KeyError m"]
      by (auto simp: reserve_def rbind_eq_Inl Let_def mk_estimate_def lift_exc_Inl
          split: option.splits if_splits)
  qed
  have own: "owned_state a r \<noteq> Inl (RuntimeError m')"
    by (auto simp: owned_state_def split: option.splits)
  have sett: "settle a r u c \<noteq> Inl (RuntimeError m')"
  proof
    assume "settle a r u c = Inl (RuntimeError m')"
    with own show False
      using ok only_valueD [OF only_value_validate, of u "cost_enabled (ac_budget a) \<and> c" "RuntimeError m'"]
        only_valueD [OF only_value_add, of _ _ _ "RuntimeError m'"]
        only_valueD [OF only_value_snapshot_of, of _ _ _ _ _ "RuntimeError m'"]
      by (auto simp: settle_def rbind_eq_Inl split: reservation_status.splits option.splits if_splits)
        (use reservation_status.exhaust in blast)+
  qed
  have rel: "release a r \<noteq> Inl (RuntimeError m')"
  proof
    assume "release a r = Inl (RuntimeError m')"
    with own show False
      using ok only_valueD [OF only_value_snapshot_of, of _ _ _ _ _ "RuntimeError m'"]
      by (auto simp: release_def rbind_eq_Inl split: reservation_status.splits option.splits)
        (use reservation_status.exhaust in blast)+
  qed
  from res sett rel show ?thesis by blast
qed

theorem no_internal_error_witness:
  "settle demo_accountant demo_reservation demo_usage True \<noteq> Inl (RuntimeError ''x'')
    \<and> \<not> isl (reserve id 7 demo_accountant demo_estimate ''Tool'' ''k'')"
  using no_internal_error [OF demo_new, of demo_accountant id "[]"] by (simp add: demo_reserve)

end
