(* ===== verification/Domain.thy ===== *)
theory Domain
  imports Usage
begin

text \<open>
  The domain model (\<^verbatim>\<open>src/src/deepresearch/domain/\<close>: enums, locators, research, evidence,
  events): the frozen pydantic records and the validators that run when one is built.  A
  \<open>valid_\<dots>\<close> predicate is the conjunction of the declared field constraints and validators; an
  URL, a date and a hash are kept as the strings and numbers the code compares.  The dependency
  check of \<^verbatim>\<open>ResearchPlan\<close> is the depth-first search of the code.
\<close>

section \<open>Enumerations (\<^verbatim>\<open>enums.py\<close>)\<close>

datatype run_status = Queued | Running | Interrupted | Completed | Failed | Cancelled

datatype stop_reason = Sufficient | Plateau | BudgetExhausted | Blocked

datatype execution_mode = Live | Replay | Hybrid

datatype access_profile = Showcase | PublicLive | LocalProfile

datatype run_purpose = Demo | Benchmark | TestPurpose

datatype source_type =
    Paper | OfficialDocumentation | Standard | PrimaryData | FirstPartyStatement
  | SecondaryAnalysis | News | UnknownSource

datatype claim_type = Fact | Numeric | Comparison | Trend | Causal | Limitation

datatype verification_status = Supported | Contradicted | Uncertain | Unsupported

section \<open>Locators (\<^verbatim>\<open>locators.py\<close>)\<close>

datatype locator =
    HtmlLocator (paragraph_id: string) (start_char: int) (end_char: int)
  | PdfLocator (page_index: int) (block_index: int) (start_char: int) (end_char: int)

fun valid_locator :: "locator \<Rightarrow> bool" where
  "valid_locator (HtmlLocator p s e) \<longleftrightarrow> p \<noteq> [] \<and> 0 \<le> s \<and> 0 < e \<and> s < e"
| "valid_locator (PdfLocator p b s e) \<longleftrightarrow> 0 \<le> p \<and> 0 \<le> b \<and> 0 \<le> s \<and> 0 < e \<and> s < e"

section \<open>Requests and plans (\<^verbatim>\<open>research.py\<close>)\<close>

text \<open>A date is its proleptic ordinal.\<close>

datatype freshness_kind = FreshNone | PublishedAfter | RetrievedWithinDays

record freshness_requirement =
  fr_kind :: freshness_kind
  fr_published_after :: "int option"
  fr_retrieved_within_days :: "int option"

fun freshness_expected :: "freshness_kind \<Rightarrow> bool \<times> bool" where
  "freshness_expected FreshNone = (False, False)"
| "freshness_expected PublishedAfter = (True, False)"
| "freshness_expected RetrievedWithinDays = (False, True)"

definition valid_freshness :: "freshness_requirement \<Rightarrow> bool" where
  "valid_freshness f \<longleftrightarrow>
     (case fr_retrieved_within_days f of None \<Rightarrow> True | Some n \<Rightarrow> 1 \<le> n) \<and>
     (fr_published_after f \<noteq> None, fr_retrieved_within_days f \<noteq> None) = freshness_expected (fr_kind f)"

record date_range =
  dr_start :: "int option"
  dr_end :: "int option"

definition valid_date_range :: "date_range \<Rightarrow> bool" where
  "valid_date_range r \<longleftrightarrow>
     (case (dr_start r, dr_end r) of (Some s, Some e) \<Rightarrow> \<not> e < s | _ \<Rightarrow> True)"

record research_scope =
  rsc_included_topics :: "string list"
  rsc_excluded_topics :: "string list"
  rsc_date_range :: "date_range option"
  rsc_answer_shape :: string

record information_need =
  in_need_id :: string
  in_text :: string
  in_importance :: pyfloat

record evidence_requirements =
  er_min_independent_sources :: int
  er_allowed_source_types :: "source_type set"
  er_must_include_primary :: bool
  er_freshness :: "freshness_requirement option"

datatype subquestion_status = SqPending | SqActive | SqCovered | SqBlocked

record sub_question =
  sq_id :: string
  sq_question :: string
  sq_rationale_code :: string
  sq_importance :: pyfloat
  sq_dependencies :: "string list"
  sq_information_needs :: "information_need list"
  sq_evidence_requirements :: evidence_requirements
  sq_status :: subquestion_status

definition valid_requirements :: "evidence_requirements \<Rightarrow> bool" where
  "valid_requirements r \<longleftrightarrow>
     1 \<le> er_min_independent_sources r \<and>
     (case er_freshness r of None \<Rightarrow> True | Some f \<Rightarrow> valid_freshness f)"

definition valid_subquestion :: "sub_question \<Rightarrow> bool" where
  "valid_subquestion q \<longleftrightarrow>
     unit (sq_importance q) \<and> list_all (\<lambda>n. unit (in_importance n)) (sq_information_needs q) \<and>
     valid_requirements (sq_evidence_requirements q)"

record research_plan =
  rp_plan_id :: string
  rp_scope :: research_scope
  rp_subquestions :: "sub_question list"
  rp_created_by_model :: string
  rp_prompt_version :: string

text \<open>\<^verbatim>\<open>_require_unique\<close>: the loop over \<open>seen\<close> and \<open>duplicates\<close>.\<close>

fun collect_duplicates :: "string set \<Rightarrow> string set \<Rightarrow> string list \<Rightarrow> string set" where
  "collect_duplicates seen dups [] = dups"
| "collect_duplicates seen dups (v # vs) =
     collect_duplicates (insert v seen) (if v \<in> seen then insert v dups else dups) vs"

definition require_unique :: "string list \<Rightarrow> exc + unit" where
  "require_unique vs =
     (if collect_duplicates {} {} vs \<noteq> {} then Inl (ValueError ''duplicate IDs'') else Inr ())"

text \<open>
  The search: \<open>visiting\<close> holds the path to the current question, \<open>visited\<close> the finished ones.  It
  terminates because every call extends the path by a key of the dependency table.
\<close>

function (sequential)
      visit :: "(string, string list) dict \<Rightarrow> string set \<Rightarrow> string set \<Rightarrow> string \<Rightarrow> exc + string set"
  and visit_all :: "(string, string list) dict \<Rightarrow> string set \<Rightarrow> string set \<Rightarrow> string list \<Rightarrow> exc + string set"
  where
  "visit deps visiting visited x =
     (if x \<in> visiting then Inl (ValueError ''cycle detected in subquestion dependencies'')
      else if x \<in> visited then Inr visited
      else case dget deps x of
        None \<Rightarrow> Inl (KeyError x)
      | Some ds \<Rightarrow> rbind (visit_all deps (insert x visiting) visited ds) (\<lambda>v. Inr (insert x v)))"
| "visit_all deps visiting visited [] = Inr visited"
| "visit_all deps visiting visited (d # ds) =
     rbind (visit deps visiting visited d) (\<lambda>v. visit_all deps visiting v ds)"
  by pat_completeness auto
termination
proof (relation "measures
    [\<lambda>x. case x of Inl (deps, vg, vd, y) \<Rightarrow> card (set (dkeys deps) - vg)
                 | Inr (deps, vg, vd, ys) \<Rightarrow> card (set (dkeys deps) - vg),
     \<lambda>x. case x of Inl _ \<Rightarrow> 0 | Inr (deps, vg, vd, ys) \<Rightarrow> Suc (length ys)]", goal_cases)
  case (2 deps vg vd x ds)
  then have "x \<in> set (dkeys deps)" by (force dest: dget_in_set)
  with 2 have "card (set (dkeys deps) - insert x vg) < card (set (dkeys deps) - vg)"
    by (intro psubset_card_mono) auto
  then show ?case by simp
qed auto

declare visit.simps [simp del]

definition dependency_table :: "research_plan \<Rightarrow> (string, string list) dict" where
  "dependency_table p =
     foldl (\<lambda>d q. dput (sq_id q) (sq_dependencies q) d) [] (rp_subquestions p)"

definition validate_graph :: "research_plan \<Rightarrow> exc + research_plan" where
  "validate_graph p =
     (let ids = map sq_id (rp_subquestions p);
          needs = concat (map (\<lambda>q. map in_need_id (sq_information_needs q)) (rp_subquestions p))
      in rbind (require_unique ids) (\<lambda>_.
         rbind (require_unique needs) (\<lambda>_.
         if list_ex (\<lambda>q. \<not> set (sq_dependencies q) \<subseteq> set ids) (rp_subquestions p)
         then Inl (ValueError ''unknown dependencies'')
         else rbind (visit_all (dependency_table p) {} {} ids) (\<lambda>_. Inr p))))"

definition mk_plan :: "research_plan \<Rightarrow> exc + research_plan" where
  "mk_plan p =
     (if list_all valid_subquestion (rp_subquestions p) \<and>
         (case rsc_date_range (rp_scope p) of None \<Rightarrow> True | Some r \<Rightarrow> valid_date_range r)
      then validate_graph p else Inl (ValueError ''invalid plan field''))"

section \<open>The dependency check decides acyclicity\<close>

definition dep_rel :: "(string, string list) dict \<Rightarrow> (string \<times> string) set" where
  "dep_rel deps = {(x, y). \<exists>ds. dget deps x = Some ds \<and> y \<in> set ds}"

text \<open>The finished set is closed under dependencies and has no cycle.\<close>

definition clean :: "(string, string list) dict \<Rightarrow> string set \<Rightarrow> bool" where
  "clean deps V \<longleftrightarrow> (\<forall>(x, y) \<in> dep_rel deps. x \<in> V \<longrightarrow> y \<in> V) \<and> acyclic (dep_rel deps \<inter> V \<times> V)"

lemma clean_empty [simp]: "clean deps {}"
  by (simp add: clean_def acyclic_def)

lemma clean_insert:
  assumes "clean deps V" "dget deps x = Some ds" "set ds \<subseteq> V"
  shows "clean deps (insert x V)"
proof (cases "x \<in> V")
  case False
  let ?R = "dep_rel deps \<inter> V \<times> V"
  have "dep_rel deps \<inter> insert x V \<times> insert x V \<subseteq> ?R \<union> {x} \<times> V"
    using assms False by (auto simp: dep_rel_def clean_def)
  moreover have "acyclic (?R \<union> {x} \<times> V)"
  proof (rule acyclicI, clarify)
    fix y assume cyc: "(y, y) \<in> (?R \<union> {x} \<times> V)\<^sup>+"
    have in_V: "z \<in> V" if "(y, z) \<in> (?R \<union> {x} \<times> V)\<^sup>+" for y z
      using that by (induction rule: trancl_induct) auto
    have stay: "(y, z) \<in> ?R\<^sup>+" if "(y, z) \<in> (?R \<union> {x} \<times> V)\<^sup>+" "y \<in> V" for y z
      using that
    proof (induction rule: trancl_induct)
      case (base z)
      with False show ?case by auto
    next
      case (step z w)
      with False in_V have "(z, w) \<in> ?R" by blast
      with step show ?case by (meson trancl_into_trancl)
    qed
    from stay [OF cyc in_V [OF cyc]] assms(1) show False by (auto simp: clean_def acyclic_def)
  qed
  ultimately have "acyclic (dep_rel deps \<inter> insert x V \<times> insert x V)" by (rule acyclic_subset [rotated])
  then show ?thesis using assms by (auto simp: clean_def dep_rel_def)
qed (use assms in \<open>simp add: insert_absorb\<close>)

lemma visit_sound:
  "visit deps vg vd x = Inr v \<Longrightarrow> clean deps vd \<Longrightarrow> clean deps v \<and> vd \<subseteq> v \<and> x \<in> v"
  "visit_all deps vg vd xs = Inr v \<Longrightarrow> clean deps vd \<Longrightarrow> clean deps v \<and> vd \<subseteq> v \<and> set xs \<subseteq> v"
proof (induction deps vg vd x and deps vg vd xs arbitrary: v and v rule: visit_visit_all.induct)
  case (1 deps vg vd x)
  show ?case
  proof (cases "x \<in> vd")
    case True
    with 1 show ?thesis by (simp add: visit.simps split: if_splits)
  next
    case False
    with "1.prems"(1) obtain ds w where ds: "x \<notin> vg" "dget deps x = Some ds"
      "visit_all deps (insert x vg) vd ds = Inr w" "v = insert x w"
      by (auto simp: visit.simps res_simps split: if_splits option.splits)
    with "1.IH" [OF ds(1) False ds(2) ds(3) "1.prems"(2)] show ?thesis by (auto intro: clean_insert)
  qed
qed (auto simp: res_simps, blast+)

lemma visit_complete:
  "visit deps vg vd x = Inl e \<Longrightarrow> \<forall>v\<in>vg. (v, x) \<in> (dep_rel deps)\<^sup>+ \<Longrightarrow> x \<in> set (dkeys deps) \<Longrightarrow>
     \<forall>(a, b)\<in>dep_rel deps. b \<in> set (dkeys deps) \<Longrightarrow> \<not> acyclic (dep_rel deps)"
  "visit_all deps vg vd xs = Inl e \<Longrightarrow> \<forall>v\<in>vg. \<forall>x\<in>set xs. (v, x) \<in> (dep_rel deps)\<^sup>+ \<Longrightarrow>
     set xs \<subseteq> set (dkeys deps) \<Longrightarrow>
     \<forall>(a, b)\<in>dep_rel deps. b \<in> set (dkeys deps) \<Longrightarrow> \<not> acyclic (dep_rel deps)"
proof (induction deps vg vd x and deps vg vd xs arbitrary: e and e rule: visit_visit_all.induct)
  case (1 deps vg vd x)
  show ?case
  proof (cases "x \<in> vg")
    case True
    with "1.prems"(2) show ?thesis by (auto simp: acyclic_def)
  next
    case False
    obtain ds where ds: "dget deps x = Some ds" using "1.prems"(3) by (auto dest: weak_map_of_SomeI)
    with False "1.prems"(1) have x: "x \<notin> vd" and e: "visit_all deps (insert x vg) vd ds = Inl e"
      by (auto simp: visit.simps rbind_eq_Inl split: if_splits)
    have edge: "(x, y) \<in> dep_rel deps" if "y \<in> set ds" for y using ds that by (auto simp: dep_rel_def)
    have path: "\<forall>v\<in>insert x vg. \<forall>y\<in>set ds. (v, y) \<in> (dep_rel deps)\<^sup>+"
      using "1.prems"(2) edge by (auto intro: trancl_into_trancl)
    have sub: "set ds \<subseteq> set (dkeys deps)" using "1.prems"(4) edge by blast
    show ?thesis using "1.IH" [OF False x ds e path sub "1.prems"(4)] .
  qed
next
  case (3 deps vg vd d ds)
  then show ?case by (auto simp: rbind_eq_Inl)
qed simp

lemma collect_duplicates_empty:
  "collect_duplicates seen dups vs = {} \<longleftrightarrow> dups = {} \<and> distinct vs \<and> set vs \<inter> seen = {}"
  by (induction vs arbitrary: seen dups) auto

lemma require_unique_Inr: "require_unique vs = Inr u \<longleftrightarrow> distinct vs"
  by (simp add: require_unique_def collect_duplicates_empty)

lemma dependency_table_distinct:
  assumes "distinct (map sq_id (rp_subquestions p))"
  shows "dependency_table p = map (\<lambda>q. (sq_id q, sq_dependencies q)) (rp_subquestions p)"
proof -
  have "foldl (\<lambda>d q. dput (sq_id q) (sq_dependencies q) d) acc qs =
      acc @ map (\<lambda>q. (sq_id q, sq_dependencies q)) qs"
    if "distinct (map sq_id qs)" "set (map sq_id qs) \<inter> set (dkeys acc) = {}" for qs acc
    using that
  proof (induction qs arbitrary: acc)
    case (Cons q qs)
    then have "dget acc (sq_id q) = None" by (auto simp: map_of_eq_None_iff)
    with Cons show ?case by (simp add: dput_new)
  qed simp
  from this [of "rp_subquestions p" "[]"] assms show ?thesis by (simp add: dependency_table_def)
qed

definition plan_edges :: "research_plan \<Rightarrow> (string \<times> string) set" where
  "plan_edges p = {(sq_id q, d) | q d. q \<in> set (rp_subquestions p) \<and> d \<in> set (sq_dependencies q)}"

lemma dep_rel_plan:
  assumes "distinct (map sq_id (rp_subquestions p))"
  shows "dep_rel (dependency_table p) = plan_edges p"
proof -
  let ?t = "map (\<lambda>q. (sq_id q, sq_dependencies q)) (rp_subquestions p)"
  have "distinct (dkeys ?t)" using assms by (simp add: comp_def)
  then have "dget ?t x = Some ds \<longleftrightarrow> (x, ds) \<in> set ?t" for x ds by (rule dget_iff_set)
  then show ?thesis by (auto simp: dependency_table_distinct [OF assms] dep_rel_def plan_edges_def)
qed

lemma validate_graph_iff:
  "validate_graph p = Inr p' \<longleftrightarrow>
     p' = p \<and> distinct (map sq_id (rp_subquestions p)) \<and>
     distinct (concat (map (\<lambda>q. map in_need_id (sq_information_needs q)) (rp_subquestions p))) \<and>
     (\<forall>(x, y) \<in> plan_edges p. y \<in> set (map sq_id (rp_subquestions p))) \<and> acyclic (plan_edges p)"
proof -
  let ?ids = "map sq_id (rp_subquestions p)"
  let ?known = "\<forall>(x, y) \<in> plan_edges p. y \<in> set ?ids"
  have known: "list_ex (\<lambda>q. \<not> set (sq_dependencies q) \<subseteq> set ?ids) (rp_subquestions p) \<longleftrightarrow> \<not> ?known"
    by (auto simp: list_ex_iff plan_edges_def)
  have search: "(\<exists>v. visit_all (dependency_table p) {} {} ?ids = Inr v) \<longleftrightarrow> acyclic (plan_edges p)"
    if dist: "distinct ?ids" and kn: ?known
  proof -
    have rel: "dep_rel (dependency_table p) = plan_edges p" using dist by (rule dep_rel_plan)
    have keys: "set (dkeys (dependency_table p)) = set ?ids"
      by (simp add: dependency_table_distinct [OF dist] comp_def)
    show ?thesis
    proof (cases "visit_all (dependency_table p) {} {} ?ids")
      case (Inl e)
      with visit_complete(2) [OF this] keys rel kn show ?thesis by auto
    next
      case (Inr v)
      from visit_sound(2) [OF this clean_empty] have v: "clean (dependency_table p) v" "set ?ids \<subseteq> v"
        by auto
      have ends: "x \<in> set ?ids \<and> y \<in> set ?ids" if "(x, y) \<in> plan_edges p" for x y
        using bspec [OF kn that] that by (auto simp: plan_edges_def)
      have "plan_edges p \<subseteq> plan_edges p \<inter> v \<times> v"
        by (rule subrelI) (use v(2) ends in blast)
      with v(1) rel have "acyclic (plan_edges p)" by (auto simp: clean_def intro: acyclic_subset)
      with Inr show ?thesis by simp
    qed
  qed
  show ?thesis
    using known search
    by (auto simp: validate_graph_def Let_def rbind_eq_Inr require_unique_Inr split: if_splits)
qed

text \<open>
  C8. A plan is accepted exactly when its question ids and its information-need ids are unique,
  every dependency names a question of the plan, and the dependencies have no cycle: the
  depth-first search of the code decides acyclicity.
\<close>

theorem validate_graph_decides:
  "validate_graph p = Inr p' \<longleftrightarrow>
     p' = p \<and> distinct (map sq_id (rp_subquestions p)) \<and>
     distinct (concat (map (\<lambda>q. map in_need_id (sq_information_needs q)) (rp_subquestions p))) \<and>
     snd ` plan_edges p \<subseteq> set (map sq_id (rp_subquestions p)) \<and> acyclic (plan_edges p)"
  unfolding validate_graph_iff by (simp only: image_subset_iff case_prod_unfold)

end
