(* ===== verification/Json.thy ===== *)
theory Json
  imports Prelude "HOL-Library.List_Lexorder" "HOL-Library.Char_ord" "HOL-Library.Multiset"
begin

text \<open>
  JSON values of the domain model (\<^verbatim>\<open>src/src/deepresearch/domain/research.py\<close>): freezing on
  construction (lists become \<^verbatim>\<open>_FrozenJsonArray\<close>), thawing before validation, and the
  canonical form that serialization emits, with the keys of every object sorted.
\<close>

datatype json =
    JNull
  | JBool bool
  | JInt int
  | JFloat pyfloat
  | JStr string
  | JList "json list"
  | JFrozen "json list"
  | JDict "(string \<times> json) list"

fun freeze_json :: "json \<Rightarrow> json" where
  "freeze_json (JDict kvs) = JDict (map (\<lambda>(k, v). (k, freeze_json v)) kvs)"
| "freeze_json (JList vs) = JFrozen (map freeze_json vs)"
| "freeze_json v = v"

fun thaw_json :: "json \<Rightarrow> json" where
  "thaw_json (JFrozen vs) = JList (map thaw_json vs)"
| "thaw_json (JDict kvs) = JDict (map (\<lambda>(k, v). (k, thaw_json v)) kvs)"
| "thaw_json v = v"

text \<open>\<^verbatim>\<open>{key: f(value[key]) for key in sorted(value)}\<close>\<close>

fun canonical_json :: "json \<Rightarrow> json" where
  "canonical_json (JDict kvs) =
     JDict (sort_key fst (map (\<lambda>(k, v). (k, canonical_json v)) kvs))"
| "canonical_json (JList vs) = JList (map canonical_json vs)"
| "canonical_json (JFrozen vs) = JList (map canonical_json vs)"
| "canonical_json v = v"

text \<open>Input from outside: no frozen array, and every object has distinct keys.\<close>

fun plain_json :: "json \<Rightarrow> bool" where
  "plain_json (JDict kvs) \<longleftrightarrow> distinct (map fst kvs) \<and> (\<forall>(k, v) \<in> set kvs. plain_json v)"
| "plain_json (JList vs) \<longleftrightarrow> (\<forall>v \<in> set vs. plain_json v)"
| "plain_json (JFrozen vs) \<longleftrightarrow> False"
| "plain_json _ \<longleftrightarrow> True"

text \<open>Equality of Python objects: the order of the keys of a dict does not matter.\<close>

inductive json_eq :: "json \<Rightarrow> json \<Rightarrow> bool" where
  je_refl: "json_eq v v"
| je_list: "list_all2 json_eq vs ws \<Longrightarrow> json_eq (JList vs) (JList ws)"
| je_dict: "mset ls = mset kvs \<Longrightarrow>
    list_all2 (\<lambda>p q. fst p = fst q \<and> json_eq (snd p) (snd q)) ls ms \<Longrightarrow>
    json_eq (JDict kvs) (JDict ms)"

lemma thaw_freeze: "plain_json v \<Longrightarrow> thaw_json (freeze_json v) = v"
proof (induction v rule: freeze_json.induct)
  case (1 kvs)
  then show ?case by (auto simp: comp_def case_prod_unfold intro!: map_idI)
next
  case (2 vs)
  then show ?case by (auto intro!: map_idI)
qed simp_all

lemma canonical_freeze: "canonical_json (freeze_json v) = canonical_json v"
proof (induction v rule: freeze_json.induct)
  case (1 kvs)
  have eq: "map ((\<lambda>(k, v). (k, canonical_json v)) \<circ> (\<lambda>(k, v). (k, freeze_json v))) kvs
      = map (\<lambda>(k, v). (k, canonical_json v)) kvs"
    using 1 by (auto intro!: map_cong)
  show ?case by (simp only: freeze_json.simps canonical_json.simps map_map eq)
qed simp_all

lemma mset_short_eq: "mset xs = mset ys \<Longrightarrow> length xs \<le> 1 \<Longrightarrow> xs = ys"
  by (cases xs) auto

lemma sort_key_perm:
  assumes "mset xs = mset ys" "distinct (map f xs)"
  shows "sort_key f xs = sort_key f ys"
proof (rule properties_for_sort_key)
  show "mset (sort_key f ys) = mset xs" using assms(1) by simp
  show "sorted (map f (sort_key f ys))" by simp
  fix k
  have "distinct (map f (sort_key f ys))"
    using assms by (metis mset_eq_imp_distinct_iff mset_map mset_sort)
  moreover have single: "length (filter (\<lambda>x. f k = f x) zs) \<le> 1" if "distinct (map f zs)" for zs
    using that by (induction zs) (auto simp: filter_empty_conv)
  moreover have "mset (filter (\<lambda>x. f k = f x) (sort_key f ys)) = mset (filter (\<lambda>x. f k = f x) xs)"
    using assms(1) by simp
  ultimately show "filter (\<lambda>x. f k = f x) (sort_key f ys) = filter (\<lambda>x. f k = f x) xs"
    by (intro mset_short_eq) blast+
qed

lemma json_eq_canonical: "json_eq v w \<Longrightarrow> plain_json v \<Longrightarrow> canonical_json v = canonical_json w"
proof (induction rule: json_eq.induct)
  case (je_list vs ws)
  then have "map canonical_json vs = map canonical_json ws"
    by (induction rule: list_all2_induct) auto
  then show ?case by simp
next
  case (je_dict ls kvs ms)
  let ?c = "\<lambda>(k, v). (k, canonical_json v)"
  have "set ls = set kvs" using je_dict.hyps by (rule mset_eq_setD)
  then have "\<forall>x \<in> set ls. plain_json (snd x)" using je_dict.prems by auto
  with je_dict.IH have "map ?c ls = map ?c ms"
    by (induction ls ms rule: list_all2_induct) auto
  then have "mset (map ?c kvs) = mset (map ?c ms)" using je_dict.hyps by (metis mset_map)
  moreover have "distinct (map fst (map ?c kvs))"
    using je_dict.prems by (simp add: comp_def case_prod_unfold)
  ultimately show ?case by (simp add: sort_key_perm del: map_map)
qed simp

end
