(* ===== verification/Domain_Evidence.thy ===== *)
theory Domain_Evidence
  imports Domain Json
begin

text \<open>
  Evidence, claims, events and run configuration
  (\<^verbatim>\<open>src/src/deepresearch/domain/evidence.py\<close>, \<^verbatim>\<open>events.py\<close>, \<^verbatim>\<open>research.py\<close>, \<^verbatim>\<open>usage.py\<close>).
  A timestamp is a pair of its UTC offset, when it has one, and its instant in seconds; the
  validators require the offset.
\<close>

section \<open>Evidence (\<^verbatim>\<open>evidence.py\<close>)\<close>

definition lower_hex :: "char list" where
  "lower_hex = ''0123456789abcdef''"

text \<open>\<^verbatim>\<open>re.fullmatch(r"[0-9a-f]{64}", value)\<close>\<close>

definition require_sha256 :: "string \<Rightarrow> exc + string" where
  "require_sha256 v =
     (if length v = 64 \<and> list_all (\<lambda>c. c \<in> set lower_hex) v then Inr v
      else Inl (ValueError ''value must be a lowercase 64-character SHA-256''))"

record timestamp =
  ts_utc_offset :: "int option"
  ts_instant :: rat

definition require_timezone :: "timestamp option \<Rightarrow> exc + timestamp option" where
  "require_timezone t =
     (case t of
        None \<Rightarrow> Inr None
      | Some d \<Rightarrow> if ts_utc_offset d = None then Inl (ValueError ''datetime must be timezone-aware'')
                  else Inr (Some d))"

definition require_finite :: "pyfloat \<Rightarrow> exc + pyfloat" where
  "require_finite v = (if isfinite v then Inr v else Inl (ValueError ''score must be finite''))"

record coverage_ledger_entry =
  cl_subquestion_id :: string
  cl_coverage_score :: pyfloat
  cl_independent_source_count :: int
  cl_unresolved_conflict_ids :: "string list"
  cl_uncertainty_score :: pyfloat
  cl_last_marginal_gain :: pyfloat
  cl_evidence_ids :: "string list"
  cl_attempt_count :: int
  cl_last_decision_code :: string

definition valid_entry :: "coverage_ledger_entry \<Rightarrow> bool" where
  "valid_entry e \<longleftrightarrow>
     unit (cl_coverage_score e) \<and> 0 \<le> cl_independent_source_count e \<and>
     unit (cl_uncertainty_score e) \<and> unit (cl_last_marginal_gain e) \<and> 0 \<le> cl_attempt_count e"

definition mk_entry :: "coverage_ledger_entry \<Rightarrow> exc + coverage_ledger_entry" where
  "mk_entry e = (if valid_entry e then Inr e else Inl (ValueError ''invalid ledger entry''))"

record source_document =
  sd_source_id :: string
  sd_canonical_url :: string
  sd_title :: string
  sd_authors :: "string list"
  sd_published_at :: "timestamp option"
  sd_retrieved_at :: timestamp
  sd_content_hash :: string
  sd_parsed_content_hash :: string
  sd_source_type :: source_type
  sd_source_family_id :: string
  sd_parser_version :: string

definition valid_document :: "source_document \<Rightarrow> bool" where
  "valid_document d \<longleftrightarrow>
     \<not> isl (require_timezone (sd_published_at d)) \<and>
     \<not> isl (require_timezone (Some (sd_retrieved_at d))) \<and>
     \<not> isl (require_sha256 (sd_content_hash d)) \<and> \<not> isl (require_sha256 (sd_parsed_content_hash d))"

record evidence_span =
  es_evidence_id :: string
  es_source_id :: string
  es_locator :: locator
  es_excerpt :: string
  es_excerpt_hash :: string
  es_language :: string
  es_information_need_ids :: "string list"

definition valid_span :: "evidence_span \<Rightarrow> bool" where
  "valid_span e \<longleftrightarrow> valid_locator (es_locator e) \<and> \<not> isl (require_sha256 (es_excerpt_hash e))"

record claim =
  cm_claim_id :: string
  cm_text :: string
  cm_claim_type :: claim_type
  cm_entities :: "string list"
  cm_numbers :: "string list"
  cm_qualifiers :: "string list"
  cm_report_section :: string
  cm_verification_status :: verification_status

datatype relation = Support | Contradict | Context | Insufficient

record claim_evidence_link =
  lk_claim_id :: string
  lk_evidence_id :: string
  lk_relation :: relation
  lk_entailment_score :: pyfloat
  lk_relevance_score :: pyfloat
  lk_judge_model :: string
  lk_prompt_version :: string
  lk_decision_code :: string

definition valid_link :: "claim_evidence_link \<Rightarrow> bool" where
  "valid_link l \<longleftrightarrow> unit (lk_entailment_score l) \<and> unit (lk_relevance_score l)"

record rerank_score =
  rk_evidence_id :: string
  rk_total :: pyfloat
  rk_feature_scores :: "(string, pyfloat) dict"
  rk_model_id :: "string option"
  rk_prompt_version :: "string option"

definition valid_rerank :: "rerank_score \<Rightarrow> bool" where
  "valid_rerank r \<longleftrightarrow> unit (rk_total r) \<and> list_all isfinite (dvalues (rk_feature_scores r))"

text \<open>\<^verbatim>\<open>serialize_feature_scores\<close>: the keys sorted.\<close>

definition serialize_feature_scores :: "rerank_score \<Rightarrow> (string, pyfloat) dict" where
  "serialize_feature_scores r = sort_key fst (rk_feature_scores r)"

section \<open>Events and results (\<^verbatim>\<open>events.py\<close>)\<close>

record run_event =
  ev_seq :: int
  ev_run_id :: string
  ev_timestamp :: timestamp
  ev_node :: string
  ev_kind :: string
  ev_status :: run_status
  ev_public_payload :: "(string \<times> json) list"
  ev_usage_delta :: resource_usage
  ev_artifact_ids :: "string list"
  ev_error_code :: "string option"

text \<open>Thaw, validate, freeze, as the validators of the payload run.\<close>

definition freeze_mapping :: "(string \<times> json) list \<Rightarrow> (string \<times> json) list" where
  "freeze_mapping kvs = map (\<lambda>(k, v). (k, freeze_json v)) kvs"

definition thaw_mapping :: "(string \<times> json) list \<Rightarrow> (string \<times> json) list" where
  "thaw_mapping kvs = map (\<lambda>(k, v). (k, thaw_json v)) kvs"

definition mk_event :: "run_event \<Rightarrow> exc + run_event" where
  "mk_event e =
     rbind (require_timezone (Some (ev_timestamp e))) (\<lambda>_.
     rbind (mk_usage (ev_usage_delta e)) (\<lambda>_.
     Inr (e\<lparr>ev_public_payload := freeze_mapping (thaw_mapping (ev_public_payload e))\<rparr>)))"

definition serialize_payload :: "(string \<times> json) list \<Rightarrow> (string \<times> json) list" where
  "serialize_payload kvs = sort_key fst (map (\<lambda>(k, v). (k, canonical_json v)) kvs)"

record run_result =
  rr_run_id :: string
  rr_thread_id :: string
  rr_status :: run_status
  rr_stop_reason :: "stop_reason option"
  rr_is_partial :: bool
  rr_report_artifact_id :: "string option"
  rr_evidence_graph_artifact_id :: "string option"
  rr_manifest_artifact_id :: "string option"
  rr_final_usage :: resource_usage
  rr_error_code :: "string option"

section \<open>Requests and run configuration (\<^verbatim>\<open>research.py\<close>, \<^verbatim>\<open>usage.py\<close>)\<close>

record research_request =
  rq_question :: string
  rq_output_requirements :: "(string \<times> json) list"
  rq_report_language :: string
  rq_source_languages :: "string list"
  rq_freshness_requirement :: freshness_requirement
  rq_execution_mode :: execution_mode
  rq_access_profile :: access_profile
  rq_provider_profile_id :: string
  rq_run_purpose :: run_purpose
  rq_budget_preset :: budget_preset

definition mk_request :: "research_request \<Rightarrow> exc + research_request" where
  "mk_request r =
     (if valid_freshness (rq_freshness_requirement r)
      then Inr (r\<lparr>rq_output_requirements := freeze_mapping (thaw_mapping (rq_output_requirements r))\<rparr>)
      else Inl (ValueError ''freshness payload does not match kind''))"

datatype workflow_id = BaselineV1 | ResearchV1
datatype planner_id = P0 | P1 | P2
datatype ranker_id = R0 | R1 | R2

record run_config =
  rc_request :: research_request
  rc_workflow_id :: workflow_id
  rc_planner_id :: planner_id
  rc_ranker_id :: ranker_id
  rc_budget :: run_budget
  rc_prompt_versions :: "(string, string) dict"
  rc_ranker_weights_version :: "string option"
  rc_seed :: "int option"

definition require_cost_budget_for_profile :: "run_config \<Rightarrow> exc + run_config" where
  "require_cost_budget_for_profile c =
     (if (rq_access_profile (rc_request c) = PublicLive \<or> rq_run_purpose (rc_request c) = Benchmark) \<and>
         rb_max_cost_usd (rc_budget c) = None
      then Inl (ValueError ''max_cost_usd is required for public_live and benchmark runs'')
      else Inr c)"

definition mk_run_config :: "run_config \<Rightarrow> exc + run_config" where
  "mk_run_config c =
     rbind (mk_run_budget (rc_budget c)) (\<lambda>_. require_cost_budget_for_profile c)"

section \<open>Serialization does not depend on the order of keys\<close>

lemma mk_entry_Inr: "mk_entry e = Inr e' \<longleftrightarrow> e' = e \<and> valid_entry e"
  by (auto simp: mk_entry_def)

lemma freeze_thaw_freeze: "plain_json (JDict kvs) \<Longrightarrow> thaw_mapping (freeze_mapping kvs) = kvs"
  using thaw_freeze [of "JDict kvs"] by (simp add: thaw_mapping_def freeze_mapping_def)

text \<open>
  The payload of an event, and the output requirements of a request, survive freezing: built
  from plain JSON and revalidated any number of times, they thaw back to the same value, and
  their serialized form depends only on the mapping, not on the order in which keys were
  inserted at any level.
\<close>

theorem payload_canonical:
  assumes "plain_json (JDict kvs)" "json_eq (JDict kvs) (JDict kvs')"
  shows "thaw_mapping (freeze_mapping kvs) = kvs \<and>
    freeze_mapping (thaw_mapping (freeze_mapping kvs)) = freeze_mapping kvs \<and>
    serialize_payload (freeze_mapping kvs) = serialize_payload kvs' \<and>
    sorted (map fst (serialize_payload (freeze_mapping kvs)))"
proof -
  have "serialize_payload (freeze_mapping kvs) = serialize_payload kvs"
    using canonical_freeze [of "JDict kvs"] by (simp add: serialize_payload_def freeze_mapping_def)
  also have "\<dots> = serialize_payload kvs'"
    using json_eq_canonical [OF assms(2,1)] by (simp add: serialize_payload_def)
  finally have "serialize_payload (freeze_mapping kvs) = serialize_payload kvs'" .
  moreover have "sorted (map fst (serialize_payload (freeze_mapping kvs)))"
    by (simp add: serialize_payload_def)
  ultimately show ?thesis using freeze_thaw_freeze [OF assms(1)] by simp
qed

theorem payload_canonical_witness:
  "serialize_payload (freeze_mapping [(''b'', JInt 1), (''a'', JList [JNull])]) =
   serialize_payload [(''a'', JList [JNull]), (''b'', JInt 1)]"
proof -
  have "plain_json (JDict [(''b'', JInt 1), (''a'', JList [JNull])])" by simp
  moreover have "json_eq (JDict [(''b'', JInt 1), (''a'', JList [JNull])])
      (JDict [(''a'', JList [JNull]), (''b'', JInt 1)])"
    by (rule je_dict [of "[(''a'', JList [JNull]), (''b'', JInt 1)]"])
      (simp_all add: je_refl add_mset_commute)
  ultimately show ?thesis using payload_canonical by blast
qed

end
