(* ===== verification/Ledger.thy ===== *)
theory Ledger
  imports Domain_Evidence
begin

text \<open>
  The coverage ledger (\<^verbatim>\<open>src/src/deepresearch/planning/ledger.py\<close>): one entry per planned
  subquestion, replaced as evidence comes in.  The ledger is immutable; an update builds and
  revalidates a new one.
\<close>

definition clip :: "pyfloat \<Rightarrow> exc + pyfloat" where
  "clip v = (if isfinite v then Inr (clip01 v) else Inl (ValueError ''value must be finite''))"

record coverage_ledger =
  lg_plan :: research_plan
  lg_entries :: "(string, coverage_ledger_entry) dict"

definition planned_ids :: "research_plan \<Rightarrow> string list" where
  "planned_ids p = map sq_id (rp_subquestions p)"

fun normalize_entries ::
    "(string, coverage_ledger_entry) dict \<Rightarrow> (string, coverage_ledger_entry) dict \<Rightarrow> string list \<Rightarrow>
     exc + (string, coverage_ledger_entry) dict" where
  "normalize_entries entries acc [] = Inr acc"
| "normalize_entries entries acc (i # is) =
     (case dget entries i of
        None \<Rightarrow> Inl (KeyError i)
      | Some e \<Rightarrow>
          if cl_subquestion_id e \<noteq> i then Inl (ValueError ''ledger entry key must match subquestion_id'')
          else normalize_entries entries (dput i e acc) is)"

definition mk_ledger ::
    "research_plan \<Rightarrow> (string, coverage_ledger_entry) dict \<Rightarrow> exc + coverage_ledger" where
  "mk_ledger plan entries =
     (if set (dkeys entries) \<noteq> set (planned_ids plan) \<or> length entries \<noteq> length (planned_ids plan)
      then Inl (ValueError ''entries must contain exactly one item per planned subquestion'')
      else rbind (normalize_entries entries [] (planned_ids plan)) (\<lambda>normalized.
           Inr \<lparr>lg_plan = plan, lg_entries = normalized\<rparr>))"

definition empty_entry :: "string \<Rightarrow> coverage_ledger_entry" where
  "empty_entry i =
     \<lparr>cl_subquestion_id = i, cl_coverage_score = Fin 0, cl_independent_source_count = 0,
      cl_unresolved_conflict_ids = [], cl_uncertainty_score = Fin 1, cl_last_marginal_gain = Fin 0,
      cl_evidence_ids = [], cl_attempt_count = 0, cl_last_decision_code = ''NOT_ATTEMPTED''\<rparr>"

definition empty_for :: "research_plan \<Rightarrow> exc + coverage_ledger" where
  "empty_for plan =
     mk_ledger plan (foldl (\<lambda>d i. dput i (empty_entry i) d) [] (planned_ids plan))"

definition get_entry :: "coverage_ledger \<Rightarrow> string \<Rightarrow> exc + coverage_ledger_entry" where
  "get_entry l i = (case dget (lg_entries l) i of None \<Rightarrow> Inl (KeyError i) | Some e \<Rightarrow> Inr e)"

definition ledger_entries :: "coverage_ledger \<Rightarrow> coverage_ledger_entry list" where
  "ledger_entries l = dvalues (lg_entries l)"

definition weighted_step ::
    "coverage_ledger \<Rightarrow> pyfloat \<times> pyfloat \<Rightarrow> sub_question \<Rightarrow> exc + (pyfloat \<times> pyfloat)" where
  "weighted_step l acc q =
     rbind (get_entry l (sq_id q)) (\<lambda>e.
       Inr (fadd (fst acc) (sq_importance q),
            fadd (snd acc) (fmul (sq_importance q) (cl_coverage_score e))))"

definition weighted_coverage :: "coverage_ledger \<Rightarrow> exc + pyfloat" where
  "weighted_coverage l =
     rbind (foldM (weighted_step l) (Fin 0, Fin 0) (rp_subquestions (lg_plan l)))
       (\<lambda>(importance_total, weighted_total).
          if importance_total = Fin 0 then Inr (Fin 0)
          else clip (fdiv weighted_total importance_total))"

definition replace_entry :: "coverage_ledger \<Rightarrow> coverage_ledger_entry \<Rightarrow> exc + coverage_ledger" where
  "replace_entry l e =
     (if cl_subquestion_id e \<notin> set (dkeys (lg_entries l)) then Inl (KeyError (cl_subquestion_id e))
      else mk_ledger (lg_plan l) (dput (cl_subquestion_id e) e (lg_entries l)))"

text \<open>The loop over the selected evidence: the families seen and the evidence ids.\<close>

fun scan_evidence ::
    "(string \<rightharpoonup> source_document) \<Rightarrow> string list \<Rightarrow> string list \<Rightarrow> evidence_span list \<Rightarrow>
     exc + (string list \<times> string list)" where
  "scan_evidence docs families ids [] = Inr (families, ids)"
| "scan_evidence docs families ids (ev # evs) =
     (case docs (es_source_id ev) of
        None \<Rightarrow> Inl (ValueError ''missing source document'')
      | Some d \<Rightarrow>
          if sd_source_id d \<noteq> es_source_id ev
          then Inl (ValueError ''source document key must match source_id'')
          else scan_evidence docs (families @ [sd_source_family_id d]) (ids @ [es_evidence_id ev]) evs)"

definition conflict_claims :: "claim_evidence_link list \<Rightarrow> string list" where
  "conflict_claims links = map lk_claim_id (filter (\<lambda>l. lk_relation l = Contradict) links)"

definition update_coverage ::
    "coverage_ledger \<Rightarrow> string \<Rightarrow> evidence_span list \<Rightarrow> claim_evidence_link list \<Rightarrow>
     (string \<rightharpoonup> source_document) \<Rightarrow> pyfloat \<Rightarrow> string \<Rightarrow> exc + coverage_ledger" where
  "update_coverage l i selected links docs gain code =
     rbind (get_entry l i) (\<lambda>entry.
     if blank code then Inl (ValueError ''decision_code must be a non-empty string'')
     else
       rbind (scan_evidence docs [] (cl_evidence_ids entry) selected) (\<lambda>(families, ids).
       rbind (clip gain) (\<lambda>g.
       rbind (clip (fadd (cl_coverage_score entry) g)) (\<lambda>score.
       rbind (clip (fsub (Fin 1) score)) (\<lambda>uncertainty.
       rbind (mk_entry (entry\<lparr>
           cl_coverage_score := score,
           cl_independent_source_count :=
             max (cl_independent_source_count entry) (int (length (fromkeys families))),
           cl_unresolved_conflict_ids := fromkeys (cl_unresolved_conflict_ids entry @ conflict_claims links),
           cl_uncertainty_score := uncertainty,
           cl_last_marginal_gain := g,
           cl_evidence_ids := fromkeys ids,
           cl_attempt_count := cl_attempt_count entry + 1,
           cl_last_decision_code := code\<rparr>)) (\<lambda>updated.
       replace_entry l updated))))))"

section \<open>Well-formed ledgers\<close>

text \<open>The constructor's guarantees, with the facts about scores every validated entry has.\<close>

definition wf_ledger :: "coverage_ledger \<Rightarrow> bool" where
  "wf_ledger l \<longleftrightarrow>
     distinct (planned_ids (lg_plan l)) \<and> dkeys (lg_entries l) = planned_ids (lg_plan l) \<and>
     (\<forall>i e. dget (lg_entries l) i = Some e \<longrightarrow>
        cl_subquestion_id e = i \<and> valid_entry e \<and> f64 (cl_coverage_score e))"

lemma normalize_entries_Inr:
  assumes "normalize_entries entries acc is = Inr d" "distinct is" "set is \<inter> set (dkeys acc) = {}"
  shows "dkeys d = dkeys acc @ is \<and> (\<forall>i \<in> set is. dget d i = dget entries i \<and>
      (\<exists>e. dget entries i = Some e \<and> cl_subquestion_id e = i)) \<and>
    (\<forall>i. i \<notin> set is \<longrightarrow> dget d i = dget acc i)"
  using assms
proof (induction entries acc "is" rule: normalize_entries.induct)
  case (2 entries acc i "is")
  then obtain e where e: "dget entries i = Some e" "cl_subquestion_id e = i"
    "normalize_entries entries (dput i e acc) is = Inr d" by (auto split: option.splits if_splits)
  have "dget acc i = None" using "2.prems"(3) by (auto simp: map_of_eq_None_iff)
  then have k: "dkeys (dput i e acc) = dkeys acc @ [i]" by (simp add: dput_new)
  have "\<not> cl_subquestion_id e \<noteq> i" using e by simp
  from "2.IH" [OF e(1) this e(3)] "2.prems"(2,3) k e show ?case by auto
qed simp

lemma normalize_entries_total:
  assumes "\<forall>i\<in>set is. \<exists>e. dget entries i = Some e \<and> cl_subquestion_id e = i"
  shows "\<exists>d. normalize_entries entries acc is = Inr d"
  using assms by (induction entries acc "is" rule: normalize_entries.induct) auto

lemma mk_ledger_Inr:
  assumes "mk_ledger plan entries = Inr l" "distinct (planned_ids plan)"
  shows "lg_plan l = plan \<and> dkeys (lg_entries l) = planned_ids plan \<and>
    dget (lg_entries l) = dget entries \<and>
    (\<forall>i e. dget (lg_entries l) i = Some e \<longrightarrow> cl_subquestion_id e = i)"
proof -
  from assms(1) obtain d where d: "normalize_entries entries [] (planned_ids plan) = Inr d"
    "l = \<lparr>lg_plan = plan, lg_entries = d\<rparr>" "set (dkeys entries) = set (planned_ids plan)"
    by (auto simp: mk_ledger_def res_simps split: if_splits)
  note n = normalize_entries_Inr [OF d(1) assms(2), simplified]
  have "dget d i = dget entries i" for i
  proof (cases "i \<in> set (planned_ids plan)")
    case False
    with n d(3) have "dget entries i = None" by (auto simp: map_of_eq_None_iff)
    with False n show ?thesis by auto
  qed (use n in auto)
  moreover have "cl_subquestion_id e = i" if "dget d i = Some e" for i e
    using n that by (cases "i \<in> set (planned_ids plan)") auto
  ultimately show ?thesis using n d(2) by (simp add: fun_eq_iff)
qed

lemma get_entry_Inr: "get_entry l i = Inr e \<longleftrightarrow> dget (lg_entries l) i = Some e"
  by (auto simp: get_entry_def split: option.splits)

lemma clip_Inr: "clip v = Inr w \<longleftrightarrow> isfinite v \<and> w = clip01 v"
  by (auto simp: clip_def)

lemma dput_dkeys_old: "k \<in> set (dkeys d) \<Longrightarrow> dkeys (dput k v d) = dkeys d"
  by (induction d) auto

lemma replace_entry_Inr:
  assumes "wf_ledger l" "replace_entry l e = Inr l'"
  shows "cl_subquestion_id e \<in> set (planned_ids (lg_plan l)) \<and> lg_plan l' = lg_plan l \<and>
    dkeys (lg_entries l') = dkeys (lg_entries l) \<and>
    dget (lg_entries l') = (dget (lg_entries l))(cl_subquestion_id e \<mapsto> e)"
proof -
  from assms have k: "cl_subquestion_id e \<in> set (dkeys (lg_entries l))"
    and m: "mk_ledger (lg_plan l) (dput (cl_subquestion_id e) e (lg_entries l)) = Inr l'"
    by (auto simp: replace_entry_def split: if_splits)
  have w: "distinct (planned_ids (lg_plan l))" "dkeys (lg_entries l) = planned_ids (lg_plan l)"
    using assms(1) by (simp_all add: wf_ledger_def)
  note n = mk_ledger_Inr [OF m w(1)]
  have "dget (lg_entries l') = (dget (lg_entries l))(cl_subquestion_id e \<mapsto> e)"
    using n dget_dput by metis
  moreover have "cl_subquestion_id e \<in> set (planned_ids (lg_plan l))" using k w(2) by metis
  ultimately show ?thesis using n w(2) by metis
qed

lemma replace_entry_wf:
  assumes "wf_ledger l" "replace_entry l e = Inr l'" "valid_entry e" "f64 (cl_coverage_score e)"
  shows "wf_ledger l'"
  using replace_entry_Inr [OF assms(1,2)] assms by (auto simp: wf_ledger_def)

definition updated_entry :: "coverage_ledger_entry \<Rightarrow> string list \<Rightarrow> string list \<Rightarrow>
    claim_evidence_link list \<Rightarrow> pyfloat \<Rightarrow> string \<Rightarrow> coverage_ledger_entry" where
  "updated_entry entry families ids links gain code =
     (let score = clip01 (fadd (cl_coverage_score entry) (clip01 gain)) in
      entry\<lparr>
        cl_coverage_score := score,
        cl_independent_source_count :=
          max (cl_independent_source_count entry) (int (length (fromkeys families))),
        cl_unresolved_conflict_ids := fromkeys (cl_unresolved_conflict_ids entry @ conflict_claims links),
        cl_uncertainty_score := clip01 (fsub (Fin 1) score),
        cl_last_marginal_gain := clip01 gain,
        cl_evidence_ids := fromkeys ids,
        cl_attempt_count := cl_attempt_count entry + 1,
        cl_last_decision_code := code\<rparr>)"

lemma update_coverage_cases:
  assumes "update_coverage l i selected links docs gain code = Inr l'"
  obtains entry families ids e' where
    "dget (lg_entries l) i = Some entry"
    "scan_evidence docs [] (cl_evidence_ids entry) selected = Inr (families, ids)"
    "isfinite gain" "isfinite (fadd (cl_coverage_score entry) (clip01 gain))"
    "e' = updated_entry entry families ids links gain code"
    "valid_entry e'" "replace_entry l e' = Inr l'" "\<not> blank code"
proof -
  from assms obtain entry where entry: "dget (lg_entries l) i = Some entry" and code: "\<not> blank code"
    by (auto simp: update_coverage_def rbind_eq_Inr get_entry_Inr split: if_splits)
  then have g: "get_entry l i = Inr entry" by (simp add: get_entry_Inr)
  from assms code obtain families ids where
    scan: "scan_evidence docs [] (cl_evidence_ids entry) selected = Inr (families, ids)"
    unfolding update_coverage_def g rbind_Inr by (auto simp: rbind_eq_Inr)
  from assms code obtain cg where cg: "clip gain = Inr cg"
    unfolding update_coverage_def g rbind_Inr scan by (auto simp: rbind_eq_Inr)
  from assms code obtain cs where cs: "clip (fadd (cl_coverage_score entry) cg) = Inr cs"
    unfolding update_coverage_def g rbind_Inr scan by (auto simp: cg rbind_eq_Inr)
  from assms code obtain cu where cu: "clip (fsub (Fin 1) cs) = Inr cu"
    unfolding update_coverage_def g rbind_Inr scan by (auto simp: cg cs rbind_eq_Inr)
  have eqs: "cg = clip01 gain" "isfinite gain" "cs = clip01 (fadd (cl_coverage_score entry) cg)"
    "isfinite (fadd (cl_coverage_score entry) cg)" "cu = clip01 (fsub (Fin 1) cs)"
    using cg cs cu by (simp_all add: clip_Inr)
  from assms code have "rbind (mk_entry (updated_entry entry families ids links gain code)) (replace_entry l) = Inr l'"
    unfolding update_coverage_def g rbind_Inr scan
    by (simp add: cg [unfolded eqs(5,3,1)] cs [unfolded eqs(5,3,1)] cu [unfolded eqs(5,3,1)]
        updated_entry_def Let_def)
  then have "valid_entry (updated_entry entry families ids links gain code)"
    "replace_entry l (updated_entry entry families ids links gain code) = Inr l'"
    by (auto simp: rbind_eq_Inr mk_entry_Inr)
  with entry scan eqs code show thesis by (intro that) simp_all
qed

lemma scan_evidence_Inr:
  assumes "scan_evidence docs fams ids selected = Inr (families, ids')"
  shows "ids' = ids @ map es_evidence_id selected \<and>
    families = fams @ map (\<lambda>ev. sd_source_family_id (the (docs (es_source_id ev)))) selected \<and>
    (\<forall>ev\<in>set selected. \<exists>d. docs (es_source_id ev) = Some d \<and> sd_source_id d = es_source_id ev)"
  using assms
  by (induction docs fams ids selected rule: scan_evidence.induct) (auto split: option.splits if_splits)

lemma update_coverage_wf:
  assumes "wf_ledger l" "update_coverage l i selected links docs gain code = Inr l'"
  shows "wf_ledger l' \<and> lg_plan l' = lg_plan l"
  using assms(2)
proof (cases rule: update_coverage_cases)
  case (1 entry families ids e')
  have "f64 (cl_coverage_score e')"
    using 1(3,4,5) assms(1) 1(1) unfolding updated_entry_def Let_def
    by (cases "cl_coverage_score entry"; cases "clip01 gain") (auto intro!: clip01_f64 f64_fl)
  with replace_entry_wf [OF assms(1) 1(7,6)] replace_entry_Inr [OF assms(1) 1(7)] show ?thesis by simp
qed

text \<open>Every run of updates from the empty ledger.\<close>

inductive ledger_reach :: "research_plan \<Rightarrow> coverage_ledger \<Rightarrow> bool" for p where
  lr_empty: "empty_for p = Inr l \<Longrightarrow> ledger_reach p l"
| lr_update: "ledger_reach p l \<Longrightarrow> update_coverage l i selected links docs gain code = Inr l' \<Longrightarrow>
    ledger_reach p l'"

lemma empty_for_wf:
  assumes "distinct (planned_ids p)"
  shows "\<exists>l. empty_for p = Inr l \<and> wf_ledger l \<and> lg_plan l = p \<and>
    (\<forall>i\<in>set (planned_ids p). dget (lg_entries l) i = Some (empty_entry i))"
proof -
  let ?es = "foldl (\<lambda>d i. dput i (empty_entry i) d) [] (planned_ids p)"
  have es: "foldl (\<lambda>d i. dput i (empty_entry i) d) acc is = acc @ map (\<lambda>i. (i, empty_entry i)) is"
    if "distinct is" "set is \<inter> set (dkeys acc) = {}" for acc :: "(string, coverage_ledger_entry) dict" and "is"
    using that
  proof (induction "is" arbitrary: acc)
    case (Cons i "is")
    then have "dget acc i = None" by (auto simp: map_of_eq_None_iff)
    with Cons show ?case by (simp add: dput_new)
  qed simp
  have d: "?es = map (\<lambda>i. (i, empty_entry i)) (planned_ids p)" using es [OF assms, of "[]"] by simp
  have look: "dget ?es i = (if i \<in> set (planned_ids p) then Some (empty_entry i) else None)" for i
    unfolding d by (simp add: map_of_map_restrict restrict_map_def)
  have id: "cl_subquestion_id (empty_entry i) = i" for i by (simp add: empty_entry_def)
  have val: "valid_entry (empty_entry i)" "f64 (cl_coverage_score (empty_entry i))" for i
    by (simp_all add: empty_entry_def valid_entry_def)
  obtain n where n: "normalize_entries ?es [] (planned_ids p) = Inr n"
    using normalize_entries_total [of "planned_ids p" ?es "[]"] look id by auto
  let ?l = "\<lparr>lg_plan = p, lg_entries = n\<rparr>"
  have l: "mk_ledger p ?es = Inr ?l"
    by (simp add: mk_ledger_def n) (simp add: d comp_def image_image)
  then have e: "empty_for p = Inr ?l" by (simp add: empty_for_def)
  have look': "dget (lg_entries ?l) i = (if i \<in> set (planned_ids p) then Some (empty_entry i) else None)" for i
    using mk_ledger_Inr [OF l assms] look by simp
  have "wf_ledger ?l"
    unfolding wf_ledger_def look' using mk_ledger_Inr [OF l assms] assms val id by (simp split: if_splits)
  with e look' show ?thesis by (intro exI [of _ ?l]) simp
qed

lemma ledger_reach_wf:
  "ledger_reach p l \<Longrightarrow> distinct (planned_ids p) \<Longrightarrow> wf_ledger l \<and> lg_plan l = p"
proof (induction rule: ledger_reach.induct)
  case (lr_empty l)
  with empty_for_wf [of p] show ?case by auto
next
  case (lr_update l i selected links docs gain code l')
  with update_coverage_wf [of l i selected links docs gain code l'] show ?case by auto
qed

section \<open>Weighted coverage\<close>

text \<open>The two running totals stay ordered and small, rounding included.\<close>

lemma rnd_nat: "n < 2 ^ 53 \<Longrightarrow> rnd (of_nat n) = of_nat n"
proof -
  assume "n < 2 ^ 53"
  then have "int n < 2 ^ 53" using of_nat_less_iff [of n "2 ^ 53", where ?'a = int] by simp
  then show ?thesis using rnd_of_int [of "int n"] by simp
qed

lemma fl_between: "0 \<le> r \<Longrightarrow> r \<le> of_nat n \<Longrightarrow> n < 2 ^ 53 \<Longrightarrow> fl r = Fin (rnd r) \<and> 0 \<le> rnd r \<and> rnd r \<le> of_nat n"
proof -
  assume r: "0 \<le> r" "r \<le> of_nat n" "n < 2 ^ 53"
  then have "of_nat n \<le> (2 ^ 53 - 1 :: rat)"
    using of_nat_le_iff [of n "2 ^ 53 - 1", where ?'a = rat] by simp
  with r have "\<bar>r\<bar> \<le> 2 ^ 53 - 1" by simp
  moreover have "rnd r \<le> of_nat n" using rnd_mono [OF r(2)] rnd_nat [OF r(3)] by simp
  ultimately show ?thesis using fl_small rnd_nonneg r(1) by simp
qed

lemma weighted_totals:
  assumes "\<forall>q\<in>set qs. unit (sq_importance q) \<and> f64 (sq_importance q) \<and>
      (\<exists>e. dget (lg_entries l) (sq_id q) = Some e \<and> unit (cl_coverage_score e))"
    and "0 \<le> W" "W \<le> I" "I \<le> of_nat k" "k + length qs < 2 ^ 53"
  shows "\<exists>I' W'. foldM (weighted_step l) (Fin I, Fin W) qs = Inr (Fin I', Fin W') \<and>
    0 \<le> W' \<and> W' \<le> I' \<and> I' \<le> of_nat (k + length qs)"
  using assms
proof (induction qs arbitrary: I W k)
  case (Cons q qs)
  obtain m where m: "sq_importance q = Fin m" "0 \<le> m" "m \<le> 1" "rnd m = m"
    using Cons.prems(1) by (auto elim!: unitE simp: f64_def)
  obtain e s where e: "dget (lg_entries l) (sq_id q) = Some e" "cl_coverage_score e = Fin s" "0 \<le> s" "s \<le> 1"
    using Cons.prems(1) by (auto elim!: unitE)
  have ms: "0 \<le> m * s" "m * s \<le> m" using m e by (simp_all add: mult_left_le)
  with m have prod: "fl (m * s) = Fin (rnd (m * s))" "0 \<le> rnd (m * s)" "rnd (m * s) \<le> m"
    using fl_unit [of "m * s"] rnd_mono [of "m * s" m] by simp_all
  have lt: "Suc k < 2 ^ 53" using Cons.prems(5) by simp
  have I': "fl (I + m) = Fin (rnd (I + m))" "rnd (I + m) \<le> of_nat (Suc k)"
    using fl_between [OF _ _ lt, of "I + m"] Cons.prems m by simp_all
  have W': "fl (W + rnd (m * s)) = Fin (rnd (W + rnd (m * s)))" "0 \<le> rnd (W + rnd (m * s))"
    using fl_between [OF _ _ lt, of "W + rnd (m * s)"] Cons.prems m prod by simp_all
  have ord: "rnd (W + rnd (m * s)) \<le> rnd (I + m)"
    using Cons.prems prod by (intro rnd_mono) simp
  have step: "weighted_step l (Fin I, Fin W) q = Inr (Fin (rnd (I + m)), Fin (rnd (W + rnd (m * s))))"
    using m e prod I' W' by (simp add: weighted_step_def get_entry_def)
  from Cons.IH [of "rnd (W + rnd (m * s))" "rnd (I + m)" "Suc k"] Cons.prems(1,5) W'(2) ord I'(2)
  show ?case by (auto simp: step)
qed simp

lemma weighted_coverage_unit:
  assumes "wf_ledger l" "\<forall>q\<in>set (rp_subquestions (lg_plan l)). unit (sq_importance q) \<and> f64 (sq_importance q)"
    and "length (rp_subquestions (lg_plan l)) < 2 ^ 53"
  shows "\<exists>c. weighted_coverage l = Inr c \<and> unit c"
proof -
  have "\<exists>e. dget (lg_entries l) (sq_id q) = Some e \<and> unit (cl_coverage_score e)"
    if "q \<in> set (rp_subquestions (lg_plan l))" for q
  proof -
    have "sq_id q \<in> set (dkeys (lg_entries l))"
      using assms(1) that unfolding wf_ledger_def planned_ids_def by force
    then obtain e where "dget (lg_entries l) (sq_id q) = Some e" by (auto dest: weak_map_of_SomeI)
    with assms(1) show ?thesis by (auto simp: wf_ledger_def valid_entry_def)
  qed
  with weighted_totals [of "rp_subquestions (lg_plan l)" l 0 0 0] assms(2,3) obtain I W where
    tot: "foldM (weighted_step l) (Fin 0, Fin 0) (rp_subquestions (lg_plan l)) = Inr (Fin I, Fin W)"
    and IW: "0 \<le> W" "W \<le> I" by auto
  show ?thesis
  proof (cases "I = 0")
    case True
    with tot show ?thesis by (simp add: weighted_coverage_def)
  next
    case False
    with IW have "0 \<le> W / I" "W / I \<le> 1" by (simp_all add: divide_le_eq)
    with fl_unit have "fl (W / I) = Fin (rnd (W / I))" "unit (Fin (rnd (W / I)))" by simp_all
    with tot False show ?thesis
      by (simp add: weighted_coverage_def clip_def clip01_unit)
  qed
qed

section \<open>A worked example\<close>

definition demo_requirements :: evidence_requirements where
  "demo_requirements = \<lparr>er_min_independent_sources = 1, er_allowed_source_types = {Paper},
     er_must_include_primary = False, er_freshness = None\<rparr>"

definition demo_question :: sub_question where
  "demo_question = \<lparr>sq_id = ''q'', sq_question = ''Q?'', sq_rationale_code = ''R'',
     sq_importance = Fin 1, sq_dependencies = [],
     sq_information_needs = [\<lparr>in_need_id = ''n'', in_text = ''t'', in_importance = Fin 1\<rparr>],
     sq_evidence_requirements = demo_requirements, sq_status = SqPending\<rparr>"

definition demo_plan :: research_plan where
  "demo_plan = \<lparr>rp_plan_id = ''p'',
     rp_scope = \<lparr>rsc_included_topics = [], rsc_excluded_topics = [], rsc_date_range = None,
                 rsc_answer_shape = ''a''\<rparr>,
     rp_subquestions = [demo_question], rp_created_by_model = ''m'', rp_prompt_version = ''v''\<rparr>"

definition demo_ledger :: coverage_ledger where
  "demo_ledger = \<lparr>lg_plan = demo_plan, lg_entries = [(''q'', empty_entry ''q'')]\<rparr>"

lemma demo_ids [simp]: "planned_ids demo_plan = [''q'']"
  by (simp add: planned_ids_def demo_plan_def demo_question_def)

lemma demo_empty: "empty_for demo_plan = Inr demo_ledger"
  by (simp add: empty_for_def mk_ledger_def demo_ledger_def) (simp add: empty_entry_def)

lemma demo_reach: "ledger_reach demo_plan demo_ledger"
  using demo_empty by (rule lr_empty)

definition demo_covered :: coverage_ledger where
  "demo_covered = \<lparr>lg_plan = demo_plan, lg_entries =
     [(''q'', updated_entry (empty_entry ''q'') [] [] [] (Fin 1) ''c'')]\<rparr>"

lemma clip01_0_1 [simp]: "clip01 (Fin 0) = Fin 0" "clip01 (Fin 1) = Fin 1"
  by (simp_all add: clip01_Fin)

lemma demo_update: "update_coverage demo_ledger ''q'' [] [] Map.empty (Fin 1) ''c'' = Inr demo_covered"
  by (simp add: update_coverage_def get_entry_def demo_ledger_def empty_entry_def clip_def blank_def
      strip_ws_def fsub_def mk_entry_def valid_entry_def replace_entry_def mk_ledger_def
      demo_covered_def updated_entry_def conflict_claims_def Let_def)

section \<open>Properties\<close>

text \<open>
  Recording evidence only ever adds.  In every ledger the program builds, a successful
  update leaves the other subquestions alone; for its own it never lowers the coverage score or
  the count of independent sources, keeps every evidence and conflict id, adds exactly the
  selected evidence and the contradicted claims without duplicates, and counts the attempt.
\<close>

theorem update_coverage_adds:
  assumes "ledger_reach p l" "distinct (planned_ids p)"
    and "update_coverage l i selected links docs gain code = Inr l'"
  shows "\<exists>e e'. dget (lg_entries l) i = Some e \<and> dget (lg_entries l') = (dget (lg_entries l))(i \<mapsto> e') \<and>
    fle (cl_coverage_score e) (cl_coverage_score e') \<and> valid_entry e' \<and>
    cl_independent_source_count e \<le> cl_independent_source_count e' \<and>
    set (cl_evidence_ids e') = set (cl_evidence_ids e) \<union> es_evidence_id ` set selected \<and>
    set (cl_unresolved_conflict_ids e') =
      set (cl_unresolved_conflict_ids e) \<union> {lk_claim_id k | k. k \<in> set links \<and> lk_relation k = Contradict} \<and>
    distinct (cl_evidence_ids e') \<and> distinct (cl_unresolved_conflict_ids e') \<and>
    cl_attempt_count e' = cl_attempt_count e + 1 \<and> cl_last_decision_code e' = code"
proof -
  have wf: "wf_ledger l" using ledger_reach_wf [OF assms(1,2)] by blast
  from assms(3) show ?thesis
  proof (cases rule: update_coverage_cases)
    case (1 entry families ids e')
    have e: "cl_subquestion_id entry = i" "unit (cl_coverage_score entry)" "f64 (cl_coverage_score entry)"
      using wf 1(1) by (auto simp: wf_ledger_def valid_entry_def)
    have sid: "cl_subquestion_id e' = i" using 1(5) e(1) by (simp add: updated_entry_def Let_def)
    have look: "dget (lg_entries l') = (dget (lg_entries l))(i \<mapsto> e')"
      using replace_entry_Inr [OF wf 1(7)] sid by simp
    obtain r where r: "cl_coverage_score entry = Fin r" "rnd r = r" "0 \<le> r" "r \<le> 1"
      using e by (auto simp: f64_def elim!: unitE)
    obtain g where g: "clip01 gain = Fin g" "0 \<le> g" using clip01_unit [OF 1(3)] by (auto elim!: unitE)
    have fin: "fl (r + g) = Fin (rnd (r + g))" using 1(4) r g by (auto simp: fl_def Let_def split: if_splits)
    have "fle (cl_coverage_score entry) (cl_coverage_score e')"
      using 1(5) r g fin rnd_add_ge [OF r(2) g(2)] by (simp add: updated_entry_def Let_def clip01_Fin)
    then show ?thesis
      using 1 look scan_evidence_Inr [OF 1(2)]
      by (intro exI [of _ entry] exI [of _ e'])
        (auto simp: updated_entry_def Let_def conflict_claims_def set_uniq_seen distinct_uniq_seen)
  qed
qed

theorem update_coverage_adds_witness:
  "\<exists>e'. dget (lg_entries demo_covered) ''q'' = Some e' \<and> cl_attempt_count e' = 1"
proof -
  from update_coverage_adds [OF demo_reach _ demo_update] obtain e e' where
    "dget (lg_entries demo_ledger) ''q'' = Some e"
    "dget (lg_entries demo_covered) = (dget (lg_entries demo_ledger))(''q'' \<mapsto> e')"
    "cl_attempt_count e' = cl_attempt_count e + 1" by auto
  then show ?thesis by (auto simp: demo_ledger_def empty_entry_def)
qed

text \<open>
  Weighted coverage is a score: for every ledger the program builds over a valid plan (of
  fewer than 2^53 questions), it is computed without an error and lies between 0 and 1, whatever
  the rounding of the sums and of the quotient.
\<close>

theorem weighted_coverage_is_score:
  assumes "ledger_reach p l" "distinct (planned_ids p)" "list_all valid_subquestion (rp_subquestions p)"
    and "\<forall>q\<in>set (rp_subquestions p). f64 (sq_importance q)" "length (rp_subquestions p) < 2 ^ 53"
  shows "\<exists>c. weighted_coverage l = Inr c \<and> unit c"
  using weighted_coverage_unit [of l] ledger_reach_wf [OF assms(1,2)] assms(3-5)
  by (auto simp: list_all_iff valid_subquestion_def)

theorem weighted_coverage_is_score_witness:
  "\<exists>c. weighted_coverage demo_covered = Inr c \<and> unit c"
  by (rule weighted_coverage_is_score [OF lr_update [OF demo_reach demo_update]])
    (simp_all add: demo_plan_def planned_ids_def demo_question_def demo_requirements_def
      valid_subquestion_def valid_requirements_def)

end
