(* ===== verification/Stop.thy ===== *)
theory Stop
  imports Ledger Budget
begin

text \<open>
  Planner contracts, priority and the stop rules
  (\<^verbatim>\<open>src/src/deepresearch/planning/contracts.py\<close>, \<^verbatim>\<open>priority.py\<close>, \<^verbatim>\<open>stop.py\<close>).  The thresholds
  are the float literals of the source.
\<close>

section \<open>Contracts (\<^verbatim>\<open>contracts.py\<close>)\<close>

definition require_non_empty :: "string \<Rightarrow> exc + unit" where
  "require_non_empty s = require (\<not> blank s) (ValueError ''must be a non-empty string'')"

definition require_non_negative :: "pyfloat \<Rightarrow> exc + unit" where
  "require_non_negative v =
     require (isfinite v \<and> \<not> flt v (Fin 0)) (ValueError ''must be non-negative and finite'')"

record query_candidate =
  qc_subquestion_id :: string
  qc_information_need_id :: string
  qc_query :: string
  qc_priority_hint :: pyfloat
  qc_estimated_tokens :: int
  qc_estimated_search_calls :: int
  qc_estimated_seconds :: pyfloat

definition mk_candidate :: "query_candidate \<Rightarrow> exc + query_candidate" where
  "mk_candidate c =
     rbind (require_non_empty (qc_subquestion_id c)) (\<lambda>_.
     rbind (require_non_empty (qc_information_need_id c)) (\<lambda>_.
     rbind (require_non_empty (qc_query c)) (\<lambda>_.
     rbind (require (unit (qc_priority_hint c))
              (ValueError ''priority_hint must be finite and within [0, 1]'')) (\<lambda>_.
     rbind (require (0 \<le> qc_estimated_tokens c)
              (ValueError ''estimated_tokens must be a non-negative integer'')) (\<lambda>_.
     rbind (require (0 \<le> qc_estimated_search_calls c)
              (ValueError ''estimated_search_calls must be a non-negative integer'')) (\<lambda>_.
     rbind (require_non_negative (qc_estimated_seconds c)) (\<lambda>_. Inr c)))))))"

record blocked_need =
  bn_need_id :: string
  bn_required_source_unavailable :: bool
  bn_alternative_strategies_exhausted :: bool
  bn_retries_used :: int
  bn_max_retries :: int

definition mk_blocked_need :: "blocked_need \<Rightarrow> exc + blocked_need" where
  "mk_blocked_need n =
     rbind (require (\<not> blank (bn_need_id n)) (ValueError ''need_id is required'')) (\<lambda>_.
     rbind (require (0 \<le> bn_max_retries n) (ValueError ''retry counters are invalid'')) (\<lambda>_.
     rbind (require (0 \<le> bn_retries_used n \<and> bn_retries_used n \<le> bn_max_retries n)
              (ValueError ''retry counters are invalid'')) (\<lambda>_. Inr n)))"

definition terminal :: "blocked_need \<Rightarrow> bool" where
  "terminal n \<longleftrightarrow>
     bn_required_source_unavailable n \<and> bn_alternative_strategies_exhausted n \<and>
     bn_max_retries n \<le> bn_retries_used n"

record planner_state =
  ps_plan :: research_plan
  ps_ledger :: coverage_ledger
  ps_budget_snapshot :: budget_snapshot
  ps_blocked_needs :: "blocked_need list"
  ps_round_index :: int
  ps_recent_marginal_gains :: "pyfloat list"
  ps_query_history :: "string list"

definition mk_planner_state :: "planner_state \<Rightarrow> exc + planner_state" where
  "mk_planner_state s =
     rbind (require (0 \<le> ps_round_index s) (ValueError ''round_index must be a non-negative integer'')) (\<lambda>_.
     rbind (mapM require_non_negative (ps_recent_marginal_gains s)) (\<lambda>_.
     rbind (mapM require_non_empty (ps_query_history s)) (\<lambda>_. Inr s)))"

section \<open>Stop decisions (\<^verbatim>\<open>stop.py\<close>)\<close>

definition key_coverage_threshold :: pyfloat where
  "key_coverage_threshold = fl (85 / 100)"

definition overall_coverage_threshold :: pyfloat where
  "overall_coverage_threshold = fl (80 / 100)"

definition plateau_gain_threshold :: pyfloat where
  "plateau_gain_threshold = fl (5 / 100)"

definition high_priority_conflict_threshold :: pyfloat where
  "high_priority_conflict_threshold = fl (70 / 100)"

record stop_decision =
  st_code :: stop_reason
  st_reasons :: "string list"
  st_uncovered_information_needs :: "string list"
  st_is_partial :: bool

definition mk_stop :: "stop_decision \<Rightarrow> exc + stop_decision" where
  "mk_stop d =
     (if st_reasons d = [] then Inl (ValueError ''reasons must be a non-empty tuple'')
      else if list_ex blank (st_reasons d) then Inl (ValueError ''reasons must contain non-empty strings'')
      else if list_ex blank (st_uncovered_information_needs d)
      then Inl (ValueError ''uncovered_information_needs must contain non-empty strings'')
      else Inr d)"

datatype decision_kind = SearchKind | StopKind

record planner_decision =
  pd_kind :: decision_kind
  pd_subquestion_id :: "string option"
  pd_candidates :: "query_candidate list"
  pd_stop :: "stop_decision option"
  pd_decision_code :: string

definition mk_decision :: "planner_decision \<Rightarrow> exc + planner_decision" where
  "mk_decision d =
     rbind (require_non_empty (pd_decision_code d)) (\<lambda>_.
     if pd_kind d = StopKind \<and> (pd_subquestion_id d \<noteq> None \<or> pd_candidates d \<noteq> [] \<or> pd_stop d = None)
     then Inl (ValueError ''STOP decision cannot contain search fields'')
     else if pd_kind d = SearchKind \<and> (pd_subquestion_id d = None \<or> pd_candidates d = [] \<or> pd_stop d \<noteq> None)
     then Inl (ValueError ''SEARCH decision requires search fields'')
     else case pd_subquestion_id d of
       None \<Rightarrow> Inr d
     | Some i \<Rightarrow> rbind (require_non_empty i) (\<lambda>_. Inr d))"

definition question_ready :: "sub_question \<Rightarrow> coverage_ledger_entry \<Rightarrow> bool" where
  "question_ready q e \<longleftrightarrow>
     fle key_coverage_threshold (cl_coverage_score e) \<and>
     er_min_independent_sources (sq_evidence_requirements q) \<le> cl_independent_source_count e"

definition uncovered_step :: "coverage_ledger \<Rightarrow> string list \<Rightarrow> sub_question \<Rightarrow> exc + string list" where
  "uncovered_step l acc q =
     rbind (get_entry l (sq_id q)) (\<lambda>e.
       let sources_ready = er_min_independent_sources (sq_evidence_requirements q)
                             \<le> cl_independent_source_count e
       in if flt (cl_coverage_score e) key_coverage_threshold \<or> \<not> sources_ready
          then Inr (acc @ map in_need_id (sq_information_needs q)) else Inr acc)"

definition uncovered_information_needs :: "coverage_ledger \<Rightarrow> exc + string list" where
  "uncovered_information_needs l =
     rbind (foldM (uncovered_step l) [] (rp_subquestions (lg_plan l))) (\<lambda>us. Inr (fromkeys us))"

text \<open>\<^verbatim>\<open>all\<close> and \<^verbatim>\<open>any\<close> over the planned questions, in order, stopping early.\<close>

fun all_ready :: "coverage_ledger \<Rightarrow> sub_question list \<Rightarrow> exc + bool" where
  "all_ready l [] = Inr True"
| "all_ready l (q # qs) =
     rbind (get_entry l (sq_id q)) (\<lambda>e. if question_ready q e then all_ready l qs else Inr False)"

fun any_conflict :: "coverage_ledger \<Rightarrow> sub_question list \<Rightarrow> exc + bool" where
  "any_conflict l [] = Inr False"
| "any_conflict l (q # qs) =
     rbind (get_entry l (sq_id q)) (\<lambda>e.
       if cl_unresolved_conflict_ids e \<noteq> [] \<and> fle high_priority_conflict_threshold (sq_importance q)
       then Inr True else any_conflict l qs)"

definition ledger_meets_sufficient :: "coverage_ledger \<Rightarrow> exc + bool" where
  "ledger_meets_sufficient l =
     rbind (weighted_coverage l) (\<lambda>c.
       if flt c overall_coverage_threshold then Inr False
       else all_ready l (rp_subquestions (lg_plan l)))"

definition high_priority_conflicts :: "coverage_ledger \<Rightarrow> exc + bool" where
  "high_priority_conflicts l = any_conflict l (rp_subquestions (lg_plan l))"

definition low_gain_rounds :: "pyfloat list \<Rightarrow> bool" where
  "low_gain_rounds gains \<longleftrightarrow>
     2 \<le> length gains \<and> list_all (\<lambda>g. flt g plateau_gain_threshold) (drop (length gains - 2) gains)"

definition decide :: "stop_reason \<Rightarrow> string \<Rightarrow> string list \<Rightarrow> bool \<Rightarrow> exc + stop_decision option" where
  "decide code reason uncovered partial =
     rbind (mk_stop \<lparr>st_code = code, st_reasons = [reason],
                     st_uncovered_information_needs = uncovered, st_is_partial = partial\<rparr>)
       (\<lambda>d. Inr (Some d))"

definition evaluate_stop ::
    "planner_state \<Rightarrow> budget_snapshot \<Rightarrow> blocked_need list \<Rightarrow> exc + stop_decision option" where
  "evaluate_stop state snap blocked =
     rbind (uncovered_information_needs (ps_ledger state)) (\<lambda>uncovered.
     if bs_exhausted snap \<noteq> {} then decide BudgetExhausted ''hard_budget_limit'' uncovered True
     else
       let terminal_blocked = fromkeys (sort (map bn_need_id (filter terminal blocked))) in
       if terminal_blocked \<noteq> []
       then decide Blocked ''required_source_and_alternatives_exhausted'' terminal_blocked True
       else
         rbind (ledger_meets_sufficient (ps_ledger state)) (\<lambda>sufficient.
         rbind (if sufficient then high_priority_conflicts (ps_ledger state) else Inr False) (\<lambda>conflict.
         if sufficient \<and> \<not> conflict then decide Sufficient ''coverage_thresholds_met'' [] False
         else if low_gain_rounds (ps_recent_marginal_gains state)
         then decide Plateau ''two_low_gain_rounds'' uncovered True
         else Inr None)))"

section \<open>Priority (\<^verbatim>\<open>priority.py\<close>)\<close>

definition priority_epsilon :: pyfloat where
  "priority_epsilon = fl (5 / 100)"

text \<open>Three- and four-term weighted sums, left to right, as the expressions associate.\<close>

definition expected_gain :: "pyfloat \<Rightarrow> pyfloat \<Rightarrow> pyfloat \<Rightarrow> pyfloat \<Rightarrow> pyfloat" where
  "expected_gain g n c h =
     fadd (fadd (fadd (fmul (fl (40 / 100)) g) (fmul (fl (25 / 100)) n)) (fmul (fl (20 / 100)) c))
       (fmul (fl (15 / 100)) h)"

definition compute_priority ::
    "pyfloat \<Rightarrow> pyfloat \<Rightarrow> pyfloat \<Rightarrow> pyfloat \<Rightarrow> pyfloat \<Rightarrow> pyfloat \<Rightarrow> pyfloat \<Rightarrow> pyfloat \<Rightarrow> pyfloat \<Rightarrow>
     exc + pyfloat" where
  "compute_priority importance coverage_score new_source_need conflict_resolution_need
     token_fraction search_fraction time_fraction recent_gain historical_success =
     rbind (clip recent_gain) (\<lambda>g.
     rbind (clip new_source_need) (\<lambda>n.
     rbind (clip conflict_resolution_need) (\<lambda>c.
     rbind (clip historical_success) (\<lambda>h.
     rbind (clip token_fraction) (\<lambda>t.
     rbind (clip search_fraction) (\<lambda>s.
     rbind (clip time_fraction) (\<lambda>w.
     rbind (clip (fadd (fadd (fmul (fl (50 / 100)) t) (fmul (fl (30 / 100)) s)) (fmul (fl (20 / 100)) w))) (\<lambda>cost.
     rbind (clip importance) (\<lambda>i.
     rbind (clip coverage_score) (\<lambda>cov.
     Inr (fdiv (fmul (fmul i (fsub (Fin 1) cov)) (expected_gain g n c h))
               (fadd cost priority_epsilon))))))))))))"

section \<open>Priority: bounds and monotonicity\<close>

lemma fl_le: "0 \<le> x \<Longrightarrow> x \<le> y \<Longrightarrow> y \<le> 1000 \<Longrightarrow> fl x = Fin (rnd x) \<and> 0 \<le> rnd x \<and> rnd x \<le> rnd y"
  by (auto intro!: fl_small rnd_nonneg rnd_mono)

lemma fl_lit: "0 \<le> x \<Longrightarrow> x \<le> 1000 \<Longrightarrow> fl x = Fin (rnd x)"
  using fl_le [of x x] by simp

lemma rnd_lits:
  "rnd (40 / 100) = 3602879701896397 / 9007199254740992"
  "rnd (25 / 100) = 1 / 4"
  "rnd (20 / 100) = 3602879701896397 / 18014398509481984"
  "rnd (15 / 100) = 5404319552844595 / 36028797018963968"
  "rnd (5 / 100) = 3602879701896397 / 72057594037927936"
  by code_simp+

text \<open>The sum of the four weights in float arithmetic.\<close>

lemma weights_sum:
  "rnd (rnd (rnd (rnd (40 / 100) + rnd (25 / 100)) + rnd (20 / 100)) + rnd (15 / 100)) = 1"
  by code_simp

lemma inverse_epsilon: "rnd (1 / rnd (5 / 100)) = 20"
  by code_simp

definition gain_rat :: "rat \<Rightarrow> rat \<Rightarrow> rat \<Rightarrow> rat \<Rightarrow> rat" where
  "gain_rat g n c h =
     rnd (rnd (rnd (rnd (rnd (40 / 100) * g) + rnd (rnd (25 / 100) * n)) + rnd (rnd (20 / 100) * c)) +
          rnd (rnd (15 / 100) * h))"

text \<open>Arithmetic on small non-negative values never overflows and keeps an upper bound.\<close>

lemma fadd_small:
  "0 \<le> a \<Longrightarrow> a \<le> x \<Longrightarrow> 0 \<le> b \<Longrightarrow> b \<le> y \<Longrightarrow> x + y \<le> 1000 \<Longrightarrow>
   fadd (Fin a) (Fin b) = Fin (rnd (a + b)) \<and> 0 \<le> rnd (a + b) \<and> rnd (a + b) \<le> rnd (x + y)"
  using fl_le [of "a + b" "x + y"] by simp

lemma fmul_small:
  "0 \<le> a \<Longrightarrow> a \<le> 1000 \<Longrightarrow> 0 \<le> b \<Longrightarrow> b \<le> 1 \<Longrightarrow>
   fmul (Fin a) (Fin b) = Fin (rnd (a * b)) \<and> 0 \<le> rnd (a * b) \<and> rnd (a * b) \<le> rnd a"
  using fl_le [of "a * b" a] by (simp add: mult_left_le)

lemma fmul_weight:
  assumes "0 \<le> w" "w \<le> 1" "0 \<le> b" "b \<le> 1"
  shows "fmul (fl w) (Fin b) = Fin (rnd (rnd w * b)) \<and> 0 \<le> rnd (rnd w * b) \<and> rnd (rnd w * b) \<le> rnd w"
proof -
  have "rnd w \<le> 1000" using rnd_le_1 [of w] assms by linarith
  then show ?thesis
    using fmul_small [of "rnd w" b] fl_lit [of w] assms rnd_nonneg [of w] by simp
qed

lemma weights_small:
  "rnd (40 / 100) + rnd (25 / 100) \<le> 1000"
  "rnd (rnd (40 / 100) + rnd (25 / 100)) + rnd (20 / 100) \<le> 1000"
  "rnd (rnd (rnd (40 / 100) + rnd (25 / 100)) + rnd (20 / 100)) + rnd (15 / 100) \<le> 1000"
  by code_simp+

lemma gain_rat_bounds:
  assumes "0 \<le> g" "g \<le> 1" "0 \<le> n" "n \<le> 1" "0 \<le> c" "c \<le> 1" "0 \<le> h" "h \<le> 1"
  shows "expected_gain (Fin g) (Fin n) (Fin c) (Fin h) = Fin (gain_rat g n c h) \<and>
         0 \<le> gain_rat g n c h \<and> gain_rat g n c h \<le> 1"
proof -
  define a where "a = rnd (rnd (40 / 100) * g)"
  define b where "b = rnd (rnd (25 / 100) * n)"
  define c' where "c' = rnd (rnd (20 / 100) * c)"
  define d where "d = rnd (rnd (15 / 100) * h)"
  have w: "(0::rat) \<le> 40 / 100" "(40::rat) / 100 \<le> 1" "(0::rat) \<le> 25 / 100" "(25::rat) / 100 \<le> 1"
    "(0::rat) \<le> 20 / 100" "(20::rat) / 100 \<le> 1" "(0::rat) \<le> 15 / 100" "(15::rat) / 100 \<le> 1"
    by simp_all
  have ma: "fmul (fl (40 / 100)) (Fin g) = Fin a" "0 \<le> a" "a \<le> rnd (40 / 100)"
    using fmul_weight [OF w(1,2) assms(1,2)] unfolding a_def by blast+
  have mb: "fmul (fl (25 / 100)) (Fin n) = Fin b" "0 \<le> b" "b \<le> rnd (25 / 100)"
    using fmul_weight [OF w(3,4) assms(3,4)] unfolding b_def by blast+
  have mc: "fmul (fl (20 / 100)) (Fin c) = Fin c'" "0 \<le> c'" "c' \<le> rnd (20 / 100)"
    using fmul_weight [OF w(5,6) assms(5,6)] unfolding c'_def by blast+
  have md: "fmul (fl (15 / 100)) (Fin h) = Fin d" "0 \<le> d" "d \<le> rnd (15 / 100)"
    using fmul_weight [OF w(7,8) assms(7,8)] unfolding d_def by blast+
  note s1 = fadd_small [OF ma(2,3) mb(2,3) weights_small(1)]
  note s2 = fadd_small [OF conjunct1 [OF conjunct2 [OF s1]] conjunct2 [OF conjunct2 [OF s1]]
      mc(2,3) weights_small(2)]
  note s3 = fadd_small [OF conjunct1 [OF conjunct2 [OF s2]] conjunct2 [OF conjunct2 [OF s2]]
      md(2,3) weights_small(3)]
  have "gain_rat g n c h = rnd (rnd (rnd (a + b) + c') + d)"
    unfolding gain_rat_def a_def b_def c'_def d_def ..
  then show ?thesis
    using s1 s2 s3 unfolding weights_sum expected_gain_def ma(1) mb(1) mc(1) md(1) by simp
qed

end
