(* ===== verification/Stop_Correct.thy ===== *)
theory Stop_Correct
  imports Stop
begin

text \<open>
  What the priority formula and the stop rules guarantee: the priority of a query is bounded and
  moves the right way with each of its inputs under float rounding, and the stop rules decide
  with the precedence the planner documents.
\<close>

section \<open>Priority\<close>

text \<open>The exact value of the formula on clipped inputs, every intermediate result rounded.\<close>

definition cost_rat :: "rat \<Rightarrow> rat \<Rightarrow> rat \<Rightarrow> rat" where
  "cost_rat t s w =
     min 1 (rnd (rnd (rnd (rnd (50 / 100) * t) + rnd (rnd (30 / 100) * s)) + rnd (rnd (20 / 100) * w)))"

definition prio_rat :: "rat \<Rightarrow> rat \<Rightarrow> rat \<Rightarrow> rat \<Rightarrow> rat" where
  "prio_rat i cov gain cost = rnd (rnd (rnd (i * rnd (1 - cov)) * gain) / rnd (cost + rnd (5 / 100)))"

definition cl01 :: "rat \<Rightarrow> rat" where
  "cl01 r = min 1 (max 0 r)"

lemma cl01_bounds [simp]: "0 \<le> cl01 r" "cl01 r \<le> 1"
  by (simp_all add: cl01_def)

lemma cl01_mono: "a \<le> b \<Longrightarrow> cl01 a \<le> cl01 b"
  by (auto simp: cl01_def min_def max_def)

lemma clip_Fin [simp]: "clip (Fin r) = Inr (Fin (cl01 r))"
  by (simp add: clip_def clip01_Fin cl01_def)

lemma cost_weights:
  "rnd (50 / 100) + rnd (30 / 100) \<le> 1000"
  "rnd (rnd (50 / 100) + rnd (30 / 100)) + rnd (20 / 100) \<le> 1000"
  by code_simp+

lemma cost_Fin:
  assumes "0 \<le> t" "t \<le> 1" "0 \<le> s" "s \<le> 1" "0 \<le> w" "w \<le> 1"
  shows "clip (fadd (fadd (fmul (fl (50 / 100)) (Fin t)) (fmul (fl (30 / 100)) (Fin s)))
           (fmul (fl (20 / 100)) (Fin w))) = Inr (Fin (cost_rat t s w)) \<and>
         0 \<le> cost_rat t s w \<and> cost_rat t s w \<le> 1"
proof -
  define a where "a = rnd (rnd (50 / 100) * t)"
  define b where "b = rnd (rnd (30 / 100) * s)"
  define c where "c = rnd (rnd (20 / 100) * w)"
  have l: "(0::rat) \<le> 50 / 100" "(50::rat) / 100 \<le> 1" "(0::rat) \<le> 30 / 100" "(30::rat) / 100 \<le> 1"
    "(0::rat) \<le> 20 / 100" "(20::rat) / 100 \<le> 1" by simp_all
  have ma: "fmul (fl (50 / 100)) (Fin t) = Fin a" "0 \<le> a" "a \<le> rnd (50 / 100)"
    using fmul_weight [OF l(1,2) assms(1,2)] unfolding a_def by blast+
  have mb: "fmul (fl (30 / 100)) (Fin s) = Fin b" "0 \<le> b" "b \<le> rnd (30 / 100)"
    using fmul_weight [OF l(3,4) assms(3,4)] unfolding b_def by blast+
  have mc: "fmul (fl (20 / 100)) (Fin w) = Fin c" "0 \<le> c" "c \<le> rnd (20 / 100)"
    using fmul_weight [OF l(5,6) assms(5,6)] unfolding c_def by blast+
  note s1 = fadd_small [OF ma(2,3) mb(2,3) cost_weights(1)]
  note s2 = fadd_small [OF conjunct1 [OF conjunct2 [OF s1]] conjunct2 [OF conjunct2 [OF s1]]
      mc(2,3) cost_weights(2)]
  have "cost_rat t s w = min 1 (rnd (rnd (a + b) + c))"
    unfolding cost_rat_def a_def b_def c_def ..
  then show ?thesis
    using s1 s2 unfolding ma(1) mb(1) mc(1) by (simp add: cl01_def max_def)
qed

lemma rnd_epsilon: "0 < rnd (5 / 100)" "rnd (5 / 100) \<le> 1" "rnd (rnd (5 / 100)) = rnd (5 / 100)"
  by (code_simp, code_simp, rule rnd_idem)

lemma denominator:
  assumes "0 \<le> cost" "cost \<le> 1"
  shows "fadd (Fin cost) priority_epsilon = Fin (rnd (cost + rnd (5 / 100))) \<and>
         rnd (5 / 100) \<le> rnd (cost + rnd (5 / 100))"
proof -
  have e: "priority_epsilon = Fin (rnd (5 / 100))"
    using fl_lit [of "5 / 100"] by (simp add: priority_epsilon_def)
  have "fadd (Fin cost) (Fin (rnd (5 / 100))) = Fin (rnd (cost + rnd (5 / 100)))"
    using fadd_small [of cost 1 "rnd (5 / 100)" 1] rnd_epsilon assms by auto
  moreover have "rnd (5 / 100) \<le> rnd (cost + rnd (5 / 100))"
    using rnd_add_ge [OF rnd_epsilon(3) assms(1)] by (simp add: add.commute)
  ultimately show ?thesis unfolding e by blast
qed

lemma prio_steps:
  assumes "0 \<le> i" "i \<le> 1" "0 \<le> cov" "cov \<le> 1" "0 \<le> g" "g \<le> 1"
  shows "fmul (fmul (Fin i) (fsub (Fin 1) (Fin cov))) (Fin g) = Fin (rnd (rnd (i * rnd (1 - cov)) * g)) \<and>
         0 \<le> rnd (rnd (i * rnd (1 - cov)) * g) \<and> rnd (rnd (i * rnd (1 - cov)) * g) \<le> 1"
proof -
  have u: "fl (1 - cov) = Fin (rnd (1 - cov))" "0 \<le> rnd (1 - cov)" "rnd (1 - cov) \<le> 1"
    using fl_unit [of "1 - cov"] assms by simp_all
  have v: "fl (i * rnd (1 - cov)) = Fin (rnd (i * rnd (1 - cov)))" "0 \<le> rnd (i * rnd (1 - cov))"
    "rnd (i * rnd (1 - cov)) \<le> 1"
    using fl_unit [of "i * rnd (1 - cov)"] u assms mult_le_one [of i "rnd (1 - cov)"] by simp_all
  have "0 \<le> rnd (i * rnd (1 - cov)) * g" "rnd (i * rnd (1 - cov)) * g \<le> 1"
    using v assms mult_le_one [of "rnd (i * rnd (1 - cov))" g] by simp_all
  then show ?thesis using fl_unit u v by (simp add: fsub_def)
qed

lemma prio_div:
  assumes "0 \<le> n" "n \<le> 1" "rnd (5 / 100) \<le> d"
  shows "fdiv (Fin n) (Fin d) = Fin (rnd (n / d)) \<and> 0 \<le> rnd (n / d) \<and> rnd (n / d) \<le> 20"
proof -
  have "n / d \<le> 1 / rnd (5 / 100)" using assms rnd_epsilon by (intro frac_le) auto
  moreover have "1 / rnd (5 / 100) \<le> 1000" by code_simp
  moreover have "0 \<le> n / d" using assms rnd_epsilon by auto
  ultimately show ?thesis using fl_le [of "n / d" "1 / rnd (5 / 100)"] inverse_epsilon by simp
qed

lemma compute_priority_Fin:
  "\<exists>gain cost. gain = gain_rat (cl01 g) (cl01 n) (cl01 c) (cl01 h) \<and>
     cost = cost_rat (cl01 t) (cl01 s) (cl01 w) \<and> 0 \<le> gain \<and> gain \<le> 1 \<and> 0 \<le> cost \<and> cost \<le> 1 \<and>
     compute_priority (Fin i) (Fin cov) (Fin n) (Fin c) (Fin t) (Fin s) (Fin w) (Fin g) (Fin h) =
       Inr (Fin (prio_rat (cl01 i) (cl01 cov) gain cost)) \<and>
     0 \<le> prio_rat (cl01 i) (cl01 cov) gain cost \<and> prio_rat (cl01 i) (cl01 cov) gain cost \<le> 20"
proof -
  note g = gain_rat_bounds [of "cl01 g" "cl01 n" "cl01 c" "cl01 h", simplified]
  note k = cost_Fin [of "cl01 t" "cl01 s" "cl01 w", simplified cl01_bounds simp_thms True_implies_equals]
  note p = prio_steps [of "cl01 i" "cl01 cov" "gain_rat (cl01 g) (cl01 n) (cl01 c) (cl01 h)", simplified]
  note d = denominator [of "cost_rat (cl01 t) (cl01 s) (cl01 w)"]
  show ?thesis
    using g k p d prio_div [of "rnd (rnd (cl01 i * rnd (1 - cl01 cov)) * gain_rat (cl01 g) (cl01 n) (cl01 c) (cl01 h))"
        "rnd (cost_rat (cl01 t) (cl01 s) (cl01 w) + rnd (5 / 100))"]
    by (auto simp: compute_priority_def prio_rat_def simp del: fmul.simps)
qed

text \<open>Each step of the formula is monotone, rounding included.\<close>

lemma weight_mono: "0 \<le> w \<Longrightarrow> a \<le> b \<Longrightarrow> rnd (rnd w * a) \<le> rnd (rnd w * b)"
  by (intro rnd_mono mult_left_mono rnd_nonneg)

lemma gain_rat_mono:
  "g \<le> g' \<Longrightarrow> n \<le> n' \<Longrightarrow> c \<le> c' \<Longrightarrow> h \<le> h' \<Longrightarrow> gain_rat g n c h \<le> gain_rat g' n' c' h'"
  unfolding gain_rat_def by (intro rnd_mono add_mono weight_mono) auto

lemma cost_rat_mono: "t \<le> t' \<Longrightarrow> s \<le> s' \<Longrightarrow> w \<le> w' \<Longrightarrow> cost_rat t s w \<le> cost_rat t' s' w'"
  unfolding cost_rat_def by (intro min.mono order_refl rnd_mono add_mono weight_mono) auto

lemma prio_rat_mono:
  assumes "0 \<le> i" "i \<le> i'" "i' \<le> 1" "cov' \<le> cov" "cov \<le> 1" "0 \<le> cov'" "0 \<le> g" "g \<le> g'"
    and "0 \<le> k'" "k' \<le> k"
  shows "prio_rat i cov g k \<le> prio_rat i' cov' g' k'"
proof -
  have u: "0 \<le> rnd (1 - cov)" "rnd (1 - cov) \<le> rnd (1 - cov')"
    using assms by (auto intro!: rnd_nonneg rnd_mono)
  then have v: "0 \<le> rnd (i * rnd (1 - cov))" "rnd (i * rnd (1 - cov)) \<le> rnd (i' * rnd (1 - cov'))"
    using assms by (auto intro!: rnd_nonneg rnd_mono mult_mono)
  have "0 \<le> i' * rnd (1 - cov')" using u assms by (intro mult_nonneg_nonneg) linarith+
  with v have n: "0 \<le> rnd (rnd (i * rnd (1 - cov)) * g)"
    "rnd (rnd (i * rnd (1 - cov)) * g) \<le> rnd (rnd (i' * rnd (1 - cov')) * g')"
    using assms by (auto intro!: rnd_nonneg rnd_mono mult_mono)
  have "rnd (5 / 100) \<le> rnd (k' + rnd (5 / 100))"
    using rnd_add_ge [OF rnd_epsilon(3) assms(9)] by (simp add: add.commute)
  with rnd_epsilon(1) have pos: "0 < rnd (k' + rnd (5 / 100))" by linarith
  have d: "rnd (k' + rnd (5 / 100)) \<le> rnd (k + rnd (5 / 100))"
    using assms(10) by (intro rnd_mono) simp
  show ?thesis
    unfolding prio_rat_def by (rule rnd_mono, rule frac_le [OF order_trans [OF n] n(2) pos d])
qed

text \<open>
  C13. The priority of a query is a bounded number and answers its inputs the right way.  For all
  finite inputs it is computed without an error or an overflow and lies between 0 and 20 (the
  inverse of the cost floor); raising importance, the recent gain, the need for a new source, the
  need to resolve a conflict or the historical success never lowers it, and raising the coverage
  already reached or one of the three cost fractions never raises it, whatever the rounding.
\<close>

theorem priority_bounded_monotone:
  assumes "i \<le> i'" "cov' \<le> cov" "n \<le> n'" "c \<le> c'" "t' \<le> t" "s' \<le> s" "w' \<le> w" "g \<le> g'" "h \<le> h'"
  shows "\<exists>p p'.
    compute_priority (Fin i) (Fin cov) (Fin n) (Fin c) (Fin t) (Fin s) (Fin w) (Fin g) (Fin h) = Inr (Fin p) \<and>
    compute_priority (Fin i') (Fin cov') (Fin n') (Fin c') (Fin t') (Fin s') (Fin w') (Fin g') (Fin h') = Inr (Fin p') \<and>
    0 \<le> p \<and> p \<le> p' \<and> p' \<le> 20"
proof -
  obtain gain cost where a: "gain = gain_rat (cl01 g) (cl01 n) (cl01 c) (cl01 h)"
    "cost = cost_rat (cl01 t) (cl01 s) (cl01 w)" "0 \<le> gain"
    "compute_priority (Fin i) (Fin cov) (Fin n) (Fin c) (Fin t) (Fin s) (Fin w) (Fin g) (Fin h) =
       Inr (Fin (prio_rat (cl01 i) (cl01 cov) gain cost))"
    "0 \<le> prio_rat (cl01 i) (cl01 cov) gain cost"
    using compute_priority_Fin [of g n c h t s w i cov] by auto
  obtain gain' cost' where b: "gain' = gain_rat (cl01 g') (cl01 n') (cl01 c') (cl01 h')"
    "cost' = cost_rat (cl01 t') (cl01 s') (cl01 w')" "0 \<le> cost'"
    "compute_priority (Fin i') (Fin cov') (Fin n') (Fin c') (Fin t') (Fin s') (Fin w') (Fin g') (Fin h') =
       Inr (Fin (prio_rat (cl01 i') (cl01 cov') gain' cost'))"
    "prio_rat (cl01 i') (cl01 cov') gain' cost' \<le> 20"
    using compute_priority_Fin [of g' n' c' h' t' s' w' i' cov'] by auto
  have "prio_rat (cl01 i) (cl01 cov) gain cost \<le> prio_rat (cl01 i') (cl01 cov') gain' cost'"
    using a(3) b(3) assms unfolding a(1,2) b(1,2)
    by (intro prio_rat_mono gain_rat_mono cost_rat_mono cl01_mono cl01_bounds)
  with a b show ?thesis by blast
qed

theorem priority_bounded_monotone_witness:
  "\<exists>p p'. compute_priority (Fin 0) (Fin 1) (Fin 0) (Fin 0) (Fin 1) (Fin 1) (Fin 1) (Fin 0) (Fin 0) = Inr (Fin p) \<and>
    compute_priority (Fin 1) (Fin 0) (Fin 1) (Fin 1) (Fin 0) (Fin 0) (Fin 0) (Fin 1) (Fin 1) = Inr (Fin p') \<and>
    0 \<le> p \<and> p \<le> p' \<and> p' \<le> 20"
  by (rule priority_bounded_monotone) simp_all

section \<open>Stop rules\<close>

text \<open>What the rules read in a well-formed ledger: the entry of a planned question.\<close>

definition entry_of :: "coverage_ledger \<Rightarrow> sub_question \<Rightarrow> coverage_ledger_entry" where
  "entry_of l q = the (dget (lg_entries l) (sq_id q))"

definition uncovered_needs :: "coverage_ledger \<Rightarrow> string list" where
  "uncovered_needs l =
     fromkeys (concat (map (\<lambda>q. map in_need_id (sq_information_needs q))
       (filter (\<lambda>q. \<not> question_ready q (entry_of l q)) (rp_subquestions (lg_plan l)))))"

definition terminal_needs :: "blocked_need list \<Rightarrow> string list" where
  "terminal_needs ns = fromkeys (sort (map bn_need_id (filter terminal ns)))"

lemma wf_entry:
  assumes "wf_ledger l" "q \<in> set (rp_subquestions (lg_plan l))"
  shows "get_entry l (sq_id q) = Inr (entry_of l q) \<and> valid_entry (entry_of l q)"
proof -
  have "sq_id q \<in> set (dkeys (lg_entries l))"
    using assms unfolding wf_ledger_def planned_ids_def by force
  then obtain e where "dget (lg_entries l) (sq_id q) = Some e" by (auto dest: weak_map_of_SomeI)
  with assms(1) show ?thesis by (auto simp: wf_ledger_def entry_of_def get_entry_def)
qed

lemma threshold_finite: "isfinite key_coverage_threshold"
  using fl_lit [of "85 / 100"] by (simp add: key_coverage_threshold_def)

lemma uncovered_step_eq:
  assumes "wf_ledger l" "q \<in> set (rp_subquestions (lg_plan l))"
  shows "uncovered_step l acc q =
    Inr (if question_ready q (entry_of l q) then acc else acc @ map in_need_id (sq_information_needs q))"
proof -
  have "isfinite (cl_coverage_score (entry_of l q))"
    using wf_entry [OF assms] by (auto simp: valid_entry_def elim!: unitE)
  then show ?thesis
    using wf_entry [OF assms] fle_not_flt [OF threshold_finite]
    by (auto simp: uncovered_step_def question_ready_def Let_def)
qed

lemma uncovered_eq:
  assumes "wf_ledger l"
  shows "uncovered_information_needs l = Inr (uncovered_needs l)"
proof -
  have "foldM (uncovered_step l) acc qs = Inr (acc @ concat (map (\<lambda>q. map in_need_id (sq_information_needs q))
       (filter (\<lambda>q. \<not> question_ready q (entry_of l q)) qs)))"
    if "set qs \<subseteq> set (rp_subquestions (lg_plan l))" for acc qs
    using that by (induction qs arbitrary: acc) (simp_all add: uncovered_step_eq [OF assms])
  then show ?thesis by (simp add: uncovered_information_needs_def uncovered_needs_def)
qed

lemma all_ready_eq:
  assumes "wf_ledger l" "set qs \<subseteq> set (rp_subquestions (lg_plan l))"
  shows "all_ready l qs = Inr (\<forall>q\<in>set qs. question_ready q (entry_of l q))"
  using assms(2) by (induction qs) (simp_all add: wf_entry [OF assms(1)])

lemma any_conflict_eq:
  assumes "wf_ledger l" "set qs \<subseteq> set (rp_subquestions (lg_plan l))"
  shows "any_conflict l qs = Inr (\<exists>q\<in>set qs. cl_unresolved_conflict_ids (entry_of l q) \<noteq> [] \<and>
    fle high_priority_conflict_threshold (sq_importance q))"
  using assms(2) by (induction qs) (simp_all add: wf_entry [OF assms(1)])

text \<open>The sufficiency rule on the ledger, and the decision as the rules order it.\<close>

definition sufficient :: "coverage_ledger \<Rightarrow> bool" where
  "sufficient l \<longleftrightarrow>
     (\<forall>c. weighted_coverage l = Inr c \<longrightarrow> fle overall_coverage_threshold c) \<and>
     (\<forall>q\<in>set (rp_subquestions (lg_plan l)). question_ready q (entry_of l q) \<and>
        (cl_unresolved_conflict_ids (entry_of l q) = [] \<or>
         \<not> fle high_priority_conflict_threshold (sq_importance q)))"

definition stop_spec :: "planner_state \<Rightarrow> budget_snapshot \<Rightarrow> blocked_need list \<Rightarrow> stop_decision option" where
  "stop_spec s snap blocked =
     (if bs_exhausted snap \<noteq> {}
      then Some \<lparr>st_code = BudgetExhausted, st_reasons = [''hard_budget_limit''],
             st_uncovered_information_needs = uncovered_needs (ps_ledger s), st_is_partial = True\<rparr>
      else if terminal_needs blocked \<noteq> []
      then Some \<lparr>st_code = Blocked, st_reasons = [''required_source_and_alternatives_exhausted''],
             st_uncovered_information_needs = terminal_needs blocked, st_is_partial = True\<rparr>
      else if sufficient (ps_ledger s)
      then Some \<lparr>st_code = Sufficient, st_reasons = [''coverage_thresholds_met''],
             st_uncovered_information_needs = [], st_is_partial = False\<rparr>
      else if low_gain_rounds (ps_recent_marginal_gains s)
      then Some \<lparr>st_code = Plateau, st_reasons = [''two_low_gain_rounds''],
             st_uncovered_information_needs = uncovered_needs (ps_ledger s), st_is_partial = True\<rparr>
      else None)"

lemma reason_codes_not_blank [simp]:
  "\<not> blank ''hard_budget_limit''" "\<not> blank ''required_source_and_alternatives_exhausted''"
  "\<not> blank ''coverage_thresholds_met''" "\<not> blank ''two_low_gain_rounds''"
  by (simp_all add: blank_def strip_ws_def)

lemma decide_Inr:
  "\<not> blank reason \<Longrightarrow> \<forall>n\<in>set needs. \<not> blank n \<Longrightarrow>
   decide code reason needs partial = Inr (Some \<lparr>st_code = code, st_reasons = [reason],
     st_uncovered_information_needs = needs, st_is_partial = partial\<rparr>)"
  by (auto simp: decide_def mk_stop_def list_ex_iff)

lemma uncovered_needs_set:
  "n \<in> set (uncovered_needs l) \<longleftrightarrow> (\<exists>q\<in>set (rp_subquestions (lg_plan l)).
     \<not> question_ready q (entry_of l q) \<and> n \<in> in_need_id ` set (sq_information_needs q))"
  by (auto simp: uncovered_needs_def set_uniq_seen)

lemma terminal_needs_set:
  "n \<in> set (terminal_needs ns) \<longleftrightarrow> (\<exists>b\<in>set ns. terminal b \<and> bn_need_id b = n)"
  by (auto simp: terminal_needs_def set_uniq_seen)

lemma overall_finite: "isfinite overall_coverage_threshold"
  using fl_lit [of "80 / 100"] by (simp add: overall_coverage_threshold_def)

lemma sufficient_eq:
  assumes "wf_ledger l" "weighted_coverage l = Inr c" "unit c"
  shows "rbind (ledger_meets_sufficient l) (\<lambda>ok. rbind (if ok then high_priority_conflicts l else Inr False)
           (\<lambda>conflict. Inr (ok \<and> \<not> conflict))) = Inr (sufficient l)"
proof -
  let ?qs = "rp_subquestions (lg_plan l)"
  have thr: "flt c overall_coverage_threshold \<longleftrightarrow> \<not> fle overall_coverage_threshold c"
    using fle_not_flt [OF overall_finite, of c] assms(3) by (auto elim!: unitE)
  show ?thesis
    unfolding ledger_meets_sufficient_def high_priority_conflicts_def assms(2) rbind_Inr
      all_ready_eq [OF assms(1) subset_refl] any_conflict_eq [OF assms(1) subset_refl] sufficient_def thr
    by auto
qed

lemma stop_spec_eq:
  assumes "wf_ledger (ps_ledger s)" "weighted_coverage (ps_ledger s) = Inr c" "unit c"
    and needs: "\<forall>q\<in>set (rp_subquestions (lg_plan (ps_ledger s))). \<forall>n\<in>set (sq_information_needs q).
      \<not> blank (in_need_id n)"
    and blocked: "\<forall>b\<in>set blocked. mk_blocked_need b = Inr b"
  shows "evaluate_stop s snap blocked = Inr (stop_spec s snap blocked)"
proof -
  let ?l = "ps_ledger s"
  have un: "\<forall>n\<in>set (uncovered_needs ?l). \<not> blank n" using needs by (auto simp: uncovered_needs_set)
  have "\<not> blank (bn_need_id b)" if "mk_blocked_need b = Inr b" for b
    using that by (auto simp: mk_blocked_need_def rbind_eq_Inr require_eq_Inr)
  with blocked have tn: "\<forall>n\<in>set (terminal_needs blocked). \<not> blank n" by (auto simp: terminal_needs_set)
  have suff: "rbind (ledger_meets_sufficient ?l) (\<lambda>ok. rbind (if ok then high_priority_conflicts ?l else Inr False)
      (\<lambda>conflict. if ok \<and> \<not> conflict then A else B)) = (if sufficient ?l then A else B)" for A B
    using sufficient_eq [OF assms(1-3)] by (auto simp: rbind_def split: sum.splits if_splits)
  show ?thesis
    unfolding evaluate_stop_def uncovered_eq [OF assms(1)] rbind_Inr Let_def
      terminal_needs_def [symmetric] suff stop_spec_def
    using un tn by (simp add: decide_Inr)
qed

lemma sufficient_nothing_uncovered: "sufficient l \<Longrightarrow> uncovered_needs l = []"
  using uncovered_needs_set [of _ l] by (fastforce simp: sufficient_def intro: ccontr dest: hd_in_set)

lemma stop_spec_Sufficient:
  "stop_spec s snap blocked = Some d \<Longrightarrow>
   (st_is_partial d \<longleftrightarrow> st_code d \<noteq> Sufficient) \<and>
   (st_code d = BudgetExhausted \<longleftrightarrow> bs_exhausted snap \<noteq> {}) \<and>
   (st_code d = Sufficient \<longrightarrow> sufficient (ps_ledger s) \<and> terminal_needs blocked = [] \<and>
      st_uncovered_information_needs d = []) \<and>
   (st_code d = Blocked \<longrightarrow> st_uncovered_information_needs d = terminal_needs blocked) \<and>
   (st_code d \<in> {BudgetExhausted, Plateau} \<longrightarrow>
      st_uncovered_information_needs d = uncovered_needs (ps_ledger s))"
  by (auto simp: stop_spec_def split: if_splits)

lemma stop_spec_None:
  "stop_spec s snap blocked = None \<longleftrightarrow> bs_exhausted snap = {} \<and> (\<forall>b\<in>set blocked. \<not> terminal b) \<and>
     \<not> sufficient (ps_ledger s) \<and> \<not> low_gain_rounds (ps_recent_marginal_gains s)"
proof -
  have "terminal_needs blocked = [] \<longleftrightarrow> (\<forall>b\<in>set blocked. \<not> terminal b)"
    using terminal_needs_set [of _ blocked] by (metis last_in_set list.set(1) empty_iff)
  then show ?thesis by (auto simp: stop_spec_def)
qed


definition demo_snapshot :: budget_snapshot where
  "demo_snapshot = \<lparr>bs_used_search_calls = 1, bs_used_pages = 0, bs_used_tokens = 0,
     bs_used_wall_seconds = Fin 0, bs_used_cost_usd = None, bs_used_retries = 0,
     bs_reserved_search_calls = 0, bs_reserved_pages = 0, bs_reserved_tokens = 0,
     bs_reserved_wall_seconds = Fin 0, bs_reserved_cost_usd = None, bs_reserved_retries = 0,
     bs_exhausted = {SearchCalls}, bs_last_observed_usage = usage_zero False, bs_used_by_node = (\<lambda>_. usage_zero False)\<rparr>"

definition demo_planner_state :: planner_state where
  "demo_planner_state = \<lparr>ps_plan = demo_plan, ps_ledger = demo_ledger, ps_budget_snapshot = demo_snapshot,
     ps_blocked_needs = [], ps_round_index = 0, ps_recent_marginal_gains = [Fin 0, Fin 0],
     ps_query_history = []\<rparr>"


end
