(* ===== verification/State_Machine.thy ===== *)
theory State_Machine
  imports Domain "HOL-Library.Sublist"
begin

text \<open>
  The life cycle of a run (\<^verbatim>\<open>src/src/deepresearch/runtime/state_machine.py\<close>) and its
  cancellation token (\<^verbatim>\<open>runtime/cancellation.py\<close>): the transition table as the association
  list the source writes, the look-up that raises \<open>InvalidTransition\<close>, and the step relation it
  induces on statuses.
\<close>

datatype run_action = StartAct | ResumeAct | InterruptAct | CompleteAct | FailAct | CancelAct

datatype invalid_transition = InvalidTransition run_status run_action

definition transitions :: "((run_status \<times> run_action) \<times> run_status) list" where
  "transitions =
     [((Queued, StartAct), Running),
      ((Queued, InterruptAct), Interrupted),
      ((Running, InterruptAct), Interrupted),
      ((Interrupted, ResumeAct), Running),
      ((Running, CompleteAct), Completed),
      ((Running, FailAct), Failed),
      ((Queued, CancelAct), Cancelled),
      ((Running, CancelAct), Cancelled),
      ((Interrupted, CancelAct), Cancelled),
      ((Cancelled, CancelAct), Cancelled)]"

definition transition :: "run_status \<Rightarrow> run_action \<Rightarrow> invalid_transition + run_status" where
  "transition current action =
     (case map_of transitions (current, action) of
        None \<Rightarrow> Inl (InvalidTransition current action)
      | Some target \<Rightarrow> Inr target)"

definition validate_resume :: "run_status \<Rightarrow> invalid_transition + unit" where
  "validate_resume s = rbind (transition s ResumeAct) (\<lambda>_. Inr ())"

definition validate_cancel :: "run_status \<Rightarrow> invalid_transition + unit" where
  "validate_cancel s = rbind (transition s CancelAct) (\<lambda>_. Inr ())"

section \<open>Cancellation tokens\<close>

datatype operation_cancelled = OperationCancelled

record cancellation_token =
  ct_event :: bool

definition new_token :: cancellation_token where
  "new_token = \<lparr>ct_event = False\<rparr>"

definition cancel_token :: "cancellation_token \<Rightarrow> cancellation_token" where
  "cancel_token t = t\<lparr>ct_event := True\<rparr>"

definition is_cancelled :: "cancellation_token \<Rightarrow> bool" where
  "is_cancelled t = ct_event t"

definition raise_if_cancelled :: "cancellation_token \<Rightarrow> operation_cancelled + unit" where
  "raise_if_cancelled t = (if ct_event t then Inl OperationCancelled else Inr ())"

section \<open>Steps and reachable statuses\<close>

lemmas transition_simps = transition_def transitions_def

inductive run_step :: "run_status \<Rightarrow> run_action \<Rightarrow> run_status \<Rightarrow> bool" where
  run_step: "transition s a = Inr t \<Longrightarrow> run_step s a t"

inductive_simps run_step_iff: "run_step s a t"

inductive run_path :: "run_status \<Rightarrow> run_action list \<Rightarrow> run_status \<Rightarrow> bool" where
  path_nil: "run_path s [] s"
| path_step: "run_step s a t \<Longrightarrow> run_path t as u \<Longrightarrow> run_path s (a # as) u"

inductive_cases path_consE: "run_path s (a # as) u"

text \<open>The statuses that no action other than a repeated cancel leaves.\<close>

fun terminal_status :: "run_status \<Rightarrow> bool" where
  "terminal_status Completed = True"
| "terminal_status Failed = True"
| "terminal_status Cancelled = True"
| "terminal_status _ = False"

lemma transition_Inr:
  "transition s a = Inr t \<longleftrightarrow>
     (s, a, t) \<in> {(Queued, StartAct, Running), (Queued, InterruptAct, Interrupted),
       (Running, InterruptAct, Interrupted), (Interrupted, ResumeAct, Running),
       (Running, CompleteAct, Completed), (Running, FailAct, Failed), (Queued, CancelAct, Cancelled),
       (Running, CancelAct, Cancelled), (Interrupted, CancelAct, Cancelled),
       (Cancelled, CancelAct, Cancelled)}"
  by (cases s; cases a) (auto simp: transition_simps)

lemma terminal_absorbs: "terminal_status s \<Longrightarrow> run_step s a t \<Longrightarrow> t = s"
  by (auto simp: run_step_iff transition_Inr)

lemma step_not_queued: "run_step s a t \<Longrightarrow> t \<noteq> Queued"
  by (auto simp: run_step_iff transition_Inr)

lemma path_terminal: "run_path s as u \<Longrightarrow> terminal_status s \<Longrightarrow> u = s"
  by (induction rule: run_path.induct) (auto dest: terminal_absorbs)

lemma path_not_queued: "run_path s as u \<Longrightarrow> as \<noteq> [] \<Longrightarrow> u \<noteq> Queued"
  by (induction rule: run_path.induct) (auto elim: run_path.cases dest: step_not_queued)

lemma path_completed_ran:
  "run_path s as u \<Longrightarrow> u \<in> {Completed, Failed} \<Longrightarrow> s \<notin> {Completed, Failed} \<Longrightarrow>
   \<exists>bs. prefix bs as \<and> length bs < length as \<and> run_path s bs Running"
proof (induction rule: run_path.induct)
  case (path_step s a t as u)
  show ?case
  proof (cases "t \<in> {Completed, Failed}")
    case True
    with path_step(1) have "s = Running" by (auto simp: run_step_iff transition_Inr)
    then show ?thesis by (intro exI [of _ "[]"]) (simp add: path_nil)
  next
    case False
    with path_step obtain bs where "prefix bs as" "length bs < length as" "run_path t bs Running" by auto
    with path_step(1) show ?thesis
      by (intro exI [of _ "a # bs"]) (simp add: run_path.path_step)
  qed
qed auto

text \<open>
  The life cycle of a run.  Along every sequence of accepted actions: a completed, failed or
  cancelled run never changes status again; a run never returns to the queue; it completes or
  fails only after it was running; and as long as it is neither completed nor failed it can
  still be cancelled, which is the only action a cancelled run accepts.
\<close>

theorem life_cycle:
  assumes "run_path s bs t"
  shows "(terminal_status s \<longrightarrow> t = s) \<and> (bs \<noteq> [] \<longrightarrow> t \<noteq> Queued) \<and>
    (t \<in> {Completed, Failed} \<and> \<not> terminal_status s \<longrightarrow>
       (\<exists>cs. prefix cs bs \<and> length cs < length bs \<and> run_path s cs Running)) \<and>
    (t \<notin> {Completed, Failed} \<longleftrightarrow> transition t CancelAct = Inr Cancelled) \<and>
    (\<forall>a u. t = Cancelled \<and> transition t a = Inr u \<longrightarrow> a = CancelAct \<and> u = Cancelled)"
proof (intro conjI)
  show "t \<in> {Completed, Failed} \<and> \<not> terminal_status s \<longrightarrow>
       (\<exists>cs. prefix cs bs \<and> length cs < length bs \<and> run_path s cs Running)"
    using path_completed_ran [OF assms] by (cases s) auto
qed (use path_terminal [OF assms] path_not_queued [OF assms] in
      \<open>cases t; auto simp: run_step_iff transition_Inr\<close>)+

theorem life_cycle_witness:
  "run_path Queued [StartAct, InterruptAct, ResumeAct, CompleteAct] Completed \<and>
   transition Completed CancelAct \<noteq> Inr Cancelled"
proof -
  have "run_path Queued [StartAct, InterruptAct, ResumeAct, CompleteAct] Completed"
    by (intro path_step [of Queued _ Running] path_step [of Running _ Interrupted]
        path_step [of Interrupted _ Running] path_step [of Running _ Completed] path_nil)
      (simp_all add: run_step_iff transition_simps)
  with life_cycle [OF this] show ?thesis by simp
qed

end
