(* ===== verification/Run_Store.thy ===== *)
theory Run_Store
  imports Domain_Evidence State_Machine
begin

text \<open>
  The durable run store (\<^verbatim>\<open>src/src/deepresearch/storage/sqlalchemy_store.py\<close>, with the records of
  \<^verbatim>\<open>protocols.py\<close>, the tables and constraints of \<^verbatim>\<open>models.py\<close> and \<^verbatim>\<open>usage_recovery.py\<close>).
  The database is a record of three tables; every write runs in one transaction under the
  service lock, so an operation is one step from a database to a database, and one that raises
  leaves it unchanged.  The primary keys and unique indexes are checked by the inserts.  A fresh
  \<^verbatim>\<open>uuid4\<close> and the current day are arguments of the operations that draw them.  Table scans
  return rows in insertion order.  Provider profiles and pricing snapshots are kept as the JSON
  the rows hold.
\<close>

section \<open>Admissions (\<^verbatim>\<open>runtime/admission.py\<close>)\<close>

record admission =
  ad_reservation_id :: "string option"
  ad_attempt_no :: "int option"

definition no_admission :: admission where
  "no_admission = \<lparr>ad_reservation_id = None, ad_attempt_no = None\<rparr>"

section \<open>Records (\<^verbatim>\<open>protocols.py\<close>, \<^verbatim>\<open>models.py\<close>)\<close>

datatype store_error =
    IdempotencyCollision string | DailyCostLimitExceeded | IntegrityError | StoreExc exc

datatype pricing_status = Estimated | UnknownPricing

record run_record =
  rn_run_id :: string
  rn_thread_id :: string
  rn_status :: run_status
  rn_config_json :: json
  rn_pricing_status :: pricing_status
  rn_pricing_snapshots :: "json list"
  rn_provider_profile_json :: json
  rn_provider_profile_sha256 :: string
  rn_config_sha256 :: string
  rn_owner_scope_sha256 :: string
  rn_idempotency_scope_sha256 :: string
  rn_idempotency_key :: "string option"
  rn_admission_reservation_id :: "string option"
  rn_admission_attempt_no :: "int option"
  rn_stop_reason :: "stop_reason option"
  rn_is_partial :: bool
  rn_report_artifact_id :: "string option"
  rn_evidence_graph_artifact_id :: "string option"
  rn_manifest_artifact_id :: "string option"
  rn_final_usage :: "resource_usage option"
  rn_error_code :: "string option"
  rn_updated_at :: timestamp
  rn_version :: int

record run_finalization =
  fz_status :: run_status
  fz_stop_reason :: "stop_reason option"
  fz_is_partial :: bool
  fz_report_artifact_id :: "string option"
  fz_evidence_graph_artifact_id :: "string option"
  fz_manifest_artifact_id :: "string option"
  fz_final_usage :: resource_usage
  fz_error_code :: "string option"

definition from_result :: "run_result \<Rightarrow> exc + run_finalization" where
  "from_result r =
     (if rr_status r \<notin> {Interrupted, Completed, Failed, Cancelled}
      then Inl (ValueError ''run result is not terminal'')
      else Inr \<lparr>fz_status = rr_status r, fz_stop_reason = rr_stop_reason r,
                fz_is_partial = rr_is_partial r, fz_report_artifact_id = rr_report_artifact_id r,
                fz_evidence_graph_artifact_id = rr_evidence_graph_artifact_id r,
                fz_manifest_artifact_id = rr_manifest_artifact_id r,
                fz_final_usage = rr_final_usage r, fz_error_code = rr_error_code r\<rparr>)"

record terminal_event_draft =
  td_timestamp :: timestamp
  td_node :: string
  td_kind :: string
  td_public_payload :: "(string \<times> json) list"

record startup_recovery =
  sr_interrupted_run_ids :: "string list"
  sr_released_orphan_reservation_ids :: "string list"

datatype ledger_state = LedgerReserved | LedgerSettled | LedgerReleased

record ledger_row =
  ul_reservation_id :: string
  ul_day :: int
  ul_run_id :: string
  ul_attempt_no :: int
  ul_amount :: decimal
  ul_state :: ledger_state

record database =
  db_runs :: "(string, run_record) dict"
  db_events :: "run_event list"
  db_ledger :: "ledger_row list"

definition empty_db :: database where
  "empty_db = \<lparr>db_runs = [], db_events = [], db_ledger = []\<rparr>"

section \<open>Usage recovery (\<^verbatim>\<open>usage_recovery.py\<close>)\<close>

definition recover_int :: "(resource_usage \<Rightarrow> int) \<Rightarrow> resource_usage \<Rightarrow> run_event list \<Rightarrow> int" where
  "recover_int f base events = max (f base) (sum_list (map (\<lambda>e. f (ev_usage_delta e)) events))"

definition recovered_usage :: "resource_usage option \<Rightarrow> run_event list \<Rightarrow> bool \<Rightarrow> resource_usage" where
  "recovered_usage final_usage events never_started =
     (let base = (case final_usage of Some u \<Rightarrow> u | None \<Rightarrow> usage_zero (never_started \<and> events = []));
          inp = recover_int ru_input_tokens base events;
          out = recover_int ru_output_tokens base events;
          reas = recover_int ru_reasoning_tokens base events
      in base\<lparr>
           ru_input_tokens := inp,
           ru_output_tokens := out,
           ru_reasoning_tokens := reas,
           ru_cached_tokens := recover_int ru_cached_tokens base events,
           ru_search_calls := recover_int ru_search_calls base events,
           ru_pages := recover_int ru_pages base events,
           ru_retries := recover_int ru_retries base events,
           ru_wall_seconds := fmax (ru_wall_seconds base)
             (py_fsum (map (\<lambda>e. ru_wall_seconds (ev_usage_delta e)) events)),
           ru_total_tokens := inp + out + reas\<rparr>)"

text \<open>The copy with the recovered values is validated again (\<^verbatim>\<open>_DomainModel.model_copy\<close>).\<close>

definition recover_usage :: "resource_usage option \<Rightarrow> run_event list \<Rightarrow> bool \<Rightarrow> exc + resource_usage" where
  "recover_usage final_usage events never_started = mk_usage (recovered_usage final_usage events never_started)"

section \<open>Reading (\<^verbatim>\<open>get_run\<close>, \<^verbatim>\<open>get_owned_run\<close>, \<^verbatim>\<open>get_by_idempotency\<close>, \<^verbatim>\<open>list_events_after\<close>)\<close>

definition get_run :: "database \<Rightarrow> string \<Rightarrow> run_record option" where
  "get_run db i = dget (db_runs db) i"

definition get_owned_run :: "database \<Rightarrow> string \<Rightarrow> string \<Rightarrow> run_record option" where
  "get_owned_run db i owner =
     find (\<lambda>r. rn_run_id r = i \<and> rn_owner_scope_sha256 r = owner) (dvalues (db_runs db))"

definition get_by_idempotency :: "database \<Rightarrow> string \<Rightarrow> string \<Rightarrow> run_record option" where
  "get_by_idempotency db scope key =
     find (\<lambda>r. rn_idempotency_scope_sha256 r = scope \<and> rn_idempotency_key r = Some key)
       (dvalues (db_runs db))"

definition dump_event :: "run_event \<Rightarrow> run_event" where
  "dump_event e = e\<lparr>ev_public_payload := serialize_payload (ev_public_payload e)\<rparr>"

definition run_events :: "database \<Rightarrow> string \<Rightarrow> run_event list" where
  "run_events db i = filter (\<lambda>e. ev_run_id e = i) (db_events db)"

definition lift_store :: "exc + 'a \<Rightarrow> store_error + 'a" where
  "lift_store r = (case r of Inl e \<Rightarrow> Inl (StoreExc e) | Inr x \<Rightarrow> Inr x)"

lemma lift_store_Inr [simp, res_simps]: "lift_store r = Inr x \<longleftrightarrow> r = Inr x"
  by (simp add: lift_store_def split: sum.splits)

definition list_events_after :: "database \<Rightarrow> string \<Rightarrow> int \<Rightarrow> store_error + run_event list" where
  "list_events_after db i s =
     lift_store (mapM mk_event (sort_key ev_seq (filter (\<lambda>e. s < ev_seq e) (run_events db i))))"

definition max_seq :: "database \<Rightarrow> string \<Rightarrow> int option" where
  "max_seq db i =
     (case map ev_seq (run_events db i) of [] \<Rightarrow> None | s # ss \<Rightarrow> Some (fold max ss s))"

definition next_seq :: "database \<Rightarrow> string \<Rightarrow> int" where
  "next_seq db i = (case max_seq db i of None \<Rightarrow> 0 | Some s \<Rightarrow> s) + 1"

section \<open>Creating a run (\<^verbatim>\<open>create_run\<close>)\<close>

text \<open>The unique index on the scope and key of an idempotent request.\<close>

definition idempotency_free :: "database \<Rightarrow> run_record \<Rightarrow> bool" where
  "idempotency_free db r =
     (case rn_idempotency_key r of
        None \<Rightarrow> True
      | Some k \<Rightarrow> get_by_idempotency db (rn_idempotency_scope_sha256 r) k = None)"

definition insert_run :: "database \<Rightarrow> run_record \<Rightarrow> store_error + database" where
  "insert_run db r =
     (if dget (db_runs db) (rn_run_id r) = None \<and> idempotency_free db r
      then Inr (db\<lparr>db_runs := db_runs db @ [(rn_run_id r, r)]\<rparr>)
      else Inl IntegrityError)"

definition idempotency_collision :: "database \<Rightarrow> run_record \<Rightarrow> store_error + unit" where
  "idempotency_collision db r =
     (case rn_idempotency_key r of
        None \<Rightarrow> Inr ()
      | Some k \<Rightarrow>
          (case get_by_idempotency db (rn_idempotency_scope_sha256 r) k of
             None \<Rightarrow> Inr ()
           | Some c \<Rightarrow> require (rn_run_id c = rn_run_id r) (IdempotencyCollision k)))"

definition create_run :: "database \<Rightarrow> run_record \<Rightarrow> store_error + (run_record \<times> database)" where
  "create_run db r =
     rbind (idempotency_collision db r) (\<lambda>_.
     case dget (db_runs db) (rn_run_id r) of
       Some existing \<Rightarrow>
         (if rn_idempotency_key existing = rn_idempotency_key r then Inr (existing, db)
          else Inl (IdempotencyCollision (rn_run_id r)))
     | None \<Rightarrow> rbind (insert_run db r) (\<lambda>db'. Inr (r, db')))"

section \<open>Transitions (\<^verbatim>\<open>transition\<close>, \<^verbatim>\<open>finalize_run\<close>)\<close>

definition nonterminal_pairs :: "(run_status \<times> run_status) list" where
  "nonterminal_pairs = [(Queued, Running), (Interrupted, Running)]"

fun terminal_targets :: "run_status \<Rightarrow> run_status list" where
  "terminal_targets Queued = [Interrupted, Cancelled]"
| "terminal_targets Running = [Interrupted, Completed, Failed, Cancelled]"
| "terminal_targets Interrupted = [Cancelled]"
| "terminal_targets _ = []"

definition require_run :: "database \<Rightarrow> string \<Rightarrow> run_status option \<Rightarrow> store_error + run_record" where
  "require_run db i expected =
     (case dget (db_runs db) i of
        None \<Rightarrow> Inl (StoreExc (KeyError i))
      | Some row \<Rightarrow>
          (case expected of
             None \<Rightarrow> Inr row
           | Some s \<Rightarrow> if rn_status row \<noteq> s then Inl (StoreExc (ValueError ''expected'')) else Inr row))"

definition cas :: "database \<Rightarrow> run_record \<Rightarrow> run_status \<Rightarrow> (run_record \<Rightarrow> run_record) \<Rightarrow>
    store_error + (run_record \<times> database)" where
  "cas db row expected values =
     (case dget (db_runs db) (rn_run_id row) of
        None \<Rightarrow> Inl (StoreExc (ValueError ''run changed during transition''))
      | Some current \<Rightarrow>
          if rn_status current = expected \<and> rn_version current = rn_version row
          then let saved = (values current)\<lparr>rn_version := rn_version row + 1\<rparr>
               in Inr (saved, db\<lparr>db_runs := dput (rn_run_id row) saved (db_runs db)\<rparr>)
          else Inl (StoreExc (ValueError ''run changed during transition'')))"

definition store_transition ::
    "database \<Rightarrow> string \<Rightarrow> run_status \<Rightarrow> run_status \<Rightarrow> store_error + (run_record \<times> database)" where
  "store_transition db i expected target =
     (if (expected, target) \<notin> set nonterminal_pairs
      then Inl (StoreExc (ValueError ''transition is not a legal nonterminal CAS pair''))
      else rbind (require_run db i (Some expected)) (\<lambda>row.
           cas db row expected (\<lambda>r. r\<lparr>rn_status := target\<rparr>)))"

definition insert_event :: "database \<Rightarrow> run_event \<Rightarrow> store_error + database" where
  "insert_event db e =
     (if list_ex (\<lambda>f. ev_run_id f = ev_run_id e \<and> ev_seq f = ev_seq e) (db_events db)
      then Inl IntegrityError
      else Inr (db\<lparr>db_events := db_events db @ [dump_event e]\<rparr>))"

definition finalized :: "run_finalization \<Rightarrow> timestamp \<Rightarrow> run_record \<Rightarrow> run_record" where
  "finalized f t r = r\<lparr>rn_status := fz_status f, rn_stop_reason := fz_stop_reason f,
     rn_is_partial := fz_is_partial f, rn_report_artifact_id := fz_report_artifact_id f,
     rn_evidence_graph_artifact_id := fz_evidence_graph_artifact_id f,
     rn_manifest_artifact_id := fz_manifest_artifact_id f,
     rn_final_usage := Some (fz_final_usage f), rn_error_code := fz_error_code f,
     rn_updated_at := t\<rparr>"

definition terminal_event :: "int \<Rightarrow> string \<Rightarrow> run_finalization \<Rightarrow> terminal_event_draft \<Rightarrow> run_event" where
  "terminal_event s i f d =
     \<lparr>ev_seq = s, ev_run_id = i, ev_timestamp = td_timestamp d, ev_node = td_node d,
      ev_kind = td_kind d, ev_status = fz_status f, ev_public_payload = td_public_payload d,
      ev_usage_delta = usage_zero (ru_cost_usd (fz_final_usage f) \<noteq> None),
      ev_artifact_ids = List.map_filter (\<lambda>x. x) [fz_report_artifact_id f,
        fz_evidence_graph_artifact_id f, fz_manifest_artifact_id f],
      ev_error_code = fz_error_code f\<rparr>"

definition finalize_row :: "database \<Rightarrow> run_record \<Rightarrow> run_status \<Rightarrow> run_finalization \<Rightarrow>
    terminal_event_draft \<Rightarrow> store_error + ((run_record \<times> run_event) \<times> database)" where
  "finalize_row db row expected f d =
     rbind (cas db row expected (finalized f (td_timestamp d))) (\<lambda>(saved, db1).
     rbind (lift_store (mk_event (terminal_event (next_seq db1 (rn_run_id row)) (rn_run_id row) f d))) (\<lambda>event.
     rbind (insert_event db1 event) (\<lambda>db2. Inr ((saved, event), db2))))"

definition finalize_run :: "database \<Rightarrow> string \<Rightarrow> run_status \<Rightarrow> run_finalization \<Rightarrow>
    terminal_event_draft \<Rightarrow> store_error + ((run_record \<times> run_event) \<times> database)" where
  "finalize_run db i expected f d =
     (if fz_status f \<notin> set (terminal_targets expected)
      then Inl (StoreExc (ValueError ''finalization is not a legal terminal transition''))
      else rbind (require_run db i (Some expected)) (\<lambda>row. finalize_row db row expected f d))"

section \<open>Admissions and events (\<^verbatim>\<open>bind_admission\<close>, \<^verbatim>\<open>clear_admission\<close>, \<^verbatim>\<open>append_event\<close>)\<close>

definition bind_admission ::
    "database \<Rightarrow> string \<Rightarrow> run_status \<Rightarrow> admission \<Rightarrow> store_error + (run_record \<times> database)" where
  "bind_admission db i expected a =
     rbind (require_run db i (Some expected)) (\<lambda>row.
       cas db row expected (\<lambda>r. r\<lparr>rn_admission_reservation_id := ad_reservation_id a,
                                  rn_admission_attempt_no := ad_attempt_no a\<rparr>))"

definition clear_admission ::
    "database \<Rightarrow> string \<Rightarrow> string option \<Rightarrow> store_error + (run_record \<times> database)" where
  "clear_admission db i rid =
     rbind (require_run db i None) (\<lambda>row.
       if rid = None \<or> rn_admission_reservation_id row \<noteq> rid then Inr (row, db)
       else cas db row (rn_status row) (\<lambda>r. r\<lparr>rn_admission_reservation_id := None,
                                             rn_admission_attempt_no := None\<rparr>))"

definition append_event :: "database \<Rightarrow> run_event \<Rightarrow> store_error + (run_event \<times> database)" where
  "append_event db e =
     (if next_seq db (ev_run_id e) < ev_seq e
      then Inl (StoreExc (ValueError ''event sequence is not next''))
      else rbind (insert_event db e) (\<lambda>db'. Inr (e, db')))"

section \<open>The cost ledger (\<^verbatim>\<open>reserve_daily_cost\<close>, \<^verbatim>\<open>settle_daily_cost\<close>, \<^verbatim>\<open>release_daily_cost\<close>)\<close>

definition check_amount :: "decimal \<Rightarrow> store_error + unit" where
  "check_amount v =
     require (isfinite v \<and> \<not> flt v (Fin 0))
       (StoreExc (ValueError ''daily cost values must be finite and non-negative''))"

definition counted :: "ledger_row \<Rightarrow> bool" where
  "counted r \<longleftrightarrow> ul_state r \<in> {LedgerReserved, LedgerSettled}"

definition day_total :: "ledger_row list \<Rightarrow> int \<Rightarrow> decimal" where
  "day_total rows day = fold (\<lambda>r acc. dadd acc (ul_amount r)) (filter (\<lambda>r. ul_day r = day \<and> counted r) rows) (Fin 0)"

definition next_attempt :: "ledger_row list \<Rightarrow> int" where
  "next_attempt attempts = (case map ul_attempt_no attempts of [] \<Rightarrow> 0 | a # as \<Rightarrow> fold max as a) + 1"

definition insert_ledger :: "database \<Rightarrow> ledger_row \<Rightarrow> store_error + database" where
  "insert_ledger db r =
     (if list_ex (\<lambda>s. ul_reservation_id s = ul_reservation_id r \<or>
           ul_day s = ul_day r \<and> ul_run_id s = ul_run_id r \<and> ul_attempt_no s = ul_attempt_no r) (db_ledger db)
      then Inl IntegrityError
      else Inr (db\<lparr>db_ledger := db_ledger db @ [r]\<rparr>))"

definition reserve_daily_cost :: "string \<Rightarrow> database \<Rightarrow> int \<Rightarrow> string \<Rightarrow> decimal \<Rightarrow> decimal \<Rightarrow>
    store_error + (admission \<times> database)" where
  "reserve_daily_cost uuid db day i amount limit =
     rbind (check_amount amount) (\<lambda>_. rbind (check_amount limit) (\<lambda>_.
     let attempts = filter (\<lambda>r. ul_run_id r = i) (db_ledger db) in
     case find (\<lambda>r. ul_state r = LedgerReserved) attempts of
       Some r \<Rightarrow> Inr (\<lparr>ad_reservation_id = Some (ul_reservation_id r),
                       ad_attempt_no = Some (ul_attempt_no r)\<rparr>, db)
     | None \<Rightarrow>
         if flt limit (dadd (day_total (db_ledger db) day) amount) then Inl DailyCostLimitExceeded
         else let attempt = next_attempt attempts in
           rbind (insert_ledger db \<lparr>ul_reservation_id = uuid, ul_day = day, ul_run_id = i,
               ul_attempt_no = attempt, ul_amount = amount, ul_state = LedgerReserved\<rparr>) (\<lambda>db'.
           Inr (\<lparr>ad_reservation_id = Some uuid, ad_attempt_no = Some attempt\<rparr>, db'))))"

definition ledger_row_of :: "database \<Rightarrow> string \<Rightarrow> store_error + ledger_row" where
  "ledger_row_of db rid =
     (case find (\<lambda>r. ul_reservation_id r = rid) (db_ledger db) of
        None \<Rightarrow> Inl (StoreExc (KeyError rid)) | Some r \<Rightarrow> Inr r)"

definition update_reserved :: "database \<Rightarrow> string \<Rightarrow> (ledger_row \<Rightarrow> ledger_row) \<Rightarrow> database" where
  "update_reserved db rid f =
     db\<lparr>db_ledger := map (\<lambda>r. if ul_reservation_id r = rid \<and> ul_state r = LedgerReserved then f r else r)
                        (db_ledger db)\<rparr>"

definition settle_daily_cost :: "database \<Rightarrow> string \<Rightarrow> decimal \<Rightarrow> store_error + database" where
  "settle_daily_cost db rid actual =
     rbind (check_amount actual) (\<lambda>_. rbind (ledger_row_of db rid) (\<lambda>_.
     Inr (update_reserved db rid (\<lambda>r. r\<lparr>ul_amount := actual, ul_state := LedgerSettled\<rparr>))))"

definition release_daily_cost :: "database \<Rightarrow> string \<Rightarrow> store_error + database" where
  "release_daily_cost db rid =
     rbind (ledger_row_of db rid) (\<lambda>_.
     Inr (update_reserved db rid (\<lambda>r. r\<lparr>ul_state := LedgerReleased\<rparr>)))"

definition ledger_state_of :: "database \<Rightarrow> string \<Rightarrow> store_error + ledger_state" where
  "ledger_state_of db rid = rbind (ledger_row_of db rid) (\<lambda>r. Inr (ul_state r))"

section \<open>Restart recovery (\<^verbatim>\<open>reconcile_startup\<close>)\<close>

definition read_events :: "database \<Rightarrow> string \<Rightarrow> store_error + run_event list" where
  "read_events db i = lift_store (mapM mk_event (run_events db i))"

definition interrupt_stale :: "timestamp \<Rightarrow> database \<Rightarrow> run_record \<Rightarrow> store_error + database" where
  "interrupt_stale now db row =
     rbind (read_events db (rn_run_id row)) (\<lambda>events.
     rbind (lift_store (recover_usage (rn_final_usage row) events (rn_status row = Queued))) (\<lambda>usage.
     rbind (finalize_row db row (rn_status row)
       \<lparr>fz_status = Interrupted, fz_stop_reason = None, fz_is_partial = (rn_status row = Running),
        fz_report_artifact_id = rn_report_artifact_id row,
        fz_evidence_graph_artifact_id = rn_evidence_graph_artifact_id row,
        fz_manifest_artifact_id = rn_manifest_artifact_id row,
        fz_final_usage = usage,
        fz_error_code = Some ''PROCESS_RESTART''\<rparr>
       \<lparr>td_timestamp = now, td_node = ''startup'', td_kind = ''run_interrupted'', td_public_payload = []\<rparr>)
     (\<lambda>(_, db'). Inr db')))"

definition stale_rows :: "database \<Rightarrow> run_record list" where
  "stale_rows db =
     sort_key rn_run_id (filter (\<lambda>r. rn_status r \<in> {Queued, Running}) (dvalues (db_runs db)))"

definition change_ledger_row :: "database \<Rightarrow> string \<Rightarrow> (ledger_row \<Rightarrow> ledger_row) \<Rightarrow> database" where
  "change_ledger_row db rid f =
     db\<lparr>db_ledger := map (\<lambda>s. if ul_reservation_id s = rid then f s else s) (db_ledger db)\<rparr>"

definition reconcile_reservation ::
    "database \<times> string list \<Rightarrow> ledger_row \<Rightarrow> store_error + (database \<times> string list)" where
  "reconcile_reservation acc res =
     (let (db, released) = acc in
      case dget (db_runs db) (ul_run_id res) of
        None \<Rightarrow> Inr (change_ledger_row db (ul_reservation_id res) (\<lambda>s. s\<lparr>ul_state := LedgerReleased\<rparr>),
                      released @ [ul_reservation_id res])
      | Some row \<Rightarrow>
          if rn_status row \<in> {Interrupted, Completed, Failed, Cancelled}
          then rbind (read_events db (rn_run_id row)) (\<lambda>events.
            rbind (lift_store (recover_usage (rn_final_usage row) events False)) (\<lambda>usage.
            let db1 = db\<lparr>db_runs := dput (rn_run_id row) (row\<lparr>rn_final_usage := Some usage\<rparr>) (db_runs db)\<rparr>
            in Inr (case ru_cost_usd usage of
                      None \<Rightarrow> db1
                    | Some c \<Rightarrow> change_ledger_row db1 (ul_reservation_id res)
                                  (\<lambda>s. s\<lparr>ul_amount := c, ul_state := LedgerSettled\<rparr>), released)))
          else Inr (db, released))"

definition reconcile_startup :: "timestamp \<Rightarrow> database \<Rightarrow> store_error + (startup_recovery \<times> database)" where
  "reconcile_startup now db =
     rbind (foldM (interrupt_stale now) db (stale_rows db)) (\<lambda>db1.
     rbind (foldM reconcile_reservation (db1, [])
              (filter (\<lambda>r. ul_state r = LedgerReserved) (db_ledger db1))) (\<lambda>(db2, released).
     Inr (\<lparr>sr_interrupted_run_ids = map rn_run_id (stale_rows db),
           sr_released_orphan_reservation_ids = sort released\<rparr>, db2)))"

end
