(* ===== verification/Run_Store_Inv.thy ===== *)
theory Run_Store_Inv
  imports Run_Store
begin

text \<open>
  The invariant of the durable run store: usage recovered from events is valid, and every single
  operation keeps the three tables consistent (keys and indexes unique, the events of a run
  numbered from 1 without a gap, at most one open reservation per run).
\<close>

section \<open>Recovered usage\<close>

definition event_ok :: "run_event \<Rightarrow> bool" where
  "event_ok e \<longleftrightarrow> ts_utc_offset (ev_timestamp e) \<noteq> None \<and> valid_usage (ev_usage_delta e)"

lemma mk_event_Inr:
  "mk_event e = Inr f \<longleftrightarrow> event_ok e \<and>
     f = e\<lparr>ev_public_payload := freeze_mapping (thaw_mapping (ev_public_payload e))\<rparr>"
  by (cases "ts_utc_offset (ev_timestamp e)")
    (auto simp: mk_event_def event_ok_def require_timezone_def res_simps mk_usage_Inr)

lemma mapM_mk_event:
  "list_all event_ok es \<Longrightarrow> \<exists>fs. mapM mk_event es = Inr fs \<and> list_all event_ok fs \<and>
     map ev_usage_delta fs = map ev_usage_delta es \<and> map ev_seq fs = map ev_seq es"
proof (induction es)
  case (Cons e es)
  then obtain fs where "mapM mk_event es = Inr fs" "list_all event_ok fs"
    "map ev_usage_delta fs = map ev_usage_delta es" "map ev_seq fs = map ev_seq es" by auto
  moreover obtain f where "mk_event e = Inr f" "event_ok f" "ev_usage_delta f = ev_usage_delta e"
    "ev_seq f = ev_seq e" using Cons.prems by (auto simp: mk_event_Inr event_ok_def)
  ultimately show ?case by simp
qed simp

definition usage_base :: "resource_usage option \<Rightarrow> run_event list \<Rightarrow> bool \<Rightarrow> resource_usage" where
  "usage_base final_usage events never_started =
     (case final_usage of Some u \<Rightarrow> u | None \<Rightarrow> usage_zero (never_started \<and> events = []))"

lemma recover_int_bounds:
  "f base \<le> recover_int f base es" "sum_list (map (\<lambda>e. f (ev_usage_delta e)) es) \<le> recover_int f base es"
  by (simp_all add: recover_int_def)

lemma recover_int_mono:
  assumes "f base \<le> g base" "\<forall>e\<in>set es. f (ev_usage_delta e) \<le> g (ev_usage_delta e)"
  shows "recover_int f base es \<le> recover_int g base es"
proof -
  have "sum_list (map (\<lambda>e. f (ev_usage_delta e)) es) \<le> sum_list (map (\<lambda>e. g (ev_usage_delta e)) es)"
    using assms(2) by (induction es) (auto intro: add_mono)
  with assms(1) show ?thesis by (auto simp: recover_int_def)
qed

lemma fle_flt_trans: "fle a b \<Longrightarrow> flt b c \<Longrightarrow> fle a c"
  by (cases a; cases b; cases c) auto

lemma fmax_ge: "fle a b \<Longrightarrow> fle a (fmax b c)"
  by (auto simp: fmax_def intro: fle_flt_trans)

lemma recover_usage_valid:
  assumes "case final_usage of None \<Rightarrow> True | Some u \<Rightarrow> valid_usage u" "list_all event_ok events"
  shows "valid_usage (recovered_usage final_usage events never)"
proof -
  let ?b = "usage_base final_usage events never"
  have b: "valid_usage ?b" using assms(1) by (auto simp: usage_base_def split: option.splits)
  have e: "\<forall>e\<in>set events. valid_usage (ev_usage_delta e)" using assms(2) by (auto simp: list_all_iff event_ok_def)
  have nn: "0 \<le> recover_int f ?b events" if "\<And>u. valid_usage u \<Longrightarrow> 0 \<le> f u" for f
    using that b recover_int_bounds(1) [of f ?b events] by force
  have c: "recover_int ru_cached_tokens ?b events \<le> recover_int ru_input_tokens ?b events"
    using b e by (intro recover_int_mono) (auto simp: valid_usage_def)
  have w: "fle (Fin 0) (fmax (ru_wall_seconds ?b) x)" for x
    using b by (intro fmax_ge) (auto simp: valid_usage_def usage_fields_ok_def)
  show ?thesis
    using b c w unfolding recovered_usage_def usage_base_def [symmetric] Let_def
    by (auto simp: valid_usage_def usage_fields_ok_def intro!: nn add_nonneg_nonneg)
qed

lemma recover_usage_Inr:
  "case final_usage of None \<Rightarrow> True | Some u \<Rightarrow> valid_usage u \<Longrightarrow> list_all event_ok events \<Longrightarrow>
   recover_usage final_usage events never = Inr (recovered_usage final_usage events never)"
  unfolding recover_usage_def by (rule mk_usage_valid, rule recover_usage_valid)

text \<open>
  Usage recovered after a crash is a valid usage and a lower bound of what was consumed: for
  a valid recorded usage and valid persisted events, the final validation passes, every counter is the larger of the recorded
  value and the sum over the events, the token total again adds up, and the cost is the recorded
  one; without a recorded usage the cost is known (to be zero) only for a run that never started
  and has no event.
\<close>

theorem recover_usage_sound:
  assumes "case final_usage of None \<Rightarrow> True | Some u \<Rightarrow> valid_usage u" "list_all event_ok events"
    and "r = recovered_usage final_usage events never_started"
  shows "recover_usage final_usage events never_started = Inr r \<and> valid_usage r \<and>
    (\<forall>f \<in> {ru_input_tokens, ru_output_tokens, ru_reasoning_tokens, ru_cached_tokens, ru_search_calls,
           ru_pages, ru_retries}.
       f r = max (case final_usage of None \<Rightarrow> 0 | Some u \<Rightarrow> f u) (\<Sum>e\<leftarrow>events. f (ev_usage_delta e))) \<and>
    (\<forall>u. final_usage = Some u \<longrightarrow> fle (ru_wall_seconds u) (ru_wall_seconds r) \<and>
       ru_total_tokens u \<le> ru_total_tokens r \<and> ru_cost_usd r = ru_cost_usd u) \<and>
    (final_usage = None \<longrightarrow> ru_cost_usd r = (if never_started \<and> events = [] then Some (Fin 0) else None))"
proof (intro conjI)
  show "valid_usage r" using recover_usage_valid [OF assms(1,2)] assms(3) by simp
  show "recover_usage final_usage events never_started = Inr r"
    using recover_usage_Inr [OF assms(1,2)] assms(3) by simp
  show "\<forall>u. final_usage = Some u \<longrightarrow> fle (ru_wall_seconds u) (ru_wall_seconds r) \<and>
       ru_total_tokens u \<le> ru_total_tokens r \<and> ru_cost_usd r = ru_cost_usd u"
  proof (intro allI impI)
    fix u assume u: "final_usage = Some u"
    then have "fle (Fin 0) (ru_wall_seconds u)" "valid_usage u"
      using assms(1) by (auto simp: valid_usage_def usage_fields_ok_def)
    moreover from this have "fle (ru_wall_seconds u) (ru_wall_seconds u)"
      by (cases "ru_wall_seconds u") auto
    ultimately show "fle (ru_wall_seconds u) (ru_wall_seconds r) \<and>
       ru_total_tokens u \<le> ru_total_tokens r \<and> ru_cost_usd r = ru_cost_usd u"
      using recover_int_bounds(1) [of ru_input_tokens u events] recover_int_bounds(1) [of ru_output_tokens u events]
        recover_int_bounds(1) [of ru_reasoning_tokens u events]
      by (auto simp: assms(3) u recovered_usage_def Let_def valid_usage_def intro!: fmax_ge)
  qed
qed (auto simp: assms(3) recovered_usage_def recover_int_def Let_def usage_zero_def split: option.splits)

definition demo_time :: timestamp where
  "demo_time = \<lparr>ts_utc_offset = Some 0, ts_instant = 0\<rparr>"

definition demo_event :: "int \<Rightarrow> run_event" where
  "demo_event s = \<lparr>ev_seq = s, ev_run_id = ''run'', ev_timestamp = demo_time, ev_node = ''n'',
     ev_kind = ''k'', ev_status = Running, ev_public_payload = [],
     ev_usage_delta = (usage_zero False)\<lparr>ru_pages := 2\<rparr>, ev_artifact_ids = [], ev_error_code = None\<rparr>"

lemma event_ok_demo [simp]: "event_ok (demo_event s)"
  by (simp add: event_ok_def demo_event_def demo_time_def usage_zero_def valid_usage_def usage_fields_ok_def)

lemma demo_event_simps [simp]:
  "ru_pages (ev_usage_delta (demo_event s)) = 2" "ev_seq (demo_event s) = s"
  "ev_run_id (demo_event s) = ''run''"
  by (simp_all add: demo_event_def)

theorem recover_usage_sound_witness:
  "\<exists>r. recover_usage None [demo_event 1, demo_event 2] True = Inr r \<and> ru_pages r = 4"
  using recover_usage_sound [of None "[demo_event 1, demo_event 2]"
      "recovered_usage None [demo_event 1, demo_event 2] True" True]
  by simp

section \<open>Operations as one step relation\<close>

datatype store_op =
    OpCreate run_record
  | OpTransition string run_status run_status
  | OpFinalize string run_status run_finalization terminal_event_draft
  | OpBind string run_status admission
  | OpClear string "string option"
  | OpAppend run_event
  | OpReserve string int string decimal decimal
  | OpSettle string decimal
  | OpRelease string
  | OpReconcile timestamp

text \<open>The database after an operation: the new one, or the old one when it raised.\<close>

definition keep_db :: "database \<Rightarrow> store_error + database \<Rightarrow> database" where
  "keep_db db r = (case r of Inl _ \<Rightarrow> db | Inr db' \<Rightarrow> db')"

definition fst_db :: "store_error + ('a \<times> database) \<Rightarrow> store_error + database" where
  "fst_db r = rbind r (\<lambda>(_, db). Inr db)"

fun store_step :: "database \<Rightarrow> store_op \<Rightarrow> store_error + database" where
  "store_step db (OpCreate r) = fst_db (create_run db r)"
| "store_step db (OpTransition i s t) = fst_db (store_transition db i s t)"
| "store_step db (OpFinalize i s f d) = fst_db (finalize_run db i s f d)"
| "store_step db (OpBind i s a) = fst_db (bind_admission db i s a)"
| "store_step db (OpClear i rid) = fst_db (clear_admission db i rid)"
| "store_step db (OpAppend e) = fst_db (append_event db e)"
| "store_step db (OpReserve uuid day i a l) = fst_db (reserve_daily_cost uuid db day i a l)"
| "store_step db (OpSettle rid a) = settle_daily_cost db rid a"
| "store_step db (OpRelease rid) = release_daily_cost db rid"
| "store_step db (OpReconcile now) = fst_db (reconcile_startup now db)"

definition run_store_ops :: "database \<Rightarrow> store_op list \<Rightarrow> database" where
  "run_store_ops db ops = foldl (\<lambda>d op. keep_db d (store_step d op)) db ops"

text \<open>What the callers hand over: validated values, and events numbered from 1.\<close>

fun op_ok :: "store_op \<Rightarrow> bool" where
  "op_ok (OpCreate r) \<longleftrightarrow> (case rn_final_usage r of None \<Rightarrow> True | Some u \<Rightarrow> valid_usage u)"
| "op_ok (OpFinalize i s f d) \<longleftrightarrow> valid_usage (fz_final_usage f)"
| "op_ok (OpAppend e) \<longleftrightarrow> event_ok e \<and> 1 \<le> ev_seq e"
| "op_ok (OpReconcile now) \<longleftrightarrow> ts_utc_offset now \<noteq> None"
| "op_ok _ \<longleftrightarrow> True"

section \<open>Invariants of the three tables\<close>

definition runs_inv :: "(string, run_record) dict \<Rightarrow> bool" where
  "runs_inv d \<longleftrightarrow> distinct (dkeys d) \<and>
     (\<forall>k r. dget d k = Some r \<longrightarrow> rn_run_id r = k \<and>
        (case rn_final_usage r of None \<Rightarrow> True | Some u \<Rightarrow> valid_usage u)) \<and>
     (\<forall>k r k' r' x. dget d k = Some r \<and> dget d k' = Some r' \<and> rn_idempotency_key r = Some x \<and>
        rn_idempotency_key r' = Some x \<and> rn_idempotency_scope_sha256 r = rn_idempotency_scope_sha256 r' \<longrightarrow> k = k')"

definition events_inv :: "run_event list \<Rightarrow> bool" where
  "events_inv es \<longleftrightarrow> list_all event_ok es \<and>
     (\<forall>i. let ei = filter (\<lambda>e. ev_run_id e = i) es in map ev_seq ei = [1..int (length ei)])"

definition ledger_inv :: "ledger_row list \<Rightarrow> bool" where
  "ledger_inv rows \<longleftrightarrow> distinct (map ul_reservation_id rows) \<and>
     distinct (map (\<lambda>r. (ul_run_id r, ul_attempt_no r)) rows) \<and>
     distinct (map ul_run_id (filter (\<lambda>r. ul_state r = LedgerReserved) rows))"

definition store_inv :: "database \<Rightarrow> bool" where
  "store_inv db \<longleftrightarrow> runs_inv (db_runs db) \<and> events_inv (db_events db) \<and> ledger_inv (db_ledger db)"

lemma store_inv_empty [simp]: "store_inv empty_db"
  by (simp add: store_inv_def runs_inv_def events_inv_def ledger_inv_def empty_db_def)

text \<open>A row may be replaced by one that keeps its key, its idempotency key and its scope.\<close>

definition keeps_identity :: "(run_record \<Rightarrow> run_record) \<Rightarrow> bool" where
  "keeps_identity f \<longleftrightarrow> (\<forall>r. rn_run_id (f r) = rn_run_id r \<and> rn_idempotency_key (f r) = rn_idempotency_key r \<and>
     rn_idempotency_scope_sha256 (f r) = rn_idempotency_scope_sha256 r)"

lemma runs_inv_unique:
  "runs_inv d \<Longrightarrow> dget d k = Some r \<Longrightarrow> dget d k' = Some r' \<Longrightarrow> rn_idempotency_key r = Some x \<Longrightarrow>
   rn_idempotency_key r' = Some x \<Longrightarrow>
   rn_idempotency_scope_sha256 r = rn_idempotency_scope_sha256 r' \<Longrightarrow> k = k'"
  unfolding runs_inv_def by blast

lemma runs_inv_row:
  "runs_inv d \<Longrightarrow> dget d k = Some r \<Longrightarrow> rn_run_id r = k \<and>
     (case rn_final_usage r of None \<Rightarrow> True | Some u \<Rightarrow> valid_usage u)"
  unfolding runs_inv_def by blast

lemma runs_invI:
  assumes "distinct (dkeys d)"
    and "\<And>k r. dget d k = Some r \<Longrightarrow> rn_run_id r = k \<and>
           (case rn_final_usage r of None \<Rightarrow> True | Some u \<Rightarrow> valid_usage u)"
    and "\<And>k r k' r' x. dget d k = Some r \<Longrightarrow> dget d k' = Some r' \<Longrightarrow> rn_idempotency_key r = Some x \<Longrightarrow>
           rn_idempotency_key r' = Some x \<Longrightarrow>
           rn_idempotency_scope_sha256 r = rn_idempotency_scope_sha256 r' \<Longrightarrow> k = k'"
  shows "runs_inv d"
  using assms unfolding runs_inv_def by blast

lemma runs_inv_update:
  assumes "runs_inv d" "dget d k = Some cur" "rn_run_id r = k"
    and "rn_idempotency_key r = rn_idempotency_key cur"
    and "rn_idempotency_scope_sha256 r = rn_idempotency_scope_sha256 cur"
    and "case rn_final_usage r of None \<Rightarrow> True | Some u \<Rightarrow> valid_usage u"
  shows "runs_inv (dput k r d)"
proof (rule runs_invI)
  show "distinct (dkeys (dput k r d))"
    using assms(1) by (simp add: runs_inv_def distinct_dkeys_dput)
next
  fix k' r' assume "dget (dput k r d) k' = Some r'"
  then show "rn_run_id r' = k' \<and> (case rn_final_usage r' of None \<Rightarrow> True | Some u \<Rightarrow> valid_usage u)"
    using runs_inv_row [OF assms(1), of k' r'] assms(3,6) by (simp split: if_splits)
next
  have old: "\<exists>r0. dget d k' = Some r0 \<and> rn_idempotency_key r0 = rn_idempotency_key r' \<and>
      rn_idempotency_scope_sha256 r0 = rn_idempotency_scope_sha256 r'"
    if "dget (dput k r d) k' = Some r'" for k' r'
    using that assms(2,4,5) by (simp split: if_splits)
  fix k1 r1 k2 r2 x
  assume asm: "dget (dput k r d) k1 = Some r1" "dget (dput k r d) k2 = Some r2"
    "rn_idempotency_key r1 = Some x" "rn_idempotency_key r2 = Some x"
    "rn_idempotency_scope_sha256 r1 = rn_idempotency_scope_sha256 r2"
  from old [OF asm(1)] obtain s1 where s1: "dget d k1 = Some s1"
    "rn_idempotency_key s1 = rn_idempotency_key r1"
    "rn_idempotency_scope_sha256 s1 = rn_idempotency_scope_sha256 r1" by blast
  from old [OF asm(2)] obtain s2 where s2: "dget d k2 = Some s2"
    "rn_idempotency_key s2 = rn_idempotency_key r2"
    "rn_idempotency_scope_sha256 s2 = rn_idempotency_scope_sha256 r2" by blast
  show "k1 = k2"
    by (rule runs_inv_unique [OF assms(1) s1(1) s2(1), of x]) (simp_all add: s1 s2 asm)
qed

lemma cas_cases:
  assumes "cas db row expected f = Inr (saved, db')"
  obtains cur where "dget (db_runs db) (rn_run_id row) = Some cur" "rn_status cur = expected"
    "rn_version cur = rn_version row" "saved = (f cur)\<lparr>rn_version := rn_version row + 1\<rparr>"
    "db' = db\<lparr>db_runs := dput (rn_run_id row) saved (db_runs db)\<rparr>"
  using assms by (auto simp: cas_def Let_def split: option.splits if_splits)

lemma cas_inv:
  assumes "cas db row expected f = Inr (saved, db')" "store_inv db" "keeps_identity f"
    and "\<And>cur. case rn_final_usage cur of None \<Rightarrow> True | Some u \<Rightarrow> valid_usage u \<Longrightarrow>
           case rn_final_usage (f cur) of None \<Rightarrow> True | Some u \<Rightarrow> valid_usage u"
  shows "store_inv db'"
  using assms(1)
proof (cases rule: cas_cases)
  case (1 cur)
  have id: "rn_run_id cur = rn_run_id row" "case rn_final_usage cur of None \<Rightarrow> True | Some u \<Rightarrow> valid_usage u"
    using assms(2) 1(1) by (auto simp: store_inv_def runs_inv_def)
  have "runs_inv (dput (rn_run_id row) saved (db_runs db))"
    using assms(2,3) id 1 assms(4) by (intro runs_inv_update [of _ _ cur]) (auto simp: store_inv_def keeps_identity_def)
  with assms(2) 1(5) show ?thesis by (simp add: store_inv_def)
qed

lemma find_None: "List.find P xs = None \<longleftrightarrow> (\<forall>x\<in>set xs. \<not> P x)"
  by (auto simp: find_None_iff)

lemma find_SomeD: "List.find P xs = Some x \<Longrightarrow> x \<in> set xs \<and> P x"
  by (auto simp: find_Some_iff)

lemma dvalues_dget: "distinct (dkeys d) \<Longrightarrow> r \<in> set (dvalues d) \<longleftrightarrow> (\<exists>k. dget d k = Some r)"
  by (auto simp: dget_iff_set) (metis image_eqI snd_conv)

section \<open>Each operation keeps the invariant\<close>

lemma get_by_idempotency_None:
  "runs_inv d \<Longrightarrow> get_by_idempotency \<lparr>db_runs = d, db_events = es, db_ledger = ls\<rparr> s k = None \<longleftrightarrow>
   (\<forall>i r. dget d i = Some r \<longrightarrow> \<not> (rn_idempotency_scope_sha256 r = s \<and> rn_idempotency_key r = Some k))"
  using dvalues_dget [of d] by (auto simp: get_by_idempotency_def find_None runs_inv_def)

lemma create_run_inv:
  assumes "create_run db r = Inr (r', db')" "store_inv db"
    and "case rn_final_usage r of None \<Rightarrow> True | Some u \<Rightarrow> valid_usage u"
  shows "store_inv db'"
proof (cases "dget (db_runs db) (rn_run_id r)")
  case (Some e)
  with assms show ?thesis by (auto simp: create_run_def res_simps split: if_splits)
next
  case None
  with assms(1) have "insert_run db r = Inr db'" by (auto simp: create_run_def res_simps)
  then have free: "idempotency_free db r" and db': "db' = db\<lparr>db_runs := db_runs db @ [(rn_run_id r, r)]\<rparr>"
    by (auto simp: insert_run_def split: if_splits)
  let ?d = "db_runs db @ [(rn_run_id r, r)]"
  have inv: "runs_inv (db_runs db)" using assms(2) by (simp add: store_inv_def)
  have look: "dget ?d = (dget (db_runs db))(rn_run_id r \<mapsto> r)"
    using None by (auto simp: fun_eq_iff map_add_def split: option.splits)
  have other: "\<not> (rn_idempotency_scope_sha256 q = rn_idempotency_scope_sha256 r \<and> rn_idempotency_key q = Some x)"
    if "dget (db_runs db) k = Some q" "rn_idempotency_key r = Some x" for k q x
    using free that get_by_idempotency_None [OF inv, of "db_events db" "db_ledger db"]
    by (cases db) (auto simp: idempotency_free_def)
  have "runs_inv ?d"
    unfolding runs_inv_def look
  proof (intro conjI allI impI)
    show "distinct (dkeys ?d)"
      using inv None by (auto simp: runs_inv_def map_of_eq_None_iff)
    fix k q k' q' x
    assume "((dget (db_runs db))(rn_run_id r \<mapsto> r)) k = Some q \<and>
       ((dget (db_runs db))(rn_run_id r \<mapsto> r)) k' = Some q' \<and> rn_idempotency_key q = Some x \<and>
       rn_idempotency_key q' = Some x \<and> rn_idempotency_scope_sha256 q = rn_idempotency_scope_sha256 q'"
    then show "k = k'"
      using other [of k q x] other [of k' q' x] runs_inv_unique [OF inv, of k q k' q' x]
      by (auto split: if_splits)
  next
    fix k q assume q: "((dget (db_runs db))(rn_run_id r \<mapsto> r)) k = Some q"
    then show "rn_run_id q = k" using inv by (auto simp: runs_inv_def split: if_splits)
    show "case rn_final_usage q of None \<Rightarrow> True | Some u \<Rightarrow> valid_usage u"
      using q inv assms(3) by (auto simp: runs_inv_def split: if_splits)
  qed
  with assms(2) db' show ?thesis by (simp add: store_inv_def)
qed

lemma transition_inv:
  assumes "store_transition db i s t = Inr (saved, db')" "store_inv db"
  shows "store_inv db'"
proof -
  from assms(1) obtain row where "cas db row s (\<lambda>r. r\<lparr>rn_status := t\<rparr>) = Inr (saved, db')"
    by (auto simp: store_transition_def res_simps split: if_splits)
  then show ?thesis by (rule cas_inv [OF _ assms(2)]) (simp_all add: keeps_identity_def)
qed

lemma bind_inv:
  assumes "bind_admission db i s a = Inr (saved, db')" "store_inv db"
  shows "store_inv db'"
proof -
  from assms(1) obtain row where "cas db row s (\<lambda>r. r\<lparr>rn_admission_reservation_id := ad_reservation_id a,
      rn_admission_attempt_no := ad_attempt_no a\<rparr>) = Inr (saved, db')"
    by (auto simp: bind_admission_def res_simps)
  then show ?thesis by (rule cas_inv [OF _ assms(2)]) (simp_all add: keeps_identity_def)
qed

lemma clear_inv:
  assumes "clear_admission db i rid = Inr (saved, db')" "store_inv db"
  shows "store_inv db'"
proof -
  from assms(1) consider "db' = db" | row where
    "cas db row (rn_status row) (\<lambda>r. r\<lparr>rn_admission_reservation_id := None,
       rn_admission_attempt_no := None\<rparr>) = Inr (saved, db')"
    by (auto simp: clear_admission_def res_simps split: if_splits)
  then show ?thesis
  proof cases
    case (2 row)
    then show ?thesis by (rule cas_inv [OF _ assms(2)]) (simp_all add: keeps_identity_def)
  qed (use assms in simp)
qed

text \<open>Events.\<close>

lemma fold_max_upto: "fold max [1 + 1..int n] 1 = max 1 (int n)"
proof (induction n)
  case (Suc n)
  show ?case
  proof (cases "1 + 1 \<le> int (Suc n)")
    case True
    then have "[1 + 1..int (Suc n)] = [1 + 1..int n] @ [int (Suc n)]"
      using upto_rec2 [of "1 + 1" "int (Suc n)"] by (simp add: add.commute)
    with Suc True show ?thesis by simp
  next
    case False
    then show ?thesis by simp
  qed
qed simp

lemma run_events_seqs:
  "events_inv (db_events db) \<Longrightarrow> map ev_seq (run_events db i) = [1..int (length (run_events db i))]"
  by (simp add: events_inv_def run_events_def Let_def)

lemma next_seq_eq:
  assumes "events_inv (db_events db)"
  shows "next_seq db i = int (length (run_events db i)) + 1"
proof (cases "run_events db i")
  case Nil
  then show ?thesis by (simp add: next_seq_def max_seq_def)
next
  case (Cons e es)
  then have "[1..int (length (run_events db i))] = 1 # [1 + 1..int (length (run_events db i))]"
    by (simp add: upto_rec1)
  then have "max_seq db i = Some (max 1 (int (length (run_events db i))))"
    using fold_max_upto [of "length (run_events db i)"] run_events_seqs [OF assms, of i]
    by (simp add: max_seq_def)
  with Cons show ?thesis by (simp add: next_seq_def)
qed

lemma dump_event_simps [simp]:
  "ev_seq (dump_event e) = ev_seq e" "ev_run_id (dump_event e) = ev_run_id e"
  "ev_usage_delta (dump_event e) = ev_usage_delta e" "event_ok (dump_event e) = event_ok e"
  "ev_status (dump_event e) = ev_status e" "ev_kind (dump_event e) = ev_kind e"
  by (simp_all add: dump_event_def event_ok_def)

lemma insert_event_inv:
  assumes "insert_event db e = Inr db'" "store_inv db" "event_ok e" "1 \<le> ev_seq e"
    and "ev_seq e \<le> next_seq db (ev_run_id e)"
  shows "store_inv db' \<and> db' = db\<lparr>db_events := db_events db @ [dump_event e]\<rparr> \<and>
    ev_seq e = next_seq db (ev_run_id e)"
proof -
  have inv: "events_inv (db_events db)" using assms(2) by (simp add: store_inv_def)
  have db': "db' = db\<lparr>db_events := db_events db @ [dump_event e]\<rparr>"
    and free: "\<forall>f\<in>set (db_events db). \<not> (ev_run_id f = ev_run_id e \<and> ev_seq f = ev_seq e)"
    using assms(1) by (auto simp: insert_event_def list_ex_iff split: if_splits)
  let ?n = "int (length (run_events db (ev_run_id e)))"
  have "ev_seq e \<notin> set (map ev_seq (run_events db (ev_run_id e)))"
    using free by (auto simp: run_events_def)
  then have "ev_seq e \<notin> {1..?n}" using run_events_seqs [OF inv, of "ev_run_id e"] by (metis set_upto)
  then have s: "ev_seq e = ?n + 1" using assms(4,5) next_seq_eq [OF inv] by auto
  have step: "[1..?n + 1] = [1..?n] @ [?n + 1]" using upto_rec2 [of 1 "?n + 1"] by simp
  have "events_inv (db_events db @ [dump_event e])"
    using inv assms(3) s step unfolding events_inv_def Let_def
    by (auto simp: run_events_def add.commute)
  with assms(2) db' s next_seq_eq [OF inv] show ?thesis by (simp add: store_inv_def)
qed

lemma append_event_inv:
  assumes "append_event db e = Inr (e', db')" "store_inv db" "event_ok e" "1 \<le> ev_seq e"
  shows "store_inv db' \<and> e' = e \<and> ev_seq e = next_seq db (ev_run_id e) \<and>
    db' = db\<lparr>db_events := db_events db @ [dump_event e]\<rparr>"
  using assms(1) insert_event_inv [OF _ assms(2,3,4)]
  by (auto simp: append_event_def res_simps split: if_splits)

lemma finalize_row_cases:
  assumes "finalize_row db row expected f d = Inr ((saved, event), db')" "store_inv db"
    and "valid_usage (fz_final_usage f)"
  obtains cur db1 where "cas db row expected (finalized f (td_timestamp d)) = Inr (saved, db1)"
    "dget (db_runs db) (rn_run_id row) = Some cur" "rn_status cur = expected"
    "rn_version cur = rn_version row" "saved = (finalized f (td_timestamp d) cur)\<lparr>rn_version := rn_version row + 1\<rparr>"
    "db_runs db' = dput (rn_run_id row) saved (db_runs db)" "db_ledger db' = db_ledger db"
    "db_events db' = db_events db @ [dump_event event]"
    "event = (terminal_event (next_seq db (rn_run_id row)) (rn_run_id row) f d)
       \<lparr>ev_public_payload := freeze_mapping (thaw_mapping (td_public_payload d))\<rparr>"
    "store_inv db'"
proof -
  from assms(1) obtain db1 where c: "cas db row expected (finalized f (td_timestamp d)) = Inr (saved, db1)"
    and ev: "mk_event (terminal_event (next_seq db1 (rn_run_id row)) (rn_run_id row) f d) = Inr event"
    and ins: "insert_event db1 event = Inr db'"
    by (auto simp: finalize_row_def res_simps)
  have inv1: "store_inv db1"
    by (rule cas_inv [OF c assms(2)]) (simp_all add: keeps_identity_def finalized_def assms(3))
  from c obtain cur where cur: "dget (db_runs db) (rn_run_id row) = Some cur" "rn_status cur = expected"
    "rn_version cur = rn_version row" "saved = (finalized f (td_timestamp d) cur)\<lparr>rn_version := rn_version row + 1\<rparr>"
    and db1: "db1 = db\<lparr>db_runs := dput (rn_run_id row) saved (db_runs db)\<rparr>"
    by (rule cas_cases)
  have seq: "next_seq db1 (rn_run_id row) = next_seq db (rn_run_id row)"
    by (simp add: db1 next_seq_def max_seq_def run_events_def)
  have e: "event = (terminal_event (next_seq db (rn_run_id row)) (rn_run_id row) f d)
       \<lparr>ev_public_payload := freeze_mapping (thaw_mapping (td_public_payload d))\<rparr>"
    "event_ok event" using ev unfolding seq mk_event_Inr by (simp_all add: terminal_event_def event_ok_def)
  have "events_inv (db_events db)" using assms(2) by (simp add: store_inv_def)
  then have "1 \<le> ev_seq event" "ev_seq event \<le> next_seq db1 (ev_run_id event)"
    using e(1) seq next_seq_eq [of db "rn_run_id row"] by (simp_all add: terminal_event_def)
  from insert_event_inv [OF ins inv1 e(2) this] show thesis
    using that c cur db1 e(1) by auto
qed

text \<open>The ledger.\<close>

lemma fold_max_ge: "x \<in> set (a # as) \<Longrightarrow> x \<le> fold max as a" for x :: int
  using Max_ge [of "set (a # as)" x] unfolding Max.set_eq_fold by simp

lemma next_attempt_fresh: "r \<in> set attempts \<Longrightarrow> ul_attempt_no r < next_attempt attempts"
  using fold_max_ge [of "ul_attempt_no r"] by (cases attempts) (fastforce simp: next_attempt_def)+

definition keeps_row :: "(ledger_row \<Rightarrow> ledger_row) \<Rightarrow> bool" where
  "keeps_row f \<longleftrightarrow> (\<forall>r. ul_reservation_id (f r) = ul_reservation_id r \<and> ul_run_id (f r) = ul_run_id r \<and>
     ul_attempt_no (f r) = ul_attempt_no r \<and> ul_day (f r) = ul_day r \<and>
     (ul_state (f r) = LedgerReserved \<longrightarrow> ul_state r = LedgerReserved))"

lemma ledger_inv_map:
  assumes "ledger_inv rows" "keeps_row f"
  shows "ledger_inv (map f rows)"
proof -
  have same: "map ul_reservation_id (map f rows) = map ul_reservation_id rows"
    "map (\<lambda>r. (ul_run_id r, ul_attempt_no r)) (map f rows) = map (\<lambda>r. (ul_run_id r, ul_attempt_no r)) rows"
    using assms(2) by (simp_all add: keeps_row_def)
  have "map ul_run_id (filter (\<lambda>r. ul_state r = LedgerReserved) (map f rows)) =
      map ul_run_id (filter (\<lambda>r. ul_state (f r) = LedgerReserved) (filter (\<lambda>r. ul_state r = LedgerReserved) rows))"
    using assms(2) by (induction rows) (auto simp: keeps_row_def)
  moreover have "distinct \<dots>" using assms(1) by (rule_tac distinct_map_filter) (simp add: ledger_inv_def)
  ultimately show ?thesis using assms(1) unfolding ledger_inv_def same by metis
qed

lemma reserve_cost_cases:
  assumes "reserve_daily_cost uuid db day i amount limit = Inr (a, db')" "store_inv db"
  obtains (old) r where "r \<in> set (db_ledger db)" "ul_run_id r = i" "ul_state r = LedgerReserved"
    "ad_reservation_id a = Some (ul_reservation_id r)" "db' = db"
  | (new) r where "r = \<lparr>ul_reservation_id = uuid, ul_day = day, ul_run_id = i,
       ul_attempt_no = next_attempt (filter (\<lambda>r. ul_run_id r = i) (db_ledger db)), ul_amount = amount,
       ul_state = LedgerReserved\<rparr>" "db' = db\<lparr>db_ledger := db_ledger db @ [r]\<rparr>"
    "ad_reservation_id a = Some uuid" "\<not> flt limit (dadd (day_total (db_ledger db) day) amount)"
    "\<forall>s\<in>set (db_ledger db). ul_reservation_id s \<noteq> uuid"
    "\<forall>s\<in>set (db_ledger db). ul_run_id s = i \<longrightarrow> ul_state s \<noteq> LedgerReserved" "store_inv db'"
proof (cases "List.find (\<lambda>r. ul_state r = LedgerReserved) (filter (\<lambda>r. ul_run_id r = i) (db_ledger db))")
  case (Some r)
  with assms(1) find_SomeD [OF Some] show thesis
    by (intro old) (auto simp: reserve_daily_cost_def res_simps Let_def)
next
  case None
  let ?as = "filter (\<lambda>r. ul_run_id r = i) (db_ledger db)"
  define r where "r = \<lparr>ul_reservation_id = uuid, ul_day = day, ul_run_id = i,
       ul_attempt_no = next_attempt ?as, ul_amount = amount, ul_state = LedgerReserved\<rparr>"
  have ok: "\<not> flt limit (dadd (day_total (db_ledger db) day) amount)" "insert_ledger db r = Inr db'"
    "ad_reservation_id a = Some uuid"
    using assms(1) None by (auto simp: reserve_daily_cost_def res_simps Let_def r_def split: if_splits)
  then have ins: "db' = db\<lparr>db_ledger := db_ledger db @ [r]\<rparr>"
    "\<forall>s\<in>set (db_ledger db). ul_reservation_id s \<noteq> uuid"
    by (auto simp: insert_ledger_def list_ex_iff r_def split: if_splits)
  have free: "\<forall>s\<in>set (db_ledger db). ul_run_id s = i \<longrightarrow> ul_state s \<noteq> LedgerReserved"
    using None by (auto simp: find_None)
  have fresh: "(i, next_attempt ?as) \<notin> set (map (\<lambda>r. (ul_run_id r, ul_attempt_no r)) (db_ledger db))"
    using next_attempt_fresh [of _ ?as] by fastforce
  have "ledger_inv (db_ledger db @ [r])"
    using assms(2) ins(2) free fresh by (auto simp: store_inv_def ledger_inv_def r_def)
  then have "store_inv db'" using assms(2) ins(1) by (simp add: store_inv_def)
  with ok ins free show thesis by (intro new) (simp_all add: r_def)
qed

lemma update_reserved_inv:
  assumes "store_inv db" "keeps_row f"
  shows "store_inv (update_reserved db rid f)"
proof -
  have "keeps_row (\<lambda>r. if ul_reservation_id r = rid \<and> ul_state r = LedgerReserved then f r else r)"
    using assms(2) by (auto simp: keeps_row_def)
  from ledger_inv_map [OF _ this] assms(1) show ?thesis by (simp add: store_inv_def update_reserved_def)
qed

lemma change_ledger_row_inv:
  assumes "store_inv db" "keeps_row f"
  shows "store_inv (change_ledger_row db rid f)"
proof -
  have "keeps_row (\<lambda>r. if ul_reservation_id r = rid then f r else r)"
    using assms(2) by (auto simp: keeps_row_def)
  from ledger_inv_map [OF _ this] assms(1) show ?thesis by (simp add: store_inv_def change_ledger_row_def)
qed

lemma settle_cost_inv:
  "settle_daily_cost db rid a = Inr db' \<Longrightarrow> store_inv db \<Longrightarrow> store_inv db'"
  by (auto simp: settle_daily_cost_def res_simps keeps_row_def intro!: update_reserved_inv)

lemma release_cost_inv:
  "release_daily_cost db rid = Inr db' \<Longrightarrow> store_inv db \<Longrightarrow> store_inv db'"
  by (auto simp: release_daily_cost_def res_simps keeps_row_def intro!: update_reserved_inv)

text \<open>Restart recovery.\<close>

lemma read_events_ok:
  assumes "store_inv db"
  shows "\<exists>es. read_events db i = Inr es \<and> list_all event_ok es \<and>
    map ev_usage_delta es = map ev_usage_delta (run_events db i)"
proof -
  have "list_all event_ok (run_events db i)"
    using assms by (auto simp: store_inv_def events_inv_def run_events_def list_all_iff)
  from mapM_mk_event [OF this] show ?thesis by (auto simp: read_events_def lift_store_def)
qed

lemma reconcile_reservation_inv:
  assumes "reconcile_reservation (db, rel) res = Inr (db', rel')" "store_inv db"
  shows "store_inv db'"
proof -
  consider "dget (db_runs db) (ul_run_id res) = None"
    | row where "dget (db_runs db) (ul_run_id res) = Some row" "rn_status row \<in> {Interrupted, Completed, Failed, Cancelled}"
    | "db' = db"
    using assms(1) by (auto simp: reconcile_reservation_def split: option.splits if_splits)
  then show ?thesis
  proof cases
    case 1
    with assms show ?thesis
      by (auto simp: reconcile_reservation_def keeps_row_def intro!: change_ledger_row_inv)
  next
    case (2 row)
    have row: "rn_run_id row = ul_run_id res" "case rn_final_usage row of None \<Rightarrow> True | Some u \<Rightarrow> valid_usage u"
      using runs_inv_row [of "db_runs db" "ul_run_id res" row] assms(2) 2(1) by (simp_all add: store_inv_def)
    obtain es where es: "read_events db (rn_run_id row) = Inr es" "list_all event_ok es"
      using read_events_ok [OF assms(2)] by blast
    define u where "u = recovered_usage (rn_final_usage row) es False"
    have rec: "recover_usage (rn_final_usage row) es False = Inr u"
      unfolding u_def by (rule recover_usage_Inr [OF row(2) es(2)])
    define db1 where "db1 = db\<lparr>db_runs := dput (rn_run_id row) (row\<lparr>rn_final_usage := Some u\<rparr>) (db_runs db)\<rparr>"
    have "valid_usage u" unfolding u_def by (rule recover_usage_valid [OF row(2) es(2)])
    then have "store_inv db1"
      using assms(2) runs_inv_update [of "db_runs db" "rn_run_id row" row "row\<lparr>rn_final_usage := Some u\<rparr>"] 2(1) row(1)
      by (simp add: store_inv_def db1_def)
    then have inv: "store_inv (change_ledger_row db1 rid (\<lambda>s. s\<lparr>ul_amount := c, ul_state := LedgerSettled\<rparr>))" for rid c
      by (rule change_ledger_row_inv) (simp add: keeps_row_def)
    from assms(1) 2 es(1) rec have "db' = (case ru_cost_usd u of None \<Rightarrow> db1 | Some c \<Rightarrow>
        change_ledger_row db1 (ul_reservation_id res) (\<lambda>s. s\<lparr>ul_amount := c, ul_state := LedgerSettled\<rparr>))"
      by (cases "ru_cost_usd u") (auto simp: reconcile_reservation_def lift_store_def db1_def Let_def)
    with inv \<open>store_inv db1\<close> show ?thesis by (simp split: option.splits)
  qed (use assms in simp)
qed

end
