(* ===== verification/Run_Store_Correct.thy ===== *)
theory Run_Store_Correct
  imports Run_Store_Inv
begin

text \<open>
  What the durable run store guarantees over every sequence of its operations: a restart leaves
  no run active and accounts for every open reservation, statuses only move along the life
  cycle, the events of a run are numbered without a gap, and the costs counted for a day stay
  within the limit.
\<close>

section \<open>Restart recovery\<close>

lemma insert_event_total:
  assumes "store_inv db" "ev_seq e = next_seq db (ev_run_id e)"
  shows "insert_event db e = Inr (db\<lparr>db_events := db_events db @ [dump_event e]\<rparr>)"
proof -
  have inv: "events_inv (db_events db)" using assms(1) by (simp add: store_inv_def)
  have "ev_seq f \<noteq> ev_seq e" if "f \<in> set (run_events db (ev_run_id e))" for f
  proof -
    have "ev_seq f \<in> set (map ev_seq (run_events db (ev_run_id e)))" using that by simp
    then show ?thesis using assms(2) next_seq_eq [OF inv] run_events_seqs [OF inv, of "ev_run_id e"] by auto
  qed
  then show ?thesis by (auto simp: insert_event_def list_ex_iff run_events_def)
qed

definition aware :: "timestamp \<Rightarrow> bool" where
  "aware t \<longleftrightarrow> ts_utc_offset t \<noteq> None"

lemma finalize_row_total:
  assumes "store_inv db" "dget (db_runs db) (rn_run_id row) = Some row" "aware (td_timestamp d)"
    and "valid_usage (fz_final_usage f)"
  shows "\<exists>saved e db'. finalize_row db row (rn_status row) f d = Inr ((saved, e), db')"
proof -
  define saved where "saved = (finalized f (td_timestamp d) row)\<lparr>rn_version := rn_version row + 1\<rparr>"
  define db1 where "db1 = db\<lparr>db_runs := dput (rn_run_id row) saved (db_runs db)\<rparr>"
  have c: "cas db row (rn_status row) (finalized f (td_timestamp d)) = Inr (saved, db1)"
    using assms(2) by (simp add: cas_def saved_def db1_def Let_def)
  have inv1: "store_inv db1"
    by (rule cas_inv [OF c assms(1)]) (simp_all add: keeps_identity_def finalized_def assms(4))
  let ?t = "terminal_event (next_seq db1 (rn_run_id row)) (rn_run_id row) f d"
  have "event_ok ?t" using assms(3) by (simp add: event_ok_def terminal_event_def aware_def)
  then obtain e where e: "mk_event ?t = Inr e" "ev_seq e = ev_seq ?t" "ev_run_id e = ev_run_id ?t"
    by (simp add: mk_event_Inr)
  then have "insert_event db1 e = Inr (db1\<lparr>db_events := db_events db1 @ [dump_event e]\<rparr>)"
    by (intro insert_event_total inv1) (simp add: terminal_event_def)
  with c e(1) show ?thesis by (simp add: finalize_row_def lift_store_def)
qed

lemma interrupt_stale_step:
  assumes "store_inv db" "dget (db_runs db) (rn_run_id row) = Some row" "aware now"
    and "case rn_final_usage row of None \<Rightarrow> True | Some u \<Rightarrow> valid_usage u"
  shows "\<exists>db' saved e. interrupt_stale now db row = Inr db' \<and> store_inv db' \<and>
    db_ledger db' = db_ledger db \<and> db_runs db' = dput (rn_run_id row) saved (db_runs db) \<and>
    rn_status saved = Interrupted \<and> rn_error_code saved = Some ''PROCESS_RESTART'' \<and>
    db_events db' = db_events db @ [e]"
proof -
  obtain es where es: "read_events db (rn_run_id row) = Inr es" "list_all event_ok es"
    using read_events_ok [OF assms(1)] by blast
  let ?f = "\<lparr>fz_status = Interrupted, fz_stop_reason = None, fz_is_partial = (rn_status row = Running),
        fz_report_artifact_id = rn_report_artifact_id row,
        fz_evidence_graph_artifact_id = rn_evidence_graph_artifact_id row,
        fz_manifest_artifact_id = rn_manifest_artifact_id row,
        fz_final_usage = recovered_usage (rn_final_usage row) es (rn_status row = Queued),
        fz_error_code = Some ''PROCESS_RESTART''\<rparr>"
  let ?d = "\<lparr>td_timestamp = now, td_node = ''startup'', td_kind = ''run_interrupted'', td_public_payload = []\<rparr>"
  have v: "valid_usage (fz_final_usage ?f)" using recover_usage_valid [OF assms(4) es(2)] by simp
  obtain saved e db' where fin: "finalize_row db row (rn_status row) ?f ?d = Inr ((saved, e), db')"
    using finalize_row_total [OF assms(1,2) _ v, of ?d] assms(3) by auto
  have step: "interrupt_stale now db row = Inr db'" by (simp add: interrupt_stale_def es(1) recover_usage_Inr [OF assms(4) es(2)] lift_store_def fin)
  show ?thesis
  proof (rule finalize_row_cases [OF fin assms(1) v])
    fix cur
    assume "saved = (finalized ?f (td_timestamp ?d) cur)\<lparr>rn_version := rn_version row + 1\<rparr>"
      "db_runs db' = dput (rn_run_id row) saved (db_runs db)" "db_ledger db' = db_ledger db"
      "db_events db' = db_events db @ [dump_event e]" "store_inv db'"
    with step show ?thesis by (intro exI [of _ db'] exI [of _ saved] exI [of _ "dump_event e"]) (simp add: finalized_def)
  qed
qed

lemma interrupt_stale_fold:
  assumes "store_inv db" "distinct (map rn_run_id rows)" "aware now"
    and "\<forall>row\<in>set rows. dget (db_runs db) (rn_run_id row) = Some row"
  shows "\<exists>db1. foldM (interrupt_stale now) db rows = Inr db1 \<and> store_inv db1 \<and>
    db_ledger db1 = db_ledger db \<and> prefix (db_events db) (db_events db1) \<and>
    (\<forall>i. if i \<in> rn_run_id ` set rows
         then \<exists>s. dget (db_runs db1) i = Some s \<and> rn_status s = Interrupted \<and> rn_error_code s = Some ''PROCESS_RESTART''
         else dget (db_runs db1) i = dget (db_runs db) i)"
  using assms
proof (induction rows arbitrary: db)
  case (Cons row rows)
  have cur: "dget (db_runs db) (rn_run_id row) = Some row" using Cons.prems(4) by simp
  have "case rn_final_usage row of None \<Rightarrow> True | Some u \<Rightarrow> valid_usage u"
    using runs_inv_row [OF _ cur] Cons.prems(1) by (simp add: store_inv_def)
  from interrupt_stale_step [OF Cons.prems(1) cur Cons.prems(3) this] obtain db' saved e where
    s: "interrupt_stale now db row = Inr db'" "store_inv db'" "db_ledger db' = db_ledger db"
    "db_runs db' = dput (rn_run_id row) saved (db_runs db)" "rn_status saved = Interrupted"
    "rn_error_code saved = Some ''PROCESS_RESTART''" "db_events db' = db_events db @ [e]" by blast
  have rest: "\<forall>r\<in>set rows. dget (db_runs db') (rn_run_id r) = Some r"
    using Cons.prems(2,4) s(4) by (auto simp: image_iff)
  have "distinct (map rn_run_id rows)" using Cons.prems(2) by simp
  from Cons.IH [OF s(2) this Cons.prems(3) rest] obtain db1 where d: "foldM (interrupt_stale now) db' rows = Inr db1"
    "store_inv db1" "db_ledger db1 = db_ledger db'" "prefix (db_events db') (db_events db1)"
    "\<forall>i. if i \<in> rn_run_id ` set rows
         then \<exists>s. dget (db_runs db1) i = Some s \<and> rn_status s = Interrupted \<and> rn_error_code s = Some ''PROCESS_RESTART''
         else dget (db_runs db1) i = dget (db_runs db') i" by blast
  have "prefix (db_events db) (db_events db1)"
    using d(4) s(7) by (metis prefixI prefix_order.trans)
  moreover have "if i \<in> rn_run_id ` set (row # rows)
         then \<exists>s. dget (db_runs db1) i = Some s \<and> rn_status s = Interrupted \<and> rn_error_code s = Some ''PROCESS_RESTART''
         else dget (db_runs db1) i = dget (db_runs db) i" for i
    using d(5) [rule_format, of i] s(4,5,6) by (cases "i \<in> rn_run_id ` set rows") auto
  ultimately show ?case using s(1,3) d(1,2,3) by (intro exI [of _ db1]) simp
qed simp

lemma recover_int_idem:
  "recover_int f u es \<le> f v \<Longrightarrow> f v = recover_int f u es \<Longrightarrow> recover_int f v es = f v"
  by (simp add: recover_int_def)

lemma fmax_idem: "fmax (fmax a b) b = fmax a b"
  by (cases a; cases b) (auto simp: fmax_def)

lemma recover_usage_idem:
  "recovered_usage (Some (recovered_usage fu es n)) es False = recovered_usage fu es n"
  by (simp add: recovered_usage_def Let_def recover_int_def fmax_idem)

lemma recover_usage_cost: "ru_cost_usd (recovered_usage (Some u) es n) = ru_cost_usd u"
  by (simp add: recovered_usage_def Let_def)

text \<open>
  A run whose reservation stays open after a restart: finished, of unknown cost, with its usage
  already recovered.
\<close>

definition accounted :: "database \<Rightarrow> string \<Rightarrow> bool" where
  "accounted db i \<longleftrightarrow> (\<exists>row u es. dget (db_runs db) i = Some row \<and>
     rn_status row \<in> {Interrupted, Completed, Failed, Cancelled} \<and> rn_final_usage row = Some u \<and>
     ru_cost_usd u = None \<and> read_events db i = Inr es \<and> recover_usage (Some u) es False = Inr u)"

definition no_active_run :: "database \<Rightarrow> bool" where
  "no_active_run db \<longleftrightarrow> (\<forall>i r. dget (db_runs db) i = Some r \<longrightarrow> rn_status r \<notin> {Queued, Running})"

lemma read_events_cong: "db_events db' = db_events db \<Longrightarrow> read_events db' i = read_events db i"
  by (simp add: read_events_def run_events_def)

lemma dput_same: "dget d k = Some v \<Longrightarrow> dput k v d = d"
  by (induction d) (auto split: if_splits)

lemma accounted_noop:
  assumes "store_inv db" "accounted db (ul_run_id res)"
  shows "reconcile_reservation (db, rel) res = Inr (db, rel)"
proof -
  from assms(2) obtain row u es where a: "dget (db_runs db) (ul_run_id res) = Some row"
    "rn_status row \<in> {Interrupted, Completed, Failed, Cancelled}" "rn_final_usage row = Some u"
    "ru_cost_usd u = None" "read_events db (ul_run_id res) = Inr es" "recover_usage (Some u) es False = Inr u"
    unfolding accounted_def by blast
  have i: "rn_run_id row = ul_run_id res"
    using runs_inv_row [OF _ a(1)] assms(1) by (simp add: store_inv_def)
  have same: "row\<lparr>rn_final_usage := Some u\<rparr> = row" using a(3) by simp
  have "db\<lparr>db_runs := dput (ul_run_id res) row (db_runs db)\<rparr> = db" using dput_same [OF a(1)] by simp
  then show ?thesis using a(1,2,4) by (simp add: reconcile_reservation_def lift_store_def Let_def i a(3,5,6) same)
qed

lemma reconcile_reservation_step:
  assumes "store_inv db" "no_active_run db"
  shows "\<exists>db' g. reconcile_reservation (db, rel) res =
      Inr (db', if dget (db_runs db) (ul_run_id res) = None then rel @ [ul_reservation_id res] else rel) \<and>
    store_inv db' \<and> db_events db' = db_events db \<and>
    (\<forall>i. map_option rn_status (dget (db_runs db') i) = map_option rn_status (dget (db_runs db) i)) \<and>
    (\<forall>i. accounted db i \<longrightarrow> accounted db' i) \<and> keeps_row g \<and>
    db_ledger db' = map (\<lambda>s. if ul_reservation_id s = ul_reservation_id res then g s else s) (db_ledger db) \<and>
    (\<forall>s. ul_state (g s) \<noteq> LedgerReserved \<or> accounted db' (ul_run_id res))"
proof (cases "dget (db_runs db) (ul_run_id res)")
  case None
  let ?g = "\<lambda>s. s\<lparr>ul_state := LedgerReleased\<rparr>"
  let ?db = "change_ledger_row db (ul_reservation_id res) ?g"
  have st: "reconcile_reservation (db, rel) res = Inr (?db, rel @ [ul_reservation_id res])"
    using None by (simp add: reconcile_reservation_def)
  have inv: "store_inv ?db" by (rule change_ledger_row_inv [OF assms(1)]) (simp add: keeps_row_def)
  have same: "db_runs ?db = db_runs db" "db_events ?db = db_events db"
    "db_ledger ?db = map (\<lambda>s. if ul_reservation_id s = ul_reservation_id res then ?g s else s) (db_ledger db)"
    by (simp_all add: change_ledger_row_def)
  have acc: "\<forall>i. accounted db i \<longrightarrow> accounted ?db i"
    using same(1) read_events_cong [OF same(2)] by (simp add: accounted_def)
  show ?thesis
    by (intro exI [of _ ?db] exI [of _ ?g] conjI st [unfolded None] inv same acc)
      (use st None same(1) in \<open>auto simp: keeps_row_def\<close>)
next
  case (Some row)
  have row: "rn_run_id row = ul_run_id res" "rn_status row \<in> {Interrupted, Completed, Failed, Cancelled}"
    using runs_inv_row [OF _ Some] assms Some unfolding store_inv_def no_active_run_def
    by (simp, cases "rn_status row") auto
  obtain es where es: "read_events db (ul_run_id res) = Inr es" "list_all event_ok es"
    using read_events_ok [OF assms(1)] by blast
  have fu: "case rn_final_usage row of None \<Rightarrow> True | Some u \<Rightarrow> valid_usage u"
    using runs_inv_row [OF _ Some] assms(1) by (simp add: store_inv_def)
  define u where "u = recovered_usage (rn_final_usage row) es False"
  have rec: "recover_usage (rn_final_usage row) es False = Inr u"
    unfolding u_def by (rule recover_usage_Inr [OF fu es(2)])
  have again: "recover_usage (Some u) es False = Inr u"
    using recover_usage_Inr [of "Some u" es False] es(2) recover_usage_valid [OF fu es(2), of False]
      recover_usage_idem [of "rn_final_usage row" es False] by (simp add: u_def)
  define db1 where "db1 = db\<lparr>db_runs := dput (ul_run_id res) (row\<lparr>rn_final_usage := Some u\<rparr>) (db_runs db)\<rparr>"
  define g :: "ledger_row \<Rightarrow> ledger_row" where "g = (\<lambda>s. case ru_cost_usd u of None \<Rightarrow> s
      | Some c \<Rightarrow> s\<lparr>ul_amount := c, ul_state := LedgerSettled\<rparr>)"
  define db' where "db' = change_ledger_row db1 (ul_reservation_id res) g"
  have "change_ledger_row db1 (ul_reservation_id res) (\<lambda>s. s) = db1"
    by (simp add: change_ledger_row_def cong: if_cong)
  then have st: "reconcile_reservation (db, rel) res = Inr (db', rel)"
    using Some row es(1) rec by (cases "ru_cost_usd u")
      (simp_all add: reconcile_reservation_def lift_store_def Let_def db1_def [symmetric] db'_def g_def)
  have same: "db_events db' = db_events db" "db_runs db' = dput (ul_run_id res) (row\<lparr>rn_final_usage := Some u\<rparr>) (db_runs db)"
    "db_ledger db' = map (\<lambda>s. if ul_reservation_id s = ul_reservation_id res then g s else s) (db_ledger db)"
    by (simp_all add: db'_def db1_def change_ledger_row_def)
  have here: "accounted db' (ul_run_id res)" if "ru_cost_usd u = None"
    unfolding accounted_def same(2) read_events_cong [OF same(1)]
    using that row es(1) again
    by (intro exI [of _ "row\<lparr>rn_final_usage := Some u\<rparr>"] exI [of _ u] exI [of _ es]) auto
  have acc: "accounted db' i" if a: "accounted db i" for i
  proof (cases "i = ul_run_id res")
    case True
    with a Some obtain v where v: "rn_final_usage row = Some v" "ru_cost_usd v = None" by (auto simp: accounted_def)
    then have "ru_cost_usd u = None" by (simp add: u_def recover_usage_cost)
    from here [OF this] True show ?thesis by simp
  next
    case False
    then have "dget (db_runs db') i = dget (db_runs db) i" by (simp add: same(2))
    with a show ?thesis unfolding accounted_def read_events_cong [OF same(1)] by simp
  qed
  have "keeps_row g" by (simp add: keeps_row_def g_def split: option.splits)
  moreover have "\<forall>s. ul_state (g s) \<noteq> LedgerReserved \<or> accounted db' (ul_run_id res)"
    using here by (cases "ru_cost_usd u") (simp_all add: g_def)
  moreover have "\<forall>i. map_option rn_status (dget (db_runs db') i) = map_option rn_status (dget (db_runs db) i)"
    using Some by (simp add: same(2))
  moreover have "store_inv db'" using reconcile_reservation_inv [OF st assms(1)] .
  ultimately show ?thesis using st same acc Some
    by (intro exI [of _ db'] exI [of _ g]) simp
qed

lemma keeps_rowD:
  "keeps_row f \<Longrightarrow> ul_reservation_id (f r) = ul_reservation_id r \<and> ul_run_id (f r) = ul_run_id r \<and>
     ul_attempt_no (f r) = ul_attempt_no r \<and> ul_day (f r) = ul_day r \<and>
     (ul_state (f r) = LedgerReserved \<longrightarrow> ul_state r = LedgerReserved)"
  by (simp add: keeps_row_def)

lemma keeps_row_compose:
  assumes "keeps_row g" "keeps_row h"
  shows "keeps_row (\<lambda>s. h (if P s then g s else s))"
  unfolding keeps_row_def
proof
  fix s
  show "ul_reservation_id (h (if P s then g s else s)) = ul_reservation_id s \<and>
    ul_run_id (h (if P s then g s else s)) = ul_run_id s \<and>
    ul_attempt_no (h (if P s then g s else s)) = ul_attempt_no s \<and>
    ul_day (h (if P s then g s else s)) = ul_day s \<and>
    (ul_state (h (if P s then g s else s)) = LedgerReserved \<longrightarrow> ul_state s = LedgerReserved)"
    using keeps_rowD [OF assms(1), of s] keeps_rowD [OF assms(2), of "if P s then g s else s"]
    by (cases "P s") simp_all
qed

lemma reconcile_reservation_fold:
  assumes "store_inv db" "no_active_run db"
    and "\<forall>r\<in>set ress. \<forall>s\<in>set (db_ledger db). ul_reservation_id s = ul_reservation_id r \<longrightarrow> ul_run_id s = ul_run_id r"
  shows "\<exists>db' g. foldM reconcile_reservation (db, rel) ress =
      Inr (db', rel @ map ul_reservation_id (filter (\<lambda>r. dget (db_runs db) (ul_run_id r) = None) ress)) \<and>
    store_inv db' \<and> db_events db' = db_events db \<and>
    (\<forall>i. map_option rn_status (dget (db_runs db') i) = map_option rn_status (dget (db_runs db) i)) \<and>
    (\<forall>i. accounted db i \<longrightarrow> accounted db' i) \<and> keeps_row g \<and> db_ledger db' = map g (db_ledger db) \<and>
    (\<forall>s. ul_reservation_id s \<notin> ul_reservation_id ` set ress \<longrightarrow> g s = s) \<and>
    (\<forall>s\<in>set (db_ledger db'). ul_reservation_id s \<in> ul_reservation_id ` set ress \<longrightarrow>
       ul_state s \<noteq> LedgerReserved \<or> accounted db' (ul_run_id s))"
  using assms
proof (induction ress arbitrary: db rel)
  case Nil
  then show ?case by (intro exI [of _ db] exI [of _ "\<lambda>s. s"]) (simp add: keeps_row_def)
next
  case (Cons r ress)
  let ?rel = "if dget (db_runs db) (ul_run_id r) = None then rel @ [ul_reservation_id r] else rel"
  from reconcile_reservation_step [OF Cons.prems(1,2), of rel r] obtain db1 g where s:
    "reconcile_reservation (db, rel) r = Inr (db1, ?rel)" "store_inv db1" "db_events db1 = db_events db"
    "\<forall>i. map_option rn_status (dget (db_runs db1) i) = map_option rn_status (dget (db_runs db) i)"
    "\<forall>i. accounted db i \<longrightarrow> accounted db1 i" "keeps_row g"
    "db_ledger db1 = map (\<lambda>s. if ul_reservation_id s = ul_reservation_id r then g s else s) (db_ledger db)"
    "\<forall>s. ul_state (g s) \<noteq> LedgerReserved \<or> accounted db1 (ul_run_id r)" by (elim exE conjE) (rule that; assumption)
  have none: "dget (db_runs db1) i = None \<longleftrightarrow> dget (db_runs db) i = None" for i
    using s(4) by (metis map_option_is_None)
  have act: "no_active_run db1"
    unfolding no_active_run_def
  proof (intro allI impI)
    fix i q assume "dget (db_runs db1) i = Some q"
    with s(4) [rule_format, of i] obtain q0 where "dget (db_runs db) i = Some q0" "rn_status q0 = rn_status q"
      by (auto simp: map_option_eq_Some eq_commute [of "Some _"])
    then show "rn_status q \<notin> {Queued, Running}" using Cons.prems(2) unfolding no_active_run_def by metis
  qed
  have ids: "\<forall>q\<in>set ress. \<forall>s\<in>set (db_ledger db1). ul_reservation_id s = ul_reservation_id q \<longrightarrow> ul_run_id s = ul_run_id q"
    using Cons.prems(3) s(6,7) by (auto simp: keeps_row_def)
  from Cons.IH [OF s(2) act ids, of ?rel] obtain db2 h where d:
    "foldM reconcile_reservation (db1, ?rel) ress =
      Inr (db2, ?rel @ map ul_reservation_id (filter (\<lambda>r. dget (db_runs db1) (ul_run_id r) = None) ress))"
    "store_inv db2" "db_events db2 = db_events db1"
    "\<forall>i. map_option rn_status (dget (db_runs db2) i) = map_option rn_status (dget (db_runs db1) i)"
    "\<forall>i. accounted db1 i \<longrightarrow> accounted db2 i" "keeps_row h" "db_ledger db2 = map h (db_ledger db1)"
    "\<forall>s. ul_reservation_id s \<notin> ul_reservation_id ` set ress \<longrightarrow> h s = s"
    "\<forall>s\<in>set (db_ledger db2). ul_reservation_id s \<in> ul_reservation_id ` set ress \<longrightarrow>
       ul_state s \<noteq> LedgerReserved \<or> accounted db2 (ul_run_id s)"
    by (elim exE conjE) (rule that; assumption)
  let ?k = "\<lambda>s. h (if ul_reservation_id s = ul_reservation_id r then g s else s)"
  have led: "db_ledger db2 = map ?k (db_ledger db)" by (simp add: d(7) s(7))
  have keep: "keeps_row ?k" by (rule keeps_row_compose [OF s(6) d(6)])
  have finished: "ul_state s2 \<noteq> LedgerReserved \<or> accounted db2 (ul_run_id s2)"
    if "s2 \<in> set (db_ledger db2)" "ul_reservation_id s2 \<in> ul_reservation_id ` set (r # ress)" for s2
  proof (cases "ul_reservation_id s2 \<in> ul_reservation_id ` set ress")
    case True
    with d(9) that(1) show ?thesis by blast
  next
    case False
    from that(1) led obtain s0 where s0: "s0 \<in> set (db_ledger db)" "s2 = ?k s0" by auto
    have id: "ul_reservation_id s2 = ul_reservation_id s0" "ul_run_id s2 = ul_run_id s0"
      using keep s0(2) unfolding keeps_row_def by blast+
    from False that(2) id have r: "ul_reservation_id s0 = ul_reservation_id r" by auto
    have "ul_reservation_id (g s0) = ul_reservation_id s0" using s(6) by (simp add: keeps_row_def)
    then have "s2 = g s0" using d(8) False id r s0(2) by metis
    moreover have "ul_run_id s2 = ul_run_id r" using Cons.prems(3) s0(1) r id by simp
    ultimately show ?thesis using s(8) d(5) by metis
  qed
  have "foldM reconcile_reservation (db, rel) (r # ress) = Inr (db2, rel @ map ul_reservation_id
      (filter (\<lambda>r. dget (db_runs db) (ul_run_id r) = None) (r # ress)))"
    using s(1) d(1) by (simp add: none)
  moreover have "\<forall>s. ul_reservation_id s \<notin> ul_reservation_id ` set (r # ress) \<longrightarrow> ?k s = s" using d(8) by auto
  ultimately show ?case using d(2-5) s(3-5) led keep finished
    by (intro exI [of _ db2] exI [of _ ?k]) simp
qed

lemma foldM_noop:
  "\<forall>r\<in>set ress. reconcile_reservation (db, rel) r = Inr (db, rel) \<Longrightarrow>
   foldM reconcile_reservation (db, rel) ress = Inr (db, rel)"
  by (induction ress) simp_all

lemma stale_rows_facts:
  assumes "store_inv db"
  shows "distinct (map rn_run_id (stale_rows db)) \<and>
    (\<forall>r\<in>set (stale_rows db). dget (db_runs db) (rn_run_id r) = Some r) \<and>
    rn_run_id ` set (stale_rows db) = {i. \<exists>r. dget (db_runs db) i = Some r \<and> rn_status r \<in> {Queued, Running}}"
proof -
  have d: "distinct (dkeys (db_runs db))" "\<And>k r. dget (db_runs db) k = Some r \<Longrightarrow> rn_run_id r = k"
    using assms by (auto simp: store_inv_def runs_inv_def)
  have keys: "map rn_run_id (dvalues (db_runs db)) = dkeys (db_runs db)"
    using d by (auto simp: dget_iff_set)
  have "distinct (map rn_run_id (filter (\<lambda>r. rn_status r \<in> {Queued, Running}) (dvalues (db_runs db))))"
    by (rule distinct_map_filter) (simp only: keys d)
  moreover have "mset (map rn_run_id (stale_rows db)) =
      mset (map rn_run_id (filter (\<lambda>r. rn_status r \<in> {Queued, Running}) (dvalues (db_runs db))))"
    by (simp add: stale_rows_def)
  ultimately have "distinct (map rn_run_id (stale_rows db))" by (metis mset_eq_imp_distinct_iff)
  moreover have m: "r \<in> set (stale_rows db) \<longleftrightarrow> (\<exists>k. dget (db_runs db) k = Some r) \<and> rn_status r \<in> {Queued, Running}" for r
    using dvalues_dget [OF d(1), of r] by (auto simp: stale_rows_def)
  moreover have "rn_run_id ` set (stale_rows db) =
      {i. \<exists>r. dget (db_runs db) i = Some r \<and> rn_status r \<in> {Queued, Running}}"
    using m d(2) by (auto simp: image_iff)
  ultimately show ?thesis using d(2) by (metis (no_types, lifting))
qed

lemma reserved_unique:
  "ledger_inv rows \<Longrightarrow> r \<in> set rows \<Longrightarrow> s \<in> set rows \<Longrightarrow> ul_reservation_id s = ul_reservation_id r \<Longrightarrow> s = r"
  by (rule inj_onD [of ul_reservation_id "set rows"]) (simp_all add: ledger_inv_def distinct_map)

lemma reconcile_total:
  assumes "store_inv db" "aware now"
  shows "\<exists>rep db'. reconcile_startup now db = Inr (rep, db') \<and> store_inv db' \<and> no_active_run db' \<and>
    prefix (db_events db) (db_events db') \<and>
    set (sr_interrupted_run_ids rep) = {i. \<exists>r. dget (db_runs db) i = Some r \<and> rn_status r \<in> {Queued, Running}} \<and>
    (\<forall>i. dget (db_runs db') i = None \<longleftrightarrow> dget (db_runs db) i = None) \<and>
    (\<forall>i r. dget (db_runs db) i = Some r \<longrightarrow> map_option rn_status (dget (db_runs db') i) =
       Some (if rn_status r \<in> {Queued, Running} then Interrupted else rn_status r)) \<and>
    (\<forall>s\<in>set (db_ledger db'). ul_state s \<noteq> LedgerReserved \<or> accounted db' (ul_run_id s)) \<and>
    set (sr_released_orphan_reservation_ids rep) =
      {ul_reservation_id s | s. s \<in> set (db_ledger db) \<and> ul_state s = LedgerReserved \<and>
         dget (db_runs db) (ul_run_id s) = None}"
proof -
  note st = stale_rows_facts [OF assms(1)]
  from interrupt_stale_fold [OF assms(1) _ assms(2), of "stale_rows db"] st obtain db1 where
    d1: "foldM (interrupt_stale now) db (stale_rows db) = Inr db1" "store_inv db1"
    "db_ledger db1 = db_ledger db" "prefix (db_events db) (db_events db1)"
    "\<forall>i. if i \<in> rn_run_id ` set (stale_rows db)
         then \<exists>s. dget (db_runs db1) i = Some s \<and> rn_status s = Interrupted \<and> rn_error_code s = Some ''PROCESS_RESTART''
         else dget (db_runs db1) i = dget (db_runs db) i" by blast
  have stat1: "map_option rn_status (dget (db_runs db1) i) =
      map_option (\<lambda>r. if rn_status r \<in> {Queued, Running} then Interrupted else rn_status r) (dget (db_runs db) i)" for i
  proof (cases "i \<in> rn_run_id ` set (stale_rows db)")
    case True
    then obtain r where r: "dget (db_runs db) i = Some r" "rn_status r \<in> {Queued, Running}" using st by auto
    from True d1(5) [rule_format, of i] obtain s where s: "dget (db_runs db1) i = Some s" "rn_status s = Interrupted"
      by auto
    show ?thesis using r(2) by (simp add: r(1) s)
  next
    case False
    then have "\<forall>r. dget (db_runs db) i = Some r \<longrightarrow> rn_status r \<notin> {Queued, Running}" using st by auto
    moreover have "dget (db_runs db1) i = dget (db_runs db) i" using False d1(5) [rule_format, of i] by argo
    ultimately show ?thesis by (cases "dget (db_runs db) i") auto
  qed
  have act1: "no_active_run db1"
    unfolding no_active_run_def
  proof (intro allI impI)
    fix i r assume "dget (db_runs db1) i = Some r"
    with stat1 [of i] show "rn_status r \<notin> {Queued, Running}" by (cases "dget (db_runs db) i") (auto split: if_splits)
  qed
  let ?ress = "filter (\<lambda>r. ul_state r = LedgerReserved) (db_ledger db1)"
  have led1: "ledger_inv (db_ledger db1)" using d1(2) by (simp add: store_inv_def)
  have "\<forall>r\<in>set ?ress. \<forall>s\<in>set (db_ledger db1). ul_reservation_id s = ul_reservation_id r \<longrightarrow> ul_run_id s = ul_run_id r"
    using reserved_unique [OF led1] by auto
  from reconcile_reservation_fold [OF d1(2) act1 this, of "[]"] obtain db2 g where
    d2: "foldM reconcile_reservation (db1, []) ?ress =
      Inr (db2, [] @ map ul_reservation_id (filter (\<lambda>r. dget (db_runs db1) (ul_run_id r) = None) ?ress))"
    "store_inv db2" "db_events db2 = db_events db1"
    "\<forall>i. map_option rn_status (dget (db_runs db2) i) = map_option rn_status (dget (db_runs db1) i)"
    "keeps_row g" "db_ledger db2 = map g (db_ledger db1)"
    "\<forall>s. ul_reservation_id s \<notin> ul_reservation_id ` set ?ress \<longrightarrow> g s = s"
    "\<forall>s\<in>set (db_ledger db2). ul_reservation_id s \<in> ul_reservation_id ` set ?ress \<longrightarrow>
       ul_state s \<noteq> LedgerReserved \<or> accounted db2 (ul_run_id s)"
    by (elim exE conjE) (rule that; assumption)
  define rep where "rep = \<lparr>sr_interrupted_run_ids = map rn_run_id (stale_rows db),
    sr_released_orphan_reservation_ids =
      sort (map ul_reservation_id (filter (\<lambda>r. dget (db_runs db1) (ul_run_id r) = None) ?ress))\<rparr>"
  have rec: "reconcile_startup now db = Inr (rep, db2)"
    using d1(1) d2(1) by (simp add: reconcile_startup_def rep_def)
  have none: "dget (db_runs db1) i = None \<longleftrightarrow> dget (db_runs db) i = None" for i
    using stat1 [of i] by (cases "dget (db_runs db1) i"; cases "dget (db_runs db) i") auto
  have stat2: "map_option rn_status (dget (db_runs db2) i) =
      map_option (\<lambda>r. if rn_status r \<in> {Queued, Running} then Interrupted else rn_status r) (dget (db_runs db) i)" for i
    using d2(4) stat1 by simp
  have none2: "\<forall>i. dget (db_runs db2) i = None \<longleftrightarrow> dget (db_runs db) i = None"
  proof
    fix i show "dget (db_runs db2) i = None \<longleftrightarrow> dget (db_runs db) i = None"
      using stat2 [of i] by (cases "dget (db_runs db2) i"; cases "dget (db_runs db) i") auto
  qed
  have act2: "no_active_run db2"
    unfolding no_active_run_def
  proof (intro allI impI)
    fix i r assume "dget (db_runs db2) i = Some r"
    with stat2 [of i] show "rn_status r \<notin> {Queued, Running}" by (cases "dget (db_runs db) i") (auto split: if_splits)
  qed
  have open_res: "\<forall>s\<in>set (db_ledger db2). ul_state s \<noteq> LedgerReserved \<or> accounted db2 (ul_run_id s)"
  proof
    fix s assume s: "s \<in> set (db_ledger db2)"
    with d2(6) obtain s0 where s0: "s0 \<in> set (db_ledger db1)" "s = g s0" by auto
    show "ul_state s \<noteq> LedgerReserved \<or> accounted db2 (ul_run_id s)"
    proof (cases "ul_reservation_id s0 \<in> ul_reservation_id ` set ?ress")
      case True
      with keeps_rowD [OF d2(5), of s0] s0(2) have "ul_reservation_id s \<in> ul_reservation_id ` set ?ress" by metis
      with d2(8) s show ?thesis by blast
    next
      case False
      with d2(7) s0(2) have "s = s0" by simp
      with False s0(1) show ?thesis by auto
    qed
  qed
  have rel: "set (sr_released_orphan_reservation_ids rep) = {ul_reservation_id s | s. s \<in> set (db_ledger db) \<and>
      ul_state s = LedgerReserved \<and> dget (db_runs db) (ul_run_id s) = None}"
    by (auto simp: rep_def none d1(3))
  show ?thesis
    using rec d2(2,3) act2 d1(4) none2 stat2 open_res rel st
    by (intro exI [of _ rep] exI [of _ db2]) (simp add: rep_def)
qed

lemma reconcile_again:
  assumes "store_inv db" "no_active_run db"
    and "\<forall>s\<in>set (db_ledger db). ul_state s \<noteq> LedgerReserved \<or> accounted db (ul_run_id s)"
  shows "reconcile_startup now db =
    Inr (\<lparr>sr_interrupted_run_ids = [], sr_released_orphan_reservation_ids = []\<rparr>, db)"
proof -
  have "rn_run_id ` set (stale_rows db) = {}"
    using stale_rows_facts [OF assms(1)] assms(2) by (auto simp: no_active_run_def)
  then have "stale_rows db = []" by simp
  moreover have "foldM reconcile_reservation (db, []) (filter (\<lambda>r. ul_state r = LedgerReserved) (db_ledger db)) = Inr (db, [])"
    using assms(3) by (intro foldM_noop ballI accounted_noop [OF assms(1)]) auto
  ultimately show ?thesis by (simp add: reconcile_startup_def)
qed

section \<open>Every operation\<close>

lemma fst_db_Inr [simp]: "fst_db r = Inr db \<longleftrightarrow> (\<exists>x. r = Inr (x, db))"
  by (auto simp: fst_db_def res_simps)

lemma finalize_run_cases:
  assumes "finalize_run db i s f d = Inr ((saved, e), db')"
  obtains row where "fz_status f \<in> set (terminal_targets s)" "dget (db_runs db) i = Some row" "rn_status row = s"
    "finalize_row db row s f d = Inr ((saved, e), db')"
  using assms by (auto simp: finalize_run_def require_run_def res_simps split: if_splits option.splits)

lemma finalize_run_inv:
  assumes "finalize_run db i s f d = Inr ((saved, e), db')" "store_inv db" "valid_usage (fz_final_usage f)"
  shows "store_inv db'"
  using assms(1) by (elim finalize_run_cases) (rule finalize_row_cases [OF _ assms(2,3)])

lemma store_step_inv:
  assumes "store_step db op = Inr db'" "store_inv db" "op_ok op"
  shows "store_inv db'"
proof (cases op)
  case (OpReconcile now)
  with assms(1,3) reconcile_total [OF assms(2), of now] show ?thesis by (auto simp: aware_def)
next
  case (OpReserve uuid day i a l)
  with assms(1) obtain adm where "reserve_daily_cost uuid db day i a l = Inr (adm, db')" by auto
  then show ?thesis by (rule reserve_cost_cases [OF _ assms(2)]) (use assms(2) in simp)
qed (use assms create_run_inv transition_inv bind_inv clear_inv settle_cost_inv release_cost_inv finalize_run_inv
    append_event_inv in fastforce)+

lemma run_store_ops_inv:
  "list_all op_ok ops \<Longrightarrow> store_inv db \<Longrightarrow> store_inv (run_store_ops db ops)"
proof (induction ops arbitrary: db)
  case (Cons op ops)
  have "store_inv (keep_db db (store_step db op))"
    using Cons.prems store_step_inv [of db op] by (cases "store_step db op") (auto simp: keep_db_def)
  with Cons show ?case by (simp add: run_store_ops_def)
qed (simp add: run_store_ops_def)

lemma create_no_integrity:
  assumes "store_inv db"
  shows "create_run db r \<noteq> Inl IntegrityError"
proof
  assume a: "create_run db r = Inl IntegrityError"
  then have n: "dget (db_runs db) (rn_run_id r) = None" and c: "idempotency_collision db r = Inr ()"
    and "insert_run db r = Inl IntegrityError"
    by (auto simp: create_run_def rbind_eq_Inl idempotency_collision_def require_def
        split: option.splits if_splits)
  then have "\<not> idempotency_free db r" by (auto simp: insert_run_def split: if_splits)
  with c obtain k q where q: "rn_idempotency_key r = Some k" "rn_run_id q = rn_run_id r"
    "get_by_idempotency db (rn_idempotency_scope_sha256 r) k = Some q"
    by (auto simp: idempotency_free_def idempotency_collision_def require_eq_Inr split: option.splits)
  then have "q \<in> set (dvalues (db_runs db))" using find_SomeD [OF q(3) [unfolded get_by_idempotency_def]] by blast
  then obtain j where "dget (db_runs db) j = Some q"
    using assms dvalues_dget by (auto simp: store_inv_def runs_inv_def)
  moreover from this have "j = rn_run_id q" using runs_inv_row assms by (auto simp: store_inv_def)
  ultimately show False using n q(2) by simp
qed

lemma finalize_no_integrity:
  assumes "store_inv db" "valid_usage (fz_final_usage f)"
  shows "finalize_run db i s f d \<noteq> Inl IntegrityError"
proof
  assume a: "finalize_run db i s f d = Inl IntegrityError"
  then obtain row where row: "dget (db_runs db) i = Some row" "rn_status row = s"
    and fin: "finalize_row db row s f d = Inl IntegrityError"
    by (auto simp: finalize_run_def require_run_def rbind_eq_Inl split: if_splits option.splits)
  have id: "rn_run_id row = i" using runs_inv_row [OF _ row(1)] assms(1) by (simp add: store_inv_def)
  have "cas db row s g \<noteq> Inl IntegrityError" for g by (auto simp: cas_def Let_def split: option.splits)
  then obtain saved db1 where c: "cas db row s (finalized f (td_timestamp d)) = Inr (saved, db1)"
    and rest: "lift_store (mk_event (terminal_event (next_seq db1 (rn_run_id row)) (rn_run_id row) f d)) = Inl IntegrityError \<or>
      (\<exists>e. mk_event (terminal_event (next_seq db1 (rn_run_id row)) (rn_run_id row) f d) = Inr e \<and>
        insert_event db1 e = Inl IntegrityError)"
    using fin by (auto simp: finalize_row_def rbind_eq_Inl)
  have inv1: "store_inv db1"
    by (rule cas_inv [OF c assms(1)]) (simp_all add: keeps_identity_def finalized_def assms(2))
  have "insert_event db1 e \<noteq> Inl IntegrityError"
    if "mk_event (terminal_event (next_seq db1 (rn_run_id row)) (rn_run_id row) f d) = Inr e" for e
    using insert_event_total [OF inv1, of e] that by (simp add: mk_event_Inr terminal_event_def)
  with rest show False by (auto simp: lift_store_def split: sum.splits)
qed

lemma reserve_no_integrity:
  assumes "store_inv db" "\<forall>s\<in>set (db_ledger db). ul_reservation_id s \<noteq> uuid"
  shows "reserve_daily_cost uuid db day i a l \<noteq> Inl IntegrityError"
proof -
  have fresh: "ul_attempt_no s \<noteq> next_attempt (filter (\<lambda>r. ul_run_id r = i) (db_ledger db))"
    if "s \<in> set (db_ledger db)" "ul_run_id s = i" for s
    using next_attempt_fresh [of s "filter (\<lambda>r. ul_run_id r = i) (db_ledger db)"] that by simp
  then have "\<not> list_ex (\<lambda>s. ul_reservation_id s = uuid \<or>
      ul_day s = day \<and> ul_run_id s = i \<and>
      ul_attempt_no s = next_attempt (filter (\<lambda>r. ul_run_id r = i) (db_ledger db))) (db_ledger db)"
    using assms(2) by (auto simp: list_ex_iff)
  then show ?thesis
    by (auto simp: reserve_daily_cost_def rbind_eq_Inl Let_def insert_ledger_def check_amount_def
        require_def split: option.splits if_splits)
qed

section \<open>Statuses follow the life cycle\<close>

definition follows :: "database \<Rightarrow> database \<Rightarrow> bool" where
  "follows db db' \<longleftrightarrow> (\<forall>i r. dget (db_runs db) i = Some r \<longrightarrow> (\<exists>r'. dget (db_runs db') i = Some r' \<and>
     (rn_status r' = rn_status r \<or> (\<exists>a. transition (rn_status r) a = Inr (rn_status r')))))"

lemma follows_same: "db_runs db' = db_runs db \<Longrightarrow> follows db db'"
  by (simp add: follows_def)

lemma follows_dput:
  assumes "db_runs db' = dput k r' (db_runs db)" "dget (db_runs db) k = Some cur"
    and "rn_status r' = rn_status cur \<or> (\<exists>a. transition (rn_status cur) a = Inr (rn_status r'))"
  shows "follows db db'"
  using assms by (simp add: follows_def)

lemma legal_targets:
  "t \<in> set (terminal_targets s) \<Longrightarrow> \<exists>a. transition s a = Inr t"
  "(s, t) \<in> set nonterminal_pairs \<Longrightarrow> \<exists>a. transition s a = Inr t"
  by (cases s; auto simp: transition_Inr nonterminal_pairs_def)+

lemma cas_follows:
  assumes "cas db row s f = Inr (saved, db')"
    and "\<And>cur. rn_status cur = s \<Longrightarrow> rn_status (f cur) = s \<or> (\<exists>a. transition s a = Inr (rn_status (f cur)))"
  shows "follows db db'"
  using assms(1)
proof (cases rule: cas_cases)
  case (1 cur)
  then show ?thesis using assms(2) [of cur]
    by (intro follows_dput [of db' "rn_run_id row" saved db cur]) auto
qed

lemma create_follows: "create_run db r = Inr (r', db') \<Longrightarrow> follows db db'"
  by (auto simp: create_run_def insert_run_def res_simps follows_def map_add_def split: option.splits if_splits)

lemma transition_follows: "store_transition db i s t = Inr (r', db') \<Longrightarrow> follows db db'"
  by (auto simp: store_transition_def res_simps split: if_splits intro!: cas_follows dest: legal_targets)

lemma bind_follows: "bind_admission db i s a = Inr (r', db') \<Longrightarrow> follows db db'"
  by (auto simp: bind_admission_def res_simps intro!: cas_follows)

lemma clear_follows: "clear_admission db i rid = Inr (r', db') \<Longrightarrow> follows db db'"
  by (auto simp: clear_admission_def res_simps follows_same split: if_splits elim!: cas_follows)

lemma finalize_follows:
  assumes "finalize_run db i s f d = Inr ((saved, e), db')"
  shows "follows db db'"
proof -
  from assms obtain row where t: "fz_status f \<in> set (terminal_targets s)"
    and "finalize_row db row s f d = Inr ((saved, e), db')" by (rule finalize_run_cases)
  then obtain db1 where "cas db row s (finalized f (td_timestamp d)) = Inr (saved, db1)"
    and "db_runs db' = db_runs db1"
    by (auto simp: finalize_row_def res_simps insert_event_def split: if_splits)
  moreover from this(1) have "follows db db1"
    by (rule cas_follows) (use legal_targets(1) [OF t] in \<open>simp add: finalized_def\<close>)
  ultimately show ?thesis by (simp add: follows_def)
qed

lemma store_step_follows:
  assumes "store_step db op = Inr db'" "store_inv db" "op_ok op"
  shows "follows db db'"
proof (cases op)
  case (OpReconcile now)
  with assms(1,3) obtain rep where rec: "reconcile_startup now db = Inr (rep, db')" and aw: "aware now"
    by (auto simp: aware_def)
  from reconcile_total [OF assms(2) aw] rec have
    st: "\<forall>i r. dget (db_runs db) i = Some r \<longrightarrow> map_option rn_status (dget (db_runs db') i) =
       Some (if rn_status r \<in> {Queued, Running} then Interrupted else rn_status r)"
    by (elim exE conjE) (simp only: sum.inject prod.inject)
  show ?thesis
    unfolding follows_def
  proof (intro allI impI)
    fix i r assume r: "dget (db_runs db) i = Some r"
    then obtain r' where r': "dget (db_runs db') i = Some r'"
      "rn_status r' = (if rn_status r \<in> {Queued, Running} then Interrupted else rn_status r)"
      using st [rule_format, OF r] by auto
    have "rn_status r' = rn_status r \<or> (\<exists>a. transition (rn_status r) a = Inr (rn_status r'))"
      using r'(2) by (cases "rn_status r") (auto simp: transition_Inr)
    with r'(1) show "\<exists>r'. dget (db_runs db') i = Some r' \<and>
       (rn_status r' = rn_status r \<or> (\<exists>a. transition (rn_status r) a = Inr (rn_status r')))" by blast
  qed
next
  case (OpReserve uuid day i a l)
  with assms(1) obtain adm where "reserve_daily_cost uuid db day i a l = Inr (adm, db')" by auto
  then show ?thesis by (rule reserve_cost_cases [OF _ assms(2)]) (simp_all add: follows_same)
next
  case (OpAppend e)
  with assms(1) show ?thesis
    by (auto simp: append_event_def insert_event_def res_simps follows_same split: if_splits)
next
  case (OpSettle rid a)
  with assms(1) show ?thesis by (auto simp: settle_daily_cost_def update_reserved_def res_simps follows_same)
next
  case (OpRelease rid)
  with assms(1) show ?thesis by (auto simp: release_daily_cost_def update_reserved_def res_simps follows_same)
qed (use assms(1) create_follows transition_follows bind_follows clear_follows finalize_follows in fastforce)+

lemma run_path_trans: "run_path s as t \<Longrightarrow> run_path t bs u \<Longrightarrow> run_path s (as @ bs) u"
  by (induction rule: run_path.induct) (auto intro: path_step)

lemma run_store_ops_path:
  assumes "list_all op_ok ops" "store_inv db" "dget (db_runs db) i = Some r"
  shows "\<exists>r' as. dget (db_runs (run_store_ops db ops)) i = Some r' \<and> run_path (rn_status r) as (rn_status r')"
  using assms
proof (induction ops arbitrary: db r)
  case (Cons op ops)
  let ?db = "keep_db db (store_step db op)"
  have inv: "store_inv ?db"
    using Cons.prems(1,2) store_step_inv [of db op] by (cases "store_step db op") (auto simp: keep_db_def)
  obtain r1 as where r1: "dget (db_runs ?db) i = Some r1" "run_path (rn_status r) as (rn_status r1)"
  proof (cases "store_step db op")
    case (Inr db')
    then obtain r1 where r1: "dget (db_runs db') i = Some r1"
      "rn_status r1 = rn_status r \<or> (\<exists>a. transition (rn_status r) a = Inr (rn_status r1))"
      using store_step_follows [OF Inr Cons.prems(2)] Cons.prems(1,3) unfolding follows_def list.pred_inject(2) by blast
    from r1(2) obtain as where "run_path (rn_status r) as (rn_status r1)"
      using path_nil [of "rn_status r"] path_step [OF run_step path_nil] by metis
    with r1(1) Inr show ?thesis by (intro that) (simp_all add: keep_db_def)
  qed (use that Cons.prems(3) path_nil in \<open>auto simp: keep_db_def\<close>)
  have "list_all op_ok ops" using Cons.prems(1) by simp
  from Cons.IH [OF this inv r1(1)] obtain r' bs where
    "dget (db_runs (run_store_ops ?db ops)) i = Some r'" "run_path (rn_status r1) bs (rn_status r')" by blast
  with run_path_trans [OF r1(2)] show ?case by (auto simp: run_store_ops_def)
qed (auto simp: run_store_ops_def intro: path_nil)

section \<open>Properties\<close>




definition demo_run :: run_record where
  "demo_run = \<lparr>rn_run_id = ''run'', rn_thread_id = ''t'', rn_status = Queued, rn_config_json = JNull,
     rn_pricing_status = UnknownPricing, rn_pricing_snapshots = [], rn_provider_profile_json = JNull,
     rn_provider_profile_sha256 = [], rn_config_sha256 = [], rn_owner_scope_sha256 = [],
     rn_idempotency_scope_sha256 = ''s'', rn_idempotency_key = Some ''k'',
     rn_admission_reservation_id = None, rn_admission_attempt_no = None, rn_stop_reason = None,
     rn_is_partial = False, rn_report_artifact_id = None, rn_evidence_graph_artifact_id = None,
     rn_manifest_artifact_id = None, rn_final_usage = None, rn_error_code = None,
     rn_updated_at = demo_time, rn_version = 1\<rparr>"

lemma demo_create: "run_store_ops empty_db [OpCreate demo_run] = empty_db\<lparr>db_runs := [(''run'', demo_run)]\<rparr>"
  by (simp add: run_store_ops_def empty_db_def create_run_def idempotency_collision_def demo_run_def
      get_by_idempotency_def insert_run_def idempotency_free_def keep_db_def fst_db_def)

lemma demo_run_usage [simp]: "rn_final_usage demo_run = None" "rn_status demo_run = Queued"
  by (simp_all add: demo_run_def)




end
