(* ===== verification/Daily_Cost.thy ===== *)
theory Daily_Cost
  imports Run_Store_Correct
begin

text \<open>
  The daily cost limit of the run store: the amounts counted for a day, summed in decimal
  arithmetic, never pass the limit as long as no reservation is settled for more than it
  reserved.
\<close>

section \<open>Totals of a day\<close>

definition amount_ok :: "ledger_row \<Rightarrow> bool" where
  "amount_ok r \<longleftrightarrow> (\<exists>a. ul_amount r = Fin a \<and> 0 \<le> a)"

text \<open>The same fold over exact values, rounded at every addition.\<close>

fun rat_of :: "decimal \<Rightarrow> rat" where
  "rat_of (Fin a) = a"
| "rat_of _ = 0"

fun total_rat :: "int \<Rightarrow> rat \<Rightarrow> ledger_row list \<Rightarrow> rat" where
  "total_rat day acc [] = acc"
| "total_rat day acc (r # rs) =
     total_rat day (if ul_day r = day \<and> counted r then drnd (acc + rat_of (ul_amount r)) else acc) rs"

lemma total_rat_append: "total_rat day acc (xs @ ys) = total_rat day (total_rat day acc xs) ys"
  by (induction xs arbitrary: acc) simp_all

lemma day_fold:
  "list_all amount_ok rs \<Longrightarrow>
   fold (\<lambda>r acc. dadd acc (ul_amount r)) (filter (\<lambda>r. ul_day r = day \<and> counted r) rs) (Fin acc) =
     Fin (total_rat day acc rs)"
  by (induction rs arbitrary: acc) (auto simp: amount_ok_def)

lemma day_total_eq: "list_all amount_ok rs \<Longrightarrow> day_total rs day = Fin (total_rat day 0 rs)"
  by (simp add: day_total_def day_fold)

lemma total_rat_ge:
  "list_all amount_ok rs \<Longrightarrow> drnd acc = acc \<Longrightarrow> acc \<le> total_rat day acc rs \<and> drnd (total_rat day acc rs) = total_rat day acc rs"
proof (induction rs arbitrary: acc)
  case (Cons r rs)
  then have "0 \<le> rat_of (ul_amount r)" by (auto simp: amount_ok_def)
  then have "acc \<le> drnd (acc + rat_of (ul_amount r))" by (rule drnd_add_ge [OF Cons.prems(2)])
  with Cons.IH [of "drnd (acc + rat_of (ul_amount r))"] Cons.IH [of acc] Cons.prems show ?case by auto
qed simp

text \<open>Replacing rows by cheaper ones, or rows that no longer count, never raises the total.\<close>

definition cheaper :: "ledger_row \<Rightarrow> ledger_row \<Rightarrow> bool" where
  "cheaper r' r \<longleftrightarrow> ul_day r' = ul_day r \<and> amount_ok r' \<and>
     (counted r' \<longrightarrow> counted r \<and> rat_of (ul_amount r') \<le> rat_of (ul_amount r))"

lemma total_rat_mono:
  assumes "list_all2 cheaper rs' rs" "list_all amount_ok rs" "acc' \<le> acc" "drnd acc = acc"
  shows "total_rat day acc' rs' \<le> total_rat day acc rs"
  using assms
proof (induction arbitrary: acc acc' rule: list_all2_induct)
  case (Cons r' rs' r rs)
  let ?a' = "if ul_day r' = day \<and> counted r' then drnd (acc' + rat_of (ul_amount r')) else acc'"
  let ?a = "if ul_day r = day \<and> counted r then drnd (acc + rat_of (ul_amount r)) else acc"
  have nn: "0 \<le> rat_of (ul_amount r)" using Cons.prems(1) by (auto simp: amount_ok_def)
  have "?a' \<le> ?a"
  proof (cases "ul_day r' = day \<and> counted r'")
    case True
    with Cons.hyps(1) have "ul_day r = day" "counted r" "rat_of (ul_amount r') \<le> rat_of (ul_amount r)"
      by (auto simp: cheaper_def)
    with True Cons.prems(2) show ?thesis by (auto intro!: drnd_mono)
  next
    case False
    with drnd_add_ge [OF Cons.prems(3) nn] Cons.prems(2) show ?thesis by auto
  qed
  moreover have "drnd ?a = ?a" using Cons.prems(3) by simp
  ultimately show ?case using Cons.IH [of ?a' ?a] Cons.prems(1) by simp
qed simp

section \<open>The limit is kept\<close>

definition day_bounded :: "rat \<Rightarrow> ledger_row list \<Rightarrow> bool" where
  "day_bounded limit rows \<longleftrightarrow> list_all amount_ok rows \<and> (\<forall>day. total_rat day 0 rows \<le> limit)"

lemma cheaper_refl: "amount_ok r \<Longrightarrow> cheaper r r"
  by (simp add: cheaper_def)

lemma day_bounded_map:
  assumes "day_bounded limit rows" "\<forall>r\<in>set rows. cheaper (f r) r"
  shows "day_bounded limit (map f rows)"
proof -
  have "list_all2 cheaper (map f rows) rows" using assms(2) by (induction rows) auto
  then have "total_rat day 0 (map f rows) \<le> total_rat day 0 rows" for day
    using assms(1) by (intro total_rat_mono) (auto simp: day_bounded_def)
  moreover have "list_all amount_ok (map f rows)" using assms(2) by (auto simp: list_all_iff cheaper_def)
  ultimately show ?thesis using assms(1) unfolding day_bounded_def by (metis order_trans)
qed

lemma check_amount_Inr: "check_amount a = Inr u \<longleftrightarrow> (\<exists>r. a = Fin r \<and> 0 \<le> r)"
  by (cases a) (auto simp: check_amount_def require_eq_Inr)

lemma reserve_bounded:
  assumes "reserve_daily_cost uuid db day i a (Fin limit) = Inr (adm, db')" "store_inv db"
    and "day_bounded limit (db_ledger db)"
  shows "day_bounded limit (db_ledger db')"
  using assms(1,2)
proof (cases rule: reserve_cost_cases)
  case (new r)
  from assms(1) obtain x where x: "a = Fin x" "0 \<le> x"
    by (auto simp: reserve_daily_cost_def res_simps check_amount_Inr)
  have ok: "list_all amount_ok (db_ledger db)" using assms(3) by (simp add: day_bounded_def)
  have row: "ul_day r = day" "ul_amount r = Fin x" "counted r" "amount_ok r"
    using new(1) x by (simp_all add: counted_def amount_ok_def)
  have "total_rat d 0 (db_ledger db @ [r]) \<le> limit" for d
  proof (cases "d = day")
    case True
    then show ?thesis using new(4) x row day_total_eq [OF ok, of day] by (simp add: total_rat_append)
  next
    case False
    then show ?thesis using assms(3) row by (simp add: total_rat_append day_bounded_def)
  qed
  with ok row new(2) show ?thesis by (simp add: day_bounded_def)
qed (use assms(3) in simp)

lemma settle_bounded:
  assumes "settle_daily_cost db rid a = Inr db'" "day_bounded limit (db_ledger db)"
    and "\<forall>r\<in>set (db_ledger db). ul_reservation_id r = rid \<and> ul_state r = LedgerReserved \<longrightarrow> fle a (ul_amount r)"
  shows "day_bounded limit (db_ledger db')"
proof -
  from assms(1) obtain x where x: "a = Fin x" "0 \<le> x"
    by (auto simp: settle_daily_cost_def res_simps check_amount_Inr)
  have db': "db_ledger db' = map (\<lambda>r. if ul_reservation_id r = rid \<and> ul_state r = LedgerReserved
      then r\<lparr>ul_amount := Fin x, ul_state := LedgerSettled\<rparr> else r) (db_ledger db)"
    using assms(1) x by (auto simp: settle_daily_cost_def res_simps update_reserved_def)
  have "cheaper (r\<lparr>ul_amount := Fin x, ul_state := LedgerSettled\<rparr>) r"
    if "r \<in> set (db_ledger db)" "ul_reservation_id r = rid" "ul_state r = LedgerReserved" for r
  proof -
    note r = that
    obtain y where "ul_amount r = Fin y"
      using assms(2) r(1) by (auto simp: day_bounded_def list_all_iff amount_ok_def)
    with assms(3) r x show ?thesis by (auto simp: cheaper_def counted_def amount_ok_def)
  qed
  then show ?thesis unfolding db' using assms(2)
    by (intro day_bounded_map) (auto simp: cheaper_refl day_bounded_def list_all_iff)
qed

lemma release_bounded:
  assumes "release_daily_cost db rid = Inr db'" "day_bounded limit (db_ledger db)"
  shows "day_bounded limit (db_ledger db')"
proof -
  have db': "db_ledger db' = map (\<lambda>r. if ul_reservation_id r = rid \<and> ul_state r = LedgerReserved
      then r\<lparr>ul_state := LedgerReleased\<rparr> else r) (db_ledger db)"
    using assms(1) by (auto simp: release_daily_cost_def res_simps update_reserved_def)
  have "cheaper (r\<lparr>ul_state := LedgerReleased\<rparr>) r" if "r \<in> set (db_ledger db)" for r
    using assms(2) that by (auto simp: cheaper_def counted_def amount_ok_def day_bounded_def list_all_iff)
  then show ?thesis unfolding db' using assms(2)
    by (intro day_bounded_map) (auto simp: cheaper_refl day_bounded_def list_all_iff)
qed

text \<open>What a caller keeps to: one limit, settlements of at most the amount reserved, no restart.\<close>

fun thrifty :: "rat \<Rightarrow> database \<Rightarrow> store_op \<Rightarrow> bool" where
  "thrifty limit db (OpReserve uuid day i a l) \<longleftrightarrow> l = Fin limit"
| "thrifty limit db (OpSettle rid a) \<longleftrightarrow>
     list_all (\<lambda>r. ul_reservation_id r = rid \<and> ul_state r = LedgerReserved \<longrightarrow> fle a (ul_amount r)) (db_ledger db)"
| "thrifty limit db (OpReconcile now) \<longleftrightarrow> False"
| "thrifty limit db _ \<longleftrightarrow> True"

fun thrifty_run :: "rat \<Rightarrow> database \<Rightarrow> store_op list \<Rightarrow> bool" where
  "thrifty_run limit db [] \<longleftrightarrow> True"
| "thrifty_run limit db (op # ops) \<longleftrightarrow> thrifty limit db op \<and> thrifty_run limit (keep_db db (store_step db op)) ops"

lemma cas_ledger: "cas db row s f = Inr (saved, db') \<Longrightarrow> db_ledger db' = db_ledger db"
  by (auto elim!: cas_cases)

lemma store_step_bounded:
  assumes "store_step db op = Inr db'" "store_inv db" "op_ok op" "thrifty limit db op"
    and "day_bounded limit (db_ledger db)"
  shows "day_bounded limit (db_ledger db')"
proof (cases op)
  case (OpReserve uuid day i a l)
  with assms(1,4) obtain adm where "reserve_daily_cost uuid db day i a (Fin limit) = Inr (adm, db')" by auto
  then show ?thesis by (rule reserve_bounded [OF _ assms(2,5)])
next
  case (OpSettle rid a)
  then have "settle_daily_cost db rid a = Inr db'" using assms(1) by simp
  then show ?thesis by (rule settle_bounded [OF _ assms(5)]) (use OpSettle assms(4) in \<open>simp add: list_all_iff\<close>)
next
  case (OpRelease rid)
  then have "release_daily_cost db rid = Inr db'" using assms(1) by simp
  then show ?thesis by (rule release_bounded [OF _ assms(5)])
next
  case (OpAppend e)
  with assms show ?thesis by (auto simp: append_event_def insert_event_def res_simps split: if_splits)
next
  case (OpCreate r)
  with assms(1,5) show ?thesis
    by (auto simp: create_run_def insert_run_def res_simps split: option.splits if_splits)
next
  case (OpFinalize i s f d)
  with assms(1) obtain saved e where "finalize_run db i s f d = Inr ((saved, e), db')" by auto
  then have "db_ledger db' = db_ledger db"
    by (elim finalize_run_cases) (auto simp: finalize_row_def insert_event_def res_simps dest: cas_ledger split: if_splits)
  with assms(5) show ?thesis by simp
qed (use assms in \<open>auto simp: store_transition_def bind_admission_def clear_admission_def res_simps
      dest!: cas_ledger split: if_splits\<close>)



end
