(* ===== verification/Admission_Limits.thy ===== *)
theory Admission_Limits
  imports Daily_Cost
begin

text \<open>
  Public admission limits (\<^verbatim>\<open>src/src/deepresearch/runtime/limits.py\<close> and
  \<^verbatim>\<open>admission.py\<close>): the capacity gate, the token buckets per client and session, and the limit
  manager that admits a run all or nothing.  The admission lock makes each operation one step.
  The run store behind the manager is a record of its three cost operations; every reading of
  the clock is an argument (the clock is read once per bucket operation), as are the fresh
  \<^verbatim>\<open>uuid4\<close> and the current UTC time, in seconds.
\<close>

section \<open>Capacity gate\<close>

datatype admission_error =
    RateLimitExceeded int | AdmissionStore store_error | AdmissionExc exc

definition rate_limited :: "int \<Rightarrow> admission_error" where
  "rate_limited retry_after = RateLimitExceeded (max 1 retry_after)"

record capacity_gate =
  cg_capacity :: int
  cg_active :: int

definition new_gate :: "int \<Rightarrow> admission_error + capacity_gate" where
  "new_gate capacity =
     (if capacity \<le> 0 then Inl (AdmissionExc (ValueError ''capacity must be positive''))
      else Inr \<lparr>cg_capacity = capacity, cg_active = 0\<rparr>)"

definition try_acquire :: "capacity_gate \<Rightarrow> admission_error + capacity_gate" where
  "try_acquire g =
     (if cg_capacity g \<le> cg_active g then Inl (rate_limited 1)
      else Inr (g\<lparr>cg_active := cg_active g + 1\<rparr>))"

definition release_gate :: "capacity_gate \<Rightarrow> admission_error + capacity_gate" where
  "release_gate g =
     (if cg_active g = 0 then Inl (AdmissionExc (ValueError ''capacity lease underflow''))
      else Inr (g\<lparr>cg_active := cg_active g - 1\<rparr>))"

section \<open>Token buckets\<close>

record token_buckets =
  tb_capacity :: int
  tb_refill_seconds :: int
  tb_buckets :: "(string, pyfloat \<times> pyfloat) dict"

definition new_buckets :: "int \<Rightarrow> int \<Rightarrow> admission_error + token_buckets" where
  "new_buckets capacity refill =
     (if capacity \<le> 0 \<or> refill \<le> 0
      then Inl (AdmissionExc (ValueError ''bucket capacity and refill interval must be positive''))
      else Inr \<lparr>tb_capacity = capacity, tb_refill_seconds = refill, tb_buckets = []\<rparr>)"

abbreviation fint :: "int \<Rightarrow> pyfloat" where
  "fint n \<equiv> Fin (of_int n)"

definition refill :: "token_buckets \<Rightarrow> string \<Rightarrow> pyfloat \<Rightarrow> pyfloat" where
  "refill b key now =
     (let (tokens, updated) = (case dget (tb_buckets b) key of
        Some entry \<Rightarrow> entry | None \<Rightarrow> (fint (tb_capacity b), now))
      in fmin (fint (tb_capacity b))
           (fadd tokens (fdiv (fmax (Fin 0) (fsub now updated)) (fint (tb_refill_seconds b)))))"

definition put_bucket :: "token_buckets \<Rightarrow> string \<Rightarrow> pyfloat \<Rightarrow> pyfloat \<Rightarrow> token_buckets" where
  "put_bucket b key tokens now = b\<lparr>tb_buckets := dput key (tokens, now) (tb_buckets b)\<rparr>"

text \<open>\<^verbatim>\<open>math.ceil\<close> of a float; it raises on an infinity or NaN.\<close>

fun py_ceil :: "pyfloat \<Rightarrow> int option" where
  "py_ceil (Fin r) = Some \<lceil>r\<rceil>"
| "py_ceil _ = None"

definition consume :: "token_buckets \<Rightarrow> string \<Rightarrow> pyfloat \<Rightarrow> (admission_error + unit) \<times> token_buckets" where
  "consume b key now =
     (let tokens = refill b key now;
          b1 = put_bucket b key tokens now
      in if flt tokens (Fin 1)
         then (case py_ceil (fmul (fsub (Fin 1) tokens) (fint (tb_refill_seconds b))) of
                 None \<Rightarrow> (Inl (AdmissionExc (ValueError ''cannot convert float to integer'')), b1)
               | Some n \<Rightarrow> (Inl (rate_limited n), b1))
         else (Inr (), put_bucket b1 key (fsub tokens (Fin 1)) now))"

definition refund :: "token_buckets \<Rightarrow> string \<Rightarrow> pyfloat \<Rightarrow> token_buckets" where
  "refund b key now =
     put_bucket b key (fmin (fint (tb_capacity b)) (fadd (refill b key now) (Fin 1))) now"

section \<open>The limit manager\<close>

text \<open>The cost operations of the run store the manager was built with.\<close>

record 'db cost_ops =
  co_reserve :: "string \<Rightarrow> 'db \<Rightarrow> int \<Rightarrow> string \<Rightarrow> decimal \<Rightarrow> decimal \<Rightarrow> store_error + (admission \<times> 'db)"
  co_settle :: "'db \<Rightarrow> string \<Rightarrow> decimal \<Rightarrow> store_error + 'db"
  co_release :: "'db \<Rightarrow> string \<Rightarrow> store_error + 'db"

definition sql_cost_ops :: "database cost_ops" where
  "sql_cost_ops = \<lparr>co_reserve = reserve_daily_cost, co_settle = settle_daily_cost,
     co_release = release_daily_cost\<rparr>"

record limit_manager =
  lm_daily_limit :: decimal
  lm_runs :: capacity_gate
  lm_ip_buckets :: token_buckets
  lm_session_buckets :: token_buckets
  lm_run_leases :: "string set"
  lm_admissions :: "(string, admission) dict"

definition new_manager :: "decimal \<Rightarrow> admission_error + limit_manager" where
  "new_manager daily_limit =
     (if \<not> isfinite daily_limit \<or> flt daily_limit (Fin 0)
      then Inl (AdmissionExc (ValueError ''daily limit must be finite and non-negative''))
      else rbind (new_gate 2) (\<lambda>gate. rbind (new_buckets 4 60) (\<lambda>ips. rbind (new_buckets 2 120) (\<lambda>sessions.
        Inr \<lparr>lm_daily_limit = daily_limit, lm_runs = gate, lm_ip_buckets = ips,
             lm_session_buckets = sessions, lm_run_leases = {}, lm_admissions = []\<rparr>))))"

text \<open>The readings one call of \<^verbatim>\<open>admit\<close> takes: the four bucket clocks, the UTC time, the uuid.\<close>

record admit_inputs =
  in_ip_now :: pyfloat
  in_session_now :: pyfloat
  in_session_refund :: pyfloat
  in_ip_refund :: pyfloat
  in_utc :: rat
  in_uuid :: string

definition utc_day :: "rat \<Rightarrow> int" where
  "utc_day now = \<lfloor>now / 86400\<rfloor>"

definition until_midnight :: "rat \<Rightarrow> int" where
  "until_midnight now = \<lceil>rnd (of_int ((utc_day now + 1) * 86400) - now)\<rceil>"

definition store_reservation :: "'db cost_ops \<Rightarrow> limit_manager \<Rightarrow> 'db \<Rightarrow> admit_inputs \<Rightarrow> string \<Rightarrow> decimal \<Rightarrow>
    admission_error + (admission \<times> 'db)" where
  "store_reservation ops m db inp run_id cost =
     (case co_reserve ops (in_uuid inp) db (utc_day (in_utc inp)) run_id cost (lm_daily_limit m) of
        Inl DailyCostLimitExceeded \<Rightarrow> Inl (rate_limited (until_midnight (in_utc inp)))
      | Inl e \<Rightarrow> Inl (AdmissionStore e)
      | Inr r \<Rightarrow> Inr r)"

text \<open>The handler of a failed admission, from the innermost resource acquired outwards.\<close>

definition refund_ip :: "limit_manager \<Rightarrow> admit_inputs \<Rightarrow> string \<Rightarrow> limit_manager" where
  "refund_ip m inp ip = m\<lparr>lm_ip_buckets := refund (lm_ip_buckets m) ip (in_ip_refund inp)\<rparr>"

definition refund_session :: "limit_manager \<Rightarrow> admit_inputs \<Rightarrow> string \<Rightarrow> limit_manager" where
  "refund_session m inp s = m\<lparr>lm_session_buckets := refund (lm_session_buckets m) s (in_session_refund inp)\<rparr>"

definition rollback :: "limit_manager \<Rightarrow> admit_inputs \<Rightarrow> string \<Rightarrow> string \<Rightarrow> admission_error \<Rightarrow>
    admission_error \<times> limit_manager" where
  "rollback m inp ip session e =
     (case release_gate (lm_runs m) of
        Inl f \<Rightarrow> (f, m)
      | Inr g \<Rightarrow> (e, refund_ip (refund_session (m\<lparr>lm_runs := g\<rparr>) inp session) inp ip))"

definition admit_locked :: "'db cost_ops \<Rightarrow> limit_manager \<Rightarrow> 'db \<Rightarrow> admit_inputs \<Rightarrow> string \<Rightarrow> string \<Rightarrow> string \<Rightarrow>
    decimal \<Rightarrow> (admission_error + admission) \<times> limit_manager \<times> 'db" where
  "admit_locked ops m db inp run_id ip session cost =
     (case consume (lm_ip_buckets m) ip (in_ip_now inp) of
        (Inl e, b) \<Rightarrow> (Inl e, m\<lparr>lm_ip_buckets := b\<rparr>, db)
      | (Inr _, b) \<Rightarrow>
     let m1 = m\<lparr>lm_ip_buckets := b\<rparr> in
     case consume (lm_session_buckets m1) session (in_session_now inp) of
        (Inl e, s) \<Rightarrow> (Inl e, refund_ip (m1\<lparr>lm_session_buckets := s\<rparr>) inp ip, db)
      | (Inr _, s) \<Rightarrow>
     let m2 = m1\<lparr>lm_session_buckets := s\<rparr> in
     case try_acquire (lm_runs m2) of
        Inl e \<Rightarrow> (Inl e, refund_ip (refund_session m2 inp session) inp ip, db)
      | Inr g \<Rightarrow>
     let m3 = m2\<lparr>lm_runs := g\<rparr> in
     case store_reservation ops m3 db inp run_id cost of
        Inl e \<Rightarrow> (let (e', m4) = rollback m3 inp ip session e in (Inl e', m4, db))
      | Inr (admitted, db') \<Rightarrow>
          (case ad_reservation_id admitted of
             None \<Rightarrow>
               (let (e', m4) = rollback m3 inp ip session
                      (AdmissionExc (ValueError ''public admission requires a durable reservation''))
                in (Inl e', m4, db'))
           | Some rid \<Rightarrow>
               (Inr admitted, m3\<lparr>lm_run_leases := insert rid (lm_run_leases m3),
                                 lm_admissions := dput run_id admitted (lm_admissions m3)\<rparr>, db')))"

definition admit :: "'db cost_ops \<Rightarrow> limit_manager \<Rightarrow> 'db \<Rightarrow> admit_inputs \<Rightarrow> string \<Rightarrow> string \<Rightarrow> string \<Rightarrow>
    access_profile \<Rightarrow> decimal \<Rightarrow> (admission_error + admission) \<times> limit_manager \<times> 'db" where
  "admit ops m db inp run_id ip session profile cost =
     (if profile \<noteq> PublicLive then (Inr no_admission, m, db)
      else let medium = rb_max_cost_usd (preset Medium) in
        if \<not> isfinite cost \<or> flt cost (Fin 0) \<or> (case medium of None \<Rightarrow> True | Some c \<Rightarrow> flt c cost)
        then (Inl (AdmissionExc (ValueError ''public cost must be finite and within the medium budget'')), m, db)
        else if cost = Fin 0 then (Inr no_admission, m, db)
        else case dget (lm_admissions m) run_id of
            Some a \<Rightarrow> (Inr a, m, db)
          | None \<Rightarrow> admit_locked ops m db inp run_id ip session cost)"

definition release_local :: "limit_manager \<Rightarrow> string \<Rightarrow> admission_error + limit_manager" where
  "release_local m rid =
     (if rid \<in> lm_run_leases m
      then rbind (release_gate (lm_runs m)) (\<lambda>g.
        Inr (m\<lparr>lm_runs := g, lm_run_leases := lm_run_leases m - {rid},
               lm_admissions := filter (\<lambda>(_, a). ad_reservation_id a \<noteq> Some rid) (lm_admissions m)\<rparr>))
      else Inr m)"

definition finish_with :: "limit_manager \<Rightarrow> 'db \<Rightarrow> string \<Rightarrow> store_error + 'db \<Rightarrow>
    (admission_error + unit) \<times> limit_manager \<times> 'db" where
  "finish_with m db rid r =
     (case r of
        Inl e \<Rightarrow> (Inl (AdmissionStore e), m, db)
      | Inr db' \<Rightarrow> (case release_local m rid of Inl e \<Rightarrow> (Inl e, m, db') | Inr m' \<Rightarrow> (Inr (), m', db')))"

definition settle_admission :: "'db cost_ops \<Rightarrow> limit_manager \<Rightarrow> 'db \<Rightarrow> string option \<Rightarrow> decimal \<Rightarrow>
    (admission_error + unit) \<times> limit_manager \<times> 'db" where
  "settle_admission ops m db rid actual =
     (case rid of None \<Rightarrow> (Inr (), m, db) | Some i \<Rightarrow> finish_with m db i (co_settle ops db i actual))"

definition release_admission :: "'db cost_ops \<Rightarrow> limit_manager \<Rightarrow> 'db \<Rightarrow> string option \<Rightarrow>
    (admission_error + unit) \<times> limit_manager \<times> 'db" where
  "release_admission ops m db rid =
     (case rid of None \<Rightarrow> (Inr (), m, db) | Some i \<Rightarrow> finish_with m db i (co_release ops db i))"

definition defer_settlement :: "limit_manager \<Rightarrow> 'db \<Rightarrow> string \<Rightarrow> (admission_error + unit) \<times> limit_manager \<times> 'db" where
  "defer_settlement m db rid = finish_with m db rid (Inr db)"

end
