(* ===== verification/Deployment_Policy.thy ===== *)
theory Deployment_Policy
  imports Domain_Evidence
begin

text \<open>
  What a deployment allows (\<^verbatim>\<open>src/src/deepresearch/runtime/deployment_policy.py\<close>): the checks on
  a policy itself, the normalisation of a request, the budget a request gets and the validation
  of a run configuration.  Two budgets are compared by their serialized form in the code; here
  they are compared as records (a decimal is its value, so its number of trailing zeros plays no role).
\<close>

datatype policy_error = PolicyViolation string | PolicyExc exc

record deployment_policy =
  dp_forced_access_profile :: access_profile
  dp_allowed_execution_modes :: "execution_mode set"
  dp_allowed_provider_profile_ids :: "string set"
  dp_allowed_run_purposes :: "run_purpose set"
  dp_allowed_budget_presets :: "budget_preset set"
  dp_budget_presets :: "(budget_preset, run_budget) dict"
  dp_local_unpriced_live :: bool

definition mk_policy :: "deployment_policy \<Rightarrow> policy_error + deployment_policy" where
  "mk_policy p =
     rbind (require (\<not> (dp_local_unpriced_live p \<and>
              (dp_forced_access_profile p \<noteq> LocalProfile \<or> Benchmark \<in> dp_allowed_run_purposes p)))
            (PolicyExc (ValueError ''unpriced live runs are local demos only''))) (\<lambda>_.
     rbind (require (dp_allowed_execution_modes p \<noteq> {})
            (PolicyExc (ValueError ''allowed_execution_modes must not be empty''))) (\<lambda>_.
     rbind (require (dp_allowed_provider_profile_ids p \<noteq> {})
            (PolicyExc (ValueError ''allowed_provider_profile_ids must not be empty''))) (\<lambda>_.
     rbind (require (dp_allowed_run_purposes p \<noteq> {})
            (PolicyExc (ValueError ''allowed_run_purposes must not be empty''))) (\<lambda>_.
     rbind (require (dp_allowed_budget_presets p \<noteq> {})
            (PolicyExc (ValueError ''allowed_budget_presets must not be empty''))) (\<lambda>_.
     rbind (require (set (dkeys (dp_budget_presets p)) = dp_allowed_budget_presets p)
            (PolicyExc (ValueError ''budget_presets must exactly cover allowed_budget_presets''))) (\<lambda>_.
     Inr p))))))"

definition policy_validate_request :: "deployment_policy \<Rightarrow> research_request \<Rightarrow> policy_error + unit" where
  "policy_validate_request p r =
     rbind (require (rq_execution_mode r \<in> dp_allowed_execution_modes p)
            (PolicyViolation ''execution mode is not allowed'')) (\<lambda>_.
     rbind (require (rq_provider_profile_id r \<in> dp_allowed_provider_profile_ids p)
            (PolicyViolation ''provider profile is not allowed'')) (\<lambda>_.
     rbind (require (rq_run_purpose r \<in> dp_allowed_run_purposes p)
            (PolicyViolation ''run purpose is not allowed'')) (\<lambda>_.
     require (rq_budget_preset r \<in> dp_allowed_budget_presets p)
            (PolicyViolation ''budget preset is not allowed''))))"

definition policy_exc :: "exc + 'a \<Rightarrow> policy_error + 'a" where
  "policy_exc r = (case r of Inl e \<Rightarrow> Inl (PolicyExc e) | Inr x \<Rightarrow> Inr x)"

definition normalize_request :: "deployment_policy \<Rightarrow> research_request \<Rightarrow> policy_error + research_request" where
  "normalize_request p r =
     rbind (policy_validate_request p r) (\<lambda>_.
     policy_exc (mk_request (r\<lparr>rq_access_profile := dp_forced_access_profile p\<rparr>)))"

definition budget_for_request :: "deployment_policy \<Rightarrow> research_request \<Rightarrow> policy_error + run_budget" where
  "budget_for_request p r =
     rbind (policy_validate_request p r) (\<lambda>_.
     case dget (dp_budget_presets p) (rq_budget_preset r) of
       None \<Rightarrow> Inl (PolicyExc (KeyError ''budget_preset''))
     | Some b \<Rightarrow>
         if dp_local_unpriced_live p \<and> rq_execution_mode r = Live
         then policy_exc (mk_run_budget (b\<lparr>rb_max_cost_usd := None\<rparr>))
         else Inr b)"

definition validate_config :: "deployment_policy \<Rightarrow> run_config \<Rightarrow> policy_error + unit" where
  "validate_config p c =
     rbind (policy_validate_request p (rc_request c)) (\<lambda>_.
     rbind (require (rq_access_profile (rc_request c) = dp_forced_access_profile p)
            (PolicyViolation ''access profile has not been normalized'')) (\<lambda>_.
     rbind (budget_for_request p (rc_request c)) (\<lambda>b.
     require (rc_budget c = b) (PolicyViolation ''budget does not match canonical preset''))))"

section \<open>Lemmas\<close>

lemma policy_exc_Inr [simp, res_simps]: "policy_exc r = Inr x \<longleftrightarrow> r = Inr x"
  by (simp add: policy_exc_def split: sum.splits)

lemma policy_validate_request_Inr [res_simps]:
  "policy_validate_request p r = Inr u \<longleftrightarrow> rq_execution_mode r \<in> dp_allowed_execution_modes p \<and>
     rq_provider_profile_id r \<in> dp_allowed_provider_profile_ids p \<and>
     rq_run_purpose r \<in> dp_allowed_run_purposes p \<and> rq_budget_preset r \<in> dp_allowed_budget_presets p"
  by (simp add: policy_validate_request_def res_simps)

lemma mk_policy_Inr:
  "mk_policy p = Inr q \<longleftrightarrow> q = p \<and> dp_allowed_execution_modes p \<noteq> {} \<and>
     dp_allowed_provider_profile_ids p \<noteq> {} \<and> dp_allowed_run_purposes p \<noteq> {} \<and>
     dp_allowed_budget_presets p \<noteq> {} \<and> dom (dget (dp_budget_presets p)) = dp_allowed_budget_presets p \<and>
     (dp_local_unpriced_live p \<longrightarrow> dp_forced_access_profile p = LocalProfile \<and>
        Benchmark \<notin> dp_allowed_run_purposes p)"
  by (auto simp: mk_policy_def res_simps dom_map_of_conv_image_fst)

lemma mk_request_same:
  assumes "mk_request r = Inr r'"
  shows "rq_execution_mode r' = rq_execution_mode r \<and> rq_provider_profile_id r' = rq_provider_profile_id r \<and>
    rq_run_purpose r' = rq_run_purpose r \<and> rq_budget_preset r' = rq_budget_preset r \<and>
    rq_access_profile r' = rq_access_profile r"
  using assms by (auto simp: mk_request_def split: if_splits)

lemma budget_for_request_cases:
  assumes "budget_for_request p r = Inr b"
  obtains b0 where "dget (dp_budget_presets p) (rq_budget_preset r) = Some b0"
    "b = (if dp_local_unpriced_live p \<and> rq_execution_mode r = Live then b0\<lparr>rb_max_cost_usd := None\<rparr> else b0)"
  using assms by (auto simp: budget_for_request_def res_simps mk_run_budget_def split: option.splits if_splits)

text \<open>
  A deployment runs exactly what it allows.  Under a well-formed policy with valid preset
  budgets, every valid request whose mode, profile, purpose and preset are allowed is normalized
  and gets a budget, and the configuration built from the two validates; and a configuration that
  validates has the forced access profile, the preset budget and, unless the deployment is an
  unpriced local one, its cost limit: an unpriced live run is never a benchmark and never public.
\<close>

theorem policy_validates_normalized:
  assumes "mk_policy p = Inr p" "list_all valid_budget (dvalues (dp_budget_presets p))"
  shows "(policy_validate_request p r = Inr () \<and> valid_freshness (rq_freshness_requirement r) \<longrightarrow>
      (\<exists>r' b. normalize_request p r = Inr r' \<and> budget_for_request p r' = Inr b \<and>
         (\<forall>c. rc_request c = r' \<and> rc_budget c = b \<longrightarrow> validate_config p c = Inr ()))) \<and>
    (\<forall>c. validate_config p c = Inr () \<longrightarrow>
       rq_access_profile (rc_request c) = dp_forced_access_profile p \<and>
       (\<exists>b. dget (dp_budget_presets p) (rq_budget_preset (rc_request c)) = Some b \<and>
          rc_budget c = b\<lparr>rb_max_cost_usd := rb_max_cost_usd (rc_budget c)\<rparr> \<and>
          (rb_max_cost_usd (rc_budget c) = rb_max_cost_usd b \<or>
             rb_max_cost_usd (rc_budget c) = None \<and> rq_execution_mode (rc_request c) = Live \<and>
             rq_access_profile (rc_request c) = LocalProfile \<and> rq_run_purpose (rc_request c) \<noteq> Benchmark)))"
proof (intro conjI impI allI)
  assume r: "policy_validate_request p r = Inr () \<and> valid_freshness (rq_freshness_requirement r)"
  let ?r = "r\<lparr>rq_access_profile := dp_forced_access_profile p\<rparr>"
  obtain r' where r': "mk_request ?r = Inr r'" using r by (simp add: mk_request_def)
  note same = mk_request_same [OF r']
  have ok: "policy_validate_request p r' = Inr ()" using r same by (simp add: policy_validate_request_Inr)
  obtain b0 where b0: "dget (dp_budget_presets p) (rq_budget_preset r') = Some b0"
    using ok assms(1) by (auto simp: policy_validate_request_Inr mk_policy_Inr)
  then have "valid_budget b0" using assms(2) dget_in_set [OF b0] by (force simp: list_all_iff)
  then have "valid_budget (b0\<lparr>rb_max_cost_usd := None\<rparr>)" by (simp add: valid_budget_def)
  with ok b0 obtain b where b: "budget_for_request p r' = Inr b"
    by (cases "dp_local_unpriced_live p \<and> rq_execution_mode r' = Live")
      (auto simp: budget_for_request_def mk_run_budget_def policy_exc_def)
  have "validate_config p c = Inr ()" if "rc_request c = r' \<and> rc_budget c = b" for c
    using that ok b same by (simp add: validate_config_def)
  with r r' b show "\<exists>r' b. normalize_request p r = Inr r' \<and> budget_for_request p r' = Inr b \<and>
         (\<forall>c. rc_request c = r' \<and> rc_budget c = b \<longrightarrow> validate_config p c = Inr ())"
    by (intro exI [of _ r'] exI [of _ b]) (simp add: normalize_request_def)
next
  fix c assume v: "validate_config p c = Inr ()"
  then show forced: "rq_access_profile (rc_request c) = dp_forced_access_profile p"
    by (simp add: validate_config_def res_simps)
  from v have ok: "policy_validate_request p (rc_request c) = Inr ()"
    and "budget_for_request p (rc_request c) = Inr (rc_budget c)"
    by (simp_all add: validate_config_def res_simps)
  from this(2) obtain b where b: "dget (dp_budget_presets p) (rq_budget_preset (rc_request c)) = Some b"
    "rc_budget c = (if dp_local_unpriced_live p \<and> rq_execution_mode (rc_request c) = Live
       then b\<lparr>rb_max_cost_usd := None\<rparr> else b)"
    by (rule budget_for_request_cases)
  show "\<exists>b. dget (dp_budget_presets p) (rq_budget_preset (rc_request c)) = Some b \<and>
          rc_budget c = b\<lparr>rb_max_cost_usd := rb_max_cost_usd (rc_budget c)\<rparr> \<and>
          (rb_max_cost_usd (rc_budget c) = rb_max_cost_usd b \<or>
             rb_max_cost_usd (rc_budget c) = None \<and> rq_execution_mode (rc_request c) = Live \<and>
             rq_access_profile (rc_request c) = LocalProfile \<and> rq_run_purpose (rc_request c) \<noteq> Benchmark)"
    using b ok forced assms(1) by (intro exI [of _ b]) (auto simp: mk_policy_Inr policy_validate_request_Inr)
qed

definition demo_policy :: deployment_policy where
  "demo_policy = \<lparr>dp_forced_access_profile = PublicLive, dp_allowed_execution_modes = {Live, Replay},
     dp_allowed_provider_profile_ids = {''p''}, dp_allowed_run_purposes = {Demo},
     dp_allowed_budget_presets = {Low}, dp_budget_presets = [(Low, preset Low)],
     dp_local_unpriced_live = False\<rparr>"

definition demo_request :: research_request where
  "demo_request = \<lparr>rq_question = ''q'', rq_output_requirements = [], rq_report_language = ''en'',
     rq_source_languages = [''en''],
     rq_freshness_requirement = \<lparr>fr_kind = FreshNone, fr_published_after = None, fr_retrieved_within_days = None\<rparr>,
     rq_execution_mode = Live, rq_access_profile = LocalProfile, rq_provider_profile_id = ''p'',
     rq_run_purpose = Demo, rq_budget_preset = Low\<rparr>"

theorem policy_validates_normalized_witness:
  "\<exists>r'. normalize_request demo_policy demo_request = Inr r' \<and> budget_for_request demo_policy r' = Inr (preset Low)"
proof -
  have "mk_policy demo_policy = Inr demo_policy" by (simp add: mk_policy_def demo_policy_def)
  moreover have "list_all valid_budget (dvalues (dp_budget_presets demo_policy))"
    by (simp add: demo_policy_def valid_preset)
  moreover have "policy_validate_request demo_policy demo_request = Inr () \<and>
      valid_freshness (rq_freshness_requirement demo_request)"
    by (simp add: policy_validate_request_Inr demo_policy_def demo_request_def valid_freshness_def)
  ultimately obtain r' b where "normalize_request demo_policy demo_request = Inr r'"
    "budget_for_request demo_policy r' = Inr b"
    using policy_validates_normalized [of demo_policy demo_request] by blast
  moreover from this(2) have "b = preset Low"
    by (rule budget_for_request_cases) (auto simp: demo_policy_def split: if_splits)
  ultimately show ?thesis by blast
qed

end
