(* ===== verification/Run_Manager.thy ===== *)
theory Run_Manager
  imports Admission_Limits Deployment_Policy
begin

text \<open>
  The run manager of the service (\<^verbatim>\<open>src/src/deepresearch/runtime/manager.py\<close>).  Its state is the
  admission controller (\<open>None\<close> for the one that does nothing), the run store, the tasks and
  cancellation tokens, the two sets of requested stops, the closing flag and the subscriptions.
  Every section the code runs under a run lock or the creation lock is one operation, which
  returns a value or an error together with the state it leaves behind, so what an operation did
  before it raised stays done.  A task is its phase: created, running the research graph with the
  record it started from, or recovering a start.  The clock, fresh ids and what the runner
  returned are arguments.
\<close>

section \<open>State\<close>

datatype manager_error =
    RunNotFound string | MissingPricingSnapshot string | IdempotencyConflict
  | CheckpointResumeUnavailable | ServiceShuttingDown | TaskStartFailed
  | IllegalTransition invalid_transition | ManagerPolicy policy_error
  | ManagerStore store_error | ManagerAdmission admission_error | ManagerExc exc

datatype task_phase = TaskCreated run_record | TaskExecuting run_record | TaskRecovering run_record

record subscription =
  su_run :: string
  su_registered :: bool
  su_event :: bool
  su_closed :: bool

record manager =
  mg_admission :: "limit_manager option"
  mg_db :: database
  mg_tasks :: "(string, task_phase) dict"
  mg_tokens :: "(string, cancellation_token) dict"
  mg_user_cancel :: "string set"
  mg_shutdown :: "string set"
  mg_closing :: bool
  mg_subs :: "subscription list"

definition run_manager :: "limit_manager option \<Rightarrow> database \<Rightarrow> manager" where
  "run_manager adm db = \<lparr>mg_admission = adm, mg_db = db, mg_tasks = [], mg_tokens = [],
     mg_user_cancel = {}, mg_shutdown = {}, mg_closing = False, mg_subs = []\<rparr>"

text \<open>An operation returns its value or error and the state after it; sequencing stops at the first error.\<close>

type_synonym 'a mgr = "manager \<Rightarrow> (manager_error + 'a) \<times> manager"

definition mret :: "manager_error + 'a \<Rightarrow> 'a mgr" where
  "mret r m = (r, m)"

definition mbind :: "'a mgr \<Rightarrow> ('a \<Rightarrow> 'b mgr) \<Rightarrow> 'b mgr" where
  "mbind p f m = (case p m of (Inl e, m') \<Rightarrow> (Inl e, m') | (Inr x, m') \<Rightarrow> f x m')"

definition mstore :: "(database \<Rightarrow> store_error + ('a \<times> database)) \<Rightarrow> 'a mgr" where
  "mstore f m = (case f (mg_db m) of
     Inl e \<Rightarrow> (Inl (ManagerStore e), m) | Inr (x, db) \<Rightarrow> (Inr x, m\<lparr>mg_db := db\<rparr>))"

text \<open>A call of the admission controller; the one that does nothing returns \<open>dflt\<close>.\<close>

definition madmission :: "'a \<Rightarrow> (limit_manager \<Rightarrow> database \<Rightarrow>
    (admission_error + 'a) \<times> limit_manager \<times> database) \<Rightarrow> 'a mgr" where
  "madmission dflt f m = (case mg_admission m of
     None \<Rightarrow> (Inr dflt, m)
   | Some lm \<Rightarrow> (case f lm (mg_db m) of (r, lm', db') \<Rightarrow>
       (case r of Inl e \<Rightarrow> Inl (ManagerAdmission e) | Inr x \<Rightarrow> Inr x,
        m\<lparr>mg_admission := Some lm', mg_db := db'\<rparr>)))"

section \<open>Views and small decisions\<close>

record run_view =
  vw_run_id :: string
  vw_thread_id :: string
  vw_status :: run_status
  vw_stop_reason :: "stop_reason option"
  vw_is_partial :: bool
  vw_report_artifact_id :: "string option"
  vw_evidence_graph_artifact_id :: "string option"
  vw_manifest_artifact_id :: "string option"
  vw_final_usage :: "resource_usage option"
  vw_error_code :: "string option"

definition view :: "run_record \<Rightarrow> run_view" where
  "view r = \<lparr>vw_run_id = rn_run_id r, vw_thread_id = rn_thread_id r, vw_status = rn_status r,
     vw_stop_reason = rn_stop_reason r, vw_is_partial = rn_is_partial r,
     vw_report_artifact_id = rn_report_artifact_id r,
     vw_evidence_graph_artifact_id = rn_evidence_graph_artifact_id r,
     vw_manifest_artifact_id = rn_manifest_artifact_id r,
     vw_final_usage = rn_final_usage r, vw_error_code = rn_error_code r\<rparr>"

fun status_value :: "run_status \<Rightarrow> string" where
  "status_value Queued = ''queued''"
| "status_value Running = ''running''"
| "status_value Interrupted = ''interrupted''"
| "status_value Completed = ''completed''"
| "status_value Failed = ''failed''"
| "status_value Cancelled = ''cancelled''"

definition draft :: "timestamp \<Rightarrow> run_status \<Rightarrow> terminal_event_draft" where
  "draft now s = \<lparr>td_timestamp = now, td_node = ''service'', td_kind = ''run_'' @ status_value s,
     td_public_payload = []\<rparr>"

definition requested_admission_cost :: "run_config \<Rightarrow> pricing_status \<Rightarrow> manager_error + decimal" where
  "requested_admission_cost c ps =
     (if rq_execution_mode (rc_request c) = Replay \<or> ps = UnknownPricing then Inr (Fin 0)
      else case rb_max_cost_usd (rc_budget c) of
        None \<Rightarrow> Inl (MissingPricingSnapshot ''priced live runs require a cost budget'')
      | Some cost \<Rightarrow> Inr cost)"

text \<open>
  \<open>keys\<close> are the identities of the snapshots the catalog holds for the profile, \<open>required\<close>
  those the routes need.
\<close>

definition pricing :: "run_config \<Rightarrow> (string \<times> string \<times> string) list \<Rightarrow> (string \<times> string \<times> string) set \<Rightarrow>
    manager_error + pricing_status" where
  "pricing c keys required =
     (if required - set keys \<noteq> {} \<or> keys = []
      then if rq_access_profile (rc_request c) = PublicLive \<or> rq_run_purpose (rc_request c) = Benchmark
           then Inl (MissingPricingSnapshot ''required pricing snapshot is unavailable'')
           else Inr UnknownPricing
      else if card (set keys) \<noteq> length keys
           then Inl (MissingPricingSnapshot ''pricing snapshot identities are ambiguous'')
      else Inr Estimated)"

definition ensure_open :: "manager \<Rightarrow> manager_error + unit" where
  "ensure_open m = require (\<not> mg_closing m) ServiceShuttingDown"

definition idempotent_view :: "run_record \<Rightarrow> string \<Rightarrow> manager_error + run_view" where
  "idempotent_view r digest =
     (if rn_config_sha256 r \<noteq> digest then Inl IdempotencyConflict else Inr (view r))"

definition owned :: "manager \<Rightarrow> string \<Rightarrow> string \<Rightarrow> manager_error + run_record" where
  "owned m i scope =
     (case get_owned_run (mg_db m) i scope of None \<Rightarrow> Inl (RunNotFound i) | Some r \<Rightarrow> Inr r)"

definition get_view :: "manager \<Rightarrow> string \<Rightarrow> string \<Rightarrow> manager_error + run_view" where
  "get_view m i scope = rbind (owned m i scope) (\<lambda>r. Inr (view r))"

section \<open>Subscriptions\<close>

definition subscribe :: "string \<Rightarrow> string \<Rightarrow> nat mgr" where
  "subscribe i scope m =
     (case owned m i scope of
        Inl e \<Rightarrow> (Inl e, m)
      | Inr _ \<Rightarrow> (Inr (length (mg_subs m)), m\<lparr>mg_subs := mg_subs m @
          [\<lparr>su_run = i, su_registered = True, su_event = False, su_closed = False\<rparr>]\<rparr>))"

definition close_subscription :: "nat \<Rightarrow> manager \<Rightarrow> manager" where
  "close_subscription n m =
     m\<lparr>mg_subs := (mg_subs m)[n := (mg_subs m ! n)\<lparr>su_closed := True, su_registered := False, su_event := True\<rparr>]\<rparr>"

text \<open>\<^verbatim>\<open>wait\<close> returns when the event is set, and clears it while the subscription is open.\<close>

definition wait_subscription :: "nat \<Rightarrow> manager \<Rightarrow> manager option" where
  "wait_subscription n m =
     (if su_event (mg_subs m ! n)
      then Some (if su_closed (mg_subs m ! n) then m
                 else m\<lparr>mg_subs := (mg_subs m)[n := (mg_subs m ! n)\<lparr>su_event := False\<rparr>]\<rparr>)
      else None)"

definition broadcast_persisted :: "run_event \<Rightarrow> manager \<Rightarrow> manager" where
  "broadcast_persisted e m =
     m\<lparr>mg_subs := map (\<lambda>s. if su_run s = ev_run_id e \<and> su_registered s then s\<lparr>su_event := True\<rparr> else s)
                    (mg_subs m)\<rparr>"

text \<open>The sink of a task: the payload is redacted (the function is an argument), stored, announced.\<close>

definition emit :: "((string \<times> json) list \<Rightarrow> (string \<times> json) list) \<Rightarrow> run_event \<Rightarrow> run_event mgr" where
  "emit redact e =
     mbind (mstore (\<lambda>db. append_event db (e\<lparr>ev_public_payload := redact (ev_public_payload e)\<rparr>)))
       (\<lambda>p m. (Inr p, broadcast_persisted p m))"

definition sink :: "string \<Rightarrow> ((string \<times> json) list \<Rightarrow> (string \<times> json) list) \<Rightarrow> run_event \<Rightarrow> run_event mgr" where
  "sink i redact e =
     (if ev_run_id e \<noteq> i then mret (Inl (ManagerExc (ValueError ''event run identity mismatch'')))
      else emit redact e)"

section \<open>Ending a run\<close>

definition inactive_finalization :: "run_record \<Rightarrow> run_status \<Rightarrow> string \<Rightarrow> bool \<Rightarrow> run_finalization mgr" where
  "inactive_finalization r status code never_started m =
     (rbind (case list_events_after (mg_db m) (rn_run_id r) 0 of
               Inl e \<Rightarrow> Inl (ManagerStore e) | Inr es \<Rightarrow> Inr es) (\<lambda>events.
      rbind (case recover_usage (rn_final_usage r) events (never_started \<or> rn_status r = Queued) of
               Inl e \<Rightarrow> Inl (ManagerExc e) | Inr u \<Rightarrow> Inr u) (\<lambda>usage.
      Inr \<lparr>fz_status = status, fz_stop_reason = None, fz_is_partial = (rn_status r \<noteq> Queued),
           fz_report_artifact_id = rn_report_artifact_id r,
           fz_evidence_graph_artifact_id = rn_evidence_graph_artifact_id r,
           fz_manifest_artifact_id = rn_manifest_artifact_id r,
           fz_final_usage = usage, fz_error_code = Some code\<rparr>)), m)"

definition known_cost :: "run_record \<Rightarrow> decimal option" where
  "known_cost r = (case rn_final_usage r of None \<Rightarrow> None | Some u \<Rightarrow> ru_cost_usd u)"

definition complete_accounting :: "run_record \<Rightarrow> run_record mgr" where
  "complete_accounting r =
     (case rn_admission_reservation_id r of
        None \<Rightarrow> mret (Inr r)
      | Some rid \<Rightarrow>
          (case known_cost r of
             Some c \<Rightarrow> mbind (madmission () (\<lambda>lm db. settle_admission sql_cost_ops lm db (Some rid) c))
                        (\<lambda>_. mstore (\<lambda>db. clear_admission db (rn_run_id r) (Some rid)))
           | None \<Rightarrow> mbind (madmission () (\<lambda>lm db. defer_settlement lm db rid)) (\<lambda>_. mret (Inr r))))"

definition finalize :: "timestamp \<Rightarrow> run_record \<Rightarrow> run_finalization \<Rightarrow> run_record mgr" where
  "finalize now r f =
     mbind (mstore (\<lambda>db. finalize_run db (rn_run_id r) (rn_status r) f (draft now (fz_status f)))) (\<lambda>(saved, terminal).
     mbind (complete_accounting saved) (\<lambda>saved' m. (Inr saved', broadcast_persisted terminal m)))"

definition broadcast_terminal :: "run_record \<Rightarrow> unit mgr" where
  "broadcast_terminal r m =
     (case list_events_after (mg_db m) (rn_run_id r) 0 of
        Inl e \<Rightarrow> (Inl (ManagerStore e), m)
      | Inr events \<Rightarrow>
          (case find (\<lambda>e. ev_kind e = ''run_'' @ status_value (rn_status r) \<and> ev_status e = rn_status r)
                  (rev events) of
             None \<Rightarrow> (Inr (), m)
           | Some e \<Rightarrow> (Inr (), broadcast_persisted e m)))"

section \<open>Executing a run\<close>

text \<open>
  The first part of \<open>_execute\<close>: what the runner returned (\<open>None\<close> when it raised) becomes a
  finalization, or an internal error.
\<close>

definition runner_outcome :: "run_record \<Rightarrow> run_result option \<Rightarrow> run_finalization mgr" where
  "runner_outcome r result =
     (let failed = inactive_finalization r Failed ''INTERNAL_ERROR'' False in
      case result of
        None \<Rightarrow> failed
      | Some res \<Rightarrow>
          if rr_run_id res \<noteq> rn_run_id r \<or> rr_thread_id res \<noteq> rn_thread_id r then failed
          else (case from_result res of Inl _ \<Rightarrow> failed | Inr f \<Rightarrow> mret (Inr f)))"

definition recover_cost :: "run_record \<Rightarrow> run_finalization \<Rightarrow> run_finalization mgr" where
  "recover_cost r f m =
     (if ru_cost_usd (fz_final_usage f) = None
      then (rbind (case list_events_after (mg_db m) (rn_run_id r) 0 of
                     Inl e \<Rightarrow> Inl (ManagerStore e) | Inr es \<Rightarrow> Inr es) (\<lambda>events.
            rbind (case recover_usage (Some (fz_final_usage f)) events False of
                     Inl e \<Rightarrow> Inl (ManagerExc e) | Inr u \<Rightarrow> Inr u) (\<lambda>u.
            Inr (f\<lparr>fz_final_usage := u\<rparr>))), m)
      else (Inr f, m))"

definition apply_pricing :: "run_record \<Rightarrow> run_finalization \<Rightarrow> manager_error + run_finalization" where
  "apply_pricing r f =
     (if rn_pricing_status r = Estimated \<and> ru_cost_usd (fz_final_usage f) = None
      then Inr (f\<lparr>fz_status := Failed, fz_stop_reason := None, fz_error_code := Some ''PRICING_INCOMPLETE''\<rparr>)
      else if rn_pricing_status r = UnknownPricing
      then (case mk_usage ((fz_final_usage f)\<lparr>ru_cost_usd := None\<rparr>) of
              Inl e \<Rightarrow> Inl (ManagerExc e) | Inr u \<Rightarrow> Inr (f\<lparr>fz_final_usage := u\<rparr>))
      else Inr f)"

definition apply_stops :: "manager \<Rightarrow> run_record \<Rightarrow> run_finalization \<Rightarrow> run_finalization" where
  "apply_stops m r f =
     (if rn_run_id r \<in> mg_user_cancel m
      then f\<lparr>fz_status := Cancelled, fz_stop_reason := None, fz_error_code := Some ''CANCELLED_BY_USER''\<rparr>
      else if rn_run_id r \<in> mg_shutdown m
      then f\<lparr>fz_status := Interrupted, fz_stop_reason := None, fz_is_partial := True,
             fz_error_code := Some ''SERVICE_SHUTDOWN''\<rparr>
      else f)"

definition execute_locked :: "timestamp \<Rightarrow> run_record \<Rightarrow> run_finalization \<Rightarrow> run_record mgr" where
  "execute_locked now r f =
     mbind (recover_cost r f) (\<lambda>f1.
     mbind (mret (apply_pricing r f1)) (\<lambda>f2 m.
     finalize now r (apply_stops m r f2) m))"

text \<open>The end of a task: \<open>_forget\<close>.\<close>

definition forget :: "string \<Rightarrow> manager \<Rightarrow> manager" where
  "forget i m =
     m\<lparr>mg_tasks := filter (\<lambda>(j, _). j \<noteq> i) (mg_tasks m),
       mg_tokens := (if dget (mg_tasks m) i \<noteq> None then filter (\<lambda>(j, _). j \<noteq> i) (mg_tokens m) else mg_tokens m),
       mg_user_cancel := mg_user_cancel m - {i}, mg_shutdown := mg_shutdown m - {i}\<rparr>"

definition set_phase :: "string \<Rightarrow> task_phase \<Rightarrow> manager \<Rightarrow> manager" where
  "set_phase i ph m = m\<lparr>mg_tasks := dput i ph (mg_tasks m)\<rparr>"

text \<open>
  \<open>_start\<close>: under the run lock the queued run becomes running, unless it was finalized
  meanwhile (the task ends) or its token is cancelled or the store fails (the task recovers).
\<close>

definition start :: "string \<Rightarrow> run_record \<Rightarrow> manager \<Rightarrow> manager" where
  "start i original m =
     (case get_run (mg_db m) i of
        None \<Rightarrow> forget i m
      | Some current \<Rightarrow>
          if rn_status current \<noteq> Queued then forget i m
          else if (case dget (mg_tokens m) i of Some t \<Rightarrow> is_cancelled t | None \<Rightarrow> False)
          then set_phase i (TaskRecovering original) m
          else (case mstore (\<lambda>db. store_transition db i Queued Running) m of
                  (Inl _, m1) \<Rightarrow> set_phase i (TaskRecovering original) m1
                | (Inr r, m1) \<Rightarrow> set_phase i (TaskExecuting r) m1))"

text \<open>\<open>_execute\<close> after the runner has ended, and the end of its task, failed or not.\<close>

definition execute :: "timestamp \<Rightarrow> run_record \<Rightarrow> run_result option \<Rightarrow> run_record mgr" where
  "execute now r result m =
     (case mbind (runner_outcome r result) (execute_locked now r) m of
        (res, m1) \<Rightarrow> (res, forget (rn_run_id r) m1))"

text \<open>One round of \<open>_recover_start\<close>: on an error the task stays and tries again after a delay.\<close>

definition recover_code :: "manager \<Rightarrow> string \<Rightarrow> string" where
  "recover_code m i =
     (if i \<in> mg_user_cancel m then ''CANCELLED_BY_USER''
      else if i \<in> mg_shutdown m then ''SERVICE_SHUTDOWN'' else ''TASK_START_FAILED'')"

definition recover_round :: "timestamp \<Rightarrow> run_record \<Rightarrow> unit mgr" where
  "recover_round now original m =
     (case get_run (mg_db m) (rn_run_id original) of
        None \<Rightarrow> madmission () (\<lambda>lm db. release_admission sql_cost_ops lm db (rn_admission_reservation_id original)) m
      | Some current \<Rightarrow>
          if rn_status current \<in> {Queued, Running}
          then mbind (inactive_finalization current
                   (if rn_run_id current \<in> mg_user_cancel m then Cancelled else Interrupted)
                   (recover_code m (rn_run_id current)) True) (\<lambda>f.
               mbind (finalize now current f) (\<lambda>_. mret (Inr ()))) m
          else mbind (complete_accounting current) broadcast_terminal m)"

definition recover_start :: "timestamp \<Rightarrow> run_record \<Rightarrow> unit mgr" where
  "recover_start now original m =
     (case recover_round now original m of
        (Inl e, m1) \<Rightarrow> (Inl e, m1)
      | (Inr _, m1) \<Rightarrow> (Inr (), forget (rn_run_id original) m1))"

section \<open>Requests\<close>

definition cancel_run_token :: "string \<Rightarrow> manager \<Rightarrow> manager" where
  "cancel_run_token i m =
     (case dget (mg_tokens m) i of
        None \<Rightarrow> m | Some t \<Rightarrow> m\<lparr>mg_tokens := dput i (cancel_token t) (mg_tokens m)\<rparr>)"

definition request_cancel :: "string \<Rightarrow> manager \<Rightarrow> manager" where
  "request_cancel i m = cancel_run_token i (m\<lparr>mg_user_cancel := insert i (mg_user_cancel m)\<rparr>)"

text \<open>
  \<open>cancel\<close>.  Ending the task of a queued run early has no effect here: that task finds the run
  finalized and ends.
\<close>

definition cancel :: "timestamp \<Rightarrow> string \<Rightarrow> string \<Rightarrow> run_view mgr" where
  "cancel now i scope m =
     (case owned m i scope of
        Inl e \<Rightarrow> (Inl e, m)
      | Inr r \<Rightarrow>
          if rn_status r = Cancelled
          then mbind (complete_accounting r) (\<lambda>saved.
               mbind (broadcast_terminal saved) (\<lambda>_. mret (Inr (view saved)))) m
          else case validate_cancel (rn_status r) of
            Inl e \<Rightarrow> (Inl (IllegalTransition e), m)
          | Inr _ \<Rightarrow>
              if rn_status r = Running
              then if dget (mg_tokens m) i = None then (Inl CheckpointResumeUnavailable, m)
                   else (Inr (view r), request_cancel i m)
              else let m1 = (if rn_status r = Queued \<and> dget (mg_tokens m) i \<noteq> None
                             then request_cancel i m else m)
                in mbind (inactive_finalization r Cancelled ''CANCELLED_BY_USER'' False) (\<lambda>f.
                   mbind (finalize now r f) (\<lambda>saved. mret (Inr (view saved)))) m1)"

text \<open>The two parts of \<open>shutdown\<close> that change the state: closing, and one run after the grace period.\<close>

definition close_service :: "manager \<Rightarrow> manager" where
  "close_service m = m\<lparr>mg_closing := True\<rparr>"

definition shutdown_run :: "timestamp \<Rightarrow> string \<Rightarrow> unit mgr" where
  "shutdown_run now i m =
     (case get_run (mg_db m) i of
        None \<Rightarrow> (Inr (), m)
      | Some r \<Rightarrow>
          if rn_status r \<notin> {Queued, Running} then (Inr (), m)
          else let m1 = (if i \<in> mg_user_cancel m then m
                         else m\<lparr>mg_shutdown := insert i (mg_shutdown m)\<rparr>);
                   m2 = cancel_run_token i m1
            in if dget (mg_tokens m) i = None then (Inl (ManagerExc (KeyError i)), m1)
               else if rn_status r = Queued
               then mbind (inactive_finalization r Interrupted ''SERVICE_SHUTDOWN'' False) (\<lambda>f.
                    mbind (finalize now r f) (\<lambda>_. mret (Inr ()))) m2
               else (Inr (), m2))"

section \<open>Creating a run\<close>

text \<open>
  What one call of \<open>create\<close> is given and draws: the request, its scope and digest, fresh ids, the
  result of resolving the provider routes (the keys of the prices at hand, the keys required and
  the public profile) and of building the runner, and whether the event loop took the task.
\<close>

record creation =
  cr_config :: run_config
  cr_client_ip :: string
  cr_session_id :: string
  cr_scope :: string
  cr_digest :: string
  cr_key :: "string option"
  cr_run_id :: string
  cr_thread_id :: string
  cr_now :: timestamp
  cr_routes :: "manager_error + ((string \<times> string \<times> string) list \<times> (string \<times> string \<times> string) set)"
  cr_config_json :: json
  cr_snapshots :: "json list"
  cr_profile_json :: json
  cr_profile_sha256 :: string
  cr_runner :: "manager_error + unit"
  cr_inputs :: admit_inputs
  cr_task_ok :: bool

definition new_record :: "creation \<Rightarrow> pricing_status \<Rightarrow> admission \<Rightarrow> run_record" where
  "new_record c ps a = \<lparr>rn_run_id = cr_run_id c, rn_thread_id = cr_thread_id c, rn_status = Queued,
     rn_config_json = cr_config_json c, rn_pricing_status = ps,
     rn_pricing_snapshots = (if ps = Estimated then cr_snapshots c else []),
     rn_provider_profile_json = cr_profile_json c, rn_provider_profile_sha256 = cr_profile_sha256 c,
     rn_config_sha256 = cr_digest c, rn_owner_scope_sha256 = cr_scope c,
     rn_idempotency_scope_sha256 = cr_scope c, rn_idempotency_key = cr_key c,
     rn_admission_reservation_id = ad_reservation_id a, rn_admission_attempt_no = ad_attempt_no a,
     rn_stop_reason = None, rn_is_partial = False, rn_report_artifact_id = None,
     rn_evidence_graph_artifact_id = None, rn_manifest_artifact_id = None, rn_final_usage = None,
     rn_error_code = None, rn_updated_at = cr_now c, rn_version = 1\<rparr>"

definition existing_run :: "manager \<Rightarrow> creation \<Rightarrow> run_record option" where
  "existing_run m c =
     (case cr_key c of None \<Rightarrow> None | Some k \<Rightarrow> get_by_idempotency (mg_db m) (cr_scope c) k)"

text \<open>Storing the admitted run; when that fails the reservation is given back.\<close>

definition store_admitted :: "creation \<Rightarrow> run_record \<Rightarrow> (run_view + run_record) mgr" where
  "store_admitted c r m =
     (case mstore (\<lambda>db. create_run db r) m of
        (Inr saved, m1) \<Rightarrow> (Inr (Inr saved), m1)
      | (Inl e, m1) \<Rightarrow>
          mbind (madmission () (\<lambda>lm db. release_admission sql_cost_ops lm db (rn_admission_reservation_id r)))
            (\<lambda>_ m2. case (e, existing_run m2 c) of
               (ManagerStore (IdempotencyCollision _), Some ex) \<Rightarrow>
                 (rbind (idempotent_view ex (cr_digest c)) (\<lambda>v. Inr (Inl v)), m2)
             | _ \<Rightarrow> (Inl e, m2)) m1)"

definition launch :: "creation \<Rightarrow> run_record \<Rightarrow> run_view mgr" where
  "launch c saved m =
     (let i = rn_run_id saved; m1 = m\<lparr>mg_tokens := dput i new_token (mg_tokens m)\<rparr>
      in if cr_task_ok c then (Inr (view saved), set_phase i (TaskCreated saved) m1)
         else mbind (inactive_finalization saved Interrupted ''TASK_START_FAILED'' False) (\<lambda>f.
              mbind (finalize (cr_now c) saved f) (\<lambda>_. mret (Inl TaskStartFailed)))
              (m1\<lparr>mg_tokens := filter (\<lambda>(j, _). j \<noteq> i) (mg_tokens m1)\<rparr>))"

definition admit_and_store :: "creation \<Rightarrow> pricing_status \<Rightarrow> decimal \<Rightarrow> run_view mgr" where
  "admit_and_store c ps cost =
     mbind (madmission no_admission (\<lambda>lm db. admit sql_cost_ops lm db (cr_inputs c) (cr_run_id c)
              (cr_client_ip c) (cr_session_id c) (rq_access_profile (rc_request (cr_config c))) cost)) (\<lambda>a.
     mbind (store_admitted c (new_record c ps a)) (\<lambda>r.
     case r of Inl v \<Rightarrow> mret (Inr v) | Inr saved \<Rightarrow> launch c saved))"

definition create :: "deployment_policy \<Rightarrow> creation \<Rightarrow> run_view mgr" where
  "create policy c m =
     (case rbind (case validate_config policy (cr_config c) of
                    Inl e \<Rightarrow> Inl (ManagerPolicy e) | Inr u \<Rightarrow> Inr u) (\<lambda>_. ensure_open m) of
        Inl e \<Rightarrow> (Inl e, m)
      | Inr _ \<Rightarrow>
          (case existing_run m c of
             Some ex \<Rightarrow> (idempotent_view ex (cr_digest c), m)
           | None \<Rightarrow>
               (case rbind (cr_routes c) (\<lambda>(keys, required).
                     rbind (pricing (cr_config c) keys required) (\<lambda>ps.
                     rbind (requested_admission_cost (cr_config c) ps) (\<lambda>cost.
                     rbind (cr_runner c) (\<lambda>_. Inr (ps, cost))))) of
                  Inl e \<Rightarrow> (Inl e, m)
                | Inr (ps, cost) \<Rightarrow> admit_and_store c ps cost m)))"

end
