(* ===== verification/Admission_Correct.thy ===== *)
theory Admission_Correct
  imports Admission_Limits
begin

text \<open>
  What the admission limits guarantee: token buckets stay between empty and full, an admission
  that fails leaves the manager as it was, and whatever the store answers, the running
  admissions are exactly the leases held and never exceed the capacity.
\<close>

declare map_of_eq_Some_iff [simp del]

section \<open>Token buckets\<close>

text \<open>Taking 1 from a float of at least 1 is exact (below 2^53).\<close>

lemma rnd_minus_1:
  assumes "rnd t = t" "1 \<le> t" "t < 2 ^ 53"
  shows "rnd (t - 1) = t - 1"
proof (cases "t = 1")
  case False
  with assms(2) have gt: "1 < t" by simp
  define e where "e = expo 2 t"
  have e: "2 powi e \<le> t" "t < 2 powi (e + 1)" unfolding e_def using expo_spec [of 2 t] gt by simp_all
  have "(2::rat) powi 0 < 2 powi (e + 1)" using e(2) gt by simp
  then have e0: "0 \<le> e" using powi_less_imp [of 2 0 "e + 1"] by simp
  have "(2::rat) powi e < 2 powi 53" using e(1) assms(3) by simp
  then have e52: "e \<le> 52" using powi_less_imp [of 2 e 53] by simp
  let ?k = "e - 53 + 1"
  obtain m where m: "t = of_int m * 2 powi ?k"
  proof -
    have "max (- 1022) (expo 2 \<bar>t\<bar>) = e" using gt e0 by (simp add: e_def)
    then have "rnd t = of_int (rhe (t / 2 powi ?k)) * 2 powi ?k"
      using gt by (simp add: rnd_def round_sig_def Let_def)
    with assms(1) show thesis by (metis that)
  qed
  have "(2::rat) ^ nat (- ?k) = 2 powi (- ?k)" using e52 by (simp add: power_int_def)
  moreover have "(2::rat) powi (- ?k) * 2 powi ?k = 2 powi (- ?k + ?k)" by (rule power_int_add [symmetric]) simp
  ultimately have "(1::rat) = of_int (2 ^ nat (- ?k)) * 2 powi ?k" by simp
  with m have y: "t - 1 = of_int (m - 2 ^ nat (- ?k)) * 2 powi ?k" by (simp add: algebra_simps)
  have "expo 2 (t - 1) \<le> e" unfolding e_def using gt by (intro expo_mono) simp_all
  then have "max (- 1022) (expo 2 \<bar>t - 1\<bar>) - 53 + 1 \<le> ?k" using gt e0 by simp
  then show ?thesis
    unfolding rnd_def by (intro round_sig_exact [where B = 2, OF _ _ y]) simp_all
qed simp

definition level_ok :: "int \<Rightarrow> pyfloat \<Rightarrow> bool" where
  "level_ok cap t \<longleftrightarrow> (\<exists>x. t = Fin x \<and> 0 \<le> x \<and> x \<le> of_int cap \<and> rnd x = x)"

definition buckets_ok :: "token_buckets \<Rightarrow> bool" where
  "buckets_ok b \<longleftrightarrow> 1 \<le> tb_capacity b \<and> tb_capacity b < 2 ^ 53 \<and> 1 \<le> tb_refill_seconds b \<and>
     tb_refill_seconds b < 2 ^ 53 \<and>
     (\<forall>k t u. dget (tb_buckets b) k = Some (t, u) \<longrightarrow> level_ok (tb_capacity b) t \<and> isfinite u)"

lemma level_cap: "buckets_ok b \<Longrightarrow> level_ok (tb_capacity b) (fint (tb_capacity b))"
  using rnd_of_int [of "tb_capacity b"] by (auto simp: level_ok_def buckets_ok_def)

lemma fl_cases:
  assumes "0 \<le> r"
  obtains "fl r = PInf" | "fl r = Fin (rnd r)" "0 \<le> rnd r"
proof -
  have r: "0 \<le> rnd r" using rnd_nonneg [OF assms] .
  then have n: "\<not> rnd r \<le> - (2 ^ 1024)" using zero_less_power [of "2::rat" 1024] by linarith
  show thesis
  proof (cases "2 ^ 1024 \<le> rnd r")
    case True
    then show thesis by (intro that(1)) (simp only: fl_def Let_def if_True simp_thms)
  next
    case False
    then show thesis using n r by (intro that(2)) (simp only: fl_def Let_def if_False simp_thms)
  qed
qed

lemma elapsed_cases:
  assumes "isfinite now" "isfinite u" "1 \<le> (n::int)"
  obtains "fdiv (fmax (Fin 0) (fsub now u)) (fint n) = PInf"
  | d where "fdiv (fmax (Fin 0) (fsub now u)) (fint n) = Fin d" "0 \<le> d"
proof -
  obtain a b where ab: "now = Fin a" "u = Fin b" using assms by (cases now; cases u) auto
  have n: "(0::rat) < of_int n" using assms(3) by simp
  have "fsub now u \<noteq> NaN" by (simp add: ab fsub_def fl_def Let_def)
  then consider "fmax (Fin 0) (fsub now u) = PInf" | r where "fmax (Fin 0) (fsub now u) = Fin r" "0 \<le> r"
    by (cases "fsub now u"; cases "flt (Fin 0) (fsub now u)") (auto simp: fmax_def)
  then show thesis
  proof cases
    case 1
    with n show thesis by (intro that(1)) (simp add: finf_def)
  next
    case (2 r)
    then have "0 \<le> r / of_int n" using n by simp
    then show thesis by (rule fl_cases) (use 2 that in auto)
  qed
qed

lemma refill_ok:
  assumes "buckets_ok b" "isfinite now"
  shows "level_ok (tb_capacity b) (refill b key now)"
proof -
  have cap: "level_ok (tb_capacity b) (fint (tb_capacity b))" using level_cap [OF assms(1)] .
  obtain t u where tu: "(case dget (tb_buckets b) key of Some entry \<Rightarrow> entry | None \<Rightarrow> (fint (tb_capacity b), now)) = (t, u)"
    "level_ok (tb_capacity b) t" "isfinite u"
    using assms cap by (cases "dget (tb_buckets b) key") (auto simp: buckets_ok_def)
  obtain x where x: "t = Fin x" "0 \<le> x" using tu(2) by (auto simp: level_ok_def)
  have n: "1 \<le> tb_refill_seconds b" using assms(1) by (simp add: buckets_ok_def)
  let ?d = "fdiv (fmax (Fin 0) (fsub now u)) (fint (tb_refill_seconds b))"
  have r: "refill b key now = fmin (fint (tb_capacity b)) (fadd t ?d)" using tu(1) by (simp add: refill_def)
  from assms(2) tu(3) n show ?thesis
  proof (rule elapsed_cases)
    assume "?d = PInf"
    then show ?thesis unfolding r using cap by (simp add: x(1) fmin_def)
  next
    fix d assume d: "?d = Fin d" "0 \<le> d"
    then have "0 \<le> x + d" using x(2) by simp
    then show ?thesis
      by (rule fl_cases) (use r d x cap in \<open>auto simp: fmin_def level_ok_def\<close>)
  qed
qed

lemma put_bucket_ok:
  "buckets_ok b \<Longrightarrow> level_ok (tb_capacity b) t \<Longrightarrow> isfinite now \<Longrightarrow> buckets_ok (put_bucket b key t now)"
  by (simp add: buckets_ok_def put_bucket_def)

lemma consume_cases:
  assumes "buckets_ok b" "isfinite now"
  obtains (limited) n where "consume b key now = (Inl (rate_limited n), put_bucket b key (refill b key now) now)"
    "flt (refill b key now) (Fin 1)"
  | (granted) x where "refill b key now = Fin x" "1 \<le> x" "rnd x = x" "x \<le> of_int (tb_capacity b)"
    "consume b key now = (Inr (), put_bucket b key (Fin (x - 1)) now)"
proof -
  obtain x where x: "refill b key now = Fin x" "0 \<le> x" "x \<le> of_int (tb_capacity b)" "rnd x = x"
    using refill_ok [OF assms, of key] by (auto simp: level_ok_def)
  have cap: "(of_int (tb_capacity b) :: rat) < 2 ^ 53"
    using assms(1) of_int_less_iff [of "tb_capacity b" "2 ^ 53", where ?'a = rat] by (simp add: buckets_ok_def)
  show thesis
  proof (cases "x < 1")
    case True
    have u: "fl (1 - x) = Fin (rnd (1 - x))" "0 \<le> rnd (1 - x)" "rnd (1 - x) \<le> 1"
      using fl_unit [of "1 - x"] x True by simp_all
    have n: "1 \<le> tb_refill_seconds b" "tb_refill_seconds b < 2 ^ 53" using assms(1) by (simp_all add: buckets_ok_def)
    then have "(of_int (tb_refill_seconds b) :: rat) \<le> of_int (2 ^ 53 - 1)" by (intro of_int_le_iff [THEN iffD2]) simp
    then have n': "(of_int (tb_refill_seconds b) :: rat) \<le> 2 ^ 53 - 1" by simp
    have "rnd (1 - x) * of_int (tb_refill_seconds b) \<le> 1 * of_int (tb_refill_seconds b)"
      using u n by (intro mult_right_mono) simp_all
    moreover have "0 \<le> rnd (1 - x) * of_int (tb_refill_seconds b)" using u n by simp
    ultimately have "\<bar>rnd (1 - x) * of_int (tb_refill_seconds b)\<bar> \<le> 2 ^ 53 - 1" using n' by linarith
    then show thesis using x True u
      by (intro limited) (auto simp: consume_def fsub_def fl_small)
  next
    case False
    with x cap have e: "rnd (x - 1) = x - 1" by (intro rnd_minus_1) simp_all
    have "\<bar>x - 1\<bar> \<le> 2 ^ 53 - 1" using x False cap by simp
    then have "fl (x - 1) = Fin (x - 1)" using fl_small e by simp
    then show thesis using x False
      by (intro granted [of x]) (simp_all add: consume_def fsub_def put_bucket_def)
  qed
qed

lemma consume_ok:
  assumes "buckets_ok b" "isfinite now"
  shows "buckets_ok (snd (consume b key now))"
  using assms
proof (cases rule: consume_cases [of b now key])
  case (limited n)
  then show ?thesis using put_bucket_ok [OF assms(1) refill_ok [OF assms] assms(2)] by simp
next
  case (granted x)
  then have "level_ok (tb_capacity b) (Fin (x - 1))"
    using rnd_minus_1 [of x] assms(1) of_int_less_iff [of "tb_capacity b" "2 ^ 53", where ?'a = rat]
    by (simp add: level_ok_def buckets_ok_def)
  then show ?thesis using put_bucket_ok [OF assms(1) _ assms(2)] granted by simp
qed

lemma refund_ok:
  assumes "buckets_ok b" "isfinite now"
  shows "buckets_ok (refund b key now)"
proof -
  obtain x where x: "refill b key now = Fin x" "0 \<le> x"
    using refill_ok [OF assms, of key] by (auto simp: level_ok_def)
  have cap: "level_ok (tb_capacity b) (fint (tb_capacity b))" using level_cap [OF assms(1)] .
  have "0 \<le> x + 1" using x(2) by simp
  then have "level_ok (tb_capacity b) (fmin (fint (tb_capacity b)) (fadd (refill b key now) (Fin 1)))"
    by (rule fl_cases) (use x cap in \<open>auto simp: fmin_def level_ok_def\<close>)
  then show ?thesis unfolding refund_def by (rule put_bucket_ok [OF assms(1) _ assms(2)])
qed

text \<open>At a frozen clock a refill changes nothing, and a refund undoes a consumption.\<close>

lemma refill_frozen:
  assumes "buckets_ok b" "isfinite now" "level_ok (tb_capacity b) t"
  shows "refill (put_bucket b key t now) key now = t"
proof -
  obtain a where a: "now = Fin a" using assms(2) by (cases now) auto
  obtain x where x: "t = Fin x" "0 \<le> x" "x \<le> of_int (tb_capacity b)" "rnd x = x"
    using assms(3) by (auto simp: level_ok_def)
  have "(of_int (tb_capacity b) :: rat) \<le> of_int (2 ^ 53 - 1)"
    using assms(1) by (intro of_int_le_iff [THEN iffD2]) (simp add: buckets_ok_def)
  then have "\<bar>x\<bar> \<le> 2 ^ 53 - 1" using x by simp
  then have "fl x = Fin x" using fl_small x(4) by simp
  then show ?thesis using x by (simp add: refill_def put_bucket_def a fsub_def fmax_def fmin_def)
qed

lemma refund_consume:
  assumes "buckets_ok b" "isfinite now" "consume b key now = (Inr u, b')"
  shows "refund b' key now = put_bucket b key (refill b key now) now"
  using assms(1,2)
proof (cases rule: consume_cases [of b now key])
  case (granted x)
  have cap: "(of_int (tb_capacity b) :: rat) \<le> of_int (2 ^ 53 - 1)"
    using assms(1) by (intro of_int_le_iff [THEN iffD2]) (simp add: buckets_ok_def)
  have lvl: "level_ok (tb_capacity b) (Fin (x - 1))"
    using granted rnd_minus_1 [of x] cap by (simp add: level_ok_def)
  have b': "b' = put_bucket b key (Fin (x - 1)) now" using assms(3) granted by simp
  have "refill b' key now = Fin (x - 1)" unfolding b' by (rule refill_frozen [OF assms(1,2) lvl])
  moreover have "fl x = Fin x" using fl_small [of x] granted cap by simp
  ultimately show ?thesis using granted by (simp add: refund_def b' put_bucket_def fmin_def)
qed (use assms in auto)

section \<open>Leases and admissions\<close>

text \<open>
  The manager's books: the open admissions are recorded per run, each holds one lease under the
  reservation id the store gave that run, and the gate counts them.
\<close>

definition admissions_inv :: "(string \<Rightarrow> string option) \<Rightarrow> limit_manager \<Rightarrow> bool" where
  "admissions_inv owner m \<longleftrightarrow> distinct (dkeys (lm_admissions m)) \<and>
     (\<forall>run a. dget (lm_admissions m) run = Some a \<longrightarrow>
        (\<exists>rid. ad_reservation_id a = Some rid \<and> owner rid = Some run)) \<and>
     lm_run_leases m = {rid. \<exists>run a. dget (lm_admissions m) run = Some a \<and> ad_reservation_id a = Some rid} \<and>
     cg_active (lm_runs m) = int (length (lm_admissions m)) \<and>
     cg_active (lm_runs m) \<le> cg_capacity (lm_runs m) \<and>
     buckets_ok (lm_ip_buckets m) \<and> buckets_ok (lm_session_buckets m)"

lemma admissions_inv_owner:
  "admissions_inv owner m \<Longrightarrow> \<forall>r x. owner r = Some x \<longrightarrow> owner' r = Some x \<Longrightarrow> admissions_inv owner' m"
  unfolding admissions_inv_def by metis

text \<open>Releasing a lease never underflows and removes exactly its admission.\<close>

lemma release_local_keeps:
  assumes "admissions_inv owner m"
  shows "\<exists>m'. release_local m rid = Inr m' \<and> admissions_inv owner m' \<and>
    lm_run_leases m' = lm_run_leases m - {rid} \<and> lm_daily_limit m' = lm_daily_limit m \<and>
    cg_capacity (lm_runs m') = cg_capacity (lm_runs m) \<and>
    lm_ip_buckets m' = lm_ip_buckets m \<and> lm_session_buckets m' = lm_session_buckets m"
proof (cases "rid \<in> lm_run_leases m")
  case False
  with assms show ?thesis by (simp add: release_local_def)
next
  case True
  from assms have d: "distinct (dkeys (lm_admissions m))"
    and own: "\<And>run a. dget (lm_admissions m) run = Some a \<Longrightarrow> \<exists>rid. ad_reservation_id a = Some rid \<and> owner rid = Some run"
    and leases: "lm_run_leases m = {rid. \<exists>run a. dget (lm_admissions m) run = Some a \<and> ad_reservation_id a = Some rid}"
    and act: "cg_active (lm_runs m) = int (length (lm_admissions m))" "cg_active (lm_runs m) \<le> cg_capacity (lm_runs m)"
    unfolding admissions_inv_def by blast+
  from True leases obtain run a where a: "dget (lm_admissions m) run = Some a" "ad_reservation_id a = Some rid" by auto
  then obtain xs ys where xs: "lm_admissions m = xs @ (run, a) # ys" by (meson map_of_SomeD in_set_conv_decomp)
  let ?f = "filter (\<lambda>(_, a). ad_reservation_id a \<noteq> Some rid)"
  have other: "ad_reservation_id b \<noteq> Some rid" if "(r, b) \<in> set xs \<union> set ys" for r b
  proof
    assume b: "ad_reservation_id b = Some rid"
    have "(r, b) \<in> set (lm_admissions m)" using that by (auto simp: xs)
    then have "dget (lm_admissions m) r = Some b" using dget_iff_set [OF d] by blast
    from own [OF this] own [OF a(1)] a(2) b have "r = run" by auto
    with that d xs show False by (auto simp: image_iff)
  qed
  then have f: "?f xs = xs" "?f ys = ys" by (auto simp: filter_id_conv)
  have f3: "?f (lm_admissions m) = xs @ ys" using f a(2) by (simp add: xs)
  let ?m = "m\<lparr>lm_runs := (lm_runs m)\<lparr>cg_active := cg_active (lm_runs m) - 1\<rparr>,
      lm_run_leases := lm_run_leases m - {rid}, lm_admissions := ?f (lm_admissions m)\<rparr>"
  have rel: "release_local m rid = Inr ?m"
    using True act xs by (simp add: release_local_def release_gate_def)
  have look: "dget (xs @ ys) r = Some b \<longleftrightarrow> dget (lm_admissions m) r = Some b \<and> r \<noteq> run" for r b
  proof -
    have "distinct (dkeys (xs @ ys))" using d by (auto simp: xs)
    then show ?thesis using dget_iff_set [of "xs @ ys" r b] dget_iff_set [OF d, of r b] d
      by (auto simp: xs image_iff)
  qed
  have rids: "ad_reservation_id b = Some rid \<longleftrightarrow> r = run" if "dget (lm_admissions m) r = Some b" for r b
    using own [OF that] own [OF a(1)] that a by auto
  have "{i. \<exists>r b. dget (xs @ ys) r = Some b \<and> ad_reservation_id b = Some i} = lm_run_leases m - {rid}"
    unfolding leases look by (simp only: set_eq_iff mem_Collect_eq Diff_iff singleton_iff) (metis rids option.inject)
  then have "admissions_inv owner ?m"
    using assms d act xs own look f3 unfolding admissions_inv_def by (simp add: xs)
  with rel show ?thesis by simp
qed

section \<open>One admission\<close>

definition clocks_ok :: "admit_inputs \<Rightarrow> bool" where
  "clocks_ok inp \<longleftrightarrow> isfinite (in_ip_now inp) \<and> isfinite (in_session_now inp) \<and>
     isfinite (in_session_refund inp) \<and> isfinite (in_ip_refund inp)"

text \<open>The parts of the manager a failed admission must give back.\<close>

definition same_books :: "limit_manager \<Rightarrow> limit_manager \<Rightarrow> bool" where
  "same_books m m' \<longleftrightarrow> lm_runs m' = lm_runs m \<and> lm_run_leases m' = lm_run_leases m \<and>
     lm_admissions m' = lm_admissions m \<and> lm_daily_limit m' = lm_daily_limit m \<and>
     tb_capacity (lm_ip_buckets m') = tb_capacity (lm_ip_buckets m) \<and>
     tb_capacity (lm_session_buckets m') = tb_capacity (lm_session_buckets m)"

lemma admissions_inv_same_books:
  "admissions_inv owner m \<Longrightarrow> same_books m m' \<Longrightarrow> buckets_ok (lm_ip_buckets m') \<Longrightarrow>
   buckets_ok (lm_session_buckets m') \<Longrightarrow> admissions_inv owner m'"
  by (simp add: admissions_inv_def same_books_def)

lemma bucket_capacity [simp]:
  "tb_capacity (put_bucket b k t now) = tb_capacity b" "tb_capacity (refund b k now) = tb_capacity b"
  "tb_capacity (snd (consume b k now)) = tb_capacity b"
  by (simp_all add: put_bucket_def refund_def consume_def Let_def split: option.splits)

lemma release_acquired:
  "try_acquire g = Inr g' \<Longrightarrow> cg_active g \<ge> 0 \<Longrightarrow> release_gate g' = Inr g"
  by (auto simp: try_acquire_def release_gate_def split: if_splits)

text \<open>The outcomes of an admission under the lock.\<close>

lemma admit_locked_cases:
  assumes "admit_locked ops m db inp run ip s cost = (r, m', db')" "clocks_ok inp"
    and "buckets_ok (lm_ip_buckets m)" "buckets_ok (lm_session_buckets m)" "0 \<le> cg_active (lm_runs m)"
  obtains (failed) e where "r = Inl e" "same_books m m'" "buckets_ok (lm_ip_buckets m')"
    "buckets_ok (lm_session_buckets m')" "db' = db"
  | (undone) e adm where "r = Inl e" "same_books m m'" "buckets_ok (lm_ip_buckets m')"
    "buckets_ok (lm_session_buckets m')" "ad_reservation_id adm = None"
    "co_reserve ops (in_uuid inp) db (utc_day (in_utc inp)) run cost (lm_daily_limit m) = Inr (adm, db')"
  | (admitted) adm rid where "r = Inr adm" "ad_reservation_id adm = Some rid"
    "co_reserve ops (in_uuid inp) db (utc_day (in_utc inp)) run cost (lm_daily_limit m) = Inr (adm, db')"
    "cg_active (lm_runs m) < cg_capacity (lm_runs m)"
    "lm_runs m' = (lm_runs m)\<lparr>cg_active := cg_active (lm_runs m) + 1\<rparr>"
    "lm_run_leases m' = insert rid (lm_run_leases m)" "lm_admissions m' = dput run adm (lm_admissions m)"
    "buckets_ok (lm_ip_buckets m')" "buckets_ok (lm_session_buckets m')"
proof -
  obtain rb b where b: "consume (lm_ip_buckets m) ip (in_ip_now inp) = (rb, b)" by fastforce
  have bok: "buckets_ok b" "tb_capacity b = tb_capacity (lm_ip_buckets m)"
    using consume_ok [OF assms(3), of "in_ip_now inp" ip] bucket_capacity(3) [of "lm_ip_buckets m" ip "in_ip_now inp"] assms(2)
    by (simp_all add: clocks_ok_def b)
  show thesis
  proof (cases rb)
    case (Inl e)
    with b assms(1) have "r = Inl e" "m' = m\<lparr>lm_ip_buckets := b\<rparr>" "db' = db" by (auto simp: admit_locked_def)
    with bok assms(4) show thesis by (intro failed) (simp_all add: same_books_def)
  next
    case (Inr u)
    obtain rs sb where s: "consume (lm_session_buckets m) s (in_session_now inp) = (rs, sb)" by fastforce
    have sok: "buckets_ok sb" "tb_capacity sb = tb_capacity (lm_session_buckets m)"
      using consume_ok [OF assms(4), of "in_session_now inp" s] assms(2)
        bucket_capacity(3) [of "lm_session_buckets m" s "in_session_now inp"]
      by (simp_all add: clocks_ok_def s)
    note step1 = b [unfolded Inr] s
    have ipr: "buckets_ok (refund b ip (in_ip_refund inp))"
      using refund_ok [OF bok(1)] assms(2) by (simp add: clocks_ok_def)
    have sr: "buckets_ok (refund sb s (in_session_refund inp))"
      using refund_ok [OF sok(1)] assms(2) by (simp add: clocks_ok_def)
    show thesis
    proof (cases rs)
      case (Inl e)
      with step1 assms(1) have "r = Inl e" "db' = db"
        "m' = refund_ip (m\<lparr>lm_ip_buckets := b, lm_session_buckets := sb\<rparr>) inp ip"
        by (auto simp: admit_locked_def Let_def)
      with bok sok ipr show thesis by (intro failed) (simp_all add: same_books_def refund_ip_def)
    next
      case (Inr v)
      let ?m2 = "m\<lparr>lm_ip_buckets := b, lm_session_buckets := sb\<rparr>"
      note step2 = step1 [unfolded Inr]
      show thesis
      proof (cases "try_acquire (lm_runs m)")
        case (Inl e)
        with step2 assms(1) have "r = Inl e" "db' = db" "m' = refund_ip (refund_session ?m2 inp s) inp ip"
          by (auto simp: admit_locked_def Let_def)
        with bok sok ipr sr show thesis
          by (intro failed) (simp_all add: same_books_def refund_ip_def refund_session_def)
      next
        case (Inr g)
        let ?m3 = "?m2\<lparr>lm_runs := g\<rparr>"
        have roll: "rollback ?m3 inp ip s e = (e, refund_ip (refund_session (?m3\<lparr>lm_runs := lm_runs m\<rparr>) inp s) inp ip)" for e
          using release_acquired [OF Inr assms(5)] by (simp add: rollback_def)
        have undo: "same_books m (refund_ip (refund_session (?m3\<lparr>lm_runs := lm_runs m\<rparr>) inp s) inp ip)"
          using bok sok by (simp add: same_books_def refund_ip_def refund_session_def)
        have g: "cg_active (lm_runs m) < cg_capacity (lm_runs m)"
          "g = (lm_runs m)\<lparr>cg_active := cg_active (lm_runs m) + 1\<rparr>"
          using Inr by (auto simp: try_acquire_def split: if_splits)
        show thesis
        proof (cases "store_reservation ops ?m3 db inp run cost")
          case (Inl e)
          with step2 Inr assms(1) roll have "r = Inl e" "db' = db"
            "m' = refund_ip (refund_session (?m3\<lparr>lm_runs := lm_runs m\<rparr>) inp s) inp ip"
            by (auto simp: admit_locked_def Let_def)
          with undo ipr sr show thesis by (intro failed) (simp_all add: refund_ip_def refund_session_def)
        next
          fix p assume p: "store_reservation ops ?m3 db inp run cost = Inr p"
          obtain adm db1 where [simp]: "p = (adm, db1)" by fastforce
          have res: "co_reserve ops (in_uuid inp) db (utc_day (in_utc inp)) run cost (lm_daily_limit m) = Inr (adm, db1)"
            using p by (auto simp: store_reservation_def split: sum.splits store_error.splits)
          show thesis
          proof (cases "ad_reservation_id adm")
            case None
            with step2 Inr p assms(1) roll have
              "r = Inl (AdmissionExc (ValueError ''public admission requires a durable reservation''))" "db' = db1"
              "m' = refund_ip (refund_session (?m3\<lparr>lm_runs := lm_runs m\<rparr>) inp s) inp ip"
              by (auto simp: admit_locked_def Let_def)
            with undo ipr sr res None show thesis
              by (intro undone) (simp_all add: refund_ip_def refund_session_def)
          next
            case (Some rid)
            with step2 Inr p assms(1) have "r = Inr adm" "db' = db1"
              "m' = ?m3\<lparr>lm_run_leases := insert rid (lm_run_leases m),
                        lm_admissions := dput run adm (lm_admissions m)\<rparr>"
              by (auto simp: admit_locked_def Let_def)
            with Some res g bok sok show thesis by (intro admitted) simp_all
          qed
        qed
      qed
    qed
  qed
qed

section \<open>The interface to the run store\<close>

text \<open>
  What the manager relies on: the store can say which run a reservation id belongs to, a
  successful reservation returns an id of the run it was made for, and ids keep their run.
\<close>

locale cost_store =
  fixes ops :: "'db cost_ops" and store_ok :: "'db \<Rightarrow> bool" and owner :: "'db \<Rightarrow> string \<Rightarrow> string option"
  assumes reserve_law: "store_ok db \<Longrightarrow> co_reserve ops uuid db day run a l = Inr (adm, db') \<Longrightarrow>
      store_ok db' \<and> (\<exists>rid. ad_reservation_id adm = Some rid \<and> owner db' rid = Some run) \<and>
      (\<forall>r x. owner db r = Some x \<longrightarrow> owner db' r = Some x)"
    and settle_law: "store_ok db \<Longrightarrow> co_settle ops db rid a = Inr db' \<Longrightarrow>
      store_ok db' \<and> owner db' = owner db"
    and release_law: "store_ok db \<Longrightarrow> co_release ops db rid = Inr db' \<Longrightarrow>
      store_ok db' \<and> owner db' = owner db"
begin

lemma admit_keeps:
  assumes "admit ops m db inp run ip s profile cost = (r, m', db')" "clocks_ok inp"
    and "store_ok db" "admissions_inv (owner db) m"
  shows "store_ok db' \<and> admissions_inv (owner db') m' \<and>
    (\<forall>e. r = Inl e \<longrightarrow> same_books m m') \<and> cg_capacity (lm_runs m') = cg_capacity (lm_runs m)"
proof (cases "(r, m', db') = admit_locked ops m db inp run ip s cost \<and> dget (lm_admissions m) run = None")
  case False
  with assms(1) have "m' = m" "db' = db"
    by (auto simp: admit_def Let_def preset_def split: if_splits option.splits)
  with assms show ?thesis by (simp add: same_books_def)
next
  case True
  then have lk: "admit_locked ops m db inp run ip s cost = (r, m', db')" "dget (lm_admissions m) run = None" by simp_all
  have b: "buckets_ok (lm_ip_buckets m)" "buckets_ok (lm_session_buckets m)" "0 \<le> cg_active (lm_runs m)"
    using assms(4) by (simp_all add: admissions_inv_def)
  from lk(1) assms(2) b show ?thesis
  proof (cases rule: admit_locked_cases)
    case (failed e)
    with assms(3,4) admissions_inv_same_books show ?thesis by (auto simp: same_books_def)
  next
    case (undone e adm)
    from reserve_law [OF assms(3) undone(6)] undone(5) show ?thesis by simp
  next
    case (admitted adm rid)
    from reserve_law [OF assms(3) admitted(3)] admitted(2) have
      st: "store_ok db'" "owner db' rid = Some run" "\<forall>r x. owner db r = Some x \<longrightarrow> owner db' r = Some x"
      by auto
    have inv: "admissions_inv (owner db') m" by (rule admissions_inv_owner [OF assms(4) st(3)])
    have len: "lm_admissions m' = lm_admissions m @ [(run, adm)]" using admitted(7) lk(2) by (simp add: dput_new)
    have leases: "lm_run_leases m = {rid. \<exists>run a. dget (lm_admissions m) run = Some a \<and> ad_reservation_id a = Some rid}"
      using inv unfolding admissions_inv_def by blast
    have look: "dget (lm_admissions m') = (dget (lm_admissions m))(run \<mapsto> adm)" by (simp add: admitted(7))
    have "admissions_inv (owner db') m'"
      unfolding admissions_inv_def look
    proof (intro conjI allI impI)
      show "distinct (dkeys (lm_admissions m'))"
        using inv by (simp add: admitted(7) distinct_dkeys_dput admissions_inv_def)
      show "lm_run_leases m' = {rid. \<exists>r a. ((dget (lm_admissions m))(run \<mapsto> adm)) r = Some a \<and>
          ad_reservation_id a = Some rid}"
        using lk(2) admitted(2)
        by (simp only: admitted(6) leases set_eq_iff insert_iff mem_Collect_eq fun_upd_apply)
          (metis option.distinct(1) option.inject)
      show "cg_active (lm_runs m') = int (length (lm_admissions m'))"
        using inv by (simp add: len admitted(5) admissions_inv_def)
    next
      fix r a assume "((dget (lm_admissions m))(run \<mapsto> adm)) r = Some a"
      then show "\<exists>rid. ad_reservation_id a = Some rid \<and> owner db' rid = Some r"
        using inv st(2) admitted(2) by (auto simp: admissions_inv_def split: if_splits)
    qed (use admitted(4,5,8,9) in simp_all)
    with st(1) admitted(1,5) show ?thesis by simp
  qed
qed

lemma finish_keeps:
  assumes "admissions_inv (owner db) m" "store_ok db" "\<And>db'. r = Inr db' \<Longrightarrow> store_ok db' \<and> owner db' = owner db"
    and "finish_with m db rid r = (q, m', db'')"
  shows "store_ok db'' \<and> admissions_inv (owner db'') m' \<and> (q = Inr () \<or> (\<exists>e. r = Inl e \<and> m' = m)) \<and>
    (q = Inr () \<longrightarrow> lm_run_leases m' = lm_run_leases m - {rid}) \<and>
    cg_capacity (lm_runs m') = cg_capacity (lm_runs m)"
proof (cases r)
  case (Inl e)
  with assms show ?thesis by (auto simp: finish_with_def)
next
  case (Inr d)
  from release_local_keeps [OF assms(1), of rid] obtain m1 where
    "release_local m rid = Inr m1" "admissions_inv (owner db) m1" "lm_run_leases m1 = lm_run_leases m - {rid}"
    "cg_capacity (lm_runs m1) = cg_capacity (lm_runs m)" by blast
  with Inr assms(3) [OF Inr] assms(4) show ?thesis by (auto simp: finish_with_def)
qed

end

section \<open>The SQL store meets the interface\<close>

definition ledger_owner :: "database \<Rightarrow> string \<Rightarrow> string option" where
  "ledger_owner db rid = map_option ul_run_id (List.find (\<lambda>r. ul_reservation_id r = rid) (db_ledger db))"

lemma find_append: "List.find P (xs @ ys) = (case List.find P xs of None \<Rightarrow> List.find P ys | Some x \<Rightarrow> Some x)"
  by (induction xs) simp_all

lemma ledger_owner_map:
  assumes "keeps_row f" "db_ledger db' = map f (db_ledger db)"
  shows "ledger_owner db' = ledger_owner db"
proof
  fix rid
  have "map_option ul_run_id (List.find (\<lambda>r. ul_reservation_id r = rid) (map f rows)) =
      map_option ul_run_id (List.find (\<lambda>r. ul_reservation_id r = rid) rows)" for rows
    using keeps_rowD [OF assms(1)] by (induction rows) simp_all
  then show "ledger_owner db' rid = ledger_owner db rid" by (simp add: ledger_owner_def assms(2))
qed

lemma update_reserved_owner:
  assumes "keeps_row f"
  shows "ledger_owner (update_reserved db rid f) = ledger_owner db"
proof (rule ledger_owner_map)
  show "keeps_row (\<lambda>r. if ul_reservation_id r = rid \<and> ul_state r = LedgerReserved then f r else r)"
    using keeps_rowD [OF assms] by (simp add: keeps_row_def)
qed (simp add: update_reserved_def)

lemma find_owner:
  assumes "store_inv db" "r \<in> set (db_ledger db)"
  shows "ledger_owner db (ul_reservation_id r) = Some (ul_run_id r)"
proof -
  obtain s where s: "List.find (\<lambda>s. ul_reservation_id s = ul_reservation_id r) (db_ledger db) = Some s"
    using assms(2) by (cases "List.find (\<lambda>s. ul_reservation_id s = ul_reservation_id r) (db_ledger db)")
      (auto simp: find_None)
  have "s = r" using find_SomeD [OF s] reserved_unique [OF _ assms(2)] assms(1) by (simp add: store_inv_def)
  with s show ?thesis by (simp add: ledger_owner_def)
qed

lemma reserve_owner:
  assumes "store_inv db" "reserve_daily_cost uuid db day run a l = Inr (adm, db')"
  shows "store_inv db' \<and> (\<exists>rid. ad_reservation_id adm = Some rid \<and> ledger_owner db' rid = Some run) \<and>
    (\<forall>r x. ledger_owner db r = Some x \<longrightarrow> ledger_owner db' r = Some x)"
  using assms(2,1)
proof (cases rule: reserve_cost_cases)
  case (old r)
  with assms(1) find_owner [OF assms(1), of r] show ?thesis by simp
next
  case (new r)
  have "ledger_owner db' uuid = Some run"
    using find_owner [OF new(7), of r] new(1,2) by simp
  moreover have "ledger_owner db' i = Some x" if "ledger_owner db i = Some x" for i x
    using that new(2) by (auto simp: ledger_owner_def find_append split: option.splits)
  ultimately show ?thesis using new(3,7) by simp
qed

interpretation sql_costs: cost_store sql_cost_ops store_inv ledger_owner
proof
  fix db uuid day run a l adm and db' :: database
  assume "store_inv db" "co_reserve sql_cost_ops uuid db day run a l = Inr (adm, db')"
  then show "store_inv db' \<and> (\<exists>rid. ad_reservation_id adm = Some rid \<and> ledger_owner db' rid = Some run) \<and>
      (\<forall>r x. ledger_owner db r = Some x \<longrightarrow> ledger_owner db' r = Some x)"
    by (intro reserve_owner) (simp_all add: sql_cost_ops_def)
next
  fix db rid a and db' :: database
  assume "store_inv db" "co_settle sql_cost_ops db rid a = Inr db'"
  then show "store_inv db' \<and> ledger_owner db' = ledger_owner db"
    by (auto simp: sql_cost_ops_def settle_cost_inv)
      (auto simp: settle_daily_cost_def res_simps keeps_row_def update_reserved_owner)
next
  fix db rid and db' :: database
  assume "store_inv db" "co_release sql_cost_ops db rid = Inr db'"
  then show "store_inv db' \<and> ledger_owner db' = ledger_owner db"
    by (auto simp: sql_cost_ops_def release_cost_inv)
      (auto simp: release_daily_cost_def res_simps keeps_row_def update_reserved_owner)
qed

section \<open>Sequences of requests\<close>

datatype admission_op =
    AdmitOp admit_inputs string string string access_profile decimal
  | SettleOp "string option" decimal
  | ReleaseOp "string option"
  | DeferOp string

fun admission_step :: "limit_manager \<times> database \<Rightarrow> admission_op \<Rightarrow>
    (admission_error + unit) \<times> limit_manager \<times> database" where
  "admission_step (m, db) (AdmitOp inp run ip s profile cost) =
     (let (r, m', db') = admit sql_cost_ops m db inp run ip s profile cost
      in (rbind r (\<lambda>_. Inr ()), m', db'))"
| "admission_step (m, db) (SettleOp rid cost) = settle_admission sql_cost_ops m db rid cost"
| "admission_step (m, db) (ReleaseOp rid) = release_admission sql_cost_ops m db rid"
| "admission_step (m, db) (DeferOp rid) = defer_settlement m db rid"

definition admission_run :: "limit_manager \<times> database \<Rightarrow> admission_op list \<Rightarrow> limit_manager \<times> database" where
  "admission_run st ops = foldl (\<lambda>s op. snd (admission_step s op)) st ops"

fun admission_op_ok :: "admission_op \<Rightarrow> bool" where
  "admission_op_ok (AdmitOp inp run ip s profile cost) \<longleftrightarrow> clocks_ok inp"
| "admission_op_ok _ \<longleftrightarrow> True"

lemma admission_step_inv:
  assumes "store_inv db" "admissions_inv (ledger_owner db) m" "admission_op_ok op"
    and "admission_step (m, db) op = (r, m', db')"
  shows "store_inv db' \<and> admissions_inv (ledger_owner db') m' \<and> cg_capacity (lm_runs m') = cg_capacity (lm_runs m)"
proof (cases op)
  case (AdmitOp inp run ip s profile cost)
  obtain q where "admit sql_cost_ops m db inp run ip s profile cost = (q, m', db')"
    using assms(4) AdmitOp by (auto split: prod.splits)
  with sql_costs.admit_keeps [OF this _ assms(1,2)] assms(3) AdmitOp show ?thesis by simp
next
  case (SettleOp rid cost)
  then show ?thesis
  proof (cases rid)
    case (Some i)
    with SettleOp assms(4) have "finish_with m db i (co_settle sql_cost_ops db i cost) = (r, m', db')"
      by (simp add: settle_admission_def)
    from sql_costs.finish_keeps [OF assms(2,1) _ this] sql_costs.settle_law [OF assms(1)] show ?thesis by blast
  qed (use assms SettleOp in \<open>auto simp: settle_admission_def\<close>)
next
  case (ReleaseOp rid)
  then show ?thesis
  proof (cases rid)
    case (Some i)
    with ReleaseOp assms(4) have "finish_with m db i (co_release sql_cost_ops db i) = (r, m', db')"
      by (simp add: release_admission_def)
    from sql_costs.finish_keeps [OF assms(2,1) _ this] sql_costs.release_law [OF assms(1)] show ?thesis by blast
  qed (use assms ReleaseOp in \<open>auto simp: release_admission_def\<close>)
next
  case (DeferOp rid)
  with assms(4) have "finish_with m db rid (Inr db) = (r, m', db')" by (simp add: defer_settlement_def)
  from sql_costs.finish_keeps [OF assms(2,1) _ this] assms(1) show ?thesis by blast
qed

lemma admission_run_inv:
  "store_inv (snd st) \<Longrightarrow> admissions_inv (ledger_owner (snd st)) (fst st) \<Longrightarrow> list_all admission_op_ok ops \<Longrightarrow>
   admission_run st ops = (m', db') \<Longrightarrow>
   store_inv db' \<and> admissions_inv (ledger_owner db') m' \<and> cg_capacity (lm_runs m') = cg_capacity (lm_runs (fst st))"
proof (induction ops arbitrary: st)
  case (Cons op ops)
  obtain m db where st: "st = (m, db)" by fastforce
  obtain r m1 db1 where s: "admission_step (m, db) op = (r, m1, db1)" by (metis prod.exhaust)
  have "store_inv db1 \<and> admissions_inv (ledger_owner db1) m1 \<and> cg_capacity (lm_runs m1) = cg_capacity (lm_runs m)"
    using admission_step_inv [OF _ _ _ s] Cons.prems(1-3) by (simp add: st)
  with Cons.IH [of "(m1, db1)"] Cons.prems(3,4) show ?case by (simp add: admission_run_def st s)
qed (auto simp: admission_run_def)

lemma new_manager_inv:
  assumes "new_manager limit = Inr m"
  shows "admissions_inv owner m \<and> cg_capacity (lm_runs m) = 2 \<and> lm_admissions m = [] \<and>
    tb_capacity (lm_ip_buckets m) = 4 \<and> tb_capacity (lm_session_buckets m) = 2"
  using assms by (auto simp: new_manager_def new_gate_def new_buckets_def admissions_inv_def buckets_ok_def
      split: if_splits)

section \<open>Properties\<close>

lemma card_leases:
  assumes "admissions_inv owner m"
  shows "card (lm_run_leases m) = length (lm_admissions m)"
proof -
  let ?f = "\<lambda>(run, a). the (ad_reservation_id a)"
  have d: "distinct (dkeys (lm_admissions m))"
    and own: "\<And>run a. (run, a) \<in> set (lm_admissions m) \<Longrightarrow> \<exists>rid. ad_reservation_id a = Some rid \<and> owner rid = Some run"
    and leases: "lm_run_leases m = {rid. \<exists>run a. (run, a) \<in> set (lm_admissions m) \<and> ad_reservation_id a = Some rid}"
    using assms dget_iff_set [of "lm_admissions m"] unfolding admissions_inv_def by blast+
  have "?f ` set (lm_admissions m) = lm_run_leases m"
  proof (intro set_eqI iffI)
    fix rid assume "rid \<in> ?f ` set (lm_admissions m)"
    then obtain run a where "(run, a) \<in> set (lm_admissions m)" "rid = the (ad_reservation_id a)" by auto
    with own show "rid \<in> lm_run_leases m" unfolding leases by force
  next
    fix rid assume "rid \<in> lm_run_leases m"
    then show "rid \<in> ?f ` set (lm_admissions m)" unfolding leases by force
  qed
  moreover have "inj_on ?f (set (lm_admissions m))"
  proof (rule inj_onI)
    fix x y assume xy: "x \<in> set (lm_admissions m)" "y \<in> set (lm_admissions m)" "?f x = ?f y"
    obtain r a r' a' where p: "x = (r, a)" "y = (r', a')" by (metis prod.exhaust)
    have "r = r'" using own [of r a] own [of r' a'] xy p by auto
    then show "x = y" using d xy p dget_iff_set [OF d] by (metis option.inject)
  qed
  ultimately have "card (lm_run_leases m) = card (set (lm_admissions m))" using card_image by metis
  also have "\<dots> = length (lm_admissions m)" using d by (intro distinct_card) (simp add: distinct_map)
  finally show ?thesis .
qed

text \<open>
  C4. The capacity of the public service.  After every sequence of admissions, settlements,
  releases and deferrals, with any clock readings and whatever fails in between: the gate counts
  exactly the leases held, one per open admission and never more than two; every open admission
  holds a durable reservation of its own run; giving a lease back never underflows; and every
  token bucket is between empty and full.
\<close>

theorem capacity_respected:
  assumes "new_manager limit = Inr m0" "list_all admission_op_ok ops"
    and "admission_run (m0, empty_db) ops = (m, db)"
  shows "cg_active (lm_runs m) = int (card (lm_run_leases m)) \<and> card (lm_run_leases m) \<le> 2 \<and>
    card (lm_run_leases m) = length (lm_admissions m) \<and>
    (\<forall>run a. dget (lm_admissions m) run = Some a \<longrightarrow>
       (\<exists>rid. ad_reservation_id a = Some rid \<and> ledger_owner db rid = Some run \<and> rid \<in> lm_run_leases m)) \<and>
    (\<forall>rid. \<exists>m'. release_local m rid = Inr m') \<and>
    (\<forall>key now. isfinite now \<longrightarrow> level_ok (tb_capacity (lm_ip_buckets m)) (refill (lm_ip_buckets m) key now) \<and>
       level_ok (tb_capacity (lm_session_buckets m)) (refill (lm_session_buckets m) key now))"
proof -
  have inv: "admissions_inv (ledger_owner db) m" "cg_capacity (lm_runs m) = 2"
    using admission_run_inv [OF _ _ assms(2,3)] new_manager_inv [OF assms(1)] by simp_all
  have "\<exists>m'. release_local m rid = Inr m'" for rid using release_local_keeps [OF inv(1)] by blast
  moreover have "\<exists>rid. ad_reservation_id a = Some rid \<and> ledger_owner db rid = Some run \<and> rid \<in> lm_run_leases m"
    if "dget (lm_admissions m) run = Some a" for run a
    using inv(1) that unfolding admissions_inv_def by blast
  moreover have "cg_active (lm_runs m) = int (length (lm_admissions m))" "cg_active (lm_runs m) \<le> 2"
    "buckets_ok (lm_ip_buckets m)" "buckets_ok (lm_session_buckets m)"
    using inv unfolding admissions_inv_def by simp_all
  ultimately show ?thesis using card_leases [OF inv(1)] refill_ok by simp
qed

definition demo_inputs :: "string \<Rightarrow> admit_inputs" where
  "demo_inputs uuid = \<lparr>in_ip_now = Fin 0, in_session_now = Fin 0, in_session_refund = Fin 0,
     in_ip_refund = Fin 0, in_utc = 0, in_uuid = uuid\<rparr>"

definition demo_limits :: limit_manager where
  "demo_limits = \<lparr>lm_daily_limit = Fin 1, lm_runs = \<lparr>cg_capacity = 2, cg_active = 0\<rparr>,
     lm_ip_buckets = \<lparr>tb_capacity = 4, tb_refill_seconds = 60, tb_buckets = []\<rparr>,
     lm_session_buckets = \<lparr>tb_capacity = 2, tb_refill_seconds = 120, tb_buckets = []\<rparr>,
     lm_run_leases = {}, lm_admissions = []\<rparr>"

lemma demo_limits_new: "new_manager (Fin 1) = Inr demo_limits"
  by (simp add: new_manager_def new_gate_def new_buckets_def demo_limits_def)

theorem capacity_respected_witness:
  "\<exists>m db. admission_run (demo_limits, empty_db)
     [AdmitOp (demo_inputs ''u'') ''r'' ''ip'' ''s'' PublicLive (Fin (1 / 4)), DeferOp ''u''] = (m, db) \<and>
     card (lm_run_leases m) \<le> 2"
proof -
  obtain m db where r: "admission_run (demo_limits, empty_db)
     [AdmitOp (demo_inputs ''u'') ''r'' ''ip'' ''s'' PublicLive (Fin (1 / 4)), DeferOp ''u''] = (m, db)"
    by (metis prod.exhaust)
  from capacity_respected [OF demo_limits_new _ r] r show ?thesis
    by (simp add: demo_inputs_def clocks_ok_def)
qed

text \<open>At a frozen clock the buckets of a failed admission are those of before, refilled.\<close>

lemma consume_failed_bucket:
  "buckets_ok b \<Longrightarrow> isfinite now \<Longrightarrow> consume b key now = (Inl e, b') \<Longrightarrow>
   b' = put_bucket b key (refill b key now) now"
  by (rule consume_cases [of b now key]) auto

lemma admit_failed_buckets:
  assumes "admit_locked ops m db inp run ip s cost = (Inl e, m', db')"
    and "buckets_ok (lm_ip_buckets m)" "buckets_ok (lm_session_buckets m)" "0 \<le> cg_active (lm_runs m)"
    and now: "isfinite now" "in_ip_now inp = now" "in_session_now inp = now"
      "in_session_refund inp = now" "in_ip_refund inp = now"
  shows "lm_ip_buckets m' = put_bucket (lm_ip_buckets m) ip (refill (lm_ip_buckets m) ip now) now \<and>
    (lm_session_buckets m' = lm_session_buckets m \<or>
     lm_session_buckets m' = put_bucket (lm_session_buckets m) s (refill (lm_session_buckets m) s now) now)"
proof -
  obtain rb b where b: "consume (lm_ip_buckets m) ip now = (rb, b)" by fastforce
  show ?thesis
  proof (cases rb)
    case (Inl f)
    with b assms(1) now have "m' = m\<lparr>lm_ip_buckets := b\<rparr>" by (auto simp: admit_locked_def)
    with consume_failed_bucket [OF assms(2) now(1) b [unfolded Inl]] show ?thesis by simp
  next
    case (Inr u)
    note undo_ip = refund_consume [OF assms(2) now(1) b [unfolded Inr]]
    obtain rs sb where s: "consume (lm_session_buckets m) s now = (rs, sb)" by fastforce
    note step1 = b [unfolded Inr] s
    show ?thesis
    proof (cases rs)
      case (Inl f)
      with step1 assms(1) now have "m' = refund_ip (m\<lparr>lm_ip_buckets := b, lm_session_buckets := sb\<rparr>) inp ip"
        by (auto simp: admit_locked_def Let_def)
      with consume_failed_bucket [OF assms(3) now(1) s [unfolded Inl]] undo_ip now show ?thesis
        by (simp add: refund_ip_def)
    next
      case (Inr v)
      note undo_s = refund_consume [OF assms(3) now(1) s [unfolded Inr]]
      note step2 = step1 [unfolded Inr]
      let ?m2 = "m\<lparr>lm_ip_buckets := b, lm_session_buckets := sb\<rparr>"
      have fin: "lm_ip_buckets m' = refund b ip now \<and> lm_session_buckets m' = refund sb s now"
      proof (cases "try_acquire (lm_runs m)")
        case (Inl f)
        with step2 assms(1) now show ?thesis
          by (auto simp: admit_locked_def Let_def refund_ip_def refund_session_def)
      next
        case (Inr g)
        have roll: "rollback (?m2\<lparr>lm_runs := g\<rparr>) inp ip s f =
            (f, refund_ip (refund_session (?m2\<lparr>lm_runs := lm_runs m\<rparr>) inp s) inp ip)" for f
          using release_acquired [OF Inr assms(4)] by (simp add: rollback_def)
        from step2 Inr roll assms(1) now show ?thesis
          by (auto simp: admit_locked_def Let_def refund_ip_def refund_session_def
              split: sum.splits prod.splits option.splits)
      qed
      with undo_ip undo_s show ?thesis by simp
    qed
  qed
qed

lemma refill_other: "k \<noteq> key \<Longrightarrow> refill (put_bucket b key t u) k now = refill b k now"
  by (cases "dget (tb_buckets b) k") (simp_all add: refill_def put_bucket_def)

text \<open>
  C11. Admission is all or nothing.  In every state the public service reaches, an admission that
  is refused, for whatever reason, leaves the store, the capacity gate, the leases and the open
  admissions untouched; and if no time passes during the call, every bucket of every client and
  session still has at that instant the level it had before.
\<close>

theorem admission_all_or_nothing:
  assumes "new_manager limit = Inr m0" "list_all admission_op_ok ops"
    and "admission_run (m0, empty_db) ops = (m, db)"
    and "admit sql_cost_ops m db inp run ip s profile cost = (Inl e, m', db')" "clocks_ok inp"
  shows "db' = db \<and> lm_runs m' = lm_runs m \<and> lm_run_leases m' = lm_run_leases m \<and>
    lm_admissions m' = lm_admissions m \<and>
    (\<forall>now. in_ip_now inp = now \<and> in_session_now inp = now \<and> in_session_refund inp = now \<and>
       in_ip_refund inp = now \<longrightarrow>
       (\<forall>key. refill (lm_ip_buckets m') key now = refill (lm_ip_buckets m) key now \<and>
              refill (lm_session_buckets m') key now = refill (lm_session_buckets m) key now))"
proof -
  have st: "store_inv db" "admissions_inv (ledger_owner db) m"
    using admission_run_inv [OF _ _ assms(2,3)] new_manager_inv [OF assms(1)] by simp_all
  have b: "buckets_ok (lm_ip_buckets m)" "buckets_ok (lm_session_buckets m)" "0 \<le> cg_active (lm_runs m)"
    using st(2) by (simp_all add: admissions_inv_def)
  show ?thesis
  proof (cases "admit_locked sql_cost_ops m db inp run ip s cost = (Inl e, m', db')")
    case False
    with assms(4) have "m' = m \<and> db' = db"
      by (auto simp: admit_def Let_def preset_def split: if_splits option.splits)
    then show ?thesis by simp
  next
    case True
    have same: "db' = db \<and> same_books m m'"
      using True assms(5) b
    proof (cases rule: admit_locked_cases)
      case (undone e adm)
      then have "reserve_daily_cost (in_uuid inp) db (utc_day (in_utc inp)) run cost (lm_daily_limit m) = Inr (adm, db')"
        by (simp add: sql_cost_ops_def)
      from reserve_owner [OF st(1) this] undone(5) show ?thesis by simp
    qed auto
    have lvl: "refill (put_bucket b key (refill b key now) now) k now = refill b k now"
      if "buckets_ok b" "isfinite now" for b key k now
      using refill_frozen [OF that refill_ok [OF that]]
      by (cases "k = key") (simp_all add: refill_other)
    show ?thesis
    proof (intro conjI allI impI)
      fix now key
      assume n: "in_ip_now inp = now \<and> in_session_now inp = now \<and> in_session_refund inp = now \<and>
       in_ip_refund inp = now"
      then have fin: "isfinite now" using assms(5) by (simp add: clocks_ok_def)
      from admit_failed_buckets [OF True b fin] n have
        f: "lm_ip_buckets m' = put_bucket (lm_ip_buckets m) ip (refill (lm_ip_buckets m) ip now) now"
        "lm_session_buckets m' = lm_session_buckets m \<or>
         lm_session_buckets m' = put_bucket (lm_session_buckets m) s (refill (lm_session_buckets m) s now) now"
        by simp_all
      show "refill (lm_ip_buckets m') key now = refill (lm_ip_buckets m) key now"
        unfolding f(1) by (rule lvl [OF b(1) fin])
      show "refill (lm_session_buckets m') key now = refill (lm_session_buckets m) key now"
        using f(2) lvl [OF b(2) fin] by metis
    qed (use same in \<open>simp_all add: same_books_def\<close>)
  qed
qed

theorem admission_all_or_nothing_witness:
  "\<exists>e m' db'. admit sql_cost_ops demo_limits empty_db (demo_inputs ''u'') ''r'' ''ip'' ''s'' PublicLive (Fin 1) =
     (Inl e, m', db') \<and> lm_run_leases m' = lm_run_leases demo_limits \<and> db' = empty_db"
proof -
  obtain e m' db' where a: "admit sql_cost_ops demo_limits empty_db (demo_inputs ''u'') ''r'' ''ip'' ''s'' PublicLive (Fin 1) =
     (Inl e, m', db')"
    by (simp add: admit_def preset_def)
  have "list_all admission_op_ok []" "admission_run (demo_limits, empty_db) [] = (demo_limits, empty_db)"
    "clocks_ok (demo_inputs ''u'')" by (simp_all add: admission_run_def clocks_ok_def demo_inputs_def)
  from admission_all_or_nothing [OF demo_limits_new this(1,2) a this(3)] a show ?thesis by blast
qed

text \<open>Requests of one client at one instant, all granted.\<close>

fun burst :: "token_buckets \<Rightarrow> string \<Rightarrow> pyfloat \<Rightarrow> nat \<Rightarrow> token_buckets option" where
  "burst b key now 0 = Some b"
| "burst b key now (Suc n) =
     (case consume b key now of (Inl _, _) \<Rightarrow> None | (Inr _, b') \<Rightarrow> burst b' key now n)"

text \<open>
  C14. The rate limit is exact.  From any reachable bucket, a burst of requests at one instant is
  granted if and only if it is no longer than the (refilled) level of the bucket, which is never
  above its capacity: no rounding in the float arithmetic gives away or swallows a token.
\<close>

theorem burst_exact:
  assumes "buckets_ok b" "isfinite now"
  shows "\<exists>x. refill b key now = Fin x \<and> x \<le> of_int (tb_capacity b) \<and>
    (burst b key now n \<noteq> None \<longleftrightarrow> of_nat n \<le> x)"
  using assms
proof (induction n arbitrary: b)
  case 0
  then show ?case using refill_ok [of b now key] by (auto simp: level_ok_def)
next
  case (Suc n)
  from Suc.prems show ?case
  proof (cases rule: consume_cases [of b now key])
    case (limited r)
    obtain x where x: "refill b key now = Fin x" "0 \<le> x" "x \<le> of_int (tb_capacity b)"
      using refill_ok [OF Suc.prems, of key] by (auto simp: level_ok_def)
    then show ?thesis using limited by (intro exI [of _ x]) simp
  next
    case (granted x)
    let ?b = "put_bucket b key (Fin (x - 1)) now"
    have cap: "(of_int (tb_capacity b) :: rat) < 2 ^ 53"
      using Suc.prems(1) of_int_less_iff [of "tb_capacity b" "2 ^ 53", where ?'a = rat] by (simp add: buckets_ok_def)
    have lvl: "level_ok (tb_capacity b) (Fin (x - 1))"
      using granted rnd_minus_1 [of x] cap by (simp add: level_ok_def)
    have "refill ?b key now = Fin (x - 1)" by (rule refill_frozen [OF Suc.prems lvl])
    moreover have "buckets_ok ?b" by (rule put_bucket_ok [OF Suc.prems(1) lvl Suc.prems(2)])
    ultimately have "burst ?b key now n \<noteq> None \<longleftrightarrow> of_nat n \<le> x - 1" using Suc.IH [of ?b] Suc.prems(2) by auto
    then show ?thesis using granted by (intro exI [of _ x]) auto
  qed
qed

theorem burst_exact_witness:
  "\<exists>x. refill (lm_ip_buckets demo_limits) ''ip'' (Fin 7) = Fin x \<and> x \<le> 4 \<and>
    (burst (lm_ip_buckets demo_limits) ''ip'' (Fin 7) 5 \<noteq> None \<longleftrightarrow> 5 \<le> x)"
proof -
  have "buckets_ok (lm_ip_buckets demo_limits)" by (simp add: demo_limits_def buckets_ok_def)
  from burst_exact [OF this, of "Fin 7" "''ip''" 5] show ?thesis by (simp add: demo_limits_def)
qed

end
