(* ===== verification/Run_Manager_Correct.thy ===== *)
theory Run_Manager_Correct
  imports Run_Manager Run_Store_Correct Admission_Correct
begin

text \<open>
  What the run manager guarantees over every interleaving of its operations: the books of the
  store and of the admission limits agree, every active run has a task, ending a run always
  succeeds and settles or defers its reservation, and a request repeated under its idempotency
  key returns the run of the first.
\<close>

section \<open>The books\<close>

definition active :: "run_record \<Rightarrow> bool" where
  "active r \<longleftrightarrow> rn_status r \<in> {Queued, Running}"

definition leases :: "limit_manager option \<Rightarrow> string set" where
  "leases adm = (case adm of None \<Rightarrow> {} | Some lm \<Rightarrow> lm_run_leases lm)"

definition linked :: "database \<Rightarrow> string \<Rightarrow> string \<Rightarrow> bool" where
  "linked db i rid \<longleftrightarrow> (\<exists>r. dget (db_runs db) i = Some r \<and> rn_admission_reservation_id r = Some rid)"

definition reserved :: "database \<Rightarrow> string \<Rightarrow> string \<Rightarrow> bool" where
  "reserved db i rid \<longleftrightarrow> (\<exists>s\<in>set (db_ledger db). ul_run_id s = i \<and> ul_reservation_id s = rid \<and>
     ul_state s = LedgerReserved)"

definition limits_ok :: "limit_manager option \<Rightarrow> database \<Rightarrow> bool" where
  "limits_ok adm db \<longleftrightarrow> (case adm of None \<Rightarrow> \<forall>i rid. \<not> linked db i rid
     | Some lm \<Rightarrow> admissions_inv (ledger_owner db) lm)"

definition cost_ok :: "decimal option \<Rightarrow> bool" where
  "cost_ok c \<longleftrightarrow> (case c of None \<Rightarrow> True | Some x \<Rightarrow> fle (Fin 0) x)"

definition books :: "limit_manager option \<Rightarrow> database \<Rightarrow> bool" where
  "books adm db \<longleftrightarrow> store_inv db \<and> limits_ok adm db \<and>
     (\<forall>i rid. linked db i rid \<longleftrightarrow> reserved db i rid) \<and>
     (\<forall>rid\<in>leases adm. \<exists>i r. dget (db_runs db) i = Some r \<and> active r \<and>
        rn_admission_reservation_id r = Some rid) \<and>
     (\<forall>i r. dget (db_runs db) i = Some r \<and> \<not> active r \<and> rn_admission_reservation_id r \<noteq> None \<longrightarrow>
        known_cost r = None) \<and>
     (\<forall>i r. dget (db_runs db) i = Some r \<longrightarrow> cost_ok (known_cost r))"

lemma booksD:
  assumes "books adm db"
  shows "store_inv db" "limits_ok adm db" "\<And>i rid. linked db i rid \<longleftrightarrow> reserved db i rid"
    "\<And>rid. rid \<in> leases adm \<Longrightarrow> \<exists>i r. dget (db_runs db) i = Some r \<and> active r \<and> rn_admission_reservation_id r = Some rid"
    "\<And>i r. dget (db_runs db) i = Some r \<Longrightarrow> \<not> active r \<Longrightarrow> rn_admission_reservation_id r \<noteq> None \<Longrightarrow> known_cost r = None"
    "\<And>i r. dget (db_runs db) i = Some r \<Longrightarrow> cost_ok (known_cost r)"
  using assms unfolding books_def by blast+

lemma booksI:
  assumes "store_inv db" "limits_ok adm db" "\<And>i rid. linked db i rid \<longleftrightarrow> reserved db i rid"
    and "\<And>rid. rid \<in> leases adm \<Longrightarrow> \<exists>i r. dget (db_runs db) i = Some r \<and> active r \<and> rn_admission_reservation_id r = Some rid"
    and "\<And>i r. dget (db_runs db) i = Some r \<Longrightarrow> \<not> active r \<Longrightarrow> rn_admission_reservation_id r \<noteq> None \<Longrightarrow> known_cost r = None"
    and "\<And>i r. dget (db_runs db) i = Some r \<Longrightarrow> cost_ok (known_cost r)"
  shows "books adm db"
  using assms unfolding books_def by blast

lemma reserved_owner:
  assumes "store_inv db" "reserved db i rid"
  shows "ledger_owner db rid = Some i"
  using assms find_owner by (auto simp: reserved_def)

lemma linked_owner: "books adm db \<Longrightarrow> linked db i rid \<Longrightarrow> ledger_owner db rid = Some i"
  using booksD(1,3) reserved_owner by blast

lemma linked_unique: "books adm db \<Longrightarrow> linked db i rid \<Longrightarrow> linked db j rid \<Longrightarrow> i = j"
  by (metis linked_owner option.inject)

lemma books_row:
  assumes "books adm db" "dget (db_runs db) i = Some r"
  shows "rn_run_id r = i" "case rn_final_usage r of None \<Rightarrow> True | Some u \<Rightarrow> valid_usage u"
  using runs_inv_row [OF _ assms(2)] booksD(1) [OF assms(1)] by (simp_all add: store_inv_def)

text \<open>
  One run ends: its row becomes inactive, its lease is gone, and either its reservation is still
  open and linked at an unknown cost or it is closed and unlinked.
\<close>

lemma books_end:
  assumes b: "books adm db" and r: "dget (db_runs db) i = Some r"
    and db': "store_inv db'" "db_runs db' = dput i s (db_runs db)" and s: "\<not> active s"
    and lim: "limits_ok adm' db'" "leases adm' = leases adm - {rid. rn_admission_reservation_id r = Some rid}"
    and link: "rn_admission_reservation_id s = rn_admission_reservation_id r \<or> rn_admission_reservation_id s = None"
    and cost: "rn_admission_reservation_id s \<noteq> None \<Longrightarrow> known_cost s = None" "cost_ok (known_cost s)"
    and led: "\<And>j rid. reserved db' j rid \<longleftrightarrow> reserved db j rid \<and>
      (rn_admission_reservation_id r = Some rid \<longrightarrow> rn_admission_reservation_id s = Some rid)"
  shows "books adm' db'"
proof (rule booksI [OF db'(1) lim(1)])
  fix j rid
  have lr: "linked db j rid \<longleftrightarrow> reserved db j rid" by (rule booksD(3) [OF b])
  have li: "linked db i rid \<longleftrightarrow> rn_admission_reservation_id r = Some rid" by (simp add: linked_def r)
  show "linked db' j rid \<longleftrightarrow> reserved db' j rid"
  proof (cases "j = i")
    case True
    have "linked db' i rid \<longleftrightarrow> rn_admission_reservation_id s = Some rid" by (simp add: linked_def db'(2))
    then show ?thesis using link li lr led True by auto
  next
    case False
    then have "linked db' j rid \<longleftrightarrow> linked db j rid" by (simp add: linked_def db'(2))
    moreover have "rn_admission_reservation_id r \<noteq> Some rid" if "linked db j rid"
      using linked_unique [OF b that] li False by blast
    ultimately show ?thesis using lr led by blast
  qed
next
  fix rid assume rid: "rid \<in> leases adm'"
  then have "rid \<in> leases adm" "rn_admission_reservation_id r \<noteq> Some rid" using lim(2) by simp_all
  from booksD(4) [OF b this(1)] obtain j q where
    q: "dget (db_runs db) j = Some q" "active q" "rn_admission_reservation_id q = Some rid" by blast
  with r \<open>rn_admission_reservation_id r \<noteq> Some rid\<close> have "j \<noteq> i" by auto
  with q(1) have "dget (db_runs db') j = Some q" by (simp add: db'(2))
  with q(2,3) show "\<exists>i r. dget (db_runs db') i = Some r \<and> active r \<and> rn_admission_reservation_id r = Some rid"
    by blast
next
  fix j q
  assume q: "dget (db_runs db') j = Some q" "\<not> active q" "rn_admission_reservation_id q \<noteq> None"
  show "known_cost q = None"
  proof (cases "j = i")
    case True
    then show ?thesis using q(1,3) cost(1) by (simp add: db'(2))
  next
    case False
    then have "dget (db_runs db) j = Some q" using q(1) by (simp add: db'(2))
    from booksD(5) [OF b this q(2,3)] show ?thesis .
  qed
next
  fix j q assume q: "dget (db_runs db') j = Some q"
  show "cost_ok (known_cost q)"
  proof (cases "j = i")
    case False
    then have "dget (db_runs db) j = Some q" using q by (simp add: db'(2))
    then show ?thesis by (rule booksD(6) [OF b])
  qed (use q cost(2) in \<open>simp add: db'(2)\<close>)
qed

lemma limits_ok_owner:
  assumes "limits_ok (Some lm) db" "ledger_owner db' = ledger_owner db"
  shows "limits_ok (Some lm) db'"
  using assms by (simp add: limits_ok_def)

text \<open>Giving up the lease of a run, in the controller of the manager.\<close>

lemma finish_with_ok:
  assumes "admissions_inv (ledger_owner db) lm" "ledger_owner db' = ledger_owner db"
  obtains lm' where "finish_with lm db rid (Inr db') = (Inr (), lm', db')" "admissions_inv (ledger_owner db') lm'"
    "lm_run_leases lm' = lm_run_leases lm - {rid}"
proof -
  from release_local_keeps [OF assms(1), of rid] obtain lm' where
    "release_local lm rid = Inr lm'" "admissions_inv (ledger_owner db) lm'"
    "lm_run_leases lm' = lm_run_leases lm - {rid}" by blast
  then show thesis by (intro that [of lm']) (simp_all add: finish_with_def assms(2))
qed

lemma settle_ok:
  assumes "store_inv db" "reserved db i rid" "isfinite c" "fle (Fin 0) c"
  defines "db' \<equiv> update_reserved db rid (\<lambda>r. r\<lparr>ul_amount := c, ul_state := LedgerSettled\<rparr>)"
  shows "settle_daily_cost db rid c = Inr db'" "store_inv db'" "ledger_owner db' = ledger_owner db"
    "db_runs db' = db_runs db" "db_events db' = db_events db"
    "\<And>j q. reserved db' j q \<longleftrightarrow> reserved db j q \<and> q \<noteq> rid"
    "\<exists>s\<in>set (db_ledger db'). ul_reservation_id s = rid \<and> ul_run_id s = i \<and> ul_state s = LedgerSettled \<and> ul_amount s = c"
proof -
  from assms(2) obtain s where s: "s \<in> set (db_ledger db)" "ul_run_id s = i" "ul_reservation_id s = rid"
    "ul_state s = LedgerReserved" by (auto simp: reserved_def)
  then obtain t where "List.find (\<lambda>r. ul_reservation_id r = rid) (db_ledger db) = Some t"
    by (cases "List.find (\<lambda>r. ul_reservation_id r = rid) (db_ledger db)") (auto simp: find_None)
  then have row: "ledger_row_of db rid = Inr t" by (simp add: ledger_row_of_def)
  have "check_amount c = Inr ()" using assms(3,4) by (cases c) (auto simp: check_amount_def)
  with row show st: "settle_daily_cost db rid c = Inr db'" by (simp add: settle_daily_cost_def db'_def)
  show "store_inv db'" by (rule settle_cost_inv [OF st assms(1)])
  show "ledger_owner db' = ledger_owner db"
    unfolding db'_def by (rule update_reserved_owner) (simp add: keeps_row_def)
  show "db_runs db' = db_runs db" "db_events db' = db_events db"
    by (simp_all add: db'_def update_reserved_def)
  show "reserved db' j q \<longleftrightarrow> reserved db j q \<and> q \<noteq> rid" for j q
    by (auto simp: reserved_def db'_def update_reserved_def)
  have "(if ul_reservation_id s = rid \<and> ul_state s = LedgerReserved
     then s\<lparr>ul_amount := c, ul_state := LedgerSettled\<rparr> else s) \<in> set (db_ledger db')"
    using s(1) by (simp add: db'_def update_reserved_def)
  then show "\<exists>s\<in>set (db_ledger db'). ul_reservation_id s = rid \<and> ul_run_id s = i \<and>
      ul_state s = LedgerSettled \<and> ul_amount s = c"
    using s(2-4) by (intro bexI [of _ "s\<lparr>ul_amount := c, ul_state := LedgerSettled\<rparr>"]) simp_all
qed

section \<open>Ending a run\<close>

definition same_control :: "manager \<Rightarrow> manager \<Rightarrow> bool" where
  "same_control m m' \<longleftrightarrow> mg_tasks m' = mg_tasks m \<and> mg_tokens m' = mg_tokens m \<and>
     mg_user_cancel m' = mg_user_cancel m \<and> mg_shutdown m' = mg_shutdown m \<and> mg_closing m' = mg_closing m"

lemma same_control_refl [simp]: "same_control m m"
  by (simp add: same_control_def)

lemma same_control_trans: "same_control a b \<Longrightarrow> same_control b c \<Longrightarrow> same_control a c"
  by (simp add: same_control_def)

lemma broadcast_simps [simp]:
  "mg_admission (broadcast_persisted e m) = mg_admission m" "mg_db (broadcast_persisted e m) = mg_db m"
  "same_control m (broadcast_persisted e m')  \<longleftrightarrow> same_control m m'"
  by (simp_all add: broadcast_persisted_def same_control_def)

lemma mret_apply [simp]: "mret r m = (r, m)"
  by (simp add: mret_def)

text \<open>The accounting of a row that has just become inactive.\<close>

definition unlink :: "run_record \<Rightarrow> run_record" where
  "unlink s = (if known_cost s \<noteq> None \<and> rn_admission_reservation_id s \<noteq> None
     then s\<lparr>rn_admission_reservation_id := None, rn_admission_attempt_no := None, rn_version := rn_version s + 1\<rparr>
     else s)"

lemma known_cost_ok:
  assumes "store_inv db" "dget (db_runs db) i = Some s" "known_cost s = Some c"
  shows "isfinite c"
proof -
  from assms(3) obtain u where u: "rn_final_usage s = Some u" "ru_cost_usd u = Some c"
    by (auto simp: known_cost_def split: option.splits)
  then have "valid_usage u" using runs_inv_row [OF _ assms(2)] assms(1) by (simp add: store_inv_def)
  then show "isfinite c" using u(2) by (simp_all add: valid_usage_def usage_fields_ok_def)
qed

lemma clear_ok:
  assumes "store_inv db" "dget (db_runs db) i = Some s" "rn_admission_reservation_id s = Some rid"
  defines "s' \<equiv> s\<lparr>rn_admission_reservation_id := None, rn_admission_attempt_no := None, rn_version := rn_version s + 1\<rparr>"
  shows "clear_admission db i (Some rid) = Inr (s', db\<lparr>db_runs := dput i s' (db_runs db)\<rparr>)"
    "store_inv (db\<lparr>db_runs := dput i s' (db_runs db)\<rparr>)"
proof -
  have id: "rn_run_id s = i" using runs_inv_row [OF _ assms(2)] assms(1) by (simp add: store_inv_def)
  show c: "clear_admission db i (Some rid) = Inr (s', db\<lparr>db_runs := dput i s' (db_runs db)\<rparr>)"
    using assms(2,3) by (simp add: clear_admission_def require_run_def cas_def Let_def id s'_def)
  show "store_inv (db\<lparr>db_runs := dput i s' (db_runs db)\<rparr>)" by (rule clear_inv [OF c assms(1)])
qed

lemma dput_twice [simp]: "dput k v (dput k u d) = dput k v d"
  by (induction d) auto

lemma complete_accounting_books:
  assumes b: "books (mg_admission m) db" and r: "dget (db_runs db) i = Some r"
    and m: "store_inv (mg_db m)" "db_runs (mg_db m) = dput i s (db_runs db)" "db_ledger (mg_db m) = db_ledger db"
    and s: "rn_admission_reservation_id s = rn_admission_reservation_id r" "rn_run_id s = i" "\<not> active s"
      "cost_ok (known_cost s)"
  obtains m' where "complete_accounting s m = (Inr (unlink s), m')" "books (mg_admission m') (mg_db m')"
    "db_runs (mg_db m') = dput i (unlink s) (db_runs db)" "same_control m m'"
    "\<forall>rid c. rn_admission_reservation_id r = Some rid \<and> known_cost s = Some c \<longrightarrow>
       (\<exists>q\<in>set (db_ledger (mg_db m')). ul_reservation_id q = rid \<and> ul_run_id q = i \<and>
         ul_state q = LedgerSettled \<and> ul_amount q = c)"
proof (cases "rn_admission_reservation_id r")
  case None
  have res: "reserved (mg_db m) j q \<longleftrightarrow> reserved db j q" for j q by (simp add: reserved_def m(3))
  have own: "ledger_owner (mg_db m) = ledger_owner db" by (simp add: ledger_owner_def fun_eq_iff m(3))
  have "limits_ok (mg_admission m) (mg_db m)"
  proof (cases "mg_admission m")
    case None
    then show ?thesis using booksD(2) [OF b] \<open>rn_admission_reservation_id r = None\<close> s(1)
      by (auto simp: limits_ok_def linked_def m(2) split: if_splits)
  qed (use booksD(2) [OF b] own in \<open>simp add: limits_ok_def\<close>)
  then have "books (mg_admission m) (mg_db m)"
    using None s res by (intro books_end [OF b r m(1,2)]) simp_all
  moreover have "complete_accounting s m = (Inr (unlink s), m)" "unlink s = s"
    using None s(1) by (simp_all add: complete_accounting_def unlink_def)
  ultimately show thesis using None m(2) by (intro that [of m]) simp_all
next
  case (Some rid)
  then have "linked db i rid" using r by (simp add: linked_def)
  then have resd: "reserved db i rid" using booksD(3) [OF b] by blast
  obtain lm where lm: "mg_admission m = Some lm"
    using booksD(2) [OF b] \<open>linked db i rid\<close> by (cases "mg_admission m") (auto simp: limits_ok_def)
  have own: "ledger_owner (mg_db m) = ledger_owner db" by (simp add: ledger_owner_def fun_eq_iff m(3))
  have res: "reserved (mg_db m) j q \<longleftrightarrow> reserved db j q" for j q by (simp add: reserved_def m(3))
  have inv: "admissions_inv (ledger_owner (mg_db m)) lm"
    using booksD(2) [OF b] own by (simp add: limits_ok_def lm)
  have row: "dget (db_runs (mg_db m)) i = Some s" by (simp add: m(2))
  show thesis
  proof (cases "known_cost s")
    case None
    from finish_with_ok [OF inv refl, of rid] obtain lm' where lm': "finish_with lm (mg_db m) rid (Inr (mg_db m)) =
        (Inr (), lm', mg_db m)" "admissions_inv (ledger_owner (mg_db m)) lm'"
      "lm_run_leases lm' = lm_run_leases lm - {rid}" by blast
    let ?m = "m\<lparr>mg_admission := Some lm', mg_db := mg_db m\<rparr>"
    have "complete_accounting s m = (Inr (unlink s), ?m)" "unlink s = s"
      using Some None s(1) lm lm'(1)
      by (simp_all add: complete_accounting_def unlink_def madmission_def defer_settlement_def mbind_def)
    moreover have "books (Some lm') (mg_db m)"
      using lm' Some s None res lm
      by (intro books_end [OF b r m(1,2)]) (simp_all add: limits_ok_def leases_def)
    ultimately show thesis using None m(2) by (intro that [of ?m]) (simp_all add: same_control_def)
  next
    fix c assume c: "known_cost s = Some c"
    have ok: "isfinite c" "fle (Fin 0) c" using known_cost_ok [OF m(1) row c] s(4) c by (simp_all add: cost_ok_def)
    have resm: "reserved (mg_db m) i rid" using resd res by blast
    define db1 where "db1 = update_reserved (mg_db m) rid (\<lambda>r. r\<lparr>ul_amount := c, ul_state := LedgerSettled\<rparr>)"
    note se = settle_ok [OF m(1) resm ok, folded db1_def]
    from finish_with_ok [OF inv se(3), of rid] obtain lm' where lm': "finish_with lm (mg_db m) rid (Inr db1) =
        (Inr (), lm', db1)" "admissions_inv (ledger_owner db1) lm'"
      "lm_run_leases lm' = lm_run_leases lm - {rid}" by blast
    have row1: "dget (db_runs db1) i = Some s" using row se(4) by simp
    have link: "rn_admission_reservation_id s = Some rid" using Some s(1) by simp
    note cl = clear_ok [OF se(2) row1 link]
    have un: "unlink s = s\<lparr>rn_admission_reservation_id := None, rn_admission_attempt_no := None,
        rn_version := rn_version s + 1\<rparr>" using c link by (simp add: unlink_def)
    define db2 where "db2 = db1\<lparr>db_runs := dput i (unlink s) (db_runs db1)\<rparr>"
    let ?m = "m\<lparr>mg_admission := Some lm', mg_db := db2\<rparr>"
    have acc: "complete_accounting s m = (Inr (unlink s), ?m)"
      using link c lm lm'(1) se(1) cl(1) s(2)
      by (simp add: complete_accounting_def madmission_def settle_admission_def mbind_def mstore_def
          sql_cost_ops_def db2_def un)
    have runs2: "db_runs db2 = dput i (unlink s) (db_runs db)" by (simp add: db2_def se(4) m(2))
    have own2: "ledger_owner db2 = ledger_owner db1" by (simp add: ledger_owner_def fun_eq_iff db2_def)
    have inact: "\<not> active (unlink s)" using s(3) by (simp add: un active_def)
    have "books (Some lm') db2"
    proof (rule books_end [OF b r _ runs2 inact])
      show "store_inv db2" using cl(2) by (simp add: db2_def un)
      show "limits_ok (Some lm') db2" using lm'(2) own2 by (simp add: limits_ok_def)
      show "leases (Some lm') = leases (mg_admission m) - {q. rn_admission_reservation_id r = Some q}"
        using Some lm lm'(3) by (auto simp: leases_def)
      fix j q
      show "reserved db2 j q \<longleftrightarrow> reserved db j q \<and>
          (rn_admission_reservation_id r = Some q \<longrightarrow> rn_admission_reservation_id (unlink s) = Some q)"
        using se(6) [of j q] res [of j q] Some by (auto simp: reserved_def db2_def un)
    next
      show "cost_ok (known_cost (unlink s))" using s(4) by (simp add: un known_cost_def)
    qed (simp_all add: un)
    moreover have "\<exists>q\<in>set (db_ledger db2). ul_reservation_id q = rid \<and> ul_run_id q = i \<and>
         ul_state q = LedgerSettled \<and> ul_amount q = c" using se(7) by (simp add: db2_def)
    ultimately show thesis using acc runs2 Some c se(5)
      by (intro that [of ?m]) (simp_all add: same_control_def db2_def)
  qed
qed

text \<open>What a row is after a finalization, its accounting included.\<close>

definition ended :: "run_finalization \<Rightarrow> run_record \<Rightarrow> run_record \<Rightarrow> bool" where
  "ended f r s \<longleftrightarrow> rn_run_id s = rn_run_id r \<and> rn_thread_id s = rn_thread_id r \<and> rn_status s = fz_status f \<and>
     rn_stop_reason s = fz_stop_reason f \<and> rn_is_partial s = fz_is_partial f \<and>
     rn_final_usage s = Some (fz_final_usage f) \<and> rn_error_code s = fz_error_code f \<and>
     rn_pricing_status s = rn_pricing_status r \<and> rn_config_sha256 s = rn_config_sha256 r \<and>
     rn_idempotency_key s = rn_idempotency_key r \<and>
     rn_idempotency_scope_sha256 s = rn_idempotency_scope_sha256 r \<and>
     rn_owner_scope_sha256 s = rn_owner_scope_sha256 r \<and>
     rn_admission_reservation_id s =
       (if ru_cost_usd (fz_final_usage f) = None then rn_admission_reservation_id r else None)"

lemma finalize_run_total:
  assumes "store_inv db" "dget (db_runs db) i = Some r" "fz_status f \<in> set (terminal_targets (rn_status r))"
    and "aware now" "valid_usage (fz_final_usage f)"
  obtains e db' where "finalize_run db i (rn_status r) f (draft now t) =
      Inr (((finalized f now r)\<lparr>rn_version := rn_version r + 1\<rparr>, e), db')" "store_inv db'"
    "db_runs db' = dput i ((finalized f now r)\<lparr>rn_version := rn_version r + 1\<rparr>) (db_runs db)"
    "db_ledger db' = db_ledger db"
proof -
  have id: "rn_run_id r = i" using runs_inv_row [OF _ assms(2)] assms(1) by (simp add: store_inv_def)
  have row: "dget (db_runs db) (rn_run_id r) = Some r" using assms(2) id by simp
  have now: "td_timestamp (draft now t) = now" by (simp add: draft_def)
  obtain saved e db' where fin: "finalize_row db r (rn_status r) f (draft now t) = Inr ((saved, e), db')"
    using finalize_row_total [OF assms(1) row _ assms(5), of "draft now t"] assms(4) now by auto
  have run: "finalize_run db i (rn_status r) f (draft now t) = Inr ((saved, e), db')"
    using assms(2,3) fin by (simp add: finalize_run_def require_run_def)
  show thesis
    by (rule finalize_row_cases [OF fin assms(1,5)])
      (use that [of e db'] run row id now in \<open>simp\<close>)
qed

lemma terminal_target_inactive: "t \<in> set (terminal_targets s) \<Longrightarrow> t \<notin> {Queued, Running}"
  by (cases s) auto

lemma finalize_books:
  assumes b: "books (mg_admission m) (mg_db m)" and r: "dget (db_runs (mg_db m)) i = Some r"
    and f: "fz_status f \<in> set (terminal_targets (rn_status r))" "valid_usage (fz_final_usage f)"
      "cost_ok (ru_cost_usd (fz_final_usage f))" and now: "aware now"
  obtains s m' where "finalize now r f m = (Inr s, m')" "ended f r s" "books (mg_admission m') (mg_db m')"
    "db_runs (mg_db m') = dput i s (db_runs (mg_db m))" "same_control m m'"
    "\<forall>rid c. rn_admission_reservation_id r = Some rid \<and> ru_cost_usd (fz_final_usage f) = Some c \<longrightarrow>
       (\<exists>q\<in>set (db_ledger (mg_db m')). ul_reservation_id q = rid \<and> ul_run_id q = i \<and>
         ul_state q = LedgerSettled \<and> ul_amount q = c)"
proof -
  have id: "rn_run_id r = i" by (rule books_row [OF b r])
  let ?s = "(finalized f now r)\<lparr>rn_version := rn_version r + 1\<rparr>"
  obtain e db1 where fin: "finalize_run (mg_db m) i (rn_status r) f (draft now (fz_status f)) = Inr ((?s, e), db1)"
    "store_inv db1" "db_runs db1 = dput i ?s (db_runs (mg_db m))" "db_ledger db1 = db_ledger (mg_db m)"
    by (rule finalize_run_total [OF booksD(1) [OF b] r f(1) now f(2)])
  let ?m1 = "m\<lparr>mg_db := db1\<rparr>"
  have st: "mstore (\<lambda>db. finalize_run db (rn_run_id r) (rn_status r) f (draft now (fz_status f))) m =
      (Inr (?s, e), ?m1)" by (simp add: mstore_def id fin(1))
  have cost: "known_cost ?s = ru_cost_usd (fz_final_usage f)" by (simp add: known_cost_def finalized_def)
  have act: "\<not> active ?s" using terminal_target_inactive [OF f(1)] by (simp add: active_def finalized_def)
  have link: "rn_admission_reservation_id ?s = rn_admission_reservation_id r" "rn_run_id ?s = i"
    by (simp_all add: finalized_def id)
  have ck: "cost_ok (known_cost ?s)" using f(3) cost by simp
  have m1: "books (mg_admission ?m1) (mg_db m)" "store_inv (mg_db ?m1)"
    "db_runs (mg_db ?m1) = dput i ?s (db_runs (mg_db m))" "db_ledger (mg_db ?m1) = db_ledger (mg_db m)"
    using b fin(2-4) by simp_all
  obtain m2 where acc: "complete_accounting ?s ?m1 = (Inr (unlink ?s), m2)"
    "books (mg_admission m2) (mg_db m2)" "db_runs (mg_db m2) = dput i (unlink ?s) (db_runs (mg_db m))"
    "same_control ?m1 m2"
    "\<forall>rid c. rn_admission_reservation_id r = Some rid \<and> known_cost ?s = Some c \<longrightarrow>
       (\<exists>q\<in>set (db_ledger (mg_db m2)). ul_reservation_id q = rid \<and> ul_run_id q = i \<and>
         ul_state q = LedgerSettled \<and> ul_amount q = c)"
    by (rule complete_accounting_books [OF m1(1) r m1(2-4) link act ck])
  have "finalize now r f m = (Inr (unlink ?s), broadcast_persisted e m2)"
    by (simp add: finalize_def mbind_def st acc(1))
  moreover have "ended f r (unlink ?s)"
    using cost by (auto simp: ended_def unlink_def finalized_def)
  moreover have "same_control m m2" using acc(4) by (simp add: same_control_def)
  ultimately show thesis using acc(2,3,5) cost by (intro that [of "unlink ?s" "broadcast_persisted e m2"]) simp_all
qed

section \<open>Finalizations\<close>

lemma list_events_total:
  assumes "store_inv db"
  obtains es where "list_events_after db i n = Inr es" "list_all event_ok es"
proof -
  let ?es = "sort_key ev_seq (filter (\<lambda>e. n < ev_seq e) (run_events db i))"
  have "list_all event_ok ?es"
    using assms by (auto simp: store_inv_def events_inv_def run_events_def list_all_iff)
  from mapM_mk_event [OF this] that show thesis by (auto simp: list_events_after_def lift_store_def)
qed

definition final_ok :: "run_finalization \<Rightarrow> bool" where
  "final_ok f \<longleftrightarrow> valid_usage (fz_final_usage f) \<and> cost_ok (ru_cost_usd (fz_final_usage f))"

lemma recovered_cost_ok:
  "(case u of None \<Rightarrow> True | Some v \<Rightarrow> cost_ok (ru_cost_usd v)) \<Longrightarrow> cost_ok (ru_cost_usd (recovered_usage u es n))"
  by (auto simp: recovered_usage_def Let_def usage_zero_def cost_ok_def split: option.splits)

lemma inactive_finalization_total:
  assumes "books (mg_admission m) (mg_db m)" "dget (db_runs (mg_db m)) i = Some r"
  obtains f where "inactive_finalization r status code never m = (Inr f, m)" "fz_status f = status"
    "fz_error_code f = Some code" "final_ok f" "fz_stop_reason f = None"
    "fz_is_partial f \<longleftrightarrow> rn_status r \<noteq> Queued"
proof -
  obtain es where es: "list_events_after (mg_db m) (rn_run_id r) 0 = Inr es" "list_all event_ok es"
    by (rule list_events_total [OF booksD(1) [OF assms(1)]])
  note u = books_row(2) [OF assms]
  have c: "case rn_final_usage r of None \<Rightarrow> True | Some v \<Rightarrow> cost_ok (ru_cost_usd v)"
    using booksD(6) [OF assms] by (simp add: known_cost_def split: option.splits)
  let ?f = "\<lparr>fz_status = status, fz_stop_reason = None, fz_is_partial = (rn_status r \<noteq> Queued),
           fz_report_artifact_id = rn_report_artifact_id r,
           fz_evidence_graph_artifact_id = rn_evidence_graph_artifact_id r,
           fz_manifest_artifact_id = rn_manifest_artifact_id r,
           fz_final_usage = recovered_usage (rn_final_usage r) es (never \<or> rn_status r = Queued),
           fz_error_code = Some code\<rparr>"
  have "inactive_finalization r status code never m = (Inr ?f, m)"
    by (simp add: inactive_finalization_def es(1) recover_usage_Inr [OF u es(2)])
  then show thesis
    by (rule that) (simp_all add: final_ok_def recover_usage_valid [OF u es(2)] recovered_cost_ok [OF c])
qed

section \<open>Executing\<close>

definition result_ok :: "run_result option \<Rightarrow> bool" where
  "result_ok result \<longleftrightarrow> (case result of None \<Rightarrow> True
     | Some res \<Rightarrow> valid_usage (rr_final_usage res) \<and> cost_ok (ru_cost_usd (rr_final_usage res)))"

text \<open>A result that is of the run that was started, and terminal.\<close>

definition accepted :: "run_record \<Rightarrow> run_result option \<Rightarrow> run_result option" where
  "accepted r result = (case result of None \<Rightarrow> None
     | Some res \<Rightarrow> if rr_run_id res = rn_run_id r \<and> rr_thread_id res = rn_thread_id r \<and>
         rr_status res \<in> {Interrupted, Completed, Failed, Cancelled} then Some res else None)"

abbreviation terminal :: "run_status set" where
  "terminal \<equiv> {Interrupted, Completed, Failed, Cancelled}"

lemma runner_outcome_total:
  assumes "books (mg_admission m) (mg_db m)" "dget (db_runs (mg_db m)) i = Some r" "result_ok result"
  obtains f where "runner_outcome r result m = (Inr f, m)" "final_ok f" "fz_status f \<in> terminal"
    "case accepted r result of
       None \<Rightarrow> fz_status f = Failed \<and> fz_error_code f = Some ''INTERNAL_ERROR''
     | Some res \<Rightarrow> fz_status f = rr_status res \<and> fz_error_code f = rr_error_code res \<and>
         fz_stop_reason f = rr_stop_reason res \<and> fz_final_usage f = rr_final_usage res"
proof (cases "accepted r result")
  case None
  obtain f where f: "inactive_finalization r Failed ''INTERNAL_ERROR'' False m = (Inr f, m)" "fz_status f = Failed"
    "fz_error_code f = Some ''INTERNAL_ERROR''" "final_ok f"
    by (rule inactive_finalization_total [OF assms(1,2)])
  have "runner_outcome r result m = (Inr f, m)"
    using None f(1) by (auto simp: runner_outcome_def accepted_def from_result_def Let_def
        split: option.splits if_splits)
  with f None show thesis by (intro that [of f]) simp_all
next
  case (Some res)
  then have res: "result = Some res" "rr_run_id res = rn_run_id r" "rr_thread_id res = rn_thread_id r"
    "rr_status res \<in> terminal" by (auto simp: accepted_def split: option.splits if_splits)
  obtain f where f: "from_result res = Inr f" "fz_status f = rr_status res" "fz_error_code f = rr_error_code res"
    "fz_stop_reason f = rr_stop_reason res" "fz_final_usage f = rr_final_usage res"
    using res(4) by (auto simp: from_result_def)
  have "runner_outcome r result m = (Inr f, m)" using res f(1) by (simp add: runner_outcome_def Let_def)
  moreover have "final_ok f" using assms(3) res(1) f(5) by (simp add: result_ok_def final_ok_def)
  ultimately show thesis using f res(4) Some by (intro that [of f]) simp_all
qed

lemma recover_cost_total:
  assumes "store_inv (mg_db m)" "final_ok f"
  obtains f' where "recover_cost r f m = (Inr f', m)" "final_ok f'" "fz_status f' = fz_status f"
    "fz_error_code f' = fz_error_code f" "fz_stop_reason f' = fz_stop_reason f"
    "ru_cost_usd (fz_final_usage f') = ru_cost_usd (fz_final_usage f)"
proof (cases "ru_cost_usd (fz_final_usage f)")
  case None
  obtain es where es: "list_events_after (mg_db m) (rn_run_id r) 0 = Inr es" "list_all event_ok es"
    by (rule list_events_total [OF assms(1)])
  have v: "case Some (fz_final_usage f) of None \<Rightarrow> True | Some u \<Rightarrow> valid_usage u" using assms(2) by (simp add: final_ok_def)
  let ?f = "f\<lparr>fz_final_usage := recovered_usage (Some (fz_final_usage f)) es False\<rparr>"
  have c: "ru_cost_usd (fz_final_usage ?f) = None" using None by (simp add: recover_usage_cost)
  have "recover_cost r f m = (Inr ?f, m)"
    using None by (simp add: recover_cost_def es(1) recover_usage_Inr [OF v es(2)])
  moreover have "final_ok ?f" using recover_usage_valid [OF v es(2), of False] c by (simp add: final_ok_def cost_ok_def)
  ultimately show thesis using None c by (intro that [of ?f]) simp_all
qed (use assms(2) that [of f] in \<open>simp add: recover_cost_def\<close>)

lemma apply_pricing_total:
  assumes "final_ok f"
  obtains f' where "apply_pricing r f = Inr f'" "final_ok f'"
    "if rn_pricing_status r = Estimated \<and> ru_cost_usd (fz_final_usage f) = None
     then fz_status f' = Failed \<and> fz_error_code f' = Some ''PRICING_INCOMPLETE'' \<and> ru_cost_usd (fz_final_usage f') = None
     else fz_status f' = fz_status f \<and> fz_error_code f' = fz_error_code f \<and> fz_stop_reason f' = fz_stop_reason f \<and>
       ru_cost_usd (fz_final_usage f') =
         (if rn_pricing_status r = UnknownPricing then None else ru_cost_usd (fz_final_usage f))"
proof (cases "rn_pricing_status r = UnknownPricing")
  case True
  let ?u = "(fz_final_usage f)\<lparr>ru_cost_usd := None\<rparr>"
  have v: "valid_usage ?u" using assms by (simp add: final_ok_def valid_usage_def usage_fields_ok_def)
  then show thesis using True mk_usage_valid [OF v]
    by (intro that [of "f\<lparr>fz_final_usage := ?u\<rparr>"]) (simp_all add: apply_pricing_def final_ok_def cost_ok_def)
next
  case False
  then have est: "rn_pricing_status r = Estimated" by (cases "rn_pricing_status r") simp_all
  show thesis
  proof (cases "ru_cost_usd (fz_final_usage f) = None")
    case True
    let ?f = "f\<lparr>fz_status := Failed, fz_stop_reason := None, fz_error_code := Some ''PRICING_INCOMPLETE''\<rparr>"
    show thesis using True est assms by (intro that [of ?f]) (simp_all add: apply_pricing_def final_ok_def)
  next
    case False
    then show thesis using est assms by (intro that [of f]) (auto simp: apply_pricing_def)
  qed
qed

text \<open>The outcome of a task, as the requests and the result determine it.\<close>

definition outcome_ok :: "manager \<Rightarrow> run_record \<Rightarrow> run_result option \<Rightarrow> run_record \<Rightarrow> bool" where
  "outcome_ok m r result s \<longleftrightarrow>
     (if rn_run_id r \<in> mg_user_cancel m
      then rn_status s = Cancelled \<and> rn_error_code s = Some ''CANCELLED_BY_USER''
      else if rn_run_id r \<in> mg_shutdown m
      then rn_status s = Interrupted \<and> rn_is_partial s \<and> rn_error_code s = Some ''SERVICE_SHUTDOWN''
      else case accepted r result of
        None \<Rightarrow> rn_status s = Failed
      | Some res \<Rightarrow>
          if rn_pricing_status r = Estimated \<and> ru_cost_usd (rr_final_usage res) = None
          then rn_status s = Failed \<and> rn_error_code s = Some ''PRICING_INCOMPLETE''
          else rn_status s = rr_status res \<and> rn_error_code s = rr_error_code res \<and>
            rn_stop_reason s = rr_stop_reason res \<and>
            known_cost s = (if rn_pricing_status r = Estimated then ru_cost_usd (rr_final_usage res) else None)) \<and>
     (rn_pricing_status r = UnknownPricing \<longrightarrow> known_cost s = None) \<and>
     (rn_pricing_status r = Estimated \<and> rn_status s = Completed \<longrightarrow> known_cost s \<noteq> None) \<and>
     rn_status s \<in> terminal \<and> rn_run_id s = rn_run_id r \<and>
     rn_admission_reservation_id s = (if known_cost s = None then rn_admission_reservation_id r else None)"

lemma execute_ends:
  assumes b: "books (mg_admission m) (mg_db m)" and r: "dget (db_runs (mg_db m)) i = Some r" "rn_status r = Running"
    and ok: "result_ok result" "aware now"
  obtains s m' where "execute now r result m = (Inr s, forget i m')" "outcome_ok m r result s"
    "books (mg_admission m') (mg_db m')" "db_runs (mg_db m') = dput i s (db_runs (mg_db m))" "same_control m m'"
    "\<forall>rid c. rn_admission_reservation_id r = Some rid \<and> known_cost s = Some c \<longrightarrow>
       (\<exists>q\<in>set (db_ledger (mg_db m')). ul_reservation_id q = rid \<and> ul_run_id q = i \<and>
         ul_state q = LedgerSettled \<and> ul_amount q = c)"
proof -
  have id: "rn_run_id r = i" by (rule books_row [OF b r(1)])
  obtain f where f: "runner_outcome r result m = (Inr f, m)" "final_ok f" "fz_status f \<in> terminal"
    "case accepted r result of
       None \<Rightarrow> fz_status f = Failed \<and> fz_error_code f = Some ''INTERNAL_ERROR''
     | Some res \<Rightarrow> fz_status f = rr_status res \<and> fz_error_code f = rr_error_code res \<and>
         fz_stop_reason f = rr_stop_reason res \<and> fz_final_usage f = rr_final_usage res"
    by (rule runner_outcome_total [OF b r(1) ok(1)])
  obtain g where g: "recover_cost r f m = (Inr g, m)" "final_ok g" "fz_status g = fz_status f"
    "fz_error_code g = fz_error_code f" "fz_stop_reason g = fz_stop_reason f"
    "ru_cost_usd (fz_final_usage g) = ru_cost_usd (fz_final_usage f)"
    by (rule recover_cost_total [OF booksD(1) [OF b] f(2)])
  obtain h where h: "apply_pricing r g = Inr h" "final_ok h"
    "if rn_pricing_status r = Estimated \<and> ru_cost_usd (fz_final_usage g) = None
     then fz_status h = Failed \<and> fz_error_code h = Some ''PRICING_INCOMPLETE'' \<and> ru_cost_usd (fz_final_usage h) = None
     else fz_status h = fz_status g \<and> fz_error_code h = fz_error_code g \<and> fz_stop_reason h = fz_stop_reason g \<and>
       ru_cost_usd (fz_final_usage h) =
         (if rn_pricing_status r = UnknownPricing then None else ru_cost_usd (fz_final_usage g))"
    by (rule apply_pricing_total [OF g(2)])
  let ?k = "apply_stops m r h"
  have hs: "fz_status h \<in> terminal" using h(3) g(3) f(3) by (auto split: if_splits)
  then have k: "fz_status ?k \<in> set (terminal_targets (rn_status r))" "valid_usage (fz_final_usage ?k)"
    "cost_ok (ru_cost_usd (fz_final_usage ?k))"
    using h(2) r(2) by (auto simp: apply_stops_def final_ok_def)
  obtain s m1 where s: "finalize now r ?k m = (Inr s, m1)" "ended ?k r s" "books (mg_admission m1) (mg_db m1)"
    "db_runs (mg_db m1) = dput i s (db_runs (mg_db m))" "same_control m m1"
    "\<forall>rid c. rn_admission_reservation_id r = Some rid \<and> ru_cost_usd (fz_final_usage ?k) = Some c \<longrightarrow>
       (\<exists>q\<in>set (db_ledger (mg_db m1)). ul_reservation_id q = rid \<and> ul_run_id q = i \<and>
         ul_state q = LedgerSettled \<and> ul_amount q = c)"
    by (rule finalize_books [OF b r(1) k ok(2)])
  have kc: "known_cost s = ru_cost_usd (fz_final_usage ?k)" using s(2) by (simp add: ended_def known_cost_def)
  have fin: "ru_cost_usd (fz_final_usage ?k) = ru_cost_usd (fz_final_usage h)" by (simp add: apply_stops_def)
  have "execute now r result m = (Inr s, forget i m1)"
    by (simp add: execute_def mbind_def f(1) execute_locked_def g(1) h(1) s(1) id)
  moreover have "outcome_ok m r result s"
    unfolding outcome_ok_def kc
    using s(2) h(3) g(3-6) f(3,4) hs
    by (cases "rn_pricing_status r"; cases "accepted r result") (auto simp: ended_def apply_stops_def split: if_splits)
  ultimately show thesis using s(2-6) kc by (intro that [of s m1]) simp_all
qed

section \<open>Runs that start, and accounting repeated\<close>

lemma books_active:
  assumes b: "books adm db" and r: "dget (db_runs db) i = Some r" "active r"
    and db': "store_inv db'" "db_runs db' = dput i s (db_runs db)" "db_ledger db' = db_ledger db"
    and s: "active s" "rn_admission_reservation_id s = rn_admission_reservation_id r" "known_cost s = known_cost r"
  shows "books adm db'"
proof -
  have look: "dget (db_runs db') j = Some q \<longleftrightarrow> (if j = i then q = s else dget (db_runs db) j = Some q)" for j q
    using r by (auto simp: db'(2))
  have lk: "linked db' j rid \<longleftrightarrow> linked db j rid" for j rid
    using r s(2) by (cases "j = i") (simp_all add: linked_def look)
  have res: "reserved db' j rid \<longleftrightarrow> reserved db j rid" for j rid by (simp add: reserved_def db'(3))
  have own: "ledger_owner db' = ledger_owner db" by (simp add: ledger_owner_def fun_eq_iff db'(3))
  show ?thesis
  proof (rule booksI [OF db'(1)])
    show "limits_ok adm db'" using booksD(2) [OF b] own lk by (simp add: limits_ok_def split: option.splits)
    show "linked db' j rid \<longleftrightarrow> reserved db' j rid" for j rid using booksD(3) [OF b] lk res by blast
  next
    fix rid assume "rid \<in> leases adm"
    from booksD(4) [OF b this] obtain j q where q: "dget (db_runs db) j = Some q" "active q"
      "rn_admission_reservation_id q = Some rid" by blast
    then show "\<exists>i r. dget (db_runs db') i = Some r \<and> active r \<and> rn_admission_reservation_id r = Some rid"
      using r s by (cases "j = i") (auto simp: look)
  next
    fix j q assume q: "dget (db_runs db') j = Some q"
    show "cost_ok (known_cost q)"
      using q booksD(6) [OF b] r s(3) by (auto simp: look split: if_splits)
    assume "\<not> active q" "rn_admission_reservation_id q \<noteq> None"
    then show "known_cost q = None" using q s(1) booksD(5) [OF b] by (auto simp: look split: if_splits)
  qed
qed

lemma complete_again:
  assumes b: "books (mg_admission m) (mg_db m)" and r: "dget (db_runs (mg_db m)) i = Some r" "\<not> active r"
  shows "complete_accounting r m = (Inr r, m)"
proof (cases "rn_admission_reservation_id r")
  case (Some rid)
  then have c: "known_cost r = None" using booksD(5) [OF b r] by simp
  have lk: "linked (mg_db m) i rid" using r(1) Some by (simp add: linked_def)
  obtain lm where lm: "mg_admission m = Some lm"
    using booksD(2) [OF b] lk by (cases "mg_admission m") (auto simp: limits_ok_def)
  have "rid \<notin> leases (mg_admission m)"
  proof
    assume "rid \<in> leases (mg_admission m)"
    from booksD(4) [OF b this] obtain j q where "dget (db_runs (mg_db m)) j = Some q" "active q"
      "rn_admission_reservation_id q = Some rid" by blast
    moreover from this have "j = i" by (intro linked_unique [OF b _ lk]) (auto simp: linked_def)
    ultimately show False using r by simp
  qed
  then have "release_local lm rid = Inr lm" by (simp add: lm leases_def release_local_def)
  then show ?thesis
    using Some c lm by (simp add: complete_accounting_def mbind_def madmission_def defer_settlement_def finish_with_def)
qed (simp add: complete_accounting_def)

lemma broadcast_terminal_total:
  assumes "store_inv (mg_db m)"
  obtains m' where "broadcast_terminal r m = (Inr (), m')" "mg_admission m' = mg_admission m"
    "mg_db m' = mg_db m" "same_control m m'"
proof -
  obtain es where es: "list_events_after (mg_db m) (rn_run_id r) 0 = Inr es" by (rule list_events_total [OF assms])
  let ?f = "List.find (\<lambda>e. ev_kind e = ''run_'' @ status_value (rn_status r) \<and> ev_status e = rn_status r) (rev es)"
  have "broadcast_terminal r m = (Inr (), case ?f of None \<Rightarrow> m | Some e \<Rightarrow> broadcast_persisted e m)"
    by (simp add: es broadcast_terminal_def split: option.split)
  then show thesis by (rule that) (simp_all split: option.split)
qed

section \<open>Tasks\<close>

definition phase_ok :: "database \<Rightarrow> string \<Rightarrow> task_phase \<Rightarrow> bool" where
  "phase_ok db i ph \<longleftrightarrow> (\<exists>r. dget (db_runs db) i = Some r \<and>
     (case ph of TaskCreated q \<Rightarrow> rn_run_id q = i \<and> rn_status r \<noteq> Running
      | TaskExecuting q \<Rightarrow> q = r \<and> rn_status r = Running
      | TaskRecovering q \<Rightarrow> rn_run_id q = i \<and> rn_status r \<noteq> Running))"

definition tasks_inv :: "manager \<Rightarrow> bool" where
  "tasks_inv m \<longleftrightarrow>
     (\<forall>i r. dget (db_runs (mg_db m)) i = Some r \<and> active r \<longrightarrow> dget (mg_tasks m) i \<noteq> None) \<and>
     (\<forall>i ph. dget (mg_tasks m) i = Some ph \<longrightarrow> dget (mg_tokens m) i \<noteq> None \<and> phase_ok (mg_db m) i ph)"

definition manager_inv :: "manager \<Rightarrow> bool" where
  "manager_inv m \<longleftrightarrow> books (mg_admission m) (mg_db m) \<and> tasks_inv m"

lemma tasks_invD:
  assumes "tasks_inv m"
  shows "\<And>i r. dget (db_runs (mg_db m)) i = Some r \<Longrightarrow> active r \<Longrightarrow> dget (mg_tasks m) i \<noteq> None"
    "\<And>i ph. dget (mg_tasks m) i = Some ph \<Longrightarrow> dget (mg_tokens m) i \<noteq> None"
    "\<And>i ph. dget (mg_tasks m) i = Some ph \<Longrightarrow> phase_ok (mg_db m) i ph"
  using assms unfolding tasks_inv_def by blast+

text \<open>An operation on one run leaves the tasks of all others alone.\<close>

lemma tasks_change:
  assumes t: "tasks_inv m"
    and runs: "\<And>j. j \<noteq> i \<Longrightarrow> dget (db_runs (mg_db m')) j = dget (db_runs (mg_db m)) j"
    and tasks: "\<And>j. j \<noteq> i \<Longrightarrow> dget (mg_tasks m') j = dget (mg_tasks m) j"
    and toks: "\<And>j. j \<noteq> i \<Longrightarrow> dget (mg_tokens m) j \<noteq> None \<Longrightarrow> dget (mg_tokens m') j \<noteq> None"
    and here: "\<And>r. dget (db_runs (mg_db m')) i = Some r \<Longrightarrow> active r \<Longrightarrow> dget (mg_tasks m') i \<noteq> None"
      "\<And>ph. dget (mg_tasks m') i = Some ph \<Longrightarrow> dget (mg_tokens m') i \<noteq> None \<and> phase_ok (mg_db m') i ph"
  shows "tasks_inv m'"
proof -
  have "dget (mg_tasks m') j \<noteq> None" if "dget (db_runs (mg_db m')) j = Some r" "active r" for j r
    using that here(1) runs tasks tasks_invD(1) [OF t, of j r] by (cases "j = i") auto
  moreover have "dget (mg_tokens m') j \<noteq> None \<and> phase_ok (mg_db m') j ph" if "dget (mg_tasks m') j = Some ph" for j ph
  proof (cases "j = i")
    case False
    then have "dget (mg_tasks m) j = Some ph" using tasks that by simp
    then show ?thesis using tasks_invD(2,3) [OF t] toks [OF False] runs [OF False] by (simp add: phase_ok_def)
  qed (use here(2) that in simp)
  ultimately show ?thesis unfolding tasks_inv_def by blast
qed

lemma dget_drop [simp]: "dget (filter (\<lambda>(j, _). j \<noteq> i) d) k = (if k = i then None else dget d k)"
  by (induction d) auto

lemma forget_simps [simp]:
  "dget (mg_tasks (forget i m)) j = (if j = i then None else dget (mg_tasks m) j)"
  "j \<noteq> i \<Longrightarrow> dget (mg_tokens (forget i m)) j = dget (mg_tokens m) j"
  "mg_admission (forget i m) = mg_admission m" "mg_db (forget i m) = mg_db m"
  by (simp_all add: forget_def)

text \<open>The end of one run, with and without the end of its task.\<close>

lemma end_forget:
  assumes "tasks_inv m" "db_runs (mg_db m') = dput i s (db_runs (mg_db m))" "same_control m m'" "\<not> active s"
  shows "tasks_inv (forget i m')"
  by (rule tasks_change [OF assms(1), of i]) (use assms(2-4) in \<open>auto simp: same_control_def\<close>)

lemma end_idle:
  assumes "tasks_inv m" "db_runs (mg_db m') = dput i s (db_runs (mg_db m))" "same_control m m'" "\<not> active s"
    and r: "dget (db_runs (mg_db m)) i = Some r" "rn_status r \<noteq> Running"
  shows "tasks_inv m'"
proof (rule tasks_change [OF assms(1), of i])
  fix ph assume "dget (mg_tasks m') i = Some ph"
  then have ph: "dget (mg_tasks m) i = Some ph" using assms(3) by (simp add: same_control_def)
  have "rn_status s \<noteq> Running" using assms(4) by (simp add: active_def)
  then show "dget (mg_tokens m') i \<noteq> None \<and> phase_ok (mg_db m') i ph"
    using tasks_invD(2,3) [OF assms(1) ph] assms(2,3) r
    by (auto simp: same_control_def phase_ok_def split: task_phase.splits)
qed (use assms(2-4) in \<open>auto simp: same_control_def\<close>)

lemma finalize_inv:
  assumes "manager_inv m" "dget (db_runs (mg_db m)) i = Some r" "rn_status r \<noteq> Running" "aware now"
    and "fz_status f \<in> set (terminal_targets (rn_status r))" "final_ok f"
  obtains s m' where "finalize now r f m = (Inr s, m')" "manager_inv m'" "tasks_inv (forget i m')" "ended f r s"
    "db_runs (mg_db m') = dput i s (db_runs (mg_db m))" "same_control m m'"
proof -
  have b: "books (mg_admission m) (mg_db m)" and t: "tasks_inv m" using assms(1) by (simp_all add: manager_inv_def)
  have f: "valid_usage (fz_final_usage f)" "cost_ok (ru_cost_usd (fz_final_usage f))"
    using assms(6) by (simp_all add: final_ok_def)
  obtain s m' where s: "finalize now r f m = (Inr s, m')" "ended f r s" "books (mg_admission m') (mg_db m')"
    "db_runs (mg_db m') = dput i s (db_runs (mg_db m))" "same_control m m'"
    by (rule finalize_books [OF b assms(2,5) f assms(4)])
  have act: "\<not> active s" using terminal_target_inactive [OF assms(5)] s(2) by (simp add: ended_def active_def)
  show thesis
    using that [OF s(1) _ end_forget [OF t s(4,5) act] s(2,4,5)] end_idle [OF t s(4,5) act assms(2,3)] s(3)
    by (simp add: manager_inv_def)
qed

end
