(* ===== verification/Run_Manager_Steps.thy ===== *)
theory Run_Manager_Steps
  imports Run_Manager_Correct
begin

text \<open>
  Every operation of the run manager keeps its books and its tasks in order, and the relation of
  the states a service reaches by creating, starting, executing, recovering, cancelling and
  shutting down runs in any order, with the properties of the manager over it.
\<close>

lemma manager_invD:
  assumes "manager_inv m"
  shows "books (mg_admission m) (mg_db m)" "tasks_inv m"
  using assms by (simp_all add: manager_inv_def)

lemma set_phase_simps [simp]:
  "dget (mg_tasks (set_phase i ph m)) j = (if j = i then Some ph else dget (mg_tasks m) j)"
  "mg_tokens (set_phase i ph m) = mg_tokens m" "mg_admission (set_phase i ph m) = mg_admission m"
  "mg_db (set_phase i ph m) = mg_db m"
  by (simp_all add: set_phase_def)

text \<open>Fields of the manager the invariant does not read.\<close>

lemma manager_inv_cong:
  assumes "manager_inv m" "mg_admission m' = mg_admission m" "mg_db m' = mg_db m" "mg_tasks m' = mg_tasks m"
    and "\<And>j. dget (mg_tokens m) j \<noteq> None \<Longrightarrow> dget (mg_tokens m') j \<noteq> None"
  shows "manager_inv m'"
  using assms unfolding manager_inv_def tasks_inv_def by simp

section \<open>Starting and recovering\<close>

lemma start_transition:
  assumes b: "books adm db" and r: "dget (db_runs db) i = Some r" "rn_status r = Queued"
  defines "s \<equiv> r\<lparr>rn_status := Running, rn_version := rn_version r + 1\<rparr>"
  shows "store_transition db i Queued Running = Inr (s, db\<lparr>db_runs := dput i s (db_runs db)\<rparr>)"
    "books adm (db\<lparr>db_runs := dput i s (db_runs db)\<rparr>)"
proof -
  have id: "rn_run_id r = i" by (rule books_row [OF b r(1)])
  show st: "store_transition db i Queued Running = Inr (s, db\<lparr>db_runs := dput i s (db_runs db)\<rparr>)"
    using r id by (simp add: store_transition_def nonterminal_pairs_def require_run_def cas_def Let_def s_def)
  show "books adm (db\<lparr>db_runs := dput i s (db_runs db)\<rparr>)"
    by (rule books_active [OF b r(1) _ transition_inv [OF st booksD(1) [OF b]], where s = s])
      (simp_all add: s_def active_def r(2) known_cost_def)
qed

lemma start_inv:
  assumes inv: "manager_inv m" and t: "dget (mg_tasks m) i = Some (TaskCreated q)"
  shows "manager_inv (start i q m)"
    "dget (mg_tasks (start i q m)) i = None \<and> (\<exists>r. dget (db_runs (mg_db (start i q m))) i = Some r \<and> \<not> active r) \<or>
     dget (mg_tasks (start i q m)) i = Some (TaskRecovering q) \<or>
     (\<exists>r. dget (mg_tasks (start i q m)) i = Some (TaskExecuting r))"
proof -
  note b = manager_invD(1) [OF inv] and ti = manager_invD(2) [OF inv]
  from tasks_invD(3) [OF ti t] obtain r where r: "dget (db_runs (mg_db m)) i = Some r" "rn_run_id q = i"
    "rn_status r \<noteq> Running" by (auto simp: phase_ok_def)
  note tok = tasks_invD(2) [OF ti t]
  have "manager_inv (start i q m) \<and>
    (dget (mg_tasks (start i q m)) i = None \<and> (\<exists>r. dget (db_runs (mg_db (start i q m))) i = Some r \<and> \<not> active r) \<or>
     dget (mg_tasks (start i q m)) i = Some (TaskRecovering q) \<or>
     (\<exists>r. dget (mg_tasks (start i q m)) i = Some (TaskExecuting r)))"
  proof (cases "rn_status r = Queued")
    case False
    then have st: "start i q m = forget i m" using r(1) by (simp add: start_def get_run_def)
    have "tasks_inv (forget i m)"
      by (rule tasks_change [OF ti, of i]) (use r False in \<open>auto simp: active_def\<close>)
    then show ?thesis using b r False by (simp add: st manager_inv_def active_def)
  next
    case True
    show ?thesis
    proof (cases "case dget (mg_tokens m) i of Some t \<Rightarrow> is_cancelled t | None \<Rightarrow> False")
      case c: True
      then have st: "start i q m = set_phase i (TaskRecovering q) m"
        using r(1) True by (simp add: start_def get_run_def)
      have "tasks_inv (set_phase i (TaskRecovering q) m)"
        by (rule tasks_change [OF ti, of i]) (use r tok in \<open>auto simp: phase_ok_def\<close>)
      then show ?thesis using b by (simp add: st manager_inv_def)
    next
      case c: False
      let ?s = "r\<lparr>rn_status := Running, rn_version := rn_version r + 1\<rparr>"
      let ?m = "m\<lparr>mg_db := (mg_db m)\<lparr>db_runs := dput i ?s (db_runs (mg_db m))\<rparr>\<rparr>"
      note tr = start_transition [OF b r(1) True]
      have st: "start i q m = set_phase i (TaskExecuting ?s) ?m"
        using r(1) True c tr(1) by (simp add: start_def get_run_def mstore_def)
      have "tasks_inv (set_phase i (TaskExecuting ?s) ?m)"
        by (rule tasks_change [OF ti, of i]) (use tok in \<open>auto simp: phase_ok_def\<close>)
      then show ?thesis using tr(2) by (simp add: st manager_inv_def)
    qed
  qed
  then show "manager_inv (start i q m)"
    "dget (mg_tasks (start i q m)) i = None \<and> (\<exists>r. dget (db_runs (mg_db (start i q m))) i = Some r \<and> \<not> active r) \<or>
     dget (mg_tasks (start i q m)) i = Some (TaskRecovering q) \<or>
     (\<exists>r. dget (mg_tasks (start i q m)) i = Some (TaskExecuting r))" by simp_all
qed

lemma recover_ends:
  assumes inv: "manager_inv m" and t: "dget (mg_tasks m) i = Some (TaskRecovering q)" and now: "aware now"
  obtains s m' where "recover_start now q m = (Inr (), m')" "manager_inv m'" "dget (mg_tasks m') i = None"
    "dget (db_runs (mg_db m')) i = Some s" "\<not> active s"
    "i \<in> mg_user_cancel m \<longrightarrow> (\<forall>r. dget (db_runs (mg_db m)) i = Some r \<and> active r \<longrightarrow> rn_status s = Cancelled)"
proof -
  note b = manager_invD(1) [OF inv] and ti = manager_invD(2) [OF inv]
  from tasks_invD(3) [OF ti t] obtain r where r: "dget (db_runs (mg_db m)) i = Some r" "rn_run_id q = i"
    "rn_status r \<noteq> Running" by (auto simp: phase_ok_def)
  have id: "rn_run_id r = i" by (rule books_row [OF b r(1)])
  show thesis
  proof (cases "rn_status r = Queued")
    case True
    let ?st = "if i \<in> mg_user_cancel m then Cancelled else Interrupted"
    obtain f where f: "inactive_finalization r ?st (recover_code m i) True m = (Inr f, m)"
      "fz_status f = ?st" "final_ok f" by (rule inactive_finalization_total [OF b r(1)])
    have tg: "fz_status f \<in> set (terminal_targets (rn_status r))" using True f(2) by simp
    obtain s m1 where s: "finalize now r f m = (Inr s, m1)" "manager_inv m1" "tasks_inv (forget i m1)" "ended f r s"
      "db_runs (mg_db m1) = dput i s (db_runs (mg_db m))"
      by (rule finalize_inv [OF inv r(1,3) now tg f(3)])
    have "recover_start now q m = (Inr (), forget i m1)"
      using True r f(1) s(1) id by (simp add: recover_start_def recover_round_def get_run_def mbind_def)
    moreover have "manager_inv (forget i m1)" using s(2,3) by (simp add: manager_inv_def)
    ultimately show thesis using s(4,5) f(2)
      by (intro that [of "forget i m1" s]) (auto simp: ended_def active_def)
  next
    case False
    then have act: "\<not> active r" using r(3) by (simp add: active_def)
    obtain m1 where m1: "broadcast_terminal r m = (Inr (), m1)" "mg_admission m1 = mg_admission m"
      "mg_db m1 = mg_db m" "same_control m m1" by (rule broadcast_terminal_total [OF booksD(1) [OF b]])
    have "recover_start now q m = (Inr (), forget i m1)"
      using False r m1(1) complete_again [OF b r(1) act]
      by (simp add: recover_start_def recover_round_def get_run_def mbind_def)
    moreover have "tasks_inv (forget i m1)"
      by (rule tasks_change [OF ti, of i]) (use m1 r act in \<open>auto simp: same_control_def\<close>)
    ultimately show thesis using b m1(2,3) r(1) act
      by (intro that [of "forget i m1" r]) (simp_all add: manager_inv_def)
  qed
qed

section \<open>Cancelling and shutting down\<close>

lemma cancel_run_token_simps [simp]:
  "mg_admission (cancel_run_token i m) = mg_admission m" "mg_db (cancel_run_token i m) = mg_db m"
  "mg_tasks (cancel_run_token i m) = mg_tasks m"
  "dget (mg_tokens m) j \<noteq> None \<Longrightarrow> dget (mg_tokens (cancel_run_token i m)) j \<noteq> None"
  by (auto simp: cancel_run_token_def split: option.splits)

lemma request_cancel_inv: "manager_inv m \<Longrightarrow> manager_inv (request_cancel i m)"
  by (erule manager_inv_cong) (auto simp: request_cancel_def cancel_run_token_def split: option.splits)

lemma owned_row:
  assumes "books (mg_admission m) (mg_db m)" "owned m i scope = Inr r"
  shows "dget (db_runs (mg_db m)) i = Some r"
proof -
  from assms(2) have "List.find (\<lambda>r. rn_run_id r = i \<and> rn_owner_scope_sha256 r = scope)
      (dvalues (db_runs (mg_db m))) = Some r"
    by (simp add: owned_def get_owned_run_def split: option.splits)
  from find_SomeD [OF this] have r: "r \<in> set (dvalues (db_runs (mg_db m)))" "rn_run_id r = i" by simp_all
  have d: "distinct (dkeys (db_runs (mg_db m)))"
    using booksD(1) [OF assms(1)] by (simp add: store_inv_def runs_inv_def)
  from r(1) obtain k where k: "dget (db_runs (mg_db m)) k = Some r" unfolding dvalues_dget [OF d] ..
  from books_row(1) [OF assms(1) k] r(2) k show ?thesis by simp
qed

lemma idle_end_inv:
  assumes inv: "manager_inv m" and r: "dget (db_runs (mg_db m)) i = Some r" and now: "aware now"
    and t: "t \<in> set (terminal_targets (rn_status r))" "rn_status r \<noteq> Running"
  obtains f s m' where "inactive_finalization r t code never m = (Inr f, m)" "finalize now r f m = (Inr s, m')"
    "manager_inv m'" "ended f r s" "fz_status f = t"
    "db_runs (mg_db m') = dput i s (db_runs (mg_db m))"
proof -
  obtain f where f: "inactive_finalization r t code never m = (Inr f, m)" "fz_status f = t" "final_ok f"
    by (rule inactive_finalization_total [OF manager_invD(1) [OF inv] r])
  have tg: "fz_status f \<in> set (terminal_targets (rn_status r))" using t(1) f(2) by simp
  obtain s m' where "finalize now r f m = (Inr s, m')" "manager_inv m'" "ended f r s"
    "db_runs (mg_db m') = dput i s (db_runs (mg_db m))"
    by (rule finalize_inv [OF inv r t(2) now tg f(3)])
  with f show thesis by (intro that)
qed

lemma cancel_inv:
  assumes inv: "manager_inv m" and now: "aware now" and c: "cancel now i scope m = (res, m')"
  shows "manager_inv m'"
proof (cases "owned m i scope")
  case (Inl e)
  with c inv show ?thesis by (simp add: cancel_def)
next
  case (Inr r)
  note b = manager_invD(1) [OF inv]
  note row = owned_row [OF b Inr]
  show ?thesis
  proof (cases "rn_status r = Cancelled")
    case True
    then have act: "\<not> active r" by (simp add: active_def)
    obtain m1 where m1: "broadcast_terminal r m = (Inr (), m1)" "mg_admission m1 = mg_admission m"
      "mg_db m1 = mg_db m" "same_control m m1" by (rule broadcast_terminal_total [OF booksD(1) [OF b]])
    have "m' = m1" using c Inr True m1(1) complete_again [OF b row act] by (simp add: cancel_def mbind_def)
    with inv m1 show ?thesis by (auto simp: same_control_def elim: manager_inv_cong)
  next
    case nc: False
    show ?thesis
    proof (cases "validate_cancel (rn_status r)")
      case e: (Inl e)
      with c Inr nc inv show ?thesis by (simp add: cancel_def)
    next
      case ok: (Inr u)
      show ?thesis
      proof (cases "rn_status r = Running")
        case True
        with c Inr nc ok inv request_cancel_inv [OF inv] show ?thesis by (auto simp: cancel_def split: if_splits)
      next
        case False
        define m1 where "m1 = (if rn_status r = Queued \<and> dget (mg_tokens m) i \<noteq> None then request_cancel i m else m)"
        have inv1: "manager_inv m1" using inv request_cancel_inv by (simp add: m1_def)
        have db1: "mg_db m1 = mg_db m" by (simp add: m1_def request_cancel_def)
        have t: "Cancelled \<in> set (terminal_targets (rn_status r))"
          using ok nc False by (cases "rn_status r") (auto simp: validate_cancel_def res_simps transition_Inr)
        obtain f s m2 where "inactive_finalization r Cancelled ''CANCELLED_BY_USER'' False m1 = (Inr f, m1)"
          "finalize now r f m1 = (Inr s, m2)" "manager_inv m2"
          by (rule idle_end_inv [OF inv1 row [folded db1] now t False])
        with c Inr nc ok False show ?thesis by (simp add: cancel_def mbind_def m1_def [symmetric] del: not_None_eq)
      qed
    qed
  qed
qed

lemma shutdown_inv:
  assumes inv: "manager_inv m" and now: "aware now" and c: "shutdown_run now i m = (res, m')"
  shows "manager_inv m'"
proof (cases "get_run (mg_db m) i")
  case None
  with c inv show ?thesis by (simp add: shutdown_run_def)
next
  case (Some r)
  define m1 where "m1 = (if i \<in> mg_user_cancel m then m else m\<lparr>mg_shutdown := insert i (mg_shutdown m)\<rparr>)"
  define m2 where "m2 = cancel_run_token i m1"
  have inv1: "manager_inv m1" by (rule manager_inv_cong [OF inv]) (simp_all add: m1_def)
  have inv2: "manager_inv m2" unfolding m2_def by (rule manager_inv_cong [OF inv1]) simp_all
  have db2: "mg_db m2 = mg_db m" by (simp add: m2_def m1_def)
  show ?thesis
  proof (cases "rn_status r = Queued \<and> dget (mg_tokens m) i \<noteq> None")
    case True
    have row: "dget (db_runs (mg_db m2)) i = Some r" using Some db2 by (simp add: get_run_def)
    obtain f s m3 where "inactive_finalization r Interrupted ''SERVICE_SHUTDOWN'' False m2 = (Inr f, m2)"
      "finalize now r f m2 = (Inr s, m3)" "manager_inv m3"
      by (rule idle_end_inv [OF inv2 row now]) (use True in auto)
    with c Some True show ?thesis
      by (simp add: shutdown_run_def mbind_def Let_def m1_def [symmetric] m2_def [symmetric])
  next
    case False
    have "m' \<in> {m, m1, m2}"
      using c Some False by (auto simp: shutdown_run_def Let_def m1_def [symmetric] m2_def [symmetric] split: if_splits)
    with inv inv1 inv2 show ?thesis by auto
  qed
qed

section \<open>Creating\<close>

text \<open>An admission for a run the books do not know yet adds at most one lease, with its reservation.\<close>

lemma admit_fresh:
  assumes b: "books (Some lm) db" and fresh: "dget (db_runs db) run = None" and ck: "clocks_ok inp"
    and a: "admit sql_cost_ops lm db inp run ip s profile cost = (res, lm', db')"
  defines "adm \<equiv> case res of Inl _ \<Rightarrow> no_admission | Inr x \<Rightarrow> x"
  shows "store_inv db' \<and> admissions_inv (ledger_owner db') lm' \<and> db_runs db' = db_runs db \<and>
    lm_run_leases lm' = lm_run_leases lm \<union> {q. ad_reservation_id adm = Some q} \<and>
    (\<forall>j q. reserved db' j q \<longleftrightarrow> reserved db j q \<or> j = run \<and> ad_reservation_id adm = Some q)"
proof -
  have inv: "admissions_inv (ledger_owner db) lm" "store_inv db"
    using booksD(1,2) [OF b] by (simp_all add: limits_ok_def)
  note keeps = sql_costs.admit_keeps [OF a ck inv(2,1)]
  have no_open: "dget (lm_admissions lm) run = None"
  proof (rule ccontr)
    assume "dget (lm_admissions lm) run \<noteq> None"
    then obtain x where x: "dget (lm_admissions lm) run = Some x" by blast
    then obtain rid where rid: "ad_reservation_id x = Some rid" "ledger_owner db rid = Some run" "rid \<in> lm_run_leases lm"
      using inv(1) unfolding admissions_inv_def by blast
    have "rid \<in> leases (Some lm)" using rid(3) by (simp add: leases_def)
    from booksD(4) [OF b this] obtain j q where "dget (db_runs db) j = Some q"
      "rn_admission_reservation_id q = Some rid" by blast
    then have "linked db j rid" by (auto simp: linked_def)
    from linked_owner [OF b this] rid(2) have "j = run" by simp
    with \<open>dget (db_runs db) j = Some q\<close> fresh show False by simp
  qed
  have unreserved: "\<not> reserved db run q" for q
    using booksD(3) [OF b, of run q] fresh by (auto simp: linked_def)
  consider "(res = Inr no_admission \<or> isl res) \<and> lm' = lm \<and> db' = db"
    | "admit_locked sql_cost_ops lm db inp run ip s cost = (res, lm', db')"
    using a no_open by (auto simp: admit_def Let_def split: if_splits option.splits)
  then show ?thesis
  proof cases
    case 1
    then have "ad_reservation_id adm = None" by (cases res) (auto simp: adm_def no_admission_def)
    with 1 inv show ?thesis by simp
  next
    case 2
    have bk: "buckets_ok (lm_ip_buckets lm)" "buckets_ok (lm_session_buckets lm)" "0 \<le> cg_active (lm_runs lm)"
      using inv(1) by (simp_all add: admissions_inv_def)
    from 2 ck bk show ?thesis
    proof (cases rule: admit_locked_cases)
      case (failed e)
      with keeps show ?thesis by (simp add: adm_def no_admission_def same_books_def)
    next
      case (undone e x)
      from undone(6) have "reserve_daily_cost (in_uuid inp) db (utc_day (in_utc inp)) run cost (lm_daily_limit lm) = Inr (x, db')"
        by (simp add: sql_cost_ops_def)
      from reserve_owner [OF inv(2) this] undone(5) show ?thesis by simp
    next
      case (admitted x rid)
      from admitted(3) have rs: "reserve_daily_cost (in_uuid inp) db (utc_day (in_utc inp)) run cost (lm_daily_limit lm) = Inr (x, db')"
        by (simp add: sql_cost_ops_def)
      from rs inv(2) show ?thesis
      proof (cases rule: reserve_cost_cases)
        case (old r)
        with unreserved show ?thesis by (auto simp: reserved_def)
      next
        case (new r)
        have x: "ad_reservation_id adm = Some (in_uuid inp)" "rid = in_uuid inp"
          using admitted(1,2) new(3) by (simp_all add: adm_def)
        have "reserved db' j q \<longleftrightarrow> reserved db j q \<or> j = run \<and> ad_reservation_id adm = Some q" for j q
          using x(1) by (auto simp: reserved_def new(1,2))
        moreover have "db_runs db' = db_runs db" by (simp add: new(2))
        ultimately show ?thesis using keeps admitted(6) x by auto
      qed
    qed
  qed
qed

lemma books_create:
  assumes b: "books adm db" and fresh: "dget (db_runs db) i = None"
    and db': "store_inv db'" "db_runs db' = db_runs db @ [(i, r)]" and r: "active r" "cost_ok (known_cost r)"
    and lim: "limits_ok adm' db'" "leases adm' = leases adm \<union> {q. rn_admission_reservation_id r = Some q}"
    and led: "\<And>j q. reserved db' j q \<longleftrightarrow> reserved db j q \<or> j = i \<and> rn_admission_reservation_id r = Some q"
  shows "books adm' db'"
proof -
  have look: "dget (db_runs db') j = (if j = i then Some r else dget (db_runs db) j)" for j
    using fresh by (auto simp: db'(2) map_add_def split: option.splits)
  have lk: "linked db' j q \<longleftrightarrow> linked db j q \<or> j = i \<and> rn_admission_reservation_id r = Some q" for j q
    using fresh by (cases "j = i") (simp_all add: linked_def look)
  show ?thesis
  proof (rule booksI [OF db'(1) lim(1)])
    show "linked db' j q \<longleftrightarrow> reserved db' j q" for j q using booksD(3) [OF b] lk led by blast
  next
    fix q assume "q \<in> leases adm'"
    then consider "q \<in> leases adm" | "rn_admission_reservation_id r = Some q" using lim(2) by auto
    then show "\<exists>i r. dget (db_runs db') i = Some r \<and> active r \<and> rn_admission_reservation_id r = Some q"
    proof cases
      case 1
      from booksD(4) [OF b 1] obtain j p where p: "dget (db_runs db) j = Some p" "active p"
        "rn_admission_reservation_id p = Some q" by blast
      with fresh have "dget (db_runs db') j = Some p" by (auto simp: look)
      with p(2,3) show ?thesis by blast
    next
      case 2
      with r(1) show ?thesis by (intro exI [of _ i] exI [of _ r]) (simp add: look)
    qed
  next
    fix j p assume p: "dget (db_runs db') j = Some p"
    show "cost_ok (known_cost p)" using p r(2) booksD(6) [OF b] by (auto simp: look split: if_splits)
    assume "\<not> active p" "rn_admission_reservation_id p \<noteq> None"
    then show "known_cost p = None" using p r(1) booksD(5) [OF b] by (auto simp: look split: if_splits)
  qed
qed

lemma madmission_fresh:
  assumes b: "books (mg_admission m) (mg_db m)" and fresh: "dget (db_runs (mg_db m)) run = None" and ck: "clocks_ok inp"
    and a: "madmission no_admission (\<lambda>lm db. admit sql_cost_ops lm db inp run ip s profile cost) m = (res, m')"
  defines "adm \<equiv> case res of Inl _ \<Rightarrow> no_admission | Inr x \<Rightarrow> x"
  shows "store_inv (mg_db m') \<and> (case mg_admission m' of None \<Rightarrow> mg_admission m = None \<and> ad_reservation_id adm = None
       | Some lm \<Rightarrow> admissions_inv (ledger_owner (mg_db m')) lm) \<and>
    db_runs (mg_db m') = db_runs (mg_db m) \<and> same_control m m' \<and>
    leases (mg_admission m') = leases (mg_admission m) \<union> {q. ad_reservation_id adm = Some q} \<and>
    (\<forall>j q. reserved (mg_db m') j q \<longleftrightarrow> reserved (mg_db m) j q \<or> j = run \<and> ad_reservation_id adm = Some q)"
proof (cases "mg_admission m")
  case None
  then have "m' = m" "adm = no_admission" using a by (auto simp: madmission_def adm_def)
  with None booksD(1) [OF b] show ?thesis by (simp add: no_admission_def)
next
  case (Some lm)
  obtain r lm' db' where r: "admit sql_cost_ops lm (mg_db m) inp run ip s profile cost = (r, lm', db')"
    by (metis prod.exhaust)
  have m': "m' = m\<lparr>mg_admission := Some lm', mg_db := db'\<rparr>"
    "adm = (case r of Inl _ \<Rightarrow> no_admission | Inr x \<Rightarrow> x)"
    using a Some r by (auto simp: madmission_def adm_def split: sum.splits)
  from admit_fresh [OF b [unfolded Some] fresh ck r] show ?thesis
    by (simp add: m' Some leases_def same_control_def)
qed

definition creation_ok :: "manager \<Rightarrow> creation \<Rightarrow> bool" where
  "creation_ok m c \<longleftrightarrow> get_run (mg_db m) (cr_run_id c) = None \<and> clocks_ok (cr_inputs c) \<and> aware (cr_now c)"

lemma create_run_new:
  assumes "store_inv db" "dget (db_runs db) (rn_run_id r) = None"
    and "case rn_idempotency_key r of None \<Rightarrow> True
      | Some k \<Rightarrow> get_by_idempotency db (rn_idempotency_scope_sha256 r) k = None"
  shows "create_run db r = Inr (r, db\<lparr>db_runs := db_runs db @ [(rn_run_id r, r)]\<rparr>)"
  using assms by (auto simp: create_run_def idempotency_collision_def insert_run_def idempotency_free_def
      split: option.splits)

lemma launch_inv:
  assumes b: "books (mg_admission m) (mg_db m)" and t: "tasks_inv m0" and m: "same_control m0 m"
    and runs: "db_runs (mg_db m) = db_runs (mg_db m0) @ [(i, r)]" "dget (db_runs (mg_db m0)) i = None"
    and r: "rn_run_id r = i" "rn_status r = Queued" and now: "aware (cr_now c)"
    and l: "launch c r m = (res, m')"
  shows "manager_inv m' \<and> (cr_task_ok c \<longrightarrow> res = Inr (view r) \<and> db_runs (mg_db m') = db_runs (mg_db m))"
proof -
  have look: "dget (db_runs (mg_db m)) j = (if j = i then Some r else dget (db_runs (mg_db m0)) j)" for j
    using runs by (auto simp: map_add_def split: option.splits)
  have notask: "dget (mg_tasks m) i = None"
    using tasks_invD(3) [OF t, of i] runs(2) m
    by (cases "dget (mg_tasks m) i") (auto simp: phase_ok_def same_control_def)
  show ?thesis
  proof (cases "cr_task_ok c")
    case True
    then have m': "m' = set_phase i (TaskCreated r) (m\<lparr>mg_tokens := dput i new_token (mg_tokens m)\<rparr>)"
      "res = Inr (view r)" using l r(1) by (simp_all add: launch_def Let_def)
    have "tasks_inv m'"
      by (rule tasks_change [OF t, of i]) (use m r look in \<open>auto simp: m' same_control_def phase_ok_def\<close>)
    then show ?thesis using b m' True by (simp add: manager_inv_def)
  next
    case False
    let ?m1 = "m\<lparr>mg_tokens := filter (\<lambda>(j, _). j \<noteq> i) (dput i new_token (mg_tokens m))\<rparr>"
    have b1: "books (mg_admission ?m1) (mg_db ?m1)" using b by simp
    have row: "dget (db_runs (mg_db ?m1)) i = Some r" by (simp add: look)
    obtain f where f: "inactive_finalization r Interrupted ''TASK_START_FAILED'' False ?m1 = (Inr f, ?m1)"
      "fz_status f = Interrupted" "final_ok f" by (rule inactive_finalization_total [OF b1 row])
    have tg: "fz_status f \<in> set (terminal_targets (rn_status r))" "valid_usage (fz_final_usage f)"
      "cost_ok (ru_cost_usd (fz_final_usage f))" using f(2,3) r(2) by (simp_all add: final_ok_def)
    obtain s m2 where s: "finalize (cr_now c) r f ?m1 = (Inr s, m2)" "ended f r s" "books (mg_admission m2) (mg_db m2)"
      "db_runs (mg_db m2) = dput i s (db_runs (mg_db ?m1))" "same_control ?m1 m2"
      by (rule finalize_books [OF b1 row tg now])
    have "m' = m2" using l False r(1) f(1) s(1) by (simp add: launch_def Let_def mbind_def)
    moreover have "tasks_inv m2"
    proof (rule tasks_change [OF t, of i])
      fix ph assume "dget (mg_tasks m2) i = Some ph"
      then show "dget (mg_tokens m2) i \<noteq> None \<and> phase_ok (mg_db m2) i ph"
        using notask s(5) by (simp add: same_control_def)
    next
      fix q assume "dget (db_runs (mg_db m2)) i = Some q" "active q"
      then show "dget (mg_tasks m2) i \<noteq> None" using s(2,4) f(2) by (simp add: ended_def active_def)
    qed (use m s(4,5) look in \<open>auto simp: same_control_def\<close>)
    ultimately show ?thesis using s(3) False by (simp add: manager_inv_def)
  qed
qed

lemma admit_and_store_inv:
  assumes inv: "manager_inv m" and c: "creation_ok m c" and new: "existing_run m c = None"
    and a: "admit_and_store c ps cost m = (res, m')"
  shows "manager_inv m' \<and> (\<forall>v. res = Inr v \<longrightarrow> vw_run_id v = cr_run_id c \<and>
    (\<exists>x. let r = new_record c ps x in v = view r \<and> dget (db_runs (mg_db m')) (cr_run_id c) = Some r))"
proof -
  note b = manager_invD(1) [OF inv] and ti = manager_invD(2) [OF inv]
  let ?i = "cr_run_id c"
  have fresh: "dget (db_runs (mg_db m)) ?i = None" and ck: "clocks_ok (cr_inputs c)" and now: "aware (cr_now c)"
    using c by (simp_all add: creation_ok_def get_run_def)
  let ?adm = "madmission no_admission (\<lambda>lm db. admit sql_cost_ops lm db (cr_inputs c) ?i
              (cr_client_ip c) (cr_session_id c) (rq_access_profile (rc_request (cr_config c))) cost)"
  obtain q m1 where q: "?adm m = (q, m1)" by fastforce
  define x where "x = (case q of Inl _ \<Rightarrow> no_admission | Inr y \<Rightarrow> y)"
  note ad = madmission_fresh [OF b fresh ck q, folded x_def]
  show ?thesis
  proof (cases q)
    case (Inl e)
    then have m': "m' = m1" "res = Inl e" using a q by (simp_all add: admit_and_store_def mbind_def)
    have x: "ad_reservation_id x = None" using Inl by (simp add: x_def no_admission_def)
    have lk: "linked (mg_db m1) j p \<longleftrightarrow> linked (mg_db m) j p" for j p using ad by (simp add: linked_def)
    have lim: "limits_ok (mg_admission m1) (mg_db m1)"
      using ad lk booksD(2) [OF b] by (simp add: limits_ok_def split: option.splits)
    have "books (mg_admission m1) (mg_db m1)"
    proof (rule booksI [OF _ lim])
      show "store_inv (mg_db m1)" using ad by simp
      show "linked (mg_db m1) j p \<longleftrightarrow> reserved (mg_db m1) j p" for j p
        using lk booksD(3) [OF b] ad x by simp
    qed (use ad x booksD(4-6) [OF b] in simp_all)
    moreover have "tasks_inv m1"
      using ti ad unfolding tasks_inv_def same_control_def phase_ok_def by simp
    ultimately show ?thesis using m' by (simp add: manager_inv_def)
  next
    case (Inr y)
    then have xy: "x = y" by (simp add: x_def)
    let ?r = "new_record c ps y"
    have rid: "rn_run_id ?r = ?i" "rn_admission_reservation_id ?r = ad_reservation_id y" "active ?r"
      "known_cost ?r = None" "rn_status ?r = Queued"
      by (simp_all add: new_record_def active_def known_cost_def)
    have key: "rn_idempotency_key ?r = cr_key c" "rn_idempotency_scope_sha256 ?r = cr_scope c"
      "rn_final_usage ?r = None" by (simp_all add: new_record_def)
    let ?db = "(mg_db m1)\<lparr>db_runs := db_runs (mg_db m1) @ [(?i, ?r)]\<rparr>"
    have cr: "create_run (mg_db m1) ?r = Inr (?r, ?db)"
    proof -
      have "case rn_idempotency_key ?r of None \<Rightarrow> True
        | Some k \<Rightarrow> get_by_idempotency (mg_db m1) (rn_idempotency_scope_sha256 ?r) k = None"
        using new ad by (simp add: key existing_run_def get_by_idempotency_def split: option.splits)
      from create_run_new [OF _ _ this] show ?thesis using ad fresh by (simp add: rid(1))
    qed
    let ?m2 = "m1\<lparr>mg_db := ?db\<rparr>"
    have st: "store_admitted c ?r m1 = (Inr (Inr ?r), ?m2)" by (simp add: store_admitted_def mstore_def cr)
    have inv2: "store_inv ?db" by (rule create_run_inv [OF cr]) (use ad key in simp_all)
    have own: "ledger_owner ?db = ledger_owner (mg_db m1)" by (simp add: ledger_owner_def fun_eq_iff)
    have res2: "reserved ?db j p \<longleftrightarrow> reserved (mg_db m1) j p" for j p by (simp add: reserved_def)
    have runs: "db_runs ?db = db_runs (mg_db m) @ [(?i, ?r)]" using ad by simp
    have lim: "limits_ok (mg_admission m1) ?db"
    proof (cases "mg_admission m1")
      case None
      then have n: "mg_admission m = None" "ad_reservation_id y = None" using ad xy by simp_all
      have "\<not> linked (mg_db m) j p" for j p using booksD(2) [OF b] n(1) by (simp add: limits_ok_def)
      then show ?thesis using None n(2) rid(2) fresh unfolding limits_ok_def linked_def runs
        by (auto simp: map_add_def split: option.splits if_splits)
    qed (use ad own in \<open>simp add: limits_ok_def\<close>)
    have b2: "books (mg_admission ?m2) (mg_db ?m2)"
      using books_create [OF b fresh inv2 runs rid(3) _ lim] ad xy rid res2 by (simp add: cost_ok_def)
    have same: "same_control m ?m2" using ad by (simp add: same_control_def)
    obtain l m3 where l: "launch c ?r ?m2 = (l, m3)" by fastforce
    have out: "res = l" "m' = m3" using a q Inr st l by (simp_all add: admit_and_store_def mbind_def)
    have L: "manager_inv m3 \<and> (cr_task_ok c \<longrightarrow> l = Inr (view ?r) \<and> db_runs (mg_db m3) = db_runs (mg_db ?m2))"
      by (rule launch_inv [OF b2 ti same _ fresh rid(1,5) now l]) (use runs in simp)
    have "isl l" if "\<not> cr_task_ok c"
      using l that by (auto simp: launch_def Let_def mbind_def split: sum.splits prod.splits)
    moreover have "vw_run_id (view ?r) = ?i" by (simp add: view_def rid(1))
    ultimately show ?thesis using L out runs fresh
      by (cases "cr_task_ok c") (auto simp: Let_def map_add_def)
  qed
qed

lemma create_cases:
  assumes "create policy c m = (res, m')"
  obtains (failed) e where "res = Inl e" "m' = m"
  | (existing) ex where "existing_run m c = Some ex" "res = idempotent_view ex (cr_digest c)" "m' = m"
      "\<not> mg_closing m"
  | (fresh) ps cost where "existing_run m c = None" "admit_and_store c ps cost m = (res, m')" "\<not> mg_closing m"
      "\<exists>keys required. cr_routes c = Inr (keys, required) \<and> pricing (cr_config c) keys required = Inr ps"
      "requested_admission_cost (cr_config c) ps = Inr cost"
proof (cases "rbind (case validate_config policy (cr_config c) of
                    Inl e \<Rightarrow> Inl (ManagerPolicy e) | Inr u \<Rightarrow> Inr u) (\<lambda>_. ensure_open m)")
  case (Inl e)
  with assms show thesis by (intro failed [of e]) (simp_all add: create_def)
next
  case (Inr u)
  then have open_: "\<not> mg_closing m" by (auto simp: res_simps ensure_open_def require_eq_Inr)
  show thesis
  proof (cases "existing_run m c")
    case (Some ex)
    with assms Inr open_ show thesis by (intro existing [of ex]) (simp_all add: create_def)
  next
    case None
    let ?p = "rbind (cr_routes c) (\<lambda>(keys, required).
                     rbind (pricing (cr_config c) keys required) (\<lambda>ps.
                     rbind (requested_admission_cost (cr_config c) ps) (\<lambda>cost.
                     rbind (cr_runner c) (\<lambda>_. Inr (ps, cost)))))"
    show thesis
    proof (cases ?p)
      case e: (Inl e)
      with assms Inr None show thesis by (intro failed [of e]) (simp_all add: create_def)
    next
      case ok: (Inr p)
      obtain ps cost where p: "p = (ps, cost)" by fastforce
      have "admit_and_store c ps cost m = (res, m')" using assms Inr None ok p by (simp add: create_def)
      moreover have "(\<exists>keys required. cr_routes c = Inr (keys, required) \<and> pricing (cr_config c) keys required = Inr ps) \<and>
          requested_admission_cost (cr_config c) ps = Inr cost"
        using ok p by (auto simp: res_simps)
      ultimately show thesis using None open_ by (intro fresh [of ps cost]) simp_all
    qed
  qed
qed

lemma create_inv:
  assumes "manager_inv m" "creation_ok m c" "create policy c m = (res, m')"
  shows "manager_inv m'"
  using assms(3)
proof (cases rule: create_cases)
  case (fresh ps cost)
  with admit_and_store_inv [OF assms(1,2)] show ?thesis by blast
qed (use assms(1) in simp_all)

section \<open>The states a service reaches\<close>

lemma manager_inv_events:
  assumes inv: "manager_inv m" and st: "store_inv (mg_db m')"
    and same: "mg_admission m' = mg_admission m" "db_runs (mg_db m') = db_runs (mg_db m)"
      "db_ledger (mg_db m') = db_ledger (mg_db m)" "same_control m m'"
  shows "manager_inv m'"
proof -
  note b = manager_invD(1) [OF inv]
  have own: "ledger_owner (mg_db m') = ledger_owner (mg_db m)" by (simp add: ledger_owner_def fun_eq_iff same(3))
  have lk: "linked (mg_db m') = linked (mg_db m)" "reserved (mg_db m') = reserved (mg_db m)"
    by (simp_all add: fun_eq_iff linked_def reserved_def same(2,3))
  have "books (mg_admission m') (mg_db m')"
  proof (rule booksI [OF st])
    show "limits_ok (mg_admission m') (mg_db m')"
      using booksD(2) [OF b] by (cases "mg_admission m") (simp_all add: limits_ok_def same(1) own lk)
    show "linked (mg_db m') i rid \<longleftrightarrow> reserved (mg_db m') i rid" for i rid
      using booksD(3) [OF b] by (simp add: lk)
  qed (unfold same(1,2), (fact booksD [OF b] | rule booksD(5) [OF b], assumption+ | rule booksD(6) [OF b], assumption)+)
  moreover have "tasks_inv m'"
    using manager_invD(2) [OF inv] same(2,4) unfolding tasks_inv_def phase_ok_def same_control_def by simp
  ultimately show ?thesis by (simp add: manager_inv_def)
qed

lemma sink_inv:
  assumes "manager_inv m" "event_ok e" "1 \<le> ev_seq e" "sink i redact e m = (res, m')"
  shows "manager_inv m'"
proof -
  let ?e = "e\<lparr>ev_public_payload := redact (ev_public_payload e)\<rparr>"
  have ok: "event_ok ?e" "1 \<le> ev_seq ?e" using assms(2,3) by (simp_all add: event_ok_def)
  show ?thesis
  proof (cases "ev_run_id e = i \<and> \<not> isl (append_event (mg_db m) ?e)")
    case False
    then have "m' = m" using assms(4)
      by (cases "append_event (mg_db m) ?e") (auto simp: sink_def emit_def mbind_def mstore_def split: if_splits)
    with assms(1) show ?thesis by simp
  next
    case True
    then obtain x db' where a: "append_event (mg_db m) ?e = Inr (x, db')"
      by (cases "append_event (mg_db m) ?e") auto
    have m': "m' = broadcast_persisted x (m\<lparr>mg_db := db'\<rparr>)"
      using assms(4) True a by (simp add: sink_def emit_def mbind_def mstore_def)
    have "store_inv db'"
      by (rule conjunct1 [OF append_event_inv [OF a booksD(1) [OF manager_invD(1) [OF assms(1)]] ok]])
    moreover have "db_runs db' = db_runs (mg_db m)" "db_ledger db' = db_ledger (mg_db m)"
      using a by (auto simp: append_event_def insert_event_def res_simps split: if_splits)
    ultimately show ?thesis unfolding m'
      by (intro manager_inv_events [OF assms(1)]) (simp_all add: same_control_def broadcast_persisted_def)
  qed
qed

text \<open>
  The runner of a task may emit any valid event at any time while it executes; everything else
  happens in any order the code allows.
\<close>

inductive service :: "deployment_policy \<Rightarrow> manager \<Rightarrow> bool" for policy where
  svc_new: "(case adm of None \<Rightarrow> True | Some lm \<Rightarrow> \<exists>limit. new_manager limit = Inr lm) \<Longrightarrow>
     service policy (run_manager adm empty_db)"
| svc_create: "service policy m \<Longrightarrow> creation_ok m c \<Longrightarrow> create policy c m = (res, m') \<Longrightarrow> service policy m'"
| svc_start: "service policy m \<Longrightarrow> dget (mg_tasks m) i = Some (TaskCreated q) \<Longrightarrow> service policy (start i q m)"
| svc_event: "service policy m \<Longrightarrow> dget (mg_tasks m) i = Some (TaskExecuting r) \<Longrightarrow> event_ok e \<Longrightarrow>
     1 \<le> ev_seq e \<Longrightarrow> sink i redact e m = (res', m') \<Longrightarrow> service policy m'"
| svc_execute: "service policy m \<Longrightarrow> dget (mg_tasks m) i = Some (TaskExecuting r) \<Longrightarrow> aware now \<Longrightarrow>
     result_ok result \<Longrightarrow> execute now r result m = (res'', m') \<Longrightarrow> service policy m'"
| svc_recover: "service policy m \<Longrightarrow> dget (mg_tasks m) i = Some (TaskRecovering q) \<Longrightarrow> aware now \<Longrightarrow>
     recover_start now q m = (ru, m') \<Longrightarrow> service policy m'"
| svc_cancel: "service policy m \<Longrightarrow> aware now \<Longrightarrow> cancel now i scope m = (rv, m') \<Longrightarrow> service policy m'"
| svc_close: "service policy m \<Longrightarrow> service policy (close_service m)"
| svc_shutdown: "service policy m \<Longrightarrow> mg_closing m \<Longrightarrow> aware now \<Longrightarrow> dget (mg_tasks m) i \<noteq> None \<Longrightarrow>
     shutdown_run now i m = (ru, m') \<Longrightarrow> service policy m'"
| svc_subscribe: "service policy m \<Longrightarrow> subscribe i scope m = (rn, m') \<Longrightarrow> service policy m'"
| svc_wait: "service policy m \<Longrightarrow> wait_subscription n m = Some m' \<Longrightarrow> service policy m'"
| svc_unsubscribe: "service policy m \<Longrightarrow> service policy (close_subscription n m)"

lemma new_service_inv:
  assumes "case adm of None \<Rightarrow> True | Some lm \<Rightarrow> \<exists>limit. new_manager limit = Inr lm"
  shows "manager_inv (run_manager adm empty_db)"
proof -
  have "limits_ok adm empty_db"
    using assms new_manager_inv by (auto simp: limits_ok_def linked_def empty_db_def split: option.splits)
  moreover have "leases adm = {}"
    using assms by (auto simp: leases_def new_manager_def res_simps split: option.splits if_splits)
  ultimately show ?thesis
    by (simp add: manager_inv_def run_manager_def books_def tasks_inv_def linked_def reserved_def)
      (simp add: empty_db_def)
qed

lemma execute_inv:
  assumes inv: "manager_inv m" and t: "dget (mg_tasks m) i = Some (TaskExecuting r)" and ok: "aware now" "result_ok result"
  obtains s m' where "execute now r result m = (Inr s, m')" "manager_inv m'" "outcome_ok m r result s"
    "dget (db_runs (mg_db m')) i = Some s" "dget (mg_tasks m') i = None"
    "\<forall>rid c. rn_admission_reservation_id r = Some rid \<and> known_cost s = Some c \<longrightarrow>
       (\<exists>q\<in>set (db_ledger (mg_db m')). ul_reservation_id q = rid \<and> ul_run_id q = i \<and>
         ul_state q = LedgerSettled \<and> ul_amount q = c)"
proof -
  note b = manager_invD(1) [OF inv] and ti = manager_invD(2) [OF inv]
  from tasks_invD(3) [OF ti t] have r: "dget (db_runs (mg_db m)) i = Some r" "rn_status r = Running"
    by (auto simp: phase_ok_def)
  obtain s m1 where s: "execute now r result m = (Inr s, forget i m1)" "outcome_ok m r result s"
    "books (mg_admission m1) (mg_db m1)" "db_runs (mg_db m1) = dput i s (db_runs (mg_db m))" "same_control m m1"
    "\<forall>rid c. rn_admission_reservation_id r = Some rid \<and> known_cost s = Some c \<longrightarrow>
       (\<exists>q\<in>set (db_ledger (mg_db m1)). ul_reservation_id q = rid \<and> ul_run_id q = i \<and>
         ul_state q = LedgerSettled \<and> ul_amount q = c)"
    by (rule execute_ends [OF b r ok(2,1)])
  have "\<not> active s" using s(2) by (auto simp: outcome_ok_def active_def)
  from end_forget [OF ti s(4,5) this] s(3) have "manager_inv (forget i m1)" by (simp add: manager_inv_def)
  with s(1,2,4,6) show thesis by (intro that [of s "forget i m1"]) simp_all
qed

lemma service_inv: "service policy m \<Longrightarrow> manager_inv m"
proof (induction rule: service.induct)
  case (svc_new adm)
  then show ?case by (rule new_service_inv)
next
  case (svc_execute m i r now result res m')
  from svc_execute.IH svc_execute.hyps(2-4) show ?case
    by (rule execute_inv) (use svc_execute.hyps(5) in simp)
next
  case (svc_recover m i q now ru m')
  from svc_recover.IH svc_recover.hyps(2,3) show ?case
    by (rule recover_ends) (use svc_recover.hyps(4) in simp)
next
  case (svc_close m)
  from svc_close.IH show ?case by (rule manager_inv_cong) (simp_all add: close_service_def)
next
  case (svc_subscribe m i scope rn m')
  from svc_subscribe.IH show ?case
    by (rule manager_inv_cong) (use svc_subscribe.hyps(2) in \<open>auto simp: subscribe_def split: sum.splits\<close>)
next
  case (svc_wait m n m')
  from svc_wait.IH show ?case
    by (rule manager_inv_cong) (use svc_wait.hyps(2) in \<open>auto simp: wait_subscription_def split: if_splits\<close>)
next
  case (svc_unsubscribe m n)
  from svc_unsubscribe.IH show ?case by (rule manager_inv_cong) (simp_all add: close_subscription_def)
next
  case (svc_create m c res m')
  from create_inv [OF svc_create.IH svc_create.hyps(2,3)] show ?case .
next
  case (svc_start m i q)
  from start_inv(1) [OF svc_start.IH svc_start.hyps(2)] show ?case .
next
  case (svc_event m i r e redact res' m')
  from sink_inv [OF svc_event.IH svc_event.hyps(3-5)] show ?case .
next
  case (svc_cancel m now i scope rv m')
  from cancel_inv [OF svc_cancel.IH svc_cancel.hyps(2,3)] show ?case .
next
  case (svc_shutdown m now i ru m')
  from shutdown_inv [OF svc_shutdown.IH svc_shutdown.hyps(3,5)] show ?case .
qed

end
