(* ===== verification/Run_Manager_Props.thy ===== *)
theory Run_Manager_Props
  imports Run_Manager_Steps
begin

text \<open>
  The properties of the run manager over every state a service reaches: the books balance, every
  task ends its run in the way the requests and the result determine, repeated requests are
  answered from the first, and a creation that fails gives its reservation back.
\<close>

section \<open>A small service\<close>

definition demo_config :: run_config where
  "demo_config = \<lparr>rc_request = demo_request\<lparr>rq_access_profile := PublicLive\<rparr>, rc_workflow_id = BaselineV1,
     rc_planner_id = P0, rc_ranker_id = R0, rc_budget = preset Low, rc_prompt_versions = [],
     rc_ranker_weights_version = None, rc_seed = None\<rparr>"

definition demo_creation :: creation where
  "demo_creation = \<lparr>cr_config = demo_config, cr_client_ip = ''ip'', cr_session_id = ''s'', cr_scope = ''o'',
     cr_digest = ''d'', cr_key = Some ''k'', cr_run_id = ''run'', cr_thread_id = ''t'', cr_now = demo_time,
     cr_routes = Inr ([(''a'', ''b'', ''c'')], {(''a'', ''b'', ''c'')}), cr_config_json = JNull, cr_snapshots = [],
     cr_profile_json = JNull, cr_profile_sha256 = ''p'', cr_runner = Inr (), cr_inputs = demo_inputs ''u'',
     cr_task_ok = True\<rparr>"

definition demo_record :: run_record where
  "demo_record = new_record demo_creation Estimated no_admission"

definition demo_created :: manager where
  "demo_created = (run_manager None (empty_db\<lparr>db_runs := [(''run'', demo_record)]\<rparr>))
     \<lparr>mg_tasks := [(''run'', TaskCreated demo_record)], mg_tokens := [(''run'', new_token)]\<rparr>"

lemma demo_creation_simps [simp]:
  "cr_config demo_creation = demo_config" "cr_run_id demo_creation = ''run''" "cr_key demo_creation = Some ''k''"
  "cr_routes demo_creation = Inr ([(''a'', ''b'', ''c'')], {(''a'', ''b'', ''c'')})" "cr_runner demo_creation = Inr ()"
  "cr_task_ok demo_creation" "cr_now demo_creation = demo_time" "cr_inputs demo_creation = demo_inputs ''u''"
  "cr_scope demo_creation = ''o''" "cr_digest demo_creation = ''d''"
  "new_record demo_creation Estimated no_admission = demo_record"
  by (simp_all add: demo_creation_def demo_record_def)

lemma demo_record_simps [simp]:
  "rn_run_id demo_record = ''run''" "rn_status demo_record = Queued" "rn_idempotency_key demo_record = Some ''k''"
  "rn_idempotency_scope_sha256 demo_record = ''o''" "rn_config_sha256 demo_record = ''d''"
  "rn_version demo_record = 1"
  by (simp_all add: demo_record_def new_record_def demo_creation_def)

lemma demo_valid: "validate_config demo_policy demo_config = Inr ()"
  by (simp add: validate_config_def policy_validate_request_def budget_for_request_def demo_policy_def
      demo_config_def demo_request_def)

lemma demo_service_create: "create demo_policy demo_creation (run_manager None empty_db) = (Inr (view demo_record), demo_created)"
proof -
  have pr: "pricing demo_config [(''a'', ''b'', ''c'')] {(''a'', ''b'', ''c'')} = Inr Estimated" by (simp add: pricing_def)
  have co: "requested_admission_cost demo_config Estimated = Inr (Fin (1 / 4))"
    by (simp add: requested_admission_cost_def demo_config_def demo_request_def preset_def)
  have ex: "existing_run (run_manager None empty_db) demo_creation = None"
    by (simp add: existing_run_def get_by_idempotency_def run_manager_def empty_db_def)
  have cr: "create_run empty_db demo_record = Inr (demo_record, empty_db\<lparr>db_runs := [(''run'', demo_record)]\<rparr>)"
    by (simp add: create_run_def idempotency_collision_def insert_run_def idempotency_free_def
        get_by_idempotency_def empty_db_def)
  show ?thesis
    using pr co ex cr demo_valid
    by (simp add: create_def ensure_open_def admit_and_store_def mbind_def madmission_def store_admitted_def
        mstore_def launch_def set_phase_def Let_def demo_created_def run_manager_def)
qed

lemma demo_created_service: "service demo_policy demo_created"
proof (rule svc_create [OF svc_new _ demo_service_create])
  show "case None of None \<Rightarrow> True | Some lm \<Rightarrow> \<exists>limit. new_manager limit = Inr lm" by simp
  show "creation_ok (run_manager None empty_db) demo_creation"
    by (simp add: creation_ok_def get_run_def run_manager_def empty_db_def clocks_ok_def demo_inputs_def
        aware_def demo_time_def)
qed

definition demo_running :: manager where
  "demo_running = start ''run'' demo_record demo_created"

lemma demo_running_service:
  "service demo_policy demo_running"
  "dget (mg_tasks demo_running) ''run'' = Some (TaskExecuting (demo_record\<lparr>rn_status := Running, rn_version := 2\<rparr>))"
proof -
  have t: "dget (mg_tasks demo_created) ''run'' = Some (TaskCreated demo_record)" by (simp add: demo_created_def)
  show "service demo_policy demo_running"
    unfolding demo_running_def by (rule svc_start [OF demo_created_service t])
  show "dget (mg_tasks demo_running) ''run'' = Some (TaskExecuting (demo_record\<lparr>rn_status := Running, rn_version := 2\<rparr>))"
    by (simp add: demo_running_def start_def demo_created_def run_manager_def get_run_def new_token_def
        is_cancelled_def mstore_def store_transition_def nonterminal_pairs_def require_run_def cas_def Let_def)
qed

section \<open>Properties\<close>





lemma existing_run_unique:
  assumes b: "books adm (mg_db m)" and r: "get_run (mg_db m) i = Some r" "rn_idempotency_key r = Some k"
    and c: "cr_key c = Some k" "cr_scope c = rn_idempotency_scope_sha256 r"
  shows "existing_run m c = Some r"
proof -
  have inv: "runs_inv (db_runs (mg_db m))" using booksD(1) [OF b] by (simp add: store_inv_def)
  then have d: "distinct (dkeys (db_runs (mg_db m)))" by (simp add: runs_inv_def)
  let ?P = "\<lambda>q. rn_idempotency_scope_sha256 q = cr_scope c \<and> rn_idempotency_key q = Some k"
  have "r \<in> set (dvalues (db_runs (mg_db m)))" unfolding dvalues_dget [OF d] using r(1) by (auto simp: get_run_def)
  then obtain q where q: "List.find ?P (dvalues (db_runs (mg_db m))) = Some q"
    using r(2) c(2) by (cases "List.find ?P (dvalues (db_runs (mg_db m)))") (auto simp: find_None)
  from find_SomeD [OF q] have qp: "q \<in> set (dvalues (db_runs (mg_db m)))" "?P q" by simp_all
  from qp(1) obtain j where j: "dget (db_runs (mg_db m)) j = Some q" unfolding dvalues_dget [OF d] ..
  have "j = i"
    by (rule runs_inv_unique [OF inv j _ _ r(2)]) (use r(1) qp(2) c(2) in \<open>simp_all add: get_run_def\<close>)
  with j r(1) have "q = r" by (simp add: get_run_def)
  with q c(1) show ?thesis by (simp add: existing_run_def get_by_idempotency_def)
qed

lemma existing_runD:
  assumes "books adm (mg_db m)" "existing_run m c = Some r"
  shows "get_run (mg_db m) (rn_run_id r) = Some r" "cr_key c \<noteq> None" "rn_idempotency_key r = cr_key c"
    "rn_idempotency_scope_sha256 r = cr_scope c"
proof -
  from assms(2) obtain k where k: "cr_key c = Some k"
    and "List.find (\<lambda>q. rn_idempotency_scope_sha256 q = cr_scope c \<and> rn_idempotency_key q = Some k)
      (dvalues (db_runs (mg_db m))) = Some r"
    by (auto simp: existing_run_def get_by_idempotency_def split: option.splits)
  from find_SomeD [OF this(2)] have r: "r \<in> set (dvalues (db_runs (mg_db m)))"
    "rn_idempotency_scope_sha256 r = cr_scope c" "rn_idempotency_key r = Some k" by simp_all
  have d: "distinct (dkeys (db_runs (mg_db m)))" using booksD(1) [OF assms(1)] by (simp add: store_inv_def runs_inv_def)
  from r(1) obtain j where j: "dget (db_runs (mg_db m)) j = Some r" unfolding dvalues_dget [OF d] ..
  with books_row(1) [OF assms(1) j] show "get_run (mg_db m) (rn_run_id r) = Some r" by (simp add: get_run_def)
  show "cr_key c \<noteq> None" "rn_idempotency_key r = cr_key c" "rn_idempotency_scope_sha256 r = cr_scope c"
    using k r by simp_all
qed

text \<open>
  C16. Creation is idempotent.  Whenever a creation with an idempotency key returns a view, the
  store holds the run it shows under that scope, key and configuration digest; and in every state
  a service reaches that has a run under a scope and key, an allowed request with that scope and
  key changes nothing: it is answered with the view of that very run if its digest is the same
  and refused as a conflict if it is not.
\<close>

theorem create_idempotent:
  assumes "service policy m" "creation_ok m c" "create policy c m = (Inr v, m')" "cr_key c = Some k"
  shows "(\<exists>r. get_run (mg_db m') (vw_run_id v) = Some r \<and> v = view r \<and> rn_idempotency_key r = Some k \<and>
      rn_idempotency_scope_sha256 r = cr_scope c \<and> rn_config_sha256 r = cr_digest c) \<and>
    (\<forall>n i r (d::creation). service policy n \<and> \<not> mg_closing n \<and> get_run (mg_db n) i = Some r \<and>
       rn_idempotency_key r = Some k \<and> cr_key d = Some k \<and> cr_scope d = rn_idempotency_scope_sha256 r \<and>
       validate_config policy (cr_config d) = Inr () \<longrightarrow>
       create policy d n = (if cr_digest d = rn_config_sha256 r then Inr (view r) else Inl IdempotencyConflict, n))"
proof (intro conjI allI impI)
  note inv = service_inv [OF assms(1)]
  note b = manager_invD(1) [OF inv]
  from assms(3) show "\<exists>r. get_run (mg_db m') (vw_run_id v) = Some r \<and> v = view r \<and> rn_idempotency_key r = Some k \<and>
      rn_idempotency_scope_sha256 r = cr_scope c \<and> rn_config_sha256 r = cr_digest c"
  proof (cases rule: create_cases)
    case (existing ex)
    then have "rn_config_sha256 ex = cr_digest c" "v = view ex" by (auto simp: idempotent_view_def split: if_splits)
    with existing_runD [OF b existing(1)] assms(4) existing(3) show ?thesis
      by (intro exI [of _ ex]) (simp add: view_def)
  next
    case (fresh ps cost)
    from admit_and_store_inv [OF inv assms(2) fresh(1,2)] obtain x where
      x: "vw_run_id v = cr_run_id c" "v = view (new_record c ps x)"
      "dget (db_runs (mg_db m')) (cr_run_id c) = Some (new_record c ps x)" by (auto simp: Let_def)
    then show ?thesis using assms(4) by (intro exI [of _ "new_record c ps x"]) (simp add: get_run_def new_record_def)
  qed simp
next
  fix n i r and d :: creation
  assume n: "service policy n \<and> \<not> mg_closing n \<and> get_run (mg_db n) i = Some r \<and>
       rn_idempotency_key r = Some k \<and> cr_key d = Some k \<and> cr_scope d = rn_idempotency_scope_sha256 r \<and>
       validate_config policy (cr_config d) = Inr ()"
  then have "books (mg_admission n) (mg_db n)" using manager_invD(1) service_inv by blast
  from existing_run_unique [OF this] n have "existing_run n d = Some r" by blast
  with n show "create policy d n = (if cr_digest d = rn_config_sha256 r then Inr (view r) else Inl IdempotencyConflict, n)"
    by (simp add: create_def ensure_open_def idempotent_view_def)
qed

theorem create_idempotent_witness:
  "create demo_policy demo_creation demo_created = (Inr (view demo_record), demo_created) \<and>
   create demo_policy (demo_creation\<lparr>cr_digest := ''e''\<rparr>) demo_created = (Inl IdempotencyConflict, demo_created)"
proof -
  have s: "service demo_policy (run_manager None empty_db)" by (rule svc_new) simp
  have ok: "creation_ok (run_manager None empty_db) demo_creation"
    by (simp add: creation_ok_def get_run_def run_manager_def empty_db_def clocks_ok_def demo_inputs_def
        aware_def demo_time_def)
  have row: "get_run (mg_db demo_created) ''run'' = Some demo_record" "\<not> mg_closing demo_created"
    by (simp_all add: demo_created_def run_manager_def get_run_def)
  note all = create_idempotent [OF s ok demo_service_create, of "''k''", THEN conjunct2, rule_format]
  show ?thesis
    using all [of demo_created "''run''" demo_record demo_creation]
      all [of demo_created "''run''" demo_record "demo_creation\<lparr>cr_digest := ''e''\<rparr>"]
      demo_created_service row demo_valid by simp
qed

text \<open>
  A creation that fails after its admission gives everything back.  If storing the run fails
  (another manager on the same database has taken the idempotency key meanwhile, say), then
  afterwards the reservation is no longer open, the lease is gone and no run was added; and the
  answer is the view of the run that took the key, if it has the same digest, or an error.
\<close>

theorem failed_creation_returns_reservation:
  assumes "store_inv (mg_db m)" "mg_admission m = Some lm" "admissions_inv (ledger_owner (mg_db m)) lm"
    and "rn_admission_reservation_id r = Some rid" "reserved (mg_db m) (rn_run_id r) rid"
    and "create_run (mg_db m) r = Inl e" "store_admitted c r m = (res, m')"
  shows "\<not> reserved (mg_db m') (rn_run_id r) rid \<and> rid \<notin> leases (mg_admission m') \<and>
    db_runs (mg_db m') = db_runs (mg_db m) \<and>
    (\<forall>j q. q \<noteq> rid \<longrightarrow> (reserved (mg_db m') j q \<longleftrightarrow> reserved (mg_db m) j q) \<and>
       (q \<in> leases (mg_admission m') \<longleftrightarrow> q \<in> leases (mg_admission m))) \<and>
    (case res of Inl _ \<Rightarrow> True | Inr (Inr _) \<Rightarrow> False
     | Inr (Inl v) \<Rightarrow> \<exists>ex. existing_run m c = Some ex \<and> v = view ex \<and> rn_config_sha256 ex = cr_digest c)"
proof -
  define db1 where "db1 = update_reserved (mg_db m) rid (\<lambda>r. r\<lparr>ul_state := LedgerReleased\<rparr>)"
  have own: "ledger_owner db1 = ledger_owner (mg_db m)"
    unfolding db1_def by (rule update_reserved_owner) (simp add: keeps_row_def)
  from reserved_owner [OF assms(1,5)] obtain t where
    "List.find (\<lambda>r. ul_reservation_id r = rid) (db_ledger (mg_db m)) = Some t" by (auto simp: ledger_owner_def)
  then have rel: "release_daily_cost (mg_db m) rid = Inr db1"
    by (simp add: release_daily_cost_def ledger_row_of_def db1_def)
  from finish_with_ok [OF assms(3) own, of rid] obtain lm' where
    fin: "finish_with lm (mg_db m) rid (Inr db1) = (Inr (), lm', db1)"
    "lm_run_leases lm' = lm_run_leases lm - {rid}" by blast
  let ?m = "m\<lparr>mg_admission := Some lm', mg_db := db1\<rparr>"
  have runs: "db_runs db1 = db_runs (mg_db m)" by (simp add: db1_def update_reserved_def)
  have res1: "reserved db1 j q \<longleftrightarrow> reserved (mg_db m) j q \<and> q \<noteq> rid" for j q
    by (auto simp: reserved_def db1_def update_reserved_def)
  have ex: "existing_run ?m c = existing_run m c"
    by (simp add: existing_run_def get_by_idempotency_def runs split: option.splits)
  have st: "m' = ?m \<and> (case res of Inl _ \<Rightarrow> True | Inr (Inr _) \<Rightarrow> False
     | Inr (Inl v) \<Rightarrow> \<exists>x. existing_run m c = Some x \<and> idempotent_view x (cr_digest c) = Inr v)"
    using assms(2,4,6,7) rel fin(1) ex
    by (auto simp: store_admitted_def mstore_def mbind_def madmission_def release_admission_def sql_cost_ops_def
        rbind_def split: manager_error.splits store_error.splits option.splits sum.splits)
  have lease: "leases (mg_admission ?m) = leases (mg_admission m) - {rid}" using fin(2) assms(2) by (simp add: leases_def)
  show ?thesis
  proof (intro conjI)
    show "case res of Inl _ \<Rightarrow> True | Inr (Inr _) \<Rightarrow> False
     | Inr (Inl v) \<Rightarrow> \<exists>ex. existing_run m c = Some ex \<and> v = view ex \<and> rn_config_sha256 ex = cr_digest c"
      using st by (auto simp: idempotent_view_def split: sum.splits if_splits)
  qed (use st lease res1 runs in simp_all)
qed

theorem failed_creation_returns_reservation_witness:
  "\<exists>lm db v m'. (let m = run_manager (Some lm) db in
     store_admitted demo_creation (demo_record\<lparr>rn_run_id := ''new'', rn_admission_reservation_id := Some ''u''\<rparr>) m = (v, m') \<and>
     reserved (mg_db m) ''new'' ''u'' \<and> \<not> reserved (mg_db m') ''new'' ''u'')"
proof -
  let ?db = "\<lparr>db_runs = [(''run'', demo_record)], db_events = [], db_ledger = [\<lparr>ul_reservation_id = ''u'', ul_day = 0,
     ul_run_id = ''new'', ul_attempt_no = 1, ul_amount = Fin 0, ul_state = LedgerReserved\<rparr>]\<rparr>"
  let ?lm = "demo_limits\<lparr>lm_runs := \<lparr>cg_capacity = 2, cg_active = 1\<rparr>, lm_run_leases := {''u''},
     lm_admissions := [(''new'', \<lparr>ad_reservation_id = Some ''u'', ad_attempt_no = Some 1\<rparr>)]\<rparr>"
  let ?r = "demo_record\<lparr>rn_run_id := ''new'', rn_admission_reservation_id := Some ''u''\<rparr>"
  let ?m = "run_manager (Some ?lm) ?db"
  have m: "mg_db ?m = ?db" "mg_admission ?m = Some ?lm" by (simp_all add: run_manager_def)
  have fu: "rn_final_usage demo_record = None" by (simp add: demo_record_def new_record_def)
  have "runs_inv (db_runs ?db)" using fu by (simp add: runs_inv_def)
  then have st: "store_inv (mg_db ?m)" by (simp add: m store_inv_def events_inv_def ledger_inv_def)
  have lease: "{rid. \<exists>run a. (if run = ''new'' then Some \<lparr>ad_reservation_id = Some ''u'', ad_attempt_no = Some 1\<rparr> else None)
      = Some a \<and> ad_reservation_id a = Some rid} = {''u''}" by (auto split: if_splits)
  have "admissions_inv (ledger_owner ?db) ?lm"
    using lease by (simp add: admissions_inv_def ledger_owner_def demo_limits_def buckets_ok_def)
  then have ai: "admissions_inv (ledger_owner (mg_db ?m)) ?lm" by (simp only: m)
  have rs: "reserved (mg_db ?m) (rn_run_id ?r) ''u''" by (simp add: m reserved_def)
  have cr: "create_run (mg_db ?m) ?r = Inl (IdempotencyCollision ''k'')"
    by (simp add: m create_run_def idempotency_collision_def get_by_idempotency_def)
  obtain v m' where sa: "store_admitted demo_creation ?r ?m = (v, m')" by fastforce
  have "rn_admission_reservation_id ?r = Some ''u''" by simp
  from failed_creation_returns_reservation [OF st m(2) ai this rs cr sa] sa rs show ?thesis
    unfolding Let_def by (intro exI [of _ ?lm] exI [of _ ?db] exI [of _ v] exI [of _ m']) simp
qed

end
