(* ===== verification/Chunking.thy ===== *)
theory Chunking
  imports Prelude
begin

text \<open>
  Text normalization and chunking (\<^verbatim>\<open>src/src/deepresearch/retrieval/normalize.py\<close>,
  \<^verbatim>\<open>chunking.py\<close>).  A text is a list of code points; Unicode's canonical composition \<open>nfc\<close> and
  the hash \<open>sha\<close> are parameters.  The chunking loop is a partial function, so that its
  termination is a theorem.
\<close>

section \<open>Normalization (\<^verbatim>\<open>normalize.py\<close>)\<close>

text \<open>\<^verbatim>\<open>str.isspace\<close>, and the boundaries of \<^verbatim>\<open>str.splitlines\<close>.\<close>

definition is_ws :: "char \<Rightarrow> bool" where
  "is_ws c \<longleftrightarrow> c \<in> {CHR '' '', CHR 0x09, CHR 0x0A, CHR 0x0B, CHR 0x0C, CHR 0x0D,
                   CHR 0x1C, CHR 0x1D, CHR 0x1E, CHR 0x1F, CHR 0x85, CHR 0xA0}"

definition is_break :: "char \<Rightarrow> bool" where
  "is_break c \<longleftrightarrow> c \<in> {CHR 0x0A, CHR 0x0B, CHR 0x0C, CHR 0x0D, CHR 0x1C, CHR 0x1D, CHR 0x1E, CHR 0x85}"

text \<open>\<^verbatim>\<open>.replace("\r\n", "\n").replace("\r", "\n").replace("\u00a0", " ")\<close>\<close>

fun unify_newlines :: "string \<Rightarrow> string" where
  "unify_newlines [] = []"
| "unify_newlines [c] = [if c = CHR 0x0D then CHR 0x0A else if c = CHR 0xA0 then CHR '' '' else c]"
| "unify_newlines (c # d # cs) =
     (if c = CHR 0x0D then CHR 0x0A # unify_newlines (if d = CHR 0x0A then cs else d # cs)
      else (if c = CHR 0xA0 then CHR '' '' else c) # unify_newlines (d # cs))"

fun splitlines :: "string \<Rightarrow> string \<Rightarrow> string list" where
  "splitlines acc [] = (if acc = [] then [] else [rev acc])"
| "splitlines acc (c # cs) =
     (if is_break c then rev acc # splitlines [] cs else splitlines (c # acc) cs)"

text \<open>\<^verbatim>\<open>re.sub(r"[^\S\n]+", " ", line)\<close>; the flag says that the previous character was blank.\<close>

fun collapse :: "bool \<Rightarrow> string \<Rightarrow> string" where
  "collapse prev [] = []"
| "collapse prev (c # cs) =
     (if is_ws c \<and> c \<noteq> CHR 0x0A
      then (if prev then collapse True cs else CHR '' '' # collapse True cs)
      else c # collapse False cs)"

definition strip :: "string \<Rightarrow> string" where
  "strip s = rev (dropWhile is_ws (rev (dropWhile is_ws s)))"

fun join_lines :: "string list \<Rightarrow> string" where
  "join_lines [] = []"
| "join_lines [l] = l"
| "join_lines (l # ls) = l @ CHR 0x0A # join_lines ls"

definition normalize_text :: "(string \<Rightarrow> string) \<Rightarrow> string \<Rightarrow> string" where
  "normalize_text nfc text =
     strip (join_lines (map (\<lambda>l. strip (collapse False l)) (splitlines [] (unify_newlines (nfc text)))))"

section \<open>Chunking (\<^verbatim>\<open>chunking.py\<close>)\<close>

record text_chunk =
  tc_text :: string
  tc_start_char :: nat
  tc_end_char :: nat
  tc_text_hash :: string

definition mk_chunk :: "(string \<Rightarrow> string) \<Rightarrow> text_chunk \<Rightarrow> exc + text_chunk" where
  "mk_chunk sha c =
     (if tc_end_char c = 0 \<or> tc_end_char c \<le> tc_start_char c
      then Inl (ValueError ''end_char must be greater than start_char'')
      else if int (length (tc_text c)) \<noteq> int (tc_end_char c) - int (tc_start_char c)
      then Inl (ValueError ''chunk text length does not match source offsets'')
      else if tc_text_hash c \<noteq> sha (tc_text c)
      then Inl (ValueError ''text_hash does not match chunk text'')
      else Inr c)"

text \<open>The starts of the runs of at least two newlines.\<close>

definition paragraph_ends :: "string \<Rightarrow> nat list" where
  "paragraph_ends text =
     filter (\<lambda>i. text ! i = CHR 0x0A \<and> Suc i < length text \<and> text ! Suc i = CHR 0x0A \<and>
                 (i = 0 \<or> text ! (i - 1) \<noteq> CHR 0x0A)) [0..<length text]"

definition chunk_end :: "nat list \<Rightarrow> nat \<Rightarrow> nat \<Rightarrow> nat \<Rightarrow> nat \<Rightarrow> nat" where
  "chunk_end boundaries n target_size max_size start =
     (let e = (if n - start \<le> target_size then n
               else let target_end = start + target_size;
                        hard_end = min (start + max_size) n;
                        before = filter (\<lambda>p. start < p \<and> p \<le> target_end) boundaries
                    in if before \<noteq> [] then last before
                       else (case filter (\<lambda>p. target_end < p \<and> p \<le> hard_end) boundaries of
                               [] \<Rightarrow> hard_end | p # _ \<Rightarrow> p))
      in if e \<le> start then min (start + max_size) n else e)"

definition next_start :: "nat \<Rightarrow> nat \<Rightarrow> nat \<Rightarrow> nat" where
  "next_start overlap start e = (if int start < int e - int overlap then e - overlap else e)"

definition chunk_at :: "(string \<Rightarrow> string) \<Rightarrow> string \<Rightarrow> nat \<Rightarrow> nat \<Rightarrow> exc + text_chunk" where
  "chunk_at sha text start e =
     (let piece = take (e - start) (drop start text)
      in mk_chunk sha \<lparr>tc_text = piece, tc_start_char = start, tc_end_char = e, tc_text_hash = sha piece\<rparr>)"

partial_function (option) chunk_loop ::
    "(string \<Rightarrow> string) \<Rightarrow> string \<Rightarrow> nat list \<Rightarrow> nat \<Rightarrow> nat \<Rightarrow> nat \<Rightarrow> nat \<Rightarrow> (exc + text_chunk list) option" where
  "chunk_loop sha text boundaries target_size max_size overlap start =
     (if start < length text
      then let e = chunk_end boundaries (length text) target_size max_size start
           in (case chunk_at sha text start e of
                 Inl err \<Rightarrow> Some (Inl err)
               | Inr c \<Rightarrow>
                   if e = length text then Some (Inr [c])
                   else Option.bind (chunk_loop sha text boundaries target_size max_size overlap (next_start overlap start e))
                          (\<lambda>r. Some (rbind r (\<lambda>cs. Inr (c # cs)))))
      else Some (Inr []))"

definition chunk_text :: "(string \<Rightarrow> string) \<Rightarrow> (string \<Rightarrow> string) \<Rightarrow> string \<Rightarrow> int \<Rightarrow> int \<Rightarrow> int \<Rightarrow>
    (exc + text_chunk list) option" where
  "chunk_text nfc sha text target_size max_size overlap =
     (if target_size \<le> 0 \<or> max_size \<le> 0 \<or> max_size < target_size
      then Some (Inl (ValueError ''target_size must be positive and no greater than max_size''))
      else if overlap < 0 \<or> max_size \<le> overlap
      then Some (Inl (ValueError ''overlap must be non-negative and less than max_size''))
      else if normalize_text nfc text \<noteq> text
      then Some (Inl (ValueError ''chunk_text requires normalized text''))
      else if text = [] then Some (Inr [])
      else chunk_loop sha text (paragraph_ends text) (nat target_size) (nat max_size) (nat overlap) 0)"

declare chunk_loop.simps [code]

section \<open>The chunks cover the text\<close>

lemma chunk_end_bounds:
  assumes "start < n" "0 < max_size" "target_size \<le> max_size" "\<forall>p\<in>set boundaries. p < n"
  shows "start < chunk_end boundaries n target_size max_size start \<and>
    chunk_end boundaries n target_size max_size start \<le> n \<and>
    chunk_end boundaries n target_size max_size start \<le> start + max_size"
proof -
  let ?before = "filter (\<lambda>p. start < p \<and> p \<le> start + target_size) boundaries"
  let ?after = "filter (\<lambda>p. start + target_size < p \<and> p \<le> min (start + max_size) n) boundaries"
  have b: "start < last ?before \<and> last ?before \<le> start + target_size \<and> last ?before < n" if "?before \<noteq> []"
    using last_in_set [OF that] assms(4) by auto
  have a: "start + target_size < p \<and> p \<le> min (start + max_size) n" if "?after = p # ps" for p ps
  proof -
    have "p \<in> set ?after" using that by simp
    then show ?thesis by simp
  qed
  define e where "e = (if n - start \<le> target_size then n
    else if ?before \<noteq> [] then last ?before
    else (case ?after of [] \<Rightarrow> min (start + max_size) n | p # _ \<Rightarrow> p))"
  have def_e: "chunk_end boundaries n target_size max_size start = (if e \<le> start then min (start + max_size) n else e)"
    by (simp only: chunk_end_def e_def Let_def)
  have "e \<le> n \<and> e \<le> start + max_size"
  proof (cases "n - start \<le> target_size")
    case True
    then show ?thesis using assms(1,3) by (simp add: e_def)
  next
    case False
    show ?thesis
    proof (cases "?before = []")
      case True
      show ?thesis
      proof (cases ?after)
        case Nil
        with True False show ?thesis by (simp add: e_def)
      next
        case (Cons p ps)
        from a [OF this] Cons True False show ?thesis by (simp add: e_def)
      qed
    next
      case nonempty: False
      with b [OF nonempty] False assms(3) show ?thesis by (simp add: e_def)
    qed
  qed
  then show ?thesis using assms(1,2) unfolding def_e by simp
qed

text \<open>What the loop produces from a position: a covering sequence of exact slices.\<close>

fun covers :: "(string \<Rightarrow> string) \<Rightarrow> string \<Rightarrow> nat \<Rightarrow> nat \<Rightarrow> text_chunk list \<Rightarrow> bool" where
  "covers sha text max_size start [] \<longleftrightarrow> False"
| "covers sha text max_size start (c # cs) \<longleftrightarrow>
     tc_start_char c = start \<and> start < tc_end_char c \<and> tc_end_char c \<le> start + max_size \<and>
     tc_end_char c \<le> length text \<and>
     tc_text c = take (tc_end_char c - start) (drop start text) \<and> tc_text_hash c = sha (tc_text c) \<and>
     (if cs = [] then tc_end_char c = length text
      else start < tc_start_char (hd cs) \<and> tc_start_char (hd cs) \<le> tc_end_char c \<and>
        covers sha text max_size (tc_start_char (hd cs)) cs)"

lemma chunk_at_ok:
  "start < e \<Longrightarrow> e \<le> length text \<Longrightarrow> chunk_at sha text start e =
     Inr \<lparr>tc_text = take (e - start) (drop start text), tc_start_char = start, tc_end_char = e,
          tc_text_hash = sha (take (e - start) (drop start text))\<rparr>"
  by (auto simp: chunk_at_def mk_chunk_def Let_def min_def)

lemma chunk_loop_covers:
  assumes "start < length text" "0 < max_size" "target_size \<le> max_size" "\<forall>p\<in>set boundaries. p < length text"
  shows "\<exists>cs. chunk_loop sha text boundaries target_size max_size overlap start = Some (Inr cs) \<and>
    covers sha text max_size start cs"
  using assms(1)
proof (induction "length text - start" arbitrary: start rule: less_induct)
  case less
  let ?e = "chunk_end boundaries (length text) target_size max_size start"
  have e: "start < ?e" "?e \<le> length text" "?e \<le> start + max_size"
    using chunk_end_bounds [OF less.prems assms(2,3,4)] by auto
  note c = chunk_at_ok [OF e(1,2), of sha]
  show ?case
  proof (cases "?e = length text")
    case True
    then show ?thesis using less.prems e c by (subst chunk_loop.simps) (simp add: Let_def)
  next
    case False
    let ?s = "next_start overlap start ?e"
    have s: "start < ?s" "?s \<le> ?e" using e by (auto simp: next_start_def)
    have "?s < length text" using s e False by simp
    moreover from this s have "length text - ?s < length text - start" using less.prems by simp
    ultimately obtain cs where cs: "chunk_loop sha text boundaries target_size max_size overlap ?s = Some (Inr cs)"
      "covers sha text max_size ?s cs" using less.hyps by blast
    have "cs \<noteq> []" "tc_start_char (hd cs) = ?s" using cs(2) by (cases cs; simp)+
    with cs s e c False less.prems show ?thesis
      by (subst chunk_loop.simps) (simp add: Let_def)
  qed
qed

lemma paragraph_ends_less: "\<forall>p\<in>set (paragraph_ends text). p < length text"
  by (auto simp: paragraph_ends_def)

text \<open>
  C23. Chunking loses nothing and always ends.  For every normalized, non-empty text and valid
  sizes, the loop terminates and returns chunks without an error: the first starts at 0, the last
  ends at the end, each next chunk starts strictly later and no later than the previous one ends
  (no gap), each is the exact slice of the text its offsets name, hashed, not empty and at most
  the maximal size.
\<close>

theorem chunk_text_covers:
  assumes "0 < target_size" "target_size \<le> max_size" "0 \<le> overlap" "overlap < max_size"
    and "normalize_text nfc text = text" "text \<noteq> []"
  shows "\<exists>cs. chunk_text nfc sha text target_size max_size overlap = Some (Inr cs) \<and>
    covers sha text (nat max_size) 0 cs"
  using chunk_loop_covers [of 0 "text" "nat max_size" "nat target_size" "paragraph_ends text" sha "nat overlap"]
    assms paragraph_ends_less by (simp add: chunk_text_def)

theorem chunk_text_covers_witness:
  "\<exists>cs. chunk_text (\<lambda>t. t) (\<lambda>t. t) ''ab cd'' 2 3 1 = Some (Inr cs) \<and> covers (\<lambda>t. t) ''ab cd'' 3 0 cs"
proof -
  have "normalize_text (\<lambda>t. t) ''ab cd'' = ''ab cd''" by code_simp
  from chunk_text_covers [of 2 3 1, OF _ _ _ _ this] show ?thesis by simp
qed

end
