(* ===== verification/Query_Scheduler.thy ===== *)
theory Query_Scheduler
  imports Stop Budget_Correct Chunking State_Machine
begin

text \<open>
  The query scheduler (\<^verbatim>\<open>src/src/deepresearch/planning/query_scheduler.py\<close>): normalization, exact
  and semantic deduplication, and the concurrent dispatch of searches under the budget.  Unicode
  composition with case folding (\<open>cfold\<close>), the square root of the C library (\<open>fsqrt\<close>), the digest
  (\<open>sha\<close>), the embedder's vectors and the answers of the search provider are parameters.  A
  dispatch is a sequence of atomic events: between two awaits a task runs alone.
\<close>

section \<open>Normalization\<close>

text \<open>The code points of category P, up to 255.\<close>

definition punctuation :: "char \<Rightarrow> bool" where
  "punctuation c \<longleftrightarrow>
     c \<in> set ''!#%&()*,-./:;?@[]_{}'' \<or>
     c \<in> {CHR 0x22, CHR 0x27, CHR 0x5C, CHR 0xA1, CHR 0xA7, CHR 0xAB, CHR 0xB6, CHR 0xB7, CHR 0xBB, CHR 0xBF}"

fun squeeze :: "bool \<Rightarrow> string \<Rightarrow> string" where
  "squeeze prev [] = []"
| "squeeze prev (c # cs) =
     (if is_ws c then (if prev then squeeze True cs else CHR '' '' # squeeze True cs)
      else c # squeeze False cs)"

definition collapse_whitespace :: "string \<Rightarrow> string" where
  "collapse_whitespace s = strip (squeeze False s)"

definition normalize_query :: "(string \<Rightarrow> string) \<Rightarrow> string \<Rightarrow> string" where
  "normalize_query cfold q =
     collapse_whitespace (map (\<lambda>c. if punctuation c then CHR '' '' else c) (cfold q))"

section \<open>Deduplication\<close>

definition semantic_dedupe_threshold :: pyfloat where
  "semantic_dedupe_threshold = fl (92 / 100)"

definition cosine :: "(pyfloat \<Rightarrow> pyfloat) \<Rightarrow> pyfloat list \<Rightarrow> pyfloat list \<Rightarrow> exc + pyfloat" where
  "cosine fsqrt l r =
     (if length l \<noteq> length r \<or> l = [] then Inl (ValueError ''embedding dimensions must match and be non-empty'')
      else let dot = py_fsum (map (\<lambda>(a, b). fmul a b) (zip l r));
               left_norm = fsqrt (py_fsum (map (\<lambda>v. fmul v v) l));
               right_norm = fsqrt (py_fsum (map (\<lambda>v. fmul v v) r))
           in if \<not> isfinite dot \<or> \<not> isfinite left_norm \<or> \<not> isfinite right_norm
              then Inl (ValueError ''embedding values must be finite'')
              else if left_norm = Fin 0 \<or> right_norm = Fin 0 then Inr (Fin 0)
              else if fmul left_norm right_norm = Fin 0 then Inl ZeroDivisionError
              else Inr (fmax (Fin (- 1)) (fmin (Fin 1) (fdiv dot (fmul left_norm right_norm)))))"

text \<open>The first stage: one entry per normalized text, the first one with the largest hint.\<close>

definition exact_step :: "(string \<Rightarrow> string) \<Rightarrow> (query_candidate \<times> string) list \<Rightarrow> query_candidate \<Rightarrow>
    exc + (query_candidate \<times> string) list" where
  "exact_step cfold exact c =
     (let n = normalize_query cfold (qc_query c) in
      if n = [] then Inl (ValueError ''query normalizes to an empty string'')
      else case List.find (\<lambda>p. snd (exact ! p) = n) [0..<length exact] of
        None \<Rightarrow> Inr (exact @ [(c, n)])
      | Some p \<Rightarrow>
          if flt (qc_priority_hint (fst (exact ! p))) (qc_priority_hint c)
          then Inr (exact[p := (c, n)]) else Inr exact)"

type_synonym kept = "query_candidate \<times> string \<times> pyfloat list"

definition hint_of :: "kept \<Rightarrow> pyfloat" where
  "hint_of k = qc_priority_hint (fst k)"

fun matches_from :: "(pyfloat \<Rightarrow> pyfloat) \<Rightarrow> pyfloat list \<Rightarrow> nat \<Rightarrow> kept list \<Rightarrow> exc + nat list" where
  "matches_from fsqrt v i [] = Inr []"
| "matches_from fsqrt v i ((c, n, w) # ks) =
     rbind (cosine fsqrt v w) (\<lambda>s.
     rbind (matches_from fsqrt v (Suc i) ks) (\<lambda>is.
     Inr (if fle semantic_dedupe_threshold s then i # is else is)))"

text \<open>\<^verbatim>\<open>max(matches, key=...)\<close>: the first index whose hint no later one exceeds.\<close>

fun best_match :: "kept list \<Rightarrow> nat \<Rightarrow> nat list \<Rightarrow> nat" where
  "best_match kept b [] = b"
| "best_match kept b (i # is) =
     best_match kept (if flt (hint_of (kept ! b)) (hint_of (kept ! i)) then i else b) is"

definition drop_indices :: "nat list \<Rightarrow> kept list \<Rightarrow> kept list" where
  "drop_indices is ks = map (\<lambda>i. ks ! i) (filter (\<lambda>i. i \<notin> set is) [0..<length ks])"

definition insert_at :: "nat \<Rightarrow> 'a \<Rightarrow> 'a list \<Rightarrow> 'a list" where
  "insert_at i x xs = take i xs @ x # drop i xs"

definition semantic_step :: "(pyfloat \<Rightarrow> pyfloat) \<Rightarrow> kept list \<Rightarrow> kept \<Rightarrow> exc + kept list" where
  "semantic_step fsqrt ks k =
     rbind (matches_from fsqrt (snd (snd k)) 0 ks) (\<lambda>matches.
     case matches of
       [] \<Rightarrow> Inr (ks @ [k])
     | first # others \<Rightarrow>
         if flt (hint_of (ks ! best_match ks first others)) (hint_of k)
         then Inr (insert_at first k (drop_indices matches ks))
         else Inr (drop_indices others ks))"

definition embed_stage :: "(pyfloat \<Rightarrow> pyfloat) \<Rightarrow> pyfloat list list \<Rightarrow> (query_candidate \<times> string) list \<Rightarrow>
    exc + query_candidate list" where
  "embed_stage fsqrt vectors exact =
     (if length vectors \<noteq> length exact
      then Inl (ValueError ''embedder returned an unexpected number of vectors'')
      else rbind (foldM (semantic_step fsqrt) [] (map (\<lambda>((c, n), v). (c, n, v)) (zip exact vectors)))
             (\<lambda>kept. Inr (map fst kept)))"

text \<open>
  \<^verbatim>\<open>dedupe\<close>: the embedder, which may raise, is asked for the texts of the exact stage; the token is
  looked at before and after (\<open>c1\<close>, \<open>c2\<close>).
\<close>

definition raised :: "exc + 'a \<Rightarrow> (operation_cancelled + exc) + 'a" where
  "raised m = (case m of Inl e \<Rightarrow> Inl (Inr e) | Inr x \<Rightarrow> Inr x)"

definition dedupe_queries :: "(string \<Rightarrow> string) \<Rightarrow> (pyfloat \<Rightarrow> pyfloat) \<Rightarrow> bool \<Rightarrow> bool \<Rightarrow>
    (string list \<Rightarrow> exc + pyfloat list list) \<Rightarrow> query_candidate list \<Rightarrow>
    (operation_cancelled + exc) + query_candidate list" where
  "dedupe_queries cfold fsqrt c1 c2 embedder cands =
     rbind (raised (foldM (exact_step cfold) [] cands)) (\<lambda>exact.
     if exact = [] then Inr []
     else if c1 then Inl (Inl OperationCancelled)
     else rbind (raised (embedder (map (\<lambda>e. qc_query (fst e)) exact))) (\<lambda>vectors.
     if c2 then Inl (Inl OperationCancelled)
     else raised (embed_stage fsqrt vectors exact)))"

lemma raised_Inr [simp]: "raised m = Inr x \<longleftrightarrow> m = Inr x"
  and raised_of_Inr [simp]: "raised (Inr y) = Inr y"
  by (simp_all add: raised_def split: sum.split)

section \<open>Dispatch\<close>

datatype skip_reason = SkipBudget | SkipCancelled

datatype task_error = TaskExc exc | TaskCancelledError

text \<open>The answer of the provider; \<open>TaskInterrupted\<close> is asyncio cancelling the task.\<close>

datatype 'h answer = Hits "'h list" | SearchCancelled | SearchRaised exc | TaskInterrupted

datatype 'h outcome = Found string "'h list" | Skipped string skip_reason | FailedWith task_error

datatype 'h task = Waiting | Flying budget_reservation | Finished "'h outcome"

definition search_estimate :: "query_candidate \<Rightarrow> resource_estimate" where
  "search_estimate c =
     \<lparr>re_search_calls = max 1 (qc_estimated_search_calls c), re_pages = 0,
      re_tokens = qc_estimated_tokens c,
      re_wall_seconds = fmax (fl (1 / 1000)) (qc_estimated_seconds c),
      re_cost_usd = Some (Fin 0), re_retries = 0\<rparr>"

definition search_usage :: resource_usage where
  "search_usage = (usage_zero True)\<lparr>ru_search_calls := 1\<rparr>"

text \<open>
  A task up to the call of the provider.  The reservation it makes is a new object \<open>oid\<close>;
  \<open>cancelled\<close> is what the token says.
\<close>

definition start_search :: "(string \<Rightarrow> string) \<Rightarrow> (string \<Rightarrow> string) \<Rightarrow> nat \<Rightarrow> bool \<Rightarrow> accountant \<Rightarrow> query_candidate \<Rightarrow>
    'h task \<times> accountant" where
  "start_search cfold sha oid cancelled a c =
     (let n = normalize_query cfold (qc_query c) in
      if n = [] then (Finished (FailedWith (TaskExc (ValueError ''query normalizes to an empty string''))), a)
      else if cancelled then (Finished (Skipped n SkipCancelled), a)
      else case reserve sha oid a (search_estimate c) ''Tool'' (''search:'' @ sha n) of
        Inr (r, a') \<Rightarrow> (Flying r, a')
      | Inl (BudgetExceeded _ _) \<Rightarrow> (Finished (Skipped n SkipBudget), a)
      | Inl (BudgetError e) \<Rightarrow> (Finished (FailedWith (TaskExc e)), a))"

definition release_then :: "accountant \<Rightarrow> budget_reservation \<Rightarrow> 'h outcome \<Rightarrow> 'h task \<times> accountant" where
  "release_then a r out =
     (case release a r of
        Inl e \<Rightarrow> (Finished (FailedWith (TaskExc e)), a)
      | Inr (_, a') \<Rightarrow> (Finished out, a'))"

text \<open>
  The rest of the task: settle on success, release on cancellation and on every \<^verbatim>\<open>Exception\<close>;
  the cancellation of the asyncio task is no \<^verbatim>\<open>Exception\<close>.
\<close>

definition finish_search :: "(string \<Rightarrow> string) \<Rightarrow> bool \<Rightarrow> accountant \<Rightarrow> query_candidate \<Rightarrow> budget_reservation \<Rightarrow>
    'h answer \<Rightarrow> 'h task \<times> accountant" where
  "finish_search cfold cancelled a c r ans =
     (let n = normalize_query cfold (qc_query c) in
      case ans of
        TaskInterrupted \<Rightarrow> (Finished (FailedWith TaskCancelledError), a)
      | SearchCancelled \<Rightarrow> release_then a r (Skipped n SkipCancelled)
      | SearchRaised e \<Rightarrow> release_then a r (FailedWith (TaskExc e))
      | Hits hits \<Rightarrow>
          if cancelled then release_then a r (Skipped n SkipCancelled)
          else case settle a r search_usage True of
            Inr (_, a') \<Rightarrow> (Finished (Found n hits), a')
          | Inl e \<Rightarrow> release_then a r (FailedWith (TaskExc e)))"

record 'h dispatch_state =
  ds_acct :: accountant
  ds_tasks :: "'h task list"

datatype 'h dispatch_event = StartTask nat nat bool | FinishTask nat "'h answer" bool

definition flying :: "'h task list \<Rightarrow> nat" where
  "flying ts = length (filter (\<lambda>t. case t of Flying _ \<Rightarrow> True | _ \<Rightarrow> False) ts)"

text \<open>
  One event; \<open>None\<close> when it is not enabled: the semaphore holds back a task while
  \<open>max_concurrency\<close> others hold it.
\<close>

fun dispatch_step :: "(string \<Rightarrow> string) \<Rightarrow> (string \<Rightarrow> string) \<Rightarrow> nat \<Rightarrow> query_candidate list \<Rightarrow> 'h dispatch_state \<Rightarrow>
    'h dispatch_event \<Rightarrow> 'h dispatch_state option" where
  "dispatch_step cfold sha limit cs s (StartTask i oid cancelled) =
     (if i < length (ds_tasks s) \<and> ds_tasks s ! i = Waiting \<and> flying (ds_tasks s) < limit
      then let (t, a) = start_search cfold sha oid cancelled (ds_acct s) (cs ! i)
           in Some (s\<lparr>ds_acct := a, ds_tasks := (ds_tasks s)[i := t]\<rparr>)
      else None)"
| "dispatch_step cfold sha limit cs s (FinishTask i ans cancelled) =
     (if i < length (ds_tasks s)
      then (case ds_tasks s ! i of
              Flying r \<Rightarrow>
                (let (t, a) = finish_search cfold cancelled (ds_acct s) (cs ! i) r ans
                 in Some (s\<lparr>ds_acct := a, ds_tasks := (ds_tasks s)[i := t]\<rparr>))
            | _ \<Rightarrow> None)
      else None)"

fun dispatch_run :: "(string \<Rightarrow> string) \<Rightarrow> (string \<Rightarrow> string) \<Rightarrow> nat \<Rightarrow> query_candidate list \<Rightarrow> 'h dispatch_state \<Rightarrow>
    'h dispatch_event list \<Rightarrow> 'h dispatch_state option" where
  "dispatch_run cfold sha limit cs s [] = Some s"
| "dispatch_run cfold sha limit cs s (e # es) =
     Option.bind (dispatch_step cfold sha limit cs s e) (\<lambda>s'. dispatch_run cfold sha limit cs s' es)"

definition dispatch_start :: "accountant \<Rightarrow> query_candidate list \<Rightarrow> 'h dispatch_state" where
  "dispatch_start a cs = \<lparr>ds_acct = a, ds_tasks = replicate (length cs) Waiting\<rparr>"

record 'h batch_result =
  br_results :: "(string \<times> 'h list) list"
  br_executed_queries :: int
  br_skipped_queries :: "string list"
  br_skipped_reason :: "skip_reason option"

definition mk_batch :: "'h batch_result \<Rightarrow> exc + 'h batch_result" where
  "mk_batch b =
     (if br_executed_queries b < 0
      then Inl (ValueError ''executed_queries must be a non-negative integer'')
      else if br_executed_queries b \<noteq> int (length (br_results b))
      then Inl (ValueError ''executed_queries must match results length'')
      else if list_ex (\<lambda>q. q = []) (br_skipped_queries b)
      then Inl (ValueError ''skipped_queries must contain non-empty strings'')
      else if br_skipped_queries b \<noteq> [] \<and> br_skipped_reason b = None
      then Inl (ValueError ''skipped_reason is required when queries are skipped'')
      else Inr b)"

text \<open>What \<^verbatim>\<open>dispatch\<close> returns when all its tasks returned.\<close>

fun found_of :: "'h outcome \<Rightarrow> (string \<times> 'h list) option" where
  "found_of (Found n hits) = Some (n, hits)"
| "found_of _ = None"

fun skipped_of :: "'h outcome \<Rightarrow> (string \<times> skip_reason) option" where
  "skipped_of (Skipped n r) = Some (n, r)"
| "skipped_of _ = None"

definition gather :: "'h outcome list \<Rightarrow> exc + 'h batch_result" where
  "gather outs =
     (let pairs = sort_key fst (List.map_filter found_of outs);
          skips = List.map_filter skipped_of outs;
          reasons = map snd skips
      in mk_batch
           \<lparr>br_results = pairs, br_executed_queries = int (length pairs),
            br_skipped_queries = sort (remdups (map fst skips)),
            br_skipped_reason =
              (if SkipCancelled \<in> set reasons then Some SkipCancelled
               else if SkipBudget \<in> set reasons then Some SkipBudget else None)\<rparr>)"

section \<open>Every event is a sequence of accountant calls that stays within its reservation\<close>

lemma reserve_estimate:
  assumes "reserve H oid a est node key = Inr (r, a')"
  shows "br_estimate r = est" "valid_estimate est"
proof -
  show "valid_estimate est" using assms
    by (auto simp: reserve_def res_simps mk_estimate_Inr split: option.splits if_splits)
  show "br_estimate r = est" using assms by (cases rule: reserve_cases) auto
qed

definition search_reservation :: "budget_reservation \<Rightarrow> bool" where
  "search_reservation r \<longleftrightarrow> valid_estimate (br_estimate r) \<and> 1 \<le> re_search_calls (br_estimate r)"

lemma search_charges_within: "search_reservation r \<Longrightarrow> charges_within r (search_usage, True)"
  by (auto simp: charges_within_def search_reservation_def valid_estimate_def search_usage_def usage_zero_def)

definition covered_run :: "(string \<Rightarrow> string) \<Rightarrow> accountant \<Rightarrow> accountant \<Rightarrow> bool" where
  "covered_run sha a a' \<longleftrightarrow>
     (\<exists>ops. list_all (settles_covered charges_within) ops \<and> a' = acct_run sha a ops)"

lemma covered_run_refl [simp]: "covered_run sha a a"
  unfolding covered_run_def by (rule exI [of _ "[]"]) simp

lemma covered_run_trans: "covered_run sha a b \<Longrightarrow> covered_run sha b c \<Longrightarrow> covered_run sha a c"
  unfolding covered_run_def by (elim exE conjE, rule_tac x = "ops @ opsa" in exI) simp

lemma covered_run_op:
  "settles_covered charges_within op \<Longrightarrow> covered_run sha a (apply_op (reserve_req sha) settle_req release a op)"
  unfolding covered_run_def by (rule exI [of _ "[op]"]) simp

lemma release_covered: "release a r = Inr (z, a') \<Longrightarrow> covered_run sha a a'"
  using covered_run_op [of "OpRelease r" sha a] by (simp add: keep_def)

lemma settle_covered:
  "settle a r search_usage True = Inr (z, a') \<Longrightarrow> search_reservation r \<Longrightarrow> covered_run sha a a'"
  using covered_run_op [of "OpSettle r (search_usage, True)" sha a] search_charges_within
  by (simp add: keep_def)

lemma reserve_covered:
  "reserve sha oid a est node key = Inr (r, a') \<Longrightarrow>
     covered_run sha a a' \<and> br_estimate r = est \<and> valid_estimate (br_estimate r)"
  using covered_run_op [of "OpReserve (oid, est, node, key)" sha a] reserve_estimate
  by (simp add: keep_def)

lemma start_search_covered:
  assumes "start_search cfold sha oid cancelled a c = (t, a')"
  shows "covered_run sha a a' \<and> (\<forall>r. t = Flying r \<longrightarrow> search_reservation r)"
  using assms
  by (auto simp: start_search_def Let_def search_reservation_def search_estimate_def
      split: if_splits sum.splits budget_error.splits dest!: reserve_covered)

lemma release_then_covered:
  "release_then a r out = (t, a') \<Longrightarrow> covered_run sha a a' \<and> (\<exists>out'. t = Finished out')"
  by (auto simp: release_then_def split: sum.splits dest: release_covered)

lemma finish_search_covered:
  assumes "finish_search cfold cancelled a c r ans = (t, a')" "search_reservation r"
  shows "covered_run sha a a' \<and> (\<exists>out. t = Finished out)"
  using assms
  by (auto simp: finish_search_def Let_def split: if_splits sum.splits answer.splits
      dest: settle_covered release_then_covered [where sha = sha])

definition tasks_ok :: "'h task list \<Rightarrow> bool" where
  "tasks_ok ts \<longleftrightarrow> (\<forall>r. Flying r \<in> set ts \<longrightarrow> search_reservation r)"

lemma tasks_ok_update: "tasks_ok ts \<Longrightarrow> \<forall>r. t = Flying r \<longrightarrow> search_reservation r \<Longrightarrow> tasks_ok (ts[i := t])"
  by (auto simp: tasks_ok_def dest!: subsetD [OF set_update_subset_insert])

lemma dispatch_step_covered:
  fixes s s' :: "'h dispatch_state"
  assumes "dispatch_step cfold sha limit cs s e = Some s'" "tasks_ok (ds_tasks s)"
  shows "covered_run sha (ds_acct s) (ds_acct s') \<and> tasks_ok (ds_tasks s') \<and>
    length (ds_tasks s') = length (ds_tasks s)"
proof (cases e)
  case (StartTask i oid cancelled)
  obtain t :: "'h task" and a where st: "start_search cfold sha oid cancelled (ds_acct s) (cs ! i) = (t, a)" by fastforce
  with assms StartTask have "s' = s\<lparr>ds_acct := a, ds_tasks := (ds_tasks s)[i := t]\<rparr>"
    by (auto split: if_splits)
  with start_search_covered [OF st] assms(2) show ?thesis by (simp add: tasks_ok_update)
next
  case (FinishTask i ans cancelled)
  with assms obtain r where i: "i < length (ds_tasks s)" "ds_tasks s ! i = Flying r"
    by (auto split: if_splits task.splits)
  then have r: "search_reservation r" using assms(2) by (metis nth_mem tasks_ok_def)
  obtain t :: "'h task" and a where st: "finish_search cfold cancelled (ds_acct s) (cs ! i) r ans = (t, a)" by fastforce
  with assms FinishTask i have "s' = s\<lparr>ds_acct := a, ds_tasks := (ds_tasks s)[i := t]\<rparr>"
    by (auto split: if_splits)
  with finish_search_covered [OF st r, of sha] assms(2) show ?thesis by (auto simp: tasks_ok_update)
qed

lemma dispatch_run_covered:
  assumes "dispatch_run cfold sha limit cs s es = Some s'" "tasks_ok (ds_tasks s)"
  shows "covered_run sha (ds_acct s) (ds_acct s') \<and> tasks_ok (ds_tasks s') \<and>
    length (ds_tasks s') = length (ds_tasks s)"
  using assms
proof (induction es arbitrary: s)
  case (Cons e es)
  then obtain m where m: "dispatch_step cfold sha limit cs s e = Some m"
    "dispatch_run cfold sha limit cs m es = Some s'" by (auto split: bind_splits)
  from dispatch_step_covered [OF m(1) Cons.prems(2)] Cons.IH [OF m(2)] show ?case
    by (auto intro: covered_run_trans)
qed simp

lemma tasks_ok_start [simp]: "tasks_ok (ds_tasks (dispatch_start a cs))"
  by (simp add: tasks_ok_def dispatch_start_def)

end
