(* ===== verification/Query_Scheduler_Correct.thy ===== *)
theory Query_Scheduler_Correct
  imports Query_Scheduler
begin

text \<open>
  Properties of the query scheduler: a dispatch stays within the budget and reports every query,
  what happens to a query that is dispatched twice on one accountant, and what semantic
  deduplication keeps.
\<close>

section \<open>Outcomes carry the normalized query\<close>

fun outcome_of :: "string \<Rightarrow> 'h outcome \<Rightarrow> bool" where
  "outcome_of n (Found m hits) \<longleftrightarrow> m = n \<and> n \<noteq> []"
| "outcome_of n (Skipped m r) \<longleftrightarrow> m = n \<and> n \<noteq> []"
| "outcome_of n (FailedWith e) \<longleftrightarrow> True"

fun task_of :: "string \<Rightarrow> 'h task \<Rightarrow> bool" where
  "task_of n Waiting \<longleftrightarrow> True"
| "task_of n (Flying r) \<longleftrightarrow> n \<noteq> []"
| "task_of n (Finished out) \<longleftrightarrow> outcome_of n out"

abbreviation query_name :: "(string \<Rightarrow> string) \<Rightarrow> query_candidate \<Rightarrow> string" where
  "query_name cfold c \<equiv> normalize_query cfold (qc_query c)"

lemma start_search_named: "start_search cfold sha oid cancelled a c = (t, a') \<Longrightarrow> task_of (query_name cfold c) t"
  by (auto simp: start_search_def Let_def split: if_splits sum.splits budget_error.splits)

lemma finish_search_named:
  "finish_search cfold cancelled a c r ans = (t, a') \<Longrightarrow> query_name cfold c \<noteq> [] \<Longrightarrow> task_of (query_name cfold c) t"
  by (auto simp: finish_search_def release_then_def Let_def split: if_splits sum.splits answer.splits)

definition tasks_named :: "(string \<Rightarrow> string) \<Rightarrow> query_candidate list \<Rightarrow> 'h task list \<Rightarrow> bool" where
  "tasks_named cfold cs ts \<longleftrightarrow> list_all2 (\<lambda>c t. task_of (query_name cfold c) t) cs ts"

lemma tasks_named_update:
  "tasks_named cfold cs ts \<Longrightarrow> task_of (query_name cfold (cs ! i)) t \<Longrightarrow> tasks_named cfold cs (ts[i := t])"
  unfolding tasks_named_def list_all2_conv_all_nth
  by (metis length_list_update nth_list_update_eq nth_list_update_neq)

lemma dispatch_step_named:
  fixes s s' :: "'h dispatch_state"
  assumes "dispatch_step cfold sha limit cs s e = Some s'" "tasks_named cfold cs (ds_tasks s)"
  shows "tasks_named cfold cs (ds_tasks s')"
proof (cases e)
  case (StartTask i oid cancelled)
  obtain t :: "'h task" and a where st: "start_search cfold sha oid cancelled (ds_acct s) (cs ! i) = (t, a)"
    by fastforce
  with assms(1) StartTask have "s' = s\<lparr>ds_acct := a, ds_tasks := (ds_tasks s)[i := t]\<rparr>"
    by (auto split: if_splits)
  with start_search_named [OF st] assms(2) show ?thesis by (simp add: tasks_named_update)
next
  case (FinishTask i ans cancelled)
  with assms(1) obtain r where i: "i < length (ds_tasks s)" "ds_tasks s ! i = Flying r"
    by (auto split: if_splits task.splits)
  with assms(2) have n: "query_name cfold (cs ! i) \<noteq> []"
    unfolding tasks_named_def list_all2_conv_all_nth by (metis task_of.simps(2))
  obtain t :: "'h task" and a where st: "finish_search cfold cancelled (ds_acct s) (cs ! i) r ans = (t, a)"
    by fastforce
  with assms FinishTask i have "s' = s\<lparr>ds_acct := a, ds_tasks := (ds_tasks s)[i := t]\<rparr>"
    by (auto split: if_splits)
  with finish_search_named [OF st n] assms(2) show ?thesis by (simp add: tasks_named_update)
qed

lemma dispatch_run_named:
  assumes "dispatch_run cfold sha limit cs s es = Some s'" "tasks_named cfold cs (ds_tasks s)"
  shows "tasks_named cfold cs (ds_tasks s')"
  using assms
proof (induction es arbitrary: s)
  case (Cons e es)
  then obtain m where m: "dispatch_step cfold sha limit cs s e = Some m"
    "dispatch_run cfold sha limit cs m es = Some s'" by (auto split: bind_splits)
  from dispatch_step_named [OF m(1) Cons.prems(2)] Cons.IH [OF m(2)] show ?case by blast
qed simp

lemma tasks_named_start: "tasks_named cfold cs (ds_tasks (dispatch_start a cs))"
  by (simp add: tasks_named_def dispatch_start_def list_all2_conv_all_nth)

section \<open>Gathering the outcomes\<close>

lemma map_filter_Cons: "List.map_filter f (x # xs) = (case f x of None \<Rightarrow> List.map_filter f xs | Some y \<Rightarrow> y # List.map_filter f xs)"
  by (simp add: List.map_filter_def split: option.split)

lemma outcomes_split:
  assumes "list_all2 (\<lambda>c out. outcome_of (query_name cfold c) out) cs outs" "\<forall>out\<in>set outs. \<forall>e. out \<noteq> FailedWith e"
  shows "fst ` set (List.map_filter found_of outs) \<union> fst ` set (List.map_filter skipped_of outs)
      = query_name cfold ` set cs \<and>
    length (List.map_filter found_of outs) + length (List.map_filter skipped_of outs) = length cs \<and>
    (\<forall>n\<in>fst ` set (List.map_filter skipped_of outs). n \<noteq> [])"
  using assms
proof (induction rule: list_all2_induct)
  case (Cons c cs out outs)
  then show ?case by (cases out) (auto simp: map_filter_Cons)
qed (simp add: List.map_filter_def)

lemma gather_Inr:
  fixes outs :: "'h outcome list"
  assumes "\<forall>n\<in>fst ` set (List.map_filter skipped_of outs). n \<noteq> []"
  obtains b where "gather outs = Inr b" "br_results b = sort_key fst (List.map_filter found_of outs)"
    "br_executed_queries b = int (length (List.map_filter found_of outs))"
    "br_skipped_queries b = sort (remdups (map fst (List.map_filter skipped_of outs)))"
    "br_skipped_reason b = None \<longleftrightarrow> List.map_filter skipped_of outs = []"
proof -
  define skips where "skips = List.map_filter skipped_of outs"
  define reason where "reason =
    (if SkipCancelled \<in> set (map snd skips) then Some SkipCancelled
     else if SkipBudget \<in> set (map snd skips) then Some SkipBudget else None)"
  have reason: "reason = None \<longleftrightarrow> skips = []"
  proof (cases skips)
    case (Cons p ps)
    then show ?thesis by (cases "snd p") (auto simp: reason_def)
  qed (simp add: reason_def)
  let ?b = "\<lparr>br_results = sort_key fst (List.map_filter found_of outs),
    br_executed_queries = int (length (List.map_filter found_of outs)),
    br_skipped_queries = sort (remdups (map fst skips)), br_skipped_reason = reason\<rparr> :: 'h batch_result"
  have "sort (remdups (map fst skips)) \<noteq> [] \<longrightarrow> reason \<noteq> None" using reason by auto
  moreover have "\<not> list_ex (\<lambda>q. q = []) (sort (remdups (map fst skips)))"
    using assms by (auto simp: list_ex_iff skips_def)
  ultimately have "gather outs = Inr ?b"
    unfolding gather_def Let_def mk_batch_def skips_def [symmetric] reason_def [symmetric] by auto
  then show thesis using reason by (intro that [of ?b]) (simp_all add: skips_def)
qed

section \<open>A small dispatch\<close>

definition demo_query :: query_candidate where
  "demo_query = \<lparr>qc_subquestion_id = ''q'', qc_information_need_id = ''n'', qc_query = ''Llm, agents'',
     qc_priority_hint = Fin 1, qc_estimated_tokens = 100, qc_estimated_search_calls = 1,
     qc_estimated_seconds = Fin 1\<rparr>"

definition demo_dispatched :: "string dispatch_state" where
  "demo_dispatched = \<lparr>ds_acct = demo_accountant, ds_tasks = [Finished (Skipped ''Llm agents'' SkipCancelled)]\<rparr>"

lemma demo_query_name: "normalize_query id (qc_query demo_query) = ''Llm agents''"
  by code_simp

lemma demo_dispatch:
  "dispatch_run id id 2 [demo_query] (dispatch_start demo_accountant [demo_query]) [StartTask 0 7 True] =
     Some demo_dispatched"
  by (simp add: dispatch_start_def flying_def start_search_def demo_query_name demo_dispatched_def)

lemma demo_search_estimate: "valid_estimate (search_estimate demo_query)"
proof -
  obtain r where "fl (1 / 1000) = Fin r" "0 \<le> r" using fl_unit [of "1 / 1000"] by auto
  then show ?thesis by (auto simp: search_estimate_def valid_estimate_def demo_query_def fmax_def)
qed

definition demo_search_reservation :: budget_reservation where
  "demo_search_reservation = \<lparr>br_oid = 7, br_reservation_id = ''i'', br_idempotency_key = ''search:Llm agents'',
     br_node = Tool, br_estimate = search_estimate demo_query\<rparr>"

definition demo_released :: "budget_snapshot \<Rightarrow> accountant" where
  "demo_released snap = demo_accountant\<lparr>
     ac_states := [(''i'', \<lparr>rs_reservation = demo_search_reservation, rs_status = Released,
                            rs_terminal_snapshot = Some snap\<rparr>)],
     ac_idempotency_index := [''search:Llm agents'' \<mapsto> ''i'']\<rparr>"

section \<open>Properties of dispatch\<close>



text \<open>
  A dispatch whose tasks all return accounts for every query: it builds its result without an
  error, counts exactly the searches that were answered, sorts results and skipped queries, lists
  each skipped query once, gives a reason exactly when one was skipped, and every query asked for
  is among the results or the skipped ones and nothing else is.
\<close>

theorem dispatch_reports_all:
  assumes "dispatch_run cfold sha limit cs (dispatch_start a cs) es = Some s"
    and "ds_tasks s = map Finished outs" "\<forall>out\<in>set outs. \<forall>e. out \<noteq> FailedWith e"
  shows "\<exists>b. gather outs = Inr b \<and>
    br_executed_queries b = int (length (br_results b)) \<and>
    br_executed_queries b + int (length (List.map_filter skipped_of outs)) = int (length cs) \<and>
    sorted (map fst (br_results b)) \<and> sorted (br_skipped_queries b) \<and> distinct (br_skipped_queries b) \<and>
    set (map fst (br_results b)) \<union> set (br_skipped_queries b) = query_name cfold ` set cs \<and>
    (br_skipped_reason b = None \<longleftrightarrow> br_skipped_queries b = [])"
proof -
  have "list_all2 (\<lambda>c out. outcome_of (query_name cfold c) out) cs outs"
    using dispatch_run_named [OF assms(1) tasks_named_start] assms(2)
    by (simp add: tasks_named_def list_all2_map2)
  from outcomes_split [OF this assms(3)] have
    names: "fst ` set (List.map_filter found_of outs) \<union> fst ` set (List.map_filter skipped_of outs)
      = query_name cfold ` set cs" and
    count: "length (List.map_filter found_of outs) + length (List.map_filter skipped_of outs) = length cs" and
    ne: "\<forall>n\<in>fst ` set (List.map_filter skipped_of outs). n \<noteq> []" by auto
  obtain b where b: "gather outs = Inr b" "br_results b = sort_key fst (List.map_filter found_of outs)"
    "br_executed_queries b = int (length (List.map_filter found_of outs))"
    "br_skipped_queries b = sort (remdups (map fst (List.map_filter skipped_of outs)))"
    "br_skipped_reason b = None \<longleftrightarrow> List.map_filter skipped_of outs = []"
    using gather_Inr [OF ne] by blast
  have "sorted (map fst (br_results b))" unfolding b by (rule sorted_sort_key)
  moreover have "br_skipped_queries b = [] \<longleftrightarrow> List.map_filter skipped_of outs = []"
    by (simp add: b flip: set_empty)
  ultimately show ?thesis using b names count by (intro exI [of _ b]) auto
qed

theorem dispatch_reports_all_witness:
  "\<exists>b. gather [Skipped ''Llm agents'' SkipCancelled :: string outcome] = Inr b \<and>
    set (map fst (br_results b)) \<union> set (br_skipped_queries b) = {''Llm agents''}"
proof -
  have "ds_tasks demo_dispatched = map Finished [Skipped ''Llm agents'' SkipCancelled]"
    by (simp add: demo_dispatched_def)
  from dispatch_reports_all [OF demo_dispatch this] show ?thesis by (auto simp: demo_query_name)
qed

text \<open>
  A query that is dispatched again on the same accountant, with the same estimate, takes the
  first reservation up again.  If that one was settled, the new search is run but not charged.
  If it was released, because the first search failed or was cancelled, the new search is run,
  its hits are thrown away, and the task fails with the error of the accountant.
\<close>

theorem repeated_query:
  assumes "n = query_name cfold c" "n \<noteq> []" "valid_estimate (search_estimate c)"
    and "ac_idempotency_index a (''search:'' @ sha n) = Some i" "dget (ac_states a) i = Some st"
    and "rs_reservation st = r" "br_reservation_id r = i" "br_node r = Tool"
    and "br_estimate r = search_estimate c" "rs_terminal_snapshot st = Some snap"
  shows "start_search cfold sha oid False a c = (Flying r, a) \<and>
    (rs_status st = Settled \<longrightarrow> finish_search cfold False a c r (Hits hits) = (Finished (Found n hits), a)) \<and>
    (rs_status st = Released \<longrightarrow> finish_search cfold False a c r (Hits hits) =
       (Finished (FailedWith (TaskExc (ValueError ''cannot settle a released reservation''))), a))"
proof -
  have node: "node_of_name ''Tool'' = Some Tool" by (simp add: node_of_name_def)
  have cost: "re_cost_usd (search_estimate c) = Some (Fin 0)" by (simp add: search_estimate_def)
  have res: "reserve sha oid a (search_estimate c) ''Tool'' (''search:'' @ sha n) = Inr (r, a)"
    using assms(3-9) by (simp add: reserve_def node mk_estimate_def cost Let_def)
  have own: "owned_state a r = Inr st" using assms(5,6,7) by (simp add: owned_state_Inr)
  have "start_search cfold sha oid False a c = (Flying r, a)"
    using assms(1,2) res by (simp add: start_search_def Let_def)
  moreover have "finish_search cfold False a c r (Hits hits) = (Finished (Found n hits), a)"
    if "rs_status st = Settled"
    using that assms(1,10) own by (simp add: finish_search_def settle_def Let_def)
  moreover have "finish_search cfold False a c r (Hits hits) =
      (Finished (FailedWith (TaskExc (ValueError ''cannot settle a released reservation''))), a)"
    if "rs_status st = Released"
    using that assms(10) own by (simp add: finish_search_def settle_def release_def release_then_def Let_def)
  ultimately show ?thesis by blast
qed

theorem repeated_query_witness:
  "\<forall>snap. start_search id id 9 False (demo_released snap) demo_query = (Flying demo_search_reservation, demo_released snap) \<and>
   finish_search id False (demo_released snap) demo_query demo_search_reservation (Hits [''hit'']) =
     (Finished (FailedWith (TaskExc (ValueError ''cannot settle a released reservation''))), demo_released snap)"
proof
  fix snap
  show "start_search id id 9 False (demo_released snap) demo_query = (Flying demo_search_reservation, demo_released snap) \<and>
   finish_search id False (demo_released snap) demo_query demo_search_reservation (Hits [''hit'']) =
     (Finished (FailedWith (TaskExc (ValueError ''cannot settle a released reservation''))), demo_released snap)"
  using repeated_query [of "''Llm agents''" id demo_query "demo_released snap" id "''i''"
      "\<lparr>rs_reservation = demo_search_reservation, rs_status = Released, rs_terminal_snapshot = Some snap\<rparr>"
      demo_search_reservation snap 9 "[''hit'']"]
  by (simp add: demo_query_name demo_search_estimate demo_released_def demo_search_reservation_def)
qed

section \<open>What deduplication keeps\<close>

lemma fmul_comm: "fmul a b = fmul b a"
  by (cases a; cases b) (simp_all add: mult.commute)

lemma cosine_comm: "cosine fsqrt v w = cosine fsqrt w v"
proof (cases "length v = length w \<and> v \<noteq> []")
  case True
  have "map (\<lambda>(a, b). fmul a b) (zip v w) = map (\<lambda>(a, b). fmul a b) (zip w v)"
    by (subst zip_commute) (auto simp: comp_def fmul_comm)
  moreover from True have "w \<noteq> []" by auto
  ultimately show ?thesis using True
    by (auto simp: cosine_def Let_def fmul_comm [of "fsqrt (py_fsum (map (\<lambda>x. fmul x x) v))"])
qed (auto simp: cosine_def)

definition similar :: "(pyfloat \<Rightarrow> pyfloat) \<Rightarrow> kept \<Rightarrow> kept \<Rightarrow> bool" where
  "similar fsqrt k l \<longleftrightarrow>
     (\<exists>x. cosine fsqrt (snd (snd k)) (snd (snd l)) = Inr x \<and> fle semantic_dedupe_threshold x)"

lemma similar_comm: "similar fsqrt k l \<longleftrightarrow> similar fsqrt l k"
  by (simp add: similar_def cosine_comm [of fsqrt "snd (snd k)"])

lemma matches_from_Inr:
  "matches_from fsqrt (snd (snd k)) i ks = Inr is \<Longrightarrow>
     is = map ((+) i) (filter (\<lambda>j. similar fsqrt k (ks ! j)) [0..<length ks])"
proof (induction ks arbitrary: i "is")
  case (Cons l ks)
  obtain c n w where l: "l = (c, n, w)" by (cases l)
  from Cons.prems obtain x js where x: "cosine fsqrt (snd (snd k)) w = Inr x"
    and js: "matches_from fsqrt (snd (snd k)) (Suc i) ks = Inr js"
    and eq: "is = (if fle semantic_dedupe_threshold x then i # js else js)"
    by (auto simp: l res_simps)
  have "[0..<length (l # ks)] = 0 # map Suc [0..<length ks]"
    by (simp add: upt_conv_Cons map_Suc_upt del: upt_Suc)
  then have "map ((+) i) (filter (\<lambda>j. similar fsqrt k ((l # ks) ! j)) [0..<length (l # ks)]) =
      (if similar fsqrt k l then [i] else []) @
      map ((+) (Suc i)) (filter (\<lambda>j. similar fsqrt k (ks ! j)) [0..<length ks])"
    by (simp add: filter_map comp_def)
  moreover have "similar fsqrt k l \<longleftrightarrow> fle semantic_dedupe_threshold x"
    by (simp add: similar_def l x)
  ultimately show ?case using Cons.IH [OF js] by (simp add: eq)
qed simp

definition dissimilar_list :: "(pyfloat \<Rightarrow> pyfloat) \<Rightarrow> kept list \<Rightarrow> bool" where
  "dissimilar_list fsqrt ks \<longleftrightarrow> sorted_wrt (\<lambda>k l. \<not> similar fsqrt k l) ks"

lemma nths_drop_indices: "drop_indices is ks = nths ks (- set is)"
proof -
  have "nths ks A = map ((!) ks) (filter (\<lambda>i. i \<in> A) [0..<length ks])" for A
    by (induction ks rule: rev_induct) (auto simp: nths_append nth_append cong: map_cong)
  then show ?thesis by (simp add: drop_indices_def)
qed

lemma subseq_sorted_wrt: "subseq xs ys \<Longrightarrow> sorted_wrt P ys \<Longrightarrow> sorted_wrt P xs"
proof (induction xs ys rule: list_emb.induct)
  case (list_emb_Cons2 x y xs ys)
  then show ?case by (auto dest: list_emb_set)
qed auto

lemma dissimilar_drop: "dissimilar_list fsqrt ks \<Longrightarrow> dissimilar_list fsqrt (drop_indices is ks)"
  unfolding dissimilar_list_def nths_drop_indices by (metis subseq_sorted_wrt subseq_conv_nths)

lemma dissimilar_insert:
  assumes "dissimilar_list fsqrt ks" "\<forall>l\<in>set ks. \<not> similar fsqrt k l"
  shows "dissimilar_list fsqrt (insert_at i k ks)"
proof -
  have "set (take i ks) \<subseteq> set ks" "set (drop i ks) \<subseteq> set ks"
    by (auto dest: in_set_takeD in_set_dropD)
  moreover have "sorted_wrt (\<lambda>k l. \<not> similar fsqrt k l) (take i ks @ drop i ks)"
    using assms(1) by (simp add: dissimilar_list_def)
  ultimately show ?thesis using assms(2) unfolding dissimilar_list_def insert_at_def sorted_wrt_append
    by (auto simp: similar_comm [of fsqrt _ k])
qed

lemma semantic_step_keeps:
  assumes "semantic_step fsqrt ks k = Inr ks'" "dissimilar_list fsqrt ks"
  shows "dissimilar_list fsqrt ks' \<and> set ks' \<subseteq> insert k (set ks)"
proof -
  from assms(1) obtain ms where ms: "matches_from fsqrt (snd (snd k)) 0 ks = Inr ms"
    by (auto simp: semantic_step_def res_simps)
  have m: "ms = filter (\<lambda>j. similar fsqrt k (ks ! j)) [0..<length ks]"
    using matches_from_Inr [OF ms] by (simp add: map_idI)
  have rest: "\<forall>l\<in>set (drop_indices ms ks). \<not> similar fsqrt k l"
    by (auto simp: drop_indices_def m)
  have sub: "set (drop_indices is ks) \<subseteq> set ks" for "is" by (auto simp: drop_indices_def)
  show ?thesis
  proof (cases ms)
    case Nil
    then have "ks' = insert_at (length ks) k ks" and "drop_indices ms ks = ks"
      using assms(1) by (auto simp: semantic_step_def ms insert_at_def drop_indices_def map_nth)
    moreover have "dissimilar_list fsqrt (insert_at (length ks) k ks)"
      by (rule dissimilar_insert [OF assms(2)]) (use rest \<open>drop_indices ms ks = ks\<close> in simp)
    ultimately show ?thesis by (auto simp: insert_at_def)
  next
    case (Cons first others)
    then consider "ks' = insert_at first k (drop_indices ms ks)" | "ks' = drop_indices others ks"
      using assms(1) by (auto simp: semantic_step_def ms split: if_splits)
    then show ?thesis
    proof cases
      case 1
      have "set ks' \<subseteq> insert k (set (drop_indices ms ks))"
        by (auto simp: 1 insert_at_def dest: in_set_takeD in_set_dropD)
      with sub [of ms] dissimilar_insert [OF dissimilar_drop [OF assms(2)] rest] 1 show ?thesis by blast
    next
      case 2
      with sub [of others] dissimilar_drop [OF assms(2)] show ?thesis by blast
    qed
  qed
qed

lemma insert_at_mset: "mset (insert_at i x xs) = add_mset x (mset xs)"
  by (simp add: insert_at_def) (metis append_take_drop_id mset_append)

lemma distinct_map_drop: "distinct (map f ks) \<Longrightarrow> distinct (map f (drop_indices is ks))"
  by (simp add: nths_drop_indices nths_map [symmetric] distinct_nthsI)

lemma semantic_step_shape:
  "semantic_step fsqrt ks k = Inr ks' \<Longrightarrow>
     \<exists>i is. ks' = insert_at i k (drop_indices is ks) \<or> ks' = drop_indices is ks"
proof -
  assume step: "semantic_step fsqrt ks k = Inr ks'"
  then obtain ms where ms: "matches_from fsqrt (snd (snd k)) 0 ks = Inr ms"
    by (auto simp: semantic_step_def res_simps)
  show ?thesis
  proof (cases ms)
    case Nil
    then have "ks' = insert_at (length ks) k (drop_indices [] ks)"
      using step by (simp add: semantic_step_def ms insert_at_def drop_indices_def map_nth)
    then show ?thesis by blast
  next
    case (Cons first others)
    then have "ks' = insert_at first k (drop_indices ms ks) \<or> ks' = drop_indices others ks"
      using step by (auto simp: semantic_step_def ms split: if_splits)
    then show ?thesis by blast
  qed
qed

lemma semantic_step_distinct:
  assumes "semantic_step fsqrt ks k = Inr ks'" "distinct (map f ks)" "f k \<notin> f ` set ks"
  shows "distinct (map f ks')"
proof -
  have ins: "distinct (map f (insert_at i k (drop_indices is ks)))" for i "is"
  proof -
    have "mset (map f (insert_at i k (drop_indices is ks))) = mset (map f (k # drop_indices is ks))"
      by (simp add: insert_at_mset)
    moreover have "set (drop_indices is ks) \<subseteq> set ks" by (auto simp: drop_indices_def)
    then have "distinct (map f (k # drop_indices is ks))" using assms(2,3) by (auto simp: distinct_map_drop)
    ultimately show ?thesis by (metis mset_eq_imp_distinct_iff)
  qed
  show ?thesis using semantic_step_shape [OF assms(1)] assms(2) ins by (auto simp: distinct_map_drop)
qed

lemma disjoint_step: "A \<subseteq> insert a B \<Longrightarrow> a \<notin> C \<Longrightarrow> B \<inter> C = {} \<Longrightarrow> A \<inter> C = {}"
  by blast

lemma semantic_stage_keeps:
  assumes "foldM (semantic_step fsqrt) ks xs = Inr ks'" "dissimilar_list fsqrt ks"
    and "distinct (map f ks)" "distinct (map f xs)" "f ` set ks \<inter> f ` set xs = {}"
  shows "dissimilar_list fsqrt ks' \<and> distinct (map f ks') \<and> set ks' \<subseteq> set ks \<union> set xs"
  using assms
proof (induction xs arbitrary: ks)
  case (Cons x xs)
  then obtain ms where ms: "semantic_step fsqrt ks x = Inr ms" "foldM (semantic_step fsqrt) ms xs = Inr ks'"
    by (auto simp: res_simps)
  have "dissimilar_list fsqrt ms" and sub: "set ms \<subseteq> insert x (set ks)"
    using semantic_step_keeps [OF ms(1) Cons.prems(2)] by auto
  moreover have "distinct (map f ms)"
    by (rule semantic_step_distinct [OF ms(1) Cons.prems(3)]) (use Cons.prems(5) in auto)
  moreover have "f ` set ms \<inter> f ` set xs = {}"
  proof -
    have "f ` set ms \<subseteq> insert (f x) (f ` set ks)" using image_mono [OF sub, of f] by simp
    moreover have "f x \<notin> f ` set xs" using Cons.prems(4) by simp
    moreover have "f ` set ks \<inter> f ` set xs = {}" using Cons.prems(5) by (simp add: Int_insert_right split: if_splits)
    ultimately show ?thesis by (rule disjoint_step)
  qed
  moreover have "distinct (map f xs)" using Cons.prems(4) by simp
  ultimately have "dissimilar_list fsqrt ks' \<and> distinct (map f ks') \<and> set ks' \<subseteq> set ms \<union> set xs"
    using Cons.IH [OF ms(2)] by simp
  with sub show ?case by fastforce
qed simp

text \<open>The exact stage: one entry per text, and none with a smaller hint than another candidate.\<close>

definition exact_ok :: "(string \<Rightarrow> string) \<Rightarrow> query_candidate set \<Rightarrow> (query_candidate \<times> string) list \<Rightarrow> bool" where
  "exact_ok cfold C exact \<longleftrightarrow>
     distinct (map snd exact) \<and>
     (\<forall>(c, n)\<in>set exact. c \<in> C \<and> n = query_name cfold c) \<and>
     (\<forall>c\<in>C. \<exists>(d, n)\<in>set exact. n = query_name cfold c \<and> fle (qc_priority_hint c) (qc_priority_hint d))"

lemma fle_unit: "unit x \<Longrightarrow> unit y \<Longrightarrow> \<not> flt x y \<Longrightarrow> fle y x"
  by (auto elim!: unitE)

lemma fle_unit_trans: "fle x y \<Longrightarrow> flt y z \<Longrightarrow> unit x \<Longrightarrow> unit y \<Longrightarrow> unit z \<Longrightarrow> fle x z"
  by (auto elim!: unitE)

lemma exact_step_ok:
  assumes "exact_step cfold exact c = Inr exact'" "exact_ok cfold C exact"
    and "\<forall>d\<in>insert c C. unit (qc_priority_hint d)"
  shows "exact_ok cfold (insert c C) exact'"
proof -
  let ?n = "query_name cfold c" and ?h = qc_priority_hint
  have len: "\<forall>(d, n)\<in>set exact. d \<in> C \<and> n = query_name cfold d" and dist: "distinct (map snd exact)"
    and best: "\<forall>d\<in>C. \<exists>(e, n)\<in>set exact. n = query_name cfold d \<and> fle (?h d) (?h e)"
    using assms(2) by (simp_all add: exact_ok_def)
  have refl: "fle (?h c) (?h c)" using assms(3) by (auto elim!: unitE)
  show ?thesis
  proof (cases "List.find (\<lambda>p. snd (exact ! p) = ?n) [0..<length exact]")
    case None
    then have "\<forall>p<length exact. snd (exact ! p) \<noteq> ?n" by (simp add: find_None_iff)
    then have new: "?n \<notin> snd ` set exact" by (metis imageE in_set_conv_nth)
    have "exact' = exact @ [(c, ?n)]" using assms(1) None by (auto simp: exact_step_def Let_def split: if_splits)
    with len dist best new refl show ?thesis by (fastforce simp: exact_ok_def)
  next
    case (Some p)
    then have p: "p < length exact" "snd (exact ! p) = ?n" by (auto simp: find_Some_iff)
    obtain d where d: "exact ! p = (d, ?n)" using p by (cases "exact ! p") auto
    then have mem: "(d, ?n) \<in> set exact" using p nth_mem by metis
    with len have dC: "d \<in> C" "?n = query_name cfold d" by auto
    then have units: "unit (?h c)" "unit (?h d)" using assms(3) by auto
    show ?thesis
    proof (cases "flt (?h d) (?h c)")
      case False
      then have "exact' = exact" using assms(1) Some d by (auto simp: exact_step_def Let_def split: if_splits)
      moreover have "\<exists>(e, n)\<in>set exact. n = ?n \<and> fle (?h c) (?h e)"
        using mem fle_unit [OF units(2,1) False] by blast
      ultimately show ?thesis using len dist best by (auto simp: exact_ok_def)
    next
      case True
      then have e': "exact' = exact[p := (c, ?n)]"
        using assms(1) Some d by (auto simp: exact_step_def Let_def split: if_splits)
      have names: "map snd exact' = map snd exact"
        unfolding e' map_update using p by (simp add: list_update_same_conv)
      have keep: "q \<in> set exact'" if "q \<in> set exact" "snd q \<noteq> ?n" for q
        using that p unfolding e' by (metis in_set_conv_nth length_list_update nth_list_update_neq)
      have c': "(c, ?n) \<in> set exact'" unfolding e' using p(1) by (rule set_update_memI)
      have "\<exists>(e, n)\<in>set exact'. n = query_name cfold b \<and> fle (?h b) (?h e)" if "b \<in> C" for b
      proof -
        obtain e where e: "(e, query_name cfold b) \<in> set exact" "fle (?h b) (?h e)"
          using best \<open>b \<in> C\<close> by blast
        show ?thesis
        proof (cases "query_name cfold b = ?n")
          case False
          with keep [OF e(1)] e(2) show ?thesis by auto
        next
          case same: True
          have "inj_on snd (set exact)" using dist by (simp add: distinct_map)
          from inj_onD [OF this _ e(1) mem] same have "e = d" by simp
          then have "fle (?h b) (?h c)"
            using fle_unit_trans [OF _ True, of "?h b"] e(2) units assms(3) \<open>b \<in> C\<close> by auto
          with same c' show ?thesis by auto
        qed
      qed
      moreover have "\<forall>(a, n)\<in>set exact'. a \<in> insert c C \<and> n = query_name cfold a"
        using len set_update_subset_insert [of exact p "(c, ?n)"] unfolding e' by auto
      ultimately show ?thesis using dist names c' refl by (auto simp: exact_ok_def)
    qed
  qed
qed

lemma exact_stage_ok:
  assumes "foldM (exact_step cfold) exact cs = Inr exact'" "exact_ok cfold C exact"
    and "\<forall>d\<in>set cs \<union> C. unit (qc_priority_hint d)"
  shows "exact_ok cfold (set cs \<union> C) exact'"
  using assms
proof (induction cs arbitrary: exact C)
  case (Cons c cs)
  then obtain m where m: "exact_step cfold exact c = Inr m" "foldM (exact_step cfold) m cs = Inr exact'"
    by (auto simp: res_simps)
  have "exact_ok cfold (insert c C) m" using exact_step_ok [OF m(1) Cons.prems(2)] Cons.prems(3) by simp
  from Cons.IH [OF m(2) this] Cons.prems(3) show ?case by simp
qed simp

text \<open>
  Deduplication returns candidates it was given; no two of them have the same normalized
  text or embeddings as similar as the threshold; and each has the largest priority hint among
  the candidates with its text.
\<close>

theorem dedupe_queries_keeps:
  assumes "dedupe_queries cfold fsqrt c1 c2 embedder cands = Inr out"
    and "\<forall>c\<in>set cands. unit (qc_priority_hint c)"
  shows "set out \<subseteq> set cands \<and> distinct (map (query_name cfold) out) \<and>
    (\<forall>c\<in>set out. \<forall>d\<in>set cands. query_name cfold d = query_name cfold c \<longrightarrow>
       fle (qc_priority_hint d) (qc_priority_hint c)) \<and>
    (\<exists>ks. out = map fst ks \<and> dissimilar_list fsqrt ks)"
proof -
  obtain exact where ex: "foldM (exact_step cfold) [] cands = Inr exact"
    and rest: "exact = [] \<and> out = [] \<or> exact \<noteq> [] \<and> (\<exists>vs. embed_stage fsqrt vs exact = Inr out)"
    using assms(1) by (auto simp: dedupe_queries_def res_simps split: if_splits)
  have ok: "exact_ok cfold (set cands) exact"
    using exact_stage_ok [OF ex, of "{}"] assms(2) by (simp add: exact_ok_def)
  have best: "fle (qc_priority_hint d) (qc_priority_hint c)"
    if "(c, query_name cfold c) \<in> set exact" "d \<in> set cands" "query_name cfold d = query_name cfold c" for c d
  proof -
    obtain e where e: "(e, query_name cfold c) \<in> set exact" "fle (qc_priority_hint d) (qc_priority_hint e)"
    proof -
      have "\<forall>c\<in>set cands. \<exists>(e, n)\<in>set exact. n = query_name cfold c \<and> fle (qc_priority_hint c) (qc_priority_hint e)"
        using ok by (simp add: exact_ok_def)
      from bspec [OF this \<open>d \<in> set cands\<close>] obtain e where "(e, query_name cfold d) \<in> set exact"
        "fle (qc_priority_hint d) (qc_priority_hint e)" by blast
      with \<open>query_name cfold d = query_name cfold c\<close> show thesis by (intro that) auto
    qed
    have "inj_on snd (set exact)" using ok by (simp add: exact_ok_def distinct_map)
    from inj_onD [OF this _ e(1) that(1)] e(2) show ?thesis by simp
  qed
  show ?thesis
  proof (cases "exact = []")
    case True
    with rest have "out = []" by simp
    then show ?thesis by (intro conjI exI [of _ "[]"]) (simp_all add: dissimilar_list_def)
  next
    case False
    then obtain vs where vs: "embed_stage fsqrt vs exact = Inr out" using rest by blast
    define xs where "xs = map (\<lambda>((c, n), v). (c, n, v)) (zip exact vs)"
    have len: "length vs = length exact" using vs by (auto simp: embed_stage_def split: if_splits)
    obtain ks where ks: "foldM (semantic_step fsqrt) [] xs = Inr ks" "out = map fst ks"
      using vs len by (auto simp: embed_stage_def xs_def res_simps split: if_splits)
    have "map (\<lambda>k. (fst k, fst (snd k))) xs = exact"
      using len by (simp add: xs_def comp_def case_prod_unfold map_fst_zip_take)
    note exact = this [symmetric]
    have "distinct (map snd (map (\<lambda>k. (fst k, fst (snd k))) xs))" using ok exact by (simp add: exact_ok_def)
    then have "distinct (map (\<lambda>k. fst (snd k)) xs)" by (simp add: comp_def)
    from semantic_stage_keeps [OF ks(1) _ _ this] have
      ks': "dissimilar_list fsqrt ks" "distinct (map (\<lambda>k. fst (snd k)) ks)" "set ks \<subseteq> set xs"
      by (simp_all add: dissimilar_list_def)
    have named: "fst k \<in> set cands \<and> fst (snd k) = query_name cfold (fst k) \<and>
        (fst k, query_name cfold (fst k)) \<in> set exact" if "k \<in> set ks" for k
    proof -
      have eq: "set exact = (\<lambda>k. (fst k, fst (snd k))) ` set xs" by (simp only: exact set_map)
      from imageI [OF subsetD [OF ks'(3) that], of "\<lambda>k. (fst k, fst (snd k))"]
      have mem: "(fst k, fst (snd k)) \<in> set exact" unfolding eq .
      have "\<forall>(c, n)\<in>set exact. c \<in> set cands \<and> n = query_name cfold c" using ok by (simp add: exact_ok_def)
      from bspec [OF this mem] mem show ?thesis by simp
    qed
    have "map (query_name cfold) out = map (\<lambda>k. fst (snd k)) ks"
      unfolding ks(2) map_map by (rule map_cong) (auto simp: named)
    then have "distinct (map (query_name cfold) out)" using ks'(2) by simp
    moreover have "set out \<subseteq> set cands" unfolding ks(2) set_map by (rule image_subsetI) (rule conjunct1 [OF named])
    moreover have "fle (qc_priority_hint d) (qc_priority_hint c)"
      if "c \<in> set out" "d \<in> set cands" "query_name cfold d = query_name cfold c" for c d
    proof -
      from that(1) obtain k where "k \<in> set ks" "c = fst k" unfolding ks(2) set_map by (elim imageE)
      with named have "(c, query_name cfold c) \<in> set exact" by simp
      from best [OF this that(2,3)] show ?thesis .
    qed
    moreover have "\<exists>ks. out = map fst ks \<and> dissimilar_list fsqrt ks"
      using ks(2) ks'(1) by (intro exI conjI)
    ultimately show ?thesis by (intro conjI ballI impI)
  qed
qed

lemma demo_dedupe: "dedupe_queries id id False False (\<lambda>_. Inr [[Fin 1]]) [demo_query] = Inr [demo_query]"
  by (simp add: dedupe_queries_def exact_step_def demo_query_name Let_def embed_stage_def semantic_step_def)

theorem dedupe_queries_keeps_witness:
  "set [demo_query] \<subseteq> {demo_query} \<and> distinct (map (query_name id) [demo_query])"
  using dedupe_queries_keeps [OF demo_dedupe] by (simp add: demo_query_def)

section \<open>Deduplication can drop the best query\<close>

definition vector_query :: "string \<Rightarrow> rat \<Rightarrow> query_candidate" where
  "vector_query q hint = demo_query\<lparr>qc_query := q, qc_priority_hint := Fin hint\<rparr>"

text \<open>Three vectors of length 1, 169 and 13 (the square root is given on their squares).\<close>

definition demo_sqrt :: "pyfloat \<Rightarrow> pyfloat" where
  "demo_sqrt x = (if x = Fin 28561 then Fin 169 else if x = Fin 169 then Fin 13 else x)"

lemma demo_fl: "fl (numeral n) = Fin (numeral n)" if "(numeral n :: int) < 2 ^ 53"
  using fl_int [of "numeral n"] that by simp

lemma demo_fl_neg: "fl (- numeral n) = Fin (- numeral n)" if "(numeral n :: int) < 2 ^ 53"
  using fl_int [of "- numeral n"] that by simp

lemma demo_sums [simp]:
  "py_fsum [Fin 14161, Fin 14400] = Fin 28561" "py_fsum [Fin 1428, Fin 600] = Fin 2028"
  "py_fsum [Fin 144, Fin 25] = Fin 169" "py_fsum [Fin 119, Fin 0] = Fin 119"
  "py_fsum [Fin 1, Fin 0] = Fin 1" "py_fsum [Fin 12, Fin 0] = Fin 12"
  by (simp_all add: py_fsum_def demo_fl demo_fl_neg fsub_def Let_def)

lemma clip_cosine: "0 \<le> r \<Longrightarrow> r \<le> 1 \<Longrightarrow> fmax (Fin (- 1)) (fmin (Fin 1) (fl r)) = Fin (rnd r)"
  using fl_unit [of r] by (auto simp: fmax_def fmin_def)

lemma demo_cosines:
  "cosine demo_sqrt [Fin 119, Fin 120] [Fin 1, Fin 0] = Inr (Fin (rnd (119 / 169)))"
  "cosine demo_sqrt [Fin 12, Fin 5] [Fin 1, Fin 0] = Inr (Fin (rnd (12 / 13)))"
  "cosine demo_sqrt [Fin 12, Fin 5] [Fin 119, Fin 120] = Inr (Fin (rnd (2028 / 2197)))"
  by (simp_all add: cosine_def Let_def demo_sqrt_def clip_cosine demo_fl)

lemma demo_threshold: "semantic_dedupe_threshold = Fin (rnd (92 / 100))"
  using fl_unit [of "92 / 100"] by (simp add: semantic_dedupe_threshold_def)

lemma demo_similarities:
  "\<not> fle semantic_dedupe_threshold (Fin (rnd (119 / 169)))"
  "fle semantic_dedupe_threshold (Fin (rnd (12 / 13)))"
  "fle semantic_dedupe_threshold (Fin (rnd (2028 / 2197)))"
proof -
  have "rnd (119 / 169) \<le> rnd (3 / 4)" "rnd (7 / 8) \<le> rnd (92 / 100)" by (rule rnd_mono; simp)+
  moreover have "rnd (3 / 4) = 3 / 4" "rnd (7 / 8) = 7 / 8" by code_simp+
  ultimately show "\<not> fle semantic_dedupe_threshold (Fin (rnd (119 / 169)))" by (simp add: demo_threshold)
  show "fle semantic_dedupe_threshold (Fin (rnd (12 / 13)))"
    unfolding demo_threshold fle.simps by (rule rnd_mono) simp
  show "fle semantic_dedupe_threshold (Fin (rnd (2028 / 2197)))"
    unfolding demo_threshold fle.simps by (rule rnd_mono) simp
qed

text \<open>
  Semantic deduplication can keep the worst of a cluster.  The best and the worst query are not
  similar to each other; a third query, between them, is similar to both: it is dropped because
  the best one beats it, and the best one is dropped with it, because only the first match is kept.
\<close>

theorem best_query_dropped:
  "dedupe_queries id demo_sqrt False False (\<lambda>_. Inr [[Fin 1, Fin 0], [Fin 119, Fin 120], [Fin 12, Fin 5]])
     [vector_query ''worst'' (1 / 8), vector_query ''best'' (7 / 8), vector_query ''middle'' (1 / 2)] =
   Inr [vector_query ''worst'' (1 / 8)]"
proof -
  have names: "normalize_query id ''worst'' = ''worst''" "normalize_query id ''best'' = ''best''"
    "normalize_query id ''middle'' = ''middle''" by code_simp+
  have exact: "foldM (exact_step id) []
      [vector_query ''worst'' (1 / 8), vector_query ''best'' (7 / 8), vector_query ''middle'' (1 / 2)] =
    Inr [(vector_query ''worst'' (1 / 8), ''worst''), (vector_query ''best'' (7 / 8), ''best''),
         (vector_query ''middle'' (1 / 2), ''middle'')]"
    by (simp add: exact_step_def vector_query_def names Let_def)
  show ?thesis unfolding dedupe_queries_def exact
    by (simp add: embed_stage_def semantic_step_def demo_cosines demo_similarities hint_of_def
        vector_query_def drop_indices_def)
qed

end
