(* ===== verification/Citations.thy ===== *)
theory Citations
  imports Domain_Evidence
begin

text \<open>
  The claim-evidence graph and the citation guard of a report
  (\<^verbatim>\<open>src/src/deepresearch/evidence/graph.py\<close>, \<^verbatim>\<open>citation_guard.py\<close>).  The digests and the
  material store behind \<^verbatim>\<open>CitationMaterialResolver\<close> are parameters.
\<close>

section \<open>The graph (\<^verbatim>\<open>graph.py\<close>)\<close>

record claim_evidence_graph =
  cg_claims :: "(string, claim) dict"
  cg_evidence :: "(string, evidence_span) dict"
  cg_links :: "claim_evidence_link list"

definition empty_graph :: claim_evidence_graph where
  "empty_graph = \<lparr>cg_claims = [], cg_evidence = [], cg_links = []\<rparr>"

definition add_claim :: "claim \<Rightarrow> claim_evidence_graph \<Rightarrow> exc + claim_evidence_graph" where
  "add_claim c g =
     (if cm_claim_id c \<in> set (dkeys (cg_claims g))
      then Inl (ValueError (''duplicate claim: '' @ cm_claim_id c))
      else Inr (g\<lparr>cg_claims := dput (cm_claim_id c) c (cg_claims g)\<rparr>))"

definition add_evidence :: "evidence_span \<Rightarrow> claim_evidence_graph \<Rightarrow> exc + claim_evidence_graph" where
  "add_evidence e g =
     (if es_evidence_id e \<in> set (dkeys (cg_evidence g))
      then Inl (ValueError (''duplicate evidence: '' @ es_evidence_id e))
      else Inr (g\<lparr>cg_evidence := dput (es_evidence_id e) e (cg_evidence g)\<rparr>))"

definition add_link :: "claim_evidence_link \<Rightarrow> claim_evidence_graph \<Rightarrow> exc + claim_evidence_graph" where
  "add_link l g =
     (if lk_claim_id l \<notin> set (dkeys (cg_claims g)) then Inl (ValueError ''unknown claim'')
      else if lk_evidence_id l \<notin> set (dkeys (cg_evidence g)) then Inl (ValueError ''unknown evidence'')
      else if l \<in> set (cg_links g) then Inl (ValueError ''duplicate link'')
      else Inr (g\<lparr>cg_links := cg_links g @ [l]\<rparr>))"

text \<open>The values of the literals, which order links and appear in JSON.\<close>

fun relation_name :: "relation \<Rightarrow> string" where
  "relation_name Support = ''support''"
| "relation_name Contradict = ''contradict''"
| "relation_name Context = ''context''"
| "relation_name Insufficient = ''insufficient''"

fun claim_type_name :: "claim_type \<Rightarrow> string" where
  "claim_type_name Fact = ''fact''"
| "claim_type_name Numeric = ''numeric''"
| "claim_type_name Comparison = ''comparison''"
| "claim_type_name Trend = ''trend''"
| "claim_type_name Causal = ''causal''"
| "claim_type_name Limitation = ''limitation''"

fun verification_name :: "verification_status \<Rightarrow> string" where
  "verification_name Supported = ''supported''"
| "verification_name Contradicted = ''contradicted''"
| "verification_name Uncertain = ''uncertain''"
| "verification_name Unsupported = ''unsupported''"

definition links_for_claim :: "claim_evidence_graph \<Rightarrow> string \<Rightarrow> claim_evidence_link list" where
  "links_for_claim g cid =
     sort_key (\<lambda>l. [lk_evidence_id l, relation_name (lk_relation l)])
       (filter (\<lambda>l. lk_claim_id l = cid) (cg_links g))"

text \<open>The loop of \<^verbatim>\<open>validate\<close> over the links, with the set \<open>seen\<close> of links already visited.\<close>

fun graph_errors :: "claim_evidence_graph \<Rightarrow> claim_evidence_link set \<Rightarrow> string set \<Rightarrow>
    claim_evidence_link list \<Rightarrow> string set" where
  "graph_errors g seen errs [] = errs"
| "graph_errors g seen errs (l # ls) =
     (let e1 = (if lk_claim_id l \<notin> set (dkeys (cg_claims g)) then insert ''UNKNOWN_CLAIM'' errs else errs);
          e2 = (if lk_evidence_id l \<notin> set (dkeys (cg_evidence g)) then insert ''UNKNOWN_EVIDENCE'' e1 else e1);
          e3 = (if l \<in> seen then insert ''DUPLICATE_LINK'' e2 else e2)
      in graph_errors g (insert l seen) e3 ls)"

definition graph_error_codes :: "claim_evidence_graph \<Rightarrow> string list" where
  "graph_error_codes g =
     filter (\<lambda>c. c \<in> graph_errors g {} {} (cg_links g))
       [''DUPLICATE_LINK'', ''UNKNOWN_CLAIM'', ''UNKNOWN_EVIDENCE'']"

text \<open>\<^verbatim>\<open>validate\<close>: the sorted error codes; the graph is valid when there is none.\<close>

record graph_result =
  gr_valid :: bool
  gr_error_codes :: "string list"

definition graph_validate :: "claim_evidence_graph \<Rightarrow> graph_result" where
  "graph_validate g = \<lparr>gr_valid = (graph_error_codes g = []), gr_error_codes = graph_error_codes g\<rparr>"

text \<open>\<^verbatim>\<open>to_json\<close>, with \<^verbatim>\<open>model_dump(mode="json")\<close> of the three records.\<close>

definition jstrs :: "string list \<Rightarrow> json" where
  "jstrs ss = JList (map JStr ss)"

fun locator_json :: "locator \<Rightarrow> json" where
  "locator_json (HtmlLocator p s e) =
     JDict [(''kind'', JStr ''html''), (''paragraph_id'', JStr p), (''start_char'', JInt s), (''end_char'', JInt e)]"
| "locator_json (PdfLocator p b s e) =
     JDict [(''kind'', JStr ''pdf''), (''page_index'', JInt p), (''block_index'', JInt b),
            (''start_char'', JInt s), (''end_char'', JInt e)]"

definition claim_json :: "claim \<Rightarrow> json" where
  "claim_json c = JDict
     [(''claim_id'', JStr (cm_claim_id c)), (''text'', JStr (cm_text c)),
      (''claim_type'', JStr (claim_type_name (cm_claim_type c))), (''entities'', jstrs (cm_entities c)),
      (''numbers'', jstrs (cm_numbers c)), (''qualifiers'', jstrs (cm_qualifiers c)),
      (''report_section'', JStr (cm_report_section c)),
      (''verification_status'', JStr (verification_name (cm_verification_status c)))]"

definition span_json :: "evidence_span \<Rightarrow> json" where
  "span_json e = JDict
     [(''evidence_id'', JStr (es_evidence_id e)), (''source_id'', JStr (es_source_id e)),
      (''locator'', locator_json (es_locator e)), (''excerpt'', JStr (es_excerpt e)),
      (''excerpt_hash'', JStr (es_excerpt_hash e)), (''language'', JStr (es_language e)),
      (''information_need_ids'', jstrs (es_information_need_ids e))]"

definition link_json :: "claim_evidence_link \<Rightarrow> json" where
  "link_json l = JDict
     [(''claim_id'', JStr (lk_claim_id l)), (''evidence_id'', JStr (lk_evidence_id l)),
      (''relation'', JStr (relation_name (lk_relation l))),
      (''entailment_score'', JFloat (lk_entailment_score l)),
      (''relevance_score'', JFloat (lk_relevance_score l)), (''judge_model'', JStr (lk_judge_model l)),
      (''prompt_version'', JStr (lk_prompt_version l)), (''decision_code'', JStr (lk_decision_code l))]"

definition graph_json :: "claim_evidence_graph \<Rightarrow> (string, json) dict" where
  "graph_json g =
     [(''claims'', JList (map (\<lambda>k. claim_json (the (dget (cg_claims g) k))) (sort (dkeys (cg_claims g))))),
      (''evidence'', JList (map (\<lambda>k. span_json (the (dget (cg_evidence g) k))) (sort (dkeys (cg_evidence g))))),
      (''links'', JList (map link_json
         (sort_key (\<lambda>l. [lk_claim_id l, lk_evidence_id l, relation_name (lk_relation l)]) (cg_links g))))]"

section \<open>Citations in a report (\<^verbatim>\<open>citation_guard.py\<close>)\<close>

text \<open>The characters of \<^verbatim>\<open>[A-Za-z0-9_-]\<close>.\<close>

definition id_char :: "char \<Rightarrow> bool" where
  "id_char c \<longleftrightarrow> CHR ''A'' \<le> c \<and> c \<le> CHR ''Z'' \<or> CHR ''a'' \<le> c \<and> c \<le> CHR ''z'' \<or>
     CHR ''0'' \<le> c \<and> c \<le> CHR ''9'' \<or> c = CHR ''_'' \<or> c = CHR ''-''"

text \<open>
  A match of \<^verbatim>\<open>\[(E-[A-Za-z0-9_-]+)\]\<close> at the start of a string.  No character of the class is
  the closing bracket, so the longest run is the only candidate; a match holds one opening
  bracket, so matches never overlap and every position may be tried.
\<close>

definition citation_at :: "string \<Rightarrow> string option" where
  "citation_at s =
     (if take 3 s = ''[E-'' then
        let body = takeWhile id_char (drop 3 s); rest = dropWhile id_char (drop 3 s)
        in if body \<noteq> [] \<and> take 1 rest = '']'' then Some (''E-'' @ body) else None
      else None)"

definition citation_start :: "string \<Rightarrow> bool" where
  "citation_start s \<longleftrightarrow> take 2 s = ''[E''"

fun tails :: "string \<Rightarrow> string list" where
  "tails [] = []"
| "tails (c # cs) = (c # cs) # tails cs"

definition found_citations :: "string \<Rightarrow> string list" where
  "found_citations report = List.map_filter citation_at (tails report)"

definition malformed :: "string \<Rightarrow> bool" where
  "malformed report \<longleftrightarrow> list_ex (\<lambda>s. citation_start s \<and> citation_at s = None) (tails report)"

text \<open>\<^verbatim>\<open>_extract_citation_ids\<close>: distinct ids in order of appearance, at most one error.\<close>

definition extract_citation_ids :: "string \<Rightarrow> string list \<times> string list" where
  "extract_citation_ids report =
     (fromkeys (found_citations report), if malformed report then [''malformed citation''] else [])"

text \<open>What the resolver answers: one of the caught exceptions, a value of the wrong type, or text.\<close>

datatype material = Unavailable | WrongType | Material string

record resolver =
  raw_bytes_for_source :: "string \<Rightarrow> material"
  normalized_document_text :: "string \<Rightarrow> material"
  html_paragraph_text :: "string \<Rightarrow> string \<Rightarrow> material"
  pdf_block_text :: "string \<Rightarrow> int \<Rightarrow> int \<Rightarrow> material"

record guard_result =
  gd_valid :: bool
  gd_errors :: "string list"
  gd_checked_citation_ids :: "string list"

definition append_error :: "string list \<Rightarrow> string \<Rightarrow> string list" where
  "append_error errors m = (if m \<in> set errors then errors else errors @ [m])"

text \<open>\<^verbatim>\<open>_linked_evidence_ids\<close> reads the JSON form of the graph.\<close>

fun link_evidence_id :: "json \<Rightarrow> string option" where
  "link_evidence_id (JDict kvs) = (case dget kvs ''evidence_id'' of Some (JStr i) \<Rightarrow> Some i | _ \<Rightarrow> None)"
| "link_evidence_id _ = None"

definition linked_evidence_ids :: "claim_evidence_graph \<Rightarrow> string set" where
  "linked_evidence_ids g =
     (case dget (graph_json g) ''links'' of
        Some (JList ls) \<Rightarrow> set (List.map_filter link_evidence_id ls)
      | _ \<Rightarrow> {})"

text \<open>\<^verbatim>\<open>_resolve_container\<close>: the text the locator points into, or an error message.\<close>

definition resolve_container :: "resolver \<Rightarrow> evidence_span \<Rightarrow> string + string" where
  "resolve_container mats sp =
     (case (case es_locator sp of
              HtmlLocator p _ _ \<Rightarrow> html_paragraph_text mats (es_source_id sp) p
            | PdfLocator pg b _ _ \<Rightarrow> pdf_block_text mats (es_source_id sp) pg b) of
        Material t \<Rightarrow> Inr t
      | _ \<Rightarrow> Inl (''locator material unavailable: '' @ es_evidence_id sp))"

definition slice :: "string \<Rightarrow> int \<Rightarrow> int \<Rightarrow> string" where
  "slice t s e = take (nat e - nat s) (drop (nat s) t)"

text \<open>The body of the loop over the citations: the errors one citation adds, in order.\<close>

definition check_source :: "(string \<Rightarrow> string) \<Rightarrow> (string \<Rightarrow> string) \<Rightarrow> resolver \<Rightarrow> string \<Rightarrow> evidence_span \<Rightarrow>
    source_document \<Rightarrow> string option" where
  "check_source sha_bytes sha_text mats cid sp source =
     (if sd_source_id source \<noteq> es_source_id sp
      then Some (''source ID mismatch: '' @ es_source_id sp)
      else case raw_bytes_for_source mats (es_source_id sp) of
        Unavailable \<Rightarrow> Some (''raw material unavailable: '' @ es_source_id sp)
      | WrongType \<Rightarrow> Some (''content hash mismatch: '' @ es_source_id sp)
      | Material raw \<Rightarrow>
          if sha_bytes raw \<noteq> sd_content_hash source
          then Some (''content hash mismatch: '' @ es_source_id sp)
          else case normalized_document_text mats (es_source_id sp) of
            Unavailable \<Rightarrow> Some (''parsed material unavailable: '' @ es_source_id sp)
          | WrongType \<Rightarrow> Some (''parsed content hash mismatch: '' @ es_source_id sp)
          | Material parsed \<Rightarrow>
              if sha_text parsed \<noteq> sd_parsed_content_hash source
              then Some (''parsed content hash mismatch: '' @ es_source_id sp)
              else case resolve_container mats sp of
                Inl err \<Rightarrow> Some err
              | Inr container \<Rightarrow>
                  let s = start_char (es_locator sp); e = end_char (es_locator sp)
                  in if \<not> (0 \<le> s \<and> s < e \<and> e \<le> int (length container))
                     then Some (''locator out of bounds: '' @ cid)
                     else if slice container s e \<noteq> es_excerpt sp \<or>
                             sha_text (slice container s e) \<noteq> es_excerpt_hash sp
                     then Some (''excerpt hash mismatch: '' @ cid)
                     else None)"

definition check_citation :: "(string \<Rightarrow> string) \<Rightarrow> (string \<Rightarrow> string) \<Rightarrow> resolver \<Rightarrow> string set \<Rightarrow>
    (string, evidence_span) dict \<Rightarrow> (string, source_document) dict \<Rightarrow> string list \<Rightarrow> string \<Rightarrow> string list" where
  "check_citation sha_bytes sha_text mats linked evidence sources errors cid =
     (case dget evidence cid of
        None \<Rightarrow> append_error errors (''unknown citation: '' @ cid)
      | Some sp \<Rightarrow>
          if es_evidence_id sp \<noteq> cid then append_error errors (''evidence ID mismatch: '' @ cid)
          else let errors1 = (if cid \<notin> linked then append_error errors (''citation has no graph link: '' @ cid)
                              else errors)
               in case dget sources (es_source_id sp) of
                    None \<Rightarrow> append_error errors1 (''unknown source: '' @ es_source_id sp)
                  | Some source \<Rightarrow>
                      (case check_source sha_bytes sha_text mats cid sp source of
                         None \<Rightarrow> errors1
                       | Some err \<Rightarrow> append_error errors1 err))"

definition guard_verify :: "(string \<Rightarrow> string) \<Rightarrow> (string \<Rightarrow> string) \<Rightarrow> resolver \<Rightarrow> string \<Rightarrow> claim_evidence_graph \<Rightarrow>
    (string, evidence_span) dict \<Rightarrow> (string, source_document) dict \<Rightarrow> guard_result" where
  "guard_verify sha_bytes sha_text mats report g evidence sources =
     (let (ids, parse_errors) = extract_citation_ids report;
          errors1 = foldl (\<lambda>es c. append_error es (''graph validation error: '' @ c)) parse_errors
                      (gr_error_codes (graph_validate g));
          errors = foldl (check_citation sha_bytes sha_text mats (linked_evidence_ids g) evidence sources) errors1 ids
      in \<lparr>gd_valid = (errors = []), gd_errors = errors, gd_checked_citation_ids = ids\<rparr>)"

section \<open>Graphs that were built are valid\<close>

datatype graph_op = AddClaim claim | AddEvidence evidence_span | AddLink claim_evidence_link

fun graph_step :: "graph_op \<Rightarrow> claim_evidence_graph \<Rightarrow> exc + claim_evidence_graph" where
  "graph_step (AddClaim c) g = add_claim c g"
| "graph_step (AddEvidence e) g = add_evidence e g"
| "graph_step (AddLink l) g = add_link l g"

text \<open>A program that goes on after an error: the refused operation changed nothing.\<close>

fun run_graph :: "claim_evidence_graph \<Rightarrow> graph_op list \<Rightarrow> claim_evidence_graph" where
  "run_graph g [] = g"
| "run_graph g (op # ops) = run_graph (case graph_step op g of Inl _ \<Rightarrow> g | Inr g' \<Rightarrow> g') ops"

definition graph_inv :: "claim_evidence_graph \<Rightarrow> bool" where
  "graph_inv g \<longleftrightarrow> distinct (dkeys (cg_claims g)) \<and> distinct (dkeys (cg_evidence g)) \<and> distinct (cg_links g) \<and>
     (\<forall>k c. dget (cg_claims g) k = Some c \<longrightarrow> cm_claim_id c = k) \<and>
     (\<forall>k e. dget (cg_evidence g) k = Some e \<longrightarrow> es_evidence_id e = k) \<and>
     (\<forall>l\<in>set (cg_links g). lk_claim_id l \<in> set (dkeys (cg_claims g)) \<and> lk_evidence_id l \<in> set (dkeys (cg_evidence g)))"

lemma graph_inv_empty: "graph_inv empty_graph"
  by (simp add: graph_inv_def empty_graph_def)

lemma graph_inv_step: "graph_inv g \<Longrightarrow> graph_step op g = Inr g' \<Longrightarrow> graph_inv g'"
  by (cases op) (auto simp: graph_inv_def add_claim_def add_evidence_def add_link_def distinct_update
      dom_update split: if_splits, force+)

lemma graph_inv_run: "graph_inv g \<Longrightarrow> graph_inv (run_graph g ops)"
  by (induction ops arbitrary: g) (auto split: sum.split dest: graph_inv_step)

lemma graph_errors_none:
  assumes "\<forall>l\<in>set ls. lk_claim_id l \<in> set (dkeys (cg_claims g)) \<and> lk_evidence_id l \<in> set (dkeys (cg_evidence g))"
    and "distinct ls" "set ls \<inter> seen = {}"
  shows "graph_errors g seen errs ls = errs"
  using assms by (induction ls arbitrary: seen) auto

lemma graph_errors_mono: "errs \<subseteq> graph_errors g seen errs ls"
  by (induction ls arbitrary: seen errs) (auto simp: Let_def, (meson insert_subset subset_iff)+)

lemma graph_inv_valid: "graph_inv g \<Longrightarrow> graph_validate g = \<lparr>gr_valid = True, gr_error_codes = []\<rparr>"
  by (simp add: graph_validate_def graph_error_codes_def graph_errors_none graph_inv_def)

section \<open>What the guard accepts\<close>

lemma append_error_simps [simp]:
  "append_error es m \<noteq> []" "set (append_error es m) = insert m (set es)"
  "distinct es \<Longrightarrow> distinct (append_error es m)"
  by (auto simp: append_error_def)

lemma linked_evidence_ids_eq: "linked_evidence_ids g = lk_evidence_id ` set (cg_links g)"
proof -
  have "link_evidence_id (link_json l) = Some (lk_evidence_id l)" for l
    by (simp add: link_json_def)
  then have "List.map_filter link_evidence_id (map link_json ls) = map lk_evidence_id ls" for ls
    by (induction ls) (simp_all add: List.map_filter_def)
  then show ?thesis by (simp add: linked_evidence_ids_def graph_json_def)
qed

lemma tails_drop: "set (tails s) = {drop i s |i. i < length s}"
proof (induction s)
  case (Cons c cs)
  have "{drop i (c # cs) |i. i < length (c # cs)} = insert (c # cs) {drop i cs |i. i < length cs}"
  proof (rule Set.set_eqI, rule iffI)
    fix x assume "x \<in> {drop i (c # cs) |i. i < length (c # cs)}"
    then obtain i where "x = drop i (c # cs)" "i < Suc (length cs)" by auto
    then show "x \<in> insert (c # cs) {drop i cs |i. i < length cs}" by (cases i) auto
  next
    fix x assume "x \<in> insert (c # cs) {drop i cs |i. i < length cs}"
    then consider "x = drop 0 (c # cs)" | i where "x = drop (Suc i) (c # cs)" "i < length cs" by auto
    then show "x \<in> {drop i (c # cs) |i. i < length (c # cs)}"
      by cases (force simp del: drop_0 drop_Suc_Cons)+
  qed
  with Cons show ?case by simp
qed simp

text \<open>The scanner against the shape of a citation.\<close>

lemma id_char_bracket [simp]: "\<not> id_char CHR '']''"
  by (simp add: id_char_def less_eq_char_def)

lemma citation_at_iff:
  "citation_at s = Some c \<longleftrightarrow>
     (\<exists>body rest. s = ''[E-'' @ body @ '']'' @ rest \<and> body \<noteq> [] \<and> list_all id_char body \<and> c = ''E-'' @ body)"
    (is "?L \<longleftrightarrow> ?R")
proof
  assume ?L
  then have 1: "take 3 s = ''[E-''" and 2: "takeWhile id_char (drop 3 s) \<noteq> []"
    and 3: "take 1 (dropWhile id_char (drop 3 s)) = '']''" and 4: "c = ''E-'' @ takeWhile id_char (drop 3 s)"
    by (simp_all add: citation_at_def Let_def split: if_splits)
  have "s = take 3 s @ takeWhile id_char (drop 3 s) @ dropWhile id_char (drop 3 s)" by simp
  moreover from 3 have "dropWhile id_char (drop 3 s) = '']'' @ drop 1 (dropWhile id_char (drop 3 s))"
    by (metis append_take_drop_id)
  ultimately have "s = ''[E-'' @ takeWhile id_char (drop 3 s) @ '']'' @ drop 1 (dropWhile id_char (drop 3 s))"
    using 1 by metis
  moreover have "list_all id_char (takeWhile id_char (drop 3 s))"
    by (auto simp: list_all_iff dest: set_takeWhileD)
  ultimately show ?R using 2 4 by blast
next
  assume ?R
  then obtain body rest where s: "s = ''[E-'' @ body @ '']'' @ rest" and b: "body \<noteq> []" "list_all id_char body"
    and c: "c = ''E-'' @ body" by blast
  have d: "drop 3 s = body @ CHR '']'' # rest" "take 3 s = ''[E-''" by (simp_all add: s)
  have t: "takeWhile id_char (drop 3 s) = body" "dropWhile id_char (drop 3 s) = CHR '']'' # rest"
    using b(2) by (simp_all add: d list_all_iff takeWhile_append dropWhile_append)
  show ?L unfolding citation_at_def Let_def t d(2) using b(1) by (simp add: c)
qed

definition cited :: "string \<Rightarrow> string \<Rightarrow> bool" where
  "cited report c \<longleftrightarrow>
     (\<exists>pre body post. report = pre @ ''[E-'' @ body @ '']'' @ post \<and> body \<noteq> [] \<and> list_all id_char body \<and>
        c = ''E-'' @ body)"

lemma found_citations_iff: "c \<in> set (found_citations report) \<longleftrightarrow> cited report c"
proof -
  have "c \<in> set (found_citations report) \<longleftrightarrow> (\<exists>i<length report. citation_at (drop i report) = Some c)"
    by (auto simp: found_citations_def List.map_filter_def tails_drop image_iff)
  also have "\<dots> \<longleftrightarrow> cited report c"
  proof
    assume "\<exists>i<length report. citation_at (drop i report) = Some c"
    then obtain i where "citation_at (drop i report) = Some c" by blast
    then obtain body rest where "drop i report = ''[E-'' @ body @ '']'' @ rest" "body \<noteq> []"
      "list_all id_char body" "c = ''E-'' @ body" unfolding citation_at_iff by blast
    then show "cited report c" unfolding cited_def by (metis append_take_drop_id)
  next
    assume "cited report c"
    then obtain pre body post where r: "report = pre @ ''[E-'' @ body @ '']'' @ post" and
      b: "body \<noteq> []" "list_all id_char body" "c = ''E-'' @ body" unfolding cited_def by blast
    have "citation_at (drop (length pre) report) = Some c"
      unfolding citation_at_iff using b by (intro exI [of _ body] exI [of _ post]) (simp add: r)
    then show "\<exists>i<length report. citation_at (drop i report) = Some c"
      by (rule_tac exI [of _ "length pre"]) (simp add: r)
  qed
  finally show ?thesis .
qed

lemma malformed_iff:
  "malformed report \<longleftrightarrow>
     (\<exists>pre post. report = pre @ ''[E'' @ post \<and> citation_at (''[E'' @ post) = None)"
proof -
  have "malformed report \<longleftrightarrow> (\<exists>i<length report. take 2 (drop i report) = ''[E'' \<and> citation_at (drop i report) = None)"
    by (auto simp: malformed_def list_ex_iff tails_drop citation_start_def)
  also have "\<dots> \<longleftrightarrow> (\<exists>pre post. report = pre @ ''[E'' @ post \<and> citation_at (''[E'' @ post) = None)"
  proof
    assume "\<exists>i<length report. take 2 (drop i report) = ''[E'' \<and> citation_at (drop i report) = None"
    then obtain i where i: "take 2 (drop i report) = ''[E''" "citation_at (drop i report) = None" by blast
    have d: "drop i report = ''[E'' @ drop 2 (drop i report)" by (metis append_take_drop_id i(1))
    then have "report = take i report @ ''[E'' @ drop 2 (drop i report)" by (metis append_take_drop_id)
    with i(2) d show "\<exists>pre post. report = pre @ ''[E'' @ post \<and> citation_at (''[E'' @ post) = None" by metis
  next
    assume "\<exists>pre post. report = pre @ ''[E'' @ post \<and> citation_at (''[E'' @ post) = None"
    then obtain pre post where "report = pre @ ''[E'' @ post" "citation_at (''[E'' @ post) = None" by blast
    then show "\<exists>i<length report. take 2 (drop i report) = ''[E'' \<and> citation_at (drop i report) = None"
      by (intro exI [of _ "length pre"]) simp
  qed
  finally show ?thesis .
qed

text \<open>A citation that can be followed to the bytes that were fetched.\<close>

definition container_of :: "resolver \<Rightarrow> evidence_span \<Rightarrow> material" where
  "container_of mats sp =
     (case es_locator sp of
        HtmlLocator p _ _ \<Rightarrow> html_paragraph_text mats (es_source_id sp) p
      | PdfLocator pg b _ _ \<Rightarrow> pdf_block_text mats (es_source_id sp) pg b)"

definition excerpt_in :: "evidence_span \<Rightarrow> string \<Rightarrow> bool" where
  "excerpt_in sp container \<longleftrightarrow>
     (\<exists>before after. container = before @ es_excerpt sp @ after \<and> es_excerpt sp \<noteq> [] \<and>
        int (length before) = start_char (es_locator sp) \<and>
        int (length before + length (es_excerpt sp)) = end_char (es_locator sp))"

definition source_checks :: "(string \<Rightarrow> string) \<Rightarrow> (string \<Rightarrow> string) \<Rightarrow> resolver \<Rightarrow> evidence_span \<Rightarrow>
    source_document \<Rightarrow> bool" where
  "source_checks sha_bytes sha_text mats sp source \<longleftrightarrow>
     sd_source_id source = es_source_id sp \<and>
     (\<exists>raw. raw_bytes_for_source mats (es_source_id sp) = Material raw \<and> sha_bytes raw = sd_content_hash source) \<and>
     (\<exists>parsed. normalized_document_text mats (es_source_id sp) = Material parsed \<and>
        sha_text parsed = sd_parsed_content_hash source) \<and>
     (\<exists>container. container_of mats sp = Material container \<and> excerpt_in sp container) \<and>
     sha_text (es_excerpt sp) = es_excerpt_hash sp"

definition citation_resolves :: "(string \<Rightarrow> string) \<Rightarrow> (string \<Rightarrow> string) \<Rightarrow> resolver \<Rightarrow> claim_evidence_graph \<Rightarrow>
    (string, evidence_span) dict \<Rightarrow> (string, source_document) dict \<Rightarrow> string \<Rightarrow> bool" where
  "citation_resolves sha_bytes sha_text mats g evidence sources cid \<longleftrightarrow>
     (\<exists>sp source. dget evidence cid = Some sp \<and> es_evidence_id sp = cid \<and>
        (\<exists>l\<in>set (cg_links g). lk_evidence_id l = cid) \<and>
        dget sources (es_source_id sp) = Some source \<and> source_checks sha_bytes sha_text mats sp source)"

lemma slice_excerpt:
  "0 \<le> s \<and> s < e \<and> e \<le> int (length t) \<and> slice t s e = x \<longleftrightarrow>
     (\<exists>before after. t = before @ x @ after \<and> x \<noteq> [] \<and> int (length before) = s \<and> int (length before + length x) = e)"
    (is "?L \<longleftrightarrow> ?R")
proof
  assume l: ?L
  have "t = take (nat s) t @ take (nat e - nat s) (drop (nat s) t) @ drop (nat e - nat s) (drop (nat s) t)"
    by (simp only: append_take_drop_id)
  then have "t = take (nat s) t @ x @ drop (nat e - nat s) (drop (nat s) t)" using l by (simp add: slice_def)
  moreover have "length x = nat e - nat s" using l by (auto simp: slice_def)
  ultimately show ?R using l
    by (intro exI [of _ "take (nat s) t"] exI [of _ "drop (nat e - nat s) (drop (nat s) t)"]) (auto simp: min_def)
next
  assume ?R
  then show ?L by (auto simp: slice_def)
qed

lemma check_source_none:
  "check_source sha_bytes sha_text mats cid sp source = None \<longleftrightarrow> source_checks sha_bytes sha_text mats sp source"
proof -
  have rc: "resolve_container mats sp = (case container_of mats sp of Material t \<Rightarrow> Inr t
      | _ \<Rightarrow> Inl (''locator material unavailable: '' @ es_evidence_id sp))"
    by (simp add: resolve_container_def container_of_def)
  have ex: "excerpt_in sp t \<and> sha_text (es_excerpt sp) = es_excerpt_hash sp \<longleftrightarrow>
      (0 \<le> start_char (es_locator sp) \<and> start_char (es_locator sp) < end_char (es_locator sp) \<and>
       end_char (es_locator sp) \<le> int (length t)) \<and>
      \<not> (slice t (start_char (es_locator sp)) (end_char (es_locator sp)) \<noteq> es_excerpt sp \<or>
         sha_text (slice t (start_char (es_locator sp)) (end_char (es_locator sp))) \<noteq> es_excerpt_hash sp)" for t
    unfolding excerpt_in_def slice_excerpt [symmetric] by auto
  show ?thesis
  proof (cases "container_of mats sp")
    case (Material t)
    show ?thesis unfolding check_source_def source_checks_def rc Let_def Material
      using ex [of t] by (auto split: material.split)
  qed (auto simp: check_source_def source_checks_def rc split: material.split)
qed

lemma check_citation_nil:
  "check_citation sha_bytes sha_text mats (linked_evidence_ids g) evidence sources errors cid = [] \<longleftrightarrow>
     errors = [] \<and> citation_resolves sha_bytes sha_text mats g evidence sources cid"
proof -
  have linked: "cid \<in> linked_evidence_ids g \<longleftrightarrow> (\<exists>l\<in>set (cg_links g). lk_evidence_id l = cid)"
    by (auto simp: linked_evidence_ids_eq)
  show ?thesis
    unfolding check_citation_def citation_resolves_def linked [symmetric] check_source_none [where cid = cid, symmetric]
    by (auto simp: Let_def split: option.split)
qed

lemma check_citations_nil:
  "foldl (check_citation sha_bytes sha_text mats (linked_evidence_ids g) evidence sources) errors ids = [] \<longleftrightarrow>
     errors = [] \<and> (\<forall>cid\<in>set ids. citation_resolves sha_bytes sha_text mats g evidence sources cid)"
  by (induction ids arbitrary: errors) (auto simp: check_citation_nil)

lemma append_errors_nil: "foldl (\<lambda>es c. append_error es (f c)) errors cs = [] \<longleftrightarrow> errors = [] \<and> cs = []"
  by (induction cs arbitrary: errors) auto

text \<open>
  C22. The citation guard accepts a report exactly when no \<open>[E\<close> in it starts something else than a
  citation, the graph is valid, and every citation of the report can be followed: its evidence is
  known under that very id, is linked to a claim, belongs to a known source whose raw bytes and
  parsed text are at hand with the recorded digests, and its excerpt, with the recorded digest,
  stands in the located paragraph or block at exactly the located characters.  It reports the
  citations it checked, each once, and these are all the citations of the report.
\<close>

theorem citation_guard_exact:
  "let verdict = guard_verify sha_bytes sha_text mats report g evidence sources in
    (gd_valid verdict \<longleftrightarrow>
      (\<nexists>pre post. report = pre @ ''[E'' @ post \<and> citation_at (''[E'' @ post) = None) \<and>
      gr_valid (graph_validate g) \<and>
      {c. cited report c} \<subseteq> {c. citation_resolves sha_bytes sha_text mats g evidence sources c}) \<and>
    set (gd_checked_citation_ids verdict) = {c. cited report c} \<and>
    distinct (gd_checked_citation_ids verdict)"
proof -
  let ?v = "guard_verify sha_bytes sha_text mats report g evidence sources"
  have found: "set (fromkeys (found_citations report)) = {c. cited report c}"
    by (auto simp: set_uniq_seen found_citations_iff)
  have checked: "gd_checked_citation_ids ?v = fromkeys (found_citations report)"
    by (simp add: guard_verify_def extract_citation_ids_def Let_def)
  have "gd_valid ?v \<longleftrightarrow> \<not> malformed report \<and> gr_error_codes (graph_validate g) = [] \<and>
      (\<forall>c\<in>set (fromkeys (found_citations report)). citation_resolves sha_bytes sha_text mats g evidence sources c)"
    by (auto simp: guard_verify_def extract_citation_ids_def Let_def check_citations_nil append_errors_nil)
  moreover have "gr_error_codes (graph_validate g) = [] \<longleftrightarrow> gr_valid (graph_validate g)"
    by (simp add: graph_validate_def)
  ultimately show ?thesis unfolding Let_def  checked found malformed_iff by (auto simp: distinct_uniq_seen)
qed

text \<open>
  A graph built by its own operations is always valid, whatever operations were refused on the
  way: every link names a claim and an evidence span of the graph, no link stands twice, every
  claim and span is stored under its own id, and the links of a claim are listed completely,
  each once, in the order of their evidence.
\<close>

theorem built_graph_valid:
  "let g = run_graph empty_graph ops in
    graph_validate g = \<lparr>gr_valid = True, gr_error_codes = []\<rparr> \<and> graph_inv g \<and>
    set (links_for_claim g cid) = {l \<in> set (cg_links g). lk_claim_id l = cid} \<and>
    distinct (links_for_claim g cid) \<and> sorted (map lk_evidence_id (links_for_claim g cid))"
proof -
  let ?g = "run_graph empty_graph ops"
  have inv: "graph_inv ?g" by (rule graph_inv_run [OF graph_inv_empty])
  let ?key = "\<lambda>l. [lk_evidence_id l, relation_name (lk_relation l)]"
  have "sorted (map ?key (links_for_claim ?g cid))" unfolding links_for_claim_def by simp
  then have "sorted (map lk_evidence_id (links_for_claim ?g cid))"
    unfolding sorted_map by (rule sorted_wrt_mono_rel [rotated]) (auto simp: less_imp_le)
  with inv show ?thesis by (auto simp: Let_def graph_inv_valid links_for_claim_def graph_inv_def)
qed

end
