(* ===== verification/Near_Duplicates.thy ===== *)
theory Near_Duplicates
  imports Prelude "HOL-Library.Word"
begin

unbundle bit_operations_syntax

text \<open>
  Near-duplicate signals (\<^verbatim>\<open>src/src/deepresearch/retrieval/dedupe.py\<close>): the 64-bit SimHash of a
  text, the Hamming distance, and the similarity of titles, which is the ratio of Python's
  \<^verbatim>\<open>difflib.SequenceMatcher\<close>.  Compatibility composition with case folding (\<open>cfold\<close>) and the
  first eight bytes of SHA-256 (\<open>digest\<close>) are parameters.
\<close>

section \<open>SimHash\<close>

text \<open>\<^verbatim>\<open>\w\<close> on the code points below 256.\<close>

definition word_char :: "char \<Rightarrow> bool" where
  "word_char c \<longleftrightarrow>
     (let n = (of_char c :: nat) in
      48 \<le> n \<and> n \<le> 57 \<or> 65 \<le> n \<and> n \<le> 90 \<or> n = 95 \<or> 97 \<le> n \<and> n \<le> 122 \<or>
      n \<in> {170, 178, 179, 181, 185, 186, 188, 189, 190} \<or> 192 \<le> n \<and> n \<noteq> 215 \<and> n \<noteq> 247)"

text \<open>
  The maximal runs of characters with a property, as \<^verbatim>\<open>re.findall(r"\w+", text)\<close> and
  \<^verbatim>\<open>str.split()\<close> return them; \<open>acc\<close> is the run read so far, reversed.
\<close>

fun runs_from :: "(char \<Rightarrow> bool) \<Rightarrow> string \<Rightarrow> string \<Rightarrow> string list" where
  "runs_from P acc [] = (if acc = [] then [] else [rev acc])"
| "runs_from P acc (c # cs) =
     (if P c then runs_from P (c # acc) cs
      else if acc = [] then runs_from P [] cs else rev acc # runs_from P [] cs)"

definition find_words :: "string \<Rightarrow> string list" where
  "find_words s = runs_from word_char [] s"

definition bit_weight :: "(string \<Rightarrow> 64 word) \<Rightarrow> string list \<Rightarrow> nat \<Rightarrow> int" where
  "bit_weight digest tokens b = foldl (\<lambda>w t. w + (if bit (digest t) b then 1 else - 1)) 0 tokens"

definition simhash64 :: "(string \<Rightarrow> string) \<Rightarrow> (string \<Rightarrow> 64 word) \<Rightarrow> string \<Rightarrow> 64 word" where
  "simhash64 cfold digest text =
     (let tokens = find_words (cfold text) in
      if tokens = [] then 0
      else foldl (\<lambda>r b. if 0 \<le> bit_weight digest tokens b then r OR push_bit b 1 else r) 0 [0..<64])"

definition hamming_distance :: "int \<Rightarrow> int \<Rightarrow> exc + nat" where
  "hamming_distance l r =
     (if \<not> (0 \<le> l \<and> l < 2 ^ 64) \<or> \<not> (0 \<le> r \<and> r < 2 ^ 64)
      then Inl (ValueError ''SimHash values must be unsigned 64-bit integers'')
      else Inr (length (filter (bit (l XOR r)) [0..<64])))"

section \<open>Similarity of titles\<close>

definition normalize_title :: "(string \<Rightarrow> string) \<Rightarrow> string \<Rightarrow> string" where
  "normalize_title cfold title =
     (case find_words (cfold title) of [] \<Rightarrow> [] | w # ws \<Rightarrow> w @ concat (map (\<lambda>v. CHR '' '' # v) ws))"

text \<open>
  \<^verbatim>\<open>SequenceMatcher\<close> without junk: the longest common block, the earliest one in the first string
  and then in the second, and the matches left and right of it.
\<close>

fun common_prefix :: "string \<Rightarrow> string \<Rightarrow> nat" where
  "common_prefix (a # as) (b # bs) = (if a = b then Suc (common_prefix as bs) else 0)"
| "common_prefix _ _ = 0"

definition longest_match :: "string \<Rightarrow> string \<Rightarrow> nat \<times> nat \<times> nat" where
  "longest_match a b =
     foldl (\<lambda>(i, j, k) (i', j').
              let k' = common_prefix (drop i' a) (drop j' b) in if k < k' then (i', j', k') else (i, j, k))
       (0, 0, 0) (List.product [0..<length a] [0..<length b])"

lemma common_prefix_le: "common_prefix a b \<le> length a \<and> common_prefix a b \<le> length b"
  by (induction a b rule: common_prefix.induct) auto

lemma common_prefix_take: "take (common_prefix a b) a = take (common_prefix a b) b"
  by (induction a b rule: common_prefix.induct) auto

definition block_ok :: "string \<Rightarrow> string \<Rightarrow> nat \<times> nat \<times> nat \<Rightarrow> bool" where
  "block_ok a b t = (case t of (i, j, k) \<Rightarrow>
     i + k \<le> length a \<and> j + k \<le> length b \<and> take k (drop i a) = take k (drop j b))"

lemma longest_match_ok: "block_ok a b (longest_match a b)"
proof -
  have "block_ok a b (foldl (\<lambda>(i, j, k) (i', j').
          let k' = common_prefix (drop i' a) (drop j' b) in if k < k' then (i', j', k') else (i, j, k)) t ps)"
    if "block_ok a b t" "set ps \<subseteq> {0..<length a} \<times> {0..<length b}" for t ps
    using that
  proof (induction ps arbitrary: t)
    case (Cons p ps)
    obtain i j k i' j' where t: "t = (i, j, k)" "p = (i', j')" by (cases t; cases p)
    have "block_ok a b (i', j', common_prefix (drop i' a) (drop j' b))"
      using Cons.prems(2) common_prefix_le [of "drop i' a" "drop j' b"] common_prefix_take [of "drop i' a" "drop j' b"]
      by (auto simp: block_ok_def t)
    with Cons show ?case by (auto simp: t Let_def)
  qed simp
  from this [of "(0, 0, 0)" "List.product [0..<length a] [0..<length b]"] show ?thesis
    unfolding longest_match_def by (auto simp: block_ok_def)
qed

function matched :: "string \<Rightarrow> string \<Rightarrow> nat" where
  "matched a b =
     (case longest_match a b of (i, j, k) \<Rightarrow>
        if k = 0 then 0
        else matched (take i a) (take j b) + k + matched (drop (i + k) a) (drop (j + k) b))"
  by pat_completeness auto
termination
proof (relation "measure (\<lambda>(a, b). length a)", goal_cases)
  case (2 a b i jk j k)
  with longest_match_ok [of a b] show ?case by (auto simp: block_ok_def)
next
  case (3 a b i jk j k)
  with longest_match_ok [of a b] show ?case by (auto simp: block_ok_def)
qed simp

declare matched.simps [simp del]

definition sequence_ratio :: "string \<Rightarrow> string \<Rightarrow> pyfloat" where
  "sequence_ratio a b =
     (if length a + length b = 0 then Fin 1
      else fdiv (fmul (Fin 2) (fl (of_nat (matched a b)))) (fl (of_nat (length a + length b))))"

definition normalized_title_similarity :: "(string \<Rightarrow> string) \<Rightarrow> string \<Rightarrow> string \<Rightarrow> pyfloat" where
  "normalized_title_similarity cfold l r =
     (let nl = normalize_title cfold l; nr = normalize_title cfold r in
      if nl = [] \<and> nr = [] then Fin 1 else if nl = [] \<or> nr = [] then Fin 0 else sequence_ratio nl nr)"

section \<open>The signals\<close>

record near_signals =
  ns_left_simhash :: "64 word"
  ns_right_simhash :: "64 word"
  ns_simhash_distance :: nat
  ns_title_similarity :: pyfloat
  ns_is_near_duplicate :: bool

definition near_duplicate_signals :: "(string \<Rightarrow> string) \<Rightarrow> (string \<Rightarrow> 64 word) \<Rightarrow> string \<Rightarrow> string \<Rightarrow>
    string \<Rightarrow> string \<Rightarrow> int \<Rightarrow> pyfloat \<Rightarrow> exc + near_signals" where
  "near_duplicate_signals cfold digest left_text right_text left_title right_title max_distance min_similarity =
     (if max_distance < 0 \<or> \<not> (fle (Fin 0) min_similarity \<and> fle min_similarity (Fin 1))
      then Inl (ValueError ''near-duplicate thresholds are invalid'')
      else let l = simhash64 cfold digest left_text; r = simhash64 cfold digest right_text in
           rbind (hamming_distance (uint l) (uint r)) (\<lambda>d.
           let s = normalized_title_similarity cfold left_title right_title in
           Inr \<lparr>ns_left_simhash = l, ns_right_simhash = r, ns_simhash_distance = d, ns_title_similarity = s,
                ns_is_near_duplicate = (int d \<le> max_distance \<and> fle min_similarity s)\<rparr>))"

text \<open>The defaults of the two thresholds.\<close>

definition near_duplicate :: "(string \<Rightarrow> string) \<Rightarrow> (string \<Rightarrow> 64 word) \<Rightarrow> string \<times> string \<Rightarrow> string \<times> string \<Rightarrow> bool" where
  "near_duplicate cfold digest l r =
     (case near_duplicate_signals cfold digest (fst l) (fst r) (snd l) (snd r) 3 (fl (90 / 100)) of
        Inr s \<Rightarrow> ns_is_near_duplicate s | Inl _ \<Rightarrow> False)"

section \<open>Lemmas\<close>

lemma hamming_words:
  "hamming_distance (uint (a :: 64 word)) (uint (b :: 64 word)) = Inr (length (filter (\<lambda>i. bit a i \<noteq> bit b i) [0..<64]))"
proof -
  have "0 \<le> uint x \<and> uint x < 2 ^ 64" for x :: "64 word" using uint_lt2p [of x] by simp
  moreover have "filter (bit (uint a XOR uint b)) [0..<64] = filter (\<lambda>i. bit a i \<noteq> bit b i) [0..<64]"
    by (rule filter_cong) (auto simp: bit_xor_iff bit_uint_iff)
  ultimately show ?thesis by (simp add: hamming_distance_def)
qed

lemma matched_le: "matched a b \<le> length a \<and> matched a b \<le> length b"
proof (induction a b rule: matched.induct)
  case (1 a b)
  obtain i j k where t: "longest_match a b = (i, j, k)" by (cases "longest_match a b")
  have ok: "i + k \<le> length a" "j + k \<le> length b"
    using longest_match_ok [of a b] by (auto simp: t block_ok_def)
  show ?case
  proof (cases "k = 0")
    case False
    have "matched (take i a) (take j b) \<le> i" "matched (take i a) (take j b) \<le> j"
      using 1(1) [OF t [symmetric] refl False] by auto
    moreover have "matched (drop (i + k) a) (drop (j + k) b) \<le> length a - (i + k)"
      "matched (drop (i + k) a) (drop (j + k) b) \<le> length b - (j + k)"
      using 1(2) [OF t [symmetric] refl False] by auto
    moreover have "matched a b = matched (take i a) (take j b) + k + matched (drop (i + k) a) (drop (j + k) b)"
      using False by (simp add: matched.simps [of a b] t)
    ultimately show ?thesis using ok by linarith
  qed (simp add: matched.simps [of a b] t)
qed

lemma set_bits_loop:
  "i < 64 \<Longrightarrow> bit (foldl (\<lambda>r b. if P b then r OR push_bit b 1 else r) (r :: 64 word) bs) i \<longleftrightarrow>
     bit r i \<or> i \<in> set bs \<and> P i"
proof (induction bs arbitrary: r)
  case (Cons b bs)
  have "bit (r OR push_bit b 1) i \<longleftrightarrow> bit r i \<or> b = i"
    using Cons.prems by (auto simp: bit_or_iff bit_exp_iff push_bit_eq_mult)
  with Cons show ?case by auto
qed simp

lemma simhash_bit:
  assumes "find_words (cfold text) \<noteq> []" "i < 64"
  shows "bit (simhash64 cfold digest text) i \<longleftrightarrow> 0 \<le> bit_weight digest (find_words (cfold text)) i"
  using assms unfolding simhash64_def Let_def if_not_P [OF assms(1)] set_bits_loop [OF assms(2)] by simp

lemma sequence_ratio_value:
  assumes "0 < length a + length b" "length a + length b < 2 ^ 53"
  shows "sequence_ratio a b = Fin (rnd (of_nat (2 * matched a b) / of_nat (length a + length b))) \<and>
    2 * matched a b \<le> length a + length b"
proof -
  have m: "2 * matched a b \<le> length a + length b" using matched_le [of a b] by simp
  then have lt: "matched a b < 2 ^ 53" "2 * matched a b < 2 ^ 53" using assms(2) by linarith+
  note f = fl_nat [OF lt(1)] fl_nat [OF lt(2)] fl_nat [OF assms(2)]
  have u: "0 \<le> (of_nat (2 * matched a b) / of_nat (length a + length b) :: rat)"
    "(of_nat (2 * matched a b) / of_nat (length a + length b) :: rat) \<le> 1"
    using m assms(1) by (simp_all add: divide_le_eq_1 del: of_nat_add of_nat_mult)
  have "sequence_ratio a b = fl (of_nat (2 * matched a b) / of_nat (length a + length b))"
    using assms(1) f by (simp add: sequence_ratio_def del: of_nat_add)
  then show ?thesis using fl_unit [OF u] m by simp
qed

lemma common_prefix_refl: "common_prefix a a = length a"
  by (induction a) auto

lemma longest_match_max:
  assumes "i < length a" "j < length b"
  shows "common_prefix (drop i a) (drop j b) \<le> snd (snd (longest_match a b))"
proof -
  let ?step = "\<lambda>(i, j, k) (i', j').
      let k' = common_prefix (drop i' a) (drop j' b) in if k < k' then (i', j', k') else (i, j, k)"
  have grow: "snd (snd t) \<le> snd (snd (foldl ?step t ps))" for t ps
  proof (induction ps arbitrary: t)
    case (Cons p ps)
    have "snd (snd t) \<le> snd (snd (?step t p))" by (cases t; cases p) (simp add: Let_def)
    also have "\<dots> \<le> snd (snd (foldl ?step (?step t p) ps))" by (rule Cons.IH)
    finally show ?case by simp
  qed simp
  have "common_prefix (drop i a) (drop j b) \<le> snd (snd (foldl ?step t ps))" if "(i, j) \<in> set ps" for t ps
    using that
  proof (induction ps arbitrary: t)
    case (Cons p ps)
    show ?case
    proof (cases "p = (i, j)")
      case True
      have "common_prefix (drop i a) (drop j b) \<le> snd (snd (?step t (i, j)))"
        by (cases t) (simp add: Let_def)
      also have "\<dots> \<le> snd (snd (foldl ?step (?step t (i, j)) ps))" by (rule grow)
      finally show ?thesis by (simp add: True)
    next
      case False
      with Cons show ?thesis by simp
    qed
  qed simp
  then show ?thesis unfolding longest_match_def using assms by simp
qed

lemma matched_refl: "matched a a = length a"
proof (cases "a = []")
  case True
  then show ?thesis using matched_le [of a a] by simp
next
  case False
  obtain i j k where t: "longest_match a a = (i, j, k)" by (cases "longest_match a a")
  have "length a \<le> k" using longest_match_max [of 0 a 0 a] False by (simp add: t common_prefix_refl)
  moreover have "i + k \<le> length a" "j + k \<le> length a"
    using longest_match_ok [of a a] by (auto simp: t block_ok_def)
  ultimately have "i = 0" "j = 0" "k = length a" by auto
  moreover have "matched [] xs = 0" for xs using matched_le [of "[]" xs] by simp
  ultimately show ?thesis using False by (simp add: matched.simps [of a a] t)
qed

lemma title_similarity_unit:
  assumes "length (normalize_title cfold l) + length (normalize_title cfold r) < 2 ^ 53"
  shows "unit (normalized_title_similarity cfold l r)"
proof (cases "normalize_title cfold l = [] \<or> normalize_title cfold r = []")
  case True
  then show ?thesis by (auto simp: normalized_title_similarity_def Let_def)
next
  case False
  let ?a = "normalize_title cfold l" and ?b = "normalize_title cfold r"
  have pos: "0 < length ?a + length ?b" using False by simp
  from sequence_ratio_value [OF pos assms] have v: "sequence_ratio ?a ?b =
      Fin (rnd (of_nat (2 * matched ?a ?b) / of_nat (length ?a + length ?b)))"
    and le: "2 * matched ?a ?b \<le> length ?a + length ?b" by auto
  let ?q = "of_nat (2 * matched ?a ?b) / of_nat (length ?a + length ?b) :: rat"
  have q: "0 \<le> ?q" "?q \<le> 1"
    using le pos by (simp_all add: divide_le_eq_1 del: of_nat_add of_nat_mult)
  then have "unit (Fin (rnd ?q))" using fl_unit [OF q] by simp
  moreover from False have "?a \<noteq> []" "?b \<noteq> []" by simp_all
  ultimately show ?thesis by (simp only: normalized_title_similarity_def Let_def if_False simp_thms v)
qed

lemma title_similarity_refl:
  assumes "length (normalize_title cfold t) + length (normalize_title cfold t) < 2 ^ 53"
  shows "normalized_title_similarity cfold t t = Fin 1"
proof (cases "normalize_title cfold t = []")
  case False
  let ?a = "normalize_title cfold t"
  have pos: "0 < length ?a + length ?a" using False by simp
  have one: "of_nat (2 * matched ?a ?a) / of_nat (length ?a + length ?a) = (1 :: rat)"
    using False by (simp add: matched_refl)
  have "sequence_ratio ?a ?a = Fin 1"
    using conjunct1 [OF sequence_ratio_value [OF pos assms]] by (simp only: one rnd_1)
  with False show ?thesis by (simp add: normalized_title_similarity_def Let_def)
qed (simp add: normalized_title_similarity_def)

text \<open>
  The near-duplicate signals, with the default thresholds, are always computed: the distance
  is the number of bits in which the two hashes differ, the similarity of titles (together
  shorter than 2^53) is a score between 0 and 1, and a text with its title is a near
  duplicate of itself.
\<close>

theorem near_duplicate_signals_sound:
  assumes "length (normalize_title cfold lt) + length (normalize_title cfold rt) < 2 ^ 53"
  shows "\<exists>s. near_duplicate_signals cfold digest l r lt rt 3 (fl (90 / 100)) = Inr s \<and>
    ns_simhash_distance s = length (filter
      (\<lambda>i. bit (simhash64 cfold digest l) i \<noteq> bit (simhash64 cfold digest r) i) [0..<64]) \<and>
    unit (ns_title_similarity s) \<and> (l = r \<and> lt = rt \<longrightarrow> ns_is_near_duplicate s)"
proof -
  have u: "fle (Fin 0) (fl (90 / 100))" "fle (fl (90 / 100)) (Fin 1)"
    using fl_unit [of "90 / 100"] by simp_all
  let ?s = "\<lparr>ns_left_simhash = simhash64 cfold digest l, ns_right_simhash = simhash64 cfold digest r,
    ns_simhash_distance = length (filter
      (\<lambda>i. bit (simhash64 cfold digest l) i \<noteq> bit (simhash64 cfold digest r) i) [0..<64]),
    ns_title_similarity = normalized_title_similarity cfold lt rt,
    ns_is_near_duplicate =
      (int (length (filter (\<lambda>i. bit (simhash64 cfold digest l) i \<noteq> bit (simhash64 cfold digest r) i) [0..<64])) \<le> 3 \<and>
       fle (fl (90 / 100)) (normalized_title_similarity cfold lt rt))\<rparr>"
  have "near_duplicate_signals cfold digest l r lt rt 3 (fl (90 / 100)) = Inr ?s"
    using u unfolding near_duplicate_signals_def Let_def hamming_words by simp
  moreover have "unit (ns_title_similarity ?s)" using title_similarity_unit [OF assms] by simp
  moreover have "ns_is_near_duplicate ?s" if "l = r \<and> lt = rt"
  proof -
    have "normalized_title_similarity cfold lt rt = Fin 1"
      using title_similarity_refl [of cfold lt] assms that by simp
    then show ?thesis using u that by simp
  qed
  ultimately show ?thesis by (intro exI [of _ ?s] conjI impI) simp_all
qed

theorem near_duplicate_signals_sound_witness:
  "\<exists>s. near_duplicate_signals id (\<lambda>_. 5) ''a text'' ''a text'' ''Title'' ''Title'' 3 (fl (90 / 100)) = Inr s \<and>
     ns_is_near_duplicate s"
proof -
  have "normalize_title id ''Title'' = ''Title''" by code_simp
  then have "length (normalize_title id ''Title'') + length (normalize_title id ''Title'') < 2 ^ 53" by simp
  from near_duplicate_signals_sound [OF this, of "\<lambda>_. 5" "''a text''" "''a text''"] show ?thesis by blast
qed

end
