(* ===== verification/Source_Families.thy ===== *)
theory Source_Families
  imports Near_Duplicates Domain_Evidence
begin

text \<open>
  Source families and deduplication of evidence
  (\<^verbatim>\<open>src/src/deepresearch/evidence/normalize.py\<close>): sources with the same URL, the same parsed text
  or near-duplicate titles are joined by a union-find structure with path halving.  The search for
  a root is a partial function; that it ends is a theorem.
\<close>

section \<open>The union-find structure\<close>

partial_function (option) find_root :: "nat list \<Rightarrow> nat \<Rightarrow> (nat list \<times> nat) option" where
  "find_root parent i =
     (if parent ! i \<noteq> i
      then (let parent' = parent[i := parent ! (parent ! i)] in find_root parent' (parent' ! i))
      else Some (parent, i))"

declare find_root.simps [code]

definition union_roots :: "nat list \<Rightarrow> nat \<Rightarrow> nat \<Rightarrow> nat list option" where
  "union_roots parent l r =
     Option.bind (find_root parent l) (\<lambda>(p1, lr).
     Option.bind (find_root p1 r) (\<lambda>(p2, rr).
     Some (if lr \<noteq> rr then p2[rr := lr] else p2)))"

text \<open>A loop whose body may fail to return.\<close>

fun ofold :: "('s \<Rightarrow> 'a \<Rightarrow> 's option) \<Rightarrow> 's \<Rightarrow> 'a list \<Rightarrow> 's option" where
  "ofold f s [] = Some s"
| "ofold f s (x # xs) = Option.bind (f s x) (\<lambda>s'. ofold f s' xs)"

section \<open>Families\<close>

definition linked :: "(string \<times> string \<Rightarrow> string \<times> string \<Rightarrow> bool) \<Rightarrow> source_document \<Rightarrow> source_document \<Rightarrow> bool" where
  "linked near l r \<longleftrightarrow>
     sd_canonical_url l = sd_canonical_url r \<or> sd_parsed_content_hash l = sd_parsed_content_hash r \<or>
     near (sd_title l, sd_title l) (sd_title r, sd_title r)"

definition index_pairs :: "nat \<Rightarrow> (nat \<times> nat) list" where
  "index_pairs n = concat (map (\<lambda>i. map (\<lambda>j. (i, j)) [Suc i..<n]) [0..<n])"

definition union_step :: "(string \<times> string \<Rightarrow> string \<times> string \<Rightarrow> bool) \<Rightarrow> source_document list \<Rightarrow>
    nat list \<Rightarrow> nat \<times> nat \<Rightarrow> nat list option" where
  "union_step near srcs parent p =
     (if linked near (srcs ! fst p) (srcs ! snd p) then union_roots parent (fst p) (snd p) else Some parent)"

text \<open>\<^verbatim>\<open>components.setdefault(find(index), []).append(source)\<close>\<close>

definition component_step :: "nat list \<times> (nat, nat list) dict \<Rightarrow> nat \<Rightarrow> (nat list \<times> (nat, nat list) dict) option" where
  "component_step s i =
     Option.bind (find_root (fst s) i) (\<lambda>(p, root).
     Some (p, dput root ((case dget (snd s) root of None \<Rightarrow> [] | Some ms \<Rightarrow> ms) @ [i]) (snd s)))"

definition family_of :: "(string \<Rightarrow> string) \<Rightarrow> source_document \<Rightarrow> string" where
  "family_of sha rep =
     (if strip_ws (sd_source_family_id rep) \<noteq> [] then strip_ws (sd_source_family_id rep)
      else ''family-'' @ take 16 (sha (sd_canonical_url rep @ ''|'' @ sd_parsed_content_hash rep)))"

definition families_of :: "(string \<Rightarrow> string) \<Rightarrow> source_document list \<Rightarrow> nat list list \<Rightarrow> (string, string) dict" where
  "families_of sha srcs comps =
     foldl (\<lambda>d ms. foldl (\<lambda>d i. dput (sd_source_id (srcs ! i)) (family_of sha (srcs ! hd ms)) d) d ms) [] comps"

definition assign_source_families :: "(string \<times> string \<Rightarrow> string \<times> string \<Rightarrow> bool) \<Rightarrow> (string \<Rightarrow> string) \<Rightarrow>
    source_document list \<Rightarrow> (exc + (string, string) dict) option" where
  "assign_source_families near sha sources =
     (let srcs = sort_key sd_source_id sources in
      if card (set (map sd_source_id srcs)) \<noteq> length srcs
      then Some (Inl (ValueError ''source IDs must be unique''))
      else Option.bind (ofold (union_step near srcs) [0..<length srcs] (index_pairs (length srcs))) (\<lambda>parent.
           Option.bind (ofold component_step (parent, []) [0..<length srcs]) (\<lambda>(_, comps).
           Some (Inr (families_of sha srcs (dvalues comps))))))"

section \<open>Roots\<close>

inductive root_of :: "nat list \<Rightarrow> nat \<Rightarrow> nat \<Rightarrow> bool" for p where
  root_here: "p ! i = i \<Longrightarrow> root_of p i i"
| root_up: "p ! i \<noteq> i \<Longrightarrow> root_of p (p ! i) r \<Longrightarrow> root_of p i r"

inductive_cases root_ofE: "root_of p i r"

lemma root_of_unique: "root_of p i r \<Longrightarrow> root_of p i s \<Longrightarrow> r = s"
  by (induction rule: root_of.induct) (auto elim: root_ofE)

lemma root_of_root: "root_of p i r \<Longrightarrow> p ! r = r"
  by (induction rule: root_of.induct) auto

text \<open>The forest: parents are in range, and a measure falls along them.\<close>

definition forest :: "nat list \<Rightarrow> (nat \<Rightarrow> nat) \<Rightarrow> bool" where
  "forest p m \<longleftrightarrow> (\<forall>i<length p. p ! i < length p \<and> (p ! i \<noteq> i \<longrightarrow> m (p ! i) < m i))"

lemma forest_root: "forest p m \<Longrightarrow> i < length p \<Longrightarrow> \<exists>r<length p. root_of p i r"
proof (induction "m i" arbitrary: i rule: less_induct)
  case less
  show ?case
  proof (cases "p ! i = i")
    case False
    with less.prems have k: "m (p ! i) < m i" "p ! i < length p" by (auto simp: forest_def)
    from less.hyps [OF k(1) less.prems(1) k(2)] False show ?thesis by (auto intro: root_of.root_up)
  qed (use less.prems in \<open>auto intro: root_of.root_here\<close>)
qed

lemma forest_halve: "forest p m \<Longrightarrow> i < length p \<Longrightarrow> forest (p[i := p ! (p ! i)]) m"
  unfolding forest_def by (auto simp: nth_list_update) (metis order.strict_trans)+

lemma root_of_halve:
  assumes "forest p m" "i < length p" "root_of p j r" "j < length p"
  shows "root_of (p[i := p ! (p ! i)]) j r"
  using assms(3,4)
proof (induction rule: root_of.induct)
  case (root_here j)
  then show ?case using assms(2) by (cases "i = j") (auto intro: root_of.intros)
next
  case (root_up j r)
  let ?p = "p[i := p ! (p ! i)]"
  have k: "p ! j < length p" "m (p ! j) < m j" using root_up assms(1) by (auto simp: forest_def)
  with root_up have ih: "root_of ?p (p ! j) r" by simp
  show ?case
  proof (cases "i = j")
    case False
    with root_up ih show ?thesis by (auto intro: root_of.intros)
  next
    case True
    let ?k = "p ! i"
    show ?thesis
    proof (cases "p ! ?k = ?k")
      case at_root: True
      have "?p ! i = ?k" using assms(2) at_root by simp
      with ih root_up(1) True show ?thesis by (auto intro: root_of.root_up)
    next
      case False
      with k True assms(1) have "m (p ! ?k) < m i" by (auto simp: forest_def intro: order.strict_trans)
      then have ne: "p ! ?k \<noteq> i" by auto
      have "?p ! ?k = p ! ?k" using root_up(1) True by simp
      with ih True False have "root_of ?p (p ! ?k) r" by (auto elim: root_ofE)
      moreover have "?p ! i = p ! ?k" using assms(2) by simp
      ultimately show ?thesis using ne True by (auto intro: root_of.root_up)
    qed
  qed
qed

definition same_roots :: "nat list \<Rightarrow> nat list \<Rightarrow> bool" where
  "same_roots p q \<longleftrightarrow> length q = length p \<and> (\<forall>j<length p. \<forall>r. root_of p j r \<longleftrightarrow> root_of q j r)"

lemma same_roots_refl [simp]: "same_roots p p"
  by (simp add: same_roots_def)

lemma same_roots_trans: "same_roots p q \<Longrightarrow> same_roots q s \<Longrightarrow> same_roots p s"
  by (simp add: same_roots_def)

lemma same_roots_halve:
  assumes "forest p m" "i < length p"
  shows "same_roots p (p[i := p ! (p ! i)])"
proof -
  let ?p = "p[i := p ! (p ! i)]"
  have "root_of p j r" if "j < length p" "root_of ?p j r" for j r
  proof -
    note j = that
    obtain s where s: "root_of p j s" using forest_root [OF assms(1) j(1)] by blast
    from root_of_unique [OF root_of_halve [OF assms s j(1)] j(2)] s show ?thesis by simp
  qed
  then show ?thesis using root_of_halve [OF assms] by (auto simp: same_roots_def)
qed

lemma find_root_ok:
  assumes "forest p m" "i < length p"
  shows "\<exists>q r. find_root p i = Some (q, r) \<and> forest q m \<and> same_roots p q \<and> r < length p \<and> root_of p i r"
  using assms
proof (induction "m i" arbitrary: i p rule: less_induct)
  case less
  show ?case
  proof (cases "p ! i = i")
    case True
    then show ?thesis using less.prems
      by (subst find_root.simps) (auto intro: root_of.intros)
  next
    case False
    let ?p = "p[i := p ! (p ! i)]"
    have k: "p ! i < length p" "m (p ! i) < m i" using less.prems False by (auto simp: forest_def)
    then have kk: "p ! (p ! i) < length p" "m (p ! (p ! i)) < m i"
      using less.prems(1) by (auto simp: forest_def intro: order.strict_trans)
    have f: "forest ?p m" by (rule forest_halve [OF less.prems])
    have i': "?p ! i = p ! (p ! i)" using less.prems(2) by simp
    obtain q r where q: "find_root ?p (p ! (p ! i)) = Some (q, r)" "forest q m" "same_roots ?p q"
      "r < length ?p" "root_of ?p (p ! (p ! i)) r"
      using less.hyps [OF kk(2) f] kk(1) by auto
    have sr: "same_roots p ?p" by (rule same_roots_halve [OF less.prems])
    then have "root_of p (p ! (p ! i)) r" using q(5) kk(1) by (simp add: same_roots_def)
    then have "root_of p i r" using False by (metis root_of.root_here root_of.root_up root_of_root)
    moreover have "find_root p i = Some (q, r)" using False q(1) i' by (subst find_root.simps) simp
    ultimately show ?thesis using q(2,4) same_roots_trans [OF sr q(3)] by auto
  qed
qed

section \<open>Unions\<close>

definition same_family :: "nat list \<Rightarrow> nat \<Rightarrow> nat \<Rightarrow> bool" where
  "same_family p i j \<longleftrightarrow> (\<exists>r. root_of p i r \<and> root_of p j r)"

lemma same_family_roots:
  "same_roots p q \<Longrightarrow> i < length p \<Longrightarrow> j < length p \<Longrightarrow> same_family p i j \<longleftrightarrow> same_family q i j"
  by (simp add: same_family_def same_roots_def)

lemma same_family_iff: "root_of p i a \<Longrightarrow> root_of p j b \<Longrightarrow> same_family p i j \<longleftrightarrow> a = b"
  by (auto simp: same_family_def dest: root_of_unique)

lemma root_of_iff: "root_of p i a \<Longrightarrow> root_of p i x \<longleftrightarrow> x = a"
  by (auto dest: root_of_unique)

text \<open>Hanging the root \<open>rr\<close> below the root \<open>lr\<close>.\<close>

lemma hang_root_of:
  assumes "p ! lr = lr" "p ! rr = rr" "lr \<noteq> rr" "rr < length p"
  shows "root_of p j r \<Longrightarrow> root_of (p[rr := lr]) j (if r = rr then lr else r)"
proof (induction rule: root_of.induct)
  case (root_here j)
  have lr: "root_of (p[rr := lr]) lr lr" using assms by (intro root_of.root_here) simp
  show ?case
  proof (cases "j = rr")
    case True
    then show ?thesis using lr assms by (auto intro: root_of.root_up)
  next
    case False
    with root_here show ?thesis by (auto intro: root_of.root_here)
  qed
next
  case (root_up j r)
  then have "j \<noteq> rr" using assms(2) by auto
  with root_up show ?case by (auto intro: root_of.root_up)
qed

lemma hang_forest:
  assumes "forest p m" "p ! lr = lr" "p ! rr = rr" "lr \<noteq> rr" "lr < length p" "rr < length p"
  shows "\<exists>m'. forest (p[rr := lr]) m'"
proof -
  define below where "below x \<longleftrightarrow> root_of p x rr" for x
  define m' where "m' x = m x + (if below x then Suc (m lr) else 0)" for x
  have up: "below (p ! x) \<longleftrightarrow> below x" if "p ! x \<noteq> x" for x
    using that by (auto simp: below_def intro: root_of.root_up elim: root_ofE)
  have "\<not> below lr" using assms(2,4) by (auto simp: below_def elim: root_ofE)
  moreover have "below rr" using assms(3) by (simp add: below_def root_of.root_here)
  ultimately have "forest (p[rr := lr]) m'"
    using assms up by (auto simp: forest_def nth_list_update m'_def)
  then show ?thesis by blast
qed

lemma hang_same_family:
  assumes "forest p m" "p ! lr = lr" "p ! rr = rr" "lr \<noteq> rr" "rr < length p" "i < length p" "j < length p"
  shows "same_family (p[rr := lr]) i j \<longleftrightarrow>
    same_family p i j \<or> root_of p i lr \<and> root_of p j rr \<or> root_of p i rr \<and> root_of p j lr"
proof -
  obtain a b where a: "root_of p i a" and b: "root_of p j b"
    using forest_root [OF assms(1,6)] forest_root [OF assms(1,7)] by blast
  let ?f = "\<lambda>r. if r = rr then lr else r"
  have a': "root_of (p[rr := lr]) i (?f a)" and b': "root_of (p[rr := lr]) j (?f b)"
    using hang_root_of [OF assms(2-5)] a b by blast+
  have "same_family (p[rr := lr]) i j \<longleftrightarrow> ?f a = ?f b" by (rule same_family_iff [OF a' b'])
  also have "\<dots> \<longleftrightarrow> a = b \<or> a = lr \<and> b = rr \<or> a = rr \<and> b = lr" using assms(4) by auto
  finally show ?thesis by (auto simp: same_family_iff [OF a b] root_of_iff [OF a] root_of_iff [OF b])
qed

lemma union_roots_ok:
  assumes "forest p m" "l < length p" "r < length p"
  shows "\<exists>q m'. union_roots p l r = Some q \<and> forest q m' \<and> length q = length p \<and>
    (\<forall>i<length p. \<forall>j<length p. same_family q i j \<longleftrightarrow>
       same_family p i j \<or> same_family p i l \<and> same_family p j r \<or> same_family p i r \<and> same_family p j l)"
proof -
  obtain p1 lr where 1: "find_root p l = Some (p1, lr)" "forest p1 m" "same_roots p p1" "lr < length p" "root_of p l lr"
    using find_root_ok [OF assms(1,2)] by blast
  have len1: "length p1 = length p" using 1(3) by (simp add: same_roots_def)
  obtain p2 rr where 2: "find_root p1 r = Some (p2, rr)" "forest p2 m" "same_roots p1 p2" "rr < length p1" "root_of p1 r rr"
    using find_root_ok [OF 1(2)] assms(3) len1 by force
  have sr: "same_roots p p2" by (rule same_roots_trans [OF 1(3) 2(3)])
  have len2: "length p2 = length p" using sr by (simp add: same_roots_def)
  have rl: "root_of p2 l lr" "root_of p2 r rr"
    using sr 1(5) 2(3,5) assms(2,3) len1 by (simp_all add: same_roots_def)
  have roots: "p2 ! lr = lr" "p2 ! rr = rr" using rl by (auto dest: root_of_root)
  have at: "root_of p2 i lr \<longleftrightarrow> same_family p2 i l" "root_of p2 i rr \<longleftrightarrow> same_family p2 i r" for i
    using rl by (auto simp: same_family_def dest: root_of_unique)
  have keep: "same_family p2 i j \<longleftrightarrow> same_family p i j" if "i < length p" "j < length p" for i j
    using same_family_roots [OF sr that] by simp
  show ?thesis
  proof (cases "lr = rr")
    case True
    have joined: "same_family p i j"
      if "same_family p i l \<and> same_family p j r \<or> same_family p i r \<and> same_family p j l"
      "i < length p" "j < length p" for i j
    proof -
      have "root_of p2 i lr \<and> root_of p2 j lr"
        using that True at [of i] at [of j] keep assms(2,3) by auto
      then show ?thesis using keep [OF that(2,3)] unfolding same_family_def by blast
    qed
    have res: "union_roots p l r = Some p2" using 1(1) 2(1) True by (simp add: union_roots_def)
    show ?thesis
    proof (intro exI [of _ p2] exI [of _ m] conjI allI impI)
      fix i j assume ij: "i < length p" "j < length p"
      show "same_family p2 i j \<longleftrightarrow> same_family p i j \<or> same_family p i l \<and> same_family p j r \<or>
          same_family p i r \<and> same_family p j l"
        unfolding keep [OF ij] using joined [OF _ ij] by blast
    qed (fact res 2(2) len2)+
  next
    case False
    have lr2: "lr < length p2" "rr < length p2" using 1(4) 2(4) len1 len2 by auto
    obtain m' where m': "forest (p2[rr := lr]) m'"
      using hang_forest [OF 2(2) roots False lr2] by blast
    have "same_family (p2[rr := lr]) i j \<longleftrightarrow>
       same_family p i j \<or> same_family p i l \<and> same_family p j r \<or> same_family p i r \<and> same_family p j l"
      if "i < length p" "j < length p" for i j
      using hang_same_family [OF 2(2) roots False lr2(2), of i j] that len2 keep assms(2,3) by (simp add: at)
    with m' False 1(1) 2(1) len2 show ?thesis
      by (intro exI [of _ "p2[rr := lr]"] exI [of _ m']) (simp add: union_roots_def)
  qed
qed

section \<open>The loop over the pairs\<close>

definition conn :: "('a \<times> 'a) set \<Rightarrow> ('a \<times> 'a) set" where
  "conn E = (E \<union> E\<inverse>)\<^sup>*"

lemma conn_refl [simp]: "(x, x) \<in> conn E"
  by (simp add: conn_def)

lemma conn_sym: "(x, y) \<in> conn E \<Longrightarrow> (y, x) \<in> conn E"
  unfolding conn_def by (metis converse_Un converse_converse rtrancl_converseD sup_commute)

lemma conn_trans: "(x, y) \<in> conn E \<Longrightarrow> (y, z) \<in> conn E \<Longrightarrow> (x, z) \<in> conn E"
  unfolding conn_def by (rule rtrancl_trans)

lemma conn_edge: "(x, y) \<in> E \<Longrightarrow> (x, y) \<in> conn E"
  unfolding conn_def by blast

lemma conn_least:
  assumes "(x, y) \<in> conn E" "x \<in> A" "E \<subseteq> A \<times> A"
    and "\<And>x. x \<in> A \<Longrightarrow> R x x" "\<And>x y. (x, y) \<in> E \<Longrightarrow> R x y \<and> R y x"
    and "\<And>x y z. R x y \<Longrightarrow> R y z \<Longrightarrow> R x z"
  shows "R x y \<and> y \<in> A"
  using assms(1) unfolding conn_def
proof (induction rule: rtrancl_induct)
  case (step y z)
  then have "R y z" "z \<in> A" using assms(3,5) by auto
  with step.IH assms(6) show ?case by blast
qed (use assms in simp)

lemma same_family_refl: "forest p m \<Longrightarrow> i < length p \<Longrightarrow> same_family p i i"
  using forest_root [of p m i] by (auto simp: same_family_def)

lemma same_family_sym: "same_family p i j \<Longrightarrow> same_family p j i"
  by (auto simp: same_family_def)

lemma same_family_trans: "same_family p i j \<Longrightarrow> same_family p j k \<Longrightarrow> same_family p i k"
  by (auto simp: same_family_def dest: root_of_unique)

definition index_links :: "(string \<times> string \<Rightarrow> string \<times> string \<Rightarrow> bool) \<Rightarrow> source_document list \<Rightarrow> (nat \<times> nat) set" where
  "index_links near srcs = {(i, j). i < j \<and> j < length srcs \<and> linked near (srcs ! i) (srcs ! j)}"

lemma set_index_pairs: "set (index_pairs n) = {(i, j). i < j \<and> j < n}"
  by (auto simp: index_pairs_def image_iff)

lemma union_step_ok:
  assumes "forest p m" "length p = length srcs" "i < j" "j < length srcs"
    and "\<And>a b. a < length srcs \<Longrightarrow> b < length srcs \<Longrightarrow> same_family p a b \<Longrightarrow> (a, b) \<in> conn (index_links near srcs)"
  shows "\<exists>q m'. union_step near srcs p (i, j) = Some q \<and> forest q m' \<and> length q = length srcs \<and>
    (\<forall>a b. a < length srcs \<longrightarrow> b < length srcs \<longrightarrow> same_family q a b \<longrightarrow> (a, b) \<in> conn (index_links near srcs)) \<and>
    (\<forall>a b. a < length srcs \<longrightarrow> b < length srcs \<longrightarrow> same_family p a b \<longrightarrow> same_family q a b) \<and>
    (linked near (srcs ! i) (srcs ! j) \<longrightarrow> same_family q i j)"
proof (cases "linked near (srcs ! i) (srcs ! j)")
  case False
  then show ?thesis using assms by (intro exI [of _ p] exI [of _ m]) (simp add: union_step_def)
next
  case True
  have ij: "i < length p" "j < length p" using assms(2,3,4) by auto
  obtain q m' where q: "union_roots p i j = Some q" "forest q m'" "length q = length p" and
    same: "\<And>a b. a < length p \<Longrightarrow> b < length p \<Longrightarrow> same_family q a b \<longleftrightarrow>
      same_family p a b \<or> same_family p a i \<and> same_family p b j \<or> same_family p a j \<and> same_family p b i"
    using union_roots_ok [OF assms(1) ij] by blast
  have e: "(i, j) \<in> conn (index_links near srcs)"
    by (rule conn_edge) (use True assms in \<open>simp add: index_links_def\<close>)
  have "(a, b) \<in> conn (index_links near srcs)" if "a < length srcs" "b < length srcs" "same_family q a b" for a b
  proof -
    from that same assms(2) consider "same_family p a b" | "same_family p a i" "same_family p b j"
      | "same_family p a j" "same_family p b i" by metis
    then show ?thesis
    proof cases
      case 1 with assms(5) that show ?thesis by blast
    next
      case 2
      then have "(a, i) \<in> conn (index_links near srcs)" "(b, j) \<in> conn (index_links near srcs)"
        using assms(2,5) that ij by auto
      with e show ?thesis by (meson conn_sym conn_trans)
    next
      case 3
      then have "(a, j) \<in> conn (index_links near srcs)" "(b, i) \<in> conn (index_links near srcs)"
        using assms(2,5) that ij by auto
      with e show ?thesis by (meson conn_sym conn_trans)
    qed
  qed
  moreover have "same_family q i j"
    using same [OF ij] same_family_refl [OF assms(1)] ij by blast
  moreover have "union_step near srcs p (i, j) = Some q" using True q(1) by (simp add: union_step_def)
  ultimately show ?thesis using q(2,3) assms(2) same by (intro exI [of _ q] exI [of _ m']) simp
qed

lemma union_loop_ok:
  assumes "forest p m" "length p = length srcs" "\<forall>(i, j)\<in>set ps. i < j \<and> j < length srcs"
    and "\<forall>a b. a < length srcs \<longrightarrow> b < length srcs \<longrightarrow> same_family p a b \<longrightarrow> (a, b) \<in> conn (index_links near srcs)"
  shows "\<exists>q m'. ofold (union_step near srcs) p ps = Some q \<and> forest q m' \<and> length q = length srcs \<and>
    (\<forall>a b. a < length srcs \<longrightarrow> b < length srcs \<longrightarrow> same_family q a b \<longrightarrow> (a, b) \<in> conn (index_links near srcs)) \<and>
    (\<forall>a b. a < length srcs \<longrightarrow> b < length srcs \<longrightarrow> same_family p a b \<longrightarrow> same_family q a b) \<and>
    (\<forall>(i, j)\<in>set ps. linked near (srcs ! i) (srcs ! j) \<longrightarrow> same_family q i j)"
  using assms
proof (induction ps arbitrary: p m)
  case Nil
  then show ?case by (intro exI [of _ p] exI [of _ m]) simp
next
  case (Cons e ps)
  obtain i j where e: "e = (i, j)" "i < j" "j < length srcs" using Cons.prems(3) by (cases e) auto
  obtain q m' where q: "union_step near srcs p (i, j) = Some q" "forest q m'" "length q = length srcs"
    "\<forall>a b. a < length srcs \<longrightarrow> b < length srcs \<longrightarrow> same_family q a b \<longrightarrow> (a, b) \<in> conn (index_links near srcs)"
    "\<forall>a b. a < length srcs \<longrightarrow> b < length srcs \<longrightarrow> same_family p a b \<longrightarrow> same_family q a b"
    "linked near (srcs ! i) (srcs ! j) \<longrightarrow> same_family q i j"
    using union_step_ok [OF Cons.prems(1,2) e(2,3), of near] Cons.prems(4) by blast
  have ps: "\<forall>(i, j)\<in>set ps. i < j \<and> j < length srcs" using Cons.prems(3) by simp
  obtain s m'' where s: "ofold (union_step near srcs) q ps = Some s" "forest s m''" "length s = length srcs"
    "\<forall>a b. a < length srcs \<longrightarrow> b < length srcs \<longrightarrow> same_family s a b \<longrightarrow> (a, b) \<in> conn (index_links near srcs)"
    "\<forall>a b. a < length srcs \<longrightarrow> b < length srcs \<longrightarrow> same_family q a b \<longrightarrow> same_family s a b"
    "\<forall>(i, j)\<in>set ps. linked near (srcs ! i) (srcs ! j) \<longrightarrow> same_family s i j"
    using Cons.IH [OF q(2,3) ps q(4)] by blast
  have "i < length srcs" using e by simp
  with q(6) s(5) e(3) have "linked near (srcs ! i) (srcs ! j) \<longrightarrow> same_family s i j" by blast
  then show ?case using q(1,5) s e(1) by (intro exI [of _ s] exI [of _ m'']) simp
qed

text \<open>After the loop, two sources are in one tree exactly when a chain of links joins them.\<close>

lemma all_unions:
  "\<exists>q m. ofold (union_step near srcs) [0..<length srcs] (index_pairs (length srcs)) = Some q \<and>
     forest q m \<and> length q = length srcs \<and>
     (\<forall>a b. a < length srcs \<longrightarrow> b < length srcs \<longrightarrow>
        (same_family q a b \<longleftrightarrow> (a, b) \<in> conn (index_links near srcs)))"
proof -
  let ?n = "length srcs" and ?E = "index_links near srcs"
  have f: "forest [0..<?n] (\<lambda>_. 0)" by (simp add: forest_def)
  have start: "\<forall>a b. a < ?n \<longrightarrow> b < ?n \<longrightarrow> same_family [0..<?n] a b \<longrightarrow> (a, b) \<in> conn ?E"
  proof (intro allI impI)
    fix a b assume ab: "a < ?n" "b < ?n" "same_family [0..<?n] a b"
    have "r = c" if "root_of [0..<?n] c r" "c < ?n" for c r
      using that by (cases rule: root_of.cases) auto
    with ab have "a = b" by (auto simp: same_family_def)
    then show "(a, b) \<in> conn ?E" by simp
  qed
  have pairs: "\<forall>(i, j)\<in>set (index_pairs ?n). i < j \<and> j < ?n" by (simp add: set_index_pairs)
  obtain q m where q: "ofold (union_step near srcs) [0..<?n] (index_pairs ?n) = Some q" "forest q m" "length q = ?n"
    "\<forall>a b. a < ?n \<longrightarrow> b < ?n \<longrightarrow> same_family q a b \<longrightarrow> (a, b) \<in> conn ?E"
    "\<forall>(i, j)\<in>set (index_pairs ?n). linked near (srcs ! i) (srcs ! j) \<longrightarrow> same_family q i j"
    using union_loop_ok [OF f _ pairs start] by auto
  have edge: "same_family q x y \<and> same_family q y x" if "(x, y) \<in> ?E" for x y
    using that q(5) by (auto simp: index_links_def set_index_pairs intro: same_family_sym)
  have sub: "?E \<subseteq> {..<?n} \<times> {..<?n}" by (auto simp: index_links_def)
  have "same_family q a b" if ab: "(a, b) \<in> conn ?E" "a < ?n" for a b
  proof (rule conjunct1, rule conn_least [OF ab(1) _ sub])
    show "a \<in> {..<?n}" using ab(2) by simp
    show "same_family q x x" if "x \<in> {..<?n}" for x
      using same_family_refl [OF q(2)] q(3) that by simp
    show "same_family q x y \<and> same_family q y x" if "(x, y) \<in> ?E" for x y using edge [OF that] .
    show "same_family q x z" if "same_family q x y" "same_family q y z" for x y z
      using that by (rule same_family_trans)
  qed
  with q show ?thesis by blast
qed

section \<open>Components and their families\<close>

definition members :: "nat list \<Rightarrow> nat \<Rightarrow> nat \<Rightarrow> nat list" where
  "members p k r = filter (\<lambda>i. root_of p i r) [0..<k]"

definition groups_ok :: "nat list \<Rightarrow> nat \<Rightarrow> (nat, nat list) dict \<Rightarrow> bool" where
  "groups_ok p k comps \<longleftrightarrow> distinct (dkeys comps) \<and>
     (\<forall>r. dget comps r = (if members p k r = [] then None else Some (members p k r)))"

lemma component_loop_ok:
  assumes "forest p m" "k \<le> length p"
  shows "\<exists>q comps. ofold component_step (p, []) [0..<k] = Some (q, comps) \<and> forest q m \<and> same_roots p q \<and>
    groups_ok p k comps"
  using assms(2)
proof (induction k)
  case 0
  show ?case using assms(1)
    by (intro exI [of _ p] exI [of _ "[]"]) (simp add: groups_ok_def members_def)
next
  case (Suc k)
  then obtain q comps where q: "ofold component_step (p, []) [0..<k] = Some (q, comps)" "forest q m"
    "same_roots p q" "groups_ok p k comps" by auto
  have k: "k < length q" using Suc.prems q(3) by (simp add: same_roots_def)
  obtain s r where s: "find_root q k = Some (s, r)" "forest s m" "same_roots q s" "root_of q k r"
    using find_root_ok [OF q(2) k] by blast
  have r: "root_of p k x \<longleftrightarrow> x = r" for x
    using s(4) q(3) Suc.prems root_of_iff [of p k r] by (auto simp: same_roots_def)
  let ?c = "dput r (members p k r @ [k]) comps"
  have old: "(case dget comps r of None \<Rightarrow> [] | Some ms \<Rightarrow> ms) = members p k r"
    using q(4) by (simp add: groups_ok_def)
  have app: "ofold f t (xs @ [x]) = Option.bind (ofold f t xs) (\<lambda>u. f u x)" for f t x and xs :: "nat list"
    by (induction xs arbitrary: t) (simp_all add: bind_assoc)
  have "ofold component_step (p, []) [0..<Suc k] = Some (s, ?c)"
    by (simp add: app q(1) component_step_def s(1) old)
  moreover have "members p (Suc k) x = (if x = r then members p k r @ [k] else members p k x)" for x
    by (simp add: members_def r)
  then have "groups_ok p (Suc k) ?c"
    using q(4) by (simp add: groups_ok_def distinct_dkeys_dput)
  ultimately show ?case using s(2) same_roots_trans [OF q(3) s(3)] by blast
qed

lemma groups_values:
  assumes "groups_ok p k comps"
  shows "ms \<in> set (dvalues comps) \<longleftrightarrow> ms \<noteq> [] \<and> (\<exists>x. ms = members p k x)"
proof -
  have d: "distinct (dkeys comps)" using assms by (simp add: groups_ok_def)
  have "ms \<in> set (dvalues comps) \<longleftrightarrow> (\<exists>x. (x, ms) \<in> set comps)" by force
  then have "ms \<in> set (dvalues comps) \<longleftrightarrow> (\<exists>x. dget comps x = Some ms)" by (simp add: dget_iff_set [OF d])
  then show ?thesis using assms by (auto simp: groups_ok_def)
qed

lemma put_members:
  "dget (foldl (\<lambda>d i. dput (f i) v d) d ms) x = (if x \<in> f ` set ms then Some v else dget d x)"
  by (induction ms arbitrary: d) auto

lemma put_groups:
  assumes "\<forall>ms\<in>set comps. x \<in> f ` set ms \<longrightarrow> g (hd ms) = v"
  shows "dget (foldl (\<lambda>d ms. foldl (\<lambda>d i. dput (f i) (g (hd ms)) d) d ms) d comps) x =
    (if \<exists>ms\<in>set comps. x \<in> f ` set ms then Some v else dget d x)"
  using assms by (induction comps arbitrary: d) (auto simp: put_members)

lemma members_hd:
  assumes "root_of p i r" "i < k"
  shows "hd (members p k r) \<in> set (members p k r) \<and> (\<forall>j\<in>set (members p k r). hd (members p k r) \<le> j)"
proof -
  have ne: "members p k r \<noteq> []" using assms by (auto simp: members_def filter_empty_conv)
  have "sorted (members p k r)" unfolding members_def by (intro sorted_wrt_filter sorted_upt)
  with ne show ?thesis by (cases "members p k r") auto
qed

text \<open>The chains of links between the sources themselves.\<close>

definition source_links :: "(string \<times> string \<Rightarrow> string \<times> string \<Rightarrow> bool) \<Rightarrow> source_document list \<Rightarrow>
    (source_document \<times> source_document) set" where
  "source_links near sources =
     {(s, t). s \<in> set sources \<and> t \<in> set sources \<and> sd_source_id s < sd_source_id t \<and> linked near s t}"

lemma conn_map:
  assumes "(x, y) \<in> conn E" "\<And>a b. (a, b) \<in> E \<Longrightarrow> (f a, f b) \<in> conn F"
  shows "(f x, f y) \<in> conn F"
  using assms(1) unfolding conn_def
proof (induction rule: rtrancl_induct)
  case (step y z)
  then have "(f y, f z) \<in> conn F" using assms(2) conn_sym by fastforce
  with step.IH show ?case unfolding conn_def [symmetric] by (rule conn_trans)
qed simp

lemma index_conn:
  assumes "sorted_wrt (\<lambda>s t. sd_source_id s < sd_source_id t) srcs" "set srcs = set sources"
    and "a < length srcs" "b < length srcs"
  shows "(a, b) \<in> conn (index_links near srcs) \<longleftrightarrow> (srcs ! a, srcs ! b) \<in> conn (source_links near sources)"
proof
  assume "(a, b) \<in> conn (index_links near srcs)"
  then show "(srcs ! a, srcs ! b) \<in> conn (source_links near sources)"
    by (rule conn_map)
      (use assms in \<open>auto simp: index_links_def source_links_def sorted_wrt_iff_nth_less intro!: conn_edge\<close>)
next
  have less: "sd_source_id (srcs ! i) < sd_source_id (srcs ! j) \<longleftrightarrow> i < j" if "i < length srcs" "j < length srcs" for i j
  proof -
    have up: "sd_source_id (srcs ! x) < sd_source_id (srcs ! y)" if "x < y" "y < length srcs" for x y
      using assms(1) that by (simp add: sorted_wrt_iff_nth_less)
    show ?thesis
    proof (cases i j rule: linorder_cases)
      case less
      then show ?thesis using up [of i j] that(2) by simp
    next
      case greater
      then have "sd_source_id (srcs ! j) < sd_source_id (srcs ! i)" using up [of j i] that(1) by simp
      then have "\<not> sd_source_id (srcs ! i) < sd_source_id (srcs ! j)" by (rule less_not_sym)
      with greater show ?thesis by simp
    qed simp
  qed
  define idx where "idx s = (SOME i. i < length srcs \<and> srcs ! i = s)" for s
  have idx: "idx s < length srcs \<and> srcs ! idx s = s" if "s \<in> set srcs" for s
  proof -
    have "\<exists>i. i < length srcs \<and> srcs ! i = s" using that by (simp add: in_set_conv_nth)
    then show ?thesis unfolding idx_def by (rule someI_ex)
  qed
  have idx_nth: "idx (srcs ! i) = i" if "i < length srcs" for i
  proof -
    have x: "idx (srcs ! i) < length srcs" "srcs ! idx (srcs ! i) = srcs ! i" using idx [of "srcs ! i"] that by auto
    show ?thesis using less [OF x(1) that] less [OF that x(1)] x(2)
      by (cases "idx (srcs ! i)" i rule: linorder_cases) auto
  qed
  assume "(srcs ! a, srcs ! b) \<in> conn (source_links near sources)"
  then have "(idx (srcs ! a), idx (srcs ! b)) \<in> conn (index_links near srcs)"
  proof (rule conn_map)
    fix s t assume st: "(s, t) \<in> source_links near sources"
    then have mem: "s \<in> set srcs" "t \<in> set srcs" using assms(2) by (auto simp: source_links_def)
    have "sd_source_id (srcs ! idx s) < sd_source_id (srcs ! idx t)" "linked near (srcs ! idx s) (srcs ! idx t)"
      using st idx [OF mem(1)] idx [OF mem(2)] by (auto simp: source_links_def)
    moreover from this(1) have "idx s < idx t" using less [of "idx s" "idx t"] idx [OF mem(1)] idx [OF mem(2)] by simp
    ultimately show "(idx s, idx t) \<in> conn (index_links near srcs)"
      using idx [OF mem(2)] by (intro conn_edge) (simp add: index_links_def)
  qed
  then show "(a, b) \<in> conn (index_links near srcs)" using idx_nth assms(3,4) by simp
qed

lemma sorted_distinct_less:
  assumes "distinct (map f xs)"
  shows "sorted_wrt (\<lambda>s t. f s < f t) (sort_key f xs)"
proof -
  have "mset (map f (sort_key f xs)) = mset (map f xs)" by simp
  then have "distinct (map f (sort_key f xs))" using assms by (metis mset_eq_imp_distinct_iff)
  then have "sorted_wrt (<) (map f (sort_key f xs))" by (simp add: strict_sorted_iff)
  then show ?thesis by (simp add: sorted_wrt_map)
qed

lemma source_families_core:
  "(\<not> distinct (map sd_source_id sources) \<longrightarrow>
      assign_source_families near sha sources = Some (Inl (ValueError ''source IDs must be unique''))) \<and>
   (distinct (map sd_source_id sources) \<longrightarrow>
      (\<exists>families. assign_source_families near sha sources = Some (Inr families) \<and>
        (\<forall>s\<in>set sources. \<exists>rep\<in>set sources.
           (s, rep) \<in> conn (source_links near sources) \<and>
           (\<forall>t\<in>set sources. (s, t) \<in> conn (source_links near sources) \<longrightarrow> sd_source_id rep \<le> sd_source_id t) \<and>
           dget families (sd_source_id s) = Some (family_of sha rep))))"
proof (intro conjI impI)
  let ?srcs = "sort_key sd_source_id sources"
  have dist: "card (set (map sd_source_id ?srcs)) = length ?srcs \<longleftrightarrow> distinct (map sd_source_id sources)"
    by (simp add: card_distinct distinct_card [symmetric] card_image inj_on_def)
      (metis (no_types) card_distinct distinct_card length_map set_map)
  show "assign_source_families near sha sources = Some (Inl (ValueError ''source IDs must be unique''))"
    if "\<not> distinct (map sd_source_id sources)"
    using that dist unfolding assign_source_families_def Let_def by (simp only: if_True simp_thms)
  assume distinct: "distinct (map sd_source_id sources)"
  have sorted: "sorted_wrt (\<lambda>s t. sd_source_id s < sd_source_id t) ?srcs"
    by (rule sorted_distinct_less [OF distinct])
  let ?n = "length ?srcs"
  obtain p m where p: "ofold (union_step near ?srcs) [0..<?n] (index_pairs ?n) = Some p" "forest p m" "length p = ?n"
    and same: "\<forall>a b. a < ?n \<longrightarrow> b < ?n \<longrightarrow> (same_family p a b \<longleftrightarrow> (a, b) \<in> conn (index_links near ?srcs))"
    using all_unions by blast
  obtain q comps where q: "ofold component_step (p, []) [0..<?n] = Some (q, comps)" and g: "groups_ok p ?n comps"
    using component_loop_ok [OF p(2), of ?n] p(3) by auto
  let ?fam = "families_of sha ?srcs (dvalues comps)"
  have "assign_source_families near sha sources = Some (Inr ?fam)"
    using dist distinct p(1) q unfolding assign_source_families_def Let_def by simp
  moreover have "\<exists>rep\<in>set sources. (s, rep) \<in> conn (source_links near sources) \<and>
      (\<forall>t\<in>set sources. (s, t) \<in> conn (source_links near sources) \<longrightarrow> sd_source_id rep \<le> sd_source_id t) \<and>
      dget ?fam (sd_source_id s) = Some (family_of sha rep)" if "s \<in> set sources" for s
  proof -
    have nth: "\<exists>i<?n. ?srcs ! i = t" if "t \<in> set sources" for t
    proof -
      have "t \<in> set ?srcs" using that by simp
      then show ?thesis by (simp only: in_set_conv_nth)
    qed
    obtain i where i: "i < ?n" "?srcs ! i = s" using nth [OF \<open>s \<in> set sources\<close>] by blast
    obtain r where r: "root_of p i r" using forest_root [OF p(2), of i] i(1) p(3) by auto
    let ?ms = "members p ?n r"
    have hd: "hd ?ms \<in> set ?ms" "\<forall>j\<in>set ?ms. hd ?ms \<le> j" using members_hd [OF r i(1)] by auto
    have in_ms: "j \<in> set ?ms \<longleftrightarrow> j < ?n \<and> same_family p i j" for j
      using r by (auto simp: members_def same_family_def dest: root_of_unique)
    have conn: "same_family p i j \<longleftrightarrow> (s, ?srcs ! j) \<in> conn (source_links near sources)" if "j < ?n" for j
      using same i that index_conn [OF sorted _ i(1) that, of sources near] by simp
    let ?rep = "?srcs ! hd ?ms"
    have hd': "hd ?ms < ?n" "same_family p i (hd ?ms)" using hd(1) in_ms by simp_all
    have rep: "?rep \<in> set sources" "(s, ?rep) \<in> conn (source_links near sources)"
      using nth_mem [OF hd'(1)] conn [OF hd'(1)] hd'(2) by simp_all
    have least: "sd_source_id ?rep \<le> sd_source_id t" if t: "t \<in> set sources" "(s, t) \<in> conn (source_links near sources)" for t
    proof -
      obtain j where j: "j < ?n" "?srcs ! j = t" using nth [OF t(1)] by blast
      then have "j \<in> set ?ms" using in_ms [of j] conn [OF j(1)] t(2) by simp
      with hd(2) have le: "hd ?ms \<le> j" by blast
      show ?thesis
      proof (cases "hd ?ms = j")
        case False
        then have "sd_source_id ?rep < sd_source_id (?srcs ! j)"
          using le sorted j(1) by (simp add: sorted_wrt_iff_nth_less)
        with j(2) show ?thesis by simp
      qed (use j(2) in simp)
    qed
    have same_id: "j = i" if "j < ?n" "sd_source_id (?srcs ! j) = sd_source_id s" for j
    proof (rule ccontr)
      assume "j \<noteq> i"
      then consider "i < j" | "j < i" by linarith
      then have "sd_source_id (?srcs ! j) \<noteq> sd_source_id (?srcs ! i)"
        using sorted that(1) i(1) by cases (force simp: sorted_wrt_iff_nth_less)+
      with that(2) i(2) show False by simp
    qed
    let ?f = "\<lambda>j. sd_source_id (?srcs ! j)"
    have one: "\<forall>ms\<in>set (dvalues comps). sd_source_id s \<in> ?f ` set ms \<longrightarrow> family_of sha (?srcs ! hd ms) = family_of sha ?rep"
    proof (intro ballI impI)
      fix ms assume ms: "ms \<in> set (dvalues comps)" "sd_source_id s \<in> ?f ` set ms"
      obtain x where x: "ms = members p ?n x" using groups_values [OF g] ms(1) by blast
      from ms(2) obtain j where "j \<in> set ms" "?f j = sd_source_id s" by auto
      then have "root_of p i x" using same_id [of j] x by (auto simp: members_def)
      then have "x = r" using r root_of_unique by blast
      with x show "family_of sha (?srcs ! hd ms) = family_of sha ?rep" by simp
    qed
    have "i \<in> set ?ms" using in_ms [of i] i(1) same_family_refl [OF p(2)] p(3) by simp
    moreover from this have "?ms \<in> set (dvalues comps)" unfolding groups_values [OF g] by auto
    ultimately have "\<exists>ms\<in>set (dvalues comps). sd_source_id s \<in> ?f ` set ms" using i(2) by blast
    then have "dget ?fam (sd_source_id s) = Some (family_of sha ?rep)"
      using put_groups [OF one, of "[]"] by (simp add: families_of_def)
    with rep least show ?thesis by blast
  qed
  ultimately show "\<exists>families. assign_source_families near sha sources = Some (Inr families) \<and>
        (\<forall>s\<in>set sources. \<exists>rep\<in>set sources.
           (s, rep) \<in> conn (source_links near sources) \<and>
           (\<forall>t\<in>set sources. (s, t) \<in> conn (source_links near sources) \<longrightarrow> sd_source_id rep \<le> sd_source_id t) \<and>
           dget families (sd_source_id s) = Some (family_of sha rep))" by blast
qed

lemma strip_ws_blank: "strip_ws t = rev (dropWhile (\<lambda>c. blank [c]) (rev (dropWhile (\<lambda>c. blank [c]) t)))"
  by (simp add: strip_ws_def blank_def Let_def)

lemma all_dropWhile: "(\<forall>c\<in>set (dropWhile P s). P c) \<longleftrightarrow> (\<forall>c\<in>set s. P c)"
  by (induction s) auto

lemma blank_iff: "blank s \<longleftrightarrow> (\<forall>c\<in>set s. blank [c])"
proof -
  have "blank s \<longleftrightarrow> (\<forall>c\<in>set (dropWhile (\<lambda>c. blank [c]) s). blank [c])"
    by (subst blank_def) (simp add: strip_ws_blank dropWhile_eq_Nil_conv)
  then show ?thesis by (simp only: all_dropWhile)
qed

lemma family_of_not_blank: "\<not> blank (family_of sha rep)"
proof (cases "strip_ws (sd_source_family_id rep) = []")
  case True
  have "\<not> blank ''f''" by code_simp
  with True show ?thesis by (subst blank_iff) (simp add: family_of_def)
next
  case False
  let ?d = "dropWhile (\<lambda>c. blank [c]) (rev (dropWhile (\<lambda>c. blank [c]) (sd_source_family_id rep)))"
  have s: "strip_ws (sd_source_family_id rep) = rev ?d" by (rule strip_ws_blank)
  with False have ne: "?d \<noteq> []" by simp
  have "\<not> blank [hd ?d]" by (rule hd_dropWhile [OF ne])
  moreover have "hd ?d \<in> set (rev ?d)" unfolding set_rev by (rule hd_in_set [OF ne])
  ultimately have "\<not> blank (rev ?d)" by (subst blank_iff) (rule notI, drule (1) bspec, simp)
  with False show ?thesis by (simp only: family_of_def s [symmetric] if_True simp_thms)
qed

text \<open>
  C26. Source families are the connected components of the sources.  When two sources share an id the
  assignment is refused; otherwise it ends, for whatever order the sources come in, and gives every
  source the family of the source with the least id among those it is joined to by a chain of equal
  URLs, equal parsed texts and near-duplicate titles.
\<close>

theorem source_families_are_components:
  "(\<not> distinct (map sd_source_id sources) \<longrightarrow>
      assign_source_families near sha sources = Some (Inl (ValueError ''source IDs must be unique''))) \<and>
   (distinct (map sd_source_id sources) \<longrightarrow>
      (\<exists>families. assign_source_families near sha sources = Some (Inr families) \<and>
        (\<forall>s\<in>set sources. \<exists>rep\<in>set sources.
           (s, rep) \<in> conn (source_links near sources) \<and>
           (\<forall>t\<in>set sources. (s, t) \<in> conn (source_links near sources) \<longrightarrow> sd_source_id rep \<le> sd_source_id t) \<and>
           dget families (sd_source_id s) = Some (family_of sha rep))))"
  by (rule source_families_core)

definition demo_source :: "string \<Rightarrow> source_document" where
  "demo_source i = \<lparr>sd_source_id = i, sd_canonical_url = ''https://a/'' @ i, sd_title = ''T'' @ i, sd_authors = [],
     sd_published_at = None, sd_retrieved_at = \<lparr>ts_utc_offset = Some 0, ts_instant = 0\<rparr>, sd_content_hash = i,
     sd_parsed_content_hash = i, sd_source_type = Paper, sd_source_family_id = ''f'', sd_parser_version = ''1''\<rparr>"

theorem source_families_are_components_witness:
  "\<exists>families. assign_source_families (\<lambda>_ _. True) id [demo_source ''b'', demo_source ''a''] = Some (Inr families)"
  using source_families_are_components [of "[demo_source ''b'', demo_source ''a'']" "\<lambda>_ _. True" id]
  by (auto simp: demo_source_def)

end
