(* ===== verification/Evidence_Selection.thy ===== *)
theory Evidence_Selection
  imports Source_Families Chunking State_Machine "HOL-Library.Product_Lexorder"
begin

text \<open>
  Deduplication of evidence and the first selection pass
  (\<^verbatim>\<open>src/src/deepresearch/evidence/normalize.py\<close>, \<^verbatim>\<open>pass_a.py\<close>).  \<open>near\<close> is the near-duplicate
  test on (text, title) pairs, \<open>sha\<close> the digest, \<open>cfold\<close> case folding.
\<close>

section \<open>Candidates\<close>

record evidence_candidate =
  ec_evidence :: evidence_span
  ec_source :: source_document
  ec_search_rank :: int
  ec_source_family_id :: string

definition mk_evidence_candidate :: "evidence_candidate \<Rightarrow> exc + evidence_candidate" where
  "mk_evidence_candidate c =
     (if ec_search_rank c < 1 then Inl (ValueError ''search_rank must be a positive integer'')
      else if es_source_id (ec_evidence c) \<noteq> sd_source_id (ec_source c)
      then Inl (ValueError ''evidence source_id must match source source_id'')
      else if blank (ec_source_family_id c) then Inl (ValueError ''source_family_id is required'')
      else Inr c)"

abbreviation candidate_id :: "evidence_candidate \<Rightarrow> string" where
  "candidate_id c \<equiv> es_evidence_id (ec_evidence c)"

abbreviation rank_key :: "evidence_candidate \<Rightarrow> int \<times> string" where
  "rank_key c \<equiv> (ec_search_rank c, candidate_id c)"

section \<open>Deduplication (\<^verbatim>\<open>normalize.py\<close>)\<close>

definition near_excerpts :: "(string \<times> string \<Rightarrow> string \<times> string \<Rightarrow> bool) \<Rightarrow> evidence_candidate \<Rightarrow> evidence_candidate \<Rightarrow> bool" where
  "near_excerpts near p c \<longleftrightarrow>
     near (es_excerpt (ec_evidence p), sd_title (ec_source p)) (es_excerpt (ec_evidence c), sd_title (ec_source c))"

fun dedupe_loop :: "(string \<times> string \<Rightarrow> string \<times> string \<Rightarrow> bool) \<Rightarrow> (string, string) dict \<Rightarrow>
    (string \<times> string) set \<Rightarrow> evidence_candidate list \<Rightarrow> evidence_candidate list \<Rightarrow> exc + evidence_candidate list" where
  "dedupe_loop near fams seen kept [] = Inr kept"
| "dedupe_loop near fams seen kept (c # cs) =
     (case dget fams (sd_source_id (ec_source c)) of
        None \<Rightarrow> Inl (KeyError (sd_source_id (ec_source c)))
      | Some family \<Rightarrow>
          let key = (family, es_excerpt_hash (ec_evidence c)) in
          if key \<in> seen then dedupe_loop near fams seen kept cs
          else if list_ex (\<lambda>p. ec_source_family_id p = family \<and> near_excerpts near p c) kept
          then dedupe_loop near fams seen kept cs
          else rbind (mk_evidence_candidate (c\<lparr>ec_source_family_id := family\<rparr>)) (\<lambda>c'.
               dedupe_loop near fams (insert key seen) (kept @ [c']) cs))"

definition dedupe_candidates :: "(string \<times> string \<Rightarrow> string \<times> string \<Rightarrow> bool) \<Rightarrow> (string \<Rightarrow> string) \<Rightarrow>
    evidence_candidate list \<Rightarrow> (exc + evidence_candidate list) option" where
  "dedupe_candidates near sha cs =
     (if cs = [] then Some (Inr [])
      else Option.bind (assign_source_families near sha (map ec_source cs)) (\<lambda>r.
           Some (rbind r (\<lambda>fams. dedupe_loop near fams {} [] (sort_key rank_key cs)))))"

section \<open>Pass A (\<^verbatim>\<open>pass_a.py\<close>)\<close>

record pass_a_result =
  pa_selected :: "evidence_candidate list"
  pa_rejected_evidence_ids :: "string list"
  pa_used_context_tokens :: int

definition mk_pass_a :: "pass_a_result \<Rightarrow> exc + pass_a_result" where
  "mk_pass_a r =
     (if pa_used_context_tokens r < 0 then Inl (ValueError ''used_context_tokens must be non-negative'') else Inr r)"

definition terms_of :: "(string \<Rightarrow> string) \<Rightarrow> string \<Rightarrow> string set" where
  "terms_of cfold s = set (find_words (cfold s))"

definition context_tokens :: "evidence_candidate \<Rightarrow> int" where
  "context_tokens c = max 1 (int (length (runs_from (\<lambda>x. \<not> is_ws x) [] (es_excerpt (ec_evidence c)))))"

fun join_spaces :: "string list \<Rightarrow> string" where
  "join_spaces [] = []"
| "join_spaces [s] = s"
| "join_spaces (s # ss) = s @ CHR '' '' # join_spaces ss"

definition relevant :: "string set \<Rightarrow> evidence_candidate \<Rightarrow> bool" where
  "relevant need_ids c \<longleftrightarrow>
     \<not> blank (es_excerpt (ec_evidence c)) \<and> set (es_information_need_ids (ec_evidence c)) \<inter> need_ids \<noteq> {}"

definition term_score :: "(string \<Rightarrow> string) \<Rightarrow> string set \<Rightarrow> evidence_candidate \<Rightarrow> pyfloat" where
  "term_score cfold query_terms c =
     fadd (fl (of_nat (card (query_terms \<inter> terms_of cfold (es_excerpt (ec_evidence c))))))
          (fdiv (Fin 1) (fl (of_int (max 1 (ec_search_rank c)))))"

text \<open>The number of a finite score, by which the list is sorted.\<close>

fun fnum :: "pyfloat \<Rightarrow> rat" where
  "fnum (Fin r) = r"
| "fnum _ = 0"

fun take_fitting :: "int \<Rightarrow> int \<Rightarrow> evidence_candidate list \<Rightarrow> string set \<Rightarrow> evidence_candidate list \<Rightarrow>
    evidence_candidate list \<times> string set \<times> int" where
  "take_fitting budget used sel rej [] = (sel, rej, used)"
| "take_fitting budget used sel rej (c # cs) =
     (if budget < used + context_tokens c then take_fitting budget used sel rej cs
      else take_fitting budget (used + context_tokens c) (sel @ [c]) (rej - {candidate_id c}) cs)"

definition select_normalized :: "(string \<Rightarrow> string) \<Rightarrow> sub_question \<Rightarrow> int \<Rightarrow> evidence_candidate list \<Rightarrow>
    evidence_candidate list \<Rightarrow> exc + pass_a_result" where
  "select_normalized cfold q budget cs normalized =
     (let need_ids = set (map in_need_id (sq_information_needs q));
          query_terms = terms_of cfold (join_spaces (sq_question q # map in_text (sq_information_needs q)));
          ranked = sort_key (\<lambda>c. (- fnum (term_score cfold query_terms c), rank_key c))
                     (filter (relevant need_ids) normalized);
          (sel, rej, used) = take_fitting budget 0 [] (set (map candidate_id cs)) ranked
      in mk_pass_a \<lparr>pa_selected = sort_key rank_key sel, pa_rejected_evidence_ids = sorted_list_of_set rej,
                    pa_used_context_tokens = used\<rparr>)"

text \<open>
  \<^verbatim>\<open>select\<close>; the token is looked at before the deduplication (\<open>c1\<close>) and in the loops after it
  (\<open>c2\<close>: some look sees it set).
\<close>

definition select_evidence :: "(string \<times> string \<Rightarrow> string \<times> string \<Rightarrow> bool) \<Rightarrow> (string \<Rightarrow> string) \<Rightarrow>
    (string \<Rightarrow> string) \<Rightarrow> bool \<Rightarrow> bool \<Rightarrow> sub_question \<Rightarrow> evidence_candidate list \<Rightarrow> int \<Rightarrow>
    ((operation_cancelled + exc) + pass_a_result) option" where
  "select_evidence near sha cfold c1 c2 q cs budget =
     (if budget < 0 then Some (Inl (Inr (ValueError ''context_budget must be non-negative'')))
      else if c1 then Some (Inl (Inl OperationCancelled))
      else Option.bind (dedupe_candidates near sha cs) (\<lambda>r.
           Some (case r of
                   Inl e \<Rightarrow> Inl (Inr e)
                 | Inr normalized \<Rightarrow>
                     if c2 \<and> normalized \<noteq> [] then Inl (Inl OperationCancelled)
                     else (case select_normalized cfold q budget cs normalized of
                             Inl e \<Rightarrow> Inl (Inr e) | Inr p \<Rightarrow> Inr p))))"

section \<open>What deduplication keeps\<close>

text \<open>
  What the loop has done after some candidates: every kept candidate is one of them with its
  family; kept candidates of a family differ in hash and are not near each other; and every
  candidate is covered by a kept one of its family.
\<close>

definition same_evidence :: "(string \<times> string \<Rightarrow> string \<times> string \<Rightarrow> bool) \<Rightarrow> evidence_candidate \<Rightarrow> evidence_candidate \<Rightarrow> bool" where
  "same_evidence near p c \<longleftrightarrow>
     es_excerpt_hash (ec_evidence p) = es_excerpt_hash (ec_evidence c) \<or> near_excerpts near p c"

definition with_family :: "(string, string) dict \<Rightarrow> evidence_candidate \<Rightarrow> evidence_candidate" where
  "with_family fams c = c\<lparr>ec_source_family_id := the (dget fams (sd_source_id (ec_source c)))\<rparr>"

definition separated :: "(string \<times> string \<Rightarrow> string \<times> string \<Rightarrow> bool) \<Rightarrow> evidence_candidate list \<Rightarrow> bool" where
  "separated near ks \<longleftrightarrow>
     sorted_wrt (\<lambda>p c. ec_source_family_id p = ec_source_family_id c \<longrightarrow> \<not> same_evidence near p c) ks"

definition valid_candidate :: "evidence_candidate \<Rightarrow> bool" where
  "valid_candidate c \<longleftrightarrow> mk_evidence_candidate c = Inr c"

lemma near_excerpts_family [simp]:
  "near_excerpts near (p\<lparr>ec_source_family_id := f\<rparr>) c = near_excerpts near p c"
  "near_excerpts near p (c\<lparr>ec_source_family_id := f\<rparr>) = near_excerpts near p c"
  by (simp_all add: near_excerpts_def)

lemma dedupe_loop_ok:
  assumes "\<forall>c\<in>set cs. valid_candidate c \<and> (\<exists>f. dget fams (sd_source_id (ec_source c)) = Some f \<and> \<not> blank f)"
    and "seen = (\<lambda>k. (ec_source_family_id k, es_excerpt_hash (ec_evidence k))) ` set kept"
    and "separated near kept"
  shows "\<exists>ks. dedupe_loop near fams seen kept cs = Inr (kept @ ks) \<and> subseq ks (map (with_family fams) cs) \<and>
    separated near (kept @ ks) \<and>
    (\<forall>c\<in>set cs. \<exists>k\<in>set (kept @ ks). ec_source_family_id k = ec_source_family_id (with_family fams c) \<and>
       same_evidence near k c)"
  using assms
proof (induction cs arbitrary: seen kept)
  case (Cons c cs)
  obtain f where f: "dget fams (sd_source_id (ec_source c)) = Some f" "\<not> blank f" and v: "valid_candidate c"
    using Cons.prems(1) by auto
  have wf: "with_family fams c = c\<lparr>ec_source_family_id := f\<rparr>" by (simp add: with_family_def f)
  have rest: "\<forall>c\<in>set cs. valid_candidate c \<and> (\<exists>f. dget fams (sd_source_id (ec_source c)) = Some f \<and> \<not> blank f)"
    using Cons.prems(1) by simp
  show ?case
  proof (cases "\<exists>k\<in>set kept. ec_source_family_id k = f \<and> same_evidence near k c")
    case True
    then have "dedupe_loop near fams seen kept (c # cs) = dedupe_loop near fams seen kept cs"
      by (auto simp: f Let_def Cons.prems(2) same_evidence_def list_ex_iff image_iff)
    moreover have "\<exists>k\<in>set (kept @ ks). ec_source_family_id k = ec_source_family_id (with_family fams c) \<and>
        same_evidence near k c" for ks
      using True by (auto simp: wf)
    ultimately show ?thesis using Cons.IH [OF rest Cons.prems(2,3)] by auto
  next
    case False
    let ?c = "c\<lparr>ec_source_family_id := f\<rparr>"
    have "mk_evidence_candidate ?c = Inr ?c"
      using v f(2) by (auto simp: valid_candidate_def mk_evidence_candidate_def split: if_splits)
    then have step: "dedupe_loop near fams seen kept (c # cs) =
        dedupe_loop near fams (insert (f, es_excerpt_hash (ec_evidence c)) seen) (kept @ [?c]) cs"
      using False by (auto simp: f Let_def Cons.prems(2) same_evidence_def list_ex_iff image_iff)
    have "separated near (kept @ [?c])"
      using False Cons.prems(3) by (auto simp: separated_def sorted_wrt_append same_evidence_def)
    from Cons.IH [OF rest _ this, of "insert (f, es_excerpt_hash (ec_evidence c)) seen"] Cons.prems(2)
    obtain ks where ks: "dedupe_loop near fams (insert (f, es_excerpt_hash (ec_evidence c)) seen) (kept @ [?c]) cs
        = Inr ((kept @ [?c]) @ ks)" "subseq ks (map (with_family fams) cs)" "separated near ((kept @ [?c]) @ ks)"
      "\<forall>d\<in>set cs. \<exists>k\<in>set ((kept @ [?c]) @ ks). ec_source_family_id k = ec_source_family_id (with_family fams d) \<and>
         same_evidence near k d" by auto
    have "\<exists>k\<in>set (kept @ ?c # ks). ec_source_family_id k = ec_source_family_id (with_family fams c) \<and> same_evidence near k c"
      by (rule bexI [of _ ?c]) (auto simp: wf same_evidence_def)
    with ks step show ?thesis by (intro exI [of _ "?c # ks"]) (auto simp: wf)
  qed
qed simp

lemma families_total:
  assumes "distinct (map sd_source_id sources)"
  obtains fams where "assign_source_families near sha sources = Some (Inr fams)"
    "\<forall>s\<in>set sources. \<exists>f. dget fams (sd_source_id s) = Some f \<and> \<not> blank f"
  using conjunct2 [OF source_families_core [of sources near sha], rule_format, OF assms] family_of_not_blank
  by (elim exE conjE) (rule that, assumption, metis)

text \<open>
  Deduplication of evidence.  For valid candidates of different sources it ends without an
  error.  What it keeps are candidates labelled with their source family, by rank and then id; two
  of one family differ in the hash of their excerpt and are not near duplicates; and for every
  candidate some kept one of its family has its excerpt, exactly or nearly.
\<close>

theorem dedupe_evidence_keeps:
  assumes "distinct (map (\<lambda>c. sd_source_id (ec_source c)) cs)" "\<forall>c\<in>set cs. valid_candidate c"
  shows "\<exists>fams ks. assign_source_families near sha (map ec_source cs) = Some (Inr fams) \<and>
    dedupe_candidates near sha cs = Some (Inr ks) \<and>
    subseq ks (map (with_family fams) (sort_key rank_key cs)) \<and> separated near ks \<and>
    (\<forall>c\<in>set cs. \<exists>k\<in>set ks. ec_source_family_id k = ec_source_family_id (with_family fams c) \<and>
       same_evidence near k c)"
proof -
  have "distinct (map sd_source_id (map ec_source cs))" using assms(1) by (simp add: comp_def)
  then obtain fams where fams: "assign_source_families near sha (map ec_source cs) = Some (Inr fams)"
    "\<forall>s\<in>set (map ec_source cs). \<exists>f. dget fams (sd_source_id s) = Some f \<and> \<not> blank f"
    by (rule families_total)
  have "\<forall>c\<in>set (sort_key rank_key cs). valid_candidate c \<and>
      (\<exists>f. dget fams (sd_source_id (ec_source c)) = Some f \<and> \<not> blank f)"
    using assms(2) fams(2) by simp
  from dedupe_loop_ok [OF this, of "{}" "[]" near] obtain ks where
    ks: "dedupe_loop near fams {} [] (sort_key rank_key cs) = Inr ks"
    "subseq ks (map (with_family fams) (sort_key rank_key cs))" "separated near ks"
    "\<forall>c\<in>set cs. \<exists>k\<in>set ks. ec_source_family_id k = ec_source_family_id (with_family fams c) \<and> same_evidence near k c"
    by (auto simp: separated_def)
  have "dedupe_candidates near sha cs = Some (Inr ks)"
    using fams(1) ks(1) by (auto simp: dedupe_candidates_def)
  with fams(1) ks show ?thesis by blast
qed

section \<open>Pass A stays within its budget\<close>

lemma context_tokens_pos: "1 \<le> context_tokens c"
  by (simp add: context_tokens_def)

lemma take_fitting_ok:
  assumes "take_fitting budget used sel rej cs = (sel', rej', used')" "used \<le> budget"
  shows "\<exists>ts. sel' = sel @ ts \<and> subseq ts cs \<and> used' = used + sum_list (map context_tokens ts) \<and> used' \<le> budget \<and>
    rej' = rej - candidate_id ` set ts \<and> used \<le> used' \<and>
    (\<forall>c\<in>set cs. c \<notin> set ts \<longrightarrow> budget < used' + context_tokens c)"
  using assms
proof (induction cs arbitrary: used sel rej)
  case (Cons c cs)
  show ?case
  proof (cases "budget < used + context_tokens c")
    case True
    with Cons.prems have "take_fitting budget used sel rej cs = (sel', rej', used')" by simp
    from Cons.IH [OF this Cons.prems(2)] obtain ts where "sel' = sel @ ts" "subseq ts cs"
      "used' = used + sum_list (map context_tokens ts)" "used' \<le> budget" "rej' = rej - candidate_id ` set ts"
      "used \<le> used'" "\<forall>c\<in>set cs. c \<notin> set ts \<longrightarrow> budget < used' + context_tokens c" by blast
    with True show ?thesis by (intro exI [of _ ts]) auto
  next
    case False
    let ?u = "used + context_tokens c"
    have "take_fitting budget ?u (sel @ [c]) (rej - {candidate_id c}) cs = (sel', rej', used')" "?u \<le> budget"
      using False Cons.prems by simp_all
    from Cons.IH [OF this] obtain ts where "sel' = (sel @ [c]) @ ts" "subseq ts cs"
      "used' = ?u + sum_list (map context_tokens ts)" "used' \<le> budget"
      "rej' = (rej - {candidate_id c}) - candidate_id ` set ts" "?u \<le> used'"
      "\<forall>c\<in>set cs. c \<notin> set ts \<longrightarrow> budget < used' + context_tokens c" by blast
    then show ?thesis using context_tokens_pos [of c] by (intro exI [of _ "c # ts"]) auto
  qed
qed simp

text \<open>
  The first selection pass respects its context budget.  For valid candidates of different
  sources it returns; what it selects are relevant, deduplicated candidates in rank order whose
  tokens are exactly the used tokens and fit the budget; a relevant candidate that was left out
  would not fit any more; and the rejected ids are, sorted, all the others.
\<close>

theorem pass_a_fits:
  assumes "0 \<le> budget" "distinct (map (\<lambda>c. sd_source_id (ec_source c)) cs)" "\<forall>c\<in>set cs. valid_candidate c"
  shows "\<exists>r normalized. select_evidence near sha cfold False False q cs budget = Some (Inr r) \<and>
    dedupe_candidates near sha cs = Some (Inr normalized) \<and>
    sum_list (map context_tokens (pa_selected r)) = pa_used_context_tokens r \<and> pa_used_context_tokens r \<le> budget \<and>
    set (pa_selected r) \<subseteq> {c \<in> set normalized. relevant (set (map in_need_id (sq_information_needs q))) c} \<and>
    (\<forall>c\<in>set normalized. relevant (set (map in_need_id (sq_information_needs q))) c \<longrightarrow>
       c \<in> set (pa_selected r) \<or> budget < pa_used_context_tokens r + context_tokens c) \<and>
    sorted (map rank_key (pa_selected r)) \<and>
    pa_rejected_evidence_ids r = sorted_list_of_set (candidate_id ` set cs - candidate_id ` set (pa_selected r))"
proof -
  have dist: "distinct (map sd_source_id (map ec_source cs))" using assms(2) by (simp add: comp_def)
  obtain fams where fams: "assign_source_families near sha (map ec_source cs) = Some (Inr fams)"
    "\<forall>s\<in>set (map ec_source cs). \<exists>f. dget fams (sd_source_id s) = Some f \<and> \<not> blank f"
    by (rule families_total [OF dist])
  have ok: "\<forall>c\<in>set (sort_key rank_key cs). valid_candidate c \<and>
      (\<exists>f. dget fams (sd_source_id (ec_source c)) = Some f \<and> \<not> blank f)"
    using assms(3) fams(2) by simp
  obtain ks where "dedupe_loop near fams {} [] (sort_key rank_key cs) = Inr ks"
    using dedupe_loop_ok [OF ok, of "{}" "[]" near] by (auto simp: separated_def)
  then have dd: "dedupe_candidates near sha cs = Some (Inr ks)"
    using fams(1) by (auto simp: dedupe_candidates_def)
  let ?needs = "set (map in_need_id (sq_information_needs q))"
  define ranked where "ranked = sort_key (\<lambda>c. (- fnum (term_score cfold
      (terms_of cfold (join_spaces (sq_question q # map in_text (sq_information_needs q)))) c), rank_key c))
      (filter (relevant ?needs) ks)"
  obtain sel rej used where t: "take_fitting budget 0 [] (set (map candidate_id cs)) ranked = (sel, rej, used)"
    by (metis prod_cases3)
  from take_fitting_ok [OF t assms(1)] have sel: "subseq sel ranked" "used = sum_list (map context_tokens sel)"
    "used \<le> budget" "rej = candidate_id ` set cs - candidate_id ` set sel" "0 \<le> used"
    "\<forall>c\<in>set ranked. c \<notin> set sel \<longrightarrow> budget < used + context_tokens c" by auto
  define r where "r = \<lparr>pa_selected = sort_key rank_key sel, pa_rejected_evidence_ids = sorted_list_of_set rej,
    pa_used_context_tokens = used\<rparr>"
  have "select_normalized cfold q budget cs ks = Inr r"
    using t sel(5) unfolding select_normalized_def Let_def ranked_def [symmetric] by (simp add: mk_pass_a_def r_def)
  then have res: "select_evidence near sha cfold False False q cs budget = Some (Inr r)"
    using assms(1) dd by (simp add: select_evidence_def)
  have fields: "set (pa_selected r) = set sel" "pa_used_context_tokens r = used"
    "pa_rejected_evidence_ids r = sorted_list_of_set rej" "sorted (map rank_key (pa_selected r))"
    by (simp_all add: r_def)
  have ranked: "set ranked = {c \<in> set ks. relevant ?needs c}" by (simp add: ranked_def)
  have sub: "set sel \<subseteq> set ranked" using sel(1) by (auto dest: list_emb_set)
  have "mset (map context_tokens (sort_key rank_key sel)) = mset (map context_tokens sel)" by simp
  then have "sum_mset (mset (map context_tokens (sort_key rank_key sel))) = sum_mset (mset (map context_tokens sel))"
    by (simp only:)
  then have sum: "sum_list (map context_tokens (pa_selected r)) = pa_used_context_tokens r"
    unfolding fields(2) sel(2) by (simp only: r_def pass_a_result.select_convs sum_mset_sum_list)
  have left: "c \<in> set sel \<or> budget < used + context_tokens c" if "c \<in> set ks" "relevant ?needs c" for c
  proof -
    have "c \<in> set ranked" unfolding ranked using that by (intro CollectI conjI)
    from bspec [OF sel(6) this] show ?thesis by blast
  qed
  show ?thesis
  proof (intro exI [of _ r] exI [of _ ks] conjI)
    show "set (pa_selected r) \<subseteq> {c \<in> set ks. relevant ?needs c}" unfolding fields(1) ranked [symmetric] by (rule sub)
    show "\<forall>c\<in>set ks. relevant ?needs c \<longrightarrow> c \<in> set (pa_selected r) \<or> budget < pa_used_context_tokens r + context_tokens c"
      unfolding fields(1,2) by (intro ballI impI) (rule left)
    show "pa_rejected_evidence_ids r = sorted_list_of_set (candidate_id ` set cs - candidate_id ` set (pa_selected r))"
      unfolding fields(1,3) sel(4) ..
    show "pa_used_context_tokens r \<le> budget" unfolding fields(2) by (rule sel(3))
  qed (fact res dd sum fields(4))+
qed

section \<open>A small selection\<close>

definition demo_candidate :: "string \<Rightarrow> evidence_candidate" where
  "demo_candidate i = \<lparr>ec_evidence = \<lparr>es_evidence_id = ''E-'' @ i, es_source_id = i,
     es_locator = HtmlLocator ''p'' 0 5, es_excerpt = ''llm x'', es_excerpt_hash = ''h'', es_language = ''en'',
     es_information_need_ids = [''n'']\<rparr>, ec_source = demo_source i, ec_search_rank = 1, ec_source_family_id = ''g''\<rparr>"

lemma demo_candidates:
  "distinct (map (\<lambda>c. sd_source_id (ec_source c)) [demo_candidate ''a'', demo_candidate ''b''])"
  "\<forall>c\<in>set [demo_candidate ''a'', demo_candidate ''b'']. valid_candidate c"
proof -
  have "\<not> blank ''g''" by code_simp
  then show "distinct (map (\<lambda>c. sd_source_id (ec_source c)) [demo_candidate ''a'', demo_candidate ''b''])"
    "\<forall>c\<in>set [demo_candidate ''a'', demo_candidate ''b'']. valid_candidate c"
    by (simp_all add: demo_candidate_def demo_source_def valid_candidate_def mk_evidence_candidate_def)
qed

theorem dedupe_evidence_keeps_witness:
  "\<exists>ks. dedupe_candidates (\<lambda>_ _. False) id [demo_candidate ''a'', demo_candidate ''b''] = Some (Inr ks) \<and>
     separated (\<lambda>_ _. False) ks"
  using dedupe_evidence_keeps [OF demo_candidates, of "\<lambda>_ _. False" id] by blast

definition demo_question :: sub_question where
  "demo_question = \<lparr>sq_id = ''q'', sq_question = ''llm'', sq_rationale_code = ''c'', sq_importance = Fin 1,
     sq_dependencies = [], sq_information_needs = [\<lparr>in_need_id = ''n'', in_text = ''llm'', in_importance = Fin 1\<rparr>],
     sq_evidence_requirements = \<lparr>er_min_independent_sources = 1, er_allowed_source_types = {},
       er_must_include_primary = False, er_freshness = None\<rparr>, sq_status = SqPending\<rparr>"

theorem pass_a_fits_witness:
  "\<exists>r. select_evidence (\<lambda>_ _. False) id id False False demo_question [demo_candidate ''a'', demo_candidate ''b''] 3
      = Some (Inr r) \<and> pa_used_context_tokens r \<le> 3"
  using pass_a_fits [OF _ demo_candidates, of 3 "\<lambda>_ _. False" id id demo_question] by auto

end
