(* ===== verification/Evidence_Judge.thy ===== *)
theory Evidence_Judge
  imports Evidence_Selection Budget_Correct
begin

text \<open>
  Judging evidence for a claim (\<^verbatim>\<open>src/src/deepresearch/evidence/claims.py\<close>): the budgeted call of
  a model and the deterministic judge that runs without one.  Case folding and the digest that
  names reservations are parameters; what the model answers is an argument.  \<^verbatim>\<open>a / b\<close> on integers
  is the correctly rounded quotient.
\<close>

section \<open>The budgeted model call (\<^verbatim>\<open>_settle_model_call\<close>)\<close>

datatype 'o model_answer = Structured resource_usage 'o | ModelRaised exc

datatype judge_error = CallRefused budget_error | CallFailed exc | JudgeCancelled

definition call_estimate :: resource_estimate where
  "call_estimate = \<lparr>re_search_calls = 0, re_pages = 0, re_tokens = 512, re_wall_seconds = Fin 5,
     re_cost_usd = Some (Fin 0), re_retries = 0\<rparr>"

text \<open>The handler releases the reservation and swallows what the release may raise.\<close>

definition release_quietly :: "accountant \<Rightarrow> budget_reservation \<Rightarrow> accountant" where
  "release_quietly a r = (case release a r of Inl _ \<Rightarrow> a | Inr (_, a') \<Rightarrow> a')"

definition call_actual :: "accountant \<Rightarrow> resource_usage \<Rightarrow> exc + resource_usage" where
  "call_actual a u =
     rbind (snapshot a) (\<lambda>s.
     Inr (if bs_used_cost_usd s \<noteq> None \<and> ru_cost_usd u = None then u\<lparr>ru_cost_usd := Some (Fin 0)\<rparr> else u))"

text \<open>Reserve, call, settle at the usage of the answer; a failure after the reservation releases it.\<close>

definition budgeted_call :: "(string \<Rightarrow> string) \<Rightarrow> nat \<Rightarrow> accountant \<Rightarrow> resource_estimate \<Rightarrow> string \<Rightarrow>
    'o model_answer \<Rightarrow> (judge_error + 'o) \<times> accountant" where
  "budgeted_call sha oid a estimate key answer =
     (case reserve sha oid a estimate ''Ranker'' key of
        Inl e \<Rightarrow> (Inl (CallRefused e), a)
      | Inr (r, a1) \<Rightarrow>
          (case answer of
             ModelRaised e \<Rightarrow> (Inl (CallFailed e), release_quietly a1 r)
           | Structured u out \<Rightarrow>
               (case rbind (call_actual a1 u) (\<lambda>actual. settle a1 r actual True) of
                  Inl e \<Rightarrow> (Inl (CallFailed e), release_quietly a1 r)
                | Inr (_, a2) \<Rightarrow> (Inr out, a2))))"

definition settle_model_call :: "(string \<Rightarrow> string) \<Rightarrow> nat \<Rightarrow> accountant option \<Rightarrow> string \<Rightarrow> 'o model_answer \<Rightarrow>
    (judge_error + 'o) \<times> accountant option" where
  "settle_model_call sha oid budget key answer =
     (case budget of
        None \<Rightarrow> (case answer of Structured _ out \<Rightarrow> (Inr out, None) | ModelRaised e \<Rightarrow> (Inl (CallFailed e), None))
      | Some a \<Rightarrow> (case budgeted_call sha oid a call_estimate key answer of (res, a') \<Rightarrow> (res, Some a')))"

section \<open>The deterministic judge\<close>

definition stopwords :: "string set" where
  "stopwords = {''a'', ''an'', ''and'', ''are'', ''as'', ''at'', ''be'', ''by'', ''for'', ''from'',
     ''in'', ''is'', ''it'', ''of'', ''on'', ''or'', ''that'', ''the'', ''this'', ''to'', ''was'', ''were'', ''with''}"

definition meaningful_terms :: "(string \<Rightarrow> string) \<Rightarrow> string \<Rightarrow> string set" where
  "meaningful_terms cfold value =
     set (filter (\<lambda>t. 3 \<le> length t \<and> t \<notin> stopwords) (find_words (cfold value)))"

definition py_div :: "nat \<Rightarrow> nat \<Rightarrow> pyfloat" where
  "py_div a b = fl (of_nat a / of_nat b)"

definition judge_link :: "(string \<Rightarrow> string) \<Rightarrow> string \<Rightarrow> string \<Rightarrow> claim \<Rightarrow> evidence_span \<Rightarrow> claim_evidence_link" where
  "judge_link cfold model prompt c item =
     (let claim_terms = meaningful_terms cfold (cm_text c);
          n = card claim_terms;
          overlap = card (claim_terms \<inter> meaningful_terms cfold (es_excerpt item));
          minimum_overlap = max 1 ((n + 4) div 5);
          supported = (claim_terms \<noteq> {} \<and> minimum_overlap \<le> overlap \<and> fle (fl (2 / 10)) (py_div overlap n));
          score = (if claim_terms \<noteq> {} then py_div overlap n else Fin 0)
      in \<lparr>lk_claim_id = cm_claim_id c, lk_evidence_id = es_evidence_id item,
          lk_relation = (if supported then Support else Insufficient),
          lk_entailment_score = score, lk_relevance_score = score, lk_judge_model = model,
          lk_prompt_version = prompt,
          lk_decision_code = (if supported then ''EVIDENCE_SUPPORT'' else ''EVIDENCE_INSUFFICIENT'')\<rparr>)"

definition mk_link :: "claim_evidence_link \<Rightarrow> exc + claim_evidence_link" where
  "mk_link l = (if valid_link l then Inr l else Inl (ValueError ''invalid link''))"

text \<open>\<^verbatim>\<open>judge\<close> with the model's answer, if there is a model.\<close>

definition judge :: "(string \<Rightarrow> string) \<Rightarrow> (string \<Rightarrow> string) \<Rightarrow> nat \<Rightarrow> accountant option \<Rightarrow>
    claim_evidence_link list model_answer option \<Rightarrow> cancellation_token \<Rightarrow> string \<Rightarrow> string \<Rightarrow> claim \<Rightarrow>
    evidence_span list \<Rightarrow> (judge_error + claim_evidence_link list) \<times> accountant option" where
  "judge cfold sha oid budget model token judge_model prompt c evidence =
     (case raise_if_cancelled token of
        Inl _ \<Rightarrow> (Inl JudgeCancelled, budget)
      | Inr _ \<Rightarrow>
          (case model of
             Some answer \<Rightarrow> settle_model_call sha oid budget (''judge:'' @ sha (cm_claim_id c)) answer
           | None \<Rightarrow>
               (case mapM (\<lambda>item. mk_link (judge_link cfold judge_model prompt c item)) evidence of
                  Inl e \<Rightarrow> (Inl (CallFailed e), budget)
                | Inr links \<Rightarrow> (Inr links, budget))))"

section \<open>Lemmas\<close>

text \<open>
  A model call is a sequence of operations of the accountant, so everything proved of those
  sequences (nothing is charged twice, no internal error, the invariant) holds across calls.
\<close>

lemma release_quietly_op: "release_quietly a r = acct_run H a [OpRelease r]"
  by (simp add: release_quietly_def keep_def)

lemma budgeted_call_ops:
  "\<exists>ops. snd (budgeted_call sha oid a est key answer) = acct_run sha a ops"
proof (cases "reserve sha oid a est ''Ranker'' key")
  case (Inl e)
  then show ?thesis by (intro exI [of _ "[]"]) (simp add: budgeted_call_def)
next
  case (Inr p)
  obtain r a1 where p: "p = (r, a1)" by fastforce
  let ?q = "OpReserve (oid, est, ''Ranker'', key)"
  have a1: "acct_run sha a [?q] = a1" using Inr p by (simp add: keep_def)
  have rel: "release_quietly a1 r = acct_run sha a [?q, OpRelease r]"
    using a1 release_quietly_op [of a1 r sha] by simp
  show ?thesis
  proof (cases answer)
    case (ModelRaised e)
    with Inr p rel show ?thesis
      by (intro exI [of _ "[?q, OpRelease r]"]) (simp add: budgeted_call_def)
  next
    case (Structured u out)
    show ?thesis
    proof (cases "rbind (call_actual a1 u) (\<lambda>actual. settle a1 r actual True)")
      case e: (Inl e)
      with Inr p rel Structured show ?thesis
        by (intro exI [of _ "[?q, OpRelease r]"]) (simp add: budgeted_call_def)
    next
      case ok: (Inr z)
      then obtain actual t a2 where t: "settle a1 r actual True = Inr (t, a2)" "z = (t, a2)"
        by (metis prod.exhaust rbind_eq_Inr)
      then have "acct_run sha a [?q, OpSettle r (actual, True)] = a2" using a1 by (simp add: keep_def)
      with Inr p ok t Structured show ?thesis
        by (intro exI [of _ "[?q, OpSettle r (actual, True)]"]) (simp add: budgeted_call_def)
    qed
  qed
qed

lemma budgeted_call_inv: "acct_inv a \<Longrightarrow> acct_inv (snd (budgeted_call sha oid a est key answer))"
  using budgeted_call_ops [of sha oid a est key answer] acct.run_ops_inv by fastforce

lemma budgeted_call_budget: "ac_budget (snd (budgeted_call sha oid a est key answer)) = ac_budget a"
  using budgeted_call_ops [of sha oid a est key answer] run_budget by fastforce

text \<open>The two outcomes of a first call, and what they leave in the accountant.\<close>

lemma answered_settled:
  assumes "acct_inv a" "budgeted_call sha oid a est key (Structured u out) = (Inr out, a')"
  obtains r a1 actual s st where "reserve sha oid a est ''Ranker'' key = Inr (r, a1)"
    "a' = acct_run sha a1 [OpSettle r (actual, True)]"
    "dget (ac_states a') (br_reservation_id r) = Some st" "rs_reservation st = r"
    "rs_status st = Settled" "rs_terminal_snapshot st = Some s"
proof -
  obtain r a1 actual s where res: "reserve sha oid a est ''Ranker'' key = Inr (r, a1)"
    and s: "settle a1 r actual True = Inr (s, a')"
    using assms(2) by (auto simp: budgeted_call_def res_simps split: sum.splits)
  have "acct_inv a1" using assms(1) res by (rule reserve_inv)
  with s obtain st where "dget (ac_states a') (br_reservation_id r) = Some st" "rs_reservation st = r"
    "rs_status st = Settled" "rs_terminal_snapshot st = Some s" by (rule settle_settled)
  moreover have "a' = acct_run sha a1 [OpSettle r (actual, True)]" using s by (simp add: keep_def)
  ultimately show thesis using res by (intro that)
qed

lemma failed_released:
  assumes "acct_inv a" "ac_idempotency_index a key = None"
    and "budgeted_call sha oid a est key (ModelRaised e) = (Inl (CallFailed e), a')"
  obtains r a1 s st where "reserve sha oid a est ''Ranker'' key = Inr (r, a1)"
    "a' = acct_run sha a1 [OpRelease r]"
    "dget (ac_states a') (br_reservation_id r) = Some st" "rs_reservation st = r"
    "rs_status st = Released" "rs_terminal_snapshot st = Some s"
proof -
  obtain r a1 where res: "reserve sha oid a est ''Ranker'' key = Inr (r, a1)"
    and rel: "a' = release_quietly a1 r"
    using assms(3) by (auto simp: budgeted_call_def split: sum.splits)
  have inv: "acct_inv a1" using assms(1) res by (rule reserve_inv)
  from fresh_release [OF res assms(2)] obtain s b where b: "release a1 r = Inr (s, b)" by blast
  have "a' = b" by (simp add: rel release_quietly_def b)
  with b have "release a1 r = Inr (s, a')" by simp
  then obtain st where st: "dget (ac_states a') (br_reservation_id r) = Some st" "rs_reservation st = r"
    "rs_status st = Released" "rs_terminal_snapshot st = Some s" using inv by (rule release_released)
  have "a' = acct_run sha a1 [OpRelease r]" unfolding rel by (rule release_quietly_op)
  from that [OF res this st] show thesis .
qed

text \<open>
  A key that has been used.  Whatever happens on the accountant after the first call, a second call
  under its key and estimate reaches the model and leaves the accountant as it is: after a call
  that was answered the second one is answered too, and never charged; after a call that failed
  every further one fails, although the model answers.
\<close>

theorem repeated_call_free:
  assumes "acct_inv a" "budgeted_call sha oid a est key (Structured u out) = (Inr out, a')"
    and "snapshot (acct_run sha a' ops) = Inr s"
  shows "budgeted_call sha oid' (acct_run sha a' ops) est key (Structured u' out') =
    (Inr out', acct_run sha a' ops)"
proof -
  from assms(1,2) obtain r a1 actual t st where res: "reserve sha oid a est ''Ranker'' key = Inr (r, a1)"
    and a': "a' = acct_run sha a1 [OpSettle r (actual, True)]" and
    st: "dget (ac_states a') (br_reservation_id r) = Some st" "rs_reservation st = r"
      "rs_status st = Settled" "rs_terminal_snapshot st = Some t"
    by (rule answered_settled)
  let ?A = "acct_run sha a' ops"
  have "acct_inv a'" using budgeted_call_inv [OF assms(1)] assms(2) by (metis snd_conv)
  from run_keeps [OF this st(1), of sha ops] st
  have A: "dget (ac_states ?A) (br_reservation_id r) = Some st" by auto
  have "?A = acct_run sha a1 (OpSettle r (actual, True) # ops)" by (simp add: a')
  with conjunct1 [OF reserve_once [OF assms(1) res], of oid' "OpSettle r (actual, True) # ops"]
  have "reserve sha oid' ?A est ''Ranker'' key = Inr (r, ?A)" by (simp only:)
  moreover have "owned_state ?A r = Inr st" using A st(2) by (simp add: owned_state_Inr)
  ultimately show ?thesis using assms(3) st(3,4)
    by (simp add: budgeted_call_def call_actual_def settle_def)
qed

theorem repeated_call_fails:
  assumes "acct_inv a" "ac_idempotency_index a key = None"
    and "budgeted_call sha oid a est key (ModelRaised e) = (Inl (CallFailed e), a')"
    and "snapshot (acct_run sha a' ops) = Inr s"
  shows "budgeted_call sha oid' (acct_run sha a' ops) est key (Structured u' out') =
    (Inl (CallFailed (ValueError ''cannot settle a released reservation'')), acct_run sha a' ops)"
proof -
  from assms(1-3) obtain r a1 t st where res: "reserve sha oid a est ''Ranker'' key = Inr (r, a1)"
    and a': "a' = acct_run sha a1 [OpRelease r]" and
    st: "dget (ac_states a') (br_reservation_id r) = Some st" "rs_reservation st = r"
      "rs_status st = Released" "rs_terminal_snapshot st = Some t"
    by (rule failed_released)
  let ?A = "acct_run sha a' ops"
  have "acct_inv a'" using budgeted_call_inv [OF assms(1)] assms(3) by (metis snd_conv)
  from run_keeps [OF this st(1), of sha ops] st
  have A: "dget (ac_states ?A) (br_reservation_id r) = Some st" by auto
  have "?A = acct_run sha a1 (OpRelease r # ops)" by (simp add: a')
  with conjunct1 [OF reserve_once [OF assms(1) res], of oid' "OpRelease r # ops"]
  have "reserve sha oid' ?A est ''Ranker'' key = Inr (r, ?A)" by (simp only:)
  moreover have own: "owned_state ?A r = Inr st" using A st(2) by (simp add: owned_state_Inr)
  moreover have "release_quietly ?A r = ?A" using own st(3,4) by (simp add: release_quietly_def release_def)
  ultimately show ?thesis using assms(4) st(3,4)
    by (simp add: budgeted_call_def call_actual_def settle_def)
qed

lemma fle_fl: "x \<le> y \<Longrightarrow> \<bar>x\<bar> \<le> 2 ^ 53 - 1 \<Longrightarrow> \<bar>y\<bar> \<le> 2 ^ 53 - 1 \<Longrightarrow> fle (fl x) (fl y)"
  using rnd_mono [of x y] by (simp add: fl_small)

lemma ratio_unit:
  fixes k n :: nat
  assumes "k \<le> n" "0 < n"
  shows "0 \<le> (of_nat k / of_nat n :: rat)" "(of_nat k / of_nat n :: rat) \<le> 1"
  using assms by (simp_all add: divide_le_eq)

text \<open>The three tests for support come to one comparison of integers.\<close>

lemma support_exact:
  fixes k n :: nat
  assumes "k \<le> n" "0 < n"
  shows "max 1 ((n + 4) div 5) \<le> k \<and> fle (fl (2 / 10)) (py_div k n) \<longleftrightarrow> n \<le> 5 * k"
proof -
  have "fle (fl (2 / 10)) (py_div k n)" if "n \<le> 5 * k"
    unfolding py_div_def
  proof (rule fle_fl)
    have "(of_nat n :: rat) \<le> of_nat (5 * k)" using that by (simp only: of_nat_le_iff)
    then show "2 / 10 \<le> (of_nat k / of_nat n :: rat)" using assms(2) by (simp add: field_simps)
    show "\<bar>of_nat k / of_nat n :: rat\<bar> \<le> 2 ^ 53 - 1" using ratio_unit [OF assms] by (simp only: abs_of_nonneg) simp
  qed simp
  moreover have "max 1 ((n + 4) div 5) \<le> k \<longleftrightarrow> n \<le> 5 * k" using assms(2) unfolding max.bounded_iff by linarith
  ultimately show ?thesis by blast
qed

lemma judge_link_valid: "valid_link (judge_link cfold model prompt c item)"
proof -
  let ?T = "meaningful_terms cfold (cm_text c)"
  let ?k = "card (?T \<inter> meaningful_terms cfold (es_excerpt item))"
  have "unit (py_div ?k (card ?T))" if "?T \<noteq> {}"
  proof -
    have fin: "finite ?T" by (simp add: meaningful_terms_def)
    have "?k \<le> card ?T" by (rule card_mono [OF fin]) simp
    moreover have "0 < card ?T" using fin that by (simp add: card_gt_0_iff)
    ultimately show ?thesis using fl_unit [OF ratio_unit] by (simp add: py_div_def unit_def)
  qed
  then show ?thesis by (simp add: valid_link_def judge_link_def Let_def unit_def)
qed

lemma judge_link_support:
  "lk_relation (judge_link cfold model prompt c item) = Support \<longleftrightarrow>
     meaningful_terms cfold (cm_text c) \<noteq> {} \<and>
     card (meaningful_terms cfold (cm_text c)) \<le>
       5 * card (meaningful_terms cfold (cm_text c) \<inter> meaningful_terms cfold (es_excerpt item))"
proof (cases "meaningful_terms cfold (cm_text c) = {}")
  case False
  let ?T = "meaningful_terms cfold (cm_text c)"
  have fin: "finite ?T" by (simp add: meaningful_terms_def)
  have "card (?T \<inter> meaningful_terms cfold (es_excerpt item)) \<le> card ?T" by (rule card_mono [OF fin]) simp
  moreover have "0 < card ?T" using fin False by (simp add: card_gt_0_iff)
  ultimately show ?thesis using support_exact [of _ "card ?T"] False by (auto simp: judge_link_def Let_def)
qed (simp add: judge_link_def Let_def)

text \<open>
  The deterministic judge decides support by counting.  It never fails except for a
  cancelled run: it returns one valid link for every piece of evidence, in order and for the
  claim, with scores between 0 and 1, and the link says support exactly when the claim has a
  meaningful term and at least a fifth of them occur in the excerpt; the rounded quotient never
  overrules the integer test.
\<close>

theorem judge_exact:
  assumes "\<not> is_cancelled token"
  shows "\<exists>links. judge cfold sha oid budget None token model prompt c evidence = (Inr links, budget) \<and>
    map lk_evidence_id links = map es_evidence_id evidence \<and>
    (\<forall>i < length evidence. let l = links ! i; terms = meaningful_terms cfold (cm_text c);
         found = terms \<inter> meaningful_terms cfold (es_excerpt (evidence ! i)) in
       valid_link l \<and> lk_claim_id l = cm_claim_id c \<and> lk_relation l \<in> {Support, Insufficient} \<and>
       (lk_relation l = Support \<longleftrightarrow> terms \<noteq> {} \<and> card terms \<le> 5 * card found))"
proof -
  let ?f = "judge_link cfold model prompt c"
  have "mapM (\<lambda>item. mk_link (?f item)) xs = Inr (map ?f xs)" for xs
    by (induction xs) (simp_all add: mk_link_def judge_link_valid)
  then have j: "judge cfold sha oid budget None token model prompt c evidence = (Inr (map ?f evidence), budget)"
    using assms by (simp add: judge_def raise_if_cancelled_def is_cancelled_def)
  note sup = judge_link_support [of cfold model prompt c]
  have "lk_evidence_id (?f item) = es_evidence_id item \<and> lk_claim_id (?f item) = cm_claim_id c \<and>
      lk_relation (?f item) \<in> {Support, Insufficient}" for item
    by (simp add: judge_link_def Let_def)
  with j sup show ?thesis
    by (intro exI [of _ "map ?f evidence"]) (simp add: Let_def judge_link_valid)
qed

definition demo_claim :: claim where
  "demo_claim = \<lparr>cm_claim_id = ''c'', cm_text = ''the chunks overlap'', cm_claim_type = Fact, cm_entities = [],
     cm_numbers = [], cm_qualifiers = [], cm_report_section = ''findings'', cm_verification_status = Uncertain\<rparr>"

definition demo_evidence :: evidence_span where
  "demo_evidence = \<lparr>es_evidence_id = ''e'', es_source_id = ''s'', es_locator = HtmlLocator ''p'' 0 6,
     es_excerpt = ''chunks'', es_excerpt_hash = ''h'', es_language = ''en'', es_information_need_ids = []\<rparr>"

theorem judge_exact_witness:
  "\<exists>l. judge id id 0 None None new_token ''m'' ''p'' demo_claim [demo_evidence] = (Inr [l], None) \<and>
     valid_link l \<and> lk_evidence_id l = ''e''"
proof -
  have "\<not> is_cancelled new_token" by (simp add: is_cancelled_def new_token_def)
  from judge_exact [OF this, of id id 0 None "''m''" "''p''" demo_claim "[demo_evidence]"] obtain links where
    l: "judge id id 0 None None new_token ''m'' ''p'' demo_claim [demo_evidence] = (Inr links, None)"
    "map lk_evidence_id links = [''e'']" "valid_link (links ! 0)" by (auto simp: demo_evidence_def Let_def)
  from l(2) obtain x where "links = [x]" "lk_evidence_id x = ''e''" by auto
  with l(1,3) show ?thesis by (intro exI [of _ x]) simp
qed

end
