(* ===== verification/Evidence_Features.thy ===== *)
theory Evidence_Features
  imports Evidence_Judge
begin

text \<open>
  The eight features of a piece of evidence (\<^verbatim>\<open>src/src/deepresearch/evidence/features.py\<close>): the
  budgeted judgement of support, the scores, and the calculator that puts them together.  The
  square root (\<open>fsqrt\<close>), the digest, the embedder's vectors, the model's answer and the store of
  evidence are parameters, and so is the text that numbers, dates and times have in a provenance
  string.
\<close>

section \<open>Scores and their constants\<close>

fun source_type_score :: "source_type \<Rightarrow> pyfloat" where
  "source_type_score Paper = fl (9 / 10)"
| "source_type_score OfficialDocumentation = Fin 1"
| "source_type_score Standard = Fin 1"
| "source_type_score PrimaryData = Fin 1"
| "source_type_score FirstPartyStatement = fl (8 / 10)"
| "source_type_score SecondaryAnalysis = fl (6 / 10)"
| "source_type_score News = fl (4 / 10)"
| "source_type_score UnknownSource = Fin 0"

datatype support_level = SupportNone | SupportWeak | SupportModerate | SupportDirect

fun support_level_score :: "support_level \<Rightarrow> pyfloat" where
  "support_level_score SupportNone = Fin 0"
| "support_level_score SupportWeak = fl (1 / 3)"
| "support_level_score SupportModerate = fl (2 / 3)"
| "support_level_score SupportDirect = Fin 1"

fun support_level_upper :: "support_level \<Rightarrow> string" where
  "support_level_upper SupportNone = ''NONE''"
| "support_level_upper SupportWeak = ''WEAK''"
| "support_level_upper SupportModerate = ''MODERATE''"
| "support_level_upper SupportDirect = ''DIRECT''"

definition clip_field :: "string \<Rightarrow> pyfloat \<Rightarrow> exc + pyfloat" where
  "clip_field field v =
     (if isfinite v then Inr (clip01 v) else Inl (ValueError (field @ '' must be finite'')))"

record evidence_features =
  ef_relevance :: pyfloat
  ef_support_strength :: pyfloat
  ef_source_quality :: pyfloat
  ef_coverage_gain :: pyfloat
  ef_independence :: pyfloat
  ef_freshness :: pyfloat
  ef_redundancy :: pyfloat
  ef_risk :: pyfloat

text \<open>\<^verbatim>\<open>fields(self)\<close> and \<^verbatim>\<open>asdict\<close>.\<close>

definition feature_dict :: "evidence_features \<Rightarrow> (string, pyfloat) dict" where
  "feature_dict f =
     [(''relevance'', ef_relevance f), (''support_strength'', ef_support_strength f),
      (''source_quality'', ef_source_quality f), (''coverage_gain'', ef_coverage_gain f),
      (''independence'', ef_independence f), (''freshness'', ef_freshness f),
      (''redundancy'', ef_redundancy f), (''risk'', ef_risk f)]"

definition feature_names :: "string list" where
  "feature_names = [''relevance'', ''support_strength'', ''source_quality'', ''coverage_gain'',
     ''independence'', ''freshness'', ''redundancy'', ''risk'']"

definition check_feature :: "string \<times> pyfloat \<Rightarrow> exc + unit" where
  "check_feature nv =
     rbind (clip_field (fst nv) (snd nv)) (\<lambda>clipped.
     require (clipped = snd nv) (ValueError (fst nv @ '' must be within [0, 1]'')))"

definition mk_features :: "evidence_features \<Rightarrow> exc + evidence_features" where
  "mk_features f = rbind (mapM check_feature (feature_dict f)) (\<lambda>_. Inr f)"

section \<open>Observations\<close>

record quality_observation =
  qo_provenance_completeness :: pyfloat
  qo_directness :: pyfloat
  qo_data_verifiability :: pyfloat
  qo_parse_confidence :: pyfloat
  qo_is_truncated :: bool
  qo_is_snippet_only :: bool
  qo_has_stable_locator :: bool

definition valid_quality :: "quality_observation \<Rightarrow> bool" where
  "valid_quality q \<longleftrightarrow> unit (qo_provenance_completeness q) \<and> unit (qo_directness q) \<and>
     unit (qo_data_verifiability q) \<and> unit (qo_parse_confidence q)"

definition default_quality :: quality_observation where
  "default_quality = \<lparr>qo_provenance_completeness = fl (5 / 10), qo_directness = fl (5 / 10),
     qo_data_verifiability = fl (5 / 10), qo_parse_confidence = fl (5 / 10),
     qo_is_truncated = False, qo_is_snippet_only = False, qo_has_stable_locator = True\<rparr>"

record support_observation =
  so_level :: support_level
  so_judge_model :: string
  so_prompt_version :: string
  so_decision_code :: string

record feature_observation =
  fo_values :: evidence_features
  fo_provenance :: "(string, string) dict"

definition mk_observation :: "feature_observation \<Rightarrow> exc + feature_observation" where
  "mk_observation ob =
     (if set (dkeys (fo_provenance ob)) \<noteq> set feature_names
      then Inl (ValueError ''feature provenance must cover all eight features'')
      else if list_ex (\<lambda>v. v = []) (dvalues (fo_provenance ob))
      then Inl (ValueError ''feature provenance values must be non-empty strings'')
      else Inr ob)"

text \<open>\<^verbatim>\<open>evidence_for_ids\<close> of the materials backed by a store.\<close>

definition evidence_for_ids :: "(string \<Rightarrow> exc + evidence_span) \<Rightarrow> string set \<Rightarrow> exc + evidence_span list" where
  "evidence_for_ids get_evidence ids = mapM get_evidence (sorted_list_of_set ids)"

section \<open>The judgement of support\<close>

definition support_estimate :: resource_estimate where
  "support_estimate = \<lparr>re_search_calls = 0, re_pages = 0, re_tokens = 128, re_wall_seconds = Fin 5,
     re_cost_usd = Some (Fin 0), re_retries = 0\<rparr>"

definition observe_support :: "(string \<Rightarrow> string) \<Rightarrow> nat \<Rightarrow> string \<Rightarrow> string \<Rightarrow> accountant \<Rightarrow> information_need \<Rightarrow>
    evidence_span \<Rightarrow> support_level model_answer \<Rightarrow> (judge_error + support_observation) \<times> accountant" where
  "observe_support sha oid model prompt a need evidence answer =
     (case budgeted_call sha oid a support_estimate
             (''judge:'' @ sha (in_need_id need @ '':'' @ es_evidence_id evidence)) answer of
        (Inl e, a') \<Rightarrow> (Inl e, a')
      | (Inr level, a') \<Rightarrow>
          (Inr \<lparr>so_level = level, so_judge_model = model, so_prompt_version = prompt,
                so_decision_code = ''DIRECTNESS_'' @ support_level_upper level\<rparr>, a'))"

definition support_score :: "support_observation \<Rightarrow> pyfloat" where
  "support_score ob = support_level_score (so_level ob)"

section \<open>The scores of a candidate\<close>

definition source_quality :: "source_document \<Rightarrow> quality_observation \<Rightarrow> exc + pyfloat" where
  "source_quality source q =
     clip_field ''source_quality''
       (fadd (fadd (fadd (fmul (fl (40 / 100)) (source_type_score (sd_source_type source)))
                         (fmul (fl (20 / 100)) (qo_provenance_completeness q)))
                   (fmul (fl (20 / 100)) (qo_directness q)))
             (fmul (fl (20 / 100)) (qo_data_verifiability q)))"

definition coverage_gain :: "sub_question \<Rightarrow> information_need \<Rightarrow> evidence_span \<Rightarrow> pyfloat \<Rightarrow> exc + pyfloat" where
  "coverage_gain q need evidence coverage =
     (if in_need_id need \<notin> set (es_information_need_ids evidence) then Inr (Fin 0)
      else let total = py_fsum (map in_importance (sq_information_needs q)) in
        if fle total (Fin 0) then Inr (Fin 0)
        else rbind (clip_field ''coverage_score'' coverage) (\<lambda>c.
             clip_field ''coverage_gain'' (fdiv (fmul (fsub (Fin 1) c) (in_importance need)) total)))"

text \<open>\<^verbatim>\<open>published_at.date()\<close>, the days since the epoch in the timestamp's own zone.\<close>

definition local_day :: "timestamp \<Rightarrow> int" where
  "local_day t = \<lfloor>(ts_instant t + of_int (case ts_utc_offset t of None \<Rightarrow> 0 | Some z \<Rightarrow> z)) / 86400\<rfloor>"

definition of_bool_float :: "bool \<Rightarrow> pyfloat" where
  "of_bool_float b = (if b then Fin 1 else Fin 0)"

definition freshness_score :: "freshness_requirement option \<Rightarrow> source_document \<Rightarrow> timestamp \<Rightarrow> exc + pyfloat" where
  "freshness_score req source now =
     (case req of
        None \<Rightarrow> Inr (Fin 1)
      | Some r \<Rightarrow>
          (case fr_kind r of
             FreshNone \<Rightarrow> Inr (Fin 1)
           | PublishedAfter \<Rightarrow>
               (case sd_published_at source of
                  None \<Rightarrow> Inr (fl (5 / 10))
                | Some p \<Rightarrow>
                    (case fr_published_after r of
                       None \<Rightarrow> Inl AssertionError
                     | Some day \<Rightarrow> Inr (of_bool_float (day \<le> local_day p))))
           | RetrievedWithinDays \<Rightarrow>
               (case fr_retrieved_within_days r of
                  None \<Rightarrow> Inl AssertionError
                | Some days \<Rightarrow>
                    if (ts_utc_offset now = None) \<noteq> (ts_utc_offset (sd_retrieved_at source) = None)
                    then Inl (TypeError ''cannot subtract offset-naive and offset-aware datetimes'')
                    else Inr (of_bool_float (fle (fdiv (fl (ts_instant now - ts_instant (sd_retrieved_at source))) (Fin 86400))
                                                 (Fin (of_int days)))))))"

definition risk_score :: "quality_observation \<Rightarrow> pyfloat" where
  "risk_score q =
     (if qo_is_snippet_only q \<or> \<not> qo_has_stable_locator q then Fin 1
      else if qo_is_truncated q \<or> flt (qo_parse_confidence q) (fl (80 / 100)) then fl (5 / 10)
      else Fin 0)"

definition independence_score :: "string \<Rightarrow> string set \<Rightarrow> pyfloat" where
  "independence_score family selected = of_bool_float (family \<notin> selected)"

definition norm_of :: "(pyfloat \<Rightarrow> pyfloat) \<Rightarrow> pyfloat list \<Rightarrow> pyfloat" where
  "norm_of fsqrt v = fsqrt (py_fsum (map (\<lambda>x. fmul x x) v))"

definition normalized_cosine_score :: "(pyfloat \<Rightarrow> pyfloat) \<Rightarrow> pyfloat list \<Rightarrow> pyfloat list \<Rightarrow> exc + pyfloat" where
  "normalized_cosine_score fsqrt l r =
     (if length l \<noteq> length r \<or> l = [] then Inl (ValueError ''embedding dimensions must match and be non-empty'')
      else let ln = norm_of fsqrt l; rn = norm_of fsqrt r in
        if \<not> isfinite ln \<or> \<not> isfinite rn then Inl (ValueError ''embedding values must be finite'')
        else if ln = Fin 0 \<or> rn = Fin 0 then Inr (fl (5 / 10))
        else clip_field ''relevance''
          (fdiv (fadd (py_fsum (map (\<lambda>(x, y). fmul (fdiv x ln) (fdiv y rn)) (zip l r))) (Fin 1)) (Fin 2)))"

section \<open>The calculator\<close>

text \<open>The text Python gives to the values formatted into a provenance string.\<close>

record value_texts =
  vt_float :: "pyfloat \<Rightarrow> string"
  vt_int :: "int \<Rightarrow> string"
  vt_date :: "int \<Rightarrow> string"
  vt_time :: "timestamp \<Rightarrow> string"

fun source_type_name :: "source_type \<Rightarrow> string" where
  "source_type_name Paper = ''paper''"
| "source_type_name OfficialDocumentation = ''official_documentation''"
| "source_type_name Standard = ''standard''"
| "source_type_name PrimaryData = ''primary_data''"
| "source_type_name FirstPartyStatement = ''first_party_statement''"
| "source_type_name SecondaryAnalysis = ''secondary_analysis''"
| "source_type_name News = ''news''"
| "source_type_name UnknownSource = ''unknown''"

fun freshness_kind_name :: "freshness_kind \<Rightarrow> string" where
  "freshness_kind_name FreshNone = ''none''"
| "freshness_kind_name PublishedAfter = ''published_after''"
| "freshness_kind_name RetrievedWithinDays = ''retrieved_within_days''"

definition or_none :: "('a \<Rightarrow> string) \<Rightarrow> 'a option \<Rightarrow> string" where
  "or_none f x = (case x of None \<Rightarrow> ''None'' | Some v \<Rightarrow> f v)"

definition bool_text :: "bool \<Rightarrow> string" where
  "bool_text b = (if b then ''True'' else ''False'')"

text \<open>The object with its collaborators: the store behind the materials and the judge's labels.\<close>

record feature_calculator =
  fc_embedding_model_id :: string
  fc_get_evidence :: "string \<Rightarrow> exc + evidence_span"
  fc_get_quality :: "string \<Rightarrow> exc + quality_observation"
  fc_judge_model :: string
  fc_judge_prompt :: string

text \<open>What a ranker hands to the calculator for every candidate.\<close>

record ranking_context =
  rx_subquestion :: sub_question
  rx_need :: information_need
  rx_coverage_score :: pyfloat
  rx_selected_evidence_ids :: "string set"
  rx_selected_family_ids :: "string set"
  rx_context_budget :: int
  rx_evaluation_time :: timestamp

text \<open>What the world answers while one candidate is scored.\<close>

record feature_answers =
  fa_cancelled :: bool
  fa_vectors :: "string list \<Rightarrow> exc + pyfloat list list"
  fa_oid :: nat
  fa_support :: "support_level model_answer"

definition provenance_of :: "value_texts \<Rightarrow> feature_calculator \<Rightarrow> ranking_context \<Rightarrow> pyfloat \<Rightarrow>
    freshness_requirement option \<Rightarrow> evidence_candidate \<Rightarrow> support_observation \<Rightarrow> quality_observation \<Rightarrow>
    (string, string) dict" where
  "provenance_of vt fc rx need_importance req c support q =
     [(''relevance'', ''embedding:'' @ fc_embedding_model_id fc @ '':need_excerpt''),
      (''support_strength'', ''judge:'' @ so_judge_model support @ '':'' @ so_prompt_version support @ '':'' @
         so_decision_code support),
      (''source_quality'', ''source:'' @ source_type_name (sd_source_type (ec_source c)) @ '':parser:'' @
         sd_parser_version (ec_source c)),
      (''coverage_gain'', ''need:'' @ in_need_id (rx_need rx) @ '':importance:'' @ vt_float vt need_importance @
         '':coverage:'' @ vt_float vt (rx_coverage_score rx)),
      (''independence'', ''source_family:'' @ ec_source_family_id c),
      (''freshness'', ''requirement:'' @ (case req of None \<Rightarrow> ''none'' | Some r \<Rightarrow> freshness_kind_name (fr_kind r)) @
         '':published_after:'' @ or_none (vt_date vt) (Option.bind req fr_published_after) @
         '':retrieved_within_days:'' @ or_none (vt_int vt) (Option.bind req fr_retrieved_within_days) @
         '':evaluation_time:'' @ vt_time vt (rx_evaluation_time rx)),
      (''redundancy'', ''embedding:'' @ fc_embedding_model_id fc @ '':max_selected''),
      (''risk'', ''parse_confidence:'' @ vt_float vt (qo_parse_confidence q) @ '':truncated:'' @
         bool_text (qo_is_truncated q) @ '':snippet:'' @ bool_text (qo_is_snippet_only q) @
         '':stable_locator:'' @ bool_text (qo_has_stable_locator q))]"

text \<open>\<^verbatim>\<open>max(..., default=0.0)\<close>\<close>

definition max_default :: "pyfloat list \<Rightarrow> pyfloat" where
  "max_default xs = (case xs of [] \<Rightarrow> Fin 0 | x # ys \<Rightarrow> foldl fmax x ys)"

definition feature_values :: "(pyfloat \<Rightarrow> pyfloat) \<Rightarrow> ranking_context \<Rightarrow> freshness_requirement option \<Rightarrow>
    evidence_candidate \<Rightarrow> pyfloat list list \<Rightarrow> support_observation \<Rightarrow> quality_observation \<Rightarrow>
    exc + evidence_features" where
  "feature_values fsqrt rx req c vectors support q =
     rbind (normalized_cosine_score fsqrt (vectors ! 0) (vectors ! 1)) (\<lambda>relevance.
     rbind (source_quality (ec_source c) q) (\<lambda>quality.
     rbind (coverage_gain (rx_subquestion rx) (rx_need rx) (ec_evidence c) (rx_coverage_score rx)) (\<lambda>gain.
     rbind (freshness_score req (ec_source c) (rx_evaluation_time rx)) (\<lambda>fresh.
     rbind (mapM (normalized_cosine_score fsqrt (vectors ! 1)) (drop 2 vectors)) (\<lambda>similar.
     mk_features
       \<lparr>ef_relevance = relevance, ef_support_strength = support_score support, ef_source_quality = quality,
        ef_coverage_gain = gain,
        ef_independence = independence_score (ec_source_family_id c) (rx_selected_family_ids rx),
        ef_freshness = fresh, ef_redundancy = max_default similar, ef_risk = risk_score q\<rparr>)))))"

text \<open>The checks and the embedding, before the judge is asked.\<close>

definition embed_inputs :: "feature_calculator \<Rightarrow> ranking_context \<Rightarrow> pyfloat \<Rightarrow> pyfloat \<Rightarrow> evidence_candidate \<Rightarrow>
    feature_answers \<Rightarrow> judge_error + pyfloat list list" where
  "embed_inputs fc rx sq_imp need_imp c w =
     (if sq_imp \<noteq> sq_importance (rx_subquestion rx)
      then Inl (CallFailed (ValueError ''subquestion importance mismatch''))
      else if need_imp \<noteq> in_importance (rx_need rx)
      then Inl (CallFailed (ValueError ''information-need importance mismatch''))
      else if rx_context_budget rx \<le> 0 then Inl (CallFailed (ValueError ''context_budget must be positive''))
      else if fa_cancelled w then Inl JudgeCancelled
      else case evidence_for_ids (fc_get_evidence fc) (rx_selected_evidence_ids rx) of
          Inl e \<Rightarrow> Inl (CallFailed e)
        | Inr selected \<Rightarrow>
            (let texts = [in_text (rx_need rx), es_excerpt (ec_evidence c)] @ map es_excerpt selected in
             case fa_vectors w texts of
               Inl e \<Rightarrow> Inl (CallFailed e)
             | Inr vectors \<Rightarrow>
                 if length vectors \<noteq> length texts
                 then Inl (CallFailed (ValueError ''embedder returned an unexpected number of vectors''))
                 else Inr vectors))"

definition compute_features :: "(pyfloat \<Rightarrow> pyfloat) \<Rightarrow> (string \<Rightarrow> string) \<Rightarrow> value_texts \<Rightarrow> feature_calculator \<Rightarrow>
    ranking_context \<Rightarrow> pyfloat \<Rightarrow> pyfloat \<Rightarrow> freshness_requirement option \<Rightarrow> accountant \<Rightarrow> feature_answers \<Rightarrow>
    evidence_candidate \<Rightarrow> (judge_error + feature_observation) \<times> accountant" where
  "compute_features fsqrt sha vt fc rx sq_imp need_imp req a w c =
     (case embed_inputs fc rx sq_imp need_imp c w of
        Inl e \<Rightarrow> (Inl e, a)
      | Inr vectors \<Rightarrow>
          (case observe_support sha (fa_oid w) (fc_judge_model fc) (fc_judge_prompt fc) a (rx_need rx)
                  (ec_evidence c) (fa_support w) of
             (Inl e, a') \<Rightarrow> (Inl e, a')
           | (Inr support, a') \<Rightarrow>
               (case rbind (fc_get_quality fc (es_evidence_id (ec_evidence c))) (\<lambda>q.
                     rbind (feature_values fsqrt rx req c vectors support q) (\<lambda>values.
                     mk_observation \<lparr>fo_values = values,
                       fo_provenance = provenance_of vt fc rx need_imp req c support q\<rparr>)) of
                  Inl e \<Rightarrow> (Inl (CallFailed e), a')
                | Inr ob \<Rightarrow> (Inr ob, a'))))"

section \<open>Every score lies in the unit interval\<close>

named_theorems unit_intros "functions whose results are scores"

lemma fl_ratio_unit [unit_intros]: "0 \<le> r \<Longrightarrow> r \<le> 1 \<Longrightarrow> unit (fl r)"
  using fl_unit [of r] by simp

lemma clip_field_Inr: "clip_field n v = Inr x \<longleftrightarrow> isfinite v \<and> x = clip01 v"
  by (auto simp: clip_field_def)

lemma clip_field_unit [unit_intros]: "clip_field n v = Inr x \<Longrightarrow> unit x"
  by (auto simp: clip_field_Inr clip01_unit)

lemma of_bool_float_unit [unit_intros]: "unit (of_bool_float b)"
  by (simp add: of_bool_float_def)

lemma support_score_unit [unit_intros]: "unit (support_score ob)"
  unfolding support_score_def by (cases "so_level ob") (simp_all add: fl_ratio_unit)

lemma source_quality_unit [unit_intros]: "source_quality s q = Inr x \<Longrightarrow> unit x"
  unfolding source_quality_def by (rule clip_field_unit)

lemma coverage_gain_unit [unit_intros]: "coverage_gain q n e c = Inr x \<Longrightarrow> unit x"
  by (auto simp: coverage_gain_def Let_def res_simps split: if_splits intro: clip_field_unit)

lemma freshness_score_unit [unit_intros]: "freshness_score r s now = Inr x \<Longrightarrow> unit x"
  by (auto simp: freshness_score_def intro: unit_intros split: option.splits freshness_kind.splits if_splits)

lemma risk_score_unit [unit_intros]: "unit (risk_score q)"
  by (simp add: risk_score_def fl_ratio_unit)

lemma independence_score_unit [unit_intros]: "unit (independence_score f s)"
  unfolding independence_score_def by (rule of_bool_float_unit)

lemma normalized_cosine_unit [unit_intros]: "normalized_cosine_score fsqrt l r = Inr x \<Longrightarrow> unit x"
  by (auto simp: normalized_cosine_score_def Let_def fl_ratio_unit intro: clip_field_unit split: if_splits)

lemma fmax_unit: "unit x \<Longrightarrow> unit y \<Longrightarrow> unit (fmax x y)"
  by (simp add: fmax_def)

lemma foldl_fmax_unit: "unit x \<Longrightarrow> list_all unit ys \<Longrightarrow> unit (foldl fmax x ys)"
  by (induction ys arbitrary: x) (simp_all add: fmax_unit)

lemma max_default_unit [unit_intros]: "list_all unit xs \<Longrightarrow> unit (max_default xs)"
  by (cases xs) (simp_all add: max_default_def foldl_fmax_unit)

lemma mapM_unit:
  "mapM f xs = Inr ys \<Longrightarrow> (\<And>x y. f x = Inr y \<Longrightarrow> unit y) \<Longrightarrow> list_all unit ys"
  by (induction xs arbitrary: ys) (auto simp: res_simps)

text \<open>The constructor accepts exactly the features whose values are scores.\<close>

definition valid_features :: "evidence_features \<Rightarrow> bool" where
  "valid_features f \<longleftrightarrow> list_all unit (dvalues (feature_dict f))"

lemma check_feature_Inr: "check_feature nv = Inr u \<longleftrightarrow> unit (snd nv)"
proof -
  have "isfinite v \<and> clip01 v = v \<longleftrightarrow> unit v" for v
    using clip01_unit [of v] clip01_id [of v] by (auto simp: unit_def)
  then show ?thesis by (simp add: check_feature_def res_simps clip_field_Inr)
qed

lemma mk_features_Inr: "mk_features f = Inr g \<longleftrightarrow> g = f \<and> valid_features f"
proof -
  have "(\<exists>us. mapM check_feature nvs = Inr us) \<longleftrightarrow> list_all unit (map snd nvs)" for nvs
    by (induction nvs) (auto simp: res_simps check_feature_Inr)
  then show ?thesis by (auto simp: mk_features_def res_simps valid_features_def)
qed

lemma feature_names_dict: "dkeys (feature_dict f) = feature_names"
  by (simp add: feature_dict_def feature_names_def)

lemma provenance_complete:
  "mk_observation \<lparr>fo_values = v, fo_provenance = provenance_of vt fc rx i req c s q\<rparr> =
   Inr \<lparr>fo_values = v, fo_provenance = provenance_of vt fc rx i req c s q\<rparr>"
  by (simp add: mk_observation_def provenance_of_def feature_names_def)

lemma provenance_names: "dkeys (provenance_of vt fc rx i req c s q) = feature_names"
  by (simp add: provenance_of_def feature_names_def)

text \<open>The values are never rejected: once every part is computed, so are the features.\<close>

lemma feature_values_valid:
  "feature_values fsqrt rx req c vs support q = Inr f \<Longrightarrow> valid_features f"
  by (auto simp: feature_values_def res_simps mk_features_Inr)

lemma feature_values_total:
  assumes "normalized_cosine_score fsqrt (vs ! 0) (vs ! 1) = Inr rel" "source_quality (ec_source c) q = Inr qual"
    "coverage_gain (rx_subquestion rx) (rx_need rx) (ec_evidence c) (rx_coverage_score rx) = Inr gain"
    "freshness_score req (ec_source c) (rx_evaluation_time rx) = Inr fresh"
    "mapM (normalized_cosine_score fsqrt (vs ! 1)) (drop 2 vs) = Inr sims"
  shows "\<exists>f. feature_values fsqrt rx req c vs support q = Inr f \<and> ef_relevance f = rel \<and>
    ef_redundancy f = max_default sims"
proof -
  have "list_all unit sims" using assms(5) by (rule mapM_unit) (rule normalized_cosine_unit)
  with assms show ?thesis
    by (simp add: feature_values_def mk_features_Inr valid_features_def feature_dict_def) (auto intro: unit_intros)
qed

definition valid_observation :: "feature_observation \<Rightarrow> bool" where
  "valid_observation ob \<longleftrightarrow> valid_features (fo_values ob) \<and> set (dkeys (fo_provenance ob)) = set feature_names"

lemma valid_provenance:
  "valid_features v \<Longrightarrow>
     valid_observation \<lparr>fo_values = v, fo_provenance = provenance_of vt fc rx i req c s q\<rparr>"
  unfolding valid_observation_def feature_observation.simps provenance_names by simp

lemma compute_features_valid:
  "compute_features fsqrt sha vt fc rx si ni req a w c = (Inr ob, a') \<Longrightarrow> valid_observation ob"
  by (auto simp: compute_features_def res_simps provenance_complete feature_values_valid valid_provenance
      split: sum.splits prod.splits)

lemma compute_features_ops:
  "\<exists>ops. snd (compute_features fsqrt sha vt fc rx si ni req a w c) = acct_run sha a ops"
proof (cases "embed_inputs fc rx si ni c w")
  case (Inl e)
  then show ?thesis by (intro exI [of _ "[]"]) (simp add: compute_features_def)
next
  case (Inr vs)
  define key where "key = ''judge:'' @ sha (in_need_id (rx_need rx) @ '':'' @ es_evidence_id (ec_evidence c))"
  define ob where "ob = observe_support sha (fa_oid w) (fc_judge_model fc) (fc_judge_prompt fc) a (rx_need rx)
      (ec_evidence c) (fa_support w)"
  have "snd (compute_features fsqrt sha vt fc rx si ni req a w c) = snd ob"
    unfolding compute_features_def Inr sum.case ob_def [symmetric] by (auto split: sum.split prod.split)
  moreover have "snd ob = snd (budgeted_call sha (fa_oid w) a support_estimate key (fa_support w))"
    unfolding ob_def observe_support_def key_def [symmetric] by (auto split: sum.split prod.split)
  ultimately show ?thesis
    using budgeted_call_ops [of sha "fa_oid w" a support_estimate key "fa_support w"] by simp
qed

end
