(* ===== verification/Provider_Errors.thy ===== *)
theory Provider_Errors
  imports Usage
begin

text \<open>
  The error every provider raises (\<^verbatim>\<open>src/src/deepresearch/providers/errors.py\<close>).  The codes are a
  datatype, so the check for an unknown code has no counterpart.
\<close>

datatype provider_code =
    Timeout | RateLimited | InvalidRequest | InvalidResponse | Authentication | NetworkError
  | ReplayMiss | InvalidSnapshot | ParseUnsupported | Upstream5xx

record provider_error =
  pe_code :: provider_code
  pe_provider :: string
  pe_operation :: string
  pe_public_message :: string
  pe_retryable :: bool
  pe_retry_after :: "pyfloat option"
  pe_usage :: "resource_usage option"

definition mk_provider_error :: "provider_error \<Rightarrow> exc + provider_error" where
  "mk_provider_error e =
     (case pe_retry_after e of
        None \<Rightarrow> Inr e
      | Some r \<Rightarrow>
          if flt r (Fin 0) \<or> \<not> isfinite r then Inl (ValueError ''retry_after must be a finite non-negative number'')
          else Inr e)"

end
