(* ===== verification/Evidence_Ranking.thy ===== *)
theory Evidence_Ranking
  imports Evidence_Features Stop_Correct Provider_Errors
begin

text \<open>
  The evidence rankers (\<^verbatim>\<open>src/src/deepresearch/evidence/rankers.py\<close>, \<^verbatim>\<open>similarity.py\<close>): R0 keeps the
  order of the search, R1 ranks by similarity of embeddings, R2 by a weighted sum of eight
  features.  The Euclidean norm of the C library (\<open>fhypot\<close>), the embedder, the clock and the text
  of an integer are parameters; R2 takes any feature calculator, and is proved over the one the
  code uses by default.  \<^verbatim>\<open>math.fsum\<close> is the exact sum rounded once: the quotients it adds are
  bounded by 1 up to rounding, so no partial sum overflows before the result does.
\<close>

section \<open>Rankings\<close>

type_synonym provenance = "(string, (string, string) dict) dict"

record ranking_result =
  er_scores :: "rerank_score list"
  er_provenance :: provenance

text \<open>\<^verbatim>\<open>__post_init__\<close>; a missing entry is a missing key of the first check.\<close>

definition covers_score :: "provenance \<Rightarrow> rerank_score \<Rightarrow> bool" where
  "covers_score prov s \<longleftrightarrow>
     (case dget prov (rk_evidence_id s) of
        None \<Rightarrow> False
      | Some p \<Rightarrow> set (dkeys (rk_feature_scores s)) = set (dkeys p))"

definition mk_ranking :: "ranking_result \<Rightarrow> exc + ranking_result" where
  "mk_ranking r =
     (if set (dkeys (er_provenance r)) \<noteq> set (map rk_evidence_id (er_scores r))
      then Inl (ValueError ''feature provenance must cover every score'')
      else if \<not> list_all (covers_score (er_provenance r)) (er_scores r)
      then Inl (ValueError ''feature scores and provenance keys must match'')
      else Inr r)"

definition mk_rerank :: "rerank_score \<Rightarrow> exc + rerank_score" where
  "mk_rerank s = (if valid_rerank s then Inr s else Inl (ValueError ''invalid score''))"

abbreviation score_key :: "rerank_score \<Rightarrow> rat \<times> string" where
  "score_key s \<equiv> (- fnum (rk_total s), rk_evidence_id s)"

section \<open>R0: the order of the search\<close>

text \<open>\<^verbatim>\<open>1.0 / rank\<close> converts the rank to a float first, which overflows on a huge one.\<close>

definition reciprocal_rank :: "int \<Rightarrow> exc + pyfloat" where
  "reciprocal_rank n =
     (if \<not> isfinite (fl (of_int n)) then Inl OverflowError
      else if n = 0 then Inl ZeroDivisionError
      else clip_field ''search_rank'' (fdiv (Fin 1) (fl (of_int n))))"

definition search_order_score :: "evidence_candidate \<Rightarrow> exc + rerank_score" where
  "search_order_score c =
     rbind (reciprocal_rank (ec_search_rank c)) (\<lambda>relevance.
     mk_rerank \<lparr>rk_evidence_id = candidate_id c, rk_total = relevance,
       rk_feature_scores = [(''search_rank'', relevance)], rk_model_id = Some ''search-order-v1'',
       rk_prompt_version = None\<rparr>)"

definition rank_search_order :: "(int \<Rightarrow> string) \<Rightarrow> bool \<Rightarrow> evidence_candidate list \<Rightarrow>
    (operation_cancelled + exc) + ranking_result" where
  "rank_search_order itext cancelled cs =
     (if cancelled then Inl (Inl OperationCancelled)
      else let ordered = sort_key rank_key cs in
        case rbind (mapM search_order_score ordered) (\<lambda>scores.
               mk_ranking \<lparr>er_scores = scores, er_provenance = foldl (\<lambda>d c.
                 dput (candidate_id c) [(''search_rank'', ''search_rank:'' @ itext (ec_search_rank c))] d) [] ordered\<rparr>) of
          Inl e \<Rightarrow> Inl (Inr e) | Inr r \<Rightarrow> Inr r)"

section \<open>R1: similarity\<close>

datatype similarity_error = SimilarityCancelled | SimilarityError provider_error | SimilarityRaised exc

definition embed_error :: "string \<Rightarrow> provider_code \<Rightarrow> string \<Rightarrow> similarity_error" where
  "embed_error provider code message = SimilarityError
     \<lparr>pe_code = code, pe_provider = provider, pe_operation = ''embed'', pe_public_message = message,
      pe_retryable = False, pe_retry_after = None, pe_usage = None\<rparr>"

text \<open>One look at the token and the clock.\<close>

definition check_boundary :: "string \<Rightarrow> pyfloat \<Rightarrow> bool \<times> pyfloat \<Rightarrow> similarity_error + unit" where
  "check_boundary provider deadline look =
     (if fst look then Inl SimilarityCancelled
      else if \<not> isfinite deadline
      then Inl (embed_error provider InvalidRequest ''deadline must be a finite absolute monotonic deadline'')
      else if fle deadline (snd look) then Inl (embed_error provider Timeout ''embedding deadline expired'')
      else Inr ())"

definition validate_embeddings :: "string list \<Rightarrow> pyfloat list list \<Rightarrow> exc + pyfloat list list" where
  "validate_embeddings texts vs =
     (if texts = [] then Inl (ValueError ''embedding request texts must not be empty'')
      else if length vs \<noteq> length texts then Inl (ValueError ''embedding result count must match input text count'')
      else if vs ! 0 = [] then Inl (ValueError ''embedding dimension must be greater than zero'')
      else if list_ex (\<lambda>v. length v \<noteq> length (vs ! 0)) vs
      then Inl (ValueError ''embedding dimension must be consistent'')
      else if list_ex (list_ex (\<lambda>x. \<not> isfinite x)) vs then Inl (ValueError ''embedding values must be finite'')
      else Inr vs)"

definition math_fsum :: "pyfloat list \<Rightarrow> exc + pyfloat" where
  "math_fsum xs =
     (if list_all isfinite xs
      then let s = fl (sum_list (map fnum xs)) in if isfinite s then Inr s else Inl OverflowError
      else if PInf \<in> set xs \<and> NInf \<in> set xs then Inl (ValueError ''-inf + inf in fsum'')
      else Inr (foldl fadd (Fin 0) (filter (\<lambda>x. \<not> isfinite x) xs)))"

definition hypot_cosine :: "(pyfloat list \<Rightarrow> pyfloat) \<Rightarrow> pyfloat list \<Rightarrow> pyfloat list \<Rightarrow> exc + pyfloat" where
  "hypot_cosine fhypot l r =
     (let ln = fhypot l; rn = fhypot r in
      if ln = Fin 0 \<or> rn = Fin 0 then Inl ArithmeticError
      else math_fsum (map (\<lambda>(x, y). fmul (fdiv x ln) (fdiv y rn)) (zip l r)))"

definition similarity_entry :: "(pyfloat list \<Rightarrow> pyfloat) \<Rightarrow> string \<Rightarrow> pyfloat list \<Rightarrow>
    evidence_span \<times> pyfloat list \<Rightarrow> exc + rerank_score" where
  "similarity_entry fhypot model query sv =
     rbind (hypot_cosine fhypot query (snd sv)) (\<lambda>cosine.
     let relevance = clip01 (fdiv (fadd cosine (Fin 1)) (Fin 2)) in
     mk_rerank \<lparr>rk_evidence_id = es_evidence_id (fst sv), rk_total = relevance,
       rk_feature_scores = [(''relevance'', relevance)], rk_model_id = Some model, rk_prompt_version = None\<rparr>)"

text \<open>The exceptions the handler around the scores turns into an invalid response.\<close>

fun scoring_exc :: "exc \<Rightarrow> bool" where
  "scoring_exc (ValueError _) = True"
| "scoring_exc (TypeError _) = True"
| "scoring_exc ZeroDivisionError = True"
| "scoring_exc OverflowError = True"
| "scoring_exc ArithmeticError = True"
| "scoring_exc _ = False"

definition similarity_scores :: "(pyfloat list \<Rightarrow> pyfloat) \<Rightarrow> string \<Rightarrow> string \<Rightarrow> string list \<Rightarrow> evidence_span list \<Rightarrow>
    pyfloat list list \<Rightarrow> similarity_error + rerank_score list" where
  "similarity_scores fhypot provider model texts spans vectors =
     (case rbind (validate_embeddings texts vectors) (\<lambda>vs.
            mapM (similarity_entry fhypot model (hd vs)) (zip spans (tl vs))) of
        Inl e \<Rightarrow> Inl (if scoring_exc e then embed_error provider InvalidResponse ''embedding response is invalid''
                      else SimilarityRaised e)
      | Inr scores \<Rightarrow> Inr scores)"

text \<open>\<^verbatim>\<open>SimilarityRanker.score\<close>; \<open>look k\<close> is what its k-th look at token and clock sees.\<close>

definition similarity_ranker :: "(pyfloat list \<Rightarrow> pyfloat) \<Rightarrow> string \<Rightarrow> string \<Rightarrow> pyfloat \<Rightarrow> (nat \<Rightarrow> bool \<times> pyfloat) \<Rightarrow>
    (string list \<Rightarrow> exc + pyfloat list list) \<Rightarrow> string \<Rightarrow> evidence_span list \<Rightarrow>
    similarity_error + rerank_score list" where
  "similarity_ranker fhypot provider model deadline look embedder need spans =
     rbind (check_boundary provider deadline (look 0)) (\<lambda>_.
     if spans = [] then rbind (check_boundary provider deadline (look 1)) (\<lambda>_. Inr [])
     else if blank need then Inl (embed_error provider InvalidRequest ''information need must not be empty'')
     else let texts = need # map es_excerpt spans in
       rbind (check_boundary provider deadline (look 1)) (\<lambda>_.
       rbind (case embedder texts of Inl e \<Rightarrow> Inl (SimilarityRaised e) | Inr vs \<Rightarrow> Inr vs) (\<lambda>vectors.
       rbind (check_boundary provider deadline (look 2)) (\<lambda>_.
       rbind (similarity_scores fhypot provider model texts spans vectors) (\<lambda>scores.
       rbind (check_boundary provider deadline (look 3)) (\<lambda>_.
       Inr (sort_key score_key scores)))))))"

definition rank_similarity :: "string \<Rightarrow> bool \<Rightarrow> similarity_error + rerank_score list \<Rightarrow>
    similarity_error + ranking_result" where
  "rank_similarity delegate_id cancelled delegate =
     (if cancelled then Inl SimilarityCancelled
      else rbind delegate (\<lambda>scores.
        let ordered = sort_key score_key scores in
        case mk_ranking \<lparr>er_scores = ordered, er_provenance = foldl (\<lambda>d s.
               dput (rk_evidence_id s) [(''relevance'', ''SimilarityRanker:'' @ delegate_id)] d) [] ordered\<rparr> of
          Inl e \<Rightarrow> Inl (SimilarityRaised e) | Inr r \<Rightarrow> Inr r))"

section \<open>R2: utility\<close>

definition utility_raw :: "evidence_features \<Rightarrow> pyfloat" where
  "utility_raw f =
     fsub (fsub (fadd (fadd (fadd (fadd (fadd
       (fmul (fl (25 / 100)) (ef_relevance f))
       (fmul (fl (20 / 100)) (ef_support_strength f)))
       (fmul (fl (15 / 100)) (ef_source_quality f)))
       (fmul (fl (20 / 100)) (ef_coverage_gain f)))
       (fmul (fl (10 / 100)) (ef_independence f)))
       (fmul (fl (5 / 100)) (ef_freshness f)))
       (fmul (fl (15 / 100)) (ef_redundancy f)))
       (fmul (fl (5 / 100)) (ef_risk f))"

definition utility_total :: "evidence_features \<Rightarrow> exc + pyfloat" where
  "utility_total f = clip_field ''total'' (utility_raw f)"

definition utility_score :: "string \<Rightarrow> string \<Rightarrow> evidence_candidate \<Rightarrow> feature_observation \<Rightarrow> exc + rerank_score" where
  "utility_score model prompt c ob =
     rbind (utility_total (fo_values ob)) (\<lambda>total.
     mk_rerank \<lparr>rk_evidence_id = candidate_id c, rk_total = total,
       rk_feature_scores = feature_dict (fo_values ob), rk_model_id = Some model, rk_prompt_version = Some prompt\<rparr>)"

fun utility_loop :: "('s \<Rightarrow> 'w \<Rightarrow> evidence_candidate \<Rightarrow> (judge_error + feature_observation) \<times> 's) \<Rightarrow>
    string \<Rightarrow> string \<Rightarrow> 's \<Rightarrow> rerank_score list \<Rightarrow> provenance \<Rightarrow> ('w \<times> evidence_candidate) list \<Rightarrow>
    (judge_error + rerank_score list \<times> provenance) \<times> 's" where
  "utility_loop compute model prompt s scores prov [] = (Inr (scores, prov), s)"
| "utility_loop compute model prompt s scores prov ((w, c) # cs) =
     (case compute s w c of
        (Inl e, s') \<Rightarrow> (Inl e, s')
      | (Inr ob, s') \<Rightarrow>
          (case utility_score model prompt c ob of
             Inl e \<Rightarrow> (Inl (CallFailed e), s')
           | Inr score \<Rightarrow> utility_loop compute model prompt s' (scores @ [score])
               (dput (rk_evidence_id score) (fo_provenance ob) prov) cs))"

definition rank_utility :: "('s \<Rightarrow> 'w \<Rightarrow> evidence_candidate \<Rightarrow> (judge_error + feature_observation) \<times> 's) \<Rightarrow>
    string \<Rightarrow> string \<Rightarrow> 's \<Rightarrow> ('w \<times> evidence_candidate) list \<Rightarrow> (judge_error + ranking_result) \<times> 's" where
  "rank_utility compute model prompt s cs =
     (case utility_loop compute model prompt s [] [] cs of
        (Inl e, s') \<Rightarrow> (Inl e, s')
      | (Inr (scores, prov), s') \<Rightarrow>
          (case mk_ranking \<lparr>er_scores = sort_key score_key scores, er_provenance = prov\<rparr> of
             Inl e \<Rightarrow> (Inl (CallFailed e), s')
           | Inr r \<Rightarrow> (Inr r, s')))"

text \<open>R2 with the calculator the code builds by default.\<close>

definition rank_evidence :: "(pyfloat \<Rightarrow> pyfloat) \<Rightarrow> (string \<Rightarrow> string) \<Rightarrow> value_texts \<Rightarrow> feature_calculator \<Rightarrow>
    ranking_context \<Rightarrow> string \<Rightarrow> string \<Rightarrow> accountant \<Rightarrow> (feature_answers \<times> evidence_candidate) list \<Rightarrow>
    (judge_error + ranking_result) \<times> accountant" where
  "rank_evidence fsqrt sha vt fc rx =
     rank_utility (compute_features fsqrt sha vt fc rx (sq_importance (rx_subquestion rx))
       (in_importance (rx_need rx)) (er_freshness (sq_evidence_requirements (rx_subquestion rx))))"

section \<open>The utility is monotone\<close>

lemma fl_step:
  assumes "\<bar>r\<bar> \<le> of_nat m" "m < 1000"
  shows "fl r = Fin (rnd r)" "\<bar>rnd r\<bar> \<le> of_nat m"
proof -
  have m: "rnd (of_int (int m)) = of_int (int m)" "rnd (of_int (- int m)) = of_int (- int m)"
    using assms(2) by (intro rnd_of_int; simp)+
  have "rnd r \<le> rnd (of_int (int m))" "rnd (of_int (- int m)) \<le> rnd r"
    using assms(1) by (intro rnd_mono; simp)+
  with m show "\<bar>rnd r\<bar> \<le> of_nat m" by simp
  have "(of_nat m :: rat) \<le> of_nat 1000" using assms(2) by (simp only: of_nat_le_iff)
  also have "(of_nat 1000 :: rat) \<le> 2 ^ 53 - 1" by simp
  finally have "\<bar>r\<bar> \<le> 2 ^ 53 - 1" by (rule order_trans [OF assms(1)])
  then show "fl r = Fin (rnd r)" by (rule fl_small)
qed

lemma fadd_step:
  assumes "\<bar>a\<bar> \<le> of_nat m" "\<bar>b\<bar> \<le> 1" "Suc m < 1000"
  shows "fadd (Fin a) (Fin b) = Fin (rnd (a + b))" "\<bar>rnd (a + b)\<bar> \<le> of_nat (Suc m)"
  using fl_step [of "a + b" "Suc m"] assms by auto

lemma weighted:
  assumes "0 \<le> w" "w \<le> 1" "0 \<le> x" "x \<le> 1"
  shows "fmul (fl w) (Fin x) = Fin (rnd (rnd w * x))" "\<bar>rnd (rnd w * x)\<bar> \<le> 1"
  using fmul_weight [OF assms] rnd_le_1 [OF assms(2)] by auto

definition gain_side :: "rat \<Rightarrow> rat \<Rightarrow> rat \<Rightarrow> rat \<Rightarrow> rat \<Rightarrow> rat \<Rightarrow> rat" where
  "gain_side r s q g i f =
     rnd (rnd (rnd (rnd (rnd (rnd (rnd (25 / 100) * r) + rnd (rnd (20 / 100) * s)) + rnd (rnd (15 / 100) * q)) +
       rnd (rnd (20 / 100) * g)) + rnd (rnd (10 / 100) * i)) + rnd (rnd (5 / 100) * f))"

definition utility_rat :: "rat \<Rightarrow> rat \<Rightarrow> rat \<Rightarrow> rat \<Rightarrow> rat \<Rightarrow> rat \<Rightarrow> rat \<Rightarrow> rat \<Rightarrow> rat" where
  "utility_rat r s q g i f d k =
     rnd (rnd (gain_side r s q g i f - rnd (rnd (15 / 100) * d)) - rnd (rnd (5 / 100) * k))"

lemma utility_Fin:
  assumes "ef_relevance e = Fin r" "ef_support_strength e = Fin s" "ef_source_quality e = Fin q"
    "ef_coverage_gain e = Fin g" "ef_independence e = Fin i" "ef_freshness e = Fin f"
    "ef_redundancy e = Fin d" "ef_risk e = Fin k"
    and "valid_features e"
  shows "utility_raw e = Fin (utility_rat r s q g i f d k)"
proof -
  have u: "0 \<le> r" "r \<le> 1" "0 \<le> s" "s \<le> 1" "0 \<le> q" "q \<le> 1" "0 \<le> g" "g \<le> 1" "0 \<le> i" "i \<le> 1"
    "0 \<le> f" "f \<le> 1" "0 \<le> d" "d \<le> 1" "0 \<le> k" "k \<le> 1"
    using assms by (simp_all add: valid_features_def feature_dict_def)
  define a1 where "a1 = rnd (rnd (25 / 100) * r)"
  define b2 where "b2 = rnd (rnd (20 / 100) * s)"
  define b3 where "b3 = rnd (rnd (15 / 100) * q)"
  define b4 where "b4 = rnd (rnd (20 / 100) * g)"
  define b5 where "b5 = rnd (rnd (10 / 100) * i)"
  define b6 where "b6 = rnd (rnd (5 / 100) * f)"
  define b7 where "b7 = rnd (rnd (15 / 100) * d)"
  define b8 where "b8 = rnd (rnd (5 / 100) * k)"
  have w: "fmul (fl (25 / 100)) (Fin r) = Fin a1" "\<bar>a1\<bar> \<le> of_nat 1"
    "fmul (fl (20 / 100)) (Fin s) = Fin b2" "\<bar>b2\<bar> \<le> 1"
    "fmul (fl (15 / 100)) (Fin q) = Fin b3" "\<bar>b3\<bar> \<le> 1"
    "fmul (fl (20 / 100)) (Fin g) = Fin b4" "\<bar>b4\<bar> \<le> 1"
    "fmul (fl (10 / 100)) (Fin i) = Fin b5" "\<bar>b5\<bar> \<le> 1"
    "fmul (fl (5 / 100)) (Fin f) = Fin b6" "\<bar>b6\<bar> \<le> 1"
    "fmul (fl (15 / 100)) (Fin d) = Fin b7" "\<bar>- b7\<bar> \<le> 1"
    "fmul (fl (5 / 100)) (Fin k) = Fin b8" "\<bar>- b8\<bar> \<le> 1"
    using weighted u unfolding a1_def b2_def b3_def b4_def b5_def b6_def b7_def b8_def by simp_all
  have small: "Suc 1 < 1000" "Suc (Suc 1) < 1000" "Suc (Suc (Suc 1)) < 1000" "Suc (Suc (Suc (Suc 1))) < 1000"
    "Suc (Suc (Suc (Suc (Suc 1)))) < 1000" "Suc (Suc (Suc (Suc (Suc (Suc 1))))) < 1000"
    "Suc (Suc (Suc (Suc (Suc (Suc (Suc 1)))))) < 1000" by simp_all
  note s2 = fadd_step [OF w(2,4) small(1)]
  note s3 = fadd_step [OF s2(2) w(6) small(2)]
  note s4 = fadd_step [OF s3(2) w(8) small(3)]
  note s5 = fadd_step [OF s4(2) w(10) small(4)]
  note s6 = fadd_step [OF s5(2) w(12) small(5)]
  note s7 = fadd_step [OF s6(2) w(14) small(6)]
  note s8 = fadd_step [OF s7(2) w(16) small(7)]
  have "utility_rat r s q g i f d k = rnd (rnd (rnd (rnd (rnd (rnd (rnd (a1 + b2) + b3) + b4) + b5) + b6) + - b7) + - b8)"
    unfolding utility_rat_def gain_side_def a1_def b2_def b3_def b4_def b5_def b6_def b7_def b8_def diff_conv_add_uminus ..
  then show ?thesis
    unfolding utility_raw_def assms(1-8) w fsub_def fneg.simps s2(1) s3(1) s4(1) s5(1) s6(1) s7(1) s8(1) by simp
qed

lemma gain_side_mono:
  "r \<le> r' \<Longrightarrow> s \<le> s' \<Longrightarrow> q \<le> q' \<Longrightarrow> g \<le> g' \<Longrightarrow> i \<le> i' \<Longrightarrow> f \<le> f' \<Longrightarrow>
     gain_side r s q g i f \<le> gain_side r' s' q' g' i' f'"
  unfolding gain_side_def by (intro rnd_mono add_mono weight_mono) auto

lemma utility_rat_mono:
  "r \<le> r' \<Longrightarrow> s \<le> s' \<Longrightarrow> q \<le> q' \<Longrightarrow> g \<le> g' \<Longrightarrow> i \<le> i' \<Longrightarrow> f \<le> f' \<Longrightarrow> d' \<le> d \<Longrightarrow> k' \<le> k \<Longrightarrow>
     utility_rat r s q g i f d k \<le> utility_rat r' s' q' g' i' f' d' k'"
  unfolding utility_rat_def by (intro rnd_mono diff_mono gain_side_mono weight_mono) auto

definition utility_of :: "evidence_features \<Rightarrow> rat" where
  "utility_of e = utility_rat (fnum (ef_relevance e)) (fnum (ef_support_strength e)) (fnum (ef_source_quality e))
     (fnum (ef_coverage_gain e)) (fnum (ef_independence e)) (fnum (ef_freshness e)) (fnum (ef_redundancy e))
     (fnum (ef_risk e))"

lemma unit_fnum: "unit v \<Longrightarrow> v = Fin (fnum v)"
  by (cases v) (simp_all add: unit_def)

lemma utility_total_Fin:
  assumes "valid_features e"
  shows "utility_total e = Inr (Fin (cl01 (utility_of e)))"
proof -
  have "unit (ef_relevance e)" "unit (ef_support_strength e)" "unit (ef_source_quality e)" "unit (ef_coverage_gain e)"
    "unit (ef_independence e)" "unit (ef_freshness e)" "unit (ef_redundancy e)" "unit (ef_risk e)"
    using assms by (simp_all add: valid_features_def feature_dict_def)
  note e = this [THEN unit_fnum]
  have "utility_raw e = Fin (utility_of e)"
    unfolding utility_of_def by (rule utility_Fin [OF e assms])
  then show ?thesis by (simp add: utility_total_def clip_field_def clip01_Fin cl01_def)
qed

text \<open>Better evidence: no weaker in what counts for it, no stronger in what counts against it.\<close>

definition no_worse :: "evidence_features \<Rightarrow> evidence_features \<Rightarrow> bool" where
  "no_worse e e' \<longleftrightarrow>
     fle (ef_relevance e) (ef_relevance e') \<and> fle (ef_support_strength e) (ef_support_strength e') \<and>
     fle (ef_source_quality e) (ef_source_quality e') \<and> fle (ef_coverage_gain e) (ef_coverage_gain e') \<and>
     fle (ef_independence e) (ef_independence e') \<and> fle (ef_freshness e) (ef_freshness e') \<and>
     fle (ef_redundancy e') (ef_redundancy e) \<and> fle (ef_risk e') (ef_risk e)"

text \<open>
  The score of R2 is monotone.  For features within their ranges it is always computed and lies
  between 0 and 1, and evidence that is no weaker in relevance, support, quality, coverage,
  independence and freshness and no stronger in redundancy and risk never scores less, the
  rounding of each of the fifteen float operations included.
\<close>

theorem utility_monotone:
  assumes "valid_features e" "valid_features e'" "no_worse e e'"
  shows "\<exists>x y. utility_total e = Inr x \<and> utility_total e' = Inr y \<and> unit x \<and> unit y \<and> fle x y"
proof -
  have le: "fnum x \<le> fnum y" if "fle x y" "unit x" "unit y" for x y
    using that by (cases x; cases y) (simp_all add: unit_def)
  have "utility_of e \<le> utility_of e'"
    using assms unfolding utility_of_def
    by (intro utility_rat_mono le) (simp_all add: no_worse_def valid_features_def feature_dict_def)
  from cl01_mono [OF this] show ?thesis
    using utility_total_Fin [OF assms(1)] utility_total_Fin [OF assms(2)] by simp
qed

definition demo_features :: evidence_features where
  "demo_features = \<lparr>ef_relevance = Fin (1 / 2), ef_support_strength = Fin 1, ef_source_quality = Fin (1 / 2),
     ef_coverage_gain = Fin (1 / 4), ef_independence = Fin 1, ef_freshness = Fin 1, ef_redundancy = Fin (1 / 2),
     ef_risk = Fin 1\<rparr>"

theorem utility_monotone_witness:
  "\<exists>x y. utility_total demo_features = Inr x \<and>
     utility_total (demo_features\<lparr>ef_risk := Fin 0, ef_coverage_gain := Fin 1\<rparr>) = Inr y \<and> fle x y"
  using utility_monotone [of demo_features "demo_features\<lparr>ef_risk := Fin 0, ef_coverage_gain := Fin 1\<rparr>"]
  by (auto simp: valid_features_def feature_dict_def no_worse_def demo_features_def)

section \<open>What a ranking returns\<close>

text \<open>
  The contract of a feature calculator: what it returns is valid, and it moves its state only in
  ways the caller allows.
\<close>

definition scored :: "rerank_score \<Rightarrow> bool" where
  "scored s \<longleftrightarrow> valid_rerank s \<and> dkeys (rk_feature_scores s) = feature_names \<and>
     list_all unit (dvalues (rk_feature_scores s))"

definition records :: "rerank_score list \<Rightarrow> provenance \<Rightarrow> bool" where
  "records scores prov \<longleftrightarrow> (\<forall>s\<in>set scores. scored s) \<and>
     dom (dget prov) = set (map rk_evidence_id scores) \<and>
     (\<forall>i p. dget prov i = Some p \<longrightarrow> set (dkeys p) = set feature_names)"

lemma mk_rerank_Inr: "mk_rerank s = Inr t \<longleftrightarrow> t = s \<and> valid_rerank s"
  by (auto simp: mk_rerank_def)

lemma utility_score_valid:
  assumes "valid_observation ob"
  shows "\<exists>s. utility_score model prompt c ob = Inr s \<and> rk_evidence_id s = candidate_id c \<and> scored s"
proof -
  have f: "valid_features (fo_values ob)" using assms by (simp add: valid_observation_def)
  then have u: "list_all unit (dvalues (feature_dict (fo_values ob)))" by (simp add: valid_features_def)
  then have "list_all isfinite (dvalues (feature_dict (fo_values ob)))"
    by (rule list.pred_mono_strong) (simp add: unit_def)
  with u show ?thesis
    by (simp add: utility_score_def utility_total_Fin [OF f] mk_rerank_def valid_rerank_def scored_def
        feature_names_dict)
qed

lemma mk_ranking_named:
  assumes "\<forall>s\<in>set scores. dkeys (rk_feature_scores s) = names"
    and "dom (dget prov) = set (map rk_evidence_id scores)"
    and "\<forall>i p. dget prov i = Some p \<longrightarrow> set (dkeys p) = set names"
  shows "mk_ranking \<lparr>er_scores = scores, er_provenance = prov\<rparr> =
    Inr \<lparr>er_scores = scores, er_provenance = prov\<rparr>"
proof -
  have "covers_score prov s" if "s \<in> set scores" for s
  proof -
    have "rk_evidence_id s \<in> dom (dget prov)" using assms(2) that by simp
    then obtain p where "dget prov (rk_evidence_id s) = Some p" by blast
    then show ?thesis using assms(1,3) that by (simp add: covers_score_def flip: set_map)
  qed
  moreover have "set (dkeys prov) = set (map rk_evidence_id scores)"
    using assms(2) by (simp add: dom_map_of_conv_image_fst)
  ultimately show ?thesis by (simp add: mk_ranking_def list_all_iff)
qed

lemma records_mk_ranking:
  "records scores prov \<Longrightarrow> mk_ranking \<lparr>er_scores = sort_key score_key scores, er_provenance = prov\<rparr> =
    Inr \<lparr>er_scores = sort_key score_key scores, er_provenance = prov\<rparr>"
  by (rule mk_ranking_named [of _ feature_names]) (simp_all add: records_def scored_def)

lemma mapM_map: "(\<And>x. x \<in> set xs \<Longrightarrow> f x = Inr (g x)) \<Longrightarrow> mapM f xs = Inr (map g xs)"
  by (induction xs) simp_all

text \<open>A provenance filled in one pass.\<close>

lemma fill_dom: "dom (dget (foldl (\<lambda>d x. dput (k x) (v x) d) d0 xs)) = dom (dget d0) \<union> k ` set xs"
  by (induction xs arbitrary: d0) auto

lemma fill_value:
  "dget (foldl (\<lambda>d x. dput (k x) (v x) d) d0 xs) i = Some p \<Longrightarrow> dget d0 i = Some p \<or> p \<in> v ` set xs"
  by (induction xs arbitrary: d0) (force split: if_splits)+

lemma filled_ranking:
  assumes "\<forall>s\<in>set scores. dkeys (rk_feature_scores s) = [n]" "map rk_evidence_id scores = map k xs"
  shows "mk_ranking \<lparr>er_scores = scores, er_provenance = foldl (\<lambda>d x. dput (k x) [(n, v x)] d) [] xs\<rparr> =
    Inr \<lparr>er_scores = scores, er_provenance = foldl (\<lambda>d x. dput (k x) [(n, v x)] d) [] xs\<rparr>"
proof (rule mk_ranking_named [of _ "[n]"])
  show "dom (dget (foldl (\<lambda>d x. dput (k x) [(n, v x)] d) [] xs)) = set (map rk_evidence_id scores)"
    unfolding fill_dom assms(2) by simp
  show "\<forall>i p. dget (foldl (\<lambda>d x. dput (k x) [(n, v x)] d) [] xs) i = Some p \<longrightarrow> set (dkeys p) = set [n]"
    using fill_value [of k "\<lambda>x. [(n, v x)]" "[]" xs] by fastforce
qed (rule assms(1))

locale feature_source =
  fixes compute :: "'s \<Rightarrow> 'w \<Rightarrow> evidence_candidate \<Rightarrow> (judge_error + feature_observation) \<times> 's"
    and allowed :: "'s \<Rightarrow> 's \<Rightarrow> bool"
  assumes observed_valid: "compute s w c = (Inr ob, s') \<Longrightarrow> valid_observation ob"
    and allowed_refl: "allowed s s"
    and allowed_step: "allowed s t \<Longrightarrow> allowed s (snd (compute t w c))"
begin

lemma loop_sound:
  assumes "utility_loop compute model prompt s scores prov cs = (res, s')" "records scores prov" "allowed s0 s"
  shows "allowed s0 s' \<and>
    (\<forall>e. res = Inl e \<longrightarrow> (\<exists>(w, c)\<in>set cs. \<exists>t t'. compute t w c = (Inl e, t'))) \<and>
    (\<forall>out pr. res = Inr (out, pr) \<longrightarrow> records out pr \<and>
       map rk_evidence_id out = map rk_evidence_id scores @ map (\<lambda>wc. candidate_id (snd wc)) cs)"
  using assms
proof (induction cs arbitrary: s scores prov)
  case (Cons wc cs)
  obtain w c where wc: "wc = (w, c)" by (cases wc)
  obtain r t where r: "compute s w c = (r, t)" by (cases "compute s w c")
  have t: "allowed s0 t" using allowed_step [OF Cons.prems(3), of w c] r by simp
  show ?case
  proof (cases r)
    case (Inl e)
    with Cons.prems(1) r t show ?thesis by (auto simp: wc)
  next
    case (Inr ob)
    have ob: "valid_observation ob" using r Inr by (intro observed_valid) simp
    from utility_score_valid [OF this] obtain sc where sc: "utility_score model prompt c ob = Inr sc"
      "rk_evidence_id sc = candidate_id c" "scored sc" by blast
    have "records (scores @ [sc]) (dput (rk_evidence_id sc) (fo_provenance ob) prov)"
      using Cons.prems(2) sc(3) ob by (auto simp: records_def valid_observation_def)
    moreover have "utility_loop compute model prompt t (scores @ [sc])
        (dput (rk_evidence_id sc) (fo_provenance ob) prov) cs = (res, s')"
      using Cons.prems(1) r Inr sc(1) by (simp add: wc)
    ultimately show ?thesis using Cons.IH t sc(2) by (fastforce simp: wc)
  qed
qed auto

lemma ranking_sound:
  assumes "rank_utility compute model prompt s cs = (res, s')"
  shows "allowed s s' \<and>
    (\<forall>e. res = Inl e \<longrightarrow> (\<exists>(w, c)\<in>set cs. \<exists>t t'. compute t w c = (Inl e, t'))) \<and>
    (\<forall>r. res = Inr r \<longrightarrow>
       mset (map rk_evidence_id (er_scores r)) = mset (map (\<lambda>wc. candidate_id (snd wc)) cs) \<and>
       sorted (map score_key (er_scores r)) \<and> records (er_scores r) (er_provenance r))"
proof -
  obtain q t where q: "utility_loop compute model prompt s [] [] cs = (q, t)" by fastforce
  have "records [] []" by (simp add: records_def)
  note sound = loop_sound [OF q this allowed_refl]
  show ?thesis
  proof (cases q)
    case (Inl e)
    with q assms have "res = Inl e" "s' = t" by (simp_all add: rank_utility_def)
    with sound Inl show ?thesis by simp
  next
    case (Inr p)
    obtain out pr where p: "p = (out, pr)" by (cases p)
    with sound Inr have rec: "records out pr" and
      ids: "map rk_evidence_id out = map (\<lambda>wc. candidate_id (snd wc)) cs" by auto
    have "res = Inr \<lparr>er_scores = sort_key score_key out, er_provenance = pr\<rparr>" "s' = t"
      using assms q Inr p records_mk_ranking [OF rec] by (simp_all add: rank_utility_def)
    moreover have "mset (map rk_evidence_id (sort_key score_key out)) = mset (map (\<lambda>wc. candidate_id (snd wc)) cs)"
      by (simp flip: ids)
    moreover have "records (sort_key score_key out) pr" using rec by (simp add: records_def)
    ultimately show ?thesis using sound by simp
  qed
qed

end

interpretation default_features: feature_source "compute_features fsqrt sha vt fc rx si ni req"
    "\<lambda>a b. \<exists>ops. b = acct_run sha a ops" for fsqrt sha vt fc rx si ni req
proof
  show "\<exists>ops. snd (compute_features fsqrt sha vt fc rx si ni req t w c) = acct_run sha s ops"
    if "\<exists>ops. t = acct_run sha s ops" for s t w c
  proof -
    from that obtain xs where "t = acct_run sha s xs" by blast
    moreover obtain ys where "snd (compute_features fsqrt sha vt fc rx si ni req t w c) = acct_run sha t ys"
      using compute_features_ops by blast
    ultimately have "snd (compute_features fsqrt sha vt fc rx si ni req t w c) = acct_run sha s (xs @ ys)" by simp
    then show ?thesis by blast
  qed
  show "\<exists>ops. s = acct_run sha s ops" for s by (rule exI [of _ "[]"]) simp
qed (rule compute_features_valid)

text \<open>
  C17. The utility ranking, with the calculator the code uses, on any accountant and whatever the
  embedder, the model and the store answer.  It only reserves, settles and releases on the
  accountant; it fails only with an error of the calculation of a candidate, never by a check of
  its own; and what it returns scores every candidate once, best first and by id among equals,
  each score and each of the eight features within its range and with a recorded origin.
\<close>

theorem utility_ranking_sound:
  assumes "rank_evidence fsqrt sha vt fc rx model prompt a cs = (res, a')"
  shows "(\<exists>ops. a' = acct_run sha a ops) \<and>
    (\<forall>e. res = Inl e \<longrightarrow> (\<exists>(w, c)\<in>set cs. \<exists>b b'. compute_features fsqrt sha vt fc rx
       (sq_importance (rx_subquestion rx)) (in_importance (rx_need rx))
       (er_freshness (sq_evidence_requirements (rx_subquestion rx))) b w c = (Inl e, b'))) \<and>
    (\<forall>r. res = Inr r \<longrightarrow>
       mset (map rk_evidence_id (er_scores r)) = mset (map (\<lambda>wc. candidate_id (snd wc)) cs) \<and>
       sorted (map score_key (er_scores r)) \<and> records (er_scores r) (er_provenance r))"
  using default_features.ranking_sound [OF assms [unfolded rank_evidence_def]] .

text \<open>R0 on candidates of positive rank below \<open>2^53\<close>: their order, and the reciprocals of their ranks.\<close>

lemma reciprocal_rank_small:
  assumes "1 \<le> n" "n < 2 ^ 53"
  shows "reciprocal_rank n = Inr (Fin (rnd (1 / of_int n)))" "unit (Fin (rnd (1 / of_int n)))"
proof -
  have "fl (of_int n) = Fin (of_int n)" using assms by (intro fl_int) simp
  moreover have "(0::rat) \<le> 1 / of_int n" "(1::rat) / of_int n \<le> 1" using assms by (simp_all add: divide_le_eq)
  note u = fl_unit [OF this]
  then show "unit (Fin (rnd (1 / of_int n)))" by simp
  with u show "reciprocal_rank n = Inr (Fin (rnd (1 / of_int n)))" using assms calculation clip01_id
    by (simp add: reciprocal_rank_def clip_field_def)
qed

definition search_score :: "evidence_candidate \<Rightarrow> rerank_score" where
  "search_score c = (let x = Fin (rnd (1 / of_int (ec_search_rank c))) in
     \<lparr>rk_evidence_id = candidate_id c, rk_total = x, rk_feature_scores = [(''search_rank'', x)],
      rk_model_id = Some ''search-order-v1'', rk_prompt_version = None\<rparr>)"

lemma rank_search_order_sound:
  assumes "\<forall>c\<in>set cs. 1 \<le> ec_search_rank c \<and> ec_search_rank c < 2 ^ 53"
  shows "\<exists>r. rank_search_order itext False cs = Inr r \<and>
    er_scores r = map search_score (sort_key rank_key cs) \<and>
    (\<forall>s\<in>set (er_scores r). valid_rerank s) \<and> sorted_wrt (\<lambda>s t. fle (rk_total t) (rk_total s)) (er_scores r)"
proof -
  let ?o = "sort_key rank_key cs"
  have one: "search_order_score c = Inr (search_score c) \<and> valid_rerank (search_score c)" if "c \<in> set cs" for c
  proof -
    have "1 \<le> ec_search_rank c" "ec_search_rank c < 2 ^ 53" using assms that by simp_all
    from reciprocal_rank_small [OF this] show ?thesis
      by (simp add: search_order_score_def search_score_def mk_rerank_def valid_rerank_def Let_def)
  qed
  then have m: "mapM search_order_score ?o = Inr (map search_score ?o)" by (intro mapM_map) simp
  have "mk_ranking \<lparr>er_scores = map search_score ?o, er_provenance = foldl (\<lambda>d c.
      dput (candidate_id c) [(''search_rank'', ''search_rank:'' @ itext (ec_search_rank c))] d) [] ?o\<rparr> =
    Inr \<lparr>er_scores = map search_score ?o, er_provenance = foldl (\<lambda>d c.
      dput (candidate_id c) [(''search_rank'', ''search_rank:'' @ itext (ec_search_rank c))] d) [] ?o\<rparr>"
    by (rule filled_ranking) (simp_all add: search_score_def Let_def)
  with m have "rank_search_order itext False cs = Inr \<lparr>er_scores = map search_score ?o, er_provenance = foldl (\<lambda>d c.
      dput (candidate_id c) [(''search_rank'', ''search_rank:'' @ itext (ec_search_rank c))] d) [] ?o\<rparr>"
    by (simp add: rank_search_order_def Let_def)
  moreover have "sorted_wrt (\<lambda>c d. ec_search_rank c \<le> ec_search_rank d) ?o"
    using sorted_sort_key [of rank_key cs] unfolding sorted_map
    by (rule sorted_wrt_mono_rel [rotated]) (auto simp: less_eq_prod_def)
  then have "sorted_wrt (\<lambda>s t. fle (rk_total t) (rk_total s)) (map search_score ?o)"
    unfolding sorted_wrt_map
  proof (rule sorted_wrt_mono_rel [rotated])
    fix c d assume "c \<in> set ?o" "d \<in> set ?o" "ec_search_rank c \<le> ec_search_rank d"
    moreover have "1 \<le> ec_search_rank c" using assms \<open>c \<in> set ?o\<close> by simp
    ultimately show "fle (rk_total (search_score d)) (rk_total (search_score c))"
      by (simp add: search_score_def Let_def rnd_mono frac_le)
  qed
  ultimately show ?thesis using one by simp
qed

section \<open>R1: errors and order\<close>

definition only_scoring :: "exc + 'a \<Rightarrow> bool" where
  "only_scoring m \<longleftrightarrow> (\<forall>e. m = Inl e \<longrightarrow> scoring_exc e)"

lemma only_scoring_simps [simp]:
  "only_scoring (Inl e) = scoring_exc e" "only_scoring (Inr x)"
  by (simp_all add: only_scoring_def)

lemma only_scoring_bind: "only_scoring m \<Longrightarrow> (\<And>x. only_scoring (f x)) \<Longrightarrow> only_scoring (rbind m f)"
  by (cases m) simp_all

lemma only_scoring_mapM: "(\<And>x. only_scoring (f x)) \<Longrightarrow> only_scoring (mapM f xs)"
  by (induction xs) (simp_all add: only_scoring_bind)

lemma only_scoring_entry: "only_scoring (similarity_entry fhypot model query sv)"
proof -
  have "only_scoring (math_fsum xs)" for xs by (simp add: math_fsum_def Let_def)
  then have "only_scoring (hypot_cosine fhypot l r)" for l r by (simp add: hypot_cosine_def Let_def)
  moreover have "only_scoring (mk_rerank s)" for s by (simp add: mk_rerank_def)
  ultimately show ?thesis by (simp add: similarity_entry_def Let_def only_scoring_bind)
qed

lemma only_scoring_validate: "only_scoring (validate_embeddings texts vs)"
  by (simp add: validate_embeddings_def)

lemma similarity_scores_error:
  "similarity_scores fhypot provider model texts spans vs = Inl e \<Longrightarrow>
     e = embed_error provider InvalidResponse ''embedding response is invalid''"
proof -
  have "only_scoring (rbind (validate_embeddings texts vs) (\<lambda>vs.
      mapM (similarity_entry fhypot model (hd vs)) (zip spans (tl vs))))"
    by (intro only_scoring_bind only_scoring_validate only_scoring_mapM only_scoring_entry)
  then show "similarity_scores fhypot provider model texts spans vs = Inl e \<Longrightarrow> ?thesis"
    by (auto simp: similarity_scores_def only_scoring_def split: sum.splits)
qed

lemma clip01_always_unit: "unit (clip01 x)"
  by (cases x) (auto simp: clip01_Fin clip01_def fmin_def fmax_def)

lemma similarity_entry_Inr:
  assumes "similarity_entry fhypot model query sv = Inr s"
  shows "rk_evidence_id s = es_evidence_id (fst sv) \<and> valid_rerank s \<and>
    rk_feature_scores s = [(''relevance'', rk_total s)]"
  using assms by (auto simp: similarity_entry_def res_simps Let_def mk_rerank_Inr)

lemma mapM_Inr_set: "mapM f xs = Inr ys \<Longrightarrow> y \<in> set ys \<Longrightarrow> \<exists>x\<in>set xs. f x = Inr y"
  by (induction xs arbitrary: ys) (auto simp: res_simps)

lemma list_all2_map_eq: "list_all2 (\<lambda>x y. f x = g y) xs ys \<Longrightarrow> map f xs = map g ys"
  by (induction rule: list_all2_induct) simp_all

lemma similarity_scores_Inr:
  assumes "similarity_scores fhypot provider model texts spans vs = Inr scores" "length texts = Suc (length spans)"
  shows "map rk_evidence_id scores = map es_evidence_id spans \<and>
    (\<forall>s\<in>set scores. valid_rerank s \<and> rk_feature_scores s = [(''relevance'', rk_total s)])"
proof -
  from assms have m: "mapM (similarity_entry fhypot model (hd vs)) (zip spans (tl vs)) = Inr scores"
    and len: "length (tl vs) = length spans"
    by (auto simp: similarity_scores_def res_simps validate_embeddings_def split: sum.splits if_splits)
  from mapM_Inr_all [OF m] have
    all: "list_all2 (\<lambda>sv s. similarity_entry fhypot model (hd vs) sv = Inr s) (zip spans (tl vs)) scores" .
  then have "list_all2 (\<lambda>sv s. es_evidence_id (fst sv) = rk_evidence_id s) (zip spans (tl vs)) scores"
    by (rule list_all2_mono) (simp add: similarity_entry_Inr)
  then have "map (\<lambda>sv. es_evidence_id (fst sv)) (zip spans (tl vs)) = map rk_evidence_id scores"
    by (rule list_all2_map_eq)
  moreover have "map (\<lambda>sv. es_evidence_id (fst sv)) (zip spans (tl vs)) = map es_evidence_id spans"
    using len map_fst_zip [of spans "tl vs"] map_map [of es_evidence_id fst "zip spans (tl vs)"] by (simp add: comp_def)
  moreover have "valid_rerank s \<and> rk_feature_scores s = [(''relevance'', rk_total s)]" if "s \<in> set scores" for s
    using mapM_Inr_set [OF m that] similarity_entry_Inr by blast
  ultimately show ?thesis by simp
qed

lemma rank_similarity_sorted:
  assumes "\<forall>s\<in>set scores. rk_feature_scores s = [(''relevance'', rk_total s)]" "sorted (map score_key scores)"
  shows "\<exists>r. rank_similarity delegate False (Inr scores) = Inr r \<and> er_scores r = scores"
proof -
  have s: "sort_key score_key scores = scores" using assms(2) by (rule sort_key_id_if_sorted)
  have "mk_ranking \<lparr>er_scores = scores, er_provenance = foldl (\<lambda>d s.
      dput (rk_evidence_id s) [(''relevance'', ''SimilarityRanker:'' @ delegate)] d) [] scores\<rparr> =
    Inr \<lparr>er_scores = scores, er_provenance = foldl (\<lambda>d s.
      dput (rk_evidence_id s) [(''relevance'', ''SimilarityRanker:'' @ delegate)] d) [] scores\<rparr>"
    by (rule filled_ranking) (simp_all add: assms(1))
  then show ?thesis by (simp add: rank_similarity_def s Let_def)
qed

text \<open>An error of the provider contract, with the reason it stands for.\<close>

definition contract_error :: "string \<Rightarrow> pyfloat \<Rightarrow> (nat \<Rightarrow> bool \<times> pyfloat) \<Rightarrow> string \<Rightarrow> provider_error \<Rightarrow> bool" where
  "contract_error provider deadline look need e \<longleftrightarrow>
     pe_provider e = provider \<and> pe_operation e = ''embed'' \<and> \<not> pe_retryable e \<and>
     (pe_code e = Timeout \<longrightarrow> (\<exists>k. fle deadline (snd (look k)))) \<and>
     (pe_code e = InvalidRequest \<longrightarrow> \<not> isfinite deadline \<or> blank need)"

text \<open>
  The similarity ranking, whatever the embedder answers and however the clock and the token
  move.  Scores come one per span, best first and by id among equals, each between 0 and 1, and
  the ranker R1 passes them on unchanged.  No error of the arithmetic escapes: a failure is a
  cancellation, an exception of the embedder itself, or an error of the provider contract, and
  that one is about the request, the deadline or the embedder's response.
\<close>

theorem similarity_ranks:
  assumes "similarity_ranker fhypot provider model deadline look embedder need spans = res"
  shows "(\<forall>scores. res = Inr scores \<longrightarrow> mset (map rk_evidence_id scores) = mset (map es_evidence_id spans) \<and>
      sorted (map score_key scores) \<and>
      (\<forall>s\<in>set scores. valid_rerank s \<and> rk_feature_scores s = [(''relevance'', rk_total s)]) \<and>
      (\<exists>r. rank_similarity delegate False res = Inr r \<and> er_scores r = scores)) \<and>
    (\<forall>e. res = Inl (SimilarityRaised e) \<longrightarrow> embedder (need # map es_excerpt spans) = Inl e) \<and>
    (\<forall>e. res = Inl (SimilarityError e) \<longrightarrow> contract_error provider deadline look need e)"
proof -
  have check: "contract_error provider deadline look need e"
    if "check_boundary provider deadline (look k) = Inl (SimilarityError e)" for k e
    using that by (auto simp: check_boundary_def embed_error_def contract_error_def split: if_splits)
  have response: "contract_error provider deadline look need e"
    if "similarity_scores fhypot provider model ts ss vs = Inl (SimilarityError e)" for ts ss vs e
    using similarity_scores_error [OF that] by (simp add: embed_error_def contract_error_def)
  have raised: "check_boundary provider deadline l \<noteq> Inl (SimilarityRaised e)" for l e
    by (simp add: check_boundary_def embed_error_def)
  have scoring: "similarity_scores fhypot provider model ts ss vs \<noteq> Inl (SimilarityRaised e)" for ts ss vs e
    by (auto dest: similarity_scores_error simp: embed_error_def)
  let ?texts = "need # map es_excerpt spans"
  have sorted: "mset (map rk_evidence_id scores) = mset (map es_evidence_id spans) \<and> sorted (map score_key scores) \<and>
      (\<forall>s\<in>set scores. valid_rerank s \<and> rk_feature_scores s = [(''relevance'', rk_total s)])" if "res = Inr scores" for scores
  proof (cases "spans = []")
    case True
    with assms that show ?thesis by (auto simp: similarity_ranker_def res_simps)
  next
    case False
    with assms that obtain vs raw where r: "similarity_scores fhypot provider model ?texts spans vs = Inr raw"
      "scores = sort_key score_key raw"
      by (auto simp: similarity_ranker_def res_simps Let_def split: if_splits)
    from similarity_scores_Inr [OF r(1)] have raw: "map rk_evidence_id raw = map es_evidence_id spans"
      "\<forall>s\<in>set raw. valid_rerank s \<and> rk_feature_scores s = [(''relevance'', rk_total s)]" by simp_all
    have "mset (map rk_evidence_id scores) = mset (map rk_evidence_id raw)" by (simp add: r(2))
    with raw show ?thesis by (simp add: r(2))
  qed
  then have "\<exists>r. rank_similarity delegate False res = Inr r \<and> er_scores r = scores" if "res = Inr scores" for scores
    using rank_similarity_sorted [of scores delegate] that by simp
  moreover have "embedder ?texts = Inl e" if "res = Inl (SimilarityRaised e)" for e
    using assms that scoring raised
    by (auto simp: similarity_ranker_def rbind_eq_Inl Let_def embed_error_def split: if_splits sum.splits)
  moreover have "contract_error provider deadline look need e" if "res = Inl (SimilarityError e)" for e
  proof (cases "spans \<noteq> [] \<and> blank need")
    case True
    with assms that check show ?thesis
      by (auto simp: similarity_ranker_def rbind_eq_Inl embed_error_def contract_error_def)
  next
    case False
    with assms that check response show ?thesis
      by (auto simp: similarity_ranker_def rbind_eq_Inl Let_def split: if_splits sum.splits)
  qed
  ultimately show ?thesis using sorted by blast
qed

section \<open>A small ranking\<close>

text \<open>The quality score is always computed.\<close>

lemma source_quality_total:
  assumes "valid_quality q"
  shows "\<exists>x. source_quality s q = Inr x"
proof -
  have u: "unit (source_type_score (sd_source_type s))"
    by (cases "sd_source_type s") (simp_all add: fl_ratio_unit)
  obtain t where t: "source_type_score (sd_source_type s) = Fin t" "0 \<le> t" "t \<le> 1" using u by (rule unitE)
  obtain x y z where q: "qo_provenance_completeness q = Fin x" "0 \<le> x" "x \<le> 1"
    "qo_directness q = Fin y" "0 \<le> y" "y \<le> 1" "qo_data_verifiability q = Fin z" "0 \<le> z" "z \<le> 1"
    using assms unfolding valid_quality_def by (metis unitE)
  have m: "fmul (fl (40 / 100)) (Fin t) = Fin (rnd (rnd (40 / 100) * t))" "\<bar>rnd (rnd (40 / 100) * t)\<bar> \<le> of_nat 1"
    "fmul (fl (20 / 100)) (Fin x) = Fin (rnd (rnd (20 / 100) * x))" "\<bar>rnd (rnd (20 / 100) * x)\<bar> \<le> 1"
    "fmul (fl (20 / 100)) (Fin y) = Fin (rnd (rnd (20 / 100) * y))" "\<bar>rnd (rnd (20 / 100) * y)\<bar> \<le> 1"
    "fmul (fl (20 / 100)) (Fin z) = Fin (rnd (rnd (20 / 100) * z))" "\<bar>rnd (rnd (20 / 100) * z)\<bar> \<le> 1"
    using weighted t(2,3) q(2,3,5,6,8,9) by simp_all
  have small: "Suc 1 < 1000" "Suc (Suc 1) < 1000" "Suc (Suc (Suc 1)) < 1000" by simp_all
  note s2 = fadd_step [OF m(2,4) small(1)]
  note s3 = fadd_step [OF s2(2) m(6) small(2)]
  note s4 = fadd_step [OF s3(2) m(8) small(3)]
  show ?thesis unfolding source_quality_def t(1) q(1,4,7) m(1,3,5,7) s2(1) s3(1) s4(1) by (simp add: clip_field_def)
qed

text \<open>An accountant on which the support of the candidate has been judged before.\<close>

definition demo_support_reservation :: budget_reservation where
  "demo_support_reservation = \<lparr>br_oid = 1, br_reservation_id = ''i'', br_idempotency_key = ''judge:n:E-a'',
     br_node = Ranker, br_estimate = support_estimate\<rparr>"

definition demo_judged :: "budget_snapshot \<Rightarrow> accountant" where
  "demo_judged snap = demo_accountant\<lparr>
     ac_states := [(''i'', \<lparr>rs_reservation = demo_support_reservation, rs_status = Settled,
                            rs_terminal_snapshot = Some snap\<rparr>)],
     ac_idempotency_index := [''judge:n:E-a'' \<mapsto> ''i'']\<rparr>"

lemma demo_judged_snapshot: "\<exists>s. snapshot (demo_judged snap) = Inr s"
proof -
  have ce: "cost_enabled (preset Low)" by (simp add: cost_enabled_def preset_def)
  obtain s where "snapshot_of (preset Low) [] (\<lambda>_. usage_zero True) (usage_zero True) None = Inr s"
    using demo_snapshot by blast
  then show ?thesis
    by (simp add: snapshot_def demo_judged_def demo_accountant_def snapshot_of_def reserved_totals_def
        active_estimates_def)
qed

lemma demo_call:
  "budgeted_call id 2 (demo_judged snap) support_estimate ''judge:n:E-a'' (Structured demo_usage level) =
     (Inr level, demo_judged snap)"
proof -
  obtain s where s: "snapshot (demo_judged snap) = Inr s" using demo_judged_snapshot by blast
  have v: "valid_estimate support_estimate" by (simp add: valid_estimate_def support_estimate_def)
  have "re_cost_usd support_estimate = Some (Fin 0)" by (simp add: support_estimate_def)
  with v have "reserve id 2 (demo_judged snap) support_estimate ''Ranker'' ''judge:n:E-a'' =
      Inr (demo_support_reservation, demo_judged snap)"
    by (simp add: reserve_def node_of_name_def mk_estimate_def demo_judged_def demo_support_reservation_def Let_def)
  moreover have "settle (demo_judged snap) demo_support_reservation u True = Inr (snap, demo_judged snap)" for u
    by (simp add: settle_def owned_state_def demo_judged_def demo_support_reservation_def)
  ultimately show ?thesis by (simp add: budgeted_call_def call_actual_def s)
qed

definition demo_calculator :: feature_calculator where
  "demo_calculator = \<lparr>fc_embedding_model_id = ''m'', fc_get_evidence = (\<lambda>i. Inl (KeyError i)),
     fc_get_quality = (\<lambda>_. Inr default_quality), fc_judge_model = ''j'', fc_judge_prompt = ''p''\<rparr>"

definition demo_ranking_context :: ranking_context where
  "demo_ranking_context = \<lparr>rx_subquestion = Evidence_Selection.demo_question, rx_need = hd (sq_information_needs Evidence_Selection.demo_question),
     rx_coverage_score = Fin 0, rx_selected_evidence_ids = {}, rx_selected_family_ids = {}, rx_context_budget = 10,
     rx_evaluation_time = \<lparr>ts_utc_offset = Some 0, ts_instant = 0\<rparr>\<rparr>"

definition demo_answers :: feature_answers where
  "demo_answers = \<lparr>fa_cancelled = False, fa_vectors = (\<lambda>_. Inr [[Fin 1], [Fin 1]]), fa_oid = 2,
     fa_support = Structured demo_usage SupportDirect\<rparr>"

definition plain_texts :: value_texts where
  "plain_texts = \<lparr>vt_float = (\<lambda>_. ''0.0''), vt_int = (\<lambda>_. ''0''), vt_date = (\<lambda>_. ''d''), vt_time = (\<lambda>_. ''t'')\<rparr>"

abbreviation demo_compute :: "accountant \<Rightarrow> feature_answers \<Rightarrow> evidence_candidate \<Rightarrow>
    (judge_error + feature_observation) \<times> accountant" where
  "demo_compute \<equiv> compute_features id id plain_texts demo_calculator demo_ranking_context (Fin 1) (Fin 1) None"

lemma demo_features_computed:
  "\<exists>ob. demo_compute (demo_judged snap) demo_answers (demo_candidate ''a'') = (Inr ob, demo_judged snap)"
proof -
  have two: "fl 2 = Fin 2" using fl_int [of 2] by simp
  have cos: "normalized_cosine_score id [Fin 1] [Fin 1] = Inr (Fin 1)"
    by (simp add: normalized_cosine_score_def norm_of_def Let_def py_fsum_def fsub_def clip_field_def clip01_Fin two)
  have "valid_quality default_quality"
    by (simp add: valid_quality_def default_quality_def fl_ratio_unit)
  then obtain x where q: "source_quality (ec_source (demo_candidate ''a'')) default_quality = Inr x"
    using source_quality_total by blast
  have g: "coverage_gain Evidence_Selection.demo_question (hd (sq_information_needs Evidence_Selection.demo_question)) (ec_evidence (demo_candidate ''a''))
      (Fin 0) = Inr (Fin 1)"
    by (simp add: coverage_gain_def Evidence_Selection.demo_question_def demo_candidate_def py_fsum_def fsub_def Let_def clip_field_def
        clip01_Fin)
  have f: "\<And>support. \<exists>f. feature_values id demo_ranking_context None (demo_candidate ''a'')
      [[Fin 1], [Fin 1]] support default_quality = Inr f"
    using feature_values_total [of id "[[Fin 1], [Fin 1]]" "Fin 1" "demo_candidate ''a''" default_quality x
        demo_ranking_context "Fin 1" None "Fin 1" "[]"] cos q g
    by (force simp: demo_ranking_context_def freshness_score_def)
  have e: "embed_inputs demo_calculator demo_ranking_context (Fin 1) (Fin 1) (demo_candidate ''a'') demo_answers =
      Inr [[Fin 1], [Fin 1]]"
    by (simp add: embed_inputs_def demo_ranking_context_def Evidence_Selection.demo_question_def demo_answers_def evidence_for_ids_def
        demo_candidate_def)
  have k: "''judge:'' @ id (in_need_id (rx_need demo_ranking_context) @ '':'' @ candidate_id (demo_candidate ''a'')) =
      ''judge:n:E-a''"
    by (simp add: demo_ranking_context_def Evidence_Selection.demo_question_def demo_candidate_def)
  have s: "observe_support id (fa_oid demo_answers) (fc_judge_model demo_calculator) (fc_judge_prompt demo_calculator)
      (demo_judged snap) (rx_need demo_ranking_context) (ec_evidence (demo_candidate ''a'')) (fa_support demo_answers) =
    (Inr \<lparr>so_level = SupportDirect, so_judge_model = ''j'', so_prompt_version = ''p'',
       so_decision_code = ''DIRECTNESS_DIRECT''\<rparr>, demo_judged snap)"
    unfolding observe_support_def k by (simp add: demo_answers_def demo_call demo_calculator_def)
  have qual: "fc_get_quality demo_calculator i = Inr default_quality" for i by (simp add: demo_calculator_def)
  let ?s = "\<lparr>so_level = SupportDirect, so_judge_model = ''j'', so_prompt_version = ''p'',
       so_decision_code = ''DIRECTNESS_DIRECT''\<rparr>"
  obtain v where "feature_values id demo_ranking_context None (demo_candidate ''a'') [[Fin 1], [Fin 1]] ?s
      default_quality = Inr v" using f by blast
  then show ?thesis unfolding compute_features_def e s sum.case prod.case qual
    by (simp add: provenance_complete)
qed

theorem utility_ranking_sound_witness:
  "\<exists>r. rank_evidence id id plain_texts demo_calculator demo_ranking_context ''m'' ''v'' (demo_judged Stop_Correct.demo_snapshot)
       [(demo_answers, demo_candidate ''a'')] = (Inr r, demo_judged Stop_Correct.demo_snapshot) \<and>
     mset (map rk_evidence_id (er_scores r)) = {#''E-a''#}"
proof -
  obtain ob where ob: "demo_compute (demo_judged Stop_Correct.demo_snapshot) demo_answers (demo_candidate ''a'') = (Inr ob, demo_judged Stop_Correct.demo_snapshot)"
    using demo_features_computed by blast
  have args: "sq_importance (rx_subquestion demo_ranking_context) = Fin 1"
    "in_importance (rx_need demo_ranking_context) = Fin 1"
    "er_freshness (sq_evidence_requirements (rx_subquestion demo_ranking_context)) = None"
    by (simp_all add: demo_ranking_context_def Evidence_Selection.demo_question_def)
  from ob have valid: "valid_observation ob" by (rule compute_features_valid)
  from utility_score_valid [OF this] obtain sc where
    sc: "utility_score ''m'' ''v'' (demo_candidate ''a'') ob = Inr sc" "scored sc" by blast
  have "records [sc] [(rk_evidence_id sc, fo_provenance ob)]"
    using sc(2) valid by (simp add: records_def valid_observation_def)
  from records_mk_ranking [OF this] ob sc(1) obtain r where
    r: "rank_evidence id id plain_texts demo_calculator demo_ranking_context ''m'' ''v'' (demo_judged Stop_Correct.demo_snapshot)
       [(demo_answers, demo_candidate ''a'')] = (Inr r, demo_judged Stop_Correct.demo_snapshot)"
    by (simp add: rank_evidence_def args rank_utility_def)
  with utility_ranking_sound [OF r] show ?thesis by (simp add: demo_candidate_def)
qed

theorem similarity_ranks_witness:
  "similarity_ranker hd ''p'' ''m'' (Fin 1) (\<lambda>_. (False, Fin 2)) (\<lambda>_. Inr []) ''need'' [] =
     Inl (embed_error ''p'' Timeout ''embedding deadline expired'') \<and>
   contract_error ''p'' (Fin 1) (\<lambda>_. (False, Fin 2)) ''need''
     \<lparr>pe_code = Timeout, pe_provider = ''p'', pe_operation = ''embed'',
      pe_public_message = ''embedding deadline expired'', pe_retryable = False, pe_retry_after = None, pe_usage = None\<rparr>"
proof -
  have r: "similarity_ranker hd ''p'' ''m'' (Fin 1) (\<lambda>_. (False, Fin 2)) (\<lambda>_. Inr []) ''need'' [] =
     Inl (embed_error ''p'' Timeout ''embedding deadline expired'')"
    by (simp add: similarity_ranker_def check_boundary_def)
  with similarity_ranks [OF r] show ?thesis by (simp add: embed_error_def)
qed

end
