(* ===== verification/Planners.thy ===== *)
theory Planners
  imports Stop_Correct Query_Scheduler_Correct
begin

text \<open>
  The three planners (\<^verbatim>\<open>src/src/deepresearch/planning/planners.py\<close>): P0 searches for the first
  question, P1 works through the questions once, P2 returns to the question of the highest
  priority.  P1 and P2 ask the stop rules first.  What the model, the fixed planner behind P1 and
  the scheduler's deduplication answer are arguments; the text of the model requests is not
  modelled.
\<close>

section \<open>Definitions\<close>

datatype planner_error =
    PlannerInvariant string | PlannerRaised exc | PlannerCancelled

definition target_exhausted :: string where
  "target_exhausted = ''planner target exhaustion lacks typed stop evidence''"

definition as_planner :: "exc + 'a \<Rightarrow> planner_error + 'a" where
  "as_planner m = (case m of Inl e \<Rightarrow> Inl (PlannerRaised e) | Inr x \<Rightarrow> Inr x)"

fun stop_name :: "stop_reason \<Rightarrow> string" where
  "stop_name Sufficient = ''SUFFICIENT''"
| "stop_name Plateau = ''PLATEAU''"
| "stop_name BudgetExhausted = ''BUDGET_EXHAUSTED''"
| "stop_name Blocked = ''BLOCKED''"

text \<open>The first question that no round has attempted.\<close>

fun first_target :: "coverage_ledger \<Rightarrow> sub_question list \<Rightarrow> exc + sub_question option" where
  "first_target l [] = Inr None"
| "first_target l (q # qs) =
     rbind (get_entry l (sq_id q)) (\<lambda>e.
     if cl_attempt_count e = 0 then Inr (Some q) else first_target l qs)"

definition query_for :: "sub_question \<Rightarrow> nat \<Rightarrow> string \<Rightarrow> exc + query_candidate" where
  "query_for target i q =
     mk_candidate \<lparr>qc_subquestion_id = sq_id target,
       qc_information_need_id = in_need_id (sq_information_needs target ! (i mod length (sq_information_needs target))),
       qc_query = q, qc_priority_hint = sq_importance target, qc_estimated_tokens = 256,
       qc_estimated_search_calls = 1, qc_estimated_seconds = Fin 5\<rparr>"

definition candidate_tuple :: "sub_question \<Rightarrow> string list \<Rightarrow> planner_error + query_candidate list" where
  "candidate_tuple target queries =
     (if sq_information_needs target = []
      then Inl (PlannerInvariant ''subquestion has no information need for query attribution'')
      else as_planner (mapM (\<lambda>(i, q). query_for target i q) (enumerate 0 queries)))"

definition search_for :: "sub_question \<Rightarrow> query_candidate list \<Rightarrow> string \<Rightarrow> planner_error + planner_decision" where
  "search_for target cands code =
     as_planner (mk_decision \<lparr>pd_kind = SearchKind, pd_subquestion_id = Some (sq_id target), pd_candidates = cands,
       pd_stop = None, pd_decision_code = code\<rparr>)"

definition stop_with :: "stop_decision \<Rightarrow> planner_error + planner_decision" where
  "stop_with d =
     as_planner (mk_decision \<lparr>pd_kind = StopKind, pd_subquestion_id = None, pd_candidates = [],
       pd_stop = Some d, pd_decision_code = stop_name (st_code d)\<rparr>)"

text \<open>P0; the kind of action the model names is not looked at.\<close>

datatype react_kind = ActReference | ActSearch | ActStop

record react_action =
  ra_action :: react_kind
  ra_query :: "string option"
  ra_decision_code :: string

definition or_question :: "string option \<Rightarrow> string \<Rightarrow> string" where
  "or_question q question = (case q of None \<Rightarrow> question | Some s \<Rightarrow> if s = [] then question else s)"

definition p0_next :: "planner_state \<Rightarrow> (planner_error + react_action) \<Rightarrow> planner_error + planner_decision" where
  "p0_next s answer =
     (case rp_subquestions (ps_plan s) of
        [] \<Rightarrow> Inl (PlannerInvariant ''P0 requires at least one subquestion'')
      | target # _ \<Rightarrow>
          if sq_information_needs target = [] then Inl (PlannerInvariant ''P0 requires an information need'')
          else rbind answer (\<lambda>action.
            let code = strip_ws (ra_decision_code action) in
            rbind (candidate_tuple target [or_question (ra_query action) (sq_question target)]) (\<lambda>cands.
            search_for target cands (if code = [] then ''REACT_REFERENCE'' else code))))"

text \<open>P1; \<open>queries_for\<close> is what the fixed planner answers for the question.\<close>

definition p1_next :: "planner_state \<Rightarrow> (sub_question \<Rightarrow> planner_error + string list) \<Rightarrow> planner_error + planner_decision" where
  "p1_next s queries_for =
     rbind (as_planner (evaluate_stop s (ps_budget_snapshot s) (ps_blocked_needs s))) (\<lambda>stop.
     case stop of
       Some d \<Rightarrow> stop_with d
     | None \<Rightarrow>
         rbind (as_planner (first_target (ps_ledger s) (rp_subquestions (ps_plan s)))) (\<lambda>target.
         case target of
           None \<Rightarrow> Inl (PlannerInvariant target_exhausted)
         | Some q \<Rightarrow>
             rbind (queries_for q) (\<lambda>queries.
             rbind (candidate_tuple q queries) (\<lambda>cands.
             if cands = [] then Inl (PlannerInvariant ''fixed planner produced no query candidates'')
             else search_for q cands ''P1_FIXED_QUERIES''))))"

text \<open>P2.\<close>

definition bool_float :: "bool \<Rightarrow> pyfloat" where
  "bool_float b = (if b then Fin 1 else Fin 0)"

definition target_priority :: "planner_state \<Rightarrow> sub_question \<Rightarrow> exc + pyfloat" where
  "target_priority s q =
     rbind (get_entry (ps_ledger s) (sq_id q)) (\<lambda>e.
     compute_priority (sq_importance q) (cl_coverage_score e)
       (bool_float (cl_independent_source_count e < er_min_independent_sources (sq_evidence_requirements q)))
       (bool_float (cl_unresolved_conflict_ids e \<noteq> []))
       (fl (5 / 10)) (fl (5 / 10)) (fl (5 / 10))
       (if ps_recent_marginal_gains s \<noteq> [] then last (ps_recent_marginal_gains s) else fl (5 / 10))
       (fl (5 / 10)))"

text \<open>\<^verbatim>\<open>max\<close> of an enumeration under the key \<open>(priority, -index)\<close>: a later item wins only if greater.\<close>

definition key_greater :: "pyfloat \<times> int \<Rightarrow> pyfloat \<times> int \<Rightarrow> bool" where
  "key_greater k k' \<longleftrightarrow> flt (fst k') (fst k) \<or> fst k = fst k' \<and> snd k' < snd k"

fun max_target :: "planner_state \<Rightarrow> (pyfloat \<times> int) \<times> sub_question \<Rightarrow> int \<Rightarrow> sub_question list \<Rightarrow> exc + sub_question" where
  "max_target s best i [] = Inr (snd best)"
| "max_target s best i (q # qs) =
     rbind (target_priority s q) (\<lambda>p.
     max_target s (if key_greater (p, - i) (fst best) then ((p, - i), q) else best) (i + 1) qs)"

definition choose_target :: "planner_state \<Rightarrow> planner_error + sub_question" where
  "choose_target s =
     (case rp_subquestions (ps_plan s) of
        [] \<Rightarrow> Inl (PlannerInvariant ''adaptive planner requires at least one subquestion'')
      | q # qs \<Rightarrow> as_planner (rbind (target_priority s q) (\<lambda>p. max_target s ((p, 0), q) 1 qs)))"

text \<open>\<open>dedupe\<close> is the scheduler's deduplication, if the scheduler has one.\<close>

definition generate_queries :: "(planner_error + string list) \<Rightarrow>
    (query_candidate list \<Rightarrow> planner_error + query_candidate list) option \<Rightarrow> sub_question \<Rightarrow>
    planner_error + query_candidate list" where
  "generate_queries answer dedupe target =
     rbind answer (\<lambda>output.
     let stripped = filter (\<lambda>q. q \<noteq> []) (map strip_ws output);
         queries = (if stripped = [] then [sq_question target] else stripped) in
     rbind (candidate_tuple target queries) (\<lambda>cands.
     case dedupe of None \<Rightarrow> Inr cands | Some f \<Rightarrow> f cands))"

definition p2_next :: "planner_state \<Rightarrow> (sub_question \<Rightarrow> planner_error + string list) \<Rightarrow>
    (query_candidate list \<Rightarrow> planner_error + query_candidate list) option \<Rightarrow> planner_error + planner_decision" where
  "p2_next s model dedupe =
     rbind (as_planner (evaluate_stop s (ps_budget_snapshot s) (ps_blocked_needs s))) (\<lambda>stop.
     case stop of
       Some d \<Rightarrow> stop_with d
     | None \<Rightarrow>
         rbind (choose_target s) (\<lambda>target.
         rbind (generate_queries (model target) dedupe target) (\<lambda>cands.
         if cands = [] then Inl (PlannerInvariant ''adaptive planner produced no query candidates'')
         else search_for target cands ''P2_INCREMENTAL_REPLAN'')))"

section \<open>Lemmas\<close>

lemma as_planner_Inr [simp]: "as_planner m = Inr x \<longleftrightarrow> m = Inr x"
  and as_planner_of_Inr [simp]: "as_planner (Inr y) = Inr y"
  by (simp_all add: as_planner_def split: sum.split)

lemma stop_with_ok:
  "stop_with d = Inr \<lparr>pd_kind = StopKind, pd_subquestion_id = None, pd_candidates = [],
     pd_stop = Some d, pd_decision_code = stop_name (st_code d)\<rparr>"
proof -
  have "\<not> blank (stop_name c)" for c by (cases c; simp only: stop_name.simps; code_simp)
  then show ?thesis by (simp add: stop_with_def mk_decision_def require_non_empty_def as_planner_def)
qed

text \<open>The target of P1: the first question whose entry records no attempt.\<close>

lemma first_target_eq:
  assumes "wf_ledger l" "set qs \<subseteq> set (rp_subquestions (lg_plan l))"
  shows "first_target l qs = Inr (List.find (\<lambda>q. cl_attempt_count (entry_of l q) = 0) qs)"
  using assms(2) by (induction qs) (simp_all add: wf_entry [OF assms(1)])

text \<open>The target of P2: the first question of the highest priority.\<close>

lemma key_greater_Fin:
  "key_greater (Fin p, - i) (Fin r, - j) \<longleftrightarrow> r < p \<or> p = r \<and> i < j"
  by (auto simp: key_greater_def)

definition first_best :: "('a \<Rightarrow> rat) \<Rightarrow> 'a list \<Rightarrow> 'a \<Rightarrow> bool" where
  "first_best f qs t \<longleftrightarrow>
     (\<exists>xs ys. qs = xs @ t # ys \<and> (\<forall>x\<in>set xs. f x < f t) \<and> (\<forall>y\<in>set ys. f y \<le> f t))"

lemma first_best_le: "first_best f qs t \<Longrightarrow> q \<in> set qs \<Longrightarrow> f q \<le> f t"
  by (force simp: first_best_def)

lemma first_best_in: "first_best f qs t \<Longrightarrow> t \<in> set qs"
  by (auto simp: first_best_def)

lemma first_best_Cons:
  assumes "first_best f (q # qs) t" "f b < f q"
  shows "first_best f (b # q # qs) t"
proof -
  from assms(1) obtain xs ys where x: "q # qs = xs @ t # ys" "\<forall>x\<in>set xs. f x < f t" "\<forall>y\<in>set ys. f y \<le> f t"
    by (auto simp: first_best_def)
  have "f q \<le> f t" using first_best_le [OF assms(1)] by simp
  with assms(2) have "f b < f t" by simp
  with x show ?thesis unfolding first_best_def by (intro exI [of _ "b # xs"] exI [of _ ys]) simp
qed

lemma first_best_insert:
  assumes "first_best f (b # qs) t" "f q \<le> f b"
  shows "first_best f (b # q # qs) t"
proof -
  from assms(1) obtain xs ys where x: "b # qs = xs @ t # ys" "\<forall>x\<in>set xs. f x < f t" "\<forall>y\<in>set ys. f y \<le> f t"
    by (auto simp: first_best_def)
  show ?thesis
  proof (cases xs)
    case Nil
    with x assms(2) show ?thesis unfolding first_best_def by (intro exI [of _ "[]"] exI [of _ "q # ys"]) auto
  next
    case (Cons c zs)
    with x assms(2) show ?thesis unfolding first_best_def by (intro exI [of _ "b # q # zs"] exI [of _ ys]) auto
  qed
qed

lemma max_target_eq:
  assumes "\<forall>q\<in>set (b # qs). target_priority s q = Inr (Fin (f q))" "j < i"
  shows "\<exists>t. max_target s ((Fin (f b), - j), b) i qs = Inr t \<and> first_best f (b # qs) t"
  using assms
proof (induction qs arbitrary: b i j)
  case Nil
  have "first_best f [b] b" unfolding first_best_def by (intro exI [of _ "[]"]) simp
  then show ?case by simp
next
  case (Cons q qs)
  show ?case
  proof (cases "f b < f q")
    case True
    from Cons.IH [of q i "i + 1"] Cons.prems(1) obtain t where
      "max_target s ((Fin (f q), - i), q) (i + 1) qs = Inr t" "first_best f (q # qs) t" by auto
    with True Cons.prems(1) first_best_Cons [of f q qs t b] show ?thesis by (simp add: key_greater_Fin)
  next
    case False
    from Cons.IH [of b j "i + 1"] Cons.prems obtain t where
      "max_target s ((Fin (f b), - j), b) (i + 1) qs = Inr t" "first_best f (b # qs) t" by auto
    with False Cons.prems first_best_insert [of f b qs t q] show ?thesis by (auto simp: key_greater_Fin)
  qed
qed

lemma choose_target_first_best:
  assumes "\<forall>q\<in>set (rp_subquestions (ps_plan s)). target_priority s q = Inr (Fin (f q))"
    and "rp_subquestions (ps_plan s) \<noteq> []"
  shows "\<exists>t. choose_target s = Inr t \<and> first_best f (rp_subquestions (ps_plan s)) t"
proof -
  obtain b qs where b: "rp_subquestions (ps_plan s) = b # qs" using assms(2) by (cases "rp_subquestions (ps_plan s)") auto
  with max_target_eq [of b qs s f 0 1] assms(1) show ?thesis by (auto simp: choose_target_def)
qed

definition priority_value :: "planner_state \<Rightarrow> sub_question \<Rightarrow> rat" where
  "priority_value s q = (case target_priority s q of Inr (Fin p) \<Rightarrow> p | _ \<Rightarrow> 0)"

lemma finite_Fin: "isfinite x \<Longrightarrow> \<exists>r. x = Fin r"
  by (cases x) simp_all

lemma compute_priority_Fin_ex:
  assumes "\<And>p. compute_priority (Fin i) (Fin cov) (Fin n) (Fin c) (Fin t) (Fin s) (Fin w) (Fin g) (Fin h) = Inr (Fin p) \<Longrightarrow>
    0 \<le> p \<Longrightarrow> p \<le> 20 \<Longrightarrow> thesis"
  shows thesis
  using compute_priority_Fin [of g n c h t s w i cov] assms by blast

lemma target_priority_Fin:
  assumes "wf_ledger (ps_ledger s)" "q \<in> set (rp_subquestions (lg_plan (ps_ledger s)))"
    and "unit (sq_importance q)" "\<forall>g\<in>set (ps_recent_marginal_gains s). isfinite g"
  shows "target_priority s q = Inr (Fin (priority_value s q)) \<and> 0 \<le> priority_value s q \<and> priority_value s q \<le> 20"
proof -
  let ?e = "entry_of (ps_ledger s) q"
  let ?g = "if ps_recent_marginal_gains s \<noteq> [] then last (ps_recent_marginal_gains s) else fl (5 / 10)"
  have half: "fl (5 / 10) = Fin (rnd (5 / 10))" using fl_lit [of "5 / 10"] by simp
  have e: "get_entry (ps_ledger s) (sq_id q) = Inr ?e" "unit (cl_coverage_score ?e)"
    using wf_entry [OF assms(1,2)] by (simp_all add: valid_entry_def)
  obtain i where i: "sq_importance q = Fin i" using assms(3) by (rule unitE)
  obtain c where c: "cl_coverage_score ?e = Fin c" using e(2) by (rule unitE)
  have "isfinite ?g" using assms(4) half by auto
  then obtain g where g: "?g = Fin g" using finite_Fin by blast
  have b: "bool_float x = Fin (if x then 1 else 0)" for x by (simp add: bool_float_def)
  obtain p where p: "target_priority s q = Inr (Fin p)" "0 \<le> p" "p \<le> 20"
    unfolding target_priority_def e(1) rbind_Inr i c b g [unfolded half] half
    by (rule compute_priority_Fin_ex)
  then show ?thesis by (simp add: priority_value_def)
qed

text \<open>What a SEARCH decision for a question must look like.\<close>

definition searches :: "planner_decision \<Rightarrow> sub_question \<Rightarrow> string list \<Rightarrow> bool" where
  "searches d t queries \<longleftrightarrow>
     pd_kind d = SearchKind \<and> pd_subquestion_id d = Some (sq_id t) \<and> pd_stop d = None \<and>
     map qc_query (pd_candidates d) = queries \<and>
     (\<forall>c\<in>set (pd_candidates d). mk_candidate c = Inr c \<and> qc_subquestion_id c = sq_id t \<and>
        qc_information_need_id c \<in> in_need_id ` set (sq_information_needs t) \<and>
        qc_priority_hint c = sq_importance t)"

definition named_question :: "sub_question \<Rightarrow> bool" where
  "named_question q \<longleftrightarrow> unit (sq_importance q) \<and> \<not> blank (sq_id q) \<and> \<not> blank (sq_question q) \<and>
     sq_information_needs q \<noteq> [] \<and> (\<forall>n\<in>set (sq_information_needs q). \<not> blank (in_need_id n))"

lemma mk_candidate_self: "mk_candidate c = Inr d \<Longrightarrow> d = c"
  by (auto simp: mk_candidate_def res_simps split: if_splits)

lemma query_for_ok:
  assumes "named_question t" "\<not> blank q"
  shows "\<exists>c. query_for t i q = Inr c \<and> mk_candidate c = Inr c \<and> qc_query c = q \<and> qc_subquestion_id c = sq_id t \<and>
    qc_information_need_id c \<in> in_need_id ` set (sq_information_needs t) \<and> qc_priority_hint c = sq_importance t"
proof -
  have "i mod length (sq_information_needs t) < length (sq_information_needs t)"
    using assms(1) by (simp add: named_question_def)
  then have n: "sq_information_needs t ! (i mod length (sq_information_needs t)) \<in> set (sq_information_needs t)"
    by (rule nth_mem)
  obtain r where r: "sq_importance t = Fin r" "0 \<le> r" "r \<le> 1"
    using assms(1) unfolding named_question_def by (auto elim: unitE)
  have v: "query_for t i q = Inr \<lparr>qc_subquestion_id = sq_id t,
       qc_information_need_id = in_need_id (sq_information_needs t ! (i mod length (sq_information_needs t))),
       qc_query = q, qc_priority_hint = sq_importance t, qc_estimated_tokens = 256,
       qc_estimated_search_calls = 1, qc_estimated_seconds = Fin 5\<rparr>"
    using assms n r
    by (auto simp: query_for_def mk_candidate_def named_question_def require_non_empty_def require_non_negative_def)
  moreover from v have "mk_candidate \<lparr>qc_subquestion_id = sq_id t,
       qc_information_need_id = in_need_id (sq_information_needs t ! (i mod length (sq_information_needs t))),
       qc_query = q, qc_priority_hint = sq_importance t, qc_estimated_tokens = 256,
       qc_estimated_search_calls = 1, qc_estimated_seconds = Fin 5\<rparr> = Inr \<lparr>qc_subquestion_id = sq_id t,
       qc_information_need_id = in_need_id (sq_information_needs t ! (i mod length (sq_information_needs t))),
       qc_query = q, qc_priority_hint = sq_importance t, qc_estimated_tokens = 256,
       qc_estimated_search_calls = 1, qc_estimated_seconds = Fin 5\<rparr>" by (simp add: query_for_def)
  ultimately show ?thesis using n by auto
qed

lemma candidate_tuple_ok:
  assumes "named_question t" "\<forall>q\<in>set queries. \<not> blank q"
  shows "\<exists>cs. candidate_tuple t queries = Inr cs \<and> map qc_query cs = queries \<and>
    (\<forall>c\<in>set cs. mk_candidate c = Inr c \<and> qc_subquestion_id c = sq_id t \<and>
        qc_information_need_id c \<in> in_need_id ` set (sq_information_needs t) \<and>
        qc_priority_hint c = sq_importance t)"
proof -
  have "\<exists>cs. mapM (\<lambda>(i, q). query_for t i q) (enumerate k queries) = Inr cs \<and> map qc_query cs = queries \<and>
    (\<forall>c\<in>set cs. mk_candidate c = Inr c \<and> qc_subquestion_id c = sq_id t \<and>
        qc_information_need_id c \<in> in_need_id ` set (sq_information_needs t) \<and>
        qc_priority_hint c = sq_importance t)" for k
    using assms(2)
  proof (induction queries arbitrary: k)
    case (Cons q qs)
    from Cons.prems have ps: "\<forall>q\<in>set qs. \<not> blank q" "\<not> blank q" by simp_all
    obtain cs where "mapM (\<lambda>(i, q). query_for t i q) (enumerate (Suc k) qs) = Inr cs" "map qc_query cs = qs"
      "\<forall>c\<in>set cs. mk_candidate c = Inr c \<and> qc_subquestion_id c = sq_id t \<and>
        qc_information_need_id c \<in> in_need_id ` set (sq_information_needs t) \<and>
        qc_priority_hint c = sq_importance t" using Cons.IH [OF ps(1), of "Suc k"] by blast
    moreover obtain c where "query_for t k q = Inr c" "mk_candidate c = Inr c" "qc_query c = q"
      "qc_subquestion_id c = sq_id t" "qc_information_need_id c \<in> in_need_id ` set (sq_information_needs t)"
      "qc_priority_hint c = sq_importance t" using query_for_ok [OF assms(1) ps(2), of k] by blast
    ultimately show ?case by (intro exI [of _ "c # cs"]) simp
  qed simp
  then show ?thesis using assms(1) by (simp add: candidate_tuple_def named_question_def)
qed

lemma search_for_ok:
  assumes "named_question t" "map qc_query cs = queries" "queries \<noteq> []" "\<not> blank code"
    and "\<forall>c\<in>set cs. mk_candidate c = Inr c \<and> qc_subquestion_id c = sq_id t \<and>
        qc_information_need_id c \<in> in_need_id ` set (sq_information_needs t) \<and>
        qc_priority_hint c = sq_importance t"
  shows "\<exists>d. search_for t cs code = Inr d \<and> searches d t queries \<and> pd_decision_code d = code"
  using assms
  by (auto simp: search_for_def mk_decision_def require_non_empty_def searches_def named_question_def as_planner_def)

text \<open>The queries P2 puts to the scheduler: the answered ones stripped, the blank ones left out, or
the question itself.\<close>

definition p2_queries :: "string list \<Rightarrow> sub_question \<Rightarrow> string list" where
  "p2_queries answers t =
     (let stripped = filter (\<lambda>q. q \<noteq> []) (map strip_ws answers) in if stripped = [] then [sq_question t] else stripped)"

lemma rstrip_last:
  "rev (dropWhile P ys) \<noteq> [] \<Longrightarrow> \<not> P (last (rev (dropWhile P ys)))"
  using hd_dropWhile [of P ys] by (simp add: last_rev)

lemma strip_Nil: "rev (dropWhile P (rev (dropWhile P y))) = [] \<longleftrightarrow> (\<forall>c\<in>set y. P c)"
proof -
  have "(\<forall>c\<in>set (dropWhile P y). P c) \<longleftrightarrow> (\<forall>c\<in>set y. P c)"
    by (metis dropWhile_eq_Nil_conv hd_dropWhile hd_in_set set_dropWhileD)
  then show ?thesis by simp
qed

lemma strip_ws_not_blank:
  assumes "strip_ws x \<noteq> []" shows "\<not> blank (strip_ws x)"
proof -
  have "\<exists>P. \<forall>y. strip_ws y = rev (dropWhile P (rev (dropWhile P y)))"
    unfolding strip_ws_def Let_def by (intro exI allI) (rule refl)
  then obtain P where P: "strip_ws y = rev (dropWhile P (rev (dropWhile P y)))" for y by blast
  have "\<not> P (last (strip_ws x))" unfolding P [of x] by (rule rstrip_last) (use assms P [of x] in simp)
  with assms show ?thesis unfolding blank_def P [of "strip_ws x"] strip_Nil by (metis last_in_set)
qed

lemma p2_queries_ok: "named_question t \<Longrightarrow> p2_queries answers t \<noteq> [] \<and> (\<forall>q\<in>set (p2_queries answers t). \<not> blank q)"
  by (auto simp: p2_queries_def Let_def named_question_def strip_ws_not_blank)

definition stop_result :: "stop_decision \<Rightarrow> planner_decision" where
  "stop_result d = \<lparr>pd_kind = StopKind, pd_subquestion_id = None, pd_candidates = [],
     pd_stop = Some d, pd_decision_code = stop_name (st_code d)\<rparr>"

text \<open>Ledger, plan and gains as the workflow hands them to a planner.\<close>

definition ready_state :: "planner_state \<Rightarrow> bool" where
  "ready_state s \<longleftrightarrow> wf_ledger (ps_ledger s) \<and> lg_plan (ps_ledger s) = ps_plan s \<and>
     rp_subquestions (ps_plan s) \<noteq> [] \<and> (\<forall>q\<in>set (rp_subquestions (ps_plan s)). named_question q) \<and>
     (\<forall>g\<in>set (ps_recent_marginal_gains s). isfinite g)"

lemma p1_search:
  assumes "ready_state s" "evaluate_stop s (ps_budget_snapshot s) (ps_blocked_needs s) = Inr None"
    and "List.find (\<lambda>q. cl_attempt_count (entry_of (ps_ledger s) q) = 0) (rp_subquestions (ps_plan s)) = Some q"
    and "queries_for q = Inr queries" "queries \<noteq> []" "\<forall>x\<in>set queries. \<not> blank x"
  shows "\<exists>d. p1_next s queries_for = Inr d \<and> searches d q queries"
proof -
  have q: "named_question q" using assms(1,3) by (auto simp: ready_state_def find_Some_iff)
  obtain cs where c: "candidate_tuple q queries = Inr cs" "map qc_query cs = queries"
    "\<forall>c\<in>set cs. mk_candidate c = Inr c \<and> qc_subquestion_id c = sq_id q \<and>
        qc_information_need_id c \<in> in_need_id ` set (sq_information_needs q) \<and>
        qc_priority_hint c = sq_importance q" using candidate_tuple_ok [OF q assms(6)] by blast
  have "\<not> blank ''P1_FIXED_QUERIES''" by code_simp
  from search_for_ok [OF q c(2) assms(5) this c(3)] show ?thesis
    using assms c(1,2) by (auto simp: p1_next_def ready_state_def first_target_eq)
qed

lemma p2_search:
  assumes "ready_state s" "evaluate_stop s (ps_budget_snapshot s) (ps_blocked_needs s) = Inr None"
  shows "\<exists>t. first_best (priority_value s) (rp_subquestions (ps_plan s)) t \<and>
    (\<forall>answers. model t = Inr answers \<longrightarrow>
       (\<exists>d. p2_next s model None = Inr d \<and> searches d t (p2_queries answers t)))"
proof -
  have "\<forall>q\<in>set (rp_subquestions (ps_plan s)). target_priority s q = Inr (Fin (priority_value s q))"
    using assms(1) target_priority_Fin [of s] by (auto simp: ready_state_def named_question_def)
  then obtain t where t: "choose_target s = Inr t" "first_best (priority_value s) (rp_subquestions (ps_plan s)) t"
    using choose_target_first_best [of s "priority_value s"] assms(1) by (auto simp: ready_state_def)
  have n: "named_question t" using first_best_in [OF t(2)] assms(1) by (simp add: ready_state_def)
  have b: "\<not> blank ''P2_INCREMENTAL_REPLAN''" by code_simp
  have "\<exists>d. p2_next s model None = Inr d \<and> searches d t (p2_queries answers t)" if m: "model t = Inr answers" for answers
  proof -
    note p = p2_queries_ok [OF n, of answers]
    obtain cs where c: "candidate_tuple t (p2_queries answers t) = Inr cs" "map qc_query cs = p2_queries answers t"
      "\<forall>c\<in>set cs. mk_candidate c = Inr c \<and> qc_subquestion_id c = sq_id t \<and>
        qc_information_need_id c \<in> in_need_id ` set (sq_information_needs t) \<and>
        qc_priority_hint c = sq_importance t" using candidate_tuple_ok [OF n p [THEN conjunct2]] by blast
    have ne: "cs \<noteq> []" using c(2) p by auto
    show ?thesis using search_for_ok [OF n c(2) p [THEN conjunct1] b c(3)] m c(1) ne t(1) assms(2)
      by (auto simp: p2_next_def generate_queries_def p2_queries_def Let_def)
  qed
  then show ?thesis using t(2) by blast
qed

section \<open>What the adaptive planners decide\<close>


definition demo_search_state :: planner_state where
  "demo_search_state = demo_planner_state\<lparr>ps_budget_snapshot := demo_snapshot\<lparr>bs_exhausted := {}\<rparr>,
     ps_recent_marginal_gains := []\<rparr>"

lemma demo_search_ready: "ready_state demo_search_state"
  using ledger_reach_wf [OF demo_reach]
  by (simp add: ready_state_def demo_search_state_def demo_planner_state_def demo_plan_def planned_ids_def
      Ledger.demo_question_def named_question_def blank_def strip_ws_def demo_ledger_def)

lemma demo_search_undecided: "evaluate_stop demo_search_state (demo_snapshot\<lparr>bs_exhausted := {}\<rparr>) [] = Inr None"
proof -
  have wf: "wf_ledger demo_ledger" using ledger_reach_wf [OF demo_reach] by (simp add: planned_ids_def demo_plan_def Ledger.demo_question_def)
  obtain c where c: "weighted_coverage demo_ledger = Inr c" "unit c"
    using weighted_coverage_unit [OF wf] by (auto simp: demo_ledger_def demo_plan_def Ledger.demo_question_def)
  have "\<not> sufficient demo_ledger"
    by (simp add: sufficient_def question_ready_def demo_ledger_def demo_plan_def entry_of_def get_entry_def
        empty_entry_def Ledger.demo_question_def demo_requirements_def)
  then have "stop_spec demo_search_state (demo_snapshot\<lparr>bs_exhausted := {}\<rparr>) [] = None"
    by (simp add: stop_spec_None demo_search_state_def demo_planner_state_def low_gain_rounds_def)
  then show ?thesis
    using stop_spec_eq [of demo_search_state c "[]" "demo_snapshot\<lparr>bs_exhausted := {}\<rparr>"] wf c
    by (simp add: demo_search_state_def demo_planner_state_def demo_ledger_def demo_plan_def Ledger.demo_question_def
        blank_def strip_ws_def)
qed


end
