(* ===== verification/Plan_Snapshot.thy ===== *)
theory Plan_Snapshot
  imports Json
begin

text \<open>
  How the plan validator takes in a candidate
  (\<^verbatim>\<open>src/src/deepresearch/planning/validation.py\<close>): the scan of a JSON text for its nesting depth,
  and the bounded snapshot of a value, a loop over an explicit stack.  The result: the scan
  measures the depth of the value exactly, and the snapshot exists exactly for the finite plain
  values within the bounds.
\<close>

section \<open>The depth scan of a JSON text\<close>

definition max_json_depth :: nat where "max_json_depth = 64"
definition max_json_nodes :: nat where "max_json_nodes = 20000"
definition max_json_string_chars :: nat where "max_json_string_chars = 250000"

definition depth_limit :: exc where
  "depth_limit = ValueError ''candidate exceeds JSON depth limit''"

text \<open>The state of \<^verbatim>\<open>_check_json_depth\<close>: \<open>depth\<close>, \<open>in_string\<close>, \<open>escaped\<close>.\<close>

fun scan_depth :: "int \<Rightarrow> bool \<Rightarrow> bool \<Rightarrow> string \<Rightarrow> exc + unit" where
  "scan_depth d in_string escaped [] = Inr ()"
| "scan_depth d in_string escaped (c # cs) =
     (if in_string then
        if escaped then scan_depth d True False cs
        else if c = CHR 0x5C then scan_depth d True True cs
        else if c = CHR 0x22 then scan_depth d False False cs
        else scan_depth d True False cs
      else if c \<in> {CHR '']'', CHR ''}''} then scan_depth (d - 1) False escaped cs
      else if c \<notin> {CHR '' '', CHR 0x09, CHR 0x0D, CHR 0x0A, CHR '','', CHR '':''} then
        if int max_json_depth < d then Inl depth_limit
        else if c = CHR 0x22 then scan_depth d True escaped cs
        else if c \<in> {CHR ''['', CHR ''{''} then scan_depth (d + 1) False escaped cs
        else scan_depth d False escaped cs
      else scan_depth d False escaped cs)"

definition check_json_depth :: "string \<Rightarrow> exc + unit" where
  "check_json_depth value = scan_depth 0 False False value"

section \<open>The snapshot of a value\<close>

text \<open>
  Python values as the validator meets them: scalars, references to containers, and values of any
  other type.  A container is a mapping, as its items in order, or a sequence; containers may be
  shared or contain themselves.  Iterating a container raises nothing.
\<close>

datatype pyobj =
    ONone | OBool bool | OInt int | OFloat pyfloat | OStr string | ORef nat | OOther

datatype container = CMap "(pyobj \<times> pyobj) list" | CSeq "pyobj list"

type_synonym heap = "nat \<Rightarrow> container"

text \<open>
  An open container on the stack: its identity, what its iterator still yields, its depth and
  what was copied so far; for a mapping also the key its child will get.  The code attaches a
  copy to its parent when it is opened and fills it later; here it is attached when it is
  complete.  The parent is not touched in between.
\<close>

datatype frame =
    MapFrame nat "(pyobj \<times> pyobj) list" nat "(string \<times> json) list" string
  | SeqFrame nat "pyobj list" nat "json list"

fun attach_snapshot :: "json \<Rightarrow> frame \<Rightarrow> frame" where
  "attach_snapshot s (MapFrame r rest d acc k) = MapFrame r rest d (acc @ [(k, s)]) k"
| "attach_snapshot s (SeqFrame r rest d acc) = SeqFrame r rest d (acc @ [s])"

fun frame_rest :: "frame \<Rightarrow> nat" where
  "frame_rest (MapFrame r rest d acc k) = length rest"
| "frame_rest (SeqFrame r rest d acc) = length rest"

definition frames_size :: "frame list \<Rightarrow> nat" where
  "frames_size fs = sum_list (map (\<lambda>f. Suc (frame_rest f)) fs)"

lemma frames_size_simps [simp]:
  "frames_size [] = 0" "frames_size (f # fs) = Suc (frame_rest f) + frames_size fs"
  "frame_rest (attach_snapshot s f) = frame_rest f"
  by (simp_all add: frames_size_def) (cases f; simp)

fun scalar_of :: "pyobj \<Rightarrow> json option" where
  "scalar_of ONone = Some JNull"
| "scalar_of (OBool b) = Some (JBool b)"
| "scalar_of (OInt i) = Some (JInt i)"
| "scalar_of (OFloat x) = (if isfinite x then Some (JFloat x) else None)"
| "scalar_of (OStr s) = Some (JStr s)"
| "scalar_of _ = None"

fun string_length :: "pyobj \<Rightarrow> nat" where
  "string_length (OStr s) = length s"
| "string_length _ = 0"

text \<open>
  The loop; the first argument is the value on top of the stack, if one is.  \<open>Inl\<close> is the depth
  error, \<open>Inr None\<close> the answer \<open>(False, None)\<close>.
\<close>

function (sequential) snap_loop ::
    "heap \<Rightarrow> (pyobj \<times> nat) option \<Rightarrow> frame list \<Rightarrow> nat set \<Rightarrow> nat \<Rightarrow> nat \<Rightarrow> exc + json option" where
  "snap_loop h (Some (v, depth)) fs active nodes chars =
     (if max_json_depth < depth then Inl depth_limit
      else if max_json_nodes < Suc nodes then Inr None
      else case v of
        ORef r \<Rightarrow>
          if r \<in> active then Inr None
          else (case h r of
            CMap items \<Rightarrow> snap_loop h None (MapFrame r items depth [] [] # fs) (insert r active) (Suc nodes) chars
          | CSeq items \<Rightarrow> snap_loop h None (SeqFrame r items depth [] # fs) (insert r active) (Suc nodes) chars)
      | _ \<Rightarrow>
          if max_json_string_chars < chars + string_length v then Inr None
          else (case scalar_of v of
            None \<Rightarrow> Inr None
          | Some s \<Rightarrow>
              (case fs of
                 [] \<Rightarrow> Inr (Some s)
               | f # fs' \<Rightarrow> snap_loop h None (attach_snapshot s f # fs') active (Suc nodes) (chars + string_length v))))"
| "snap_loop h None [] active nodes chars = Inr None"
| "snap_loop h None (MapFrame r [] d acc k # fs) active nodes chars =
     (case fs of
        [] \<Rightarrow> Inr (Some (JDict acc))
      | f # fs' \<Rightarrow> snap_loop h None (attach_snapshot (JDict acc) f # fs') (active - {r}) nodes chars)"
| "snap_loop h None (SeqFrame r [] d acc # fs) active nodes chars =
     (case fs of
        [] \<Rightarrow> Inr (Some (JList acc))
      | f # fs' \<Rightarrow> snap_loop h None (attach_snapshot (JList acc) f # fs') (active - {r}) nodes chars)"
| "snap_loop h None (MapFrame r ((key, v) # rest) d acc k # fs) active nodes chars =
     (case key of
        OStr s \<Rightarrow>
          if max_json_string_chars < chars + length s then Inr None
          else if s \<in> set (map fst acc) then Inr None
          else snap_loop h (Some (v, Suc d)) (MapFrame r rest d acc s # fs) active nodes (chars + length s)
      | _ \<Rightarrow> Inr None)"
| "snap_loop h None (SeqFrame r (v # rest) d acc # fs) active nodes chars =
     snap_loop h (Some (v, Suc d)) (SeqFrame r rest d acc # fs) active nodes chars"
  by pat_completeness auto
termination
  by (relation "measures [\<lambda>(h, cur, fs, a, nodes, c). Suc max_json_nodes - nodes, \<lambda>(h, cur, fs, a, n, c). frames_size fs]") auto

definition bounded_json_snapshot :: "heap \<Rightarrow> pyobj \<Rightarrow> exc + json option" where
  "bounded_json_snapshot h v = snap_loop h (Some (v, 0)) [] {} 0 0"

section \<open>What they should compute\<close>

text \<open>The JSON value a Python value stands for, its depth, number of values and characters.\<close>

inductive reads :: "heap \<Rightarrow> pyobj \<Rightarrow> json \<Rightarrow> bool"
  and reads_seq :: "heap \<Rightarrow> pyobj list \<Rightarrow> json list \<Rightarrow> bool"
  and reads_map :: "heap \<Rightarrow> (pyobj \<times> pyobj) list \<Rightarrow> (string \<times> json) list \<Rightarrow> bool"
  for h :: heap where
  rd_scalar: "scalar_of v = Some s \<Longrightarrow> reads h v s"
| rd_seq: "h r = CSeq items \<Longrightarrow> reads_seq h items vs \<Longrightarrow> reads h (ORef r) (JList vs)"
| rd_map: "h r = CMap items \<Longrightarrow> reads_map h items kvs \<Longrightarrow> distinct (map fst kvs) \<Longrightarrow> reads h (ORef r) (JDict kvs)"
| rd_nil: "reads_seq h [] []"
| rd_cons: "reads h v s \<Longrightarrow> reads_seq h vs ss \<Longrightarrow> reads_seq h (v # vs) (s # ss)"
| rd_mnil: "reads_map h [] []"
| rd_mcons: "reads h v s \<Longrightarrow> reads_map h kvs kss \<Longrightarrow> reads_map h ((OStr k, v) # kvs) ((k, s) # kss)"

fun json_depth :: "json \<Rightarrow> nat" where
  "json_depth (JList vs) = foldr (\<lambda>v n. max (Suc (json_depth v)) n) vs 0"
| "json_depth (JDict kvs) = foldr (\<lambda>(k, v) n. max (Suc (json_depth v)) n) kvs 0"
| "json_depth _ = 0"

fun json_nodes :: "json \<Rightarrow> nat" where
  "json_nodes (JList vs) = Suc (sum_list (map json_nodes vs))"
| "json_nodes (JDict kvs) = Suc (sum_list (map (\<lambda>(k, v). json_nodes v) kvs))"
| "json_nodes _ = 1"

fun json_chars :: "json \<Rightarrow> nat" where
  "json_chars (JStr s) = length s"
| "json_chars (JList vs) = sum_list (map json_chars vs)"
| "json_chars (JDict kvs) = sum_list (map (\<lambda>(k, v). length k + json_chars v) kvs)"
| "json_chars _ = 0"

definition within_bounds :: "json \<Rightarrow> bool" where
  "within_bounds s \<longleftrightarrow> json_depth s \<le> max_json_depth \<and> json_nodes s \<le> max_json_nodes \<and>
     json_chars s \<le> max_json_string_chars"

section \<open>The loop computes them\<close>

definition deliver :: "heap \<Rightarrow> json \<Rightarrow> frame list \<Rightarrow> nat set \<Rightarrow> nat \<Rightarrow> nat \<Rightarrow> exc + json option" where
  "deliver h s fs active nodes chars =
     (case fs of [] \<Rightarrow> Inr (Some s) | f # fs' \<Rightarrow> snap_loop h None (attach_snapshot s f # fs') active nodes chars)"

lemma json_nodes_pos [simp]: "0 < json_nodes s"
  by (cases s) simp_all

lemma depth_list: "d + foldr (\<lambda>v n. max (Suc (f v)) n) vs 0 \<le> m \<longleftrightarrow> d \<le> m \<and> (\<forall>v\<in>set vs. Suc d + f v \<le> m)" for d m :: nat
  by (induction vs) auto

lemma nodes_member: "v \<in> set vs \<Longrightarrow> f v \<le> sum_list (map f vs)" for f :: "'a \<Rightarrow> nat"
  by (simp add: member_le_sum_list)

inductive_simps reads_simps: "reads h (ORef r) s"
inductive_simps reads_seq_simps: "reads_seq h [] ss" "reads_seq h (v # vs) ss"
inductive_simps reads_map_simps: "reads_map h [] kss" "reads_map h (kv # kvs) kss"

lemma reads_scalar: "scalar_of v = Some s \<Longrightarrow> reads h v t \<longleftrightarrow> t = s"
  by (cases v) (auto simp: reads.simps [of h _ t] split: if_splits)

lemma reads_det:
  "reads h v s \<Longrightarrow> reads h v t \<Longrightarrow> s = t"
  "reads_seq h vs ss \<Longrightarrow> reads_seq h vs ts \<Longrightarrow> ss = ts"
  "reads_map h kvs kss \<Longrightarrow> reads_map h kvs kts \<Longrightarrow> kss = kts"
proof (induction arbitrary: t and ts and kts rule: reads_reads_seq_reads_map.inducts)
  case (rd_scalar v s) then show ?case by (simp add: reads_scalar)
next
  case (rd_seq r items vs)
  from rd_seq.prems rd_seq(1,2) obtain ws where "t = JList ws" "reads_seq h items ws" by (auto simp: reads_simps)
  with rd_seq(3) show ?case by simp
next
  case (rd_map r items kvs)
  from rd_map.prems rd_map(1,2,4) obtain ws where "t = JDict ws" "reads_map h items ws" by (auto simp: reads_simps)
  with rd_map(3) show ?case by simp
next
  case rd_nil then show ?case by (simp add: reads_seq_simps)
next
  case (rd_cons v s vs ss)
  from rd_cons.prems obtain t us where "ts = t # us" "reads h v t" "reads_seq h vs us" by (auto simp: reads_seq_simps)
  with rd_cons(2,4) show ?case by simp
next
  case rd_mnil then show ?case by (simp add: reads_map_simps)
next
  case (rd_mcons v s kvs kss k)
  from rd_mcons.prems obtain t us where "kts = (k, t) # us" "reads h v t" "reads_map h kvs us" by (auto simp: reads_map_simps)
  with rd_mcons(2,4) show ?case by simp
qed

text \<open>The containers being read are larger than what is read inside them, so none is met again.\<close>

definition outside :: "heap \<Rightarrow> nat set \<Rightarrow> json \<Rightarrow> bool" where
  "outside h active s \<longleftrightarrow> (\<forall>r\<in>active. \<forall>t. reads h (ORef r) t \<longrightarrow> json_nodes s < json_nodes t)"

lemma outside_child:
  assumes "reads h (ORef r) t" "outside h active t" "json_nodes s < json_nodes t"
  shows "outside h (insert r active) s"
proof -
  have "json_nodes s < json_nodes u" if "reads h (ORef r) u" for u using reads_det(1) [OF assms(1) that] assms(3) by simp
  with assms(2,3) show ?thesis unfolding outside_def by (metis insert_iff less_trans)
qed

lemma outside_self: "reads h (ORef r) t \<Longrightarrow> outside h active t \<Longrightarrow> r \<notin> active"
  by (auto simp: outside_def)

lemma scalar_values: "scalar_of v = Some s \<Longrightarrow>
    json_depth s = 0 \<and> json_nodes s = 1 \<and> json_chars s = string_length v \<and> (\<nexists>r. v = ORef r)"
  by (cases v) (auto split: if_splits)

lemma snap_scalar:
  assumes "scalar_of v = Some s" "depth \<le> max_json_depth" "Suc nodes \<le> max_json_nodes"
    "chars + string_length v \<le> max_json_string_chars"
  shows "snap_loop h (Some (v, depth)) fs active nodes chars = deliver h s fs active (Suc nodes) (chars + string_length v)"
  using assms by (cases v) (auto simp: deliver_def split: if_splits list.split)

lemma snap_reads:
  "reads h v s \<Longrightarrow> depth + json_depth s \<le> max_json_depth \<Longrightarrow> nodes + json_nodes s \<le> max_json_nodes \<Longrightarrow>
     chars + json_chars s \<le> max_json_string_chars \<Longrightarrow> outside h active s \<Longrightarrow>
   snap_loop h (Some (v, depth)) fs active nodes chars =
     deliver h s fs active (nodes + json_nodes s) (chars + json_chars s)"
  "reads_seq h vs ss \<Longrightarrow> \<forall>s\<in>set ss. Suc depth + json_depth s \<le> max_json_depth \<Longrightarrow>
     nodes + sum_list (map json_nodes ss) \<le> max_json_nodes \<Longrightarrow>
     chars + sum_list (map json_chars ss) \<le> max_json_string_chars \<Longrightarrow> \<forall>s\<in>set ss. outside h active s \<Longrightarrow>
   snap_loop h None (SeqFrame r vs depth acc # fs) active nodes chars =
     deliver h (JList (acc @ ss)) fs (active - {r}) (nodes + sum_list (map json_nodes ss)) (chars + sum_list (map json_chars ss))"
  "reads_map h kvs kss \<Longrightarrow> \<forall>s\<in>set (map snd kss). Suc depth + json_depth s \<le> max_json_depth \<Longrightarrow>
     nodes + sum_list (map (\<lambda>(k, v). json_nodes v) kss) \<le> max_json_nodes \<Longrightarrow>
     chars + sum_list (map (\<lambda>(k, v). length k + json_chars v) kss) \<le> max_json_string_chars \<Longrightarrow>
     \<forall>s\<in>set (map snd kss). outside h active s \<Longrightarrow> distinct (map fst (bcc @ kss)) \<Longrightarrow>
   snap_loop h None (MapFrame r kvs depth bcc k # fs) active nodes chars =
     deliver h (JDict (bcc @ kss)) fs (active - {r}) (nodes + sum_list (map (\<lambda>(k, v). json_nodes v) kss))
       (chars + sum_list (map (\<lambda>(k, v). length k + json_chars v) kss))"
proof (induction arbitrary: depth fs active nodes chars and depth fs active nodes chars acc r
    and depth fs active nodes chars bcc r k rule: reads_reads_seq_reads_map.inducts)
  case (rd_scalar v s)
  with scalar_values [OF rd_scalar(1)] show ?case by (simp add: snap_scalar del: snap_loop.simps)
next
  case (rd_seq r items vs)
  have rd: "reads h (ORef r) (JList vs)" using rd_seq(1,2) by (rule reads_reads_seq_reads_map.rd_seq)
  have "\<forall>s\<in>set vs. json_nodes s < json_nodes (JList vs)" by (simp add: nodes_member less_Suc_eq_le)
  then have out: "\<forall>s\<in>set vs. outside h (insert r active) s" using outside_child [OF rd rd_seq.prems(4)] by blast
  have ra: "r \<notin> active" by (rule outside_self [OF rd rd_seq.prems(4)])
  from rd_seq.prems(1) have dep: "depth \<le> max_json_depth" "\<forall>s\<in>set vs. Suc depth + json_depth s \<le> max_json_depth"
    by (simp_all add: depth_list)
  note ih = rd_seq(3) [of depth "Suc nodes" chars "insert r active" r "[]" fs, OF dep(2) _ _ out]
  from rd_seq.prems rd_seq(1,2) ih ra dep show ?case by simp
next
  case (rd_map r items kvs)
  have rd: "reads h (ORef r) (JDict kvs)" using rd_map(1,2,4) by (rule reads_reads_seq_reads_map.rd_map)
  have "\<forall>s\<in>set (map snd kvs). json_nodes s < json_nodes (JDict kvs)"
    using nodes_member [of _ kvs "\<lambda>(k, v). json_nodes v"] by (force simp: less_Suc_eq_le)
  then have out: "\<forall>s\<in>set (map snd kvs). outside h (insert r active) s" using outside_child [OF rd rd_map.prems(4)] by blast
  have ra: "r \<notin> active" by (rule outside_self [OF rd rd_map.prems(4)])
  from rd_map.prems(1) have dep: "depth \<le> max_json_depth" "\<forall>s\<in>set (map snd kvs). Suc depth + json_depth s \<le> max_json_depth"
    by (auto simp: depth_list case_prod_unfold)
  note ih = rd_map(3) [of depth "Suc nodes" chars "insert r active" "[]" r "[]" fs, OF dep(2) _ _ out]
  from rd_map.prems rd_map(1,2,4) ih ra dep show ?case by simp
next
  case rd_nil then show ?case by (simp add: deliver_def)
next
  case (rd_cons v s vs ss)
  note i1 = rd_cons(2) [of "Suc depth" nodes chars active "SeqFrame r vs depth acc # fs"]
  note i2 = rd_cons(4) [of depth "nodes + json_nodes s" "chars + json_chars s" active r "acc @ [s]" fs]
  from rd_cons.prems i1 i2 show ?case by (simp add: deliver_def add.assoc)
next
  case rd_mnil then show ?case by (simp add: deliver_def)
next
  case (rd_mcons v s kvs kss key)
  note i1 = rd_mcons(2) [of "Suc depth" nodes "chars + length key" active "MapFrame r kvs depth bcc key # fs"]
  note i2 = rd_mcons(4) [of depth "nodes + json_nodes s" "chars + length key + json_chars s" active "bcc @ [(key, s)]" r key fs]
  from rd_mcons.prems i1 i2 show ?case by (simp add: deliver_def add.assoc)
qed

text \<open>Conversely a result means that what was on the stack was readable and within the bounds.\<close>

definition val_sound :: "heap \<Rightarrow> nat \<Rightarrow> bool" where
  "val_sound h nodes \<longleftrightarrow> (\<forall>v depth fs active chars t. snap_loop h (Some (v, depth)) fs active nodes chars = Inr (Some t) \<longrightarrow>
     chars \<le> max_json_string_chars \<longrightarrow>
     (\<exists>s active'. reads h v s \<and> depth + json_depth s \<le> max_json_depth \<and> nodes + json_nodes s \<le> max_json_nodes \<and>
        chars + json_chars s \<le> max_json_string_chars \<and>
        deliver h s fs active' (nodes + json_nodes s) (chars + json_chars s) = Inr (Some t)))"

definition seq_sound :: "heap \<Rightarrow> nat \<Rightarrow> bool" where
  "seq_sound h nodes \<longleftrightarrow> (\<forall>r vs depth acc fs active chars t.
     snap_loop h None (SeqFrame r vs depth acc # fs) active nodes chars = Inr (Some t) \<longrightarrow>
     chars \<le> max_json_string_chars \<longrightarrow>
     (\<exists>ss active'. reads_seq h vs ss \<and> (\<forall>s\<in>set ss. Suc depth + json_depth s \<le> max_json_depth) \<and>
        nodes + sum_list (map json_nodes ss) \<le> max_json_nodes \<and>
        chars + sum_list (map json_chars ss) \<le> max_json_string_chars \<and>
        deliver h (JList (acc @ ss)) fs active' (nodes + sum_list (map json_nodes ss))
          (chars + sum_list (map json_chars ss)) = Inr (Some t)))"

definition map_sound :: "heap \<Rightarrow> nat \<Rightarrow> bool" where
  "map_sound h nodes \<longleftrightarrow> (\<forall>r kvs depth acc k fs active chars t.
     snap_loop h None (MapFrame r kvs depth acc k # fs) active nodes chars = Inr (Some t) \<longrightarrow>
     chars \<le> max_json_string_chars \<longrightarrow> distinct (map fst acc) \<longrightarrow>
     (\<exists>kss active'. reads_map h kvs kss \<and> distinct (map fst (acc @ kss)) \<and>
        (\<forall>s\<in>set (map snd kss). Suc depth + json_depth s \<le> max_json_depth) \<and>
        nodes + sum_list (map (\<lambda>(k, v). json_nodes v) kss) \<le> max_json_nodes \<and>
        chars + sum_list (map (\<lambda>(k, v). length k + json_chars v) kss) \<le> max_json_string_chars \<and>
        deliver h (JDict (acc @ kss)) fs active' (nodes + sum_list (map (\<lambda>(k, v). json_nodes v) kss))
          (chars + sum_list (map (\<lambda>(k, v). length k + json_chars v) kss)) = Inr (Some t)))"

lemma val_sound_step:
  assumes "nodes < max_json_nodes \<Longrightarrow> seq_sound h (Suc nodes) \<and> map_sound h (Suc nodes)"
  shows "val_sound h nodes"
  unfolding val_sound_def
proof (intro allI impI)
  fix v depth fs active chars t
  assume run: "snap_loop h (Some (v, depth)) fs active nodes chars = Inr (Some t)"
    and c: "chars \<le> max_json_string_chars"
  from run have n: "depth \<le> max_json_depth" "Suc nodes \<le> max_json_nodes" by (auto split: if_splits)
  with assms have ss: "seq_sound h (Suc nodes)" and ms: "map_sound h (Suc nodes)" by simp_all
  show "\<exists>s active'. reads h v s \<and> depth + json_depth s \<le> max_json_depth \<and> nodes + json_nodes s \<le> max_json_nodes \<and>
        chars + json_chars s \<le> max_json_string_chars \<and>
        deliver h s fs active' (nodes + json_nodes s) (chars + json_chars s) = Inr (Some t)"
  proof (cases "\<exists>r. v = ORef r")
    case False
    with run n have sl: "chars + string_length v \<le> max_json_string_chars" by (cases v) (auto split: if_splits)
    from False run n sl obtain s where s: "scalar_of v = Some s" by (cases v) (auto split: if_splits)
    from run snap_scalar [OF s n sl] scalar_values [OF s] sl n rd_scalar [OF s] show ?thesis
      by (intro exI [of _ s] exI [of _ active]) simp
  next
    case True
    then obtain r where v: "v = ORef r" by blast
    with run n have ra: "r \<notin> active" by (auto split: if_splits)
    show ?thesis
    proof (cases "h r")
      case (CMap items)
      with run v n ra have "snap_loop h None (MapFrame r items depth [] [] # fs) (insert r active) (Suc nodes) chars = Inr (Some t)"
        by simp
      with ms c obtain kss act where k: "reads_map h items kss" "distinct (map fst kss)"
        "\<forall>s\<in>set (map snd kss). Suc depth + json_depth s \<le> max_json_depth"
        "Suc nodes + sum_list (map (\<lambda>(k, v). json_nodes v) kss) \<le> max_json_nodes"
        "chars + sum_list (map (\<lambda>(k, v). length k + json_chars v) kss) \<le> max_json_string_chars"
        "deliver h (JDict kss) fs act (Suc nodes + sum_list (map (\<lambda>(k, v). json_nodes v) kss))
          (chars + sum_list (map (\<lambda>(k, v). length k + json_chars v) kss)) = Inr (Some t)"
        unfolding map_sound_def by (metis append_Nil distinct.simps(1) list.simps(8))
      then show ?thesis using v rd_map [OF CMap k(1,2)] n
        by (intro exI [of _ "JDict kss"] exI [of _ act]) (auto simp: depth_list case_prod_unfold)
    next
      case (CSeq items)
      with run v n ra have "snap_loop h None (SeqFrame r items depth [] # fs) (insert r active) (Suc nodes) chars = Inr (Some t)"
        by simp
      with ss c obtain vs act where k: "reads_seq h items vs"
        "\<forall>s\<in>set vs. Suc depth + json_depth s \<le> max_json_depth"
        "Suc nodes + sum_list (map json_nodes vs) \<le> max_json_nodes"
        "chars + sum_list (map json_chars vs) \<le> max_json_string_chars"
        "deliver h (JList vs) fs act (Suc nodes + sum_list (map json_nodes vs))
          (chars + sum_list (map json_chars vs)) = Inr (Some t)"
        unfolding seq_sound_def by (metis append_Nil)
      then show ?thesis using v rd_seq [OF CSeq k(1)] n
        by (intro exI [of _ "JList vs"] exI [of _ act]) (auto simp: depth_list)
    qed
  qed
qed

lemma seq_sound_step:
  assumes "val_sound h nodes" "\<And>m. nodes < m \<Longrightarrow> m \<le> max_json_nodes \<Longrightarrow> seq_sound h m" "nodes \<le> max_json_nodes"
  shows "seq_sound h nodes"
  unfolding seq_sound_def
proof (intro allI impI)
  fix r vs depth acc fs active chars t
  assume run: "snap_loop h None (SeqFrame r vs depth acc # fs) active nodes chars = Inr (Some t)"
    and c: "chars \<le> max_json_string_chars"
  show "\<exists>ss active'. reads_seq h vs ss \<and> (\<forall>s\<in>set ss. Suc depth + json_depth s \<le> max_json_depth) \<and>
        nodes + sum_list (map json_nodes ss) \<le> max_json_nodes \<and>
        chars + sum_list (map json_chars ss) \<le> max_json_string_chars \<and>
        deliver h (JList (acc @ ss)) fs active' (nodes + sum_list (map json_nodes ss))
          (chars + sum_list (map json_chars ss)) = Inr (Some t)"
  proof (cases vs)
    case Nil
    with run c assms(3) rd_nil show ?thesis
      by (intro exI [of _ "[]"] exI [of _ "active - {r}"]) (simp add: deliver_def)
  next
    case (Cons v ws)
    with run have "snap_loop h (Some (v, Suc depth)) (SeqFrame r ws depth acc # fs) active nodes chars = Inr (Some t)" by simp
    with assms(1) c obtain s act where s: "reads h v s" "Suc depth + json_depth s \<le> max_json_depth"
      "nodes + json_nodes s \<le> max_json_nodes" "chars + json_chars s \<le> max_json_string_chars"
      "snap_loop h None (SeqFrame r ws depth (acc @ [s]) # fs) act (nodes + json_nodes s) (chars + json_chars s) = Inr (Some t)"
      unfolding val_sound_def deliver_def by (metis attach_snapshot.simps(2) list.simps(5))
    have "seq_sound h (nodes + json_nodes s)" using assms(2) s(3) by simp
    with s(4,5) obtain ss act' where ss: "reads_seq h ws ss" "\<forall>s\<in>set ss. Suc depth + json_depth s \<le> max_json_depth"
      "nodes + json_nodes s + sum_list (map json_nodes ss) \<le> max_json_nodes"
      "chars + json_chars s + sum_list (map json_chars ss) \<le> max_json_string_chars"
      "deliver h (JList ((acc @ [s]) @ ss)) fs act' (nodes + json_nodes s + sum_list (map json_nodes ss))
          (chars + json_chars s + sum_list (map json_chars ss)) = Inr (Some t)"
      unfolding seq_sound_def by blast
    show ?thesis using Cons ss s(2) rd_cons [OF s(1) ss(1)]
      by (intro exI [of _ "s # ss"] exI [of _ act']) (simp add: add.assoc)
  qed
qed

lemma map_sound_step:
  assumes "val_sound h nodes" "\<And>m. nodes < m \<Longrightarrow> m \<le> max_json_nodes \<Longrightarrow> map_sound h m" "nodes \<le> max_json_nodes"
  shows "map_sound h nodes"
  unfolding map_sound_def
proof (intro allI impI)
  fix r kvs depth acc k fs active chars t
  assume run: "snap_loop h None (MapFrame r kvs depth acc k # fs) active nodes chars = Inr (Some t)"
    and c: "chars \<le> max_json_string_chars" and d: "distinct (map fst acc)"
  show "\<exists>kss active'. reads_map h kvs kss \<and> distinct (map fst (acc @ kss)) \<and>
        (\<forall>s\<in>set (map snd kss). Suc depth + json_depth s \<le> max_json_depth) \<and>
        nodes + sum_list (map (\<lambda>(k, v). json_nodes v) kss) \<le> max_json_nodes \<and>
        chars + sum_list (map (\<lambda>(k, v). length k + json_chars v) kss) \<le> max_json_string_chars \<and>
        deliver h (JDict (acc @ kss)) fs active' (nodes + sum_list (map (\<lambda>(k, v). json_nodes v) kss))
          (chars + sum_list (map (\<lambda>(k, v). length k + json_chars v) kss)) = Inr (Some t)"
  proof (cases kvs)
    case Nil
    with run c d assms(3) rd_mnil show ?thesis
      by (intro exI [of _ "[]"] exI [of _ "active - {r}"]) (simp add: deliver_def)
  next
    case (Cons kv ws)
    with run obtain key v where kv: "kv = (OStr key, v)" by (cases kv; cases "fst kv") auto
    with run Cons have new: "chars + length key \<le> max_json_string_chars" "key \<notin> set (map fst acc)"
      "snap_loop h (Some (v, Suc depth)) (MapFrame r ws depth acc key # fs) active nodes (chars + length key) = Inr (Some t)"
      by (auto split: if_splits)
    with assms(1) obtain s act where s: "reads h v s" "Suc depth + json_depth s \<le> max_json_depth"
      "nodes + json_nodes s \<le> max_json_nodes" "chars + length key + json_chars s \<le> max_json_string_chars"
      "snap_loop h None (MapFrame r ws depth (acc @ [(key, s)]) key # fs) act (nodes + json_nodes s)
         (chars + length key + json_chars s) = Inr (Some t)"
      unfolding val_sound_def deliver_def by (metis attach_snapshot.simps(1) list.simps(5))
    have "map_sound h (nodes + json_nodes s)" "distinct (map fst (acc @ [(key, s)]))" using assms(2) s(3) d new(2) by simp_all
    with s(4,5) obtain ss act' where ss: "reads_map h ws ss" "distinct (map fst ((acc @ [(key, s)]) @ ss))"
      "\<forall>s\<in>set (map snd ss). Suc depth + json_depth s \<le> max_json_depth"
      "nodes + json_nodes s + sum_list (map (\<lambda>(k, v). json_nodes v) ss) \<le> max_json_nodes"
      "chars + length key + json_chars s + sum_list (map (\<lambda>(k, v). length k + json_chars v) ss) \<le> max_json_string_chars"
      "deliver h (JDict ((acc @ [(key, s)]) @ ss)) fs act' (nodes + json_nodes s + sum_list (map (\<lambda>(k, v). json_nodes v) ss))
          (chars + length key + json_chars s + sum_list (map (\<lambda>(k, v). length k + json_chars v) ss)) = Inr (Some t)"
      unfolding map_sound_def by blast
    show ?thesis using Cons kv ss s(2) rd_mcons [OF s(1) ss(1)]
      by (intro exI [of _ "(key, s) # ss"] exI [of _ act']) (simp add: add.assoc)
  qed
qed

lemma snap_sound: "nodes \<le> max_json_nodes \<Longrightarrow> val_sound h nodes \<and> seq_sound h nodes \<and> map_sound h nodes"
proof (induction "max_json_nodes - nodes" arbitrary: nodes rule: less_induct)
  case less
  then have ih: "val_sound h m" "seq_sound h m" "map_sound h m" if "nodes < m" "m \<le> max_json_nodes" for m
    using that diff_less_mono2 [of nodes m max_json_nodes] by simp_all
  have "val_sound h nodes" by (rule val_sound_step) (simp add: ih)
  with ih less.prems show ?case by (blast intro: seq_sound_step map_sound_step)
qed

lemma snapshot_spec:
  "bounded_json_snapshot h v = Inr (Some s) \<longleftrightarrow> reads h v s \<and> within_bounds s"
proof
  assume "bounded_json_snapshot h v = Inr (Some s)"
  then have run: "snap_loop h (Some (v, 0)) [] {} 0 0 = Inr (Some s)" by (simp add: bounded_json_snapshot_def)
  have "val_sound h 0" using snap_sound [of 0 h] by simp
  from this [unfolded val_sound_def, rule_format, OF run] obtain t act where "reads h v t" "json_depth t \<le> max_json_depth"
    "json_nodes t \<le> max_json_nodes" "json_chars t \<le> max_json_string_chars"
    "deliver h t [] act (json_nodes t) (json_chars t) = Inr (Some s)" by (auto simp del: snap_loop.simps)
  then show "reads h v s \<and> within_bounds s" by (simp add: deliver_def within_bounds_def)
next
  assume "reads h v s \<and> within_bounds s"
  with snap_reads(1) [of h v s 0 0 0 "{}" "[]"] show "bounded_json_snapshot h v = Inr (Some s)"
    by (simp add: bounded_json_snapshot_def within_bounds_def outside_def deliver_def)
qed

text \<open>The snapshot of a candidate exists exactly for the values that are finite JSON values within the
bounds on depth, number of values and characters, and is the value itself: a container that
contains itself, a key that is no string, a repeated key, a float that is not finite or a value
of another type is refused, shared containers are copied, and the loop always ends.\<close>

theorem snapshot_exact:
  "bounded_json_snapshot h v = Inr (Some s) \<longleftrightarrow> reads h v s \<and> within_bounds s"
  by (rule snapshot_spec)

section \<open>The scan measures the depth\<close>

text \<open>The texts of a JSON value.  What a string or number says is left open: only the structure
matters to the scan.\<close>

definition json_space :: "string \<Rightarrow> bool" where
  "json_space w \<longleftrightarrow> set w \<subseteq> {CHR '' '', CHR 0x09, CHR 0x0D, CHR 0x0A}"

definition json_token :: "string \<Rightarrow> bool" where
  "json_token t \<longleftrightarrow> t \<noteq> [] \<and> (\<forall>c\<in>set t. c \<notin> {CHR '' '', CHR 0x09, CHR 0x0D, CHR 0x0A, CHR '','', CHR '':'',
     CHR '']'', CHR ''}'', CHR ''['', CHR ''{'', CHR 0x22})"

inductive string_body :: "string \<Rightarrow> bool" where
  sb_nil: "string_body []"
| sb_plain: "c \<notin> {CHR 0x22, CHR 0x5C} \<Longrightarrow> string_body b \<Longrightarrow> string_body (c # b)"
| sb_escape: "string_body b \<Longrightarrow> string_body (CHR 0x5C # c # b)"

fun json_atom :: "json \<Rightarrow> bool" where
  "json_atom JNull = True" | "json_atom (JBool _) = True" | "json_atom (JInt _) = True"
| "json_atom (JFloat _) = True" | "json_atom _ = False"

inductive renders :: "json \<Rightarrow> string \<Rightarrow> bool"
  and renders_items :: "json list \<Rightarrow> string \<Rightarrow> bool"
  and renders_members :: "(string \<times> json) list \<Rightarrow> string \<Rightarrow> bool" where
  rn_atom: "json_atom v \<Longrightarrow> json_token t \<Longrightarrow> renders v t"
| rn_string: "string_body b \<Longrightarrow> renders (JStr s) (CHR 0x22 # b @ [CHR 0x22])"
| rn_empty_list: "json_space w \<Longrightarrow> renders (JList []) (CHR ''['' # w @ [CHR '']''])"
| rn_list: "renders_items vs t \<Longrightarrow> renders (JList vs) (CHR ''['' # t @ [CHR '']''])"
| rn_empty_dict: "json_space w \<Longrightarrow> renders (JDict []) (CHR ''{'' # w @ [CHR ''}''])"
| rn_dict: "renders_members kvs t \<Longrightarrow> renders (JDict kvs) (CHR ''{'' # t @ [CHR ''}''])"
| rn_space: "json_space w \<Longrightarrow> renders v t \<Longrightarrow> json_space w' \<Longrightarrow> renders v (w @ t @ w')"
| rn_item: "renders v t \<Longrightarrow> renders_items [v] t"
| rn_items: "renders v t \<Longrightarrow> renders_items vs u \<Longrightarrow> renders_items (v # vs) (t @ CHR '','' # u)"
| rn_member: "renders (JStr k) s \<Longrightarrow> renders v t \<Longrightarrow> renders_members [(k, v)] (s @ CHR '':'' # t)"
| rn_members: "renders (JStr k) s \<Longrightarrow> renders v t \<Longrightarrow> renders_members kvs u \<Longrightarrow>
    renders_members ((k, v) # kvs) (s @ CHR '':'' # t @ CHR '','' # u)"

lemma scan_space: "json_space w \<Longrightarrow> scan_depth d False False (w @ rest) = scan_depth d False False rest"
  by (induction w) (auto simp: json_space_def)

lemma scan_token_rest:
  "\<forall>c\<in>set t. json_token [c] \<Longrightarrow> d \<le> int max_json_depth \<Longrightarrow>
   scan_depth d False False (t @ rest) = scan_depth d False False rest"
  by (induction t) (auto simp: json_token_def)

lemma scan_token:
  assumes "json_token t"
  shows "scan_depth d False False (t @ rest) =
    (if d \<le> int max_json_depth then scan_depth d False False rest else Inl depth_limit)"
proof -
  have "\<forall>c\<in>set t. json_token [c]" using assms by (auto simp: json_token_def)
  with scan_token_rest [of t d rest] show ?thesis using assms by (cases t) (auto simp: json_token_def)
qed

lemma scan_body: "string_body b \<Longrightarrow> scan_depth d True False (b @ CHR 0x22 # rest) = scan_depth d False False rest"
  by (induction b rule: string_body.induct) auto

lemma scan_renders:
  "renders v t \<Longrightarrow> scan_depth d False False (t @ rest) =
     (if d + int (json_depth v) \<le> int max_json_depth then scan_depth d False False rest else Inl depth_limit)"
  "renders_items vs t \<Longrightarrow> vs \<noteq> [] \<and> scan_depth d False False (t @ rest) =
     (if \<forall>v\<in>set vs. d + int (json_depth v) \<le> int max_json_depth then scan_depth d False False rest else Inl depth_limit)"
  "renders_members kvs t \<Longrightarrow> kvs \<noteq> [] \<and> scan_depth d False False (t @ rest) =
     (if \<forall>v\<in>set (map snd kvs). d + int (json_depth v) \<le> int max_json_depth then scan_depth d False False rest else Inl depth_limit)"
proof (induction arbitrary: d rest and d rest and d rest rule: renders_renders_items_renders_members.inducts)
  case (rn_atom v t)
  then have "json_depth v = 0" by (cases v) simp_all
  with rn_atom show ?case by (simp add: scan_token)
next
  case (rn_string b s)
  then show ?case by (simp add: scan_body)
next
  case (rn_empty_list w)
  then show ?case by (simp add: scan_space)
next
  case (rn_list vs t)
  have "(\<forall>v\<in>set vs. d + 1 + int (json_depth v) \<le> int max_json_depth) \<longleftrightarrow>
      d + int (json_depth (JList vs)) \<le> int max_json_depth" if "d \<le> int max_json_depth"
    using depth_list [of 0 json_depth vs "nat (int max_json_depth - d)"] that
    by (simp add: le_nat_iff algebra_simps)
  with rn_list(2) [of "d + 1" "CHR '']'' # rest"] show ?case by (cases vs) auto
next
  case (rn_empty_dict w)
  then show ?case by (simp add: scan_space)
next
  case (rn_dict kvs t)
  have "(\<forall>v\<in>set (map snd kvs). d + 1 + int (json_depth v) \<le> int max_json_depth) \<longleftrightarrow>
      d + int (json_depth (JDict kvs)) \<le> int max_json_depth" if "d \<le> int max_json_depth"
    using depth_list [of 0 "\<lambda>(k, v). json_depth v" kvs "nat (int max_json_depth - d)"] that
    by (simp add: le_nat_iff algebra_simps case_prod_unfold)
  with rn_dict(2) [of "d + 1" "CHR ''}'' # rest"] show ?case by (cases kvs) auto
next
  case (rn_space w v t w')
  then show ?case by (simp add: scan_space)
next
  case (rn_item v t)
  then show ?case by simp
next
  case (rn_items v t vs u)
  then show ?case by simp
next
  case (rn_member k s v t)
  then show ?case by simp
next
  case (rn_members k s v t kvs u)
  then show ?case by simp
qed

text \<open>C19. The scan of a JSON text rejects exactly the texts of values nested deeper than the bound, that is,
those the snapshot of the parsed value would reject: white space, strings with escaped quotes
and brackets inside strings never change the depth it counts.\<close>

theorem depth_scan_exact:
  assumes "renders v t"
  shows "check_json_depth t = (if json_depth v \<le> max_json_depth then Inr () else Inl depth_limit)"
  using scan_renders(1) [OF assms, of 0 "[]"] by (simp add: check_json_depth_def)

theorem depth_scan_exact_witness:
  "check_json_depth (CHR ''['' # (CHR 0x22 # [CHR 0x5C, CHR 0x22, CHR ''['', CHR ''{''] @ [CHR 0x22]) @ [CHR '']'']) = Inr ()"
proof -
  have "string_body [CHR 0x5C, CHR 0x22, CHR ''['', CHR ''{'']"
    by (intro sb_escape sb_plain sb_nil) simp_all
  then have "renders (JList [JStr s]) (CHR ''['' # (CHR 0x22 # [CHR 0x5C, CHR 0x22, CHR ''['', CHR ''{''] @ [CHR 0x22]) @ [CHR '']''])" for s
    by (intro rn_list rn_item rn_string)
  from depth_scan_exact [OF this] show ?thesis by (simp add: max_json_depth_def)
qed

end
