(* ===== verification/Plan_Validation.thy ===== *)
theory Plan_Validation
  imports Plan_Snapshot Domain_Evidence
begin

text \<open>
  The plan validator (\<^verbatim>\<open>src/src/deepresearch/planning/validation.py\<close>): the checks on the raw JSON of
  a candidate, on the validated plan against the request, and on the budget, and how they make up
  the report.  Parsing JSON, schema validation by pydantic, dumping a model, case folding, the date
  format and the sizes of serialized prompts are arguments.
\<close>

section \<open>Codes and raw access\<close>

datatype plan_code =
    MalformedJson | InvalidSchema | DuplicateSubquestionId | DuplicateNeedId | UnknownDependency
  | DependencyCycle | EmptyGoal | OutOfScopeGoal | UnexecutableGoal | BudgetInfeasible

definition code_order :: "plan_code list" where
  "code_order = [MalformedJson, InvalidSchema, DuplicateSubquestionId, DuplicateNeedId, UnknownDependency,
     DependencyCycle, EmptyGoal, OutOfScopeGoal, UnexecutableGoal, BudgetInfeasible]"

definition ordered_codes :: "plan_code set \<Rightarrow> plan_code list" where
  "ordered_codes codes = filter (\<lambda>c. c \<in> codes) code_order"

type_synonym raw = "(string \<times> json) list"

fun raw_mapping :: "json \<Rightarrow> raw option" where
  "raw_mapping (JDict kvs) = Some kvs"
| "raw_mapping _ = None"

fun raw_sequence :: "json \<Rightarrow> json list option" where
  "raw_sequence (JList vs) = Some vs"
| "raw_sequence (JFrozen vs) = Some vs"
| "raw_sequence _ = None"

fun raw_string :: "json \<Rightarrow> string option" where
  "raw_string (JStr s) = Some s"
| "raw_string _ = None"

fun raw_bool :: "json \<Rightarrow> bool" where
  "raw_bool (JBool b) = True"
| "raw_bool _ = False"

definition raw_get :: "raw \<Rightarrow> string \<Rightarrow> json" where
  "raw_get kvs k = (case dget kvs k of None \<Rightarrow> JNull | Some v \<Rightarrow> v)"

definition raw_items :: "json \<Rightarrow> json list" where
  "raw_items v = (case raw_sequence v of None \<Rightarrow> [] | Some vs \<Rightarrow> vs)"

definition duplicates :: "string list \<Rightarrow> bool" where
  "duplicates vs \<longleftrightarrow> length vs \<noteq> card (set vs)"

section \<open>The graph of the raw candidate\<close>

definition raw_subquestions :: "json list \<Rightarrow> raw list" where
  "raw_subquestions vs = filter (\<lambda>m. m \<noteq> []) (List.map_filter raw_mapping vs)"

definition raw_ids :: "raw list \<Rightarrow> string list" where
  "raw_ids qs = List.map_filter (\<lambda>q. raw_string (raw_get q ''id'')) qs"

definition raw_dependencies :: "raw \<Rightarrow> string list" where
  "raw_dependencies q = List.map_filter raw_string (raw_items (raw_get q ''dependencies''))"

definition dependency_rows :: "raw list \<Rightarrow> (string \<times> string list) list" where
  "dependency_rows qs =
     List.map_filter (\<lambda>q. map_option (\<lambda>i. (i, raw_dependencies q)) (raw_string (raw_get q ''id''))) qs"

definition raw_needs :: "raw \<Rightarrow> raw list" where
  "raw_needs q = List.map_filter raw_mapping (raw_items (raw_get q ''information_needs''))"

definition blank_text :: "json \<Rightarrow> bool" where
  "blank_text v = (case raw_string v of None \<Rightarrow> False | Some s \<Rightarrow> blank s)"

definition empty_goal :: "raw \<Rightarrow> raw list \<Rightarrow> bool" where
  "empty_goal r qs \<longleftrightarrow>
     list_ex (\<lambda>q. blank_text (raw_get q ''question'') \<or> list_ex (\<lambda>n. blank_text (raw_get n ''text'')) (raw_needs q)) qs \<or>
     (case raw_mapping (raw_get r ''scope'') of
        None \<Rightarrow> False
      | Some scope \<Rightarrow>
          (case raw_sequence (raw_get scope ''included_topics'') of
             None \<Rightarrow> False | Some topics \<Rightarrow> topics = [] \<or> list_ex blank_text topics)) \<or>
     qs = []"

text \<open>The layers: in each round every question all of whose dependencies are gone goes.\<close>

definition dependency_graph :: "string list \<Rightarrow> (string \<times> string list) list \<Rightarrow> (string, string list) dict" where
  "dependency_graph known rows =
     foldl (\<lambda>g (i, ds). dput i (the (dget g i) @ filter (\<lambda>d. d \<in> set known) ds) g)
       (map (\<lambda>i. (i, [])) (remdups known)) rows"

function layers_stuck :: "(string, string list) dict \<Rightarrow> string list \<Rightarrow> bool" where
  "layers_stuck g remaining =
     (if remaining = [] then False
      else let ready = filter (\<lambda>i. set (the (dget g i)) \<inter> set remaining = {}) remaining in
        if ready = [] then True
        else layers_stuck g (filter (\<lambda>i. i \<notin> set ready) remaining))"
  by pat_completeness auto
termination
proof (relation "measure (\<lambda>(g, remaining). length remaining)", goal_cases)
  case (2 g remaining ready)
  then obtain i where "i \<in> set ready" by (meson last_in_set)
  with 2 show ?case by (auto intro!: length_filter_less [of i])
qed simp

declare layers_stuck.simps [simp del]

definition graph_codes :: "raw \<Rightarrow> plan_code set" where
  "graph_codes r =
     (case raw_sequence (raw_get r ''subquestions'') of
        None \<Rightarrow> {}
      | Some vs \<Rightarrow>
          let qs = raw_subquestions vs;
              ids = raw_ids qs;
              rows = dependency_rows qs;
              need_ids = concat (map (\<lambda>q. List.map_filter (\<lambda>n. raw_string (raw_get n ''need_id'')) (raw_needs q)) qs);
              graph = dependency_graph ids rows
          in (if duplicates ids then {DuplicateSubquestionId} else {}) \<union>
             (if empty_goal r qs then {EmptyGoal} else {}) \<union>
             (if duplicates need_ids then {DuplicateNeedId} else {}) \<union>
             (if list_ex (\<lambda>(_, ds). list_ex (\<lambda>d. d \<notin> set ids) ds) rows then {UnknownDependency} else {}) \<union>
             (if layers_stuck graph (dkeys graph) then {DependencyCycle} else {}))"

definition has_bool_for_numeric_field :: "raw \<Rightarrow> bool" where
  "has_bool_for_numeric_field r =
     list_ex (\<lambda>q.
       raw_bool (raw_get q ''importance'') \<or>
       (case raw_mapping (raw_get q ''evidence_requirements'') of
          None \<Rightarrow> False
        | Some er \<Rightarrow>
            raw_bool (raw_get er ''min_independent_sources'') \<or>
            (case raw_mapping (raw_get er ''freshness'') of
               None \<Rightarrow> False | Some f \<Rightarrow> raw_bool (raw_get f ''retrieved_within_days''))) \<or>
       list_ex (\<lambda>n. raw_bool (raw_get n ''importance'')) (raw_needs q))
     (List.map_filter raw_mapping (raw_items (raw_get r ''subquestions'')))"

section \<open>Renaming what the graph check found\<close>

fun nat_text :: "nat \<Rightarrow> string" where
  "nat_text n = (if n < 10 then [char_of (48 + n)] else nat_text (n div 10) @ [char_of (48 + n mod 10)])"

declare nat_text.simps [simp del]

definition duplicate_name :: "string \<Rightarrow> nat list \<Rightarrow> string" where
  "duplicate_name i ns = i @ ''__duplicate'' @ concat (map (\<lambda>n. ''_'' @ nat_text n) ns)"

text \<open>One identifier: renamed if it was seen; what it is called then is seen.\<close>

definition fresh_name :: "string \<Rightarrow> nat list \<Rightarrow> raw \<Rightarrow> string set \<Rightarrow> raw \<times> string set" where
  "fresh_name key ns kvs seen =
     (case raw_string (raw_get kvs key) of
        None \<Rightarrow> (kvs, seen)
      | Some i \<Rightarrow>
          if i \<in> seen then (dput key (JStr (duplicate_name i ns)) kvs, insert (duplicate_name i ns) seen)
          else (kvs, insert i seen))"

fun rename_needs :: "nat \<Rightarrow> nat \<Rightarrow> json list \<Rightarrow> string set \<Rightarrow> json list \<times> string set" where
  "rename_needs qi ni [] seen = ([], seen)"
| "rename_needs qi ni (v # vs) seen =
     (case raw_mapping v of
        None \<Rightarrow> (let (ws, seen') = rename_needs qi (Suc ni) vs seen in (v # ws, seen'))
      | Some need \<Rightarrow>
          let (need', seen') = fresh_name ''need_id'' [qi, ni] need seen;
              (ws, seen'') = rename_needs qi (Suc ni) vs seen'
          in (JDict need' # ws, seen''))"

fun rename_subquestions :: "plan_code set \<Rightarrow> nat \<Rightarrow> json list \<Rightarrow> string set \<Rightarrow> string set \<Rightarrow> json list" where
  "rename_subquestions codes qi [] seen_q seen_n = []"
| "rename_subquestions codes qi (v # vs) seen_q seen_n =
     (case raw_mapping v of
        None \<Rightarrow> v # rename_subquestions codes (Suc qi) vs seen_q seen_n
      | Some q \<Rightarrow>
          let (q1, seen_q') = fresh_name ''id'' [qi] q seen_q;
              q2 = (if UnknownDependency \<in> codes \<or> DependencyCycle \<in> codes
                    then dput ''dependencies'' (JList []) q1 else q1)
          in (case raw_get q2 ''information_needs'' of
                JList needs \<Rightarrow>
                  let (needs', seen_n') = rename_needs qi 0 needs seen_n
                  in JDict (dput ''information_needs'' (JList needs') q2) #
                       rename_subquestions codes (Suc qi) vs seen_q' seen_n'
              | _ \<Rightarrow> JDict q2 # rename_subquestions codes (Suc qi) vs seen_q' seen_n))"

definition without_graph_conflicts :: "raw \<Rightarrow> plan_code set \<Rightarrow> raw" where
  "without_graph_conflicts r codes =
     (case raw_get r ''subquestions'' of
        JList vs \<Rightarrow> dput ''subquestions'' (JList (rename_subquestions codes 0 vs {} {})) r
      | _ \<Rightarrow> r)"

section \<open>Scope, executability and budget\<close>

definition normalized_strings :: "(string \<Rightarrow> string) \<Rightarrow> json \<Rightarrow> string list option" where
  "normalized_strings casefold v =
     (case raw_sequence v of
        None \<Rightarrow> None
      | Some vs \<Rightarrow> if list_ex (\<lambda>x. raw_string x = None) vs then None
                  else Some (map (\<lambda>x. casefold (strip_ws (the (raw_string x)))) vs))"

definition requested_date :: "(string \<Rightarrow> int option) \<Rightarrow> json \<Rightarrow> string \<Rightarrow> int option" where
  "requested_date fromiso v key =
     (case raw_mapping v of
        None \<Rightarrow> None
      | Some m \<Rightarrow> (case raw_string (raw_get m key) of None \<Rightarrow> None | Some s \<Rightarrow> fromiso s))"

definition scope_is_outside_request ::
    "(string \<Rightarrow> string) \<Rightarrow> (string \<Rightarrow> int option) \<Rightarrow> research_plan \<Rightarrow> research_request \<Rightarrow> bool" where
  "scope_is_outside_request casefold fromiso plan request =
     (let req = rq_output_requirements request;
          scope = rp_scope plan;
          allowed = normalized_strings casefold (raw_get req ''included_topics'');
          excluded = (case normalized_strings casefold (raw_get req ''excluded_topics'') of None \<Rightarrow> [] | Some e \<Rightarrow> e);
          plan_included = map (\<lambda>t. casefold (strip_ws t)) (rsc_included_topics scope);
          plan_excluded = set (map (\<lambda>t. casefold (strip_ws t)) (rsc_excluded_topics scope));
          requested_range = raw_get req ''date_range'';
          requested_start = requested_date fromiso requested_range ''start'';
          requested_end = requested_date fromiso requested_range ''end'';
          freshness = rq_freshness_requirement request
      in if plan_included = [] then True
         else if (case allowed of None \<Rightarrow> False | Some a \<Rightarrow> list_ex (\<lambda>t. t \<notin> set a) plan_included) then True
         else if list_ex (\<lambda>t. t \<in> set excluded \<or> t \<in> plan_excluded) plan_included then True
         else if \<not> set excluded \<subseteq> plan_excluded then True
         else if (case raw_string (raw_get req ''answer_shape'') of
                    None \<Rightarrow> False | Some s \<Rightarrow> rsc_answer_shape scope \<noteq> s) then True
         else if rsc_date_range scope = None \<and> (requested_start \<noteq> None \<or> requested_end \<noteq> None) then True
         else if (case rsc_date_range scope of
                    None \<Rightarrow> False
                  | Some r \<Rightarrow>
                      (case requested_start of None \<Rightarrow> False
                       | Some s \<Rightarrow> (case dr_start r of None \<Rightarrow> True | Some ps \<Rightarrow> ps < s)) \<or>
                      (case requested_end of None \<Rightarrow> False
                       | Some e \<Rightarrow> (case dr_end r of None \<Rightarrow> True | Some pe \<Rightarrow> e < pe))) then True
         else if fr_kind freshness = PublishedAfter \<and>
                 (case fr_published_after freshness of None \<Rightarrow> False
                  | Some after \<Rightarrow>
                      (case rsc_date_range scope of None \<Rightarrow> True
                       | Some r \<Rightarrow> (case dr_start r of None \<Rightarrow> True | Some ps \<Rightarrow> ps < after))) then True
         else blank (rq_report_language request))"

definition primary_source_types :: "source_type set" where
  "primary_source_types = {Paper, OfficialDocumentation, Standard, PrimaryData, FirstPartyStatement}"

definition is_unexecutable :: "research_plan \<Rightarrow> research_request \<Rightarrow> bool" where
  "is_unexecutable plan request =
     (if rq_source_languages request = [] \<or> list_ex blank (rq_source_languages request) then True
      else list_ex (\<lambda>q.
        let er = sq_evidence_requirements q; executable = er_allowed_source_types er - {UnknownSource} in
        executable = {} \<or> er_must_include_primary er \<and> executable \<inter> primary_source_types = {})
        (rp_subquestions plan))"

text \<open>The sizes in bytes of the serialized request and query payload.\<close>

record prompt_sizes =
  sz_request :: "research_request \<Rightarrow> nat"
  sz_query :: "string \<Rightarrow> int \<Rightarrow> sub_question \<Rightarrow> nat"

definition p1_prompt_token_upper_bound ::
    "prompt_sizes \<Rightarrow> research_plan \<Rightarrow> research_request option \<Rightarrow> int \<Rightarrow> int" where
  "p1_prompt_token_upper_bound sz plan request depth =
     (case request of None \<Rightarrow> 0 | Some r \<Rightarrow> 512 + int (sz_request sz r) + 8000) +
     sum_list (map (\<lambda>q. 512 + int (sz_query sz (rp_plan_id plan) depth q) + 2000) (rp_subquestions plan))"

definition node_sum :: "run_budget \<Rightarrow> (resource_usage \<Rightarrow> int) \<Rightarrow> int" where
  "node_sum b f = sum_list (map f (List.map_filter (rb_used_by_node b) budget_nodes))"

definition required_pages :: "int \<Rightarrow> research_plan \<Rightarrow> int" where
  "required_pages depth plan = sum_list (map (\<lambda>q.
     max depth (max 1 (int (length (sq_information_needs q))) *
       er_min_independent_sources (sq_evidence_requirements q))) (rp_subquestions plan))"

definition is_over_budget ::
    "prompt_sizes \<Rightarrow> research_plan \<Rightarrow> run_budget \<Rightarrow> research_request option \<Rightarrow> int \<Rightarrow> bool \<Rightarrow> bool" where
  "is_over_budget sz plan budget request depth include_plan_generation =
     (let required_searches = depth * int (length (rp_subquestions plan));
          pages = required_pages depth plan;
          required_tokens = 1000 + 1000 * required_searches + 1000 * pages +
            p1_prompt_token_upper_bound sz plan (if include_plan_generation then request else None) depth
      in rb_max_search_calls budget - node_sum budget ru_search_calls < required_searches \<or>
         rb_max_pages budget - node_sum budget ru_pages < pages \<or>
         rb_max_total_tokens budget - node_sum budget ru_total_tokens < required_tokens)"

section \<open>The report\<close>

record plan_report =
  vr_valid :: bool
  vr_candidate :: "research_plan option"
  vr_error_codes :: "plan_code list"
  vr_candidate_artifact_id :: "string option"

datatype plan_candidate =
    PlanCandidate research_plan | BytesCandidate "nat list" | TextCandidate string | ObjectCandidate heap pyobj

text \<open>
  What \<^verbatim>\<open>ResearchPlan.model_validate\<close> answers: a plan, a \<^verbatim>\<open>ValidationError\<close> (does one of its
  entries have a location?), or another error.
\<close>

datatype validation = ValidPlan research_plan | InvalidFields bool | ValidationCrash

record validator_env =
  ve_decode :: "nat list \<Rightarrow> string option"
  ve_loads :: "string \<Rightarrow> (heap \<times> pyobj) option"
  ve_dump :: "research_plan \<Rightarrow> heap \<times> pyobj"
  ve_model_validate :: "raw \<Rightarrow> validation"
  ve_casefold :: "string \<Rightarrow> string"
  ve_fromiso :: "string \<Rightarrow> int option"
  ve_sizes :: prompt_sizes

definition mk_validator :: "int \<Rightarrow> exc + int" where
  "mk_validator depth =
     (if depth \<le> 0 then Inl (ValueError ''search_depth must be a positive integer'') else Inr depth)"

definition max_candidate_bytes :: nat where "max_candidate_bytes = 1000000"

definition utf8_size :: "string \<Rightarrow> nat" where
  "utf8_size s = sum_list (map (\<lambda>c. if (of_char c :: nat) < 128 then 1 else 2) s)"

definition strict_json :: "validator_env \<Rightarrow> string \<Rightarrow> (heap \<times> pyobj) option" where
  "strict_json env t = (case check_json_depth t of Inl _ \<Rightarrow> None | Inr _ \<Rightarrow> ve_loads env t)"

definition candidate_value :: "validator_env \<Rightarrow> plan_candidate \<Rightarrow> (heap \<times> pyobj) option" where
  "candidate_value env cand =
     (case cand of
        PlanCandidate p \<Rightarrow> Some (ve_dump env p)
      | BytesCandidate b \<Rightarrow>
          if max_candidate_bytes < length b then None
          else (case ve_decode env b of None \<Rightarrow> None | Some t \<Rightarrow> strict_json env t)
      | TextCandidate t \<Rightarrow> if max_candidate_bytes < utf8_size t then None else strict_json env t
      | ObjectCandidate h v \<Rightarrow> Some (h, v))"

definition serialized :: "plan_candidate \<Rightarrow> bool" where
  "serialized cand = (case cand of BytesCandidate _ \<Rightarrow> True | TextCandidate _ \<Rightarrow> True | _ \<Rightarrow> False)"

text \<open>The codes of the plan that the semantic checks look at.\<close>

definition semantic_codes :: "validator_env \<Rightarrow> int \<Rightarrow> research_plan \<Rightarrow> research_request option \<Rightarrow>
    run_budget option \<Rightarrow> bool \<Rightarrow> plan_code set" where
  "semantic_codes env depth plan request budget include_plan_generation =
     (case request of
        None \<Rightarrow> {}
      | Some r \<Rightarrow>
          (if blank (rq_question r) then {EmptyGoal} else {}) \<union>
          (if scope_is_outside_request (ve_casefold env) (ve_fromiso env) plan r then {OutOfScopeGoal} else {}) \<union>
          (if is_unexecutable plan r then {UnexecutableGoal} else {})) \<union>
     (case budget of
        None \<Rightarrow> {}
      | Some b \<Rightarrow>
          if is_over_budget (ve_sizes env) plan b request depth include_plan_generation
          then {BudgetInfeasible} else {})"

definition raw_codes :: "validator_env \<Rightarrow> int \<Rightarrow> raw \<Rightarrow> research_request option \<Rightarrow> run_budget option \<Rightarrow> bool \<Rightarrow>
    plan_code set \<times> research_plan option" where
  "raw_codes env depth r request budget include_plan_generation =
     (let gcodes = graph_codes r;
          strict_numeric_failure = has_bool_for_numeric_field r;
          (validated, schema) =
            (case ve_model_validate env r of
               ValidPlan p \<Rightarrow> (Some p, {})
             | InvalidFields has_field_error \<Rightarrow>
                 (None, if strict_numeric_failure \<or> has_field_error \<or> gcodes = {} then {InvalidSchema} else {})
             | ValidationCrash \<Rightarrow> (None, {InvalidSchema}));
          numeric = (if strict_numeric_failure then {InvalidSchema} else {});
          semantic_plan =
            (if validated = None \<and> gcodes \<noteq> {}
             then (case ve_model_validate env (without_graph_conflicts r gcodes) of ValidPlan p \<Rightarrow> Some p | _ \<Rightarrow> None)
             else validated);
          semantic = (case semantic_plan of None \<Rightarrow> {}
            | Some p \<Rightarrow> semantic_codes env depth p request budget include_plan_generation)
      in (gcodes \<union> schema \<union> numeric \<union> semantic, validated))"

definition report :: "plan_code set \<Rightarrow> research_plan option \<Rightarrow> string option \<Rightarrow> plan_report" where
  "report codes candidate artifact =
     \<lparr>vr_valid = (ordered_codes codes = []), vr_candidate = candidate, vr_error_codes = ordered_codes codes,
      vr_candidate_artifact_id = artifact\<rparr>"

definition validate_candidate :: "validator_env \<Rightarrow> int \<Rightarrow> plan_candidate \<Rightarrow> research_request option \<Rightarrow>
    run_budget option \<Rightarrow> string option \<Rightarrow> bool \<Rightarrow> plan_report" where
  "validate_candidate env depth cand request budget artifact include_plan_generation =
     (case candidate_value env cand of
        None \<Rightarrow> report {MalformedJson} None artifact
      | Some (h, v) \<Rightarrow>
          (case bounded_json_snapshot h v of
             Inl _ \<Rightarrow> report {if serialized cand then MalformedJson else InvalidSchema} None artifact
           | Inr None \<Rightarrow> report {InvalidSchema} None artifact
           | Inr (Some s) \<Rightarrow>
               (case raw_mapping s of
                  None \<Rightarrow> report {InvalidSchema} None artifact
                | Some r \<Rightarrow>
                    let (codes, validated) = raw_codes env depth r request budget include_plan_generation
                    in report codes validated artifact)))"

section \<open>The layers decide acyclicity\<close>

lemma trancl_no_sinks:
  assumes "\<forall>(x, y)\<in>E. x \<notin> S" "(x, y) \<in> E\<^sup>+" "y \<notin> S"
  shows "(x, y) \<in> (E \<inter> (- S) \<times> (- S))\<^sup>+"
  using assms(2,3)
proof (induction rule: trancl_induct)
  case (base y)
  with assms(1) show ?case by (intro r_into_trancl) auto
next
  case (step y z)
  from step.hyps(2) assms(1) have "y \<notin> S" by auto
  with step.IH have "(x, y) \<in> (E \<inter> (- S) \<times> (- S))\<^sup>+" .
  moreover from step.hyps(2) step.prems \<open>y \<notin> S\<close> have "(y, z) \<in> E \<inter> (- S) \<times> (- S)" by simp
  ultimately show ?case by (rule trancl_into_trancl)
qed

lemma acyclic_no_sinks:
  assumes "\<forall>(x, y)\<in>E. x \<notin> S"
  shows "acyclic E \<longleftrightarrow> acyclic (E \<inter> (- S) \<times> (- S))"
proof
  assume "acyclic (E \<inter> (- S) \<times> (- S))"
  moreover have "x \<notin> S" if "(x, x) \<in> E\<^sup>+" for x using tranclD [OF that] assms by auto
  ultimately show "acyclic E" using trancl_no_sinks [OF assms] unfolding acyclic_def by blast
qed (rule acyclic_subset, auto)

definition graph_edges :: "(string, string list) dict \<Rightarrow> (string \<times> string) set" where
  "graph_edges g = {(i, d). d \<in> set (the (dget g i))}"

lemma layers_stuck_iff:
  "layers_stuck g remaining \<longleftrightarrow> \<not> acyclic (graph_edges g \<inter> set remaining \<times> set remaining)"
proof (induction g remaining rule: layers_stuck.induct)
  case (1 g remaining)
  define ready where "ready = filter (\<lambda>i. set (the (dget g i)) \<inter> set remaining = {}) remaining"
  let ?E = "graph_edges g \<inter> set remaining \<times> set remaining"
  show ?case
  proof (cases "ready = []")
    case True
    have "acyclic ?E \<Longrightarrow> remaining = []"
    proof (rule ccontr)
      assume a: "acyclic ?E" "remaining \<noteq> []"
      have "finite ?E" by (rule finite_subset [of _ "set remaining \<times> set remaining"]) auto
      with a(1) have "wf (?E\<inverse>)" by (simp add: finite_acyclic_wf_converse)
      moreover from a(2) obtain a where "a \<in> set remaining" by (cases remaining) auto
      ultimately obtain z where z: "z \<in> set remaining" "\<forall>y. (y, z) \<in> ?E\<inverse> \<longrightarrow> y \<notin> set remaining"
        using wfE_min [of "?E\<inverse>" a "set remaining"] by blast
      from z(2) have "set (the (dget g z)) \<inter> set remaining = {}" unfolding graph_edges_def using z(1) by blast
      with z(1) have "z \<in> set ready" unfolding ready_def by simp
      with True show False by simp
    qed
    moreover have "layers_stuck g remaining \<longleftrightarrow> remaining \<noteq> []"
      using True unfolding layers_stuck.simps [of g remaining] by (simp add: ready_def Let_def)
    moreover have "acyclic ?E" if "remaining = []" using that by (simp add: acyclic_def)
    ultimately show ?thesis by blast
  next
    case False
    then have ne: "remaining \<noteq> []" by (auto simp: ready_def)
    have "acyclic ?E \<longleftrightarrow> acyclic (?E \<inter> (- set ready) \<times> (- set ready))"
      by (rule acyclic_no_sinks) (auto simp: ready_def graph_edges_def)
    also have "?E \<inter> (- set ready) \<times> (- set ready) =
        graph_edges g \<inter> set (filter (\<lambda>i. i \<notin> set ready) remaining) \<times> set (filter (\<lambda>i. i \<notin> set ready) remaining)"
      by auto
    finally show ?thesis using "1.IH" [OF ne ready_def] False ne
      unfolding layers_stuck.simps [of g remaining] by (simp add: ready_def Let_def)
  qed
qed

definition add_row :: "string set \<Rightarrow> (string, string list) dict \<Rightarrow> string \<times> string list \<Rightarrow> (string, string list) dict" where
  "add_row known g row = dput (fst row) (the (dget g (fst row)) @ filter (\<lambda>d. d \<in> known) (snd row)) g"

lemma add_rows:
  assumes "fst ` set rows \<subseteq> set (dkeys g)"
  shows "set (dkeys (foldl (add_row known) g rows)) = set (dkeys g)"
    and "set (the (dget (foldl (add_row known) g rows) i)) =
      set (the (dget g i)) \<union> {d. \<exists>ds. (i, ds) \<in> set rows \<and> d \<in> set ds \<and> d \<in> known}"
proof -
  have "set (dkeys (foldl (add_row known) g rows)) = set (dkeys g) \<and>
    set (the (dget (foldl (add_row known) g rows) i)) =
      set (the (dget g i)) \<union> {d. \<exists>ds. (i, ds) \<in> set rows \<and> d \<in> set ds \<and> d \<in> known}"
    using assms
  proof (induction rows arbitrary: g)
    case (Cons row rows)
    obtain j ds where row: "row = (j, ds)" by (cases row)
    let ?g = "add_row known g row"
    from Cons.prems row have "j \<in> set (dkeys g)" by simp
    then obtain u where u: "dget g j = Some u" by (cases "dget g j") (auto simp: map_of_eq_None_iff)
    then have k: "dkeys ?g = dkeys g" by (simp add: add_row_def row dkeys_dput_old)
    with Cons.prems have "fst ` set rows \<subseteq> set (dkeys ?g)" by simp
    note ih = Cons.IH [OF this]
    have "set (the (dget ?g i)) = set (the (dget g i)) \<union> (if i = j then {d \<in> set ds. d \<in> known} else {})"
      by (simp add: add_row_def row)
    with ih [THEN conjunct2] have "set (the (dget (foldl (add_row known) g (row # rows)) i)) =
      set (the (dget g i)) \<union> {d. \<exists>ds. (i, ds) \<in> set (row # rows) \<and> d \<in> set ds \<and> d \<in> known}"
      unfolding foldl_Cons row by auto
    with ih [THEN conjunct1] show ?case unfolding foldl_Cons k by blast
  qed simp
  then show "set (dkeys (foldl (add_row known) g rows)) = set (dkeys g)"
    and "set (the (dget (foldl (add_row known) g rows) i)) =
      set (the (dget g i)) \<union> {d. \<exists>ds. (i, ds) \<in> set rows \<and> d \<in> set ds \<and> d \<in> known}" by blast+
qed

lemma dependency_graph_edges:
  assumes "fst ` set rows \<subseteq> set known"
  shows "set (dkeys (dependency_graph known rows)) = set known"
    and "graph_edges (dependency_graph known rows) \<inter> set known \<times> set known =
      {(i, d). \<exists>ds. (i, ds) \<in> set rows \<and> d \<in> set ds} \<inter> set known \<times> set known"
proof -
  let ?g = "map (\<lambda>i. (i, [])) (remdups known) :: (string, string list) dict"
  have keys: "dkeys ?g = remdups known" by (simp add: comp_def)
  have g: "dependency_graph known rows = foldl (add_row (set known)) ?g rows"
    unfolding dependency_graph_def by (rule arg_cong [where f = "\<lambda>f. foldl f ?g rows"])
      (simp add: add_row_def fun_eq_iff split: prod.split)
  have e: "the (dget ?g i) = []" if "i \<in> set known" for i
  proof -
    from that keys have "dget ?g i \<noteq> None" by (simp add: map_of_eq_None_iff image_image)
    then obtain u where u: "dget ?g i = Some u" by blast
    from dget_in_set [OF this] have "u = []" by auto
    with u show ?thesis by simp
  qed
  from assms keys have sub: "fst ` set rows \<subseteq> set (dkeys ?g)" by simp
  show "set (dkeys (dependency_graph known rows)) = set known" unfolding g add_rows(1) [OF sub] by (simp only: keys set_remdups)
  show "graph_edges (dependency_graph known rows) \<inter> set known \<times> set known =
      {(i, d). \<exists>ds. (i, ds) \<in> set rows \<and> d \<in> set ds} \<inter> set known \<times> set known"
    unfolding g graph_edges_def add_rows(2) [OF sub] using e by auto
qed

section \<open>The raw check and the domain model agree\<close>

text \<open>A raw object that carries the identifiers, texts and dependencies of a plan, as its dump does.\<close>

definition dumps_need :: "information_need \<Rightarrow> raw \<Rightarrow> bool" where
  "dumps_need n m \<longleftrightarrow> raw_get m ''need_id'' = JStr (in_need_id n) \<and> raw_get m ''text'' = JStr (in_text n)"

definition dumps_question :: "sub_question \<Rightarrow> raw \<Rightarrow> bool" where
  "dumps_question q m \<longleftrightarrow> raw_get m ''id'' = JStr (sq_id q) \<and> raw_get m ''question'' = JStr (sq_question q) \<and>
     raw_get m ''dependencies'' = JList (map JStr (sq_dependencies q)) \<and>
     (\<exists>ms. raw_get m ''information_needs'' = JList (map JDict ms) \<and> list_all2 dumps_need (sq_information_needs q) ms)"

definition dumps_plan :: "research_plan \<Rightarrow> raw \<Rightarrow> bool" where
  "dumps_plan p r \<longleftrightarrow>
     (\<exists>ms. raw_get r ''subquestions'' = JList (map JDict ms) \<and> list_all2 dumps_question (rp_subquestions p) ms) \<and>
     (\<exists>scope. raw_get r ''scope'' = JDict scope \<and>
        raw_get scope ''included_topics'' = JList (map JStr (rsc_included_topics (rp_scope p))))"

lemma map_filter_all2:
  "list_all2 (\<lambda>x m. f m = Some (g x)) xs ms \<Longrightarrow> List.map_filter f ms = map g xs"
  by (induction rule: list_all2_induct) (simp_all add: map_filter_simps)

lemma map_filter_map: "List.map_filter f (map g xs) = List.map_filter (f \<circ> g) xs"
  by (induction xs) (simp_all add: map_filter_simps comp_def split: option.split)

lemma map_filter_total: "\<forall>x\<in>set xs. f x = Some (g x) \<Longrightarrow> List.map_filter f xs = map g xs"
  by (induction xs) (simp_all add: map_filter_simps)

lemma raw_get_Nil [simp]: "raw_get [] k = JNull"
  by (simp add: raw_get_def)

lemma duplicates_iff: "duplicates vs \<longleftrightarrow> \<not> distinct vs"
  by (metis card_distinct distinct_card duplicates_def)

lemma dumped_needs:
  assumes "dumps_question q m"
  shows "\<exists>ms. raw_needs m = ms \<and> list_all2 dumps_need (sq_information_needs q) ms"
proof -
  from assms obtain ms where "raw_get m ''information_needs'' = JList (map JDict ms)"
    "list_all2 dumps_need (sq_information_needs q) ms" by (auto simp: dumps_question_def)
  then show ?thesis by (simp add: raw_needs_def raw_items_def map_filter_map comp_def map_filter_total [of _ _ id])
qed

lemma dumped_need_ids:
  assumes "dumps_question q m"
  shows "List.map_filter (\<lambda>n. raw_string (raw_get n ''need_id'')) (raw_needs m) = map in_need_id (sq_information_needs q)"
proof -
  from dumped_needs [OF assms] have "list_all2 (\<lambda>n m. raw_string (raw_get m ''need_id'') = Some (in_need_id n))
    (sq_information_needs q) (raw_needs m)" by (auto simp: dumps_need_def elim: list_all2_mono)
  then show ?thesis by (rule map_filter_all2)
qed

lemma dumped_dependencies: "dumps_question q m \<Longrightarrow> raw_dependencies m = sq_dependencies q"
  by (simp add: dumps_question_def raw_dependencies_def raw_items_def map_filter_map comp_def map_filter_total [of _ _ id])

lemma dumped_blank:
  assumes "dumps_question q m"
  shows "blank_text (raw_get m ''question'') \<or> list_ex (\<lambda>n. blank_text (raw_get n ''text'')) (raw_needs m) \<longleftrightarrow>
    blank (sq_question q) \<or> list_ex (\<lambda>n. blank (in_text n)) (sq_information_needs q)"
proof -
  obtain ms where ms: "raw_needs m = ms" "list_all2 dumps_need (sq_information_needs q) ms" using dumped_needs [OF assms] by blast
  from ms(2) have "list_ex (\<lambda>n. blank_text (raw_get n ''text'')) ms = list_ex (\<lambda>n. blank (in_text n)) (sq_information_needs q)"
    by (induction rule: list_all2_induct) (simp_all add: dumps_need_def blank_text_def)
  with assms ms(1) show ?thesis by (simp add: dumps_question_def blank_text_def)
qed

text \<open>What the raw check finds in the dump of a plan.\<close>

definition blank_goal :: "research_plan \<Rightarrow> bool" where
  "blank_goal p \<longleftrightarrow> rp_subquestions p = [] \<or> rsc_included_topics (rp_scope p) = [] \<or>
     (\<exists>t\<in>set (rsc_included_topics (rp_scope p)). blank t) \<or>
     (\<exists>q\<in>set (rp_subquestions p). blank (sq_question q) \<or> (\<exists>n\<in>set (sq_information_needs q). blank (in_text n)))"

lemma graph_codes_dump:
  assumes "dumps_plan p r"
  shows "DuplicateSubquestionId \<in> graph_codes r \<longleftrightarrow> \<not> distinct (map sq_id (rp_subquestions p))"
    and "DuplicateNeedId \<in> graph_codes r \<longleftrightarrow>
      \<not> distinct (concat (map (\<lambda>q. map in_need_id (sq_information_needs q)) (rp_subquestions p)))"
    and "UnknownDependency \<in> graph_codes r \<longleftrightarrow> \<not> (\<forall>(x, y)\<in>plan_edges p. y \<in> set (map sq_id (rp_subquestions p)))"
    and "DependencyCycle \<in> graph_codes r \<longleftrightarrow>
      \<not> acyclic (plan_edges p \<inter> set (map sq_id (rp_subquestions p)) \<times> set (map sq_id (rp_subquestions p)))"
    and "EmptyGoal \<in> graph_codes r \<longleftrightarrow> blank_goal p"
    and "graph_codes r \<subseteq> {DuplicateSubquestionId, DuplicateNeedId, UnknownDependency, DependencyCycle, EmptyGoal}"
proof -
  from assms obtain ms scope where ms: "raw_get r ''subquestions'' = JList (map JDict ms)"
      "list_all2 dumps_question (rp_subquestions p) ms"
    and sc: "raw_get r ''scope'' = JDict scope"
      "raw_get scope ''included_topics'' = JList (map JStr (rsc_included_topics (rp_scope p)))"
    by (auto simp: dumps_plan_def)
  let ?qs = "rp_subquestions p"
  let ?ids = "map sq_id ?qs"
  let ?rows = "map (\<lambda>q. (sq_id q, sq_dependencies q)) ?qs"
  have ne: "m \<noteq> []" if "m \<in> set ms" for m
  proof -
    from ms(2) that obtain q where "dumps_question q m" by (metis in_set_conv_nth list_all2_conv_all_nth)
    then show ?thesis by (auto simp: dumps_question_def)
  qed
  have qs: "raw_subquestions (map JDict ms) = ms"
    using ne by (simp add: raw_subquestions_def map_filter_map comp_def map_filter_total [of _ _ id])
  have ids: "raw_ids ms = ?ids" unfolding raw_ids_def
    by (rule map_filter_all2) (rule list_all2_mono [OF ms(2)], simp add: dumps_question_def)
  have rows: "dependency_rows ms = ?rows" unfolding dependency_rows_def
    by (rule map_filter_all2) (rule list_all2_mono [OF ms(2)], simp add: dumped_dependencies, simp add: dumps_question_def)
  have needs: "map (\<lambda>q. List.map_filter (\<lambda>n. raw_string (raw_get n ''need_id'')) (raw_needs q)) ms =
      map (\<lambda>q. map in_need_id (sq_information_needs q)) ?qs"
    using ms(2) by (induction rule: list_all2_induct) (simp_all add: dumped_need_ids)
  have goal: "list_ex (\<lambda>q. blank_text (raw_get q ''question'') \<or> list_ex (\<lambda>n. blank_text (raw_get n ''text'')) (raw_needs q)) ms =
      list_ex (\<lambda>q. blank (sq_question q) \<or> list_ex (\<lambda>n. blank (in_text n)) (sq_information_needs q)) ?qs"
    using ms(2) by (induction rule: list_all2_induct) (simp_all add: dumped_blank)
  have empty: "empty_goal r ms \<longleftrightarrow> blank_goal p"
    using goal ms(2) by (auto simp: empty_goal_def sc blank_goal_def list_ex_iff blank_text_def)
  have unknown: "list_ex (\<lambda>(_, ds). list_ex (\<lambda>d. d \<notin> set ?ids) ds) ?rows \<longleftrightarrow>
      \<not> (\<forall>(x, y)\<in>plan_edges p. y \<in> set ?ids)"
    by (auto simp: list_ex_iff plan_edges_def)
  have sub: "fst ` set ?rows \<subseteq> set ?ids" by auto
  have edges: "{(i, d). \<exists>ds. (i, ds) \<in> set ?rows \<and> d \<in> set ds} = plan_edges p"
    by (auto simp: plan_edges_def)
  have stuck: "layers_stuck (dependency_graph ?ids ?rows) (dkeys (dependency_graph ?ids ?rows)) \<longleftrightarrow>
      \<not> acyclic (plan_edges p \<inter> set ?ids \<times> set ?ids)"
    unfolding layers_stuck_iff dependency_graph_edges(1) [OF sub] dependency_graph_edges(2) [OF sub] edges ..
  have codes: "graph_codes r = (if \<not> distinct ?ids then {DuplicateSubquestionId} else {}) \<union>
      (if blank_goal p then {EmptyGoal} else {}) \<union>
      (if \<not> distinct (concat (map (\<lambda>q. map in_need_id (sq_information_needs q)) ?qs)) then {DuplicateNeedId} else {}) \<union>
      (if \<not> (\<forall>(x, y)\<in>plan_edges p. y \<in> set ?ids) then {UnknownDependency} else {}) \<union>
      (if \<not> acyclic (plan_edges p \<inter> set ?ids \<times> set ?ids) then {DependencyCycle} else {})"
    unfolding graph_codes_def ms(1) raw_sequence.simps option.case Let_def qs ids rows needs duplicates_iff empty
      unknown stuck ..
  show "DuplicateSubquestionId \<in> graph_codes r \<longleftrightarrow> \<not> distinct ?ids"
    "DuplicateNeedId \<in> graph_codes r \<longleftrightarrow> \<not> distinct (concat (map (\<lambda>q. map in_need_id (sq_information_needs q)) ?qs))"
    "UnknownDependency \<in> graph_codes r \<longleftrightarrow> \<not> (\<forall>(x, y)\<in>plan_edges p. y \<in> set ?ids)"
    "DependencyCycle \<in> graph_codes r \<longleftrightarrow> \<not> acyclic (plan_edges p \<inter> set ?ids \<times> set ?ids)"
    "EmptyGoal \<in> graph_codes r \<longleftrightarrow> blank_goal p"
    "graph_codes r \<subseteq> {DuplicateSubquestionId, DuplicateNeedId, UnknownDependency, DependencyCycle, EmptyGoal}"
    unfolding codes by (simp_all split: if_split)
qed

text \<open>The two independent checks of a plan's graph agree: the layering of the raw JSON finds no duplicate
identifier, unknown dependency or cycle in the dump of a plan exactly when the depth-first search
of the domain model accepts the plan.  On the dump of any plan, cyclic or not, the layering
ends; an empty goal is found exactly when a question, need or topic is blank or missing.\<close>

theorem graph_checks_agree:
  assumes "dumps_plan p r"
  shows "(graph_codes r \<subseteq> {EmptyGoal} \<longleftrightarrow> validate_graph p = Inr p) \<and>
    (EmptyGoal \<in> graph_codes r \<longleftrightarrow> blank_goal p)"
proof
  have sub: "plan_edges p \<inter> set (map sq_id (rp_subquestions p)) \<times> set (map sq_id (rp_subquestions p)) = plan_edges p"
    if "\<forall>(x, y)\<in>plan_edges p. y \<in> set (map sq_id (rp_subquestions p))" using that by (auto simp: plan_edges_def)
  show "graph_codes r \<subseteq> {EmptyGoal} \<longleftrightarrow> validate_graph p = Inr p"
  proof -
    have "graph_codes r \<subseteq> {EmptyGoal} \<longleftrightarrow> DuplicateSubquestionId \<notin> graph_codes r \<and> DuplicateNeedId \<notin> graph_codes r \<and>
        UnknownDependency \<notin> graph_codes r \<and> DependencyCycle \<notin> graph_codes r"
      using graph_codes_dump(6) [OF assms] by auto
    then show ?thesis unfolding validate_graph_iff graph_codes_dump(1-4) [OF assms] using sub by (simp only: not_not) metis
  qed
  show "EmptyGoal \<in> graph_codes r \<longleftrightarrow> blank_goal p" by (rule graph_codes_dump(5) [OF assms])
qed

definition demo_cyclic_plan :: research_plan where
  "demo_cyclic_plan =
     (let q = (\<lambda>i ds. \<lparr>sq_id = i, sq_question = ''Q'', sq_rationale_code = ''R'', sq_importance = Fin 1, sq_dependencies = ds,
        sq_information_needs = [], sq_evidence_requirements = \<lparr>er_min_independent_sources = 1,
          er_allowed_source_types = {Paper}, er_must_include_primary = False, er_freshness = None\<rparr>, sq_status = SqPending\<rparr>)
      in \<lparr>rp_plan_id = ''p'', rp_scope = \<lparr>rsc_included_topics = [''t''], rsc_excluded_topics = [], rsc_date_range = None,
           rsc_answer_shape = ''a''\<rparr>, rp_subquestions = [q ''x'' [''y''], q ''y'' [''x'']],
           rp_created_by_model = ''m'', rp_prompt_version = ''v''\<rparr>)"

definition demo_cyclic_raw :: raw where
  "demo_cyclic_raw =
     (let q = (\<lambda>i ds. JDict [(''id'', JStr i), (''question'', JStr ''Q''), (''dependencies'', JList (map JStr ds)),
        (''information_needs'', JList [])])
      in [(''scope'', JDict [(''included_topics'', JList [JStr ''t''])]),
          (''subquestions'', JList [q ''x'' [''y''], q ''y'' [''x'']])])"

lemma demo_cyclic_dump: "dumps_plan demo_cyclic_plan demo_cyclic_raw"
proof -
  let ?m = "\<lambda>i ds. [(''id'', JStr i), (''question'', JStr ''Q''), (''dependencies'', JList (map JStr ds)),
        (''information_needs'', JList [])] :: raw"
  have "raw_get demo_cyclic_raw ''subquestions'' = JList (map JDict [?m ''x'' [''y''], ?m ''y'' [''x'']])"
    by (simp add: demo_cyclic_raw_def raw_get_def)
  moreover have "list_all2 dumps_question (rp_subquestions demo_cyclic_plan) [?m ''x'' [''y''], ?m ''y'' [''x'']]"
    by (simp add: demo_cyclic_plan_def dumps_question_def raw_get_def)
  moreover have "raw_get demo_cyclic_raw ''scope'' = JDict [(''included_topics'', JList [JStr ''t''])]"
    "raw_get [(''included_topics'', JList [JStr ''t''])] ''included_topics'' =
      JList (map JStr (rsc_included_topics (rp_scope demo_cyclic_plan)))"
    by (simp_all add: demo_cyclic_raw_def raw_get_def demo_cyclic_plan_def)
  ultimately show ?thesis unfolding dumps_plan_def by blast
qed

theorem graph_checks_agree_witness:
  "\<not> graph_codes demo_cyclic_raw \<subseteq> {EmptyGoal} \<and> EmptyGoal \<notin> graph_codes demo_cyclic_raw"
proof -
  have "plan_edges p = (\<Union>q\<in>set (rp_subquestions p). Pair (sq_id q) ` set (sq_dependencies q))" for p
    by (auto simp: plan_edges_def)
  then have "plan_edges demo_cyclic_plan = {(''x'', ''y''), (''y'', ''x'')}" by (auto simp: demo_cyclic_plan_def Let_def)
  then have "(''x'', ''x'') \<in> (plan_edges demo_cyclic_plan)\<^sup>+"
    using trancl_into_trancl [OF r_into_trancl, of "''x''" "''y''"] by simp
  then have "validate_graph demo_cyclic_plan \<noteq> Inr demo_cyclic_plan" by (auto simp: validate_graph_iff acyclic_def)
  moreover have "\<not> blank ''t''" "\<not> blank ''Q''" by code_simp+
  then have "\<not> blank_goal demo_cyclic_plan" by (simp add: blank_goal_def demo_cyclic_plan_def)
  ultimately show ?thesis using graph_checks_agree [OF demo_cyclic_dump] by blast
qed

text \<open>The new name of a repeated identifier is not looked up: it can be one that is taken.\<close>

definition demo_repeated_raw :: raw where
  "demo_repeated_raw = [(''subquestions'', JList (map (\<lambda>i. JDict [(''id'', JStr i)])
     [''a'', ''a__duplicate_2'', ''a'']))]"

lemma renaming_collides:
  "DuplicateSubquestionId \<in> graph_codes (without_graph_conflicts demo_repeated_raw (graph_codes demo_repeated_raw))"
proof -
  have c: "char_of (50 :: nat) = CHR ''2''" by code_simp
  have "rename_subquestions codes 0 (map (\<lambda>i. JDict [(''id'', JStr i)]) [''a'', ''a__duplicate_2'', ''a'']) {} {} =
      map JDict (map (\<lambda>i. if UnknownDependency \<in> codes \<or> DependencyCycle \<in> codes
        then [(''id'', JStr i), (''dependencies'', JList [])] else [(''id'', JStr i)]) [''a'', ''a__duplicate_2'', ''a__duplicate_2''])" for codes
    by (simp add: fresh_name_def raw_get_def duplicate_name_def nat_text.simps [of "Suc (Suc 0)"] c)
  then have "raw_get (without_graph_conflicts demo_repeated_raw codes) ''subquestions'' =
      JList (map JDict (map (\<lambda>i. if UnknownDependency \<in> codes \<or> DependencyCycle \<in> codes
        then [(''id'', JStr i), (''dependencies'', JList [])] else [(''id'', JStr i)]) [''a'', ''a__duplicate_2'', ''a__duplicate_2'']))" for codes
    by (simp add: without_graph_conflicts_def demo_repeated_raw_def raw_get_def del: list.map)
  then show ?thesis
    by (simp add: graph_codes_def Let_def raw_subquestions_def raw_ids_def map_filter_simps raw_get_def duplicates_iff)
qed

section \<open>What an accepted plan satisfies\<close>

definition topics_of :: "(string \<Rightarrow> string) \<Rightarrow> string list \<Rightarrow> string set" where
  "topics_of casefold ts = (\<lambda>t. casefold (strip_ws t)) ` set ts"

definition asked_topics :: "(string \<Rightarrow> string) \<Rightarrow> research_request \<Rightarrow> string \<Rightarrow> string set option" where
  "asked_topics casefold request key =
     map_option set (normalized_strings casefold (raw_get (rq_output_requirements request) key))"

text \<open>The plan stays inside the request: topics, answer shape, dates and freshness.\<close>

definition in_scope ::
    "(string \<Rightarrow> string) \<Rightarrow> (string \<Rightarrow> int option) \<Rightarrow> research_plan \<Rightarrow> research_request \<Rightarrow> bool" where
  "in_scope casefold fromiso plan request \<longleftrightarrow>
     (let req = rq_output_requirements request; scope = rp_scope plan;
          included = topics_of casefold (rsc_included_topics scope);
          excluded = topics_of casefold (rsc_excluded_topics scope);
          banned = (case asked_topics casefold request ''excluded_topics'' of None \<Rightarrow> {} | Some e \<Rightarrow> e);
          start = Option.bind (rsc_date_range scope) dr_start;
          end = Option.bind (rsc_date_range scope) dr_end
      in included \<noteq> {} \<and> included \<inter> excluded = {} \<and> banned \<subseteq> excluded \<and>
         (\<forall>a. asked_topics casefold request ''included_topics'' = Some a \<longrightarrow> included \<subseteq> a) \<and>
         (\<forall>s. raw_get req ''answer_shape'' = JStr s \<longrightarrow> rsc_answer_shape scope = s) \<and>
         (\<forall>d. requested_date fromiso (raw_get req ''date_range'') ''start'' = Some d \<longrightarrow> (\<exists>s. start = Some s \<and> d \<le> s)) \<and>
         (\<forall>d. requested_date fromiso (raw_get req ''date_range'') ''end'' = Some d \<longrightarrow> (\<exists>e. end = Some e \<and> e \<le> d)) \<and>
         (\<forall>d. fr_kind (rq_freshness_requirement request) = PublishedAfter \<longrightarrow>
            fr_published_after (rq_freshness_requirement request) = Some d \<longrightarrow> (\<exists>s. start = Some s \<and> d \<le> s)) \<and>
         \<not> blank (rq_report_language request))"

lemma raw_string_Some: "raw_string v = Some s \<longleftrightarrow> v = JStr s"
  by (cases v) simp_all

lemma option_case_iff:
  "(case x of None \<Rightarrow> False | Some a \<Rightarrow> P a) \<longleftrightarrow> (\<exists>a. x = Some a \<and> P a)"
  "(case x of None \<Rightarrow> True | Some a \<Rightarrow> P a) \<longleftrightarrow> (\<forall>a. x = Some a \<longrightarrow> P a)"
  by (cases x; simp)+

lemma scope_iff: "\<not> scope_is_outside_request casefold fromiso plan request \<longleftrightarrow> in_scope casefold fromiso plan request"
proof -
  have n: "x = None \<longleftrightarrow> (\<forall>a. x \<noteq> Some a)" for x :: "'x option" by simp
  define banned where "banned = normalized_strings casefold (raw_get (rq_output_requirements request) ''excluded_topics'')"
  define allowed where "allowed = normalized_strings casefold (raw_get (rq_output_requirements request) ''included_topics'')"
  define s where "s = requested_date fromiso (raw_get (rq_output_requirements request) ''date_range'') ''start''"
  define e where "e = requested_date fromiso (raw_get (rq_output_requirements request) ''date_range'') ''end''"
  show ?thesis
    unfolding scope_is_outside_request_def in_scope_def Let_def asked_topics_def banned_def [symmetric]
      allowed_def [symmetric] s_def [symmetric] e_def [symmetric] topics_of_def
    apply (simp only: option_case_iff if_bool_eq_conj simp_thms raw_string_Some list_ex_iff)
    by (cases banned; cases allowed; cases s; cases e; cases "rsc_date_range (rp_scope plan)")
      (auto simp: not_le not_less subset_iff)
qed

definition plan_fits :: "validator_env \<Rightarrow> int \<Rightarrow> research_plan \<Rightarrow> research_request option \<Rightarrow> run_budget option \<Rightarrow> bool \<Rightarrow> bool" where
  "plan_fits env depth p request budget include_plan_generation \<longleftrightarrow>
     (case request of
        None \<Rightarrow> True
      | Some r \<Rightarrow> \<not> blank (rq_question r) \<and> in_scope (ve_casefold env) (ve_fromiso env) p r \<and>
          rq_source_languages r \<noteq> [] \<and> (\<forall>l\<in>set (rq_source_languages r). \<not> blank l) \<and>
          (\<forall>q\<in>set (rp_subquestions p). let er = sq_evidence_requirements q in
             (\<exists>t\<in>er_allowed_source_types er. t \<noteq> UnknownSource) \<and>
             (er_must_include_primary er \<longrightarrow> (\<exists>t\<in>er_allowed_source_types er. t \<in> primary_source_types)))) \<and>
     (case budget of
        None \<Rightarrow> True
      | Some b \<Rightarrow>
          let searches = depth * int (length (rp_subquestions p)); pages = required_pages depth p in
          node_sum b ru_search_calls + searches \<le> rb_max_search_calls b \<and>
          node_sum b ru_pages + pages \<le> rb_max_pages b \<and>
          node_sum b ru_total_tokens + 1000 * (1 + searches + pages) +
            p1_prompt_token_upper_bound (ve_sizes env) p (if include_plan_generation then request else None) depth
            \<le> rb_max_total_tokens b)"

lemma executable_iff:
  "\<not> is_unexecutable p r \<longleftrightarrow> rq_source_languages r \<noteq> [] \<and> (\<forall>l\<in>set (rq_source_languages r). \<not> blank l) \<and>
     (\<forall>q\<in>set (rp_subquestions p). let er = sq_evidence_requirements q in
        (\<exists>t\<in>er_allowed_source_types er. t \<noteq> UnknownSource) \<and>
        (er_must_include_primary er \<longrightarrow> (\<exists>t\<in>er_allowed_source_types er. t \<in> primary_source_types)))"
proof -
  have u: "UnknownSource \<notin> primary_source_types" by (simp add: primary_source_types_def)
  have a: "A - {UnknownSource} = {} \<longleftrightarrow> \<not> (\<exists>t\<in>A. t \<noteq> UnknownSource)" for A by auto
  have b: "(A - {UnknownSource}) \<inter> primary_source_types = {} \<longleftrightarrow> \<not> (\<exists>t\<in>A. t \<in> primary_source_types)" for A
    using u by auto
  show ?thesis unfolding is_unexecutable_def Let_def a b list_ex_iff by (simp split: if_split)
qed

lemma semantic_codes_empty:
  "semantic_codes env depth p request budget gen = {} \<longleftrightarrow> plan_fits env depth p request budget gen"
proof -
  have b: "\<not> is_over_budget (ve_sizes env) p b request depth gen \<longleftrightarrow>
      (let searches = depth * int (length (rp_subquestions p)); pages = required_pages depth p in
          node_sum b ru_search_calls + searches \<le> rb_max_search_calls b \<and>
          node_sum b ru_pages + pages \<le> rb_max_pages b \<and>
          node_sum b ru_total_tokens + 1000 * (1 + searches + pages) +
            p1_prompt_token_upper_bound (ve_sizes env) p (if gen then request else None) depth
            \<le> rb_max_total_tokens b)" for b
    unfolding is_over_budget_def Let_def by auto
  show ?thesis
    unfolding semantic_codes_def plan_fits_def b [symmetric] executable_iff [symmetric] scope_iff [symmetric]
    by (cases request; cases budget) (simp_all split: if_split)
qed

lemma code_order_all: "set code_order = UNIV"
proof -
  have "c \<in> set code_order" for c by (cases c) (simp_all add: code_order_def)
  then show ?thesis by blast
qed

lemma ordered_codes_Nil: "ordered_codes codes = [] \<longleftrightarrow> codes = {}"
  using code_order_all by (auto simp: ordered_codes_def filter_empty_conv)

lemma raw_codes_empty:
  "fst (raw_codes env depth r request budget gen) = {} \<longleftrightarrow>
     graph_codes r = {} \<and> \<not> has_bool_for_numeric_field r \<and>
     (\<exists>p. ve_model_validate env r = ValidPlan p \<and> plan_fits env depth p request budget gen)"
  unfolding raw_codes_def Let_def semantic_codes_empty [symmetric]
  by (cases "ve_model_validate env r") (auto split: option.split)

lemma raw_codes_candidate:
  "snd (raw_codes env depth r request budget gen) = Some p \<longleftrightarrow> ve_model_validate env r = ValidPlan p"
  unfolding raw_codes_def Let_def by (cases "ve_model_validate env r") auto

lemma valid_report:
  assumes "vr_valid (validate_candidate env depth cand request budget artifact gen)"
  shows "\<exists>h v r p. candidate_value env cand = Some (h, v) \<and> reads h v (JDict r) \<and> within_bounds (JDict r) \<and>
    graph_codes r = {} \<and> \<not> has_bool_for_numeric_field r \<and> ve_model_validate env r = ValidPlan p \<and>
    plan_fits env depth p request budget gen \<and>
    vr_candidate (validate_candidate env depth cand request budget artifact gen) = Some p"
proof -
  let ?rep = "validate_candidate env depth cand request budget artifact gen"
  note v = assms
  have one: "vr_valid (report codes c a) \<longleftrightarrow> codes = {}" "vr_candidate (report codes c a) = c" for codes c a
    by (simp_all add: report_def ordered_codes_Nil)
  obtain h w where c: "candidate_value env cand = Some (h, w)"
    using v by (cases "candidate_value env cand") (auto simp: validate_candidate_def one)
  obtain s where s: "bounded_json_snapshot h w = Inr (Some s)"
    using v c by (auto simp: validate_candidate_def one split: sum.splits option.splits)
  obtain r where r: "s = JDict r"
    using v c s by (cases s) (auto simp: validate_candidate_def one)
  have e: "?rep = report (fst (raw_codes env depth r request budget gen)) (snd (raw_codes env depth r request budget gen)) artifact"
    using c s r by (simp add: validate_candidate_def split: prod.split)
  have "fst (raw_codes env depth r request budget gen) = {}" using v by (simp only: e one)
  then show ?thesis using c s [unfolded r] raw_codes_candidate [of env depth r request budget gen]
    unfolding e one raw_codes_empty snapshot_spec by blast
qed


end
