(* ===== verification/Fixed_Planner.thy ===== *)
theory Fixed_Planner
  imports Plan_Validation Provider_Errors Chunking
begin

text \<open>
  The fixed planner (\<^verbatim>\<open>src/src/deepresearch/planning/fixed.py\<close>): its ledger of model tokens, the
  creation of a plan with one repair, and the queries of a question, cached and asked for once at a
  time.  The texts of the prompts, the model, the artifact store and the outcome of each look at
  the cancellation token and the clock are arguments.  A stretch of code without an \<^verbatim>\<open>await\<close> is one
  step.
\<close>

section \<open>Errors\<close>

datatype fixed_error =
    ProviderFailed provider_error | PlanInvalid | FixedCancelled | FixedRaised exc

definition model_error :: "string \<Rightarrow> string \<Rightarrow> provider_code \<Rightarrow> string \<Rightarrow> fixed_error" where
  "model_error provider op code message = ProviderFailed
     \<lparr>pe_code = code, pe_provider = provider, pe_operation = op, pe_public_message = message,
      pe_retryable = False, pe_retry_after = None, pe_usage = None\<rparr>"

definition token_budget_error :: "string \<Rightarrow> fixed_error" where
  "token_budget_error provider =
     model_error provider ''model'' InvalidRequest ''model request exceeds remaining token budget''"

text \<open>One look at the token and the clock.\<close>

definition check_call_boundary :: "string \<Rightarrow> pyfloat \<Rightarrow> bool \<Rightarrow> pyfloat \<Rightarrow> fixed_error option" where
  "check_call_boundary provider deadline cancelled now =
     (if cancelled then Some FixedCancelled
      else if \<not> isfinite deadline
      then Some (model_error provider ''model'' InvalidRequest ''deadline must be a finite absolute monotonic deadline'')
      else if fle deadline now then Some (model_error provider ''model'' Timeout ''model deadline expired'')
      else None)"

section \<open>Bounding JSON\<close>

text \<open>\<open>boundary\<close> is the content boundary; \<open>keys\<close> says whether it bounds the keys of mappings, too.\<close>

fun bound_json :: "(string \<Rightarrow> string) \<Rightarrow> bool \<Rightarrow> json \<Rightarrow> exc + json"
  and bound_items :: "(string \<Rightarrow> string) \<Rightarrow> bool \<Rightarrow> json list \<Rightarrow> exc + json list"
  and bound_members :: "(string \<Rightarrow> string) \<Rightarrow> bool \<Rightarrow> (string \<times> json) list \<Rightarrow> (string \<times> json) list \<Rightarrow> exc + (string \<times> json) list" where
  "bound_json boundary keys (JStr s) = Inr (JStr (boundary s))"
| "bound_json boundary keys (JList vs) = rbind (bound_items boundary keys vs) (\<lambda>ws. Inr (JList ws))"
| "bound_json boundary keys (JDict kvs) = rbind (bound_members boundary keys [] kvs) (\<lambda>kws. Inr (JDict kws))"
| "bound_json boundary keys v = Inr v"
| "bound_items boundary keys [] = Inr []"
| "bound_items boundary keys (v # vs) =
     rbind (bound_json boundary keys v) (\<lambda>w. rbind (bound_items boundary keys vs) (\<lambda>ws. Inr (w # ws)))"
| "bound_members boundary keys acc [] = Inr acc"
| "bound_members boundary keys acc ((k, v) # kvs) =
     (let k' = (if keys then boundary k else k) in
      if k' \<in> set (dkeys acc) then Inl (ValueError ''content boundary produced duplicate mapping keys'')
      else rbind (bound_json boundary keys v) (\<lambda>w. bound_members boundary keys (acc @ [(k', w)]) kvs))"

section \<open>What a rejected candidate may be shown as\<close>

definition max_repair_json_depth :: nat where "max_repair_json_depth = 64"
definition max_repair_json_nodes :: nat where "max_repair_json_nodes = 20000"
definition max_repair_candidate_chars :: nat where "max_repair_candidate_chars = 1000000"

text \<open>The loop over the stack; the last item pushed is the first popped.\<close>

fun json_children :: "json \<Rightarrow> json list" where
  "json_children (JList vs) = vs"
| "json_children (JDict kvs) = map snd kvs"
| "json_children _ = []"

fun bad_scalar :: "json \<Rightarrow> bool" where
  "bad_scalar (JFloat x) = (\<not> isfinite x)"
| "bad_scalar (JFrozen _) = True"
| "bad_scalar _ = False"

definition stack_size :: "(json \<times> nat) list \<Rightarrow> nat" where
  "stack_size st = sum_list (map (json_nodes \<circ> fst) st)"

lemma children_nodes: "sum_list (map json_nodes (json_children v)) < json_nodes v"
  by (cases v) (simp_all add: comp_def case_prod_unfold)

lemma stack_pushed: "stack_size (rev (map (\<lambda>c. (c, d)) (json_children v)) @ st) < stack_size ((v, e) # st)"
  using children_nodes [of v] by (simp add: stack_size_def comp_def flip: rev_map)

function repair_loop :: "(json \<times> nat) list \<Rightarrow> nat \<Rightarrow> bool" where
  "repair_loop [] n = True"
| "repair_loop ((item, depth) # st) n =
     (if max_repair_json_nodes < Suc n \<or> max_repair_json_depth < depth then False
      else if bad_scalar item then False
      else repair_loop (rev (map (\<lambda>c. (c, Suc depth)) (json_children item)) @ st) (Suc n))"
  by pat_completeness auto
termination
  by (relation "measure (\<lambda>(st, n). stack_size st)") (simp, simp only: in_measure prod.case stack_pushed)

definition repair_candidate :: "(string \<Rightarrow> json option) \<Rightarrow> string \<Rightarrow> json option" where
  "repair_candidate loads raw =
     (if max_repair_candidate_chars < length raw then None
      else case loads raw of
        None \<Rightarrow> None
      | Some parsed \<Rightarrow> if repair_loop [(parsed, 0)] 0 then Some parsed else None)"

section \<open>The ledger of model tokens\<close>

type_synonym query_key = "string \<times> string \<times> string"

record query_gate =
  qg_locked :: bool
  qg_users :: int

record fixed_planner =
  fp_budget :: run_budget
  fp_search_depth :: int
  fp_prompt_version :: string
  fp_provider :: string
  fp_model_tokens_used :: int
  fp_model_tokens_reserved :: int
  fp_query_cache :: "query_key \<rightharpoonup> string list"
  fp_query_locks :: "query_key \<rightharpoonup> query_gate"

definition initial_model_tokens :: "fixed_planner \<Rightarrow> int" where
  "initial_model_tokens fp = node_sum (fp_budget fp) ru_total_tokens"

definition mk_fixed_planner :: "run_budget \<Rightarrow> int \<Rightarrow> string \<Rightarrow> string \<Rightarrow> exc + fixed_planner" where
  "mk_fixed_planner budget depth version provider =
     (if depth \<le> 0 then Inl (ValueError ''search_depth must be a positive integer'')
      else if blank version then Inl (ValueError ''prompt_version must not be empty'')
      else Inr \<lparr>fp_budget = budget, fp_search_depth = depth, fp_prompt_version = version, fp_provider = provider,
        fp_model_tokens_used = 0, fp_model_tokens_reserved = 0, fp_query_cache = Map.empty, fp_query_locks = Map.empty\<rparr>)"

text \<open>A request counts by the texts of its messages and the tokens it may answer.\<close>

record model_request =
  mq_contents :: "string list"
  mq_max_output_tokens :: int

definition request_token_upper_bound :: "model_request \<Rightarrow> int" where
  "request_token_upper_bound r = 512 + int (sum_list (map utf8_size (mq_contents r))) + mq_max_output_tokens r"

definition remaining_token_budget :: "run_budget \<Rightarrow> int" where
  "remaining_token_budget b = max 0 (rb_max_total_tokens b - node_sum b ru_total_tokens)"

definition ensure_request_within_budget :: "model_request \<Rightarrow> run_budget \<Rightarrow> string \<Rightarrow> fixed_error option" where
  "ensure_request_within_budget r b provider =
     (if remaining_token_budget b < request_token_upper_bound r then Some (token_budget_error provider) else None)"

definition free_model_tokens :: "fixed_planner \<Rightarrow> int" where
  "free_model_tokens fp = rb_max_total_tokens (fp_budget fp) - initial_model_tokens fp -
     fp_model_tokens_used fp - fp_model_tokens_reserved fp"

definition remaining_model_tokens :: "fixed_planner \<Rightarrow> int" where
  "remaining_model_tokens fp = max 0 (free_model_tokens fp)"

definition reserve_request :: "fixed_planner \<Rightarrow> model_request \<Rightarrow> (int \<times> fixed_planner) option" where
  "reserve_request fp r =
     (let reservation = request_token_upper_bound r in
      if free_model_tokens fp < reservation then None
      else Some (reservation, fp\<lparr>fp_model_tokens_reserved := fp_model_tokens_reserved fp + reservation\<rparr>))"

definition settle_request :: "fixed_planner \<Rightarrow> int \<Rightarrow> int option \<Rightarrow> bool \<times> fixed_planner" where
  "settle_request fp reservation actual =
     (let fp' = fp\<lparr>fp_model_tokens_reserved := fp_model_tokens_reserved fp - reservation,
                  fp_model_tokens_used := fp_model_tokens_used fp + (case actual of None \<Rightarrow> 0 | Some t \<Rightarrow> t)\<rparr>
      in (initial_model_tokens fp' + fp_model_tokens_used fp' + fp_model_tokens_reserved fp'
            \<le> rb_max_total_tokens (fp_budget fp'), fp'))"

definition effective_budget :: "fixed_planner \<Rightarrow> run_budget" where
  "effective_budget fp =
     (let b = fp_budget fp;
          u = (case rb_used_by_node b Planner of None \<Rightarrow> usage_zero False | Some u \<Rightarrow> u)
      in b\<lparr>rb_used_by_node := (rb_used_by_node b)(Planner \<mapsto>
           u\<lparr>ru_input_tokens := ru_input_tokens u + fp_model_tokens_used fp,
             ru_total_tokens := ru_total_tokens u + fp_model_tokens_used fp\<rparr>)\<rparr>)"

section \<open>Creating a plan\<close>

text \<open>What the model answers to a completion, with the tokens it used.\<close>

datatype completion = Completed string int | CompletionFailed provider_error | CompletionInterrupted fixed_error

text \<open>
  The world of a plan creation: one look at token and clock, the completion, the artifact store;
  and the texts of the prompts.  The characters of a string are below 256, so encoding one never
  fails.
\<close>

record 'w plan_world =
  pw_boundary :: "'w \<Rightarrow> fixed_error option \<times> 'w"
  pw_complete :: "model_request \<Rightarrow> 'w \<Rightarrow> completion \<times> 'w"
  pw_put :: "string \<Rightarrow> 'w \<Rightarrow> (fixed_error + string) \<times> 'w"
  pw_plan_prompt :: "research_request \<Rightarrow> fixed_error + string list"
  pw_repair_prompt :: "json option \<Rightarrow> plan_code list \<Rightarrow> string list"
  pw_loads :: "string \<Rightarrow> json option"
  pw_content_boundary :: "string \<Rightarrow> string"

type_synonym ('w, 'a) planning = "fixed_planner \<times> 'w \<Rightarrow> (fixed_error + 'a) \<times> fixed_planner \<times> 'w"

definition boundary_step :: "'w plan_world \<Rightarrow> ('w, unit) planning" where
  "boundary_step W s =
     (let (e, w) = pw_boundary W (snd s) in ((case e of None \<Rightarrow> Inr () | Some x \<Rightarrow> Inl x), fst s, w))"

definition pbind :: "('w, 'a) planning \<Rightarrow> ('a \<Rightarrow> ('w, 'b) planning) \<Rightarrow> ('w, 'b) planning" where
  "pbind m f s = (case m s of (Inl e, s') \<Rightarrow> (Inl e, s') | (Inr x, s') \<Rightarrow> f x s')"

definition plan_output_tokens :: "run_budget \<Rightarrow> int" where
  "plan_output_tokens b = max 1 (min 8000 (rb_max_total_tokens b))"

definition plan_request :: "'w plan_world \<Rightarrow> fixed_planner \<Rightarrow> research_request \<Rightarrow> fixed_error + model_request" where
  "plan_request W fp request =
     rbind (pw_plan_prompt W request) (\<lambda>contents.
     let r = \<lparr>mq_contents = contents, mq_max_output_tokens = plan_output_tokens (fp_budget fp)\<rparr> in
     case ensure_request_within_budget r (fp_budget fp) (fp_provider fp) of Some e \<Rightarrow> Inl e | None \<Rightarrow> Inr r)"

definition repair_requests :: "'w plan_world \<Rightarrow> fixed_planner \<Rightarrow> string \<Rightarrow> plan_code list \<Rightarrow>
    fixed_error + model_request \<times> model_request option" where
  "repair_requests W fp raw codes =
     (let remaining = remaining_model_tokens fp;
          rejected = (if remaining < int (length raw) \<or> remaining < int (utf8_size raw) then None
                      else repair_candidate (pw_loads W) raw);
          build = (\<lambda>c. \<lparr>mq_contents = pw_repair_prompt W c codes, mq_max_output_tokens = plan_output_tokens (fp_budget fp)\<rparr>)
      in case rejected of
           None \<Rightarrow> Inr (build None, None)
         | Some v \<Rightarrow>
             (case bound_json (pw_content_boundary W) True v of
                Inl e \<Rightarrow> Inl (FixedRaised e)
              | Inr JNull \<Rightarrow> Inr (build None, None)
              | Inr bounded \<Rightarrow> Inr (build (Some bounded), Some (build None))))"

definition reserve_with_fallback :: "fixed_planner \<Rightarrow> model_request \<Rightarrow> model_request option \<Rightarrow>
    (model_request \<times> int \<times> fixed_planner) option" where
  "reserve_with_fallback fp request fallback =
     (case reserve_request fp request of
        Some (n, fp') \<Rightarrow> Some (request, n, fp')
      | None \<Rightarrow> (case fallback of
          None \<Rightarrow> None
        | Some request' \<Rightarrow> map_option (\<lambda>(n, fp'). (request', n, fp')) (reserve_request fp request')))"

definition settle_step :: "int \<Rightarrow> int option \<Rightarrow> ('w, bool) planning" where
  "settle_step n actual s = (let (ok, fp) = settle_request (fst s) n actual in (Inr ok, fp, snd s))"

definition fail_step :: "fixed_error \<Rightarrow> ('w, 'a) planning" where
  "fail_step e s = (Inl e, s)"

definition put_step :: "'w plan_world \<Rightarrow> string \<Rightarrow> ('w, string) planning" where
  "put_step W raw s = (let (r, w) = pw_put W raw (snd s) in (r, fst s, w))"

definition generate_candidate :: "'w plan_world \<Rightarrow> model_request \<Rightarrow> model_request option \<Rightarrow> ('w, string \<times> string) planning" where
  "generate_candidate W request fallback =
     pbind (boundary_step W) (\<lambda>_ s.
     case reserve_with_fallback (fst s) request fallback of
       None \<Rightarrow> (Inl (token_budget_error (fp_provider (fst s))), s)
     | Some (request', n, fp) \<Rightarrow>
         (case boundary_step W (fp, snd s) of
            (Inl e, s1) \<Rightarrow> pbind (settle_step n None) (\<lambda>_. fail_step e) s1
          | (Inr _, s1) \<Rightarrow>
              (case pw_complete W request' (snd s1) of
                 (CompletionFailed e, w) \<Rightarrow>
                   pbind (settle_step n (map_option ru_total_tokens (pe_usage e)))
                     (\<lambda>_. fail_step (ProviderFailed e)) (fst s1, w)
               | (CompletionInterrupted e, w) \<Rightarrow> pbind (settle_step n None) (\<lambda>_. fail_step e) (fst s1, w)
               | (Completed raw tokens, w) \<Rightarrow>
                   pbind (settle_step n (Some tokens)) (\<lambda>publishable.
                   pbind (boundary_step W) (\<lambda>_.
                   pbind (boundary_step W) (\<lambda>_.
                   pbind (put_step W raw) (\<lambda>artifact s4.
                     if \<not> publishable then (Inl (token_budget_error (fp_provider (fst s4))), s4)
                     else (Inr (raw, artifact), s4))))) (fst s1, w))))"

definition validate_step :: "validator_env \<Rightarrow> research_request \<Rightarrow> string \<Rightarrow> string \<Rightarrow> ('w, plan_report) planning" where
  "validate_step env request raw artifact s =
     (Inr (validate_candidate env (fp_search_depth (fst s)) (TextCandidate raw) (Some request)
        (Some (effective_budget (fst s))) (Some artifact) False), s)"

definition lift_step :: "(fixed_planner \<Rightarrow> fixed_error + 'a) \<Rightarrow> ('w, 'a) planning" where
  "lift_step f s = (f (fst s), s)"

text \<open>The candidate of a valid report.\<close>

definition accepted_plan :: "plan_report \<Rightarrow> research_plan option" where
  "accepted_plan rep = (if vr_valid rep then vr_candidate rep else None)"

definition repair_plan :: "validator_env \<Rightarrow> 'w plan_world \<Rightarrow> research_request \<Rightarrow> string \<Rightarrow> plan_code list \<Rightarrow>
    ('w, research_plan) planning" where
  "repair_plan env W request raw codes =
     pbind (lift_step (\<lambda>fp. repair_requests W fp raw codes)) (\<lambda>(repair, fallback).
     pbind (generate_candidate W repair fallback) (\<lambda>(raw', artifact').
     pbind (validate_step env request raw' artifact') (\<lambda>repaired.
     pbind (boundary_step W) (\<lambda>_ s.
       ((case accepted_plan repaired of None \<Rightarrow> Inl PlanInvalid | Some p \<Rightarrow> Inr p), s)))))"

definition create_plan :: "validator_env \<Rightarrow> 'w plan_world \<Rightarrow> research_request \<Rightarrow> ('w, research_plan) planning" where
  "create_plan env W request =
     pbind (boundary_step W) (\<lambda>_.
     pbind (lift_step (\<lambda>fp. plan_request W fp request)) (\<lambda>initial.
     pbind (generate_candidate W initial None) (\<lambda>(raw, artifact).
     pbind (validate_step env request raw artifact) (\<lambda>rep.
     pbind (boundary_step W) (\<lambda>_.
       case accepted_plan rep of
         Some p \<Rightarrow> (\<lambda>s. (Inr p, s))
       | None \<Rightarrow> repair_plan env W request raw (vr_error_codes rep))))))"

section \<open>What a plan creation does to the ledger\<close>

text \<open>\<open>cnt\<close> counts the calls of the model: only a completion raises it, and by one.\<close>

definition counts :: "'w plan_world \<Rightarrow> ('w \<Rightarrow> nat) \<Rightarrow> bool" where
  "counts W cnt \<longleftrightarrow> (\<forall>w. cnt (snd (pw_boundary W w)) = cnt w) \<and> (\<forall>raw w. cnt (snd (pw_put W raw w)) = cnt w) \<and>
     (\<forall>r w. cnt (snd (pw_complete W r w)) = Suc (cnt w))"

text \<open>A step that changes only the count of used tokens and calls the model at most \<open>k\<close> times.\<close>

definition spends :: "('w \<Rightarrow> nat) \<Rightarrow> nat \<Rightarrow> ('w, 'a) planning \<Rightarrow> bool" where
  "spends cnt k m \<longleftrightarrow> (\<forall>fp w. \<exists>r u w'. m (fp, w) = (r, fp\<lparr>fp_model_tokens_used := u\<rparr>, w') \<and> cnt w' \<le> cnt w + k)"

lemma spendsI:
  "(\<And>fp w. \<exists>r u w'. m (fp, w) = (r, fp\<lparr>fp_model_tokens_used := u\<rparr>, w') \<and> cnt w' \<le> cnt w + k) \<Longrightarrow> spends cnt k m"
  by (simp add: spends_def)

lemma spendsD: "spends cnt k m \<Longrightarrow> \<exists>r u w'. m (fp, w) = (r, fp\<lparr>fp_model_tokens_used := u\<rparr>, w') \<and> cnt w' \<le> cnt w + k"
  unfolding spends_def by blast

lemma spends_pbind:
  assumes "spends cnt k m" "\<And>x. spends cnt j (f x)"
  shows "spends cnt (k + j) (pbind m f)"
proof (rule spendsI)
  fix fp w
  obtain r u w1 where 1: "m (fp, w) = (r, fp\<lparr>fp_model_tokens_used := u\<rparr>, w1)" "cnt w1 \<le> cnt w + k"
    using spendsD [OF assms(1)] by blast
  show "\<exists>r u w'. pbind m f (fp, w) = (r, fp\<lparr>fp_model_tokens_used := u\<rparr>, w') \<and> cnt w' \<le> cnt w + (k + j)"
  proof (cases r)
    case (Inl e)
    with 1 show ?thesis by (auto simp: pbind_def)
  next
    case (Inr x)
    obtain r' u' w2 where "f x (fp\<lparr>fp_model_tokens_used := u\<rparr>, w1) = (r', fp\<lparr>fp_model_tokens_used := u\<rparr>\<lparr>fp_model_tokens_used := u'\<rparr>, w2)"
      "cnt w2 \<le> cnt w1 + j" using spendsD [OF assms(2)] by blast
    with 1 Inr show ?thesis by (auto simp: pbind_def)
  qed
qed

lemma spends0I:
  assumes "\<And>fp w. \<exists>r w'. m (fp, w) = (r, fp, w') \<and> cnt w' = cnt w"
  shows "spends cnt 0 m"
proof (rule spendsI)
  fix fp w
  obtain r w' where "m (fp, w) = (r, fp, w')" "cnt w' = cnt w" using assms by blast
  then show "\<exists>r u w'. m (fp, w) = (r, fp\<lparr>fp_model_tokens_used := u\<rparr>, w') \<and> cnt w' \<le> cnt w + 0"
    by (intro exI [of _ r] exI [of _ "fp_model_tokens_used fp"] exI [of _ w']) simp
qed

lemma spends_pure: "spends cnt 0 (\<lambda>s. (g s, s))"
  by (rule spends0I) simp

lemma spends_boundary: "counts W cnt \<Longrightarrow> spends cnt 0 (boundary_step W)"
  by (rule spends0I) (simp add: boundary_step_def counts_def prod.case_eq_if)

lemma spends_put: "counts W cnt \<Longrightarrow> spends cnt 0 (put_step W raw)"
  by (rule spends0I) (simp add: put_step_def counts_def prod.case_eq_if)

lemma ex_used [simp]: "\<exists>u. fp = fp\<lparr>fp_model_tokens_used := u\<rparr>" for fp :: fixed_planner
  by (rule exI [of _ "fp_model_tokens_used fp"]) simp

lemma settle_reserved:
  "snd (settle_request (fp\<lparr>fp_model_tokens_reserved := fp_model_tokens_reserved fp + n\<rparr>) n actual) =
     fp\<lparr>fp_model_tokens_used := fp_model_tokens_used fp + (case actual of None \<Rightarrow> 0 | Some t \<Rightarrow> t)\<rparr>"
  by (simp add: settle_request_def Let_def)

lemma reserve_fallback_Some:
  "reserve_with_fallback fp request fallback = Some (r, n, fp') \<Longrightarrow>
     fp' = fp\<lparr>fp_model_tokens_reserved := fp_model_tokens_reserved fp + n\<rparr> \<and> n = request_token_upper_bound r \<and>
     n \<le> free_model_tokens fp"
  by (auto simp: reserve_with_fallback_def reserve_request_def Let_def split: option.splits if_splits)

text \<open>After the settlement: look twice, store the text, and publish it if the tokens were within the budget.\<close>

definition publish :: "'w plan_world \<Rightarrow> string \<Rightarrow> bool \<Rightarrow> ('w, string \<times> string) planning" where
  "publish W raw publishable =
     pbind (boundary_step W) (\<lambda>_. pbind (boundary_step W) (\<lambda>_. pbind (put_step W raw) (\<lambda>artifact s4.
       if \<not> publishable then (Inl (token_budget_error (fp_provider (fst s4))), s4) else (Inr (raw, artifact), s4))))"

lemma spends_publish: "counts W cnt \<Longrightarrow> spends cnt 0 (publish W raw ok)"
proof -
  assume c: "counts W cnt"
  have "spends cnt 0 (\<lambda>s4. if \<not> ok then (Inl (token_budget_error (fp_provider (fst s4))), s4) else (Inr (raw, a), s4))" for a
    by (cases ok) (simp_all add: spends_pure)
  note inner = spends_pbind [OF spends_put [OF c] this, of raw]
  from spends_pbind [OF spends_boundary [OF c] spends_pbind [OF spends_boundary [OF c] inner]]
  show ?thesis unfolding publish_def by simp
qed

lemma pbind_settle:
  "pbind (settle_step n actual) f (fp\<lparr>fp_model_tokens_reserved := fp_model_tokens_reserved fp + n\<rparr>, w) =
     (let fp1 = fp\<lparr>fp_model_tokens_used := fp_model_tokens_used fp + (case actual of None \<Rightarrow> 0 | Some t \<Rightarrow> t)\<rparr>
      in f (0 \<le> free_model_tokens fp1) (fp1, w))"
  by (simp add: pbind_def settle_step_def settle_request_def Let_def free_model_tokens_def initial_model_tokens_def algebra_simps)

lemma generate_candidate_spends:
  assumes c: "counts W cnt"
  shows "spends cnt 1 (generate_candidate W request fallback)"
proof -
  have inner: "spends cnt 1 (\<lambda>s. case reserve_with_fallback (fst s) request fallback of
       None \<Rightarrow> (Inl (token_budget_error (fp_provider (fst s))), s)
     | Some (request', n, fp) \<Rightarrow>
         (case boundary_step W (fp, snd s) of
            (Inl e, s1) \<Rightarrow> pbind (settle_step n None) (\<lambda>_. fail_step e) s1
          | (Inr _, s1) \<Rightarrow>
              (case pw_complete W request' (snd s1) of
                 (CompletionFailed e, w) \<Rightarrow>
                   pbind (settle_step n (map_option ru_total_tokens (pe_usage e)))
                     (\<lambda>_. fail_step (ProviderFailed e)) (fst s1, w)
               | (CompletionInterrupted e, w) \<Rightarrow> pbind (settle_step n None) (\<lambda>_. fail_step e) (fst s1, w)
               | (Completed raw tokens, w) \<Rightarrow> pbind (settle_step n (Some tokens)) (publish W raw) (fst s1, w))))"
    (is "spends cnt 1 ?m")
  proof (rule spendsI)
    fix fp w
    show "\<exists>r u w'. ?m (fp, w) = (r, fp\<lparr>fp_model_tokens_used := u\<rparr>, w') \<and> cnt w' \<le> cnt w + 1"
    proof (cases "reserve_with_fallback fp request fallback")
      case None
      then show ?thesis by (auto intro!: exI [of _ "fp_model_tokens_used fp"])
    next
      case (Some x)
      then obtain rq n fp' where x: "reserve_with_fallback fp request fallback = Some (rq, n, fp')" by (cases x) auto
      then have fp': "fp' = fp\<lparr>fp_model_tokens_reserved := fp_model_tokens_reserved fp + n\<rparr>"
        by (blast dest: reserve_fallback_Some)
      obtain b w1 where b: "pw_boundary W w = (b, w1)" by (cases "pw_boundary W w")
      have w1: "cnt w1 = cnt w" using c b by (metis counts_def snd_conv)
      obtain a w2 where a: "pw_complete W rq w1 = (a, w2)" by (cases "pw_complete W rq w1")
      have w2: "cnt w2 = Suc (cnt w)" using c a w1 by (metis counts_def snd_conv)
      have pub: "\<exists>r u w'. publish W raw ok (fp\<lparr>fp_model_tokens_used := v\<rparr>, w2) = (r, fp\<lparr>fp_model_tokens_used := u\<rparr>, w') \<and> cnt w' \<le> cnt w2"
        for raw ok v
        using spendsD [OF spends_publish [OF c, of raw ok], of "fp\<lparr>fp_model_tokens_used := v\<rparr>" w2] by simp
      show ?thesis
        using w1 w2 pub by (cases b; cases a) (auto simp: x b a boundary_step_def fp' pbind_settle Let_def fail_step_def)
    qed
  qed
  have "generate_candidate W request fallback = pbind (boundary_step W) (\<lambda>_. (\<lambda>s. case reserve_with_fallback (fst s) request fallback of
       None \<Rightarrow> (Inl (token_budget_error (fp_provider (fst s))), s)
     | Some (request', n, fp) \<Rightarrow>
         (case boundary_step W (fp, snd s) of
            (Inl e, s1) \<Rightarrow> pbind (settle_step n None) (\<lambda>_. fail_step e) s1
          | (Inr _, s1) \<Rightarrow>
              (case pw_complete W request' (snd s1) of
                 (CompletionFailed e, w) \<Rightarrow>
                   pbind (settle_step n (map_option ru_total_tokens (pe_usage e)))
                     (\<lambda>_. fail_step (ProviderFailed e)) (fst s1, w)
               | (CompletionInterrupted e, w) \<Rightarrow> pbind (settle_step n None) (\<lambda>_. fail_step e) (fst s1, w)
               | (Completed raw tokens, w) \<Rightarrow> pbind (settle_step n (Some tokens)) (publish W raw) (fst s1, w)))))"
    unfolding generate_candidate_def publish_def ..
  with spends_pbind [OF spends_boundary [OF c] inner] show ?thesis by simp
qed

lemma spends_pbind0: "spends cnt 0 m \<Longrightarrow> (\<And>x. spends cnt k (f x)) \<Longrightarrow> spends cnt k (pbind m f)"
  using spends_pbind [of cnt 0 m k f] by simp

lemma spends_pbind1: "spends cnt 1 m \<Longrightarrow> (\<And>x. spends cnt k (f x)) \<Longrightarrow> spends cnt (Suc k) (pbind m f)"
  using spends_pbind [of cnt 1 m k f] by simp

lemma spends_prod: "(\<And>a b. spends cnt k (f a b)) \<Longrightarrow> spends cnt k (case x of (a, b) \<Rightarrow> f a b)"
  by (cases x) simp

lemma spends_steps: "spends cnt 0 (validate_step env request raw a)" "spends cnt 0 (lift_step g)"
  unfolding validate_step_def lift_step_def by (rule spends_pure)+

lemma spends_repair:
  assumes "counts W cnt"
  shows "spends cnt 1 (repair_plan env W request raw codes)"
  unfolding repair_plan_def One_nat_def
  by (intro spends_pbind0 [OF spends_steps(2)] spends_prod spends_pbind1 [OF generate_candidate_spends [OF assms]]
      spends_pbind0 [OF spends_steps(1)] spends_pbind0 [OF spends_boundary [OF assms]] spends_pure)

lemma spends_more: "spends cnt 0 m \<Longrightarrow> spends cnt k m"
  unfolding spends_def by (metis add_0_right le_add1 le_trans)

lemma spends_create:
  assumes "counts W cnt"
  shows "spends cnt 2 (create_plan env W request)"
proof -
  have "spends cnt 1 (case accepted_plan rep of Some p \<Rightarrow> (\<lambda>s. (Inr p, s))
       | None \<Rightarrow> repair_plan env W request raw (vr_error_codes rep))" for rep raw
    by (cases "accepted_plan rep") (simp_all add: spends_repair [OF assms, unfolded One_nat_def] spends_more [OF spends_pure])
  then show ?thesis unfolding create_plan_def numeral_2_eq_2
    by (intro spends_pbind0 [OF spends_steps(2)] spends_prod spends_pbind1 [OF generate_candidate_spends [OF assms]]
      spends_pbind0 [OF spends_steps(1)] spends_pbind0 [OF spends_boundary [OF assms]]) simp
qed

text \<open>What is known of a result.\<close>

definition yields :: "('w, 'a) planning \<Rightarrow> ('a \<Rightarrow> fixed_planner \<Rightarrow> bool) \<Rightarrow> bool" where
  "yields m R \<longleftrightarrow> (\<forall>s x s'. m s = (Inr x, s') \<longrightarrow> R x (fst s'))"

lemma yieldsD: "yields m R \<Longrightarrow> m s = (Inr x, s') \<Longrightarrow> R x (fst s')"
  unfolding yields_def by blast

lemma pbind_Inr: "pbind m f s = (Inr y, s') \<longleftrightarrow> (\<exists>x s1. m s = (Inr x, s1) \<and> f x s1 = (Inr y, s'))"
  by (cases "m s"; cases "fst (m s)") (auto simp: pbind_def)

lemma yields_pbind:
  assumes "yields m Q" "\<And>x fp w y s'. Q x fp \<Longrightarrow> f x (fp, w) = (Inr y, s') \<Longrightarrow> R y (fst s')"
  shows "yields (pbind m f) R"
  unfolding yields_def
proof (intro allI impI)
  fix s y s' assume "pbind m f s = (Inr y, s')"
  then obtain x s1 where "m s = (Inr x, s1)" "f x s1 = (Inr y, s')" by (auto simp: pbind_Inr)
  with yieldsD [OF assms(1)] assms(2) [of x "fst s1" "snd s1" y s'] show "R y (fst s')" by simp
qed

lemma boundary_same: "boundary_step W s = (r, s') \<Longrightarrow> fst s' = fst s"
  by (auto simp: boundary_step_def split: prod.splits)

lemma put_same: "put_step W raw s = (r, s') \<Longrightarrow> fst s' = fst s"
  by (auto simp: put_step_def split: prod.splits)

lemma publish_funded:
  assumes "publish W raw ok s = (Inr x, s')"
  shows "ok \<and> fst s' = fst s \<and> fst x = raw"
proof -
  from assms obtain u v a s1 s2 s3 where "boundary_step W s = (Inr u, s1)" "boundary_step W s1 = (Inr v, s2)"
    "put_step W raw s2 = (Inr a, s3)"
    "(if \<not> ok then (Inl (token_budget_error (fp_provider (fst s3))), s3) else (Inr (raw, a), s3)) = (Inr x, s')"
    by (simp only: publish_def pbind_Inr) blast
  then show ?thesis using boundary_same [of W s] boundary_same [of W s1] put_same [of W raw s2] by (auto split: if_splits)
qed

text \<open>A published candidate was paid for: what is used and reserved together stays within the budget.\<close>

definition funded :: "fixed_planner \<Rightarrow> bool" where
  "funded fp \<longleftrightarrow> 0 \<le> free_model_tokens fp"

lemma generate_funded: "yields (generate_candidate W request fallback) (\<lambda>x fp. funded fp)"
  unfolding yields_def
proof (intro allI impI)
  fix s x s' assume run: "generate_candidate W request fallback s = (Inr x, s')"
  from run [unfolded generate_candidate_def pbind_Inr] obtain u s1 where s1: "boundary_step W s = (Inr u, s1)"
    and r: "(case reserve_with_fallback (fst s1) request fallback of
       None \<Rightarrow> (Inl (token_budget_error (fp_provider (fst s1))), s1)
     | Some (request', n, fp) \<Rightarrow>
         (case boundary_step W (fp, snd s1) of
            (Inl e, s1) \<Rightarrow> pbind (settle_step n None) (\<lambda>_. fail_step e) s1
          | (Inr _, s1) \<Rightarrow>
              (case pw_complete W request' (snd s1) of
                 (CompletionFailed e, w) \<Rightarrow>
                   pbind (settle_step n (map_option ru_total_tokens (pe_usage e)))
                     (\<lambda>_. fail_step (ProviderFailed e)) (fst s1, w)
               | (CompletionInterrupted e, w) \<Rightarrow> pbind (settle_step n None) (\<lambda>_. fail_step e) (fst s1, w)
               | (Completed raw tokens, w) \<Rightarrow> pbind (settle_step n (Some tokens)) (publish W raw) (fst s1, w)))) = (Inr x, s')"
    unfolding publish_def [symmetric, abs_def] by blast
  from r obtain rq n fp where x: "reserve_with_fallback (fst s1) request fallback = Some (rq, n, fp)"
    by (cases "reserve_with_fallback (fst s1) request fallback") auto
  obtain b s2 where b: "boundary_step W (fp, snd s1) = (b, s2)" by (cases "boundary_step W (fp, snd s1)")
  obtain a w2 where a: "pw_complete W rq (snd s2) = (a, w2)" by (cases "pw_complete W rq (snd s2)")
  have fp: "fp = (fst s1)\<lparr>fp_model_tokens_reserved := fp_model_tokens_reserved (fst s1) + n\<rparr>"
    using reserve_fallback_Some [OF x] by simp
  have s2: "fst s2 = fp" using boundary_same [OF b] by simp
  show "funded (fst s')"
  proof (cases b)
    case (Inl e)
    with r show ?thesis by (simp add: x b pbind_Inr fail_step_def)
  next
    case (Inr v)
    with r a have "case a of Completed raw tokens \<Rightarrow> pbind (settle_step n (Some tokens)) (publish W raw) (fst s2, w2) = (Inr x, s')
        | _ \<Rightarrow> False"
      by (cases a) (simp_all add: x b pbind_Inr fail_step_def)
    then obtain raw tokens where "pbind (settle_step n (Some tokens)) (publish W raw) (fst s2, w2) = (Inr x, s')"
      by (cases a) auto
    then show ?thesis unfolding s2 fp pbind_settle Let_def funded_def using publish_funded by fastforce
  qed
qed

text \<open>The plan was accepted against the budget that is left after the model calls.\<close>

definition approved :: "validator_env \<Rightarrow> research_request \<Rightarrow> research_plan \<Rightarrow> fixed_planner \<Rightarrow> bool" where
  "approved env request p fp \<longleftrightarrow> funded fp \<and>
     (\<exists>h v r. reads h v (JDict r) \<and> within_bounds (JDict r) \<and> graph_codes r = {} \<and>
        ve_model_validate env r = ValidPlan p) \<and>
     plan_fits env (fp_search_depth fp) p (Some request) (Some (effective_budget fp)) False"

lemma accepted_approved:
  assumes "validate_step env request raw a s = (Inr rep, s1)" "accepted_plan rep = Some p" "funded (fst s)"
  shows "approved env request p (fst s1)"
proof -
  let ?rep = "validate_candidate env (fp_search_depth (fst s)) (TextCandidate raw) (Some request)
        (Some (effective_budget (fst s))) (Some a) False"
  from assms(1) have r: "rep = ?rep" "s1 = s" by (auto simp: validate_step_def)
  with assms(2) have v: "vr_valid ?rep" "vr_candidate ?rep = Some p" by (auto simp: accepted_plan_def split: if_splits)
  from valid_report [OF v(1)] v(2) obtain h w kvs where "reads h w (JDict kvs)" "within_bounds (JDict kvs)" "graph_codes kvs = {}"
    "ve_model_validate env kvs = ValidPlan p"
    "plan_fits env (fp_search_depth (fst s)) p (Some request) (Some (effective_budget (fst s))) False" by auto
  with assms(3) r(2) show ?thesis unfolding approved_def by blast
qed

lemma validate_same: "validate_step env request raw a s = (r, s1) \<Longrightarrow> s1 = s"
  by (simp add: validate_step_def)

lemma lift_same: "lift_step f s = (r, s1) \<Longrightarrow> s1 = s"
  by (simp add: lift_step_def)

lemma repair_approved: "yields (repair_plan env W request raw codes) (approved env request)"
  unfolding yields_def
proof (intro allI impI)
  fix s p s' assume "repair_plan env W request raw codes s = (Inr p, s')"
  then obtain rf s1 ra s2 rep s3 u s4 where run: "generate_candidate W (fst rf) (snd rf) s1 = (Inr ra, s2)"
    "validate_step env request (fst ra) (snd ra) s2 = (Inr rep, s3)" "boundary_step W s3 = (Inr u, s4)"
    "((case accepted_plan rep of None \<Rightarrow> Inl PlanInvalid | Some p \<Rightarrow> Inr p), s4) = (Inr p, s')"
    unfolding repair_plan_def pbind_Inr split_beta by blast
  have "funded (fst s2)" by (rule yieldsD [OF generate_funded run(1)])
  with accepted_approved [OF run(2)] run(4) have "approved env request p (fst s3)" by (auto split: option.splits)
  with boundary_same [OF run(3)] run(4) show "approved env request p (fst s')" by simp
qed

lemma create_approved: "yields (create_plan env W request) (approved env request)"
  unfolding yields_def
proof (intro allI impI)
  fix s p s' assume "create_plan env W request s = (Inr p, s')"
  then obtain initial s1 ra s2 rep s3 u s4 where run: "generate_candidate W initial None s1 = (Inr ra, s2)"
    "validate_step env request (fst ra) (snd ra) s2 = (Inr rep, s3)" "boundary_step W s3 = (Inr u, s4)"
    "(case accepted_plan rep of Some p \<Rightarrow> (\<lambda>s. (Inr p, s))
       | None \<Rightarrow> repair_plan env W request (fst ra) (vr_error_codes rep)) s4 = (Inr p, s')"
    unfolding create_plan_def pbind_Inr split_beta by blast
  have f: "funded (fst s2)" by (rule yieldsD [OF generate_funded run(1)])
  show "approved env request p (fst s')"
  proof (cases "accepted_plan rep")
    case None
    with run(4) yieldsD [OF repair_approved] show ?thesis by simp
  next
    case (Some q)
    with accepted_approved [OF run(2) _ f] run(4) boundary_same [OF run(3)] show ?thesis by simp
  qed
qed


definition demo_env :: validator_env where
  "demo_env = \<lparr>ve_decode = (\<lambda>_. None), ve_loads = (\<lambda>_. None), ve_dump = (\<lambda>_. ((\<lambda>_. CSeq []), ONone)),
     ve_model_validate = (\<lambda>_. ValidationCrash), ve_casefold = id, ve_fromiso = (\<lambda>_. None),
     ve_sizes = \<lparr>sz_request = (\<lambda>_. 0), sz_query = (\<lambda>_ _ _. 0)\<rparr>\<rparr>"

definition demo_world :: "nat plan_world" where
  "demo_world = \<lparr>pw_boundary = (\<lambda>w. (None, w)), pw_complete = (\<lambda>_ w. (Completed ''x'' 5, Suc w)),
     pw_put = (\<lambda>_ w. (Inr ''a'', w)), pw_plan_prompt = (\<lambda>_. Inr [''p'']), pw_repair_prompt = (\<lambda>_ _. [''r'']),
     pw_loads = (\<lambda>_. None), pw_content_boundary = id\<rparr>"

definition demo_fixed :: fixed_planner where
  "demo_fixed = \<lparr>fp_budget = preset Low, fp_search_depth = 2, fp_prompt_version = ''v'', fp_provider = ''m'',
     fp_model_tokens_used = 0, fp_model_tokens_reserved = 0, fp_query_cache = Map.empty, fp_query_locks = Map.empty\<rparr>"

definition demo_ask :: research_request where
  "demo_ask = \<lparr>rq_question = ''q'', rq_output_requirements = [], rq_report_language = ''en'', rq_source_languages = [''en''],
     rq_freshness_requirement = \<lparr>fr_kind = FreshNone, fr_published_after = None, fr_retrieved_within_days = None\<rparr>,
     rq_execution_mode = Live, rq_access_profile = Showcase, rq_provider_profile_id = ''p'', rq_run_purpose = Demo,
     rq_budget_preset = Low\<rparr>"


section \<open>Queries for a question\<close>

text \<open>The loop over the model's answers.\<close>

fun pick_queries :: "(string \<Rightarrow> string) \<Rightarrow> int \<Rightarrow> string list \<Rightarrow> string set \<Rightarrow> string list \<Rightarrow> string list" where
  "pick_queries nfc depth [] seen acc = acc"
| "pick_queries nfc depth (raw # raws) seen acc =
     (let q = normalize_text nfc raw;
          (seen', acc') = (if q \<noteq> [] \<and> q \<notin> seen then (insert q seen, acc @ [q]) else (seen, acc))
      in if int (length acc') = depth then acc' else pick_queries nfc depth raws seen' acc')"

datatype query_answer =
    QueriesAnswered "string list" int | QueriesFailed provider_error | QueriesInterrupted fixed_error

text \<open>
  A task asking for queries: waiting for the lock of its key, waiting for the model with its
  reservation, or done.
\<close>

datatype query_task =
    Waiting query_key | Calling query_key int | Done query_key "fixed_error + string list"

definition query_output_tokens :: "run_budget \<Rightarrow> int" where
  "query_output_tokens b = max 128 (min 2000 (rb_max_total_tokens b))"

definition query_request :: "fixed_planner \<Rightarrow> string list \<Rightarrow> fixed_error + model_request" where
  "query_request fp contents =
     (let r = \<lparr>mq_contents = contents, mq_max_output_tokens = query_output_tokens (fp_budget fp)\<rparr> in
      case ensure_request_within_budget r (fp_budget fp) (fp_provider fp) of Some e \<Rightarrow> Inl e | None \<Rightarrow> Inr r)"

text \<open>The \<^verbatim>\<open>finally\<close> block: release the lock if it was acquired, and drop the gate of no user.\<close>

definition leave_gate :: "bool \<Rightarrow> query_key \<Rightarrow> fixed_planner \<Rightarrow> fixed_planner" where
  "leave_gate acquired key fp =
     (case fp_query_locks fp key of
        None \<Rightarrow> fp
      | Some g \<Rightarrow>
          let g' = \<lparr>qg_locked = (if acquired then False else qg_locked g), qg_users = qg_users g - 1\<rparr> in
          fp\<lparr>fp_query_locks := (if qg_users g' = 0 then (fp_query_locks fp)(key := None)
                                else (fp_query_locks fp)(key \<mapsto> g'))\<rparr>)"

text \<open>Up to the wait for the lock; \<open>b k\<close> is what the look number \<open>k\<close> at the boundary of this stretch gives.\<close>

definition start_queries :: "fixed_planner \<Rightarrow> query_key \<Rightarrow> (nat \<Rightarrow> fixed_error option) \<Rightarrow> query_task \<times> fixed_planner" where
  "start_queries fp key b =
     (case b 0 of
        Some e \<Rightarrow> (Done key (Inl e), fp)
      | None \<Rightarrow>
          (case fp_query_cache fp key of
             Some v \<Rightarrow> (Done key (case b 1 of Some e \<Rightarrow> Inl e | None \<Rightarrow> Inr v), fp)
           | None \<Rightarrow>
               let g = (case fp_query_locks fp key of None \<Rightarrow> \<lparr>qg_locked = False, qg_users = 0\<rparr> | Some g \<Rightarrow> g)
               in (Waiting key, fp\<lparr>fp_query_locks := (fp_query_locks fp)(key \<mapsto> g\<lparr>qg_users := qg_users g + 1\<rparr>)\<rparr>)))"

text \<open>A wait that a passed deadline or a cancellation ends.\<close>

definition stop_waiting :: "fixed_planner \<Rightarrow> query_key \<Rightarrow> fixed_error \<Rightarrow> query_task \<times> fixed_planner" where
  "stop_waiting fp key e = (Done key (Inl e), leave_gate False key fp)"

text \<open>From the lock, which is free, up to the call of the model.\<close>

definition take_lock :: "fixed_planner \<Rightarrow> query_key \<Rightarrow> string list \<Rightarrow> (nat \<Rightarrow> fixed_error option) \<Rightarrow> query_task \<times> fixed_planner" where
  "take_lock fp key contents b =
     (let fp1 = (case fp_query_locks fp key of None \<Rightarrow> fp
        | Some g \<Rightarrow> fp\<lparr>fp_query_locks := (fp_query_locks fp)(key \<mapsto> g\<lparr>qg_locked := True\<rparr>)\<rparr>);
          quit = (\<lambda>r fp'. (Done key r, leave_gate True key fp'))
      in case b 0 of
        Some e \<Rightarrow> quit (Inl e) fp1
      | None \<Rightarrow> (case b 1 of
        Some e \<Rightarrow> quit (Inl e) fp1
      | None \<Rightarrow> (case fp_query_cache fp1 key of
        Some v \<Rightarrow> quit (Inr v) fp1
      | None \<Rightarrow> (case query_request fp1 contents of
        Inl e \<Rightarrow> quit (Inl e) fp1
      | Inr request \<Rightarrow> (case b 2 of
        Some e \<Rightarrow> quit (Inl e) fp1
      | None \<Rightarrow> (case reserve_request fp1 request of
        None \<Rightarrow> quit (Inl (token_budget_error (fp_provider fp1))) fp1
      | Some (n, fp2) \<Rightarrow> (case b 3 of
        Some e \<Rightarrow> quit (Inl e) (snd (settle_request fp2 n None))
      | None \<Rightarrow> (Calling key n, fp2))))))))"

text \<open>From the answer of the model to the end.  The entry that the last look at the boundary takes out of the
cache again was never seen by another task.\<close>

definition finish_queries :: "(string \<Rightarrow> string) \<Rightarrow> fixed_planner \<Rightarrow> query_key \<Rightarrow> int \<Rightarrow> query_answer \<Rightarrow>
    (nat \<Rightarrow> fixed_error option) \<Rightarrow> query_task \<times> fixed_planner" where
  "finish_queries nfc fp key n answer b =
     (let quit = (\<lambda>r fp'. (Done key r, leave_gate True key fp'))
      in case answer of
        QueriesFailed e \<Rightarrow>
          quit (Inl (ProviderFailed e)) (snd (settle_request fp n (map_option ru_total_tokens (pe_usage e))))
      | QueriesInterrupted e \<Rightarrow> quit (Inl e) (snd (settle_request fp n None))
      | QueriesAnswered raws tokens \<Rightarrow>
          let (publishable, fp1) = settle_request fp n (Some tokens) in
          (case b 0 of
             Some e \<Rightarrow> quit (Inl e) fp1
           | None \<Rightarrow>
               if \<not> publishable then quit (Inl (token_budget_error (fp_provider fp1))) fp1
               else
                 let queries = pick_queries nfc (fp_search_depth fp1) raws {} [] in
                 if queries = []
                 then quit (Inl (model_error (fp_provider fp1) ''structured'' InvalidResponse
                                   ''query generation response is invalid'')) fp1
                 else (case b 1 of
                   Some e \<Rightarrow> quit (Inl e) fp1
                 | None \<Rightarrow>
                     (case b 2 of
                        Some e \<Rightarrow> quit (Inl e) (fp1\<lparr>fp_query_cache := (fp_query_cache fp1)(key := None)\<rparr>)
                      | None \<Rightarrow> quit (Inr queries) (fp1\<lparr>fp_query_cache := (fp_query_cache fp1)(key \<mapsto> queries)\<rparr>)))))"

text \<open>Any number of tasks, interleaved at the waits.\<close>

inductive query_step :: "(string \<Rightarrow> string) \<Rightarrow> fixed_planner \<times> query_task list \<Rightarrow> fixed_planner \<times> query_task list \<Rightarrow> bool"
  for nfc where
  qs_start: "start_queries fp key b = (t, fp') \<Longrightarrow> query_step nfc (fp, ts) (fp', ts @ [t])"
| qs_stop: "i < length ts \<Longrightarrow> ts ! i = Waiting key \<Longrightarrow> stop_waiting fp key e = (t, fp') \<Longrightarrow>
    query_step nfc (fp, ts) (fp', ts[i := t])"
| qs_take: "i < length ts \<Longrightarrow> ts ! i = Waiting key \<Longrightarrow> fp_query_locks fp key = Some g \<Longrightarrow> \<not> qg_locked g \<Longrightarrow>
    take_lock fp key contents b = (t, fp') \<Longrightarrow> query_step nfc (fp, ts) (fp', ts[i := t])"
| qs_finish: "i < length ts \<Longrightarrow> ts ! i = Calling key n \<Longrightarrow> finish_queries nfc fp key n answer b = (t, fp') \<Longrightarrow>
    query_step nfc (fp, ts) (fp', ts[i := t])"

text \<open>What a task contributes: a use of the gate of its key, a call of the model, a reservation.\<close>

fun uses_gate :: "query_key \<Rightarrow> query_task \<Rightarrow> int" where
  "uses_gate key (Waiting k) = (if k = key then 1 else 0)"
| "uses_gate key (Calling k n) = (if k = key then 1 else 0)"
| "uses_gate key (Done k r) = 0"

fun calls_model :: "query_key \<Rightarrow> query_task \<Rightarrow> int" where
  "calls_model key (Calling k n) = (if k = key then 1 else 0)"
| "calls_model key _ = 0"

fun holds_tokens :: "query_task \<Rightarrow> int" where
  "holds_tokens (Calling k n) = n"
| "holds_tokens _ = 0"

fun task_key :: "query_task \<Rightarrow> query_key" where
  "task_key (Waiting k) = k" | "task_key (Calling k n) = k" | "task_key (Done k r) = k"

fun answered_from :: "fixed_planner \<Rightarrow> query_task \<Rightarrow> bool" where
  "answered_from fp (Done k (Inr v)) \<longleftrightarrow> fp_query_cache fp k = Some v"
| "answered_from fp _ \<longleftrightarrow> True"

definition task_sum :: "(query_task \<Rightarrow> int) \<Rightarrow> query_task list \<Rightarrow> int" where
  "task_sum f ts = sum_list (map f ts)"

lemma task_sum_simps [simp]: "task_sum f [] = 0" "task_sum f (ts @ [t]) = task_sum f ts + f t"
  by (simp_all add: task_sum_def)

lemma task_sum_update: "i < length ts \<Longrightarrow> task_sum f (ts[i := t]) = task_sum f ts - f (ts ! i) + f t"
  unfolding task_sum_def by (induction ts arbitrary: i) (auto split: nat.split)

lemma task_sum_le: "(\<And>t. f t \<le> g t) \<Longrightarrow> task_sum f ts \<le> task_sum g ts"
  unfolding task_sum_def by (rule sum_list_mono) simp

lemma task_sum_nonneg: "(\<And>t. 0 \<le> f t) \<Longrightarrow> 0 \<le> task_sum f ts"
  unfolding task_sum_def by (rule sum_list_nonneg) auto

lemma task_sums [simp]: "0 \<le> uses_gate key t" "0 \<le> calls_model key t" "calls_model key t \<le> uses_gate key t"
  by (cases t; simp)+

lemma other_key [simp]: "task_key t \<noteq> key \<Longrightarrow> uses_gate key t = 0" "task_key t \<noteq> key \<Longrightarrow> calls_model key t = 0"
  by (cases t; simp)+

definition gate_ok :: "fixed_planner \<Rightarrow> query_key \<Rightarrow> int \<Rightarrow> int \<Rightarrow> bool" where
  "gate_ok fp key users callers \<longleftrightarrow>
     (case fp_query_locks fp key of
        None \<Rightarrow> users = 0 \<and> callers = 0
      | Some g \<Rightarrow> qg_users g = users \<and> 0 < users \<and> callers = (if qg_locked g then 1 else 0)) \<and>
     (0 < callers \<longrightarrow> fp_query_cache fp key = None)"

definition cache_ok :: "fixed_planner \<Rightarrow> bool" where
  "cache_ok fp \<longleftrightarrow> (\<forall>v\<in>ran (fp_query_cache fp). v \<noteq> [] \<and> distinct v \<and> int (length v) \<le> fp_search_depth fp)"

lemma ran_without: "v \<in> ran (m(k := None)) \<Longrightarrow> v \<in> ran m"
  by (auto simp: ran_def split: if_splits)

definition query_inv :: "fixed_planner \<times> query_task list \<Rightarrow> bool" where
  "query_inv s \<longleftrightarrow> (let (fp, ts) = s in
     0 < fp_search_depth fp \<and> fp_model_tokens_reserved fp = task_sum holds_tokens ts \<and>
     (\<forall>key. gate_ok fp key (task_sum (uses_gate key) ts) (task_sum (calls_model key) ts)) \<and>
     cache_ok fp \<and> (\<forall>t\<in>set ts. answered_from fp t))"

text \<open>A step on a key leaves the other keys alone and only adds to the cache.\<close>

definition only_key :: "query_key \<Rightarrow> fixed_planner \<Rightarrow> fixed_planner \<Rightarrow> bool" where
  "only_key key fp fp' \<longleftrightarrow> fp_search_depth fp' = fp_search_depth fp \<and>
     (\<forall>k. k \<noteq> key \<longrightarrow> fp_query_locks fp' k = fp_query_locks fp k \<and> fp_query_cache fp' k = fp_query_cache fp k) \<and>
     (\<forall>v. fp_query_cache fp key = Some v \<longrightarrow> fp_query_cache fp' key = Some v)"

text \<open>What a stretch must establish for the task it changes, from the sums before it.\<close>

definition good_stretch :: "query_key \<Rightarrow> fixed_planner \<Rightarrow> query_task \<Rightarrow> fixed_planner \<Rightarrow> int \<Rightarrow> int \<Rightarrow> int \<Rightarrow> bool" where
  "good_stretch key fp t fp' users callers held \<longleftrightarrow>
     only_key key fp fp' \<and> task_key t = key \<and> answered_from fp' t \<and> (cache_ok fp \<longrightarrow> cache_ok fp') \<and>
     fp_model_tokens_reserved fp' = fp_model_tokens_reserved fp - held + holds_tokens t \<and>
     gate_ok fp' key (users + uses_gate key t) (callers + calls_model key t)"

lemma query_inv_update:
  assumes "query_inv (fp, ts)" "i < length ts" "task_key (ts ! i) = key"
    and "good_stretch key fp t fp' (task_sum (uses_gate key) ts - uses_gate key (ts ! i))
      (task_sum (calls_model key) ts - calls_model key (ts ! i)) (holds_tokens (ts ! i))"
  shows "query_inv (fp', ts[i := t])"
proof -
  have ok: "only_key key fp fp'" "task_key t = key" "answered_from fp' t" "cache_ok fp \<longrightarrow> cache_ok fp'"
    and sums: "fp_model_tokens_reserved fp' = fp_model_tokens_reserved fp - holds_tokens (ts ! i) + holds_tokens t"
      "gate_ok fp' key (task_sum (uses_gate key) ts - uses_gate key (ts ! i) + uses_gate key t)
        (task_sum (calls_model key) ts - calls_model key (ts ! i) + calls_model key t)"
    using assms(4) unfolding good_stretch_def by blast+
  have inv: "0 < fp_search_depth fp" "fp_model_tokens_reserved fp = task_sum holds_tokens ts"
      "\<And>k. gate_ok fp k (task_sum (uses_gate k) ts) (task_sum (calls_model k) ts)" "cache_ok fp" "\<forall>u\<in>set ts. answered_from fp u"
    using assms(1) unfolding query_inv_def by auto
  have "gate_ok fp' k (task_sum (uses_gate k) (ts[i := t])) (task_sum (calls_model k) (ts[i := t]))" for k
  proof (cases "k = key")
    case True
    with sums(2) assms(2) show ?thesis by (simp add: task_sum_update)
  next
    case False
    with ok(1) have "fp_query_locks fp' k = fp_query_locks fp k" "fp_query_cache fp' k = fp_query_cache fp k"
      unfolding only_key_def by blast+
    with inv(3) [of k] ok(2) assms(2,3) False show ?thesis by (simp add: task_sum_update gate_ok_def)
  qed
  moreover have keep: "answered_from fp' u" if "answered_from fp u" for u
    using that ok(1) by (cases "(fp, u)" rule: answered_from.cases) (auto simp: only_key_def, metis)
  have "\<forall>u\<in>set (ts[i := t]). answered_from fp' u"
    using inv(5) keep ok(3) set_update_subset_insert [of ts i t] by auto
  ultimately show ?thesis
    using inv ok sums(1) assms(2) by (auto simp: query_inv_def task_sum_update only_key_def)
qed

lemma query_inv_append:
  assumes "query_inv (fp, ts)" "good_stretch key fp t fp' (task_sum (uses_gate key) ts) (task_sum (calls_model key) ts) 0"
  shows "query_inv (fp', ts @ [t])"
proof -
  have "query_inv (fp, ts @ [Done key (Inl PlanInvalid)])"
    using assms(1) by (simp add: query_inv_def)
  from query_inv_update [OF this, of "length ts" key t fp'] assms(2) show ?thesis by simp
qed

lemma leave_gate_cases:
  obtains "leave_gate a key fp = fp"
  | m where "leave_gate a key fp = fp\<lparr>fp_query_locks := m\<rparr>" "\<And>k. k \<noteq> key \<Longrightarrow> m k = fp_query_locks fp k"
proof (cases "fp_query_locks fp key")
  case None
  then show thesis using that(1) by (simp add: leave_gate_def)
next
  case (Some g)
  then show thesis using that(2) by (simp add: leave_gate_def Let_def split: if_splits)
qed

lemma leave_gate_same [simp]:
  "fp_query_cache (leave_gate a key fp) = fp_query_cache fp"
  "fp_model_tokens_reserved (leave_gate a key fp) = fp_model_tokens_reserved fp"
  "fp_search_depth (leave_gate a key fp) = fp_search_depth fp"
  "k \<noteq> key \<Longrightarrow> fp_query_locks (leave_gate a key fp) k = fp_query_locks fp k"
  subgoal by (rule leave_gate_cases [of a key fp]) simp_all
  subgoal by (rule leave_gate_cases [of a key fp]) simp_all
  subgoal by (rule leave_gate_cases [of a key fp]) simp_all
  subgoal by (rule leave_gate_cases [of a key fp]) simp_all
  done

lemma leave_acquired:
  "fp_query_locks fp key = Some g \<Longrightarrow> qg_users g = users + 1 \<Longrightarrow> 0 \<le> users \<Longrightarrow> gate_ok (leave_gate True key fp) key users 0"
  by (simp add: gate_ok_def leave_gate_def Let_def)

lemma leave_waiting:
  "gate_ok fp key (users + 1) callers \<Longrightarrow> callers \<le> users \<Longrightarrow> gate_ok (leave_gate False key fp) key users callers"
  by (auto simp: gate_ok_def leave_gate_def Let_def split: option.splits if_splits)

lemma settle_request_same [simp]:
  "fp_query_cache (snd (settle_request fp n a)) = fp_query_cache fp"
  "fp_query_locks (snd (settle_request fp n a)) = fp_query_locks fp"
  "fp_search_depth (snd (settle_request fp n a)) = fp_search_depth fp"
  "fp_model_tokens_reserved (snd (settle_request fp n a)) = fp_model_tokens_reserved fp - n"
  by (simp_all add: settle_request_def Let_def)

lemma only_key_leave: "only_key key fp fp' \<Longrightarrow> only_key key fp (leave_gate a key fp')"
  by (simp add: only_key_def)

text \<open>A stretch that ends the task with the lock in hand.\<close>

lemma quit_good:
  assumes "only_key key fp fp'" "fp_query_locks fp' key = Some g" "qg_users g = users + 1" "0 \<le> users"
    and "fp_model_tokens_reserved fp' = fp_model_tokens_reserved fp - held"
    and "\<And>v. r = Inr v \<Longrightarrow> fp_query_cache fp' key = Some v" "cache_ok fp \<longrightarrow> cache_ok fp'"
  shows "good_stretch key fp (Done key r) (leave_gate True key fp') users 0 held"
proof -
  have "answered_from (leave_gate True key fp') (Done key r)" using assms(6) by (cases r) simp_all
  moreover have "cache_ok (leave_gate True key fp') = cache_ok fp'" by (simp add: cache_ok_def)
  ultimately show ?thesis
    unfolding good_stretch_def using only_key_leave [OF assms(1)] leave_acquired [OF assms(2-4)] assms(5,7) by simp
qed

lemma start_good:
  assumes "gate_ok fp key users callers" "0 \<le> users" "start_queries fp key b = (t, fp')"
  shows "good_stretch key fp t fp' users callers 0"
proof (cases "b 0 = None \<and> fp_query_cache fp key = None")
  case True
  define g where "g = (case fp_query_locks fp key of None \<Rightarrow> \<lparr>qg_locked = False, qg_users = 0\<rparr> | Some g \<Rightarrow> g)"
  let ?fp = "fp\<lparr>fp_query_locks := (fp_query_locks fp)(key \<mapsto> g\<lparr>qg_users := qg_users g + 1\<rparr>)\<rparr>"
  from True assms(3) have r: "t = Waiting key" "fp' = ?fp" by (simp_all add: start_queries_def g_def [symmetric] Let_def)
  have "gate_ok ?fp key (users + 1) callers"
    using assms(1,2) True by (cases "fp_query_locks fp key") (simp_all add: gate_ok_def g_def split: if_splits)
  moreover have "only_key key fp ?fp" by (simp add: only_key_def)
  moreover have "cache_ok ?fp = cache_ok fp" by (simp add: cache_ok_def)
  ultimately show ?thesis unfolding r good_stretch_def by simp
next
  case False
  have "good_stretch key fp (Done key r) fp users callers 0" if "\<And>v. r = Inr v \<Longrightarrow> fp_query_cache fp key = Some v" for r
    using that assms(1) by (cases r) (auto simp: good_stretch_def only_key_def)
  with False assms(3) show ?thesis by (auto simp: start_queries_def split: option.splits)
qed

lemma stop_good:
  assumes "gate_ok fp key (users + 1) callers" "callers \<le> users" "stop_waiting fp key e = (t, fp')"
  shows "good_stretch key fp t fp' users callers 0"
  using assms leave_waiting [OF assms(1,2)]
  by (auto simp: stop_waiting_def good_stretch_def only_key_def cache_ok_def)

lemma take_good:
  assumes "fp_query_locks fp key = Some g" "qg_users g = users + 1" "0 \<le> users" "take_lock fp key contents b = (t, fp')"
  shows "good_stretch key fp t fp' users 0 0"
proof -
  define fp1 where "fp1 = fp\<lparr>fp_query_locks := (fp_query_locks fp)(key \<mapsto> g\<lparr>qg_locked := True\<rparr>)\<rparr>"
  have f1: "only_key key fp fp1" "fp_query_locks fp1 key = Some (g\<lparr>qg_locked := True\<rparr>)" "fp_query_cache fp1 = fp_query_cache fp"
    "fp_model_tokens_reserved fp1 = fp_model_tokens_reserved fp" "fp_search_depth fp1 = fp_search_depth fp"
    by (simp_all add: fp1_def only_key_def)
  have quit: "good_stretch key fp (Done key r) (leave_gate True key fp1) users 0 0"
    if "\<And>v. r = Inr v \<Longrightarrow> fp_query_cache fp key = Some v" for r
    by (rule quit_good [OF f1(1,2)]) (use that f1 assms(2,3) in \<open>auto simp: cache_ok_def\<close>)
  note run = assms(4) [unfolded take_lock_def assms(1) option.case fp1_def [symmetric] Let_def]
  show ?thesis
  proof (cases "b 0 = None \<and> b 1 = None \<and> fp_query_cache fp key = None \<and> b 2 = None")
    case False
    with run quit show ?thesis by (auto simp: f1(3) split: option.splits sum.splits)
  next
    case c: True
    show ?thesis
    proof (cases "query_request fp1 contents")
      case (Inl e)
      with c run quit show ?thesis by (auto simp: f1(3))
    next
      case (Inr rq)
      show ?thesis
      proof (cases "reserve_request fp1 rq")
        case None
        with c Inr run quit show ?thesis by (auto simp: f1(3))
      next
        case (Some x)
        then obtain n where x: "x = (n, fp1\<lparr>fp_model_tokens_reserved := fp_model_tokens_reserved fp1 + n\<rparr>)"
          by (auto simp: reserve_request_def Let_def split: if_splits)
        let ?fp2 = "fp1\<lparr>fp_model_tokens_reserved := fp_model_tokens_reserved fp1 + n\<rparr>"
        show ?thesis
        proof (cases "b 3")
          case None
          with run c Inr Some x have "t = Calling key n" "fp' = ?fp2" by (auto simp: f1(3))
          with f1 c assms(2,3) show ?thesis
            by (auto simp: good_stretch_def only_key_def cache_ok_def gate_ok_def)
        next
          case (Some e)
          with run c Inr \<open>reserve_request fp1 rq = Some x\<close> x
          have r: "t = Done key (Inl e)" "fp' = leave_gate True key (snd (settle_request ?fp2 n None))" by (auto simp: f1(3))
          show ?thesis unfolding r
            by (rule quit_good [where g = "g\<lparr>qg_locked := True\<rparr>"]) (use f1 assms(2,3) in \<open>auto simp: only_key_def cache_ok_def\<close>)
        qed
      qed
    qed
  qed
qed

lemma pick_queries_ok:
  "distinct acc \<Longrightarrow> set acc = seen \<Longrightarrow> int (length acc) < depth \<Longrightarrow>
   distinct (pick_queries nfc depth raws seen acc) \<and> int (length (pick_queries nfc depth raws seen acc)) \<le> depth"
  by (induction raws arbitrary: seen acc) (auto simp: Let_def)

lemma finish_good:
  assumes "fp_query_locks fp key = Some g" "qg_users g = users + 1" "0 \<le> users" "fp_query_cache fp key = None"
    and "0 < fp_search_depth fp" "finish_queries nfc fp key n answer b = (t, fp')"
  shows "good_stretch key fp t fp' users 0 n"
proof -
  have quit: "good_stretch key fp (Done key (Inl e)) (leave_gate True key (snd (settle_request fp n a))) users 0 n" for e a
    by (rule quit_good [where g = g]) (use assms(1-3) in \<open>auto simp: only_key_def cache_ok_def\<close>)
  note run = assms(6) [unfolded finish_queries_def Let_def]
  show ?thesis
  proof (cases answer)
    case (QueriesAnswered raws tokens)
    obtain ok fp1 where fp1: "settle_request fp n (Some tokens) = (ok, fp1)" by (cases "settle_request fp n (Some tokens)")
    then have f1: "fp1 = snd (settle_request fp n (Some tokens))" by simp
    define qs where "qs = pick_queries nfc (fp_search_depth fp1) raws {} []"
    have d: "fp_search_depth fp1 = fp_search_depth fp" by (simp add: f1)
    have qs: "distinct qs" "int (length qs) \<le> fp_search_depth fp"
      using pick_queries_ok [of "[]" "{}" "fp_search_depth fp" nfc raws] assms(5) by (simp_all add: qs_def d)
    have pop: "good_stretch key fp (Done key (Inl e)) (leave_gate True key (fp1\<lparr>fp_query_cache := (fp_query_cache fp1)(key := None)\<rparr>)) users 0 n" for e
      by (rule quit_good [where g = g]) (use assms(1-4) in \<open>auto simp: only_key_def cache_ok_def f1 dest: ran_without\<close>)
    have put: "good_stretch key fp (Done key (Inr qs)) (leave_gate True key (fp1\<lparr>fp_query_cache := (fp_query_cache fp1)(key \<mapsto> qs)\<rparr>)) users 0 n"
      if "qs \<noteq> []"
      by (rule quit_good [where g = g]) (use assms(1-4) qs that in \<open>auto simp: only_key_def cache_ok_def f1\<close>)
    show ?thesis using run quit [of _ "Some tokens"] pop put
      unfolding QueriesAnswered query_answer.case fp1 prod.case qs_def [symmetric] f1 [symmetric]
      by (auto split: option.splits if_splits)
  qed (use run quit in auto)
qed

lemma query_inv_gate:
  "query_inv (fp, ts) \<Longrightarrow> gate_ok fp key (task_sum (uses_gate key) ts) (task_sum (calls_model key) ts)"
  unfolding query_inv_def Let_def prod.case by blast

lemma query_step_inv:
  assumes "query_step nfc s s'" "query_inv s"
  shows "query_inv s'"
  using assms
proof (cases rule: query_step.cases)
  case (qs_start fp key b t fp' ts)
  with assms(2) have inv: "query_inv (fp, ts)" by simp
  then have g: "gate_ok fp key (task_sum (uses_gate key) ts) (task_sum (calls_model key) ts)" by (rule query_inv_gate)
  show ?thesis using query_inv_append [OF inv start_good [OF g task_sum_nonneg qs_start(3)]] qs_start(2) by simp
next
  case (qs_stop i ts key fp e t fp')
  with assms(2) have inv: "query_inv (fp, ts)" by simp
  let ?u = "task_sum (uses_gate key) ts - 1" and ?c = "task_sum (calls_model key) ts"
  from query_inv_gate [OF inv] have g: "gate_ok fp key (?u + 1) ?c" by simp
  have "task_sum (calls_model key) (ts[i := Done key (Inl e)]) \<le> task_sum (uses_gate key) (ts[i := Done key (Inl e)])"
    by (rule task_sum_le) simp
  then have "?c \<le> ?u" using qs_stop by (simp add: task_sum_update)
  from query_inv_update [OF inv qs_stop(3), of key t fp'] stop_good [OF g this qs_stop(5)] qs_stop show ?thesis by simp
next
  case (qs_take i ts key fp g contents b t fp')
  with assms(2) have inv: "query_inv (fp, ts)" by simp
  let ?u = "task_sum (uses_gate key) ts - 1"
  from query_inv_gate [OF inv] have "gate_ok fp key (?u + 1) (task_sum (calls_model key) ts)" by simp
  then have g: "qg_users g = ?u + 1" "0 \<le> ?u" "task_sum (calls_model key) ts = 0" using qs_take by (simp_all add: gate_ok_def)
  from query_inv_update [OF inv qs_take(3), of key t fp'] take_good [OF qs_take(5) g(1,2) qs_take(7)] g(3) qs_take show ?thesis by simp
next
  case (qs_finish i ts key n fp answer b t fp')
  with assms(2) have inv: "query_inv (fp, ts)" by simp
  let ?u = "task_sum (uses_gate key) ts - 1" and ?c = "task_sum (calls_model key) ts"
  from query_inv_gate [OF inv] have g: "gate_ok fp key (?u + 1) ?c" by simp
  from inv have d: "0 < fp_search_depth fp" by (simp add: query_inv_def)
  have "0 \<le> task_sum (calls_model key) (ts[i := Done key (Inl PlanInvalid)])" by (rule task_sum_nonneg) simp
  then have c: "1 \<le> ?c" using qs_finish by (simp add: task_sum_update)
  with g obtain gt where gt: "fp_query_locks fp key = Some gt" "qg_users gt = ?u + 1" "0 \<le> ?u" "fp_query_cache fp key = None" "?c = 1"
    by (auto simp: gate_ok_def split: option.splits if_splits)
  from query_inv_update [OF inv qs_finish(3), of key t fp'] finish_good [OF gt(1-4) d qs_finish(5)] gt(5) qs_finish show ?thesis by simp
qed

definition fresh_planner :: "fixed_planner \<Rightarrow> bool" where
  "fresh_planner fp \<longleftrightarrow> 0 < fp_search_depth fp \<and> fp_model_tokens_reserved fp = 0 \<and>
     fp_query_cache fp = Map.empty \<and> fp_query_locks fp = Map.empty"

lemma mk_fixed_planner_fresh: "mk_fixed_planner b d v p = Inr fp \<Longrightarrow> fresh_planner fp"
  by (auto simp: mk_fixed_planner_def fresh_planner_def split: if_splits)

lemma query_reach_inv:
  assumes "(query_step nfc)\<^sup>*\<^sup>* (fp, []) s" "fresh_planner fp"
  shows "query_inv s"
  using assms(1)
proof (induction rule: rtranclp_induct)
  case base
  from assms(2) show ?case by (simp add: query_inv_def fresh_planner_def gate_ok_def cache_ok_def)
next
  case (step s s')
  then show ?case by (blast intro: query_step_inv)
qed

definition callers :: "query_key \<Rightarrow> query_task list \<Rightarrow> nat" where
  "callers key ts = length (filter (\<lambda>t. \<exists>n. t = Calling key n) ts)"

lemma calls_callers: "task_sum (calls_model key) ts = int (callers key ts)"
  unfolding task_sum_def callers_def
proof (induction ts)
  case (Cons t ts)
  then show ?case by (cases t) simp_all
qed simp

fun finished :: "query_task \<Rightarrow> bool" where
  "finished (Done k r) = True" | "finished _ = False"

text \<open>C20. However the tasks of a planner that ask for queries interleave, whatever the model answers and
wherever deadlines and cancellations strike: for each question of a plan at most one task calls the
model at a time, the tokens reserved are exactly those of the calls under way, all tasks that get
queries for a question get the same ones (at least one, no two equal, at most the search depth),
and when every task is done, no token is reserved and no lock is left.\<close>

theorem queries_single_flight:
  assumes "mk_fixed_planner budget depth version provider = Inr fp" "(query_step nfc)\<^sup>*\<^sup>* (fp, []) (fp', ts)"
  shows "(\<forall>key. callers key ts \<le> 1) \<and> fp_model_tokens_reserved fp' = task_sum holds_tokens ts \<and>
    (\<forall>key v. Done key (Inr v) \<in> set ts \<longrightarrow> fp_query_cache fp' key = Some v \<and> v \<noteq> [] \<and> distinct v \<and>
       int (length v) \<le> fp_search_depth fp') \<and>
    ((\<forall>t\<in>set ts. finished t) \<longrightarrow> fp_model_tokens_reserved fp' = 0 \<and> fp_query_locks fp' = Map.empty)"
proof -
  have inv: "query_inv (fp', ts)" by (rule query_reach_inv [OF assms(2) mk_fixed_planner_fresh [OF assms(1)]])
  then have g: "gate_ok fp' key (task_sum (uses_gate key) ts) (int (callers key ts))" for key
    unfolding calls_callers [symmetric] by (rule query_inv_gate)
  have one: "callers key ts \<le> 1" for key using g [of key] by (auto simp: gate_ok_def split: option.splits if_splits)
  have res: "fp_model_tokens_reserved fp' = task_sum holds_tokens ts" using inv by (simp add: query_inv_def)
  have done1: "fp_query_cache fp' key = Some v \<and> v \<noteq> [] \<and> distinct v \<and> int (length v) \<le> fp_search_depth fp'"
    if "Done key (Inr v) \<in> set ts" for key v
  proof -
    have "answered_from fp' (Done key (Inr v))" using inv that unfolding query_inv_def Let_def prod.case by blast
    then have c: "fp_query_cache fp' key = Some v" by simp
    then have "v \<in> ran (fp_query_cache fp')" by (rule ranI)
    with inv c show ?thesis by (simp add: query_inv_def cache_ok_def)
  qed
  have idle: "fp_model_tokens_reserved fp' = 0 \<and> fp_query_locks fp' = Map.empty" if "\<forall>t\<in>set ts. finished t"
  proof -
    have z: "task_sum f ts = 0" if "\<And>k r. f (Done k r) = 0" for f
      using \<open>\<forall>t\<in>set ts. finished t\<close>
    proof (induction ts)
      case (Cons t ts)
      then show ?case using that by (cases t) (simp_all add: task_sum_def)
    qed simp
    have "fp_query_locks fp' key = None" for key
      using g [of key] z [of "uses_gate key"] by (auto simp: gate_ok_def split: option.splits)
    then have "fp_query_locks fp' = Map.empty" by blast
    with res z [of holds_tokens] show ?thesis by simp
  qed
  from one res done1 idle show ?thesis by blast
qed

theorem queries_single_flight_witness:
  "\<exists>fp' ts. (query_step id)\<^sup>*\<^sup>* (demo_fixed, []) (fp', ts) \<and> length ts = 2 \<and> callers (''p'', ''q'', ''v'') ts \<le> 1 \<and>
     fp_model_tokens_reserved fp' = task_sum holds_tokens ts"
proof -
  let ?k = "(''p'', ''q'', ''v'')"
  obtain t fp1 where 1: "start_queries demo_fixed ?k (\<lambda>_. None) = (t, fp1)" by (cases "start_queries demo_fixed ?k (\<lambda>_. None)")
  obtain u fp2 where 2: "start_queries fp1 ?k (\<lambda>_. None) = (u, fp2)" by (cases "start_queries fp1 ?k (\<lambda>_. None)")
  have "(query_step id)\<^sup>*\<^sup>* (demo_fixed, []) (fp2, [t] @ [u])"
    using qs_start [OF 1, of id "[]"] qs_start [OF 2, of id "[t]"] by simp
  moreover have "mk_fixed_planner (preset Low) 2 ''v'' ''m'' = Inr demo_fixed"
    by (simp add: mk_fixed_planner_def demo_fixed_def blank_def strip_ws_def)
  ultimately show ?thesis using queries_single_flight [of "preset Low" 2 "''v''" "''m''" demo_fixed id fp2 "[t] @ [u]"]
    by (intro exI [of _ fp2] exI [of _ "[t] @ [u]"]) auto
qed

end
