(* ===== verification/Resilience.thy ===== *)
theory Resilience
  imports Provider_Errors
begin

text \<open>
  The executor of provider calls (\<^verbatim>\<open>src/src/deepresearch/providers/resilience.py\<close>): deadlines,
  retries with exponential and jittered delays, and fallbacks.  The clock, the sleeper, the random
  numbers and the invocations are functions of a state of the outside world that each of them may
  change.
\<close>

datatype operation = ModelOp | SearchOp | FetchOp | ParseOp | EmbedOp

fun operation_name :: "operation \<Rightarrow> string" where
  "operation_name ModelOp = ''model''" | "operation_name SearchOp = ''search''"
| "operation_name FetchOp = ''fetch''" | "operation_name ParseOp = ''parse''"
| "operation_name EmbedOp = ''embed''"

definition operations :: "operation list" where
  "operations = [ModelOp, SearchOp, FetchOp, ParseOp, EmbedOp]"

definition retried_codes :: "provider_code set" where
  "retried_codes = {Timeout, RateLimited, NetworkError, Upstream5xx}"

definition never_retried_codes :: "provider_code set" where
  "never_retried_codes = {Authentication, InvalidRequest, InvalidResponse, ParseUnsupported, ReplayMiss, InvalidSnapshot}"

section \<open>The policy\<close>

record call_policy =
  cp_default_timeout_seconds :: "(operation, pyfloat) dict"
  cp_max_retries :: int
  cp_base_delay_seconds :: pyfloat
  cp_max_delay_seconds :: pyfloat
  cp_jitter_ratio :: pyfloat

definition mk_policy :: "call_policy \<Rightarrow> exc + call_policy" where
  "mk_policy p =
     (if set (dkeys (cp_default_timeout_seconds p)) \<noteq> set operations
      then Inl (ValueError ''default_timeout_seconds must define every provider operation'')
      else if list_ex (\<lambda>(_, t). fle t (Fin 0) \<or> \<not> isfinite t) (cp_default_timeout_seconds p)
      then Inl (ValueError ''provider timeouts must be finite and positive'')
      else if cp_max_retries p < 0 then Inl (ValueError ''max_retries must be non-negative'')
      else if flt (cp_base_delay_seconds p) (Fin 0) \<or> \<not> isfinite (cp_base_delay_seconds p)
      then Inl (ValueError ''base_delay_seconds must be finite and non-negative'')
      else if flt (cp_max_delay_seconds p) (Fin 0) \<or> \<not> isfinite (cp_max_delay_seconds p)
      then Inl (ValueError ''max_delay_seconds must be finite and non-negative'')
      else if flt (cp_max_delay_seconds p) (cp_base_delay_seconds p)
      then Inl (ValueError ''max_delay_seconds must not be less than base_delay_seconds'')
      else if \<not> (fle (Fin 0) (cp_jitter_ratio p) \<and> fle (cp_jitter_ratio p) (Fin 1)) \<or> \<not> isfinite (cp_jitter_ratio p)
      then Inl (ValueError ''jitter_ratio must be finite and between zero and one'')
      else Inr p)"

definition default_policy :: call_policy where
  "default_policy =
     \<lparr>cp_default_timeout_seconds = [(ModelOp, Fin 120), (SearchOp, Fin 30), (FetchOp, Fin 30), (ParseOp, Fin 30),
        (EmbedOp, Fin 30)],
      cp_max_retries = 2, cp_base_delay_seconds = Fin (25 / 100), cp_max_delay_seconds = Fin 4,
      cp_jitter_ratio = fl (20 / 100)\<rparr>"

definition operation_timeout :: "call_policy \<Rightarrow> operation \<Rightarrow> pyfloat" where
  "operation_timeout p op = the (dget (cp_default_timeout_seconds p) op)"

section \<open>Attempts and outcomes\<close>

record call_attempt =
  at_operation :: operation
  at_invocation_index :: nat
  at_attempt_index :: nat
  at_deadline :: pyfloat
  at_succeeded :: bool
  at_error_code :: "provider_code option"

record invocation_trace =
  tr_operation :: operation
  tr_attempts :: "call_attempt list"
  tr_started_at :: pyfloat
  tr_finished_at :: pyfloat

definition trace_retries :: "invocation_trace \<Rightarrow> nat" where
  "trace_retries t = length (filter (\<lambda>a. 0 < at_attempt_index a) (tr_attempts t))"

definition trace_wall_seconds :: "invocation_trace \<Rightarrow> pyfloat" where
  "trace_wall_seconds t = fmax (Fin 0) (fsub (tr_finished_at t) (tr_started_at t))"

record 'r invocation_outcome =
  oc_result :: "'r option"
  oc_error :: "provider_error option"
  oc_trace :: invocation_trace

definition mk_outcome :: "'r invocation_outcome \<Rightarrow> exc + 'r invocation_outcome" where
  "mk_outcome oc =
     (if (oc_result oc = None) = (oc_error oc = None)
      then Inl (ValueError ''provider invocation outcome must contain one result or error'') else Inr oc)"

section \<open>The world and the executor\<close>

text \<open>
  An invocation answers with a result (\<^verbatim>\<open>None\<close> is a result, too), a provider error, or another
  exception or a cancellation, which the executor lets through.
\<close>

datatype 'r answer = Answered "'r option" | Failed provider_error | Escaped exc

record ('w, 'r) world_ops =
  wo_clock :: "'w \<Rightarrow> pyfloat \<times> 'w"
  wo_sleep :: "pyfloat \<Rightarrow> 'w \<Rightarrow> exc option \<times> 'w"
  wo_uniform :: "pyfloat \<Rightarrow> pyfloat \<Rightarrow> 'w \<Rightarrow> pyfloat \<times> 'w"

type_synonym ('w, 'r) invocation = "pyfloat \<Rightarrow> 'w \<Rightarrow> 'r answer \<times> 'w"

definition deadline_error :: "operation \<Rightarrow> provider_error" where
  "deadline_error op =
     \<lparr>pe_code = Timeout, pe_provider = ''executor'', pe_operation = operation_name op,
      pe_public_message = ''provider call deadline exceeded'', pe_retryable = True, pe_retry_after = None,
      pe_usage = None\<rparr>"

text \<open>\<open>2 ** attempt_index\<close> as a float: the product of a float and an integer rounds once.  (From the
1024th retry on, the code raises \<^verbatim>\<open>OverflowError\<close> here.)\<close>

definition retry_delay :: "call_policy \<Rightarrow> ('w, 'r) world_ops \<Rightarrow> provider_error \<Rightarrow> nat \<Rightarrow> 'w \<Rightarrow> pyfloat \<times> 'w" where
  "retry_delay p ops e attempt_index w =
     (case pe_retry_after e of
        Some r \<Rightarrow> (r, w)
      | None \<Rightarrow>
          let exponential = fmin (fmul (cp_base_delay_seconds p) (fl (2 ^ attempt_index))) (cp_max_delay_seconds p);
              (jitter, w') = wo_uniform ops (fsub (Fin 1) (cp_jitter_ratio p)) (fadd (Fin 1) (cp_jitter_ratio p)) w
          in (fmin (fmul exponential jitter) (cp_max_delay_seconds p), w'))"

text \<open>How the loop over the invocations ends: with an error, a result, or an exception.\<close>

datatype 'r ending = FailWith provider_error | SucceedWith "'r option" | RaiseExc exc

definition attempt :: "operation \<Rightarrow> nat \<Rightarrow> nat \<Rightarrow> pyfloat \<Rightarrow> provider_code option \<Rightarrow> call_attempt" where
  "attempt op ii ai deadline err =
     \<lparr>at_operation = op, at_invocation_index = ii, at_attempt_index = ai, at_deadline = deadline,
      at_succeeded = (err = None), at_error_code = err\<rparr>"

text \<open>
  The two nested loops: the invocations left, the index of the current one, its attempt index, the
  retries used, the last error and the attempts so far.  A retry uses one of the retries of the
  policy; a \<^verbatim>\<open>break\<close> goes on to the next invocation.
\<close>

function invoke_loop ::
    "call_policy \<Rightarrow> ('w, 'r) world_ops \<Rightarrow> operation \<Rightarrow> pyfloat \<Rightarrow> ('w, 'r) invocation list \<Rightarrow> nat \<Rightarrow> nat \<Rightarrow> nat \<Rightarrow>
     provider_error option \<Rightarrow> call_attempt list \<Rightarrow> 'w \<Rightarrow> 'r ending \<times> call_attempt list \<times> 'w" where
  "invoke_loop p ops op remaining [] ii ai used last_error acc w =
     (case last_error of
        None \<Rightarrow> (RaiseExc (RuntimeError ''provider executor reached an impossible state''), acc, w)
      | Some e \<Rightarrow> (FailWith e, acc, w))"
| "invoke_loop p ops op remaining (candidate # rest) ii ai used last_error acc w =
     (let (now, w1) = wo_clock ops w in
      if fle remaining now then (FailWith (deadline_error op), acc, w1)
      else
        let (now2, w2) = wo_clock ops w1;
            attempt_deadline = fmin remaining (fadd now2 (operation_timeout p op));
            (answer, w3) = candidate attempt_deadline w2
        in case answer of
          Escaped e \<Rightarrow> (RaiseExc e, acc, w3)
        | Answered r \<Rightarrow> (SucceedWith r, acc @ [attempt op ii ai attempt_deadline None], w3)
        | Failed error \<Rightarrow>
            let acc' = acc @ [attempt op ii ai attempt_deadline (Some (pe_code error))] in
            if pe_code error \<in> never_retried_codes then (FailWith error, acc', w3)
            else if \<not> (pe_retryable error \<and> pe_code error \<in> retried_codes) then (FailWith error, acc', w3)
            else
              let (now3, w4) = wo_clock ops w3 in
              if fle remaining now3 then (FailWith (deadline_error op), acc', w4)
              else if cp_max_retries p \<le> int used
              then invoke_loop p ops op remaining rest (Suc ii) 0 used (Some error) acc' w4
              else
                let (delay, w5) = retry_delay p ops error ai w4;
                    (now4, w6) = wo_clock ops w5
                in if fle remaining (fadd now4 delay)
                   then invoke_loop p ops op remaining rest (Suc ii) 0 used (Some error) acc' w6
                   else
                     let (raised, w7) = wo_sleep ops delay w6 in
                     (case raised of
                        Some e \<Rightarrow> (RaiseExc e, acc', w7)
                      | None \<Rightarrow>
                          let (now5, w8) = wo_clock ops w7 in
                          if fle remaining now5 then (FailWith (deadline_error op), acc', w8)
                          else invoke_loop p ops op remaining (candidate # rest) ii (Suc ai) (Suc used) (Some error) acc' w8))"
  by pat_completeness auto
termination
  by (relation "measures [\<lambda>(p, ops, op, d, cs, ii, ai, used, e, acc, w). length cs,
      \<lambda>(p, ops, op, d, cs, ii, ai, used, e, acc, w). nat (cp_max_retries p) - used]") auto

text \<open>The executor keeps the attempts of all its calls.\<close>

record executor =
  ex_policy :: call_policy
  ex_strict_replay :: bool
  ex_attempts :: "call_attempt list"

definition call_with_trace ::
    "executor \<Rightarrow> ('w, 'r) world_ops \<Rightarrow> operation \<Rightarrow> ('w, 'r) invocation \<Rightarrow> pyfloat \<Rightarrow> ('w, 'r) invocation list \<Rightarrow> 'w \<Rightarrow>
     (exc + 'r invocation_outcome) \<times> executor \<times> 'w" where
  "call_with_trace ex ops op invoke remaining fallbacks w =
     (if \<not> isfinite remaining then (Inl (ValueError ''remaining_deadline must be finite''), ex, w)
      else
        let (started, w1) = wo_clock ops w;
            invocations = [invoke] @ (if ex_strict_replay ex then [] else fallbacks);
            (ending, attempts, w2) = invoke_loop (ex_policy ex) ops op remaining invocations 0 0 0 None [] w1;
            ex' = ex\<lparr>ex_attempts := ex_attempts ex @ attempts\<rparr>
        in case ending of
          RaiseExc e \<Rightarrow> (Inl e, ex', w2)
        | FailWith e \<Rightarrow>
            let (finished, w3) = wo_clock ops w2 in
            (mk_outcome \<lparr>oc_result = None, oc_error = Some e,
               oc_trace = \<lparr>tr_operation = op, tr_attempts = attempts, tr_started_at = started, tr_finished_at = finished\<rparr>\<rparr>, ex', w3)
        | SucceedWith r \<Rightarrow>
            let (finished, w3) = wo_clock ops w2 in
            (mk_outcome \<lparr>oc_result = r, oc_error = None,
               oc_trace = \<lparr>tr_operation = op, tr_attempts = attempts, tr_started_at = started, tr_finished_at = finished\<rparr>\<rparr>, ex', w3))"

datatype 'r call_result = Returned 'r | ProviderRaised provider_error | ExcRaised exc

definition call ::
    "executor \<Rightarrow> ('w, 'r) world_ops \<Rightarrow> operation \<Rightarrow> ('w, 'r) invocation \<Rightarrow> pyfloat \<Rightarrow> ('w, 'r) invocation list \<Rightarrow> 'w \<Rightarrow>
     'r call_result \<times> executor \<times> 'w" where
  "call ex ops op invoke remaining fallbacks w =
     (let (outcome, ex', w') = call_with_trace ex ops op invoke remaining fallbacks w in
      ((case outcome of
          Inl e \<Rightarrow> ExcRaised e
        | Inr oc \<Rightarrow> (case oc_error oc of
            Some e \<Rightarrow> ProviderRaised e
          | None \<Rightarrow> (case oc_result oc of None \<Rightarrow> ExcRaised AssertionError | Some r \<Rightarrow> Returned r))), ex', w'))"

section \<open>The attempts of a call\<close>

declare invoke_loop.simps [simp del]

definition index_of :: "call_attempt \<Rightarrow> nat \<times> nat" where
  "index_of a = (at_invocation_index a, at_attempt_index a)"

text \<open>A retry of the same invocation, or the first attempt of the next one.\<close>

definition next_index :: "nat \<times> nat \<Rightarrow> nat \<times> nat \<Rightarrow> bool" where
  "next_index i j \<longleftrightarrow> j = (fst i, Suc (snd i)) \<or> j = (Suc (fst i), 0)"

definition numbered :: "call_attempt list \<Rightarrow> bool" where
  "numbered as \<longleftrightarrow> (as \<noteq> [] \<longrightarrow> index_of (hd as) = (0, 0)) \<and>
     successively (\<lambda>a b. next_index (index_of a) (index_of b)) as"

definition transient :: "call_attempt \<Rightarrow> bool" where
  "transient a \<longleftrightarrow> \<not> at_succeeded a \<and> (\<exists>c\<in>retried_codes. at_error_code a = Some c)"

definition retries_of :: "call_attempt list \<Rightarrow> nat" where
  "retries_of as = length (filter (\<lambda>a. 0 < at_attempt_index a) as)"

definition stays_within :: "operation \<Rightarrow> pyfloat \<Rightarrow> nat \<Rightarrow> call_attempt \<Rightarrow> bool" where
  "stays_within op remaining n a \<longleftrightarrow> at_operation a = op \<and> at_invocation_index a < n \<and> fle (at_deadline a) remaining"

definition trace_ok :: "call_policy \<Rightarrow> operation \<Rightarrow> pyfloat \<Rightarrow> nat \<Rightarrow> call_attempt list \<Rightarrow> bool" where
  "trace_ok p op remaining n as \<longleftrightarrow> numbered as \<and> (\<forall>a\<in>set as. stays_within op remaining n a) \<and>
     (\<forall>a\<in>set (butlast as). transient a) \<and> int (retries_of as) \<le> max 0 (cp_max_retries p) \<and>
     int (length as) \<le> int n + max 0 (cp_max_retries p)"

text \<open>What holds at the head of the loop.\<close>

definition loop_inv :: "call_policy \<Rightarrow> operation \<Rightarrow> pyfloat \<Rightarrow> nat \<Rightarrow> nat \<Rightarrow> nat \<Rightarrow> nat \<Rightarrow> provider_error option \<Rightarrow>
    call_attempt list \<Rightarrow> bool" where
  "loop_inv p op remaining n ii ai used last_error acc \<longleftrightarrow>
     numbered acc \<and> (\<forall>a\<in>set acc. stays_within op remaining n a \<and> transient a) \<and>
     (if acc = [] then ii = 0 \<and> ai = 0 else next_index (index_of (last acc)) (ii, ai)) \<and>
     retries_of acc + (if 0 < ai then 1 else 0) = used \<and> int used \<le> max 0 (cp_max_retries p) \<and>
     length acc = ii + used \<and>
     (case last_error of None \<Rightarrow> acc = [] | Some e \<Rightarrow> acc \<noteq> [] \<and> at_error_code (last acc) = Some (pe_code e))"

definition ending_ok :: "operation \<Rightarrow> call_attempt list \<Rightarrow> 'r ending \<Rightarrow> bool" where
  "ending_ok op as en \<longleftrightarrow>
     (case en of
        SucceedWith r \<Rightarrow> as \<noteq> [] \<and> at_succeeded (last as)
      | FailWith e \<Rightarrow> (\<forall>a\<in>set as. \<not> at_succeeded a) \<and>
          (e = deadline_error op \<or> as \<noteq> [] \<and> at_error_code (last as) = Some (pe_code e))
      | RaiseExc e \<Rightarrow> \<forall>a\<in>set as. \<not> at_succeeded a)"

lemma numbered_snoc:
  assumes "numbered acc" "if acc = [] then index_of a = (0, 0) else next_index (index_of (last acc)) (index_of a)"
  shows "numbered (acc @ [a])"
  using assms by (cases "acc = []") (auto simp: numbered_def successively_append_iff)

lemma trace_of_inv:
  assumes "loop_inv p op remaining n ii ai used le acc" "ii \<le> n"
  shows "trace_ok p op remaining n acc"
  using assms by (auto simp: loop_inv_def trace_ok_def dest: in_set_butlastD split: if_splits)

lemma trace_snoc:
  assumes "loop_inv p op remaining n ii ai used le acc" "stays_within op remaining n a" "index_of a = (ii, ai)"
  shows "trace_ok p op remaining n (acc @ [a])"
proof -
  have "retries_of (acc @ [a]) = used" using assms(1,3) by (auto simp: loop_inv_def retries_of_def index_of_def)
  moreover have "numbered (acc @ [a])" using assms by (intro numbered_snoc) (auto simp: loop_inv_def split: if_splits)
  moreover have "ii < n" using assms(2,3) by (simp add: stays_within_def index_of_def)
  ultimately show ?thesis using assms by (auto simp: loop_inv_def trace_ok_def)
qed

lemma inv_snoc:
  assumes "loop_inv p op remaining n ii ai used le acc" "stays_within op remaining n a" "index_of a = (ii, ai)"
    and "transient a" "at_error_code a = Some (pe_code e)"
  shows "loop_inv p op remaining n (Suc ii) 0 used (Some e) (acc @ [a])"
    and "\<not> cp_max_retries p \<le> int used \<Longrightarrow> loop_inv p op remaining n ii (Suc ai) (Suc used) (Some e) (acc @ [a])"
proof -
  have "retries_of (acc @ [a]) = used" using assms(1,3) by (auto simp: loop_inv_def retries_of_def index_of_def)
  moreover have "numbered (acc @ [a])" using assms by (intro numbered_snoc) (auto simp: loop_inv_def split: if_splits)
  ultimately show "loop_inv p op remaining n (Suc ii) 0 used (Some e) (acc @ [a])"
    and "\<not> cp_max_retries p \<le> int used \<Longrightarrow> loop_inv p op remaining n ii (Suc ai) (Suc used) (Some e) (acc @ [a])"
    using assms by (auto simp: loop_inv_def next_index_def)
qed

lemma attempt_within: "ii < n \<Longrightarrow> isfinite remaining \<Longrightarrow> stays_within op remaining n (attempt op ii ai (fmin remaining x) err)"
  by (cases x; cases remaining) (auto simp: stays_within_def attempt_def fmin_def)

lemma inv_failed: "loop_inv p op remaining n ii ai used le acc \<Longrightarrow> a \<in> set acc \<Longrightarrow> \<not> at_succeeded a"
  by (auto simp: loop_inv_def transient_def)

lemma invoke_loop_ok:
  assumes "isfinite remaining"
  shows "loop_inv p op remaining n ii ai used le acc \<Longrightarrow> ii + length cs = n \<Longrightarrow>
    invoke_loop p ops op remaining cs ii ai used le acc w = (en, as, w') \<Longrightarrow>
    trace_ok p op remaining n as \<and> ending_ok op as en"
proof (induction cs arbitrary: ii ai used le acc w)
  case Nil
  then show ?case using trace_of_inv [OF Nil(1)] inv_failed [OF Nil(1)]
    by (auto simp: invoke_loop.simps ending_ok_def loop_inv_def split: option.splits)
next
  case (Cons c rest)
  note next_call = Cons.IH
  from Cons.prems show ?case
  proof (induction "nat (cp_max_retries p) - used" arbitrary: ai used le acc w rule: less_induct)
  case less
  note inv = less.prems(1) and run = less.prems(3)
  have ii: "ii < n" using less.prems(2) by simp
  have acc: "trace_ok p op remaining n acc" "\<forall>a\<in>set acc. \<not> at_succeeded a"
    using trace_of_inv [OF inv] inv_failed [OF inv] ii by auto
  obtain now w1 where w1: "wo_clock ops w = (now, w1)" by (cases "wo_clock ops w")
  show ?case
  proof (cases "fle remaining now")
    case True
    with run w1 acc show ?thesis by (auto simp: invoke_loop.simps ending_ok_def)
  next
    case False
    obtain now2 w2 where w2: "wo_clock ops w1 = (now2, w2)" by (cases "wo_clock ops w1")
    define dl where "dl = fmin remaining (fadd now2 (operation_timeout p op))"
    obtain ans w3 where w3: "c dl w2 = (ans, w3)" by (cases "c dl w2")
    note step = run [unfolded invoke_loop.simps(2) [of p ops op remaining c rest ii ai used le acc w] w1 Let_def prod.case if_not_P [OF False] w2 dl_def [symmetric] w3]
    show ?thesis
    proof (cases ans)
      case (Escaped e)
      with step acc show ?thesis by (auto simp: ending_ok_def)
    next
      case (Answered r)
      let ?a = "attempt op ii ai dl None"
      have "trace_ok p op remaining n (acc @ [?a])"
        by (rule trace_snoc [OF inv]) (simp_all add: dl_def attempt_within [OF ii assms], simp add: index_of_def attempt_def)
      with Answered step show ?thesis by (auto simp: ending_ok_def attempt_def)
    next
      case (Failed e)
      let ?a = "attempt op ii ai dl (Some (pe_code e))"
      have a: "stays_within op remaining n ?a" "index_of ?a = (ii, ai)" "at_error_code ?a = Some (pe_code e)" "\<not> at_succeeded ?a"
        unfolding dl_def by (simp_all add: attempt_within [OF ii assms]) (simp_all add: index_of_def attempt_def)
      have acc': "trace_ok p op remaining n (acc @ [?a])" by (rule trace_snoc [OF inv a(1,2)])
      have fails: "ending_ok op (acc @ [?a]) (FailWith e)" "ending_ok op (acc @ [?a]) (FailWith (deadline_error op))"
        "ending_ok op (acc @ [?a]) (RaiseExc x)" for x
        using acc(2) a by (auto simp: ending_ok_def)
      show ?thesis
      proof (cases "pe_code e \<in> never_retried_codes \<or> \<not> (pe_retryable e \<and> pe_code e \<in> retried_codes)")
        case True
        with step Failed acc' fails show ?thesis by (auto split: if_splits)
      next
        case codes: False
        then have tr: "transient ?a" using a(3,4) by (auto simp: transient_def)
        obtain now3 w4 where w4: "wo_clock ops w3 = (now3, w4)" by (cases "wo_clock ops w3")
        show ?thesis
        proof (cases "fle remaining now3")
          case True
          with step Failed codes w4 acc' fails show ?thesis by auto
        next
          case late: False
          note inv' = inv_snoc [OF inv a(1,2) tr a(3)]
          have next_ok: "trace_ok p op remaining n as \<and> ending_ok op as en"
            if "invoke_loop p ops op remaining rest (Suc ii) 0 used (Some e) (acc @ [?a]) v = (en, as, w')" for v
            using next_call [OF inv'(1) _ that] less.prems(2) by simp
          show ?thesis
          proof (cases "cp_max_retries p \<le> int used")
            case True
            with step Failed codes w4 late show ?thesis by (intro next_ok) auto
          next
            case more: False
            obtain delay w5 where w5: "retry_delay p ops e ai w4 = (delay, w5)" by (cases "retry_delay p ops e ai w4")
            obtain now4 w6 where w6: "wo_clock ops w5 = (now4, w6)" by (cases "wo_clock ops w5")
            show ?thesis
            proof (cases "fle remaining (fadd now4 delay)")
              case True
              with step Failed codes w4 late more w5 w6 show ?thesis by (intro next_ok) auto
            next
              case soon: False
              obtain raised w7 where w7: "wo_sleep ops delay w6 = (raised, w7)" by (cases "wo_sleep ops delay w6")
              show ?thesis
              proof (cases raised)
                case (Some x)
                with step Failed codes w4 late more w5 w6 soon w7 acc' fails show ?thesis by auto
              next
                case None
                obtain now5 w8 where w8: "wo_clock ops w7 = (now5, w8)" by (cases "wo_clock ops w7")
                show ?thesis
                proof (cases "fle remaining now5")
                  case True
                  with step Failed codes w4 late more w5 w6 soon w7 None w8 acc' fails show ?thesis by auto
                next
                  case False
                  with step Failed codes w4 late more w5 w6 soon w7 None w8 have
                    "invoke_loop p ops op remaining (c # rest) ii (Suc ai) (Suc used) (Some e) (acc @ [?a]) w8 = (en, as, w')"
                    by auto
                  from less.hyps [OF _ inv'(2) [OF more] less.prems(2) this] more show ?thesis by simp
                qed
              qed
            qed
          qed
        qed
      qed
    qed
  qed
  qed
qed

text \<open>Invocations and a sleeper that let no other exception through.\<close>

definition polite :: "('w, 'r) world_ops \<Rightarrow> ('w, 'r) invocation list \<Rightarrow> bool" where
  "polite ops cs \<longleftrightarrow> (\<forall>c\<in>set cs. \<forall>d w e. fst (c d w) \<noteq> Escaped e) \<and> (\<forall>d w. fst (wo_sleep ops d w) = None)"

lemma invoke_loop_polite:
  "polite ops cs \<Longrightarrow> cs \<noteq> [] \<or> le \<noteq> None \<Longrightarrow> fst (invoke_loop p ops op remaining cs ii ai used le acc w) \<noteq> RaiseExc x"
proof (induction cs arbitrary: ii ai used le acc w)
  case Nil
  then show ?case by (auto simp: invoke_loop.simps)
next
  case (Cons c rest)
  from Cons.prems(1) have pol: "polite ops rest" "\<And>d w e. fst (c d w) \<noteq> Escaped e" "\<And>d w. fst (wo_sleep ops d w) = None"
    by (auto simp: polite_def)
  have next_call: "fst (invoke_loop p ops op remaining rest i a u (Some e) ac v) \<noteq> RaiseExc x" for i a u e ac v
    by (rule Cons.IH [OF pol(1)]) simp
  show ?case
  proof (induction "nat (cp_max_retries p) - used" arbitrary: ai used le acc w rule: less_induct)
    case less
    have again: "fst (invoke_loop p ops op remaining (c # rest) ii (Suc ai) (Suc used) (Some e) ac v) \<noteq> RaiseExc x"
      if "\<not> cp_max_retries p \<le> int used" for e ac v
      by (rule less) (use that in simp)
    obtain now w1 where w1: "wo_clock ops w = (now, w1)" by (cases "wo_clock ops w")
    obtain now2 w2 where w2: "wo_clock ops w1 = (now2, w2)" by (cases "wo_clock ops w1")
    obtain ans w3 where w3: "c (fmin remaining (fadd now2 (operation_timeout p op))) w2 = (ans, w3)"
      by (cases "c (fmin remaining (fadd now2 (operation_timeout p op))) w2")
    have ans: "ans \<noteq> Escaped e" for e using pol(2) [of "fmin remaining (fadd now2 (operation_timeout p op))" w2 e] w3 by simp
    obtain now3 w4 where w4: "wo_clock ops w3 = (now3, w4)" by (cases "wo_clock ops w3")
    show ?case
    proof (cases ans)
      case (Failed e)
      obtain delay w5 where w5: "retry_delay p ops e ai w4 = (delay, w5)" by (cases "retry_delay p ops e ai w4")
      obtain now4 w6 where w6: "wo_clock ops w5 = (now4, w6)" by (cases "wo_clock ops w5")
      obtain w7 where w7: "wo_sleep ops delay w6 = (None, w7)" using pol(3) [of delay w6] by (cases "wo_sleep ops delay w6") auto
      obtain now5 w8 where w8: "wo_clock ops w7 = (now5, w8)" by (cases "wo_clock ops w7")
      show ?thesis unfolding invoke_loop.simps(2) [of p ops op remaining c rest ii ai used le acc w] Let_def w1 prod.case w2 w3 Failed
          answer.case w4 w5 w6 w7 w8 option.case
        using next_call again by (simp split: if_split)
    next
      case (Answered r)
      then show ?thesis unfolding invoke_loop.simps(2) [of p ops op remaining c rest ii ai used le acc w] Let_def w1 prod.case w2 w3
        by (simp split: if_split)
    qed (use ans in blast)
  qed
qed


text \<open>A provider that times out once, then answers, under a clock that ticks.\<close>

definition demo_ops :: "(int, nat) world_ops" where
  "demo_ops = \<lparr>wo_clock = (\<lambda>w. (Fin (of_int w), w + 1)), wo_sleep = (\<lambda>d w. (None, w)), wo_uniform = (\<lambda>a b w. (Fin 1, w))\<rparr>"

definition demo_invoke :: "(int, nat) invocation" where
  "demo_invoke d w = (if w < 3 then Failed \<lparr>pe_code = RateLimited, pe_provider = ''p'', pe_operation = ''model'',
      pe_public_message = ''m'', pe_retryable = True, pe_retry_after = Some (Fin 1), pe_usage = None\<rparr> else Answered (Some 7), w + 1)"

definition demo_executor :: executor where
  "demo_executor = \<lparr>ex_policy = default_policy, ex_strict_replay = False, ex_attempts = []\<rparr>"


end
