(* ===== verification/Checkpoints.thy ===== *)
theory Checkpoints
  imports Budget Domain_Evidence
begin

text \<open>
  The strict checkpoint serializer and the identity of checkpoints
  (\<^verbatim>\<open>src/src/deepresearch/runtime/checkpoints.py\<close>, \<^verbatim>\<open>ports.py\<close>).  The base serializer of the
  graph library and the parser of ISO times are arguments.  Python's limit on the depth of
  recursion is left out: beyond it the code raises the same error.
\<close>

section \<open>Values\<close>

text \<open>The models a checkpoint may hold, and their validation.\<close>

datatype checkpoint_model =
    CkRequest research_request | CkPlan research_plan | CkSubQuestion sub_question | CkNeed information_need
  | CkEntry coverage_ledger_entry | CkBudget run_budget | CkUsage resource_usage | CkSnapshot budget_snapshot

definition checked :: "bool \<Rightarrow> 'a \<Rightarrow> exc + 'a" where
  "checked ok x = (if ok then Inr x else Inl (ValueError ''invalid field''))"

fun model_validate :: "checkpoint_model \<Rightarrow> exc + checkpoint_model" where
  "model_validate (CkRequest r) = rbind (mk_request r) (\<lambda>x. Inr (CkRequest x))"
| "model_validate (CkPlan p) = rbind (mk_plan p) (\<lambda>x. Inr (CkPlan x))"
| "model_validate (CkSubQuestion q) = rbind (checked (valid_subquestion q) q) (\<lambda>x. Inr (CkSubQuestion x))"
| "model_validate (CkNeed n) = rbind (checked (unit (in_importance n)) n) (\<lambda>x. Inr (CkNeed x))"
| "model_validate (CkEntry e) = rbind (mk_entry e) (\<lambda>x. Inr (CkEntry x))"
| "model_validate (CkBudget b) = rbind (mk_run_budget b) (\<lambda>x. Inr (CkBudget x))"
| "model_validate (CkUsage u) = rbind (mk_usage u) (\<lambda>x. Inr (CkUsage x))"
| "model_validate (CkSnapshot s) = rbind (mk_snapshot s) (\<lambda>x. Inr (CkSnapshot x))"

text \<open>
  Objects in memory: scalars, allowed models, references to containers, and values of any other
  type.  An envelope is the record that stands for a tuple; it holds its items as one value.
\<close>

datatype ckval =
    CNone | CBool bool | CInt int | CFloat pyfloat | CStr string | CBytes "nat list"
  | CModel checkpoint_model | CRef nat | COther

datatype ckobject = KTuple "ckval list" | KList "ckval list" | KDict "(ckval \<times> ckval) list" | KEnvelope ckval

type_synonym memory = "ckobject list"

text \<open>What a serializer sees: values without sharing.\<close>

datatype cktree =
    TNone | TBool bool | TInt int | TFloat pyfloat | TStr string | TBytes "nat list" | TModel checkpoint_model
  | TTuple "cktree list" | TList "cktree list" | TDict "(string \<times> cktree) list" | TEnvelope "cktree list"

datatype ck_error = SerializationError | CkRaised exc

fun ck_scalar :: "ckval \<Rightarrow> cktree option" where
  "ck_scalar CNone = Some TNone" | "ck_scalar (CBool b) = Some (TBool b)" | "ck_scalar (CInt i) = Some (TInt i)"
| "ck_scalar (CStr s) = Some (TStr s)" | "ck_scalar (CBytes b) = Some (TBytes b)" | "ck_scalar _ = None"

fun ck_key :: "ckval \<Rightarrow> string option" where
  "ck_key (CStr s) = Some s"
| "ck_key _ = None"

section \<open>Encoding and decoding\<close>

text \<open>The memory is finite and a container is never entered twice on a path, so the recursion ends.\<close>

definition entered :: "memory \<Rightarrow> nat set \<Rightarrow> nat" where
  "entered h active = card ({..<length h} - active)"

lemma entered_less: "r < length h \<Longrightarrow> r \<notin> active \<Longrightarrow> entered h (insert r active) < entered h active"
  unfolding entered_def by (rule psubset_card_mono) auto

function (sequential) encode_value :: "memory \<Rightarrow> nat set \<Rightarrow> ckval \<Rightarrow> ck_error + cktree"
  and encode_values :: "memory \<Rightarrow> nat set \<Rightarrow> ckval list \<Rightarrow> ck_error + cktree list" where
  "encode_value h active (CFloat x) = (if isfinite x then Inr (TFloat x) else Inl SerializationError)"
| "encode_value h active (CModel m) =
     (case model_validate m of Inl e \<Rightarrow> Inl (CkRaised e) | Inr m' \<Rightarrow> Inr (TModel m'))"
| "encode_value h active (CRef r) =
     (if \<not> r < length h \<or> r \<in> active then Inl SerializationError
      else case h ! r of
        KTuple vs \<Rightarrow> rbind (encode_values h (insert r active) vs) (\<lambda>ts. Inr (TEnvelope ts))
      | KList vs \<Rightarrow> rbind (encode_values h (insert r active) vs) (\<lambda>ts. Inr (TList ts))
      | KDict kvs \<Rightarrow>
          if list_ex (\<lambda>(k, _). ck_key k = None) kvs then Inl SerializationError
          else rbind (encode_values h (insert r active) (map snd kvs))
                 (\<lambda>ts. Inr (TDict (zip (map (\<lambda>(k, _). the (ck_key k)) kvs) ts)))
      | KEnvelope _ \<Rightarrow> Inl SerializationError)"
| "encode_value h active v = (case ck_scalar v of None \<Rightarrow> Inl SerializationError | Some t \<Rightarrow> Inr t)"
| "encode_values h active [] = Inr []"
| "encode_values h active (v # vs) =
     rbind (encode_value h active v) (\<lambda>t. rbind (encode_values h active vs) (\<lambda>ts. Inr (t # ts)))"
  by pat_completeness auto
termination
  by (relation "measures [\<lambda>x. case x of Inl (h, a, v) \<Rightarrow> entered h a | Inr (h, a, vs) \<Rightarrow> entered h a,
       \<lambda>x. case x of Inl (h, a, v) \<Rightarrow> 0 | Inr (h, a, vs) \<Rightarrow> Suc (length vs)]")
    (auto simp: entered_less)

function (sequential) decode_value :: "memory \<Rightarrow> nat set \<Rightarrow> ckval \<Rightarrow> ck_error + cktree"
  and decode_values :: "memory \<Rightarrow> nat set \<Rightarrow> ckval list \<Rightarrow> ck_error + cktree list" where
  "decode_value h active (CFloat x) = (if isfinite x then Inr (TFloat x) else Inl SerializationError)"
| "decode_value h active (CModel m) =
     (case model_validate m of Inl e \<Rightarrow> Inl (CkRaised e) | Inr m' \<Rightarrow> Inr (TModel m'))"
| "decode_value h active (CRef r) =
     (if \<not> r < length h then Inl SerializationError
      else case h ! r of
        KEnvelope items \<Rightarrow>
          (case items of
             CRef i \<Rightarrow>
               if \<not> i < length h then Inl SerializationError
               else (case h ! i of
                 KList vs \<Rightarrow>
                   if r \<in> active then Inl SerializationError
                   else rbind (decode_values h (insert r active) vs) (\<lambda>ts. Inr (TTuple ts))
               | _ \<Rightarrow> Inl SerializationError)
           | _ \<Rightarrow> Inl SerializationError)
      | KList vs \<Rightarrow>
          if r \<in> active then Inl SerializationError
          else rbind (decode_values h (insert r active) vs) (\<lambda>ts. Inr (TList ts))
      | KDict kvs \<Rightarrow>
          if r \<in> active \<or> list_ex (\<lambda>(k, _). ck_key k = None) kvs then Inl SerializationError
          else rbind (decode_values h (insert r active) (map snd kvs))
                 (\<lambda>ts. Inr (TDict (zip (map (\<lambda>(k, _). the (ck_key k)) kvs) ts)))
      | KTuple _ \<Rightarrow> Inl SerializationError)"
| "decode_value h active v = (case ck_scalar v of None \<Rightarrow> Inl SerializationError | Some t \<Rightarrow> Inr t)"
| "decode_values h active [] = Inr []"
| "decode_values h active (v # vs) =
     rbind (decode_value h active v) (\<lambda>t. rbind (decode_values h active vs) (\<lambda>ts. Inr (t # ts)))"
  by pat_completeness auto
termination
  by (relation "measures [\<lambda>x. case x of Inl (h, a, v) \<Rightarrow> entered h a | Inr (h, a, vs) \<Rightarrow> entered h a,
       \<lambda>x. case x of Inl (h, a, v) \<Rightarrow> 0 | Inr (h, a, vs) \<Rightarrow> Suc (length vs)]")
    (auto simp: entered_less)

section \<open>The serializer\<close>

type_synonym payload = "string \<times> nat list"

record base_serializer =
  bs_dumps :: "cktree \<Rightarrow> exc + payload"
  bs_loads :: "payload \<Rightarrow> exc + memory \<times> ckval"
  bs_redumps :: "memory \<Rightarrow> ckval \<Rightarrow> exc + payload"

definition allowed_labels :: "string set" where
  "allowed_labels = {''null'', ''bytes'', ''json'', ''msgpack''}"

text \<open>Every ordinary exception becomes a serialization error.\<close>

definition dumps_typed :: "base_serializer \<Rightarrow> memory \<Rightarrow> ckval \<Rightarrow> ck_error + payload" where
  "dumps_typed base h v =
     (case encode_value h {} v of
        Inl _ \<Rightarrow> Inl SerializationError
      | Inr t \<Rightarrow> (case bs_dumps base t of Inl _ \<Rightarrow> Inl SerializationError | Inr p \<Rightarrow> Inr p))"

definition loads_typed :: "base_serializer \<Rightarrow> payload \<Rightarrow> ck_error + cktree" where
  "loads_typed base p =
     (if fst p \<notin> allowed_labels then Inl SerializationError
      else case bs_loads base p of
        Inl _ \<Rightarrow> Inl SerializationError
      | Inr (h, v) \<Rightarrow>
          (case bs_redumps base h v of
             Inl _ \<Rightarrow> Inl SerializationError
           | Inr p' \<Rightarrow>
               if p' \<noteq> p then Inl SerializationError
               else (case decode_value h {} v of Inl _ \<Rightarrow> Inl SerializationError | Inr t \<Rightarrow> Inr t)))"

section \<open>Values without sharing\<close>

text \<open>\<open>holds h v t\<close>: the value \<open>v\<close> in the memory \<open>h\<close> is the tree \<open>t\<close>.\<close>

inductive holds :: "memory \<Rightarrow> ckval \<Rightarrow> cktree \<Rightarrow> bool"
  and holds_all :: "memory \<Rightarrow> ckval list \<Rightarrow> cktree list \<Rightarrow> bool"
  for h :: memory where
  ho_scalar: "ck_scalar v = Some t \<Longrightarrow> holds h v t"
| ho_float: "holds h (CFloat x) (TFloat x)"
| ho_model: "holds h (CModel m) (TModel m)"
| ho_tuple: "r < length h \<Longrightarrow> h ! r = KTuple vs \<Longrightarrow> holds_all h vs ts \<Longrightarrow> holds h (CRef r) (TTuple ts)"
| ho_list: "r < length h \<Longrightarrow> h ! r = KList vs \<Longrightarrow> holds_all h vs ts \<Longrightarrow> holds h (CRef r) (TList ts)"
| ho_dict: "r < length h \<Longrightarrow> h ! r = KDict kvs \<Longrightarrow> map fst kvs = map CStr ks \<Longrightarrow> holds_all h (map snd kvs) ts \<Longrightarrow>
    holds h (CRef r) (TDict (zip ks ts))"
| ho_envelope: "r < length h \<Longrightarrow> h ! r = KEnvelope (CRef i) \<Longrightarrow> i < length h \<Longrightarrow> h ! i = KList vs \<Longrightarrow> holds_all h vs ts \<Longrightarrow>
    holds h (CRef r) (TEnvelope ts)"
| ho_nil: "holds_all h [] []"
| ho_cons: "holds h v t \<Longrightarrow> holds_all h vs ts \<Longrightarrow> holds_all h (v # vs) (t # ts)"

inductive_simps holds_ref: "holds h (CRef r) t"
inductive_simps holds_atoms: "holds h (CFloat x) t" "holds h (CModel m) t"
inductive_simps holds_all_simps [simp]: "holds_all h [] ts" "holds_all h (v # vs) ts"

text \<open>A value the serializer takes: tuples become envelopes, models are validated again.\<close>

fun seal :: "cktree \<Rightarrow> cktree option" and seal_all :: "cktree list \<Rightarrow> cktree list option"
  and seal_items :: "(string \<times> cktree) list \<Rightarrow> (string \<times> cktree) list option" where
  "seal (TFloat x) = (if isfinite x then Some (TFloat x) else None)"
| "seal (TModel m) = (case model_validate m of Inl _ \<Rightarrow> None | Inr m' \<Rightarrow> Some (TModel m'))"
| "seal (TTuple ts) = map_option TEnvelope (seal_all ts)"
| "seal (TList ts) = map_option TList (seal_all ts)"
| "seal (TDict kts) = map_option TDict (seal_items kts)"
| "seal (TEnvelope ts) = None"
| "seal t = Some t"
| "seal_all [] = Some []"
| "seal_all (t # ts) = Option.bind (seal t) (\<lambda>u. map_option ((#) u) (seal_all ts))"
| "seal_items [] = Some []"
| "seal_items ((k, t) # kts) = Option.bind (seal t) (\<lambda>u. map_option ((#) (k, u)) (seal_items kts))"

text \<open>And back.\<close>

fun unseal :: "cktree \<Rightarrow> cktree option" and unseal_all :: "cktree list \<Rightarrow> cktree list option"
  and unseal_items :: "(string \<times> cktree) list \<Rightarrow> (string \<times> cktree) list option" where
  "unseal (TFloat x) = (if isfinite x then Some (TFloat x) else None)"
| "unseal (TModel m) = (case model_validate m of Inl _ \<Rightarrow> None | Inr m' \<Rightarrow> Some (TModel m'))"
| "unseal (TTuple ts) = None"
| "unseal (TList ts) = map_option TList (unseal_all ts)"
| "unseal (TDict kts) = map_option TDict (unseal_items kts)"
| "unseal (TEnvelope ts) = map_option TTuple (unseal_all ts)"
| "unseal t = Some t"
| "unseal_all [] = Some []"
| "unseal_all (t # ts) = Option.bind (unseal t) (\<lambda>u. map_option ((#) u) (unseal_all ts))"
| "unseal_items [] = Some []"
| "unseal_items ((k, t) # kts) = Option.bind (unseal t) (\<lambda>u. map_option ((#) (k, u)) (unseal_items kts))"

text \<open>Validated models, finite floats and no envelope.\<close>

fun storable :: "cktree \<Rightarrow> bool" where
  "storable (TFloat x) = isfinite x"
| "storable (TModel m) = (model_validate m = Inr m)"
| "storable (TTuple ts) = (\<forall>t\<in>set ts. storable t)"
| "storable (TList ts) = (\<forall>t\<in>set ts. storable t)"
| "storable (TDict kts) = (\<forall>(k, t)\<in>set kts. storable t)"
| "storable (TEnvelope ts) = False"
| "storable t = True"

lemma seal_zip: "length ks = length ts \<Longrightarrow> seal_items (zip ks ts) = map_option (zip ks) (seal_all ts)"
  by (induction ks ts rule: list_induct2) (auto simp: option.map_comp comp_def split: Option.bind_split)

lemma unseal_zip: "length ks = length ts \<Longrightarrow> unseal_items (zip ks ts) = map_option (zip ks) (unseal_all ts)"
  by (induction ks ts rule: list_induct2) (auto simp: option.map_comp comp_def split: Option.bind_split)

lemma seal_all_length: "seal_all ts = Some us \<Longrightarrow> length us = length ts"
  by (induction ts arbitrary: us) (auto simp: bind_eq_Some_conv)

lemma unseal_all_length: "unseal_all ts = Some us \<Longrightarrow> length us = length ts"
  by (induction ts arbitrary: us) (auto simp: bind_eq_Some_conv)

lemma seal_unseal:
  "storable t \<Longrightarrow> \<exists>e. seal t = Some e \<and> unseal e = Some t"
  "\<forall>t\<in>set ts. storable t \<Longrightarrow> \<exists>es. seal_all ts = Some es \<and> unseal_all es = Some ts"
  "\<forall>(k, t)\<in>set kts. storable t \<Longrightarrow> \<exists>es. seal_items kts = Some es \<and> unseal_items es = Some kts"
  by (induction t and ts and kts rule: seal_seal_all_seal_items.induct) fastforce+

lemma holds_all_length: "holds_all h vs ts \<Longrightarrow> length vs = length ts"
  by (induction vs arbitrary: ts) auto

lemma holds_det:
  "holds h v t \<Longrightarrow> holds h v u \<Longrightarrow> t = u"
  "holds_all h vs ts \<Longrightarrow> holds_all h vs us \<Longrightarrow> ts = us"
proof (induction arbitrary: u and us rule: holds_holds_all.inducts)
  case (ho_scalar v t)
  then show ?case by (cases v) (auto simp: holds.simps [of h _ u])
next
  case (ho_float x) then show ?case by (simp add: holds_atoms)
next
  case (ho_model m) then show ?case by (simp add: holds_atoms)
next
  case (ho_tuple r vs ts)
  from ho_tuple.prems ho_tuple(2) obtain us where "u = TTuple us" "holds_all h vs us" unfolding holds_ref by auto
  with ho_tuple(4) show ?case by simp
next
  case (ho_list r vs ts)
  from ho_list.prems ho_list(2) obtain us where "u = TList us" "holds_all h vs us" unfolding holds_ref by auto
  with ho_list(4) show ?case by simp
next
  case (ho_dict r kvs ks ts)
  from ho_dict.prems ho_dict(2) obtain ks' us where u: "u = TDict (zip ks' us)" "map fst kvs = map CStr ks'" "holds_all h (map snd kvs) us"
    unfolding holds_ref by auto
  from u(2) ho_dict have "map CStr ks = map CStr ks'" by metis
  then have "ks = ks'" by (simp add: inj_map_eq_map inj_def)
  moreover from u(3) ho_dict have "ts = us" by metis
  ultimately show ?case using u(1) by simp
next
  case (ho_envelope r i vs ts)
  from ho_envelope.prems ho_envelope(2,4) obtain us where "u = TEnvelope us" "holds_all h vs us" unfolding holds_ref by auto
  with ho_envelope(6) show ?case by simp
next
  case ho_nil then show ?case by simp
next
  case (ho_cons v t vs ts)
  from ho_cons.prems obtain t' us' where "us = t' # us'" "holds h v t'" "holds_all h vs us'" by auto
  with ho_cons(2,4) show ?case by simp
qed

text \<open>Nodes, to see that a container on the path is never met again.\<close>

fun nodes :: "cktree \<Rightarrow> nat" where
  "nodes (TTuple ts) = Suc (sum_list (map nodes ts))"
| "nodes (TList ts) = Suc (sum_list (map nodes ts))"
| "nodes (TDict kts) = Suc (sum_list (map (\<lambda>(k, t). nodes t) kts))"
| "nodes (TEnvelope ts) = Suc (sum_list (map nodes ts))"
| "nodes t = 1"

definition apart :: "memory \<Rightarrow> nat set \<Rightarrow> nat \<Rightarrow> bool" where
  "apart h active n \<longleftrightarrow> (\<forall>r\<in>active. \<forall>u. holds h (CRef r) u \<longrightarrow> n < nodes u)"

lemma apart_self: "holds h (CRef r) t \<Longrightarrow> apart h active (nodes t) \<Longrightarrow> r \<notin> active"
  by (auto simp: apart_def)

lemma apart_child: "holds h (CRef r) t \<Longrightarrow> apart h active (nodes t) \<Longrightarrow> n < nodes t \<Longrightarrow> apart h (insert r active) n"
  unfolding apart_def using holds_det(1) by (metis insert_iff less_trans)

lemma apart_mono: "apart h active n \<Longrightarrow> m \<le> n \<Longrightarrow> apart h active m"
  unfolding apart_def by (meson le_less_trans)

lemma nodes_zip: "length ks = length ts \<Longrightarrow> sum_list (map (\<lambda>(k, t). nodes t) (zip ks ts)) = sum_list (map nodes ts)"
  by (induction ks ts rule: list_induct2) simp_all

lemma child_nodes: "t \<in> set ts \<Longrightarrow> nodes t < Suc (sum_list (map nodes ts))"
  by (simp add: less_Suc_eq_le member_le_sum_list)

lemma scalar_shape:
  "ck_scalar v = Some t \<Longrightarrow> seal t = Some t \<and> unseal t = Some t \<and>
     encode_value h active v = Inr t \<and> decode_value h active v = Inr t"
  by (cases v) auto

lemma dict_keys:
  assumes "map fst kvs = map CStr ks"
  shows "map (\<lambda>(k, _). the (ck_key k)) kvs = ks" "\<not> list_ex (\<lambda>(k, _). ck_key k = None) kvs" "length ks = length kvs"
proof -
  show "length ks = length kvs" using assms by (metis length_map)
  have "map (\<lambda>k. the (ck_key k)) (map fst kvs) = map (\<lambda>k. the (ck_key k)) (map CStr ks)" by (simp only: assms)
  then show "map (\<lambda>(k, _). the (ck_key k)) kvs = ks" by (simp add: comp_def case_prod_unfold)
  have "\<forall>k\<in>set (map fst kvs). ck_key k \<noteq> None" unfolding assms by auto
  then show "\<not> list_ex (\<lambda>(k, _). ck_key k = None) kvs" by (auto simp: list_ex_iff)
qed

lemma string_keys:
  "\<not> list_ex (\<lambda>(k, _). ck_key k = None) kvs \<Longrightarrow> map fst kvs = map CStr (map (\<lambda>(k, _). the (ck_key k)) kvs)"
proof (induction kvs)
  case (Cons kv kvs)
  obtain k v where kv: "kv = (k, v)" by (cases kv)
  with Cons.prems obtain x where "k = CStr x" by (cases k) simp_all
  with Cons kv show ?case by simp
qed simp

lemma encode_holds:
  "holds h v t \<Longrightarrow> seal t = Some e \<Longrightarrow> apart h active (nodes t) \<Longrightarrow> encode_value h active v = Inr e"
  "holds_all h vs ts \<Longrightarrow> seal_all ts = Some es \<Longrightarrow> \<forall>t\<in>set ts. apart h active (nodes t) \<Longrightarrow> encode_values h active vs = Inr es"
proof (induction arbitrary: e active and es active rule: holds_holds_all.inducts)
  case (ho_scalar v t)
  then show ?case using scalar_shape by simp
next
  case (ho_float x) then show ?case by (simp split: if_splits)
next
  case (ho_model m) then show ?case by (simp split: sum.splits)
next
  case (ho_tuple r vs ts)
  then have rd: "holds h (CRef r) (TTuple ts)" by (auto intro: holds_holds_all.ho_tuple)
  obtain es where es: "seal_all ts = Some es" "e = TEnvelope es" using ho_tuple.prems(1) by auto
  have "\<forall>t\<in>set ts. apart h (insert r active) (nodes t)"
    using apart_child [OF rd ho_tuple.prems(2)] child_nodes [of _ ts] by simp
  with ho_tuple(4) es(1) have "encode_values h (insert r active) vs = Inr es" by blast
  with ho_tuple(1,2) es(2) apart_self [OF rd ho_tuple.prems(2)] show ?case by simp
next
  case (ho_list r vs ts)
  then have rd: "holds h (CRef r) (TList ts)" by (auto intro: holds_holds_all.ho_list)
  obtain es where es: "seal_all ts = Some es" "e = TList es" using ho_list.prems(1) by auto
  have "\<forall>t\<in>set ts. apart h (insert r active) (nodes t)"
    using apart_child [OF rd ho_list.prems(2)] child_nodes [of _ ts] by simp
  with ho_list(4) es(1) have "encode_values h (insert r active) vs = Inr es" by blast
  with ho_list(1,2) es(2) apart_self [OF rd ho_list.prems(2)] show ?case by simp
next
  case (ho_dict r kvs ks ts)
  note all = ho_dict
  have k: "map fst kvs = map CStr ks" "holds_all h (map snd kvs) ts" "r < length h" "h ! r = KDict kvs" using all by metis+
  then have rd: "holds h (CRef r) (TDict (zip ks ts))" by (auto intro: holds_holds_all.ho_dict)
  have len: "length ks = length ts" using dict_keys(3) [OF k(1)] holds_all_length [OF k(2)] by simp
  obtain es where es: "seal_all ts = Some es" "e = TDict (zip ks es)" using ho_dict.prems(1) by (auto simp: seal_zip [OF len])
  have "\<forall>t\<in>set ts. apart h (insert r active) (nodes t)"
    using apart_child [OF rd ho_dict.prems(2)] child_nodes [of _ ts] by (simp add: nodes_zip [OF len])
  with all es(1) have "encode_values h (insert r active) (map snd kvs) = Inr es" by metis
  with k es(2) apart_self [OF rd ho_dict.prems(2)] dict_keys [OF k(1)] show ?case by simp
next
  case (ho_envelope r i vs ts) then show ?case by simp
next
  case ho_nil then show ?case by simp
next
  case (ho_cons v t vs ts) then show ?case by (auto simp: bind_eq_Some_conv)
qed

lemma decode_holds:
  "holds h v t \<Longrightarrow> unseal t = Some e \<Longrightarrow> apart h active (nodes t) \<Longrightarrow> decode_value h active v = Inr e"
  "holds_all h vs ts \<Longrightarrow> unseal_all ts = Some es \<Longrightarrow> \<forall>t\<in>set ts. apart h active (nodes t) \<Longrightarrow> decode_values h active vs = Inr es"
proof (induction arbitrary: e active and es active rule: holds_holds_all.inducts)
  case (ho_scalar v t)
  then show ?case using scalar_shape by simp
next
  case (ho_float x) then show ?case by (simp split: if_splits)
next
  case (ho_model m) then show ?case by (simp split: sum.splits)
next
  case (ho_tuple r vs ts) then show ?case by simp
next
  case (ho_list r vs ts)
  then have rd: "holds h (CRef r) (TList ts)" by (auto intro: holds_holds_all.ho_list)
  obtain es where es: "unseal_all ts = Some es" "e = TList es" using ho_list.prems(1) by auto
  have "\<forall>t\<in>set ts. apart h (insert r active) (nodes t)"
    using apart_child [OF rd ho_list.prems(2)] child_nodes [of _ ts] by simp
  with ho_list(4) es(1) have "decode_values h (insert r active) vs = Inr es" by blast
  with ho_list(1,2) es(2) apart_self [OF rd ho_list.prems(2)] show ?case by simp
next
  case (ho_dict r kvs ks ts)
  note all = ho_dict
  have k: "map fst kvs = map CStr ks" "holds_all h (map snd kvs) ts" "r < length h" "h ! r = KDict kvs" using all by metis+
  then have rd: "holds h (CRef r) (TDict (zip ks ts))" by (auto intro: holds_holds_all.ho_dict)
  have len: "length ks = length ts" using dict_keys(3) [OF k(1)] holds_all_length [OF k(2)] by simp
  obtain es where es: "unseal_all ts = Some es" "e = TDict (zip ks es)" using ho_dict.prems(1) by (auto simp: unseal_zip [OF len])
  have "\<forall>t\<in>set ts. apart h (insert r active) (nodes t)"
    using apart_child [OF rd ho_dict.prems(2)] child_nodes [of _ ts] by (simp add: nodes_zip [OF len])
  with all es(1) have "decode_values h (insert r active) (map snd kvs) = Inr es" by metis
  with k es(2) apart_self [OF rd ho_dict.prems(2)] dict_keys [OF k(1)] show ?case by simp
next
  case (ho_envelope r i vs ts)
  note all = ho_envelope
  have k: "r < length h" "h ! r = KEnvelope (CRef i)" "i < length h" "h ! i = KList vs" "holds_all h vs ts" using all by metis+
  then have rd: "holds h (CRef r) (TEnvelope ts)" by (auto intro: holds_holds_all.ho_envelope)
  obtain es where es: "unseal_all ts = Some es" "e = TTuple es" using ho_envelope.prems(1) by auto
  have "\<forall>t\<in>set ts. apart h (insert r active) (nodes t)"
    using apart_child [OF rd ho_envelope.prems(2)] child_nodes [of _ ts] by simp
  with all es(1) have "decode_values h (insert r active) vs = Inr es" by metis
  with k es(2) apart_self [OF rd ho_envelope.prems(2)] show ?case by simp
next
  case ho_nil then show ?case by simp
next
  case (ho_cons v t vs ts) then show ?case by (auto simp: bind_eq_Some_conv)
qed


lemma scalar_sealed: "ck_scalar v = Some t \<Longrightarrow> \<exists>u. holds h v u \<and> seal u = Some t"
  using scalar_shape ho_scalar by blast

lemma encode_sound:
  "encode_value h active v = Inr e \<Longrightarrow> \<exists>t. holds h v t \<and> seal t = Some e"
  "encode_values h active vs = Inr es \<Longrightarrow> \<exists>ts. holds_all h vs ts \<and> seal_all ts = Some es"
proof (induction h active v and h active vs arbitrary: e and es rule: encode_value_encode_values.induct)
  case (3 h active r)
  from 3(4) have r: "r < length h" "r \<notin> active" by (auto split: if_splits)
  show ?case
  proof (cases "h ! r")
    case (KTuple vs)
    with 3(4) r obtain es where "encode_values h (insert r active) vs = Inr es" "e = TEnvelope es" by (auto simp: rbind_eq_Inr)
    with 3(1) [OF _ KTuple] r obtain ts where "holds_all h vs ts" "seal_all ts = Some es" by blast
    with r KTuple \<open>e = TEnvelope es\<close> show ?thesis by (intro exI [of _ "TTuple ts"]) (auto intro: ho_tuple)
  next
    case (KList vs)
    with 3(4) r obtain es where "encode_values h (insert r active) vs = Inr es" "e = TList es" by (auto simp: rbind_eq_Inr)
    with 3(2) [OF _ KList] r obtain ts where "holds_all h vs ts" "seal_all ts = Some es" by blast
    with r KList \<open>e = TList es\<close> show ?thesis by (intro exI [of _ "TList ts"]) (auto intro: ho_list)
  next
    case (KDict kvs)
    let ?ks = "map (\<lambda>(k, _). the (ck_key k)) kvs"
    from KDict 3(4) r obtain es where es: "\<not> list_ex (\<lambda>(k, _). ck_key k = None) kvs"
      "encode_values h (insert r active) (map snd kvs) = Inr es" "e = TDict (zip ?ks es)"
      by (auto simp: rbind_eq_Inr split: if_splits)
    with 3(3) [OF _ KDict] r obtain ts where ts: "holds_all h (map snd kvs) ts" "seal_all ts = Some es" by blast
    have len: "length ?ks = length ts" using holds_all_length [OF ts(1)] by simp
    from ho_dict [OF r(1) KDict string_keys [OF es(1)] ts(1)] show ?thesis
      by (intro exI [of _ "TDict (zip ?ks ts)"]) (simp add: seal_zip [OF len] ts(2) es(3))
  next
    case (KEnvelope x)
    with 3(4) r show ?thesis by simp
  qed
next
  case (6 h active v vs)
  then obtain x xs where x: "encode_value h active v = Inr x" "encode_values h active vs = Inr xs" "es = x # xs"
    by (auto simp: rbind_eq_Inr)
  with 6(1,2) obtain t ts where "holds h v t" "seal t = Some x" "holds_all h vs ts" "seal_all ts = Some xs" by blast
  with x(3) show ?case by (intro exI [of _ "t # ts"]) simp
qed (auto simp: holds_atoms intro!: scalar_sealed split: if_splits sum.splits)

lemma scalar_unsealed: "ck_scalar v = Some t \<Longrightarrow> \<exists>u. holds h v u \<and> unseal u = Some t"
  using scalar_shape ho_scalar by blast

lemma decode_sound:
  "decode_value h active v = Inr e \<Longrightarrow> \<exists>t. holds h v t \<and> unseal t = Some e"
  "decode_values h active vs = Inr es \<Longrightarrow> \<exists>ts. holds_all h vs ts \<and> unseal_all ts = Some es"
proof (induction h active v and h active vs arbitrary: e and es rule: decode_value_decode_values.induct)
  case (3 h active r)
  from 3(4) have r: "r < length h" by (auto split: if_splits)
  show ?case
  proof (cases "h ! r")
    case (KTuple vs)
    with 3(4) r show ?thesis by simp
  next
    case (KList vs)
    with 3(4) r have a: "r \<notin> active" by (auto split: if_splits)
    with KList 3(4) r obtain es where "decode_values h (insert r active) vs = Inr es" "e = TList es" by (auto simp: rbind_eq_Inr)
    with 3(1) KList r a obtain ts where "holds_all h vs ts" "unseal_all ts = Some es" by blast
    with r KList \<open>e = TList es\<close> show ?thesis by (intro exI [of _ "TList ts"]) (auto intro: ho_list)
  next
    case (KDict kvs)
    let ?ks = "map (\<lambda>(k, _). the (ck_key k)) kvs"
    from KDict 3(4) r obtain es where es: "r \<notin> active" "\<not> list_ex (\<lambda>(k, _). ck_key k = None) kvs"
      "decode_values h (insert r active) (map snd kvs) = Inr es" "e = TDict (zip ?ks es)"
      by (auto simp: rbind_eq_Inr split: if_splits)
    with 3(2) KDict r obtain ts where ts: "holds_all h (map snd kvs) ts" "unseal_all ts = Some es" by blast
    have len: "length ?ks = length ts" using holds_all_length [OF ts(1)] by simp
    from ho_dict [OF r(1) KDict string_keys [OF es(2)] ts(1)] show ?thesis
      by (intro exI [of _ "TDict (zip ?ks ts)"]) (simp add: unseal_zip [OF len] ts(2) es(4))
  next
    case (KEnvelope items)
    with 3(4) r obtain i where i: "items = CRef i" "i < length h" by (cases items) (auto split: if_splits)
    with KEnvelope 3(4) r obtain vs where vs: "h ! i = KList vs" by (cases "h ! i") auto
    with KEnvelope i 3(4) r have a: "r \<notin> active" by (auto split: if_splits)
    with KEnvelope i vs 3(4) r obtain es where es: "decode_values h (insert r active) vs = Inr es" "e = TTuple es"
      by (auto simp: rbind_eq_Inr)
    with 3(3) KEnvelope i vs r a obtain ts where "holds_all h vs ts" "unseal_all ts = Some es" by blast
    with r i vs KEnvelope es(2) show ?thesis by (intro exI [of _ "TEnvelope ts"]) (auto intro: ho_envelope)
  qed
next
  case (6 h active v vs)
  then obtain x xs where x: "decode_value h active v = Inr x" "decode_values h active vs = Inr xs" "es = x # xs"
    by (auto simp: rbind_eq_Inr)
  with 6(1,2) obtain t ts where "holds h v t" "unseal t = Some x" "holds_all h vs ts" "unseal_all ts = Some xs" by blast
  with x(3) show ?case by (intro exI [of _ "t # ts"]) simp
qed (auto simp: holds_atoms intro!: scalar_unsealed split: if_splits sum.splits)

lemma encode_exact: "encode_value h {} v = Inr e \<longleftrightarrow> (\<exists>t. holds h v t \<and> seal t = Some e)"
  using encode_sound(1) [of h "{}" v e] encode_holds(1) [of h v _ e "{}"] by (auto simp: apart_def)

lemma decode_exact: "decode_value h {} v = Inr t \<longleftrightarrow> (\<exists>e. holds h v e \<and> unseal e = Some t)"
  using decode_sound(1) [of h "{}" v t] decode_holds(1) [of h v _ t "{}"] by (auto simp: apart_def)

section \<open>The identity of a checkpoint\<close>

record checkpoint_ref =
  cr_checkpoint_id :: string
  cr_thread_id :: string
  cr_created_at :: timestamp

text \<open>\<^verbatim>\<open>CheckpointRef.__post_init__\<close>; the checks of the types hold by construction.\<close>

definition mk_checkpoint_ref :: "checkpoint_ref \<Rightarrow> exc + checkpoint_ref" where
  "mk_checkpoint_ref r =
     (if cr_checkpoint_id r = [] then Inl (ValueError ''checkpoint_id must not be empty'')
      else if cr_thread_id r = [] then Inl (ValueError ''thread_id must not be empty'')
      else if require_timezone (Some (cr_created_at r)) \<noteq> Inr (Some (cr_created_at r))
      then Inl (ValueError ''created_at must be timezone-aware'')
      else Inr r)"

text \<open>The parts of a \<^verbatim>\<open>CheckpointTuple\<close> that are read.\<close>

record checkpoint_tuple =
  ct_config :: "(string, json) dict"
  ct_checkpoint :: "(string, json) dict"

definition checkpoint_config :: "checkpoint_ref \<Rightarrow> (string, json) dict" where
  "checkpoint_config ref =
     [(''configurable'', JDict [(''thread_id'', JStr (cr_thread_id ref)), (''checkpoint_ns'', JStr []),
        (''checkpoint_id'', JStr (cr_checkpoint_id ref))])]"

text \<open>Every failure is the one error \<^verbatim>\<open>CheckpointIdentityError\<close>, here \<open>None\<close>.\<close>

fun json_string :: "json \<Rightarrow> string option" where
  "json_string (JStr s) = Some s"
| "json_string _ = None"

definition checkpoint_ref_from_tuple :: "(string \<Rightarrow> timestamp option) \<Rightarrow> checkpoint_tuple \<Rightarrow> checkpoint_ref option" where
  "checkpoint_ref_from_tuple fromiso value =
     (case dget (ct_config value) ''configurable'' of
        Some (JDict configurable) \<Rightarrow>
          Option.bind (dget configurable ''thread_id'') (\<lambda>thread_id.
          Option.bind (dget configurable ''checkpoint_id'') (\<lambda>checkpoint_id.
          let namespace = (case dget configurable ''checkpoint_ns'' of None \<Rightarrow> JStr [] | Some v \<Rightarrow> v) in
          Option.bind (dget (ct_checkpoint value) ''id'') (\<lambda>stored_id.
          Option.bind (dget (ct_checkpoint value) ''ts'') (\<lambda>ts.
          case (json_string thread_id, json_string checkpoint_id, json_string ts) of
            (Some t, Some c, Some time_text) \<Rightarrow>
              if t = [] \<or> c = [] \<or> namespace \<noteq> JStr [] \<or> stored_id \<noteq> JStr c then None
              else Option.bind (fromiso time_text) (\<lambda>created_at.
                if require_timezone (Some created_at) \<noteq> Inr (Some created_at) then None
                else (case mk_checkpoint_ref \<lparr>cr_checkpoint_id = c, cr_thread_id = t, cr_created_at = created_at\<rparr> of
                        Inl _ \<Rightarrow> None | Inr r \<Rightarrow> Some r))
          | _ \<Rightarrow> None))))
      | _ \<Rightarrow> None)"

text \<open>C25. A checkpoint comes back as it was stored.  Whatever the base serializer does otherwise, if it gives
back the tree it was given under an allowed label and encodes it again to the same bytes, then a
value of finite floats, validated models, tuples, lists and dictionaries with string keys, shared
or not, is stored and loaded as the same value, tuples as tuples.\<close>

theorem checkpoint_roundtrip:
  assumes "holds h v t" "storable t" "seal t = Some e"
    and "bs_dumps base e = Inr p" "fst p \<in> allowed_labels" "bs_loads base p = Inr (h', v')" "holds h' v' e"
    and "bs_redumps base h' v' = Inr p"
  shows "dumps_typed base h v = Inr p \<and> loads_typed base p = Inr t"
proof -
  have "encode_value h {} v = Inr e" using encode_exact assms(1,3) by blast
  moreover have "unseal e = Some t" using seal_unseal(1) [OF assms(2)] assms(3) by simp
  then have "decode_value h' {} v' = Inr t" using decode_exact assms(7) by blast
  ultimately show ?thesis using assms by (simp add: dumps_typed_def loads_typed_def)
qed

definition demo_memory :: memory where
  "demo_memory = [KTuple [CInt 1, CRef 1, CRef 1], KList [CStr ''a'']]"

definition demo_sealed :: memory where
  "demo_sealed = [KEnvelope (CRef 1), KList [CInt 1, CRef 2, CRef 3], KList [CStr ''a''], KList [CStr ''a'']]"

definition demo_base :: base_serializer where
  "demo_base = \<lparr>bs_dumps = (\<lambda>_. Inr (''msgpack'', [7])), bs_loads = (\<lambda>_. Inr (demo_sealed, CRef 0)),
     bs_redumps = (\<lambda>_ _. Inr (''msgpack'', [7]))\<rparr>"

theorem checkpoint_roundtrip_witness:
  "dumps_typed demo_base demo_memory (CRef 0) = Inr (''msgpack'', [7]) \<and>
   loads_typed demo_base (''msgpack'', [7]) = Inr (TTuple [TInt 1, TList [TStr ''a''], TList [TStr ''a'']])"
proof (rule checkpoint_roundtrip)
  have a: "holds m (CStr s) (TStr s)" "holds m (CInt i) (TInt i)" for m s i by (auto intro: ho_scalar)
  have l: "holds demo_memory (CRef 1) (TList [TStr ''a''])"
    by (rule ho_list) (use a in \<open>auto simp: demo_memory_def\<close>)
  show "holds demo_memory (CRef 0) (TTuple [TInt 1, TList [TStr ''a''], TList [TStr ''a'']])"
    by (rule ho_tuple [where vs = "[CInt 1, CRef 1, CRef 1]"]) (use l a in \<open>auto simp: demo_memory_def\<close>)
  have m: "holds demo_sealed (CRef r) (TList [TStr ''a''])" if "r = 2 \<or> r = 3" for r
    by (rule ho_list [where vs = "[CStr ''a'']"]) (use a that in \<open>auto simp: demo_sealed_def\<close>)
  show "holds demo_sealed (CRef 0) (TEnvelope [TInt 1, TList [TStr ''a''], TList [TStr ''a'']])"
    by (rule ho_envelope [where i = 1 and vs = "[CInt 1, CRef 2, CRef 3]"])
      (use m a in \<open>auto simp: demo_sealed_def\<close>)
qed (simp_all add: demo_base_def allowed_labels_def)

text \<open>The serializer refuses everything else: what is stored was a finite value of the allowed kinds, and what is
loaded came from bytes that the base serializer reproduces.\<close>

theorem checkpoint_strict:
  "dumps_typed base h v = Inr p \<Longrightarrow> \<exists>t e. holds h v t \<and> seal t = Some e \<and> bs_dumps base e = Inr p"
  "loads_typed base p = Inr t \<Longrightarrow> fst p \<in> allowed_labels \<and>
     (\<exists>h v e. bs_loads base p = Inr (h, v) \<and> bs_redumps base h v = Inr p \<and> holds h v e \<and> unseal e = Some t)"
  subgoal unfolding dumps_typed_def by (fastforce simp: encode_exact split: sum.splits)
  subgoal unfolding loads_typed_def by (fastforce simp: decode_exact split: sum.splits if_splits)
  done

lemma checkpoint_ref_roundtrip:
  assumes "mk_checkpoint_ref ref = Inr ref" "fromiso time_text = Some (cr_created_at ref)"
  shows "checkpoint_ref_from_tuple fromiso \<lparr>ct_config = checkpoint_config ref,
    ct_checkpoint = [(''id'', JStr (cr_checkpoint_id ref)), (''ts'', JStr time_text)]\<rparr> = Some ref"
  using assms by (auto simp: checkpoint_ref_from_tuple_def checkpoint_config_def mk_checkpoint_ref_def split: if_splits)

end
