(* ===== verification/Workflow_State.thy ===== *)
theory Workflow_State
  imports Checkpoints Stop
begin

text \<open>
  The state of the workflow graphs as it is stored in checkpoints
  (\<^verbatim>\<open>src/src/deepresearch/workflow/state.py\<close>).  A stored state is a dictionary of values of any
  type; validation turns it into a typed record or fails.  \<open>baseline_dict\<close> and \<open>research_dict\<close>
  are the dictionaries that stand for a typed state.
\<close>

section \<open>Values and states\<close>

datatype state_value =
    SvNone | SvBool bool | SvInt int | SvFloat pyfloat | SvStr string | SvTuple "state_value list"
  | SvMap "(string \<times> state_value) list" | SvModel checkpoint_model | SvOther

type_synonym stored_state = "(string, state_value) dict"

text \<open>\<^verbatim>\<open>StateValidationError\<close>, and \<^verbatim>\<open>float\<close> of an integer beyond the range of floats.\<close>

datatype state_error = StateInvalid | StateOverflow

record baseline_blocked_need =
  bb_need_id :: string
  bb_required_source_unavailable :: bool
  bb_alternative_strategies_exhausted :: bool
  bb_retry_count :: int
  bb_max_retries :: int

record baseline_state =
  bst_run_id :: string
  bst_thread_id :: string
  bst_request :: research_request
  bst_config_sha256 :: string
  bst_plan_id :: "string option"
  bst_plan_artifact_id :: "string option"
  bst_pending_subquestion_ids :: "string list"
  bst_active_subquestion_id :: "string option"
  bst_query_ids :: "string list"
  bst_source_ids :: "string list"
  bst_evidence_ids :: "string list"
  bst_selected_evidence_ids :: "string list"
  bst_coverage_ledger :: "coverage_ledger_entry list"
  bst_high_priority_unresolved_conflict_ids :: "string list"
  bst_blocked_needs :: "baseline_blocked_need list"
  bst_recent_marginal_gains :: "pyfloat list"
  bst_baseline_work_artifact_ids :: "string list"
  bst_budget_snapshot :: budget_snapshot
  bst_stop_reason :: "stop_reason option"
  bst_is_partial :: bool
  bst_draft_artifact_id :: "string option"
  bst_report_artifact_id :: "string option"
  bst_evidence_graph_artifact_id :: "string option"
  bst_manifest_artifact_id :: "string option"
  bst_next_event_seq :: int
  bst_failed_node :: "string option"
  bst_elapsed_wall_seconds :: pyfloat
  bst_error_code :: "string option"

datatype decision_route = RouteSearch | RouteStop | RoutePersist
datatype verification_route = RouteTargeted | RouteResolve | RouteFinalize | RoutePersistVerified

text \<open>The fields of \<^verbatim>\<open>total=False\<close> may be absent.\<close>

record research_state = baseline_state +
  rst_planner_round_index :: "int option"
  rst_decision_route :: "decision_route option"
  rst_verification_route :: "verification_route option"
  rst_rank_artifact_id :: "string option option"
  rst_claim_ids :: "string list option"
  rst_unsupported_claim_ids :: "string list option"
  rst_claim_resolution_artifact_id :: "string option option"
  rst_citation_guard_artifact_id :: "string option option"
  rst_directional_research_rounds :: "int option"

definition baseline_fields :: "string set" where
  "baseline_fields =
     {''run_id'', ''thread_id'', ''request'', ''config_sha256'', ''plan_id'', ''plan_artifact_id'',
      ''pending_subquestion_ids'', ''active_subquestion_id'', ''query_ids'', ''source_ids'', ''evidence_ids'',
      ''selected_evidence_ids'', ''coverage_ledger'', ''high_priority_unresolved_conflict_ids'', ''blocked_needs'',
      ''recent_marginal_gains'', ''baseline_work_artifact_ids'', ''budget_snapshot'', ''stop_reason'', ''is_partial'',
      ''draft_artifact_id'', ''report_artifact_id'', ''evidence_graph_artifact_id'', ''manifest_artifact_id'',
      ''next_event_seq'', ''failed_node'', ''elapsed_wall_seconds'', ''error_code''}"

definition research_fields :: "string set" where
  "research_fields =
     {''planner_round_index'', ''decision_route'', ''verification_route'', ''rank_artifact_id'', ''claim_ids'',
      ''unsupported_claim_ids'', ''claim_resolution_artifact_id'', ''citation_guard_artifact_id'',
      ''directional_research_rounds''}"

definition blocked_fields :: "string set" where
  "blocked_fields =
     {''need_id'', ''required_source_unavailable'', ''alternative_strategies_exhausted'', ''retry_count'', ''max_retries''}"

section \<open>Reading one field\<close>

definition field :: "stored_state \<Rightarrow> string \<Rightarrow> (state_value \<Rightarrow> state_error + 'a) \<Rightarrow> state_error + 'a" where
  "field d k read = (case dget d k of None \<Rightarrow> Inl StateInvalid | Some v \<Rightarrow> read v)"

definition optional_field :: "stored_state \<Rightarrow> string \<Rightarrow> (state_value \<Rightarrow> state_error + 'a) \<Rightarrow> state_error + 'a option" where
  "optional_field d k read = (case dget d k of None \<Rightarrow> Inr None | Some v \<Rightarrow> rbind (read v) (\<lambda>x. Inr (Some x)))"

fun read_text :: "state_value \<Rightarrow> state_error + string" where
  "read_text (SvStr (c # cs)) = Inr (c # cs)"
| "read_text _ = Inl StateInvalid"

fun read_opt_text :: "state_value \<Rightarrow> state_error + string option" where
  "read_opt_text SvNone = Inr None"
| "read_opt_text v = rbind (read_text v) (\<lambda>s. Inr (Some s))"

fun read_tuple :: "(state_value \<Rightarrow> state_error + 'a) \<Rightarrow> state_value \<Rightarrow> state_error + 'a list" where
  "read_tuple read (SvTuple vs) = mapM read vs"
| "read_tuple read _ = Inl StateInvalid"

fun read_bool :: "state_value \<Rightarrow> state_error + bool" where
  "read_bool (SvBool b) = Inr b"
| "read_bool _ = Inl StateInvalid"

fun read_int :: "int \<Rightarrow> state_value \<Rightarrow> state_error + int" where
  "read_int lo (SvInt i) = (if i < lo then Inl StateInvalid else Inr i)"
| "read_int lo _ = Inl StateInvalid"

definition read_finite :: "pyfloat \<Rightarrow> state_error + pyfloat" where
  "read_finite x = (if \<not> isfinite x \<or> flt x (Fin 0) then Inl StateInvalid else Inr x)"

fun read_float :: "state_value \<Rightarrow> state_error + pyfloat" where
  "read_float (SvInt i) =
     (if isfinite (fl (of_int i)) then read_finite (fl (of_int i)) else Inl StateOverflow)"
| "read_float (SvFloat x) = read_finite x"
| "read_float _ = Inl StateInvalid"

definition read_sha256 :: "state_value \<Rightarrow> state_error + string" where
  "read_sha256 v =
     (case v of SvStr s \<Rightarrow> (case require_sha256 s of Inl _ \<Rightarrow> Inl StateInvalid | Inr s \<Rightarrow> Inr s) | _ \<Rightarrow> Inl StateInvalid)"

fun revalidate_model :: "(checkpoint_model \<Rightarrow> 'a option) \<Rightarrow> state_value \<Rightarrow> state_error + 'a" where
  "revalidate_model pick (SvModel m) =
     (if pick m = None then Inl StateInvalid
      else case model_validate m of
             Inl _ \<Rightarrow> Inl StateInvalid
           | Inr m' \<Rightarrow> (case pick m' of None \<Rightarrow> Inl StateInvalid | Some x \<Rightarrow> Inr x))"
| "revalidate_model pick _ = Inl StateInvalid"

fun as_request :: "checkpoint_model \<Rightarrow> research_request option" where
  "as_request (CkRequest r) = Some r" | "as_request _ = None"

fun as_entry :: "checkpoint_model \<Rightarrow> coverage_ledger_entry option" where
  "as_entry (CkEntry e) = Some e" | "as_entry _ = None"

fun as_snapshot :: "checkpoint_model \<Rightarrow> budget_snapshot option" where
  "as_snapshot (CkSnapshot s) = Some s" | "as_snapshot _ = None"

definition stop_texts :: "(string \<times> stop_reason) list" where
  "stop_texts = [(''SUFFICIENT'', Sufficient), (''PLATEAU'', Plateau), (''BUDGET_EXHAUSTED'', BudgetExhausted),
     (''BLOCKED'', Blocked)]"

definition decision_texts :: "(string \<times> decision_route) list" where
  "decision_texts = [(''SEARCH'', RouteSearch), (''STOP'', RouteStop), (''PERSIST'', RoutePersist)]"

definition verification_texts :: "(string \<times> verification_route) list" where
  "verification_texts = [(''TARGETED_RESEARCH'', RouteTargeted), (''RESOLVE_UNSUPPORTED'', RouteResolve),
     (''FINALIZE'', RouteFinalize), (''PERSIST'', RoutePersistVerified)]"

fun read_label :: "(string \<times> 'a) list \<Rightarrow> state_value \<Rightarrow> state_error + 'a" where
  "read_label labels (SvStr s) = (case dget labels s of None \<Rightarrow> Inl StateInvalid | Some x \<Rightarrow> Inr x)"
| "read_label labels _ = Inl StateInvalid"

fun read_stop :: "state_value \<Rightarrow> state_error + stop_reason option" where
  "read_stop SvNone = Inr None"
| "read_stop v = rbind (read_label stop_texts v) (\<lambda>s. Inr (Some s))"

section \<open>Validation\<close>

text \<open>The code raises the same error whatever check fails; only the order of the overflow matters.\<close>

definition validate_blocked_need :: "state_value \<Rightarrow> state_error + baseline_blocked_need" where
  "validate_blocked_need v =
     (case v of
        SvMap raw \<Rightarrow>
          if set (dkeys raw) \<noteq> blocked_fields then Inl StateInvalid
          else
            rbind (field raw ''need_id'' read_text) (\<lambda>need_id.
            rbind (field raw ''required_source_unavailable'' read_bool) (\<lambda>unavailable.
            rbind (field raw ''alternative_strategies_exhausted'' read_bool) (\<lambda>exhausted.
            rbind (field raw ''retry_count'' (read_int 0)) (\<lambda>retry_count.
            rbind (field raw ''max_retries'' (read_int 0)) (\<lambda>max_retries.
            Inr \<lparr>bb_need_id = need_id, bb_required_source_unavailable = unavailable,
                 bb_alternative_strategies_exhausted = exhausted, bb_retry_count = retry_count,
                 bb_max_retries = max_retries\<rparr>)))))
      | _ \<Rightarrow> Inl StateInvalid)"

definition validate_baseline_state :: "stored_state \<Rightarrow> state_error + baseline_state" where
  "validate_baseline_state d =
     (if set (dkeys d) \<noteq> baseline_fields then Inl StateInvalid
      else
        rbind (field d ''run_id'' read_text) (\<lambda>run_id.
        rbind (field d ''thread_id'' read_text) (\<lambda>thread_id.
        rbind (field d ''request'' (revalidate_model as_request)) (\<lambda>request.
        rbind (field d ''config_sha256'' read_sha256) (\<lambda>config_sha256.
        rbind (field d ''pending_subquestion_ids'' (read_tuple read_text)) (\<lambda>pending.
        rbind (field d ''query_ids'' (read_tuple read_text)) (\<lambda>queries.
        rbind (field d ''source_ids'' (read_tuple read_text)) (\<lambda>sources.
        rbind (field d ''evidence_ids'' (read_tuple read_text)) (\<lambda>evidence.
        rbind (field d ''selected_evidence_ids'' (read_tuple read_text)) (\<lambda>selected.
        rbind (field d ''high_priority_unresolved_conflict_ids'' (read_tuple read_text)) (\<lambda>conflicts.
        rbind (field d ''baseline_work_artifact_ids'' (read_tuple read_text)) (\<lambda>work.
        rbind (field d ''plan_id'' read_opt_text) (\<lambda>plan_id.
        rbind (field d ''plan_artifact_id'' read_opt_text) (\<lambda>plan_artifact_id.
        rbind (field d ''active_subquestion_id'' read_opt_text) (\<lambda>active.
        rbind (field d ''draft_artifact_id'' read_opt_text) (\<lambda>draft.
        rbind (field d ''report_artifact_id'' read_opt_text) (\<lambda>report.
        rbind (field d ''evidence_graph_artifact_id'' read_opt_text) (\<lambda>evidence_graph.
        rbind (field d ''manifest_artifact_id'' read_opt_text) (\<lambda>manifest.
        rbind (field d ''failed_node'' read_opt_text) (\<lambda>failed_node.
        rbind (field d ''error_code'' read_opt_text) (\<lambda>error_code.
        rbind (field d ''coverage_ledger'' (read_tuple (revalidate_model as_entry))) (\<lambda>ledger.
        rbind (field d ''blocked_needs'' (read_tuple validate_blocked_need)) (\<lambda>blocked.
        rbind (field d ''recent_marginal_gains'' (read_tuple read_float)) (\<lambda>gains.
        rbind (field d ''budget_snapshot'' (revalidate_model as_snapshot)) (\<lambda>snapshot.
        rbind (field d ''stop_reason'' read_stop) (\<lambda>stop_reason.
        rbind (field d ''is_partial'' read_bool) (\<lambda>is_partial.
        rbind (field d ''next_event_seq'' (read_int 1)) (\<lambda>next_event_seq.
        rbind (field d ''elapsed_wall_seconds'' read_float) (\<lambda>elapsed.
        Inr \<lparr>bst_run_id = run_id, bst_thread_id = thread_id, bst_request = request,
             bst_config_sha256 = config_sha256, bst_plan_id = plan_id, bst_plan_artifact_id = plan_artifact_id,
             bst_pending_subquestion_ids = pending, bst_active_subquestion_id = active, bst_query_ids = queries,
             bst_source_ids = sources, bst_evidence_ids = evidence, bst_selected_evidence_ids = selected,
             bst_coverage_ledger = ledger, bst_high_priority_unresolved_conflict_ids = conflicts,
             bst_blocked_needs = blocked, bst_recent_marginal_gains = gains, bst_baseline_work_artifact_ids = work,
             bst_budget_snapshot = snapshot, bst_stop_reason = stop_reason, bst_is_partial = is_partial,
             bst_draft_artifact_id = draft, bst_report_artifact_id = report,
             bst_evidence_graph_artifact_id = evidence_graph, bst_manifest_artifact_id = manifest,
             bst_next_event_seq = next_event_seq, bst_failed_node = failed_node,
             bst_elapsed_wall_seconds = elapsed, bst_error_code = error_code\<rparr>)))))))))))))))))))))))))))))"

definition validate_research_state :: "stored_state \<Rightarrow> state_error + research_state" where
  "validate_research_state d =
     (if \<not> baseline_fields \<subseteq> set (dkeys d) \<or> \<not> set (dkeys d) \<subseteq> baseline_fields \<union> research_fields
      then Inl StateInvalid
      else
        rbind (validate_baseline_state (filter (\<lambda>(k, _). k \<in> baseline_fields) d)) (\<lambda>baseline.
        rbind (optional_field d ''planner_round_index'' (read_int 0)) (\<lambda>round_index.
        rbind (optional_field d ''directional_research_rounds'' (read_int 0)) (\<lambda>rounds.
        rbind (optional_field d ''decision_route'' (read_label decision_texts)) (\<lambda>decision.
        rbind (optional_field d ''verification_route'' (read_label verification_texts)) (\<lambda>verification.
        rbind (optional_field d ''rank_artifact_id'' read_opt_text) (\<lambda>rank.
        rbind (optional_field d ''claim_resolution_artifact_id'' read_opt_text) (\<lambda>resolution.
        rbind (optional_field d ''citation_guard_artifact_id'' read_opt_text) (\<lambda>guard.
        rbind (optional_field d ''claim_ids'' (read_tuple read_text)) (\<lambda>claims.
        rbind (optional_field d ''unsupported_claim_ids'' (read_tuple read_text)) (\<lambda>unsupported.
        Inr (baseline_state.extend baseline
          (research_state.fields round_index decision verification rank claims unsupported resolution guard
             rounds)))))))))))))"

section \<open>Blocked needs\<close>

definition blocked_need_from_checkpoint :: "state_value \<Rightarrow> (state_error + exc) + blocked_need" where
  "blocked_need_from_checkpoint v =
     (case validate_blocked_need v of
        Inl e \<Rightarrow> Inl (Inl e)
      | Inr b \<Rightarrow>
          (case mk_blocked_need
             \<lparr>bn_need_id = bb_need_id b, bn_required_source_unavailable = bb_required_source_unavailable b,
              bn_alternative_strategies_exhausted = bb_alternative_strategies_exhausted b,
              bn_retries_used = bb_retry_count b, bn_max_retries = bb_max_retries b\<rparr> of
             Inl e \<Rightarrow> Inl (Inr e) | Inr n \<Rightarrow> Inr n))"

definition blocked_need_to_checkpoint :: "blocked_need \<Rightarrow> baseline_blocked_need" where
  "blocked_need_to_checkpoint n =
     \<lparr>bb_need_id = bn_need_id n, bb_required_source_unavailable = bn_required_source_unavailable n,
      bb_alternative_strategies_exhausted = bn_alternative_strategies_exhausted n,
      bb_retry_count = bn_retries_used n, bb_max_retries = bn_max_retries n\<rparr>"

section \<open>The dictionary of a typed state\<close>

definition blocked_value :: "baseline_blocked_need \<Rightarrow> state_value" where
  "blocked_value b = SvMap [(''need_id'', SvStr (bb_need_id b)),
     (''required_source_unavailable'', SvBool (bb_required_source_unavailable b)),
     (''alternative_strategies_exhausted'', SvBool (bb_alternative_strategies_exhausted b)),
     (''retry_count'', SvInt (bb_retry_count b)), (''max_retries'', SvInt (bb_max_retries b))]"

fun text_value :: "string option \<Rightarrow> state_value" where
  "text_value None = SvNone" | "text_value (Some s) = SvStr s"

definition texts_value :: "string list \<Rightarrow> state_value" where
  "texts_value ss = SvTuple (map SvStr ss)"

definition label_value :: "(string \<times> 'a) list \<Rightarrow> 'a \<Rightarrow> state_value" where
  "label_value labels x = SvStr (case find (\<lambda>(_, y). y = x) labels of None \<Rightarrow> [] | Some (s, _) \<Rightarrow> s)"

fun stop_value :: "stop_reason option \<Rightarrow> state_value" where
  "stop_value None = SvNone" | "stop_value (Some r) = label_value stop_texts r"

definition baseline_dict :: "'a baseline_state_scheme \<Rightarrow> stored_state" where
  "baseline_dict s =
     [(''run_id'', SvStr (bst_run_id s)), (''thread_id'', SvStr (bst_thread_id s)),
      (''request'', SvModel (CkRequest (bst_request s))), (''config_sha256'', SvStr (bst_config_sha256 s)),
      (''plan_id'', text_value (bst_plan_id s)), (''plan_artifact_id'', text_value (bst_plan_artifact_id s)),
      (''pending_subquestion_ids'', texts_value (bst_pending_subquestion_ids s)),
      (''active_subquestion_id'', text_value (bst_active_subquestion_id s)),
      (''query_ids'', texts_value (bst_query_ids s)), (''source_ids'', texts_value (bst_source_ids s)),
      (''evidence_ids'', texts_value (bst_evidence_ids s)),
      (''selected_evidence_ids'', texts_value (bst_selected_evidence_ids s)),
      (''coverage_ledger'', SvTuple (map (\<lambda>e. SvModel (CkEntry e)) (bst_coverage_ledger s))),
      (''high_priority_unresolved_conflict_ids'', texts_value (bst_high_priority_unresolved_conflict_ids s)),
      (''blocked_needs'', SvTuple (map blocked_value (bst_blocked_needs s))),
      (''recent_marginal_gains'', SvTuple (map SvFloat (bst_recent_marginal_gains s))),
      (''baseline_work_artifact_ids'', texts_value (bst_baseline_work_artifact_ids s)),
      (''budget_snapshot'', SvModel (CkSnapshot (bst_budget_snapshot s))),
      (''stop_reason'', stop_value (bst_stop_reason s)), (''is_partial'', SvBool (bst_is_partial s)),
      (''draft_artifact_id'', text_value (bst_draft_artifact_id s)),
      (''report_artifact_id'', text_value (bst_report_artifact_id s)),
      (''evidence_graph_artifact_id'', text_value (bst_evidence_graph_artifact_id s)),
      (''manifest_artifact_id'', text_value (bst_manifest_artifact_id s)),
      (''next_event_seq'', SvInt (bst_next_event_seq s)), (''failed_node'', text_value (bst_failed_node s)),
      (''elapsed_wall_seconds'', SvFloat (bst_elapsed_wall_seconds s)),
      (''error_code'', text_value (bst_error_code s))]"

definition present :: "string \<Rightarrow> ('a \<Rightarrow> state_value) \<Rightarrow> 'a option \<Rightarrow> stored_state" where
  "present k f x = (case x of None \<Rightarrow> [] | Some y \<Rightarrow> [(k, f y)])"

definition research_extension :: "research_state \<Rightarrow> stored_state" where
  "research_extension s =
     present ''planner_round_index'' SvInt (rst_planner_round_index s) @
     present ''decision_route'' (label_value decision_texts) (rst_decision_route s) @
     present ''verification_route'' (label_value verification_texts) (rst_verification_route s) @
     present ''rank_artifact_id'' text_value (rst_rank_artifact_id s) @
     present ''claim_ids'' texts_value (rst_claim_ids s) @
     present ''unsupported_claim_ids'' texts_value (rst_unsupported_claim_ids s) @
     present ''claim_resolution_artifact_id'' text_value (rst_claim_resolution_artifact_id s) @
     present ''citation_guard_artifact_id'' text_value (rst_citation_guard_artifact_id s) @
     present ''directional_research_rounds'' SvInt (rst_directional_research_rounds s)"

definition research_dict :: "research_state \<Rightarrow> stored_state" where
  "research_dict s = baseline_dict s @ research_extension s"

section \<open>Valid states\<close>

definition some_text :: "string option \<Rightarrow> bool" where
  "some_text x \<longleftrightarrow> x \<noteq> Some []"

definition some_texts :: "string list \<Rightarrow> bool" where
  "some_texts xs \<longleftrightarrow> [] \<notin> set xs"

definition nonneg_finite :: "pyfloat \<Rightarrow> bool" where
  "nonneg_finite x \<longleftrightarrow> isfinite x \<and> \<not> flt x (Fin 0)"

definition valid_blocked :: "baseline_blocked_need \<Rightarrow> bool" where
  "valid_blocked b \<longleftrightarrow> bb_need_id b \<noteq> [] \<and> 0 \<le> bb_retry_count b \<and> 0 \<le> bb_max_retries b"

definition valid_baseline :: "'a baseline_state_scheme \<Rightarrow> bool" where
  "valid_baseline s \<longleftrightarrow>
     bst_run_id s \<noteq> [] \<and> bst_thread_id s \<noteq> [] \<and> mk_request (bst_request s) = Inr (bst_request s) \<and>
     require_sha256 (bst_config_sha256 s) = Inr (bst_config_sha256 s) \<and>
     some_texts (bst_pending_subquestion_ids s) \<and> some_texts (bst_query_ids s) \<and> some_texts (bst_source_ids s) \<and>
     some_texts (bst_evidence_ids s) \<and> some_texts (bst_selected_evidence_ids s) \<and>
     some_texts (bst_high_priority_unresolved_conflict_ids s) \<and> some_texts (bst_baseline_work_artifact_ids s) \<and>
     some_text (bst_plan_id s) \<and> some_text (bst_plan_artifact_id s) \<and> some_text (bst_active_subquestion_id s) \<and>
     some_text (bst_draft_artifact_id s) \<and> some_text (bst_report_artifact_id s) \<and>
     some_text (bst_evidence_graph_artifact_id s) \<and> some_text (bst_manifest_artifact_id s) \<and>
     some_text (bst_failed_node s) \<and> some_text (bst_error_code s) \<and>
     list_all valid_entry (bst_coverage_ledger s) \<and>
     list_all valid_blocked (bst_blocked_needs s) \<and>
     list_all nonneg_finite (bst_recent_marginal_gains s) \<and> valid_snapshot (bst_budget_snapshot s) \<and>
     1 \<le> bst_next_event_seq s \<and> nonneg_finite (bst_elapsed_wall_seconds s)"

definition valid_research :: "research_state \<Rightarrow> bool" where
  "valid_research s \<longleftrightarrow>
     valid_baseline s \<and> pred_option (\<lambda>i. 0 \<le> i) (rst_planner_round_index s) \<and>
     pred_option (\<lambda>i. 0 \<le> i) (rst_directional_research_rounds s) \<and> pred_option some_text (rst_rank_artifact_id s) \<and>
     pred_option some_text (rst_claim_resolution_artifact_id s) \<and>
     pred_option some_text (rst_citation_guard_artifact_id s) \<and> pred_option some_texts (rst_claim_ids s) \<and>
     pred_option some_texts (rst_unsupported_claim_ids s)"

subsection \<open>Readers\<close>

lemma mapM_over_map: "mapM f (map g xs) = mapM (f \<circ> g) xs"
  by (induction xs) simp_all

lemma mapM_same: "list_all (\<lambda>x. f x = Inr x) xs \<Longrightarrow> mapM f xs = Inr xs"
  by (induction xs) simp_all

lemma mapM_sound: "mapM f xs = Inr ys \<Longrightarrow> (\<And>x y. f x = Inr y \<Longrightarrow> P y) \<Longrightarrow> list_all P ys"
  by (induction xs arbitrary: ys) (auto simp: rbind_eq_Inr)

text \<open>A stored request whose output requirements are JSON.\<close>

definition json_request :: "stored_state \<Rightarrow> bool" where
  "json_request d \<longleftrightarrow>
     (case dget d ''request'' of
        Some (SvModel (CkRequest r)) \<Rightarrow> plain_json (JDict (thaw_mapping (rq_output_requirements r)))
      | _ \<Rightarrow> True)"

lemma mk_request_stable:
  assumes "mk_request r = Inr r'" "plain_json (JDict (thaw_mapping (rq_output_requirements r)))"
  shows "mk_request r' = Inr r'"
  using assms freeze_thaw_freeze by (auto simp: mk_request_def split: if_splits)

lemma field_Inr: "field d k read = Inr x \<longleftrightarrow> (\<exists>v. dget d k = Some v \<and> read v = Inr x)"
  by (simp add: field_def split: option.splits)

lemma optional_sound:
  "optional_field d k read = Inr x \<Longrightarrow> (\<And>v y. read v = Inr y \<Longrightarrow> P y) \<Longrightarrow> pred_option P x"
  by (auto simp: optional_field_def rbind_eq_Inr split: option.splits)

lemma read_text_Inr: "read_text v = Inr s \<longleftrightarrow> v = SvStr s \<and> s \<noteq> []"
  by (cases v rule: read_text.cases) auto

lemma read_opt_text_Inr: "read_opt_text v = Inr x \<longleftrightarrow> v = text_value x \<and> some_text x"
  by (cases x; cases v) (auto simp: rbind_eq_Inr read_text_Inr some_text_def)

lemma read_texts_Inr: "read_tuple read_text v = Inr xs \<longleftrightarrow> v = texts_value xs \<and> some_texts xs"
proof (cases v)
  case (SvTuple vs)
  have "mapM read_text vs = Inr xs \<longleftrightarrow> vs = map SvStr xs \<and> [] \<notin> set xs"
  proof (induction vs arbitrary: xs)
    case (Cons v vs)
    then show ?case by (cases xs) (auto simp: rbind_eq_Inr read_text_Inr)
  qed auto
  with SvTuple show ?thesis by (simp add: texts_value_def some_texts_def)
qed (auto simp: texts_value_def)

lemma read_bool_Inr: "read_bool v = Inr b \<longleftrightarrow> v = SvBool b"
  by (cases v) auto

lemma read_int_Inr: "read_int lo v = Inr i \<longleftrightarrow> v = SvInt i \<and> lo \<le> i"
  by (cases v) auto

lemma read_finite_Inr: "read_finite x = Inr y \<longleftrightarrow> y = x \<and> nonneg_finite x"
  by (auto simp: read_finite_def nonneg_finite_def)

lemma read_float_sound: "read_float v = Inr x \<Longrightarrow> nonneg_finite x"
  by (cases v) (auto simp: read_finite_Inr split: if_splits)

lemma read_float_value: "read_float (SvFloat x) = Inr y \<longleftrightarrow> y = x \<and> nonneg_finite x"
  by (simp add: read_finite_Inr)

lemma read_sha256_Inr: "read_sha256 v = Inr s \<longleftrightarrow> v = SvStr s \<and> require_sha256 s = Inr s"
  by (cases v) (auto simp: read_sha256_def require_sha256_def)

lemma read_label_sound: "read_label labels v = Inr x \<Longrightarrow> x \<in> snd ` set labels"
  by (cases v) (auto split: option.splits dest!: map_of_SomeD intro: rev_image_eqI)

lemma read_stop_value: "read_stop (stop_value r) = Inr r"
  by (cases r rule: option.exhaust; simp; cases "the r") (auto simp: label_value_def stop_texts_def)

lemma read_decision_value: "read_label decision_texts (label_value decision_texts r) = Inr r"
  by (cases r) (simp_all add: label_value_def decision_texts_def)

lemma read_verification_value: "read_label verification_texts (label_value verification_texts r) = Inr r"
  by (cases r) (simp_all add: label_value_def verification_texts_def)

lemma revalidate_request: "revalidate_model as_request v = Inr r' \<longleftrightarrow> (\<exists>r. v = SvModel (CkRequest r) \<and> mk_request r = Inr r')"
proof (cases v)
  case (SvModel m)
  then show ?thesis by (cases m) (auto simp: rbind_def split: sum.splits)
qed auto

lemma revalidate_entry: "revalidate_model as_entry v = Inr e \<longleftrightarrow> v = SvModel (CkEntry e) \<and> valid_entry e"
proof (cases v)
  case (SvModel m)
  then show ?thesis by (cases m) (auto simp: mk_entry_def)
qed auto

lemma revalidate_snapshot: "revalidate_model as_snapshot v = Inr s \<longleftrightarrow> v = SvModel (CkSnapshot s) \<and> valid_snapshot s"
proof (cases v)
  case (SvModel m)
  then show ?thesis by (cases m) (auto simp: mk_snapshot_def)
qed auto

lemma validate_blocked_sound: "validate_blocked_need v = Inr b \<Longrightarrow> valid_blocked b"
  by (cases v) (auto simp: validate_blocked_need_def rbind_eq_Inr field_Inr read_text_Inr read_int_Inr valid_blocked_def
      split: if_splits)

lemma validate_blocked_value: "validate_blocked_need (blocked_value b) = Inr b \<longleftrightarrow> valid_blocked b"
  by (cases b) (auto simp: validate_blocked_need_def blocked_value_def blocked_fields_def rbind_eq_Inr field_Inr read_text_Inr
      read_int_Inr read_bool_Inr valid_blocked_def)

lemmas reader_simps = field_Inr read_text_Inr read_opt_text_Inr read_texts_Inr read_bool_Inr read_int_Inr
  read_sha256_Inr revalidate_request revalidate_entry revalidate_snapshot read_float_value

subsection \<open>A valid state reads back\<close>

lemma baseline_keys: "set (dkeys (baseline_dict s)) = baseline_fields"
  by (simp add: baseline_dict_def baseline_fields_def)

lemma field_baseline:
  "field (baseline_dict s) ''run_id'' f1 = f1 (SvStr (bst_run_id s))"
  "field (baseline_dict s) ''thread_id'' f1 = f1 (SvStr (bst_thread_id s))"
  "field (baseline_dict s) ''request'' f2 = f2 (SvModel (CkRequest (bst_request s)))"
  "field (baseline_dict s) ''config_sha256'' f1 = f1 (SvStr (bst_config_sha256 s))"
  "field (baseline_dict s) ''plan_id'' f3 = f3 (text_value (bst_plan_id s))"
  "field (baseline_dict s) ''plan_artifact_id'' f3 = f3 (text_value (bst_plan_artifact_id s))"
  "field (baseline_dict s) ''pending_subquestion_ids'' f4 = f4 (texts_value (bst_pending_subquestion_ids s))"
  "field (baseline_dict s) ''active_subquestion_id'' f3 = f3 (text_value (bst_active_subquestion_id s))"
  "field (baseline_dict s) ''query_ids'' f4 = f4 (texts_value (bst_query_ids s))"
  "field (baseline_dict s) ''source_ids'' f4 = f4 (texts_value (bst_source_ids s))"
  "field (baseline_dict s) ''evidence_ids'' f4 = f4 (texts_value (bst_evidence_ids s))"
  "field (baseline_dict s) ''selected_evidence_ids'' f4 = f4 (texts_value (bst_selected_evidence_ids s))"
  "field (baseline_dict s) ''coverage_ledger'' f5 = f5 (SvTuple (map (\<lambda>e. SvModel (CkEntry e)) (bst_coverage_ledger s)))"
  "field (baseline_dict s) ''high_priority_unresolved_conflict_ids'' f4 =
     f4 (texts_value (bst_high_priority_unresolved_conflict_ids s))"
  "field (baseline_dict s) ''blocked_needs'' f6 = f6 (SvTuple (map blocked_value (bst_blocked_needs s)))"
  "field (baseline_dict s) ''recent_marginal_gains'' f7 = f7 (SvTuple (map SvFloat (bst_recent_marginal_gains s)))"
  "field (baseline_dict s) ''baseline_work_artifact_ids'' f4 = f4 (texts_value (bst_baseline_work_artifact_ids s))"
  "field (baseline_dict s) ''budget_snapshot'' f8 = f8 (SvModel (CkSnapshot (bst_budget_snapshot s)))"
  "field (baseline_dict s) ''stop_reason'' f9 = f9 (stop_value (bst_stop_reason s))"
  "field (baseline_dict s) ''is_partial'' f10 = f10 (SvBool (bst_is_partial s))"
  "field (baseline_dict s) ''draft_artifact_id'' f3 = f3 (text_value (bst_draft_artifact_id s))"
  "field (baseline_dict s) ''report_artifact_id'' f3 = f3 (text_value (bst_report_artifact_id s))"
  "field (baseline_dict s) ''evidence_graph_artifact_id'' f3 = f3 (text_value (bst_evidence_graph_artifact_id s))"
  "field (baseline_dict s) ''manifest_artifact_id'' f3 = f3 (text_value (bst_manifest_artifact_id s))"
  "field (baseline_dict s) ''next_event_seq'' f11 = f11 (SvInt (bst_next_event_seq s))"
  "field (baseline_dict s) ''failed_node'' f3 = f3 (text_value (bst_failed_node s))"
  "field (baseline_dict s) ''elapsed_wall_seconds'' f12 = f12 (SvFloat (bst_elapsed_wall_seconds s))"
  "field (baseline_dict s) ''error_code'' f3 = f3 (text_value (bst_error_code s))"
  by (simp_all add: field_def baseline_dict_def)

text \<open>The readers on the values of a valid state.\<close>

lemma read_texts_value: "some_texts xs \<Longrightarrow> read_tuple read_text (texts_value xs) = Inr xs"
  by (simp add: read_texts_Inr)

lemma read_text_value: "some_text x \<Longrightarrow> read_opt_text (text_value x) = Inr x"
  by (simp add: read_opt_text_Inr)

lemma read_tuple_value: "list_all (\<lambda>x. read (f x) = Inr x) xs \<Longrightarrow> read_tuple read (SvTuple (map f xs)) = Inr xs"
  by (simp add: mapM_over_map mapM_same comp_def)

lemma validate_baseline_dict:
  assumes "valid_baseline s"
  shows "validate_baseline_state (baseline_dict s) = Inr (baseline_state.truncate s)"
proof -
  have t: "read_text (SvStr (bst_run_id s)) = Inr (bst_run_id s)" "read_text (SvStr (bst_thread_id s)) = Inr (bst_thread_id s)"
    using assms by (simp_all add: valid_baseline_def read_text_Inr)
  have r: "revalidate_model as_request (SvModel (CkRequest (bst_request s))) = Inr (bst_request s)"
    "revalidate_model as_snapshot (SvModel (CkSnapshot (bst_budget_snapshot s))) = Inr (bst_budget_snapshot s)"
    using assms by (simp_all add: valid_baseline_def mk_snapshot_def)
  have l: "read_tuple (revalidate_model as_entry) (SvTuple (map (\<lambda>e. SvModel (CkEntry e)) (bst_coverage_ledger s))) =
      Inr (bst_coverage_ledger s)"
    "read_tuple validate_blocked_need (SvTuple (map blocked_value (bst_blocked_needs s))) = Inr (bst_blocked_needs s)"
    "read_tuple read_float (SvTuple (map SvFloat (bst_recent_marginal_gains s))) = Inr (bst_recent_marginal_gains s)"
    using assms
    by (intro read_tuple_value; simp add: valid_baseline_def list_all_iff mk_entry_def validate_blocked_value read_finite_Inr)+
  have h: "read_sha256 (SvStr (bst_config_sha256 s)) = Inr (bst_config_sha256 s)"
    "read_int 1 (SvInt (bst_next_event_seq s)) = Inr (bst_next_event_seq s)"
    "read_float (SvFloat (bst_elapsed_wall_seconds s)) = Inr (bst_elapsed_wall_seconds s)"
    using assms by (simp_all add: valid_baseline_def read_sha256_def read_finite_Inr)
  from assms show ?thesis
    unfolding validate_baseline_state_def baseline_keys
    by (simp only: field_baseline t r l h read_texts_value read_text_value read_stop_value read_bool.simps valid_baseline_def
        rbind_Inr simp_thms if_False baseline_state.truncate_def)
qed

lemma validate_baseline_sound:
  assumes "validate_baseline_state d = Inr s" "json_request d"
  shows "valid_baseline s"
proof -
  have req: "mk_request r' = Inr r'" if "dget d ''request'' = Some (SvModel (CkRequest r))" "mk_request r = Inr r'" for r r'
    using mk_request_stable [OF that(2)] assms(2) that(1) by (simp add: json_request_def)
  have seqs: "read_tuple (revalidate_model as_entry) v = Inr es \<Longrightarrow> list_all valid_entry es"
    "read_tuple validate_blocked_need v = Inr bs \<Longrightarrow> list_all valid_blocked bs"
    "read_tuple read_float v = Inr gs \<Longrightarrow> list_all nonneg_finite gs" for v es bs gs
    by (cases v; auto elim!: mapM_sound simp: revalidate_entry validate_blocked_sound read_float_sound)+
  from assms(1) show ?thesis
    unfolding validate_baseline_state_def valid_baseline_def
    by (clarsimp simp: rbind_eq_Inr reader_simps simp del: read_tuple.simps split: if_split_asm)
      (blast intro: seqs read_float_sound req)
qed

lemma dget_present: "(m ++ dget (present k f x)) k' = (if k' = k \<and> x \<noteq> None then map_option f x else m k')"
  by (simp add: present_def map_add_def split: option.split)

lemma dget_present_last: "dget (present k f x) k' = (if k' = k then map_option f x else None)"
  by (simp add: present_def split: option.split)

lemma present_keys: "set (dkeys (present k f x)) \<subseteq> {k}"
  by (cases x) (simp_all add: present_def)

lemma extension_keys: "set (dkeys (research_extension s)) \<subseteq> research_fields"
  unfolding research_extension_def research_fields_def map_append set_append
  by (intro Un_least) (rule order.trans [OF present_keys], simp)+

lemma fields_apart: "baseline_fields \<inter> research_fields = {}"
  by (simp add: baseline_fields_def research_fields_def)

lemma research_dict_baseline: "filter (\<lambda>(k, _). k \<in> baseline_fields) (research_dict s) = baseline_dict s"
proof -
  have "\<forall>p\<in>set (baseline_dict s). fst p \<in> baseline_fields" using baseline_keys [of s] by force
  then have "filter (\<lambda>(k, _). k \<in> baseline_fields) (baseline_dict s) = baseline_dict s"
    by (intro filter_True) (auto simp: case_prod_unfold)
  moreover have "\<forall>p\<in>set (research_extension s). fst p \<notin> baseline_fields"
    using extension_keys [of s] fields_apart by force
  then have "filter (\<lambda>(k, _). k \<in> baseline_fields) (research_extension s) = []"
    by (auto simp: filter_empty_conv case_prod_unfold)
  ultimately show ?thesis by (simp add: research_dict_def)
qed

lemma research_keys:
  "baseline_fields \<subseteq> set (dkeys (research_dict s))" "set (dkeys (research_dict s)) \<subseteq> baseline_fields \<union> research_fields"
  using baseline_keys [of s] extension_keys [of s] by (auto simp: research_dict_def)

lemma extension_get:
  "dget (research_extension s) ''planner_round_index'' = map_option SvInt (rst_planner_round_index s)"
  "dget (research_extension s) ''decision_route'' = map_option (label_value decision_texts) (rst_decision_route s)"
  "dget (research_extension s) ''verification_route'' = map_option (label_value verification_texts) (rst_verification_route s)"
  "dget (research_extension s) ''rank_artifact_id'' = map_option text_value (rst_rank_artifact_id s)"
  "dget (research_extension s) ''claim_ids'' = map_option texts_value (rst_claim_ids s)"
  "dget (research_extension s) ''unsupported_claim_ids'' = map_option texts_value (rst_unsupported_claim_ids s)"
  "dget (research_extension s) ''claim_resolution_artifact_id'' = map_option text_value (rst_claim_resolution_artifact_id s)"
  "dget (research_extension s) ''citation_guard_artifact_id'' = map_option text_value (rst_citation_guard_artifact_id s)"
  "dget (research_extension s) ''directional_research_rounds'' = map_option SvInt (rst_directional_research_rounds s)"
  by (simp_all add: research_extension_def dget_present dget_present_last)

lemma optional_reads:
  assumes "dget (research_extension s) k = map_option f x" "k \<in> research_fields" "pred_option (\<lambda>y. read (f y) = Inr y) x"
  shows "optional_field (research_dict s) k read = Inr x"
proof -
  have "k \<notin> set (dkeys (baseline_dict s))" using assms(2) fields_apart baseline_keys [of s] by auto
  then have "dget (baseline_dict s) k = None" by (simp add: map_of_eq_None_iff)
  then have "dget (research_dict s) k = map_option f x"
    by (cases x) (simp_all add: research_dict_def map_add_def assms(1))
  with assms(3) show ?thesis by (cases x) (simp_all add: optional_field_def)
qed

lemma validate_research_dict:
  assumes "valid_research s"
  shows "validate_research_state (research_dict s) = Inr s"
proof -
  note v = assms [unfolded valid_research_def]
  have b: "validate_baseline_state (baseline_dict s) = Inr (baseline_state.truncate s)"
    using v validate_baseline_dict by blast
  have p: "pred_option (\<lambda>y. read_int 0 (SvInt y) = Inr y) (rst_planner_round_index s)"
    "pred_option (\<lambda>y. read_int 0 (SvInt y) = Inr y) (rst_directional_research_rounds s)"
    "pred_option (\<lambda>y. read_label decision_texts (label_value decision_texts y) = Inr y) (rst_decision_route s)"
    "pred_option (\<lambda>y. read_label verification_texts (label_value verification_texts y) = Inr y) (rst_verification_route s)"
    "pred_option (\<lambda>y. read_opt_text (text_value y) = Inr y) (rst_rank_artifact_id s)"
    "pred_option (\<lambda>y. read_opt_text (text_value y) = Inr y) (rst_claim_resolution_artifact_id s)"
    "pred_option (\<lambda>y. read_opt_text (text_value y) = Inr y) (rst_citation_guard_artifact_id s)"
    "pred_option (\<lambda>y. read_tuple read_text (texts_value y) = Inr y) (rst_claim_ids s)"
    "pred_option (\<lambda>y. read_tuple read_text (texts_value y) = Inr y) (rst_unsupported_claim_ids s)"
    using v by (simp_all add: option.pred_set read_int_Inr read_text_value read_texts_value read_decision_value
        read_verification_value not_less
        del: read_tuple.simps)
  have o: "optional_field (research_dict s) ''planner_round_index'' (read_int 0) = Inr (rst_planner_round_index s)"
    "optional_field (research_dict s) ''directional_research_rounds'' (read_int 0) = Inr (rst_directional_research_rounds s)"
    "optional_field (research_dict s) ''decision_route'' (read_label decision_texts) = Inr (rst_decision_route s)"
    "optional_field (research_dict s) ''verification_route'' (read_label verification_texts) = Inr (rst_verification_route s)"
    "optional_field (research_dict s) ''rank_artifact_id'' read_opt_text = Inr (rst_rank_artifact_id s)"
    "optional_field (research_dict s) ''claim_resolution_artifact_id'' read_opt_text = Inr (rst_claim_resolution_artifact_id s)"
    "optional_field (research_dict s) ''citation_guard_artifact_id'' read_opt_text = Inr (rst_citation_guard_artifact_id s)"
    "optional_field (research_dict s) ''claim_ids'' (read_tuple read_text) = Inr (rst_claim_ids s)"
    "optional_field (research_dict s) ''unsupported_claim_ids'' (read_tuple read_text) = Inr (rst_unsupported_claim_ids s)"
    by (rule optional_reads, rule extension_get, simp add: research_fields_def, simp only: p)+
  show ?thesis
    unfolding validate_research_state_def research_dict_baseline
    using research_keys [of s] by (simp add: b o baseline_state.defs research_state.defs)
qed

lemma validate_research_sound:
  assumes "validate_research_state d = Inr s" "json_request d"
  shows "valid_research s"
proof -
  from assms(1) obtain b where b: "validate_baseline_state (filter (\<lambda>(k, _). k \<in> baseline_fields) d) = Inr b"
    and s: "baseline_state.truncate s = b"
    by (auto simp: validate_research_state_def rbind_eq_Inr baseline_state.defs split: if_split_asm)
  have "dget (filter (\<lambda>(k, _). k \<in> baseline_fields) d) ''request'' = dget d ''request''"
    by (induction d) (auto simp: baseline_fields_def)
  with assms(2) have "json_request (filter (\<lambda>(k, _). k \<in> baseline_fields) d)" by (simp add: json_request_def)
  with b have "valid_baseline b" by (rule validate_baseline_sound)
  with s have "valid_baseline s" by (auto simp: valid_baseline_def baseline_state.defs)
  moreover have "pred_option (\<lambda>i. 0 \<le> i) x" if "optional_field d k (read_int 0) = Inr x" for k x
    using that by (rule optional_sound) (simp add: read_int_Inr)
  moreover have "pred_option some_text x" if "optional_field d k read_opt_text = Inr x" for k x
    using that by (rule optional_sound) (simp add: read_opt_text_Inr)
  moreover have "pred_option some_texts x" if "optional_field d k (read_tuple read_text) = Inr x" for k x
    using that by (rule optional_sound) (simp add: read_texts_Inr)
  ultimately show ?thesis using assms(1)
    unfolding validate_research_state_def valid_research_def
    by (clarsimp simp: rbind_eq_Inr baseline_state.defs research_state.defs split: if_split_asm)
qed

section \<open>Properties\<close>

definition demo_state :: research_state where
  "demo_state =
     \<lparr>bst_run_id = ''r'', bst_thread_id = ''t'',
      bst_request = \<lparr>rq_question = ''q'', rq_output_requirements = [], rq_report_language = ''en'',
        rq_source_languages = [''en''],
        rq_freshness_requirement = \<lparr>fr_kind = FreshNone, fr_published_after = None, fr_retrieved_within_days = None\<rparr>,
        rq_execution_mode = Live, rq_access_profile = LocalProfile, rq_provider_profile_id = ''p'',
        rq_run_purpose = Demo, rq_budget_preset = Low\<rparr>,
      bst_config_sha256 = replicate 64 CHR ''a'', bst_plan_id = Some ''p'', bst_plan_artifact_id = Some ''a'',
      bst_pending_subquestion_ids = [''s''], bst_active_subquestion_id = None, bst_query_ids = [], bst_source_ids = [],
      bst_evidence_ids = [], bst_selected_evidence_ids = [], bst_coverage_ledger = [],
      bst_high_priority_unresolved_conflict_ids = [],
      bst_blocked_needs = [\<lparr>bb_need_id = ''n'', bb_required_source_unavailable = True,
        bb_alternative_strategies_exhausted = False, bb_retry_count = 1, bb_max_retries = 2\<rparr>],
      bst_recent_marginal_gains = [Fin 0], bst_baseline_work_artifact_ids = [],
      bst_budget_snapshot = \<lparr>bs_used_search_calls = 1, bs_used_pages = 0, bs_used_tokens = 0,
        bs_used_wall_seconds = Fin 0, bs_used_cost_usd = None, bs_used_retries = 0, bs_reserved_search_calls = 0,
        bs_reserved_pages = 0, bs_reserved_tokens = 0, bs_reserved_wall_seconds = Fin 0, bs_reserved_cost_usd = None,
        bs_reserved_retries = 0, bs_exhausted = {}, bs_last_observed_usage = usage_zero False,
        bs_used_by_node = (\<lambda>_. usage_zero False)\<rparr>,
      bst_stop_reason = None, bst_is_partial = False, bst_draft_artifact_id = None, bst_report_artifact_id = None,
      bst_evidence_graph_artifact_id = None, bst_manifest_artifact_id = None, bst_next_event_seq = 1,
      bst_failed_node = None, bst_elapsed_wall_seconds = Fin 0, bst_error_code = None,
      rst_planner_round_index = None, rst_decision_route = Some RouteSearch, rst_verification_route = None,
      rst_rank_artifact_id = Some None, rst_claim_ids = Some [''c''], rst_unsupported_claim_ids = Some [],
      rst_claim_resolution_artifact_id = None, rst_citation_guard_artifact_id = None,
      rst_directional_research_rounds = Some 0\<rparr>"

lemma demo_state_valid: "valid_research demo_state"
  by (simp add: valid_research_def valid_baseline_def demo_state_def some_text_def some_texts_def valid_blocked_def
      nonneg_finite_def valid_snapshot_def nonneg_opt_def mk_request_def valid_freshness_def freeze_mapping_def
      thaw_mapping_def require_sha256_def lower_hex_def list_all_iff)

text \<open>C32. A stored workflow state that validation accepts is valid and reads back as itself.  For every
dictionary, whatever it holds, that validates to a state (its request holding JSON), the state
meets every constraint, its own dictionary validates to the same state again, and the projection
handed to the nodes of the baseline graph validates as well; and every valid state is accepted.\<close>

theorem workflow_state_stable:
  assumes "validate_research_state d = Inr s" "json_request d"
  shows "valid_research s \<and> validate_research_state (research_dict s) = Inr s \<and>
    validate_baseline_state (baseline_dict s) = Inr (baseline_state.truncate s)"
proof -
  have v: "valid_research s" using assms by (rule validate_research_sound)
  then show ?thesis
    using validate_research_dict [OF v] validate_baseline_dict [of s] by (simp add: valid_research_def)
qed

theorem workflow_state_stable_witness:
  "validate_research_state (research_dict demo_state) = Inr demo_state"
proof -
  have "json_request (research_dict demo_state)"
    by (simp add: json_request_def research_dict_def baseline_dict_def demo_state_def research_extension_def present_def
        thaw_mapping_def)
  from workflow_state_stable [OF validate_research_dict [OF demo_state_valid] this] show ?thesis by blast
qed

text \<open>A need that could be built survives the checkpoint.\<close>

lemma blocked_need_roundtrip:
  assumes "mk_blocked_need n = Inr n"
  shows "blocked_need_from_checkpoint (blocked_value (blocked_need_to_checkpoint n)) = Inr n"
proof -
  have "validate_blocked_need (blocked_value (blocked_need_to_checkpoint n)) = Inr (blocked_need_to_checkpoint n)"
    using assms by (auto simp: validate_blocked_value valid_blocked_def blocked_need_to_checkpoint_def mk_blocked_need_def
        require_def blank_def strip_ws_def res_simps split: if_splits)
  then show ?thesis using assms by (cases n) (simp add: blocked_need_from_checkpoint_def blocked_need_to_checkpoint_def)
qed

text \<open>The state accepts more retries than the need allows; such a record cannot be converted.\<close>

lemma too_many_retries:
  assumes "valid_blocked b" "bb_max_retries b < bb_retry_count b"
  shows "validate_blocked_need (blocked_value b) = Inr b \<and>
    (\<exists>e. blocked_need_from_checkpoint (blocked_value b) = Inl (Inr e))"
proof -
  have v: "validate_blocked_need (blocked_value b) = Inr b" using assms(1) by (simp add: validate_blocked_value)
  with assms(2) show ?thesis
    by (auto simp: blocked_need_from_checkpoint_def mk_blocked_need_def require_def)
qed

end
