(* ===== verification/Workflow_Graph.thy ===== *)
theory Workflow_Graph
  imports Workflow_State Evidence_Ranking
begin

text \<open>
  The two workflow graphs (\<^verbatim>\<open>src/src/deepresearch/workflow/research_graph.py\<close> and the decisions, the
  coverage ranking and the graph of \<^verbatim>\<open>baseline_graph.py\<close>).  A node turns a state into a state; its edge
  then names the next node.  The graph library runs the named node, and ends with an error when an
  edge names a node that it was not built with.
\<close>

section \<open>Stop decision and coverage of the baseline\<close>

datatype workflow_error = WfState state_error | WfRaised exc | NoLegalContinuation | MissingEdge

definition index_by :: "('a \<Rightarrow> string) \<Rightarrow> 'a list \<Rightarrow> (string, 'a) dict" where
  "index_by key xs = foldl (\<lambda>d x. dput (key x) x d) [] xs"

text \<open>The loop over the questions, with the weighted sum so far.\<close>

fun covered_weight :: "(string, coverage_ledger_entry) dict \<Rightarrow> pyfloat \<Rightarrow> sub_question list \<Rightarrow> pyfloat option" where
  "covered_weight by_id acc [] = Some acc"
| "covered_weight by_id acc (q # qs) =
     (case dget by_id (sq_id q) of
        None \<Rightarrow> None
      | Some e \<Rightarrow>
          if flt (cl_coverage_score e) (fl (85 / 100)) then None
          else if cl_independent_source_count e < er_min_independent_sources (sq_evidence_requirements q) then None
          else covered_weight by_id (fadd acc (fmul (sq_importance q) (cl_coverage_score e))) qs)"

definition baseline_is_sufficient :: "research_plan \<Rightarrow> coverage_ledger_entry list \<Rightarrow> string list \<Rightarrow> bool" where
  "baseline_is_sufficient plan ledger conflicts =
     (if conflicts \<noteq> [] then False
      else if \<not> distinct (map cl_subquestion_id ledger) then False
      else
        let by_id = index_by cl_subquestion_id ledger in
        if set (dkeys by_id) \<noteq> set (map sq_id (rp_subquestions plan)) then False
        else
          let total_importance = py_fsum (map sq_importance (rp_subquestions plan)) in
          if fle total_importance (Fin 0) then False
          else (case covered_weight by_id (Fin 0) (rp_subquestions plan) of
                  None \<Rightarrow> False
                | Some weighted_sum \<Rightarrow> fle (fl (80 / 100)) (fdiv weighted_sum total_importance)))"

definition exhausted_need :: "baseline_blocked_need \<Rightarrow> bool" where
  "exhausted_need b \<longleftrightarrow>
     bb_required_source_unavailable b \<and> bb_alternative_strategies_exhausted b \<and> bb_max_retries b \<le> bb_retry_count b"

definition low_gains :: "pyfloat list \<Rightarrow> bool" where
  "low_gains gains \<longleftrightarrow>
     2 \<le> length gains \<and> flt (gains ! (length gains - 2)) (fl (5 / 100)) \<and> flt (last gains) (fl (5 / 100))"

definition restored :: "baseline_state \<Rightarrow> workflow_error + baseline_state" where
  "restored s = (case validate_baseline_state (baseline_dict s) of Inl e \<Rightarrow> Inl (WfState e) | Inr r \<Rightarrow> Inr r)"

definition decide_baseline_stop :: "baseline_state \<Rightarrow> research_plan \<Rightarrow> workflow_error + stop_reason option" where
  "decide_baseline_stop state plan =
     rbind (restored state) (\<lambda>r.
       if baseline_is_sufficient plan (bst_coverage_ledger r) (bst_high_priority_unresolved_conflict_ids r)
       then Inr (Some Sufficient)
       else if bs_exhausted (bst_budget_snapshot r) \<noteq> {} then Inr (Some BudgetExhausted)
       else if low_gains (bst_recent_marginal_gains r) then Inr (Some Plateau)
       else if bst_blocked_needs r \<noteq> [] \<and> list_all exhausted_need (bst_blocked_needs r) then Inr (Some Blocked)
       else if bst_pending_subquestion_ids r \<noteq> [] then Inr None
       else Inl NoLegalContinuation)"

text \<open>\<^verbatim>\<open>decide_next\<close> with the plan of the state.\<close>

definition decide_next :: "research_plan \<Rightarrow> baseline_state \<Rightarrow> workflow_error + baseline_state" where
  "decide_next plan state =
     rbind (decide_baseline_stop state plan) (\<lambda>stop.
       case stop of
         Some r \<Rightarrow> Inr (state\<lparr>bst_stop_reason := Some r, bst_is_partial := (r \<noteq> Sufficient)\<rparr>)
       | None \<Rightarrow>
           (case bst_active_subquestion_id state of
              Some (c # cs) \<Rightarrow> Inr (state\<lparr>bst_active_subquestion_id := Some (c # cs)\<rparr>)
            | _ \<Rightarrow> (case bst_pending_subquestion_ids state of
                     [] \<Rightarrow> Inl (WfRaised IndexError)
                   | q # _ \<Rightarrow> Inr (state\<lparr>bst_active_subquestion_id := Some q\<rparr>))))"

text \<open>The best scores of a need, at most one per source family.\<close>

fun pick_distinct ::
    "(rerank_score \<Rightarrow> string option) \<Rightarrow> int \<Rightarrow> string set \<Rightarrow> rerank_score list \<Rightarrow> rerank_score list \<Rightarrow> rerank_score list" where
  "pick_distinct family limit seen picked [] = picked"
| "pick_distinct family limit seen picked (s # ss) =
     (case family s of
        None \<Rightarrow> pick_distinct family limit seen picked ss
      | Some f \<Rightarrow>
          if f \<in> seen then pick_distinct family limit seen picked ss
          else if limit \<le> int (length (picked @ [s])) then picked @ [s]
          else pick_distinct family limit (insert f seen) (picked @ [s]) ss)"

fun best_total :: "rerank_score list \<Rightarrow> pyfloat" where
  "best_total [] = Fin 0"
| "best_total (s # ss) = foldl fmax (rk_total s) (map rk_total ss)"

record rank_input =
  ri_evidence :: "(string, evidence_span) dict"
  ri_family :: "(string, string) dict"
  ri_scores :: "(string, rerank_score list) dict"
  ri_previous :: "(string, coverage_ledger_entry) dict"

definition rank_input_of ::
    "evidence_span list \<Rightarrow> source_document list \<Rightarrow> (string, rerank_score list) dict \<Rightarrow> coverage_ledger_entry list \<Rightarrow> rank_input" where
  "rank_input_of evidence sources scores previous =
     \<lparr>ri_evidence = index_by es_evidence_id evidence,
      ri_family = map (\<lambda>(k, d). (k, sd_source_family_id d)) (index_by sd_source_id sources),
      ri_scores = scores, ri_previous = index_by cl_subquestion_id previous\<rparr>"

definition score_family :: "rank_input \<Rightarrow> string \<Rightarrow> string option" where
  "score_family i evidence_id =
     Option.bind (dget (ri_evidence i) evidence_id) (\<lambda>e. dget (ri_family i) (es_source_id e))"

definition need_selection :: "rank_input \<Rightarrow> sub_question \<Rightarrow> information_need \<Rightarrow> rerank_score list" where
  "need_selection i q need =
     (let scores = (case dget (ri_scores i) (in_need_id need) of None \<Rightarrow> [] | Some ss \<Rightarrow> ss);
          candidates = sort_key score_key (filter (\<lambda>s. case dget (ri_evidence i) (rk_evidence_id s) of
             None \<Rightarrow> False | Some e \<Rightarrow> in_need_id need \<in> set (es_information_need_ids e)) scores)
      in pick_distinct (\<lambda>s. score_family i (rk_evidence_id s))
           (er_min_independent_sources (sq_evidence_requirements q)) {} [] candidates)"

definition question_selection :: "rank_input \<Rightarrow> sub_question \<Rightarrow> string list" where
  "question_selection i q =
     sort (remdups (concat (map (\<lambda>need. map rk_evidence_id (need_selection i q need)) (sq_information_needs q))))"

definition question_coverage :: "rank_input \<Rightarrow> sub_question \<Rightarrow> pyfloat" where
  "question_coverage i q =
     (let need_coverages = map (\<lambda>need. (in_importance need, best_total (need_selection i q need))) (sq_information_needs q);
          total_need_importance = py_fsum (map fst need_coverages)
      in if fle total_need_importance (Fin 0) then Fin 0
         else fdiv (py_fsum (map (\<lambda>(weight, score). fmul weight score) need_coverages)) total_need_importance)"

definition question_entry :: "rank_input \<Rightarrow> sub_question \<Rightarrow> exc + coverage_ledger_entry" where
  "question_entry i q =
     (let coverage_score = question_coverage i q;
          selected = question_selection i q;
          families = remdups (map the (filter (\<lambda>f. f \<noteq> None) (map (score_family i) selected)));
          previous = dget (ri_previous i) (sq_id q);
          previous_score = (case previous of None \<Rightarrow> Fin 0 | Some p \<Rightarrow> cl_coverage_score p)
      in mk_entry
        \<lparr>cl_subquestion_id = sq_id q, cl_coverage_score = coverage_score,
         cl_independent_source_count = int (length families),
         cl_unresolved_conflict_ids = (case previous of None \<Rightarrow> [] | Some p \<Rightarrow> cl_unresolved_conflict_ids p),
         cl_uncertainty_score = fsub (Fin 1) coverage_score,
         cl_last_marginal_gain = fmax (Fin 0) (fsub coverage_score previous_score),
         cl_evidence_ids = selected,
         cl_attempt_count = (case previous of None \<Rightarrow> 1 | Some p \<Rightarrow> cl_attempt_count p + 1),
         cl_last_decision_code = ''R1_DISTINCT_SOURCE_FAMILIES''\<rparr>)"

definition rank_baseline_coverage ::
    "research_plan \<Rightarrow> evidence_span list \<Rightarrow> source_document list \<Rightarrow> (string, rerank_score list) dict \<Rightarrow>
     coverage_ledger_entry list \<Rightarrow> exc + string list \<times> coverage_ledger_entry list" where
  "rank_baseline_coverage plan evidence sources scores previous =
     (let i = rank_input_of evidence sources scores previous in
      rbind (mapM (question_entry i) (rp_subquestions plan)) (\<lambda>ledger.
        Inr (sort (remdups (concat (map (question_selection i) (rp_subquestions plan)))), ledger)))"

text \<open>The questions that are not covered after the last round; every question has an entry by then.\<close>

definition unmet :: "coverage_ledger_entry list \<Rightarrow> sub_question \<Rightarrow> bool" where
  "unmet ledger q \<longleftrightarrow>
     (case dget (index_by cl_subquestion_id ledger) (sq_id q) of
        None \<Rightarrow> False
      | Some e \<Rightarrow>
          flt (cl_coverage_score e) (fl (85 / 100)) \<or>
          cl_independent_source_count e < er_min_independent_sources (sq_evidence_requirements q) \<or>
          cl_unresolved_conflict_ids e \<noteq> [])"

definition blocked_after :: "research_plan \<Rightarrow> coverage_ledger_entry list \<Rightarrow> baseline_blocked_need list" where
  "blocked_after plan ledger =
     concat (map (\<lambda>q. map (\<lambda>need. \<lparr>bb_need_id = in_need_id need, bb_required_source_unavailable = True,
         bb_alternative_strategies_exhausted = True, bb_retry_count = 0, bb_max_retries = 0\<rparr>) (sq_information_needs q))
       (filter (unmet ledger) (rp_subquestions plan)))"

text \<open>\<^verbatim>\<open>rank_evidence\<close> with the evidence, the sources and the scores it is given.\<close>

definition rank_evidence ::
    "research_plan \<Rightarrow> evidence_span list \<Rightarrow> source_document list \<Rightarrow> (string, rerank_score list) dict \<Rightarrow>
     baseline_state \<Rightarrow> workflow_error + baseline_state" where
  "rank_evidence plan evidence sources scores state =
     (case rank_baseline_coverage plan evidence sources scores (bst_coverage_ledger state) of
        Inl e \<Rightarrow> Inl (WfRaised e)
      | Inr (selected, ledger) \<Rightarrow>
          (case find (\<lambda>e. Some (cl_subquestion_id e) = bst_active_subquestion_id state) ledger of
             None \<Rightarrow> Inl (WfRaised (RuntimeError ''coroutine raised StopIteration''))
           | Some active_ledger \<Rightarrow>
               let pending = filter (\<lambda>q. Some q \<noteq> bst_active_subquestion_id state) (bst_pending_subquestion_ids state)
               in Inr (state\<lparr>bst_active_subquestion_id := None, bst_coverage_ledger := ledger,
                    bst_pending_subquestion_ids := pending,
                    bst_recent_marginal_gains := bst_recent_marginal_gains state @ [cl_last_marginal_gain active_ledger],
                    bst_selected_evidence_ids := selected,
                    bst_blocked_needs := (if pending = [] then blocked_after plan ledger else bst_blocked_needs state)\<rparr>)))"

section \<open>The graphs\<close>

datatype node =
    ValidateRequest | Plan | DecideNext | Search | Fetch | ParseAndNormalize | StoreEvidence | RankEvidence
  | DraftReport | ExtractClaims | VerifyClaims | TargetedResearch | ResolveUnsupportedClaims | FinalizeCitations
  | PersistResults | EndNode

text \<open>The table of an edge: an edge may only name the nodes listed for it.\<close>

definition listed :: "node list \<Rightarrow> workflow_error + node \<Rightarrow> workflow_error + node" where
  "listed targets r = rbind r (\<lambda>n. if n \<in> set targets then Inr n else Inl MissingEdge)"

definition baseline_route_on_success :: "node \<Rightarrow> bool \<Rightarrow> baseline_state \<Rightarrow> workflow_error + node" where
  "baseline_route_on_success success honor_stop state =
     rbind (restored state) (\<lambda>r.
       if bst_error_code r \<noteq> None then Inr PersistResults
       else if honor_stop \<and> bst_stop_reason r \<noteq> None then Inr DraftReport
       else Inr success)"

definition baseline_route_after_decide :: "baseline_state \<Rightarrow> workflow_error + node" where
  "baseline_route_after_decide state =
     rbind (restored state) (\<lambda>r.
       if bst_error_code r \<noteq> None then Inr PersistResults
       else if bst_stop_reason r \<noteq> None then Inr DraftReport
       else if bst_pending_subquestion_ids r \<noteq> [] then Inr Search
       else Inl NoLegalContinuation)"

fun baseline_edge :: "node \<Rightarrow> baseline_state \<Rightarrow> workflow_error + node" where
  "baseline_edge ValidateRequest s = listed [Plan, PersistResults] (baseline_route_on_success Plan True s)"
| "baseline_edge Plan s = listed [DecideNext, DraftReport, PersistResults] (baseline_route_on_success DecideNext True s)"
| "baseline_edge DecideNext s = listed [Search, DraftReport, PersistResults] (baseline_route_after_decide s)"
| "baseline_edge Search s = listed [DraftReport, Fetch, PersistResults] (baseline_route_on_success Fetch True s)"
| "baseline_edge Fetch s =
     listed [DraftReport, ParseAndNormalize, PersistResults] (baseline_route_on_success ParseAndNormalize True s)"
| "baseline_edge ParseAndNormalize s =
     listed [DraftReport, StoreEvidence, PersistResults] (baseline_route_on_success StoreEvidence True s)"
| "baseline_edge StoreEvidence s =
     listed [DraftReport, RankEvidence, PersistResults] (baseline_route_on_success RankEvidence True s)"
| "baseline_edge RankEvidence s =
     listed [DecideNext, DraftReport, PersistResults] (baseline_route_on_success DecideNext True s)"
| "baseline_edge DraftReport s =
     listed [FinalizeCitations, PersistResults] (baseline_route_on_success FinalizeCitations False s)"
| "baseline_edge FinalizeCitations s = Inr PersistResults"
| "baseline_edge PersistResults s = Inr EndNode"
| "baseline_edge n s = Inl MissingEdge"

definition restored_research :: "research_state \<Rightarrow> workflow_error + research_state" where
  "restored_research s = (case validate_research_state (research_dict s) of Inl e \<Rightarrow> Inl (WfState e) | Inr r \<Rightarrow> Inr r)"

definition research_route_on_success :: "node \<Rightarrow> research_state \<Rightarrow> workflow_error + node" where
  "research_route_on_success next_node state =
     rbind (restored_research state) (\<lambda>r. Inr (if bst_error_code r \<noteq> None then PersistResults else next_node))"

definition route_after_decide :: "research_state \<Rightarrow> workflow_error + decision_route" where
  "route_after_decide state =
     rbind (restored_research state) (\<lambda>r.
       if bst_error_code r \<noteq> None then Inr RoutePersist
       else (case rst_decision_route r of
               None \<Rightarrow> Inl (WfRaised (ValueError ''decision_route must be SEARCH, STOP, or PERSIST''))
             | Some route \<Rightarrow> Inr route))"

definition route_after_verify :: "research_state \<Rightarrow> workflow_error + verification_route" where
  "route_after_verify state =
     rbind (restored_research state) (\<lambda>r.
       if bst_error_code r \<noteq> None then Inr RoutePersistVerified
       else (case rst_verification_route r of
               None \<Rightarrow> Inl (WfRaised (ValueError ''verification_route is invalid''))
             | Some route \<Rightarrow>
                 let research_rounds = (case rst_directional_research_rounds r of None \<Rightarrow> 0 | Some n \<Rightarrow> n);
                     unsupported = (case rst_unsupported_claim_ids r of None \<Rightarrow> [] | Some ids \<Rightarrow> ids)
                 in if 0 < research_rounds then Inr (if unsupported \<noteq> [] then RouteResolve else RouteFinalize)
                    else Inr route))"

fun decision_node :: "decision_route \<Rightarrow> node" where
  "decision_node RouteSearch = Search" | "decision_node RouteStop = DraftReport" | "decision_node RoutePersist = PersistResults"

fun verification_node :: "verification_route \<Rightarrow> node" where
  "verification_node RouteTargeted = TargetedResearch"
| "verification_node RouteResolve = ResolveUnsupportedClaims"
| "verification_node RouteFinalize = FinalizeCitations"
| "verification_node RoutePersistVerified = PersistResults"

fun research_edge :: "node \<Rightarrow> research_state \<Rightarrow> workflow_error + node" where
  "research_edge ValidateRequest s = research_route_on_success Plan s"
| "research_edge Plan s = research_route_on_success DecideNext s"
| "research_edge DecideNext s = rbind (route_after_decide s) (\<lambda>r. Inr (decision_node r))"
| "research_edge Search s = research_route_on_success Fetch s"
| "research_edge Fetch s = research_route_on_success ParseAndNormalize s"
| "research_edge ParseAndNormalize s = research_route_on_success StoreEvidence s"
| "research_edge StoreEvidence s = research_route_on_success RankEvidence s"
| "research_edge RankEvidence s = research_route_on_success DecideNext s"
| "research_edge DraftReport s = research_route_on_success ExtractClaims s"
| "research_edge ExtractClaims s = research_route_on_success VerifyClaims s"
| "research_edge VerifyClaims s = rbind (route_after_verify s) (\<lambda>r. Inr (verification_node r))"
| "research_edge TargetedResearch s = research_route_on_success Search s"
| "research_edge ResolveUnsupportedClaims s = research_route_on_success FinalizeCitations s"
| "research_edge FinalizeCitations s = Inr PersistResults"
| "research_edge PersistResults s = Inr EndNode"
| "research_edge EndNode s = Inl MissingEdge"

text \<open>The public result of a stop decision, and the record of a resolved claim.\<close>

definition result_status_for :: "stop_reason \<Rightarrow> string option \<Rightarrow> run_status \<times> bool" where
  "result_status_for stop_code report =
     (case report of
        None \<Rightarrow> (Failed, stop_code \<noteq> Sufficient)
      | Some _ \<Rightarrow> (Completed, stop_code \<noteq> Sufficient))"

text \<open>\<^verbatim>\<open>targeted_research\<close>: one bounded round.\<close>

definition targeted_research :: "research_state \<Rightarrow> research_state" where
  "targeted_research s =
     (if 1 \<le> (case rst_directional_research_rounds s of None \<Rightarrow> 0 | Some n \<Rightarrow> n)
      then s\<lparr>rst_verification_route := Some RouteResolve\<rparr>
      else s\<lparr>rst_directional_research_rounds := Some 1\<rparr>)"

section \<open>Runs of a graph\<close>

text \<open>
  \<open>walk edge node_step s tr n t\<close>: started in the state \<open>s\<close> the graph ran the nodes \<open>tr\<close>, each with the
  state it left, and is about to run \<open>n\<close> in the state \<open>t\<close>.
\<close>

inductive walk ::
    "(node \<Rightarrow> 's \<Rightarrow> workflow_error + node) \<Rightarrow> (node \<Rightarrow> 's \<Rightarrow> 's \<Rightarrow> bool) \<Rightarrow> 's \<Rightarrow> (node \<times> 's) list \<Rightarrow> node \<Rightarrow> 's \<Rightarrow> bool"
  for edge :: "node \<Rightarrow> 's \<Rightarrow> workflow_error + node" and node_step :: "node \<Rightarrow> 's \<Rightarrow> 's \<Rightarrow> bool" and s :: 's where
  walk_start: "walk edge node_step s [] ValidateRequest s"
| walk_step: "walk edge node_step s tr n t \<Longrightarrow> n \<noteq> EndNode \<Longrightarrow> node_step n t u \<Longrightarrow> edge n u = Inr m \<Longrightarrow>
    walk edge node_step s (tr @ [(n, u)]) m u"

section \<open>Routing reads the state as it is\<close>

lemma text_value_inject: "text_value x = text_value y \<longleftrightarrow> x = y"
  by (cases x; cases y) auto

lemma texts_value_inject: "texts_value xs = texts_value ys \<longleftrightarrow> xs = ys"
  by (auto simp: texts_value_def inj_map_eq_map inj_def)

lemma restored_fields:
  assumes "restored s = Inr r"
  shows "bst_error_code r = bst_error_code s \<and> bst_stop_reason r = bst_stop_reason s \<and>
    bst_pending_subquestion_ids r = bst_pending_subquestion_ids s"
proof -
  from assms have v: "validate_baseline_state (baseline_dict s) = Inr r" by (simp add: restored_def split: sum.splits)
  have t: "y = x" if "read_opt_text (text_value x) = Inr y" for x y using that by (simp add: read_opt_text_Inr text_value_inject)
  have ts: "y = x" if "read_tuple read_text (texts_value x) = Inr y" for x y
    using that by (simp add: read_texts_Inr texts_value_inject)
  have "read_opt_text (text_value (bst_error_code s)) = Inr (bst_error_code r)"
    "Inr (bst_stop_reason r) = (Inr (bst_stop_reason s) :: state_error + stop_reason option)"
    "read_tuple read_text (texts_value (bst_pending_subquestion_ids s)) = Inr (bst_pending_subquestion_ids r)"
    using v unfolding validate_baseline_state_def baseline_keys field_baseline read_stop_value rbind_eq_Inr
    by (auto simp only: simp_thms if_False baseline_state.select_convs rbind_eq_Inr sum.inject)
  then show ?thesis using t ts by simp
qed

lemma restored_valid: "valid_baseline s \<Longrightarrow> restored s = Inr s"
  using validate_baseline_dict [of s] by (simp add: restored_def baseline_state.defs)

end
