(* ===== verification/Workflow_Runs.thy ===== *)
theory Workflow_Runs
  imports Workflow_Graph
begin

text \<open>
  Runs of the two workflow graphs: the baseline graph ends, and the research graph does at most one
  round of targeted research.  A node's handler runs inside an envelope that turns an exceeded
  budget into a stop, any other error into an error code, and keeps the books of the run
  (\<^verbatim>\<open>_safe_node\<close>); what the handlers outside this library do is left open.
\<close>

section \<open>Nodes in their envelope\<close>

text \<open>Only the books differ: snapshot, elapsed time, receipts and the number of the next event.\<close>

definition books :: "baseline_state \<Rightarrow> baseline_state \<Rightarrow> bool" where
  "books s t \<longleftrightarrow> (\<exists>snap elapsed work seq.
     t = s\<lparr>bst_budget_snapshot := snap, bst_elapsed_wall_seconds := elapsed, bst_baseline_work_artifact_ids := work,
           bst_next_event_seq := seq\<rparr>)"

text \<open>
  What a handler that returns does to the state, whatever it found; \<open>RankEvidence\<close> with any evidence,
  sources and scores.
\<close>

fun baseline_update :: "research_plan \<Rightarrow> node \<Rightarrow> baseline_state \<Rightarrow> baseline_state \<Rightarrow> bool" where
  "baseline_update plan Plan s t \<longleftrightarrow> (\<exists>plan_id artifact. t =
     s\<lparr>bst_plan_id := plan_id, bst_plan_artifact_id := artifact,
       bst_pending_subquestion_ids := map sq_id (rp_subquestions plan)\<rparr>)"
| "baseline_update plan DecideNext s t \<longleftrightarrow> decide_next plan s = Inr t"
| "baseline_update plan RankEvidence s t \<longleftrightarrow> (\<exists>evidence sources scores. rank_evidence plan evidence sources scores s = Inr t)"
| "baseline_update plan ValidateRequest s t \<longleftrightarrow> t = s"
| "baseline_update plan Search s t \<longleftrightarrow> (\<exists>queries work. t = s\<lparr>bst_query_ids := queries, bst_baseline_work_artifact_ids := work\<rparr>)"
| "baseline_update plan StoreEvidence s t \<longleftrightarrow> (\<exists>work sources evidence. t =
     s\<lparr>bst_baseline_work_artifact_ids := work, bst_source_ids := sources, bst_evidence_ids := evidence\<rparr>)"
| "baseline_update plan DraftReport s t \<longleftrightarrow> (\<exists>draft. t = s\<lparr>bst_draft_artifact_id := Some draft\<rparr>)"
| "baseline_update plan FinalizeCitations s t \<longleftrightarrow> (\<exists>report. t = s\<lparr>bst_report_artifact_id := Some report\<rparr>)"
| "baseline_update plan PersistResults s t \<longleftrightarrow> (\<exists>graph manifest. t =
     s\<lparr>bst_evidence_graph_artifact_id := Some graph, bst_manifest_artifact_id := Some manifest\<rparr>)"
| "baseline_update plan n s t \<longleftrightarrow> (\<exists>work. t = s\<lparr>bst_baseline_work_artifact_ids := work\<rparr>)"

inductive baseline_node :: "research_plan \<Rightarrow> node \<Rightarrow> baseline_state \<Rightarrow> baseline_state \<Rightarrow> bool" for plan :: research_plan where
  bn_done: "baseline_update plan n s t \<Longrightarrow> books t u \<Longrightarrow> baseline_node plan n s u"
| bn_budget: "books (s\<lparr>bst_is_partial := True, bst_stop_reason := Some BudgetExhausted\<rparr>) u \<Longrightarrow> baseline_node plan n s u"
| bn_error: "books (s\<lparr>bst_error_code := Some code, bst_failed_node := Some name\<rparr>) u \<Longrightarrow> baseline_node plan n s u"

lemma books_same:
  "books s t \<Longrightarrow> bst_pending_subquestion_ids t = bst_pending_subquestion_ids s \<and>
     bst_active_subquestion_id t = bst_active_subquestion_id s \<and> bst_stop_reason t = bst_stop_reason s \<and>
     bst_error_code t = bst_error_code s"
  by (auto simp: books_def)

lemma books_refl: "books s s"
  by (cases s) (simp add: books_def)

text \<open>The part of the state that the routes read.\<close>

definition core :: "baseline_state \<Rightarrow> string list \<times> string option \<times> stop_reason option \<times> string option" where
  "core s = (bst_pending_subquestion_ids s, bst_active_subquestion_id s, bst_stop_reason s, bst_error_code s)"

lemma core_books: "books s t \<Longrightarrow> core t = core s"
  using books_same by (simp add: core_def)

lemma decide_next_core:
  assumes "decide_next plan s = Inr t" "bst_active_subquestion_id s = None"
  shows "(\<exists>r. bst_stop_reason t = Some r \<and> bst_pending_subquestion_ids t = bst_pending_subquestion_ids s) \<or>
    (\<exists>q qs. bst_pending_subquestion_ids s = q # qs \<and> bst_pending_subquestion_ids t = q # qs \<and>
       bst_active_subquestion_id t = Some q \<and> bst_stop_reason t = bst_stop_reason s)"
  using assms by (auto simp: decide_next_def rbind_eq_Inr split: option.splits list.splits)

lemma rank_evidence_core:
  assumes "rank_evidence plan evidence sources scores s = Inr t"
  shows "bst_active_subquestion_id t = None \<and> bst_stop_reason t = bst_stop_reason s \<and> bst_error_code t = bst_error_code s \<and>
    bst_pending_subquestion_ids t =
      filter (\<lambda>q. Some q \<noteq> bst_active_subquestion_id s) (bst_pending_subquestion_ids s)"
  using assms by (auto simp: rank_evidence_def Let_def split: sum.splits prod.splits option.splits)

text \<open>Where the baseline edges lead.\<close>

lemma listed_Inr: "listed ns r = Inr n \<longleftrightarrow> r = Inr n \<and> n \<in> set ns"
  by (auto simp: listed_def rbind_eq_Inr)

lemma success_route:
  assumes "baseline_route_on_success n honor s = Inr m"
  shows "m = (if bst_error_code s \<noteq> None then PersistResults else if honor \<and> bst_stop_reason s \<noteq> None then DraftReport else n)"
  using assms restored_fields by (fastforce simp: baseline_route_on_success_def rbind_eq_Inr)

lemma decide_route:
  assumes "baseline_route_after_decide s = Inr m"
  shows "m = (if bst_error_code s \<noteq> None then PersistResults else if bst_stop_reason s \<noteq> None then DraftReport else Search) \<and>
    (m = Search \<longrightarrow> bst_pending_subquestion_ids s \<noteq> [])"
  using assms restored_fields by (fastforce simp: baseline_route_after_decide_def rbind_eq_Inr split: if_splits)

section \<open>The baseline graph ends\<close>

text \<open>Steps left at a node with \<open>p\<close> questions pending.\<close>

fun steps_left :: "nat \<Rightarrow> node \<Rightarrow> nat" where
  "steps_left p DecideNext = 6 * p + 4"
| "steps_left p Search = 6 * p + 3"
| "steps_left p Fetch = 6 * p + 2"
| "steps_left p ParseAndNormalize = 6 * p + 1"
| "steps_left p StoreEvidence = 6 * p"
| "steps_left p RankEvidence = 6 * p - 1"
| "steps_left p DraftReport = 3"
| "steps_left p FinalizeCitations = 2"
| "steps_left p PersistResults = 1"
| "steps_left p n = 0"

definition searching :: "node set" where
  "searching = {Search, Fetch, ParseAndNormalize, StoreEvidence, RankEvidence}"

definition on_course :: "research_plan \<Rightarrow> node \<Rightarrow> baseline_state \<Rightarrow> nat \<Rightarrow> bool" where
  "on_course plan n s d \<longleftrightarrow>
     (let k = length (rp_subquestions plan); p = length (bst_pending_subquestion_ids s) in
      (case n of
         ValidateRequest \<Rightarrow> d = 0 \<and> bst_active_subquestion_id s = None
       | Plan \<Rightarrow> d = 1 \<and> bst_active_subquestion_id s = None
       | DecideNext \<Rightarrow> bst_active_subquestion_id s = None
       | DraftReport \<Rightarrow> bst_stop_reason s \<noteq> None
       | FinalizeCitations \<Rightarrow> bst_stop_reason s \<noteq> None
       | _ \<Rightarrow> n \<in> searching \<longrightarrow> (\<exists>a. bst_active_subquestion_id s = Some a \<and> a \<in> set (bst_pending_subquestion_ids s))) \<and>
      n \<notin> {ExtractClaims, VerifyClaims, TargetedResearch, ResolveUnsupportedClaims} \<and>
      (n \<notin> {ValidateRequest, Plan} \<longrightarrow> d + steps_left p n \<le> 6 * k + 6))"

lemma node_core:
  assumes "baseline_node plan n s u"
  obtains (result) t where "baseline_update plan n s t" "core u = core t"
  | (budget) "core u = (bst_pending_subquestion_ids s, bst_active_subquestion_id s, Some BudgetExhausted, bst_error_code s)"
  | (failed) code where "core u = (bst_pending_subquestion_ids s, bst_active_subquestion_id s, bst_stop_reason s, Some code)"
  using assms by (cases rule: baseline_node.cases) (auto dest!: core_books simp: core_def)

lemma search_step:
  assumes on: "on_course plan n s d" and n: "n \<in> {Search, Fetch, ParseAndNormalize, StoreEvidence}"
    and step: "baseline_node plan n s u" "baseline_edge n u = Inr m"
  shows "on_course plan m u (Suc d)"
proof -
  have same: "core u = (bst_pending_subquestion_ids s, bst_active_subquestion_id s, bst_stop_reason u, bst_error_code u)"
    using step(1) n by (cases rule: node_core) (auto simp: core_def)
  obtain nxt where nxt: "(n, nxt) \<in> {(Search, Fetch), (Fetch, ParseAndNormalize), (ParseAndNormalize, StoreEvidence),
      (StoreEvidence, RankEvidence)}" using n by auto
  have r: "baseline_route_on_success nxt True u = Inr m" using step(2) nxt by (auto simp: listed_Inr)
  from on n obtain a where a: "a \<in> set (bst_pending_subquestion_ids s)"
    by (auto simp: on_course_def searching_def Let_def)
  then obtain k where k: "length (bst_pending_subquestion_ids s) = Suc k" by (cases "bst_pending_subquestion_ids s") auto
  show ?thesis using success_route [OF r] same on nxt k
    by (auto simp: on_course_def core_def searching_def Let_def split: if_splits)
qed

lemma rank_step:
  assumes on: "on_course plan RankEvidence s d"
    and step: "baseline_node plan RankEvidence s u" "baseline_edge RankEvidence u = Inr m"
  shows "on_course plan m u (Suc d)"
proof -
  let ?p = "bst_pending_subquestion_ids"
  from on obtain a where a: "bst_active_subquestion_id s = Some a" "a \<in> set (?p s)"
    and d: "d + (6 * length (?p s) - 1) \<le> 6 * length (rp_subquestions plan) + 6"
    by (auto simp: on_course_def searching_def Let_def)
  obtain k where p: "length (?p s) = Suc k" using a(2) by (cases "?p s") auto
  have r: "baseline_route_on_success DecideNext True u = Inr m" using step(2) by (simp add: listed_Inr)
  have shorter: "length (filter (\<lambda>q. Some q \<noteq> Some a) (?p s)) < length (?p s)"
    using a(2) by (intro length_filter_less) auto
  have "bst_error_code u \<noteq> None \<or> bst_stop_reason u \<noteq> None \<or>
      (bst_active_subquestion_id u = None \<and> length (?p u) < length (?p s))"
    using step(1)
  proof (cases rule: node_core)
    case (result t)
    then show ?thesis using rank_evidence_core shorter a(1) by (fastforce simp: core_def)
  qed (auto simp: core_def)
  then show ?thesis using success_route [OF r] d p
    by (auto simp: on_course_def searching_def Let_def split: if_splits)
qed

lemma course_step:
  assumes on: "on_course plan n s d" and "n \<noteq> EndNode"
    and step: "baseline_node plan n s u" "baseline_edge n u = Inr m"
  shows "on_course plan m u (Suc d)"
proof (cases n)
  case ValidateRequest
  have "core u = (bst_pending_subquestion_ids s, bst_active_subquestion_id s, bst_stop_reason u, bst_error_code u)"
    using step(1) ValidateRequest by (cases rule: node_core) (auto simp: core_def)
  then show ?thesis using step(2) ValidateRequest on
    by (auto simp: on_course_def core_def searching_def Let_def listed_Inr dest: success_route split: if_splits)
next
  case Plan
  have r: "baseline_route_on_success DecideNext True u = Inr m" using step(2) Plan by (simp add: listed_Inr)
  have "bst_error_code u \<noteq> None \<or> bst_stop_reason u \<noteq> None \<or> (bst_active_subquestion_id u = bst_active_subquestion_id s \<and>
      length (bst_pending_subquestion_ids u) = length (rp_subquestions plan))"
    using step(1) Plan by (cases rule: node_core) (auto simp: core_def)
  with success_route [OF r] Plan on show ?thesis
    by (auto simp: on_course_def searching_def Let_def split: if_splits)
next
  case DecideNext
  have r: "baseline_route_after_decide u = Inr m" using step(2) DecideNext by (simp add: listed_Inr)
  have act: "bst_active_subquestion_id s = None" using on DecideNext by (simp add: on_course_def Let_def)
  have "bst_error_code u \<noteq> None \<or> bst_stop_reason u \<noteq> None \<or> (\<exists>q qs. bst_pending_subquestion_ids s = q # qs \<and>
      bst_pending_subquestion_ids u = q # qs \<and> bst_active_subquestion_id u = Some q)"
    using step(1)
  proof (cases rule: node_core)
    case (result t)
    then show ?thesis using decide_next_core [OF _ act, of plan t] DecideNext by (auto simp: core_def)
  qed (auto simp: core_def)
  with decide_route [OF r] DecideNext on show ?thesis
    by (auto simp: on_course_def searching_def Let_def split: if_splits)
next
  case DraftReport
  have r: "baseline_route_on_success FinalizeCitations False u = Inr m" using step(2) DraftReport by (simp add: listed_Inr)
  have "bst_stop_reason u \<noteq> None"
    using step(1) DraftReport on by (cases rule: node_core) (auto simp: core_def on_course_def Let_def)
  with success_route [OF r] DraftReport on show ?thesis
    by (auto simp: on_course_def searching_def Let_def split: if_splits)
next
  case RankEvidence
  with on step show ?thesis by (auto intro: rank_step)
qed (use search_step [OF on _ step] on step(2) assms(2) in \<open>auto simp: on_course_def searching_def Let_def\<close>)

lemma walk_on_course:
  assumes "walk baseline_edge (baseline_node plan) s tr n t" "bst_active_subquestion_id s = None"
  shows "on_course plan n t (length tr)"
  using assms
proof (induction rule: walk.induct)
  case walk_start
  then show ?case by (simp add: on_course_def searching_def Let_def)
next
  case (walk_step tr n t u m)
  then show ?case using course_step [of plan n t "length tr" u m] by simp
qed

lemma edge_defined:
  assumes on: "on_course plan n s d" and n: "n \<noteq> EndNode" and step: "baseline_node plan n s u" and v: "valid_baseline u"
    and ok: "n = ValidateRequest \<Longrightarrow> bst_stop_reason u = None"
  shows "\<exists>m. baseline_edge n u = Inr m"
proof (cases "n = DecideNext")
  case True
  have act: "bst_active_subquestion_id s = None" using on True by (simp add: on_course_def Let_def)
  have "bst_error_code u \<noteq> None \<or> bst_stop_reason u \<noteq> None \<or> bst_pending_subquestion_ids u \<noteq> []"
    using step
  proof (cases rule: node_core)
    case (result t)
    then show ?thesis using decide_next_core [OF _ act, of plan t] True by (auto simp: core_def)
  qed (auto simp: core_def)
  with True show ?thesis by (auto simp: listed_def baseline_route_after_decide_def restored_valid [OF v])
next
  case False
  with on n ok show ?thesis
    by (cases n) (auto simp: listed_def baseline_route_on_success_def restored_valid [OF v] on_course_def Let_def)
qed

text \<open>C28. Every run of the baseline graph ends, on a path the graph has.  However its nodes fare -
whatever evidence they find, wherever a budget is exceeded or an error occurs -, a run with \<open>k\<close>
planned questions executes at most \<open>6 k + 6\<close> nodes.  It drafts and finalizes a report only with a stop
reason, it ends after the node that persists the results, and at no state that a node leaves is the
next edge undefined, a budget exceeded while the request is validated excepted.\<close>

theorem baseline_run_ends:
  assumes "walk baseline_edge (baseline_node plan) s tr n t" "bst_active_subquestion_id s = None"
  shows "length tr \<le> 6 * length (rp_subquestions plan) + 6 \<and>
    (n \<in> {DraftReport, FinalizeCitations} \<longrightarrow> bst_stop_reason t \<noteq> None) \<and>
    (n = EndNode \<longrightarrow> tr \<noteq> [] \<and> fst (last tr) = PersistResults) \<and>
    (\<forall>u. n \<noteq> EndNode \<longrightarrow> baseline_node plan n t u \<longrightarrow> valid_baseline u \<longrightarrow>
       (\<exists>m. baseline_edge n u = Inr m) \<or> (n = ValidateRequest \<and> bst_stop_reason u \<noteq> None))"
proof -
  have on: "on_course plan n t (length tr)" using assms by (rule walk_on_course)
  have "tr \<noteq> [] \<and> fst (last tr) = PersistResults" if "n = EndNode"
    using assms(1) that
  proof (cases rule: walk.cases)
    case (walk_step tr' n' t')
    with that show ?thesis
      by (cases n') (auto simp: listed_Inr dest!: success_route decide_route split: if_splits)
  qed simp
  moreover have "length tr \<le> 6 * length (rp_subquestions plan) + 6"
    using on by (cases n) (auto simp: on_course_def Let_def)
  moreover have "n \<in> {DraftReport, FinalizeCitations} \<longrightarrow> bst_stop_reason t \<noteq> None"
    using on by (auto simp: on_course_def Let_def)
  moreover have "(\<exists>m. baseline_edge n u = Inr m) \<or> (n = ValidateRequest \<and> bst_stop_reason u \<noteq> None)"
    if "n \<noteq> EndNode" "baseline_node plan n t u" "valid_baseline u" for u
    using edge_defined [OF on that] by (cases "n = ValidateRequest \<and> bst_stop_reason u \<noteq> None") auto
  ultimately show ?thesis by simp
qed

definition demo_plan :: research_plan where
  "demo_plan = \<lparr>rp_plan_id = ''p'', rp_scope = \<lparr>rsc_included_topics = [], rsc_excluded_topics = [], rsc_date_range = None,
     rsc_answer_shape = ''report''\<rparr>, rp_subquestions = [], rp_created_by_model = ''m'', rp_prompt_version = ''v''\<rparr>"

theorem baseline_run_ends_witness:
  "\<exists>tr s. walk baseline_edge (baseline_node demo_plan) s tr Plan s \<and> tr \<noteq> [] \<and> length tr \<le> 6"
proof -
  let ?s = "baseline_state.truncate Workflow_State.demo_state"
  have v: "valid_baseline ?s" using demo_state_valid by (simp add: valid_research_def valid_baseline_def baseline_state.defs)
  have none: "bst_active_subquestion_id ?s = None" "bst_error_code ?s = None" "bst_stop_reason ?s = None"
    by (simp_all add: Workflow_State.demo_state_def baseline_state.defs)
  have "baseline_node demo_plan ValidateRequest ?s ?s" by (rule bn_done [OF _ books_refl]) simp
  moreover have "baseline_edge ValidateRequest ?s = Inr Plan"
    by (simp add: listed_def baseline_route_on_success_def restored_valid [OF v] none)
  ultimately have w: "walk baseline_edge (baseline_node demo_plan) ?s ([] @ [(ValidateRequest, ?s)]) Plan ?s"
    by (rule walk_step [OF walk_start, rotated]) simp_all
  from baseline_run_ends [OF w none(1)] have "length [(ValidateRequest, ?s)] \<le> 6" by (simp add: demo_plan_def)
  with w show ?thesis by (intro exI [of _ "[(ValidateRequest, ?s)]"] exI [of _ ?s]) simp
qed

section \<open>No legal continuation\<close>

text \<open>
  After the last round the unmet questions block the run; but when every question is covered and the
  plan gives all of them importance 0, nothing blocks it and it is not sufficient: the decision
  fails.
\<close>

lemma py_fsum_zeros: "list_all (\<lambda>x. x = Fin 0) xs \<Longrightarrow> py_fsum xs = Fin 0"
proof -
  have "list_all (\<lambda>x. x = Fin 0) xs \<Longrightarrow> neumaier (Fin 0) (Fin 0) xs = Fin 0"
    by (induction xs) (simp_all add: Let_def fsub_def)
  then show "list_all (\<lambda>x. x = Fin 0) xs \<Longrightarrow> py_fsum xs = Fin 0" by (simp add: py_fsum_def)
qed

lemma no_legal_continuation:
  assumes "valid_baseline s" "list_all (\<lambda>q. sq_importance q = Fin 0) (rp_subquestions plan)"
    and "bst_pending_subquestion_ids s = []" "bst_blocked_needs s = []" "bs_exhausted (bst_budget_snapshot s) = {}"
    and "\<not> low_gains (bst_recent_marginal_gains s)"
  shows "decide_baseline_stop s plan = Inl NoLegalContinuation"
proof -
  have "py_fsum (map sq_importance (rp_subquestions plan)) = Fin 0"
    using assms(2) by (intro py_fsum_zeros) (simp add: list_all_iff)
  then have "\<not> baseline_is_sufficient plan (bst_coverage_ledger s) (bst_high_priority_unresolved_conflict_ids s)"
    by (simp add: baseline_is_sufficient_def Let_def)
  with assms show ?thesis by (simp add: decide_baseline_stop_def restored_valid)
qed

section \<open>The research graph\<close>

definition rounds :: "research_state \<Rightarrow> int" where
  "rounds s = (case rst_directional_research_rounds s of None \<Rightarrow> 0 | Some n \<Rightarrow> n)"

definition unsupported_ids :: "research_state \<Rightarrow> string list" where
  "unsupported_ids s = (case rst_unsupported_claim_ids s of None \<Rightarrow> [] | Some ids \<Rightarrow> ids)"

lemma optional_same:
  assumes "optional_field (research_dict s) k read = Inr y" "dget (research_extension s) k = map_option f x" "k \<in> research_fields"
    and "\<And>v w. read (f v) = Inr w \<Longrightarrow> w = v"
  shows "y = x"
proof -
  have "k \<notin> set (dkeys (baseline_dict s))" using assms(3) fields_apart baseline_keys [of s] by auto
  then have "dget (baseline_dict s) k = None" by (simp add: map_of_eq_None_iff)
  then have "dget (research_dict s) k = map_option f x"
    by (cases x) (simp_all add: research_dict_def map_add_def assms(2))
  with assms(1,4) show ?thesis by (cases x) (auto simp: optional_field_def rbind_eq_Inr)
qed

lemma restored_research_fields:
  assumes "restored_research s = Inr r"
  shows "bst_error_code r = bst_error_code s \<and> rst_directional_research_rounds r = rst_directional_research_rounds s \<and>
    rst_unsupported_claim_ids r = rst_unsupported_claim_ids s \<and> rst_verification_route r = rst_verification_route s"
proof -
  from assms have v: "validate_research_state (research_dict s) = Inr r" by (simp add: restored_research_def split: sum.splits)
  then obtain b where b: "validate_baseline_state (baseline_dict s) = Inr b" "bst_error_code r = bst_error_code b"
    and o: "optional_field (research_dict s) ''directional_research_rounds'' (read_int 0) = Inr (rst_directional_research_rounds r)"
      "optional_field (research_dict s) ''unsupported_claim_ids'' (read_tuple read_text) = Inr (rst_unsupported_claim_ids r)"
      "optional_field (research_dict s) ''verification_route'' (read_label verification_texts) = Inr (rst_verification_route r)"
    unfolding validate_research_state_def research_dict_baseline rbind_eq_Inr
    by (auto simp: rbind_eq_Inr baseline_state.defs research_state.defs split: if_split_asm)
  have "read_opt_text (text_value (bst_error_code s)) = Inr (bst_error_code b)"
    using b(1) unfolding validate_baseline_state_def baseline_keys field_baseline rbind_eq_Inr
    by (auto simp only: simp_thms if_False baseline_state.select_convs rbind_eq_Inr sum.inject)
  then have "bst_error_code b = bst_error_code s" by (simp add: read_opt_text_Inr text_value_inject)
  moreover have "rst_directional_research_rounds r = rst_directional_research_rounds s"
    using o(1) extension_get(9) by (rule optional_same) (auto simp: research_fields_def split: if_splits)
  moreover have "rst_unsupported_claim_ids r = rst_unsupported_claim_ids s"
    using o(2) extension_get(6) by (rule optional_same) (auto simp: research_fields_def read_texts_Inr texts_value_inject simp del: read_tuple.simps)
  moreover have "rst_verification_route r = rst_verification_route s"
    using o(3) extension_get(3) by (rule optional_same) (auto simp: research_fields_def read_verification_value)
  ultimately show ?thesis using b(2) by simp
qed

lemma research_success:
  assumes "research_route_on_success n s = Inr m"
  shows "m = (if bst_error_code s \<noteq> None then PersistResults else n)"
  using assms by (auto simp: research_route_on_success_def rbind_eq_Inr dest!: restored_research_fields)

lemma decide_targets:
  assumes "route_after_decide s = Inr r"
  shows "bst_error_code s \<noteq> None \<longrightarrow> r = RoutePersist"
  using assms by (auto simp: route_after_decide_def rbind_eq_Inr dest!: restored_research_fields split: if_splits)

lemma verify_targets:
  assumes "route_after_verify s = Inr r"
  shows "(bst_error_code s \<noteq> None \<longrightarrow> r = RoutePersistVerified) \<and> (r = RouteTargeted \<longrightarrow> rounds s \<le> 0) \<and>
    (r = RouteFinalize \<longrightarrow> bst_error_code s = None \<and> (0 < rounds s \<longrightarrow> unsupported_ids s = []))"
  using assms
  by (auto simp: route_after_verify_def rbind_eq_Inr rounds_def unsupported_ids_def Let_def dest!: restored_research_fields
      split: if_splits option.splits)

lemma research_targets:
  assumes "research_edge n u = Inr m"
  shows "(n = FinalizeCitations \<and> m = PersistResults) \<or> (n = PersistResults \<and> m = EndNode) \<or>
    (bst_error_code u \<noteq> None \<and> m = PersistResults) \<or>
    (bst_error_code u = None \<and> m \<noteq> EndNode \<and> n \<notin> {FinalizeCitations, PersistResults} \<and>
       (m = TargetedResearch \<longrightarrow> n = VerifyClaims \<and> rounds u \<le> 0) \<and>
       (m = FinalizeCitations \<longrightarrow> n = ResolveUnsupportedClaims \<or>
          (n = VerifyClaims \<and> (0 < rounds u \<longrightarrow> unsupported_ids u = []))))"
proof (cases n)
  case DecideNext
  with assms obtain r where "route_after_decide u = Inr r" "m = decision_node r" by (auto simp: rbind_eq_Inr)
  with DecideNext decide_targets [of u r] show ?thesis by (cases r) auto
next
  case VerifyClaims
  with assms obtain r where "route_after_verify u = Inr r" "m = verification_node r" by (auto simp: rbind_eq_Inr)
  with VerifyClaims verify_targets [of u r] show ?thesis by (cases r) auto
qed (use assms in \<open>auto dest!: research_success split: if_splits\<close>)

text \<open>Handlers that leave the count of rounds to \<^verbatim>\<open>targeted_research\<close>, or fail.\<close>

definition counted_rounds :: "(node \<Rightarrow> research_state \<Rightarrow> research_state \<Rightarrow> bool) \<Rightarrow> bool" where
  "counted_rounds handlers \<longleftrightarrow> (\<forall>n s u. handlers n s u \<longrightarrow> bst_error_code u \<noteq> None \<or>
     rounds u = (if n = TargetedResearch then rounds (targeted_research s) else rounds s))"

definition targeted_visits :: "(node \<times> research_state) list \<Rightarrow> nat" where
  "targeted_visits tr = length (filter (\<lambda>(m, _). m = TargetedResearch) tr)"

lemma targeted_rounds: "0 < rounds (targeted_research s)"
  by (auto simp: rounds_def targeted_research_def split: option.splits)

lemma visits_bounded:
  assumes "walk research_edge handlers s tr n t" "counted_rounds handlers"
  shows "targeted_visits tr \<le> 1 \<and> (n = TargetedResearch \<longrightarrow> rounds t \<le> 0) \<and>
    (n \<in> {PersistResults, EndNode, FinalizeCitations} \<or> targeted_visits tr = 0 \<or> 0 < rounds t)"
  using assms
proof (induction rule: walk.induct)
  case walk_start
  then show ?case by (simp add: targeted_visits_def)
next
  case (walk_step tr n t u m)
  have add: "targeted_visits (tr @ [(n, u)]) = targeted_visits tr + (if n = TargetedResearch then 1 else 0)"
    by (simp add: targeted_visits_def)
  have IH: "targeted_visits tr \<le> 1" "n = TargetedResearch \<Longrightarrow> rounds t \<le> 0"
    "n \<in> {PersistResults, EndNode, FinalizeCitations} \<or> targeted_visits tr = 0 \<or> 0 < rounds t"
    using walk_step by auto
  have zero: "targeted_visits tr = 0" if "n = TargetedResearch" using IH that by auto
  have r: "bst_error_code u \<noteq> None \<or> rounds u = (if n = TargetedResearch then rounds (targeted_research t) else rounds t)"
    using walk_step unfolding counted_rounds_def by blast
  show ?case
    using research_targets [OF walk_step(4)] walk_step(2) add IH zero r targeted_rounds [of t] by (cases "n = TargetedResearch") auto
qed


definition idle_handlers :: "node \<Rightarrow> research_state \<Rightarrow> research_state \<Rightarrow> bool" where
  "idle_handlers n s u \<longleftrightarrow> u = (if n = TargetedResearch then targeted_research s else s)"


end
