(* ===== verification/Claim_Resolution.thy ===== *)
theory Claim_Resolution
  imports Evidence_Judge Citations Chunking
begin

text \<open>
  Extracting claims from a draft (\<^verbatim>\<open>ClaimExtractor\<close> of \<^verbatim>\<open>src/src/deepresearch/evidence/claims.py\<close>) and the
  claim nodes of the research graph: verifying the claims and deleting the unsupported ones from
  the draft (\<^verbatim>\<open>workflow/research_handlers.py\<close>).  The regular expressions are scanners over
  code points below 256; case folding and the digest are parameters.
\<close>

section \<open>Scanners\<close>

text \<open>\<^verbatim>\<open>re.split(r"(?<=[.!?])\s+|\n+", text)\<close>; the flag says that the previous character ends a sentence.\<close>

definition ends_sentence :: "char \<Rightarrow> bool" where
  "ends_sentence c \<longleftrightarrow> c \<in> {CHR ''.'', CHR ''!'', CHR ''?''}"

function (sequential) split_from :: "bool \<Rightarrow> string \<Rightarrow> string \<Rightarrow> string list" where
  "split_from ended acc [] = [rev acc]"
| "split_from ended acc (c # cs) =
     (if ended \<and> is_ws c then rev acc # split_from False [] (dropWhile is_ws cs)
      else if c = CHR 0x0A then rev acc # split_from False [] (dropWhile (\<lambda>d. d = CHR 0x0A) cs)
      else split_from (ends_sentence c) (c # acc) cs)"
  by pat_completeness auto
termination
  by (relation "measure (\<lambda>(_, _, s). length s)") (auto intro: le_imp_less_Suc length_dropWhile_le)

definition split_text :: "string \<Rightarrow> string list" where
  "split_text text = split_from False [] text"

text \<open>A bracket \<^verbatim>\<open>\[[^\]]+\]\<close> whose opening character was read: its content and the rest of the text.\<close>

definition bracket :: "string \<Rightarrow> (string \<times> string) option" where
  "bracket s =
     (case dropWhile (\<lambda>c. c \<noteq> CHR '']'') s of
        [] \<Rightarrow> None
      | _ # after \<Rightarrow>
          let body = takeWhile (\<lambda>c. c \<noteq> CHR '']'') s in if body = [] then None else Some (body, after))"

lemma bracket_shorter: "bracket s = Some (body, after) \<Longrightarrow> length after < length s"
proof -
  assume "bracket s = Some (body, after)"
  then obtain c where "dropWhile (\<lambda>c. c \<noteq> CHR '']'') s = c # after"
    by (auto simp: bracket_def Let_def split: list.splits if_splits)
  then show ?thesis using length_dropWhile_le [of "\<lambda>c. c \<noteq> CHR '']''" s] by simp
qed

text \<open>\<^verbatim>\<open>re.findall(r"\[([^\]]+)\]", s)\<close> and \<^verbatim>\<open>re.sub(r"\[[^\]]+\]", " ", s)\<close>\<close>

function (sequential) find_brackets :: "string \<Rightarrow> string list" where
  "find_brackets [] = []"
| "find_brackets (c # cs) =
     (case (if c = CHR ''['' then bracket cs else None) of
        None \<Rightarrow> find_brackets cs
      | Some (body, after) \<Rightarrow> body # find_brackets after)"
  by pat_completeness auto
termination
  by (relation "measure length") (auto dest!: bracket_shorter split: if_splits)

function (sequential) blank_brackets :: "string \<Rightarrow> string" where
  "blank_brackets [] = []"
| "blank_brackets (c # cs) =
     (case (if c = CHR ''['' then bracket cs else None) of
        None \<Rightarrow> c # blank_brackets cs
      | Some (_, after) \<Rightarrow> CHR '' '' # blank_brackets after)"
  by pat_completeness auto
termination
  by (relation "measure length") (auto dest!: bracket_shorter split: if_splits)

text \<open>\<^verbatim>\<open>re.sub(r"\s*\[[^\]]+\]", "", s)\<close>\<close>

definition spaced_bracket :: "string \<Rightarrow> string option" where
  "spaced_bracket s =
     (case dropWhile is_ws s of
        [] \<Rightarrow> None
      | c # cs \<Rightarrow> if c = CHR ''['' then map_option snd (bracket cs) else None)"

lemma spaced_bracket_shorter: "spaced_bracket s = Some after \<Longrightarrow> length after < length s"
proof -
  assume a: "spaced_bracket s = Some after"
  then obtain c cs body where d: "dropWhile is_ws s = c # cs" "bracket cs = Some (body, after)"
    by (auto simp: spaced_bracket_def split: list.splits if_splits)
  then show ?thesis using length_dropWhile_le [of is_ws s] bracket_shorter [OF d(2)] by simp
qed

function (sequential) drop_citations :: "string \<Rightarrow> string" where
  "drop_citations [] = []"
| "drop_citations (c # cs) =
     (case spaced_bracket (c # cs) of
        None \<Rightarrow> c # drop_citations cs
      | Some after \<Rightarrow> drop_citations after)"
  by pat_completeness auto
termination
  by (relation "measure length") (auto dest!: spaced_bracket_shorter)

text \<open>\<^verbatim>\<open>re.findall(r"\b\d+(?:\.\d+)?\b", text)\<close>; the flag says that the previous character is a word character.\<close>

definition is_digit :: "char \<Rightarrow> bool" where
  "is_digit c \<longleftrightarrow> CHR ''0'' \<le> c \<and> c \<le> CHR ''9''"

definition at_boundary :: "string \<Rightarrow> bool" where
  "at_boundary s \<longleftrightarrow> (case s of [] \<Rightarrow> True | c # _ \<Rightarrow> \<not> word_char c)"

definition number_at :: "string \<Rightarrow> (string \<times> string) option" where
  "number_at s =
     (let run = takeWhile is_digit s; rest = dropWhile is_digit s;
          frac = (case rest of c # cs \<Rightarrow> if c = CHR ''.'' then takeWhile is_digit cs else [] | [] \<Rightarrow> []);
          after = drop (Suc (length frac)) rest
      in if run = [] then None
         else if frac \<noteq> [] \<and> at_boundary after then Some (run @ CHR ''.'' # frac, after)
         else if at_boundary rest then Some (run, rest)
         else None)"

lemma number_at_shorter: "number_at s = Some (m, after) \<Longrightarrow> length after < length s"
proof -
  assume a: "number_at s = Some (m, after)"
  then have "takeWhile is_digit s \<noteq> []" by (auto simp: number_at_def Let_def split: if_splits)
  then have "length (dropWhile is_digit s) < length s" by (cases s) (auto intro: le_imp_less_Suc length_dropWhile_le split: if_splits)
  with a show ?thesis by (auto simp: number_at_def Let_def split: if_splits)
qed

function (sequential) find_numbers :: "bool \<Rightarrow> string \<Rightarrow> string list" where
  "find_numbers prev [] = []"
| "find_numbers prev (c # cs) =
     (case (if prev then None else number_at (c # cs)) of
        None \<Rightarrow> find_numbers (word_char c) cs
      | Some (number, after) \<Rightarrow> number # find_numbers True after)"
  by pat_completeness auto
termination
  by (relation "measure (\<lambda>(_, s). length s)") (auto dest!: number_at_shorter split: if_splits)

section \<open>Extraction\<close>

definition sentence_claim :: "(string \<Rightarrow> string) \<Rightarrow> string set \<Rightarrow> string \<Rightarrow> claim option" where
  "sentence_claim sha allowed sentence =
     (let text = strip (drop_citations sentence); citations = set (find_brackets sentence) in
      if text = [] \<or> (citations \<noteq> {} \<and> citations \<inter> allowed = {}) then None
      else Some \<lparr>cm_claim_id = ''claim-'' @ take 16 (sha text), cm_text = text, cm_claim_type = Fact, cm_entities = [],
             cm_numbers = find_numbers False text, cm_qualifiers = [], cm_report_section = ''findings'',
             cm_verification_status = Uncertain\<rparr>)"

definition extract_claims :: "(string \<Rightarrow> string) \<Rightarrow> nat \<Rightarrow> accountant option \<Rightarrow> claim list model_answer option \<Rightarrow>
    cancellation_token \<Rightarrow> string \<Rightarrow> string set \<Rightarrow> (judge_error + claim list) \<times> accountant option" where
  "extract_claims sha oid budget model token draft evidence_ids =
     (case raise_if_cancelled token of
        Inl _ \<Rightarrow> (Inl JudgeCancelled, budget)
      | Inr _ \<Rightarrow>
          (case model of
             Some answer \<Rightarrow> settle_model_call sha oid budget (''claims:'' @ sha draft) answer
           | None \<Rightarrow> (Inr (List.map_filter (sentence_claim sha evidence_ids) (split_text draft)), budget)))"

section \<open>Deleting unsupported claims\<close>

text \<open>\<^verbatim>\<open>_claim_match_text\<close>\<close>

fun join_words :: "string list \<Rightarrow> string" where
  "join_words [] = []"
| "join_words [w] = w"
| "join_words (w # ws) = w @ CHR '' '' # join_words ws"

definition claim_match_text :: "(string \<Rightarrow> string) \<Rightarrow> string \<Rightarrow> string" where
  "claim_match_text cfold value = join_words (find_words (blank_brackets (cfold value)))"

definition split_sentences :: "string \<Rightarrow> string list" where
  "split_sentences paragraph = map strip (filter (\<lambda>s. strip s \<noteq> []) (split_text paragraph))"

text \<open>\<^verbatim>\<open>str.split("\n\n")\<close> and \<^verbatim>\<open>str.splitlines\<close>, where a carriage return and a line feed are one boundary.\<close>

function (sequential) split_paragraphs :: "string \<Rightarrow> string \<Rightarrow> string list" where
  "split_paragraphs acc [] = [rev acc]"
| "split_paragraphs acc (c # cs) =
     (if c = CHR 0x0A \<and> cs \<noteq> [] \<and> hd cs = CHR 0x0A then rev acc # split_paragraphs [] (tl cs)
      else split_paragraphs (c # acc) cs)"
  by pat_completeness auto
termination by (relation "measure (\<lambda>(_, s). length s)") auto

function (sequential) draft_lines :: "string \<Rightarrow> string \<Rightarrow> string list" where
  "draft_lines acc [] = (if acc = [] then [] else [rev acc])"
| "draft_lines acc (c # cs) =
     (if c = CHR 0x0D \<and> cs \<noteq> [] \<and> hd cs = CHR 0x0A then rev acc # draft_lines [] (tl cs)
      else if is_break c then rev acc # draft_lines [] cs
      else draft_lines (c # acc) cs)"
  by pat_completeness auto
termination by (relation "measure (\<lambda>(_, s). length s)") auto

definition heading :: "string \<Rightarrow> bool" where
  "heading line \<longleftrightarrow> (case dropWhile is_ws line of [] \<Rightarrow> False | c # _ \<Rightarrow> c = CHR ''#'')"

record resolution_pass =
  rp_kept :: "string list"
  rp_pending_citations :: "string list"
  rp_removed :: "string set"
  rp_previous_removed :: bool

definition matched_ids :: "(string \<Rightarrow> string) \<Rightarrow> (string, string) dict \<Rightarrow> string \<Rightarrow> string set" where
  "matched_ids cfold unsupported prose =
     set (map fst (filter (\<lambda>(_, t). t \<noteq> [] \<and> sublist t (claim_match_text cfold prose)) unsupported))"

definition prose_of :: "string \<Rightarrow> string" where
  "prose_of sentence = strip (blank_brackets sentence)"

definition resolve_sentence :: "(string \<Rightarrow> string) \<Rightarrow> (string, string) dict \<Rightarrow> resolution_pass \<Rightarrow> string \<Rightarrow> resolution_pass" where
  "resolve_sentence cfold unsupported st sentence =
     (if prose_of sentence = [] then
        if rp_previous_removed st then st
        else if rp_kept st \<noteq> []
        then st\<lparr>rp_kept := butlast (rp_kept st) @ [strip (last (rp_kept st) @ CHR '' '' # sentence)]\<rparr>
        else st\<lparr>rp_pending_citations := rp_pending_citations st @ [sentence]\<rparr>
      else
        let matched = matched_ids cfold unsupported (prose_of sentence) in
        if matched \<noteq> {} then
          st\<lparr>rp_removed := rp_removed st \<union> matched, rp_previous_removed := True, rp_pending_citations := []\<rparr>
        else
          let text = (if rp_pending_citations st \<noteq> [] then join_words (rp_pending_citations st @ [sentence]) else sentence)
          in st\<lparr>rp_kept := rp_kept st @ [strip text], rp_pending_citations := [], rp_previous_removed := False\<rparr>)"

text \<open>The lines kept of a paragraph, and the claims found in it.\<close>

definition finish_pass :: "resolution_pass \<Rightarrow> string list" where
  "finish_pass st =
     (if rp_pending_citations st = [] then rp_kept st
      else if rp_kept st \<noteq> []
      then butlast (rp_kept st) @ [strip (last (rp_kept st) @ CHR '' '' # join_words (rp_pending_citations st))]
      else rp_kept st @ rp_pending_citations st)"

definition paragraph_sentences :: "string \<Rightarrow> string list" where
  "paragraph_sentences paragraph = split_sentences (join_lines (filter (\<lambda>l. \<not> heading l) (draft_lines [] paragraph)))"

definition paragraph_pass :: "(string \<Rightarrow> string) \<Rightarrow> (string, string) dict \<Rightarrow> string \<Rightarrow> resolution_pass" where
  "paragraph_pass cfold unsupported paragraph =
     foldl (resolve_sentence cfold unsupported)
       \<lparr>rp_kept = [], rp_pending_citations = [], rp_removed = {}, rp_previous_removed = False\<rparr>
       (paragraph_sentences paragraph)"

definition remaining_paragraph :: "(string \<Rightarrow> string) \<Rightarrow> (string, string) dict \<Rightarrow> string \<Rightarrow> string" where
  "remaining_paragraph cfold unsupported paragraph =
     strip (join_lines (filter heading (draft_lines [] paragraph) @ finish_pass (paragraph_pass cfold unsupported paragraph)))"

fun join_paragraphs :: "string list \<Rightarrow> string" where
  "join_paragraphs [] = []"
| "join_paragraphs [p] = p"
| "join_paragraphs (p # ps) = p @ CHR 0x0A # CHR 0x0A # join_paragraphs ps"

text \<open>\<^verbatim>\<open>ClaimResolutionRecord\<close> with its check.\<close>

datatype resolution_action = DeleteClaim | RewriteClaim | MoveToLimitations
datatype resolution_reason = UnsupportedFact | OverstatedSupport | ContradictedClaim | UncertainClaim

record claim_resolution =
  cr_claim_id :: string
  cr_action :: resolution_action
  cr_reason_code :: resolution_reason
  cr_replacement_text :: "string option"

definition mk_claim_resolution :: "claim_resolution \<Rightarrow> exc + claim_resolution" where
  "mk_claim_resolution r =
     (if strip (cr_claim_id r) = [] then Inl (ValueError ''claim_id is required'')
      else if cr_action r = DeleteClaim then
        if cr_replacement_text r \<noteq> None then Inl (ValueError ''DELETE replacement must be None'') else Inr r
      else
        (case cr_replacement_text r of
           None \<Rightarrow> Inl (ValueError ''rewrite replacement must be non-empty'')
         | Some t \<Rightarrow> if strip t = [] then Inl (ValueError ''rewrite replacement must be non-empty'') else Inr r))"

datatype resolution_error = ClaimAbsent | ResolutionRaised exc

definition remove_unsupported_claims ::
    "(string \<Rightarrow> string) \<Rightarrow> string \<Rightarrow> claim list \<Rightarrow> resolution_error + string \<times> claim_resolution list" where
  "remove_unsupported_claims cfold draft unsupported =
     (let by_id = foldl (\<lambda>d c. dput (cm_claim_id c) (claim_match_text cfold (cm_text c)) d) [] unsupported;
          paragraphs = split_paragraphs [] (strip draft);
          removed = (\<Union>p\<in>set paragraphs. rp_removed (paragraph_pass cfold by_id p));
          kept = filter (\<lambda>p. p \<noteq> []) (map (remaining_paragraph cfold by_id) paragraphs)
      in if \<not> set (dkeys by_id) \<subseteq> removed then Inl ClaimAbsent
         else
           (case mapM (\<lambda>c. mk_claim_resolution \<lparr>cr_claim_id = cm_claim_id c, cr_action = DeleteClaim,
                     cr_reason_code = UnsupportedFact, cr_replacement_text = None\<rparr>)
                   (filter (\<lambda>c. cm_claim_id c \<in> removed) (sort_key cm_claim_id unsupported)) of
              Inl e \<Rightarrow> Inl (ResolutionRaised e)
            | Inr records \<Rightarrow>
                Inr (strip (join_paragraphs (if removed \<noteq> {} \<and> kept = [] then [''## Limitations''] else kept)), records)))"

section \<open>The claim nodes of the research graph\<close>

text \<open>
  A claim graph is stored as its JSON form: claims, evidence and links in canonical order.  The
  artifact store gives back what was put, so a node works on these three lists.
\<close>

datatype claim_error = IntegrityError | ClaimRaised judge_error

record graph_parts =
  gp_claims :: "claim list"
  gp_evidence :: "evidence_span list"
  gp_links :: "claim_evidence_link list"

definition corrupt :: "'e + 'a \<Rightarrow> claim_error + 'a" where
  "corrupt m = (case m of Inl _ \<Rightarrow> Inl IntegrityError | Inr x \<Rightarrow> Inr x)"

definition parts_of :: "claim_evidence_graph \<Rightarrow> graph_parts" where
  "parts_of g =
     \<lparr>gp_claims = map (\<lambda>k. the (dget (cg_claims g) k)) (sort (dkeys (cg_claims g))),
      gp_evidence = map (\<lambda>k. the (dget (cg_evidence g) k)) (sort (dkeys (cg_evidence g))),
      gp_links = sort_key (\<lambda>l. [lk_claim_id l, lk_evidence_id l, relation_name (lk_relation l)]) (cg_links g)\<rparr>"

text \<open>\<^verbatim>\<open>_graph_payload\<close> and \<^verbatim>\<open>_load_graph_from_value\<close>\<close>

definition graph_payload :: "claim_evidence_graph \<Rightarrow> claim_error + graph_parts" where
  "graph_payload g = (if gr_valid (graph_validate g) then Inr (parts_of g) else Inl IntegrityError)"

definition load_graph :: "graph_parts \<Rightarrow> claim_error + claim_evidence_graph" where
  "load_graph p =
     rbind (corrupt (foldM (\<lambda>g c. add_claim c g) empty_graph (gp_claims p))) (\<lambda>g.
     rbind (corrupt (foldM (\<lambda>g e. add_evidence e g) g (gp_evidence p))) (\<lambda>g.
     rbind (corrupt (foldM (\<lambda>g l. add_link l g) g (gp_links p))) (\<lambda>g.
       if gr_valid (graph_validate g) then Inr g else Inl IntegrityError)))"

definition dedupe_claims :: "claim list \<Rightarrow> claim_error + claim list" where
  "dedupe_claims claims =
     rbind (foldM (\<lambda>d c. case dget d (cm_claim_id c) of
                Some previous \<Rightarrow> if previous \<noteq> c then Inl IntegrityError else Inr (dput (cm_claim_id c) c d)
              | None \<Rightarrow> Inr (dput (cm_claim_id c) c d)) [] claims)
       (\<lambda>d. Inr (map (\<lambda>k. the (dget d k)) (sort (dkeys d))))"

definition new_graph :: "claim list \<Rightarrow> evidence_span list \<Rightarrow> claim_error + claim_evidence_graph" where
  "new_graph claims evidence =
     rbind (dedupe_claims claims) (\<lambda>cs.
     rbind (case foldM (\<lambda>g c. add_claim c g) empty_graph cs of Inl e \<Rightarrow> Inl (ClaimRaised (CallFailed e)) | Inr g \<Rightarrow> Inr g) (\<lambda>g.
       foldM (\<lambda>g e. if es_evidence_id e \<in> set (dkeys (cg_evidence g)) then Inr g
                    else (case add_evidence e g of Inl x \<Rightarrow> Inl (ClaimRaised (CallFailed x)) | Inr g' \<Rightarrow> Inr g'))
         g (sort_key es_evidence_id evidence)))"

text \<open>\<^verbatim>\<open>extract_claims\<close> without a model: the graph it stores and the ids it reports.\<close>

definition extract_node :: "(string \<Rightarrow> string) \<Rightarrow> cancellation_token \<Rightarrow> string \<Rightarrow> evidence_span list \<Rightarrow>
    claim_error + graph_parts \<times> string list" where
  "extract_node sha token draft evidence =
     (case fst (extract_claims sha 0 None None token draft (set (map es_evidence_id evidence))) of
        Inl e \<Rightarrow> Inl (ClaimRaised e)
      | Inr claims \<Rightarrow>
          rbind (new_graph claims evidence) (\<lambda>g.
          rbind (graph_payload g) (\<lambda>parts.
          rbind (dedupe_claims claims) (\<lambda>cs. Inr (parts, map cm_claim_id cs)))))"

record verified_claims =
  vc_graph :: graph_parts
  vc_claim_ids :: "string list"
  vc_unsupported :: "string list"
  vc_finalize :: bool

text \<open>\<^verbatim>\<open>verify_claims\<close>: the links of the judge, then a new graph with the status of every claim.\<close>

definition judge_all :: "(string \<Rightarrow> string) \<Rightarrow> cancellation_token \<Rightarrow> string \<Rightarrow> string \<Rightarrow> evidence_span list \<Rightarrow>
    claim_evidence_graph \<Rightarrow> claim list \<Rightarrow> claim_error + claim_evidence_graph" where
  "judge_all cfold token model prompt evidence g claims =
     foldM (\<lambda>g c.
       case fst (judge cfold (\<lambda>s. s) 0 None None token model prompt c evidence) of
         Inl e \<Rightarrow> Inl (ClaimRaised e)
       | Inr links \<Rightarrow>
           (case foldM (\<lambda>g l. add_link l g) g links of Inl e \<Rightarrow> Inl (ClaimRaised (CallFailed e)) | Inr g' \<Rightarrow> Inr g'))
     g claims"

definition supported_ids :: "claim_evidence_graph \<Rightarrow> claim list \<Rightarrow> string set" where
  "supported_ids g claims =
     set (map lk_claim_id (filter (\<lambda>l. lk_relation l = Support) (concat (map (\<lambda>c. links_for_claim g (cm_claim_id c)) claims))))"

definition verify_node :: "(string \<Rightarrow> string) \<Rightarrow> cancellation_token \<Rightarrow> string \<Rightarrow> string \<Rightarrow> graph_parts \<Rightarrow> evidence_span list \<Rightarrow>
    claim_error + verified_claims" where
  "verify_node cfold token model prompt stored evidence =
     rbind (load_graph stored) (\<lambda>g0.
     rbind (graph_payload g0) (\<lambda>parts.
     rbind (load_graph parts) (\<lambda>g1.
     let claims = gp_claims (parts_of g1) in
     rbind (judge_all cfold token model prompt evidence g1 claims) (\<lambda>g.
     let linked = supported_ids g claims in
     rbind (new_graph (map (\<lambda>c. c\<lparr>cm_verification_status :=
         (if cm_claim_id c \<in> linked then Supported else Unsupported)\<rparr>) claims) evidence) (\<lambda>updated.
     rbind (case foldM (\<lambda>u l. add_link l u) updated (gp_links (parts_of g)) of
              Inl e \<Rightarrow> Inl (ClaimRaised (CallFailed e)) | Inr u \<Rightarrow> Inr u) (\<lambda>final.
     rbind (graph_payload final) (\<lambda>payload.
     let unsupported = sort (map cm_claim_id (filter (\<lambda>c. cm_claim_id c \<notin> linked) claims)) in
     Inr \<lparr>vc_graph = payload, vc_claim_ids = map cm_claim_id claims, vc_unsupported = unsupported,
          vc_finalize = (unsupported = [])\<rparr>)))))))"

text \<open>\<^verbatim>\<open>resolve_unsupported_claims\<close>: the new draft and the records.\<close>

definition resolve_node :: "(string \<Rightarrow> string) \<Rightarrow> graph_parts \<Rightarrow> string list \<Rightarrow> string \<Rightarrow>
    (claim_error + resolution_error) + string \<times> claim_resolution list" where
  "resolve_node cfold stored unsupported_ids draft =
     (case load_graph stored of
        Inl e \<Rightarrow> Inl (Inl e)
      | Inr g \<Rightarrow>
          let claims = gp_claims (parts_of g) in
          if \<not> set unsupported_ids \<subseteq> set (map cm_claim_id claims) then Inl (Inl IntegrityError)
          else (case remove_unsupported_claims cfold draft (filter (\<lambda>c. cm_claim_id c \<in> set unsupported_ids) claims) of
                  Inl e \<Rightarrow> Inl (Inr e) | Inr r \<Rightarrow> Inr r))"

end
