(* ===== verification/Claim_Correct.thy ===== *)
theory Claim_Correct
  imports Claim_Resolution
begin

text \<open>
  What the claim nodes do: verification finds exactly the claims without supporting evidence, and
  resolution drops exactly the sentences that state one of them.
\<close>

section \<open>Graphs built from lists\<close>

definition table :: "claim list \<Rightarrow> evidence_span list \<Rightarrow> claim_evidence_link list \<Rightarrow> claim_evidence_graph" where
  "table cs es ls = \<lparr>cg_claims = map (\<lambda>c. (cm_claim_id c, c)) cs, cg_evidence = map (\<lambda>e. (es_evidence_id e, e)) es, cg_links = ls\<rparr>"

definition known_links :: "claim list \<Rightarrow> evidence_span list \<Rightarrow> claim_evidence_link list \<Rightarrow> bool" where
  "known_links cs es ls \<longleftrightarrow>
     distinct ls \<and> (\<forall>l\<in>set ls. lk_claim_id l \<in> cm_claim_id ` set cs \<and> lk_evidence_id l \<in> es_evidence_id ` set es)"

definition distinct_ids :: "claim list \<Rightarrow> evidence_span list \<Rightarrow> bool" where
  "distinct_ids cs es \<longleftrightarrow> distinct (map cm_claim_id cs) \<and> distinct (map es_evidence_id es)"

lemma table_keys [simp]:
  "dkeys (cg_claims (table cs es ls)) = map cm_claim_id cs" "dkeys (cg_evidence (table cs es ls)) = map es_evidence_id es"
  "cg_links (table cs es ls) = ls"
  "fst ` set (cg_claims (table cs es ls)) = cm_claim_id ` set cs" "fst ` set (cg_evidence (table cs es ls)) = es_evidence_id ` set es"
  by (simp_all add: table_def comp_def image_image)

lemma dput_table: "k \<notin> set (dkeys d) \<Longrightarrow> dput k v d = d @ [(k, v)]"
  by (simp add: dput_new map_of_eq_None_iff)

lemma add_claims_table:
  "distinct (map cm_claim_id (cs @ cs')) \<Longrightarrow> foldM (\<lambda>g c. add_claim c g) (table cs es ls) cs' = Inr (table (cs @ cs') es ls)"
proof (induction cs' arbitrary: cs)
  case (Cons c cs')
  then have "add_claim c (table cs es ls) = Inr (table (cs @ [c]) es ls)"
    by (auto simp: add_claim_def table_def dput_table comp_def)
  with Cons.IH [of "cs @ [c]"] Cons.prems show ?case by simp
qed simp

lemma add_evidence_table:
  "es_evidence_id e \<notin> es_evidence_id ` set es \<Longrightarrow> add_evidence e (table cs es ls) = Inr (table cs (es @ [e]) ls)"
  by (auto simp: add_evidence_def table_def dput_table comp_def image_iff)

lemma add_all_evidence_table:
  "distinct (map es_evidence_id (es @ es')) \<Longrightarrow>
     foldM (\<lambda>g e. add_evidence e g) (table cs es ls) es' = Inr (table cs (es @ es') ls)"
proof (induction es' arbitrary: es)
  case (Cons e es')
  with Cons.IH [of "es @ [e]"] show ?case by (simp add: add_evidence_table)
qed simp

lemma add_links_table:
  "known_links cs es (ls @ ls') \<Longrightarrow> foldM (\<lambda>g l. add_link l g) (table cs es ls) ls' = Inr (table cs es (ls @ ls'))"
proof (induction ls' arbitrary: ls)
  case (Cons l ls')
  then have "add_link l (table cs es ls) = Inr (table cs es (ls @ [l]))"
    by (auto simp: add_link_def known_links_def table_def comp_def image_iff)
  with Cons.IH [of "ls @ [l]"] Cons.prems show ?case by simp
qed simp

lemma sort_map_key: "sort (map f xs) = map f (sort_key f xs)"
  by (rule properties_for_sort) simp_all

lemma look_up_all:
  assumes "distinct (map f xs)" "set ys \<subseteq> set xs"
  shows "map (\<lambda>k. the (dget (map (\<lambda>x. (f x, x)) xs) k)) (map f ys) = ys"
proof -
  have "the (dget (map (\<lambda>x. (f x, x)) xs) (f y)) = y" if "y \<in> set ys" for y
    using assms that by (subst map_of_is_SomeI [of _ _ y]) (auto simp: comp_def)
  then show ?thesis by (auto simp: map_idI)
qed

lemma parts_of_table:
  assumes "distinct_ids cs es"
  shows "parts_of (table cs es ls) = \<lparr>gp_claims = sort_key cm_claim_id cs, gp_evidence = sort_key es_evidence_id es,
    gp_links = sort_key (\<lambda>l. [lk_claim_id l, lk_evidence_id l, relation_name (lk_relation l)]) ls\<rparr>"
  using assms look_up_all [of cm_claim_id cs "sort_key cm_claim_id cs"] look_up_all [of es_evidence_id es "sort_key es_evidence_id es"]
  by (simp add: parts_of_def distinct_ids_def sort_map_key) (simp add: table_def)

lemma valid_table: "known_links cs es ls \<Longrightarrow> gr_valid (graph_validate (table cs es ls))"
  by (simp add: graph_validate_def graph_error_codes_def graph_errors_none known_links_def)

lemma empty_table: "empty_graph = table [] [] []"
  by (simp add: empty_graph_def table_def)

lemma load_table:
  assumes "distinct_ids cs es" "known_links cs es ls"
  shows "load_graph \<lparr>gp_claims = cs, gp_evidence = es, gp_links = ls\<rparr> = Inr (table cs es ls)"
  using assms valid_table [OF assms(2)]
  by (simp add: load_graph_def empty_table add_claims_table add_all_evidence_table add_links_table distinct_ids_def corrupt_def)

text \<open>A stored graph is read back as it was.\<close>

lemma stored_graph_roundtrip:
  assumes "distinct_ids cs es" "known_links cs es ls"
  shows "\<exists>p g. graph_payload (table cs es ls) = Inr p \<and> load_graph p = Inr g \<and> parts_of g = p"
proof -
  let ?key = "\<lambda>l. [lk_claim_id l, lk_evidence_id l, relation_name (lk_relation l)]"
  let ?p = "\<lparr>gp_claims = sort_key cm_claim_id cs, gp_evidence = sort_key es_evidence_id es, gp_links = sort_key ?key ls\<rparr>"
  have d: "distinct_ids (sort_key cm_claim_id cs) (sort_key es_evidence_id es)"
    using assms(1) by (simp add: distinct_ids_def distinct_map)
  have k: "known_links (sort_key cm_claim_id cs) (sort_key es_evidence_id es) (sort_key ?key ls)"
    using assms(2) by (simp add: known_links_def)
  show ?thesis
    using assms valid_table [OF assms(2)] load_table [OF d k] parts_of_table [OF d, of "sort_key ?key ls"]
    by (simp add: graph_payload_def parts_of_table [OF assms(1)] sort_key_id_if_sorted)
qed

section \<open>New graphs\<close>

abbreviation claim_entry :: "claim \<Rightarrow> string \<times> claim" where
  "claim_entry c \<equiv> (cm_claim_id c, c)"

abbreviation dedupe_step :: "(string, claim) dict \<Rightarrow> claim \<Rightarrow> claim_error + (string, claim) dict" where
  "dedupe_step d c \<equiv> (case dget d (cm_claim_id c) of
      Some previous \<Rightarrow> if previous \<noteq> c then Inl IntegrityError else Inr (dput (cm_claim_id c) c d)
    | None \<Rightarrow> Inr (dput (cm_claim_id c) c d))"

lemma dedupe_fold:
  assumes "foldM dedupe_step (map claim_entry cs) xs = Inr d" "distinct (map cm_claim_id cs)"
  shows "\<exists>cs'. d = map claim_entry cs' \<and> distinct (map cm_claim_id cs') \<and> set cs' = set cs \<union> set xs"
  using assms
proof (induction xs arbitrary: cs)
  case (Cons x xs)
  show ?case
  proof (cases "dget (map claim_entry cs) (cm_claim_id x)")
    case None
    then have new: "cm_claim_id x \<notin> set (map cm_claim_id cs)" by (auto simp: map_of_eq_None_iff comp_def image_image)
    with None Cons.prems have "foldM dedupe_step (map claim_entry (cs @ [x])) xs = Inr d"
      by (simp add: dput_new)
    from Cons.IH [OF this] new Cons.prems(2) show ?thesis by auto
  next
    case (Some y)
    with Cons.prems(1) have y: "y = x" by (auto split: if_splits)
    with Some have "(cm_claim_id x, x) \<in> set (map claim_entry cs)" by (auto dest: map_of_SomeD)
    then have x: "x \<in> set cs" by auto
    have "dput (cm_claim_id x) x (map claim_entry cs) = map claim_entry cs"
      using x Cons.prems(2)
    proof (induction cs)
      case (Cons c cs)
      then show ?case by (cases "cm_claim_id c = cm_claim_id x") auto
    qed simp
    with Some y Cons.prems have "foldM dedupe_step (map claim_entry cs) xs = Inr d" by simp
    from Cons.IH [OF this Cons.prems(2)] x show ?thesis by auto
  qed
qed auto

lemma dedupe_result:
  assumes "dedupe_claims claims = Inr cs"
  shows "distinct (map cm_claim_id cs) \<and> sorted (map cm_claim_id cs) \<and> set cs = set claims"
proof -
  from assms obtain d where d: "foldM dedupe_step [] claims = Inr d" "cs = map (\<lambda>k. the (dget d k)) (sort (dkeys d))"
    by (auto simp: dedupe_claims_def rbind_eq_Inr)
  from dedupe_fold [of "[]" claims d] d(1) obtain cs' where
    cs': "d = map claim_entry cs'" "distinct (map cm_claim_id cs')" "set cs' = set claims" by auto
  have "map (\<lambda>k. the (dget (map claim_entry cs') k)) (sort (map cm_claim_id cs')) = sort_key cm_claim_id cs'"
    unfolding sort_map_key using cs'(2) by (rule look_up_all) simp
  then have "cs = sort_key cm_claim_id cs'" using d(2) by (simp add: cs'(1) comp_def)
  with cs' show ?thesis by (simp add: distinct_map)
qed

lemma dedupe_distinct:
  assumes "distinct (map cm_claim_id cs)"
  shows "dedupe_claims cs = Inr (sort_key cm_claim_id cs)"
proof -
  have step: "foldM dedupe_step (map claim_entry as) bs = Inr (map claim_entry (as @ bs))" if "distinct (map cm_claim_id (as @ bs))" for as bs
    using that
  proof (induction bs arbitrary: as)
    case (Cons b bs)
    then have "dget (map claim_entry as) (cm_claim_id b) = None" by (auto simp: map_of_eq_None_iff comp_def image_image)
    with Cons.IH [of "as @ [b]"] Cons.prems show ?case by (simp add: dput_new)
  qed simp
  have "foldM dedupe_step [] cs = Inr (map claim_entry cs)" using step [of "[]" cs] assms by simp
  moreover have "map (\<lambda>k. the (dget (map claim_entry cs) k)) (sort (map cm_claim_id cs)) = sort_key cm_claim_id cs"
    unfolding sort_map_key using assms by (rule look_up_all) simp
  ultimately show ?thesis using assms by (simp add: dedupe_claims_def comp_def)
qed

lemma new_graph_table:
  assumes "dedupe_claims claims = Inr cs" "distinct (map es_evidence_id evidence)"
  shows "new_graph claims evidence = Inr (table cs (sort_key es_evidence_id evidence) [])"
proof -
  have step: "foldM (\<lambda>g e. if es_evidence_id e \<in> set (dkeys (cg_evidence g)) then Inr g
        else (case add_evidence e g of Inl x \<Rightarrow> Inl (ClaimRaised (CallFailed x)) | Inr g' \<Rightarrow> Inr g')) (table cs es []) es' =
      Inr (table cs (es @ es') [])" if "distinct (map es_evidence_id (es @ es'))" for es es'
    using that
  proof (induction es' arbitrary: es)
    case (Cons e es')
    with Cons.IH [of "es @ [e]"] show ?case by (simp add: add_evidence_table)
  qed simp
  have "foldM (\<lambda>g c. add_claim c g) empty_graph cs = Inr (table cs [] [])"
    using add_claims_table [of "[]" cs "[]" "[]"] dedupe_result [OF assms(1)] by (simp add: empty_table)
  moreover have "distinct (map es_evidence_id (sort_key es_evidence_id evidence))"
    using assms(2) by (simp add: distinct_map)
  ultimately show ?thesis using assms(1) step [of "[]" "sort_key es_evidence_id evidence"] by (simp add: new_graph_def)
qed

section \<open>Judging all claims\<close>

definition all_links :: "(string \<Rightarrow> string) \<Rightarrow> string \<Rightarrow> string \<Rightarrow> claim list \<Rightarrow> evidence_span list \<Rightarrow> claim_evidence_link list" where
  "all_links cfold model prompt cs evidence = concat (map (\<lambda>c. map (judge_link cfold model prompt c) evidence) cs)"

lemma judge_link_ids [simp]:
  "lk_claim_id (judge_link cfold model prompt c e) = cm_claim_id c"
  "lk_evidence_id (judge_link cfold model prompt c e) = es_evidence_id e"
  by (simp_all add: judge_link_def Let_def)

lemma judge_links:
  "raise_if_cancelled token = Inr () \<Longrightarrow>
     fst (judge cfold sha oid None None token model prompt c evidence) = Inr (map (judge_link cfold model prompt c) evidence)"
proof -
  have "mapM (\<lambda>item. mk_link (judge_link cfold model prompt c item)) evidence = Inr (map (judge_link cfold model prompt c) evidence)"
    by (induction evidence) (simp_all add: mk_link_def judge_link_valid)
  then show "raise_if_cancelled token = Inr () \<Longrightarrow> ?thesis" by (simp add: judge_def)
qed

lemma all_links_known:
  assumes "distinct_ids cs evidence"
  shows "known_links cs evidence (all_links cfold model prompt cs evidence)"
proof -
  have inj: "distinct (map (judge_link cfold model prompt c) evidence)" for c
  proof -
    have "distinct (map lk_evidence_id (map (judge_link cfold model prompt c) evidence))"
      using assms by (simp add: distinct_ids_def comp_def)
    then show ?thesis by (simp only: distinct_map)
  qed
  have "distinct (all_links cfold model prompt cs evidence)"
    using assms
  proof (induction cs)
    case (Cons c cs)
    have "cm_claim_id c \<notin> lk_claim_id ` set (all_links cfold model prompt cs evidence)"
      using Cons.prems by (auto simp: all_links_def distinct_ids_def image_iff)
    then have "set (map (judge_link cfold model prompt c) evidence) \<inter> set (all_links cfold model prompt cs evidence) = {}"
      by (force simp: image_iff)
    moreover have "distinct_ids cs evidence" using Cons.prems by (simp add: distinct_ids_def)
    ultimately show ?case using Cons.IH inj [of c]
      by (simp only: all_links_def list.map concat.simps distinct_append simp_thms)
  qed (simp add: all_links_def)
  then show ?thesis by (auto simp: known_links_def all_links_def)
qed

lemma judge_all_table:
  assumes "raise_if_cancelled token = Inr ()" "known_links cs es (ls @ all_links cfold model prompt cs' evidence)"
  shows "judge_all cfold token model prompt evidence (table cs es ls) cs' =
    Inr (table cs es (ls @ all_links cfold model prompt cs' evidence))"
  using assms(2)
proof (induction cs' arbitrary: ls)
  case Nil
  then show ?case by (simp add: judge_all_def all_links_def)
next
  case (Cons c cs')
  let ?l = "map (judge_link cfold model prompt c) evidence"
  have k: "known_links cs es ((ls @ ?l) @ all_links cfold model prompt cs' evidence)"
    using Cons.prems by (simp add: all_links_def)
  then have "known_links cs es (ls @ ?l)" by (auto simp: known_links_def)
  then have "foldM (\<lambda>g l. add_link l g) (table cs es ls) ?l = Inr (table cs es (ls @ ?l))" by (rule add_links_table)
  with Cons.IH [OF k] show ?case by (simp add: judge_all_def judge_links [OF assms(1)] all_links_def)
qed

section \<open>Verification\<close>

text \<open>A piece of evidence supports a claim when at least a fifth of the claim's terms, and one, occur in it.\<close>

definition supported_by :: "(string \<Rightarrow> string) \<Rightarrow> evidence_span list \<Rightarrow> claim \<Rightarrow> bool" where
  "supported_by cfold evidence c \<longleftrightarrow>
     (let terms = meaningful_terms cfold (cm_text c) in
      terms \<noteq> {} \<and> (\<exists>e\<in>set evidence. card terms \<le> 5 * card (terms \<inter> meaningful_terms cfold (es_excerpt e))))"

lemma supported_by_link:
  "supported_by cfold evidence c \<longleftrightarrow> (\<exists>e\<in>set evidence. lk_relation (judge_link cfold model prompt c e) = Support)"
  by (auto simp: supported_by_def judge_link_support Let_def)

lemma supported_ids_table:
  assumes "distinct (map cm_claim_id cs)"
  shows "supported_ids (table cs es (all_links cfold model prompt cs evidence)) cs =
    cm_claim_id ` {c \<in> set cs. supported_by cfold evidence c}"
proof -
  have "set (links_for_claim (table cs es ls) i) = {l \<in> set ls. lk_claim_id l = i}" for ls i by (simp add: links_for_claim_def)
  then show ?thesis
    by (auto simp: supported_ids_def all_links_def supported_by_link [of cfold _ _ model prompt] image_iff) (metis judge_link_ids(1))+
qed

lemma sort_sorted: "sorted (map f xs) \<Longrightarrow> sort_key f xs = xs"
  by (rule sort_key_id_if_sorted)

lemma verify_table:
  assumes "raise_if_cancelled token = Inr ()" "distinct_ids cs es" "sorted (map cm_claim_id cs)"
    and "distinct (map es_evidence_id evidence)" "es_evidence_id ` set es = es_evidence_id ` set evidence"
  shows "\<exists>r. verify_node cfold token model prompt \<lparr>gp_claims = cs, gp_evidence = es, gp_links = []\<rparr> evidence = Inr r \<and>
    vc_claim_ids r = map cm_claim_id cs \<and>
    vc_unsupported r = map cm_claim_id (filter (\<lambda>c. \<not> supported_by cfold evidence c) cs) \<and>
    vc_finalize r = (\<forall>c\<in>set cs. supported_by cfold evidence c) \<and>
    gp_claims (vc_graph r) = map (\<lambda>c. c\<lparr>cm_verification_status :=
      (if supported_by cfold evidence c then Supported else Unsupported)\<rparr>) cs \<and>
    set (gp_links (vc_graph r)) = set (all_links cfold model prompt cs evidence)"
proof -
  let ?key = "\<lambda>l. [lk_claim_id l, lk_evidence_id l, relation_name (lk_relation l)]"
  let ?links = "all_links cfold model prompt cs evidence"
  let ?ev = "sort_key es_evidence_id es"
  let ?mark = "\<lambda>c. c\<lparr>cm_verification_status := (if supported_by cfold evidence c then Supported else Unsupported)\<rparr>"
  have ids: "distinct_ids cs evidence" "distinct_ids cs ?ev" using assms(2,4) by (simp_all add: distinct_ids_def distinct_map)
  have srt: "sort_key cm_claim_id cs = cs" using assms(3) by (rule sort_sorted)
  have none: "known_links cs es []" "known_links cs ?ev []" by (simp_all add: known_links_def)
  have links: "known_links cs ?ev ?links" using all_links_known [OF ids(1)] assms(5) by (simp add: known_links_def)
  have load: "load_graph \<lparr>gp_claims = cs, gp_evidence = es, gp_links = []\<rparr> = Inr (table cs es [])"
    "graph_payload (table cs es []) = Inr \<lparr>gp_claims = cs, gp_evidence = ?ev, gp_links = []\<rparr>"
    "load_graph \<lparr>gp_claims = cs, gp_evidence = ?ev, gp_links = []\<rparr> = Inr (table cs ?ev [])"
    using load_table [OF assms(2) none(1)] load_table [OF ids(2) none(2)] valid_table [OF none(1)] parts_of_table [OF assms(2)]
    by (simp_all add: graph_payload_def srt)
  have parts: "gp_claims (parts_of (table cs ?ev ls)) = cs" "gp_links (parts_of (table cs ?ev ls)) = sort_key ?key ls" for ls
    using parts_of_table [OF ids(2)] by (simp_all add: srt)
  have judged: "judge_all cfold token model prompt evidence (table cs ?ev []) cs = Inr (table cs ?ev ?links)"
    using judge_all_table [OF assms(1), of cs ?ev "[]"] links by simp
  have sup: "supported_ids (table cs ?ev ?links) cs = cm_claim_id ` {c \<in> set cs. supported_by cfold evidence c}"
    using ids(1) by (intro supported_ids_table) (simp add: distinct_ids_def)
  have sup_iff: "(cm_claim_id c \<in> supported_ids (table cs ?ev ?links) cs) = supported_by cfold evidence c" if "c \<in> set cs" for c
    unfolding sup using ids(1) that by (auto simp: distinct_ids_def distinct_map dest: inj_onD)
  have marked: "map (\<lambda>c. c\<lparr>cm_verification_status := (if cm_claim_id c \<in> supported_ids (table cs ?ev ?links) cs then Supported else Unsupported)\<rparr>) cs
      = map ?mark cs"
    using sup_iff by (intro map_cong) auto
  have mid: "map cm_claim_id (map ?mark cs) = map cm_claim_id cs" by simp
  have "sorted (map cm_claim_id (map ?mark cs))" unfolding mid by (rule assms(3))
  then have sm: "sort_key cm_claim_id (map ?mark cs) = map ?mark cs" by (rule sort_sorted)
  have new: "new_graph (map ?mark cs) evidence = Inr (table (map ?mark cs) (sort_key es_evidence_id evidence) [])"
  proof -
    have "dedupe_claims (map ?mark cs) = Inr (sort_key cm_claim_id (map ?mark cs))"
      using ids(1) by (intro dedupe_distinct) (simp add: distinct_ids_def comp_def)
    moreover note sm
    ultimately show ?thesis using new_graph_table assms(4) by simp
  qed
  have kl: "known_links (map ?mark cs) (sort_key es_evidence_id evidence) (sort_key ?key ?links)"
    using all_links_known [OF ids(1), of cfold model prompt] by (simp add: known_links_def image_image)
  have final: "foldM (\<lambda>u l. add_link l u) (table (map ?mark cs) (sort_key es_evidence_id evidence) []) (sort_key ?key ?links) =
      Inr (table (map ?mark cs) (sort_key es_evidence_id evidence) (sort_key ?key ?links))"
    using add_links_table [of "map ?mark cs" "sort_key es_evidence_id evidence" "[]"] kl by simp
  have idm: "distinct_ids (map ?mark cs) (sort_key es_evidence_id evidence)"
    using ids(1) by (simp add: distinct_ids_def comp_def distinct_map)
  have pay: "graph_payload (table (map ?mark cs) (sort_key es_evidence_id evidence) (sort_key ?key ?links)) =
      Inr \<lparr>gp_claims = map ?mark cs, gp_evidence = sort_key es_evidence_id (sort_key es_evidence_id evidence),
        gp_links = sort_key ?key (sort_key ?key ?links)\<rparr>"
    using valid_table [OF kl] parts_of_table [OF idm] sm by (simp add: graph_payload_def)
  have uns: "filter (\<lambda>c. cm_claim_id c \<notin> supported_ids (table cs ?ev ?links) cs) cs = filter (\<lambda>c. \<not> supported_by cfold evidence c) cs"
    using sup_iff by (intro filter_cong) auto
  have "sort (map cm_claim_id (filter (\<lambda>c. \<not> supported_by cfold evidence c) cs)) =
      map cm_claim_id (filter (\<lambda>c. \<not> supported_by cfold evidence c) cs)"
    using assms(3) by (intro sort_sorted [of "\<lambda>x. x"]) (simp add: sorted_filter)
  then show ?thesis
    by (auto simp: verify_node_def load parts judged Let_def marked new final pay uns filter_empty_conv)
qed

text \<open>
  C30. Extraction and verification together.  When the deterministic extractor has stored the claims
  of a draft, and the evidence has distinct ids, verification of an active run never fails: it
  reports the extracted claims in order, exactly those without one supporting piece of evidence as
  unsupported, finalizes exactly when there is none, and stores a graph in which every claim is
  marked accordingly and which holds one link for every claim and piece of evidence.
\<close>

theorem verification_exact:
  assumes "extract_node sha token draft evidence = Inr (parts, ids)"
    and "distinct (map es_evidence_id evidence)"
  shows "\<exists>r. verify_node cfold token model prompt parts evidence = Inr r \<and>
    vc_claim_ids r = ids \<and>
    vc_unsupported r = map cm_claim_id (filter (\<lambda>c. \<not> supported_by cfold evidence c) (gp_claims parts)) \<and>
    vc_finalize r = (\<forall>c\<in>set (gp_claims parts). supported_by cfold evidence c) \<and>
    gp_claims (vc_graph r) = map (\<lambda>c. c\<lparr>cm_verification_status :=
      (if supported_by cfold evidence c then Supported else Unsupported)\<rparr>) (gp_claims parts) \<and>
    set (gp_links (vc_graph r)) = set (all_links cfold model prompt (gp_claims parts) evidence)"
proof -
  let ?ev = "sort_key es_evidence_id evidence"
  from assms(1) obtain claims g cs where
    e: "fst (extract_claims sha 0 None None token draft (set (map es_evidence_id evidence))) = Inr claims"
      "new_graph claims evidence = Inr g" "graph_payload g = Inr parts" "dedupe_claims claims = Inr cs" "ids = map cm_claim_id cs"
    by (auto simp: extract_node_def rbind_eq_Inr split: sum.splits)
  from e(1) have active: "raise_if_cancelled token = Inr ()"
    by (auto simp: extract_claims_def split: sum.splits)
  note cs = dedupe_result [OF e(4)]
  have d: "distinct_ids cs ?ev" using cs [THEN conjunct1] assms(2) by (simp add: distinct_ids_def) (simp add: distinct_map)
  have "g = table cs ?ev []" using e(2) new_graph_table [OF e(4) assms(2)] by simp
  with e(3) have parts: "parts = \<lparr>gp_claims = cs, gp_evidence = sort_key es_evidence_id ?ev, gp_links = []\<rparr>"
    using parts_of_table [OF d, of "[]"] sort_sorted [of cm_claim_id cs] cs by (auto simp: graph_payload_def split: if_splits)
  have "distinct_ids cs (sort_key es_evidence_id ?ev)" using d by (auto simp: distinct_ids_def distinct_map)
  moreover have "es_evidence_id ` set (sort_key es_evidence_id ?ev) = es_evidence_id ` set evidence" by simp
  ultimately show ?thesis
    using verify_table [OF active _ _ assms(2), of cs "sort_key es_evidence_id ?ev" cfold model prompt] cs by (simp add: parts e(5))
qed

definition city_evidence :: evidence_span where
  "city_evidence = \<lparr>es_evidence_id = ''e'', es_source_id = ''s'', es_locator = HtmlLocator ''p'' 0 6,
     es_excerpt = ''Oslo is cold'', es_excerpt_hash = ''h'', es_language = ''en'', es_information_need_ids = []\<rparr>"

definition city_claim :: "string \<Rightarrow> claim" where
  "city_claim text = \<lparr>cm_claim_id = ''claim-'' @ text, cm_text = text, cm_claim_type = Fact, cm_entities = [],
     cm_numbers = [], cm_qualifiers = [], cm_report_section = ''findings'', cm_verification_status = Uncertain\<rparr>"

lemma city_extracted:
  "extract_node id new_token ''Rome is old [e]. Oslo is cold [e].'' [city_evidence] =
     Inr (\<lparr>gp_claims = [city_claim ''Oslo is cold.'', city_claim ''Rome is old.''], gp_evidence = [city_evidence], gp_links = []\<rparr>,
       [''claim-Oslo is cold.'', ''claim-Rome is old.''])"
  by code_simp

lemma city_support:
  "supported_by id [city_evidence] (city_claim ''Oslo is cold.'')" "\<not> supported_by id [city_evidence] (city_claim ''Rome is old.'')"
  by code_simp+

theorem verification_exact_witness:
  "\<exists>r. verify_node id new_token ''m'' ''p''
       \<lparr>gp_claims = [city_claim ''Oslo is cold.'', city_claim ''Rome is old.''], gp_evidence = [city_evidence], gp_links = []\<rparr>
       [city_evidence] = Inr r \<and> vc_unsupported r = [''claim-Rome is old.''] \<and> \<not> vc_finalize r"
  using verification_exact [OF city_extracted, of id "''m''" "''p''"] city_support by (auto simp: city_claim_def)

end
