(* ===== verification/Claim_Removal.thy ===== *)
theory Claim_Removal
  imports Claim_Resolution
begin

text \<open>
  Resolution drops exactly the sentences that state an unsupported claim and keeps every other
  sentence of the draft, with its citations.
\<close>

section \<open>Resolution\<close>

lemma strip_inside:
  assumes "strip s = s" "s \<noteq> []"
  shows "sublist s (strip (a @ s @ b))"
proof -
  obtain x xs where s: "s = x # xs" using assms(2) by (cases s) auto
  have len: "length (dropWhile is_ws (rev t)) \<le> length t" for t by (metis length_dropWhile_le length_rev)
  have x: "\<not> is_ws x"
  proof
    assume "is_ws x"
    then have "length (strip s) \<le> length xs"
      using len [of "dropWhile is_ws xs"] length_dropWhile_le [of is_ws xs] by (simp add: strip_def s)
    with assms(1) show False by (simp add: s)
  qed
  have "dropWhile is_ws s = s" using x by (simp add: s)
  with assms(1) have r: "dropWhile is_ws (rev s) = rev s" by (metis rev_rev_ident strip_def)
  obtain y ys where rs: "rev s = y # ys" using assms(2) by (cases "rev s") auto
  with r have y: "\<not> is_ws y" by (metis dropWhile_eq_Cons_conv)
  have "dropWhile is_ws (a @ s @ b) = dropWhile is_ws a @ s @ b"
    using x by (simp add: s dropWhile_append3)
  moreover have "dropWhile is_ws (rev (dropWhile is_ws a @ s @ b)) = dropWhile is_ws (rev b) @ rev s @ rev (dropWhile is_ws a)"
    using y by (simp add: rs dropWhile_append3)
  ultimately have "strip (a @ s @ b) = dropWhile is_ws a @ s @ rev (dropWhile is_ws (rev b))"
    by (simp add: strip_def)
  then show ?thesis by (auto simp: sublist_def)
qed

definition solid :: "string \<Rightarrow> bool" where
  "solid s \<longleftrightarrow> s \<noteq> [] \<and> strip s = s"

lemma strip_contains: "solid s \<Longrightarrow> sublist s t \<Longrightarrow> sublist s (strip t)"
  by (auto simp: solid_def sublist_def dest: strip_inside)

lemma strip_ends: "strip s \<noteq> [] \<Longrightarrow> \<not> is_ws (hd (strip s)) \<and> \<not> is_ws (last (strip s))"
proof -
  let ?d = "dropWhile is_ws s" and ?e = "dropWhile is_ws (rev (dropWhile is_ws s))"
  assume "strip s \<noteq> []"
  then have e: "?e \<noteq> []" by (simp add: strip_def)
  then have d: "?d \<noteq> []" by (metis dropWhile.simps(1) rev.simps(1))
  have "last ?e = last (rev ?d)" using e by (metis last_appendR takeWhile_dropWhile_id)
  then have "hd (strip s) = hd ?d" by (simp add: strip_def hd_rev last_rev)
  moreover have "last (strip s) = hd ?e" by (simp add: strip_def last_rev)
  ultimately show ?thesis using hd_dropWhile [OF d] hd_dropWhile [OF e] by simp
qed

lemma strip_strip: "strip (strip s) = strip s"
proof -
  have hd: "dropWhile is_ws t = t" if "t \<noteq> [] \<Longrightarrow> \<not> is_ws (hd t)" for t using that by (cases t) auto
  let ?t = "strip s"
  have "dropWhile is_ws ?t = ?t" "dropWhile is_ws (rev ?t) = rev ?t"
    using strip_ends [of s] by (auto intro!: hd simp: hd_rev)
  then show ?thesis by (simp only: strip_def [of ?t] rev_rev_ident)
qed

lemma split_sentences_solid: "s \<in> set (split_sentences p) \<Longrightarrow> solid s"
  by (auto simp: split_sentences_def solid_def strip_strip)

lemma join_words_last: "suffix x (join_words (ws @ [x]))"
proof (induction ws)
  case (Cons w ws)
  then show ?case by (cases "ws @ [x]") (auto intro: suffix_order.trans suffix_ConsI simp: suffix_def)
qed simp

text \<open>A sentence states a claim when the prepared text of the claim occurs in its own.\<close>

definition states :: "(string \<Rightarrow> string) \<Rightarrow> string \<Rightarrow> claim \<Rightarrow> bool" where
  "states cfold s c \<longleftrightarrow> claim_match_text cfold (cm_text c) \<noteq> [] \<and>
     sublist (claim_match_text cfold (cm_text c)) (claim_match_text cfold (prose_of s))"

definition stated_in :: "(string \<Rightarrow> string) \<Rightarrow> claim list \<Rightarrow> string list \<Rightarrow> claim set" where
  "stated_in cfold cs sentences = {c \<in> set cs. \<exists>s\<in>set sentences. prose_of s \<noteq> [] \<and> states cfold s c}"

definition unaffected :: "(string \<Rightarrow> string) \<Rightarrow> claim list \<Rightarrow> string list \<Rightarrow> string list" where
  "unaffected cfold cs sentences = filter (\<lambda>s. prose_of s \<noteq> [] \<and> (\<forall>c\<in>set cs. \<not> states cfold s c)) sentences"

abbreviation claim_table :: "(string \<Rightarrow> string) \<Rightarrow> claim list \<Rightarrow> (string, string) dict" where
  "claim_table cfold cs \<equiv> map (\<lambda>c. (cm_claim_id c, claim_match_text cfold (cm_text c))) cs"

lemma matched_ids_table: "matched_ids cfold (claim_table cfold cs) (prose_of s) = cm_claim_id ` {c \<in> set cs. states cfold s c}"
  by (auto simp: matched_ids_def states_def image_iff) blast

lemma matched_none: "matched_ids cfold (claim_table cfold cs) (prose_of s) = {} \<longleftrightarrow> (\<forall>c\<in>set cs. \<not> states cfold s c)"
  by (auto simp: matched_ids_table)

definition pass_ok :: "(string \<Rightarrow> string) \<Rightarrow> claim list \<Rightarrow> string list \<Rightarrow> resolution_pass \<Rightarrow> bool" where
  "pass_ok cfold cs seen st \<longleftrightarrow>
     list_all2 sublist (unaffected cfold cs seen) (rp_kept st) \<and> rp_removed st = cm_claim_id ` stated_in cfold cs seen"

lemma list_all2_extend_last:
  assumes "list_all2 sublist us ks" "ks \<noteq> []" "\<forall>u\<in>set us. solid u"
  shows "list_all2 sublist us (butlast ks @ [strip (last ks @ t)])"
proof -
  obtain ks' k where ks: "ks = ks' @ [k]" using assms(2) by (metis append_butlast_last_id)
  with assms(1) obtain us' u where us: "us = us' @ [u]" "list_all2 sublist us' ks'" "sublist u k"
    by (auto simp: list_all2_append2 list_all2_Cons2)
  then have "sublist u (k @ t)" by (meson sublist_append_rightI sublist_order.order_trans)
  with us assms(3) have "sublist u (strip (k @ t))" by (intro strip_contains) auto
  with us(2) show ?thesis by (simp add: us(1) ks list_all2_appendI)
qed

lemma resolve_match:
  "prose_of s \<noteq> [] \<Longrightarrow> matched_ids cfold d (prose_of s) \<noteq> {} \<Longrightarrow>
     rp_kept (resolve_sentence cfold d st s) = rp_kept st \<and>
     rp_removed (resolve_sentence cfold d st s) = rp_removed st \<union> matched_ids cfold d (prose_of s)"
  by (simp add: resolve_sentence_def)

lemma resolve_other:
  "prose_of s \<noteq> [] \<Longrightarrow> matched_ids cfold d (prose_of s) = {} \<Longrightarrow>
     rp_kept (resolve_sentence cfold d st s) = rp_kept st @
       [if rp_pending_citations st \<noteq> [] then strip (join_words (rp_pending_citations st @ [s])) else strip s] \<and>
     rp_removed (resolve_sentence cfold d st s) = rp_removed st"
  by (simp add: resolve_sentence_def)

lemma resolve_citation:
  "prose_of s = [] \<Longrightarrow> rp_removed (resolve_sentence cfold d st s) = rp_removed st \<and>
     (rp_kept (resolve_sentence cfold d st s) = rp_kept st \<or> rp_kept st \<noteq> [] \<and>
      rp_kept (resolve_sentence cfold d st s) = butlast (rp_kept st) @ [strip (last (rp_kept st) @ CHR '' '' # s)])"
  by (simp add: resolve_sentence_def)

lemma resolve_sentence_ok:
  assumes "pass_ok cfold cs seen st" "\<forall>s\<in>set (seen @ [s]). solid s"
  shows "pass_ok cfold cs (seen @ [s]) (resolve_sentence cfold (claim_table cfold cs) st s)"
proof -
  have sol: "\<forall>u\<in>set (unaffected cfold cs seen). solid u" using assms(2) by (simp add: unaffected_def)
  show ?thesis
  proof (cases "prose_of s = []")
    case True
    then have "unaffected cfold cs (seen @ [s]) = unaffected cfold cs seen"
      "stated_in cfold cs (seen @ [s]) = stated_in cfold cs seen"
      by (auto simp: unaffected_def stated_in_def)
    moreover have "list_all2 sublist (unaffected cfold cs seen) (rp_kept (resolve_sentence cfold (claim_table cfold cs) st s))"
      using resolve_citation [OF True, of cfold "claim_table cfold cs" st] assms(1) list_all2_extend_last [OF _ _ sol]
      by (elim conjE disjE) (simp_all add: pass_ok_def)
    ultimately show ?thesis using assms(1) resolve_citation [OF True, of cfold "claim_table cfold cs" st]
      by (simp add: pass_ok_def)
  next
    case prose: False
    show ?thesis
    proof (cases "\<forall>c\<in>set cs. \<not> states cfold s c")
      case True
      have "suffix s (join_words (rp_pending_citations st @ [s]))" by (rule join_words_last)
      then have "sublist s (strip (join_words (rp_pending_citations st @ [s])))" "sublist s (strip s)"
        using assms(2) by (auto intro!: strip_contains simp: suffix_imp_sublist)
      moreover have "unaffected cfold cs (seen @ [s]) = unaffected cfold cs seen @ [s]"
        "stated_in cfold cs (seen @ [s]) = stated_in cfold cs seen"
        using True prose by (auto simp: unaffected_def stated_in_def)
      moreover have "matched_ids cfold (claim_table cfold cs) (prose_of s) = {}" using True by (simp add: matched_none)
      ultimately show ?thesis using assms(1) resolve_other [OF prose, of cfold "claim_table cfold cs" st] 
        by (simp add: pass_ok_def list_all2_appendI)
    next
      case False
      then have "unaffected cfold cs (seen @ [s]) = unaffected cfold cs seen"
        "stated_in cfold cs (seen @ [s]) = stated_in cfold cs seen \<union> {c \<in> set cs. states cfold s c}"
        using prose by (auto simp: unaffected_def stated_in_def)
      moreover have "matched_ids cfold (claim_table cfold cs) (prose_of s) \<noteq> {}" using False by (simp add: matched_none)
      ultimately show ?thesis using assms(1) resolve_match [OF prose, of cfold "claim_table cfold cs" st]
        by (simp add: pass_ok_def matched_ids_table image_Un)
    qed
  qed
qed

lemma paragraph_sentences_solid: "s \<in> set (paragraph_sentences p) \<Longrightarrow> solid s"
  unfolding paragraph_sentences_def by (rule split_sentences_solid)

lemma paragraph_pass_ok: "pass_ok cfold cs (paragraph_sentences p) (paragraph_pass cfold (claim_table cfold cs) p)"
proof -
  have "pass_ok cfold cs (seen @ ss) (foldl (resolve_sentence cfold (claim_table cfold cs)) st ss)"
    if "pass_ok cfold cs seen st" "\<forall>s\<in>set (seen @ ss). solid s" for seen ss st
    using that
  proof (induction ss arbitrary: seen st)
    case (Cons s ss)
    from Cons.IH [OF resolve_sentence_ok [OF Cons.prems(1), of s]] Cons.prems(2) show ?case by simp
  qed simp
  from this [of "[]" _ "paragraph_sentences p"] show ?thesis
    by (simp add: paragraph_pass_def pass_ok_def unaffected_def stated_in_def paragraph_sentences_solid)
qed

lemma finish_pass_keeps:
  assumes "pass_ok cfold cs seen st" "\<forall>s\<in>set seen. solid s" "rp_kept st \<noteq> []"
  shows "list_all2 sublist (unaffected cfold cs seen) (finish_pass st)"
  using assms by (auto simp: finish_pass_def pass_ok_def unaffected_def intro!: list_all2_extend_last)

lemma list_all2_sublist: "list_all2 sublist us ks \<Longrightarrow> u \<in> set us \<Longrightarrow> \<exists>k\<in>set ks. sublist u k"
  by (induction rule: list_all2_induct) auto

lemma kept_sentence:
  assumes "s \<in> set (unaffected cfold cs (paragraph_sentences p))"
  shows "\<exists>l\<in>set (finish_pass (paragraph_pass cfold (claim_table cfold cs) p)). sublist s l"
proof -
  let ?st = "paragraph_pass cfold (claim_table cfold cs) p"
  have "rp_kept ?st \<noteq> []" using paragraph_pass_ok [of cfold cs p] assms by (auto simp: pass_ok_def)
  then have "list_all2 sublist (unaffected cfold cs (paragraph_sentences p)) (finish_pass ?st)"
    using paragraph_sentences_solid by (intro finish_pass_keeps [OF paragraph_pass_ok]) auto
  from list_all2_sublist [OF this assms] show ?thesis .
qed

section \<open>The new draft\<close>

lemma in_join_lines: "l \<in> set ls \<Longrightarrow> sublist l (join_lines ls)"
proof (induction ls rule: join_lines.induct)
  case (3 k v va)
  have "sublist l (k @ CHR 0x0A # t)" if "l = k \<or> sublist l t" for t
    using that sublist_append_leftI [of t "k @ [CHR 0x0A]"] by (auto intro: sublist_order.order_trans)
  with 3 show ?case by auto
qed auto

lemma in_join_paragraphs: "l \<in> set ls \<Longrightarrow> sublist l (join_paragraphs ls)"
proof (induction ls rule: join_paragraphs.induct)
  case (3 k v va)
  have "sublist l (k @ CHR 0x0A # CHR 0x0A # t)" if "l = k \<or> sublist l t" for t
    using that sublist_append_leftI [of t "k @ [CHR 0x0A, CHR 0x0A]"] by (auto intro: sublist_order.order_trans)
  with 3 show ?case by auto
qed auto

lemma claim_table_fold:
  "distinct (map cm_claim_id cs) \<Longrightarrow>
     foldl (\<lambda>d c. dput (cm_claim_id c) (claim_match_text cfold (cm_text c)) d) [] cs = claim_table cfold cs"
proof -
  have "foldl (\<lambda>d c. dput (cm_claim_id c) (claim_match_text cfold (cm_text c)) d) (claim_table cfold as) bs = claim_table cfold (as @ bs)"
    if "distinct (map cm_claim_id (as @ bs))" for as bs
    using that
  proof (induction bs arbitrary: as)
    case (Cons b bs)
    then have "map_of (claim_table cfold as) (cm_claim_id b) = None" by (auto simp: map_of_eq_None_iff comp_def image_image)
    with Cons.IH [of "as @ [b]"] Cons.prems show ?case by (simp add: dput_new)
  qed simp
  from this [of "[]" cs] show "distinct (map cm_claim_id cs) \<Longrightarrow> ?thesis" by simp
qed

lemma removed_ids: "rp_removed (paragraph_pass cfold (claim_table cfold cs) p) = cm_claim_id ` stated_in cfold cs (paragraph_sentences p)"
  using paragraph_pass_ok [of cfold cs p] by (simp add: pass_ok_def)

lemma kept_in_paragraph:
  assumes "s \<in> set (unaffected cfold cs (paragraph_sentences p))"
  shows "sublist s (remaining_paragraph cfold (claim_table cfold cs) p)"
proof -
  from kept_sentence [OF assms] obtain l where
    l: "l \<in> set (finish_pass (paragraph_pass cfold (claim_table cfold cs) p))" "sublist s l" by auto
  have "solid s" using assms paragraph_sentences_solid by (auto simp: unaffected_def)
  moreover have "sublist l (join_lines (filter heading (draft_lines [] p) @ finish_pass (paragraph_pass cfold (claim_table cfold cs) p)))"
    using l(1) by (intro in_join_lines) simp
  ultimately show ?thesis using l(2) unfolding remaining_paragraph_def by (meson strip_contains sublist_order.order_trans)
qed

definition delete_record :: "claim \<Rightarrow> claim_resolution" where
  "delete_record c = \<lparr>cr_claim_id = cm_claim_id c, cr_action = DeleteClaim, cr_reason_code = UnsupportedFact, cr_replacement_text = None\<rparr>"

lemma delete_records:
  "\<forall>c\<in>set cs. strip (cm_claim_id c) \<noteq> [] \<Longrightarrow> mapM (\<lambda>c. mk_claim_resolution (delete_record c)) cs = Inr (map delete_record cs)"
  by (induction cs) (simp_all add: mk_claim_resolution_def delete_record_def)

definition claim_stated :: "(string \<Rightarrow> string) \<Rightarrow> string \<Rightarrow> claim \<Rightarrow> bool" where
  "claim_stated cfold draft c \<longleftrightarrow>
     (\<exists>p\<in>set (split_paragraphs [] (strip draft)). \<exists>s\<in>set (paragraph_sentences p). prose_of s \<noteq> [] \<and> states cfold s c)"


definition unsupported_claim :: "string \<Rightarrow> claim" where
  "unsupported_claim text = \<lparr>cm_claim_id = ''claim-1'', cm_text = text, cm_claim_type = Fact, cm_entities = [],
     cm_numbers = [], cm_qualifiers = [], cm_report_section = ''findings'', cm_verification_status = Unsupported\<rparr>"

lemma demo_removal:
  "claim_stated id ''Rome is old [e]. Oslo is cold [e].'' (unsupported_claim ''Rome is old.'')"
  "map (\<lambda>p. unaffected id [unsupported_claim ''Rome is old.''] (paragraph_sentences p))
     (split_paragraphs [] (strip ''Rome is old [e]. Oslo is cold [e].'')) = [[''Oslo is cold [e].'']]"
  by code_simp+


text \<open>
  A claim is looked for as plain text, not as words: a sentence one of whose words merely
  ends like the first word of the claim is deleted.
\<close>

lemma deletes_inside_a_word:
  "remove_unsupported_claims id ''Oslo is cold [e]. Being smart is good [e].'' [unsupported_claim ''art is good.''] =
     Inr (''Oslo is cold [e].'', [delete_record (unsupported_claim ''art is good.'')])"
  by code_simp

end
