(* ===== verification/Manifest.thy ===== *)
theory Manifest
  imports Domain_Evidence
begin

text \<open>
  The manifest of a run (\<^verbatim>\<open>src/src/deepresearch/runtime/manifest.py\<close>): prices, costs, the records
  of calls and node executions, and the validation that reconciles them with the usage and the
  budget.  The hash of a manifest's content and the canonical text of a call's identity are
  arguments.  Of a call record the checks of time, outcome and price are modelled, not the fields
  that each operation must or must not carry.
\<close>

section \<open>Strings with a format\<close>

definition alnum :: "char \<Rightarrow> bool" where
  "alnum c \<longleftrightarrow> (let n = of_char c :: nat in (48 \<le> n \<and> n \<le> 57) \<or> (65 \<le> n \<and> n \<le> 90) \<or> (97 \<le> n \<and> n \<le> 122))"

definition is_identifier :: "string \<Rightarrow> bool" where
  "is_identifier s \<longleftrightarrow>
     s \<noteq> [] \<and> alnum (hd s) \<and> length s \<le> 256 \<and> list_all (\<lambda>c. alnum c \<or> c \<in> set ''._:/-'') (tl s)"

definition hex_string :: "nat \<Rightarrow> string \<Rightarrow> bool" where
  "hex_string n s \<longleftrightarrow> length s = n \<and> list_all (\<lambda>c. c \<in> set lower_hex) s"

definition is_artifact_id :: "string \<Rightarrow> bool" where
  "is_artifact_id s \<longleftrightarrow> take 7 s = ''sha256:'' \<and> hex_string 64 (drop 7 s)"

definition is_git_commit :: "string \<Rightarrow> bool" where
  "is_git_commit s \<longleftrightarrow> hex_string 40 s \<or> hex_string 64 s"

definition revalidate_usage :: "resource_usage \<Rightarrow> exc + resource_usage" where
  "revalidate_usage u =
     rbind (mk_usage u) (\<lambda>v.
       if \<not> isfinite (ru_wall_seconds v) then Inl (ValueError ''usage wall_seconds must be finite'')
       else if (case ru_cost_usd v of None \<Rightarrow> False | Some c \<Rightarrow> \<not> isfinite c)
       then Inl (ValueError ''usage cost_usd must be finite'')
       else Inr v)"

definition is_aware :: "timestamp \<Rightarrow> bool" where
  "is_aware t \<longleftrightarrow> ts_utc_offset t \<noteq> None"

definition nonneg_decimal :: "decimal \<Rightarrow> bool" where
  "nonneg_decimal d \<longleftrightarrow> isfinite d \<and> fle (Fin 0) d"

text \<open>\<^verbatim>\<open>(finish - start).total_seconds()\<close> and \<^verbatim>\<open>round\<close>\<close>

definition total_seconds :: "timestamp \<Rightarrow> timestamp \<Rightarrow> pyfloat" where
  "total_seconds start finish = fl (ts_instant finish - ts_instant start)"

fun py_round :: "pyfloat \<Rightarrow> exc + int" where
  "py_round (Fin x) = Inr (rhe x)"
| "py_round NaN = Inl (ValueError ''cannot convert float NaN to integer'')"
| "py_round _ = Inl OverflowError"

definition measured_ms :: "timestamp \<Rightarrow> timestamp \<Rightarrow> exc + int" where
  "measured_ms start finish = py_round (fmul (total_seconds start finish) (Fin 1000))"

section \<open>Prices and costs\<close>

record pricing_snapshot =
  ps_snapshot_id :: string
  ps_provider_id :: string
  ps_endpoint_type :: string
  ps_model_id :: string
  ps_effective_at :: timestamp
  ps_input_price :: decimal
  ps_output_price :: decimal
  ps_cached_price :: decimal
  ps_reasoning_price :: decimal

definition mk_pricing_snapshot :: "pricing_snapshot \<Rightarrow> exc + pricing_snapshot" where
  "mk_pricing_snapshot p =
     (if is_identifier (ps_snapshot_id p) \<and> is_identifier (ps_provider_id p) \<and> is_identifier (ps_endpoint_type p) \<and>
         is_identifier (ps_model_id p) \<and> is_aware (ps_effective_at p) \<and> nonneg_decimal (ps_input_price p) \<and>
         nonneg_decimal (ps_output_price p) \<and> nonneg_decimal (ps_cached_price p) \<and> nonneg_decimal (ps_reasoning_price p)
      then Inr p else Inl (ValueError ''invalid pricing snapshot''))"

record cost_breakdown =
  cb_pricing_snapshot_id :: string
  cb_input_usd :: decimal
  cb_cached_input_usd :: decimal
  cb_output_usd :: decimal
  cb_reasoning_usd :: decimal
  cb_total_usd :: decimal

definition mk_cost_breakdown :: "cost_breakdown \<Rightarrow> exc + cost_breakdown" where
  "mk_cost_breakdown c =
     (if list_all nonneg_decimal [cb_input_usd c, cb_cached_input_usd c, cb_output_usd c, cb_reasoning_usd c, cb_total_usd c]
      then Inr c else Inl (ValueError ''invalid cost breakdown''))"

text \<open>Decimal arithmetic with 28 digits; \<open>quantize\<close> needs a result of at most 28 digits.\<close>

fun dmul :: "decimal \<Rightarrow> decimal \<Rightarrow> decimal" where
  "dmul (Fin a) (Fin b) = Fin (drnd (a * b))"
| "dmul a b = fmul a b"

fun per_million :: "decimal \<Rightarrow> decimal" where
  "per_million (Fin a) = Fin (drnd (a / 1000000))"
| "per_million d = d"

fun quantize :: "decimal \<Rightarrow> exc + decimal" where
  "quantize (Fin a) =
     (let q = rhe (a * 10 ^ 9) in if 10 ^ 28 \<le> \<bar>q\<bar> then Inl ArithmeticError else Inr (Fin (of_int q / 10 ^ 9)))"
| "quantize NaN = Inr NaN"
| "quantize _ = Inl ArithmeticError"

definition priced :: "int \<Rightarrow> decimal \<Rightarrow> decimal" where
  "priced n price = per_million (dmul (Fin (of_int n)) price)"

definition estimate_cost :: "resource_usage \<Rightarrow> pricing_snapshot \<Rightarrow> exc + cost_breakdown" where
  "estimate_cost usage pricing =
     rbind (revalidate_usage usage) (\<lambda>u.
     let input_usd = priced (max (ru_input_tokens u - ru_cached_tokens u) 0) (ps_input_price pricing);
         cached_usd = priced (ru_cached_tokens u) (ps_cached_price pricing);
         output_usd = priced (ru_output_tokens u) (ps_output_price pricing);
         reasoning_usd = priced (ru_reasoning_tokens u) (ps_reasoning_price pricing)
     in rbind (quantize input_usd) (\<lambda>i.
        rbind (quantize cached_usd) (\<lambda>c.
        rbind (quantize output_usd) (\<lambda>out.
        rbind (quantize reasoning_usd) (\<lambda>r.
        rbind (quantize (dadd (dadd (dadd input_usd cached_usd) output_usd) reasoning_usd)) (\<lambda>total.
          mk_cost_breakdown \<lparr>cb_pricing_snapshot_id = ps_snapshot_id pricing, cb_input_usd = i, cb_cached_input_usd = c,
            cb_output_usd = out, cb_reasoning_usd = r, cb_total_usd = total\<rparr>))))))"

section \<open>Records\<close>

record provider_profile =
  pp_profile_id :: string
  pp_execution_mode :: execution_mode
  pp_provider_ids :: "string list"
  pp_configuration_sha256 :: string

definition mk_provider_profile :: "provider_profile \<Rightarrow> exc + provider_profile" where
  "mk_provider_profile p =
     (if \<not> is_identifier (pp_profile_id p) \<or> \<not> hex_string 64 (pp_configuration_sha256 p) then Inl (ValueError ''invalid profile'')
      else if pp_provider_ids p = [] \<or> \<not> distinct (pp_provider_ids p)
      then Inl (ValueError ''provider_ids must be non-empty and unique'')
      else if \<not> list_all is_identifier (pp_provider_ids p)
      then Inl (ValueError ''value must be a non-empty stable identifier'')
      else Inr p)"

datatype call_operation = ModelCall | SearchCall | FetchCall | ParseCall | EmbedCall

record provider_call =
  pc_operation :: call_operation
  pc_node :: string
  pc_provider_id :: string
  pc_endpoint_type :: string
  pc_model_id :: "string option"
  pc_model_revision :: "string option"
  pc_request_sha256 :: string
  pc_snapshot_id :: "string option"
  pc_normalized_query :: "string option"
  pc_locale :: "string option"
  pc_complete_parameters :: "(string \<times> json) list"
  pc_time_policy :: "string option"
  pc_prompt_version :: "string option"
  pc_system_prompt_hash :: "string option"
  pc_tool_schema_hash :: "string option"
  pc_output_schema_hash :: "string option"
  pc_temperature :: "decimal option"
  pc_seed :: "int option"
  pc_started_at :: timestamp
  pc_finished_at :: timestamp
  pc_latency_ms :: int
  pc_attempt :: int
  pc_cache_hit :: bool
  pc_outcome_code :: string
  pc_usage :: resource_usage
  pc_pricing_snapshot_id :: "string option"
  pc_estimated_cost_usd :: "decimal option"

text \<open>The fields of a call, then the first and the last checks of \<^verbatim>\<open>validate_operation_contract\<close>.\<close>

definition call_fields_ok :: "provider_call \<Rightarrow> bool" where
  "call_fields_ok c \<longleftrightarrow>
     is_identifier (pc_node c) \<and> is_identifier (pc_provider_id c) \<and> is_identifier (pc_endpoint_type c) \<and>
     hex_string 64 (pc_request_sha256 c) \<and>
     list_all (\<lambda>h. case h of None \<Rightarrow> True | Some s \<Rightarrow> hex_string 64 s)
       [pc_system_prompt_hash c, pc_tool_schema_hash c, pc_output_schema_hash c] \<and>
     is_aware (pc_started_at c) \<and> is_aware (pc_finished_at c) \<and> 0 \<le> pc_latency_ms c \<and> 1 \<le> pc_attempt c \<and>
     revalidate_usage (pc_usage c) = Inr (pc_usage c) \<and>
     (case pc_temperature c of None \<Rightarrow> True | Some t \<Rightarrow> isfinite t) \<and>
     (case pc_estimated_cost_usd c of None \<Rightarrow> True | Some d \<Rightarrow> nonneg_decimal d)"

definition check_call_times :: "provider_call \<Rightarrow> exc + unit" where
  "check_call_times c =
     (if ts_instant (pc_finished_at c) < ts_instant (pc_started_at c)
      then Inl (ValueError ''finished_at must not precede started_at'')
      else rbind (measured_ms (pc_started_at c) (pc_finished_at c)) (\<lambda>ms.
        if pc_latency_ms c \<noteq> ms then Inl (ValueError ''latency_ms must match the recorded elapsed interval'')
        else if pc_outcome_code c = [] then Inl (ValueError ''outcome_code must not be empty'')
        else Inr ()))"

definition check_call_price :: "provider_call \<Rightarrow> exc + unit" where
  "check_call_price c =
     (if pc_operation c \<noteq> ModelCall \<and> (pc_estimated_cost_usd c \<noteq> None \<or> pc_pricing_snapshot_id c \<noteq> None)
      then Inl (ValueError ''non-model calls must not have pricing metadata'') else Inr ())"

record node_execution =
  ne_node :: string
  ne_attempt :: int
  ne_started_at :: timestamp
  ne_finished_at :: timestamp
  ne_latency_ms :: int
  ne_status :: run_status
  ne_input_artifact_ids :: "string list"
  ne_output_artifact_ids :: "string list"
  ne_usage :: resource_usage
  ne_error_code :: "string option"

definition artifact_references :: "string list \<Rightarrow> bool" where
  "artifact_references ids \<longleftrightarrow> distinct ids \<and> list_all is_artifact_id ids"

definition mk_node_execution :: "node_execution \<Rightarrow> exc + node_execution" where
  "mk_node_execution e =
     (if \<not> (is_identifier (ne_node e) \<and> 1 \<le> ne_attempt e \<and> is_aware (ne_started_at e) \<and> is_aware (ne_finished_at e) \<and>
            0 \<le> ne_latency_ms e \<and> artifact_references (ne_input_artifact_ids e) \<and>
            artifact_references (ne_output_artifact_ids e) \<and> revalidate_usage (ne_usage e) = Inr (ne_usage e))
      then Inl (ValueError ''invalid node execution'')
      else if ts_instant (ne_finished_at e) < ts_instant (ne_started_at e)
      then Inl (ValueError ''finished_at must not precede started_at'')
      else rbind (measured_ms (ne_started_at e) (ne_finished_at e)) (\<lambda>ms.
        if ne_latency_ms e \<noteq> ms then Inl (ValueError ''latency_ms must match the recorded elapsed interval'')
        else if ne_status e = Failed \<and> (ne_error_code e = None \<or> ne_error_code e = Some [])
        then Inl (ValueError ''failed node executions require error_code'')
        else Inr e))"

record parsed_artifact =
  pa_source_id :: string
  pa_raw_content_hash :: string
  pa_parsed_content_hash :: string
  pa_parser_id :: string
  pa_parser_version :: string
  pa_normalization_version :: string
  pa_artifact_id :: string

definition mk_parsed_artifact :: "parsed_artifact \<Rightarrow> exc + parsed_artifact" where
  "mk_parsed_artifact p =
     (if list_all is_identifier [pa_source_id p, pa_parser_id p, pa_parser_version p, pa_normalization_version p] \<and>
         hex_string 64 (pa_raw_content_hash p) \<and> hex_string 64 (pa_parsed_content_hash p) \<and> is_artifact_id (pa_artifact_id p)
      then Inr p else Inl (ValueError ''invalid parsed artifact''))"

record evidence_hash =
  eh_evidence_id :: string
  eh_source_id :: string
  eh_locator_sha256 :: string
  eh_excerpt_hash :: string
  eh_artifact_id :: string

definition mk_evidence_hash :: "evidence_hash \<Rightarrow> exc + evidence_hash" where
  "mk_evidence_hash e =
     (if is_identifier (eh_evidence_id e) \<and> is_identifier (eh_source_id e) \<and> hex_string 64 (eh_locator_sha256 e) \<and>
         hex_string 64 (eh_excerpt_hash e) \<and> is_artifact_id (eh_artifact_id e)
      then Inr e else Inl (ValueError ''invalid evidence hash''))"

datatype pricing_status = Estimated | UnknownPricing

record run_manifest =
  mf_run_id :: string
  mf_thread_id :: string
  mf_code_commit :: string
  mf_dependency_lock_sha256 :: string
  mf_request_sha256 :: string
  mf_config_sha256 :: string
  mf_workflow_id :: workflow_id
  mf_graph_version :: string
  mf_planner_id :: planner_id
  mf_provider_profiles :: "provider_profile list"
  mf_model_ids :: "string list"
  mf_prompt_versions :: "(string, string) dict"
  mf_parser_versions :: "(string, string) dict"
  mf_ranker_id :: ranker_id
  mf_ranker_weights_version :: "string option"
  mf_budget :: run_budget
  mf_usage :: resource_usage
  mf_usage_by_node :: "(string, resource_usage) dict"
  mf_pricing_status :: pricing_status
  mf_pricing_snapshots :: "pricing_snapshot list"
  mf_provider_calls :: "provider_call list"
  mf_node_executions :: "node_execution list"
  mf_parsed_artifacts :: "parsed_artifact list"
  mf_evidence_hashes :: "evidence_hash list"
  mf_source_snapshot_ids :: "string list"
  mf_artifact_ids :: "string list"
  mf_run_event_count :: int
  mf_run_events_sha256 :: string
  mf_seed :: "int option"
  mf_seed_supported :: bool
  mf_cache_hit_count :: int
  mf_stop_reason :: "stop_reason option"
  mf_is_partial :: bool
  mf_failure_codes :: "string list"
  mf_replay_parent :: "string option"
  mf_started_at :: timestamp
  mf_finished_at :: timestamp
  mf_manifest_sha256 :: string

text \<open>The field validators of a manifest.\<close>

definition manifest_fields_ok :: "run_manifest \<Rightarrow> bool" where
  "manifest_fields_ok m \<longleftrightarrow>
     list_all is_identifier [mf_run_id m, mf_thread_id m, mf_graph_version m] \<and>
     list_all (hex_string 64) [mf_dependency_lock_sha256 m, mf_request_sha256 m, mf_config_sha256 m, mf_run_events_sha256 m] \<and>
     is_aware (mf_started_at m) \<and> is_aware (mf_finished_at m) \<and> revalidate_usage (mf_usage m) = Inr (mf_usage m) \<and>
     is_git_commit (mf_code_commit m) \<and> (mf_manifest_sha256 m = [] \<or> hex_string 64 (mf_manifest_sha256 m)) \<and>
     list_all (\<lambda>(k, v). k \<noteq> [] \<and> v \<noteq> []) (mf_prompt_versions m) \<and>
     list_all (\<lambda>(k, v). k \<noteq> [] \<and> v \<noteq> []) (mf_parser_versions m) \<and>
     list_all (\<lambda>(k, u). is_identifier k \<and> revalidate_usage u = Inr u) (mf_usage_by_node m) \<and>
     distinct (dkeys (mf_usage_by_node m)) \<and> artifact_references (mf_artifact_ids m) \<and>
     distinct (mf_source_snapshot_ids m) \<and> list_all is_identifier (mf_source_snapshot_ids m) \<and>
     distinct (mf_model_ids m) \<and> list_all is_identifier (mf_model_ids m) \<and>
     0 \<le> mf_run_event_count m \<and> 0 \<le> mf_cache_hit_count m"

section \<open>Execution history\<close>

definition group_by :: "('a \<Rightarrow> 'k) \<Rightarrow> 'a list \<Rightarrow> ('k, 'a list) dict" where
  "group_by key xs = foldl (\<lambda>d x. dput (key x) ((case dget d (key x) of None \<Rightarrow> [] | Some ys \<Rightarrow> ys) @ [x]) d) [] xs"

definition check_each :: "('a \<Rightarrow> exc + unit) \<Rightarrow> 'a list \<Rightarrow> exc + unit" where
  "check_each f xs = foldM (\<lambda>_ x. f x) () xs"

definition in_envelope :: "run_manifest \<Rightarrow> node_execution \<Rightarrow> bool" where
  "in_envelope m e \<longleftrightarrow>
     ts_instant (mf_started_at m) \<le> ts_instant (ne_started_at e) \<and> ts_instant (ne_finished_at e) \<le> ts_instant (mf_finished_at m)"

definition check_attempt_order :: "node_execution list \<Rightarrow> exc + unit" where
  "check_attempt_order es =
     (if map ne_attempt es \<noteq> map int [1..<Suc (length es)]
      then Inl (ValueError ''node execution attempts must be ordered and contiguous'')
      else check_each (\<lambda>(previous, current).
        require (ts_instant (ne_finished_at previous) \<le> ts_instant (ne_started_at current))
          (ValueError ''node execution attempts must be chronological and non-overlapping'')) (zip es (tl es)))"

definition contains_call :: "node_execution \<Rightarrow> provider_call \<Rightarrow> bool" where
  "contains_call e c \<longleftrightarrow>
     ne_node e = pc_node c \<and> ts_instant (ne_started_at e) \<le> ts_instant (pc_started_at c) \<and>
     ts_instant (pc_started_at c) < ts_instant (ne_finished_at e) \<and>
     ts_instant (pc_finished_at c) \<le> ts_instant (ne_finished_at e)"

definition containing_execution :: "node_execution list \<Rightarrow> provider_call \<Rightarrow> exc + nat" where
  "containing_execution es c =
     (case filter (\<lambda>i. contains_call (es ! i) c) [0..<length es] of
        [i] \<Rightarrow> Inr i
      | _ \<Rightarrow> Inl (ValueError ''provider call must have exactly one containing node execution''))"

definition validate_execution_history :: "run_manifest \<Rightarrow> exc + nat list" where
  "validate_execution_history m =
     rbind (check_each (\<lambda>e. require (in_envelope m e) (ValueError ''node execution must be inside the run envelope''))
       (mf_node_executions m)) (\<lambda>_.
     rbind (check_each (\<lambda>(_, es). check_attempt_order es) (group_by ne_node (mf_node_executions m))) (\<lambda>_.
       mapM (containing_execution (mf_node_executions m)) (mf_provider_calls m)))"

section \<open>Attempts of an invocation\<close>

text \<open>The calls of one identity in one execution, with the retries they add.\<close>

fun check_attempts :: "provider_call option \<Rightarrow> int \<Rightarrow> provider_call list \<Rightarrow> exc + unit" where
  "check_attempts previous expected [] = Inr ()"
| "check_attempts previous expected (c # cs) =
     (if (case previous of None \<Rightarrow> False | Some p \<Rightarrow> ts_instant (pc_started_at c) < ts_instant (pc_finished_at p))
      then Inl (ValueError ''provider calls must be chronological and non-overlapping'')
      else if pc_attempt c \<noteq> expected
      then Inl (ValueError ''provider invocation attempts must start at one and be contiguous'')
      else check_attempts (Some c) (expected + 1) cs)"

definition validate_contiguous_attempts ::
    "(provider_call \<Rightarrow> string) \<Rightarrow> run_manifest \<Rightarrow> nat list \<Rightarrow> exc + int list" where
  "validate_contiguous_attempts identity m containing =
     foldM (\<lambda>retries ((i, _), cs).
         rbind (check_attempts None 1 (map snd cs)) (\<lambda>_.
           Inr (retries[i := retries ! i + sum_list (map (\<lambda>(_, c). ru_retries (pc_usage c)) cs)])))
       (replicate (length (mf_node_executions m)) 0)
       (group_by (\<lambda>(i, c). (i, identity c)) (zip containing (mf_provider_calls m)))"

section \<open>Usage\<close>

definition total_of :: "(resource_usage \<Rightarrow> int) \<Rightarrow> resource_usage list \<Rightarrow> int" where
  "total_of field us = sum_list (map field us)"

definition aggregate_usage :: "resource_usage list \<Rightarrow> pyfloat \<Rightarrow> decimal option \<Rightarrow> exc + resource_usage" where
  "aggregate_usage us wall cost =
     mk_usage \<lparr>ru_input_tokens = total_of ru_input_tokens us, ru_output_tokens = total_of ru_output_tokens us,
       ru_reasoning_tokens = total_of ru_reasoning_tokens us, ru_cached_tokens = total_of ru_cached_tokens us,
       ru_total_tokens = total_of ru_total_tokens us, ru_search_calls = total_of ru_search_calls us,
       ru_pages = total_of ru_pages us, ru_retries = total_of ru_retries us, ru_wall_seconds = wall, ru_cost_usd = cost\<rparr>"

definition additive_fields :: "(resource_usage \<Rightarrow> int) list" where
  "additive_fields = [ru_input_tokens, ru_output_tokens, ru_reasoning_tokens, ru_cached_tokens, ru_total_tokens,
     ru_search_calls, ru_pages]"

definition charged_cost :: "pricing_status \<Rightarrow> provider_call list \<Rightarrow> exc + decimal option" where
  "charged_cost status calls =
     (if status = UnknownPricing then Inr None
      else rbind (foldM (\<lambda>charged c.
          if pc_operation c \<noteq> ModelCall \<or> pc_cache_hit c then Inr charged
          else (case pc_estimated_cost_usd c of
                  None \<Rightarrow> Inl (ValueError ''estimated model calls require an estimated cost'')
                | Some d \<Rightarrow> Inr (dadd charged d))) (Fin 0) calls) (\<lambda>charged.
        rbind (quantize charged) (\<lambda>q. Inr (Some q))))"

fun longest_wall :: "node_execution list \<Rightarrow> pyfloat" where
  "longest_wall [] = Fin 0"
| "longest_wall (e # es) = foldl fmax (ru_wall_seconds (ne_usage e)) (map (\<lambda>x. ru_wall_seconds (ne_usage x)) es)"

definition check_execution_usage :: "node_execution list \<Rightarrow> nat \<times> (nat \<times> provider_call) list \<Rightarrow> exc + unit" where
  "check_execution_usage es g =
     check_each (\<lambda>field.
       require (sum_list (map (\<lambda>(_, c). field (pc_usage c)) (snd g)) \<le> field (ne_usage (es ! fst g)))
         (ValueError ''provider call usage exceeds its node execution usage'')) additive_fields"

definition check_node_usage :: "run_manifest \<Rightarrow> string \<times> node_execution list \<Rightarrow> exc + unit" where
  "check_node_usage m g =
     rbind (charged_cost (mf_pricing_status m) (filter (\<lambda>c. pc_node c = fst g) (mf_provider_calls m))) (\<lambda>cost.
     rbind (aggregate_usage (map ne_usage (snd g)) (longest_wall (snd g)) cost) (\<lambda>expected.
       require (dget (mf_usage_by_node m) (fst g) = Some expected)
         (ValueError ''usage_by_node does not match aggregated node executions'')))"

definition validate_usage_reconciliation :: "run_manifest \<Rightarrow> nat list \<Rightarrow> int list \<Rightarrow> exc + unit" where
  "validate_usage_reconciliation m containing retries =
     (let es = mf_node_executions m; by_node = group_by ne_node es in
      rbind (check_each (check_execution_usage es) (group_by fst (zip containing (mf_provider_calls m)))) (\<lambda>_.
      rbind (check_each (\<lambda>i. require (ru_retries (ne_usage (es ! i)) = retries ! i)
          (ValueError ''node execution retry usage does not match invocation history'')) [0..<length es]) (\<lambda>_.
      if set (dkeys (mf_usage_by_node m)) \<noteq> set (dkeys by_node)
      then Inl (ValueError ''usage_by_node keys must equal node execution nodes'')
      else
        rbind (check_each (check_node_usage m) by_node) (\<lambda>_.
        if flt (total_seconds (mf_started_at m) (mf_finished_at m)) (ru_wall_seconds (mf_usage m))
        then Inl (ValueError ''active wall time exceeds the run envelope'')
        else
          rbind (charged_cost (mf_pricing_status m) (mf_provider_calls m)) (\<lambda>cost.
          rbind (aggregate_usage (dvalues (mf_usage_by_node m)) (ru_wall_seconds (mf_usage m)) cost) (\<lambda>expected.
            require (mf_usage m = expected) (ValueError ''manifest usage does not match reconciled node usage'')))))))"

section \<open>Prices and limits of a run\<close>

definition price_key :: "pricing_snapshot \<Rightarrow> string \<times> string \<times> string option" where
  "price_key p = (ps_provider_id p, ps_endpoint_type p, Some (ps_model_id p))"

definition call_price_key :: "provider_call \<Rightarrow> string \<times> string \<times> string option" where
  "call_price_key c = (pc_provider_id c, pc_endpoint_type c, pc_model_id c)"

definition index_prices :: "pricing_snapshot list \<Rightarrow> exc + (string \<times> string \<times> string option, pricing_snapshot) dict" where
  "index_prices ps =
     rbind (foldM (\<lambda>(d, ids) p.
         if dget d (price_key p) \<noteq> None \<or> ps_snapshot_id p \<in> ids
         then Inl (ValueError ''pricing snapshots must be unique by model and snapshot_id'')
         else Inr (dput (price_key p) p d, insert (ps_snapshot_id p) ids)) ([], {}) ps) (\<lambda>(d, _). Inr d)"

definition charge_call :: "(string \<times> string \<times> string option, pricing_snapshot) dict \<Rightarrow> decimal \<Rightarrow> provider_call \<Rightarrow> exc + decimal" where
  "charge_call prices charged c =
     (case dget prices (call_price_key c) of
        None \<Rightarrow> Inl (KeyError [])
      | Some pricing \<Rightarrow>
          if pc_pricing_snapshot_id c \<noteq> Some (ps_snapshot_id pricing)
          then Inl (ValueError ''provider call pricing_snapshot_id does not match'')
          else if pc_cache_hit c then
            if pc_estimated_cost_usd c \<noteq> Some (Fin 0) then Inl (ValueError ''model cache hit estimated cost must be zero'')
            else Inr charged
          else rbind (estimate_cost (pc_usage c) pricing) (\<lambda>b.
            if pc_estimated_cost_usd c \<noteq> Some (cb_total_usd b)
            then Inl (ValueError ''provider call estimated cost does not match pricing snapshot'')
            else Inr (dadd charged (cb_total_usd b))))"

definition model_calls :: "run_manifest \<Rightarrow> provider_call list" where
  "model_calls m = filter (\<lambda>c. pc_operation c = ModelCall) (mf_provider_calls m)"

definition validate_pricing :: "run_manifest \<Rightarrow> exc + unit" where
  "validate_pricing m =
     (if mf_pricing_status m = UnknownPricing then
        if mf_pricing_snapshots m \<noteq> [] then Inl (ValueError ''unknown pricing requires no pricing_snapshots'')
        else if \<not> list_all (\<lambda>c. pc_estimated_cost_usd c = None \<and> pc_pricing_snapshot_id c = None) (model_calls m)
        then Inl (ValueError ''unknown pricing requires null call estimates'')
        else if ru_cost_usd (mf_usage m) \<noteq> None then Inl (ValueError ''unknown pricing requires null usage cost'')
        else Inr ()
      else
        rbind (index_prices (mf_pricing_snapshots m)) (\<lambda>prices.
        if \<not> set (map call_price_key (model_calls m)) \<subseteq> set (dkeys prices)
        then Inl (ValueError ''estimated pricing requires one snapshot per model endpoint'')
        else
          rbind (foldM (charge_call prices) (Fin 0) (model_calls m)) (\<lambda>charged.
          rbind (quantize charged) (\<lambda>q.
            require (ru_cost_usd (mf_usage m) = Some q)
              (ValueError ''manifest usage cost must equal charged non-cache model calls'')))))"

definition validate_budget_limits :: "run_manifest \<Rightarrow> exc + unit" where
  "validate_budget_limits m =
     (let u = mf_usage m; b = mf_budget m in
      if rb_max_total_tokens b < ru_total_tokens u then Inl (ValueError ''manifest token usage exceeds budget'')
      else if rb_max_search_calls b < ru_search_calls u then Inl (ValueError ''manifest search usage exceeds budget'')
      else if rb_max_pages b < ru_pages u then Inl (ValueError ''manifest page usage exceeds budget'')
      else if rb_max_retries b < ru_retries u then Inl (ValueError ''manifest retry usage exceeds budget'')
      else if flt (Fin (of_int (rb_max_wall_time_seconds b))) (ru_wall_seconds u) then Inl (ValueError ''manifest wall time exceeds budget'')
      else (case (rb_max_cost_usd b, ru_cost_usd u) of
              (Some limit, Some cost) \<Rightarrow> if flt limit cost then Inl (ValueError ''manifest cost exceeds budget'') else Inr ()
            | _ \<Rightarrow> Inr ()))"

section \<open>The manifest\<close>

definition record_artifacts :: "run_manifest \<Rightarrow> string set" where
  "record_artifacts m =
     set (map pa_artifact_id (mf_parsed_artifacts m)) \<union> set (map eh_artifact_id (mf_evidence_hashes m)) \<union>
     set (concat (map (\<lambda>e. ne_input_artifact_ids e @ ne_output_artifact_ids e) (mf_node_executions m)))"

definition content_sha256 :: "(run_manifest \<Rightarrow> string) \<Rightarrow> run_manifest \<Rightarrow> string" where
  "content_sha256 sha m = sha (m\<lparr>mf_manifest_sha256 := []\<rparr>)"

definition reconcile :: "(provider_call \<Rightarrow> string) \<Rightarrow> run_manifest \<Rightarrow> exc + unit" where
  "reconcile identity m =
     (if ts_instant (mf_finished_at m) < ts_instant (mf_started_at m)
      then Inl (ValueError ''finished_at must not precede started_at'')
      else if mf_seed m \<noteq> None \<and> \<not> mf_seed_supported m then Inl (ValueError ''seed requires seed_supported'')
      else if mf_cache_hit_count m \<noteq> int (length (filter pc_cache_hit (mf_provider_calls m)))
      then Inl (ValueError ''cache_hit_count does not match provider calls'')
      else if mf_model_ids m \<noteq> fromkeys (List.map_filter pc_model_id (model_calls m))
      then Inl (ValueError ''model_ids must equal model call model IDs in first-use order'')
      else
        rbind (validate_execution_history m) (\<lambda>containing.
        rbind (validate_contiguous_attempts identity m containing) (\<lambda>retries.
        rbind (validate_usage_reconciliation m containing retries) (\<lambda>_.
        rbind (validate_pricing m) (\<lambda>_.
        rbind (validate_budget_limits m) (\<lambda>_.
          require (record_artifacts m \<subseteq> set (mf_artifact_ids m))
            (ValueError ''record artifact IDs must be present in artifact_ids'')))))))"

definition validate_manifest ::
    "(run_manifest \<Rightarrow> string) \<Rightarrow> (provider_call \<Rightarrow> string) \<Rightarrow> bool \<Rightarrow> run_manifest \<Rightarrow> exc + run_manifest" where
  "validate_manifest sha identity rehash m =
     (if \<not> manifest_fields_ok m then Inl (ValueError ''invalid manifest field'')
      else rbind (reconcile identity m) (\<lambda>_.
        let expected = content_sha256 sha m in
        if mf_manifest_sha256 m \<noteq> [] then
          if mf_manifest_sha256 m \<noteq> expected then Inl (ValueError ''manifest_sha256 does not match canonical manifest content'')
          else Inr m
        else if rehash then Inr (m\<lparr>mf_manifest_sha256 := expected\<rparr>)
        else Inl (ValueError ''blank manifest_sha256 requires RunManifest.create'')))"

text \<open>\<^verbatim>\<open>RunManifest.create\<close> and \<^verbatim>\<open>model_copy\<close>\<close>

definition create_manifest :: "(run_manifest \<Rightarrow> string) \<Rightarrow> (provider_call \<Rightarrow> string) \<Rightarrow> run_manifest \<Rightarrow> exc + run_manifest" where
  "create_manifest sha identity m = validate_manifest sha identity True (m\<lparr>mf_manifest_sha256 := []\<rparr>)"

end
