(* ===== verification/Manifest_Correct.thy ===== *)
theory Manifest_Correct
  imports Manifest
begin

text \<open>
  An accepted manifest is consistent: its usage is the sum of its node executions, covers its
  calls, keeps to the budget and costs what the prices say.
\<close>

section \<open>Groups\<close>

lemma group_by_snoc:
  "group_by key (xs @ [x]) =
     dput (key x) ((case dget (group_by key xs) (key x) of None \<Rightarrow> [] | Some ys \<Rightarrow> ys) @ [x]) (group_by key xs)"
  by (simp add: group_by_def)

lemma group_by_Nil: "group_by key [] = []"
  by (simp add: group_by_def)

lemma group_by_keys: "distinct (dkeys (group_by key xs)) \<and> set (dkeys (group_by key xs)) = key ` set xs"
proof (induction xs rule: rev_induct)
  case (snoc x xs)
  then show ?case by (auto simp: group_by_snoc distinct_update dom_update)
qed (simp add: group_by_Nil)

lemma group_by_get:
  "dget (group_by key xs) k = (if k \<in> key ` set xs then Some (filter (\<lambda>x. key x = k) xs) else None)"
proof (induction xs rule: rev_induct)
  case (snoc x xs)
  have none: "filter (\<lambda>y. key y = key x) xs = []" if "key x \<notin> key ` set xs" using that by (auto simp: filter_empty_conv image_iff)
  from snoc none show ?case by (auto simp: group_by_snoc)
qed (simp add: group_by_Nil)

lemma group_by_mem: "(k, ys) \<in> set (group_by key xs) \<longleftrightarrow> k \<in> key ` set xs \<and> ys = filter (\<lambda>x. key x = k) xs"
proof -
  have "(k, ys) \<in> set (group_by key xs) \<longleftrightarrow> dget (group_by key xs) k = Some ys"
    using group_by_keys [of key xs] by (simp add: dget_iff_set)
  then show ?thesis by (auto simp: group_by_get)
qed

lemma sum_dput:
  fixes f :: "'v \<Rightarrow> int"
  assumes "distinct (dkeys d)"
  shows "sum_list (map (\<lambda>p. f (snd p)) (dput k v d)) =
    sum_list (map (\<lambda>p. f (snd p)) d) + f v - (case dget d k of None \<Rightarrow> 0 | Some u \<Rightarrow> f u)"
  using assms
proof (induction d)
  case (Cons p d)
  then show ?case by (cases p) (auto split: option.splits simp: map_of_eq_None_iff)
qed simp

lemma group_by_sum:
  fixes f :: "'a \<Rightarrow> int"
  shows "sum_list (map (\<lambda>p. sum_list (map f (snd p))) (group_by key xs)) = sum_list (map f xs)"
proof (induction xs rule: rev_induct)
  case (snoc x xs)
  have d: "distinct (dkeys (group_by key xs))" using group_by_keys by blast
  show ?case
    using snoc by (simp only: group_by_snoc sum_dput [OF d, where f = "\<lambda>ys. sum_list (map f ys)"])
      (simp split: option.splits)
qed (simp add: group_by_Nil)

section \<open>Checks\<close>

lemma check_each_Inr: "check_each f xs = Inr () \<longleftrightarrow> (\<forall>x\<in>set xs. f x = Inr ())"
  unfolding check_each_def by (induction xs) (auto simp: rbind_def split: sum.splits)

lemma require_Inr: "require b e = Inr () \<longleftrightarrow> b"
  by (simp add: require_def)

lemma unit_Inr: "(m :: exc + unit) = Inr u \<longleftrightarrow> m = Inr ()"
  by simp

section \<open>Executions and calls\<close>

lemma containing_execution_Inr:
  "containing_execution es c = Inr i \<Longrightarrow> i < length es \<and> contains_call (es ! i) c \<and> (\<forall>j < length es. contains_call (es ! j) c \<longrightarrow> j = i)"
proof -
  assume "containing_execution es c = Inr i"
  then have "filter (\<lambda>i. contains_call (es ! i) c) [0..<length es] = [i]"
    by (auto simp: containing_execution_def split: list.splits)
  then have only: "{j. j < length es \<and> contains_call (es ! j) c} = {i}" using set_filter [of "\<lambda>i. contains_call (es ! i) c" "[0..<length es]"] by auto
  then show ?thesis by (auto simp: set_eq_iff)
qed

lemma history_Inr:
  assumes "validate_execution_history m = Inr containing"
  shows "list_all2 (\<lambda>c i. containing_execution (mf_node_executions m) c = Inr i) (mf_provider_calls m) containing"
    and "\<forall>e\<in>set (mf_node_executions m). in_envelope m e"
    and "\<forall>n. map ne_attempt (filter (\<lambda>e. ne_node e = n) (mf_node_executions m)) =
      map int [1..<Suc (length (filter (\<lambda>e. ne_node e = n) (mf_node_executions m)))]"
proof -
  let ?es = "mf_node_executions m"
  from assms have each: "\<forall>e\<in>set ?es. in_envelope m e" "\<forall>g\<in>set (group_by ne_node ?es). check_attempt_order (snd g) = Inr ()"
    and calls: "mapM (containing_execution ?es) (mf_provider_calls m) = Inr containing"
    by (auto simp: validate_execution_history_def rbind_eq_Inr check_each_Inr require_Inr split_beta)
  show "\<forall>e\<in>set ?es. in_envelope m e" by (rule each(1))
  have "list_all2 (\<lambda>c i. containing_execution ?es c = Inr i) cs is" if "mapM (containing_execution ?es) cs = Inr is" for cs "is"
    using that by (induction cs arbitrary: "is") (auto simp: rbind_eq_Inr)
  from this [OF calls] show "list_all2 (\<lambda>c i. containing_execution ?es c = Inr i) (mf_provider_calls m) containing" .
  show "\<forall>n. map ne_attempt (filter (\<lambda>e. ne_node e = n) ?es) = map int [1..<Suc (length (filter (\<lambda>e. ne_node e = n) ?es))]"
  proof
    fix n
    show "map ne_attempt (filter (\<lambda>e. ne_node e = n) ?es) = map int [1..<Suc (length (filter (\<lambda>e. ne_node e = n) ?es))]"
    proof (cases "n \<in> ne_node ` set ?es")
      case True
      then have "(n, filter (\<lambda>e. ne_node e = n) ?es) \<in> set (group_by ne_node ?es)" by (simp add: group_by_mem)
      with each(2) have "check_attempt_order (filter (\<lambda>e. ne_node e = n) ?es) = Inr ()" by fastforce
      then show ?thesis by (rule contrapos_pp) (simp add: check_attempt_order_def del: upt_Suc)
    next
      case False
      then have "filter (\<lambda>e. ne_node e = n) ?es = []" by (auto simp: filter_empty_conv)
      then show ?thesis by simp
    qed
  qed
qed

lemma history_index: "list_all2 (\<lambda>c i. containing_execution es c = Inr i) cs is \<Longrightarrow> \<forall>i\<in>set is. i < length es"
  by (induction rule: list_all2_induct) (auto dest: containing_execution_Inr)

lemma check_attempts_Inr:
  "check_attempts p e cs = Inr () \<Longrightarrow> map pc_attempt cs = map (\<lambda>i. e + int i) [0..<length cs]"
proof (induction cs arbitrary: p e)
  case (Cons c cs)
  then have "pc_attempt c = e" "map pc_attempt cs = map (\<lambda>i. e + 1 + int i) [0..<length cs]"
    by (auto split: if_splits)
  then show ?case by (simp add: map_upt_Suc del: upt_Suc)
qed simp

abbreviation group_retries :: "(nat \<times> provider_call) list \<Rightarrow> int" where
  "group_retries cs \<equiv> sum_list (map (\<lambda>(_, c). ru_retries (pc_usage c)) cs)"

lemma sum_list_set:
  fixes xs :: "int list"
  shows "i < length xs \<Longrightarrow> sum_list (xs[i := xs ! i + v]) = sum_list xs + v"
  by (induction xs arbitrary: i) (auto split: nat.splits)

lemma retries_fold:
  assumes "foldM (\<lambda>retries ((i, _), cs). rbind (check_attempts None 1 (map snd cs)) (\<lambda>_.
      Inr (retries[i := retries ! i + group_retries cs]))) r0 gs = Inr r"
    and "\<forall>((i, _), _)\<in>set gs. i < length r0"
  shows "length r = length r0 \<and> sum_list r = sum_list r0 + sum_list (map (\<lambda>g. group_retries (snd g)) gs) \<and>
    (\<forall>g\<in>set gs. check_attempts None 1 (map snd (snd g)) = Inr ())"
  using assms
proof (induction gs arbitrary: r0)
  case (Cons g gs)
  obtain i k cs where g: "g = ((i, k), cs)" by (metis prod.exhaust)
  let ?r = "r0[i := r0 ! i + group_retries cs]"
  from Cons.prems g have ok: "check_attempts None 1 (map snd cs) = Inr ()" "i < length r0" and
    rest: "foldM (\<lambda>retries ((i, _), cs). rbind (check_attempts None 1 (map snd cs)) (\<lambda>_.
      Inr (retries[i := retries ! i + group_retries cs]))) ?r gs = Inr r"
    by (auto simp: rbind_eq_Inr)
  from Cons.IH [OF rest] Cons.prems(2) ok show ?case by (auto simp: g sum_list_set)
qed simp

lemma attempts_Inr:
  assumes "validate_contiguous_attempts identity m containing = Inr retries"
    and "length containing = length (mf_provider_calls m)"
    and "\<forall>i\<in>set containing. i < length (mf_node_executions m)"
  shows "length retries = length (mf_node_executions m)"
    and "sum_list retries = sum_list (map (\<lambda>c. ru_retries (pc_usage c)) (mf_provider_calls m))"
    and "\<forall>i k. let cs = map snd (filter (\<lambda>(j, c). j = i \<and> identity c = k) (zip containing (mf_provider_calls m)))
      in map pc_attempt cs = map int [1..<Suc (length cs)]"
proof -
  let ?z = "zip containing (mf_provider_calls m)" and ?key = "\<lambda>(i, c). (i, identity c)"
  have idx: "\<forall>((i, _), _)\<in>set (group_by ?key ?z). i < length (replicate (length (mf_node_executions m)) (0 :: int))"
    using assms(3) by (auto simp: group_by_mem dest!: set_zip_leftD)
  note f = retries_fold [OF assms(1) [unfolded validate_contiguous_attempts_def] idx]
  from f show "length retries = length (mf_node_executions m)" by simp
  have "sum_list (map (\<lambda>g. group_retries (snd g)) (group_by ?key ?z)) = group_retries ?z"
    by (rule group_by_sum)
  also have "\<dots> = sum_list (map (\<lambda>c. ru_retries (pc_usage c)) (map snd ?z))" by (simp add: comp_def case_prod_unfold)
  also have "map snd ?z = mf_provider_calls m" using assms(2) by simp
  finally show "sum_list retries = sum_list (map (\<lambda>c. ru_retries (pc_usage c)) (mf_provider_calls m))"
    using f by (simp add: sum_list_replicate)
  show "\<forall>i k. let cs = map snd (filter (\<lambda>(j, c). j = i \<and> identity c = k) ?z) in map pc_attempt cs = map int [1..<Suc (length cs)]"
  proof (intro allI)
    fix i k
    let ?g = "filter (\<lambda>x. ?key x = (i, k)) ?z"
    have e: "filter (\<lambda>(j, c). j = i \<and> identity c = k) ?z = ?g" by (rule filter_cong) auto
    have "map pc_attempt (map snd ?g) = map (\<lambda>i. 1 + int i) [0..<length (map snd ?g)]"
    proof (cases "(i, k) \<in> ?key ` set ?z")
      case True
      then have "((i, k), ?g) \<in> set (group_by ?key ?z)" by (simp add: group_by_mem)
      with f have "check_attempts None 1 (map snd ?g) = Inr ()" by fastforce
      then show ?thesis by (rule check_attempts_Inr)
    next
      case False
      then have "?g = []" by (auto simp: filter_empty_conv image_iff)
      then show ?thesis by (simp only:) simp
    qed
    moreover have "map (\<lambda>i. 1 + int i) [0..<n] = map int [1..<Suc n]" for n
      by (simp add: map_Suc_upt [symmetric] comp_def del: upt_Suc map_Suc_upt)
    ultimately show "let cs = map snd (filter (\<lambda>(j, c). j = i \<and> identity c = k) ?z) in map pc_attempt cs = map int [1..<Suc (length cs)]"
      unfolding e Let_def by simp
  qed
qed

section \<open>Usage\<close>

definition counters :: "(resource_usage \<Rightarrow> int) list" where
  "counters = ru_retries # additive_fields"

lemma aggregate_counter: "aggregate_usage us wall cost = Inr u \<Longrightarrow> f \<in> set counters \<Longrightarrow> f u = total_of f us"
  by (auto simp: aggregate_usage_def mk_usage_Inr counters_def additive_fields_def)

lemma aggregate_other: "aggregate_usage us wall cost = Inr u \<Longrightarrow> ru_wall_seconds u = wall \<and> ru_cost_usd u = cost"
  by (auto simp: aggregate_usage_def mk_usage_Inr)

lemma dict_sum:
  fixes g :: "'v \<Rightarrow> int"
  assumes "distinct (dkeys d)"
  shows "sum_list (map (\<lambda>p. g (snd p)) d) = (\<Sum>k\<in>set (dkeys d). g (the (dget d k)))"
  using assms
proof (induction d)
  case (Cons p d)
  have "(\<Sum>k\<in>set (dkeys d). g (the (dget (p # d) k))) = (\<Sum>k\<in>set (dkeys d). g (the (dget d k)))"
    using Cons.prems by (intro sum.cong) (auto split: if_splits intro: rev_image_eqI)
  with Cons show ?case by (cases p) simp
qed simp

lemma nodes_sum:
  fixes f :: "resource_usage \<Rightarrow> int"
  assumes "distinct (dkeys (mf_usage_by_node m))"
    and "set (dkeys (mf_usage_by_node m)) = set (dkeys (group_by ne_node (mf_node_executions m)))"
    and "\<forall>g\<in>set (group_by ne_node (mf_node_executions m)). check_node_usage m g = Inr ()"
    and "f \<in> set counters"
  shows "total_of f (dvalues (mf_usage_by_node m)) = total_of f (map ne_usage (mf_node_executions m))"
proof -
  let ?g = "group_by ne_node (mf_node_executions m)"
  have d: "distinct (dkeys ?g)" using group_by_keys by blast
  have "f (the (dget (mf_usage_by_node m) k)) = sum_list (map (\<lambda>e. f (ne_usage e)) (the (dget ?g k)))"
    if k: "k \<in> set (dkeys ?g)" for k
  proof -
    from k d obtain es where es: "(k, es) \<in> set ?g" "dget ?g k = Some es" by (auto simp: dget_iff_set)
    with assms(3) have "check_node_usage m (k, es) = Inr ()" by blast
    then obtain cost u where "dget (mf_usage_by_node m) k = Some u"
      "aggregate_usage (map ne_usage es) (longest_wall es) cost = Inr u"
      by (auto simp: check_node_usage_def rbind_eq_Inr require_Inr)
    with aggregate_counter [OF this(2) assms(4)] es(2) show ?thesis by (simp add: total_of_def comp_def)
  qed
  then have "(\<Sum>k\<in>set (dkeys (mf_usage_by_node m)). f (the (dget (mf_usage_by_node m) k))) =
      (\<Sum>k\<in>set (dkeys ?g). sum_list (map (\<lambda>e. f (ne_usage e)) (the (dget ?g k))))"
    unfolding assms(2) by (rule sum.cong [OF refl])
  then show ?thesis
    using dict_sum [OF assms(1), of f] dict_sum [OF d, of "\<lambda>es. sum_list (map (\<lambda>e. f (ne_usage e)) es)"]
      group_by_sum [of "\<lambda>e. f (ne_usage e)" ne_node "mf_node_executions m"]
    by (simp add: total_of_def comp_def)
qed

lemma calls_within:
  assumes "\<forall>g\<in>set (group_by fst (zip containing calls)). check_execution_usage es g = Inr ()"
    and "length containing = length calls" "\<forall>i\<in>set containing. i < length es"
    and "f \<in> set additive_fields" "\<forall>e\<in>set es. 0 \<le> f (ne_usage e)"
  shows "sum_list (map (\<lambda>c. f (pc_usage c)) calls) \<le> total_of f (map ne_usage es)"
proof -
  let ?z = "zip containing calls" and ?val = "\<lambda>xs. sum_list (map (\<lambda>(_, c). f (pc_usage c)) xs)"
  let ?g = "group_by fst ?z"
  have d: "distinct (dkeys ?g)" "set (dkeys ?g) = set containing"
    using group_by_keys [of fst ?z] assms(2) by (auto simp flip: set_map)
  have "sum_list (map (\<lambda>c. f (pc_usage c)) calls) = sum_list (map (\<lambda>c. f (pc_usage c)) (map snd ?z))"
    using assms(2) by simp
  also have "\<dots> = ?val ?z" by (simp add: comp_def case_prod_unfold)
  also have "\<dots> = (\<Sum>i\<in>set containing. ?val (the (dget ?g i)))"
    using group_by_sum [of "\<lambda>(_, c). f (pc_usage c)" fst ?z] dict_sum [OF d(1), of ?val] d(2) by simp
  also have "\<dots> \<le> (\<Sum>i\<in>set containing. f (ne_usage (es ! i)))"
  proof (rule sum_mono)
    fix i
    assume "i \<in> set containing"
    with d have "dget ?g i \<noteq> None" by (simp add: map_of_eq_None_iff)
    then obtain xs where xs: "(i, xs) \<in> set ?g" "dget ?g i = Some xs" by (auto dest: map_of_SomeD)
    with assms(1) have "check_execution_usage es (i, xs) = Inr ()" by blast
    with assms(4) xs(2) show "?val (the (dget ?g i)) \<le> f (ne_usage (es ! i))"
      by (auto simp: check_execution_usage_def check_each_Inr require_Inr)
  qed
  also have "\<dots> \<le> (\<Sum>i<length es. f (ne_usage (es ! i)))"
    using assms(3,5) by (intro sum_mono2) auto
  also have "\<dots> = total_of f (map ne_usage es)"
    by (simp add: total_of_def comp_def sum_list_sum_nth atLeast0LessThan)
  finally show ?thesis .
qed

section \<open>Costs\<close>

definition priced_call :: "(string \<times> string \<times> string option, pricing_snapshot) dict \<Rightarrow> provider_call \<Rightarrow> bool" where
  "priced_call prices c \<longleftrightarrow>
     (\<exists>p. dget prices (call_price_key c) = Some p \<and> pc_pricing_snapshot_id c = Some (ps_snapshot_id p) \<and>
        (if pc_cache_hit c then pc_estimated_cost_usd c = Some (Fin 0)
         else \<exists>cost. estimate_cost (pc_usage c) p = Inr cost \<and> pc_estimated_cost_usd c = Some (cb_total_usd cost)))"

lemma charge_call_Inr:
  assumes "charge_call prices a c = Inr b"
  shows "priced_call prices c \<and> b = (if pc_cache_hit c then a else dadd a (the (pc_estimated_cost_usd c)))"
proof -
  from assms obtain p where p: "dget prices (call_price_key c) = Some p"
    by (cases "dget prices (call_price_key c)") (simp_all add: charge_call_def)
  with assms have id: "pc_pricing_snapshot_id c = Some (ps_snapshot_id p)"
    by (rule_tac ccontr) (simp add: charge_call_def)
  show ?thesis
  proof (cases "pc_cache_hit c")
    case True
    with assms p id have "pc_estimated_cost_usd c = Some (Fin 0)" by (rule_tac ccontr) (simp add: charge_call_def)
    with assms p id True show ?thesis by (simp add: charge_call_def priced_call_def)
  next
    case False
    with assms p id obtain cost where cost: "estimate_cost (pc_usage c) p = Inr cost"
      by (auto simp: charge_call_def rbind_eq_Inr)
    with assms p id False have "pc_estimated_cost_usd c = Some (cb_total_usd cost)"
      by (rule_tac ccontr) (simp add: charge_call_def)
    with assms p id False cost show ?thesis by (simp add: charge_call_def priced_call_def)
  qed
qed

lemma charge_fold:
  assumes "foldM (charge_call prices) a cs = Inr b"
  shows "b = foldl dadd a (map (\<lambda>c. the (pc_estimated_cost_usd c)) (filter (\<lambda>c. \<not> pc_cache_hit c) cs)) \<and>
    (\<forall>c\<in>set cs. priced_call prices c)"
  using assms
proof (induction cs arbitrary: a)
  case (Cons c cs)
  from Cons.prems obtain a' where a': "charge_call prices a c = Inr a'" "foldM (charge_call prices) a' cs = Inr b"
    by (auto simp: rbind_eq_Inr)
  from Cons.IH [OF a'(2)] charge_call_Inr [OF a'(1)] show ?case by auto
qed simp

lemma index_prices_Inr:
  assumes "index_prices ps = Inr d"
  shows "distinct (map price_key ps) \<and> (\<forall>k p. dget d k = Some p \<longrightarrow> p \<in> set ps \<and> price_key p = k)"
proof -
  let ?step = "\<lambda>(d, ids) p. if dget d (price_key p) \<noteq> None \<or> ps_snapshot_id p \<in> ids
      then Inl (ValueError ''pricing snapshots must be unique by model and snapshot_id'')
      else Inr (dput (price_key p) p d, insert (ps_snapshot_id p) ids)"
  have "distinct (map price_key xs) \<and> price_key ` set xs \<inter> dom (dget d0) = {} \<and>
      (\<forall>k p. dget d k = Some p \<longrightarrow> dget d0 k = Some p \<or> p \<in> set xs \<and> price_key p = k)"
    if "foldM ?step (d0, ids0) xs = Inr (d, ids)" for d0 ids0 xs ids
    using that
  proof (induction xs arbitrary: d0 ids0)
    case (Cons x xs)
    have "\<not> (dget d0 (price_key x) \<noteq> None \<or> ps_snapshot_id x \<in> ids0)"
      using Cons.prems by (rule_tac notI) simp
    then have new: "dget d0 (price_key x) = None"
      and rest: "foldM ?step (dput (price_key x) x d0, insert (ps_snapshot_id x) ids0) xs = Inr (d, ids)"
      using Cons.prems by simp_all
    note IH = Cons.IH [OF rest]
    from IH new have "distinct (map price_key (x # xs)) \<and> price_key ` set (x # xs) \<inter> dom (dget d0) = {}" by auto
    moreover have "dget d0 k = Some p \<or> p \<in> set (x # xs) \<and> price_key p = k" if "dget d k = Some p" for k p
    proof -
      from IH that have "dget (dput (price_key x) x d0) k = Some p \<or> p \<in> set xs \<and> price_key p = k" by blast
      then show ?thesis by (cases "k = price_key x") auto
    qed
    ultimately show ?case by blast
  qed simp
  moreover from assms obtain ids where "foldM ?step ([], {}) ps = Inr (d, ids)"
    by (auto simp: index_prices_def rbind_eq_Inr)
  ultimately show ?thesis by fastforce
qed

section \<open>Accepted manifests\<close>

text \<open>The checks do not read the hash.\<close>

abbreviation rehashed :: "run_manifest \<Rightarrow> string \<Rightarrow> run_manifest" where
  "rehashed m h \<equiv> m\<lparr>mf_manifest_sha256 := h\<rparr>"

lemma rehashed_fields:
  "mf_node_executions (rehashed m h) = mf_node_executions m"
  "mf_provider_calls (rehashed m h) = mf_provider_calls m"
  "mf_usage (rehashed m h) = mf_usage m"
  "mf_budget (rehashed m h) = mf_budget m"
  "mf_usage_by_node (rehashed m h) = mf_usage_by_node m"
  "mf_pricing_status (rehashed m h) = mf_pricing_status m"
  "mf_pricing_snapshots (rehashed m h) = mf_pricing_snapshots m"
  "mf_started_at (rehashed m h) = mf_started_at m"
  "mf_finished_at (rehashed m h) = mf_finished_at m"
  "mf_seed (rehashed m h) = mf_seed m"
  "mf_seed_supported (rehashed m h) = mf_seed_supported m"
  "mf_cache_hit_count (rehashed m h) = mf_cache_hit_count m"
  "mf_model_ids (rehashed m h) = mf_model_ids m"
  "mf_parsed_artifacts (rehashed m h) = mf_parsed_artifacts m"
  "mf_evidence_hashes (rehashed m h) = mf_evidence_hashes m"
  "mf_artifact_ids (rehashed m h) = mf_artifact_ids m"
  by simp_all

lemma rehashed_history: "validate_execution_history (rehashed m h) = validate_execution_history m"
proof -
  have e: "in_envelope (rehashed m h) = in_envelope m" by (rule ext) (simp add: in_envelope_def)
  show ?thesis by (simp only: validate_execution_history_def e rehashed_fields)
qed

lemma rehashed_attempts: "validate_contiguous_attempts identity (rehashed m h) = validate_contiguous_attempts identity m"
  by (rule ext) (simp only: validate_contiguous_attempts_def rehashed_fields)

lemma rehashed_usage: "validate_usage_reconciliation (rehashed m h) = validate_usage_reconciliation m"
proof -
  have "check_node_usage (rehashed m h) = check_node_usage m"
    by (rule ext) (simp only: check_node_usage_def rehashed_fields)
  then show ?thesis by (intro ext) (simp only: validate_usage_reconciliation_def rehashed_fields)
qed

lemma rehashed_pricing: "validate_pricing (rehashed m h) = validate_pricing m"
  by (simp only: validate_pricing_def model_calls_def rehashed_fields)

lemma rehashed_limits: "validate_budget_limits (rehashed m h) = validate_budget_limits m"
  by (simp only: validate_budget_limits_def rehashed_fields)

lemma reconcile_updated: "reconcile identity (rehashed m h) = reconcile identity m"
  by (simp only: reconcile_def rehashed_history rehashed_attempts rehashed_usage rehashed_pricing rehashed_limits
      record_artifacts_def model_calls_def rehashed_fields)

lemma guard_Inr: "(if c then Inl e else x) = Inr y \<longleftrightarrow> \<not> c \<and> x = Inr y"
  by simp

definition within_limits :: "run_budget \<Rightarrow> resource_usage \<Rightarrow> bool" where
  "within_limits b u \<longleftrightarrow>
     ru_total_tokens u \<le> rb_max_total_tokens b \<and> ru_search_calls u \<le> rb_max_search_calls b \<and>
     ru_pages u \<le> rb_max_pages b \<and> ru_retries u \<le> rb_max_retries b \<and>
     \<not> flt (Fin (of_int (rb_max_wall_time_seconds b))) (ru_wall_seconds u) \<and>
     (case (rb_max_cost_usd b, ru_cost_usd u) of (Some limit, Some cost) \<Rightarrow> \<not> flt limit cost | _ \<Rightarrow> True)"

lemma limits_Inr: "validate_budget_limits m = Inr () \<Longrightarrow> within_limits (mf_budget m) (mf_usage m)"
proof -
  assume "validate_budget_limits m = Inr ()"
  then have v: "\<not> rb_max_total_tokens (mf_budget m) < ru_total_tokens (mf_usage m)"
      "\<not> rb_max_search_calls (mf_budget m) < ru_search_calls (mf_usage m)"
      "\<not> rb_max_pages (mf_budget m) < ru_pages (mf_usage m)" "\<not> rb_max_retries (mf_budget m) < ru_retries (mf_usage m)"
      "\<not> flt (Fin (of_int (rb_max_wall_time_seconds (mf_budget m)))) (ru_wall_seconds (mf_usage m))"
    and c: "(case (rb_max_cost_usd (mf_budget m), ru_cost_usd (mf_usage m)) of
        (Some limit, Some cost) \<Rightarrow> if flt limit cost then Inl (ValueError ''manifest cost exceeds budget'') else Inr ()
      | _ \<Rightarrow> Inr ()) = Inr ()"
    unfolding validate_budget_limits_def Let_def guard_Inr by blast+
  from c have "case (rb_max_cost_usd (mf_budget m), ru_cost_usd (mf_usage m)) of (Some limit, Some cost) \<Rightarrow> \<not> flt limit cost | _ \<Rightarrow> True"
    by (cases "rb_max_cost_usd (mf_budget m)"; cases "ru_cost_usd (mf_usage m)") (simp_all split: if_splits)
  with v show ?thesis unfolding within_limits_def not_less by blast
qed

definition reconciled_usage :: "run_manifest \<Rightarrow> bool" where
  "reconciled_usage m \<longleftrightarrow>
     (\<forall>f\<in>set counters. f (mf_usage m) = total_of f (map ne_usage (mf_node_executions m))) \<and>
     (\<forall>f\<in>set additive_fields. total_of f (map pc_usage (mf_provider_calls m)) \<le> f (mf_usage m)) \<and>
     ru_retries (mf_usage m) = total_of ru_retries (map pc_usage (mf_provider_calls m))"

lemma reconciliation_Inr:
  assumes "validate_execution_history m = Inr containing" "validate_contiguous_attempts identity m containing = Inr retries"
    and "validate_usage_reconciliation m containing retries = Inr ()"
    and "distinct (dkeys (mf_usage_by_node m))" "\<forall>e\<in>set (mf_node_executions m). valid_usage (ne_usage e)"
  shows "reconciled_usage m"
proof -
  let ?es = "mf_node_executions m" and ?u = "mf_usage m"
  note h = history_Inr(1) [OF assms(1)]
  have len: "length containing = length (mf_provider_calls m)" using h by (simp add: list_all2_lengthD)
  have idx: "\<forall>i\<in>set containing. i < length ?es"
    using h by (rule history_index)
  note r = attempts_Inr(1,2) [OF assms(2) len idx]
  from assms(3) obtain cost expected where
    ex: "\<forall>g\<in>set (group_by fst (zip containing (mf_provider_calls m))). check_execution_usage ?es g = Inr ()"
      "\<forall>i<length ?es. ru_retries (ne_usage (?es ! i)) = retries ! i"
    and nodes: "set (dkeys (mf_usage_by_node m)) = set (dkeys (group_by ne_node ?es))"
      "\<forall>g\<in>set (group_by ne_node ?es). check_node_usage m g = Inr ()"
    and run: "aggregate_usage (dvalues (mf_usage_by_node m)) (ru_wall_seconds ?u) cost = Inr expected" "?u = expected"
    by (auto simp: validate_usage_reconciliation_def Let_def rbind_eq_Inr check_each_Inr require_Inr split: if_splits)
  have sums: "f ?u = total_of f (map ne_usage ?es)" if "f \<in> set counters" for f
    using aggregate_counter [OF run(1) that] nodes_sum [OF assms(4) nodes that] run(2) by simp
  have nonneg: "\<forall>e\<in>set ?es. 0 \<le> f (ne_usage e)" if "f \<in> set additive_fields" for f
    using assms(5) that by (auto simp: additive_fields_def valid_usage_def usage_fields_ok_def)
  have "total_of f (map pc_usage (mf_provider_calls m)) \<le> f ?u" if "f \<in> set additive_fields" for f
    using calls_within [OF ex(1) len idx that nonneg [OF that]] sums [of f] that
    by (simp add: counters_def total_of_def comp_def)
  moreover have "map (\<lambda>e. ru_retries (ne_usage e)) ?es = retries"
    using ex(2) r(1) by (intro nth_equalityI) auto
  with sums [of ru_retries] r(2) have "ru_retries ?u = total_of ru_retries (map pc_usage (mf_provider_calls m))"
    by (simp add: counters_def total_of_def comp_def)
  ultimately show ?thesis using sums by (simp add: reconciled_usage_def)
qed

definition priced_run :: "run_manifest \<Rightarrow> bool" where
  "priced_run m \<longleftrightarrow>
     (case mf_pricing_status m of
        UnknownPricing \<Rightarrow> ru_cost_usd (mf_usage m) = None \<and> (\<forall>c\<in>set (model_calls m). pc_estimated_cost_usd c = None)
      | Estimated \<Rightarrow>
          distinct (map price_key (mf_pricing_snapshots m)) \<and>
          (\<forall>c\<in>set (model_calls m). \<exists>p\<in>set (mf_pricing_snapshots m). price_key p = call_price_key c \<and>
             (if pc_cache_hit c then pc_estimated_cost_usd c = Some (Fin 0)
              else \<exists>cost. estimate_cost (pc_usage c) p = Inr cost \<and> pc_estimated_cost_usd c = Some (cb_total_usd cost))) \<and>
          (\<exists>q. ru_cost_usd (mf_usage m) = Some q \<and>
             quantize (foldl dadd (Fin 0) (map (\<lambda>c. the (pc_estimated_cost_usd c))
               (filter (\<lambda>c. \<not> pc_cache_hit c) (model_calls m)))) = Inr q))"

lemma pricing_Inr: "validate_pricing m = Inr () \<Longrightarrow> priced_run m"
proof (cases "mf_pricing_status m")
  case Estimated
  assume "validate_pricing m = Inr ()"
  with Estimated obtain prices charged q where p: "index_prices (mf_pricing_snapshots m) = Inr prices"
    "foldM (charge_call prices) (Fin 0) (model_calls m) = Inr charged" "quantize charged = Inr q" "ru_cost_usd (mf_usage m) = Some q"
    by (auto simp: validate_pricing_def rbind_eq_Inr require_Inr split: if_splits)
  note i = index_prices_Inr [OF p(1)] and c = charge_fold [OF p(2)]
  have "\<exists>p\<in>set (mf_pricing_snapshots m). price_key p = call_price_key c \<and>
      (if pc_cache_hit c then pc_estimated_cost_usd c = Some (Fin 0)
       else \<exists>cost. estimate_cost (pc_usage c) p = Inr cost \<and> pc_estimated_cost_usd c = Some (cb_total_usd cost))"
    if "c \<in> set (model_calls m)" for c
    using that c i unfolding priced_call_def by blast
  with Estimated i c p show ?thesis by (simp add: priced_run_def)
next
  case UnknownPricing
  assume "validate_pricing m = Inr ()"
  with UnknownPricing show ?thesis by (auto simp: validate_pricing_def priced_run_def list_all_iff split: if_splits)
qed

text \<open>
  C35. An accepted manifest is consistent.  When every node execution in it was built by its
  constructor and validation accepts it, its token, search, page and retry counts are the sums over
  the node executions, cover the provider calls and keep to the budget, the retries are those of
  the calls, and the cost is None or the rounded sum of what the only matching prices make of the
  calls that were no cache hits; every call starts and ends in exactly one execution of its node,
  executions of a node are numbered from one within the run, and so are the attempts of one
  invocation in an execution; and the result carries the hash of the content and is accepted again.
\<close>

theorem manifest_consistent:
  assumes "validate_manifest sha identity rehash m = Inr m'"
    and "\<forall>e\<in>set (mf_node_executions m). mk_node_execution e = Inr e"
    and "hex_string 64 (content_sha256 sha m)"
  shows "reconciled_usage m \<and> priced_run m \<and> within_limits (mf_budget m) (mf_usage m) \<and>
    (\<forall>e\<in>set (mf_node_executions m). in_envelope m e) \<and>
    (\<forall>n. let es = filter (\<lambda>e. ne_node e = n) (mf_node_executions m) in map ne_attempt es = map int [1..<Suc (length es)]) \<and>
    (\<exists>containing. list_all2 (\<lambda>c i. \<forall>j < length (mf_node_executions m). contains_call (mf_node_executions m ! j) c = (j = i))
        (mf_provider_calls m) containing \<and>
      (\<forall>i k. let cs = map snd (filter (\<lambda>(j, c). j = i \<and> identity c = k) (zip containing (mf_provider_calls m)))
        in map pc_attempt cs = map int [1..<Suc (length cs)])) \<and>
    m' = m\<lparr>mf_manifest_sha256 := content_sha256 sha m\<rparr> \<and> validate_manifest sha identity False m' = Inr m'"
proof -
  from assms(1) have fields: "manifest_fields_ok m" and rec: "reconcile identity m = Inr ()"
    and m': "m' = m\<lparr>mf_manifest_sha256 := content_sha256 sha m\<rparr>"
    by (auto simp: validate_manifest_def rbind_eq_Inr Let_def split: if_splits)
  from rec obtain containing retries where
    h: "validate_execution_history m = Inr containing" and a: "validate_contiguous_attempts identity m containing = Inr retries"
    and u: "validate_usage_reconciliation m containing retries = Inr ()" and p: "validate_pricing m = Inr ()"
    and l: "validate_budget_limits m = Inr ()"
    by (auto simp: reconcile_def rbind_eq_Inr split: if_splits)
  have usage: "valid_usage (ne_usage e)" if "e \<in> set (mf_node_executions m)" for e
    using assms(2) that by (auto simp: mk_node_execution_def revalidate_usage_def rbind_eq_Inr mk_usage_Inr split: if_splits)
  have keys: "distinct (dkeys (mf_usage_by_node m))" using fields by (simp add: manifest_fields_ok_def)
  note hist = history_Inr [OF h]
  have each: "list_all2 (\<lambda>c i. \<forall>j < length (mf_node_executions m). contains_call (mf_node_executions m ! j) c = (j = i))
      (mf_provider_calls m) containing"
    using hist(1) by (rule list_all2_mono) (use containing_execution_Inr in blast)
  have idx: "\<forall>i\<in>set containing. i < length (mf_node_executions m)"
    using hist(1) by (rule history_index)
  note att = attempts_Inr(3) [OF a list_all2_lengthD [OF hist(1), symmetric] idx]
  have sha: "content_sha256 sha m' = content_sha256 sha m" by (simp add: m' content_sha256_def)
  have ne: "content_sha256 sha m \<noteq> []" using assms(3) by (auto simp: hex_string_def)
  have "manifest_fields_ok m'" using fields assms(3) by (simp add: m' manifest_fields_ok_def)
  moreover have "reconcile identity m' = Inr ()" using rec unfolding m' by (simp only: reconcile_updated)
  ultimately have "validate_manifest sha identity False m' = Inr m'"
    using sha ne by (simp add: validate_manifest_def m' Let_def)
  moreover have "\<forall>n. let es = filter (\<lambda>e. ne_node e = n) (mf_node_executions m) in map ne_attempt es = map int [1..<Suc (length es)]"
    using hist(3) unfolding Let_def .
  moreover have "reconciled_usage m" by (rule reconciliation_Inr [OF h a u keys]) (use usage in blast)
  ultimately show ?thesis
    using pricing_Inr [OF p] limits_Inr [OF l] hist(2) each att m' by blast
qed

definition instant :: "rat \<Rightarrow> timestamp" where
  "instant t = \<lparr>ts_utc_offset = Some 0, ts_instant = t\<rparr>"

definition demo_price :: pricing_snapshot where
  "demo_price = \<lparr>ps_snapshot_id = ''p1'', ps_provider_id = ''openai'', ps_endpoint_type = ''complete'', ps_model_id = ''m'',
     ps_effective_at = instant 0, ps_input_price = Fin 0, ps_output_price = Fin 0, ps_cached_price = Fin 0, ps_reasoning_price = Fin 0\<rparr>"

definition demo_call_usage :: "decimal option \<Rightarrow> resource_usage" where
  "demo_call_usage cost = \<lparr>ru_input_tokens = 10, ru_output_tokens = 5, ru_reasoning_tokens = 0, ru_cached_tokens = 0, ru_total_tokens = 15,
     ru_search_calls = 0, ru_pages = 0, ru_retries = 1, ru_wall_seconds = Fin (1 / 2), ru_cost_usd = cost\<rparr>"

definition demo_hash :: string where
  "demo_hash = replicate 64 CHR ''a''"

definition demo_call :: provider_call where
  "demo_call = \<lparr>pc_operation = ModelCall, pc_node = ''Plan'', pc_provider_id = ''openai'', pc_endpoint_type = ''complete'',
     pc_model_id = Some ''m'', pc_model_revision = Some ''1'', pc_request_sha256 = demo_hash, pc_snapshot_id = None,
     pc_normalized_query = None, pc_locale = None, pc_complete_parameters = [(''seed_supported'', JBool True)], pc_time_policy = None,
     pc_prompt_version = Some ''v1'', pc_system_prompt_hash = Some demo_hash, pc_tool_schema_hash = Some demo_hash,
     pc_output_schema_hash = Some demo_hash, pc_temperature = Some (Fin 0), pc_seed = None, pc_started_at = instant 0,
     pc_finished_at = instant (1 / 2), pc_latency_ms = 500, pc_attempt = 1, pc_cache_hit = False, pc_outcome_code = ''SUCCESS'',
     pc_usage = demo_call_usage (Some (Fin 0)), pc_pricing_snapshot_id = Some ''p1'',
     pc_estimated_cost_usd = Some (Fin 0)\<rparr>"

definition demo_execution :: node_execution where
  "demo_execution = \<lparr>ne_node = ''Plan'', ne_attempt = 1, ne_started_at = instant 0, ne_finished_at = instant 1, ne_latency_ms = 1000,
     ne_status = Completed, ne_input_artifact_ids = [], ne_output_artifact_ids = [], ne_usage = demo_call_usage (Some (Fin 0)),
     ne_error_code = None\<rparr>"

definition demo_manifest :: run_manifest where
  "demo_manifest = \<lparr>mf_run_id = ''r'', mf_thread_id = ''t'', mf_code_commit = replicate 40 CHR ''a'', mf_dependency_lock_sha256 = demo_hash,
     mf_request_sha256 = demo_hash, mf_config_sha256 = demo_hash, mf_workflow_id = BaselineV1, mf_graph_version = ''g'', mf_planner_id = P1,
     mf_provider_profiles = [], mf_model_ids = [''m''], mf_prompt_versions = [], mf_parser_versions = [], mf_ranker_id = R1,
     mf_ranker_weights_version = None, mf_budget = preset Low, mf_usage = demo_call_usage (Some (Fin 0)),
     mf_usage_by_node = [(''Plan'', demo_call_usage (Some (Fin 0)))], mf_pricing_status = Estimated,
     mf_pricing_snapshots = [demo_price], mf_provider_calls = [demo_call], mf_node_executions = [demo_execution],
     mf_parsed_artifacts = [], mf_evidence_hashes = [], mf_source_snapshot_ids = [], mf_artifact_ids = [], mf_run_event_count = 1,
     mf_run_events_sha256 = demo_hash, mf_seed = None, mf_seed_supported = True, mf_cache_hit_count = 0, mf_stop_reason = None,
     mf_is_partial = False, mf_failure_codes = [], mf_replay_parent = None, mf_started_at = instant 0, mf_finished_at = instant 1,
     mf_manifest_sha256 = []\<rparr>"

lemma demo_strings:
  "hex_string 64 demo_hash" "hex_string 40 (replicate 40 CHR ''a'')" "is_identifier ''r''" "is_identifier ''t''" "is_identifier ''g''"
  "is_identifier ''m''" "is_identifier ''Plan''"
  by (simp_all add: hex_string_def demo_hash_def lower_hex_def list_all_iff is_identifier_def alnum_def)

lemma demo_usage: "revalidate_usage (demo_call_usage (Some (Fin 0))) = Inr (demo_call_usage (Some (Fin 0)))"
  by (simp add: revalidate_usage_def demo_call_usage_def mk_usage_def usage_fields_ok_def validate_totals_def)

lemmas demo_simps = demo_manifest_def demo_call_def demo_execution_def demo_price_def instant_def

lemma demo_ms: "measured_ms (instant 0) (instant 1) = Inr 1000" "total_seconds (instant 0) (instant 1) = Fin 1"
  by (simp_all add: measured_ms_def total_seconds_def instant_def fl_def rnd_numeral rhe_of_int [of 1000, simplified])

lemma demo_manifest_fields: "manifest_fields_ok demo_manifest" "mk_node_execution demo_execution = Inr demo_execution"
  using demo_ms demo_usage demo_strings
  by (simp_all add: manifest_fields_ok_def mk_node_execution_def demo_manifest_def demo_execution_def is_git_commit_def
      is_aware_def artifact_references_def instant_def)

lemma demo_manifest_history:
  "validate_execution_history demo_manifest = Inr [0]"
  "validate_contiguous_attempts (\<lambda>_. []) demo_manifest [0] = Inr [1]"
  by (simp_all add: validate_execution_history_def validate_contiguous_attempts_def check_each_def group_by_def in_envelope_def
      check_attempt_order_def containing_execution_def contains_call_def require_def demo_simps demo_call_usage_def)

lemma demo_cost: "charged_cost Estimated [demo_call] = Inr (Some (Fin 0))"
  by (simp add: charged_cost_def demo_call_def)

lemma demo_aggregate: "aggregate_usage [demo_call_usage (Some (Fin 0))] (Fin (1 / 2)) (Some (Fin 0)) = Inr (demo_call_usage (Some (Fin 0)))"
  by (simp add: aggregate_usage_def total_of_def demo_call_usage_def mk_usage_def usage_fields_ok_def validate_totals_def)

lemma demo_manifest_usage: "validate_usage_reconciliation demo_manifest [0] [1] = Inr ()"
proof -
  have f: "pc_node demo_call = ''Plan''" by (simp add: demo_call_def)
  have w: "ru_wall_seconds (demo_call_usage (Some (Fin 0))) = Fin (1 / 2)" "ru_retries (demo_call_usage (Some (Fin 0))) = 1"
    by (simp_all add: demo_call_usage_def)
  have e: "ne_node demo_execution = ''Plan''" "ne_usage demo_execution = demo_call_usage (Some (Fin 0))"
    "pc_usage demo_call = demo_call_usage (Some (Fin 0))"
    by (simp_all add: demo_execution_def demo_call_def)
  have m: "mf_provider_calls demo_manifest = [demo_call]" "mf_node_executions demo_manifest = [demo_execution]"
    "mf_usage_by_node demo_manifest = [(''Plan'', demo_call_usage (Some (Fin 0)))]" "mf_pricing_status demo_manifest = Estimated"
    "mf_usage demo_manifest = demo_call_usage (Some (Fin 0))" "mf_started_at demo_manifest = instant 0"
    "mf_finished_at demo_manifest = instant 1"
    by (simp_all add: demo_manifest_def)
  show ?thesis
    by (simp add: validate_usage_reconciliation_def check_each_def group_by_def check_execution_usage_def additive_fields_def
        check_node_usage_def require_def m e f w demo_cost demo_aggregate demo_ms Let_def)
qed

lemma demo_manifest_price: "validate_pricing demo_manifest = Inr ()" "validate_budget_limits demo_manifest = Inr ()"
proof -
  have "estimate_cost (demo_call_usage (Some (Fin 0))) demo_price = Inr \<lparr>cb_pricing_snapshot_id = ''p1'', cb_input_usd = Fin 0,
      cb_cached_input_usd = Fin 0, cb_output_usd = Fin 0, cb_reasoning_usd = Fin 0, cb_total_usd = Fin 0\<rparr>"
    by (simp add: estimate_cost_def demo_usage priced_def demo_price_def mk_cost_breakdown_def nonneg_decimal_def Let_def)
  then show "validate_pricing demo_manifest = Inr ()"
    by (simp add: validate_pricing_def index_prices_def model_calls_def demo_manifest_def price_key_def call_price_key_def
        charge_call_def require_def) (simp add: demo_simps price_key_def call_price_key_def charge_call_def demo_call_usage_def require_def)
  show "validate_budget_limits demo_manifest = Inr ()"
    by (simp add: validate_budget_limits_def demo_manifest_def demo_call_usage_def preset_def)
qed

lemma demo_manifest_accepted:
  "validate_manifest (\<lambda>_. demo_hash) (\<lambda>_. []) True demo_manifest = Inr (rehashed demo_manifest demo_hash)"
proof -
  have "reconcile (\<lambda>_. []) demo_manifest = Inr ()"
    unfolding reconcile_def demo_manifest_history demo_manifest_usage demo_manifest_price rbind_Inr
    by (simp add: demo_manifest_def demo_call_def demo_execution_def instant_def model_calls_def record_artifacts_def
        require_def List.map_filter_def demo_manifest_history [unfolded demo_manifest_def])
  then show ?thesis using demo_manifest_fields(1)
    by (simp add: validate_manifest_def content_sha256_def Let_def) (simp add: demo_manifest_def)
qed

theorem manifest_consistent_witness:
  "reconciled_usage demo_manifest \<and> priced_run demo_manifest \<and>
   validate_manifest (\<lambda>_. demo_hash) (\<lambda>_. []) False (rehashed demo_manifest demo_hash) = Inr (rehashed demo_manifest demo_hash)"
proof -
  have "\<forall>e\<in>set (mf_node_executions demo_manifest). mk_node_execution e = Inr e"
    using demo_manifest_fields(2) by (simp add: demo_manifest_def)
  moreover have "hex_string 64 (content_sha256 (\<lambda>_. demo_hash) demo_manifest)" by code_simp
  ultimately show ?thesis using manifest_consistent [OF demo_manifest_accepted] by blast
qed

end
