(* ===== verification/Metered_Call.thy ===== *)
theory Metered_Call
  imports Budget_Correct Provider_Errors State_Machine
begin

text \<open>
  A metered provider call of the workflow (\<^verbatim>\<open>_invoke_metered\<close> and what it uses, in
  \<^verbatim>\<open>src/src/deepresearch/workflow/baseline_graph.py\<close>): reserve the budget, call the provider, settle
  or release, and leave a fact from which the budget can be rebuilt after a crash.  The readings of
  the clock, the answer of the provider and of its usage observer, the cost resolver, and what
  publishing an audit record raises are arguments.
\<close>

section \<open>Deadline and elapsed time\<close>

datatype call_failure =
    CallCancelled | CallProvider provider_error | CallBudget budget_error | CallUsageIntegrity
  | CallArtifact | CallRaised exc | CallStopped

record run_context =
  cx_budget :: run_budget
  cx_token :: cancellation_token
  cx_deadline :: pyfloat
  cx_started :: pyfloat
  cx_base :: pyfloat
  cx_offset :: pyfloat

definition timeout_error :: "string \<Rightarrow> call_failure" where
  "timeout_error operation =
     CallProvider \<lparr>pe_code = Timeout, pe_provider = ''workflow'', pe_operation = operation,
       pe_public_message = ''workflow deadline expired'', pe_retryable = False, pe_retry_after = None, pe_usage = None\<rparr>"

definition wall_limit :: "run_context \<Rightarrow> pyfloat" where
  "wall_limit ctx = fl (of_int (rb_max_wall_time_seconds (cx_budget ctx)))"

definition effective_deadline :: "run_context \<Rightarrow> call_failure + pyfloat" where
  "effective_deadline ctx =
     (let effective = fsub (cx_deadline ctx) (cx_offset ctx) in
      if \<not> isfinite effective then Inl (timeout_error ''deadline'')
      else if fle (Fin (of_int (rb_max_wall_time_seconds (cx_budget ctx)))) (fadd (cx_base ctx) (cx_offset ctx)) then Inr (fmin effective (cx_started ctx))
      else Inr effective)"

definition ensure_active :: "run_context \<Rightarrow> string \<Rightarrow> pyfloat \<Rightarrow> call_failure + pyfloat" where
  "ensure_active ctx operation now =
     (case raise_if_cancelled (cx_token ctx) of
        Inl _ \<Rightarrow> Inl CallCancelled
      | Inr _ \<Rightarrow>
          rbind (effective_deadline ctx) (\<lambda>effective.
            if \<not> isfinite now \<or> fle effective now then Inl (timeout_error operation) else Inr now))"

definition elapsed_wall_seconds :: "run_context \<Rightarrow> pyfloat \<Rightarrow> pyfloat" where
  "elapsed_wall_seconds ctx now =
     (let base = fadd (cx_base ctx) (cx_offset ctx);
          delta0 = fsub now (cx_started ctx);
          delta = (if \<not> isfinite delta0 \<or> flt delta0 (Fin 0) then Fin 0 else delta0);
          elapsed0 = fadd base delta;
          remaining = fmax (Fin 0) (fsub (wall_limit ctx) base);
          wall_deadline = fadd (cx_started ctx) remaining;
          elapsed = (if isfinite now \<and> fle wall_deadline now then fmax elapsed0 (wall_limit ctx) else elapsed0)
      in if isfinite elapsed then elapsed else base)"

text \<open>\<^verbatim>\<open>_ElapsedTracker.recover\<close>\<close>

definition recover_elapsed :: "run_context \<Rightarrow> pyfloat \<Rightarrow> run_context" where
  "recover_elapsed ctx elapsed = ctx\<lparr>cx_offset := fmax (cx_offset ctx) (fsub elapsed (cx_base ctx))\<rparr>"

section \<open>Reserving and settling\<close>

type_synonym cost_resolver = "string \<Rightarrow> string \<Rightarrow> string option \<Rightarrow> string \<Rightarrow> resource_usage \<Rightarrow> exc + decimal option"

record call_request =
  cq_operation :: string
  cq_provider_id :: string
  cq_model_id :: "string option"
  cq_node :: string
  cq_operation_id :: string
  cq_search_calls :: int
  cq_pages :: int
  cq_tokens :: int
  cq_input_tokens :: "int option"
  cq_output_tokens :: int
  cq_fallback_usage :: resource_usage
  cq_call_fields :: bool

definition raised :: "exc + 'a \<Rightarrow> call_failure + 'a" where
  "raised m = (case m of Inl e \<Rightarrow> Inl (CallRaised e) | Inr x \<Rightarrow> Inr x)"

definition preflight :: "(string \<Rightarrow> string) \<Rightarrow> nat \<Rightarrow> cost_resolver \<Rightarrow> run_context \<Rightarrow> call_request \<Rightarrow> accountant \<Rightarrow>
    int \<Rightarrow> pyfloat \<Rightarrow> call_failure + budget_reservation \<times> accountant" where
  "preflight sha oid resolve ctx q a retries wall_seconds =
     (let known_cost = (rb_max_cost_usd (cx_budget ctx) \<noteq> None);
          input_tokens = (case cq_input_tokens q of None \<Rightarrow> cq_tokens q | Some n \<Rightarrow> n);
          total_tokens = input_tokens + cq_output_tokens q
      in rbind (raised (mk_usage \<lparr>ru_input_tokens = input_tokens, ru_output_tokens = cq_output_tokens q, ru_reasoning_tokens = 0,
             ru_cached_tokens = 0, ru_total_tokens = total_tokens, ru_search_calls = cq_search_calls q, ru_pages = cq_pages q,
             ru_retries = retries, ru_wall_seconds = wall_seconds, ru_cost_usd = (if known_cost then Some (Fin 0) else None)\<rparr>)) (\<lambda>usage.
         rbind (raised (resolve (cq_operation q) (cq_provider_id q) (cq_model_id q) ''preflight'' usage)) (\<lambda>cost.
         if known_cost \<and> cost = None then
           Inl (CallProvider \<lparr>pe_code = InvalidRequest, pe_provider = cq_provider_id q, pe_operation = cq_operation q,
             pe_public_message = ''operation pricing is unavailable'', pe_retryable = False, pe_retry_after = None, pe_usage = None\<rparr>)
         else
           (case reserve sha oid a \<lparr>re_search_calls = cq_search_calls q, re_pages = cq_pages q, re_tokens = total_tokens,
                re_wall_seconds = wall_seconds, re_cost_usd = cost, re_retries = retries\<rparr> (cq_node q) (cq_operation_id q) of
              Inl e \<Rightarrow> Inl (CallBudget e)
            | Inr z \<Rightarrow> Inr z))))"

definition settle_call :: "cost_resolver \<Rightarrow> call_request \<Rightarrow> accountant \<Rightarrow> budget_reservation \<Rightarrow> string \<Rightarrow> bool \<Rightarrow>
    resource_usage \<Rightarrow> call_failure + resource_usage \<times> accountant" where
  "settle_call resolve q a r outcome charge usage =
     rbind (raised (resolve (cq_operation q) (cq_provider_id q) (cq_model_id q) outcome usage)) (\<lambda>cost.
     rbind (raised (mk_usage (usage\<lparr>ru_cost_usd := cost\<rparr>))) (\<lambda>actual.
     rbind (raised (settle a r actual charge)) (\<lambda>(_, a'). Inr (actual, a'))))"

definition post_settlement_overages :: "run_budget \<Rightarrow> budget_snapshot \<Rightarrow> budget_dimension set" where
  "post_settlement_overages b s =
     (if rb_max_search_calls b < bs_used_search_calls s then {SearchCalls} else {}) \<union>
     (if rb_max_pages b < bs_used_pages s then {Pages} else {}) \<union>
     (if rb_max_total_tokens b < bs_used_tokens s then {Tokens} else {}) \<union>
     (if flt (Fin (of_int (rb_max_wall_time_seconds b))) (bs_used_wall_seconds s) then {WallSeconds} else {}) \<union>
     (if rb_max_retries b < bs_used_retries s then {Retries} else {}) \<union>
     (case (rb_max_cost_usd b, bs_used_cost_usd s) of
        (Some limit, Some cost) \<Rightarrow> if flt limit cost then {CostUsd} else {}
      | _ \<Rightarrow> {})"

section \<open>Facts for a replay\<close>

datatype replay_decision = Charge | Observe | Release

record budget_fact =
  bf_operation_id :: string
  bf_budget_node :: budget_node
  bf_estimate :: resource_estimate
  bf_actual :: "resource_usage option"
  bf_decision :: replay_decision

definition mk_budget_fact :: "budget_fact \<Rightarrow> exc + budget_fact" where
  "mk_budget_fact f =
     (if bf_operation_id f = [] then Inl (ValueError ''budget replay operation ID must not be empty'')
      else if bf_decision f = Release \<and> bf_actual f \<noteq> None
      then Inl (ValueError ''released budget operations must not have actual usage'')
      else if bf_decision f \<noteq> Release \<and> bf_actual f = None
      then Inl (ValueError ''settled budget operations require actual usage'')
      else Inr f)"

definition budget_replay :: "budget_reservation \<Rightarrow> resource_usage option \<Rightarrow> replay_decision \<Rightarrow> budget_fact" where
  "budget_replay r actual decision =
     \<lparr>bf_operation_id = br_idempotency_key r, bf_budget_node = br_node r, bf_estimate = br_estimate r,
      bf_actual = actual, bf_decision = decision\<rparr>"

fun node_name :: "budget_node \<Rightarrow> string" where
  "node_name Planner = ''Planner''" | "node_name Ranker = ''Ranker''" | "node_name Writer = ''Writer''"
| "node_name Judge = ''Judge''" | "node_name Tool = ''Tool''"

text \<open>\<^verbatim>\<open>_restore_receipted_budget\<close>: each fact with the identity its reservation gets.\<close>

definition restore_fact :: "(string \<Rightarrow> string) \<Rightarrow> accountant \<Rightarrow> nat \<times> budget_fact \<Rightarrow> call_failure + accountant" where
  "restore_fact sha a g =
     (case reserve sha (fst g) a (bf_estimate (snd g)) (node_name (bf_budget_node (snd g))) (bf_operation_id (snd g)) of
        Inl e \<Rightarrow> Inl (CallBudget e)
      | Inr (r, a1) \<Rightarrow>
          if bf_decision (snd g) = Release then rbind (raised (release a1 r)) (\<lambda>(_, a2). Inr a2)
          else (case bf_actual (snd g) of
                  None \<Rightarrow> Inl CallArtifact
                | Some u \<Rightarrow> rbind (raised (settle a1 r u (bf_decision (snd g) = Charge))) (\<lambda>(_, a2). Inr a2)))"

definition restore_budget :: "(string \<Rightarrow> string) \<Rightarrow> accountant \<Rightarrow> (nat \<times> budget_fact) list \<Rightarrow> call_failure + accountant" where
  "restore_budget sha a facts = foldM (restore_fact sha) a facts"

section \<open>The audit of calls\<close>

record call_audit =
  ca_graph_node :: "string option"
  ca_published :: "(resource_usage \<times> string \<times> budget_fact) list"
  ca_pending :: "(resource_usage \<times> budget_fact) option"

text \<open>
  \<open>publish\<close> is None when no audit is composed; otherwise it says what validating and storing the
  record of a call raises, if anything.
\<close>

type_synonym publisher = "(resource_usage \<Rightarrow> string \<Rightarrow> budget_fact \<Rightarrow> call_failure option) option"

definition audited :: "call_request \<Rightarrow> call_audit \<Rightarrow> bool" where
  "audited q au \<longleftrightarrow> cq_call_fields q \<and> ca_graph_node au \<noteq> None"

definition record_call :: "publisher \<Rightarrow> call_request \<Rightarrow> resource_usage \<Rightarrow> string \<Rightarrow> budget_fact \<Rightarrow> call_audit \<Rightarrow>
    call_failure + call_audit" where
  "record_call publish q usage outcome receipt au =
     (if \<not> audited q au then Inr au
      else (case publish of
              None \<Rightarrow> Inr au
            | Some f \<Rightarrow>
                (case f usage outcome receipt of
                   Some e \<Rightarrow> Inl e
                 | None \<Rightarrow> Inr (au\<lparr>ca_published := ca_published au @ [(usage, outcome, receipt)]\<rparr>))))"

text \<open>\<^verbatim>\<open>_attach_provider_result\<close>: the pending call is published as a success.\<close>

definition attach_result :: "publisher \<Rightarrow> call_audit \<Rightarrow> call_failure + call_audit" where
  "attach_result publish au =
     (case ca_pending au of
        None \<Rightarrow> Inl CallArtifact
      | Some (usage, receipt) \<Rightarrow>
          (case (ca_graph_node au, publish) of
             (Some _, Some f) \<Rightarrow>
               (case f usage ''SUCCESS'' receipt of
                  Some e \<Rightarrow> Inl e
                | None \<Rightarrow> Inr (au\<lparr>ca_published := ca_published au @ [(usage, ''SUCCESS'', receipt)], ca_pending := None\<rparr>))
           | _ \<Rightarrow> Inl CallArtifact))"

section \<open>After the call\<close>

text \<open>What the usage observer of the provider says, when the provider has one.\<close>

datatype observation = NoObserver | Observed "resource_usage option" | ObserverFailed call_failure | ObserverStopped

datatype invocation = Answered "resource_usage option" | Failing call_failure "resource_usage option" | Stopping

fun observed_usage :: "observation \<Rightarrow> resource_usage option" where
  "observed_usage (Observed u) = u"
| "observed_usage _ = None"

definition disagree :: "resource_usage option \<Rightarrow> resource_usage option \<Rightarrow> bool" where
  "disagree x y \<longleftrightarrow> x \<noteq> None \<and> y \<noteq> None \<and> x \<noteq> y"

definition first_known :: "resource_usage option \<Rightarrow> resource_usage option \<Rightarrow> resource_usage option" where
  "first_known x y = (if x \<noteq> None then x else y)"

definition release_silently :: "accountant \<Rightarrow> budget_reservation \<Rightarrow> accountant" where
  "release_silently a r = (case release a r of Inl _ \<Rightarrow> a | Inr (_, a') \<Rightarrow> a')"

definition with_wall :: "resource_usage \<Rightarrow> pyfloat \<Rightarrow> exc + resource_usage" where
  "with_wall usage elapsed = mk_usage (usage\<lparr>ru_wall_seconds := fmax (Fin 0) elapsed\<rparr>)"

type_synonym call_end = "(call_failure + resource_usage) \<times> accountant \<times> call_audit"

text \<open>The usages of observer and result disagree: charge what was observed, and report it.\<close>

definition integrity_end :: "cost_resolver \<Rightarrow> publisher \<Rightarrow> call_request \<Rightarrow> budget_reservation \<Rightarrow> resource_usage \<Rightarrow>
    accountant \<Rightarrow> call_audit \<Rightarrow> call_end" where
  "integrity_end resolve publish q r u a au =
     (case settle_call resolve q a r ''USAGE_INTEGRITY'' True u of
        Inl f \<Rightarrow> (Inl f, a, au)
      | Inr (settled, a1) \<Rightarrow>
          (case record_call publish q settled ''USAGE_INTEGRITY'' (budget_replay r (Some settled) Charge) au of
             Inl f \<Rightarrow> (Inl f, a1, au)
           | Inr au1 \<Rightarrow> (Inl CallUsageIntegrity, a1, au1)))"

definition settle_answered :: "cost_resolver \<Rightarrow> publisher \<Rightarrow> run_context \<Rightarrow> call_request \<Rightarrow> budget_reservation \<Rightarrow>
    resource_usage \<Rightarrow> accountant \<Rightarrow> call_audit \<Rightarrow> call_end" where
  "settle_answered resolve publish ctx q r u a au =
     (case settle_call resolve q a r ''success'' True u of
        Inl f \<Rightarrow> (Inl f, a, au)
      | Inr (actual, a1) \<Rightarrow>
          (case snapshot a1 of
             Inl e \<Rightarrow> (Inl (CallRaised e), a1, au)
           | Inr s \<Rightarrow>
               let overages = post_settlement_overages (cx_budget ctx) s; receipt = budget_replay r (Some actual) Charge in
               if overages \<noteq> {} then
                 (case record_call publish q actual ''BUDGET_EXCEEDED'' receipt au of
                    Inl f \<Rightarrow> (Inl f, a1, au)
                  | Inr au1 \<Rightarrow> (Inl (CallBudget (BudgetExceeded overages s)), a1, au1))
               else if audited q au then
                 if ca_pending au \<noteq> None then (Inl CallArtifact, a1, au)
                 else (Inr actual, a1, au\<lparr>ca_pending := Some (actual, receipt)\<rparr>)
               else (Inr actual, a1, au)))"

definition close_answered :: "cost_resolver \<Rightarrow> publisher \<Rightarrow> run_context \<Rightarrow> call_request \<Rightarrow> budget_reservation \<Rightarrow>
    observation \<Rightarrow> resource_usage option \<Rightarrow> resource_usage option \<Rightarrow> pyfloat \<Rightarrow> accountant \<Rightarrow> call_audit \<Rightarrow> call_end" where
  "close_answered resolve publish ctx q r obs carried last_usage elapsed a au =
     (case obs of
        ObserverStopped \<Rightarrow> (Inl CallStopped, a, au)
      | ObserverFailed f \<Rightarrow>
          (case carried of
             None \<Rightarrow> (Inl f, release_silently a r, au)
           | Some u \<Rightarrow>
               (case settle_call resolve q a r ''INTERNAL_ERROR'' True u of
                  Inl _ \<Rightarrow> (Inl f, a, au)
                | Inr (settled, a1) \<Rightarrow>
                    (Inl f, a1,
                     (case record_call publish q settled ''INTERNAL_ERROR'' (budget_replay r (Some settled) Charge) au of
                        Inl _ \<Rightarrow> au | Inr au1 \<Rightarrow> au1))))
      | _ \<Rightarrow>
          let observed = observed_usage obs; known = first_known observed carried in
          if disagree observed carried then integrity_end resolve publish q r (the observed) a au
          else (case (if obs = NoObserver then first_known known last_usage else known) of
                  Some u \<Rightarrow> settle_answered resolve publish ctx q r u a au
                | None \<Rightarrow>
                    if \<not> isfinite elapsed then
                      (case release a r of Inl e \<Rightarrow> (Inl (CallRaised e), a, au) | Inr (_, a1) \<Rightarrow> (Inl CallUsageIntegrity, a1, au))
                    else
                      (case with_wall (cq_fallback_usage q) elapsed of
                         Inl e \<Rightarrow> (Inl (CallRaised e), a, au)
                       | Inr u \<Rightarrow> settle_answered resolve publish ctx q r u a au)))"

fun outcome_code :: "call_failure \<Rightarrow> string" where
  "outcome_code (CallProvider e) =
     (case pe_code e of
        Timeout \<Rightarrow> ''TIMEOUT'' | RateLimited \<Rightarrow> ''RATE_LIMITED'' | InvalidRequest \<Rightarrow> ''INVALID_REQUEST''
      | InvalidResponse \<Rightarrow> ''INVALID_RESPONSE'' | Authentication \<Rightarrow> ''AUTHENTICATION'' | NetworkError \<Rightarrow> ''NETWORK''
      | ReplayMiss \<Rightarrow> ''REPLAY_MISS'' | InvalidSnapshot \<Rightarrow> ''INVALID_SNAPSHOT'' | ParseUnsupported \<Rightarrow> ''PARSE_UNSUPPORTED''
      | Upstream5xx \<Rightarrow> ''UPSTREAM_5XX'')"
| "outcome_code _ = ''INTERNAL_ERROR''"

text \<open>The record of a failed call; one that cannot be published is kept as pending.\<close>

definition record_failed :: "publisher \<Rightarrow> call_request \<Rightarrow> call_failure \<Rightarrow> resource_usage \<Rightarrow> budget_fact \<Rightarrow>
    accountant \<Rightarrow> call_audit \<Rightarrow> call_end" where
  "record_failed publish q f usage receipt a au =
     (case record_call publish q usage (outcome_code f) receipt au of
        Inr au1 \<Rightarrow> (Inl f, a, au1)
      | Inl CallUsageIntegrity \<Rightarrow> (Inl CallUsageIntegrity, a, au)
      | Inl _ \<Rightarrow> (Inl f, a, if audited q au then au\<lparr>ca_pending := Some (usage, receipt)\<rparr> else au))"

definition charge_failed :: "cost_resolver \<Rightarrow> publisher \<Rightarrow> call_request \<Rightarrow> budget_reservation \<Rightarrow> call_failure \<Rightarrow>
    resource_usage \<Rightarrow> accountant \<Rightarrow> call_audit \<Rightarrow> call_end" where
  "charge_failed resolve publish q r f u a au =
     (case settle_call resolve q a r (outcome_code f) True u of
        Inl _ \<Rightarrow> (Inl f, a, au)
      | Inr (settled, a1) \<Rightarrow> record_failed publish q f settled (budget_replay r (Some settled) Charge) a1 au)"

definition release_failed :: "publisher \<Rightarrow> run_context \<Rightarrow> call_request \<Rightarrow> budget_reservation \<Rightarrow> call_failure \<Rightarrow>
    pyfloat \<Rightarrow> accountant \<Rightarrow> call_audit \<Rightarrow> call_end" where
  "release_failed publish ctx q r f elapsed a au =
     (case release a r of
        Inl _ \<Rightarrow> (Inl f, a, au)
      | Inr (_, a1) \<Rightarrow>
          (case mk_usage ((cq_fallback_usage q)\<lparr>ru_wall_seconds := fmax (Fin 0) elapsed,
               ru_cost_usd := (if rb_max_cost_usd (cx_budget ctx) = None then None else Some (Fin 0))\<rparr>) of
             Inl _ \<Rightarrow> (Inl f, a1, au)
           | Inr usage \<Rightarrow> record_failed publish q f usage (budget_replay r None Release) a1 au))"

definition close_failed :: "cost_resolver \<Rightarrow> publisher \<Rightarrow> run_context \<Rightarrow> call_request \<Rightarrow> budget_reservation \<Rightarrow>
    observation \<Rightarrow> call_failure \<Rightarrow> resource_usage option \<Rightarrow> resource_usage option \<Rightarrow> pyfloat \<Rightarrow> accountant \<Rightarrow> call_audit \<Rightarrow> call_end" where
  "close_failed resolve publish ctx q r obs f carried last_usage elapsed a au =
     (case obs of
        ObserverStopped \<Rightarrow> (Inl f, a, au)
      | ObserverFailed _ \<Rightarrow> (Inl f, a, au)
      | _ \<Rightarrow>
          let observed = observed_usage obs in
          if disagree observed carried then
            (case integrity_end resolve publish q r (the observed) a au of
               (Inl CallUsageIntegrity, a1, au1) \<Rightarrow> (Inl CallUsageIntegrity, a1, au1)
             | (_, a1, au1) \<Rightarrow> (Inl f, a1, au1))
          else
            (case first_known (first_known observed carried) last_usage of
               Some u \<Rightarrow> charge_failed resolve publish q r f u a au
             | None \<Rightarrow>
                 if cq_search_calls q \<noteq> 0 \<or> cq_pages q \<noteq> 0 then
                   if \<not> isfinite elapsed then
                     (case release a r of Inl _ \<Rightarrow> (Inl f, a, au) | Inr (_, a1) \<Rightarrow> (Inl CallUsageIntegrity, a1, au))
                   else
                     (case with_wall (cq_fallback_usage q) elapsed of
                        Inl _ \<Rightarrow> (Inl f, a, au)
                      | Inr u \<Rightarrow> charge_failed resolve publish q r f u a au)
                 else release_failed publish ctx q r f elapsed a au))"

definition close_stopped :: "cost_resolver \<Rightarrow> call_request \<Rightarrow> budget_reservation \<Rightarrow> observation \<Rightarrow>
    accountant \<Rightarrow> call_audit \<Rightarrow> call_end" where
  "close_stopped resolve q r obs a au =
     (case obs of
        ObserverStopped \<Rightarrow> (Inl CallStopped, a, au)
      | ObserverFailed _ \<Rightarrow> (Inl CallStopped, a, au)
      | _ \<Rightarrow>
          (case observed_usage obs of
             None \<Rightarrow> (Inl CallStopped, release_silently a r, au)
           | Some u \<Rightarrow>
               (case settle_call resolve q a r ''CANCELLED'' True u of
                  Inl _ \<Rightarrow> (Inl CallStopped, a, au)
                | Inr (_, a1) \<Rightarrow> (Inl CallStopped, a1, au))))"

section \<open>The whole call\<close>

text \<open>
  What one call meets: the clock before and after the reservation and after the call, the observer
  before and after it, the provider's last reported usage, and its answer.
\<close>

record call_script =
  sc_now_first :: pyfloat
  sc_observed_before :: observation
  sc_now_started :: pyfloat
  sc_invocation :: invocation
  sc_observed_after :: observation
  sc_last_usage :: "resource_usage option"
  sc_now_finished :: pyfloat

definition observer_idle :: "observation \<Rightarrow> call_failure + unit" where
  "observer_idle obs =
     (case obs of
        ObserverStopped \<Rightarrow> Inl CallStopped
      | ObserverFailed f \<Rightarrow> Inl f
      | Observed (Some _) \<Rightarrow> Inl CallUsageIntegrity
      | _ \<Rightarrow> Inr ())"

definition begin_call :: "(string \<Rightarrow> string) \<Rightarrow> nat \<Rightarrow> cost_resolver \<Rightarrow> run_context \<Rightarrow> call_request \<Rightarrow> call_script \<Rightarrow>
    accountant \<Rightarrow> call_failure + budget_reservation \<times> accountant" where
  "begin_call sha oid resolve ctx q sc a =
     rbind (ensure_active ctx (cq_operation q) (sc_now_first sc)) (\<lambda>_.
     rbind (observer_idle (sc_observed_before sc)) (\<lambda>_.
     rbind (raised (snapshot a)) (\<lambda>before.
       preflight sha oid resolve ctx q a
         (max 0 (rb_max_retries (cx_budget ctx) - bs_used_retries before - bs_reserved_retries before))
         (fmax (Fin 0) (fsub (fsub (wall_limit ctx) (bs_used_wall_seconds before)) (bs_reserved_wall_seconds before))))))"

definition close_call :: "cost_resolver \<Rightarrow> publisher \<Rightarrow> run_context \<Rightarrow> call_request \<Rightarrow> call_script \<Rightarrow> budget_reservation \<Rightarrow>
    accountant \<Rightarrow> call_audit \<Rightarrow> call_end" where
  "close_call resolve publish ctx q sc r a au =
     (let elapsed = fsub (sc_now_finished sc) (sc_now_started sc) in
      case sc_invocation sc of
        Answered carried \<Rightarrow>
          close_answered resolve publish ctx q r (sc_observed_after sc) carried (sc_last_usage sc) elapsed a au
      | Failing f carried \<Rightarrow>
          close_failed resolve publish ctx q r (sc_observed_after sc) f carried (sc_last_usage sc) elapsed a au
      | Stopping \<Rightarrow> close_stopped resolve q r (sc_observed_after sc) a au)"

definition invoke_metered :: "(string \<Rightarrow> string) \<Rightarrow> nat \<Rightarrow> cost_resolver \<Rightarrow> publisher \<Rightarrow> run_context \<Rightarrow> call_request \<Rightarrow>
    call_script \<Rightarrow> accountant \<Rightarrow> call_audit \<Rightarrow> call_end" where
  "invoke_metered sha oid resolve publish ctx q sc a au =
     (if ca_pending au \<noteq> None then (Inl CallArtifact, a, au)
      else (case begin_call sha oid resolve ctx q sc a of
              Inl f \<Rightarrow> (Inl f, a, au)
            | Inr (r, a1) \<Rightarrow>
                (case ensure_active ctx (cq_operation q) (sc_now_started sc) of
                   Inl f \<Rightarrow>
                     (case release a1 r of Inl e \<Rightarrow> (Inl (CallRaised e), a1, au) | Inr (_, a2) \<Rightarrow> (Inl f, a2, au))
                 | Inr _ \<Rightarrow> close_call resolve publish ctx q sc r a1 au)))"

section \<open>Lemmas\<close>

lemma raised_simps [simp]: "raised (Inr x) = Inr x" "raised (Inl e) = Inl (CallRaised e)"
  by (simp_all add: raised_def)

lemma raised_eq_Inr [simp]: "raised m = Inr x \<longleftrightarrow> m = Inr x"
  by (auto simp: raised_def split: sum.splits)

lemma settle_call_Inr:
  "settle_call resolve q a r outcome charge u = Inr (actual, a') \<Longrightarrow> \<exists>s. settle a r actual charge = Inr (s, a')"
  by (auto simp: settle_call_def rbind_eq_Inr)

text \<open>How a call can leave its reservation.\<close>

definition settled_with :: "accountant \<Rightarrow> budget_reservation \<Rightarrow> resource_usage \<Rightarrow> accountant \<Rightarrow> bool" where
  "settled_with a r u a' \<longleftrightarrow> (\<exists>s. settle a r u True = Inr (s, a'))"

definition released_from :: "accountant \<Rightarrow> budget_reservation \<Rightarrow> accountant \<Rightarrow> bool" where
  "released_from a r a' \<longleftrightarrow> (\<exists>s. release a r = Inr (s, a'))"

end
