(* ===== verification/Metered_Correct.thy ===== *)
theory Metered_Correct
  imports Metered_Call
begin

text \<open>
  What a metered call does to the budget, and that the facts it leaves rebuild the accountant.
\<close>

section \<open>The effect of closing a call\<close>

definition receipts :: "call_audit \<Rightarrow> call_audit \<Rightarrow> budget_fact list" where
  "receipts au au' =
     map (\<lambda>(_, _, f). f) (drop (length (ca_published au)) (ca_published au')) @
     (case ca_pending au' of None \<Rightarrow> [] | Some (_, f) \<Rightarrow> [f])"

definition faithful :: "accountant \<Rightarrow> budget_reservation \<Rightarrow> budget_fact list \<Rightarrow> accountant \<Rightarrow> bool" where
  "faithful a r fs a' \<longleftrightarrow>
     fs = [] \<and> (a' = a \<or> (\<exists>u. settled_with a r u a') \<or> released_from a r a') \<or>
     (\<exists>u. fs = [budget_replay r (Some u) Charge] \<and> settled_with a r u a') \<or>
     (fs = [budget_replay r None Release] \<and> released_from a r a')"

definition within_budget :: "run_budget \<Rightarrow> accountant \<Rightarrow> bool" where
  "within_budget b a \<longleftrightarrow> (\<exists>s. snapshot a = Inr s \<and> post_settlement_overages b s = {})"

fun call_ok :: "run_context \<Rightarrow> call_request \<Rightarrow> accountant \<Rightarrow> budget_reservation \<Rightarrow> call_audit \<Rightarrow> call_end \<Rightarrow> bool" where
  "call_ok ctx q a r au (res, a', au') \<longleftrightarrow>
     faithful a r (receipts au au') a' \<and>
     (\<forall>u. res = Inr u \<longrightarrow> settled_with a r u a' \<and> within_budget (cx_budget ctx) a' \<and>
        (audited q au \<longrightarrow> receipts au au' = [budget_replay r (Some u) Charge]))"

lemma receipts_same: "ca_pending au = None \<Longrightarrow> receipts au au = []"
  by (simp add: receipts_def)

lemma record_call_receipts:
  "record_call publish q u code f au = Inr au1 \<Longrightarrow> ca_pending au = None \<Longrightarrow> receipts au au1 \<in> {[], [f]}"
  by (auto simp: record_call_def receipts_def split: if_splits option.splits)

lemma pending_receipts:
  "ca_pending au = None \<Longrightarrow> receipts au (au\<lparr>ca_pending := Some (u, f)\<rparr>) = [f]"
  by (simp add: receipts_def)

lemma settle_call_with: "settle_call resolve q a r code True u = Inr (actual, a1) \<Longrightarrow> settled_with a r actual a1"
  by (auto simp: settled_with_def dest: settle_call_Inr)

lemma faithful_none [simp]: "faithful a r [] a" "settled_with a r u a' \<Longrightarrow> faithful a r [] a'" "released_from a r a' \<Longrightarrow> faithful a r [] a'"
  by (auto simp: faithful_def)

lemma faithful_charge: "settled_with a r u a' \<Longrightarrow> fs \<in> {[], [budget_replay r (Some u) Charge]} \<Longrightarrow> faithful a r fs a'"
  by (auto simp: faithful_def)

lemma faithful_release: "released_from a r a' \<Longrightarrow> fs \<in> {[], [budget_replay r None Release]} \<Longrightarrow> faithful a r fs a'"
  by (auto simp: faithful_def)

lemma released_silently: "release_silently a r = a \<or> released_from a r (release_silently a r)"
  by (auto simp: release_silently_def released_from_def split: sum.splits)

lemma release_Inr: "release a r = Inr (s, a') \<Longrightarrow> released_from a r a'"
  by (auto simp: released_from_def)

lemma call_ok_unchanged:
  "ca_pending au = None \<Longrightarrow> call_ok ctx q a r au (Inl f, a, au)"
  "ca_pending au = None \<Longrightarrow> released_from a r a' \<Longrightarrow> call_ok ctx q a r au (Inl f, a', au)"
  "ca_pending au = None \<Longrightarrow> call_ok ctx q a r au (Inl f, release_silently a r, au)"
  using released_silently [of a r] by (auto simp: receipts_same)

lemma record_failed_ok:
  assumes "ca_pending au = None" "\<And>fs. fs \<in> {[], [f]} \<Longrightarrow> faithful a r fs a1"
  shows "call_ok ctx q a r au (record_failed publish q e u f a1 au)"
proof (cases "record_call publish q u (outcome_code e) f au")
  case (Inr au1)
  from assms(2) [OF record_call_receipts [OF this assms(1)]] show ?thesis by (simp add: record_failed_def Inr)
next
  case (Inl x)
  have ok: "faithful a r (receipts au au) a1" "faithful a r (receipts au (au\<lparr>ca_pending := Some (u, f)\<rparr>)) a1"
    using assms by (simp_all only: receipts_same pending_receipts) simp_all
  show ?thesis
    by (cases "audited q au"; cases x) (simp_all add: record_failed_def Inl ok)
qed

lemma integrity_end_ok:
  assumes "ca_pending au = None"
  shows "call_ok ctx q a r au (integrity_end resolve publish q r u a au)"
proof (cases "settle_call resolve q a r ''USAGE_INTEGRITY'' True u")
  case (Inr z)
  then obtain actual a1 where s: "settle_call resolve q a r ''USAGE_INTEGRITY'' True u = Inr (actual, a1)" by (cases z) auto
  note w = settle_call_with [OF s]
  show ?thesis
  proof (cases "record_call publish q actual ''USAGE_INTEGRITY'' (budget_replay r (Some actual) Charge) au")
    case (Inr au1)
    from faithful_charge [OF w record_call_receipts [OF this assms]] show ?thesis by (simp add: integrity_end_def s Inr)
  qed (use assms s w in \<open>simp add: integrity_end_def receipts_same\<close>)
qed (use assms in \<open>simp add: integrity_end_def receipts_same\<close>)

lemma settle_answered_ok:
  assumes "ca_pending au = None"
  shows "call_ok ctx q a r au (settle_answered resolve publish ctx q r u a au)"
proof (cases "settle_call resolve q a r ''success'' True u")
  case (Inr z)
  then obtain actual a1 where s: "settle_call resolve q a r ''success'' True u = Inr (actual, a1)" by (cases z) auto
  note w = settle_call_with [OF s]
  let ?f = "budget_replay r (Some actual) Charge"
  show ?thesis
  proof (cases "snapshot a1")
    case snap: (Inr t)
    show ?thesis
    proof (cases "post_settlement_overages (cx_budget ctx) t = {}")
      case True
      with snap have b: "within_budget (cx_budget ctx) a1" by (simp add: within_budget_def)
      from faithful_charge [OF w, of "[?f]"] have "faithful a r (receipts au (au\<lparr>ca_pending := Some (actual, ?f)\<rparr>)) a1"
        by (simp add: pending_receipts [OF assms])
      with True b s snap w assms show ?thesis by (simp add: settle_answered_def Let_def receipts_same pending_receipts)
    next
      case False
      show ?thesis
      proof (cases "record_call publish q actual ''BUDGET_EXCEEDED'' ?f au")
        case (Inr au1)
        from faithful_charge [OF w record_call_receipts [OF this assms]] show ?thesis
          by (simp add: settle_answered_def s snap False Inr)
      qed (use assms s w snap False in \<open>simp add: settle_answered_def receipts_same\<close>)
    qed
  qed (use assms s w in \<open>simp add: settle_answered_def receipts_same\<close>)
qed (use assms in \<open>simp add: settle_answered_def receipts_same\<close>)

lemma charge_failed_ok:
  assumes "ca_pending au = None"
  shows "call_ok ctx q a r au (charge_failed resolve publish q r f u a au)"
proof (cases "settle_call resolve q a r (outcome_code f) True u")
  case (Inr z)
  then obtain actual a1 where s: "settle_call resolve q a r (outcome_code f) True u = Inr (actual, a1)" by (cases z) auto
  have "call_ok ctx q a r au (record_failed publish q f actual (budget_replay r (Some actual) Charge) a1 au)"
    by (rule record_failed_ok [OF assms faithful_charge [OF settle_call_with [OF s]]])
  then show ?thesis by (simp add: charge_failed_def s del: call_ok.simps)
qed (use assms in \<open>simp add: charge_failed_def receipts_same\<close>)

lemma release_failed_ok:
  assumes "ca_pending au = None"
  shows "call_ok ctx q a r au (release_failed publish ctx q r f elapsed a au)"
proof (cases "release a r")
  case (Inr z)
  then obtain s a1 where rel: "release a r = Inr (s, a1)" by (cases z) auto
  note w = release_Inr [OF rel]
  have "call_ok ctx q a r au (record_failed publish q f u (budget_replay r None Release) a1 au)" for u
    by (rule record_failed_ok [OF assms faithful_release [OF w]])
  then show ?thesis using call_ok_unchanged(2) [OF assms w]
    by (simp add: release_failed_def rel del: call_ok.simps split: sum.splits)
qed (use assms in \<open>simp add: release_failed_def receipts_same\<close>)

lemma call_ok_failed: "call_ok ctx q a r au (res, a', au') \<Longrightarrow> call_ok ctx q a r au (Inl f, a', au')"
  by simp

lemma close_answered_ok:
  assumes "ca_pending au = None"
  shows "call_ok ctx q a r au (close_answered resolve publish ctx q r obs carried reported elapsed a au)"
proof -
  have known: "call_ok ctx q a r au (close_answered resolve publish ctx q r obs carried reported elapsed a au)"
    if "obs = NoObserver \<or> obs = Observed x" for x
    using that assms integrity_end_ok [OF assms, of ctx q a r resolve publish]
      settle_answered_ok [OF assms, of ctx q a r resolve publish] call_ok_unchanged [OF assms]
    by (auto simp: close_answered_def Let_def simp del: call_ok.simps split: option.splits sum.splits dest!: release_Inr)
  show ?thesis
  proof (cases obs)
    case (ObserverFailed f)
    have "call_ok ctx q a r au (close_answered resolve publish ctx q r (ObserverFailed f) (Some u) reported elapsed a au)" for u
    proof (cases "settle_call resolve q a r ''INTERNAL_ERROR'' True u")
      case (Inr z)
      then obtain actual a1 where s: "settle_call resolve q a r ''INTERNAL_ERROR'' True u = Inr (actual, a1)" by (cases z) auto
      note w = settle_call_with [OF s]
      show ?thesis
      proof (cases "record_call publish q actual ''INTERNAL_ERROR'' (budget_replay r (Some actual) Charge) au")
        case (Inr au1)
        from faithful_charge [OF w record_call_receipts [OF this assms]] show ?thesis by (simp add: close_answered_def s Inr)
      qed (use assms s w in \<open>simp add: close_answered_def receipts_same\<close>)
    qed (use assms in \<open>simp add: close_answered_def receipts_same\<close>)
    with ObserverFailed call_ok_unchanged(3) [OF assms] show ?thesis
      by (cases carried) (simp_all add: close_answered_def del: call_ok.simps)
  next
    case ObserverStopped
    with call_ok_unchanged(1) [OF assms] show ?thesis by (simp add: close_answered_def del: call_ok.simps)
  qed (use known in blast)+
qed

lemma close_failed_ok:
  assumes "ca_pending au = None"
  shows "call_ok ctx q a r au (close_failed resolve publish ctx q r obs f carried reported elapsed a au)"
proof -
  have known: "call_ok ctx q a r au (close_failed resolve publish ctx q r obs f carried reported elapsed a au)"
    if o: "obs = NoObserver \<or> obs = Observed x" for x
  proof (cases "disagree (observed_usage obs) carried")
    case True
    obtain res a1 au1 where i: "integrity_end resolve publish q r (the (observed_usage obs)) a au = (res, a1, au1)"
      by (cases "integrity_end resolve publish q r (the (observed_usage obs)) a au") auto
    have "call_ok ctx q a r au (res, a1, au1)" using integrity_end_ok [OF assms] by (simp only: i [symmetric])
    then have "call_ok ctx q a r au (Inl g, a1, au1)" for g by (rule call_ok_failed)
    with o True i show ?thesis
      by (auto simp: close_failed_def Let_def simp del: call_ok.simps split: sum.splits call_failure.splits)
  next
    case False
    with o show ?thesis
      using assms charge_failed_ok [OF assms, of ctx q a r resolve publish f] release_failed_ok [OF assms]
        call_ok_unchanged [OF assms]
      by (auto simp: close_failed_def Let_def simp del: call_ok.simps split: option.splits sum.splits dest!: release_Inr)
  qed
  show ?thesis
    by (cases obs) (use known call_ok_unchanged(1) [OF assms] in \<open>auto simp: close_failed_def simp del: call_ok.simps\<close>)
qed

lemma close_stopped_ok:
  assumes "ca_pending au = None"
  shows "call_ok ctx q a r au (close_stopped resolve q r obs a au)"
proof -
  have "call_ok ctx q a r au (case settle_call resolve q a r ''CANCELLED'' True u of
      Inl _ \<Rightarrow> (Inl CallStopped, a, au) | Inr (_, a1) \<Rightarrow> (Inl CallStopped, a1, au))" for u
    using assms settle_call_with [of resolve q a r "''CANCELLED''" u] by (auto simp: receipts_same split: sum.splits)
  then show ?thesis
    using call_ok_unchanged [OF assms]
    by (cases obs) (auto simp: close_stopped_def simp del: call_ok.simps split: option.splits)
qed

lemma close_call_ok:
  "ca_pending au = None \<Longrightarrow> call_ok ctx q a r au (close_call resolve publish ctx q sc r a au)"
  by (cases "sc_invocation sc")
    (simp_all add: close_call_def Let_def close_answered_ok close_failed_ok close_stopped_ok del: call_ok.simps)

section \<open>Rebuilding the budget\<close>

lemma node_name_inv: "node_of_name (node_name n) = Some n"
  by (cases n) (simp_all add: node_of_name_def)

lemma node_of_name_Some: "node_of_name s = Some n \<Longrightarrow> s = node_name n"
  by (auto simp: node_of_name_def split: if_splits)

lemma faithful_single:
  assumes "faithful a r [f] a'"
  obtains (charge) u s where "f = budget_replay r (Some u) Charge" "settle a r u True = Inr (s, a')"
  | (release) s where "f = budget_replay r None Release" "release a r = Inr (s, a')"
  using assms by (auto simp: faithful_def settled_with_def released_from_def)

lemma reserve_inputs:
  assumes "acct_inv a" "reserve sha oid a est node key = Inr (r, a1)"
  shows "br_estimate r = est \<and> node = node_name (br_node r) \<and> br_idempotency_key r = key"
  using assms(2)
proof (cases rule: reserve_cases)
  case (old i st n)
  with assms(1) have "br_idempotency_key r = key" unfolding acct_inv_def by fastforce
  with old show ?thesis by (simp add: node_of_name_Some)
qed (simp add: node_of_name_Some)

lemma restore_faithful:
  assumes "acct_inv a" "reserve sha oid a est node key = Inr (r, a1)" "faithful a1 r [f] a'"
  shows "restore_fact sha a (oid, f) = Inr a'"
proof -
  note i = reserve_inputs [OF assms(1,2)]
  from assms(3) show ?thesis
  proof (elim faithful_single)
    fix u s
    assume "f = budget_replay r (Some u) Charge" "settle a1 r u True = Inr (s, a')"
    with i assms(2) show ?thesis by (simp add: restore_fact_def budget_replay_def)
  next
    fix s
    assume "f = budget_replay r None Release" "release a1 r = Inr (s, a')"
    with i assms(2) show ?thesis by (simp add: restore_fact_def budget_replay_def)
  qed
qed

text \<open>What a whole call did: nothing, or a reservation that was closed as the facts say.\<close>

lemma refused_Inr: "(case m of Inl e \<Rightarrow> Inl (CallBudget e) | Inr z \<Rightarrow> Inr z) = Inr x \<longleftrightarrow> m = Inr x"
  by (cases m) simp_all

lemma preflight_reserves:
  "preflight sha oid resolve ctx q a retries wall = Inr (r, a1) \<Longrightarrow> \<exists>est. reserve sha oid a est (cq_node q) (cq_operation_id q) = Inr (r, a1)"
  by (auto simp: preflight_def Let_def rbind_eq_Inr refused_Inr split: if_splits)

lemma begin_reserves:
  "begin_call sha oid resolve ctx q sc a = Inr (r, a1) \<Longrightarrow> \<exists>est. reserve sha oid a est (cq_node q) (cq_operation_id q) = Inr (r, a1)"
  by (auto simp: begin_call_def rbind_eq_Inr dest: preflight_reserves)

text \<open>What a whole call did: nothing, or a reservation that was closed as the facts say.\<close>

lemma invoke_metered_cases:
  assumes "invoke_metered sha oid resolve publish ctx q sc a au = (res, a', au')" "ca_pending au = None"
  obtains (none) f where "res = Inl f" "a' = a" "au' = au"
  | (gate) r a1 est f where "reserve sha oid a est (cq_node q) (cq_operation_id q) = Inr (r, a1)" "res = Inl f" "au' = au"
      "a' = a1 \<and> (\<exists>e. release a1 r = Inl e) \<or> released_from a1 r a'"
  | (closed) r a1 est where "reserve sha oid a est (cq_node q) (cq_operation_id q) = Inr (r, a1)"
      "call_ok ctx q a1 r au (res, a', au')" "close_call resolve publish ctx q sc r a1 au = (res, a', au')"
proof (cases "begin_call sha oid resolve ctx q sc a")
  case (Inl f)
  with assms show thesis by (intro none) (auto simp: invoke_metered_def)
next
  case (Inr z)
  then obtain r a1 where b: "begin_call sha oid resolve ctx q sc a = Inr (r, a1)" by (cases z) auto
  from begin_reserves [OF b] obtain est where res: "reserve sha oid a est (cq_node q) (cq_operation_id q) = Inr (r, a1)" by blast
  show thesis
  proof (cases "ensure_active ctx (cq_operation q) (sc_now_started sc)")
    case (Inl f)
    show thesis
    proof (cases "release a1 r")
      case e: (Inl e)
      from assms b Inl e have "res = Inl (CallRaised e)" "a' = a1" "au' = au" by (simp_all add: invoke_metered_def)
      with e show thesis by (intro gate [OF res]) simp_all
    next
      case rel: (Inr w)
      then obtain s a2 where rel: "release a1 r = Inr (s, a2)" by (cases w) auto
      from assms b Inl rel have "res = Inl f" "a' = a2" "au' = au" by (simp_all add: invoke_metered_def)
      with release_Inr [OF rel] show thesis by (intro gate [OF res]) simp_all
    qed
  next
    case ok: (Inr t)
    from assms b ok have c: "close_call resolve publish ctx q sc r a1 au = (res, a', au')" by (simp add: invoke_metered_def)
    with close_call_ok [OF assms(2), of ctx q a1 r resolve publish sc] have "call_ok ctx q a1 r au (res, a', au')" by (simp only:)
    then show thesis using c by (rule closed [OF res])
  qed
qed

section \<open>Runs of calls\<close>

text \<open>
  The calls of a run, one after another, with the facts they left: each call left one fact or did
  not change the budget.  (A call that ends between its reservation and the provider, or that a
  hard stop ends, leaves none; the run is not continued from such a point.)
\<close>

inductive metered_run :: "(string \<Rightarrow> string) \<Rightarrow> accountant \<Rightarrow> (nat \<times> budget_fact) list \<Rightarrow> accountant \<Rightarrow> bool"
  for sha :: "string \<Rightarrow> string" and a0 :: accountant where
  run_start: "metered_run sha a0 [] a0"
| run_call: "metered_run sha a0 fs a \<Longrightarrow>
    invoke_metered sha oid resolve publish ctx q sc a au = (res, a', au') \<Longrightarrow> ca_pending au = None \<Longrightarrow>
    receipts au au' = [f] \<Longrightarrow> metered_run sha a0 (fs @ [(oid, f)]) a'"
| run_refused: "metered_run sha a0 fs a \<Longrightarrow>
    invoke_metered sha oid resolve publish ctx q sc a au = (res, a, au') \<Longrightarrow> metered_run sha a0 fs a"

lemma invoke_metered_inv:
  assumes "invoke_metered sha oid resolve publish ctx q sc a au = (res, a', au')" "acct_inv a" "ca_pending au = None"
  shows "acct_inv a'"
  using assms(1,3)
proof (cases rule: invoke_metered_cases)
  case none
  with assms(2) show ?thesis by simp
next
  case (gate r a1 est f)
  have "acct_inv a1" using assms(2) gate(1) by (rule reserve_inv)
  with gate(4) show ?thesis by (auto simp: released_from_def intro: release_inv)
next
  case (closed r a1 est)
  have i: "acct_inv a1" using assms(2) closed(1) by (rule reserve_inv)
  from closed(2) have "faithful a1 r (receipts au au') a'" by simp
  then have "a' = a1 \<or> (\<exists>u s. settle a1 r u True = Inr (s, a')) \<or> (\<exists>s. release a1 r = Inr (s, a'))"
    by (auto simp: faithful_def settled_with_def released_from_def)
  with i show ?thesis by (auto intro: settle_inv release_inv)
qed

lemma one_receipt_restores:
  assumes "invoke_metered sha oid resolve publish ctx q sc a au = (res, a', au')" "acct_inv a" "ca_pending au = None"
    and "receipts au au' = [f]"
  shows "restore_fact sha a (oid, f) = Inr a'"
  using assms(1,3)
proof (cases rule: invoke_metered_cases)
  case (closed r a1 est)
  from closed(2) assms(4) have "faithful a1 r [f] a'" by simp
  with assms(2) closed(1) show ?thesis by (rule restore_faithful)
qed (use assms(3,4) in \<open>simp_all add: receipts_same\<close>)

lemma foldM_snoc: "foldM f s (xs @ [x]) = rbind (foldM f s xs) (\<lambda>t. f t x)"
  by (induction xs arbitrary: s) (simp_all add: rbind_def split: sum.splits)


section \<open>Every reservation is closed\<close>

definition script_usages :: "call_request \<Rightarrow> call_script \<Rightarrow> resource_usage set" where
  "script_usages q sc =
     {u. sc_observed_after sc = Observed (Some u) \<or> sc_invocation sc = Answered (Some u) \<or>
       (\<exists>f. sc_invocation sc = Failing f (Some u)) \<or> sc_last_usage sc = Some u \<or>
       with_wall (cq_fallback_usage q) (fsub (sc_now_finished sc) (sc_now_started sc)) = Inr u}"

definition settles :: "cost_resolver \<Rightarrow> call_request \<Rightarrow> accountant \<Rightarrow> budget_reservation \<Rightarrow> resource_usage \<Rightarrow> bool" where
  "settles resolve q a r u \<longleftrightarrow> (\<forall>code. \<exists>x. settle_call resolve q a r code True u = Inr x)"

fun closes :: "accountant \<Rightarrow> budget_reservation \<Rightarrow> call_end \<Rightarrow> bool" where
  "closes a r (res, a', au') \<longleftrightarrow> (\<exists>u. settled_with a r u a') \<or> released_from a r a'"

lemma settlesE:
  assumes "settles resolve q a r u"
  obtains actual a1 where "settle_call resolve q a r code True u = Inr (actual, a1)" "settled_with a r actual a1"
  using assms settle_call_with unfolding settles_def by (metis prod.exhaust)

lemma record_failed_closes: "closes a r (Inl e, a1, au) \<Longrightarrow> closes a r (record_failed publish q e u f a1 au)"
  by (auto simp: record_failed_def split: sum.splits call_failure.splits)

lemma settled_closes:
  assumes "settles resolve q a r u"
  shows "closes a r (integrity_end resolve publish q r u a au)" "closes a r (charge_failed resolve publish q r f u a au)"
    "closes a r (settle_answered resolve publish ctx q r u a au)"
proof -
  obtain x a1 where s: "settle_call resolve q a r ''USAGE_INTEGRITY'' True u = Inr (x, a1)" "settled_with a r x a1"
    by (rule settlesE [OF assms])
  then show "closes a r (integrity_end resolve publish q r u a au)"
    by (auto simp: integrity_end_def split: sum.splits)
  obtain x a1 where s: "settle_call resolve q a r (outcome_code f) True u = Inr (x, a1)" "settled_with a r x a1"
    by (rule settlesE [OF assms])
  then have "closes a r (Inl f, a1, au)" by auto
  then show "closes a r (charge_failed resolve publish q r f u a au)"
    by (simp add: charge_failed_def s(1) record_failed_closes del: closes.simps)
  obtain x a1 where s: "settle_call resolve q a r ''success'' True u = Inr (x, a1)" "settled_with a r x a1"
    by (rule settlesE [OF assms])
  then have "closes a r (z, a1, au1)" for z au1 by auto
  then show "closes a r (settle_answered resolve publish ctx q r u a au)"
    by (simp add: settle_answered_def s(1) Let_def del: closes.simps split: sum.splits)
qed

lemma reported_closes:
  "closes a r e \<Longrightarrow>
     closes a r (case e of (Inl CallUsageIntegrity, a1, au1) \<Rightarrow> (Inl CallUsageIntegrity, a1, au1) | (_, a1, au1) \<Rightarrow> (Inl f, a1, au1))"
  by (cases e) (auto split: sum.splits call_failure.splits)

lemma integrity_reported:
  "settles resolve q a r u \<Longrightarrow>
     closes a r (case integrity_end resolve publish q r u a au of
       (Inl CallUsageIntegrity, a1, au1) \<Rightarrow> (Inl CallUsageIntegrity, a1, au1) | (_, a1, au1) \<Rightarrow> (Inl f, a1, au1))"
  by (rule reported_closes [OF settled_closes(1)])

lemma close_call_closes:
  assumes "release a r = Inr (s, b)" "valid_usage (cq_fallback_usage q)"
    and "\<forall>u\<in>script_usages q sc. settles resolve q a r u"
    and "\<exists>u. sc_observed_after sc = NoObserver \<or> sc_observed_after sc = Observed u"
  shows "closes a r (close_call resolve publish ctx q sc r a au)"
proof -
  let ?e = "fsub (sc_now_finished sc) (sc_now_started sc)"
  have rel: "closes a r (x, b, y)" for x y using release_Inr [OF assms(1)] by simp
  have rs: "closes a r (x, release_silently a r, y)" for x y
    using rel by (simp add: release_silently_def assms(1))
  have wall: "\<exists>u. with_wall (cq_fallback_usage q) ?e = Inr u \<and> settles resolve q a r u"
  proof -
    have "fle (Fin 0) (fmax (Fin 0) ?e)" by (cases ?e) (auto simp: fmax_def)
    then have "with_wall (cq_fallback_usage q) ?e = Inr ((cq_fallback_usage q)\<lparr>ru_wall_seconds := fmax (Fin 0) ?e\<rparr>)"
      using assms(2) by (simp add: with_wall_def mk_usage_Inr valid_usage_def usage_fields_ok_def)
    then show ?thesis using assms(3) by (auto simp: script_usages_def)
  qed
  then obtain w where w: "with_wall (cq_fallback_usage q) ?e = Inr w" "settles resolve q a r w" by blast
  have rf: "closes a r (release_failed publish ctx q r f ?e a au)" for f
    using rel record_failed_closes [OF rel] by (simp add: release_failed_def assms(1) del: closes.simps split: sum.splits)
  have obs: "settles resolve q a r u" if "observed_usage (sc_observed_after sc) = Some u" for u
    using that assms(3,4) by (auto simp: script_usages_def)
  have rep: "settles resolve q a r u" if "sc_last_usage sc = Some u" for u
    using that assms(3) by (auto simp: script_usages_def)
  show ?thesis
  proof (cases "sc_invocation sc")
    case Stopping
    show ?thesis
    proof (cases "observed_usage (sc_observed_after sc)")
      case None
      with Stopping assms(4) rs show ?thesis by (auto simp: close_call_def close_stopped_def simp del: closes.simps)
    next
      case (Some u)
      obtain x a1 where "settle_call resolve q a r ''CANCELLED'' True u = Inr (x, a1)" "settled_with a r x a1"
        by (rule settlesE [OF obs [OF Some]])
      with Stopping Some assms(4) show ?thesis by (auto simp: close_call_def close_stopped_def)
    qed
  next
    case (Answered carried)
    have "settles resolve q a r u" if "carried = Some u" for u
      using that Answered assms(3) by (auto simp: script_usages_def)
    with Answered assms(1,4) obs rep rel w settled_closes show ?thesis
      by (auto simp: close_call_def close_answered_def Let_def disagree_def first_known_def simp del: closes.simps split: option.splits)
  next
    case (Failing f carried)
    have "settles resolve q a r u" if "carried = Some u" for u
      using that Failing assms(3) by (auto simp: script_usages_def)
    with Failing assms(1,4) obs rep rel rf w settled_closes integrity_reported show ?thesis
      by (auto simp: close_call_def close_failed_def Let_def disagree_def first_known_def simp del: closes.simps split: option.splits)
  qed
qed


section \<open>A worked call\<close>

text \<open>A search on the fresh accountant of the low preset, answered with its usage and audited.\<close>

definition demo_context :: run_context where
  "demo_context = \<lparr>cx_budget = preset Low, cx_token = \<lparr>ct_event = False\<rparr>, cx_deadline = Fin 100,
     cx_started = Fin 0, cx_base = Fin 0, cx_offset = Fin 0\<rparr>"

definition demo_request :: call_request where
  "demo_request = \<lparr>cq_operation = ''search'', cq_provider_id = ''tavily'', cq_model_id = None, cq_node = ''Tool'',
     cq_operation_id = ''k'', cq_search_calls = 1, cq_pages = 0, cq_tokens = 0, cq_input_tokens = None, cq_output_tokens = 0,
     cq_fallback_usage = demo_usage, cq_call_fields = True\<rparr>"

definition demo_script :: call_script where
  "demo_script = \<lparr>sc_now_first = Fin 1, sc_observed_before = NoObserver, sc_now_started = Fin 2,
     sc_invocation = Answered (Some demo_usage), sc_observed_after = NoObserver, sc_last_usage = None, sc_now_finished = Fin 2\<rparr>"

definition demo_resolver :: cost_resolver where
  "demo_resolver operation provider model outcome usage = Inr (Some (Fin 0))"

definition demo_audit :: call_audit where
  "demo_audit = \<lparr>ca_graph_node = Some ''Search'', ca_published = [], ca_pending = None\<rparr>"

lemma demo_floats: "fsub (Fin 100) (Fin 0) = Fin 100" "fsub (Fin 180) (Fin 0) = Fin 180" "fsub (Fin 2) (Fin 2) = Fin 0"
  "fadd (Fin 0) (Fin 0) = Fin 0"
  by (simp_all add: fsub_def fl_def rnd_numeral)

lemma demo_active: "ensure_active demo_context op (Fin 1) = Inr (Fin 1)" "ensure_active demo_context op (Fin 2) = Inr (Fin 2)"
  by (simp_all add: ensure_active_def demo_context_def raise_if_cancelled_def effective_deadline_def demo_floats Let_def)
    (simp_all add: preset_def)

lemma demo_begin:
  "\<exists>r a1. begin_call id 7 demo_resolver demo_context demo_request demo_script demo_accountant = Inr (r, a1)"
proof -
  obtain s where s: "snapshot_of (preset Low) [] (\<lambda>_. usage_zero True) (usage_zero True) None = Inr s"
    "bs_used_search_calls s = 0" "bs_used_pages s = 0" "bs_used_tokens s = 0"
    "bs_used_retries s = 0" "bs_reserved_search_calls s = 0" "bs_reserved_pages s = 0"
    "bs_reserved_tokens s = 0" "bs_reserved_retries s = 0" "bs_used_wall_seconds s = Fin 0"
    "bs_reserved_wall_seconds s = Fin 0" "bs_used_cost_usd s = Some (Fin 0)"
    "bs_reserved_cost_usd s = Some (Fin 0)"
    using demo_snapshot by blast
  let ?e = "\<lparr>re_search_calls = 1, re_pages = 0, re_tokens = 0, re_wall_seconds = Fin 180, re_cost_usd = Some (Fin 0), re_retries = 2\<rparr>"
  have w: "wall_limit demo_context = Fin 180"
    by (simp add: wall_limit_def demo_context_def preset_def fl_def rnd_numeral)
  have off: "offending_dimensions (preset Low) s ?e = {}"
    using s by (simp add: offending_dimensions_def preset_def opt_lt_def opt_add_def fl_def rnd_numeral)
  then have "\<exists>r a1. reserve id 7 demo_accountant ?e ''Tool'' ''k'' = Inr (r, a1)"
    using s(1) by (simp add: reserve_def node_of_name_def mk_estimate_def valid_estimate_def snapshot_def demo_accountant_def Let_def)
  moreover have "rb_max_retries (preset Low) = 2" "rb_max_cost_usd (preset Low) \<noteq> None" by (simp_all add: preset_def)
  moreover have "snapshot demo_accountant = Inr s" using s(1) by (simp add: snapshot_def demo_accountant_def)
  ultimately show ?thesis
    using s(2-) demo_active
    by (simp add: begin_call_def demo_request_def demo_script_def observer_idle_def preflight_def w Let_def demo_resolver_def)
      (auto simp: demo_context_def mk_usage_def usage_fields_ok_def validate_totals_def demo_floats fmax_def)
qed

lemma demo_usages: "script_usages demo_request demo_script = {demo_usage}"
  by (simp add: script_usages_def demo_script_def demo_request_def demo_floats with_wall_def fmax_def)
    (simp add: demo_usage_def usage_zero_def mk_usage_def usage_fields_ok_def validate_totals_def)

lemma demo_priced: "mk_usage (demo_usage\<lparr>ru_cost_usd := Some (Fin 0)\<rparr>) = Inr demo_usage"
  by (simp add: demo_usage_def usage_zero_def mk_usage_def usage_fields_ok_def validate_totals_def)

lemma demo_settling:
  assumes "reserve id 7 demo_accountant est (cq_node demo_request) (cq_operation_id demo_request) = Inr (r, a1)"
  shows "settles demo_resolver demo_request a1 r demo_usage"
proof -
  have "reserve id 7 demo_accountant est ''Tool'' ''k'' = Inr (r, a1)" using assms by (simp add: demo_request_def)
  from demo_settles [OF this] obtain s a' where "settle a1 r demo_usage True = Inr (s, a')" by blast
  then show ?thesis by (simp add: settles_def settle_call_def demo_resolver_def demo_priced)
qed

lemma demo_within:
  assumes "active_estimates (ac_states a) None = []" "ac_used_by_node a = (\<lambda>n. if n = Tool then demo_usage else usage_zero True)"
    and "ac_budget a = preset Low"
  shows "\<exists>t. snapshot a = Inr t \<and> post_settlement_overages (preset Low) t = {}"
proof -
  have ce: "cost_enabled (preset Low)" by (simp add: cost_enabled_def preset_def)
  have tot: "used_totals True (ac_used_by_node a) = Inr demo_usage"
    by (simp add: assms(2) used_totals_def budget_nodes_def add_usage_def usage_zero_def demo_usage_def
        mk_usage_def validate_totals_def usage_fields_ok_def or_zero_def)
  show ?thesis
    by (simp add: snapshot_def assms(3) snapshot_of_def ce tot reserved_totals_none [OF assms(1)] mk_snapshot_def valid_snapshot_def
        nonneg_opt_def)
      (simp add: usage_zero_def zero_estimate_def demo_usage_def post_settlement_overages_def preset_def)
qed

lemma demo_metered:
  "\<exists>a' au'. invoke_metered id 7 demo_resolver None demo_context demo_request demo_script demo_accountant demo_audit =
     (Inr demo_usage, a', au')"
proof -
  obtain r a1 where b: "begin_call id 7 demo_resolver demo_context demo_request demo_script demo_accountant = Inr (r, a1)"
    using demo_begin by blast
  obtain est where res: "reserve id 7 demo_accountant est ''Tool'' ''k'' = Inr (r, a1)"
    using begin_reserves [OF b] by (auto simp: demo_request_def)
  obtain s a' where s: "settle a1 r demo_usage True = Inr (s, a')" and a': "active_estimates (ac_states a') None = []"
      "ac_used_by_node a' = (\<lambda>n. if n = Tool then demo_usage else usage_zero True)"
    using demo_settles [OF res] by blast
  have "ac_budget a' = preset Low" using settle_budget [OF s] reserve_budget [OF res] by (simp add: demo_accountant_def)
  then obtain t where "snapshot a' = Inr t" "post_settlement_overages (preset Low) t = {}" using demo_within [OF a'] by blast
  moreover have "settle_call demo_resolver demo_request a1 r ''success'' True demo_usage = Inr (demo_usage, a')"
    by (simp add: settle_call_def demo_resolver_def s demo_priced)
  moreover have "sc_now_started demo_script = Fin 2" "sc_invocation demo_script = Answered (Some demo_usage)"
    "sc_observed_after demo_script = NoObserver" "ca_pending demo_audit = None" "cx_budget demo_context = preset Low"
    by (simp_all add: demo_script_def demo_audit_def demo_context_def)
  ultimately show ?thesis
    by (simp add: invoke_metered_def b demo_active(2) close_call_def close_answered_def settle_answered_def first_known_def
        disagree_def Let_def)
qed

lemma demo_inv: "acct_inv demo_accountant"
  using demo_new by (rule new_accountant_inv)



end
