(* ===== verification/Evidence_Store.thy ===== *)
theory Evidence_Store
  imports Citations Chunking
begin

text \<open>
  The evidence store (\<^verbatim>\<open>src/src/deepresearch/storage/evidence_store.py\<close>): sources, parsed documents
  and evidence in files named by the digest of their id.  A file is what \<^verbatim>\<open>json.loads\<close> reads in it,
  or None when that raises; a path may also be unsafe (a link) or a directory, and the files may hold
  anything.  The digests of texts and of canonical JSON, Unicode composition, and validating and
  dumping sources and parsed documents are arguments.  A locked update is one step; the lock files,
  their time limit and the temporary files are left out.
\<close>

section \<open>Parsed documents (\<^verbatim>\<open>providers/types.py\<close>)\<close>

record parsed_block =
  pb_block_id :: string
  pb_text :: string
  pb_locator :: locator
  pb_text_hash :: string

definition mk_parsed_block :: "(string \<Rightarrow> string) \<Rightarrow> parsed_block \<Rightarrow> exc + parsed_block" where
  "mk_parsed_block sha b =
     rbind (require_sha256 (pb_text_hash b)) (\<lambda>_.
       if \<not> valid_locator (pb_locator b) then Inl (ValueError ''invalid locator'')
       else if pb_text_hash b \<noteq> sha (pb_text b) then Inl (ValueError ''text_hash does not match text'')
       else if int (length (pb_text b)) < end_char (pb_locator b) then Inl (ValueError ''locator bounds exceed text length'')
       else Inr b)"

record parsed_document =
  pd_canonical_url :: string
  pd_title :: string
  pd_authors :: "string list"
  pd_published_at :: "timestamp option"
  pd_normalized_text :: string
  pd_blocks :: "parsed_block list"
  pd_parser_id :: string
  pd_parser_version :: string
  pd_parsed_content_hash :: string

definition mk_parsed_document :: "(string \<Rightarrow> string) \<Rightarrow> parsed_document \<Rightarrow> exc + parsed_document" where
  "mk_parsed_document sha d =
     rbind (mapM (mk_parsed_block sha) (pd_blocks d)) (\<lambda>_.
     rbind (require_timezone (pd_published_at d)) (\<lambda>_.
     rbind (require_sha256 (pd_parsed_content_hash d)) (\<lambda>_.
       if pd_parsed_content_hash d \<noteq> sha (pd_normalized_text d)
       then Inl (ValueError ''parsed_content_hash does not match normalized_text'') else Inr d)))"

section \<open>Files\<close>

datatype store_error = MissingFile | Integrity string | Conflict string

datatype entry = Absent | UnsafePath | Folder | File "json option"

record evidence_disk =
  dk_sources :: "string \<Rightarrow> entry"
  dk_evidence :: "string \<Rightarrow> entry"
  dk_parsed :: "string \<Rightarrow> entry"

record store_env =
  se_sha :: "string \<Rightarrow> string"
  se_json_sha :: "json \<Rightarrow> string"
  se_nfc :: "string \<Rightarrow> string"
  se_read_source :: "json \<Rightarrow> source_document option"
  se_read_span :: "json \<Rightarrow> evidence_span option"
  se_read_parsed :: "json \<Rightarrow> parsed_document option"
  se_source_json :: "source_document \<Rightarrow> json"
  se_parsed_json :: "parsed_document \<Rightarrow> json"

text \<open>\<^verbatim>\<open>allow_nan=False\<close>\<close>

fun all_finite :: "json \<Rightarrow> bool" where
  "all_finite (JFloat f) \<longleftrightarrow> isfinite f"
| "all_finite (JList vs) \<longleftrightarrow> (\<forall>v\<in>set vs. all_finite v)"
| "all_finite (JFrozen vs) \<longleftrightarrow> (\<forall>v\<in>set vs. all_finite v)"
| "all_finite (JDict kvs) \<longleftrightarrow> (\<forall>(k, v)\<in>set kvs. all_finite v)"
| "all_finite _ \<longleftrightarrow> True"

definition payload_sha :: "store_env \<Rightarrow> json \<Rightarrow> string" where
  "payload_sha env j = se_json_sha env (canonical_json j)"

definition envelope :: "store_env \<Rightarrow> json \<Rightarrow> json" where
  "envelope env payload = JDict [(''payload'', payload), (''payload_sha256'', JStr (payload_sha env payload))]"

text \<open>What is read back from the canonical text of an envelope.\<close>

definition written :: "store_env \<Rightarrow> json \<Rightarrow> entry" where
  "written env payload = File (Some (canonical_json (envelope env payload)))"

fun validated_envelope :: "store_env \<Rightarrow> json \<Rightarrow> (string \<times> json) list option" where
  "validated_envelope env (JDict kvs) =
     (if set (dkeys kvs) \<noteq> {''payload'', ''payload_sha256''} then None
      else (case (dget kvs ''payload'', dget kvs ''payload_sha256'') of
              (Some (JDict payload), Some (JStr checksum)) \<Rightarrow>
                if all_finite (JDict payload) \<and> payload_sha env (JDict payload) = checksum then Some payload else None
            | _ \<Rightarrow> None))"
| "validated_envelope env _ = None"

fun read_envelope :: "store_env \<Rightarrow> string \<Rightarrow> entry \<Rightarrow> store_error + (string \<times> json) list" where
  "read_envelope env msg Absent = Inl MissingFile"
| "read_envelope env msg (File (Some j)) =
     (case validated_envelope env j of None \<Rightarrow> Inl (Integrity msg) | Some payload \<Rightarrow> Inr payload)"
| "read_envelope env msg _ = Inl (Integrity msg)"

definition record_digest :: "store_env \<Rightarrow> string \<Rightarrow> store_error + string" where
  "record_digest env i = (if i = [] then Inl (Integrity ''record ID must not be empty'') else Inr (se_sha env i))"

section \<open>Sources\<close>

definition source_of_payload :: "store_env \<Rightarrow> (string \<times> json) list \<Rightarrow> (source_document \<times> string) option" where
  "source_of_payload env payload =
     (case Option.bind (dget payload ''source'') (se_read_source env) of
        None \<Rightarrow> None
      | Some s \<Rightarrow> (case dget payload ''normalized_text'' of Some (JStr t) \<Rightarrow> Some (s, t) | _ \<Rightarrow> None))"

definition read_source_record :: "store_env \<Rightarrow> evidence_disk \<Rightarrow> string \<Rightarrow> store_error + source_document \<times> string" where
  "read_source_record env disk sid =
     rbind (record_digest env sid) (\<lambda>d.
     rbind (read_envelope env ''persisted source record is corrupt'' (dk_sources disk d)) (\<lambda>payload.
       case source_of_payload env payload of
         None \<Rightarrow> Inl (Integrity ''persisted source record is corrupt'')
       | Some (s, t) \<Rightarrow>
           if sd_source_id s \<noteq> sid then Inl (Integrity ''persisted source identity does not match its key'')
           else if sd_parsed_content_hash s \<noteq> se_sha env t
           then Inl (Integrity ''source parsed_content_hash does not match exact normalized_text'')
           else Inr (s, t)))"

section \<open>Parsed documents\<close>

text \<open>\<^verbatim>\<open>str.find\<close>\<close>

fun find_at :: "string \<Rightarrow> string \<Rightarrow> nat option" where
  "find_at b [] = (if b = [] then Some 0 else None)"
| "find_at b (c # cs) = (if take (length b) (c # cs) = b then Some 0 else map_option Suc (find_at b cs))"

definition is_html :: "locator \<Rightarrow> bool" where
  "is_html l = (case l of HtmlLocator _ _ _ \<Rightarrow> True | _ \<Rightarrow> False)"

text \<open>
  \<^verbatim>\<open>_validate_parsed_structure\<close>: the format seen first, the keys seen, the last PDF key, the blocks
  left and the text after the cursor.
\<close>

definition check_container :: "bool option \<Rightarrow> string set \<Rightarrow> (int \<times> int) set \<Rightarrow> (int \<times> int) option \<Rightarrow> locator \<Rightarrow>
    store_error + string set \<times> (int \<times> int) set \<times> (int \<times> int) option" where
  "check_container fmt html pdf prev l =
     (if fmt \<noteq> None \<and> fmt \<noteq> Some (is_html l)
      then Inl (Integrity ''parsed document blocks must all use the same locator format'')
      else (case l of
              HtmlLocator p _ _ \<Rightarrow>
                if p \<in> html then Inl (Integrity ''parsed document HTML paragraph IDs must be unique'')
                else Inr (insert p html, pdf, prev)
            | PdfLocator page block _ _ \<Rightarrow>
                if (page, block) \<in> pdf then Inl (Integrity ''parsed document PDF container keys must be unique'')
                else if (case prev of None \<Rightarrow> False
                         | Some (p, b) \<Rightarrow> page < p \<or> page = p \<and> block \<le> b)
                then Inl (Integrity ''parsed document PDF container keys must be strictly increasing'')
                else Inr (html, insert (page, block) pdf, Some (page, block))))"

definition match_block :: "string \<Rightarrow> string \<Rightarrow> store_error + string" where
  "match_block block rest =
     (case find_at block rest of
        None \<Rightarrow> Inl (Integrity ''parsed block text does not match source content in tuple order'')
      | Some i \<Rightarrow>
          if strip (take i rest) \<noteq> [] then Inl (Integrity ''parsed blocks omit non-whitespace source content'')
          else Inr (drop (i + length block) rest))"

fun check_blocks :: "bool option \<Rightarrow> string set \<Rightarrow> (int \<times> int) set \<Rightarrow> (int \<times> int) option \<Rightarrow> parsed_block list \<Rightarrow> string \<Rightarrow>
    store_error + unit" where
  "check_blocks fmt html pdf prev [] rest =
     require (strip rest = []) (Integrity ''parsed blocks omit non-whitespace source content'')"
| "check_blocks fmt html pdf prev (b # bs) rest =
     rbind (check_container fmt html pdf prev (pb_locator b)) (\<lambda>(html', pdf', prev').
     rbind (match_block (pb_text b) rest) (\<lambda>rest'.
       check_blocks (Some (is_html (pb_locator b))) html' pdf' prev' bs rest'))"

definition validate_parsed_structure :: "parsed_document \<Rightarrow> string \<Rightarrow> store_error + unit" where
  "validate_parsed_structure d text = check_blocks None {} {} None (pd_blocks d) text"

text \<open>Equality of dates is that of their instants.\<close>

definition same_time :: "timestamp option \<Rightarrow> timestamp option \<Rightarrow> bool" where
  "same_time x y \<longleftrightarrow> map_option ts_instant x = map_option ts_instant y"

definition validate_parsed_identity :: "store_env \<Rightarrow> evidence_disk \<Rightarrow> string \<Rightarrow> parsed_document \<Rightarrow>
    store_error + source_document" where
  "validate_parsed_identity env disk sid d =
     (case read_source_record env disk sid of
        Inl MissingFile \<Rightarrow> Inl (Integrity ''parsed document source does not exist'')
      | Inl e \<Rightarrow> Inl e
      | Inr (s, text) \<Rightarrow>
          if pd_canonical_url d \<noteq> sd_canonical_url s then Inl (Integrity ''parsed document canonical_url does not match source'')
          else if pd_title d \<noteq> sd_title s then Inl (Integrity ''parsed document title does not match source'')
          else if pd_authors d \<noteq> sd_authors s then Inl (Integrity ''parsed document authors does not match source'')
          else if \<not> same_time (pd_published_at d) (sd_published_at s)
          then Inl (Integrity ''parsed document published_at does not match source'')
          else if pd_parser_version d \<noteq> sd_parser_version s
          then Inl (Integrity ''parsed document parser_version does not match source'')
          else if pd_parsed_content_hash d \<noteq> sd_parsed_content_hash s
          then Inl (Integrity ''parsed document parsed_content_hash does not match source'')
          else if pd_normalized_text d \<noteq> text
          then Inl (Integrity ''parsed document normalized_text does not match stored source text'')
          else rbind (validate_parsed_structure d text) (\<lambda>_. Inr s))"

definition read_parsed_document :: "store_env \<Rightarrow> evidence_disk \<Rightarrow> string \<Rightarrow> store_error + parsed_document" where
  "read_parsed_document env disk sid =
     rbind (record_digest env sid) (\<lambda>d.
     rbind (read_envelope env ''persisted parsed document is corrupt'' (dk_parsed disk d)) (\<lambda>payload.
       case Option.bind (dget payload ''parsed_document'') (se_read_parsed env) of
         None \<Rightarrow> Inl (Integrity ''persisted parsed document is corrupt'')
       | Some doc \<Rightarrow>
           if dget payload ''source_id'' \<noteq> Some (JStr sid)
           then Inl (Integrity ''persisted parsed document identity does not match its key'')
           else rbind (validate_parsed_identity env disk sid doc) (\<lambda>_. Inr doc)))"

section \<open>Evidence\<close>

fun same_container :: "locator \<Rightarrow> locator \<Rightarrow> bool" where
  "same_container (HtmlLocator p _ _) (HtmlLocator q _ _) \<longleftrightarrow> p = q"
| "same_container (PdfLocator p b _ _) (PdfLocator q c _ _) \<longleftrightarrow> p = q \<and> b = c"
| "same_container _ _ \<longleftrightarrow> False"

definition locator_block :: "locator \<Rightarrow> parsed_block list \<Rightarrow> store_error + parsed_block" where
  "locator_block l blocks =
     (case find (\<lambda>b. same_container l (pb_locator b)) blocks of
        Some b \<Rightarrow> Inr b
      | None \<Rightarrow> Inl (Integrity (if is_html l then ''evidence HTML paragraph container does not exist''
                              else ''evidence PDF page/block container does not exist'')))"

definition validate_evidence :: "store_env \<Rightarrow> evidence_disk \<Rightarrow> evidence_span \<Rightarrow> store_error + unit" where
  "validate_evidence env disk e =
     (if es_excerpt_hash e \<noteq> se_sha env (es_excerpt e)
      then Inl (Integrity ''evidence excerpt_hash does not match exact excerpt'')
      else (case read_parsed_document env disk (es_source_id e) of
              Inl MissingFile \<Rightarrow>
                (case read_source_record env disk (es_source_id e) of
                   Inl MissingFile \<Rightarrow> Inl (Integrity ''evidence source does not exist'')
                 | Inl x \<Rightarrow> Inl x
                 | Inr _ \<Rightarrow> Inl (Integrity ''evidence source has no registered parsed document''))
            | Inl x \<Rightarrow> Inl x
            | Inr d \<Rightarrow>
                rbind (locator_block (es_locator e) (pd_blocks d)) (\<lambda>b.
                  let s = start_char (es_locator e); t = end_char (es_locator e) in
                  if s < 0 \<or> t \<le> s \<or> int (length (pb_text b)) < t
                  then Inl (Integrity ''evidence locator bounds exceed parsed container text'')
                  else require (es_excerpt e = slice (pb_text b) s t)
                    (Integrity ''evidence excerpt does not match locator source slice''))))"

definition read_evidence_record :: "store_env \<Rightarrow> evidence_disk \<Rightarrow> string \<Rightarrow> store_error + evidence_span" where
  "read_evidence_record env disk eid =
     rbind (record_digest env eid) (\<lambda>d.
     rbind (read_envelope env ''persisted evidence record is corrupt'' (dk_evidence disk d)) (\<lambda>payload.
       case se_read_span env (JDict payload) of
         None \<Rightarrow> Inl (Integrity ''persisted evidence record is corrupt'')
       | Some e \<Rightarrow>
           if es_evidence_id e \<noteq> eid then Inl (Integrity ''persisted evidence identity does not match its key'')
           else rbind (validate_evidence env disk e) (\<lambda>_. Inr e)))"

section \<open>Storing\<close>

definition same_source :: "source_document \<Rightarrow> source_document \<Rightarrow> bool" where
  "same_source s t \<longleftrightarrow>
     s\<lparr>sd_published_at := None, sd_retrieved_at := sd_retrieved_at t\<rparr> = t\<lparr>sd_published_at := None\<rparr> \<and>
     same_time (sd_published_at s) (sd_published_at t) \<and> ts_instant (sd_retrieved_at s) = ts_instant (sd_retrieved_at t)"

definition same_parsed :: "parsed_document \<Rightarrow> parsed_document \<Rightarrow> bool" where
  "same_parsed d e \<longleftrightarrow>
     d\<lparr>pd_published_at := None\<rparr> = e\<lparr>pd_published_at := None\<rparr> \<and> same_time (pd_published_at d) (pd_published_at e)"

text \<open>The update under the lock: an entry that exists is read and compared, never replaced.\<close>

definition locked_put :: "entry \<Rightarrow> store_error + 'a \<Rightarrow> ('a \<Rightarrow> bool) \<Rightarrow> string \<Rightarrow> store_error + unit \<Rightarrow>
    store_error + 'a option" where
  "locked_put old existing same clash fresh =
     (case old of
        UnsafePath \<Rightarrow> Inl (Integrity ''storage final or lock path is a symlink or reparse point'')
      | Absent \<Rightarrow> rbind fresh (\<lambda>_. Inr None)
      | _ \<Rightarrow> rbind existing (\<lambda>x. if same x then Inr (Some x) else Inl (Conflict clash)))"

definition put_source :: "store_env \<Rightarrow> source_document \<Rightarrow> string \<Rightarrow> evidence_disk \<Rightarrow>
    store_error + source_document \<times> evidence_disk" where
  "put_source env s text disk =
     (if normalize_text (se_nfc env) text \<noteq> text then Inl (Integrity ''normalized_text must already be normalized'')
      else if sd_parsed_content_hash s \<noteq> se_sha env text
      then Inl (Integrity ''source parsed_content_hash does not match exact normalized_text'')
      else
        rbind (record_digest env (sd_source_id s)) (\<lambda>d.
        rbind (locked_put (dk_sources disk d) (read_source_record env disk (sd_source_id s))
            (\<lambda>(s', text'). same_source s' s \<and> text' = text) ''source ID already contains a different record'' (Inr ())) (\<lambda>old.
          case old of
            Some (s', _) \<Rightarrow> Inr (s', disk)
          | None \<Rightarrow>
              Inr (s, disk\<lparr>dk_sources := (dk_sources disk)
                (d := written env (JDict [(''normalized_text'', JStr text), (''source'', se_source_json env s)]))\<rparr>))))"

definition put_parsed_document :: "store_env \<Rightarrow> string \<Rightarrow> parsed_document \<Rightarrow> evidence_disk \<Rightarrow>
    store_error + parsed_document \<times> evidence_disk" where
  "put_parsed_document env sid doc disk =
     rbind (record_digest env sid) (\<lambda>d.
     rbind (locked_put (dk_parsed disk d) (read_parsed_document env disk sid) (\<lambda>x. same_parsed x doc)
         ''source ID already contains a different parsed document''
         (rbind (validate_parsed_identity env disk sid doc) (\<lambda>_. Inr ()))) (\<lambda>old.
       case old of
         Some x \<Rightarrow> Inr (x, disk)
       | None \<Rightarrow>
           Inr (doc, disk\<lparr>dk_parsed := (dk_parsed disk)
             (d := written env (JDict [(''parsed_document'', se_parsed_json env doc), (''source_id'', JStr sid)]))\<rparr>)))"

definition put_evidence :: "store_env \<Rightarrow> evidence_span \<Rightarrow> evidence_disk \<Rightarrow> store_error + evidence_span \<times> evidence_disk" where
  "put_evidence env e disk =
     rbind (validate_evidence env disk e) (\<lambda>_.
     rbind (record_digest env (es_evidence_id e)) (\<lambda>d.
     rbind (locked_put (dk_evidence disk d) (read_evidence_record env disk (es_evidence_id e)) (\<lambda>x. x = e)
         ''evidence ID already contains a different record'' (Inr ())) (\<lambda>old.
       case old of
         Some x \<Rightarrow> Inr (x, disk)
       | None \<Rightarrow> Inr (e, disk\<lparr>dk_evidence := (dk_evidence disk)(d := written env (span_json e))\<rparr>))))"

definition get_source :: "store_env \<Rightarrow> evidence_disk \<Rightarrow> string \<Rightarrow> store_error + source_document" where
  "get_source env disk sid = rbind (read_source_record env disk sid) (\<lambda>(s, _). Inr s)"

definition get_evidence :: "store_env \<Rightarrow> evidence_disk \<Rightarrow> string \<Rightarrow> store_error + evidence_span" where
  "get_evidence env disk eid = read_evidence_record env disk eid"

definition has_evidence :: "store_env \<Rightarrow> evidence_disk \<Rightarrow> string \<Rightarrow> store_error + bool" where
  "has_evidence env disk eid =
     rbind (record_digest env eid) (\<lambda>d.
       case dk_evidence disk d of
         UnsafePath \<Rightarrow> Inl (Integrity ''storage final or lock path is a symlink or reparse point'')
       | File _ \<Rightarrow> rbind (read_evidence_record env disk eid) (\<lambda>_. Inr True)
       | _ \<Rightarrow> Inr False)"

end
