(* ===== verification/Evidence_Store_Correct.thy ===== *)
theory Evidence_Store_Correct
  imports Evidence_Store "HOL-Library.Sublist"
begin

text \<open>
  What the evidence store serves, and that it keeps what it stored: whatever the files hold, a
  served excerpt is an exact part of its source's recorded text.
\<close>

section \<open>Blocks in a text\<close>

definition all_blank :: "string \<Rightarrow> bool" where
  "all_blank s \<longleftrightarrow> list_all is_ws s"

lemma strip_blank: "strip s = [] \<longleftrightarrow> all_blank s"
proof -
  have "(\<forall>c\<in>set (dropWhile is_ws s). is_ws c) \<longleftrightarrow> (\<forall>c\<in>set s. is_ws c)"
    by (induction s) simp_all
  then show ?thesis by (simp add: strip_def all_blank_def list_all_iff)
qed

text \<open>A text is a sequence of blocks with white space around them.\<close>

fun laid_out :: "string list \<Rightarrow> string \<Rightarrow> bool" where
  "laid_out [] t \<longleftrightarrow> all_blank t"
| "laid_out (b # bs) t \<longleftrightarrow> (\<exists>w t'. t = w @ b @ t' \<and> all_blank w \<and> laid_out bs t')"

lemma laid_out_blank: "all_blank w \<Longrightarrow> laid_out bs t \<Longrightarrow> laid_out bs (w @ t)"
proof (cases bs)
  case (Cons b cs)
  assume w: "all_blank w" and "laid_out bs t"
  then obtain v t' where "t = v @ b @ t'" "all_blank v" "laid_out cs t'" using Cons by auto
  with w show ?thesis unfolding Cons laid_out.simps by (intro exI [of _ "w @ v"] exI [of _ t']) (simp add: all_blank_def)
qed (simp add: all_blank_def)

lemma laid_out_sublist: "laid_out bs t \<Longrightarrow> b \<in> set bs \<Longrightarrow> sublist b t"
proof (induction bs t rule: laid_out.induct)
  case (2 c cs t)
  then obtain w t' where t: "t = w @ c @ t'" "laid_out cs t'" by auto
  have "sublist b (c @ t')"
  proof (cases "b = c")
    case False
    then have "sublist b t'" using 2 t(2) by auto
    then show ?thesis by (rule sublist_order.order_trans) simp
  qed simp
  then show ?case unfolding t(1) by (rule sublist_order.order_trans) simp
qed simp

lemma find_at_Some: "find_at b s = Some i \<Longrightarrow> s = take i s @ b @ drop (i + length b) s \<and> i + length b \<le> length s"
proof (induction b s arbitrary: i rule: find_at.induct)
  case (2 b c cs)
  show ?case
  proof (cases "take (length b) (c # cs) = b")
    case True
    with 2 have "i = 0" by simp
    moreover have "length b \<le> length (c # cs)" using True by (metis length_take min.cobounded1)
    ultimately show ?thesis using True append_take_drop_id [of "length b" "c # cs"] by simp
  next
    case False
    with 2 show ?thesis by auto
  qed
qed (auto split: if_splits)

lemma find_at_prefix: "find_at b (w @ b @ t) \<noteq> None \<and> the (find_at b (w @ b @ t)) \<le> length w"
proof (induction w)
  case Nil
  show ?case
  proof (cases "b @ t")
    case (Cons a l)
    then have "take (length b) (a # l) = b" by (metis append_eq_conv_conj)
    then show ?thesis by (simp add: Cons)
  qed simp
qed auto

lemma match_block_Inr: "match_block b rest = Inr rest' \<Longrightarrow> \<exists>w. rest = w @ b @ rest' \<and> all_blank w"
  using find_at_Some [of b rest] by (auto simp: match_block_def strip_blank split: option.splits if_splits)

definition starts :: "string \<Rightarrow> bool" where
  "starts b \<longleftrightarrow> b = [] \<or> \<not> is_ws (hd b)"

lemma match_block_complete:
  assumes "starts b" "b \<noteq> []" "all_blank w"
  shows "match_block b (w @ b @ t) = Inr t"
proof -
  obtain i where i: "find_at b (w @ b @ t) = Some i" "i \<le> length w" using find_at_prefix [of b w t] by auto
  have "i = length w"
  proof (rule ccontr)
    assume "i \<noteq> length w"
    then have l: "i < length w" using i(2) by simp
    have "drop i (w @ b @ t) = b @ drop (i + length b) (w @ b @ t)"
      using find_at_Some [OF i(1)] by (metis append_eq_conv_conj add.commute drop_drop append_take_drop_id)
    then have "hd b = w ! i" using l assms(2) by (metis hd_append2 hd_drop_conv_nth nth_append length_append trans_less_add1)
    then show False using assms l by (auto simp: starts_def all_blank_def list_all_length)
  qed
  with i(1) assms(3) show ?thesis by (simp add: match_block_def strip_blank)
qed

lemma match_block_empty: "match_block [] t = Inr t"
  by (cases t) (simp_all add: match_block_def strip_def)

section \<open>Containers\<close>

definition before :: "locator \<Rightarrow> locator \<Rightarrow> bool" where
  "before l m \<longleftrightarrow> page_index l < page_index m \<or> page_index l = page_index m \<and> block_index l < block_index m"

definition containers_ok :: "locator list \<Rightarrow> bool" where
  "containers_ok ls \<longleftrightarrow>
     list_all is_html ls \<and> distinct (map paragraph_id ls) \<or> list_all (Not \<circ> is_html) ls \<and> sorted_wrt before ls"

fun text_match :: "string list \<Rightarrow> string \<Rightarrow> bool" where
  "text_match [] t \<longleftrightarrow> all_blank t"
| "text_match (b # bs) t \<longleftrightarrow> (\<exists>r. match_block b t = Inr r \<and> text_match bs r)"

lemma text_match_laid_out: "text_match bs t \<Longrightarrow> laid_out bs t"
proof (induction bs t rule: text_match.induct)
  case (2 b bs t)
  then obtain r where r: "match_block b t = Inr r" "text_match bs r" by auto
  with 2 match_block_Inr [OF r(1)] show ?case by auto
qed simp

lemma text_match_complete: "list_all starts bs \<Longrightarrow> laid_out bs t \<Longrightarrow> text_match bs t"
proof (induction bs arbitrary: t)
  case (Cons b bs)
  then obtain w t' where t: "t = w @ b @ t'" "all_blank w" "laid_out bs t'" by auto
  show ?case
  proof (cases "b = []")
    case True
    then show ?thesis using Cons t laid_out_blank [OF t(2,3)] by (simp add: match_block_empty)
  next
    case False
    then show ?thesis using Cons t match_block_complete [of b w t'] by simp
  qed
qed simp

lemma check_html:
  "check_blocks (Some True) html pdf prev bs t = Inr () \<longleftrightarrow>
     list_all is_html (map pb_locator bs) \<and> distinct (map (paragraph_id \<circ> pb_locator) bs) \<and>
     (paragraph_id \<circ> pb_locator) ` set bs \<inter> html = {} \<and> text_match (map pb_text bs) t"
proof (induction bs arbitrary: html t)
  case (Cons b bs)
  show ?case
  proof (cases "pb_locator b")
    case (HtmlLocator p x y)
    then show ?thesis using Cons
      by (cases "match_block (pb_text b) t") (auto simp: check_container_def is_html_def)
  qed (simp add: check_container_def is_html_def)
qed (simp add: strip_blank require_eq_Inr)

lemma check_pdf:
  assumes "\<forall>(p, b)\<in>pdf. case prev of None \<Rightarrow> False | Some (q, c) \<Rightarrow> p < q \<or> p = q \<and> b \<le> c"
  shows "check_blocks (Some False) html pdf prev bs t = Inr () \<longleftrightarrow>
     list_all (Not \<circ> is_html) (map pb_locator bs) \<and> sorted_wrt before (map pb_locator bs) \<and>
     (case prev of None \<Rightarrow> True | Some (q, c) \<Rightarrow> \<forall>x\<in>set bs. q < page_index (pb_locator x) \<or> q = page_index (pb_locator x) \<and> c < block_index (pb_locator x)) \<and>
     text_match (map pb_text bs) t"
  using assms
proof (induction bs arbitrary: pdf prev t)
  case (Cons b bs)
  show ?case
  proof (cases "pb_locator b")
    case (PdfLocator p c x y)
    define ok where "ok \<longleftrightarrow> (case prev of None \<Rightarrow> True | Some (q, d) \<Rightarrow> q < p \<or> q = p \<and> d < c)"
    have cc: "check_container (Some False) html pdf prev (pb_locator b) = Inr z \<longleftrightarrow>
        ok \<and> z = (html, insert (p, c) pdf, Some (p, c))" for z
      using Cons.prems by (cases prev) (auto simp: PdfLocator check_container_def is_html_def ok_def)
    have IH: "check_blocks (Some False) html (insert (p, c) pdf) (Some (p, c)) bs r = Inr () \<longleftrightarrow>
        list_all (Not \<circ> is_html) (map pb_locator bs) \<and> sorted_wrt before (map pb_locator bs) \<and>
        (\<forall>x\<in>set bs. before (pb_locator b) (pb_locator x)) \<and> text_match (map pb_text bs) r" if ok for r
    proof -
      have "\<forall>(p', b')\<in>insert (p, c) pdf. p' < p \<or> p' = p \<and> b' \<le> c"
        using Cons.prems that by (cases prev) (fastforce simp: ok_def)+
      then show ?thesis by (subst Cons.IH) (auto simp: before_def PdfLocator)
    qed
    have f: "\<not> is_html (pb_locator b)" by (simp add: PdfLocator is_html_def)
    have tr: "(case prev of None \<Rightarrow> True | Some (q, d) \<Rightarrow>
          \<forall>x\<in>set (b # bs). q < page_index (pb_locator x) \<or> q = page_index (pb_locator x) \<and> d < block_index (pb_locator x)) \<longleftrightarrow> ok"
      if "\<forall>x\<in>set bs. before (pb_locator b) (pb_locator x)"
      using that by (cases prev) (fastforce simp: ok_def before_def PdfLocator)+
    have "check_blocks (Some False) html pdf prev (b # bs) t = Inr () \<longleftrightarrow>
        ok \<and> (\<exists>r. match_block (pb_text b) t = Inr r \<and>
          check_blocks (Some False) html (insert (p, c) pdf) (Some (p, c)) bs r = Inr ())"
      using f by (auto simp: rbind_eq_Inr cc)
    also have "\<dots> \<longleftrightarrow> ok \<and> list_all (Not \<circ> is_html) (map pb_locator bs) \<and> sorted_wrt before (map pb_locator bs) \<and>
        (\<forall>x\<in>set bs. before (pb_locator b) (pb_locator x)) \<and> text_match (map pb_text (b # bs)) t"
      using IH by auto
    also have "\<dots> \<longleftrightarrow> list_all (Not \<circ> is_html) (map pb_locator (b # bs)) \<and> sorted_wrt before (map pb_locator (b # bs)) \<and>
        (case prev of None \<Rightarrow> True | Some (q, d) \<Rightarrow>
          \<forall>x\<in>set (b # bs). q < page_index (pb_locator x) \<or> q = page_index (pb_locator x) \<and> d < block_index (pb_locator x)) \<and>
        text_match (map pb_text (b # bs)) t"
      using f tr by auto
    finally show ?thesis .
  qed (simp add: check_container_def is_html_def)
qed (simp add: strip_blank require_eq_Inr split: option.splits)

lemma structure_exact:
  "validate_parsed_structure d t = Inr () \<longleftrightarrow>
     containers_ok (map pb_locator (pd_blocks d)) \<and> text_match (map pb_text (pd_blocks d)) t"
proof (cases "pd_blocks d")
  case Nil
  then show ?thesis by (simp add: validate_parsed_structure_def containers_ok_def strip_blank require_eq_Inr)
next
  case (Cons b bs)
  show ?thesis
  proof (cases "pb_locator b")
    case (HtmlLocator p x y)
    then show ?thesis
      by (auto simp: validate_parsed_structure_def Cons containers_ok_def check_container_def is_html_def rbind_eq_Inr check_html comp_def)
  next
    case (PdfLocator p c x y)
    have "check_blocks (Some False) {} {(p, c)} (Some (p, c)) bs r = Inr () \<longleftrightarrow>
        list_all (Not \<circ> is_html) (map pb_locator bs) \<and> sorted_wrt before (map pb_locator bs) \<and>
        (\<forall>z\<in>set bs. before (pb_locator b) (pb_locator z)) \<and> text_match (map pb_text bs) r" for r
      by (subst check_pdf) (auto simp: before_def PdfLocator)
    then show ?thesis
      by (auto simp: validate_parsed_structure_def Cons containers_ok_def PdfLocator check_container_def is_html_def rbind_eq_Inr)
  qed
qed

section \<open>What is served\<close>

lemma record_digest_Inr: "record_digest env i = Inr d \<longleftrightarrow> i \<noteq> [] \<and> d = se_sha env i"
  by (auto simp: record_digest_def)

lemma read_source_eq:
  "read_source_record env disk sid = Inr (s, t) \<longleftrightarrow> sid \<noteq> [] \<and>
     (\<exists>payload. read_envelope env ''persisted source record is corrupt'' (dk_sources disk (se_sha env sid)) = Inr payload \<and>
       source_of_payload env payload = Some (s, t)) \<and> sd_source_id s = sid \<and> sd_parsed_content_hash s = se_sha env t"
  by (cases "sid = []"; cases "read_envelope env ''persisted source record is corrupt'' (dk_sources disk (se_sha env sid))")
    (auto simp: read_source_record_def record_digest_def split: option.splits)

lemma identity_eq:
  "validate_parsed_identity env disk sid d = Inr s \<longleftrightarrow>
     (\<exists>t. read_source_record env disk sid = Inr (s, t) \<and> pd_canonical_url d = sd_canonical_url s \<and> pd_title d = sd_title s \<and>
       pd_authors d = sd_authors s \<and> same_time (pd_published_at d) (sd_published_at s) \<and>
       pd_parser_version d = sd_parser_version s \<and> pd_parsed_content_hash d = sd_parsed_content_hash s \<and>
       pd_normalized_text d = t \<and> validate_parsed_structure d t = Inr ())"
  by (auto simp: validate_parsed_identity_def rbind_eq_Inr split: sum.splits store_error.splits)

lemma read_parsed_eq:
  "read_parsed_document env disk sid = Inr doc \<longleftrightarrow> sid \<noteq> [] \<and>
     (\<exists>payload. read_envelope env ''persisted parsed document is corrupt'' (dk_parsed disk (se_sha env sid)) = Inr payload \<and>
       Option.bind (dget payload ''parsed_document'') (se_read_parsed env) = Some doc \<and>
       dget payload ''source_id'' = Some (JStr sid)) \<and> (\<exists>s. validate_parsed_identity env disk sid doc = Inr s)"
  by (auto simp: read_parsed_document_def rbind_eq_Inr record_digest_Inr split: option.splits if_splits)

lemma locator_block_Inr: "locator_block l bs = Inr b \<Longrightarrow> b \<in> set bs \<and> same_container l (pb_locator b)"
  by (auto simp: locator_block_def find_Some_iff split: option.splits)

lemma validate_evidence_eq:
  "validate_evidence env disk e = Inr () \<longleftrightarrow> es_excerpt_hash e = se_sha env (es_excerpt e) \<and>
     (\<exists>d b. read_parsed_document env disk (es_source_id e) = Inr d \<and> locator_block (es_locator e) (pd_blocks d) = Inr b \<and>
       0 \<le> start_char (es_locator e) \<and> start_char (es_locator e) < end_char (es_locator e) \<and>
       end_char (es_locator e) \<le> int (length (pb_text b)) \<and>
       es_excerpt e = slice (pb_text b) (start_char (es_locator e)) (end_char (es_locator e)))"
proof (cases "read_parsed_document env disk (es_source_id e)")
  case (Inl x)
  then show ?thesis by (simp add: validate_evidence_def split: store_error.splits sum.splits)
next
  case (Inr d)
  then show ?thesis
    by (cases "locator_block (es_locator e) (pd_blocks d)") (auto simp: validate_evidence_def Let_def require_eq_Inr)
qed

lemma read_evidence_eq:
  "read_evidence_record env disk eid = Inr e \<longleftrightarrow> eid \<noteq> [] \<and>
     (\<exists>payload. read_envelope env ''persisted evidence record is corrupt'' (dk_evidence disk (se_sha env eid)) = Inr payload \<and>
       se_read_span env (JDict payload) = Some e) \<and> es_evidence_id e = eid \<and> validate_evidence env disk e = Inr ()"
  by (auto simp: read_evidence_record_def rbind_eq_Inr record_digest_Inr split: option.splits if_splits)

lemma slice_sublist: "sublist (slice t s e) t"
  unfolding slice_def by (rule sublist_order.order_trans [OF sublist_take sublist_drop])

section \<open>What is kept\<close>

definition disk_le :: "evidence_disk \<Rightarrow> evidence_disk \<Rightarrow> bool" where
  "disk_le d d' \<longleftrightarrow>
     (\<forall>k. (dk_sources d k \<noteq> Absent \<longrightarrow> dk_sources d' k = dk_sources d k) \<and>
        (dk_evidence d k \<noteq> Absent \<longrightarrow> dk_evidence d' k = dk_evidence d k) \<and>
        (dk_parsed d k \<noteq> Absent \<longrightarrow> dk_parsed d' k = dk_parsed d k))"

lemma disk_le_refl: "disk_le d d"
  by (simp add: disk_le_def)

lemma disk_le_trans: "disk_le d e \<Longrightarrow> disk_le e f \<Longrightarrow> disk_le d f"
  unfolding disk_le_def by metis

lemma read_envelope_le: "read_envelope env m x = Inr p \<Longrightarrow> (x \<noteq> Absent \<longrightarrow> y = x) \<Longrightarrow> read_envelope env m y = Inr p"
  by (cases x) auto

lemma envelope_le:
  assumes "disk_le d d'"
  shows "read_envelope env m (dk_sources d k) = Inr p \<Longrightarrow> read_envelope env m (dk_sources d' k) = Inr p"
    "read_envelope env m (dk_parsed d k) = Inr p \<Longrightarrow> read_envelope env m (dk_parsed d' k) = Inr p"
    "read_envelope env m (dk_evidence d k) = Inr p \<Longrightarrow> read_envelope env m (dk_evidence d' k) = Inr p"
  using assms unfolding disk_le_def by (blast intro: read_envelope_le)+

lemma read_source_le: "disk_le d d' \<Longrightarrow> read_source_record env d sid = Inr z \<Longrightarrow> read_source_record env d' sid = Inr z"
  by (cases z) (auto simp: read_source_eq dest: envelope_le(1))

lemma identity_le:
  "disk_le d d' \<Longrightarrow> validate_parsed_identity env d sid doc = Inr s \<Longrightarrow> validate_parsed_identity env d' sid doc = Inr s"
  unfolding identity_eq by (blast dest: read_source_le)

lemma read_parsed_le: "disk_le d d' \<Longrightarrow> read_parsed_document env d sid = Inr z \<Longrightarrow> read_parsed_document env d' sid = Inr z"
  unfolding read_parsed_eq by (blast dest: identity_le envelope_le(2))

lemma validate_evidence_le:
  "disk_le d d' \<Longrightarrow> validate_evidence env d e = Inr () \<Longrightarrow> validate_evidence env d' e = Inr ()"
  unfolding validate_evidence_eq by (blast dest: read_parsed_le)

lemma read_evidence_le:
  "disk_le d d' \<Longrightarrow> read_evidence_record env d eid = Inr z \<Longrightarrow> read_evidence_record env d' eid = Inr z"
  unfolding read_evidence_eq by (blast dest: validate_evidence_le envelope_le(3))

section \<open>Storing and reading back\<close>

lemma sort_key_idem: "sort_key f (sort_key f xs) = sort_key f xs"
  by (rule sort_key_id_if_sorted) simp

lemma canonical_idem: "canonical_json (canonical_json j) = canonical_json j"
proof (induction j rule: canonical_json.induct)
  case (1 kvs)
  let ?c = "\<lambda>(k, v). (k, canonical_json v)"
  have "map ?c (sort_key fst (map ?c kvs)) = sort_key fst (map ?c kvs)"
    using 1 by (intro map_idI) auto
  then show ?case by (simp add: sort_key_idem)
qed auto

lemma payload_sha_canonical: "payload_sha env (canonical_json j) = payload_sha env j"
  by (simp add: payload_sha_def canonical_idem)

lemma all_finite_canonical: "all_finite j \<Longrightarrow> all_finite (canonical_json j)"
  by (induction j rule: canonical_json.induct) auto

lemma written_read:
  assumes "all_finite (JDict kvs)"
  shows "\<exists>payload. read_envelope env m (written env (JDict kvs)) = Inr payload \<and> JDict payload = canonical_json (JDict kvs)"
proof -
  obtain payload where p: "canonical_json (JDict kvs) = JDict payload" by simp
  have "canonical_json (envelope env (JDict kvs)) =
      JDict [(''payload'', JDict payload), (''payload_sha256'', JStr (payload_sha env (JDict kvs)))]"
    using p by (simp add: envelope_def)
  moreover have "payload_sha env (JDict payload) = payload_sha env (JDict kvs)" "all_finite (JDict payload)"
    using payload_sha_canonical [of env "JDict kvs"] all_finite_canonical [OF assms] by (simp_all only: p)
  ultimately show ?thesis using p by (auto simp: written_def)
qed

lemma span_json_finite: "all_finite (span_json e)"
proof -
  have "all_finite (locator_json l)" for l by (cases l) simp_all
  then show ?thesis by (simp add: span_json_def jstrs_def)
qed

definition readable_source :: "store_env \<Rightarrow> source_document \<Rightarrow> bool" where
  "readable_source env s \<longleftrightarrow> se_read_source env (canonical_json (se_source_json env s)) = Some s \<and> all_finite (se_source_json env s)"

definition readable_parsed :: "store_env \<Rightarrow> parsed_document \<Rightarrow> bool" where
  "readable_parsed env d \<longleftrightarrow> se_read_parsed env (canonical_json (se_parsed_json env d)) = Some d \<and> all_finite (se_parsed_json env d)"

definition readable_span :: "store_env \<Rightarrow> evidence_span \<Rightarrow> bool" where
  "readable_span env e \<longleftrightarrow> se_read_span env (canonical_json (span_json e)) = Some e"

lemma locked_put_Inr:
  "locked_put old existing same clash fresh = Inr r \<longleftrightarrow>
     (case r of None \<Rightarrow> old = Absent \<and> fresh = Inr () | Some x \<Rightarrow> old \<noteq> Absent \<and> old \<noteq> UnsafePath \<and> existing = Inr x \<and> same x)"
  by (cases old; cases r) (auto simp: locked_put_def rbind_eq_Inr)

lemma put_source_cases:
  assumes "put_source env s text disk = Inr (s', disk')"
  obtains (old) "disk' = disk" "read_source_record env disk (sd_source_id s) = Inr (s', text)" "same_source s' s"
  | (new) "s' = s" "sd_source_id s \<noteq> []" "sd_parsed_content_hash s = se_sha env text"
      "dk_sources disk (se_sha env (sd_source_id s)) = Absent"
      "disk' = disk\<lparr>dk_sources := (dk_sources disk)(se_sha env (sd_source_id s) :=
         written env (JDict [(''normalized_text'', JStr text), (''source'', se_source_json env s)]))\<rparr>"
proof -
  let ?d = "se_sha env (sd_source_id s)"
  from assms obtain z where h: "sd_parsed_content_hash s = se_sha env text" "sd_source_id s \<noteq> []"
    and l: "locked_put (dk_sources disk ?d) (read_source_record env disk (sd_source_id s))
      (\<lambda>(s', text'). same_source s' s \<and> text' = text) ''source ID already contains a different record'' (Inr ()) = Inr z"
    and r: "(case z of Some (s', _) \<Rightarrow> Inr (s', disk) | None \<Rightarrow> Inr (s, disk\<lparr>dk_sources := (dk_sources disk)
      (?d := written env (JDict [(''normalized_text'', JStr text), (''source'', se_source_json env s)]))\<rparr>)) =
      (Inr (s', disk') :: store_error + source_document \<times> evidence_disk)"
    by (auto simp: put_source_def rbind_eq_Inr record_digest_Inr split: if_splits)
  show thesis
  proof (cases z)
    case None
    with l r h show thesis by (intro new) (auto simp: locked_put_Inr)
  next
    case (Some y)
    then obtain x t where y: "z = Some (x, t)" by (cases y) auto
    with l r show thesis by (intro old) (auto simp: locked_put_Inr)
  qed
qed

lemma put_parsed_cases:
  assumes "put_parsed_document env sid doc disk = Inr (doc', disk')"
  obtains (old) "disk' = disk" "read_parsed_document env disk sid = Inr doc'" "same_parsed doc' doc"
  | (new) s where "doc' = doc" "sid \<noteq> []" "validate_parsed_identity env disk sid doc = Inr s"
      "dk_parsed disk (se_sha env sid) = Absent"
      "disk' = disk\<lparr>dk_parsed := (dk_parsed disk)(se_sha env sid :=
         written env (JDict [(''parsed_document'', se_parsed_json env doc), (''source_id'', JStr sid)]))\<rparr>"
proof -
  let ?d = "se_sha env sid"
  from assms obtain z where h: "sid \<noteq> []"
    and l: "locked_put (dk_parsed disk ?d) (read_parsed_document env disk sid) (\<lambda>x. same_parsed x doc)
      ''source ID already contains a different parsed document'' (rbind (validate_parsed_identity env disk sid doc) (\<lambda>_. Inr ())) = Inr z"
    and r: "(case z of Some x \<Rightarrow> Inr (x, disk) | None \<Rightarrow> Inr (doc, disk\<lparr>dk_parsed := (dk_parsed disk)
      (?d := written env (JDict [(''parsed_document'', se_parsed_json env doc), (''source_id'', JStr sid)]))\<rparr>)) =
      (Inr (doc', disk') :: store_error + parsed_document \<times> evidence_disk)"
    by (auto simp: put_parsed_document_def rbind_eq_Inr record_digest_Inr)
  show thesis
  proof (cases z)
    case None
    with l r h show thesis by (auto simp: locked_put_Inr rbind_eq_Inr intro: new)
  next
    case (Some y)
    with l r show thesis by (intro old) (auto simp: locked_put_Inr)
  qed
qed

lemma put_evidence_cases:
  assumes "put_evidence env e disk = Inr (e', disk')"
  obtains (old) "e' = e" "disk' = disk" "read_evidence_record env disk (es_evidence_id e) = Inr e" "validate_evidence env disk e = Inr ()"
  | (new) "e' = e" "es_evidence_id e \<noteq> []" "validate_evidence env disk e = Inr ()"
      "dk_evidence disk (se_sha env (es_evidence_id e)) = Absent"
      "disk' = disk\<lparr>dk_evidence := (dk_evidence disk)(se_sha env (es_evidence_id e) := written env (span_json e))\<rparr>"
proof -
  let ?d = "se_sha env (es_evidence_id e)"
  from assms obtain z where h: "es_evidence_id e \<noteq> []" "validate_evidence env disk e = Inr ()"
    and l: "locked_put (dk_evidence disk ?d) (read_evidence_record env disk (es_evidence_id e)) (\<lambda>x. x = e)
      ''evidence ID already contains a different record'' (Inr ()) = Inr z"
    and r: "(case z of Some x \<Rightarrow> Inr (x, disk) | None \<Rightarrow> Inr (e, disk\<lparr>dk_evidence := (dk_evidence disk)(?d := written env (span_json e))\<rparr>)) =
      (Inr (e', disk') :: store_error + evidence_span \<times> evidence_disk)"
    by (auto simp: put_evidence_def rbind_eq_Inr record_digest_Inr)
  show thesis
  proof (cases z)
    case None
    with l r h show thesis by (intro new) (auto simp: locked_put_Inr)
  next
    case (Some y)
    with l r h show thesis by (intro old) (auto simp: locked_put_Inr)
  qed
qed

lemma put_le:
  "put_source env s text disk = Inr (s', disk') \<Longrightarrow> disk_le disk disk'"
  "put_parsed_document env sid doc disk = Inr (doc', disk') \<Longrightarrow> disk_le disk disk'"
  "put_evidence env e disk = Inr (e', disk') \<Longrightarrow> disk_le disk disk'"
  by (auto simp: disk_le_def elim!: put_source_cases put_parsed_cases put_evidence_cases)

lemma put_source_stored:
  assumes "put_source env s text disk = Inr (s', disk')" "readable_source env s"
  shows "read_source_record env disk' (sd_source_id s) = Inr (s', text) \<and> same_source s' s"
  using assms(1)
proof (cases rule: put_source_cases)
  case new
  have "all_finite (JDict [(''normalized_text'', JStr text), (''source'', se_source_json env s)])"
    using assms(2) by (simp add: readable_source_def)
  from written_read [OF this, of env "''persisted source record is corrupt''"] obtain payload where
    r: "read_envelope env ''persisted source record is corrupt'' (dk_sources disk' (se_sha env (sd_source_id s))) = Inr payload"
    and p: "payload = [(''normalized_text'', JStr text), (''source'', canonical_json (se_source_json env s))]"
    by (auto simp: new(5))
  have "source_of_payload env payload = Some (s, text)"
    using assms(2) by (simp add: source_of_payload_def p readable_source_def)
  then have "read_source_record env disk' (sd_source_id s) = Inr (s, text)" using r new(2,3) unfolding read_source_eq by blast
  then show ?thesis by (simp add: new(1) same_source_def same_time_def)
qed simp

lemma put_parsed_stored:
  assumes "put_parsed_document env sid doc disk = Inr (doc', disk')" "readable_parsed env doc"
  shows "read_parsed_document env disk' sid = Inr doc' \<and> same_parsed doc' doc"
  using assms(1)
proof (cases rule: put_parsed_cases)
  case (new s)
  have "all_finite (JDict [(''parsed_document'', se_parsed_json env doc), (''source_id'', JStr sid)])"
    using assms(2) by (simp add: readable_parsed_def)
  from written_read [OF this, of env "''persisted parsed document is corrupt''"] obtain payload where
    r: "read_envelope env ''persisted parsed document is corrupt'' (dk_parsed disk' (se_sha env sid)) = Inr payload"
    and p: "payload = [(''parsed_document'', canonical_json (se_parsed_json env doc)), (''source_id'', JStr sid)]"
    by (auto simp: new(5))
  have "validate_parsed_identity env disk' sid doc = Inr s" using put_le(2) [OF assms(1)] new(3) by (rule identity_le)
  moreover have "Option.bind (dget payload ''parsed_document'') (se_read_parsed env) = Some doc" "dget payload ''source_id'' = Some (JStr sid)"
    using assms(2) by (simp_all add: p readable_parsed_def)
  ultimately have "read_parsed_document env disk' sid = Inr doc" using r new(2) unfolding read_parsed_eq by blast
  then show ?thesis by (simp add: new(1) same_parsed_def same_time_def)
qed simp

lemma put_evidence_stored:
  assumes "put_evidence env e disk = Inr (e', disk')" "readable_span env e"
  shows "e' = e \<and> read_evidence_record env disk' (es_evidence_id e) = Inr e"
  using assms(1)
proof (cases rule: put_evidence_cases)
  case new
  obtain kvs where k: "span_json e = JDict kvs" by (simp add: span_json_def)
  have "all_finite (JDict kvs)" using span_json_finite [of e] by (simp only: k)
  from written_read [OF this, of env "''persisted evidence record is corrupt''"] obtain payload where
    r: "read_envelope env ''persisted evidence record is corrupt'' (dk_evidence disk' (se_sha env (es_evidence_id e))) = Inr payload"
    and p: "JDict payload = canonical_json (span_json e)"
    by (auto simp: new(5) k)
  have "validate_evidence env disk' e = Inr ()" using put_le(3) [OF assms(1)] new(3) by (rule validate_evidence_le)
  moreover have "se_read_span env (JDict payload) = Some e" using assms(2) by (simp add: p readable_span_def)
  ultimately show ?thesis using r new(1,2) unfolding read_evidence_eq by blast
qed simp

inductive store_step :: "store_env \<Rightarrow> evidence_disk \<Rightarrow> evidence_disk \<Rightarrow> bool"
  for env :: store_env where
  step_source: "put_source env s text disk = Inr (s', disk') \<Longrightarrow> store_step env disk disk'"
| step_parsed: "put_parsed_document env sid doc disk = Inr (doc', disk') \<Longrightarrow> store_step env disk disk'"
| step_evidence: "put_evidence env e disk = Inr (e', disk') \<Longrightarrow> store_step env disk disk'"

lemma steps_le: "(store_step env)\<^sup>*\<^sup>* disk disk' \<Longrightarrow> disk_le disk disk'"
  by (induction rule: rtranclp_induct) (auto intro: disk_le_refl elim!: store_step.cases dest: put_le intro: disk_le_trans)

section \<open>Properties\<close>

text \<open>
  C36. What the evidence store serves is exact.  Whatever its files hold - written by it, damaged or
  forged -, evidence that is served carries the id that was asked for and the digest of its excerpt,
  and its excerpt is the slice that its locator names of a block of the parsed document, and with
  it a part of the recorded text of its source; that text has the recorded digest, and the parsed
  document covers it: its blocks, of one format and with distinct keys, PDF blocks in order, follow
  each other in the text with nothing but white space between them.
\<close>

theorem served_evidence_exact:
  assumes "get_evidence env disk eid = Inr e"
  shows "es_evidence_id e = eid \<and> es_excerpt_hash e = se_sha env (es_excerpt e) \<and>
    (\<exists>s body doc b. read_source_record env disk (es_source_id e) = Inr (s, body) \<and> sd_source_id s = es_source_id e \<and>
      sd_parsed_content_hash s = se_sha env body \<and> sublist (es_excerpt e) body \<and>
      read_parsed_document env disk (es_source_id e) = Inr doc \<and> pd_normalized_text doc = body \<and> pd_title doc = sd_title s \<and> b \<in> set (pd_blocks doc) \<and>
      same_container (es_locator e) (pb_locator b) \<and>
      es_excerpt e = slice (pb_text b) (start_char (es_locator e)) (end_char (es_locator e)) \<and>
      int (length (es_excerpt e)) = end_char (es_locator e) - start_char (es_locator e) \<and>
      containers_ok (map pb_locator (pd_blocks doc)) \<and> laid_out (map pb_text (pd_blocks doc)) body)"
proof -
  from assms have r: "es_evidence_id e = eid" and v: "validate_evidence env disk e = Inr ()"
    unfolding get_evidence_def read_evidence_eq by blast+
  from v obtain doc b where hash: "es_excerpt_hash e = se_sha env (es_excerpt e)"
    and d: "read_parsed_document env disk (es_source_id e) = Inr doc" "locator_block (es_locator e) (pd_blocks doc) = Inr b"
    and pos: "0 \<le> start_char (es_locator e)" "start_char (es_locator e) < end_char (es_locator e)"
      "end_char (es_locator e) \<le> int (length (pb_text b))"
    and ex: "es_excerpt e = slice (pb_text b) (start_char (es_locator e)) (end_char (es_locator e))"
    unfolding validate_evidence_eq by blast
  from d(1) obtain s body where src: "read_source_record env disk (es_source_id e) = Inr (s, body)"
    and eq: "pd_normalized_text doc = body" "pd_title doc = sd_title s" and st: "validate_parsed_structure doc body = Inr ()"
    unfolding read_parsed_eq identity_eq by blast
  have src': "sd_source_id s = es_source_id e" "sd_parsed_content_hash s = se_sha env body"
    using src unfolding read_source_eq by blast+
  from st have c: "containers_ok (map pb_locator (pd_blocks doc))" and l: "laid_out (map pb_text (pd_blocks doc)) body"
    unfolding structure_exact by (blast intro: text_match_laid_out)+
  from locator_block_Inr [OF d(2)] have b: "b \<in> set (pd_blocks doc)" "same_container (es_locator e) (pb_locator b)" by simp_all
  have "sublist (pb_text b) body" using l b(1) by (intro laid_out_sublist) auto
  then have "sublist (es_excerpt e) body" unfolding ex by (rule sublist_order.order_trans [OF slice_sublist])
  moreover have "int (length (es_excerpt e)) = end_char (es_locator e) - start_char (es_locator e)"
    using pos by (simp add: ex slice_def)
  ultimately show ?thesis using r hash src src' eq b ex c l d(1) by blast
qed

text \<open>
  C37. Stored evidence stays.  Evidence that was stored is served unchanged after any number of
  further updates of the store, whatever they store and under whatever ids; storing it again gives
  it back, and other evidence under its id is refused.
\<close>

theorem stored_evidence_stays:
  assumes "put_evidence env e disk = Inr (e', disk1)" "(store_step env)\<^sup>*\<^sup>* disk1 disk2" "readable_span env e"
  shows "e' = e \<and> get_evidence env disk2 (es_evidence_id e) = Inr e \<and> has_evidence env disk2 (es_evidence_id e) = Inr True \<and>
    put_evidence env e disk2 = Inr (e, disk2) \<and>
    (\<forall>f. es_evidence_id f = es_evidence_id e \<and> f \<noteq> e \<longrightarrow> isl (put_evidence env f disk2))"
proof -
  from put_evidence_stored [OF assms(1,3)] have e: "e' = e" and r1: "read_evidence_record env disk1 (es_evidence_id e) = Inr e" by simp_all
  have r: "read_evidence_record env disk2 (es_evidence_id e) = Inr e" using steps_le [OF assms(2)] r1 by (rule read_evidence_le)
  then have i: "es_evidence_id e \<noteq> []" and v: "validate_evidence env disk2 e = Inr ()"
    and d: "\<exists>p. read_envelope env ''persisted evidence record is corrupt'' (dk_evidence disk2 (se_sha env (es_evidence_id e))) = Inr p"
    unfolding read_evidence_eq by blast+
  from d obtain j where f: "dk_evidence disk2 (se_sha env (es_evidence_id e)) = File j"
    by (cases "dk_evidence disk2 (se_sha env (es_evidence_id e))") auto
  have dig: "record_digest env (es_evidence_id e) = Inr (se_sha env (es_evidence_id e))" using i by (simp add: record_digest_def)
  have "get_evidence env disk2 (es_evidence_id e) = Inr e" using r by (simp add: get_evidence_def)
  moreover have "has_evidence env disk2 (es_evidence_id e) = Inr True" by (simp add: has_evidence_def dig f r)
  moreover have "put_evidence env e disk2 = Inr (e, disk2)" by (simp add: put_evidence_def v dig locked_put_def f r)
  moreover have "isl (put_evidence env x disk2)" if "es_evidence_id x = es_evidence_id e" "x \<noteq> e" for x
    using that by (cases "validate_evidence env disk2 x") (simp_all add: put_evidence_def dig locked_put_def f r)
  ultimately show ?thesis using e by blast
qed

section \<open>A worked store\<close>

definition demo_source :: source_document where
  "demo_source = \<lparr>sd_source_id = ''s'', sd_canonical_url = ''https://a.b/'', sd_title = ''T'', sd_authors = [], sd_published_at = None,
     sd_retrieved_at = \<lparr>ts_utc_offset = Some 0, ts_instant = 0\<rparr>, sd_content_hash = ''c'', sd_parsed_content_hash = ''Hello'',
     sd_source_type = Paper, sd_source_family_id = ''f'', sd_parser_version = ''1''\<rparr>"

definition demo_block :: parsed_block where
  "demo_block = \<lparr>pb_block_id = ''b'', pb_text = ''Hello'', pb_locator = HtmlLocator ''p1'' 0 5, pb_text_hash = ''Hello''\<rparr>"

definition demo_parsed :: parsed_document where
  "demo_parsed = \<lparr>pd_canonical_url = ''https://a.b/'', pd_title = ''T'', pd_authors = [], pd_published_at = None,
     pd_normalized_text = ''Hello'', pd_blocks = [demo_block], pd_parser_id = ''html'', pd_parser_version = ''1'',
     pd_parsed_content_hash = ''Hello''\<rparr>"

definition demo_span :: evidence_span where
  "demo_span = \<lparr>es_evidence_id = ''E-1'', es_source_id = ''s'', es_locator = HtmlLocator ''p1'' 1 4, es_excerpt = ''ell'',
     es_excerpt_hash = ''ell'', es_language = ''en'', es_information_need_ids = []\<rparr>"

definition demo_env :: store_env where
  "demo_env = \<lparr>se_sha = id, se_json_sha = (\<lambda>_. []), se_nfc = id, se_read_source = (\<lambda>_. Some demo_source),
     se_read_span = (\<lambda>_. Some demo_span), se_read_parsed = (\<lambda>_. Some demo_parsed), se_source_json = (\<lambda>_. JNull),
     se_parsed_json = (\<lambda>_. JNull)\<rparr>"

definition empty_disk :: evidence_disk where
  "empty_disk = \<lparr>dk_sources = (\<lambda>_. Absent), dk_evidence = (\<lambda>_. Absent), dk_parsed = (\<lambda>_. Absent)\<rparr>"

lemma demo_put_source: "\<exists>d. put_source demo_env demo_source ''Hello'' empty_disk = Inr (demo_source, d) \<and>
    dk_parsed d = (\<lambda>_. Absent) \<and> dk_evidence d = (\<lambda>_. Absent)"
proof -
  have "normalize_text id ''Hello'' = ''Hello''"
    by (simp add: normalize_text_def strip_def is_ws_def is_break_def)
  then show ?thesis
    by (simp add: put_source_def demo_env_def demo_source_def record_digest_def locked_put_def empty_disk_def)
qed

lemma demo_structure: "validate_parsed_structure demo_parsed ''Hello'' = Inr ()"
  by (simp add: validate_parsed_structure_def demo_parsed_def demo_block_def check_container_def is_html_def match_block_def strip_def)

lemma demo_store:
  "\<exists>d2 d3. read_parsed_document demo_env d2 ''s'' = Inr demo_parsed \<and> put_evidence demo_env demo_span d2 = Inr (demo_span, d3)"
proof -
  obtain d1 where s: "put_source demo_env demo_source ''Hello'' empty_disk = Inr (demo_source, d1)"
    "dk_parsed d1 = (\<lambda>_. Absent)" "dk_evidence d1 = (\<lambda>_. Absent)"
    using demo_put_source by blast
  have "read_source_record demo_env d1 ''s'' = Inr (demo_source, ''Hello'')"
    using put_source_stored [OF s(1)] by (simp add: readable_source_def demo_env_def demo_source_def)
  then have i: "validate_parsed_identity demo_env d1 ''s'' demo_parsed = Inr demo_source"
    using demo_structure unfolding identity_eq by (simp add: demo_parsed_def demo_source_def same_time_def)
  then obtain d2 where p: "put_parsed_document demo_env ''s'' demo_parsed d1 = Inr (demo_parsed, d2)" "dk_evidence d2 = (\<lambda>_. Absent)"
    by (simp add: put_parsed_document_def record_digest_def locked_put_def s(2,3))
  have r: "read_parsed_document demo_env d2 ''s'' = Inr demo_parsed"
    using put_parsed_stored [OF p(1)] by (simp add: readable_parsed_def demo_env_def)
  then have "validate_evidence demo_env d2 demo_span = Inr ()"
    by (simp add: validate_evidence_def demo_span_def demo_env_def locator_block_def demo_parsed_def demo_block_def slice_def require_def)
  then have "\<exists>d3. put_evidence demo_env demo_span d2 = Inr (demo_span, d3)"
    by (simp add: put_evidence_def record_digest_def locked_put_def p(2)) (simp add: demo_span_def)
  with r show ?thesis by blast
qed

lemma demo_readable: "readable_span demo_env demo_span"
  by (simp add: readable_span_def demo_env_def)

lemma stored_evidence_stays_witness:
  "\<exists>d2 d3. put_evidence demo_env demo_span d2 = Inr (demo_span, d3) \<and> get_evidence demo_env d3 ''E-1'' = Inr demo_span \<and>
     isl (put_evidence demo_env (demo_span\<lparr>es_language := ''de''\<rparr>) d3)"
proof -
  obtain d2 d3 where p: "put_evidence demo_env demo_span d2 = Inr (demo_span, d3)" using demo_store by blast
  have i: "es_evidence_id demo_span = ''E-1''" "es_evidence_id (demo_span\<lparr>es_language := ''de''\<rparr>) = ''E-1''"
    "demo_span\<lparr>es_language := ''de''\<rparr> \<noteq> demo_span"
    by (simp_all add: demo_span_def)
  from stored_evidence_stays [OF p rtranclp.rtrancl_refl demo_readable] p show ?thesis using i by metis
qed

lemma served_evidence_exact_witness:
  "\<exists>d3 body. get_evidence demo_env d3 ''E-1'' = Inr demo_span \<and> read_source_record demo_env d3 ''s'' = Inr (demo_source, body) \<and>
     sublist ''ell'' body"
proof -
  obtain d2 d3 where p: "put_evidence demo_env demo_span d2 = Inr (demo_span, d3)" using demo_store by blast
  have g: "get_evidence demo_env d3 ''E-1'' = Inr demo_span"
    using put_evidence_stored [OF p demo_readable] by (simp add: get_evidence_def demo_span_def)
  have f: "es_source_id demo_span = ''s''" "es_excerpt demo_span = ''ell''" by (simp_all add: demo_span_def)
  have "s = demo_source" if "source_of_payload demo_env payload = Some (s, t)" for payload s t
    using that by (cases "dget payload ''source''"; cases "dget payload ''normalized_text''")
      (auto simp: source_of_payload_def demo_env_def split: json.splits)
  then have u: "s = demo_source" if "read_source_record demo_env d3 ''s'' = Inr (s, t)" for s t
    using that unfolding read_source_eq by blast
  from served_evidence_exact [OF g] f show ?thesis using g u by metis
qed

end
