(* ===== verification/Artifact_Store.thy ===== *)
theory Artifact_Store
  imports Evidence_Store_Correct
begin

text \<open>
  The artifact store (\<^verbatim>\<open>src/src/deepresearch/storage/artifacts.py\<close>): bytes in files named by their own
  digest, as base64 in an envelope with its checksum.  A byte is a character.  Files, digests and
  locked updates are as in the evidence store; what Pydantic coerces into an \<^verbatim>\<open>ArtifactRef\<close>, before
  its validator runs, is an argument.
\<close>

section \<open>Base64\<close>

definition b64_char :: "nat \<Rightarrow> char" where
  "b64_char n =
     char_of (if n < 26 then n + 65 else if n < 52 then n + 71 else if n < 62 then n - 4 else if n = 62 then 43 else 47)"

definition b64_value :: "char \<Rightarrow> nat option" where
  "b64_value c =
     (let n = of_char c :: nat in
      if 65 \<le> n \<and> n \<le> 90 then Some (n - 65) else if 97 \<le> n \<and> n \<le> 122 then Some (n - 71)
      else if 48 \<le> n \<and> n \<le> 57 then Some (n + 4) else if n = 43 then Some 62 else if n = 47 then Some 63 else None)"

text \<open>\<^verbatim>\<open>base64.b64encode\<close>\<close>

fun b64encode :: "string \<Rightarrow> string" where
  "b64encode [] = []"
| "b64encode [a] = (let n = of_char a * 16 :: nat in [b64_char (n div 64), b64_char (n mod 64), CHR ''='', CHR ''=''])"
| "b64encode [a, b] =
     (let n = (of_char a * 256 + of_char b) * 4 :: nat in
      [b64_char (n div 64 div 64), b64_char (n div 64 mod 64), b64_char (n mod 64), CHR ''=''])"
| "b64encode (a # b # c # s) =
     (let n = (of_char a * 256 + of_char b) * 256 + of_char c :: nat in
      [b64_char (n div 64 div 64 div 64), b64_char (n div 64 div 64 mod 64), b64_char (n div 64 mod 64), b64_char (n mod 64)] @
      b64encode s)"

text \<open>\<^verbatim>\<open>base64.b64decode\<close> with \<^verbatim>\<open>validate=True\<close>; the bits that a padded group leaves over are dropped.\<close>

definition b64_number :: "string \<Rightarrow> nat option" where
  "b64_number s =
     foldl (\<lambda>acc c. case (acc, b64_value c) of (Some n, Some v) \<Rightarrow> Some (n * 64 + v) | _ \<Rightarrow> None) (Some 0) s"

fun b64decode :: "string \<Rightarrow> string option" where
  "b64decode [] = Some []"
| "b64decode (p # q # r # s # rest) =
     (if rest = [] \<and> r = CHR ''='' \<and> s = CHR ''='' then map_option (\<lambda>n. [char_of (n div 16)]) (b64_number [p, q])
      else if rest = [] \<and> s = CHR ''='' then
        map_option (\<lambda>n. [char_of (n div 4 div 256), char_of (n div 4)]) (b64_number [p, q, r])
      else
        (case (b64_number [p, q, r, s], b64decode rest) of
           (Some n, Some bytes) \<Rightarrow> Some (char_of (n div 256 div 256) # char_of (n div 256) # char_of n # bytes)
         | _ \<Rightarrow> None))"
| "b64decode _ = None"

section \<open>References\<close>

record artifact_ref =
  ar_artifact_id :: string
  ar_sha256 :: string
  ar_media_type :: string
  ar_size_bytes :: int

definition is_sha256 :: "string \<Rightarrow> bool" where
  "is_sha256 s \<longleftrightarrow> length s = 64 \<and> list_all (\<lambda>c. c \<in> set lower_hex) s"

definition mk_artifact_ref :: "artifact_ref \<Rightarrow> exc + artifact_ref" where
  "mk_artifact_ref r =
     (if ar_size_bytes r < 0 then Inl (ValueError ''size_bytes must be at least 0'')
      else if \<not> is_sha256 (ar_sha256 r) then Inl (ValueError ''sha256 must be a lowercase 64-character SHA-256'')
      else if ar_artifact_id r \<noteq> ''sha256:'' @ ar_sha256 r then Inl (ValueError ''artifact_id must equal sha256:<sha256>'')
      else if ar_media_type r = [] \<or> ar_media_type r \<noteq> strip (ar_media_type r)
      then Inl (ValueError ''media_type must be non-empty and trimmed'')
      else Inr r)"

definition ref_json :: "artifact_ref \<Rightarrow> json" where
  "ref_json r = JDict [(''artifact_id'', JStr (ar_artifact_id r)), (''sha256'', JStr (ar_sha256 r)),
     (''media_type'', JStr (ar_media_type r)), (''size_bytes'', JInt (ar_size_bytes r))]"

section \<open>The store\<close>

datatype artifact_error = RefInvalid exc | ArtifactFailed store_error

record artifact_env =
  ae_store :: store_env
  ae_coerce_ref :: "json \<Rightarrow> artifact_ref option"

type_synonym artifact_disk = "string \<Rightarrow> entry"

definition digest_from_artifact_id :: "string \<Rightarrow> artifact_error + string" where
  "digest_from_artifact_id i =
     (if take 7 i = ''sha256:'' \<and> is_sha256 (drop 7 i) then Inr (drop 7 i)
      else Inl (ArtifactFailed (Integrity ''artifact_id must be a content-addressed SHA-256 ID'')))"

abbreviation record_corrupt :: artifact_error where
  "record_corrupt \<equiv> ArtifactFailed (Integrity ''artifact record is corrupt'')"

definition read_ref :: "artifact_env \<Rightarrow> json \<Rightarrow> artifact_ref option" where
  "read_ref env j =
     (case ae_coerce_ref env j of
        None \<Rightarrow> None
      | Some r \<Rightarrow> (case mk_artifact_ref r of Inl _ \<Rightarrow> None | Inr r' \<Rightarrow> Some r'))"

text \<open>The reference and the bytes of a record; an absent reference is refused as null is.\<close>

definition payload_contents :: "artifact_env \<Rightarrow> (string \<times> json) list \<Rightarrow> artifact_error + artifact_ref \<times> string" where
  "payload_contents env payload =
     (case (Option.bind (dget payload ''ref'') (read_ref env), dget payload ''data_base64'') of
        (Some r, Some (JStr encoded)) \<Rightarrow>
          (case b64decode encoded of None \<Rightarrow> Inl record_corrupt | Some data \<Rightarrow> Inr (r, data))
      | _ \<Rightarrow> Inl record_corrupt)"

fun open_envelope :: "artifact_env \<Rightarrow> json \<Rightarrow> artifact_error + artifact_ref \<times> string" where
  "open_envelope env (JDict kvs) =
     (if set (dkeys kvs) \<noteq> {''payload'', ''payload_sha256''} then Inl record_corrupt
      else (case dget kvs ''payload'' of
              Some (JDict payload) \<Rightarrow>
                if \<not> all_finite (JDict payload) then Inl record_corrupt
                else if dget kvs ''payload_sha256'' \<noteq> Some (JStr (payload_sha (ae_store env) (JDict payload)))
                then Inl (ArtifactFailed (Integrity ''artifact record payload hash is corrupt''))
                else payload_contents env payload
            | _ \<Rightarrow> Inl record_corrupt))"
| "open_envelope env _ = Inl record_corrupt"

definition read_artifact :: "artifact_env \<Rightarrow> artifact_disk \<Rightarrow> string \<Rightarrow> artifact_error + artifact_ref \<times> string" where
  "read_artifact env disk artifact_id =
     rbind (digest_from_artifact_id artifact_id) (\<lambda>digest.
     rbind (case disk digest of
              Absent \<Rightarrow> Inl (ArtifactFailed MissingFile)
            | File (Some j) \<Rightarrow> open_envelope env j
            | _ \<Rightarrow> Inl record_corrupt) (\<lambda>(r, data).
       if ar_artifact_id r \<noteq> artifact_id \<or> ar_sha256 r \<noteq> digest
       then Inl (ArtifactFailed (Integrity ''artifact identity metadata does not match its key''))
       else if se_sha (ae_store env) data \<noteq> ar_sha256 r
       then Inl (ArtifactFailed (Integrity ''artifact payload hash does not match metadata''))
       else if int (length data) \<noteq> ar_size_bytes r
       then Inl (ArtifactFailed (Integrity ''artifact payload size does not match metadata''))
       else Inr (r, data)))"

definition get_bytes :: "artifact_env \<Rightarrow> artifact_disk \<Rightarrow> string \<Rightarrow> artifact_error + string" where
  "get_bytes env disk artifact_id = rbind (read_artifact env disk artifact_id) (\<lambda>(_, data). Inr data)"

definition artifact_payload :: "artifact_ref \<Rightarrow> string \<Rightarrow> json" where
  "artifact_payload r data = JDict [(''data_base64'', JStr (b64encode data)), (''ref'', ref_json r)]"

definition put_bytes :: "artifact_env \<Rightarrow> string \<Rightarrow> string \<Rightarrow> artifact_disk \<Rightarrow> artifact_error + artifact_ref \<times> artifact_disk" where
  "put_bytes env data media_type disk =
     (let digest = se_sha (ae_store env) data in
      case mk_artifact_ref \<lparr>ar_artifact_id = ''sha256:'' @ digest, ar_sha256 = digest, ar_media_type = media_type,
          ar_size_bytes = int (length data)\<rparr> of
        Inl e \<Rightarrow> Inl (RefInvalid e)
      | Inr r \<Rightarrow>
          (case disk digest of
             UnsafePath \<Rightarrow> Inl (ArtifactFailed (Integrity ''storage final or lock path is a symlink or reparse point''))
           | Absent \<Rightarrow> Inr (r, disk(digest := written (ae_store env) (artifact_payload r data)))
           | _ \<Rightarrow>
               rbind (read_artifact env disk (ar_artifact_id r)) (\<lambda>(r', data').
                 if data' \<noteq> data \<or> ar_media_type r' \<noteq> media_type
                 then Inl (ArtifactFailed (Conflict ''artifact ID already has different content or metadata''))
                 else Inr (r', disk))))"

definition artifact_exists :: "artifact_disk \<Rightarrow> string \<Rightarrow> artifact_error + bool" where
  "artifact_exists disk artifact_id =
     (case digest_from_artifact_id artifact_id of
        Inl _ \<Rightarrow> Inr False
      | Inr digest \<Rightarrow>
          (case disk digest of
             UnsafePath \<Rightarrow> Inl (ArtifactFailed (Integrity ''storage final or lock path is a symlink or reparse point''))
           | File _ \<Rightarrow> Inr True
           | _ \<Rightarrow> Inr False))"

section \<open>Base64 is read back\<close>

lemma b64_char_value: "n < 64 \<Longrightarrow> b64_value (b64_char n) = Some n"
  by (auto simp: b64_char_def b64_value_def Let_def)

lemma b64_char_pad: "n < 64 \<Longrightarrow> b64_char n \<noteq> CHR ''=''"
  using b64_char_value [of n] by (auto simp: b64_value_def)

lemma b64_groups:
  "n < 64 * 64 \<Longrightarrow> b64_number [b64_char (n div 64), b64_char (n mod 64)] = Some n"
  "n < 64 * 64 * 64 \<Longrightarrow> b64_number [b64_char (n div 64 div 64), b64_char (n div 64 mod 64), b64_char (n mod 64)] = Some n"
  "n < 64 * 64 * 64 * 64 \<Longrightarrow> b64_number [b64_char (n div 64 div 64 div 64), b64_char (n div 64 div 64 mod 64),
     b64_char (n div 64 mod 64), b64_char (n mod 64)] = Some n"
  by (simp_all add: b64_number_def b64_char_value less_mult_imp_div_less)

lemma byte_bound: "of_char c < (256 :: nat)"
  using of_char_mod_256 [of c] by (metis mod_less_divisor zero_less_numeral)

lemma group_bounds:
  "a < 256 \<Longrightarrow> b < 256 \<Longrightarrow> (a * 256 + b) * 4 < (64 * 64 * 64 :: nat)"
  "a < 256 \<Longrightarrow> b < 256 \<Longrightarrow> c < 256 \<Longrightarrow> (a * 256 + b) * 256 + c < (64 * 64 * 64 * 64 :: nat)"
  by simp_all

lemma group_tail: "c < 256 \<Longrightarrow> (x * 256 + c) div 256 = (x :: nat)"
  by simp

lemma byte_tail: "char_of (256 * n + of_char b :: nat) = b"
proof -
  have "(256 * n + of_char b) mod 256 = (of_char b :: nat)" using byte_bound [of b] by simp
  then show ?thesis by (metis char_of_char char_of_mod_256)
qed

lemma b64_decode_encode: "b64decode (b64encode s) = Some s"
proof (induction s rule: b64encode.induct)
  case (2 a)
  have "(of_char a * 16 :: nat) < 64 * 64" using byte_bound [of a] by simp
  from b64_groups(1) [OF this] show ?case by (simp add: Let_def)
next
  case (3 a b)
  have "((of_char a * 256 + of_char b) * 4 :: nat) < 64 * 64 * 64" by (intro group_bounds byte_bound)
  from b64_groups(2) [OF this] show ?case using byte_bound [of b] by (simp add: Let_def b64_char_pad byte_tail)
next
  case (4 a b c s)
  define n where "n = (of_char a * 256 + of_char b) * 256 + (of_char c :: nat)"
  have "n < 64 * 64 * 64 * 64" unfolding n_def by (intro group_bounds byte_bound)
  note g = b64_groups(3) [OF this]
  have "n div 256 = of_char a * 256 + of_char b" unfolding n_def by (rule group_tail) (rule byte_bound)
  moreover have "char_of n = c" unfolding n_def using byte_tail [of "of_char a * 256 + of_char b" c] by (simp only: mult.commute)
  ultimately have n: "n div 256 = 256 * of_char a + of_char b" "char_of n = c" by simp_all
  have "b64encode (a # b # c # s) = [b64_char (n div 64 div 64 div 64), b64_char (n div 64 div 64 mod 64),
      b64_char (n div 64 mod 64), b64_char (n mod 64)] @ b64encode s"
    by (simp only: b64encode.simps Let_def n_def)
  with 4 g n show ?case using byte_bound [of b] by (simp add: b64_char_pad byte_tail)
qed simp

section \<open>What is stored is served\<close>

definition readable_ref :: "artifact_env \<Rightarrow> artifact_ref \<Rightarrow> bool" where
  "readable_ref env r \<longleftrightarrow> ae_coerce_ref env (canonical_json (ref_json r)) = Some r"

lemma mk_artifact_ref_Inr: "mk_artifact_ref r = Inr r' \<Longrightarrow> r' = r \<and> is_sha256 (ar_sha256 r) \<and> ar_artifact_id r = ''sha256:'' @ ar_sha256 r"
  by (simp add: mk_artifact_ref_def split: if_splits)

lemma open_written:
  assumes "readable_ref env r" "mk_artifact_ref r = Inr r"
  shows "\<exists>j. written (ae_store env) (artifact_payload r data) = File (Some j) \<and> open_envelope env j = Inr (r, data)"
proof -
  let ?p = "[(''data_base64'', JStr (b64encode data)), (''ref'', canonical_json (ref_json r))]"
  have c: "canonical_json (artifact_payload r data) = JDict ?p" by (simp add: artifact_payload_def)
  have f: "all_finite (JDict ?p)" by (simp add: ref_json_def all_finite_canonical)
  have "payload_sha (ae_store env) (artifact_payload r data) = payload_sha (ae_store env) (JDict ?p)"
    using payload_sha_canonical [of "ae_store env" "artifact_payload r data"] by (simp only: c)
  then have "written (ae_store env) (artifact_payload r data) =
      File (Some (JDict [(''payload'', JDict ?p), (''payload_sha256'', JStr (payload_sha (ae_store env) (JDict ?p)))]))"
    using c by (simp add: written_def envelope_def del: canonical_json.simps(1)) simp
  moreover have "payload_contents env ?p = Inr (r, data)"
    using assms by (simp add: payload_contents_def read_ref_def readable_ref_def b64_decode_encode)
  ultimately show ?thesis using f by simp
qed

lemma read_artifact_exact:
  assumes "read_artifact env disk i = Inr (r, data)"
  shows "i = ''sha256:'' @ se_sha (ae_store env) data \<and> ar_artifact_id r = i \<and> ar_size_bytes r = int (length data)"
proof -
  from assms obtain d where "digest_from_artifact_id i = Inr d" "ar_artifact_id r = i" "ar_sha256 r = d"
    "se_sha (ae_store env) data = d" "ar_size_bytes r = int (length data)"
    by (auto simp: read_artifact_def rbind_eq_Inr split: if_splits)
  moreover from this(1) have "i = ''sha256:'' @ d"
    by (metis append_take_drop_id digest_from_artifact_id_def sum.inject(2) sum.distinct(1))
  ultimately show ?thesis by metis
qed

lemma put_bytes_cases:
  assumes "put_bytes env data media_type disk = Inr (r, disk')"
  obtains (old) "disk' = disk" "read_artifact env disk (ar_artifact_id r) = Inr (r, data)" "ar_media_type r = media_type"
  | (new) "r = \<lparr>ar_artifact_id = ''sha256:'' @ se_sha (ae_store env) data, ar_sha256 = se_sha (ae_store env) data,
        ar_media_type = media_type, ar_size_bytes = int (length data)\<rparr>" "mk_artifact_ref r = Inr r"
      "disk (se_sha (ae_store env) data) = Absent"
      "disk' = disk(se_sha (ae_store env) data := written (ae_store env) (artifact_payload r data))"
proof -
  let ?r = "\<lparr>ar_artifact_id = ''sha256:'' @ se_sha (ae_store env) data, ar_sha256 = se_sha (ae_store env) data,
    ar_media_type = media_type, ar_size_bytes = int (length data)\<rparr>"
  from assms have m: "mk_artifact_ref ?r = Inr ?r"
    using mk_artifact_ref_Inr [of ?r] by (cases "mk_artifact_ref ?r") (auto simp: put_bytes_def Let_def)
  show thesis
  proof (cases "disk (se_sha (ae_store env) data) = Absent")
    case True
    with assms m show thesis by (intro new) (auto simp: put_bytes_def Let_def)
  next
    case False
    with assms m have "rbind (read_artifact env disk (ar_artifact_id ?r)) (\<lambda>(r', data').
        if data' \<noteq> data \<or> ar_media_type r' \<noteq> media_type
        then Inl (ArtifactFailed (Conflict ''artifact ID already has different content or metadata''))
        else Inr (r', disk)) = Inr (r, disk')"
      by (cases "disk (se_sha (ae_store env) data)") (simp_all add: put_bytes_def Let_def)
    then have "read_artifact env disk (ar_artifact_id ?r) = Inr (r, data)" "ar_media_type r = media_type" "disk' = disk"
      by (auto simp: rbind_eq_Inr split: if_splits)
    with read_artifact_exact show thesis by (metis old)
  qed
qed

lemma put_bytes_stored:
  assumes "put_bytes env data media_type disk = Inr (r, disk')" "readable_ref env r"
  shows "read_artifact env disk' (ar_artifact_id r) = Inr (r, data) \<and> ar_media_type r = media_type"
  using assms(1)
proof (cases rule: put_bytes_cases)
  case new
  from open_written [OF assms(2) new(2), of data] obtain j where j: "disk' (ar_sha256 r) = File (Some j)" "open_envelope env j = Inr (r, data)"
    by (auto simp: new(1,4))
  have "digest_from_artifact_id (ar_artifact_id r) = Inr (ar_sha256 r)"
    using mk_artifact_ref_Inr [OF new(2)] by (simp add: digest_from_artifact_id_def)
  with j show ?thesis by (simp add: read_artifact_def) (simp add: new(1))
qed simp

inductive artifact_step :: "artifact_env \<Rightarrow> artifact_disk \<Rightarrow> artifact_disk \<Rightarrow> bool" for env :: artifact_env where
  artifact_put: "put_bytes env data media_type disk = Inr (r, disk') \<Longrightarrow> artifact_step env disk disk'"

lemma artifact_steps_keep:
  "(artifact_step env)\<^sup>*\<^sup>* disk disk' \<Longrightarrow> disk k \<noteq> Absent \<Longrightarrow> disk' k = disk k"
proof (induction rule: rtranclp_induct)
  case (step y z)
  then show ?case by (auto elim!: artifact_step.cases put_bytes_cases)
qed simp

lemma read_artifact_kept:
  assumes "(artifact_step env)\<^sup>*\<^sup>* disk disk'" "read_artifact env disk i = Inr x"
  shows "read_artifact env disk' i = Inr x"
proof -
  from assms(2) obtain d where d: "digest_from_artifact_id i = Inr d"
    by (cases "digest_from_artifact_id i") (auto simp: read_artifact_def)
  with assms(2) have "disk d \<noteq> Absent" by (cases "disk d") (auto simp: read_artifact_def)
  with d artifact_steps_keep [OF assms(1)] assms(2) show ?thesis by (simp add: read_artifact_def)
qed

text \<open>Stored bytes are served ever after, and only bytes with the digest in the id are served.\<close>

lemma artifact_kept:
  assumes "put_bytes env data media_type disk = Inr (r, disk1)" "(artifact_step env)\<^sup>*\<^sup>* disk1 disk2" "readable_ref env r"
  shows "get_bytes env disk2 (ar_artifact_id r) = Inr data"
  using read_artifact_kept [OF assms(2)] put_bytes_stored [OF assms(1,3)] by (simp add: get_bytes_def)

lemma artifact_exact: "get_bytes env disk i = Inr data \<Longrightarrow> i = ''sha256:'' @ se_sha (ae_store env) data"
  by (auto simp: get_bytes_def rbind_eq_Inr dest: read_artifact_exact)

end
