(* ===== verification/Report.thy ===== *)
theory Report
  imports Evidence_Store Evidence_Features
begin

text \<open>
  The report writer (\<^verbatim>\<open>src/src/deepresearch/reporting/markdown.py\<close>, \<^verbatim>\<open>boundary.py\<close>): what a reader of the
  rendered Markdown sees, its citations, and the report with its references.  The Markdown and HTML
  parsers are arguments: tokens of a text, and the events that a piece of HTML adds to the pieces
  before it; None is an exception.  So are the canonical form of a URL, the text of a date, and the
  content boundary.  Texts are code points below 256, so that the em dash is an
  argument too, and bidirectional controls do not occur.
\<close>

section \<open>Tokens and visibility\<close>

record inline_token =
  it_type :: string
  it_content :: string

record block_token =
  bt_type :: string
  bt_content :: string
  bt_children :: "inline_token list"

datatype html_event = StartTag string | StartEndTag string | EndTag string | HtmlData string | HtmlComment string

record markdown_lib =
  ml_parse :: "string \<Rightarrow> block_token list option"
  ml_feed :: "string list \<Rightarrow> html_event list option"
  ml_close :: "string list \<Rightarrow> html_event list option"
  ml_fold :: "string \<Rightarrow> string"

datatype report_error =
  MalformedCitation | UnknownCitation string | ClaimUncited | ReportValue string | StoreFailed store_error | UrlRefused string

definition hidden_html_tags :: "string set" where
  "hidden_html_tags = {''code'', ''pre'', ''script'', ''style''}"

text \<open>\<^verbatim>\<open>_HtmlVisibilityParser\<close>; the innermost hidden tag comes first.\<close>

record visibility =
  vi_hidden :: "string list"
  vi_parts :: "string list"
  vi_ambiguous :: bool

definition new_visibility :: visibility where
  "new_visibility = \<lparr>vi_hidden = [], vi_parts = [], vi_ambiguous = False\<rparr>"

definition hides_text :: "visibility \<Rightarrow> bool" where
  "hides_text v \<longleftrightarrow> vi_hidden v \<noteq> []"

fun handle_event :: "(string \<Rightarrow> string) \<Rightarrow> bool \<Rightarrow> html_event \<Rightarrow> visibility \<Rightarrow> visibility" where
  "handle_event cfold collect (StartTag t) v =
     (if cfold t \<in> hidden_html_tags then v\<lparr>vi_hidden := cfold t # vi_hidden v\<rparr> else v)"
| "handle_event cfold collect (EndTag t) v =
     (if cfold t \<notin> hidden_html_tags then v
      else (case vi_hidden v of
              [] \<Rightarrow> v\<lparr>vi_ambiguous := True\<rparr>
            | h # hs \<Rightarrow> if h \<noteq> cfold t then v\<lparr>vi_ambiguous := True\<rparr> else v\<lparr>vi_hidden := hs\<rparr>))"
| "handle_event cfold collect (HtmlData d) v =
     (if collect \<and> \<not> hides_text v then v\<lparr>vi_parts := vi_parts v @ [d]\<rparr> else v)"
| "handle_event cfold collect _ v = v"

definition feed_events :: "markdown_lib \<Rightarrow> bool \<Rightarrow> html_event list option \<Rightarrow> visibility \<Rightarrow> report_error + visibility" where
  "feed_events lib collect evs v =
     (case evs of None \<Rightarrow> Inl MalformedCitation | Some es \<Rightarrow> Inr (foldl (\<lambda>v e. handle_event (ml_fold lib) collect e v) v es))"

text \<open>\<^verbatim>\<open>_AMBIGUOUS_HTML_CITATION\<close>: \<^verbatim>\<open><\s*/?\s*[A-Za-z][^>\r\n]*\[E\<close>, case ignored.\<close>

definition letter :: "char \<Rightarrow> bool" where
  "letter c \<longleftrightarrow> CHR ''A'' \<le> c \<and> c \<le> CHR ''Z'' \<or> CHR ''a'' \<le> c \<and> c \<le> CHR ''z''"

definition opens_citation :: "string \<Rightarrow> bool" where
  "opens_citation s \<longleftrightarrow> list_ex (\<lambda>t. take 2 t = ''[E'' \<or> take 2 t = ''[e'') (tails s)"

definition ambiguous_tag :: "string \<Rightarrow> bool" where
  "ambiguous_tag s \<longleftrightarrow>
     take 1 s = ''<'' \<and>
     (let a = dropWhile is_ws (drop 1 s); b = dropWhile is_ws (if take 1 a = ''/'' then drop 1 a else a) in
      case b of [] \<Rightarrow> False
      | c # r \<Rightarrow> letter c \<and> opens_citation (takeWhile (\<lambda>x. x \<notin> {CHR ''>'', CHR 0x0D, CHR 0x0A}) r))"

definition ambiguous_html_citation :: "string \<Rightarrow> bool" where
  "ambiguous_html_citation s \<longleftrightarrow> list_ex ambiguous_tag (tails s)"

record inline_state =
  is_visible :: string
  is_eligible :: string
  is_links :: nat
  is_pieces :: "string list"
  is_html_state :: visibility
  is_raw :: bool

text \<open>The loop of \<^verbatim>\<open>_inline_views\<close>.\<close>

definition inline_step :: "markdown_lib \<Rightarrow> inline_state \<Rightarrow> inline_token \<Rightarrow> report_error + inline_state" where
  "inline_step lib st child =
     (let ty = it_type child; v = is_html_state st in
      if ty = ''html_inline'' then
        rbind (feed_events lib False (ml_feed lib (is_pieces st @ [it_content child])) v) (\<lambda>v'.
          Inr (st\<lparr>is_raw := True, is_pieces := is_pieces st @ [it_content child], is_html_state := v', is_eligible := is_eligible st @ '' ''\<rparr>))
      else if ty = ''link_open'' then Inr (st\<lparr>is_links := Suc (is_links st), is_eligible := is_eligible st @ '' ''\<rparr>)
      else if ty = ''link_close'' then
        Inr (if is_links st = 0 then st\<lparr>is_html_state := v\<lparr>vi_ambiguous := True\<rparr>, is_eligible := is_eligible st @ '' ''\<rparr>
             else st\<lparr>is_links := is_links st - 1, is_eligible := is_eligible st @ '' ''\<rparr>)
      else if ty = ''image'' then Inr (st\<lparr>is_eligible := is_eligible st @ '' ''\<rparr>)
      else if ty = ''softbreak'' \<or> ty = ''hardbreak'' then
        Inr (if hides_text v then st
             else st\<lparr>is_visible := is_visible st @ [CHR 0x0A], is_eligible := is_eligible st @ (if is_links st = 0 then [CHR 0x0A] else '' '')\<rparr>)
      else if ty = ''text'' then
        (let v' = (if ambiguous_html_citation (it_content child) then v\<lparr>vi_ambiguous := True\<rparr> else v);
             st' = st\<lparr>is_html_state := v'\<rparr> in
         Inr (if hides_text v' then st'
              else st'\<lparr>is_visible := is_visible st @ it_content child,
                is_eligible := is_eligible st @ (if is_links st = 0 then it_content child else '' '')\<rparr>))
      else if ty = ''code_inline'' then Inr (st\<lparr>is_eligible := is_eligible st @ '' ''\<rparr>)
      else
        Inr (st\<lparr>is_html_state := (if list_ex citation_start (tails (it_content child)) then v\<lparr>vi_ambiguous := True\<rparr> else v),
               is_eligible := is_eligible st @ '' ''\<rparr>))"

definition inline_views :: "markdown_lib \<Rightarrow> inline_token list \<Rightarrow> report_error + string \<times> string" where
  "inline_views lib children =
     rbind (foldM (inline_step lib) \<lparr>is_visible = [], is_eligible = [], is_links = 0, is_pieces = [],
         is_html_state = new_visibility, is_raw = False\<rparr> children) (\<lambda>st.
       if is_links st \<noteq> 0 \<or> hides_text (is_html_state st) \<or> vi_ambiguous (is_html_state st) then Inl MalformedCitation
       else Inr (is_visible st, if is_raw st then [] else is_eligible st))"

definition html_block_visible :: "markdown_lib \<Rightarrow> string \<Rightarrow> report_error + string" where
  "html_block_visible lib content =
     rbind (feed_events lib True (ml_feed lib [content]) new_visibility) (\<lambda>v1.
     rbind (feed_events lib True (ml_close lib [content]) v1) (\<lambda>v.
       if hides_text v \<or> vi_ambiguous v then Inl MalformedCitation else Inr (concat (vi_parts v))))"

section \<open>What a reader sees\<close>

record rendered_markdown =
  rm_visible_units :: "string list"
  rm_claim_units :: "(string \<times> string) list"

definition block_step :: "markdown_lib \<Rightarrow> nat \<times> rendered_markdown \<Rightarrow> block_token \<Rightarrow> report_error + nat \<times> rendered_markdown" where
  "block_step lib = (\<lambda>(depth, rm) token.
     if bt_type token = ''paragraph_open'' then Inr (Suc depth, rm)
     else if bt_type token = ''paragraph_close'' then Inr (depth - 1, rm)
     else if bt_type token = ''inline'' then
       rbind (inline_views lib (bt_children token)) (\<lambda>(visible, eligible).
         Inr (depth, if visible = [] then rm
           else \<lparr>rm_visible_units = rm_visible_units rm @ [visible],
             rm_claim_units = rm_claim_units rm @ (if depth = 0 then [] else [(visible, eligible)])\<rparr>))
     else if bt_type token = ''html_block'' then
       rbind (html_block_visible lib (bt_content token)) (\<lambda>visible.
         Inr (depth, if visible = [] then rm
           else \<lparr>rm_visible_units = rm_visible_units rm @ [visible], rm_claim_units = rm_claim_units rm @ [(visible, [])]\<rparr>))
     else Inr (depth, rm))"

definition render_markdown :: "markdown_lib \<Rightarrow> string \<Rightarrow> report_error + rendered_markdown" where
  "render_markdown lib report =
     (case ml_parse lib report of
        None \<Rightarrow> Inl MalformedCitation
      | Some tokens \<Rightarrow>
          rbind (foldM (block_step lib) (0, \<lparr>rm_visible_units = [], rm_claim_units = []\<rparr>) tokens) (\<lambda>(_, rm). Inr rm))"

definition citation_ids_from_rendered :: "rendered_markdown \<Rightarrow> report_error + string list" where
  "citation_ids_from_rendered rm =
     rbind (foldM (\<lambda>ids visible. if malformed visible then Inl MalformedCitation else Inr (ids @ found_citations visible)) []
       (rm_visible_units rm)) (\<lambda>ids. Inr (fromkeys ids))"

fun join_with :: "string \<Rightarrow> string list \<Rightarrow> string" where
  "join_with sep [] = []"
| "join_with sep [x] = x"
| "join_with sep (x # y # zs) = x @ sep @ join_with sep (y # zs)"

definition stored :: "store_error + 'a \<Rightarrow> report_error + 'a" where
  "stored m = (case m of Inl e \<Rightarrow> Inl (StoreFailed e) | Inr x \<Rightarrow> Inr x)"

definition validate_visible_citations :: "store_env \<Rightarrow> evidence_disk \<Rightarrow> string set option \<Rightarrow> rendered_markdown \<Rightarrow> report_error + string list" where
  "validate_visible_citations env disk selected rm =
     rbind (citation_ids_from_rendered rm) (\<lambda>ids.
     rbind (foldM (\<lambda>missing i. rbind (stored (has_evidence env disk i)) (\<lambda>known.
         Inr (if \<not> known \<or> (case selected of None \<Rightarrow> False | Some s \<Rightarrow> i \<notin> s) then missing @ [i] else missing))) [] ids) (\<lambda>missing.
       if missing \<noteq> [] then Inl (UnknownCitation (join_with '', '' missing)) else Inr ids))"

definition validate_citations :: "markdown_lib \<Rightarrow> store_env \<Rightarrow> evidence_disk \<Rightarrow> string set option \<Rightarrow> string \<Rightarrow> report_error + string list" where
  "validate_citations lib env disk selected report =
     rbind (render_markdown lib report) (validate_visible_citations env disk selected)"

definition validate_claim_support :: "rendered_markdown \<Rightarrow> report_error + unit" where
  "validate_claim_support rm =
     foldM (\<lambda>_ (visible, eligible). require (strip visible = [] \<or> found_citations eligible \<noteq> []) ClaimUncited) () (rm_claim_units rm)"

section \<open>Safe text\<close>

definition control_char :: "char \<Rightarrow> bool" where
  "control_char c \<longleftrightarrow> (let n = of_char c :: nat in n < 32 \<or> 127 \<le> n \<and> n < 160)"

definition markdown_special :: "char list" where
  "markdown_special = [CHR ''&'', CHR 0x5C, CHR 0x60, CHR ''*'', CHR ''_'', CHR ''{'', CHR ''['', CHR '']'', CHR ''}'', CHR ''<'',
     CHR ''>'', CHR ''#'', CHR ''!'', CHR ''|'', CHR ''~'']"

definition single_line :: "(string \<Rightarrow> string) \<Rightarrow> string \<Rightarrow> string" where
  "single_line nfc s = join_with '' '' (runs_from (\<lambda>c. \<not> is_ws c) [] (map (\<lambda>c. if control_char c then CHR '' '' else c) (normalize_text nfc s)))"

definition markdown_safe_single_line :: "(string \<Rightarrow> string) \<Rightarrow> string \<Rightarrow> string" where
  "markdown_safe_single_line nfc s =
     (let line = single_line nfc s in
      if line = [] then ''(empty)''
      else concat (map (\<lambda>c. if c \<in> set markdown_special then [CHR 0x5C, c] else [c]) line))"

text \<open>\<^verbatim>\<open>_ENTITY_INTRODUCER\<close>: the text after an ampersand.\<close>

definition digit :: "char \<Rightarrow> bool" where
  "digit c \<longleftrightarrow> CHR ''0'' \<le> c \<and> c \<le> CHR ''9''"

definition hex_digit :: "char \<Rightarrow> bool" where
  "hex_digit c \<longleftrightarrow> digit c \<or> CHR ''A'' \<le> c \<and> c \<le> CHR ''F'' \<or> CHR ''a'' \<le> c \<and> c \<le> CHR ''f''"

definition run_then_semicolon :: "(char \<Rightarrow> bool) \<Rightarrow> nat \<Rightarrow> string \<Rightarrow> bool" where
  "run_then_semicolon p n s \<longleftrightarrow>
     (let k = length (takeWhile p s) in 1 \<le> k \<and> k \<le> n \<and> take 1 (drop k s) = '';'')"

definition entity_at :: "string \<Rightarrow> bool" where
  "entity_at s \<longleftrightarrow>
     take 1 s = ''#'' \<and> run_then_semicolon digit 7 (drop 1 s) \<or>
     (take 2 s = ''#x'' \<or> take 2 s = ''#X'') \<and> run_then_semicolon hex_digit 6 (drop 2 s) \<or>
     (s \<noteq> [] \<and> letter (hd s)) \<and> run_then_semicolon (\<lambda>c. letter c \<or> digit c) 32 s"

fun markdown_safe_url :: "string \<Rightarrow> string" where
  "markdown_safe_url [] = []"
| "markdown_safe_url (c # cs) =
     (if c = CHR ''&'' \<and> entity_at cs then CHR 0x5C # c # markdown_safe_url cs else c # markdown_safe_url cs)"

section \<open>The writer (\<^verbatim>\<open>MarkdownReportWriter\<close>)\<close>

record report_env =
  re_lib :: markdown_lib
  re_store :: store_env
  re_url :: "string \<Rightarrow> string + string"
  re_iso :: "timestamp \<Rightarrow> string"
  re_dash :: string
  re_text :: "json \<Rightarrow> string"
  re_bound :: "string \<Rightarrow> string"

definition safe_url_of :: "report_env \<Rightarrow> source_document \<Rightarrow> report_error + string" where
  "safe_url_of env s = (case re_url env (sd_canonical_url s) of Inl m \<Rightarrow> Inl (UrlRefused m) | Inr u \<Rightarrow> Inr u)"

definition cited_material :: "report_env \<Rightarrow> evidence_disk \<Rightarrow> string \<Rightarrow> report_error + evidence_span \<times> source_document \<times> string" where
  "cited_material env disk i =
     rbind (stored (get_evidence (re_store env) disk i)) (\<lambda>e.
     rbind (stored (get_source (re_store env) disk (es_source_id e))) (\<lambda>s.
     rbind (safe_url_of env s) (\<lambda>u. Inr (e, s, u))))"

definition material_json :: "report_env \<Rightarrow> evidence_span \<times> source_document \<times> string \<Rightarrow> json" where
  "material_json env = (\<lambda>(e, s, u).
     let bound = (\<lambda>t. JStr (re_bound env t)) in
     JDict [(''evidence_id'', JStr (es_evidence_id e)), (''excerpt'', bound (es_excerpt e)), (''language'', bound (es_language e)),
       (''locator'', bound (re_text env (canonical_json (locator_json (es_locator e))))),
       (''source'', JDict
         [(''authors'', JList (map bound (sd_authors s))), (''canonical_url'', bound u), (''parser_version'', bound (sd_parser_version s)),
          (''published_at'', case sd_published_at s of None \<Rightarrow> JNull | Some t \<Rightarrow> bound (re_iso env t)),
          (''retrieved_at'', bound (re_iso env (sd_retrieved_at s))), (''source_family_id'', bound (sd_source_family_id s)),
          (''source_id'', JStr (sd_source_id s)), (''source_type'', bound (source_type_name (sd_source_type s))),
          (''title'', bound (sd_title s))])])"

definition material :: "report_env \<Rightarrow> evidence_disk \<Rightarrow> string \<Rightarrow> report_error + json" where
  "material env disk i =
     rbind (stored (has_evidence (re_store env) disk i)) (\<lambda>known.
       if \<not> known then Inl (UnknownCitation i)
       else rbind (cited_material env disk i) (\<lambda>m. Inr (material_json env m)))"

text \<open>The prompt, as the JSON value whose canonical text it is.\<close>

definition render_prompt :: "report_env \<Rightarrow> evidence_disk \<Rightarrow> string list \<Rightarrow> string list \<Rightarrow> report_error + json" where
  "render_prompt env disk selected user_strings =
     rbind (mapM (material env disk) (sort (remdups selected))) (\<lambda>materials.
       Inr (canonical_json (JDict
         [(''evidence'', JList materials),
          (''instruction'', JStr (''Write Markdown using only the selected evidence. Cite factual claims inline '' @
             ''with exact [E-...] IDs.'')),
          (''user_strings'', JList (map (\<lambda>t. JStr (re_bound env t)) user_strings))])))"

definition stop_reasons :: "string set" where
  "stop_reasons = {''SUFFICIENT'', ''PLATEAU'', ''BUDGET_EXHAUSTED'', ''BLOCKED''}"

definition partial_section :: "(string \<Rightarrow> string) \<Rightarrow> string \<Rightarrow> string list \<Rightarrow> string" where
  "partial_section nfc stop_reason uncovered =
     (let needs = sort (remdups (map (markdown_safe_single_line nfc) uncovered)) in
      join_with [CHR 0x0A]
        ([''## Partial report'', [], ''Stop reason: '' @ [CHR 0x60] @ stop_reason @ [CHR 0x60]] @
         (if needs = [] then [] else [[], ''Uncovered information needs:'', []] @ map (\<lambda>n. ''- '' @ n) needs)))"

definition reference_line :: "report_env \<Rightarrow> evidence_disk \<Rightarrow> string \<Rightarrow> report_error + string" where
  "reference_line env disk i =
     rbind (cited_material env disk i) (\<lambda>(_, s, u).
       Inr (''- ['' @ i @ ''] '' @ markdown_safe_single_line (se_nfc (re_store env)) (sd_title s) @ '' '' @ re_dash env @ '' '' @ markdown_safe_url u))"

definition check_stop :: "bool \<Rightarrow> string option \<Rightarrow> string list \<Rightarrow> report_error + unit" where
  "check_stop is_partial stop_reason uncovered =
     (if stop_reason \<noteq> None \<and> the stop_reason \<notin> stop_reasons then Inl (ReportValue ''stop reason must be a public StopReason literal'')
      else if is_partial \<and> stop_reason = None then Inl (ReportValue ''partial reports require a stop reason'')
      else if \<not> is_partial \<and> (stop_reason \<noteq> None \<or> uncovered \<noteq> [])
      then Inl (ReportValue ''stop reason and uncovered needs require a partial report'')
      else Inr ())"

definition finalize_report :: "report_env \<Rightarrow> evidence_disk \<Rightarrow> string \<Rightarrow> string list \<Rightarrow> bool \<Rightarrow> string option \<Rightarrow> string list \<Rightarrow>
    report_error + string" where
  "finalize_report env disk draft_markdown selected is_partial stop_reason uncovered =
     (let draft = strip draft_markdown in
      rbind (render_markdown (re_lib env) draft) (\<lambda>rm.
      rbind (validate_visible_citations (re_store env) disk (Some (set selected)) rm) (\<lambda>citations.
      rbind (validate_claim_support rm) (\<lambda>_.
      rbind (check_stop is_partial stop_reason uncovered) (\<lambda>_.
      rbind (mapM (reference_line env disk) (sort citations)) (\<lambda>references.
        Inr (join_with [CHR 0x0A, CHR 0x0A]
          ([draft] @ (if is_partial then [partial_section (se_nfc (re_store env)) (the stop_reason) uncovered] else []) @
           [join_with [CHR 0x0A] ([''## References'', []] @ references)]))))))))"

end
