(* ===== verification/Report_Correct.thy ===== *)
theory Report_Correct
  imports Report Evidence_Store_Correct
begin

text \<open>
  What a finalized report is: its draft with every visible citation resolved and every claim cited,
  the partial section and one reference for every citation; and that titles and needs are inert.
\<close>

section \<open>Citations of claims\<close>

text \<open>A citation that counts for a claim is one that a reader sees.\<close>

definition dense :: "string \<Rightarrow> bool" where
  "dense w \<longleftrightarrow> CHR '' '' \<notin> set w"

definition shown_in :: "string \<Rightarrow> string \<Rightarrow> bool" where
  "shown_in el vis \<longleftrightarrow> (\<forall>w. dense w \<longrightarrow> (sublist w el \<longrightarrow> sublist w vis) \<and> (suffix w el \<longrightarrow> suffix w vis))"

lemma shown_in_blank: "shown_in el vis \<Longrightarrow> shown_in (el @ '' '') vis"
proof -
  have "sublist w (el @ '' '') \<Longrightarrow> dense w \<Longrightarrow> sublist w el" for w
  proof -
    assume "sublist w (el @ '' '')" "dense w"
    then obtain u v where "el @ '' '' = u @ w @ v" by (auto simp: sublist_def)
    with \<open>dense w\<close> show "sublist w el"
      by (cases v rule: rev_cases; cases w rule: rev_cases) (auto simp: dense_def sublist_def)
  qed
  moreover have "suffix w (el @ '' '') \<Longrightarrow> dense w \<Longrightarrow> w = []" for w
    by (cases w rule: rev_cases) (auto simp: dense_def suffix_def)
  ultimately show "shown_in el vis \<Longrightarrow> shown_in (el @ '' '') vis" by (fastforce simp: shown_in_def)
qed

lemma shown_in_append: "shown_in el vis \<Longrightarrow> shown_in (el @ x) (vis @ x)"
  unfolding shown_in_def
proof (intro allI impI conjI)
  fix w
  assume s: "\<forall>w. dense w \<longrightarrow> (sublist w el \<longrightarrow> sublist w vis) \<and> (suffix w el \<longrightarrow> suffix w vis)" and d: "dense w"
  {
    assume "sublist w (el @ x)"
    then consider "sublist w el" | "sublist w x" | a b where "w = a @ b" "suffix a el" "prefix b x"
      unfolding sublist_append by blast
    then show "sublist w (vis @ x)"
    proof cases
      case 3
      then have "suffix a vis" using s d by (auto simp: dense_def)
      with 3 show ?thesis unfolding sublist_append by blast
    qed (use s d in \<open>auto simp: sublist_append\<close>)
  }
  assume "suffix w (el @ x)"
  then consider "suffix w x" | a where "w = a @ x" "suffix a el"
    by (auto simp: suffix_append)
  then show "suffix w (vis @ x)"
  proof cases
    case 2
    then have "suffix a vis" using s d by (auto simp: dense_def)
    with 2 show ?thesis by simp
  qed (simp add: suffix_append)
qed

lemma shown_in_more: "shown_in el vis \<Longrightarrow> shown_in (el @ '' '') (vis @ x)"
proof -
  assume "shown_in el vis"
  then have "shown_in (el @ '' '') vis" by (rule shown_in_blank)
  moreover have "suffix w (el @ '' '') \<Longrightarrow> dense w \<Longrightarrow> w = []" for w
    by (cases w rule: rev_cases) (auto simp: dense_def suffix_def)
  ultimately show ?thesis by (fastforce simp: shown_in_def sublist_append)
qed

lemma cited_dense: "cited el c \<longleftrightarrow> (\<exists>body. body \<noteq> [] \<and> list_all id_char body \<and> c = ''E-'' @ body \<and> sublist (''[E-'' @ body @ '']'') el)"
  unfolding cited_def sublist_def by (auto; metis append.assoc append_Cons append_Nil)

lemma shown_in_cited: "shown_in el vis \<Longrightarrow> cited el c \<Longrightarrow> cited vis c"
proof -
  have "dense (''[E-'' @ body @ '']'')" if "list_all id_char body" for body
    using that by (auto simp: dense_def list_all_iff id_char_def)
  then show "shown_in el vis \<Longrightarrow> cited el c \<Longrightarrow> cited vis c" unfolding cited_dense shown_in_def by blast
qed

definition shown_state :: "inline_state \<Rightarrow> bool" where
  "shown_state st \<longleftrightarrow> is_raw st \<or> vi_hidden (is_html_state st) = [] \<and> shown_in (is_eligible st) (is_visible st)"

lemma inline_step_raw: "inline_step lib st child = Inr st' \<Longrightarrow> is_raw st \<Longrightarrow> is_raw st'"
  by (simp add: inline_step_def Let_def rbind_eq_Inr split: if_splits; fastforce)

lemma inline_step_shown: "inline_step lib st child = Inr st' \<Longrightarrow> shown_state st \<Longrightarrow> shown_state st'"
proof (cases "is_raw st")
  case True
  then show "inline_step lib st child = Inr st' \<Longrightarrow> shown_state st'" by (simp add: shown_state_def inline_step_raw)
next
  case False
  assume "shown_state st"
  with False have v: "vi_hidden (is_html_state st) = []" and s: "shown_in (is_eligible st) (is_visible st)" by (simp_all add: shown_state_def)
  note shown = shown_in_blank [OF s] shown_in_append [OF s] shown_in_more [OF s]
  show "inline_step lib st child = Inr st' \<Longrightarrow> shown_state st'"
    by (simp add: inline_step_def Let_def rbind_eq_Inr hides_text_def v split: if_splits; clarsimp simp: shown_state_def v s shown)
qed

lemma inline_views_shown:
  assumes "inline_views lib children = Inr (visible, eligible)"
  shows "cited eligible c \<Longrightarrow> cited visible c"
proof -
  from assms obtain st where f: "foldM (inline_step lib) \<lparr>is_visible = [], is_eligible = [], is_links = 0, is_pieces = [],
      is_html_state = new_visibility, is_raw = False\<rparr> children = Inr st"
    and v: "visible = is_visible st" "eligible = (if is_raw st then [] else is_eligible st)"
    by (auto simp: inline_views_def rbind_eq_Inr split: if_splits)
  have "shown_state st"
    using f by (rule foldM_invariant) (simp_all add: inline_step_shown, simp add: shown_state_def new_visibility_def shown_in_def)
  moreover have "\<not> cited [] c" by (simp add: cited_def)
  ultimately show "cited eligible c \<Longrightarrow> cited visible c" using v by (auto simp: shown_state_def dest: shown_in_cited split: if_splits)
qed

definition claims_shown :: "rendered_markdown \<Rightarrow> bool" where
  "claims_shown rm \<longleftrightarrow> (\<forall>(v, el)\<in>set (rm_claim_units rm). v \<in> set (rm_visible_units rm) \<and> (\<forall>c. cited el c \<longrightarrow> cited v c))"

lemma block_step_shown: "block_step lib (n, rm) token = Inr (m, rm') \<Longrightarrow> claims_shown rm \<Longrightarrow> claims_shown rm'"
proof -
  have no: "\<not> cited [] c" for c by (simp add: cited_def)
  have more: "claims_shown rm \<Longrightarrow> (\<And>c. cited el c \<Longrightarrow> cited v c) \<Longrightarrow>
      claims_shown \<lparr>rm_visible_units = rm_visible_units rm @ [v], rm_claim_units = rm_claim_units rm @ [(v, el)]\<rparr>" for v el
    by (auto simp: claims_shown_def)
  have skip: "claims_shown rm \<Longrightarrow> claims_shown \<lparr>rm_visible_units = rm_visible_units rm @ [v], rm_claim_units = rm_claim_units rm\<rparr>" for v
    by (auto simp: claims_shown_def)
  assume st: "block_step lib (n, rm) token = Inr (m, rm')" and c: "claims_shown rm"
  consider "rm' = rm" | v el where "inline_views lib (bt_children token) = Inr (v, el)" "n \<noteq> 0"
      "rm' = \<lparr>rm_visible_units = rm_visible_units rm @ [v], rm_claim_units = rm_claim_units rm @ [(v, el)]\<rparr>"
    | v where "rm' = \<lparr>rm_visible_units = rm_visible_units rm @ [v], rm_claim_units = rm_claim_units rm\<rparr>"
    | v where "rm' = \<lparr>rm_visible_units = rm_visible_units rm @ [v], rm_claim_units = rm_claim_units rm @ [(v, [])]\<rparr>"
    using st by (auto simp: block_step_def rbind_eq_Inr split: if_splits)
  then show "claims_shown rm'"
  proof cases
    case (2 v el)
    show ?thesis unfolding 2(3) by (rule more [OF c inline_views_shown [OF 2(1)]])
  next
    case (4 v)
    show ?thesis unfolding 4 using no by (intro more [OF c]) blast
  qed (simp_all add: c skip)
qed

lemma render_claims:
  assumes "render_markdown lib d = Inr rm" "(v, el) \<in> set (rm_claim_units rm)"
  shows "v \<in> set (rm_visible_units rm)" "cited el c \<Longrightarrow> cited v c"
proof -
  from assms(1) obtain tokens n where
    f: "foldM (block_step lib) (0, \<lparr>rm_visible_units = [], rm_claim_units = []\<rparr>) tokens = Inr (n, rm)"
    by (auto simp: render_markdown_def rbind_eq_Inr split: option.splits)
  have "case (n, rm) of (_, rm) \<Rightarrow> claims_shown rm"
    using f by (rule foldM_invariant) (auto intro: block_step_shown, simp add: claims_shown_def)
  then show "v \<in> set (rm_visible_units rm)" "cited el c \<Longrightarrow> cited v c" using assms(2) by (auto simp: claims_shown_def)
qed

section \<open>What is accepted\<close>

lemma citation_ids_eq:
  "citation_ids_from_rendered rm = Inr ids \<longleftrightarrow>
     (\<forall>v\<in>set (rm_visible_units rm). \<not> malformed v) \<and> ids = fromkeys (concat (map found_citations (rm_visible_units rm)))"
proof -
  have "foldM (\<lambda>ids visible. if malformed visible then Inl MalformedCitation else Inr (ids @ found_citations visible)) acc us = Inr r \<longleftrightarrow>
      (\<forall>v\<in>set us. \<not> malformed v) \<and> r = acc @ concat (map found_citations us)" for acc us r
    by (induction us arbitrary: acc) (auto simp: rbind_eq_Inr)
  then show ?thesis by (auto simp: citation_ids_from_rendered_def rbind_eq_Inr)
qed

lemma has_evidence_eq: "has_evidence env disk i = Inr True \<longleftrightarrow> (\<exists>e. get_evidence env disk i = Inr e)"
proof
  assume "has_evidence env disk i = Inr True"
  then obtain d where "record_digest env i = Inr d" "(case dk_evidence disk d of
      UnsafePath \<Rightarrow> Inl (Integrity ''storage final or lock path is a symlink or reparse point'')
    | File _ \<Rightarrow> rbind (read_evidence_record env disk i) (\<lambda>_. Inr True) | _ \<Rightarrow> Inr False) = Inr True"
    unfolding has_evidence_def rbind_eq_Inr by blast
  then show "\<exists>e. get_evidence env disk i = Inr e"
    by (cases "dk_evidence disk d") (auto simp: get_evidence_def rbind_eq_Inr)
next
  assume "\<exists>e. get_evidence env disk i = Inr e"
  then obtain e where r: "read_evidence_record env disk i = Inr e" by (auto simp: get_evidence_def)
  then obtain d p where d: "record_digest env i = Inr d" "read_envelope env ''persisted evidence record is corrupt'' (dk_evidence disk d) = Inr p"
    by (auto simp: read_evidence_record_def rbind_eq_Inr)
  from d(2) obtain j where "dk_evidence disk d = File j" by (cases "dk_evidence disk d") auto
  with d(1) r show "has_evidence env disk i = Inr True" by (simp add: has_evidence_def)
qed

lemma citations_set: "set (fromkeys (concat (map found_citations us))) = {c. \<exists>v\<in>set us. cited v c}"
  by (auto simp: set_uniq_seen found_citations_iff)

lemma visible_citations_eq:
  "validate_visible_citations env disk (Some sel) rm = Inr ids \<longleftrightarrow>
     (\<forall>v\<in>set (rm_visible_units rm). \<not> malformed v) \<and> ids = fromkeys (concat (map found_citations (rm_visible_units rm))) \<and>
     (\<forall>c. (\<exists>v\<in>set (rm_visible_units rm). cited v c) \<longrightarrow> c \<in> sel \<and> (\<exists>e. get_evidence env disk c = Inr e))"
proof -
  let ?f = "\<lambda>missing i. rbind (stored (has_evidence env disk i)) (\<lambda>known.
      Inr (if \<not> known \<or> (case Some sel of None \<Rightarrow> False | Some s \<Rightarrow> i \<notin> s) then missing @ [i] else missing)) :: report_error + string list"
  have st: "stored m = Inr x \<longleftrightarrow> m = Inr x" for m :: "store_error + bool" and x by (auto simp: stored_def split: sum.splits)
  have grow: "foldM ?f acc us = Inr r \<Longrightarrow> \<exists>more. r = acc @ more" for acc us r
  proof (induction us arbitrary: acc)
    case (Cons u us)
    then show ?case by (fastforce simp: rbind_eq_Inr split: if_splits)
  qed simp
  have "foldM ?f [] us = Inr [] \<longleftrightarrow> (\<forall>i\<in>set us. i \<in> sel \<and> has_evidence env disk i = Inr True)" for us
  proof (induction us)
    case (Cons u us)
    have "foldM ?f [u] us \<noteq> Inr []" using grow [of "[u]" us "[]"] by auto
    with Cons show ?case by (auto simp: rbind_eq_Inr st split: if_splits) 
  qed simp
  then have "validate_visible_citations env disk (Some sel) rm = Inr ids \<longleftrightarrow>
      citation_ids_from_rendered rm = Inr ids \<and> (\<forall>i\<in>set ids. i \<in> sel \<and> (\<exists>e. get_evidence env disk i = Inr e))"
    by (auto simp: validate_visible_citations_def rbind_eq_Inr has_evidence_eq)
  moreover have "(\<forall>i\<in>set (fromkeys (concat (map found_citations us))). Q i) \<longleftrightarrow> (\<forall>c. (\<exists>v\<in>set us. cited v c) \<longrightarrow> Q c)" for us Q
    unfolding citations_set by blast
  ultimately show ?thesis unfolding citation_ids_eq by (simp only: conj_assoc) (rule conj_cong [OF refl], rule conj_cong [OF refl], simp only:)
qed

lemma claim_support_eq:
  "validate_claim_support rm = Inr () \<longleftrightarrow> (\<forall>(v, el)\<in>set (rm_claim_units rm). strip v = [] \<or> (\<exists>c. cited el c))"
proof -
  have c: "found_citations el \<noteq> [] \<longleftrightarrow> (\<exists>c. cited el c)" for el
    using found_citations_iff [of _ el] by (metis last_in_set list.set(1) empty_iff)
  have "foldM (\<lambda>_ (visible, eligible). require (strip visible = [] \<or> found_citations eligible \<noteq> []) ClaimUncited) () us = Inr () \<longleftrightarrow>
      (\<forall>(v, el)\<in>set us. strip v = [] \<or> (\<exists>c. cited el c))" for us
    by (induction us) (auto simp: rbind_eq_Inr require_eq_Inr c)
  then show ?thesis by (simp add: validate_claim_support_def)
qed

lemma check_stop_eq:
  "check_stop p sr unc = Inr () \<longleftrightarrow> (\<forall>r. sr = Some r \<longrightarrow> r \<in> stop_reasons) \<and> p = (sr \<noteq> None) \<and> (p \<or> unc = [])"
  by (auto simp: check_stop_def)

lemma mapM_Inr_eq: "mapM f xs = Inr ys \<longleftrightarrow> list_all2 (\<lambda>x y. f x = Inr y) xs ys"
  by (induction xs arbitrary: ys) (auto simp: res_simps list_all2_Cons1)

lemma reference_line_eq:
  "reference_line env disk i = Inr l \<longleftrightarrow>
     (\<exists>e s u. get_evidence (re_store env) disk i = Inr e \<and> get_source (re_store env) disk (es_source_id e) = Inr s \<and>
       re_url env (sd_canonical_url s) = Inr u \<and>
       l = ''- ['' @ i @ ''] '' @ markdown_safe_single_line (se_nfc (re_store env)) (sd_title s) @ '' '' @ re_dash env @ '' '' @ markdown_safe_url u)"
proof -
  have u: "safe_url_of env s = Inr u \<longleftrightarrow> re_url env (sd_canonical_url s) = Inr u" for s u
    by (auto simp: safe_url_of_def split: sum.splits)
  have "cited_material env disk i = Inr (e, s, u) \<longleftrightarrow>
      get_evidence (re_store env) disk i = Inr e \<and> get_source (re_store env) disk (es_source_id e) = Inr s \<and> re_url env (sd_canonical_url s) = Inr u"
    for e s u by (auto simp: cited_material_def rbind_eq_Inr stored_def u split: sum.splits)
  then show ?thesis by (auto simp: reference_line_def rbind_eq_Inr)
qed

section \<open>Inert text\<close>

text \<open>Every special character follows a backslash of its own.\<close>

fun inert :: "string \<Rightarrow> bool" where
  "inert [] \<longleftrightarrow> True"
| "inert (c # cs) \<longleftrightarrow>
     (if c = CHR 0x5C then (case cs of [] \<Rightarrow> False | d # ds \<Rightarrow> d \<in> set markdown_special \<and> inert ds)
      else c \<notin> set markdown_special \<and> inert cs)"

fun unescape :: "string \<Rightarrow> string" where
  "unescape (c # d # cs) = (if c = CHR 0x5C then d # unescape cs else c # unescape (d # cs))"
| "unescape s = s"

lemma escape_inert:
  "inert (concat (map (\<lambda>c. if c \<in> set markdown_special then [CHR 0x5C, c] else [c]) line))"
  by (induction line) (auto simp: markdown_special_def)

lemma escape_unescape:
  "unescape (concat (map (\<lambda>c. if c \<in> set markdown_special then [CHR 0x5C, c] else [c]) line)) = line"
proof (induction line)
  case (Cons c cs)
  let ?r = "concat (map (\<lambda>c. if c \<in> set markdown_special then [CHR 0x5C, c] else [c]) cs)"
  have b: "CHR 0x5C \<in> set markdown_special" by (simp add: markdown_special_def)
  show ?case
  proof (cases "c \<in> set markdown_special")
    case False
    with b have "c \<noteq> CHR 0x5C" by blast
    then have "unescape (c # r) = c # unescape r" for r by (cases r) simp_all
    with Cons False show ?thesis by (simp del: unescape.simps)
  qed (use Cons in simp)
qed simp

lemma runs_from_chars: "c \<in> set (concat (runs_from P acc s)) \<Longrightarrow> c \<in> set acc \<or> c \<in> set s \<and> P c"
proof (induction P acc s rule: runs_from.induct)
  case (1 P acc)
  then show ?case by (simp split: if_splits)
next
  case (2 P acc d cs)
  then show ?case by (cases "P d"; cases "acc = []") auto
qed

lemma join_with_chars: "set (join_with sep xs) \<subseteq> set sep \<union> set (concat xs)"
  by (induction sep xs rule: join_with.induct) auto

lemma single_line_chars:
  assumes "c \<in> set (single_line nfc s)"
  shows "c = CHR '' '' \<or> \<not> control_char c"
proof -
  let ?t = "map (\<lambda>c. if control_char c then CHR '' '' else c) (normalize_text nfc s)"
  have "c \<in> set '' '' \<union> set (concat (runs_from (\<lambda>c. \<not> is_ws c) [] ?t))"
    using assms unfolding single_line_def by (rule subsetD [OF join_with_chars])
  then consider "c = CHR '' ''" | "c \<in> set (concat (runs_from (\<lambda>c. \<not> is_ws c) [] ?t))" by (simp only: list.set Un_iff) blast
  then show ?thesis
  proof cases
    case 2
    then have "c \<in> set ?t" using runs_from_chars by fastforce
    then obtain x where "c = (if control_char x then CHR '' '' else x)" unfolding set_map by (rule imageE)
    then show ?thesis by (cases "control_char x") simp_all
  qed simp
qed

text \<open>
  A title or a need in a report is inert: one line without control characters, in which every
  Markdown character is escaped, and which reads as the text it was made from.
\<close>

lemma safe_line_inert:
  "inert (markdown_safe_single_line nfc s)"
  "unescape (markdown_safe_single_line nfc s) = (if single_line nfc s = [] then ''(empty)'' else single_line nfc s)"
  "c \<in> set (markdown_safe_single_line nfc s) \<Longrightarrow> \<not> control_char c"
proof -
  show "inert (markdown_safe_single_line nfc s)"
    using escape_inert by (simp add: markdown_safe_single_line_def Let_def) (simp add: markdown_special_def)
  show "unescape (markdown_safe_single_line nfc s) = (if single_line nfc s = [] then ''(empty)'' else single_line nfc s)"
    using escape_unescape by (simp add: markdown_safe_single_line_def Let_def)
  have special: "\<not> control_char x" if "x \<in> set markdown_special" for x
    using that by (auto simp: markdown_special_def control_char_def)
  have empty: "\<not> control_char x" if "x \<in> set ''(empty)''" for x
    using that by (auto simp: control_char_def)
  have blank: "\<not> control_char (CHR '' '')" by (simp add: control_char_def)
  show "\<not> control_char c" if c: "c \<in> set (markdown_safe_single_line nfc s)"
  proof (cases "single_line nfc s = []")
    case True
    with c show ?thesis by (intro empty) (simp add: markdown_safe_single_line_def)
  next
    case False
    have "c \<in> set markdown_special \<or> c \<in> set (single_line nfc s)"
      using c False by (auto simp: markdown_safe_single_line_def Let_def markdown_special_def split: if_splits)
    then show ?thesis using special blank single_line_chars [of c nfc s] by blast
  qed
qed

text \<open>
  The scanner of citations does not know the escape: a title that opens with \<^verbatim>\<open>[E\<close> makes the
  report malformed to it.
\<close>

lemma safe_title_malformed: "malformed (markdown_safe_single_line id ''[Ebook] Surveys'')"
  by code_simp

section \<open>The property\<close>

definition report_layout :: "(string \<Rightarrow> string) \<Rightarrow> string \<Rightarrow> string option \<Rightarrow> string list \<Rightarrow> string list \<Rightarrow> string" where
  "report_layout nfc draft stop_reason uncovered references =
     join_with [CHR 0x0A, CHR 0x0A]
       ([draft] @ (case stop_reason of None \<Rightarrow> [] | Some r \<Rightarrow> [partial_section nfc r uncovered]) @
        [join_with [CHR 0x0A] ([''## References'', []] @ references)])"

text \<open>The checks, with the layout of what they let through.\<close>

lemma finalize_report_eq:
  "finalize_report env disk draft selected is_partial stop_reason uncovered = Inr report \<longleftrightarrow>
    (\<exists>rm citations references. render_markdown (re_lib env) (strip draft) = Inr rm \<and>
      validate_visible_citations (re_store env) disk (Some (set selected)) rm = Inr citations \<and>
      validate_claim_support rm = Inr () \<and> check_stop is_partial stop_reason uncovered = Inr () \<and>
      mapM (reference_line env disk) (sort citations) = Inr references \<and>
      report = report_layout (se_nfc (re_store env)) (strip draft) stop_reason uncovered references)"
proof -
  have lay: "join_with [CHR 0x0A, CHR 0x0A]
      ([d] @ (if is_partial then [partial_section nfc (the stop_reason) uncovered] else []) @
       [join_with [CHR 0x0A] ([''## References'', []] @ refs)]) = report_layout nfc d stop_reason uncovered refs"
    if "check_stop is_partial stop_reason uncovered = Inr ()" for nfc d refs
    using that unfolding check_stop_eq report_layout_def by (cases stop_reason) simp_all
  show ?thesis unfolding finalize_report_def Let_def rbind_eq_Inr using lay by auto
qed


section \<open>A worked report\<close>

definition demo_markdown :: markdown_lib where
  "demo_markdown = \<lparr>ml_parse = (\<lambda>s. Some [\<lparr>bt_type = ''paragraph_open'', bt_content = [], bt_children = []\<rparr>,
       \<lparr>bt_type = ''inline'', bt_content = s, bt_children = [\<lparr>it_type = ''text'', it_content = s\<rparr>]\<rparr>,
       \<lparr>bt_type = ''paragraph_close'', bt_content = [], bt_children = []\<rparr>]),
     ml_feed = (\<lambda>_. Some []), ml_close = (\<lambda>_. Some []), ml_fold = id\<rparr>"

definition demo_report_env :: report_env where
  "demo_report_env = \<lparr>re_lib = demo_markdown, re_store = demo_env, re_url = Inr, re_iso = (\<lambda>_. []), re_dash = ''--'',
     re_text = (\<lambda>_. []), re_bound = id\<rparr>"

lemma demo_stored: "\<exists>d. get_evidence demo_env d ''E-1'' = Inr demo_span \<and> get_source demo_env d ''s'' = Inr demo_source"
proof -
  obtain d2 d where p: "put_evidence demo_env demo_span d2 = Inr (demo_span, d)" using demo_store by blast
  have r: "read_evidence_record demo_env d ''E-1'' = Inr demo_span"
    using put_evidence_stored [OF p demo_readable] by (simp add: demo_span_def)
  then obtain x t where "read_source_record demo_env d (es_source_id demo_span) = Inr (x, t)"
    unfolding read_evidence_eq validate_evidence_eq read_parsed_eq identity_eq by blast
  then have x: "read_source_record demo_env d ''s'' = Inr (x, t)" by (simp add: demo_span_def)
  have "x = demo_source" if "source_of_payload demo_env payload = Some (x, t)" for payload
    using that by (cases "dget payload ''source''"; cases "dget payload ''normalized_text''")
      (auto simp: source_of_payload_def demo_env_def split: json.splits)
  with x have "x = demo_source" unfolding read_source_eq by blast
  with x r show ?thesis by (auto simp: get_source_def get_evidence_def)
qed

lemma demo_render: "render_markdown demo_markdown ''Fact [E-1].'' =
    Inr \<lparr>rm_visible_units = [''Fact [E-1].''], rm_claim_units = [(''Fact [E-1].'', ''Fact [E-1].'')]\<rparr>"
  by (simp add: render_markdown_def demo_markdown_def block_step_def inline_views_def inline_step_def Let_def hides_text_def
      new_visibility_def ambiguous_html_citation_def ambiguous_tag_def)


end
