(* ===== verification/Report_Run.thy ===== *)
theory Report_Run
  imports Report_Correct Artifact_Store Workflow_Runs Planners
begin

text \<open>
  The report nodes of the baseline graph (\<^verbatim>\<open>draft_report\<close> and \<^verbatim>\<open>finalize_citations\<close> of
  \<^verbatim>\<open>src/src/deepresearch/workflow/baseline_graph.py\<close>): the draft goes into the artifact store, and the
  finalized report is made from it, from the evidence the run selected and from its stop reason.
\<close>

section \<open>The nodes\<close>

datatype report_node_error =
  ReportMissing | WriterModelMissing | ModelRaised string | ReportRaised report_error | ArtifactRaised artifact_error

definition as_report :: "report_error + 'a \<Rightarrow> report_node_error + 'a" where
  "as_report m = (case m of Inl e \<Rightarrow> Inl (ReportRaised e) | Inr x \<Rightarrow> Inr x)"

definition as_artifact :: "artifact_error + 'a \<Rightarrow> report_node_error + 'a" where
  "as_artifact m = (case m of Inl e \<Rightarrow> Inl (ArtifactRaised e) | Inr x \<Rightarrow> Inr x)"

text \<open>The writer with its model, which is asked with a system text and a prompt.\<close>

record report_run_env =
  rr_report :: report_env
  rr_artifacts :: artifact_env
  rr_model :: "(string \<Rightarrow> json \<Rightarrow> string + string) option"

definition markdown_media_type :: string where
  "markdown_media_type = ''text/markdown; charset=utf-8''"

definition local_draft :: "string list \<Rightarrow> string" where
  "local_draft ids = ''Available evidence '' @ join_with '' '' (map (\<lambda>i. ''['' @ i @ '']'') ids) @ ''.''"

definition draft_system :: "research_request \<Rightarrow> string" where
  "draft_system r =
     ''Write one evidence-grounded Markdown report with inline evidence IDs.'' @
     (if rq_execution_mode r \<noteq> Replay \<and> rq_report_language r \<in> {''en'', ''zh''}
      then '' Report language: '' @ rq_report_language r @ ''.'' else [])"

definition draft_text :: "report_run_env \<Rightarrow> evidence_disk \<Rightarrow> baseline_state \<Rightarrow> report_node_error + string" where
  "draft_text env disk state =
     (if bst_stop_reason state = Some BudgetExhausted
      then (if bst_selected_evidence_ids state = [] then Inl ReportMissing else Inr (local_draft (bst_selected_evidence_ids state)))
      else
        (case rr_model env of
           None \<Rightarrow> Inl WriterModelMissing
         | Some ask \<Rightarrow>
             rbind (as_report (render_prompt (rr_report env) disk (bst_selected_evidence_ids state) [rq_question (bst_request state)]))
               (\<lambda>prompt. case ask (draft_system (bst_request state)) prompt of Inl e \<Rightarrow> Inl (ModelRaised e) | Inr text \<Rightarrow> Inr text)))"

definition draft_report :: "report_run_env \<Rightarrow> evidence_disk \<Rightarrow> baseline_state \<Rightarrow> artifact_disk \<Rightarrow>
    report_node_error + baseline_state \<times> artifact_disk" where
  "draft_report env disk state artifacts =
     rbind (draft_text env disk state) (\<lambda>draft.
     rbind (as_artifact (put_bytes (rr_artifacts env) draft markdown_media_type artifacts)) (\<lambda>(r, artifacts').
       Inr (state\<lparr>bst_draft_artifact_id := Some (ar_artifact_id r)\<rparr>, artifacts')))"

definition uncovered_texts :: "research_plan \<Rightarrow> coverage_ledger_entry list \<Rightarrow> string list" where
  "uncovered_texts plan ledger =
     (let covered = set (map cl_subquestion_id (filter (\<lambda>e. fle (fl (85 / 100)) (cl_coverage_score e)) ledger)) in
      concat (map (\<lambda>q. map in_text (sq_information_needs q)) (filter (\<lambda>q. sq_id q \<notin> covered) (rp_subquestions plan))))"

definition finalize_draft :: "report_run_env \<Rightarrow> evidence_disk \<Rightarrow> research_plan \<Rightarrow> baseline_state \<Rightarrow> string \<Rightarrow> report_error + string" where
  "finalize_draft env disk plan state draft =
     finalize_report (rr_report env) disk draft (bst_selected_evidence_ids state) (bst_is_partial state)
       (if bst_is_partial state then map_option stop_name (bst_stop_reason state) else None)
       (uncovered_texts plan (bst_coverage_ledger state))"

definition finalize_citations :: "report_run_env \<Rightarrow> evidence_disk \<Rightarrow> research_plan \<Rightarrow> baseline_state \<Rightarrow> artifact_disk \<Rightarrow>
    report_node_error + baseline_state \<times> artifact_disk" where
  "finalize_citations env disk plan state artifacts =
     (case bst_draft_artifact_id state of
        None \<Rightarrow> Inl ReportMissing
      | Some draft_id \<Rightarrow>
          rbind (as_artifact (get_bytes (rr_artifacts env) artifacts draft_id)) (\<lambda>draft.
          rbind (as_report (finalize_draft env disk plan state draft)) (\<lambda>report.
          rbind (as_artifact (put_bytes (rr_artifacts env) report markdown_media_type artifacts)) (\<lambda>(r, artifacts').
            Inr (state\<lparr>bst_report_artifact_id := Some (ar_artifact_id r)\<rparr>, artifacts')))))"

section \<open>Partial reports\<close>

text \<open>A run stops as sufficient only with every planned question covered.\<close>

lemma dget_index_by: "dget (index_by key xs) k = Some x \<Longrightarrow> x \<in> set xs \<and> key x = k"
proof -
  have "dget (foldl (\<lambda>d x. dput (key x) x d) d xs) k = Some x \<Longrightarrow> (x \<in> set xs \<and> key x = k) \<or> dget d k = Some x" for d
    by (induction xs arbitrary: d) (fastforce split: if_splits)+
  from this [of "[]"] show "dget (index_by key xs) k = Some x \<Longrightarrow> x \<in> set xs \<and> key x = k" by (auto simp: index_by_def)
qed

lemma covered_weight_covers:
  "covered_weight d acc qs = Some w \<Longrightarrow> q \<in> set qs \<Longrightarrow>
     \<exists>e. dget d (sq_id q) = Some e \<and> \<not> flt (cl_coverage_score e) (fl (85 / 100))"
  by (induction d acc qs rule: covered_weight.induct) (auto split: option.splits if_splits)

lemma sufficient_covers:
  assumes "baseline_is_sufficient plan ledger conflicts" "list_all valid_entry ledger"
  shows "uncovered_texts plan ledger = []"
proof -
  from assms(1) obtain w where w: "covered_weight (index_by cl_subquestion_id ledger) (Fin 0) (rp_subquestions plan) = Some w"
    by (auto simp: baseline_is_sufficient_def Let_def split: if_splits option.splits)
  have "sq_id q \<in> set (map cl_subquestion_id (filter (\<lambda>e. fle (fl (85 / 100)) (cl_coverage_score e)) ledger))"
    if q: "q \<in> set (rp_subquestions plan)" for q
  proof -
    from covered_weight_covers [OF w q] obtain e where e: "dget (index_by cl_subquestion_id ledger) (sq_id q) = Some e"
      "\<not> flt (cl_coverage_score e) (fl (85 / 100))" by blast
    with dget_index_by have m: "e \<in> set ledger" "cl_subquestion_id e = sq_id q" by metis+
    with assms(2) have "valid_entry e" by (simp add: list_all_iff)
    with e(2) have "fle (fl (85 / 100)) (cl_coverage_score e)"
      using fl_unit [of "85 / 100"] by (cases "cl_coverage_score e") (auto simp: valid_entry_def unit_def)
    with m show ?thesis by force
  qed
  then show ?thesis by (auto simp: uncovered_texts_def Let_def)
qed

text \<open>The stop reason of a state, once there is one, fits what its report will say.\<close>

definition stop_fits :: "research_plan \<Rightarrow> baseline_state \<Rightarrow> bool" where
  "stop_fits plan s \<longleftrightarrow>
     (\<forall>r. bst_stop_reason s = Some r \<longrightarrow>
        bst_is_partial s = (r \<noteq> Sufficient) \<and> (r = Sufficient \<longrightarrow> uncovered_texts plan (bst_coverage_ledger s) = []))"

lemma restored_ledger:
  assumes "restored s = Inr r"
  shows "bst_coverage_ledger r = bst_coverage_ledger s \<and> list_all valid_entry (bst_coverage_ledger s)"
proof -
  from assms have v: "validate_baseline_state (baseline_dict s) = Inr r" by (simp add: restored_def split: sum.splits)
  have "mapM (revalidate_model as_entry) (map (\<lambda>e. SvModel (CkEntry e)) es) = Inr es' \<Longrightarrow> es' = es \<and> list_all valid_entry es" for es es'
    by (induction es arbitrary: es') (auto simp: rbind_eq_Inr revalidate_entry simp del: revalidate_model.simps)
  moreover have "read_tuple (revalidate_model as_entry) (SvTuple (map (\<lambda>e. SvModel (CkEntry e)) (bst_coverage_ledger s))) = Inr (bst_coverage_ledger r)"
    using v unfolding validate_baseline_state_def baseline_keys field_baseline rbind_eq_Inr
    by (auto simp only: simp_thms if_False baseline_state.select_convs rbind_eq_Inr sum.inject)
  ultimately show ?thesis by simp
qed

lemma decide_next_fits:
  assumes "decide_next plan s = Inr t" "bst_stop_reason s = None"
  shows "stop_fits plan t"
proof -
  from assms(1) obtain stop where d: "decide_baseline_stop s plan = Inr stop" by (auto simp: decide_next_def rbind_eq_Inr)
  then obtain r where r: "restored s = Inr r" by (auto simp: decide_baseline_stop_def rbind_eq_Inr)
  show ?thesis
  proof (cases stop)
    case None
    with assms d show ?thesis by (auto simp: decide_next_def stop_fits_def split: option.splits list.splits)
  next
    case (Some c)
    then have t: "t = s\<lparr>bst_stop_reason := Some c, bst_is_partial := (c \<noteq> Sufficient)\<rparr>" using assms(1) d by (simp add: decide_next_def)
    have "uncovered_texts plan (bst_coverage_ledger s) = []" if "c = Sufficient"
    proof -
      have "baseline_is_sufficient plan (bst_coverage_ledger r) (bst_high_priority_unresolved_conflict_ids r)"
        using d r Some that by (auto simp: decide_baseline_stop_def split: if_splits)
      then show ?thesis using restored_ledger [OF r] sufficient_covers by metis
    qed
    with t show ?thesis by (simp add: stop_fits_def)
  qed
qed

definition researching :: "node set" where
  "researching = {ValidateRequest, Plan, DecideNext, Search, Fetch, ParseAndNormalize, StoreEvidence, RankEvidence}"

lemma node_fits:
  assumes "baseline_node plan n s u" "n \<in> researching \<longrightarrow> bst_stop_reason s = None" "stop_fits plan s"
  shows "stop_fits plan u"
  using assms(1)
proof (cases rule: baseline_node.cases)
  case (bn_done t)
  have "stop_fits plan t"
  proof (cases "n = DecideNext")
    case True
    with bn_done(1) assms(2) show ?thesis by (simp add: researching_def decide_next_fits)
  next
    case False
    show ?thesis
    proof (cases "n = RankEvidence")
      case True
      with bn_done(1) rank_evidence_core assms(2) have "bst_stop_reason t = None" by (fastforce simp: researching_def)
      then show ?thesis by (simp add: stop_fits_def)
    next
      case False
      with bn_done(1) \<open>n \<noteq> DecideNext\<close> assms(3) show ?thesis by (cases n) (auto simp: stop_fits_def)
    qed
  qed
  with bn_done(2) show ?thesis by (auto simp: books_def stop_fits_def)
next
  case bn_budget
  then show ?thesis by (auto simp: books_def stop_fits_def)
next
  case (bn_error code name)
  with assms(3) show ?thesis by (auto simp: books_def stop_fits_def)
qed

lemma edge_researching:
  assumes "baseline_edge n u = Inr m" "m \<in> researching"
  shows "bst_stop_reason u = None"
  using assms by (cases n) (auto simp: listed_Inr researching_def dest!: success_route decide_route split: if_splits)

lemma walk_fits:
  assumes "walk baseline_edge (baseline_node plan) s tr n t" "bst_stop_reason s = None"
  shows "stop_fits plan t \<and> (n \<in> researching \<longrightarrow> bst_stop_reason t = None)"
  using assms
proof (induction rule: walk.induct)
  case walk_start
  then show ?case by (simp add: stop_fits_def)
next
  case (walk_step tr n t u m)
  then show ?case using node_fits edge_researching by blast
qed

section \<open>The draft of an exhausted run\<close>

definition evidence_name :: "string \<Rightarrow> bool" where
  "evidence_name i \<longleftrightarrow> (\<exists>body. i = ''E-'' @ body \<and> body \<noteq> [] \<and> list_all id_char body)"

lemma id_char_other: "\<not> id_char (CHR '']'')" "\<not> id_char (CHR ''['')" "\<not> id_char (CHR ''<'')"
  by (simp_all add: id_char_def)

lemma name_chars: "evidence_name i \<Longrightarrow> c \<in> set i \<Longrightarrow> c \<noteq> CHR ''['' \<and> c \<noteq> CHR ''<''"
  using id_char_other by (auto simp: evidence_name_def list_all_iff)

lemma citations_skip:
  "CHR ''['' \<notin> set w \<Longrightarrow> found_citations (w @ s) = found_citations s \<and> malformed (w @ s) = malformed s"
  by (induction w) (auto simp: found_citations_def malformed_def citation_at_def citation_start_def)

lemma citations_bracket:
  assumes "evidence_name i"
  shows "found_citations (''['' @ i @ '']'' @ s) = i # found_citations s" "malformed (''['' @ i @ '']'' @ s) = malformed s"
proof -
  from assms obtain body where i: "i = ''E-'' @ body" "body \<noteq> []" "list_all id_char body" by (auto simp: evidence_name_def)
  have "citation_at (''['' @ i @ '']'' @ s) = Some i"
    using i id_char_other by (simp add: citation_at_def takeWhile_append dropWhile_append list_all_iff)
  moreover have "CHR ''['' \<notin> set (i @ '']'')" using name_chars [OF assms] by auto
  ultimately show "found_citations (''['' @ i @ '']'' @ s) = i # found_citations s" "malformed (''['' @ i @ '']'' @ s) = malformed s"
    using citations_skip [of "i @ '']''" s] by (simp_all add: found_citations_def malformed_def)
qed

lemma local_draft_citations:
  assumes "list_all evidence_name ids"
  shows "found_citations (local_draft ids) = ids" "\<not> malformed (local_draft ids)"
proof -
  have last: "found_citations ''.'' = []" "\<not> malformed ''.''" by code_simp+
  have "found_citations (join_with '' '' (map (\<lambda>i. ''['' @ i @ '']'') ids) @ ''.'') = ids \<and>
      \<not> malformed (join_with '' '' (map (\<lambda>i. ''['' @ i @ '']'') ids) @ ''.'')"
    using assms
  proof (induction ids rule: induct_list012)
    case 1
    then show ?case using last by simp
  next
    case (2 i)
    then show ?case using citations_bracket [of i "''.''"] last by simp
  next
    case (3 i j ids)
    let ?r = "join_with '' '' (map (\<lambda>i. ''['' @ i @ '']'') (j # ids)) @ ''.''"
    have "found_citations ('' '' @ ?r) = j # ids" "\<not> malformed ('' '' @ ?r)" using 3 citations_skip [of "'' ''" ?r] by simp_all
    with 3(3) citations_bracket [of i "'' '' @ ?r"] show ?case by simp
  qed
  then show "found_citations (local_draft ids) = ids" "\<not> malformed (local_draft ids)"
    using citations_skip [of "''Available evidence ''"] unfolding local_draft_def by simp_all
qed

lemma local_draft_plain: "list_all evidence_name ids \<Longrightarrow> CHR ''<'' \<notin> set (local_draft ids)"
proof -
  have no: "CHR ''<'' \<notin> set i" if "evidence_name i" for i using name_chars [OF that] by blast
  have "list_all evidence_name ids \<Longrightarrow> CHR ''<'' \<notin> set (join_with '' '' (map (\<lambda>i. ''['' @ i @ '']'') ids))"
    by (induction ids rule: induct_list012) (simp_all add: no)
  then show "list_all evidence_name ids \<Longrightarrow> CHR ''<'' \<notin> set (local_draft ids)" by (simp add: local_draft_def)
qed

lemma strip_local_draft: "strip (local_draft ids) = local_draft ids"
  by (simp add: local_draft_def strip_def is_ws_def)

text \<open>A paragraph of text without a tag is what a reader sees, and all of it counts.\<close>

definition plain_paragraph :: "string \<Rightarrow> block_token list \<Rightarrow> bool" where
  "plain_paragraph s tokens \<longleftrightarrow>
     (\<exists>op inl cl. tokens = [op, inl, cl] \<and> bt_type op = ''paragraph_open'' \<and> bt_type inl = ''inline'' \<and>
        bt_type cl = ''paragraph_close'' \<and> list_all (\<lambda>t. it_type t = ''text'') (bt_children inl) \<and>
        concat (map it_content (bt_children inl)) = s)"

lemma no_tag: "CHR ''<'' \<notin> set s \<Longrightarrow> \<not> ambiguous_html_citation s"
  by (induction s) (auto simp: ambiguous_html_citation_def ambiguous_tag_def)

lemma text_steps:
  assumes "list_all (\<lambda>t. it_type t = ''text'' \<and> CHR ''<'' \<notin> set (it_content t)) ts" "is_links st = 0" "is_html_state st = new_visibility"
  shows "foldM (inline_step lib) st ts =
    Inr (st\<lparr>is_visible := is_visible st @ concat (map it_content ts), is_eligible := is_eligible st @ concat (map it_content ts)\<rparr>)"
  using assms
proof (induction ts arbitrary: st)
  case (Cons t ts)
  have "inline_step lib st t = Inr (st\<lparr>is_visible := is_visible st @ it_content t, is_eligible := is_eligible st @ it_content t\<rparr>)"
    using Cons.prems by (simp add: inline_step_def no_tag hides_text_def new_visibility_def)
  with Cons show ?case by simp
qed simp

lemma render_plain:
  assumes "ml_parse lib s = Some tokens" "plain_paragraph s tokens" "CHR ''<'' \<notin> set s" "s \<noteq> []"
  shows "render_markdown lib s = Inr \<lparr>rm_visible_units = [s], rm_claim_units = [(s, s)]\<rparr>"
proof -
  from assms(2) obtain op inl cl where t: "tokens = [op, inl, cl]" "bt_type op = ''paragraph_open''" "bt_type inl = ''inline''"
    "bt_type cl = ''paragraph_close''" "list_all (\<lambda>t. it_type t = ''text'') (bt_children inl)"
    "concat (map it_content (bt_children inl)) = s"
    by (auto simp: plain_paragraph_def)
  have "list_all (\<lambda>t. it_type t = ''text'' \<and> CHR ''<'' \<notin> set (it_content t)) (bt_children inl)"
    using t(5,6) assms(3) by (auto simp: list_all_iff)
  then have "inline_views lib (bt_children inl) = Inr (s, s)"
    using t(6) by (simp add: inline_views_def text_steps hides_text_def new_visibility_def)
  then show ?thesis using assms(1,4) t(1-4) by (simp add: render_markdown_def block_step_def)
qed

section \<open>Properties\<close>

lemma foldM_Inl: "foldM f a xs = Inl e \<Longrightarrow> \<exists>b x. f b x = Inl e"
  by (induction xs arbitrary: a) (auto simp: rbind_eq_Inl)

lemma mapM_Inl: "mapM f xs = Inl e \<Longrightarrow> \<exists>x. f x = Inl e"
  by (induction xs) (auto simp: res_simps rbind_eq_Inl)

lemma stored_no_value: "stored x \<noteq> Inl (ReportValue m)"
  by (simp add: stored_def split: sum.splits)

lemma no_report_value:
  "render_markdown lib d \<noteq> Inl (ReportValue m)"
  "validate_visible_citations env disk sel rm \<noteq> Inl (ReportValue m)"
  "validate_claim_support rm \<noteq> Inl (ReportValue m)"
  "reference_line renv disk i \<noteq> Inl (ReportValue m)"
proof -
  have feed: "feed_events lib b es v \<noteq> Inl (ReportValue m)" for b es v by (simp add: feed_events_def split: option.splits)
  then have "inline_step lib st t \<noteq> Inl (ReportValue m)" for st t by (auto simp: inline_step_def Let_def rbind_eq_Inl)
  then have "inline_views lib ts \<noteq> Inl (ReportValue m)" for ts by (auto simp: inline_views_def rbind_eq_Inl dest: foldM_Inl)
  moreover have "html_block_visible lib c \<noteq> Inl (ReportValue m)" for c using feed by (auto simp: html_block_visible_def rbind_eq_Inl)
  ultimately have "block_step lib st t \<noteq> Inl (ReportValue m)" for st t by (cases st) (auto simp: block_step_def rbind_eq_Inl)
  then show "render_markdown lib d \<noteq> Inl (ReportValue m)"
    by (auto simp: render_markdown_def rbind_eq_Inl split: option.splits dest: foldM_Inl)
  have "citation_ids_from_rendered rm \<noteq> Inl (ReportValue m)"
    by (auto simp: citation_ids_from_rendered_def rbind_eq_Inl dest!: foldM_Inl split: if_splits)
  then show "validate_visible_citations env disk sel rm \<noteq> Inl (ReportValue m)"
    by (auto simp: stored_no_value validate_visible_citations_def rbind_eq_Inl dest!: foldM_Inl split: if_splits)
  show "validate_claim_support rm \<noteq> Inl (ReportValue m)"
    by (auto simp: validate_claim_support_def require_def dest!: foldM_Inl split: if_splits)
  have "cited_material renv disk i \<noteq> Inl (ReportValue m)"
    by (auto simp: cited_material_def safe_url_of_def stored_def rbind_eq_Inl split: sum.splits)
  then show "reference_line renv disk i \<noteq> Inl (ReportValue m)" by (auto simp: reference_line_def rbind_eq_Inl)
qed

lemma finalize_report_value:
  assumes "check_stop p sr unc = Inr ()"
  shows "finalize_report env disk d sel p sr unc \<noteq> Inl (ReportValue m)"
proof
  assume "finalize_report env disk d sel p sr unc = Inl (ReportValue m)"
  then show False using assms
    by (auto simp: finalize_report_def Let_def rbind_eq_Inl no_report_value dest!: mapM_Inl)
qed

text \<open>
  C39. Whatever path a run of the baseline graph takes to its last report node, its stop reason is
  settled there: the run is partial exactly when it did not stop as sufficient, a sufficient run
  leaves no information need uncovered - so finalizing its report is never refused for the stop
  reason or for the needs, which would fail the run.
\<close>

theorem run_report_fits:
  assumes "walk baseline_edge (baseline_node plan) s tr FinalizeCitations t"
    and "bst_stop_reason s = None" "bst_active_subquestion_id s = None"
  shows "\<exists>r. bst_stop_reason t = Some r \<and> bst_is_partial t = (r \<noteq> Sufficient) \<and>
    (r = Sufficient \<longrightarrow> uncovered_texts plan (bst_coverage_ledger t) = []) \<and>
    (\<forall>env disk draft m. finalize_draft env disk plan t draft \<noteq> Inl (ReportValue m))"
proof -
  have "bst_stop_reason t \<noteq> None" using walk_on_course [OF assms(1,3)] by (simp add: on_course_def Let_def)
  then obtain r where r: "bst_stop_reason t = Some r" by blast
  with walk_fits [OF assms(1,2)] have f: "bst_is_partial t = (r \<noteq> Sufficient)" "r = Sufficient \<longrightarrow> uncovered_texts plan (bst_coverage_ledger t) = []"
    by (simp_all add: stop_fits_def)
  have "stop_name r \<in> stop_reasons" by (cases r) (simp_all add: stop_reasons_def)
  with r f have "check_stop (bst_is_partial t) (if bst_is_partial t then map_option stop_name (bst_stop_reason t) else None)
      (uncovered_texts plan (bst_coverage_ledger t)) = Inr ()"
    by (simp add: check_stop_eq)
  then have "finalize_draft env disk plan t draft \<noteq> Inl (ReportValue m)" for env disk draft m
    unfolding finalize_draft_def by (rule finalize_report_value)
  with r f show ?thesis by blast
qed


section \<open>A worked run\<close>

definition exhausted_state :: baseline_state where
  "exhausted_state = (baseline_state.truncate Workflow_State.demo_state)\<lparr>bst_is_partial := True, bst_stop_reason := Some BudgetExhausted\<rparr>"

lemma exhausted_state_facts:
  "valid_baseline exhausted_state" "valid_baseline (exhausted_state\<lparr>bst_draft_artifact_id := Some ''d''\<rparr>)"
  "bst_stop_reason exhausted_state = Some BudgetExhausted" "bst_is_partial exhausted_state" "bst_error_code exhausted_state = None"
proof -
  have v: "valid_baseline (baseline_state.truncate Workflow_State.demo_state)"
    using demo_state_valid by (simp add: valid_research_def valid_baseline_def baseline_state.defs)
  then show "valid_baseline exhausted_state" by (simp add: exhausted_state_def valid_baseline_def)
  with v show "valid_baseline (exhausted_state\<lparr>bst_draft_artifact_id := Some ''d''\<rparr>)" by (simp add: valid_baseline_def some_text_def)
  show "bst_stop_reason exhausted_state = Some BudgetExhausted" "bst_is_partial exhausted_state" "bst_error_code exhausted_state = None"
    by (simp_all add: exhausted_state_def Workflow_State.demo_state_def baseline_state.defs)
qed

lemma run_report_fits_witness:
  "\<exists>s tr t. walk baseline_edge (baseline_node demo_plan) s tr FinalizeCitations t \<and> bst_is_partial t \<and>
     (\<forall>env disk draft m. finalize_draft env disk demo_plan t draft \<noteq> Inl (ReportValue m))"
proof -
  let ?s = "baseline_state.truncate Workflow_State.demo_state"
  let ?t = "exhausted_state\<lparr>bst_draft_artifact_id := Some ''d''\<rparr>"
  have v: "valid_baseline ?s" using demo_state_valid by (simp add: valid_research_def valid_baseline_def baseline_state.defs)
  have none: "bst_active_subquestion_id ?s = None" "bst_error_code ?s = None" "bst_stop_reason ?s = None"
    by (simp_all add: Workflow_State.demo_state_def baseline_state.defs)
  note facts = exhausted_state_facts
  have "baseline_node demo_plan ValidateRequest ?s ?s" by (rule bn_done [OF _ books_refl]) simp
  moreover have "baseline_edge ValidateRequest ?s = Inr Plan"
    by (simp add: listed_def baseline_route_on_success_def restored_valid [OF v] none)
  ultimately have w1: "walk baseline_edge (baseline_node demo_plan) ?s ([] @ [(ValidateRequest, ?s)]) Plan ?s"
    by (rule walk_step [OF walk_start, rotated]) simp_all
  have "baseline_node demo_plan Plan ?s exhausted_state"
    by (rule bn_budget) (simp add: books_refl exhausted_state_def)
  moreover have "baseline_edge Plan exhausted_state = Inr DraftReport"
    by (simp add: listed_def baseline_route_on_success_def restored_valid [OF facts(1)] facts)
  ultimately have w2: "walk baseline_edge (baseline_node demo_plan) ?s (([] @ [(ValidateRequest, ?s)]) @ [(Plan, exhausted_state)]) DraftReport exhausted_state"
    by (rule walk_step [OF w1, rotated]) simp_all
  have "baseline_node demo_plan DraftReport exhausted_state ?t" by (rule bn_done [OF _ books_refl]) auto
  moreover have "baseline_edge DraftReport ?t = Inr FinalizeCitations"
    by (simp add: listed_def baseline_route_on_success_def restored_valid [OF facts(2)] facts)
  ultimately have w3: "walk baseline_edge (baseline_node demo_plan) ?s
      ((([] @ [(ValidateRequest, ?s)]) @ [(Plan, exhausted_state)]) @ [(DraftReport, ?t)]) FinalizeCitations ?t"
    by (rule walk_step [OF w2, rotated]) simp_all
  have "bst_is_partial ?t" using facts(4) by simp
  with run_report_fits [OF w3 none(3,1)] w3 show ?thesis by blast
qed

definition demo_ids_state :: baseline_state where
  "demo_ids_state = exhausted_state\<lparr>bst_selected_evidence_ids := [''E-1'']\<rparr>"

fun demo_coerce :: "json \<Rightarrow> artifact_ref option" where
  "demo_coerce (JDict [(_, JStr i), (_, JStr m), (_, JStr s), (_, JInt n)]) =
     Some \<lparr>ar_artifact_id = i, ar_sha256 = s, ar_media_type = m, ar_size_bytes = n\<rparr>"
| "demo_coerce _ = None"

definition demo_digest :: "string \<Rightarrow> string" where
  "demo_digest x = (if x = local_draft [''E-1''] then replicate 64 (CHR ''0'') else replicate 64 (CHR ''1''))"

definition demo_run_env :: report_run_env where
  "demo_run_env = \<lparr>rr_report = demo_report_env,
     rr_artifacts = \<lparr>ae_store = demo_env\<lparr>se_sha := demo_digest\<rparr>, ae_coerce_ref = demo_coerce\<rparr>, rr_model = None\<rparr>"

lemma demo_readable_ref: "readable_ref (rr_artifacts demo_run_env) r"
  by (cases r) (simp add: readable_ref_def demo_run_env_def ref_json_def)

lemma demo_put:
  assumes "a (demo_digest x) = Absent"
  shows "\<exists>r. put_bytes (rr_artifacts demo_run_env) x markdown_media_type a =
    Inr (r, a(demo_digest x := written (ae_store (rr_artifacts demo_run_env)) (artifact_payload r x)))"
proof -
  have "is_sha256 (demo_digest x)" by (simp add: is_sha256_def demo_digest_def lower_hex_def list_all_iff)
  moreover have "strip markdown_media_type = markdown_media_type" "markdown_media_type \<noteq> []"
    by (simp_all add: markdown_media_type_def strip_def is_ws_def)
  ultimately show ?thesis using assms by (simp add: put_bytes_def mk_artifact_ref_def demo_run_env_def Let_def)
qed


end
