(* ===== verification/Spec2Isabelle.thy ===== *)
theory Spec2Isabelle
  imports Budget_Correct Stop_Correct Run_Manager_Props Query_Scheduler_Correct Citations Evidence_Ranking Planners
    Fixed_Planner Resilience Workflow_Runs Claim_Correct Claim_Removal
    Manifest_Correct Metered_Correct Evidence_Store_Correct Artifact_Store Report_Run
begin

text \<open>
  A verification development for Multi-Agent-DeepResearch, a Python service that plans, runs and
  audits web-research runs.  This theory is the root: it imports every other theory.

  \<^bold>\<open>The program.\<close>  A service takes a request, admits it against public limits and a daily cost
  limit, stores a run, and lets a workflow graph plan questions, search, select and judge
  evidence, and write a cited report within a budget.  The package is
  \<^verbatim>\<open>src/src/deepresearch/\<close>; the parts below are its subdirectories.  Values are immutable
  pydantic records (\<^verbatim>\<open>domain/\<close>).  A run's budget is kept by an accountant
  (\<^verbatim>\<open>runtime/budget.py\<close>) that the planner's query scheduler and the model callers reserve from
  and settle with; every provider call of the workflow is metered on it
  (\<^verbatim>\<open>workflow/baseline_graph.py\<close>); the run's row, events and cost reservation live in a database
  (\<^verbatim>\<open>storage/sqlalchemy_store.py\<close>) whose statuses follow the table of
  \<^verbatim>\<open>runtime/state_machine.py\<close>; the run manager (\<^verbatim>\<open>runtime/manager.py\<close>) drives the two together with the
  admission limits (\<^verbatim>\<open>runtime/limits.py\<close>); planning keeps a coverage ledger that the stop rules
  read; evidence is chunked, deduplicated into source families, selected, and finally checked
  by the citation guard against the recorded material; the report is written from a draft and the
  stored evidence (\<^verbatim>\<open>reporting/markdown.py\<close>); the workflow state is checkpointed after every node, unsupported claims are deleted from the draft, and a
  manifest reconciles what the run used.

  \<^bold>\<open>How code becomes definitions.\<close>  A record of the source is a \<^verbatim>\<open>record\<close>, a \<^verbatim>\<open>Literal\<close> a
  \<^verbatim>\<open>datatype\<close>, a dictionary an association list in insertion order, an integer an \<^verbatim>\<open>int\<close>, a
  string a list of code points below 256.  A function that may raise returns a sum whose left
  side is the error.  An operation under a lock or in a transaction is one step that returns the
  new state.  A \<^verbatim>\<open>float\<close> is a rational with infinities and NaN (\<^verbatim>\<open>PyFloat\<close>), every operation rounded
  to 53 bits half to even (gradual underflow included; an overflow is an infinity); a \<^verbatim>\<open>Decimal\<close> is rounded to 28 digits.
  Clock readings, fresh ids, digests, Unicode folding, embeddings, the search provider and the
  runner are arguments.

  \<^bold>\<open>The theories, in the order of the calls.\<close>
  \<^item> \<^verbatim>\<open>PyFloat\<close>, \<^verbatim>\<open>Prelude\<close>: float and decimal arithmetic with its monotonicity and exactness lemmas;
    errors, loops that may raise, dictionaries.
  \<^item> \<^verbatim>\<open>Usage\<close>, \<^verbatim>\<open>Domain\<close>, \<^verbatim>\<open>Json\<close>, \<^verbatim>\<open>Domain_Evidence\<close> (\<^verbatim>\<open>domain/\<close>): records with their
    validators; the dependency search of a plan decides acyclicity; payloads survive freezing and
    have one serialized form.
  \<^item> \<^verbatim>\<open>Budget\<close>, \<^verbatim>\<open>Budget_Interface\<close>, \<^verbatim>\<open>Budget_Correct\<close> (\<^verbatim>\<open>runtime/budget.py\<close>): the accountant, the
    contract a client sees as a locale, its invariant, and what each operation does.
  \<^item> \<^verbatim>\<open>State_Machine\<close> (\<^verbatim>\<open>state_machine.py\<close>, \<^verbatim>\<open>cancellation.py\<close>): the life cycle as a step relation.
  \<^item> \<^verbatim>\<open>Run_Store\<close>, \<^verbatim>\<open>Run_Store_Inv\<close>, \<^verbatim>\<open>Run_Store_Correct\<close>, \<^verbatim>\<open>Daily_Cost\<close> (\<^verbatim>\<open>storage/\<close>): the database
    as three tables, its invariant over all operation sequences, refinement of the life cycle,
    restart recovery, the daily cost limit, recovery of usage from events.
  \<^item> \<^verbatim>\<open>Admission_Limits\<close>, \<^verbatim>\<open>Admission_Correct\<close> (\<^verbatim>\<open>runtime/limits.py\<close>): gate, token buckets,
    all-or-nothing admission over a store interface (a locale interpreted by the run store).
  \<^item> \<^verbatim>\<open>Deployment_Policy\<close> (\<^verbatim>\<open>runtime/deployment_policy.py\<close>): what a deployment lets run.
  \<^item> \<^verbatim>\<open>Run_Manager\<close>, \<^verbatim>\<open>Run_Manager_Correct\<close>, \<^verbatim>\<open>Run_Manager_Steps\<close>, \<^verbatim>\<open>Run_Manager_Props\<close>
    (\<^verbatim>\<open>runtime/manager.py\<close>): creation, tasks, execution, recovery, cancellation and shutdown over
    store and limits; the relation \<open>service\<close> of all states reached; the books balance, every task
    ends its run, creation is idempotent and gives back what it took when it fails.
  \<^item> \<^verbatim>\<open>Ledger\<close>, \<^verbatim>\<open>Stop\<close>, \<^verbatim>\<open>Stop_Correct\<close> (\<^verbatim>\<open>planning/ledger.py\<close>, \<^verbatim>\<open>contracts.py\<close>, \<^verbatim>\<open>stop.py\<close>,
    \<^verbatim>\<open>priority.py\<close>): coverage only grows, the stop rules decide, priorities are bounded.
  \<^item> \<^verbatim>\<open>Query_Scheduler\<close>, \<^verbatim>\<open>Query_Scheduler_Correct\<close> (\<^verbatim>\<open>planning/query_scheduler.py\<close>): two stages of
    deduplication, and dispatch as any interleaving of its search tasks over the accountant.
  \<^item> \<^verbatim>\<open>Chunking\<close>, \<^verbatim>\<open>Near_Duplicates\<close> (\<^verbatim>\<open>retrieval/\<close>): chunks cover a text; SimHash and title signals.
  \<^item> \<^verbatim>\<open>Source_Families\<close>, \<^verbatim>\<open>Evidence_Selection\<close> (\<^verbatim>\<open>evidence/normalize.py\<close>, \<^verbatim>\<open>pass_a.py\<close>): union-find
    computes connected components; deduplication and the first selection pass.
  \<^item> \<^verbatim>\<open>Evidence_Judge\<close>, \<^verbatim>\<open>Evidence_Features\<close>, \<^verbatim>\<open>Evidence_Ranking\<close> (\<^verbatim>\<open>evidence/claims.py\<close>,
    \<^verbatim>\<open>features.py\<close>, \<^verbatim>\<open>rankers.py\<close>, \<^verbatim>\<open>similarity.py\<close>): the budgeted model call, the extractor and the
    judge; the eight features and the three rankers, whose scores are bounded and ordered.
  \<^item> \<^verbatim>\<open>Planners\<close>, \<^verbatim>\<open>Plan_Snapshot\<close>, \<^verbatim>\<open>Plan_Validation\<close>, \<^verbatim>\<open>Fixed_Planner\<close> (\<^verbatim>\<open>planning/planners.py\<close>,
    \<^verbatim>\<open>validation.py\<close>, \<^verbatim>\<open>fixed.py\<close>): the decisions of P1 and P2; the bounded snapshot of a model's JSON
    and the exact conditions under which a plan is accepted; plan creation with one repair, and the
    queries of a question as any interleaving of tasks behind its lock.
  \<^item> \<^verbatim>\<open>Provider_Errors\<close>, \<^verbatim>\<open>Resilience\<close> (\<^verbatim>\<open>providers/errors.py\<close>, \<^verbatim>\<open>resilience.py\<close>): the error record; a
    provider call ends within its attempts and its deadline.
  \<^item> \<^verbatim>\<open>Metered_Call\<close>, \<^verbatim>\<open>Metered_Correct\<close> (\<^verbatim>\<open>workflow/baseline_graph.py\<close>): the metered call that reserves,
    calls, settles or releases and leaves a fact on each path; it closes its reservation, and the
    facts rebuild the budget after a crash.
  \<^item> \<^verbatim>\<open>Checkpoints\<close> (\<^verbatim>\<open>runtime/checkpoints.py\<close>): the strict serializer gives back what it was given.
  \<^item> \<^verbatim>\<open>Workflow_State\<close>, \<^verbatim>\<open>Workflow_Graph\<close>, \<^verbatim>\<open>Workflow_Runs\<close> (\<^verbatim>\<open>workflow/state.py\<close>,
    \<^verbatim>\<open>research_graph.py\<close>, \<^verbatim>\<open>baseline_graph.py\<close>): the validated state, the nodes that decide, the edges,
    and the runs of both graphs as step relations: they end, and only where they should.
  \<^item> \<^verbatim>\<open>Claim_Resolution\<close>, \<^verbatim>\<open>Claim_Correct\<close>, \<^verbatim>\<open>Claim_Removal\<close> (\<^verbatim>\<open>workflow/research_handlers.py\<close>): claims
    are extracted and verified against the evidence, and unsupported ones deleted from the draft.
  \<^item> \<^verbatim>\<open>Evidence_Store\<close>, \<^verbatim>\<open>Evidence_Store_Correct\<close> (\<^verbatim>\<open>storage/evidence_store.py\<close>): the store over files that may
    hold anything; what it serves is exact, and what it stored stays.
  \<^item> \<^verbatim>\<open>Artifact_Store\<close> (\<^verbatim>\<open>storage/artifacts.py\<close>): content-addressed bytes behind base64, which reads back.
  \<^item> \<^verbatim>\<open>Report\<close>, \<^verbatim>\<open>Report_Correct\<close> (\<^verbatim>\<open>reporting/markdown.py\<close>), \<^verbatim>\<open>Report_Run\<close> (the report nodes of
    \<^verbatim>\<open>baseline_graph.py\<close>): what a reader of a report sees and when it is finalized; along every run
    the report fits its stop reason, and a run that exhausts its budget gets one.
  \<^item> \<^verbatim>\<open>Manifest\<close>, \<^verbatim>\<open>Manifest_Correct\<close> (\<^verbatim>\<open>runtime/manifest.py\<close>): prices, costs, and the reconciliation
    that an accepted manifest of a run has passed.
  \<^item> \<^verbatim>\<open>Citations\<close> (\<^verbatim>\<open>evidence/graph.py\<close>, \<^verbatim>\<open>citation_guard.py\<close>): the claim-evidence graph, and the guard
    that accepts exactly the reports whose citations resolve.

  \<^bold>\<open>Fuel and termination.\<close>  No definition uses fuel.  The search of a plan's dependencies and its
  layers, the snapshot of a JSON value, the scanners of drafts and reports, the attempts of a
  provider call, the coding of checkpoints and the longest matching blocks of two titles are
  functions with a termination proof; the chunk loop and the find of the union-find may not return
  on arbitrary states, so they are \<^verbatim>\<open>partial_function\<close>s, proved to return on everything the code
  passes them.  Concurrent parts and the two graphs are inductive step relations.

  \<^bold>\<open>Not modelled.\<close>  Providers, their recording and replay, the command line, the user interface,
  scripts and experiments are input and output around the parts above.  The graph library is taken
  to run the node that an edge names.  Of the baseline handlers the encoding of audit receipts and
  run headers, the caches, and searching, fetching, parsing, storing and persisting are
  left out, as are the URL policy, redaction,
  and the fields of a call record that depend on its operation.  Resuming a run (which never
  changes anything), the asyncio locks and semaphores themselves, database outages inside an
  operation, and the processes of several managers at once are left out; the state after an
  interfering manager is covered where the code handles it
  (\<open>failed_creation_returns_reservation\<close>).
\<close>

end
